(* ===== verification/Gull_Prelude.thy ===== *)
theory Gull_Prelude
  imports Main "HOL-Library.Word"
begin

text \<open>
  Shared vocabulary of the development: machine integers, the values that stand for the
  ways C++ code stops (an assertion that aborts, an exception, an access outside an
  object), the library's error codes (\<open>include/nvmm/error_code.h\<close>), the rounding
  helpers of \<open>src/common/common.h\<close>, and the generic lemmas on words, lists and function
  updates that the component theories use.

  The default build (\<open>CMakeLists.txt\<close>) does not define \<open>NDEBUG\<close>, in Release neither,
  so an \<open>assert\<close> of the code is live and a failing one is modelled as the fault
  \<open>Assert_Failed\<close>.
\<close>

unbundle bit_operations_syntax

named_theorems word_arith_simps \<open>reading 64-bit arithmetic as natural numbers\<close>
named_theorems frame_simps \<open>fields an operation leaves alone\<close>

type_synonym u8 = "8 word"
type_synonym u16 = "16 word"
type_synonym u32 = "32 word"
type_synonym u64 = "64 word"

section \<open>Faults and results\<close>

text \<open>
  \<open>Assert_Failed\<close>: an \<open>assert\<close> aborts the process. \<open>Runtime_Error\<close>: a
  \<open>std::runtime_error\<close> (or another exception) is thrown. \<open>Out_Of_Bounds\<close>: the code indexes
  outside an array or a mapping (undefined behaviour in C++). \<open>Exited\<close>: the code calls
  \<open>exit (1)\<close>. \<open>Deadlock\<close>: it waits for a mutex that it
  holds itself. \<open>Division_By_Zero\<close>: it divides by 0 and is killed.
\<close>

datatype fault = Assert_Failed | Runtime_Error | Out_Of_Bounds | Deadlock | Exited | Division_By_Zero

type_synonym 'a result = "fault + 'a"

definition rbind :: "'a result \<Rightarrow> ('a \<Rightarrow> 'b result) \<Rightarrow> 'b result" where
  "rbind m f = (case m of Inl e \<Rightarrow> Inl e | Inr x \<Rightarrow> f x)"

definition check :: "bool \<Rightarrow> fault \<Rightarrow> unit result" where
  "check b e = (if b then Inr () else Inl e)"

lemma rbind_simps [simp]:
  "rbind (Inl e) f = Inl e"
  "rbind (Inr x) f = f x"
  by (simp_all add: rbind_def)

lemma rbind_Inr_iff: "rbind m f = Inr y \<longleftrightarrow> (\<exists>x. m = Inr x \<and> f x = Inr y)"
  by (cases m) auto

lemma rbindE [elim!]:
  assumes "rbind m f = Inr y"
  obtains x where "m = Inr x" and "f x = Inr y"
  using assms by (auto simp: rbind_Inr_iff)

lemma check_simps [simp]:
  "check True e = Inr ()"
  "check False e = Inl e"
  "check b e = Inr u \<longleftrightarrow> b"
  by (simp_all add: check_def)

text \<open>Computations that may also not return (\<open>None\<close>).\<close>

definition obind :: "'a result option \<Rightarrow> ('a \<Rightarrow> 'b result option) \<Rightarrow> 'b result option" where
  "obind m f = (case m of None \<Rightarrow> None | Some (Inl e) \<Rightarrow> Some (Inl e) | Some (Inr x) \<Rightarrow> f x)"

lemma obind_simps [simp]:
  "obind None f = None"
  "obind (Some (Inl e)) f = Some (Inl e)"
  "obind (Some (Inr x)) f = f x"
  by (simp_all add: obind_def)

lemma obind_mono [partial_function_mono]:
  assumes "mono_option B" "\<And>y. mono_option (\<lambda>f. C y f)"
  shows "mono_option (\<lambda>f. obind (B f) (\<lambda>y. C y f))"
proof -
  have b: "obind m f = Option.bind m (case_sum (\<lambda>e. Some (Inl e)) f)" for m :: "'c result option" and f :: "'c \<Rightarrow> 'd result option"
    by (simp add: obind_def split: option.split sum.split)
  have "mono_option (\<lambda>f. case y of Inl e \<Rightarrow> Some (Inl e) | Inr x \<Rightarrow> C x f)" for y :: "'c result"
    using assms(2) by (cases y) (simp_all add: option.const_mono)
  then show ?thesis unfolding b by (rule bind_mono [OF assms(1)])
qed

lemma obind_rbind: "obind (Some (rbind m f)) g = (case m of Inl e \<Rightarrow> Some (Inl e) | Inr x \<Rightarrow> obind (Some (f x)) g)"
  by (cases m) simp_all

lemma obind_assoc: "obind (obind m f) g = obind m (\<lambda>x. obind (f x) g)"
  by (simp add: obind_def split: option.split sum.split)

lemma obind_return: "obind m (\<lambda>x. Some (Inr x)) = m"
  by (simp add: obind_def split: option.split sum.split)

section \<open>Error codes\<close>

text \<open>
  The enumerators are C++ integers, numbered from 0 and restarting where the enumeration
  gives a value; several functions convert an \<open>ErrorCode\<close> to \<open>bool\<close>, which reads the number.
\<close>

type_synonym error_code = nat

abbreviation (input) NO_ERROR :: error_code where "NO_ERROR \<equiv> 0"
abbreviation (input) NOT_YET_IMPLEMENTED :: error_code where "NOT_YET_IMPLEMENTED \<equiv> 1"
abbreviation (input) BUG :: error_code where "BUG \<equiv> 2"
abbreviation (input) OUT_OF_MEMORY :: error_code where "OUT_OF_MEMORY \<equiv> 3"
abbreviation (input) INVALID_ARGUMENTS :: error_code where "INVALID_ARGUMENTS \<equiv> 4"
abbreviation (input) SHELF_FILE_CREATE_FAILED :: error_code where "SHELF_FILE_CREATE_FAILED \<equiv> 20"
abbreviation (input) SHELF_FILE_DESTROY_FAILED :: error_code where "SHELF_FILE_DESTROY_FAILED \<equiv> 21"
abbreviation (input) SHELF_FILE_TRUNCATE_FAILED :: error_code where "SHELF_FILE_TRUNCATE_FAILED \<equiv> 22"
abbreviation (input) SHELF_FILE_OPEN_FAILED :: error_code where "SHELF_FILE_OPEN_FAILED \<equiv> 23"
abbreviation (input) SHELF_FILE_CLOSE_FAILED :: error_code where "SHELF_FILE_CLOSE_FAILED \<equiv> 24"
abbreviation (input) SHELF_FILE_MAP_FAILED :: error_code where "SHELF_FILE_MAP_FAILED \<equiv> 25"
abbreviation (input) SHELF_FILE_FAM_ATOMIC_REGISTER_REGION_FAILED :: error_code where "SHELF_FILE_FAM_ATOMIC_REGISTER_REGION_FAILED \<equiv> 26"
abbreviation (input) SHELF_FILE_UNMAP_FAILED :: error_code where "SHELF_FILE_UNMAP_FAILED \<equiv> 27"
abbreviation (input) SHELF_FILE_FOUND :: error_code where "SHELF_FILE_FOUND \<equiv> 28"
abbreviation (input) SHELF_FILE_NOT_FOUND :: error_code where "SHELF_FILE_NOT_FOUND \<equiv> 29"
abbreviation (input) SHELF_FILE_RENAME_FAILED :: error_code where "SHELF_FILE_RENAME_FAILED \<equiv> 30"
abbreviation (input) SHELF_FILE_FORMAT_FAILED :: error_code where "SHELF_FILE_FORMAT_FAILED \<equiv> 31"
abbreviation (input) SHELF_FILE_CLEAR_FAILED :: error_code where "SHELF_FILE_CLEAR_FAILED \<equiv> 32"
abbreviation (input) SHELF_FILE_VERIFY_FAILED :: error_code where "SHELF_FILE_VERIFY_FAILED \<equiv> 33"
abbreviation (input) SHELF_FILE_INVALID_FORMAT :: error_code where "SHELF_FILE_INVALID_FORMAT \<equiv> 34"
abbreviation (input) SHELF_FILE_RECOVER_FAILED :: error_code where "SHELF_FILE_RECOVER_FAILED \<equiv> 35"
abbreviation (input) SHELF_FILE_GET_PERM_FAILED :: error_code where "SHELF_FILE_GET_PERM_FAILED \<equiv> 36"
abbreviation (input) SHELF_FILE_SET_PERM_FAILED :: error_code where "SHELF_FILE_SET_PERM_FAILED \<equiv> 37"
abbreviation (input) SHELF_FILE_OPENED :: error_code where "SHELF_FILE_OPENED \<equiv> 38"
abbreviation (input) SHELF_FILE_CLOSED :: error_code where "SHELF_FILE_CLOSED \<equiv> 39"
abbreviation (input) POOL_CREATE_FAILED :: error_code where "POOL_CREATE_FAILED \<equiv> 60"
abbreviation (input) POOL_DESTROY_FAILED :: error_code where "POOL_DESTROY_FAILED \<equiv> 61"
abbreviation (input) POOL_VERIFY_FAILED :: error_code where "POOL_VERIFY_FAILED \<equiv> 62"
abbreviation (input) POOL_OPEN_FAILED :: error_code where "POOL_OPEN_FAILED \<equiv> 63"
abbreviation (input) POOL_CLOSE_FAILED :: error_code where "POOL_CLOSE_FAILED \<equiv> 64"
abbreviation (input) POOL_MEMBERSHIP_FULL :: error_code where "POOL_MEMBERSHIP_FULL \<equiv> 65"
abbreviation (input) POOL_MEMBERSHIP_EMPTY :: error_code where "POOL_MEMBERSHIP_EMPTY \<equiv> 66"
abbreviation (input) POOL_INVALID_META_FILE :: error_code where "POOL_INVALID_META_FILE \<equiv> 67"
abbreviation (input) POOL_INVALID_POOL_ID :: error_code where "POOL_INVALID_POOL_ID \<equiv> 68"
abbreviation (input) POOL_FOUND :: error_code where "POOL_FOUND \<equiv> 69"
abbreviation (input) POOL_NOT_FOUND :: error_code where "POOL_NOT_FOUND \<equiv> 70"
abbreviation (input) POOL_SHELF_FOUND :: error_code where "POOL_SHELF_FOUND \<equiv> 71"
abbreviation (input) POOL_SHELF_NOT_FOUND :: error_code where "POOL_SHELF_NOT_FOUND \<equiv> 72"
abbreviation (input) POOL_ADD_SHELF_FAILED :: error_code where "POOL_ADD_SHELF_FAILED \<equiv> 73"
abbreviation (input) POOL_REMOVE_SHELF_FAILED :: error_code where "POOL_REMOVE_SHELF_FAILED \<equiv> 74"
abbreviation (input) POOL_INCONSISTENCY_FOUND :: error_code where "POOL_INCONSISTENCY_FOUND \<equiv> 75"
abbreviation (input) POOL_OPENED :: error_code where "POOL_OPENED \<equiv> 76"
abbreviation (input) POOL_CLOSED :: error_code where "POOL_CLOSED \<equiv> 77"
abbreviation (input) MEMBERSHIP_CREATE_FAILED :: error_code where "MEMBERSHIP_CREATE_FAILED \<equiv> 80"
abbreviation (input) MEMBERSHIP_DESTROY_FAILED :: error_code where "MEMBERSHIP_DESTROY_FAILED \<equiv> 81"
abbreviation (input) MEMBERSHIP_OPEN_FAILED :: error_code where "MEMBERSHIP_OPEN_FAILED \<equiv> 82"
abbreviation (input) HEAP_CREATE_FAILED :: error_code where "HEAP_CREATE_FAILED \<equiv> 100"
abbreviation (input) HEAP_DESTROY_FAILED :: error_code where "HEAP_DESTROY_FAILED \<equiv> 101"
abbreviation (input) HEAP_OPEN_FAILED :: error_code where "HEAP_OPEN_FAILED \<equiv> 102"
abbreviation (input) HEAP_CLOSE_FAILED :: error_code where "HEAP_CLOSE_FAILED \<equiv> 103"
abbreviation (input) HEAP_ALLOC_FAILED :: error_code where "HEAP_ALLOC_FAILED \<equiv> 104"
abbreviation (input) HEAP_OPENED :: error_code where "HEAP_OPENED \<equiv> 105"
abbreviation (input) HEAP_CLOSED :: error_code where "HEAP_CLOSED \<equiv> 106"
abbreviation (input) HEAP_RESIZE_FAILED :: error_code where "HEAP_RESIZE_FAILED \<equiv> 107"
abbreviation (input) HEAP_SET_PERMISSION_FAILED :: error_code where "HEAP_SET_PERMISSION_FAILED \<equiv> 108"
abbreviation (input) HEAP_GET_PERMISSION_FAILED :: error_code where "HEAP_GET_PERMISSION_FAILED \<equiv> 109"
abbreviation (input) HEAP_BUSY :: error_code where "HEAP_BUSY \<equiv> 110"
abbreviation (input) HEAP_NOT_OPEN :: error_code where "HEAP_NOT_OPEN \<equiv> 111"
abbreviation (input) HEAP_IS_OPEN :: error_code where "HEAP_IS_OPEN \<equiv> 112"
abbreviation (input) REGION_CREATE_FAILED :: error_code where "REGION_CREATE_FAILED \<equiv> 120"
abbreviation (input) REGION_DESTROY_FAILED :: error_code where "REGION_DESTROY_FAILED \<equiv> 121"
abbreviation (input) REGION_OPEN_FAILED :: error_code where "REGION_OPEN_FAILED \<equiv> 122"
abbreviation (input) REGION_CLOSE_FAILED :: error_code where "REGION_CLOSE_FAILED \<equiv> 123"
abbreviation (input) REGION_MAP_FAILED :: error_code where "REGION_MAP_FAILED \<equiv> 124"
abbreviation (input) REGION_UNMAP_FAILED :: error_code where "REGION_UNMAP_FAILED \<equiv> 125"
abbreviation (input) REGION_OPENED :: error_code where "REGION_OPENED \<equiv> 126"
abbreviation (input) REGION_CLOSED :: error_code where "REGION_CLOSED \<equiv> 127"
abbreviation (input) FREELISTS_CREATE_FAILED :: error_code where "FREELISTS_CREATE_FAILED \<equiv> 140"
abbreviation (input) FREELISTS_DESTROY_FAILED :: error_code where "FREELISTS_DESTROY_FAILED \<equiv> 141"
abbreviation (input) FREELISTS_OPEN_FAILED :: error_code where "FREELISTS_OPEN_FAILED \<equiv> 142"
abbreviation (input) FREELISTS_PUT_FAILED :: error_code where "FREELISTS_PUT_FAILED \<equiv> 143"
abbreviation (input) FREELISTS_EMPTY :: error_code where "FREELISTS_EMPTY \<equiv> 144"
abbreviation (input) OWNERSHIP_CREATE_FAILED :: error_code where "OWNERSHIP_CREATE_FAILED \<equiv> 150"
abbreviation (input) OWNERSHIP_DESTROY_FAILED :: error_code where "OWNERSHIP_DESTROY_FAILED \<equiv> 151"
abbreviation (input) OWNERSHIP_OPEN_FAILED :: error_code where "OWNERSHIP_OPEN_FAILED \<equiv> 152"
abbreviation (input) ID_FOUND :: error_code where "ID_FOUND \<equiv> 200"
abbreviation (input) ID_NOT_FOUND :: error_code where "ID_NOT_FOUND \<equiv> 201"
abbreviation (input) INVALID_PTR :: error_code where "INVALID_PTR \<equiv> 202"
abbreviation (input) MAP_POINTER_FAILED :: error_code where "MAP_POINTER_FAILED \<equiv> 203"
abbreviation (input) SHELF_ID_NOT_FOUND :: error_code where "SHELF_ID_NOT_FOUND \<equiv> 250"
abbreviation (input) MAX_RETURN_CODE :: error_code where "MAX_RETURN_CODE \<equiv> 251"

definition bool_of_code :: "error_code \<Rightarrow> bool" where
  "bool_of_code c \<longleftrightarrow> c \<noteq> 0"

section \<open>Rounding\<close>

definition kCacheLineSize :: u64 where
  "kCacheLineSize = 64"

definition round_up :: "u64 \<Rightarrow> u64 \<Rightarrow> u64" where
  "round_up x multiple = ((x + multiple - 1) div multiple) * multiple"

definition round_down :: "u64 \<Rightarrow> u64 \<Rightarrow> u64" where
  "round_down x multiple = x div multiple * multiple"

section \<open>Words\<close>

lemma unat_lt_64 [simp]: "unat (w :: u64) < 18446744073709551616"
  using unsigned_less [of w, where ?'a = nat] by simp

lemma unat_of_nat_64: "n < 2 ^ 64 \<Longrightarrow> unat (of_nat n :: u64) = n"
  by (simp add: unat_of_nat take_bit_nat_eq_self)

lemma unat_add_small: "unat a + unat b < 2 ^ 64 \<Longrightarrow> unat (a + b :: u64) = unat a + unat b"
  by (simp add: unat_word_ariths)

lemma unat_mult_small: "unat a * unat b < 2 ^ 64 \<Longrightarrow> unat (a * b :: u64) = unat a * unat b"
  by (simp add: unat_word_ariths)

lemma unat_sub_ge: "unat b \<le> unat a \<Longrightarrow> unat (a - b :: u64) = unat a - unat b"
  by (simp add: unat_sub word_le_nat_alt)

lemma unat_power_of_2: "t < 64 \<Longrightarrow> unat (2 ^ t :: u64) = 2 ^ t"
proof -
  assume "t < 64"
  then have "(2 :: nat) ^ t < 2 ^ 64"
    by (intro power_strict_increasing) simp_all
  from unat_of_nat_64 [OF this] show ?thesis by simp
qed

lemma unat_push_bit_1: "t < 64 \<Longrightarrow> unat (push_bit t 1 :: u64) = 2 ^ t"
  by (simp add: push_bit_eq_mult unat_power_of_2)

lemma u64_eqI: "unat a = unat b \<Longrightarrow> (a :: u64) = b"
  by (simp add: word_unat_eq_iff)

lemma bit_u64_iff: "bit (w :: u64) n \<longleftrightarrow> n < 64 \<and> bit (unat w) n"
  by (auto simp: bit_unsigned_iff dest: bit_imp_le_length)

lemma nat_bit_lt_power: "(n :: nat) < 2 ^ t \<Longrightarrow> bit n i \<Longrightarrow> i < t"
  by (metis bit_take_bit_iff take_bit_nat_eq_self)

lemma unat_round_up:
  assumes "0 < unat m" "unat x + unat m \<le> 2 ^ 64"
  shows "unat (round_up x m) = (unat x + unat m - 1) div unat m * unat m"
proof -
  have "unat (x + m - 1) = unat x + unat m - 1"
  proof (cases "unat x + unat m = 2 ^ 64")
    case True
    then have "x + m = 0"
      by (intro u64_eqI) (simp add: unat_word_ariths)
    then have "unat (x + m - 1) = 18446744073709551615"
      by (simp add: unsigned_minus_1_eq_mask mask_eq_exp_minus_1)
    then show ?thesis using True by simp
  next
    case False
    with assms(2) have "unat (x + m) = unat x + unat m"
      by (intro unat_add_small) simp
    moreover from this assms(1) have "unat (1 :: u64) \<le> unat (x + m)"
      by simp
    ultimately show ?thesis using unat_sub_ge by fastforce
  qed
  moreover have "(unat x + unat m - 1) div unat m * unat m < 2 ^ 64"
    using assms by (intro le_less_trans [OF div_times_less_eq_dividend]) simp
  ultimately show ?thesis
    by (simp add: round_up_def unat_div unat_mult_small)
qed

end
