(* ===== verification/Zone_Arith.thy ===== *)
theory Zone_Arith
  imports Gull_Prelude
begin

text \<open>
  The size arithmetic of the buddy allocator, \<open>src/shelf_usage/zone.cc\<close> (the same three
  functions are repeated in \<open>src/allocator/epoch_zone_heap.cc\<close>): powers of two on 64-bit
  words, the level of a size and the size of a level, and the sizes of the areas of a
  zone's header. Everything is computed on \<open>64 word\<close>, so the wrap-around of
  \<open>next_power_of_two\<close> above \<open>2 ^ 63\<close> is part of the model.
\<close>

section \<open>Powers of two\<close>

text \<open>
  The loop of \<open>power_of_two\<close>. The code enters it with \<open>n \<noteq> 0\<close> only, and the value stays
  nonzero (an even nonzero number has a nonzero half), so the case \<open>n = 0\<close> of the guard is
  never reached; it is there because a HOL function is total.
\<close>

function power_loop :: "u64 \<Rightarrow> u64 \<Rightarrow> u64" where
  "power_loop n pw =
     (if n = 1 \<or> n = 0 then pw
      else if n mod 2 \<noteq> 0 then 0
      else power_loop (drop_bit 1 n) (pw + 1))"
  by pat_completeness auto
termination
proof (relation "measure (\<lambda>(n, pw). unat n)")
  fix n pw :: u64
  assume "\<not> (n = 1 \<or> n = 0)"
  then have "0 < unat n"
    by (simp add: unat_gt_0)
  then show "((drop_bit 1 n, pw + 1), (n, pw)) \<in> measure (\<lambda>(n, pw). unat n)"
    by (simp add: unat_div drop_bit_eq_div)
qed simp

declare power_loop.simps [simp del]

definition power_of_two :: "u64 \<Rightarrow> u64" where
  "power_of_two n = (if n = 0 then 0 else power_loop n 0)"

definition is_power_of_two :: "u64 \<Rightarrow> bool" where
  "is_power_of_two n \<longleftrightarrow> n \<noteq> 0 \<and> (n AND (n - 1)) = 0"

definition next_power_of_two :: "u64 \<Rightarrow> u64" where
  "next_power_of_two n =
     (if is_power_of_two n then n
      else let n = n OR drop_bit 1 n;
               n = n OR drop_bit 2 n;
               n = n OR drop_bit 4 n;
               n = n OR drop_bit 8 n;
               n = n OR drop_bit 16 n;
               n = n OR drop_bit 32 n
           in n + 1)"

section \<open>Levels and sizes\<close>

definition MAX_ZONE_SIZE :: u64 where
  "MAX_ZONE_SIZE = 1024 * (1024 * 1024 * 1024)"

definition MIN_OBJ_SIZE :: u64 where
  "MIN_OBJ_SIZE = 64"

definition find_level_from_size :: "u64 \<Rightarrow> u64 \<Rightarrow> u64" where
  "find_level_from_size sz min_obj_size = power_of_two (sz div min_obj_size)"

definition find_size_from_level :: "u64 \<Rightarrow> u64 \<Rightarrow> u64" where
  "find_size_from_level level min_obj_size = push_bit (unat (level + power_of_two min_obj_size)) 1"

definition MAX_LEVEL_PER_ZONE :: u64 where
  "MAX_LEVEL_PER_ZONE = power_of_two (MAX_ZONE_SIZE div MIN_OBJ_SIZE)"

section \<open>Sizes of the header areas\<close>

text \<open>
  \<open>sizeof(Zone_Header)\<close>: nine 8-byte fields, padding to 16, three 64-byte stacks (the array
  \<open>free_list\<close> has length 0). \<open>sizeof(ZoneEntryStack)\<close> is one cache line by its padding;
  \<open>sizeof(zone_entry)\<close> is 8.
\<close>

definition sizeof_ZoneEntryStack :: u64 where
  "sizeof_ZoneEntryStack = 64"

definition sizeof_Zone_Header :: u64 where
  "sizeof_Zone_Header = 80 + 3 * sizeof_ZoneEntryStack"

definition get_zoneheader_size :: "u64 \<Rightarrow> u64 \<Rightarrow> u64" where
  "get_zoneheader_size shelf_size min_obj_size =
     (let max_zone_level = find_level_from_size shelf_size min_obj_size
      in next_power_of_two (sizeof_Zone_Header + sizeof_ZoneEntryStack * (max_zone_level + 1)))"

definition get_merge_bitmap_size :: "u64 \<Rightarrow> u64 \<Rightarrow> u64" where
  "get_merge_bitmap_size shelf_size min_obj_size =
     (let max_zone_level = find_level_from_size shelf_size min_obj_size
      in round_up (push_bit (unat max_zone_level) 1 div 8) kCacheLineSize)"

definition get_header_bitmap_size :: "u64 \<Rightarrow> u64 \<Rightarrow> u64" where
  "get_header_bitmap_size shelf_size min_obj_size =
     round_up (shelf_size div min_obj_size * 8) kCacheLineSize"

definition get_header_size :: "u64 \<Rightarrow> u64 \<Rightarrow> u64" where
  "get_header_size shelf_size min_obj_size =
     (let merge_bitmap_size = get_merge_bitmap_size shelf_size min_obj_size;
          zoneheader_size = get_zoneheader_size shelf_size min_obj_size;
          header_bitmap_size = get_header_bitmap_size shelf_size min_obj_size
      in header_bitmap_size + zoneheader_size + merge_bitmap_size)"

section \<open>\<open>power_of_two\<close> is the logarithm\<close>

lemma pow2_ne_0: "t < 64 \<Longrightarrow> (2 ^ t :: u64) \<noteq> 0"
  using unat_power_of_2 [of t] by force

lemma power_loop_pow2:
  "t < 64 \<Longrightarrow> power_loop (2 ^ t) p = p + of_nat t"
proof (induction t arbitrary: p)
  case 0
  then show ?case by (simp add: power_loop.simps)
next
  case (Suc t)
  then have t: "t < 64" by simp
  have ne1: "(2 ^ Suc t :: u64) \<noteq> 1"
  proof
    assume "(2 ^ Suc t :: u64) = 1"
    then have "unat (2 ^ Suc t :: u64) = unat (1 :: u64)" by (rule arg_cong)
    with Suc.prems show False by (simp add: unat_power_of_2 del: power_Suc)
  qed
  have ev: "(2 ^ Suc t :: u64) mod 2 = 0"
    by (simp add: mod2_eq_if)
  have half: "drop_bit 1 (2 ^ Suc t :: u64) = 2 ^ t"
    using Suc.prems t
    by (intro u64_eqI) (simp add: unat_div drop_bit_eq_div unat_power_of_2 del: power_Suc, simp)
  show ?case
    using pow2_ne_0 [OF Suc.prems] ne1 ev half Suc.IH [OF t, of "p + 1"]
    by (simp add: power_loop.simps [of "2 ^ Suc t"] del: power_Suc)
qed

lemma power_of_two_pow2: "t < 64 \<Longrightarrow> power_of_two (2 ^ t) = of_nat t"
  by (simp add: power_of_two_def pow2_ne_0 power_loop_pow2)

lemma is_power_of_two_pow2:
  assumes "t < 64"
  shows "is_power_of_two (2 ^ t)"
proof -
  have "(2 ^ t AND (2 ^ t - 1) :: u64) = 0"
    by (rule bit_word_eqI)
      (simp add: bit_and_iff bit_exp_iff bit_mask_iff flip: mask_eq_exp_minus_1)
  with pow2_ne_0 [OF assms] show ?thesis
    by (simp add: is_power_of_two_def)
qed

section \<open>\<open>next_power_of_two\<close>\<close>

lemma smear_step:
  assumes "\<And>i. bit (m :: u64) i \<longleftrightarrow> (\<exists>j<d. bit n (i + j))"
  shows "bit (m OR drop_bit d m) i \<longleftrightarrow> (\<exists>j<2 * d. bit n (i + j))"
proof
  assume "bit (m OR drop_bit d m) i"
  then consider "bit m i" | "bit m (d + i)"
    by (auto simp: bit_or_iff bit_drop_bit_eq)
  then show "\<exists>j<2 * d. bit n (i + j)"
  proof cases
    case 1
    then obtain j where "j < d" "bit n (i + j)" using assms by blast
    then show ?thesis by (intro exI [of _ j]) simp
  next
    case 2
    then obtain j where "j < d" "bit n (d + i + j)" using assms by blast
    then show ?thesis by (intro exI [of _ "d + j"]) (simp add: ac_simps)
  qed
next
  assume "\<exists>j<2 * d. bit n (i + j)"
  then obtain j where j: "j < 2 * d" "bit n (i + j)" by blast
  show "bit (m OR drop_bit d m) i"
  proof (cases "j < d")
    case True
    with j have "bit m i" using assms by blast
    then show ?thesis by (simp add: bit_or_iff)
  next
    case False
    with j have "j - d < d" "bit n (d + i + (j - d))" by (simp_all add: ac_simps)
    then have "bit m (d + i)" using assms by blast
    then show ?thesis by (simp add: bit_or_iff bit_drop_bit_eq)
  qed
qed

definition smear :: "u64 \<Rightarrow> u64" where
  "smear n =
     (let n = n OR drop_bit 1 n; n = n OR drop_bit 2 n; n = n OR drop_bit 4 n;
          n = n OR drop_bit 8 n; n = n OR drop_bit 16 n; n = n OR drop_bit 32 n in n)"

lemma bit_smear: "bit (smear n) i \<longleftrightarrow> (\<exists>j<64. bit n (i + j))"
proof -
  define n1 where "n1 = n OR drop_bit 1 n"
  define n2 where "n2 = n1 OR drop_bit 2 n1"
  define n4 where "n4 = n2 OR drop_bit 4 n2"
  define n8 where "n8 = n4 OR drop_bit 8 n4"
  define n16 where "n16 = n8 OR drop_bit 16 n8"
  have 1: "\<And>i. bit n1 i \<longleftrightarrow> (\<exists>j<2. bit n (i + j))"
    using smear_step [of n 1 n] by (simp add: n1_def)
  have 2: "\<And>i. bit n2 i \<longleftrightarrow> (\<exists>j<4. bit n (i + j))"
    using smear_step [OF 1] by (simp add: n2_def)
  have 4: "\<And>i. bit n4 i \<longleftrightarrow> (\<exists>j<8. bit n (i + j))"
    using smear_step [OF 2] by (simp add: n4_def)
  have 8: "\<And>i. bit n8 i \<longleftrightarrow> (\<exists>j<16. bit n (i + j))"
    using smear_step [OF 4] by (simp add: n8_def)
  have 16: "\<And>i. bit n16 i \<longleftrightarrow> (\<exists>j<32. bit n (i + j))"
    using smear_step [OF 8] by (simp add: n16_def)
  have "bit (n16 OR drop_bit 32 n16) i \<longleftrightarrow> (\<exists>j<64. bit n (i + j))"
    using smear_step [OF 16] by simp
  then show ?thesis
    unfolding smear_def Let_def n16_def n8_def n4_def n2_def n1_def .
qed

lemma next_power_of_two_smear:
  "next_power_of_two n = (if is_power_of_two n then n else smear n + 1)"
  by (simp add: next_power_of_two_def smear_def Let_def)

lemma some_bit_above_iff: "(\<exists>j<64. bit (n :: u64) (i + j)) \<longleftrightarrow> 2 ^ i \<le> unat n"
proof
  assume "\<exists>j<64. bit n (i + j)"
  then obtain j where "bit (unat n) (i + j)" by (auto simp: bit_u64_iff)
  then have "\<not> unat n < 2 ^ (i + j)" using nat_bit_lt_power by blast
  moreover have "(2 :: nat) ^ i \<le> 2 ^ (i + j)" by (simp add: power_increasing)
  ultimately show "2 ^ i \<le> unat n" by linarith
next
  assume "2 ^ i \<le> unat n"
  then have "drop_bit i (unat n) \<noteq> 0" by (simp add: drop_bit_eq_div div_greater_zero_iff)
  then obtain j where "bit (drop_bit i (unat n)) j" by (metis bit_eq_iff bit_0_eq bot_apply bot_bool_def)
  then have "bit (unat n) (i + j)" by (simp add: bit_drop_bit_eq)
  moreover from this have "i + j < 64"
    using nat_bit_lt_power [of "unat n" 64 "i + j"] by simp
  ultimately show "\<exists>j<64. bit n (i + j)"
    by (intro exI [of _ j]) (simp add: bit_u64_iff)
qed

lemma smear_mask:
  assumes "2 ^ t \<le> unat n" "unat n < 2 ^ Suc t"
  shows "smear n = mask (Suc t)"
proof (rule bit_word_eqI)
  fix i
  assume "i < LENGTH(64)"
  have "2 ^ i \<le> unat n \<longleftrightarrow> i \<le> t"
  proof
    assume "2 ^ i \<le> unat n"
    with assms(2) have "(2 :: nat) ^ i < 2 ^ Suc t" by linarith
    then show "i \<le> t" by (simp del: power_Suc)
  next
    assume "i \<le> t"
    then have "(2 :: nat) ^ i \<le> 2 ^ t" by (rule power_increasing) simp
    with assms(1) show "2 ^ i \<le> unat n" by linarith
  qed
  with \<open>i < LENGTH(64)\<close> show "bit (smear n) i = bit (mask (Suc t) :: u64) i"
    by (simp add: bit_smear some_bit_above_iff bit_mask_iff less_Suc_eq_le)
qed

lemma log2_floor_ex: "0 < (n :: nat) \<Longrightarrow> \<exists>t. 2 ^ t \<le> n \<and> n < 2 ^ Suc t"
  using ex_power_ivl1 [of 2 n] by simp

lemma is_power_of_two_iff: "is_power_of_two n \<longleftrightarrow> (\<exists>t<64. n = 2 ^ t)"
proof
  assume p: "is_power_of_two n"
  then have "n \<noteq> 0" by (simp add: is_power_of_two_def)
  then obtain t where t: "2 ^ t \<le> unat n" "unat n < 2 ^ Suc t"
    using log2_floor_ex [of "unat n"] by (auto simp: unat_gt_0)
  have t64: "t < 64"
  proof (rule ccontr)
    assume "\<not> t < 64"
    then have "(2 :: nat) ^ 64 \<le> 2 ^ t" by (intro power_increasing) simp_all
    with t(1) show False using unat_lt_64 [of n] by simp
  qed
  have top: "bit m t" if "2 ^ t \<le> unat m" "unat m < 2 ^ Suc t" for m :: u64
  proof -
    from that have "unat m div 2 ^ t = 1"
      by (simp add: div_nat_eqI)
    then show ?thesis by (simp add: bit_u64_iff t64 bit_iff_odd)
  qed
  show "\<exists>t<64. n = 2 ^ t"
  proof (rule ccontr)
    assume "\<not> (\<exists>t<64. n = 2 ^ t)"
    with t64 have "n \<noteq> 2 ^ t" by blast
    then have "unat n \<noteq> 2 ^ t" using unat_power_of_2 [OF t64] u64_eqI by metis
    with t have "2 ^ t < unat n" by simp
    moreover have "unat (n - 1) = unat n - 1"
      using \<open>n \<noteq> 0\<close> unat_sub_ge [of 1 n] by (simp add: Suc_le_eq unat_gt_0)
    ultimately have "bit n t" "bit (n - 1) t"
      using t by (auto intro!: top)
    then have "bit (n AND (n - 1)) t" by (simp add: bit_and_iff)
    with p show False by (simp add: is_power_of_two_def)
  qed
qed (auto intro: is_power_of_two_pow2)

text \<open>
  The value of \<open>next_power_of_two\<close>: the least power of two not below the argument, as long as
  there is one in 64 bits, and 0 above.
\<close>

lemma next_power_of_two_least:
  assumes "0 < unat n" "unat n \<le> 2 ^ 63"
  shows "\<exists>t<64. next_power_of_two n = 2 ^ t \<and> unat n \<le> 2 ^ t \<and> 2 ^ t < 2 * unat n"
proof (cases "is_power_of_two n")
  case True
  then obtain t where "t < 64" "n = 2 ^ t" by (auto simp: is_power_of_two_iff)
  with True show ?thesis
    by (intro exI [of _ t]) (simp add: next_power_of_two_smear unat_power_of_2)
next
  case False
  from assms(1) obtain t where t: "2 ^ t \<le> unat n" "unat n < 2 ^ Suc t"
    using log2_floor_ex by blast
  have ne: "unat n \<noteq> 2 ^ t" if "t < 64"
    using False that unat_power_of_2 [OF that] u64_eqI is_power_of_two_pow2 by metis
  have "t < 63"
  proof (rule ccontr)
    assume "\<not> t < 63"
    then have "(2 :: nat) ^ 63 \<le> 2 ^ t" by (intro power_increasing) simp_all
    with t(1) assms(2) have "unat n = 2 ^ 63" "(2 :: nat) ^ t = 2 ^ 63" by simp_all
    then have "t = 63" using power_inject_exp [of "2 :: nat" t 63] by simp
    with ne \<open>unat n = 2 ^ 63\<close> show False by simp
  qed
  then have "next_power_of_two n = 2 ^ Suc t"
    using False smear_mask [OF t] by (simp add: next_power_of_two_smear mask_eq_exp_minus_1)
  with \<open>t < 63\<close> t ne show ?thesis by (intro exI [of _ "Suc t"]) auto
qed

lemma next_power_of_two_overflow:
  assumes "2 ^ 63 < unat n"
  shows "next_power_of_two n = 0"
proof -
  have "\<not> is_power_of_two n"
  proof
    assume "is_power_of_two n"
    then obtain t where "t < 64" "n = 2 ^ t" by (auto simp: is_power_of_two_iff)
    then have "unat n = 2 ^ t" by (simp add: unat_power_of_2)
    with assms have "(2 :: nat) ^ 63 < 2 ^ t" by simp
    then have "63 < t" by (rule power_less_imp_less_exp [rotated]) simp
    with \<open>t < 64\<close> show False by simp
  qed
  moreover have "smear n = mask (Suc 63)"
    using assms unat_lt_64 [of n] by (intro smear_mask) simp_all
  ultimately show ?thesis
    by (simp add: next_power_of_two_smear mask_eq_exp_minus_1)
qed

section \<open>Levels and sizes are inverse\<close>

lemma pow2_div_pow2: "k \<le> n \<Longrightarrow> n < 64 \<Longrightarrow> (2 ^ n :: u64) div 2 ^ k = 2 ^ (n - k)"
  by (intro u64_eqI) (simp add: unat_div unat_power_of_2 power_diff)

lemma find_level_of_pow2:
  assumes "k \<le> n" "n < 64"
  shows "find_level_from_size (2 ^ n) (2 ^ k) = of_nat (n - k)"
  using assms by (simp add: find_level_from_size_def pow2_div_pow2 power_of_two_pow2)

lemma find_size_of_level:
  assumes "l + k < 64"
  shows "find_size_from_level (of_nat l) (2 ^ k) = 2 ^ (l + k)"
proof -
  have "(of_nat l + of_nat k :: u64) = of_nat (l + k)"
    by simp
  moreover have "unat (of_nat (l + k) :: u64) = l + k"
    using assms by (intro unat_of_nat_64) simp
  ultimately show ?thesis
    using assms by (simp add: find_size_from_level_def power_of_two_pow2 push_bit_eq_mult)
qed

end
