(* ===== verification/Zone_Entry.thy ===== *)
theory Zone_Entry
  imports Gull_Prelude
begin

text \<open>
  \<open>struct zone_entry\<close> of \<open>src/shelf_usage/zone_entry.h\<close>: the 64-bit header of a chunk. Bit
  63 is the allocation bit, bits 56 to 62 hold the level of the chunk, bits 0 to 55 the index
  of the next chunk on the same free list (0 ends the list). The accessors are translated on
  \<open>64 word\<close>; the two setters that assert a range are partial.
\<close>

section \<open>The accessors\<close>

definition alloc_bit_mask :: u64 where
  "alloc_bit_mask = push_bit 63 1"

definition level_mask :: u64 where
  "level_mask = push_bit 56 (push_bit 7 1 - 1)"

definition next_mask :: u64 where
  "next_mask = push_bit 56 1 - 1"

definition get_alloc :: "u64 \<Rightarrow> u64" where
  "get_alloc v = drop_bit 63 (v AND alloc_bit_mask)"

definition get_level :: "u64 \<Rightarrow> u64" where
  "get_level v = drop_bit 56 (v AND level_mask)"

definition get_next :: "u64 \<Rightarrow> u64" where
  "get_next v = v AND next_mask"

definition is_allocated :: "u64 \<Rightarrow> bool" where
  "is_allocated v \<longleftrightarrow> get_alloc v \<noteq> 0"

definition set_alloc :: "u64 \<Rightarrow> bool \<Rightarrow> u64" where
  "set_alloc v alloc =
     (if alloc then (alloc_bit_mask OR push_bit 56 (get_level v)) OR get_next v
      else push_bit 56 (get_level v) OR get_next v)"

definition set_level :: "u64 \<Rightarrow> u64 \<Rightarrow> u64 result" where
  "set_level v level =
     (if level < push_bit 7 1
      then Inr ((push_bit 63 (get_alloc v) OR push_bit 56 level) OR get_next v)
      else Inl Assert_Failed)"

definition set_next :: "u64 \<Rightarrow> u64 \<Rightarrow> u64 result" where
  "set_next v index =
     (if index < push_bit 56 1
      then Inr ((push_bit 63 (get_alloc v) OR push_bit 56 (get_level v)) OR index)
      else Inl Assert_Failed)"

definition link_next :: "u64 \<Rightarrow> u64 \<Rightarrow> u64 result" where
  "link_next v nxt = set_next v nxt"

definition zone_entry :: "bool \<Rightarrow> u64 \<Rightarrow> u64 \<Rightarrow> u64 result" where
  "zone_entry alloc level nxt =
     rbind (set_level (set_alloc 0 alloc) level) (\<lambda>v. set_next v nxt)"

section \<open>The packed layout\<close>

text \<open>The three fields put together, and reading them back.\<close>

definition pack :: "bool \<Rightarrow> u64 \<Rightarrow> u64 \<Rightarrow> u64" where
  "pack a l n = (push_bit 63 (of_bool a) OR push_bit 56 l) OR n"

lemma bit_lt_exp: "(w :: u64) < 2 ^ t \<Longrightarrow> t < 64 \<Longrightarrow> bit w i \<Longrightarrow> i < t"
  by (metis bit_u64_iff nat_bit_lt_power unat_power_of_2 word_less_nat_alt)

lemma entry_bits:
  "bit (get_next v) i \<longleftrightarrow> i < 56 \<and> bit v i"
  "bit (get_level v) i \<longleftrightarrow> i < 7 \<and> bit v (56 + i)"
  "bit (get_alloc v) i \<longleftrightarrow> i = 0 \<and> bit v 63"
proof -
  have m: "next_mask = mask 56"
    by (simp add: next_mask_def push_bit_eq_mult mask_eq_exp_minus_1)
  have lm: "level_mask = push_bit 56 (mask 7)"
    by (simp add: level_mask_def push_bit_eq_mult mask_eq_exp_minus_1)
  show "bit (get_next v) i \<longleftrightarrow> i < 56 \<and> bit v i"
    by (auto simp: get_next_def m bit_and_iff bit_mask_iff)
  show "bit (get_level v) i \<longleftrightarrow> i < 7 \<and> bit v (56 + i)"
    by (auto simp: get_level_def lm bit_drop_bit_eq bit_and_iff bit_push_bit_iff bit_mask_iff)
  show "bit (get_alloc v) i \<longleftrightarrow> i = 0 \<and> bit v 63"
    by (auto simp: get_alloc_def alloc_bit_mask_def bit_drop_bit_eq bit_and_iff bit_push_bit_iff bit_1_iff)
qed

lemma bit_pack:
  assumes "l < 2 ^ 7" "n < 2 ^ 56"
  shows "bit (pack a l n) i \<longleftrightarrow>
    (i < 56 \<and> bit n i) \<or> (56 \<le> i \<and> i < 63 \<and> bit l (i - 56)) \<or> (i = 63 \<and> a)"
  using bit_lt_exp [OF assms(1)] bit_lt_exp [OF assms(2)]
  by (fastforce simp: pack_def bit_or_iff bit_push_bit_iff bit_of_bool_iff)

lemma get_pack:
  assumes "l < 2 ^ 7" "n < 2 ^ 56"
  shows "get_next (pack a l n) = n" "get_level (pack a l n) = l"
    "get_alloc (pack a l n) = of_bool a"
proof -
  note b = bit_pack [OF assms] bit_lt_exp [OF assms(1)] bit_lt_exp [OF assms(2)]
  show "get_next (pack a l n) = n"
    by (rule bit_word_eqI) (use b in \<open>auto simp: entry_bits\<close>)
  show "get_level (pack a l n) = l"
    by (rule bit_word_eqI) (use b in \<open>auto simp: entry_bits\<close>)
  show "get_alloc (pack a l n) = of_bool a"
    by (rule bit_word_eqI) (use b in \<open>auto simp: entry_bits bit_of_bool_iff\<close>)
qed

lemma get_level_lt: "get_level v < 2 ^ 7"
proof -
  have "get_level v = get_level v AND mask 7"
    by (rule bit_word_eqI) (auto simp: bit_and_iff bit_mask_iff entry_bits)
  also have "\<dots> < 2 ^ 7"
    by (rule and_mask_less_size) (simp add: word_size)
  finally show ?thesis .
qed

lemma get_next_lt: "get_next v < 2 ^ 56"
proof -
  have "get_next v = get_next v AND mask 56"
    by (rule bit_word_eqI) (auto simp: bit_and_iff bit_mask_iff entry_bits)
  also have "\<dots> < 2 ^ 56"
    by (rule and_mask_less_size) (simp add: word_size)
  finally show ?thesis .
qed

lemmas entry_field_bounds [simp] = get_level_lt [simplified] get_next_lt [simplified]

lemma get_alloc_bit: "get_alloc v = of_bool (bit v 63)"
  by (rule bit_word_eqI) (auto simp: entry_bits bit_of_bool_iff)

lemma is_allocated_bit: "is_allocated v \<longleftrightarrow> bit v 63"
  by (simp add: is_allocated_def get_alloc_bit)

lemma get_alloc_of_bool: "get_alloc v = of_bool (is_allocated v)"
  by (simp add: get_alloc_bit is_allocated_bit)

lemma pack_fields: "v = pack (is_allocated v) (get_level v) (get_next v)"
proof (rule bit_word_eqI)
  fix i
  assume i: "i < LENGTH(64)"
  then consider "i < 56" | "56 \<le> i" "i < 63" | "i = 63"
    by force
  then show "bit v i = bit (pack (is_allocated v) (get_level v) (get_next v)) i"
    by cases (auto simp: bit_pack [OF get_level_lt get_next_lt] entry_bits is_allocated_bit)
qed

section \<open>The setters change one field\<close>

lemma is_allocated_pack [simp]:
  "l < 2 ^ 7 \<Longrightarrow> n < 2 ^ 56 \<Longrightarrow> is_allocated (pack a l n) = a"
  by (simp add: is_allocated_def get_pack)

lemma set_next_pack:
  "set_next v n = (if n < 2 ^ 56 then Inr (pack (is_allocated v) (get_level v) n) else Inl Assert_Failed)"
  by (simp add: set_next_def pack_def get_alloc_of_bool push_bit_eq_mult)

lemma link_next_pack:
  "link_next v n = (if n < 2 ^ 56 then Inr (pack (is_allocated v) (get_level v) n) else Inl Assert_Failed)"
  by (simp add: link_next_def set_next_pack)

lemma set_level_pack:
  "set_level v l = (if l < 2 ^ 7 then Inr (pack (is_allocated v) l (get_next v)) else Inl Assert_Failed)"
  by (simp add: set_level_def pack_def get_alloc_of_bool push_bit_eq_mult)

lemma set_alloc_pack: "set_alloc v a = pack a (get_level v) (get_next v)"
  by (simp add: set_alloc_def pack_def alloc_bit_mask_def)

lemma get_0: "get_level 0 = 0" "get_next 0 = 0"
  by (simp_all add: get_level_def get_next_def)

lemma zone_entry_pack:
  "zone_entry a l n =
     (if l < 2 ^ 7 \<and> n < 2 ^ 56 then Inr (pack a l n) else Inl Assert_Failed)"
  by (simp add: zone_entry_def set_alloc_pack set_level_pack set_next_pack get_0 get_pack)

text \<open>
  Constructing an entry and reading its fields back, and linking it into a list keeps its
  allocation bit and level.
\<close>

lemma zone_entry_fields:
  assumes "zone_entry a l n = Inr v"
  shows "is_allocated v = a" "get_level v = l" "get_next v = n"
  using assms by (auto simp: zone_entry_pack get_pack split: if_splits)

lemma link_next_fields:
  assumes "link_next v n = Inr w"
  shows "is_allocated w = is_allocated v" "get_level w = get_level v" "get_next w = n"
  using assms get_level_lt [of v] by (auto simp: link_next_pack get_pack split: if_splits)

lemma link_next_ok: "n < 2 ^ 56 \<Longrightarrow> \<exists>w. link_next v n = Inr w"
  by (simp add: link_next_pack)

end
