(* ===== verification/Zone_Stack.thy ===== *)
theory Zone_Stack
  imports Zone_Entry
begin

text \<open>
  \<open>ZoneEntryStack\<close> of \<open>src/shelf_usage/zone_entry_stack.{h,cc}\<close>, run by one process: the
  lock-free loops of \<open>push\<close> and \<open>pop\<close> leave in their first iteration, because the
  compare-and-store finds the value that was just read (the interleaved executions of the same
  algorithm are modelled in theory \<open>Block_Allocator\<close>). The entries of a zone are the 64-bit words that
  \<open>header_ptr\<close> points to, indexed by a word; index 0 is reserved for the empty stack, so
  chunk number \<open>i\<close> has index \<open>i + 1\<close>.

  The locale \<open>block_stack\<close> states what a client of such a stack relies on. It is
  interpreted here for \<open>ZoneEntryStack\<close> and in theory \<open>Block_Allocator\<close> for the
  \<open>Stack\<close> of the fixed block allocator.
\<close>

type_synonym entries = "u64 \<Rightarrow> u64"

record zone_stack =
  head :: u64
  aba_counter :: u64

definition zes_push :: "entries \<Rightarrow> zone_stack \<Rightarrow> u64 \<Rightarrow> (entries \<times> zone_stack) result" where
  "zes_push e st idx' =
     (let idx = idx' + 1; entry = e idx
      in rbind (link_next entry (head st)) (\<lambda>entry.
           Inr (e(idx := entry), \<lparr>head = idx, aba_counter = aba_counter st + 1\<rparr>)))"

definition zes_pop :: "entries \<Rightarrow> zone_stack \<Rightarrow> zone_stack \<times> u64" where
  "zes_pop e st =
     (let idx = head st
      in if idx = 0 then (st, 0)
         else let entry = e idx
              in (\<lparr>head = get_next entry, aba_counter = aba_counter st + 1\<rparr>, idx - 1))"

section \<open>The list a stack holds\<close>

text \<open>
  \<open>chain e h us\<close>: following the links from index \<open>h\<close> visits the chunks numbered
  \<open>us\<close> and then ends.
\<close>

fun chain :: "entries \<Rightarrow> u64 \<Rightarrow> nat list \<Rightarrow> bool" where
  "chain e h [] \<longleftrightarrow> h = 0"
| "chain e h (u # us) \<longleftrightarrow> unat h = Suc u \<and> Suc u < 2 ^ 56 \<and> chain e (get_next (e h)) us"

definition slot :: "nat \<Rightarrow> u64" where
  "slot u = of_nat u + 1"

lemma unat_slot: "Suc u < 2 ^ 64 \<Longrightarrow> unat (slot u) = Suc u"
proof -
  assume "Suc u < 2 ^ 64"
  then have "unat (of_nat (Suc u) :: u64) = Suc u" by (rule unat_of_nat_64)
  then show ?thesis by (simp add: slot_def add.commute)
qed

lemma slot_inj: "Suc u < 2 ^ 64 \<Longrightarrow> Suc v < 2 ^ 64 \<Longrightarrow> slot u = slot v \<longleftrightarrow> u = v"
  by (metis unat_slot nat.inject)

lemma slot_ne_0: "Suc u < 2 ^ 64 \<Longrightarrow> slot u \<noteq> 0"
  using unat_slot [of u] by force

lemma chain_Cons_iff:
  "chain e h (u # us) \<longleftrightarrow> h = slot u \<and> Suc u < 2 ^ 56 \<and> chain e (get_next (e (slot u))) us"
proof -
  have "unat h = Suc u \<longleftrightarrow> h = slot u" if "Suc u < 2 ^ 56"
    using unat_slot [of u] that by (auto intro: u64_eqI)
  then show ?thesis by auto
qed

declare chain.simps(2) [simp del]
declare chain_Cons_iff [simp]

lemma chain_bound: "chain e h us \<Longrightarrow> u \<in> set us \<Longrightarrow> Suc u < 2 ^ 56"
  by (induction us arbitrary: h) auto

lemma chain_unique: "chain e h us \<Longrightarrow> chain e h vs \<Longrightarrow> us = vs"
proof (induction us arbitrary: h vs)
  case Nil
  then show ?case using slot_ne_0 by (cases vs) auto
next
  case (Cons u us)
  then show ?case
  proof (cases vs)
    case Nil
    with Cons show ?thesis using slot_ne_0 [of u] by auto
  next
    case (Cons v vs')
    with Cons.prems Cons.IH [of _ vs'] show ?thesis using slot_inj [of u v] by auto
  qed
qed

lemma chain_update:
  assumes "chain e h us" "v \<notin> set us" "Suc v < 2 ^ 64"
  shows "chain (e(slot v := w)) h us"
  using assms(1,2)
proof (induction us arbitrary: h)
  case Nil
  then show ?case by simp
next
  case (Cons u us)
  then have "slot u \<noteq> slot v"
    using slot_inj [of u v] assms(3) by auto
  with Cons show ?case by simp
qed

lemma chain_cong:
  assumes "chain e h us" "\<And>u. u \<in> set us \<Longrightarrow> get_next (e' (slot u)) = get_next (e (slot u))"
  shows "chain e' h us"
  using assms by (induction us arbitrary: h) auto

lemma chain_distinct: "chain e h us \<Longrightarrow> distinct us"
proof (induction us arbitrary: h)
  case Nil
  then show ?case by simp
next
  case (Cons u us)
  have "u \<notin> set us"
  proof
    assume "u \<in> set us"
    then obtain ys zs where us: "us = ys @ u # zs" by (auto simp: in_set_conv_decomp)
    have suffix: "chain e (slot u) (u # zs)" if "chain e k (ys @ u # zs)" for k
      using that by (induction ys arbitrary: k) auto
    from Cons.prems have "chain e (slot u) (u # us)" by simp
    moreover from Cons.prems us suffix have "chain e (slot u) (u # zs)" by auto
    ultimately have "u # us = u # zs" by (rule chain_unique)
    with us show False by simp
  qed
  with Cons show ?case by auto
qed

section \<open>The interface of a stack of blocks\<close>

locale block_stack =
  fixes push :: "'m \<Rightarrow> 's \<Rightarrow> u64 \<Rightarrow> ('m \<times> 's) result"
    and pop :: "'m \<Rightarrow> 's \<Rightarrow> 's \<times> u64"
    and holds :: "'m \<Rightarrow> 's \<Rightarrow> nat list \<Rightarrow> bool"
    and block :: "nat \<Rightarrow> bool"
  assumes push_holds: "\<lbrakk>holds m s bs; block b; b \<notin> set bs\<rbrakk> \<Longrightarrow>
      \<exists>m' s'. push m s (of_nat b) = Inr (m', s') \<and> holds m' s' (b # bs)"
    and push_frame: "\<lbrakk>push m s (of_nat b) = Inr (m', s'); block b; holds m t cs; b \<notin> set cs\<rbrakk>
      \<Longrightarrow> holds m' t cs"
    and pop_empty: "holds m s [] \<Longrightarrow> pop m s = (s, 0)"
    and pop_holds: "holds m s (b # bs) \<Longrightarrow> \<exists>s'. pop m s = (s', of_nat b) \<and> holds m s' bs"
begin

text \<open>A block just pushed is the next one popped, and the stack below it is untouched.\<close>

lemma push_pop:
  assumes "holds m s bs" "block b" "b \<notin> set bs" "push m s (of_nat b) = Inr (m', s')"
  shows "\<exists>s''. pop m' s' = (s'', of_nat b) \<and> holds m' s'' bs"
proof -
  from push_holds [OF assms(1-3)] assms(4) have "holds m' s' (b # bs)" by auto
  then show ?thesis by (rule pop_holds)
qed

text \<open>Pushing in turn onto one of two stacks keeps both lists.\<close>

lemma push_both:
  assumes "holds m s bs" "holds m t cs" "block b" "b \<notin> set bs" "b \<notin> set cs"
  shows "\<exists>m' s'. push m s (of_nat b) = Inr (m', s') \<and> holds m' s' (b # bs) \<and> holds m' t cs"
  using push_holds [OF assms(1,3,4)] push_frame assms by blast

text \<open>
  Moving the top block of one stack to another: what a loop "pop from one list, push to the
  other" does in one iteration.
\<close>

lemma move_top:
  assumes "holds m s (b # bs)" "holds m t cs" "block b" "b \<notin> set bs" "b \<notin> set cs"
  shows "\<exists>s' m' t'. pop m s = (s', of_nat b) \<and> push m t (of_nat b) = Inr (m', t') \<and>
    holds m' s' bs \<and> holds m' t' (b # cs)"
proof -
  from pop_holds [OF assms(1)] obtain s' where s': "pop m s = (s', of_nat b)" "holds m s' bs"
    by blast
  from push_both [OF assms(2) s'(2) assms(3,5,4)] s' show ?thesis by blast
qed

end

section \<open>\<open>ZoneEntryStack\<close> implements it\<close>

definition zes_holds :: "entries \<Rightarrow> zone_stack \<Rightarrow> nat list \<Rightarrow> bool" where
  "zes_holds e st us \<longleftrightarrow> chain e (head st) us"

definition zes_block :: "nat \<Rightarrow> bool" where
  "zes_block u \<longleftrightarrow> Suc u < 2 ^ 56"

lemma chain_head_lt: "chain e h us \<Longrightarrow> h < 2 ^ 56"
proof (cases us)
  case Nil
  assume "chain e h us"
  with Nil show ?thesis by simp
next
  case (Cons u us')
  assume "chain e h us"
  with Cons have "unat h = Suc u" "Suc u < 2 ^ 56"
    using unat_slot [of u] by simp_all
  then show ?thesis by (simp add: word_less_nat_alt unat_power_of_2)
qed

lemma zes_push_eq:
  assumes "chain e (head st) us"
  shows "zes_push e st (of_nat u) =
    Inr (e(slot u := pack (is_allocated (e (slot u))) (get_level (e (slot u))) (head st)),
         \<lparr>head = slot u, aba_counter = aba_counter st + 1\<rparr>)"
  using chain_head_lt [OF assms] by (simp add: zes_push_def slot_def link_next_pack Let_def)

lemma zes_pop_Cons:
  assumes "chain e (head st) (u # us)"
  shows "zes_pop e st =
    (\<lparr>head = get_next (e (slot u)), aba_counter = aba_counter st + 1\<rparr>, of_nat u)"
  using assms slot_ne_0 [of u] by (simp add: zes_pop_def slot_def)

lemma zes_pop_Nil: "chain e (head st) [] \<Longrightarrow> zes_pop e st = (st, 0)"
  by (simp add: zes_pop_def)

interpretation zes: block_stack zes_push zes_pop zes_holds zes_block
proof
  fix m :: entries and s t :: zone_stack and bs cs :: "nat list" and b :: nat
  assume h: "zes_holds m s bs" and b: "zes_block b" "b \<notin> set bs"
  from h have c: "chain m (head s) bs" by (simp add: zes_holds_def)
  show "\<exists>m' s'. zes_push m s (of_nat b) = Inr (m', s') \<and> zes_holds m' s' (b # bs)"
    using chain_update [OF c b(2)] b chain_head_lt [OF c]
    by (auto simp: zes_push_eq [OF c] zes_holds_def zes_block_def get_pack get_level_lt)
next
  fix m m' :: entries and s s' t :: zone_stack and cs :: "nat list" and b :: nat
  assume "zes_push m s (of_nat b) = Inr (m', s')" "zes_block b" "zes_holds m t cs" "b \<notin> set cs"
  then show "zes_holds m' t cs"
    using chain_update [of m "head t" cs b]
    by (auto simp: zes_push_def zes_holds_def zes_block_def slot_def [symmetric] Let_def)
next
  fix m :: entries and s :: zone_stack
  assume "zes_holds m s []"
  then show "zes_pop m s = (s, 0)" by (simp add: zes_holds_def zes_pop_Nil)
next
  fix m :: entries and s :: zone_stack and b bs
  assume "zes_holds m s (b # bs)"
  then show "\<exists>s'. zes_pop m s = (s', of_nat b) \<and> zes_holds m s' bs"
    by (auto simp: zes_holds_def zes_pop_Cons)
qed

end
