(* ===== verification/Zone_Alloc.thy ===== *)
theory Zone_Alloc
  imports Zone_Arith Zone_Stack
begin

text \<open>
  The state of a zone (\<open>class Zone\<close> and \<open>struct Zone_Header\<close>, \<open>src/shelf_usage/zone.{h,cc}\<close>)
  and its constructor, \<open>alloc\<close>, \<open>free\<close> and \<open>grow\<close>, as one process runs them. Levels are
  \<open>nat\<close> (the constructor bounds them by 34, so no 64-bit level wraps); sizes, offsets,
  indices and packed entries are 64-bit words.

  Memory: \<open>zentries\<close> is the array of packed entries behind \<open>header_ptr\<close>,
  \<open>merge_bitmap\<close> the bytes behind \<open>merge_bitmap_start_addr\<close>, \<open>shelf\<close> the bytes of the data
  shelf. The addresses at which the areas are mapped are fields too, because \<open>grow\<close>
  computes with them. These are three separate functions of the index, without bounds: the code indexes its
  entries with \<open>1\<close> to \<open>2 ^ max_zone_level\<close>, while \<open>get_header_bitmap_size\<close> has room for the indices up to
  \<open>2 ^ max_zone_level - 1\<close>, so that the entry of the last chunk lies in the word behind the header (in the heaps the
  round up to pages leaves room for it). Header and data are separate memories, as in all heaps of the
  repository, which keep the header in a file of its own; a zone whose header lay in its first
  chunks is described by the same state only as far as these chunks are not given out.
\<close>

section \<open>State\<close>

record zone =
  \<comment> \<open>the Zone object\<close>
  shelf_location_ptr :: u64
  zone_header_ptr :: u64
  header_ptr :: u64
  header_size :: u64
  merge_bitmap_start_addr :: u64
  \<comment> \<open>Zone_Header, in fabric-attached memory\<close>
  max_zone_level :: nat
  max_zone_size :: u64
  multiple_factor :: u64
  min_obj_size :: u64
  current_zone_level :: nat
  grow_in_progress :: u64
  merge_in_progress :: u64
  merge_status :: u64
  current_merge_level :: int
  safe_copy :: zone_stack
  post_merge_level :: zone_stack
  post_merge_next_level :: zone_stack
  free_list :: "nat \<Rightarrow> zone_stack"
  \<comment> \<open>the memory behind the pointers\<close>
  zentries :: entries
  merge_bitmap :: "nat \<Rightarrow> u8"
  shelf :: "nat \<Rightarrow> u8"

definition MERGE_DEFAULT :: u64 where "MERGE_DEFAULT = 0"
definition MERGE_SWAP_COMPLETED :: u64 where "MERGE_SWAP_COMPLETED = 1"
definition MERGE_BITMAP_COMPLETED :: u64 where "MERGE_BITMAP_COMPLETED = 2"
definition MERGE_FREELIST_COMPLETED :: u64 where "MERGE_FREELIST_COMPLETED = 3"

definition empty_stack :: zone_stack where
  "empty_stack = \<lparr>head = 0, aba_counter = 0\<rparr>"

section \<open>Addresses\<close>

definition from_Offset :: "zone \<Rightarrow> u64 \<Rightarrow> u64" where
  "from_Offset z p = (if p = 0 then 0 else shelf_location_ptr z + p)"

definition to_Offset :: "zone \<Rightarrow> u64 \<Rightarrow> u64" where
  "to_Offset z p = (if p = 0 then 0 else p - shelf_location_ptr z)"

definition get_bitmap_offset :: "zone \<Rightarrow> u64" where
  "get_bitmap_offset z = header_ptr z - zone_header_ptr z"

definition IsValidOffset :: "zone \<Rightarrow> u64 \<Rightarrow> bool" where
  "IsValidOffset z p \<longleftrightarrow> p > 0 \<and> p < max_zone_size z"

section \<open>Free lists and the allocation map\<close>

text \<open>
  The array \<open>free_list\<close> has \<open>max_zone_level + 1\<close> stacks (\<open>get_zoneheader_size\<close>); a push or a
  pop at a higher level is outside it.
\<close>

definition push_free :: "zone \<Rightarrow> nat \<Rightarrow> u64 \<Rightarrow> zone result" where
  "push_free z level idx =
     (if level \<le> max_zone_level z
      then rbind (zes_push (zentries z) (free_list z level) idx) (\<lambda>(e, st).
             Inr (z\<lparr>zentries := e, free_list := (free_list z)(level := st)\<rparr>))
      else Inl Out_Of_Bounds)"

definition pop_free :: "zone \<Rightarrow> nat \<Rightarrow> (zone \<times> u64) result" where
  "pop_free z level =
     (if level \<le> max_zone_level z
      then let (st, idx) = zes_pop (zentries z) (free_list z level)
           in Inr (z\<lparr>free_list := (free_list z)(level := st)\<rparr>, idx)
      else Inl Out_Of_Bounds)"

definition get_level_of :: "zone \<Rightarrow> u64 \<Rightarrow> nat" where
  "get_level_of z ptr =
     (let idx = ptr div min_obj_size z + 1 in unat (get_level (zentries z idx)))"

definition modify_bitmap_bit :: "zone \<Rightarrow> nat \<Rightarrow> u64 \<Rightarrow> bool \<Rightarrow> zone result" where
  "modify_bitmap_bit z level ptr setb =
     (let idx = ptr div min_obj_size z + 1
      in rbind (zone_entry setb (of_nat level) 0) (\<lambda>new_entry.
           Inr (z\<lparr>zentries := (zentries z)(idx := new_entry)\<rparr>)))"

definition set_bitmap_bit :: "zone \<Rightarrow> nat \<Rightarrow> u64 \<Rightarrow> zone result" where
  "set_bitmap_bit z level ptr = modify_bitmap_bit z level ptr True"

definition reset_bitmap_bit :: "zone \<Rightarrow> nat \<Rightarrow> u64 \<Rightarrow> zone result" where
  "reset_bitmap_bit z level ptr = modify_bitmap_bit z level ptr False"

definition is_grow_in_progress :: "zone \<Rightarrow> bool" where
  "is_grow_in_progress z \<longleftrightarrow> grow_in_progress z \<noteq> 0"

section \<open>\<open>grow\<close>\<close>

definition grow :: "zone \<Rightarrow> (bool \<times> zone) result" where
  "grow z =
     (if grow_in_progress z \<noteq> 0 then Inr (True, z)
      else let z = z\<lparr>grow_in_progress := 1\<rparr> in
        if current_zone_level z \<ge> max_zone_level z
        then Inr (False, z\<lparr>grow_in_progress := 0\<rparr>)
        else let old_zone_level = current_zone_level z;
                 chunk_size = find_size_from_level (of_nat old_zone_level) (min_obj_size z);
                 z = z\<lparr>current_zone_level := old_zone_level + 1\<rparr>;
                 advance_ptr = zone_header_ptr z + chunk_size
             in rbind (push_free z old_zone_level (to_Offset z advance_ptr div min_obj_size z))
                  (\<lambda>z. Inr (True, z\<lparr>grow_in_progress := 0\<rparr>)))"

section \<open>\<open>alloc\<close>\<close>

text \<open>
  The splitting loop. The code runs it while \<open>level \<noteq> orig\<close>, entered with
  \<open>level \<ge> orig\<close>, so the guard below is the same one.
\<close>

fun alloc_split :: "zone \<Rightarrow> nat \<Rightarrow> nat \<Rightarrow> u64 \<Rightarrow> u64 \<Rightarrow> zone result" where
  "alloc_split z level orig res cur_size =
     (if level \<le> orig then Inr z
      else let new_chunk_ptr = res + drop_bit 1 cur_size
           in rbind (push_free z (level - 1) (new_chunk_ptr div min_obj_size z)) (\<lambda>z.
                alloc_split z (level - 1) orig res (drop_bit 1 cur_size)))"

declare alloc_split.simps [simp del]

definition zero_chunk :: "zone \<Rightarrow> u64 \<Rightarrow> u64 \<Rightarrow> zone" where
  "zero_chunk z off len =
     z\<lparr>shelf := (\<lambda>a. if unat off \<le> a \<and> a < unat off + unat len then 0 else shelf z a)\<rparr>"

text \<open>The loop over the levels; offset 0 stands for "every list was empty".\<close>

function alloc_scan :: "zone \<Rightarrow> u64 \<Rightarrow> nat \<Rightarrow> nat \<Rightarrow> nat \<Rightarrow> (zone \<times> u64) result" where
  "alloc_scan z chunk_size orig level current =
     (if level \<le> current
      then rbind (pop_free z level) (\<lambda>(z, idx).
        let res = idx * min_obj_size z in
        if res \<noteq> 0
        then let cur_size = find_size_from_level (of_nat level) (min_obj_size z)
             in rbind (alloc_split z level orig res cur_size) (\<lambda>z.
                  rbind (set_bitmap_bit (zero_chunk z res chunk_size) orig res) (\<lambda>z.
                    Inr (z, res)))
        else alloc_scan z chunk_size orig (Suc level) current)
      else Inr (z, 0))"
  by pat_completeness auto
termination
  by (relation "measure (\<lambda>(z, chunk_size, orig, level, current). Suc current - level)") auto

declare alloc_scan.simps [simp del]

text \<open>
  The \<open>retry\<close> loop. \<open>None\<close> is "does not return": while \<open>grow_in_progress\<close> is set the code
  sleeps and looks again, and when no other process runs nobody clears the flag.
\<close>

partial_function (option) alloc_retry :: "zone \<Rightarrow> u64 \<Rightarrow> nat \<Rightarrow> (zone \<times> u64) result option" where
  "alloc_retry z chunk_size orig =
     (case alloc_scan z chunk_size orig orig (current_zone_level z) of
        Inl f \<Rightarrow> Some (Inl f)
      | Inr (z, res) \<Rightarrow>
          if res \<noteq> 0 then Some (Inr (z, res))
          else if is_grow_in_progress z then None
          else if current_zone_level z < max_zone_level z
          then (case grow z of
                  Inl f \<Rightarrow> Some (Inl f)
                | Inr (grown, z) \<Rightarrow>
                    if grown then alloc_retry z chunk_size orig else Some (Inr (z, 0)))
          else Some (Inr (z, 0)))"

definition zone_alloc :: "zone \<Rightarrow> u64 \<Rightarrow> (zone \<times> u64) result option" where
  "zone_alloc z sz =
     (let chunk_size = next_power_of_two (max sz (min_obj_size z));
          orig_freelist_level = unat (find_level_from_size chunk_size (min_obj_size z))
      in alloc_retry z chunk_size orig_freelist_level)"

section \<open>\<open>free\<close>\<close>

definition zone_free :: "zone \<Rightarrow> u64 \<Rightarrow> zone result" where
  "zone_free z block =
     (if block = 0 then Inr z
      else let level = get_level_of z block
           in rbind (reset_bitmap_bit z level block) (\<lambda>z.
                push_free z level (block div min_obj_size z)))"

section \<open>The constructor\<close>

text \<open>
  The loop that fills the free lists of a new zone: chunk number \<open>2 ^ i\<close> goes to list \<open>i\<close>.
\<close>

partial_function (option) init_lists :: "zone \<Rightarrow> u64 \<Rightarrow> u64 \<Rightarrow> u64 \<Rightarrow> zone result option" where
  "init_lists z chunk_size advance_ptr initial_pool_size =
     (if chunk_size < initial_pool_size
      then let freelist_level = unat (find_level_from_size chunk_size (min_obj_size z));
               ptr = to_Offset z advance_ptr
           in case push_free z freelist_level (ptr div min_obj_size z) of
                Inl f \<Rightarrow> Some (Inl f)
              | Inr z \<Rightarrow> init_lists z (push_bit 1 chunk_size) (advance_ptr + chunk_size) initial_pool_size
      else Some (Inr z))"

text \<open>
  \<open>Zone (addr, initial_pool_size, min_obj_size, max_pool_size, helper, helper_size)\<close>. The
  memory the constructor finds is given as a zone value \<open>m\<close>: the entries beyond the cleared
  header, the merge bitmap and the data shelf keep what they hold. The header was cleared
  just before, so each compare-and-store on a header field finds 0 and stores.
\<close>

definition zone_create ::
  "zone \<Rightarrow> u64 \<Rightarrow> u64 \<Rightarrow> u64 \<Rightarrow> u64 \<Rightarrow> u64 \<Rightarrow> zone result option" where
  "zone_create m addr initial_pool_size min_size max_pool_size helper =
     (if min_size = 0 then Some (Inl Division_By_Zero) else
      let zoneheader_size = get_zoneheader_size max_pool_size min_size in
      if min_size < MIN_OBJ_SIZE then Some (Inl Runtime_Error)
      else if \<not> is_power_of_two min_size then Some (Inl Runtime_Error)
      else if max_pool_size > MAX_ZONE_SIZE then Some (Inl Runtime_Error)
      else if \<not> is_power_of_two max_pool_size then Some (Inl Runtime_Error)
      else
        let max_size = min max_pool_size MAX_ZONE_SIZE;
            max_level = min (find_level_from_size max_size min_size) MAX_LEVEL_PER_ZONE;
            bitmap_size = push_bit (unat max_level) 1 div 8;
            merge_bitmap_size = get_merge_bitmap_size max_pool_size min_size;
            hsize = get_header_bitmap_size max_size min_size
        in if \<not> (bitmap_size \<ge> 8 \<and> merge_bitmap_size \<ge> 8) then Some (Inl Assert_Failed)
        else if hsize < bitmap_size then Some (Inl Runtime_Error)
        else if initial_pool_size \<le> merge_bitmap_size then Some (Inl Runtime_Error)
        else if \<not> is_power_of_two initial_pool_size then Some (Inl Runtime_Error)
        else if initial_pool_size \<le> min_size then Some (Inl Runtime_Error)
        else
          let z = \<lparr>shelf_location_ptr = addr, zone_header_ptr = helper,
                   header_ptr = helper + zoneheader_size + merge_bitmap_size,
                   header_size = hsize,
                   merge_bitmap_start_addr = helper + zoneheader_size,
                   max_zone_level = unat max_level, max_zone_size = max_size,
                   multiple_factor = 1, min_obj_size = min_size,
                   current_zone_level = unat (find_level_from_size initial_pool_size min_size),
                   grow_in_progress = 0, merge_in_progress = 0, merge_status = MERGE_DEFAULT,
                   current_merge_level = -1, safe_copy = empty_stack,
                   post_merge_level = empty_stack, post_merge_next_level = empty_stack,
                   free_list = (\<lambda>_. empty_stack),
                   zentries = (\<lambda>i. if unat i < unat hsize div 8 then 0 else zentries m i),
                   merge_bitmap = merge_bitmap m, shelf = shelf m\<rparr>
          in case set_bitmap_bit z (unat (find_level_from_size min_size min_size)) 0 of
               Inl f \<Rightarrow> Some (Inl f)
             | Inr z \<Rightarrow> init_lists z min_size (addr + min_size) initial_pool_size)"

text \<open>
  The constructor that attaches to an initialised zone reads the header it finds and only
  recomputes the addresses of the areas.
\<close>

definition zone_attach :: "zone \<Rightarrow> u64 \<Rightarrow> u64 \<Rightarrow> u64 \<Rightarrow> zone" where
  "zone_attach m addr max_pool_size helper =
     (let min_size = min_obj_size m;
          zoneheader_size = get_zoneheader_size max_pool_size min_size;
          merge_bitmap_size = get_merge_bitmap_size max_pool_size min_size
      in m\<lparr>shelf_location_ptr := addr, zone_header_ptr := helper,
           header_ptr := helper + zoneheader_size + merge_bitmap_size,
           header_size := get_header_bitmap_size (max_zone_size m) min_size,
           merge_bitmap_start_addr := helper + zoneheader_size\<rparr>)"

end
