(* ===== verification/Zone_Inv.thy ===== *)
theory Zone_Inv
  imports Zone_Alloc
begin

text \<open>
  The invariant of a zone. A block is a pair (level, unit): the \<open>2 ^ level\<close> units of
  \<open>min_obj_size\<close> bytes from \<open>unit\<close> on. In a quiescent zone the free blocks (the chunks on the
  free lists) and the allocated blocks (the chunks whose entry has the allocation bit) tile
  the current zone: every unit lies in exactly one of them. While an operation runs it holds
  some blocks itself; they are the set \<open>X\<close> of the invariant. The lemmas below say what one
  push, pop, split or change of an allocation bit does to the tiling, and that the code
  meets no fault under the invariant.
\<close>

section \<open>Blocks and tilings\<close>

type_synonym block = "nat \<times> nat"

definition span :: "block \<Rightarrow> nat set" where
  "span b = {snd b ..< snd b + 2 ^ fst b}"

definition tiles :: "nat \<Rightarrow> block set \<Rightarrow> bool" where
  "tiles N B \<longleftrightarrow> (\<forall>b\<in>B. span b \<subseteq> {..<N}) \<and> (\<forall>u<N. \<exists>!b. b \<in> B \<and> u \<in> span b)"

lemma span_pair [simp]: "w \<in> span (l, u) \<longleftrightarrow> u \<le> w \<and> w < u + 2 ^ l"
  by (auto simp: span_def)

lemma start_in_span: "snd b \<in> span b"
  by (simp add: span_def)

lemma tiles_unique:
  assumes "tiles N B" "b \<in> B" "c \<in> B" "w \<in> span b" "w \<in> span c"
  shows "b = c"
proof -
  from assms(1,2,4) have "w < N" by (auto simp: tiles_def)
  with assms show ?thesis unfolding tiles_def by blast
qed

lemma tiles_bound: "tiles N B \<Longrightarrow> (l, u) \<in> B \<Longrightarrow> u + 2 ^ l \<le> N"
proof -
  assume "tiles N B" "(l, u) \<in> B"
  then have "span (l, u) \<subseteq> {..<N}" by (auto simp: tiles_def)
  moreover have "(1 :: nat) \<le> 2 ^ l" by simp
  then have "u + 2 ^ l - 1 \<in> span (l, u)" by (simp only: span_pair) linarith
  ultimately have "u + 2 ^ l - 1 < N" by blast
  then show ?thesis by simp
qed

lemma tiles_replace:
  assumes "tiles N B" "C \<subseteq> B" "\<Union> (span ` D) = \<Union> (span ` C)"
    and D: "\<And>c d w. \<lbrakk>c \<in> D; d \<in> D; w \<in> span c; w \<in> span d\<rbrakk> \<Longrightarrow> c = d"
  shows "tiles N ((B - C) \<union> D)"
  unfolding tiles_def
proof (intro conjI ballI allI impI)
  fix b
  assume "b \<in> (B - C) \<union> D"
  moreover have "span d \<subseteq> {..<N}" if "d \<in> D" for d
    using that assms(1-3) unfolding tiles_def by blast
  ultimately show "span b \<subseteq> {..<N}" using assms(1) unfolding tiles_def by blast
next
  fix u
  assume "u < N"
  with assms(1) obtain b where b: "b \<in> B" "u \<in> span b" unfolding tiles_def by blast
  have uniq: "c = b" if "c \<in> B" "u \<in> span c" for c
    using tiles_unique [OF assms(1) that(1) b(1) that(2) b(2)] .
  show "\<exists>!b. b \<in> (B - C) \<union> D \<and> u \<in> span b"
  proof (cases "b \<in> C")
    case True
    then obtain d where d: "d \<in> D" "u \<in> span d" using b assms(3) by blast
    then show ?thesis using uniq D True by (intro ex1I [of _ d]) blast+
  next
    case False
    moreover have "d \<notin> D" if "u \<in> span d" for d
      using that uniq False assms(2,3) by blast
    ultimately show ?thesis using b uniq by (intro ex1I [of _ b]) blast+
  qed
qed

section \<open>The invariant\<close>

definition free_blocks :: "zone \<Rightarrow> (nat \<Rightarrow> nat list) \<Rightarrow> block set" where
  "free_blocks z fls = {(l, u). l \<le> current_zone_level z \<and> u \<in> set (fls l)}"

definition alloc_blocks :: "zone \<Rightarrow> block set" where
  "alloc_blocks z = {(l, u). u < 2 ^ current_zone_level z \<and> is_allocated (zentries z (slot u)) \<and>
     l = unat (get_level (zentries z (slot u)))}"

definition zone_geom :: "zone \<Rightarrow> nat \<Rightarrow> bool" where
  "zone_geom z k \<longleftrightarrow> min_obj_size z = 2 ^ k \<and> 6 \<le> k \<and> 6 \<le> max_zone_level z \<and>
     max_zone_level z + k \<le> 40 \<and> max_zone_size z = 2 ^ (max_zone_level z + k) \<and>
     current_zone_level z \<le> max_zone_level z"

definition blocks_of :: "zone \<Rightarrow> (nat \<Rightarrow> nat list) \<Rightarrow> block set \<Rightarrow> block set" where
  "blocks_of z fls X = (free_blocks z fls \<union> alloc_blocks z) \<union> X"

text \<open>The entries of the part the zone has not grown into yet have no allocation bit.\<close>

definition ungrown_clear :: "zone \<Rightarrow> bool" where
  "ungrown_clear z \<longleftrightarrow> (\<forall>u. 2 ^ current_zone_level z \<le> u \<and> u < 2 ^ max_zone_level z \<longrightarrow>
     \<not> is_allocated (zentries z (slot u)))"

definition zone_rep :: "zone \<Rightarrow> (nat \<Rightarrow> nat list) \<Rightarrow> block set \<Rightarrow> bool" where
  "zone_rep z fls X \<longleftrightarrow>
     (\<forall>l \<le> max_zone_level z. zes_holds (zentries z) (free_list z l) (fls l)) \<and>
     (\<forall>l > current_zone_level z. fls l = []) \<and>
     (\<forall>l u. u \<in> set (fls l) \<longrightarrow> \<not> is_allocated (zentries z (slot u))) \<and>
     tiles (2 ^ current_zone_level z) (blocks_of z fls X) \<and>
     (\<forall>(l, u) \<in> blocks_of z fls X. l \<le> current_zone_level z \<and> 2 ^ l dvd u) \<and>
     X \<inter> (free_blocks z fls \<union> alloc_blocks z) = {} \<and>
     (0, 0) \<in> alloc_blocks z \<and> ungrown_clear z"

definition zone_inv :: "zone \<Rightarrow> bool" where
  "zone_inv z \<longleftrightarrow> (\<exists>k fls. zone_geom z k \<and> zone_rep z fls {})"

lemma zone_repI:
  assumes "\<And>l. l \<le> max_zone_level z \<Longrightarrow> zes_holds (zentries z) (free_list z l) (fls l)"
    and "\<And>l. l > current_zone_level z \<Longrightarrow> fls l = []"
    and "\<And>l u. u \<in> set (fls l) \<Longrightarrow> \<not> is_allocated (zentries z (slot u))"
    and "tiles (2 ^ current_zone_level z) (blocks_of z fls X)"
    and "\<And>l u. (l, u) \<in> blocks_of z fls X \<Longrightarrow> l \<le> current_zone_level z \<and> 2 ^ l dvd u"
    and "X \<inter> (free_blocks z fls \<union> alloc_blocks z) = {}"
    and "(0, 0) \<in> alloc_blocks z"
    and "ungrown_clear z"
  shows "zone_rep z fls X"
  using assms unfolding zone_rep_def by blast

lemma zone_repD:
  assumes "zone_rep z fls X"
  shows "\<And>l. l \<le> max_zone_level z \<Longrightarrow> zes_holds (zentries z) (free_list z l) (fls l)"
    and "\<And>l. l > current_zone_level z \<Longrightarrow> fls l = []"
    and "\<And>l u. u \<in> set (fls l) \<Longrightarrow> \<not> is_allocated (zentries z (slot u))"
    and "tiles (2 ^ current_zone_level z) (blocks_of z fls X)"
    and "\<And>l u. (l, u) \<in> blocks_of z fls X \<Longrightarrow> l \<le> current_zone_level z"
    and "\<And>l u. (l, u) \<in> blocks_of z fls X \<Longrightarrow> 2 ^ l dvd u"
    and "X \<inter> (free_blocks z fls \<union> alloc_blocks z) = {}"
    and "(0, 0) \<in> alloc_blocks z"
    and "ungrown_clear z"
  using assms unfolding zone_rep_def by blast+

text \<open>Two blocks of the tiling that share a unit are the same block.\<close>

lemma rep_unique:
  assumes "zone_rep z fls X" "b \<in> blocks_of z fls X" "c \<in> blocks_of z fls X" "w \<in> span b" "w \<in> span c"
  shows "b = c"
  using tiles_unique [OF zone_repD(4) [OF assms(1)] assms(2-5)] .

lemma rep_bound:
  assumes "zone_rep z fls X" "(l, u) \<in> blocks_of z fls X"
  shows "u + 2 ^ l \<le> 2 ^ current_zone_level z" "u < 2 ^ current_zone_level z"
  using tiles_bound [OF zone_repD(4) [OF assms(1)] assms(2)]
  by (simp_all add: less_le_trans [of u "u + 2 ^ l"])

lemma geom_unit_lt:
  assumes "zone_geom z k" "u < 2 ^ current_zone_level z"
  shows "u < 2 ^ 34" "Suc u < 2 ^ 56" "Suc u < 2 ^ 64" "u * 2 ^ k < 2 ^ 40" "u < 2 ^ max_zone_level z"
proof -
  from assms(1) have le: "current_zone_level z \<le> max_zone_level z" "max_zone_level z + k \<le> 40" "6 \<le> k"
    by (simp_all add: zone_geom_def)
  from le have "(2 :: nat) ^ current_zone_level z \<le> 2 ^ 34"
    by (intro power_increasing) simp_all
  with assms(2) show u: "u < 2 ^ 34" by linarith
  then show "Suc u < 2 ^ 56" "Suc u < 2 ^ 64" by simp_all
  from le have "(2 :: nat) ^ current_zone_level z \<le> 2 ^ max_zone_level z"
    by (intro power_increasing) simp_all
  with assms(2) show "u < 2 ^ max_zone_level z" by linarith
  then have "u * 2 ^ k < 2 ^ max_zone_level z * 2 ^ k" by simp
  also have "\<dots> = 2 ^ (max_zone_level z + k)" by (simp add: power_add)
  also have "\<dots> \<le> (2 :: nat) ^ 40" using le by (intro power_increasing) simp_all
  finally show "u * 2 ^ k < 2 ^ 40" .
qed

section \<open>Offsets and units\<close>

definition off :: "zone \<Rightarrow> nat \<Rightarrow> u64" where
  "off z u = of_nat u * min_obj_size z"

lemma unat_min_obj_size: "zone_geom z k \<Longrightarrow> unat (min_obj_size z) = 2 ^ k"
  by (simp add: zone_geom_def unat_power_of_2)

lemma unat_off:
  assumes "zone_geom z k" "u < 2 ^ current_zone_level z"
  shows "unat (off z u) = u * 2 ^ k"
proof -
  note b = geom_unit_lt [OF assms]
  have "unat (of_nat u :: u64) = u" using b by (intro unat_of_nat_64) simp
  then show ?thesis
    using b unat_min_obj_size [OF assms(1)] by (simp add: off_def unat_mult_small)
qed

lemma off_div:
  assumes "zone_geom z k" "u < 2 ^ current_zone_level z"
  shows "off z u div min_obj_size z = of_nat u"
  using geom_unit_lt [OF assms]
  by (intro u64_eqI)
    (simp add: unat_div unat_off [OF assms] unat_min_obj_size [OF assms(1)] unat_of_nat_64)

lemma off_eq_0_iff:
  assumes "zone_geom z k" "u < 2 ^ current_zone_level z"
  shows "off z u = 0 \<longleftrightarrow> u = 0"
  using unat_off [OF assms] by (metis mult_is_0 power_eq_0_iff unat_eq_zero zero_neq_numeral off_def
      mult_zero_left of_nat_0)

section \<open>Single steps\<close>

text \<open>A block an operation holds does not have its allocation bit set and is on no list.\<close>

lemma held_not_allocated:
  assumes "zone_rep z fls X" "(l, v) \<in> X"
  shows "\<not> is_allocated (zentries z (slot v))"
proof
  assume a: "is_allocated (zentries z (slot v))"
  have X: "(l, v) \<in> blocks_of z fls X" using assms(2) by (simp add: blocks_of_def)
  define l' where "l' = unat (get_level (zentries z (slot v)))"
  from a rep_bound [OF assms(1) X] have al: "(l', v) \<in> alloc_blocks z"
    by (simp add: alloc_blocks_def l'_def)
  then have "(l', v) \<in> blocks_of z fls X" by (simp add: blocks_of_def)
  from rep_unique [OF assms(1) X this, of v] have "(l, v) = (l', v)" by simp
  with al assms(2) zone_repD(7) [OF assms(1)] show False by auto
qed

lemma block_not_listed:
  assumes "zone_rep z fls X" "(l, v) \<in> X \<union> alloc_blocks z"
  shows "v \<notin> set (fls l')"
proof
  assume v: "v \<in> set (fls l')"
  then have "l' \<le> current_zone_level z"
    using zone_repD(2) [OF assms(1), of l'] by (cases "l' \<le> current_zone_level z") auto
  with v have f: "(l', v) \<in> free_blocks z fls" by (simp add: free_blocks_def)
  then have "(l', v) \<in> blocks_of z fls X" "(l, v) \<in> blocks_of z fls X"
    using assms(2) by (auto simp: blocks_of_def)
  from rep_unique [OF assms(1) this, of v] have "l' = l" by simp
  with f v assms(2) zone_repD(3,7) [OF assms(1)] show False
    by (auto simp: alloc_blocks_def)
qed

definition same_geom :: "zone \<Rightarrow> zone \<Rightarrow> bool" where
  "same_geom z z' \<longleftrightarrow> min_obj_size z' = min_obj_size z \<and> max_zone_level z' = max_zone_level z \<and>
     max_zone_size z' = max_zone_size z \<and> current_zone_level z' = current_zone_level z"

lemma same_geom_refl [simp]: "same_geom z z"
  by (simp add: same_geom_def)

lemma same_geom_trans: "same_geom x y \<Longrightarrow> same_geom y z \<Longrightarrow> same_geom x z"
  by (simp add: same_geom_def)

lemma same_geom_geom: "same_geom z z' \<Longrightarrow> zone_geom z k \<Longrightarrow> zone_geom z' k"
  by (simp add: same_geom_def zone_geom_def)

lemma alloc_blocks_cong:
  assumes "current_zone_level z' = current_zone_level z"
    and "\<And>u. u < 2 ^ current_zone_level z \<Longrightarrow> is_allocated (zentries z' (slot u)) = is_allocated (zentries z (slot u))"
    and "\<And>u. u < 2 ^ current_zone_level z \<Longrightarrow> get_level (zentries z' (slot u)) = get_level (zentries z (slot u))"
  shows "alloc_blocks z' = alloc_blocks z"
  using assms by (auto simp: alloc_blocks_def)


text \<open>Popping a nonempty list hands the block to the operation.\<close>

lemma pop_free_Cons:
  assumes rep: "zone_rep z fls X" and "zone_geom z k" and l: "l \<le> current_zone_level z"
    and fls: "fls l = u # us"
  shows "\<exists>z'. pop_free z l = Inr (z', of_nat u) \<and> zone_rep z' (fls(l := us)) (insert (l, u) X) \<and>
    zentries z' = zentries z \<and> same_geom z z' \<and> alloc_blocks z' = alloc_blocks z"
proof -
  from assms(2) l have L: "l \<le> max_zone_level z" by (simp add: zone_geom_def)
  have h: "zes_holds (zentries z) (free_list z l) (u # us)"
    using zone_repD(1) [OF rep L] fls by simp
  then obtain st where st: "zes_pop (zentries z) (free_list z l) = (st, of_nat u)"
    "zes_holds (zentries z) st us"
    using zes.pop_holds by blast
  define z' where "z' = z\<lparr>free_list := (free_list z)(l := st)\<rparr>"
  have d: "u \<notin> set us"
    using h chain_distinct [of "zentries z" "head (free_list z l)" "u # us"] by (simp add: zes_holds_def)
  have free: "free_blocks z' (fls(l := us)) = free_blocks z fls - {(l, u)}"
    using l fls d by (auto simp: free_blocks_def z'_def split: if_splits)
  have al: "alloc_blocks z' = alloc_blocks z" by (simp add: alloc_blocks_def z'_def)
  have lu: "(l, u) \<in> free_blocks z fls" using l fls by (simp add: free_blocks_def)
  have nal: "(l, u) \<notin> alloc_blocks z"
    using zone_repD(3) [OF rep, of u l] fls by (auto simp: alloc_blocks_def)
  have all: "blocks_of z' (fls(l := us)) (insert (l, u) X) = blocks_of z fls X"
    using free al lu by (auto simp: blocks_of_def)
  have disj: "insert (l, u) X \<inter> (free_blocks z' (fls(l := us)) \<union> alloc_blocks z') = {}"
    using zone_repD(7) [OF rep] nal unfolding free al by blast
  have lists: "zes_holds (zentries z') (free_list z' l') ((fls(l := us)) l')" if "l' \<le> max_zone_level z'" for l'
    using zone_repD(1) [OF rep, of l'] st(2) that by (simp add: z'_def)
  have na: "\<not> is_allocated (zentries z' (slot v))" if "v \<in> set ((fls(l := us)) l')" for l' v
    using zone_repD(3) [OF rep, of v l'] that fls by (simp add: z'_def split: if_splits)
  have z's: "zentries z' = zentries z" "same_geom z z'" "current_zone_level z' = current_zone_level z"
    by (simp_all add: z'_def same_geom_def)
  have up: "ungrown_clear z'" using zone_repD(9) [OF rep] by (simp add: z'_def ungrown_clear_def)
  have "zone_rep z' (fls(l := us)) (insert (l, u) X)"
  proof (rule zone_repI)
    show "(fls(l := us)) l' = []" if "l' > current_zone_level z'" for l'
      using zone_repD(2) [OF rep, of l'] that l z's by auto
    show "tiles (2 ^ current_zone_level z') (blocks_of z' (fls(l := us)) (insert (l, u) X))"
      unfolding all z's(3) by (rule zone_repD(4) [OF rep])
  qed (use lists na disj up zone_repD(5,6,8) [OF rep] in \<open>simp_all only: all al z's(3), simp_all\<close>)
  moreover have "pop_free z l = Inr (z', of_nat u)"
    by (simp add: pop_free_def L st z'_def)
  ultimately show ?thesis using z's al by blast
qed

lemma pop_free_Nil:
  assumes "zone_rep z fls X" "zone_geom z k" "l \<le> current_zone_level z" "fls l = []"
  shows "pop_free z l = Inr (z, 0)"
proof -
  from assms(2,3) have L: "l \<le> max_zone_level z" by (simp add: zone_geom_def)
  with zone_repD(1) [OF assms(1) L] assms(4) zes.pop_empty show ?thesis
    by (simp add: pop_free_def)
qed

text \<open>Pushing a held block frees it.\<close>

lemma push_free_held:
  assumes rep: "zone_rep z fls X" and geom: "zone_geom z k" and X: "(l, v) \<in> X"
  shows "\<exists>z'. push_free z l (of_nat v) = Inr z' \<and> zone_rep z' (fls(l := v # fls l)) (X - {(l, v)}) \<and>
    same_geom z z' \<and> alloc_blocks z' = alloc_blocks z"
proof -
  have b: "(l, v) \<in> blocks_of z fls X" using X by (simp add: blocks_of_def)
  have l: "l \<le> current_zone_level z" using zone_repD(5) [OF rep b] .
  with geom have L: "l \<le> max_zone_level z" by (simp add: zone_geom_def)
  note vb = geom_unit_lt [OF geom rep_bound(2) [OF rep b]]
  have zb: "zes_block v" using vb by (simp add: zes_block_def)
  have nin: "v \<notin> set (fls l')" for l' using block_not_listed [OF rep] X by blast
  from zes.push_holds [OF zone_repD(1) [OF rep L] zb nin] obtain e st where
    e: "zes_push (zentries z) (free_list z l) (of_nat v) = Inr (e, st)" "zes_holds e st (v # fls l)"
    by blast
  have eu: "e = (zentries z)(slot v := pack (is_allocated (zentries z (slot v)))
      (get_level (zentries z (slot v))) (head (free_list z l)))"
    and hd: "head (free_list z l) < 2 ^ 56"
    using zone_repD(1) [OF rep L] e(1) chain_head_lt by (auto simp: zes_holds_def zes_push_eq)
  define z' where "z' = z\<lparr>zentries := e, free_list := (free_list z)(l := st)\<rparr>"
  have flags: "is_allocated (e i) = is_allocated (zentries z i)" "get_level (e i) = get_level (zentries z i)" for i
    using hd by (simp_all add: eu get_pack)
  have al: "alloc_blocks z' = alloc_blocks z"
    by (rule alloc_blocks_cong) (simp_all add: z'_def flags)
  have lists: "zes_holds (zentries z') (free_list z' l') ((fls(l := v # fls l)) l')"
    if "l' \<le> max_zone_level z'" for l'
    using zes.push_frame [OF e(1) zb zone_repD(1) [OF rep] nin] e(2) that by (simp add: z'_def)
  have free: "free_blocks z' (fls(l := v # fls l)) = insert (l, v) (free_blocks z fls)"
    using l by (auto simp: free_blocks_def z'_def split: if_splits)
  have all: "blocks_of z' (fls(l := v # fls l)) (X - {(l, v)}) = blocks_of z fls X"
    using free al X by (auto simp: blocks_of_def)
  have disj: "(X - {(l, v)}) \<inter> (free_blocks z' (fls(l := v # fls l)) \<union> alloc_blocks z') = {}"
    using zone_repD(7) [OF rep] unfolding free al by blast
  have na: "\<not> is_allocated (e (slot w))" if "w \<in> set ((fls(l := v # fls l)) l')" for w l'
    using that held_not_allocated [OF rep X] zone_repD(3) [OF rep] by (auto simp: flags split: if_splits)
  have up: "ungrown_clear z'" using zone_repD(9) [OF rep] by (simp add: z'_def ungrown_clear_def flags)
  have cz: "current_zone_level z' = current_zone_level z" "zentries z' = e" by (simp_all add: z'_def)
  have "zone_rep z' (fls(l := v # fls l)) (X - {(l, v)})"
  proof (rule zone_repI)
    show "(fls(l := v # fls l)) l' = []" if "l' > current_zone_level z'" for l'
      using zone_repD(2) [OF rep, of l'] that l cz by auto
    show "tiles (2 ^ current_zone_level z') (blocks_of z' (fls(l := v # fls l)) (X - {(l, v)}))"
      unfolding all cz(1) by (rule zone_repD(4) [OF rep])
  qed (use lists na disj up zone_repD(5,6,8) [OF rep] in \<open>simp_all only: all al cz, simp_all\<close>)
  moreover have "push_free z l (of_nat v) = Inr z'"
    by (simp add: push_free_def L e z'_def)
  moreover have "same_geom z z'" by (simp add: z'_def same_geom_def)
  ultimately show ?thesis using al by blast
qed


text \<open>Only the tiling changes when a held block is split in two, or two buddies are joined.\<close>

lemma retile_held:
  assumes rep: "zone_rep z fls X" and C: "C \<subseteq> X" and spans: "\<Union> (span ` D) = \<Union> (span ` C)"
    and uniq: "\<And>c d w. \<lbrakk>c \<in> D; d \<in> D; w \<in> span c; w \<in> span d\<rbrakk> \<Longrightarrow> c = d"
    and ok: "\<And>l u. (l, u) \<in> D \<Longrightarrow> l \<le> current_zone_level z \<and> 2 ^ l dvd u"
  shows "zone_rep z fls ((X - C) \<union> D)"
proof -
  have CB: "C \<subseteq> blocks_of z fls X" using C by (auto simp: blocks_of_def)
  have dC: "C \<inter> (free_blocks z fls \<union> alloc_blocks z) = {}" using C zone_repD(7) [OF rep] by blast
  have all: "blocks_of z fls ((X - C) \<union> D) = (blocks_of z fls X - C) \<union> D"
    using dC by (auto simp: blocks_of_def)
  have "tiles (2 ^ current_zone_level z) ((blocks_of z fls X - C) \<union> D)"
    by (rule tiles_replace [OF zone_repD(4) [OF rep] CB spans uniq])
  moreover have "D \<inter> (free_blocks z fls \<union> alloc_blocks z) = {}"
  proof -
    have False if d: "d \<in> D" "d \<in> free_blocks z fls \<union> alloc_blocks z" for d
    proof -
      from d(1) spans start_in_span [of d] obtain c where c: "c \<in> C" "snd d \<in> span c" by blast
      have "d \<in> blocks_of z fls X" using d(2) by (auto simp: blocks_of_def)
      moreover have "c \<in> blocks_of z fls X" using c CB by blast
      ultimately have "c = d" using rep_unique [OF rep] c(2) start_in_span [of d] by blast
      with c(1) d(2) dC show False by blast
    qed
    then show ?thesis by blast
  qed
  moreover have "(X - C) \<inter> (free_blocks z fls \<union> alloc_blocks z) = {}"
    using zone_repD(7) [OF rep] by blast
  ultimately show ?thesis
    using zone_repD(1,2,3,5,6,8,9) [OF rep] ok
    by (intro zone_repI) (simp_all only: all Int_Un_distrib2 Un_empty_left, blast+)
qed

lemma split_held:
  assumes rep: "zone_rep z fls X" and X: "(Suc l, u) \<in> X"
  shows "zone_rep z fls ((X - {(Suc l, u)}) \<union> {(l, u), (l, u + 2 ^ l)})"
proof (rule retile_held [OF rep])
  show "{(Suc l, u)} \<subseteq> X" using X by simp
  show "\<Union> (span ` {(l, u), (l, u + 2 ^ l)}) = \<Union> (span ` {(Suc l, u)})"
    by (auto simp: span_def)
  have "(Suc l, u) \<in> blocks_of z fls X" using X by (simp add: blocks_of_def)
  from zone_repD(5,6) [OF rep this] have "Suc l \<le> current_zone_level z" "2 ^ Suc l dvd u" by auto
  moreover from this have "2 ^ l dvd u" by (metis dvd_trans le_imp_power_dvd lessI less_imp_le)
  ultimately show "l' \<le> current_zone_level z \<and> 2 ^ l' dvd u'"
    if "(l', u') \<in> {(l, u), (l, u + 2 ^ l)}" for l' u' using that by auto
qed (auto simp: span_def)

lemma join_held:
  assumes rep: "zone_rep z fls X" and X: "(l, u) \<in> X" "(l, u + 2 ^ l) \<in> X"
    and l: "l < current_zone_level z" and u: "2 ^ Suc l dvd u"
  shows "zone_rep z fls ((X - {(l, u), (l, u + 2 ^ l)}) \<union> {(Suc l, u)})"
  by (rule retile_held [OF rep]) (use X l u in \<open>auto simp: span_def\<close>)

text \<open>Setting the allocation bit of a held block allocates it; clearing one takes it back.\<close>

lemma level_word_ok: "l < 128 \<Longrightarrow> (of_nat l :: u64) < 2 ^ 7 \<and> unat (of_nat l :: u64) = l"
  using unat_of_nat_64 [of l] by (simp add: word_less_nat_alt)

lemma modify_bitmap_bit_eq:
  assumes "zone_geom z k" "u < 2 ^ current_zone_level z" "l < 128"
  shows "modify_bitmap_bit z l (off z u) b =
    Inr (z\<lparr>zentries := (zentries z)(slot u := pack b (of_nat l) 0)\<rparr>)"
  using level_word_ok [OF assms(3)]
  by (simp add: modify_bitmap_bit_def off_div [OF assms(1,2)] zone_entry_pack flip: slot_def)

lemma modify_entry_rep:
  assumes rep: "zone_rep z fls X" and geom: "zone_geom z k" and lu: "(l, u) \<in> X \<union> alloc_blocks z"
    and z': "z' = z\<lparr>zentries := (zentries z)(slot u := pack b (of_nat l) 0)\<rparr>"
    and u0: "b \<or> u \<noteq> 0"
  shows "zone_rep z' fls (if b then X - {(l, u)} else insert (l, u) X)"
    "alloc_blocks z' = (if b then insert (l, u) (alloc_blocks z) else alloc_blocks z - {(l, u)})"
    "same_geom z z'"
proof -
  have B: "(l, u) \<in> blocks_of z fls X" using lu by (auto simp: blocks_of_def)
  note ub = rep_bound(2) [OF rep B]
  note vb = geom_unit_lt [OF geom]
  have "l \<le> 34" using zone_repD(5) [OF rep B] geom by (simp add: zone_geom_def)
  then have l: "(of_nat l :: u64) < 2 ^ 7" "unat (of_nat l :: u64) = l" using level_word_ok [of l] by simp_all
  have sl: "slot w = slot u \<longleftrightarrow> w = u" if "w < 2 ^ current_zone_level z" for w
    using vb that ub by (intro slot_inj) auto
  have maxlt: "w < 2 ^ max_zone_level z \<Longrightarrow> Suc w < 2 ^ 64" for w
  proof -
    assume "w < 2 ^ max_zone_level z"
    moreover have "(2 :: nat) ^ max_zone_level z \<le> 2 ^ 34"
      using geom by (intro power_increasing) (simp_all add: zone_geom_def)
    ultimately have "w < 2 ^ 34" by linarith
    then show ?thesis by simp
  qed
  have upslot: "slot w \<noteq> slot u" if "2 ^ current_zone_level z \<le> w" "w < 2 ^ max_zone_level z" for w
    using slot_inj [OF maxlt [OF that(2)], of u] that vb(3) ub by auto
  have onlyone: "(l', u) \<in> alloc_blocks z \<Longrightarrow> l' = l" for l'
    using rep_unique [OF rep B, of "(l', u)" u] by (auto simp: blocks_of_def)
  show al: "alloc_blocks z' = (if b then insert (l, u) (alloc_blocks z) else alloc_blocks z - {(l, u)})"
    using ub l sl onlyone by (auto simp: alloc_blocks_def z' get_pack split: if_splits)
  show "same_geom z z'" by (simp add: z' same_geom_def)
  have nin: "u \<notin> set (fls l')" for l' using block_not_listed [OF rep] lu by blast
  have u56: "Suc u < 2 ^ 64" using vb ub by blast
  have lists: "zes_holds (zentries z') (free_list z' l') (fls l')" if "l' \<le> max_zone_level z'" for l'
    using zone_repD(1) [OF rep, of l'] chain_update [OF _ nin u56] that by (simp add: z' zes_holds_def)
  have fr: "free_blocks z' fls = free_blocks z fls" by (simp add: free_blocks_def z')
  let ?Y = "if b then X - {(l, u)} else insert (l, u) X"
  have all: "blocks_of z' fls ?Y = blocks_of z fls X"
    using lu al fr by (auto simp: blocks_of_def)
  have nf: "(l, u) \<notin> free_blocks z fls" using nin by (simp add: free_blocks_def)
  have disj: "?Y \<inter> (free_blocks z' fls \<union> alloc_blocks z') = {}"
    using zone_repD(7) [OF rep] nf unfolding fr al by auto
  have na: "\<not> is_allocated (zentries z' (slot w))" if "w \<in> set (fls l')" for w l'
  proof -
    have "w \<noteq> u" using that nin by blast
    moreover have "l' \<le> max_zone_level z"
      using that zone_repD(2) [OF rep, of l'] geom by (cases "l' \<le> current_zone_level z") (auto simp: zone_geom_def)
    then have "Suc w < 2 ^ 56"
      using zone_repD(1) [OF rep] that chain_bound unfolding zes_holds_def by blast
    ultimately have "slot w \<noteq> slot u" using slot_inj [of w u] u56 by auto
    then show ?thesis using zone_repD(3) [OF rep that] by (simp add: z')
  qed
  have zero: "(0, 0) \<in> alloc_blocks z'"
  proof (cases "u = 0")
    case True
    with u0 have b by simp
    have "(0, 0) \<in> blocks_of z fls X" using zone_repD(8) [OF rep] by (simp add: blocks_of_def)
    from rep_unique [OF rep B this, of 0] True have "(l, u) = (0, 0)" by simp
    with \<open>b\<close> show ?thesis unfolding al by simp
  next
    case False
    with zone_repD(8) [OF rep] show ?thesis unfolding al by auto
  qed
  have cz: "current_zone_level z' = current_zone_level z" by (simp add: z')
  have up: "ungrown_clear z'"
    using zone_repD(9) [OF rep] upslot by (simp add: z' ungrown_clear_def)
  show "zone_rep z' fls ?Y"
  proof (rule zone_repI)
    show "tiles (2 ^ current_zone_level z') (blocks_of z' fls ?Y)"
      unfolding all cz by (rule zone_repD(4) [OF rep])
  qed (use lists na disj zero up zone_repD(2,5,6) [OF rep] in \<open>simp_all only: all cz, simp_all\<close>)
qed

text \<open>An operation that touches neither the entries nor the free lists keeps the invariant.\<close>

lemma zone_rep_frame:
  assumes "zone_rep z fls X" "zentries z' = zentries z" "free_list z' = free_list z" "same_geom z z'"
  shows "zone_rep z' fls X" "alloc_blocks z' = alloc_blocks z"
proof -
  show al: "alloc_blocks z' = alloc_blocks z"
    using assms by (simp add: alloc_blocks_def same_geom_def)
  have "free_blocks z' fls = free_blocks z fls"
    using assms by (simp add: free_blocks_def same_geom_def)
  then show "zone_rep z' fls X"
    using assms al by (simp add: zone_rep_def blocks_of_def same_geom_def ungrown_clear_def)
qed

end
