(* ===== verification/Zone_Alloc_Correct.thy ===== *)
theory Zone_Alloc_Correct
  imports Zone_Inv
begin

text \<open>
  What \<open>alloc\<close>, \<open>grow\<close> and \<open>free\<close> do to the tiling of a zone: each one meets no fault on a
  zone that satisfies the invariant, keeps the invariant, and changes the set of allocated
  blocks by exactly the block it returns or takes back.
\<close>

section \<open>Fields that stay\<close>

text \<open>List operations write the entries and the free lists only.\<close>

definition lists_only :: "zone \<Rightarrow> zone \<Rightarrow> bool" where
  "lists_only z z' \<longleftrightarrow> (\<exists>e f. z' = z\<lparr>zentries := e, free_list := f\<rparr>)"

lemma lists_onlyI: "z' = z\<lparr>zentries := e, free_list := f\<rparr> \<Longrightarrow> lists_only z z'"
  by (auto simp: lists_only_def)

lemma lists_only_refl [simp]: "lists_only z z"
  by (rule lists_onlyI [where e = "zentries z" and f = "free_list z"]) simp

lemma lists_only_trans: "lists_only x y \<Longrightarrow> lists_only y z \<Longrightarrow> lists_only x z"
  unfolding lists_only_def by (elim exE, simp) blast

lemma lists_only_fields:
  assumes "lists_only z z'"
  shows "same_geom z z'" "grow_in_progress z' = grow_in_progress z" "shelf z' = shelf z"
    "zone_header_ptr z' = zone_header_ptr z" "shelf_location_ptr z' = shelf_location_ptr z"
    "merge_in_progress z' = merge_in_progress z" "merge_status z' = merge_status z"
    "current_merge_level z' = current_merge_level z" "safe_copy z' = safe_copy z"
    "post_merge_level z' = post_merge_level z" "post_merge_next_level z' = post_merge_next_level z"
    "merge_bitmap z' = merge_bitmap z" "current_zone_level z' = current_zone_level z"
    "max_zone_level z' = max_zone_level z" "min_obj_size z' = min_obj_size z"
    "max_zone_size z' = max_zone_size z"
  using assms by (auto simp: lists_only_def same_geom_def)

lemma push_free_lists_only:
  assumes "push_free z l i = Inr z'"
  shows "lists_only z z'"
  using assms by (auto simp: push_free_def lists_only_def split: if_splits)

lemma pop_free_lists_only:
  assumes "pop_free z l = Inr (z', i)"
  shows "lists_only z z'"
  using assms
  by (intro lists_onlyI [where e = "zentries z" and f = "free_list z'"])
    (auto simp: pop_free_def Let_def split: if_splits prod.splits)

lemma alloc_split_lists_only:
  "alloc_split z l orig res cs = Inr z' \<Longrightarrow> lists_only z z'"
proof (induction l arbitrary: z cs)
  case 0
  then show ?case by (simp add: alloc_split.simps [of z 0])
next
  case (Suc l)
  show ?case
  proof (cases "Suc l \<le> orig")
    case True
    with Suc.prems show ?thesis by (simp add: alloc_split.simps [of z "Suc l"])
  next
    case False
    with Suc.prems obtain y where
      "push_free z l ((res + drop_bit 1 cs) div min_obj_size z) = Inr y"
      "alloc_split y l orig res (drop_bit 1 cs) = Inr z'"
      by (auto simp: alloc_split.simps [of z "Suc l"] Let_def)
    then show ?thesis using Suc.IH push_free_lists_only lists_only_trans by blast
  qed
qed

section \<open>Entries of allocated blocks\<close>

text \<open>The operations write no entry of a block that stays allocated.\<close>

definition alloc_kept :: "zone \<Rightarrow> zone \<Rightarrow> bool" where
  "alloc_kept z z' \<longleftrightarrow> (\<forall>l w. (l, w) \<in> alloc_blocks z \<longrightarrow> zentries z' (slot w) = zentries z (slot w))"

lemma alloc_kept_same: "zentries z' = zentries z \<Longrightarrow> alloc_kept z z'"
  by (simp add: alloc_kept_def)

lemma alloc_kept_trans: "alloc_kept x y \<Longrightarrow> alloc_kept y z \<Longrightarrow> alloc_blocks x \<subseteq> alloc_blocks y \<Longrightarrow> alloc_kept x z"
  unfolding alloc_kept_def by (metis subsetD)

lemma alloc_slot_neq:
  assumes "zone_rep z fls X" "zone_geom z k" "(l, v) \<in> X" "(m, w) \<in> alloc_blocks z"
  shows "slot w \<noteq> slot v"
proof
  have B: "(l, v) \<in> blocks_of z fls X" "(m, w) \<in> blocks_of z fls X" using assms(3,4) by (simp_all add: blocks_of_def)
  assume "slot w = slot v"
  then have "w = v"
    using slot_inj geom_unit_lt(3) [OF assms(2) rep_bound(2) [OF assms(1) B(1)]] geom_unit_lt(3) [OF assms(2) rep_bound(2) [OF assms(1) B(2)]]
    by blast
  then have "(l, v) = (m, w)" using rep_unique [OF assms(1) B, of v] by simp
  then show False using zone_repD(7) [OF assms(1)] assms(3,4) by auto
qed

lemma push_free_kept:
  assumes "zone_rep z fls X" "zone_geom z k" "(l, v) \<in> X" "push_free z l' (of_nat v) = Inr z'"
  shows "alloc_kept z z'"
  unfolding alloc_kept_def
proof (intro allI impI)
  fix m w
  assume "(m, w) \<in> alloc_blocks z"
  from alloc_slot_neq [OF assms(1-3) this] show "zentries z' (slot w) = zentries z (slot w)"
    using assms(4) by (auto simp: push_free_def zes_push_def Let_def slot_def split: if_splits)
qed

section \<open>Splitting\<close>

lemma off_add:
  assumes "zone_geom z k" "l + k < 64"
  shows "off z u + 2 ^ (l + k) = off z (u + 2 ^ l)"
  using assms by (simp add: off_def zone_geom_def power_add distrib_right)

lemma half_size:
  assumes "Suc l + k < 64"
  shows "drop_bit 1 (2 ^ (Suc l + k) :: u64) = 2 ^ (l + k)"
  using assms by (intro u64_eqI) (simp add: drop_bit_eq_div unat_div unat_power_of_2 del: power_Suc add_Suc, simp)

lemma alloc_split_rep:
  assumes "zone_rep z fls X" "zone_geom z k" "(l, u) \<in> X" "orig \<le> l"
  shows "\<exists>z' fls'. alloc_split z l orig (off z u) (2 ^ (l + k)) = Inr z' \<and>
    zone_rep z' fls' ((X - {(l, u)}) \<union> {(orig, u)}) \<and> alloc_blocks z' = alloc_blocks z \<and> alloc_kept z z'"
  using assms
proof (induction l arbitrary: z fls X)
  case 0
  then have "insert (0, u) X = X" by blast
  with 0 show ?case by (auto simp: alloc_split.simps [of z 0] alloc_kept_same)
next
  case (Suc l)
  show ?case
  proof (cases "orig = Suc l")
    case True
    with Suc.prems have "insert (Suc l, u) X = X" by blast
    with True Suc.prems show ?thesis by (auto simp: alloc_split.simps [of z "Suc l"] alloc_kept_same)
  next
    case False
    with Suc.prems have le: "orig \<le> l" "\<not> Suc l \<le> orig" by auto
    define v where "v = u + 2 ^ l"
    define Y where "Y = (X - {(Suc l, u)}) \<union> {(l, u), (l, v)}"
    have Y: "zone_rep z fls Y"
      using split_held [OF Suc.prems(1,3)] by (simp add: Y_def v_def)
    have inY: "(l, u) \<in> Y" "(l, v) \<in> Y" by (simp_all add: Y_def)
    then have vB: "(l, v) \<in> blocks_of z fls Y" by (simp add: blocks_of_def)
    have "Suc l \<le> 34"
      using zone_repD(5) [OF Suc.prems(1), of "Suc l" u] Suc.prems(2,3)
      by (simp add: blocks_of_def zone_geom_def)
    moreover have k: "k \<le> 34" "max_zone_level z + k \<le> 40" using Suc.prems(2) by (simp_all add: zone_geom_def)
    moreover have "Suc l \<le> max_zone_level z"
      using zone_repD(5) [OF Suc.prems(1), of "Suc l" u] Suc.prems(2,3)
      by (simp add: blocks_of_def zone_geom_def)
    ultimately have lk: "l + k < 64" "Suc l + k < 64" by linarith+
    have half: "drop_bit 1 (2 ^ (Suc l + k) :: u64) = 2 ^ (l + k)" by (rule half_size [OF lk(2)])
    have addr: "(off z u + 2 ^ (l + k)) div min_obj_size z = of_nat v"
      using off_div [OF Suc.prems(2) rep_bound(2) [OF Y vB]] off_add [OF Suc.prems(2) lk(1), of u]
      by (simp only: v_def)
    from push_free_held [OF Y Suc.prems(2) inY(2)] obtain y where
      y: "push_free z l (of_nat v) = Inr y" "zone_rep y (fls(l := v # fls l)) (Y - {(l, v)})"
        "same_geom z y" "alloc_blocks y = alloc_blocks z" by blast
    have uv: "u \<noteq> v" by (simp add: v_def)
    with inY have "(l, u) \<in> Y - {(l, v)}" by simp
    from Suc.IH [OF y(2) same_geom_geom [OF y(3) Suc.prems(2)] this le(1)] obtain z' fls' where
      z': "alloc_split y l orig (off y u) (2 ^ (l + k)) = Inr z'"
      "zone_rep z' fls' (((Y - {(l, v)}) - {(l, u)}) \<union> {(orig, u)})" "alloc_blocks z' = alloc_blocks y" "alloc_kept y z'" by blast
    have kept: "alloc_kept z z'"
      using alloc_kept_trans [OF push_free_kept [OF Y Suc.prems(2) inY(2) y(1)] z'(4)] y(4) by simp
    have "off y u = off z u" using y(3) by (simp add: off_def same_geom_def)
    moreover have "(l, u) \<notin> X" "(l, v) \<notin> X"
    proof -
      have *: "b = (Suc l, u)" if "b \<in> X" "w \<in> span b" "w \<in> span (Suc l, u)" for b w
        using rep_unique [OF Suc.prems(1), of b "(Suc l, u)" w] that Suc.prems(3)
        by (simp add: blocks_of_def)
      show "(l, u) \<notin> X" using * [of "(l, u)" u] by auto
      show "(l, v) \<notin> X" using * [of "(l, v)" v] by (auto simp: v_def)
    qed
    then have "((Y - {(l, v)}) - {(l, u)}) = X - {(Suc l, u)}" by (auto simp: Y_def)
    ultimately show ?thesis
      using z'(1-3) kept y(1,4) le(2) half addr by (auto simp: alloc_split.simps [of z "Suc l"] Let_def simp del: power_Suc)
  qed
qed

section \<open>Scanning the free lists\<close>

text \<open>
  What \<open>alloc\<close> promises when it takes block \<open>u\<close> at level \<open>orig\<close>: a free block of a level at
  least \<open>orig\<close> started there, and afterwards exactly that block is newly allocated. The
  chunk is zeroed, and apart from that only entries and free lists change.
\<close>

definition allocated_from :: "zone \<Rightarrow> (nat \<Rightarrow> nat list) \<Rightarrow> u64 \<Rightarrow> nat \<Rightarrow> zone \<Rightarrow> nat \<Rightarrow> bool" where
  "allocated_from z fls cs orig z' u \<longleftrightarrow> u \<noteq> 0 \<and> u < 2 ^ current_zone_level z \<and>
     (\<exists>l \<ge> orig. (l, u) \<in> free_blocks z fls) \<and> (\<exists>fls'. zone_rep z' fls' {}) \<and>
     alloc_blocks z' = insert (orig, u) (alloc_blocks z) \<and> lists_only (zero_chunk z (off z u) cs) z' \<and>
     alloc_kept z z'"

lemma zero_chunk_frame:
  "same_geom z (zero_chunk z p n)" "zentries (zero_chunk z p n) = zentries z"
  "free_list (zero_chunk z p n) = free_list z" "off (zero_chunk z p n) u = off z u"
  by (simp_all add: zero_chunk_def same_geom_def off_def)

lemma lists_only_zero: "lists_only z z' \<Longrightarrow> lists_only (zero_chunk z p n) (zero_chunk z' p n)"
  by (cases z) (auto simp: lists_only_def zero_chunk_def cong: if_cong)

text \<open>Popping, splitting and marking a block, in this order.\<close>

lemma take_block:
  assumes rep: "zone_rep z fls {}" and geom: "zone_geom z k"
    and l: "l \<le> current_zone_level z" "orig \<le> l" and fls: "fls l = u # us"
  shows "\<exists>z1 z2 z3. pop_free z l = Inr (z1, of_nat u) \<and> off z u \<noteq> 0 \<and> min_obj_size z1 = min_obj_size z \<and>
    alloc_split z1 l orig (off z u) (2 ^ (l + k)) = Inr z2 \<and>
    set_bitmap_bit (zero_chunk z2 (off z u) cs) orig (off z u) = Inr z3 \<and>
    allocated_from z fls cs orig z3 u"
proof -
  have lu: "(l, u) \<in> free_blocks z fls" using l fls by (simp add: free_blocks_def)
  then have B: "(l, u) \<in> blocks_of z fls {}" by (simp add: blocks_of_def)
  have B0: "(0, 0) \<in> blocks_of z fls {}" using zone_repD(8) [OF rep] by (simp add: blocks_of_def)
  have u0: "u \<noteq> 0"
  proof
    assume "u = 0"
    with rep_unique [OF rep B B0, of 0] have "(l, u) = (0, 0)" by simp
    with block_not_listed [OF rep, of 0 0 l] zone_repD(8) [OF rep] fls show False by simp
  qed
  note ul = rep_bound(2) [OF rep B]
  from pop_free_Cons [where l = l and fls = fls, OF rep geom l(1) fls] obtain z1 where
    z1: "pop_free z l = Inr (z1, of_nat u)" "zone_rep z1 (fls(l := us)) {(l, u)}"
    "same_geom z z1" "alloc_blocks z1 = alloc_blocks z" by blast
  from alloc_split_rep [OF z1(2) same_geom_geom [OF z1(3) geom] _ l(2), of u] obtain z2 fls2 where
    z2: "alloc_split z1 l orig (off z1 u) (2 ^ (l + k)) = Inr z2" "zone_rep z2 fls2 {(orig, u)}"
    "alloc_blocks z2 = alloc_blocks z1" "alloc_kept z1 z2" by auto
  note l1 = pop_free_lists_only [OF z1(1)] and l2 = alloc_split_lists_only [OF z2(1)]
  have ou: "off z1 u = off z u" using z1(3) by (simp add: off_def same_geom_def)
  define y where "y = zero_chunk z2 (off z u) cs"
  have gy: "same_geom z y"
    unfolding y_def using lists_only_fields(1) [OF lists_only_trans [OF l1 l2]] zero_chunk_frame(1) same_geom_trans by blast
  have ry: "zone_rep y fls2 {(orig, u)}" "alloc_blocks y = alloc_blocks z2"
    using zone_rep_frame [OF z2(2) zero_chunk_frame(2,3,1)] unfolding y_def by auto
  note geomy = same_geom_geom [OF gy geom]
  have uy: "u < 2 ^ current_zone_level y" using ul gy by (simp add: same_geom_def)
  have orig: "orig < 128" using l geom by (simp add: zone_geom_def)
  have oy: "off y u = off z u" using gy by (simp add: off_def same_geom_def)
  define z3 where "z3 = y\<lparr>zentries := (zentries y)(slot u := pack True (of_nat orig) 0)\<rparr>"
  have set: "set_bitmap_bit y orig (off z u) = Inr z3"
    using modify_bitmap_bit_eq [OF geomy uy orig, of True] by (simp add: set_bitmap_bit_def z3_def oy)
  have in3: "(orig, u) \<in> {(orig, u)} \<union> alloc_blocks y" by simp
  have r3: "zone_rep z3 fls2 {}" "alloc_blocks z3 = insert (orig, u) (alloc_blocks y)"
    using modify_entry_rep [OF ry(1) geomy in3 z3_def] by simp_all
  have "lists_only (zero_chunk z (off z u) cs) y"
    unfolding y_def using lists_only_zero lists_only_trans [OF l1 l2] by blast
  moreover have "lists_only y z3"
    unfolding z3_def by (rule lists_onlyI [where f = "free_list y"]) simp
  moreover have "alloc_kept z z3"
  proof -
    have "zentries z1 = zentries z" using z1(1) by (auto simp: pop_free_def Let_def split: if_splits prod.splits)
    moreover have "zentries y = zentries z2" by (simp add: y_def zero_chunk_def)
    moreover have "alloc_kept y z3"
      unfolding alloc_kept_def
    proof (intro allI impI)
      fix m w
      assume "(m, w) \<in> alloc_blocks y"
      from alloc_slot_neq [OF ry(1) geomy _ this, of orig u] show "zentries z3 (slot w) = zentries y (slot w)"
        by (simp add: z3_def)
    qed
    ultimately show ?thesis using z2(4) z1(4) z2(3) ry(2) unfolding alloc_kept_def by metis
  qed
  ultimately have "allocated_from z fls cs orig z3 u"
    using u0 ul lu l(2) r3 ry(2) z1(4) z2(3) lists_only_trans
    by (auto simp: allocated_from_def)
  with z1(1) z2(1) set u0 off_eq_0_iff [OF geom ul] ou y_def z1(3) show ?thesis
    by (auto simp: same_geom_def)
qed

lemma alloc_scan_spec:
  assumes "zone_rep z fls {}" "zone_geom z k" "orig \<le> level"
  shows "(\<exists>z' u. alloc_scan z cs orig level (current_zone_level z) = Inr (z', off z u) \<and> off z u \<noteq> 0 \<and>
      allocated_from z fls cs orig z' u) \<or>
    (alloc_scan z cs orig level (current_zone_level z) = Inr (z, 0) \<and>
      (\<forall>l. level \<le> l \<and> l \<le> current_zone_level z \<longrightarrow> fls l = []))"
  using assms(3)
proof (induction "Suc (current_zone_level z) - level" arbitrary: level)
  case 0
  then show ?case by (intro disjI2) (auto simp: alloc_scan.simps [of z cs orig level])
next
  case (Suc n)
  then have l: "level \<le> current_zone_level z" by simp
  have size: "find_size_from_level (of_nat level) (min_obj_size z) = 2 ^ (level + k)"
    using assms(2) l by (auto simp: zone_geom_def intro!: find_size_of_level)
  show ?case
  proof (cases "fls level")
    case Nil
    have "alloc_scan z cs orig level (current_zone_level z) =
      alloc_scan z cs orig (Suc level) (current_zone_level z)"
      using l pop_free_Nil [of z fls "{}" k level] assms Nil by (simp add: alloc_scan.simps [of z cs orig level])
    moreover have "level \<le> m \<and> m \<le> c \<longleftrightarrow> m = level \<and> level \<le> c \<or> Suc level \<le> m \<and> m \<le> c" for m c by auto
    ultimately show ?thesis using Suc.hyps(1) [of "Suc level"] Suc.hyps(2) Suc.prems Nil by auto
  next
    case (Cons u us)
    from take_block [where fls = fls and l = level and orig = orig and u = u and us = us and cs = cs,
        OF assms(1,2) l Suc.prems Cons]
    obtain z1 z2 z3 where *: "pop_free z level = Inr (z1, of_nat u)" "off z u \<noteq> 0"
      "min_obj_size z1 = min_obj_size z"
      "alloc_split z1 level orig (off z u) (2 ^ (level + k)) = Inr z2"
      "set_bitmap_bit (zero_chunk z2 (off z u) cs) orig (off z u) = Inr z3"
      "allocated_from z fls cs orig z3 u" by blast
    have "alloc_scan z cs orig level (current_zone_level z) = Inr (z3, off z u)"
      using l * size by (simp add: alloc_scan.simps [of z cs orig level] flip: off_def)
    with * show ?thesis by blast
  qed
qed

section \<open>Growing\<close>

text \<open>
  \<open>grow\<close> derives the number of the new chunk from \<open>zone_header_ptr\<close>, so it is the chunk behind
  the current zone only where header and data start at the same address. With the header elsewhere, as the
  heaps of the repository have it, a zone is well formed only at its maximal size, which is the size they
  create it with. \<open>growable\<close> is a condition on the addresses; whether a header at the start of the data has room for the entries of
  the larger zone is not part of it, since header and data are separate memories here.
\<close>

definition growable :: "zone \<Rightarrow> bool" where
  "growable z \<longleftrightarrow> zone_header_ptr z = shelf_location_ptr z \<and>
     unat (shelf_location_ptr z) + unat (max_zone_size z) < 2 ^ 64"

lemma tiles_extend:
  assumes "tiles N B" "span b = {N..<M}" "N \<le> M"
  shows "tiles M (insert b B)"
  unfolding tiles_def
proof (intro conjI ballI allI impI)
  fix c
  assume "c \<in> insert b B"
  then show "span c \<subseteq> {..<M}"
    using assms unfolding tiles_def by force
next
  fix u
  assume "u < M"
  show "\<exists>!c. c \<in> insert b B \<and> u \<in> span c"
  proof (cases "u < N")
    case True
    with assms obtain c where "c \<in> B" "u \<in> span c" "\<And>d. d \<in> B \<Longrightarrow> u \<in> span d \<Longrightarrow> d = c"
      unfolding tiles_def by blast
    moreover from True assms(2) have "u \<notin> span b" by simp
    ultimately show ?thesis by (intro ex1I [of _ c]) blast+
  next
    case False
    with \<open>u < M\<close> assms(2) have "u \<in> span b" by simp
    moreover have "u \<notin> span c" if "c \<in> B" for c
      using that False assms(1) unfolding tiles_def by blast
    ultimately show ?thesis by (intro ex1I [of _ b]) blast+
  qed
qed

text \<open>Raising the level hands the operation the chunk behind the current zone.\<close>

lemma raise_level:
  assumes rep: "zone_rep z fls X" and geom: "zone_geom z k"
    and c: "current_zone_level z < max_zone_level z"
    and z': "z' = z\<lparr>grow_in_progress := g, current_zone_level := Suc (current_zone_level z)\<rparr>"
  shows "zone_rep z' fls (insert (current_zone_level z, 2 ^ current_zone_level z) X)"
    "zone_geom z' k" "alloc_blocks z' = alloc_blocks z"
    "free_blocks z' fls = free_blocks z fls"
proof -
  let ?c = "current_zone_level z"
  show geom': "zone_geom z' k" using geom c by (simp add: z' zone_geom_def)
  have le: "(2 :: nat) ^ Suc ?c \<le> 2 ^ max_zone_level z" using c by (intro power_increasing) simp_all
  have clear: "\<not> is_allocated (zentries z (slot u))" if "2 ^ ?c \<le> u" "u < 2 ^ Suc ?c" for u
    using zone_repD(9) [OF rep] that le less_le_trans [OF that(2) le] by (simp add: ungrown_clear_def)
  have lt: "(2 :: nat) ^ ?c \<le> 2 ^ Suc ?c" by (intro power_increasing) simp_all
  show al: "alloc_blocks z' = alloc_blocks z"
  proof (intro set_eqI)
    fix b :: block
    have "\<not> is_allocated (zentries z (slot (snd b)))" if "\<not> snd b < 2 ^ ?c" "snd b < 2 ^ Suc ?c"
      using clear that by simp
    moreover have "snd b < 2 ^ ?c \<Longrightarrow> snd b < 2 ^ Suc ?c" using lt by linarith
    ultimately show "b \<in> alloc_blocks z' \<longleftrightarrow> b \<in> alloc_blocks z"
      by (cases b) (auto simp: alloc_blocks_def z' simp del: power_Suc)
  qed
  have "fls (Suc ?c) = []" using zone_repD(2) [OF rep] by simp
  then show free: "free_blocks z' fls = free_blocks z fls"
    by (auto simp: free_blocks_def z' le_Suc_eq)
  have all: "blocks_of z' fls (insert (?c, 2 ^ ?c) X) = insert (?c, 2 ^ ?c) (blocks_of z fls X)"
    by (auto simp: blocks_of_def al free)
  have new: "(?c, 2 ^ ?c) \<notin> blocks_of z fls X"
    using rep_bound(2) [OF rep, of ?c "2 ^ ?c"] by auto
  show "zone_rep z' fls (insert (?c, 2 ^ ?c) X)"
  proof (rule zone_repI)
    have "tiles (2 ^ Suc ?c) (insert (?c, 2 ^ ?c) (blocks_of z fls X))"
      by (rule tiles_extend [OF zone_repD(4) [OF rep]]) (auto simp: span_def)
    then show "tiles (2 ^ current_zone_level z') (blocks_of z' fls (insert (?c, 2 ^ ?c) X))"
      by (simp only: all) (simp add: z')
    show "l \<le> current_zone_level z' \<and> 2 ^ l dvd u"
      if "(l, u) \<in> blocks_of z' fls (insert (?c, 2 ^ ?c) X)" for l u
      using that zone_repD(5,6) [OF rep, of l u] unfolding all by (auto simp: z')
    show "insert (?c, 2 ^ ?c) X \<inter> (free_blocks z' fls \<union> alloc_blocks z') = {}"
      using zone_repD(7) [OF rep] new unfolding free al by (auto simp: blocks_of_def)
    have "Suc ?c \<le> l \<Longrightarrow> fls l = []" for l using zone_repD(2) [OF rep, of l] by simp
    then show "fls l = []" if "l > current_zone_level z'" for l using that by (simp add: z')
    show "ungrown_clear z'"
      using zone_repD(9) [OF rep] order_trans [OF lt]
      by (simp add: ungrown_clear_def z' del: power_Suc)
  qed (use zone_repD(1,3,8) [OF rep] al in \<open>simp_all add: z'\<close>)
qed

text \<open>What \<open>grow\<close> computes when the header lies at the start of the shelf.\<close>

lemma grow_eq:
  assumes geom: "zone_geom z k" and c: "current_zone_level z < max_zone_level z" and g: "grow_in_progress z = 0" "growable z"
  shows "grow z = rbind (push_free (z\<lparr>grow_in_progress := 1, current_zone_level := Suc (current_zone_level z)\<rparr>)
      (current_zone_level z) (of_nat (2 ^ current_zone_level z))) (\<lambda>z. Inr (True, z\<lparr>grow_in_progress := 0\<rparr>))"
proof -
  let ?c = "current_zone_level z"
  have k: "?c + k < 40" "?c + k < 64" "k \<le> 40" using geom c by (simp_all add: zone_geom_def)
  have size: "find_size_from_level (of_nat ?c) (min_obj_size z) = 2 ^ (?c + k)"
    using geom k by (simp add: zone_geom_def find_size_of_level)
  have le: "(2 :: nat) ^ (?c + k) \<le> 2 ^ (max_zone_level z + k)"
    using c by (intro power_increasing) simp_all
  moreover have "unat (max_zone_size z) = 2 ^ (max_zone_level z + k)"
    using geom by (simp add: zone_geom_def unat_power_of_2)
  ultimately have nowrap: "unat (shelf_location_ptr z) + unat (2 ^ (?c + k) :: u64) < 2 ^ 64"
    using g(2) k le_less_trans [OF add_left_mono [OF le, of "unat (shelf_location_ptr z)"], of "2 ^ 64"]
    by (simp add: growable_def unat_power_of_2)
  have "unat (shelf_location_ptr z + 2 ^ (?c + k)) \<noteq> 0"
    using unat_add_small [OF nowrap] k by (simp add: unat_power_of_2)
  then have nz: "shelf_location_ptr z + 2 ^ (?c + k) \<noteq> 0" by (metis unat_0)
  have div: "(2 ^ (?c + k) :: u64) div min_obj_size z = of_nat (2 ^ ?c)"
    using geom k pow2_div_pow2 [of k "?c + k"] by (simp add: zone_geom_def)
  have chunk: "to_Offset (z\<lparr>grow_in_progress := 1, current_zone_level := ?c + 1\<rparr>)
      (zone_header_ptr z + 2 ^ (?c + k)) div min_obj_size z = of_nat (2 ^ ?c)"
    using g(2) nz div by (simp add: to_Offset_def growable_def)
  show ?thesis using g c size chunk by (simp add: grow_def Let_def)
qed

lemma grow_spec:
  assumes rep: "zone_rep z fls {}" and geom: "zone_geom z k"
    and c: "current_zone_level z < max_zone_level z" and g: "grow_in_progress z = 0" "growable z"
  shows "\<exists>z'. grow z = Inr (True, z') \<and>
    zone_rep z' (fls(current_zone_level z := 2 ^ current_zone_level z # fls (current_zone_level z))) {} \<and>
    zone_geom z' k \<and> current_zone_level z' = Suc (current_zone_level z) \<and>
    max_zone_level z' = max_zone_level z \<and> min_obj_size z' = min_obj_size z \<and>
    grow_in_progress z' = 0 \<and> growable z' \<and> alloc_blocks z' = alloc_blocks z \<and> shelf z' = shelf z \<and> alloc_kept z z'"
proof -
  let ?c = "current_zone_level z"
  define y where "y = z\<lparr>grow_in_progress := 1, current_zone_level := Suc ?c\<rparr>"
  note r = raise_level [OF rep geom c y_def]
  have in_X: "(?c, 2 ^ ?c) \<in> insert (?c, 2 ^ ?c) {}" by simp
  from push_free_held [OF r(1,2) in_X] obtain z1 where
    z1: "push_free y ?c (of_nat (2 ^ ?c)) = Inr z1"
      "zone_rep z1 (fls(?c := 2 ^ ?c # fls ?c)) {}" "same_geom y z1" "alloc_blocks z1 = alloc_blocks y"
    by auto
  note lo = lists_only_fields [OF push_free_lists_only [OF z1(1)]]
  have "grow z = Inr (True, z1\<lparr>grow_in_progress := 0\<rparr>)"
    using grow_eq [OF geom c g] z1(1) by (simp add: y_def)
  moreover have "zone_rep (z1\<lparr>grow_in_progress := 0\<rparr>) (fls(?c := 2 ^ ?c # fls ?c)) {}"
    "alloc_blocks (z1\<lparr>grow_in_progress := 0\<rparr>) = alloc_blocks z1"
    using zone_rep_frame [OF z1(2), of "z1\<lparr>grow_in_progress := 0\<rparr>"] by (simp_all add: same_geom_def)
  moreover have "zone_geom z1 k" using same_geom_geom [OF z1(3) r(2)] .
  moreover have "alloc_kept z (z1\<lparr>grow_in_progress := 0\<rparr>)"
    using push_free_kept [OF r(1,2) in_X z1(1)] r(3) by (simp add: alloc_kept_def y_def)
  ultimately show ?thesis
    using r(3) z1(4) lo g by (intro exI [of _ "z1\<lparr>grow_in_progress := 0\<rparr>"])
      (simp add: y_def zone_geom_def growable_def)
qed

section \<open>\<open>alloc\<close>\<close>

text \<open>A zone in which an operation may run: the invariant holds, no growth is pending, and
  the zone is at its maximal size or can grow.\<close>

definition zone_ready :: "zone \<Rightarrow> bool" where
  "zone_ready z \<longleftrightarrow> zone_inv z \<and> grow_in_progress z = 0 \<and>
     (current_zone_level z = max_zone_level z \<or> growable z)"

definition no_free_from :: "zone \<Rightarrow> nat \<Rightarrow> bool" where
  "no_free_from z orig \<longleftrightarrow> (\<forall>l. orig \<le> l \<and> l \<le> current_zone_level z \<longrightarrow> head (free_list z l) = 0)"

definition level_of :: "zone \<Rightarrow> u64 \<Rightarrow> nat" where
  "level_of z sz = unat (find_level_from_size (next_power_of_two (max sz (min_obj_size z))) (min_obj_size z))"

text \<open>The outcome of \<open>alloc\<close> at level \<open>orig\<close>: block number \<open>u\<close>, or 0 for "no memory".\<close>

definition alloc_done :: "zone \<Rightarrow> u64 \<Rightarrow> nat \<Rightarrow> zone \<Rightarrow> nat \<Rightarrow> bool" where
  "alloc_done z cs orig z' u \<longleftrightarrow> zone_ready z' \<and> min_obj_size z' = min_obj_size z \<and>
     max_zone_level z' = max_zone_level z \<and> current_zone_level z \<le> current_zone_level z' \<and> alloc_kept z z' \<and>
     (if u \<noteq> 0
      then (orig, u) \<notin> alloc_blocks z \<and> u < 2 ^ current_zone_level z' \<and>
           alloc_blocks z' = insert (orig, u) (alloc_blocks z) \<and>
           shelf z' = shelf (zero_chunk z (off z u) cs)
      else alloc_blocks z' = alloc_blocks z \<and> shelf z' = shelf z \<and>
           current_zone_level z' = max_zone_level z \<and> no_free_from z' orig \<and> no_free_from z orig)"

lemma lists_only_ready:
  "lists_only z z' \<Longrightarrow> grow_in_progress z' = grow_in_progress z \<and> growable z' = growable z"
  by (auto simp: lists_only_def growable_def)

lemma zero_chunk_ready:
  "grow_in_progress (zero_chunk z p n) = grow_in_progress z" "growable (zero_chunk z p n) = growable z"
  "min_obj_size (zero_chunk z p n) = min_obj_size z" "max_zone_level (zero_chunk z p n) = max_zone_level z"
  "current_zone_level (zero_chunk z p n) = current_zone_level z"
  by (simp_all add: zero_chunk_def growable_def)

lemma empty_list_head:
  assumes "zone_rep z fls X" "l \<le> max_zone_level z"
  shows "fls l = [] \<longleftrightarrow> head (free_list z l) = 0"
proof -
  have c: "chain (zentries z) (head (free_list z l)) (fls l)"
    using zone_repD(1) [OF assms] by (simp add: zes_holds_def)
  then show ?thesis using slot_ne_0 by (cases "fls l") auto
qed

lemma allocated_from_done:
  assumes rep: "zone_rep z fls {}" and geom: "zone_geom z k" and g: "grow_in_progress z = 0"
    and gr: "current_zone_level z = max_zone_level z \<or> growable z"
    and al: "allocated_from z fls cs orig z' u"
  shows "alloc_done z cs orig z' u" "u < 2 ^ current_zone_level z" "u \<noteq> 0"
proof -
  let ?y = "zero_chunk z (off z u) cs"
  have lo: "lists_only ?y z'" and u: "u \<noteq> 0" "u < 2 ^ current_zone_level z"
    and rep': "\<exists>fls'. zone_rep z' fls' {}"
    and free: "\<exists>l. (l, u) \<in> free_blocks z fls"
    and ab: "alloc_blocks z' = insert (orig, u) (alloc_blocks z)" "alloc_kept z z'"
    using al by (auto simp: allocated_from_def)
  note f = lists_only_fields [OF lo] lists_only_ready [OF lo] zero_chunk_ready
  have "(orig, u) \<notin> alloc_blocks z"
    using free block_not_listed [OF rep, of orig u] by (auto simp: free_blocks_def)
  moreover have "zone_geom z' k"
    using geom same_geom_geom same_geom_trans zero_chunk_frame(1) f(1) by blast
  ultimately show "alloc_done z cs orig z' u"
    using rep' g gr f ab u by (auto simp: alloc_done_def zone_ready_def zone_inv_def)
  show "u < 2 ^ current_zone_level z" "u \<noteq> 0" by (fact u)+
qed

lemma alloc_retry_spec:
  assumes "zone_rep z fls {}" "zone_geom z k" "grow_in_progress z = 0"
    "current_zone_level z = max_zone_level z \<or> growable z"
  shows "\<exists>z' u. alloc_retry z cs orig = Some (Inr (z', off z u)) \<and> alloc_done z cs orig z' u"
  using assms
proof (induction "max_zone_level z - current_zone_level z" arbitrary: z fls)
  case (0 z fls)
  then have c: "current_zone_level z = max_zone_level z" by (auto simp: zone_geom_def)
  from alloc_scan_spec [OF 0(2,3) order_refl, of cs orig] show ?case
  proof (elim disjE exE conjE)
    fix z' u
    assume "alloc_scan z cs orig orig (current_zone_level z) = Inr (z', off z u)" "off z u \<noteq> 0"
      "allocated_from z fls cs orig z' u"
    then show ?thesis
      using allocated_from_done(1) [OF 0(2-5)] by (auto simp: alloc_retry.simps [of z])
  next
    assume s: "alloc_scan z cs orig orig (current_zone_level z) = Inr (z, 0)"
      and e: "\<forall>l. orig \<le> l \<and> l \<le> current_zone_level z \<longrightarrow> fls l = []"
    then have "alloc_retry z cs orig = Some (Inr (z, off z 0))"
      using 0 c by (simp add: alloc_retry.simps [of z] is_grow_in_progress_def off_def)
    moreover have "alloc_done z cs orig z 0"
      using 0 c e empty_list_head [OF 0(2)]
      by (auto simp: alloc_done_def zone_ready_def zone_inv_def no_free_from_def alloc_kept_same)
    ultimately show ?thesis by blast
  qed
next
  case (Suc n z fls)
  then have c: "current_zone_level z < max_zone_level z" by simp
  from alloc_scan_spec [OF Suc(3,4) order_refl, of cs orig] show ?case
  proof (elim disjE exE conjE)
    fix z' u
    assume "alloc_scan z cs orig orig (current_zone_level z) = Inr (z', off z u)" "off z u \<noteq> 0"
      "allocated_from z fls cs orig z' u"
    then show ?thesis
      using allocated_from_done(1) [OF Suc(3-6)] by (auto simp: alloc_retry.simps [of z])
  next
    assume s: "alloc_scan z cs orig orig (current_zone_level z) = Inr (z, 0)"
      and e: "\<forall>l. orig \<le> l \<and> l \<le> current_zone_level z \<longrightarrow> fls l = []"
    have nf: "no_free_from z orig"
      using e c empty_list_head [OF Suc.prems(1)] by (auto simp: no_free_from_def)
    have "growable z" using c Suc.prems(4) by simp
    from grow_spec [OF Suc.prems(1,2) c Suc.prems(3) this] obtain y fls1 where
      y: "grow z = Inr (True, y)" "zone_rep y fls1 {}" "zone_geom y k" "current_zone_level y = Suc (current_zone_level z)"
      "max_zone_level y = max_zone_level z" "min_obj_size y = min_obj_size z" "grow_in_progress y = 0" "growable y"
      "alloc_blocks y = alloc_blocks z" "shelf y = shelf z" "alloc_kept z y" by blast
    have "n = max_zone_level y - current_zone_level y" using Suc.hyps(2) y by simp
    from Suc.hyps(1) [OF this y(2,3,7)] y(8) obtain z' u where
      r: "alloc_retry y cs orig = Some (Inr (z', off y u))" "alloc_done y cs orig z' u" by blast
    have "alloc_retry z cs orig = alloc_retry y cs orig"
      using s c Suc.prems(3) y(1) by (simp add: alloc_retry.simps [of z] is_grow_in_progress_def)
    moreover have "off y u = off z u" using y(6) by (simp add: off_def)
    moreover have "shelf (zero_chunk y p cs) = shelf (zero_chunk z p cs)" for p
      using y(10) by (simp add: zero_chunk_def cong: if_cong)
    moreover have "alloc_kept z z'"
      by (rule alloc_kept_trans [OF y(11)]) (use r(2) y(9) in \<open>simp_all add: alloc_done_def\<close>)
    ultimately show ?thesis
      using r y(4,5,6,9,10) nf by (auto simp: alloc_done_def split: if_splits)
  qed
qed

lemma zone_alloc_spec:
  assumes "zone_ready z"
  shows "\<exists>z' u. zone_alloc z sz = Some (Inr (z', off z u)) \<and>
    alloc_done z (next_power_of_two (max sz (min_obj_size z))) (level_of z sz) z' u"
  using assms alloc_retry_spec by (auto simp: zone_alloc_def level_of_def zone_ready_def zone_inv_def Let_def)

text \<open>The level \<open>alloc\<close> chooses is the least one whose blocks hold the request.\<close>

lemma level_of_spec:
  assumes "zone_inv z" "0 < unat sz" "unat sz \<le> 2 ^ 63"
  shows "unat sz \<le> 2 ^ level_of z sz * unat (min_obj_size z)"
    "level_of z sz \<noteq> 0 \<Longrightarrow> 2 ^ level_of z sz * unat (min_obj_size z) < 2 * unat sz"
    "unat (next_power_of_two (max sz (min_obj_size z))) = 2 ^ level_of z sz * unat (min_obj_size z)"
proof -
  from assms(1) obtain k where geom: "zone_geom z k" by (auto simp: zone_inv_def)
  have k: "k \<le> 34" "min_obj_size z = 2 ^ k" using geom by (simp_all add: zone_geom_def)
  note mo = unat_min_obj_size [OF geom]
  have k63: "(2 :: nat) ^ k \<le> 2 ^ 63" using k(1) by (intro power_increasing) simp_all
  let ?m = "max sz (min_obj_size z)"
  have mx: "unat ?m = max (unat sz) (2 ^ k)"
    using mo by (auto simp: max_def word_le_nat_alt)
  have "0 < unat ?m" "unat ?m \<le> 2 ^ 63" using assms k63 mx by auto
  from next_power_of_two_least [OF this] obtain t where
    t: "t < 64" "next_power_of_two ?m = 2 ^ t" "unat ?m \<le> 2 ^ t" "2 ^ t < 2 * unat ?m" by blast
  have "(2 :: nat) ^ k \<le> 2 ^ t" using t(3) mx by simp
  then have kt: "k \<le> t" by (rule power_le_imp_le_exp [rotated]) simp
  have lv: "level_of z sz = t - k"
    using find_level_of_pow2 [OF kt t(1)] t(1) unat_of_nat_64 [of "t - k"]
    using t(2) by (simp add: level_of_def k(2))
  have eq: "2 ^ level_of z sz * unat (min_obj_size z) = 2 ^ t"
    using kt mo by (simp add: lv flip: power_add)
  show "unat sz \<le> 2 ^ level_of z sz * unat (min_obj_size z)" unfolding eq using t(3) mx by simp
  show "unat (next_power_of_two ?m) = 2 ^ level_of z sz * unat (min_obj_size z)"
    unfolding eq t(2) by (rule unat_power_of_2 [OF t(1)])
  show "2 ^ level_of z sz * unat (min_obj_size z) < 2 * unat sz" if "level_of z sz \<noteq> 0"
  proof -
    from that lv have "Suc k \<le> t" by simp
    then have "(2 :: nat) ^ Suc k \<le> 2 ^ t" by (intro power_increasing) simp_all
    with t(4) mx have "2 ^ k < unat ?m" by simp
    with mx have "unat ?m = unat sz" by auto
    with t(4) eq show ?thesis by simp
  qed
qed

section \<open>\<open>free\<close>\<close>

lemma zone_free_spec:
  assumes "zone_ready z" "(l, u) \<in> alloc_blocks z" "u \<noteq> 0"
  shows "\<exists>z'. zone_free z (off z u) = Inr z' \<and> zone_ready z' \<and>
    alloc_blocks z' = alloc_blocks z - {(l, u)} \<and> lists_only z z' \<and>
    head (free_list z' l) = slot u \<and>
    (\<forall>m w. (m, w) \<in> alloc_blocks z \<and> w \<noteq> u \<longrightarrow> zentries z' (slot w) = zentries z (slot w))"
proof -
  from assms(1) obtain k fls where geom: "zone_geom z k" and rep: "zone_rep z fls {}"
    by (auto simp: zone_ready_def zone_inv_def)
  have B: "(l, u) \<in> blocks_of z fls {}" using assms(2) by (simp add: blocks_of_def)
  note ul = rep_bound(2) [OF rep B]
  have l: "l \<le> current_zone_level z" "l < 128" "l \<le> max_zone_level z"
    using zone_repD(5) [OF rep B] geom by (auto simp: zone_geom_def)
  have lev: "get_level_of z (off z u) = l"
    using assms(2) by (simp add: get_level_of_def off_div [OF geom ul] alloc_blocks_def flip: slot_def)
  define y where "y = z\<lparr>zentries := (zentries z)(slot u := pack False (of_nat l) 0)\<rparr>"
  have reset: "reset_bitmap_bit z l (off z u) = Inr y"
    using modify_bitmap_bit_eq [OF geom ul l(2)] by (simp add: reset_bitmap_bit_def y_def)
  have in_al: "(l, u) \<in> {} \<union> alloc_blocks z" using assms(2) by simp
  have y: "zone_rep y fls {(l, u)}" "alloc_blocks y = alloc_blocks z - {(l, u)}" "same_geom z y"
    using modify_entry_rep [OF rep geom in_al y_def] assms(3) by simp_all
  have in_X: "(l, u) \<in> {(l, u)}" by simp
  from push_free_held [OF y(1) same_geom_geom [OF y(3) geom] in_X] obtain z' where
    z': "push_free y l (of_nat u) = Inr z'" "zone_rep z' (fls(l := u # fls l)) {}"
    "same_geom y z'" "alloc_blocks z' = alloc_blocks y" by auto
  have lo: "lists_only z z'"
    using lists_only_trans [OF _ push_free_lists_only [OF z'(1)]] lists_onlyI [where f = "free_list z" and z = z, of y]
    by (simp add: y_def)
  have hd: "head (free_list z' l) = slot u"
    using zone_repD(1) [OF z'(2), of l] l(3) lists_only_fields(14) [OF lo] by (simp add: zes_holds_def)
  have "zone_free z (off z u) = Inr z'"
    using assms(3) off_eq_0_iff [OF geom ul] lev reset z'(1) off_div [OF geom ul] y(3)
    by (simp add: zone_free_def same_geom_def)
  moreover have "zone_ready z'"
    using assms(1) z'(2) same_geom_geom [OF lists_only_fields(1) [OF lo] geom] lists_only_fields [OF lo]
      lists_only_ready [OF lo] by (auto simp: zone_ready_def zone_inv_def)
  moreover have "zentries z' (slot w) = zentries z (slot w)" if "(m, w) \<in> alloc_blocks z" "w \<noteq> u" for m w
  proof -
    have "(m, w) \<in> alloc_blocks y" using that y(2) by auto
    then have "zentries z' (slot w) = zentries y (slot w)"
      using push_free_kept [OF y(1) same_geom_geom [OF y(3) geom] in_X z'(1)] by (auto simp: alloc_kept_def)
    moreover have "slot w \<noteq> slot u"
      using alloc_slot_neq [OF y(1) same_geom_geom [OF y(3) geom] in_X \<open>(m, w) \<in> alloc_blocks y\<close>] .
    ultimately show ?thesis by (simp add: y_def)
  qed
  ultimately show ?thesis using y(2) z'(4) lo hd by auto
qed

end
