(* ===== verification/Zone_Create.thy ===== *)
theory Zone_Create
  imports Zone_Alloc_Correct
begin

text \<open>
  The constructor of a zone establishes the invariant, for every size it accepts whose initial part is not beyond
  the maximal size, which it does not check: chunk 0
  (the first \<open>min_obj_size\<close> bytes) is allocated, and chunk number \<open>2 ^ i\<close> is the only one on
  free list \<open>i\<close>. The cleared header area holds \<open>2 ^ max_zone_level\<close> entries, and the entry
  of the last chunk is the word behind it, so the theorem asks that this word is clear in
  the memory the constructor finds (it is in a newly truncated shelf file).
\<close>

section \<open>Sizes\<close>

lemma max_level_value: "MAX_LEVEL_PER_ZONE = 34"
proof -
  have "MAX_ZONE_SIZE div MIN_OBJ_SIZE = 2 ^ 34" by (simp add: MAX_ZONE_SIZE_def MIN_OBJ_SIZE_def)
  then show ?thesis using power_of_two_pow2 [of 34] by (simp only: MAX_LEVEL_PER_ZONE_def) simp
qed

lemma pow2_le_pow2: "i \<le> j \<Longrightarrow> j < 64 \<Longrightarrow> (2 ^ i :: u64) \<le> 2 ^ j"
  by (simp add: word_le_nat_alt unat_power_of_2)

lemma pow2_less_iff: "i < 64 \<Longrightarrow> j < 64 \<Longrightarrow> (2 ^ i :: u64) < 2 ^ j \<longleftrightarrow> i < j"
  by (simp add: word_less_nat_alt unat_power_of_2)

lemma round_up_64_pow2:
  assumes "6 \<le> n" "n \<le> 40"
  shows "round_up (2 ^ n) 64 = 2 ^ n"
proof (rule u64_eqI)
  have le: "(2 :: nat) ^ n \<le> 2 ^ 40" using assms by (intro power_increasing) simp_all
  have n: "(2 :: nat) ^ n = 2 ^ (n - 6) * 64"
    using assms(1) power_add [of "2 :: nat" "n - 6" 6] by simp
  have "(2 ^ n + 64 - 1) div 64 * 64 = (2 :: nat) ^ n"
    unfolding n by simp
  then show "unat (round_up (2 ^ n) 64 :: u64) = unat (2 ^ n :: u64)"
    using assms le by (simp add: unat_round_up unat_power_of_2)
qed

lemma round_up_64_ge:
  assumes "unat x \<le> 2 ^ 40"
  shows "x \<le> round_up x 64"
  using assms by (simp add: word_le_nat_alt unat_round_up)

lemma header_sizes:
  assumes "k + 6 \<le> m" "m \<le> 40" "6 \<le> k"
  shows "get_header_bitmap_size (2 ^ m) (2 ^ k) = 2 ^ (m - k + 3)"
    "push_bit (unat (of_nat (m - k) :: u64)) 1 div 8 = (2 ^ (m - k - 3) :: u64)"
    "8 \<le> get_merge_bitmap_size (2 ^ m) (2 ^ k)"
    "2 ^ (m - k - 3) \<le> get_merge_bitmap_size (2 ^ m) (2 ^ k)"
proof -
  have d: "(2 ^ m :: u64) div 2 ^ k = 2 ^ (m - k)" using assms by (intro pow2_div_pow2) simp_all
  have "(2 ^ (m - k) * 8 :: u64) = 2 ^ (m - k + 3)" by (simp add: power_add)
  then show "get_header_bitmap_size (2 ^ m) (2 ^ k) = 2 ^ (m - k + 3)"
    using assms round_up_64_pow2 [of "m - k + 3"]
    by (simp add: get_header_bitmap_size_def kCacheLineSize_def d)
  have u: "unat (of_nat (m - k) :: u64) = m - k" using assms by (intro unat_of_nat_64) simp
  have "(2 ^ (m - k) :: u64) div 2 ^ 3 = 2 ^ (m - k - 3)" using assms by (intro pow2_div_pow2) simp_all
  then show b: "push_bit (unat (of_nat (m - k) :: u64)) 1 div 8 = (2 ^ (m - k - 3) :: u64)"
    by (simp add: u push_bit_eq_mult)
  have lv: "find_level_from_size (2 ^ m) (2 ^ k) = of_nat (m - k)"
    using assms by (intro find_level_of_pow2) simp_all
  have "(2 :: nat) ^ (m - k - 3) \<le> 2 ^ 40" using assms by (intro power_increasing) simp_all
  then have "2 ^ (m - k - 3) \<le> round_up (2 ^ (m - k - 3) :: u64) 64"
    using assms by (intro round_up_64_ge) (simp add: unat_power_of_2)
  then show g: "2 ^ (m - k - 3) \<le> get_merge_bitmap_size (2 ^ m) (2 ^ k)"
    using b by (simp add: get_merge_bitmap_size_def lv kCacheLineSize_def)
  moreover have "(2 ^ 3 :: u64) \<le> 2 ^ (m - k - 3)" using assms by (intro pow2_le_pow2) simp_all
  ultimately show "8 \<le> get_merge_bitmap_size (2 ^ m) (2 ^ k)" by simp
qed

section \<open>The initial tiling\<close>

definition initial_chunks :: "nat \<Rightarrow> nat \<Rightarrow> block set" where
  "initial_chunks i n = {(j, 2 ^ j) |j. i \<le> j \<and> j < n}"

lemma initial_tiles: "tiles (2 ^ n) (insert (0, 0) (initial_chunks 0 n))"
proof (induction n)
  case 0
  show ?case by (auto simp: tiles_def initial_chunks_def span_def)
next
  case (Suc n)
  have "initial_chunks 0 (Suc n) = insert (n, 2 ^ n) (initial_chunks 0 n)"
    by (auto simp: initial_chunks_def less_Suc_eq)
  then have "insert (0, 0) (initial_chunks 0 (Suc n)) = insert (n, 2 ^ n) (insert (0, 0) (initial_chunks 0 n))"
    by auto
  moreover have "tiles (2 ^ Suc n) (insert (n, 2 ^ n) (insert (0, 0) (initial_chunks 0 n)))"
    by (rule tiles_extend [OF Suc.IH]) (auto simp: span_def)
  ultimately show ?case by simp
qed

text \<open>The loop over the chunk sizes hands chunk \<open>2 ^ i\<close> to list \<open>i\<close>.\<close>

lemma init_lists_spec:
  assumes "zone_rep z fls (initial_chunks i c)" "zone_geom z k" "i \<le> c" "c = current_zone_level z"
    "unat (shelf_location_ptr z) + unat (max_zone_size z) < 2 ^ 64"
  shows "\<exists>z' fls'. init_lists z (2 ^ (i + k)) (shelf_location_ptr z + 2 ^ (i + k)) (2 ^ (c + k)) = Some (Inr z') \<and>
    zone_rep z' fls' {} \<and> alloc_blocks z' = alloc_blocks z \<and> lists_only z z'"
  using assms
proof (induction "c - i" arbitrary: i z fls)
  case (0 i)
  then have "i = c" by simp
  moreover have "initial_chunks c c = {}" by (auto simp: initial_chunks_def)
  ultimately show ?case using 0
    by (intro exI [of _ z]) (auto simp: init_lists.simps [of z])
next
  case (Suc n i z fls)
  then have i: "i < c" by simp
  have c: "c \<le> max_zone_level z" "max_zone_level z + k \<le> 40" "min_obj_size z = 2 ^ k"
    using Suc.prems(2,4) by (simp_all add: zone_geom_def)
  have b: "i + k < 64" "c + k < 64" "Suc i + k < 64" using i c by simp_all
  have lv: "unat (find_level_from_size (2 ^ (i + k)) (min_obj_size z)) = i"
    using find_level_of_pow2 [of k "i + k"] b unat_of_nat_64 [of i] c(3) by simp
  have le: "(2 :: nat) ^ (i + k) \<le> 2 ^ (max_zone_level z + k)" using i c by (intro power_increasing) simp_all
  have mx: "unat (max_zone_size z) = 2 ^ (max_zone_level z + k)"
    using Suc.prems(2) by (simp add: zone_geom_def unat_power_of_2)
  have nowrap: "unat (shelf_location_ptr z) + unat (2 ^ (i + k) :: u64) < 2 ^ 64"
    using le_less_trans [OF add_left_mono [OF le, of "unat (shelf_location_ptr z)"], of "2 ^ 64"]
      Suc.prems(5) mx b by (simp add: unat_power_of_2)
  have "unat (shelf_location_ptr z + 2 ^ (i + k)) \<noteq> 0"
    using unat_add_small [OF nowrap] b by (simp add: unat_power_of_2)
  then have "shelf_location_ptr z + 2 ^ (i + k) \<noteq> 0" by (metis unat_0)
  then have addr: "to_Offset z (shelf_location_ptr z + 2 ^ (i + k)) div min_obj_size z = of_nat (2 ^ i)"
    using pow2_div_pow2 [of k "i + k"] b c(3) by (simp add: to_Offset_def)
  have inX: "(i, 2 ^ i) \<in> initial_chunks i c" using i by (simp add: initial_chunks_def)
  from push_free_held [OF Suc.prems(1,2) inX] obtain y where
    y: "push_free z i (of_nat (2 ^ i)) = Inr y" "zone_rep y (fls(i := 2 ^ i # fls i)) (initial_chunks i c - {(i, 2 ^ i)})"
    "same_geom z y" "alloc_blocks y = alloc_blocks z" by blast
  have "initial_chunks i c - {(i, 2 ^ i)} = initial_chunks (Suc i) c"
    using i by (auto simp: initial_chunks_def)
  note y2 = y(2) [unfolded this]
  note lo = push_free_lists_only [OF y(1)]
  note f = lists_only_fields [OF lo]
  have "n = c - Suc i" "Suc i \<le> c" using Suc.hyps(2) i by simp_all
  from Suc.hyps(1) [OF this(1) y2 same_geom_geom [OF y(3) Suc.prems(2)] this(2)] Suc.prems(4,5) f obtain z' fls' where
    z': "init_lists y (2 ^ (Suc i + k)) (shelf_location_ptr z + 2 ^ (Suc i + k)) (2 ^ (c + k)) = Some (Inr z')"
    "zone_rep z' fls' {}" "alloc_blocks z' = alloc_blocks y" "lists_only y z'" by auto
  have step: "(2 ^ (i + k) :: u64) < 2 ^ (c + k)" using i b by (simp add: pow2_less_iff)
  have dbl: "push_bit 1 (2 ^ (i + k) :: u64) = 2 ^ (Suc i + k)" by (simp add: push_bit_eq_mult)
  have adv: "shelf_location_ptr z + 2 ^ (i + k) + 2 ^ (i + k) = shelf_location_ptr z + 2 ^ (Suc i + k)" by simp
  have "init_lists z (2 ^ (i + k)) (shelf_location_ptr z + 2 ^ (i + k)) (2 ^ (c + k)) = Some (Inr z')"
    using step lv addr y(1) z'(1) dbl adv
    by (subst init_lists.simps) (simp add: add.commute del: power_Suc add_Suc)
  with z' y(4) lo lists_only_trans show ?case by auto
qed

section \<open>The constructor\<close>

text \<open>The zone after the header is written, before the free lists are filled.\<close>

lemma initial_rep:
  assumes geom: "zone_geom z k" and c: "current_zone_level z = c"
    and fl: "free_list z = (\<lambda>_. empty_stack)"
    and e: "\<And>i. unat i < 2 ^ max_zone_level z \<Longrightarrow> zentries z i = (if i = 1 then pack True 0 0 else 0)"
    and last: "\<not> is_allocated (zentries z (slot (2 ^ max_zone_level z - 1)))"
  shows "zone_rep z (\<lambda>_. []) (initial_chunks 0 c)" "alloc_blocks z = {(0, 0)}"
proof -
  let ?M = "max_zone_level z"
  have M: "6 \<le> ?M" "?M \<le> 34" "c \<le> ?M" using geom c by (simp_all add: zone_geom_def)
  have cM: "(2 :: nat) ^ c \<le> 2 ^ ?M" using M by (intro power_increasing) simp_all
  have M34: "(2 :: nat) ^ ?M \<le> 2 ^ 34" using M by (intro power_increasing) simp_all
  have one: "is_allocated (pack True 0 0)" "get_level (pack True 0 0) = 0"
    by (simp_all add: get_pack)
  have zero: "\<not> is_allocated 0" by (simp add: is_allocated_bit)
  have al: "is_allocated (zentries z (slot u)) \<longleftrightarrow> u = 0" if u: "u < 2 ^ ?M" for u
  proof (cases "u = 2 ^ ?M - 1")
    case True
    moreover have "(2 :: nat) ^ 6 \<le> 2 ^ ?M" using M(1) by (intro power_increasing) simp_all
    ultimately show ?thesis using last by auto
  next
    case False
    with u have "Suc u < 2 ^ ?M" by simp
    moreover have "Suc u < 2 ^ 64" using u M34 by simp
    then have "unat (slot u) = Suc u" by (rule unat_slot)
    moreover from this have "slot u = 1 \<longleftrightarrow> u = 0" by (auto simp: slot_def)
    ultimately show ?thesis using e [of "slot u"] one zero by auto
  qed
  have ab: "(l, u) \<in> alloc_blocks z \<longleftrightarrow> l = 0 \<and> u = 0" for l u
  proof -
    have "(2 :: nat) ^ 6 \<le> 2 ^ ?M" using M(1) by (intro power_increasing) simp_all
    then have "unat (slot 0) < 2 ^ ?M" by (simp add: slot_def)
    then have "zentries z (slot 0) = pack True 0 0" using e [of "slot 0"] by (simp add: slot_def)
    then show ?thesis
      using al [of u] less_le_trans [OF _ cM, of u] one c by (auto simp: alloc_blocks_def)
  qed
  then show ab0: "alloc_blocks z = {(0, 0)}" by (intro set_eqI) auto
  have free: "free_blocks z (\<lambda>_. []) = {}" by (simp add: free_blocks_def)
  have all: "blocks_of z (\<lambda>_. []) (initial_chunks 0 c) = insert (0, 0) (initial_chunks 0 c)"
    by (simp add: blocks_of_def free ab0)
  show "zone_rep z (\<lambda>_. []) (initial_chunks 0 c)"
  proof (rule zone_repI)
    show "zes_holds (zentries z) (free_list z l) []" for l
      by (simp add: fl zes_holds_def empty_stack_def)
    show "tiles (2 ^ current_zone_level z) (blocks_of z (\<lambda>_. []) (initial_chunks 0 c))"
      unfolding all c by (rule initial_tiles)
    show "l \<le> current_zone_level z \<and> 2 ^ l dvd u" if "(l, u) \<in> blocks_of z (\<lambda>_. []) (initial_chunks 0 c)" for l u
      using that unfolding all c by (auto simp: initial_chunks_def)
    show "initial_chunks 0 c \<inter> (free_blocks z (\<lambda>_. []) \<union> alloc_blocks z) = {}"
      by (auto simp: free ab0 initial_chunks_def)
    show "ungrown_clear z"
    proof (unfold ungrown_clear_def, intro allI impI)
      fix u :: nat
      assume "2 ^ current_zone_level z \<le> u \<and> u < 2 ^ ?M"
      moreover from this have "0 < u" by (metis gr0I le_zero_eq power_not_zero zero_neq_numeral)
      ultimately show "\<not> is_allocated (zentries z (slot u))" using al by simp
    qed
  qed (simp_all add: ab0)
qed

text \<open>
  The sizes the constructor accepts (powers of two; it compares the initial size with the minimal chunk and the
  merge bitmap only), a mapping that does not wrap, and the memory it finds. The initial size is meant to be
  at most the maximal one.
\<close>

definition accepted_args :: "zone \<Rightarrow> u64 \<Rightarrow> nat \<Rightarrow> nat \<Rightarrow> nat \<Rightarrow> bool" where
  "accepted_args m addr i k n \<longleftrightarrow> 6 \<le> k \<and> k + 6 \<le> n \<and> n \<le> 40 \<and> k < i \<and> i < 64 \<and>
     get_merge_bitmap_size (2 ^ n) (2 ^ k) < 2 ^ i \<and> unat addr + 2 ^ n < 2 ^ 64 \<and>
     \<not> is_allocated (zentries m (slot (2 ^ (n - k) - 1)))"

definition create_args :: "zone \<Rightarrow> u64 \<Rightarrow> nat \<Rightarrow> nat \<Rightarrow> nat \<Rightarrow> bool" where
  "create_args m addr i k n \<longleftrightarrow> accepted_args m addr i k n \<and> i \<le> n"

text \<open>The header as the constructor has written it, with the first chunk allocated and the lists empty.\<close>

definition initial_zone :: "zone \<Rightarrow> u64 \<Rightarrow> u64 \<Rightarrow> nat \<Rightarrow> nat \<Rightarrow> nat \<Rightarrow> zone" where
  "initial_zone m addr helper i k n = \<lparr>shelf_location_ptr = addr, zone_header_ptr = helper,
     header_ptr = helper + get_zoneheader_size (2 ^ n) (2 ^ k) + get_merge_bitmap_size (2 ^ n) (2 ^ k),
     header_size = 2 ^ (n - k + 3), merge_bitmap_start_addr = helper + get_zoneheader_size (2 ^ n) (2 ^ k),
     max_zone_level = n - k, max_zone_size = 2 ^ n, multiple_factor = 1, min_obj_size = 2 ^ k,
     current_zone_level = i - k, grow_in_progress = 0, merge_in_progress = 0, merge_status = MERGE_DEFAULT,
     current_merge_level = -1, safe_copy = empty_stack, post_merge_level = empty_stack,
     post_merge_next_level = empty_stack, free_list = (\<lambda>_. empty_stack),
     zentries = (\<lambda>i. if unat i < 2 ^ (n - k) then 0 else zentries m i)(1 := pack True 0 0),
     merge_bitmap = merge_bitmap m, shelf = shelf m\<rparr>"

lemma zone_create_lists:
  assumes "accepted_args m addr i k n"
  shows "zone_create m addr (2 ^ i) (2 ^ k) (2 ^ n) helper =
    init_lists (initial_zone m addr helper i k n) (2 ^ k) (addr + 2 ^ k) (2 ^ i)"
proof -
  have a: "6 \<le> k" "k + 6 \<le> n" "n \<le> 40" "k < i" "i < 64"
    and mb: "get_merge_bitmap_size (2 ^ n) (2 ^ k) < 2 ^ i"
    using assms by (simp_all add: accepted_args_def)
  have b: "k < 64" "i < 64" "n < 64" using a by simp_all
  define hs :: u64 where "hs = 2 ^ (n - k + 3)"
  note sizes = header_sizes [OF a(2,3,1)]
  have lv: "find_level_from_size (2 ^ n) (2 ^ k) = of_nat (n - k)"
    "find_level_from_size (2 ^ i) (2 ^ k) = of_nat (i - k)" "find_level_from_size (2 ^ k) (2 ^ k) = 0"
    using a b find_level_of_pow2 [of k k] by (simp_all add: find_level_of_pow2)
  have un: "unat (of_nat (n - k) :: u64) = n - k" "unat (of_nat (i - k) :: u64) = i - k"
    using a by (intro unat_of_nat_64; simp)+
  then have ml: "min (of_nat (n - k) :: u64) MAX_LEVEL_PER_ZONE = of_nat (n - k)"
    using a by (auto simp: max_level_value min_def word_le_nat_alt)
  have ge: "MIN_OBJ_SIZE \<le> 2 ^ k" "(2 ^ n :: u64) \<le> MAX_ZONE_SIZE" "(2 ^ (n - k - 3) :: u64) \<le> hs" "8 \<le> (2 ^ (n - k - 3) :: u64)"
    using a pow2_le_pow2 [of 6 k] pow2_le_pow2 [of n 40] pow2_le_pow2 [of "n - k - 3" "n - k + 3"] pow2_le_pow2 [of 3 "n - k - 3"]
    by (simp_all add: MIN_OBJ_SIZE_def MAX_ZONE_SIZE_def hs_def)
  have lt: "(2 ^ k :: u64) < 2 ^ i" using a b by (simp add: pow2_less_iff)
  have hs8: "unat hs div 8 = 2 ^ (n - k)"
  proof -
    have "(2 :: nat) ^ (n - k + 3) div 8 = 2 ^ (n - k)" by (simp add: power_add)
    then show ?thesis using a unat_power_of_2 [of "n - k + 3"] by (simp only: hs_def)
  qed
  have nf: "(2 ^ k :: u64) \<noteq> 0" "\<not> (2 ^ k < MIN_OBJ_SIZE)" "\<not> (MAX_ZONE_SIZE < 2 ^ n)"
    "\<not> (2 ^ i \<le> get_merge_bitmap_size (2 ^ n) (2 ^ k))" "\<not> (2 ^ i \<le> (2 ^ k :: u64))" "\<not> hs < 2 ^ (n - k - 3)"
    using ge mb lt b by simp_all
  have eighth: "(2 ^ (n - k) :: u64) div 8 = 2 ^ (n - k - 3)"
    using a pow2_div_pow2 [of 3 "n - k"] by simp
  show ?thesis
    using nf is_power_of_two_pow2 [OF b(1)] is_power_of_two_pow2 [OF b(2)] is_power_of_two_pow2 [OF b(3)] ge sizes(3)
    by (simp add: zone_create_def Let_def min_absorb1 ml lv un sizes(1,2) hs8 eighth set_bitmap_bit_def modify_bitmap_bit_def
        zone_entry_pack initial_zone_def flip: hs_def)
qed

lemma zone_create_spec:
  assumes "create_args m addr i k n"
  shows "\<exists>z. zone_create m addr (2 ^ i) (2 ^ k) (2 ^ n) helper = Some (Inr z) \<and>
    zone_inv z \<and> zone_geom z k \<and> alloc_blocks z = {(0, 0)} \<and>
    current_zone_level z = i - k \<and> max_zone_level z = n - k \<and>
    grow_in_progress z = 0 \<and> merge_in_progress z = 0 \<and> merge_status z = MERGE_DEFAULT \<and>
    current_merge_level z = -1 \<and> head (safe_copy z) = 0 \<and> shelf_location_ptr z = addr \<and> zone_header_ptr z = helper \<and> max_zone_size z = 2 ^ n \<and>
    header_ptr z - merge_bitmap_start_addr z = get_merge_bitmap_size (2 ^ n) (2 ^ k)"
proof -
  have a: "6 \<le> k" "k + 6 \<le> n" "n \<le> 40" "k < i" "i \<le> n" "unat addr + 2 ^ n < 2 ^ 64"
    "\<not> is_allocated (zentries m (slot (2 ^ (n - k) - 1)))" and acc: "accepted_args m addr i k n"
    using assms by (simp_all add: create_args_def accepted_args_def)
  define y where "y = initial_zone m addr helper i k n"
  have "6 \<le> n - k" "i - k \<le> n - k" using a by arith+
  then have geom: "zone_geom y k" using a by (simp add: y_def initial_zone_def zone_geom_def)
  have big: "(2 :: nat) ^ 6 \<le> 2 ^ (n - k)" "(2 :: nat) ^ (n - k) \<le> 2 ^ 34"
    using a by (intro power_increasing; simp)+
  have "slot (2 ^ (n - k) - 1) \<noteq> 1"
    using big by (intro notI) (drule arg_cong [of _ _ unat], simp add: unat_slot)
  then have last: "\<not> is_allocated (zentries y (slot (2 ^ max_zone_level y - 1)))"
    using a(7) by (simp add: y_def initial_zone_def is_allocated_bit)
  have ent: "zentries y j = (if j = 1 then pack True 0 0 else 0)" if "unat j < 2 ^ max_zone_level y" for j
    using that by (simp add: y_def initial_zone_def)
  have fl: "free_list y = (\<lambda>_. empty_stack)" and cy: "current_zone_level y = i - k"
    by (simp_all add: y_def initial_zone_def)
  note rep = initial_rep [OF geom cy fl ent last]
  have nowrap: "unat (shelf_location_ptr y) + unat (max_zone_size y) < 2 ^ 64"
    using a by (simp add: y_def initial_zone_def unat_power_of_2)
  from init_lists_spec [OF rep(1) geom le0 cy [symmetric] nowrap] obtain z' fls' where
    z': "init_lists y (2 ^ k) (addr + 2 ^ k) (2 ^ i) = Some (Inr z')" "zone_rep z' fls' {}"
    "alloc_blocks z' = {(0, 0)}" "lists_only y z'"
    using a rep(2) by (auto simp: y_def initial_zone_def)
  have "zone_create m addr (2 ^ i) (2 ^ k) (2 ^ n) helper = Some (Inr z')"
    using zone_create_lists [OF acc, of helper] z'(1) by (simp add: y_def)
  moreover note f = lists_only_fields [OF z'(4)]
  moreover have "zone_geom z' k" by (rule same_geom_geom [OF f(1) geom])
  moreover have "header_ptr z' = header_ptr y" "merge_bitmap_start_addr z' = merge_bitmap_start_addr y"
    using z'(4) by (auto simp: lists_only_def)
  ultimately show ?thesis using z'(2,3) f
    by (auto simp: zone_inv_def y_def initial_zone_def empty_stack_def)
qed

section \<open>An initial size beyond the maximal one\<close>

text \<open>The loop changes no level of the zone, and it returns while the array of free lists has the levels.\<close>

lemma init_lists_keeps:
  assumes "init_lists z chunk_size advance_ptr sz = Some r"
  shows "\<forall>z'. r = Inr z' \<longrightarrow> lists_only z z'"
proof (rule init_lists.raw_induct [OF _ assms])
  fix rec z chunk_size advance_ptr sz r
  assume IH: "\<And>z chunk_size advance_ptr sz r. rec z chunk_size advance_ptr sz = Some r \<Longrightarrow> \<forall>z'. r = Inr z' \<longrightarrow> lists_only z z'"
    and r: "(if chunk_size < sz
      then let freelist_level = unat (find_level_from_size chunk_size (min_obj_size z)); ptr = to_Offset z advance_ptr
           in case push_free z freelist_level (ptr div min_obj_size z) of
                Inl f \<Rightarrow> Some (Inl f)
              | Inr z \<Rightarrow> rec z (push_bit 1 chunk_size) (advance_ptr + chunk_size) sz
      else Some (Inr z)) = Some r"
  show "\<forall>z'. r = Inr z' \<longrightarrow> lists_only z z'"
  proof (cases "chunk_size < sz")
    case False
    with r show ?thesis by (auto simp: lists_only_refl)
  next
    case True
    show ?thesis
    proof (cases "push_free z (unat (find_level_from_size chunk_size (min_obj_size z))) (to_Offset z advance_ptr div min_obj_size z)")
      case (Inl f)
      then show ?thesis using r True by (auto simp: Let_def)
    next
      case (Inr y)
      then have "rec y (push_bit 1 chunk_size) (advance_ptr + chunk_size) sz = Some r" using r True by (simp add: Let_def)
      from IH [OF this] push_free_lists_only [OF Inr] show ?thesis by (blast intro: lists_only_trans)
    qed
  qed
qed

lemma init_lists_returns:
  assumes "min_obj_size z = 2 ^ k" "i \<le> c" "c \<le> Suc (max_zone_level z)" "c + k < 64" "\<forall>l \<ge> i. head (free_list z l) = 0"
  shows "\<exists>z'. init_lists z (2 ^ (i + k)) p (2 ^ (c + k)) = Some (Inr z')"
  using assms
proof (induction "c - i" arbitrary: i z p)
  case (0 i)
  then show ?case by (auto simp: init_lists.simps [of z])
next
  case (Suc n i z p)
  then have i: "i < c" "i \<le> max_zone_level z" "n = c - Suc i" "Suc i \<le> c" by simp_all
  have lv: "unat (find_level_from_size (2 ^ (i + k)) (min_obj_size z)) = i"
    using find_level_of_pow2 [of k "i + k"] Suc.prems(1,4) i(1) unat_of_nat_64 [of i] by simp
  let ?x = "to_Offset z p div min_obj_size z"
  obtain e where "link_next (zentries z (?x + 1)) (head (free_list z i)) = Inr e" using Suc.prems(5) link_next_ok [of 0] by auto
  then obtain y where y: "push_free z i ?x = Inr y" "\<forall>l \<ge> Suc i. head (free_list y l) = 0"
    using i(2) Suc.prems(5) by (auto simp: push_free_def zes_push_def Let_def)
  note f = lists_only_fields(14,15) [OF push_free_lists_only [OF y(1)]]
  have "\<exists>z'. init_lists y (2 ^ (Suc i + k)) (p + 2 ^ (i + k)) (2 ^ (c + k)) = Some (Inr z')"
    by (rule Suc.hyps(1) [OF i(3)]) (use y(2) f Suc.prems i in simp_all)
  moreover have "(2 ^ (i + k) :: u64) < 2 ^ (c + k)" using i Suc.prems(4) by (simp add: pow2_less_iff)
  moreover have "push_bit 1 (2 ^ (i + k) :: u64) = 2 ^ (Suc i + k)" by (simp add: push_bit_eq_mult)
  ultimately show ?case using lv y(1) by (subst init_lists.simps) (simp add: Let_def del: power_Suc add_Suc)
qed

lemma oversized_zone:
  assumes "accepted_args m addr i k n" "n < i"
  shows "zone_create m addr (2 ^ i) (2 ^ k) (2 ^ n) helper = Some (Inr z) \<Longrightarrow>
      current_zone_level z = i - k \<and> max_zone_level z = n - k \<and> \<not> zone_inv z"
    "i = Suc n \<Longrightarrow> \<exists>z. zone_create m addr (2 ^ i) (2 ^ k) (2 ^ n) helper = Some (Inr z)"
proof -
  have a: "k + 6 \<le> n" "n \<le> 40" "i < 64" using assms(1) by (simp_all add: accepted_args_def)
  let ?y = "initial_zone m addr helper i k n"
  have y: "current_zone_level ?y = i - k" "max_zone_level ?y = n - k" "min_obj_size ?y = 2 ^ k" "head (free_list ?y l) = 0" for l
    by (simp_all add: initial_zone_def empty_stack_def)
  {
    assume "zone_create m addr (2 ^ i) (2 ^ k) (2 ^ n) helper = Some (Inr z)"
    then have "lists_only ?y z" using init_lists_keeps unfolding zone_create_lists [OF assms(1)] by blast
    from lists_only_fields(13,14) [OF this] show "current_zone_level z = i - k \<and> max_zone_level z = n - k \<and> \<not> zone_inv z"
      using y(1,2) assms(2) a by (auto simp: zone_inv_def zone_geom_def)
  next
    assume "i = Suc n"
    with init_lists_returns [OF y(3), of 0 "i - k" "addr + 2 ^ k"] y(2,4) a
    show "\<exists>z. zone_create m addr (2 ^ i) (2 ^ k) (2 ^ n) helper = Some (Inr z)"
      unfolding zone_create_lists [OF assms(1)] by simp
  }
qed

end
