(* ===== verification/Zone_Merge.thy ===== *)
theory Zone_Merge
  imports Zone_Create
begin

text \<open>
  Coalescing of buddies (\<open>src/shelf_usage/zone.cc\<close>, \<open>merge\<close> and the functions numbered 1 to
  11 it calls), as one process runs it. Merging a level takes the whole free list into
  \<open>safe_copy\<close>, marks each of its chunks in the merge bitmap, walks the bitmap in 64-bit words
  and pushes joined pairs on \<open>post_merge_next_level\<close> and single chunks on
  \<open>post_merge_level\<close>, and then moves both back to the free lists.

  The merge bitmap is the memory from \<open>merge_bitmap_start_addr\<close> up to \<open>header_ptr\<close>; an access
  of the merge outside it is a fault of the model, and the theorems show there is none.
\<close>

section \<open>The merge bitmap as memory\<close>

text \<open>64-bit accesses to byte memory (little endian, as on x86).\<close>

definition read64 :: "(nat \<Rightarrow> u8) \<Rightarrow> nat \<Rightarrow> u64" where
  "read64 bm a = foldr (\<lambda>i w. push_bit (8 * i) (ucast (bm (a + i))) OR w) [0..<8] 0"

definition write64 :: "(nat \<Rightarrow> u8) \<Rightarrow> nat \<Rightarrow> u64 \<Rightarrow> nat \<Rightarrow> u8" where
  "write64 bm a w = (\<lambda>j. if a \<le> j \<and> j < a + 8 then ucast (drop_bit (8 * (j - a)) w) else bm j)"

definition merge_area :: "zone \<Rightarrow> nat" where
  "merge_area z = unat (header_ptr z - merge_bitmap_start_addr z)"

definition set_bit_at :: "zone \<Rightarrow> nat \<Rightarrow> nat \<Rightarrow> zone result" where
  "set_bit_at z a bit_offset =
     (if merge_area z < a + 8 then Inl Out_Of_Bounds
      else let old_val = read64 (merge_bitmap z) a
           in if old_val AND push_bit bit_offset 1 \<noteq> 0 then Inl Assert_Failed
              else Inr (z\<lparr>merge_bitmap := write64 (merge_bitmap z) a (old_val OR push_bit bit_offset 1)\<rparr>))"

definition clear_merge_bitmap :: "zone \<Rightarrow> zone result" where
  "clear_merge_bitmap z =
     (if merge_area z < 2 ^ max_zone_level z div 8 then Inl Out_Of_Bounds
      else Inr (z\<lparr>merge_bitmap := (\<lambda>a. if a < 2 ^ max_zone_level z div 8 then 0 else merge_bitmap z a)\<rparr>))"

section \<open>The steps of a merge\<close>

definition is_merge_in_progress :: "zone \<Rightarrow> bool" where
  "is_merge_in_progress z \<longleftrightarrow> merge_in_progress z \<noteq> 0"

definition enter_merge :: "zone \<Rightarrow> bool \<times> zone" where
  "enter_merge z = (if merge_in_progress z \<noteq> 0 then (False, z) else (True, z\<lparr>merge_in_progress := 1\<rparr>))"

definition leave_merge :: "zone \<Rightarrow> (bool \<times> zone) result" where
  "leave_merge z =
     (if merge_in_progress z \<noteq> 1 then Inl Assert_Failed else Inr (True, z\<lparr>merge_in_progress := 0\<rparr>))"

definition swap_freelist :: "zone \<Rightarrow> nat \<Rightarrow> zone result" where
  "swap_freelist z level =
     (if merge_status z \<noteq> MERGE_DEFAULT then Inl Assert_Failed
      else let z = z\<lparr>current_merge_level := int level\<rparr>
           in if level \<le> max_zone_level z
              then let level_head = head (free_list z level);
                       z = z\<lparr>safe_copy := (safe_copy z)\<lparr>head := level_head\<rparr>\<rparr>;
                       z = z\<lparr>free_list := (free_list z)(level := (free_list z level)\<lparr>head := 0\<rparr>)\<rparr>
                   in Inr (z\<lparr>merge_status := MERGE_SWAP_COMPLETED\<rparr>)
              else Inl Out_Of_Bounds)"

text \<open>The walk along the links of \<open>safe_copy\<close>; \<open>None\<close> if the links form a cycle.\<close>

partial_function (option) bitmap_walk :: "zone \<Rightarrow> u64 \<Rightarrow> u64 \<Rightarrow> zone result option" where
  "bitmap_walk z chunk_size idx =
     (if idx = 0 then Some (Inr z)
      else let next_idx = get_next (zentries z idx);
               bitmap_offset = ((idx - 1) * min_obj_size z div chunk_size) div 64;
               bit_offset = ((idx - 1) * min_obj_size z div chunk_size) mod 64
           in case set_bit_at z (unat (bitmap_offset * (64 div 8))) (unat bit_offset) of
                Inl f \<Rightarrow> Some (Inl f)
              | Inr z \<Rightarrow> bitmap_walk z chunk_size next_idx)"

definition create_merge_bitmap :: "zone \<Rightarrow> nat \<Rightarrow> zone result option" where
  "create_merge_bitmap z level =
     (if merge_status z \<noteq> MERGE_SWAP_COMPLETED then Some (Inl Assert_Failed)
      else let chunk_size = find_size_from_level (of_nat level) (min_obj_size z);
               idx = head (safe_copy z)
           in case clear_merge_bitmap z of
                Inl f \<Rightarrow> Some (Inl f)
              | Inr z \<Rightarrow>
                  (case bitmap_walk z chunk_size idx of
                     Some (Inr z) \<Rightarrow> Some (Inr (z\<lparr>merge_status := MERGE_BITMAP_COMPLETED\<rparr>))
                   | r \<Rightarrow> r))"

definition push_next_level :: "zone \<Rightarrow> u64 \<Rightarrow> zone result" where
  "push_next_level z idx =
     rbind (zes_push (zentries z) (post_merge_next_level z) idx) (\<lambda>(e, st).
       Inr (z\<lparr>zentries := e, post_merge_next_level := st\<rparr>))"

definition push_post_level :: "zone \<Rightarrow> u64 \<Rightarrow> zone result" where
  "push_post_level z idx =
     rbind (zes_push (zentries z) (post_merge_level z) idx) (\<lambda>(e, st).
       Inr (z\<lparr>zentries := e, post_merge_level := st\<rparr>))"

text \<open>The body of the loop over the pairs of bits of one word, and the loop.\<close>

definition merge_pair :: "zone \<Rightarrow> u64 \<Rightarrow> nat \<Rightarrow> u64 \<Rightarrow> nat \<Rightarrow> u64 \<Rightarrow> zone result" where
  "merge_pair z chunk_size len bitmap_data i shift =
     (if bitmap_data AND shift = shift
      then let new_chunk_ptr = of_nat (8 * len + i) * chunk_size
           in rbind (check (new_chunk_ptr \<noteq> 0 \<and> new_chunk_ptr \<le> max_zone_size z) Assert_Failed) (\<lambda>_.
                push_next_level z (new_chunk_ptr div min_obj_size z))
      else if drop_bit i bitmap_data AND 1 \<noteq> 0
      then let new_chunk_ptr = of_nat (8 * len + i) * chunk_size
           in rbind (check (new_chunk_ptr \<noteq> 0 \<and> new_chunk_ptr \<le> max_zone_size z) Assert_Failed) (\<lambda>_.
                push_post_level z (new_chunk_ptr div min_obj_size z))
      else if drop_bit (i + 1) bitmap_data AND 1 \<noteq> 0
      then let new_chunk_ptr = of_nat (8 * len + i + 1) * chunk_size
           in rbind (check (new_chunk_ptr \<noteq> 0 \<and> new_chunk_ptr \<le> max_zone_size z) Assert_Failed) (\<lambda>_.
                push_post_level z (new_chunk_ptr div min_obj_size z))
      else Inr z)"

function merge_pairs :: "zone \<Rightarrow> u64 \<Rightarrow> nat \<Rightarrow> u64 \<Rightarrow> nat \<Rightarrow> u64 \<Rightarrow> zone result" where
  "merge_pairs z chunk_size len bitmap_data i shift =
     (if i < 64
      then rbind (merge_pair z chunk_size len bitmap_data i shift) (\<lambda>z.
             merge_pairs z chunk_size len bitmap_data (i + 2) (push_bit 2 shift))
      else rbind (check (shift = 0) Assert_Failed) (\<lambda>_. Inr z))"
  by pat_completeness auto
termination
  by (relation "measure (\<lambda>(z, chunk_size, len, bitmap_data, i, shift). 64 - i)") auto

declare merge_pairs.simps [simp del]

function merge_words :: "zone \<Rightarrow> u64 \<Rightarrow> nat \<Rightarrow> nat \<Rightarrow> zone result" where
  "merge_words z chunk_size len max_bitmap_length =
     (if len < max_bitmap_length
      then if merge_area z < len + 8 then Inl Out_Of_Bounds
           else let bitmap_data = read64 (merge_bitmap z) len
                in if bitmap_data = 0 then merge_words z chunk_size (len + 8) max_bitmap_length
                   else rbind (merge_pairs z chunk_size len bitmap_data 0 3) (\<lambda>z.
                          merge_words z chunk_size (len + 8) max_bitmap_length)
      else Inr z)"
  by pat_completeness auto
termination
  by (relation "measure (\<lambda>(z, chunk_size, len, max_bitmap_length). max_bitmap_length - len)") auto

declare merge_words.simps [simp del]

definition do_merge :: "zone \<Rightarrow> nat \<Rightarrow> zone result" where
  "do_merge z level =
     (if merge_status z \<noteq> MERGE_BITMAP_COMPLETED then Inl Assert_Failed
      else let chunk_size = find_size_from_level (of_nat level) (min_obj_size z);
               z = z\<lparr>post_merge_level := (post_merge_level z)\<lparr>head := 0\<rparr>,
                     post_merge_next_level := (post_merge_next_level z)\<lparr>head := 0\<rparr>\<rparr>;
               max_bitmap_length = (if level + 2 \<ge> max_zone_level z then 1
                                    else 2 ^ (max_zone_level z - level) div 8)
           in rbind (merge_words z chunk_size 0 max_bitmap_length) (\<lambda>z.
                Inr (z\<lparr>merge_status := MERGE_FREELIST_COMPLETED\<rparr>)))"

text \<open>
  The two loops that move the chunks back; \<open>None\<close> if a list never empties. The parameter
  \<open>level\<close> is an unsigned 64-bit number, and the recovery from a crash can pass the idle level
  \<open>-1\<close>, so \<open>level + 1\<close> wraps.
\<close>

partial_function (option) drain_next_level :: "zone \<Rightarrow> nat \<Rightarrow> zone result option" where
  "drain_next_level z level =
     (let (st, result) = zes_pop (zentries z) (post_merge_next_level z);
          z = z\<lparr>post_merge_next_level := st\<rparr>
      in if result = 0 then Some (Inr z)
         else case push_free z ((level + 1) mod 2 ^ 64) result of
                Inl f \<Rightarrow> Some (Inl f)
              | Inr z \<Rightarrow> drain_next_level z level)"

partial_function (option) drain_post_level :: "zone \<Rightarrow> nat \<Rightarrow> zone result option" where
  "drain_post_level z level =
     (let (st, result) = zes_pop (zentries z) (post_merge_level z);
          z = z\<lparr>post_merge_level := st\<rparr>
      in if result = 0 then Some (Inr z)
         else case push_free z level result of
                Inl f \<Rightarrow> Some (Inl f)
              | Inr z \<Rightarrow> drain_post_level z level)"

definition end_merge :: "zone \<Rightarrow> nat \<Rightarrow> zone result" where
  "end_merge z level =
     rbind (clear_merge_bitmap z) (\<lambda>z.
       let z = z\<lparr>safe_copy := (safe_copy z)\<lparr>head := 0\<rparr>\<rparr>
       in if (of_int (current_merge_level z) :: u64) \<noteq> of_nat level then Inl Runtime_Error
          else let z = z\<lparr>current_merge_level := -1\<rparr>
               in if merge_status z \<noteq> MERGE_FREELIST_COMPLETED then Inl Assert_Failed
                  else Inr (z\<lparr>merge_status := MERGE_DEFAULT\<rparr>))"

definition finish_merge :: "zone \<Rightarrow> nat \<Rightarrow> zone result option" where
  "finish_merge z level =
     (case drain_next_level z level of
        Some (Inr z) \<Rightarrow>
          (case drain_post_level z level of
             Some (Inr z) \<Rightarrow> Some (end_merge z level)
           | r \<Rightarrow> r)
      | r \<Rightarrow> r)"

section \<open>\<open>merge\<close>\<close>

definition merge_level :: "zone \<Rightarrow> nat \<Rightarrow> (bool \<times> zone) result option" where
  "merge_level z level =
     (if \<not> level < max_zone_level z then Some (Inl Assert_Failed)
      else if is_merge_in_progress z then Some (Inr (False, z))
      else let (entered, z) = enter_merge z
           in if \<not> entered then Some (Inr (False, z))
              else case swap_freelist z level of
                Inl f \<Rightarrow> Some (Inl f)
              | Inr z \<Rightarrow>
                  (case create_merge_bitmap z level of
                     None \<Rightarrow> None
                   | Some (Inl f) \<Rightarrow> Some (Inl f)
                   | Some (Inr z) \<Rightarrow>
                       (case do_merge z level of
                          Inl f \<Rightarrow> Some (Inl f)
                        | Inr z \<Rightarrow>
                            (case finish_merge z level of
                               None \<Rightarrow> None
                             | Some (Inl f) \<Rightarrow> Some (Inl f)
                             | Some (Inr z) \<Rightarrow> Some (leave_merge z)))))"

text \<open>The public \<open>merge\<close> reads \<open>current_zone_level\<close> once and merges the levels below it in turn.\<close>

function merge_from :: "zone \<Rightarrow> nat \<Rightarrow> nat \<Rightarrow> zone result option" where
  "merge_from z level current =
     (if level < current
      then case merge_level z level of
             None \<Rightarrow> None
           | Some (Inl f) \<Rightarrow> Some (Inl f)
           | Some (Inr (merged, z)) \<Rightarrow>
               if merged then merge_from z (Suc level) current else Some (Inl Runtime_Error)
      else Some (Inr z))"
  by pat_completeness auto
termination
  by (relation "measure (\<lambda>(z, level, current). current - level)") auto

declare merge_from.simps [simp del]

definition zone_merge :: "zone \<Rightarrow> zone result option" where
  "zone_merge z = merge_from z 0 (current_zone_level z)"

end
