(* ===== verification/Zone_Merge_Correct.thy ===== *)
theory Zone_Merge_Correct
  imports Zone_Merge
begin

text \<open>
  Merging one level of a zone that satisfies the invariant meets no fault, ends, keeps the
  invariant and every allocated block, and leaves on the merged level exactly the chunks
  whose buddy is not free; pairs of buddies move to the next level. Merging all levels
  therefore leaves no pair of free buddies anywhere.
\<close>

section \<open>Bits of the merge bitmap\<close>

definition bm_bit :: "(nat \<Rightarrow> u8) \<Rightarrow> nat \<Rightarrow> bool" where
  "bm_bit bm n \<longleftrightarrow> bit (bm (n div 8)) (n mod 8)"

lemma bit_u8_lt: "bit (b :: u8) n \<Longrightarrow> n < 8"
  using bit_imp_le_length [of b n] by simp

lemma bit_read64_list:
  "bit (foldr (\<lambda>i w. push_bit (8 * i) (ucast (bm (a + i) :: u8)) OR w) js (0 :: u64)) n \<longleftrightarrow>
    n < 64 \<and> (\<exists>i\<in>set js. 8 * i \<le> n \<and> bit (bm (a + i)) (n - 8 * i))"
  by (induction js)
    (auto simp: bit_or_iff bit_push_bit_iff bit_ucast_iff dest: bit_imp_le_length)

lemma bit_read64:
  "bit (read64 bm a) n \<longleftrightarrow> n < 64 \<and> bit (bm (a + n div 8)) (n mod 8)"
proof -
  have "(\<exists>i\<in>set [0..<8]. 8 * i \<le> n \<and> bit (bm (a + i)) (n - 8 * i)) \<longleftrightarrow> bit (bm (a + n div 8)) (n mod 8)"
    if "n < 64"
  proof
    assume "\<exists>i\<in>set [0..<8]. 8 * i \<le> n \<and> bit (bm (a + i)) (n - 8 * i)"
    then obtain i where i: "8 * i \<le> n" "bit (bm (a + i)) (n - 8 * i)" by blast
    with bit_u8_lt have "n - 8 * i < 8" by blast
    with i(1) have "n div 8 = i" "n mod 8 = n - 8 * i"
      by (simp_all add: div_nat_eqI modulo_nat_def)
    with i(2) show "bit (bm (a + n div 8)) (n mod 8)" by simp
  next
    assume "bit (bm (a + n div 8)) (n mod 8)"
    moreover have "n mod 8 = n - 8 * (n div 8)" by (simp add: modulo_nat_def)
    ultimately show "\<exists>i\<in>set [0..<8]. 8 * i \<le> n \<and> bit (bm (a + i)) (n - 8 * i)"
      using that by (intro bexI [of _ "n div 8"]) auto
  qed
  then show ?thesis by (auto simp: read64_def bit_read64_list simp del: set_upt)
qed

lemma div_mod_64_8: "(64 * w + n) div 8 = 8 * w + n div (8 :: nat)" "(64 * w + n) mod 8 = n mod (8 :: nat)"
proof -
  have e: "64 * w + n = n + 8 * w * 8" by simp
  show "(64 * w + n) div 8 = 8 * w + n div (8 :: nat)" "(64 * w + n) mod 8 = n mod (8 :: nat)"
    unfolding e by (simp_all only: div_mult_self1 mod_mult_self1)
qed

lemma bit_read64_word: "n < 64 \<Longrightarrow> bit (read64 bm (8 * w)) n \<longleftrightarrow> bm_bit bm (64 * w + n)"
  by (simp add: bit_read64 bm_bit_def div_mod_64_8)

lemma split_64: "m div 8 = 8 * (m div 64) + m mod 64 div 8" "m mod 8 = m mod 64 mod (8 :: nat)"
proof -
  have m: "64 * (m div 64) + m mod 64 = m" by simp
  show "m div 8 = 8 * (m div 64) + m mod 64 div 8" "m mod 8 = m mod 64 mod (8 :: nat)"
    using div_mod_64_8 [of "m div 64" "m mod 64"] unfolding m by blast+
qed

lemma bm_bit_write64:
  "bm_bit (write64 bm (8 * w) v) m \<longleftrightarrow>
    (if m div 64 = w then bit v (m mod 64) else bm_bit bm m)"
proof -
  have r8: "m mod 64 div 8 < 8" by (simp add: less_mult_imp_div_less)
  show ?thesis
  proof (cases "m div 64 = w")
    case True
    then show ?thesis using r8
      by (simp add: bm_bit_def write64_def bit_ucast_iff bit_drop_bit_eq split_64 [of m])
  next
    case False
    with r8 have "\<not> (8 * w \<le> m div 8 \<and> m div 8 < 8 * w + 8)"
      unfolding split_64(1) [of m] by linarith
    then have "write64 bm (8 * w) v (m div 8) = bm (m div 8)" unfolding write64_def by (rule if_not_P)
    then show ?thesis using False by (simp add: bm_bit_def)
  qed
qed

text \<open>Setting one bit through a 64-bit access sets that bit and no other.\<close>

lemma set_bit_at_spec:
  assumes "\<not> bm_bit (merge_bitmap z) n" "8 * (n div 64) + 8 \<le> merge_area z"
  shows "\<exists>bm. set_bit_at z (8 * (n div 64)) (n mod 64) = Inr (z\<lparr>merge_bitmap := bm\<rparr>) \<and>
    (\<forall>m. bm_bit bm m \<longleftrightarrow> m = n \<or> bm_bit (merge_bitmap z) m)"
proof -
  let ?v = "read64 (merge_bitmap z) (8 * (n div 64))"
  let ?bm = "write64 (merge_bitmap z) (8 * (n div 64)) (?v OR push_bit (n mod 64) 1)"
  have "\<not> bit ?v (n mod 64)" using assms(1) by (simp add: bit_read64_word)
  then have "?v AND push_bit (n mod 64) 1 = 0"
    by (intro bit_word_eqI) (auto simp: bit_and_iff bit_push_bit_iff bit_1_iff bit_exp_iff)
  then have "set_bit_at z (8 * (n div 64)) (n mod 64) = Inr (z\<lparr>merge_bitmap := ?bm\<rparr>)"
    using assms(2) by (simp add: set_bit_at_def)
  moreover have "bm_bit ?bm m \<longleftrightarrow> m = n \<or> bm_bit (merge_bitmap z) m" for m
  proof (cases "m div 64 = n div 64")
    case True
    have "bit ?v (m mod 64) \<longleftrightarrow> bm_bit (merge_bitmap z) m"
      using bit_read64_word [of "m mod 64" "merge_bitmap z" "n div 64"] True by (metis mod_less_divisor
          mult_div_mod_eq zero_less_numeral)
    moreover have "m = n \<longleftrightarrow> m mod 64 = n mod 64" using True by (metis mult_div_mod_eq)
    ultimately show ?thesis using True
      by (auto simp: bm_bit_write64 bit_or_iff bit_push_bit_iff bit_1_iff bit_exp_iff)
  next
    case False
    then show ?thesis by (auto simp: bm_bit_write64)
  qed
  ultimately show ?thesis by blast
qed

section \<open>Operations on the side lists\<close>

text \<open>
  A held block may be linked into a list of the merge: its entry changes, but neither its
  allocation bit nor anybody else's entry.
\<close>

lemma relink_held:
  assumes rep: "zone_rep z fls X" and geom: "zone_geom z k" and X: "(l, v) \<in> X"
    and e: "zes_push (zentries z) st (of_nat v) = Inr (e, st')" "zes_holds (zentries z) st vs"
    and z': "zentries z' = e" "free_list z' = free_list z" "same_geom z z'"
  shows "zone_rep z' fls X" "alloc_blocks z' = alloc_blocks z"
proof -
  have b: "(l, v) \<in> blocks_of z fls X" using X by (simp add: blocks_of_def)
  note vb = geom_unit_lt [OF geom rep_bound(2) [OF rep b]]
  have zb: "zes_block v" using vb by (simp add: zes_block_def)
  have nin: "v \<notin> set (fls l')" for l' using block_not_listed [OF rep] X by blast
  have eu: "e = (zentries z)(slot v := pack (is_allocated (zentries z (slot v)))
      (get_level (zentries z (slot v))) (head st))" and hd: "head st < 2 ^ 56"
    using e chain_head_lt by (auto simp: zes_holds_def zes_push_eq)
  have flags: "is_allocated (e i) = is_allocated (zentries z i)" "get_level (e i) = get_level (zentries z i)" for i
    using hd by (simp_all add: eu get_pack)
  have geo: "current_zone_level z' = current_zone_level z" "max_zone_level z' = max_zone_level z"
    using z'(3) by (simp_all add: same_geom_def)
  show al: "alloc_blocks z' = alloc_blocks z"
    by (rule alloc_blocks_cong) (simp_all add: z' geo flags)
  have free: "free_blocks z' fls = free_blocks z fls" by (simp add: free_blocks_def geo)
  have all: "blocks_of z' fls X = blocks_of z fls X" by (simp add: blocks_of_def al free)
  have up: "ungrown_clear z'" using zone_repD(9) [OF rep] by (simp add: ungrown_clear_def z' geo flags)
  have lists: "zes_holds (zentries z') (free_list z' l') (fls l')" if "l' \<le> max_zone_level z'" for l'
    using zes.push_frame [OF e(1) zb zone_repD(1) [OF rep] nin] that by (simp add: z' geo)
  have na: "\<not> is_allocated (zentries z' (slot w))" if "w \<in> set (fls l')" for w l'
    using zone_repD(3) [OF rep that] by (simp add: z' flags)
  show "zone_rep z' fls X"
  proof (rule zone_repI)
    show "tiles (2 ^ current_zone_level z') (blocks_of z' fls X)"
      unfolding all geo(1) by (rule zone_repD(4) [OF rep])
  qed (use lists na up zone_repD(2,5,6,7,8) [OF rep] in \<open>simp_all only: all al free geo, simp_all\<close>)
qed

section \<open>Building the bitmap\<close>

definition bitmap_fits :: "zone \<Rightarrow> bool" where
  "bitmap_fits z \<longleftrightarrow> 2 ^ max_zone_level z div 8 \<le> merge_area z"

lemma clear_merge_bitmap_spec:
  assumes "bitmap_fits z" "zone_geom z k"
  shows "\<exists>bm. clear_merge_bitmap z = Inr (z\<lparr>merge_bitmap := bm\<rparr>) \<and>
    (\<forall>n < 2 ^ max_zone_level z. \<not> bm_bit bm n)"
proof -
  have "6 \<le> max_zone_level z" using assms(2) by (simp add: zone_geom_def)
  then have e: "(2 :: nat) ^ max_zone_level z = 8 * 2 ^ (max_zone_level z - 3)"
    using power_add [of "2 :: nat" 3 "max_zone_level z - 3"] by simp
  let ?bm = "\<lambda>a. if a < 2 ^ max_zone_level z div 8 then 0 else merge_bitmap z a"
  have "\<not> bm_bit ?bm n" if "n < 2 ^ max_zone_level z" for n
  proof -
    have "n div 8 < 2 ^ max_zone_level z div 8" using that unfolding e by (simp add: less_mult_imp_div_less mult.commute)
    then show ?thesis by (simp add: bm_bit_def)
  qed
  moreover have "clear_merge_bitmap z = Inr (z\<lparr>merge_bitmap := ?bm\<rparr>)"
    using assms(1) by (simp add: clear_merge_bitmap_def bitmap_fits_def)
  ultimately show ?thesis by blast
qed

lemma word_in_bitmap:
  assumes "n < 2 ^ max_zone_level z" "6 \<le> max_zone_level z" "bitmap_fits z"
  shows "8 * (n div 64) + 8 \<le> merge_area z"
proof -
  have e: "(2 :: nat) ^ max_zone_level z = 2 ^ (max_zone_level z - 6) * 64"
    using assms(2) power_add [of "2 :: nat" "max_zone_level z - 6" 6] by simp
  then have "n div 64 < 2 ^ (max_zone_level z - 6)" using assms(1) by (simp add: less_mult_imp_div_less)
  moreover have "2 ^ max_zone_level z div 8 = (8 :: nat) * 2 ^ (max_zone_level z - 6)" unfolding e by simp
  ultimately show ?thesis using assms(3) unfolding bitmap_fits_def by linarith
qed

text \<open>The chunk numbers of a level: chunk \<open>c\<close> of level \<open>l\<close> starts at unit \<open>c * 2 ^ l\<close>.\<close>

lemma chunk_of_unit:
  assumes geom: "zone_geom z k" and u: "u < 2 ^ current_zone_level z" and l: "l \<le> max_zone_level z"
  shows "unat ((slot u - 1) * min_obj_size z div 2 ^ (l + k)) = u div 2 ^ l"
proof -
  have "l + k < 64" using geom l by (simp add: zone_geom_def)
  then have "unat (2 ^ (l + k) :: u64) = 2 ^ l * 2 ^ k" using unat_power_of_2 [of "l + k"] by (simp add: power_add)
  moreover have "(slot u - 1) * min_obj_size z = off z u" by (simp add: slot_def off_def)
  ultimately show ?thesis
    using unat_off [OF geom u] by (simp only: unat_div) simp
qed

lemma bitmap_walk_spec:
  assumes "chain (zentries z) idx us" "zone_geom z k" "bitmap_fits z" "l \<le> max_zone_level z"
    "\<And>u. u \<in> set us \<Longrightarrow> u < 2 ^ current_zone_level z \<and> 2 ^ l dvd u"
    "\<And>u. u \<in> set us \<Longrightarrow> \<not> bm_bit (merge_bitmap z) (u div 2 ^ l)" "distinct us"
  shows "\<exists>bm. bitmap_walk z (2 ^ (l + k)) idx = Some (Inr (z\<lparr>merge_bitmap := bm\<rparr>)) \<and>
    (\<forall>m. bm_bit bm m \<longleftrightarrow> (\<exists>u\<in>set us. m = u div 2 ^ l) \<or> bm_bit (merge_bitmap z) m)"
  using assms
proof (induction us arbitrary: z idx)
  case Nil
  then have "bitmap_walk z (2 ^ (l + k)) idx = Some (Inr z)" by (subst bitmap_walk.simps) simp
  then show ?case by (intro exI [of _ "merge_bitmap z"]) simp
next
  case (Cons u us)
  let ?c = "u div 2 ^ l"
  have u: "u < 2 ^ current_zone_level z" "2 ^ l dvd u" using Cons.prems(5) by simp_all
  note ub = geom_unit_lt [OF Cons.prems(2) u(1)]
  have idx: "idx = slot u" "idx \<noteq> 0" "chain (zentries z) (get_next (zentries z (slot u))) us"
    using Cons.prems(1) slot_ne_0 [of u] by auto
  have c: "unat ((idx - 1) * min_obj_size z div 2 ^ (l + k)) = ?c"
    using chunk_of_unit [OF Cons.prems(2) u(1) Cons.prems(4)] by (simp add: idx(1))
  have "?c \<le> u" by (rule div_le_dividend)
  then have c_lt: "?c < 2 ^ max_zone_level z" "?c < 2 ^ 34" using ub(1,5) by linarith+
  have "?c div 64 * 8 < 2 ^ 64" using c_lt(2) by simp
  then have a: "unat ((idx - 1) * min_obj_size z div 2 ^ (l + k) div 64 * (64 div 8)) = 8 * (?c div 64)"
    "unat ((idx - 1) * min_obj_size z div 2 ^ (l + k) mod 64) = ?c mod 64"
    using c by (simp_all add: unat_mult_small unat_div unat_mod)
  have "8 * (?c div 64) + 8 \<le> merge_area z"
    using word_in_bitmap [OF c_lt(1) _ Cons.prems(3)] Cons.prems(2) by (simp add: zone_geom_def)
  from set_bit_at_spec [OF Cons.prems(6) this] obtain bm where
    bm: "set_bit_at z (8 * (?c div 64)) (?c mod 64) = Inr (z\<lparr>merge_bitmap := bm\<rparr>)"
    "\<And>m. bm_bit bm m \<longleftrightarrow> m = ?c \<or> bm_bit (merge_bitmap z) m" by auto
  let ?z = "z\<lparr>merge_bitmap := bm\<rparr>"
  have other: "v div 2 ^ l \<noteq> ?c" if "v \<in> set us" for v
  proof
    assume "v div 2 ^ l = ?c"
    moreover have "2 ^ l dvd v" using that Cons.prems(5) by simp
    ultimately have "v = u" using u(2) by (metis dvd_div_mult_self)
    with that Cons.prems(7) show False by simp
  qed
  have pre: "zone_geom ?z k" "bitmap_fits ?z"
    using Cons.prems(2,3) by (simp_all add: zone_geom_def bitmap_fits_def merge_area_def)
  have ch: "chain (zentries ?z) (get_next (zentries z idx)) us" using idx by simp
  have "\<exists>bm'. bitmap_walk ?z (2 ^ (l + k)) (get_next (zentries z idx)) = Some (Inr (?z\<lparr>merge_bitmap := bm'\<rparr>)) \<and>
    (\<forall>m. bm_bit bm' m \<longleftrightarrow> (\<exists>u\<in>set us. m = u div 2 ^ l) \<or> bm_bit (merge_bitmap ?z) m)"
    by (rule Cons.IH [OF ch pre]) (use Cons.prems(4,5,6,7) bm(2) other in auto)
  then obtain bm' where w: "bitmap_walk ?z (2 ^ (l + k)) (get_next (zentries z idx)) = Some (Inr (z\<lparr>merge_bitmap := bm'\<rparr>))"
    "\<And>m. bm_bit bm' m \<longleftrightarrow> (\<exists>u\<in>set us. m = u div 2 ^ l) \<or> bm_bit bm m" by auto
  have "bitmap_walk z (2 ^ (l + k)) idx = Some (Inr (z\<lparr>merge_bitmap := bm'\<rparr>))"
    using idx(2) a bm(1) w(1) by (simp add: bitmap_walk.simps [of z])
  with w(2) bm(2) show ?case by auto
qed

section \<open>Walking the bitmap\<close>

text \<open>
  \<open>C\<close> is the set of chunk numbers that were on the free list. After \<open>p\<close> pairs of bits the
  operation still holds the chunks from \<open>2 * p\<close> on, and the two side lists hold the joined
  pairs and the single chunks below.
\<close>

definition cbuddy :: "nat \<Rightarrow> nat" where
  "cbuddy c = (if even c then c + 1 else c - 1)"

definition joined :: "nat set \<Rightarrow> nat \<Rightarrow> nat set" where
  "joined C p = {c \<in> C. c < 2 * p \<and> even c \<and> c + 1 \<in> C}"

definition single :: "nat set \<Rightarrow> nat \<Rightarrow> nat set" where
  "single C p = {c \<in> C. c < 2 * p \<and> cbuddy c \<notin> C}"

definition mid_blocks :: "nat \<Rightarrow> nat set \<Rightarrow> nat \<Rightarrow> block set" where
  "mid_blocks l C p = (\<lambda>c. (l, c * 2 ^ l)) ` ({c \<in> C. 2 * p \<le> c} \<union> single C p) \<union>
     (\<lambda>c. (Suc l, c * 2 ^ l)) ` joined C p"

text \<open>\<open>L\<close> are blocks that are on no list for another reason (lost by an earlier crash).\<close>

definition apart :: "block set \<Rightarrow> nat \<Rightarrow> nat set \<Rightarrow> bool" where
  "apart L l C \<longleftrightarrow> (\<forall>b\<in>L. \<forall>c\<in>C. c * 2 ^ l \<notin> span b)"

definition merge_mid :: "block set \<Rightarrow> zone \<Rightarrow> nat \<Rightarrow> (nat \<Rightarrow> nat list) \<Rightarrow> nat \<Rightarrow> nat set \<Rightarrow> nat \<Rightarrow> bool" where
  "merge_mid L z k fls l C p \<longleftrightarrow> zone_geom z k \<and> apart L l C \<and> zone_rep z fls (mid_blocks l C p \<union> L) \<and>
     (\<exists>nx pm. zes_holds (zentries z) (post_merge_next_level z) nx \<and>
       zes_holds (zentries z) (post_merge_level z) pm \<and>
       set nx = (\<lambda>c. c * 2 ^ l) ` joined C p \<and> set pm = (\<lambda>c. c * 2 ^ l) ` single C p)"

lemma less_2Suc: "c < 2 * Suc p \<longleftrightarrow> c < 2 * p \<or> c = 2 * p \<or> c = 2 * p + 1"
  by auto

lemma joined_Suc:
  "joined C (Suc p) = joined C p \<union> (if 2 * p \<in> C \<and> 2 * p + 1 \<in> C then {2 * p} else {})"
  unfolding joined_def less_2Suc by auto

lemma single_Suc:
  "single C (Suc p) = single C p \<union> (if 2 * p \<in> C \<and> 2 * p + 1 \<notin> C then {2 * p} else {}) \<union>
     (if 2 * p \<notin> C \<and> 2 * p + 1 \<in> C then {2 * p + 1} else {})"
  unfolding single_def less_2Suc by (auto simp: cbuddy_def)

lemma rest_Suc: "{c \<in> C. 2 * p \<le> c} = {c \<in> C. 2 * Suc p \<le> c} \<union> ({2 * p, 2 * p + 1} \<inter> C)"
  by auto

lemma mid_blocks_skip:
  assumes "2 * p \<notin> C" "2 * p + 1 \<notin> C"
  shows "mid_blocks l C (Suc p) = mid_blocks l C p"
  using assms unfolding mid_blocks_def joined_Suc single_Suc rest_Suc [of C p] by simp

lemma mid_blocks_single:
  assumes "c \<in> C" "c = 2 * p \<and> 2 * p + 1 \<notin> C \<or> c = 2 * p + 1 \<and> 2 * p \<notin> C"
  shows "mid_blocks l C (Suc p) = mid_blocks l C p" "(l, c * 2 ^ l) \<in> mid_blocks l C p"
    "single C (Suc p) = insert c (single C p)" "joined C (Suc p) = joined C p"
  using assms unfolding mid_blocks_def joined_Suc single_Suc rest_Suc [of C p] by auto

lemma mid_blocks_joined:
  assumes "2 * p \<in> C" "2 * p + 1 \<in> C"
  shows "mid_blocks l C (Suc p) =
      (mid_blocks l C p - {(l, 2 * p * 2 ^ l), (l, 2 * p * 2 ^ l + 2 ^ l)}) \<union> {(Suc l, 2 * p * 2 ^ l)}"
    "(l, 2 * p * 2 ^ l) \<in> mid_blocks l C p" "(l, 2 * p * 2 ^ l + 2 ^ l) \<in> mid_blocks l C p"
    "single C (Suc p) = single C p" "joined C (Suc p) = insert (2 * p) (joined C p)"
proof -
  have e: "2 * p * 2 ^ l + 2 ^ l = (2 * p + 1) * 2 ^ l" by simp
  have inj: "c * 2 ^ l = d * 2 ^ l \<longleftrightarrow> c = d" for c d :: nat by simp
  have notin: "2 * p \<notin> single C p" "2 * p + 1 \<notin> single C p" by (simp_all add: single_def)
  show "mid_blocks l C (Suc p) =
      (mid_blocks l C p - {(l, 2 * p * 2 ^ l), (l, 2 * p * 2 ^ l + 2 ^ l)}) \<union> {(Suc l, 2 * p * 2 ^ l)}"
    unfolding e unfolding mid_blocks_def joined_Suc single_Suc rest_Suc [of C p]
    using assms notin by (auto simp only: if_True image_iff inj simp_thms prod.inject) auto
  show "(l, 2 * p * 2 ^ l) \<in> mid_blocks l C p" "(l, 2 * p * 2 ^ l + 2 ^ l) \<in> mid_blocks l C p"
    unfolding e mid_blocks_def using assms
    by (intro UnI1 image_eqI [where x = "2 * p"] image_eqI [where x = "2 * p + 1"]; simp)+
  show "single C (Suc p) = single C p" "joined C (Suc p) = insert (2 * p) (joined C p)"
    unfolding joined_Suc single_Suc using assms by auto
qed

lemma held_ne_0:
  assumes "zone_rep z fls X" "(l, u) \<in> X"
  shows "u \<noteq> 0"
proof
  assume "u = 0"
  have "(0, 0) \<in> blocks_of z fls X" "(l, u) \<in> blocks_of z fls X"
    using assms zone_repD(8) [OF assms(1)] by (simp_all add: blocks_of_def)
  from rep_unique [OF assms(1) this, of 0] \<open>u = 0\<close> have "(l, u) = (0, 0)" by simp
  with assms zone_repD(7,8) [OF assms(1)] show False by auto
qed

lemma held_bounds:
  assumes "zone_rep z fls X" "zone_geom z k" "(l, u) \<in> X"
  shows "u < 2 ^ current_zone_level z" "off z u \<noteq> 0" "off z u \<le> max_zone_size z"
    "off z u div min_obj_size z = of_nat u" "l \<le> current_zone_level z"
proof -
  have b: "(l, u) \<in> blocks_of z fls X" using assms(3) by (simp add: blocks_of_def)
  show u: "u < 2 ^ current_zone_level z" using rep_bound(2) [OF assms(1) b] .
  show "off z u \<noteq> 0" using off_eq_0_iff [OF assms(2) u] held_ne_0 [OF assms(1,3)] by simp
  show "off z u div min_obj_size z = of_nat u" by (rule off_div [OF assms(2) u])
  show "l \<le> current_zone_level z" using zone_repD(5) [OF assms(1) b] .
  have "u * 2 ^ k < 2 ^ max_zone_level z * 2 ^ k" using geom_unit_lt(5) [OF assms(2) u] by simp
  also have "\<dots> = unat (max_zone_size z)"
    using assms(2) unat_power_of_2 [of "max_zone_level z + k"] by (simp add: zone_geom_def power_add)
  finally show "off z u \<le> max_zone_size z"
    using unat_off [OF assms(2) u] by (simp add: word_le_nat_alt)
qed

definition merge_frame :: "zone \<Rightarrow> zone \<Rightarrow> bool" where
  "merge_frame z z' \<longleftrightarrow> (\<exists>e a b. z' = z\<lparr>zentries := e, post_merge_level := a, post_merge_next_level := b\<rparr>)"

lemma merge_frameI:
  "z' = z\<lparr>zentries := e, post_merge_level := a, post_merge_next_level := b\<rparr> \<Longrightarrow> merge_frame z z'"
  by (auto simp: merge_frame_def)

lemma merge_frame_refl [simp]: "merge_frame z z"
  by (rule merge_frameI [where e = "zentries z" and a = "post_merge_level z" and b = "post_merge_next_level z"]) simp

lemma merge_frame_trans: "merge_frame x y \<Longrightarrow> merge_frame y z \<Longrightarrow> merge_frame x z"
  unfolding merge_frame_def by (elim exE, simp) blast

text \<open>Pushing held chunk \<open>c\<close> on either side list.\<close>

lemma push_side:
  assumes rep: "zone_rep z fls X" and geom: "zone_geom z k" and X: "(l', v) \<in> X"
    and nx: "zes_holds (zentries z) (post_merge_next_level z) nx" and pm: "zes_holds (zentries z) (post_merge_level z) pm"
    and nin: "v \<notin> set nx" "v \<notin> set pm"
  shows "\<exists>z'. push_next_level z (of_nat v) = Inr z' \<and> zone_rep z' fls X \<and> alloc_blocks z' = alloc_blocks z \<and>
      merge_frame z z' \<and> zes_holds (zentries z') (post_merge_next_level z') (v # nx) \<and>
      zes_holds (zentries z') (post_merge_level z') pm"
    "\<exists>z'. push_post_level z (of_nat v) = Inr z' \<and> zone_rep z' fls X \<and> alloc_blocks z' = alloc_blocks z \<and>
      merge_frame z z' \<and> zes_holds (zentries z') (post_merge_next_level z') nx \<and>
      zes_holds (zentries z') (post_merge_level z') (v # pm)"
proof -
  have zb: "zes_block v"
    using geom_unit_lt(2) [OF geom held_bounds(1) [OF rep geom X]] by (simp add: zes_block_def)
  from zes.push_both [OF nx pm zb nin] obtain e st where
    e: "zes_push (zentries z) (post_merge_next_level z) (of_nat v) = Inr (e, st)" "zes_holds e st (v # nx)"
      "zes_holds e (post_merge_level z) pm" by blast
  let ?z = "z\<lparr>zentries := e, post_merge_next_level := st\<rparr>"
  have "zone_rep ?z fls X" "alloc_blocks ?z = alloc_blocks z"
    using relink_held [OF rep geom X e(1) nx, of ?z] by (simp_all add: same_geom_def)
  moreover have "merge_frame z ?z"
    by (rule merge_frameI [where e = e and a = "post_merge_level z" and b = st]) simp
  ultimately show "\<exists>z'. push_next_level z (of_nat v) = Inr z' \<and> zone_rep z' fls X \<and> alloc_blocks z' = alloc_blocks z \<and>
      merge_frame z z' \<and> zes_holds (zentries z') (post_merge_next_level z') (v # nx) \<and>
      zes_holds (zentries z') (post_merge_level z') pm"
    using e by (auto simp: push_next_level_def)
  from zes.push_both [OF pm nx zb nin(2,1)] obtain e st where
    e: "zes_push (zentries z) (post_merge_level z) (of_nat v) = Inr (e, st)" "zes_holds e st (v # pm)"
      "zes_holds e (post_merge_next_level z) nx" by blast
  let ?z = "z\<lparr>zentries := e, post_merge_level := st\<rparr>"
  have "zone_rep ?z fls X" "alloc_blocks ?z = alloc_blocks z"
    using relink_held [OF rep geom X e(1) pm, of ?z] by (simp_all add: same_geom_def)
  moreover have "merge_frame z ?z"
    by (rule merge_frameI [where e = e and a = st and b = "post_merge_next_level z"]) simp
  ultimately show "\<exists>z'. push_post_level z (of_nat v) = Inr z' \<and> zone_rep z' fls X \<and> alloc_blocks z' = alloc_blocks z \<and>
      merge_frame z z' \<and> zes_holds (zentries z') (post_merge_next_level z') nx \<and>
      zes_holds (zentries z') (post_merge_level z') (v # pm)"
    using e by (auto simp: push_post_level_def)
qed

lemma shift_pair:
  assumes "i + 1 < 64"
  shows "w AND push_bit i 3 = push_bit i 3 \<longleftrightarrow> bit (w :: u64) i \<and> bit w (i + 1)"
proof -
  have three: "bit (3 :: u64) n \<longleftrightarrow> n = 0 \<or> n = 1" for n
  proof -
    have "bit (3 :: u64) n \<longleftrightarrow> bit (mask 2 :: u64) n" by (simp add: mask_eq_exp_minus_1)
    also have "\<dots> \<longleftrightarrow> n = 0 \<or> n = 1" by (auto simp: bit_mask_iff less_2_cases_iff)
    finally show ?thesis .
  qed
  have "w AND push_bit i 3 = push_bit i 3 \<longleftrightarrow> (\<forall>n<64. bit (push_bit i (3 :: u64)) n \<longrightarrow> bit w n)"
    by (auto simp: bit_eq_iff bit_and_iff dest: bit_imp_le_length)
  also have "\<dots> \<longleftrightarrow> bit w i \<and> bit w (i + 1)"
  proof -
    have "n < 64 \<Longrightarrow> bit (push_bit i (3 :: u64)) n \<longleftrightarrow> n = i \<or> n = i + 1" for n
      using three [of "n - i"] by (cases "i \<le> n") (auto simp: bit_push_bit_iff)
    then have "(\<forall>n<64. bit (push_bit i (3 :: u64)) n \<longrightarrow> bit w n) \<longleftrightarrow> (\<forall>n<64. n \<in> {i, i + 1} \<longrightarrow> bit w n)"
      by simp
    also have "\<dots> \<longleftrightarrow> bit w i \<and> bit w (i + 1)"
    proof
      assume a: "\<forall>n<64. n \<in> {i, i + 1} \<longrightarrow> bit w n"
      from a [rule_format, of i] a [rule_format, of "i + 1"] assms show "bit w i \<and> bit w (i + 1)" by simp
    qed auto
    finally show ?thesis .
  qed
  finally show ?thesis .
qed

lemma low_bit: "(w :: u64) AND 1 \<noteq> 0 \<longleftrightarrow> bit w 0"
  by (simp add: and_one_eq bit_0 odd_iff_mod_2_eq_one)

lemma chunk_ptr:
  assumes "zone_geom z k"
  shows "of_nat c * 2 ^ (l + k) = off z (c * 2 ^ l)"
  using assms by (simp add: off_def zone_geom_def power_add)

lemma merge_frame_fields:
  assumes "merge_frame z z'"
  shows "same_geom z z'" "merge_area z' = merge_area z" "merge_bitmap z' = merge_bitmap z"
    "free_list z' = free_list z" "merge_status z' = merge_status z" "min_obj_size z' = min_obj_size z"
    "max_zone_level z' = max_zone_level z" "current_zone_level z' = current_zone_level z"
  using assms by (auto simp: merge_frame_def same_geom_def merge_area_def)

text \<open>A chunk whose buddy is not on the level's list stays on the level.\<close>

lemma merge_keep_single:
  assumes mid: "merge_mid L z k fls l C p" and c: "c \<in> C" "c = 2 * p \<and> 2 * p + 1 \<notin> C \<or> c = 2 * p + 1 \<and> 2 * p \<notin> C"
  shows "\<exists>z'. push_post_level z (of_nat (c * 2 ^ l)) = Inr z' \<and> merge_mid L z' k fls l C (Suc p) \<and>
    merge_frame z z' \<and> alloc_blocks z' = alloc_blocks z \<and> off z (c * 2 ^ l) \<noteq> 0 \<and>
    off z (c * 2 ^ l) \<le> max_zone_size z \<and> off z (c * 2 ^ l) div min_obj_size z = of_nat (c * 2 ^ l)"
proof -
  let ?X = "mid_blocks l C p \<union> L" and ?v = "c * 2 ^ l"
  from mid obtain nx pm where geom: "zone_geom z k" and ap: "apart L l C" and rep: "zone_rep z fls ?X"
    and nx: "zes_holds (zentries z) (post_merge_next_level z) nx" "set nx = (\<lambda>c. c * 2 ^ l) ` joined C p"
    and pm: "zes_holds (zentries z) (post_merge_level z) pm" "set pm = (\<lambda>c. c * 2 ^ l) ` single C p"
    unfolding merge_mid_def by blast
  note j = mid_blocks_single(1,2) [OF c, of l] mid_blocks_single(3,4) [OF c]
  have inX: "(l, ?v) \<in> ?X" using j(2) by simp
  from c(2) have "2 * p \<le> c" by auto
  then have nin: "?v \<notin> set nx" "?v \<notin> set pm" unfolding nx(2) pm(2) joined_def single_def by auto
  from push_side(2) [OF rep geom inX nx(1) pm(1) nin] obtain z' where
    z': "push_post_level z (of_nat ?v) = Inr z'" "zone_rep z' fls ?X" "alloc_blocks z' = alloc_blocks z" "merge_frame z z'"
      "zes_holds (zentries z') (post_merge_next_level z') nx" "zes_holds (zentries z') (post_merge_level z') (?v # pm)" by auto
  have geom': "zone_geom z' k" using same_geom_geom [OF _ geom] merge_frame_fields(1) [OF z'(4)] by blast
  have "merge_mid L z' k fls l C (Suc p)"
    unfolding merge_mid_def using z' geom' ap nx(2) pm(2) j
    by (intro conjI exI [of _ nx] exI [of _ "?v # pm"]) simp_all
  with z' held_bounds(2,3,4) [OF rep geom inX] show ?thesis by blast
qed

lemma merge_pair_step:
  assumes mid: "merge_mid L z k fls l C p"
    and w: "bit w i \<longleftrightarrow> 2 * p \<in> C" "bit w (i + 1) \<longleftrightarrow> 2 * p + 1 \<in> C"
    and i: "i + 1 < 64" "8 * len + i = 2 * p"
  shows "\<exists>z'. merge_pair z (2 ^ (l + k)) len w i (push_bit i 3) = Inr z' \<and>
    merge_mid L z' k fls l C (Suc p) \<and> merge_frame z z' \<and> alloc_blocks z' = alloc_blocks z"
proof -
  let ?X = "mid_blocks l C p \<union> L" and ?L = "2 * p * 2 ^ l" and ?R = "(2 * p + 1) * 2 ^ l"
  from mid obtain nx pm where geom: "zone_geom z k" and ap: "apart L l C" and rep: "zone_rep z fls ?X"
    and nx: "zes_holds (zentries z) (post_merge_next_level z) nx" "set nx = (\<lambda>c. c * 2 ^ l) ` joined C p"
    and pm: "zes_holds (zentries z) (post_merge_level z) pm" "set pm = (\<lambda>c. c * 2 ^ l) ` single C p"
    unfolding merge_mid_def by blast
  have nin: "c * 2 ^ l \<notin> set nx" "c * 2 ^ l \<notin> set pm" if "2 * p \<le> c" for c
    using that unfolding nx(2) pm(2) joined_def single_def by auto
  note cond = shift_pair [OF i(1), of w] low_bit bit_drop_bit_eq w(1) w(2) [simplified]
  have ptr: "of_nat (8 * len + i) * 2 ^ (l + k) = off z ?L" "of_nat (8 * len + i + 1) * 2 ^ (l + k) = off z ?R"
    unfolding i(2) by (rule chunk_ptr [OF geom])+
  have geom': "merge_frame z z' \<Longrightarrow> zone_geom z' k" for z'
    using same_geom_geom [OF _ geom] merge_frame_fields(1) by blast
  consider "2 * p \<in> C" "2 * p + 1 \<in> C" | "2 * p \<in> C" "2 * p + 1 \<notin> C"
    | "2 * p \<notin> C" "2 * p + 1 \<in> C" | "2 * p \<notin> C" "2 * p + 1 \<notin> C" by blast
  then show ?thesis
  proof cases
    case 1
    note j = mid_blocks_joined(1-3) [OF 1, of l] mid_blocks_joined(4,5) [OF 1]
    have dvd: "2 ^ Suc l dvd ?L" by simp
    note R = held_bounds [OF rep geom UnI1 [OF j(3)]]
    have "2 ^ l < (2 :: nat) ^ current_zone_level z" using R(1) by linarith
    then have l: "l < current_zone_level z" by simp
    have notL: "(l, ?L) \<notin> L" "(l, ?L + 2 ^ l) \<notin> L" using ap 1 by (force simp: apart_def)+
    have mid': "mid_blocks l C (Suc p) \<union> L = (?X - {(l, ?L), (l, ?L + 2 ^ l)}) \<union> {(Suc l, ?L)}"
      unfolding j(1) using notL by blast
    have rep': "zone_rep z fls (mid_blocks l C (Suc p) \<union> L)"
      unfolding mid' by (rule join_held [OF rep _ _ l dvd]) (use j(2,3) in blast)+
    have inX: "(Suc l, ?L) \<in> mid_blocks l C (Suc p) \<union> L" unfolding mid' by simp
    note L = held_bounds [OF rep' geom inX]
    from push_side(1) [OF rep' geom inX nx(1) pm(1)] nin [of "2 * p"] obtain z' where
      z': "push_next_level z (of_nat ?L) = Inr z'" "zone_rep z' fls (mid_blocks l C (Suc p) \<union> L)"
        "alloc_blocks z' = alloc_blocks z" "merge_frame z z'"
        "zes_holds (zentries z') (post_merge_next_level z') (?L # nx)"
        "zes_holds (zentries z') (post_merge_level z') pm" by auto
    have "merge_pair z (2 ^ (l + k)) len w i (push_bit i 3) = Inr z'"
      unfolding merge_pair_def ptr Let_def using 1 L(2,3,4) z'(1) by (simp add: cond)
    moreover have "merge_mid L z' k fls l C (Suc p)"
      unfolding merge_mid_def using z' geom' ap nx(2) pm(2) j(4,5)
      by (intro conjI exI [of _ "?L # nx"] exI [of _ pm]) simp_all
    ultimately show ?thesis using z' by blast
  next
    case 2
    from merge_keep_single [OF mid, of "2 * p"] 2 obtain z' where z': "push_post_level z (of_nat ?L) = Inr z'"
      "merge_mid L z' k fls l C (Suc p)" "merge_frame z z'" "alloc_blocks z' = alloc_blocks z"
      "off z ?L \<noteq> 0" "off z ?L \<le> max_zone_size z" "off z ?L div min_obj_size z = of_nat ?L" by auto
    have "merge_pair z (2 ^ (l + k)) len w i (push_bit i 3) = Inr z'"
      unfolding merge_pair_def ptr Let_def using 2 z'(1,5,6,7) by (simp add: cond)
    with z'(2-4) show ?thesis by blast
  next
    case 3
    from merge_keep_single [OF mid, of "2 * p + 1"] 3 obtain z' where z': "push_post_level z (of_nat ?R) = Inr z'"
      "merge_mid L z' k fls l C (Suc p)" "merge_frame z z'" "alloc_blocks z' = alloc_blocks z"
      "off z ?R \<noteq> 0" "off z ?R \<le> max_zone_size z" "off z ?R div min_obj_size z = of_nat ?R" by auto
    have "merge_pair z (2 ^ (l + k)) len w i (push_bit i 3) = Inr z'"
      unfolding merge_pair_def ptr Let_def using 3 z'(1,5,6,7) by (simp add: cond)
    with z'(2-4) show ?thesis by blast
  next
    case 4
    have "merge_pair z (2 ^ (l + k)) len w i (push_bit i 3) = Inr z"
      unfolding merge_pair_def using 4 by (simp add: cond)
    moreover have "merge_mid L z k fls l C (Suc p)"
      unfolding merge_mid_def mid_blocks_skip [OF 4]
      using geom ap rep nx pm 4 by (auto simp: joined_Suc single_Suc)
    ultimately show ?thesis by auto
  qed
qed

text \<open>The 32 pairs of one word, and all words.\<close>

lemma push_bit_64: "push_bit 64 (w :: u64) = 0"
  by (rule bit_word_eqI) (simp add: bit_push_bit_iff)

lemma merge_pairs_spec:
  assumes "merge_mid L z k fls l C p" "8 * len + i = 2 * p" "even i" "i \<le> 64" "8 dvd len"
    "\<And>n. n < 64 \<Longrightarrow> bit w n \<longleftrightarrow> 8 * len + n \<in> C"
  shows "\<exists>z'. merge_pairs z (2 ^ (l + k)) len w i (push_bit i 3) = Inr z' \<and>
    merge_mid L z' k fls l C (4 * len + 32) \<and> merge_frame z z' \<and> alloc_blocks z' = alloc_blocks z"
  using assms(1,2,3,4)
proof (induction "64 - i" arbitrary: z p i rule: less_induct)
  case (less i z p)
  show ?case
  proof (cases "i = 64")
    case True
    have "push_bit i (3 :: u64) = 0" using push_bit_64 True by (simp only:)
    then have "merge_pairs z (2 ^ (l + k)) len w i (push_bit i 3) = Inr z"
      using True by (subst merge_pairs.simps) simp
    moreover have "p = 4 * len + 32" using less.prems(2) True by simp
    ultimately show ?thesis using less.prems(1) by auto
  next
    case False
    then have i: "i + 1 < 64" "i < 64" using less.prems(3,4) by (cases "i = 63"; simp)+
    have e: "8 * len + (i + 1) = 2 * p + 1" using less.prems(2) by linarith
    have w: "bit w i \<longleftrightarrow> 2 * p \<in> C" "bit w (i + 1) \<longleftrightarrow> 2 * p + 1 \<in> C"
      using assms(6) [OF i(2)] assms(6) [OF i(1)] unfolding e less.prems(2) by blast+
    from merge_pair_step [OF less.prems(1) w i(1) less.prems(2)] obtain y where
      y: "merge_pair z (2 ^ (l + k)) len w i (push_bit i 3) = Inr y" "merge_mid L y k fls l C (Suc p)"
      "merge_frame z y" "alloc_blocks y = alloc_blocks z" by blast
    have m: "64 - (i + 2) < 64 - i" "8 * len + (i + 2) = 2 * Suc p" "even (i + 2)" "i + 2 \<le> 64"
      using i less.prems(2,3) by simp_all
    from less.hyps [OF m(1) y(2) m(2-4)] obtain z' where
      z': "merge_pairs y (2 ^ (l + k)) len w (i + 2) (push_bit (i + 2) 3) = Inr z'"
        "merge_mid L z' k fls l C (4 * len + 32)" "merge_frame y z'" "alloc_blocks z' = alloc_blocks y" by blast
    have "push_bit 2 (push_bit i 3) = (push_bit (i + 2) 3 :: u64)" by (simp add: add.commute)
    then have "merge_pairs z (2 ^ (l + k)) len w i (push_bit i 3) = Inr z'"
      using i(2) y(1) z'(1) by (subst merge_pairs.simps) simp
    with z' y merge_frame_trans show ?thesis by (intro exI [of _ z']) auto
  qed
qed

lemma merge_words_spec:
  assumes "merge_mid L z k fls l C (4 * len)" "8 dvd len" "bitmap_fits z"
    "\<And>n. n < 2 ^ max_zone_level z \<Longrightarrow> bm_bit (merge_bitmap z) n \<longleftrightarrow> n \<in> C"
    "mx \<le> 2 ^ max_zone_level z div 8"
  shows "\<exists>z' len'. merge_words z (2 ^ (l + k)) len mx = Inr z' \<and> mx \<le> len' \<and>
    merge_mid L z' k fls l C (4 * len') \<and> merge_frame z z' \<and> alloc_blocks z' = alloc_blocks z"
  using assms
proof (induction "mx - len" arbitrary: z len rule: less_induct)
  case (less len z)
  show ?case
  proof (cases "len < mx")
    case False
    then show ?thesis using less.prems(1)
      by (intro exI [of _ z] exI [of _ len]) (simp add: merge_words.simps [of z])
  next
    case True
    have M: "6 \<le> max_zone_level z" using less.prems(1) by (simp add: merge_mid_def zone_geom_def)
    then have e: "(2 :: nat) ^ max_zone_level z = 64 * 2 ^ (max_zone_level z - 6)"
      using power_add [of "2 :: nat" 6 "max_zone_level z - 6"] by simp
    from less.prems(2) obtain q where q: "len = 8 * q" by blast
    have "8 * q < 8 * 2 ^ (max_zone_level z - 6)" using True less.prems(5) unfolding e q by simp
    then have "q < 2 ^ (max_zone_level z - 6)" by simp
    then have "Suc q \<le> 2 ^ (max_zone_level z - 6)" by simp
    then have len: "64 * q + 64 \<le> 2 ^ max_zone_level z" unfolding e by simp
    have "64 * q < 2 ^ max_zone_level z" using len by simp
    from word_in_bitmap [OF this M less.prems(3)] have area: "\<not> merge_area z < len + 8" by (simp add: q)
    let ?w = "read64 (merge_bitmap z) len"
    have w: "bit ?w n \<longleftrightarrow> 8 * len + n \<in> C" if "n < 64" for n
      using bit_read64_word [OF that, of "merge_bitmap z" q] less.prems(4) [of "64 * q + n"] that len
      by (simp add: q)
    have m: "mx - (len + 8) < mx - len" "8 dvd len + 8" using True less.prems(2) by simp_all
    show ?thesis
    proof (cases "?w = 0")
      case zero: True
      have none: "c \<notin> C" if "2 * (4 * len) \<le> c" "c < 2 * (4 * (len + 8))" for c
        using w [of "c - 8 * len"] zero that by simp
      have "merge_mid L z k fls l C (4 * len + j)" if "j \<le> 32" for j
        using that
      proof (induction j)
        case 0
        then show ?case using less.prems(1) by simp
      next
        case (Suc j)
        then have "2 * (4 * len + j) \<notin> C" "2 * (4 * len + j) + 1 \<notin> C" using none by simp_all
        then show ?case using Suc mid_blocks_skip [of "4 * len + j" C l]
          by (simp add: merge_mid_def joined_Suc single_Suc)
      qed
      from this [of 32] have mid: "merge_mid L z k fls l C (4 * (len + 8))" by simp
      from less.hyps [OF m(1) mid m(2) less.prems(3-5)] zero True area
      show ?thesis by (subst merge_words.simps) simp
    next
      case False
      from merge_pairs_spec [OF less.prems(1) _ _ _ less.prems(2) w, of 0] obtain y where
        y: "merge_pairs z (2 ^ (l + k)) len ?w 0 3 = Inr y" "merge_mid L y k fls l C (4 * (len + 8))"
        "merge_frame z y" "alloc_blocks y = alloc_blocks z" by auto
      note f = merge_frame_fields [OF y(3)]
      have "bitmap_fits y" using less.prems(3) f by (simp add: bitmap_fits_def)
      from less.hyps [OF m(1) y(2) m(2) this] less.prems(4,5) f obtain z' len' where
        z': "merge_words y (2 ^ (l + k)) (len + 8) mx = Inr z'" "mx \<le> len'" "merge_mid L z' k fls l C (4 * len')"
        "merge_frame y z'" "alloc_blocks z' = alloc_blocks y" by auto
      have "merge_words z (2 ^ (l + k)) len mx = Inr z'"
        using True area False y(1) z'(1) by (subst merge_words.simps) simp
      with z' y merge_frame_trans show ?thesis by (intro exI [of _ z'] exI [of _ len']) auto
    qed
  qed
qed

section \<open>Moving the chunks back\<close>

definition drain_frame :: "zone \<Rightarrow> zone \<Rightarrow> bool" where
  "drain_frame z z' \<longleftrightarrow> (\<exists>e f a b. z' = z\<lparr>zentries := e, free_list := f,
     post_merge_level := a, post_merge_next_level := b\<rparr>)"

lemma drain_frameI:
  "z' = z\<lparr>zentries := e, free_list := f, post_merge_level := a, post_merge_next_level := b\<rparr> \<Longrightarrow> drain_frame z z'"
  unfolding drain_frame_def by blast

lemma drain_frame_trans: "drain_frame x y \<Longrightarrow> drain_frame y z \<Longrightarrow> drain_frame x z"
  unfolding drain_frame_def by (elim exE, simp) blast

lemma drain_frame_lists: "lists_only z z' \<Longrightarrow> drain_frame z z'"
  unfolding lists_only_def
  by (elim exE) (rule drain_frameI [where a = "post_merge_level z" and b = "post_merge_next_level z"], simp)

lemma drain_frame_fields:
  assumes "drain_frame z z'"
  shows "same_geom z z'" "merge_area z' = merge_area z" "merge_status z' = merge_status z"
    "merge_in_progress z' = merge_in_progress z" "current_merge_level z' = current_merge_level z"
    "grow_in_progress z' = grow_in_progress z" "growable z' = growable z" "shelf z' = shelf z"
  using assms by (auto simp: drain_frame_def same_geom_def merge_area_def growable_def)

lemma push_free_other:
  assumes "push_free z l (of_nat v) = Inr z'" "zes_holds (zentries z) st ws" "v \<notin> set ws" "zes_block v"
  shows "zes_holds (zentries z') st ws"
  using assms zes.push_frame by (auto simp: push_free_def split: if_splits)

lemma held_word:
  assumes "zone_rep z fls X" "zone_geom z k" "(l, v) \<in> X"
  shows "(of_nat v :: u64) \<noteq> 0" "zes_block v"
proof -
  note b = geom_unit_lt [OF assms(2) held_bounds(1) [OF assms]]
  show "zes_block v" using b by (simp add: zes_block_def)
  have "unat (of_nat v :: u64) = v" using b by (intro unat_of_nat_64) simp
  then show "(of_nat v :: u64) \<noteq> 0" using held_ne_0 [OF assms(1,3)] by force
qed

lemma holds_distinct: "zes_holds e st us \<Longrightarrow> distinct us"
  by (auto simp: zes_holds_def dest: chain_distinct)

lemma drain_next_spec:
  assumes "zes_holds (zentries z) (post_merge_next_level z) nx" "zes_holds (zentries z) (post_merge_level z) pm"
    "set nx \<inter> set pm = {}" "zone_rep z fls X" "zone_geom z k" "{Suc l} \<times> set nx \<subseteq> X"
  shows "\<exists>z'. drain_next_level z l = Some (Inr z') \<and> alloc_blocks z' = alloc_blocks z \<and>
    zone_rep z' (fls(Suc l := rev nx @ fls (Suc l))) (X - {Suc l} \<times> set nx) \<and>
    zes_holds (zentries z') (post_merge_level z') pm \<and> zes_holds (zentries z') (post_merge_next_level z') [] \<and>
    drain_frame z z'"
  using assms
proof (induction nx arbitrary: z fls X)
  case Nil
  let ?z = "z\<lparr>post_merge_next_level := post_merge_next_level z\<rparr>"
  have "zes_pop (zentries z) (post_merge_next_level z) = (post_merge_next_level z, 0)"
    using Nil.prems(1) by (rule zes.pop_empty)
  then have "drain_next_level z l = Some (Inr z)" by (subst drain_next_level.simps) simp
  then show ?case using Nil.prems drain_frame_lists [OF lists_only_refl] by auto
next
  case (Cons v nx)
  from zes.pop_holds [OF Cons.prems(1)] obtain st where
    st: "zes_pop (zentries z) (post_merge_next_level z) = (st, of_nat v)" "zes_holds (zentries z) st nx" by blast
  let ?y = "z\<lparr>post_merge_next_level := st\<rparr>"
  have v: "(Suc l, v) \<in> X" "v \<notin> set nx" "v \<notin> set pm"
    using Cons.prems(3,6) holds_distinct [OF Cons.prems(1)] by auto
  note w = held_word [OF Cons.prems(4,5) v(1)]
  have y: "zone_rep ?y fls X" "alloc_blocks ?y = alloc_blocks z" "zone_geom ?y k"
    using zone_rep_frame [OF Cons.prems(4), of ?y] Cons.prems(5) by (simp_all add: same_geom_def zone_geom_def)
  from push_free_held [OF y(1,3) v(1)] obtain x where
    x: "push_free ?y (Suc l) (of_nat v) = Inr x" "zone_rep x (fls(Suc l := v # fls (Suc l))) (X - {(Suc l, v)})"
    "same_geom ?y x" "alloc_blocks x = alloc_blocks ?y" by blast
  note lo = push_free_lists_only [OF x(1)]
  have post: "post_merge_next_level x = st" "post_merge_level x = post_merge_level z"
    using lists_only_fields(10,11) [OF lo] by simp_all
  have h: "zes_holds (zentries x) (post_merge_next_level x) nx" "zes_holds (zentries x) (post_merge_level x) pm"
    using push_free_other [OF x(1) _ _ w(2)] st(2) Cons.prems(2) v by (simp_all add: post)
  have "\<exists>z'. drain_next_level x l = Some (Inr z') \<and> alloc_blocks z' = alloc_blocks x \<and>
    zone_rep z' ((fls(Suc l := v # fls (Suc l)))(Suc l := rev nx @ (fls(Suc l := v # fls (Suc l))) (Suc l)))
      (X - {(Suc l, v)} - {Suc l} \<times> set nx) \<and>
    zes_holds (zentries z') (post_merge_level z') pm \<and> zes_holds (zentries z') (post_merge_next_level z') [] \<and>
    drain_frame x z'"
    by (rule Cons.IH [OF h _ x(2) same_geom_geom [OF x(3) y(3)]]) (use Cons.prems(3,6) v in auto)
  then obtain z' where z': "drain_next_level x l = Some (Inr z')" "alloc_blocks z' = alloc_blocks x"
    "zone_rep z' (fls(Suc l := rev (v # nx) @ fls (Suc l))) (X - {(Suc l, v)} - {Suc l} \<times> set nx)"
    "zes_holds (zentries z') (post_merge_level z') pm" "drain_frame x z'"
    "zes_holds (zentries z') (post_merge_next_level z') []" by auto
  have "Suc l \<le> 34" using held_bounds(5) [OF Cons.prems(4,5) v(1)] Cons.prems(5) by (simp add: zone_geom_def)
  then have "(l + 1) mod 2 ^ 64 = Suc l" by simp
  then have "drain_next_level z l = Some (Inr z')"
    using st(1) w(1) x(1) z'(1) by (subst drain_next_level.simps) simp
  moreover have "X - {(Suc l, v)} - {Suc l} \<times> set nx = X - {Suc l} \<times> set (v # nx)" by auto
  note r = z'(3) [unfolded this]
  moreover have fy: "drain_frame z ?y"
    by (rule drain_frameI [where e = "zentries z" and f = "free_list z" and a = "post_merge_level z" and b = st]) simp
  moreover have "drain_frame z z'"
    by (rule drain_frame_trans [OF fy drain_frame_trans [OF drain_frame_lists [OF lo] z'(5)]])
  ultimately show ?case
    using z'(2,4,6) x(4) y(2) by (intro exI [of _ z'] conjI) (rule r | simp)+
qed

lemma drain_post_spec:
  assumes "zes_holds (zentries z) (post_merge_level z) pm"
    "zone_rep z fls X" "zone_geom z k" "{l} \<times> set pm \<subseteq> X"
  shows "\<exists>z'. drain_post_level z l = Some (Inr z') \<and> alloc_blocks z' = alloc_blocks z \<and>
    zone_rep z' (fls(l := rev pm @ fls l)) (X - {l} \<times> set pm) \<and> drain_frame z z'"
  using assms
proof (induction pm arbitrary: z fls X)
  case Nil
  have "zes_pop (zentries z) (post_merge_level z) = (post_merge_level z, 0)"
    using Nil.prems(1) by (rule zes.pop_empty)
  then have "drain_post_level z l = Some (Inr z)" by (subst drain_post_level.simps) simp
  then show ?case using Nil.prems drain_frame_lists [OF lists_only_refl] by auto
next
  case (Cons v pm)
  from zes.pop_holds [OF Cons.prems(1)] obtain st where
    st: "zes_pop (zentries z) (post_merge_level z) = (st, of_nat v)" "zes_holds (zentries z) st pm" by blast
  let ?y = "z\<lparr>post_merge_level := st\<rparr>"
  have v: "(l, v) \<in> X" "v \<notin> set pm"
    using Cons.prems(4) holds_distinct [OF Cons.prems(1)] by auto
  note w = held_word [OF Cons.prems(2,3) v(1)]
  have y: "zone_rep ?y fls X" "alloc_blocks ?y = alloc_blocks z" "zone_geom ?y k"
    using zone_rep_frame [OF Cons.prems(2), of ?y] Cons.prems(3) by (simp_all add: same_geom_def zone_geom_def)
  from push_free_held [OF y(1,3) v(1)] obtain x where
    x: "push_free ?y l (of_nat v) = Inr x" "zone_rep x (fls(l := v # fls l)) (X - {(l, v)})"
    "same_geom ?y x" "alloc_blocks x = alloc_blocks ?y" by blast
  note lo = push_free_lists_only [OF x(1)]
  have post: "post_merge_level x = st" using lists_only_fields(10) [OF lo] by simp
  have h: "zes_holds (zentries x) (post_merge_level x) pm"
    using push_free_other [OF x(1) _ _ w(2)] st(2) v by (simp add: post)
  have "\<exists>z'. drain_post_level x l = Some (Inr z') \<and> alloc_blocks z' = alloc_blocks x \<and>
    zone_rep z' ((fls(l := v # fls l))(l := rev pm @ (fls(l := v # fls l)) l)) (X - {(l, v)} - {l} \<times> set pm) \<and>
    drain_frame x z'"
    by (rule Cons.IH [OF h x(2) same_geom_geom [OF x(3) y(3)]]) (use Cons.prems(4) v in auto)
  then obtain z' where z': "drain_post_level x l = Some (Inr z')" "alloc_blocks z' = alloc_blocks x"
    "zone_rep z' (fls(l := rev (v # pm) @ fls l)) (X - {(l, v)} - {l} \<times> set pm)" "drain_frame x z'" by auto
  have "drain_post_level z l = Some (Inr z')"
    using st(1) w(1) x(1) z'(1) by (subst drain_post_level.simps) simp
  moreover have "X - {(l, v)} - {l} \<times> set pm = X - {l} \<times> set (v # pm)" by auto
  note r = z'(3) [unfolded this]
  moreover have fy: "drain_frame z ?y"
    by (rule drain_frameI [where e = "zentries z" and f = "free_list z" and a = st and b = "post_merge_next_level z"]) simp
  moreover have "drain_frame z z'"
    by (rule drain_frame_trans [OF fy drain_frame_trans [OF drain_frame_lists [OF lo] z'(4)]])
  ultimately show ?case
    using z'(2) x(4) y(2) by (intro exI [of _ z'] conjI) (rule r | simp)+
qed

section \<open>Merging one level\<close>

definition unit_buddy :: "nat \<Rightarrow> nat \<Rightarrow> nat" where
  "unit_buddy l u = (if 2 ^ Suc l dvd u then u + 2 ^ l else u - 2 ^ l)"

text \<open>No merge is running, nor did one stop half-way.\<close>

definition merge_idle :: "zone \<Rightarrow> bool" where
  "merge_idle z \<longleftrightarrow> merge_in_progress z = 0 \<and> merge_status z = MERGE_DEFAULT"

lemma take_list:
  assumes rep: "zone_rep z fls X"
    and z': "zentries z' = zentries z" "same_geom z z'"
      "\<And>j. head (free_list z' j) = (if j = l then 0 else head (free_list z j))"
  shows "zone_rep z' (fls(l := [])) (X \<union> {l} \<times> set (fls l))" "alloc_blocks z' = alloc_blocks z"
proof -
  let ?Y = "X \<union> {l} \<times> set (fls l)"
  have geo: "current_zone_level z' = current_zone_level z" "max_zone_level z' = max_zone_level z"
    using z'(2) by (simp_all add: same_geom_def)
  show al: "alloc_blocks z' = alloc_blocks z" by (simp add: alloc_blocks_def z' geo)
  have sub: "{l} \<times> set (fls l) \<subseteq> free_blocks z fls"
    using zone_repD(2) [OF rep, of l] by (cases "l \<le> current_zone_level z") (auto simp: free_blocks_def)
  have free: "free_blocks z' (fls(l := [])) = free_blocks z fls - {l} \<times> set (fls l)"
    by (auto simp: free_blocks_def geo split: if_splits)
  have all: "blocks_of z' (fls(l := [])) ?Y = blocks_of z fls X"
    using sub by (auto simp: blocks_of_def free al)
  have fa: "free_blocks z fls \<inter> alloc_blocks z = {}"
    using zone_repD(3) [OF rep] by (auto simp: free_blocks_def alloc_blocks_def)
  have disj: "?Y \<inter> (free_blocks z' (fls(l := [])) \<union> alloc_blocks z') = {}"
    using zone_repD(7) [OF rep] fa sub unfolding free al by blast
  have up: "ungrown_clear z'" using zone_repD(9) [OF rep] by (simp add: ungrown_clear_def z' geo)
  show "zone_rep z' (fls(l := [])) ?Y"
  proof (rule zone_repI)
    show "zes_holds (zentries z') (free_list z' j) ((fls(l := [])) j)" if "j \<le> max_zone_level z'" for j
      using zone_repD(1) [OF rep, of j] that by (simp add: zes_holds_def z' geo)
    show "tiles (2 ^ current_zone_level z') (blocks_of z' (fls(l := [])) ?Y)"
      unfolding all geo by (rule zone_repD(4) [OF rep])
    show "(fls(l := [])) j = []" if "j > current_zone_level z'" for j
      using zone_repD(2) [OF rep, of j] that by (simp add: geo)
    show "\<not> is_allocated (zentries z' (slot u))" if "u \<in> set ((fls(l := [])) j)" for j u
      using zone_repD(3) [OF rep, of u j] that by (simp add: z' split: if_splits)
    show "(0, 0) \<in> alloc_blocks z'" using zone_repD(8) [OF rep] by (simp add: al)
    show "j \<le> current_zone_level z' \<and> 2 ^ j dvd u" if "(j, u) \<in> blocks_of z' (fls(l := [])) ?Y" for j u
      using zone_repD(5,6) [OF rep] that unfolding all geo by blast
  qed (rule disj up)+
qed

text \<open>The bitmap walk covers every chunk of the level.\<close>

lemma words_cover:
  fixes c len :: nat
  assumes "6 \<le> M" "l < M" "c < 2 ^ (M - l)"
    and "(if l + 2 \<ge> M then 1 else 2 ^ (M - l) div 8) \<le> len"
  shows "c < 8 * len"
proof (cases "l + 2 \<ge> M")
  case True
  then have "(2 :: nat) ^ (M - l) \<le> 2 ^ 2" by (intro power_increasing) simp_all
  then show ?thesis using assms(3,4) True by simp
next
  case False
  then have "(2 :: nat) ^ (M - l) = 8 * 2 ^ (M - l - 3)"
    using power_add [of "2 :: nat" 3 "M - l - 3"] by simp
  then have "8 * (2 ^ (M - l) div 8) = (2 :: nat) ^ (M - l)" by simp
  moreover have "2 ^ (M - l) div 8 \<le> len" using assms(4) False by simp
  ultimately show ?thesis using assms(3) by linarith
qed

lemma len_in_bitmap:
  assumes "6 \<le> M"
  shows "(if l + 2 \<ge> M then 1 else 2 ^ (M - l) div 8) \<le> 2 ^ M div (8 :: nat)"
proof -
  have "(2 :: nat) ^ 6 \<le> 2 ^ M" using assms by (intro power_increasing) simp_all
  moreover have "(2 :: nat) ^ (M - l) \<le> 2 ^ M" by (intro power_increasing) simp_all
  ultimately show ?thesis by (auto simp: div_le_mono)
qed

text \<open>The bits found and the side lists built from them, all words together.\<close>

lemma do_merge_spec:
  assumes rep: "zone_rep z fls ({l} \<times> set us \<union> L)" and ap: "apart L l C" and geom: "zone_geom z k" and fits: "bitmap_fits z"
    and l: "l < max_zone_level z" and st: "merge_status z = MERGE_BITMAP_COMPLETED"
    and C: "C = (\<lambda>u. u div 2 ^ l) ` set us"
    and bits: "\<And>n. n < 2 ^ max_zone_level z \<Longrightarrow> bm_bit (merge_bitmap z) n \<longleftrightarrow> n \<in> C"
  shows "\<exists>z' p. do_merge z l = Inr z' \<and> merge_mid L z' k fls l C p \<and> (\<forall>c\<in>C. c < 2 * p) \<and>
    alloc_blocks z' = alloc_blocks z \<and> drain_frame z (z'\<lparr>merge_status := merge_status z\<rparr>) \<and>
    free_list z' = free_list z \<and> merge_status z' = MERGE_FREELIST_COMPLETED"
proof -
  let ?mx = "if l + 2 \<ge> max_zone_level z then 1 :: nat else 2 ^ (max_zone_level z - l) div 8"
  have M: "6 \<le> max_zone_level z" "max_zone_level z + k \<le> 40" "current_zone_level z \<le> max_zone_level z"
    using geom by (simp_all add: zone_geom_def)
  have size: "find_size_from_level (of_nat l) (min_obj_size z) = 2 ^ (l + k)"
    using geom l by (simp add: zone_geom_def find_size_of_level)
  have us: "u < 2 ^ current_zone_level z" "2 ^ l dvd u" if "u \<in> set us" for u
    using held_bounds(1) [OF rep geom, of l u] zone_repD(6) [OF rep, of l u] that by (auto simp: blocks_of_def)
  have X: "mid_blocks l C 0 = {l} \<times> set us"
    using us(2) by (force simp: mid_blocks_def joined_def single_def C)
  have Clt: "c < 2 ^ (max_zone_level z - l)" if c: "c \<in> C" for c
  proof -
    from c obtain u where u: "u \<in> set us" "c = u div 2 ^ l" by (auto simp: C)
    have "(2 :: nat) ^ current_zone_level z \<le> 2 ^ (max_zone_level z - l) * 2 ^ l"
      using M(3) l by (simp flip: power_add)
    with us(1) [OF u(1)] have "u < 2 ^ (max_zone_level z - l) * 2 ^ l" by linarith
    then show ?thesis using u(2) by (simp add: less_mult_imp_div_less)
  qed
  define y where "y = z\<lparr>post_merge_level := (post_merge_level z)\<lparr>head := 0\<rparr>,
    post_merge_next_level := (post_merge_next_level z)\<lparr>head := 0\<rparr>\<rparr>"
  have "zone_rep y fls ({l} \<times> set us \<union> L)" "alloc_blocks y = alloc_blocks z"
    using zone_rep_frame [OF rep, of y] by (simp_all add: y_def same_geom_def)
  moreover have gy: "zone_geom y k" "bitmap_fits y"
    using geom fits by (simp_all add: y_def zone_geom_def bitmap_fits_def merge_area_def)
  ultimately have mid: "merge_mid L y k fls l C (4 * 0)" and aly: "alloc_blocks y = alloc_blocks z"
    unfolding merge_mid_def using ap by (simp_all add: X joined_def single_def zes_holds_def y_def)
  have mxb: "?mx \<le> 2 ^ max_zone_level z div 8" by (rule len_in_bitmap [OF M(1)])
  have "\<exists>z' len'. merge_words y (2 ^ (l + k)) 0 ?mx = Inr z' \<and> ?mx \<le> len' \<and>
    merge_mid L z' k fls l C (4 * len') \<and> merge_frame y z' \<and> alloc_blocks z' = alloc_blocks y"
    by (rule merge_words_spec [OF mid _ gy(2)]) (use bits mxb in \<open>simp_all add: y_def\<close>)
  then obtain x len where x: "merge_words y (2 ^ (l + k)) 0 ?mx = Inr x" "?mx \<le> len"
    "merge_mid L x k fls l C (4 * len)" "merge_frame y x" "alloc_blocks x = alloc_blocks y" by blast
  let ?z' = "x\<lparr>merge_status := MERGE_FREELIST_COMPLETED\<rparr>"
  have "do_merge z l = Inr ?z'"
  proof -
    have "do_merge z l = rbind (merge_words y (2 ^ (l + k)) 0 ?mx)
        (\<lambda>z. Inr (z\<lparr>merge_status := MERGE_FREELIST_COMPLETED\<rparr>))"
      using st size by (simp only: do_merge_def Let_def y_def simp_thms if_False) simp
    then show ?thesis using x(1) by simp
  qed
  moreover have "\<forall>c\<in>C. c < 2 * (4 * len)" using words_cover [OF M(1) l Clt x(2)] by simp
  moreover have "zone_rep ?z' fls B \<longleftrightarrow> zone_rep x fls B" for B
    using zone_rep_frame(1) [of x fls B ?z'] zone_rep_frame(1) [of ?z' fls B x] by (auto simp: same_geom_def)
  then have "merge_mid L ?z' k fls l C (4 * len)"
    using x(3) by (simp add: merge_mid_def zone_geom_def)
  moreover have "alloc_blocks ?z' = alloc_blocks z"
    using x(5) aly by (simp add: alloc_blocks_def)
  moreover have "drain_frame z (?z'\<lparr>merge_status := merge_status z\<rparr>)" "free_list ?z' = free_list z"
  proof -
    from x(4) obtain e a b where "x = y\<lparr>zentries := e, post_merge_level := a, post_merge_next_level := b\<rparr>"
      by (auto simp: merge_frame_def)
    then show "drain_frame z (?z'\<lparr>merge_status := merge_status z\<rparr>)" "free_list ?z' = free_list z"
      by (auto simp: y_def intro!: drain_frameI [where e = e and f = "free_list z" and a = a and b = b])
  qed
  ultimately show ?thesis by (intro exI [of _ ?z'] exI [of _ "4 * len"]) simp
qed

end
