(* ===== verification/Zone_Merge_Level.thy ===== *)
theory Zone_Merge_Level
  imports Zone_Merge_Correct
begin

text \<open>
  Merging one level, stage by stage, and all levels. A stage is what the zone looks like when
  one of the numbered steps of \<open>merge\<close> is done, so the lemmas serve the uninterrupted merge and
  the recovery of one that stopped. \<open>L\<close> are blocks that an earlier crash lost; a merge leaves
  them alone.
\<close>

section \<open>The chunks of a level after the walk\<close>

lemma even_chunk: "2 ^ Suc l dvd c * 2 ^ l \<longleftrightarrow> even (c :: nat)"
  by simp

lemma unit_buddy_chunk: "unit_buddy l (c * 2 ^ l) = cbuddy c * 2 ^ l"
  unfolding unit_buddy_def even_chunk cbuddy_def by (simp add: diff_mult_distrib add_mult_distrib)

text \<open>What the walk makes of the chunks \<open>U\<close> of level \<open>l\<close>: single chunks \<open>pm\<close> and joined pairs \<open>nx\<close>.\<close>

definition split_lists :: "nat \<Rightarrow> nat set \<Rightarrow> nat list \<Rightarrow> nat list \<Rightarrow> bool" where
  "split_lists l U nx pm \<longleftrightarrow> set pm = {u \<in> U. unit_buddy l u \<notin> U} \<and>
     set nx = {u \<in> U. 2 ^ Suc l dvd u \<and> u + 2 ^ l \<in> U}"

definition merged_lists :: "nat \<Rightarrow> (nat \<Rightarrow> nat list) \<Rightarrow> (nat \<Rightarrow> nat list) \<Rightarrow> bool" where
  "merged_lists l f f' \<longleftrightarrow>
     set (f' l) = {u \<in> set (f l). unit_buddy l u \<notin> set (f l)} \<and>
     set (f' (Suc l)) = set (f (Suc l)) \<union> {u \<in> set (f l). 2 ^ Suc l dvd u \<and> u + 2 ^ l \<in> set (f l)} \<and>
     (\<forall>j. j \<noteq> l \<and> j \<noteq> Suc l \<longrightarrow> f' j = f j)"

lemma side_lists:
  assumes U: "\<And>u. u \<in> U \<Longrightarrow> 2 ^ l dvd u" and C: "C = (\<lambda>u. u div 2 ^ l) ` U"
    and p: "\<And>c. c \<in> C \<Longrightarrow> c < 2 * p"
    and nx: "set nx = (\<lambda>c. c * 2 ^ l) ` joined C p" and pm: "set pm = (\<lambda>c. c * 2 ^ l) ` single C p"
  shows "split_lists l U nx pm"
proof -
  have inC: "c \<in> C \<longleftrightarrow> c * 2 ^ l \<in> U" for c
    unfolding C image_iff using U by (metis dvd_div_mult_self dvd_triv_right nonzero_mult_div_cancel_right
        power_not_zero zero_neq_numeral)
  have ex: "u \<in> U \<Longrightarrow> \<exists>c. u = c * 2 ^ l" for u using U by (metis dvd_def mult.commute)
  have "set pm = {u \<in> U. unit_buddy l u \<notin> U}"
  proof (intro set_eqI iffI)
    fix u
    assume "u \<in> set pm"
    then show "u \<in> {u \<in> U. unit_buddy l u \<notin> U}"
      unfolding pm by (auto simp: single_def inC unit_buddy_chunk)
  next
    fix u
    assume u: "u \<in> {u \<in> U. unit_buddy l u \<notin> U}"
    with ex obtain c where c: "u = c * 2 ^ l" by blast
    then have "c \<in> single C p" using u p by (simp add: single_def inC unit_buddy_chunk)
    with c show "u \<in> set pm" unfolding pm by blast
  qed
  moreover have "set nx = {u \<in> U. 2 ^ Suc l dvd u \<and> u + 2 ^ l \<in> U}"
  proof (intro set_eqI iffI)
    fix u
    assume "u \<in> set nx"
    then show "u \<in> {u \<in> U. 2 ^ Suc l dvd u \<and> u + 2 ^ l \<in> U}"
      unfolding nx by (auto simp: joined_def inC add_mult_distrib add.commute)
  next
    fix u
    assume u: "u \<in> {u \<in> U. 2 ^ Suc l dvd u \<and> u + 2 ^ l \<in> U}"
    with ex obtain c where c: "u = c * 2 ^ l" by blast
    then have "c \<in> joined C p"
      using u p even_chunk [of l c] by (simp add: joined_def inC add.commute del: power_Suc)
    with c show "u \<in> set nx" unfolding nx by blast
  qed
  ultimately show ?thesis by (auto simp: split_lists_def)
qed

section \<open>Stages of a merge\<close>

text \<open>What no step of a merge changes.\<close>

definition merge_kept :: "zone \<Rightarrow> zone \<Rightarrow> bool" where
  "merge_kept z z' \<longleftrightarrow> same_geom z z' \<and> merge_area z' = merge_area z \<and> merge_in_progress z' = merge_in_progress z \<and>
     grow_in_progress z' = grow_in_progress z \<and> growable z' = growable z \<and> shelf z' = shelf z \<and>
     alloc_blocks z' = alloc_blocks z"

lemma merge_kept_refl [simp]: "merge_kept z z"
  by (simp add: merge_kept_def)

lemma merge_kept_trans: "merge_kept x y \<Longrightarrow> merge_kept y z \<Longrightarrow> merge_kept x z"
  by (auto simp: merge_kept_def intro: same_geom_trans)

lemma merge_keptD:
  assumes "merge_kept z z'"
  shows "zone_geom z k \<Longrightarrow> zone_geom z' k" "bitmap_fits z' = bitmap_fits z" "max_zone_level z' = max_zone_level z"
    "current_zone_level z' = current_zone_level z" "alloc_blocks z' = alloc_blocks z" "min_obj_size z' = min_obj_size z"
    "same_geom z z'" "shelf z' = shelf z" "merge_in_progress z' = merge_in_progress z"
    "grow_in_progress z' = grow_in_progress z" "growable z' = growable z"
  using assms same_geom_geom by (auto simp: merge_kept_def bitmap_fits_def same_geom_def)

lemma merge_kept_drain: "drain_frame z z' \<Longrightarrow> alloc_blocks z' = alloc_blocks z \<Longrightarrow> merge_kept z z'"
  by (simp add: merge_kept_def drain_frame_fields)

text \<open>Changing only the fields of the merge itself.\<close>

lemma merge_kept_fields:
  assumes "z' = z\<lparr>merge_bitmap := bm, safe_copy := sc, current_merge_level := cl, merge_status := st\<rparr>"
  shows "merge_kept z z'" "zone_rep z f X \<Longrightarrow> zone_rep z' f X"
  using zone_rep_frame [of z f X z'] assms
  by (simp_all add: merge_kept_def same_geom_def merge_area_def growable_def alloc_blocks_def)

definition held_stage :: "block set \<Rightarrow> zone \<Rightarrow> nat \<Rightarrow> nat \<Rightarrow> (nat \<Rightarrow> nat list) \<Rightarrow> nat list \<Rightarrow> bool" where
  "held_stage L z k l f us \<longleftrightarrow> zone_geom z k \<and> bitmap_fits z \<and> l < max_zone_level z \<and>
     L \<inter> {l} \<times> set us = {} \<and> zone_rep z f ({l} \<times> set us \<union> L) \<and> current_merge_level z = int l"

definition stage_swapped :: "block set \<Rightarrow> zone \<Rightarrow> nat \<Rightarrow> nat \<Rightarrow> (nat \<Rightarrow> nat list) \<Rightarrow> nat list \<Rightarrow> bool" where
  "stage_swapped L z k l f us \<longleftrightarrow> held_stage L z k l f us \<and> merge_status z = MERGE_SWAP_COMPLETED \<and>
     chain (zentries z) (head (safe_copy z)) us"

definition stage_bitmap :: "block set \<Rightarrow> zone \<Rightarrow> nat \<Rightarrow> nat \<Rightarrow> (nat \<Rightarrow> nat list) \<Rightarrow> nat list \<Rightarrow> bool" where
  "stage_bitmap L z k l f us \<longleftrightarrow> held_stage L z k l f us \<and> merge_status z = MERGE_BITMAP_COMPLETED \<and>
     (\<forall>n < 2 ^ max_zone_level z. bm_bit (merge_bitmap z) n \<longleftrightarrow> n \<in> (\<lambda>u. u div 2 ^ l) ` set us)"

definition stage_lists :: "block set \<Rightarrow> zone \<Rightarrow> nat \<Rightarrow> nat \<Rightarrow> (nat \<Rightarrow> nat list) \<Rightarrow> nat list \<Rightarrow> nat list \<Rightarrow> bool" where
  "stage_lists L z k l f nx pm \<longleftrightarrow> zone_geom z k \<and> bitmap_fits z \<and>
     L \<inter> ({l} \<times> set pm \<union> {Suc l} \<times> set nx) = {} \<and> zone_rep z f ({l} \<times> set pm \<union> {Suc l} \<times> set nx \<union> L) \<and>
     current_merge_level z = int l \<and> merge_status z = MERGE_FREELIST_COMPLETED \<and> set nx \<inter> set pm = {} \<and>
     zes_holds (zentries z) (post_merge_next_level z) nx \<and> zes_holds (zentries z) (post_merge_level z) pm"

definition stage_done :: "block set \<Rightarrow> zone \<Rightarrow> nat \<Rightarrow> (nat \<Rightarrow> nat list) \<Rightarrow> bool" where
  "stage_done L z k f \<longleftrightarrow> zone_geom z k \<and> bitmap_fits z \<and> zone_rep z f L \<and> merge_status z = MERGE_DEFAULT"

text \<open>Steps 2 to 4.\<close>

lemma swap_stage:
  assumes "stage_done L z k f" "l < max_zone_level z"
  shows "\<exists>z'. swap_freelist z l = Inr z' \<and> stage_swapped L z' k l (f(l := [])) (f l) \<and> merge_kept z z'"
proof -
  from assms have z: "zone_geom z k" "bitmap_fits z" "zone_rep z f L" "merge_status z = MERGE_DEFAULT"
    by (simp_all add: stage_done_def)
  define z' where "z' = z\<lparr>current_merge_level := int l, safe_copy := (safe_copy z)\<lparr>head := head (free_list z l)\<rparr>,
    free_list := (free_list z)(l := (free_list z l)\<lparr>head := 0\<rparr>), merge_status := MERGE_SWAP_COMPLETED\<rparr>"
  have swap: "swap_freelist z l = Inr z'"
    using z(4) assms(2) by (simp add: swap_freelist_def z'_def)
  have "zone_rep z' (f(l := [])) (L \<union> {l} \<times> set (f l))" "alloc_blocks z' = alloc_blocks z"
    using take_list [OF z(3), of z' l] by (simp_all add: z'_def same_geom_def)
  then have r: "zone_rep z' (f(l := [])) ({l} \<times> set (f l) \<union> L)" "alloc_blocks z' = alloc_blocks z"
    by (simp_all add: Un_commute)
  have kept: "merge_kept z z'"
    using r(2) by (simp add: merge_kept_def z'_def same_geom_def merge_area_def growable_def)
  have "{l} \<times> set (f l) \<subseteq> free_blocks z f"
    using zone_repD(2) [OF z(3), of l] by (cases "l \<le> current_zone_level z") (auto simp: free_blocks_def)
  then have "L \<inter> {l} \<times> set (f l) = {}" using zone_repD(7) [OF z(3)] by blast
  moreover have "chain (zentries z') (head (safe_copy z')) (f l)"
    using zone_repD(1) [OF z(3), of l] assms(2) by (simp add: z'_def zes_holds_def)
  ultimately have "stage_swapped L z' k l (f(l := [])) (f l)"
    using r z merge_keptD [OF kept] assms(2)
    by (simp add: stage_swapped_def held_stage_def) (simp add: z'_def)
  with swap kept show ?thesis by blast
qed

lemma held_units:
  assumes "held_stage L z k l f us" "u \<in> set us"
  shows "u < 2 ^ current_zone_level z" "2 ^ l dvd u" "u div 2 ^ l < 2 ^ max_zone_level z"
proof -
  from assms have z: "zone_geom z k" "zone_rep z f ({l} \<times> set us \<union> L)" "(l, u) \<in> {l} \<times> set us \<union> L"
    by (auto simp: held_stage_def)
  show u: "u < 2 ^ current_zone_level z" by (rule held_bounds(1) [OF z(2,1,3)])
  show "2 ^ l dvd u" using zone_repD(6) [OF z(2), of l u] z(3) by (simp add: blocks_of_def)
  show "u div 2 ^ l < 2 ^ max_zone_level z"
    using geom_unit_lt(5) [OF z(1) u] by (meson div_le_dividend le_less_trans)
qed

text \<open>Steps 5 and 6; the old content of the merge bitmap does not matter.\<close>

lemma bitmap_stage:
  assumes "stage_swapped L z k l f us"
  shows "\<exists>z'. create_merge_bitmap z l = Some (Inr z') \<and> stage_bitmap L z' k l f us \<and> merge_kept z z' \<and>
    stage_swapped L (z'\<lparr>merge_status := MERGE_SWAP_COMPLETED\<rparr>) k l f us"
proof -
  from assms have h: "held_stage L z k l f us" and st: "merge_status z = MERGE_SWAP_COMPLETED"
    and ch: "chain (zentries z) (head (safe_copy z)) us" by (simp_all add: stage_swapped_def)
  from h have z: "zone_geom z k" "bitmap_fits z" "l < max_zone_level z" by (simp_all add: held_stage_def)
  from clear_merge_bitmap_spec [OF z(2,1)] obtain bm where
    bm: "clear_merge_bitmap z = Inr (z\<lparr>merge_bitmap := bm\<rparr>)" "\<And>n. n < 2 ^ max_zone_level z \<Longrightarrow> \<not> bm_bit bm n" by blast
  let ?y = "z\<lparr>merge_bitmap := bm\<rparr>"
  have gy: "zone_geom ?y k" "bitmap_fits ?y"
    using z by (simp_all add: zone_geom_def bitmap_fits_def merge_area_def)
  have "\<exists>bm'. bitmap_walk ?y (2 ^ (l + k)) (head (safe_copy z)) = Some (Inr (?y\<lparr>merge_bitmap := bm'\<rparr>)) \<and>
    (\<forall>m. bm_bit bm' m \<longleftrightarrow> (\<exists>u\<in>set us. m = u div 2 ^ l) \<or> bm_bit (merge_bitmap ?y) m)"
    by (rule bitmap_walk_spec [OF _ gy]) (use ch held_units [OF h] bm(2) z(3) chain_distinct [OF ch] in simp_all)
  then obtain bm' where walk: "bitmap_walk ?y (2 ^ (l + k)) (head (safe_copy z)) = Some (Inr (?y\<lparr>merge_bitmap := bm'\<rparr>))"
    and bits: "\<And>m. bm_bit bm' m \<longleftrightarrow> (\<exists>u\<in>set us. m = u div 2 ^ l) \<or> bm_bit bm m" by auto
  have size: "find_size_from_level (of_nat l) (min_obj_size z) = 2 ^ (l + k)"
    using z by (simp add: zone_geom_def find_size_of_level)
  let ?z = "z\<lparr>merge_bitmap := bm', merge_status := MERGE_BITMAP_COMPLETED\<rparr>"
  have create: "create_merge_bitmap z l = Some (Inr ?z)"
    using st bm(1) walk size by (simp add: create_merge_bitmap_def)
  have ks: "merge_kept z (z\<lparr>merge_bitmap := bm', merge_status := s\<rparr>)"
    "zone_rep z f X \<Longrightarrow> zone_rep (z\<lparr>merge_bitmap := bm', merge_status := s\<rparr>) f X" for s X
    using merge_kept_fields [where z = z and z' = "z\<lparr>merge_bitmap := bm', merge_status := s\<rparr>" and bm = bm' and
      sc = "safe_copy z" and cl = "current_merge_level z" and st = s]
    by simp_all
  have hs: "held_stage L (z\<lparr>merge_bitmap := bm', merge_status := s\<rparr>) k l f us" for s
    using h ks(2) merge_keptD [OF ks(1) [of s]] by (simp add: held_stage_def)
  have b: "\<forall>n < 2 ^ max_zone_level ?z. bm_bit (merge_bitmap ?z) n \<longleftrightarrow> n \<in> (\<lambda>u. u div 2 ^ l) ` set us"
    using bits bm(2) by auto
  have "stage_bitmap L ?z k l f us"
    unfolding stage_bitmap_def using b hs [of MERGE_BITMAP_COMPLETED] by simp
  moreover have "stage_swapped L (?z\<lparr>merge_status := MERGE_SWAP_COMPLETED\<rparr>) k l f us"
    unfolding stage_swapped_def using hs [of MERGE_SWAP_COMPLETED] ch by simp
  ultimately show ?thesis using create ks(1) by blast
qed

lemma stage_apart:
  assumes "held_stage L z k l f us"
  shows "apart L l ((\<lambda>u. u div 2 ^ l) ` set us)"
  unfolding apart_def
proof (intro ballI)
  fix b c
  assume b: "b \<in> L" and c: "c \<in> (\<lambda>u. u div 2 ^ l) ` set us"
  from c obtain u where u: "u \<in> set us" "c = u div 2 ^ l" by blast
  then have e: "c * 2 ^ l = u" using held_units(2) [OF assms] by (metis dvd_div_mult_self)
  from assms have r: "zone_rep z f ({l} \<times> set us \<union> L)" "L \<inter> {l} \<times> set us = {}" by (simp_all add: held_stage_def)
  have "b \<in> blocks_of z f ({l} \<times> set us \<union> L)" "(l, u) \<in> blocks_of z f ({l} \<times> set us \<union> L)"
    using b u by (simp_all add: blocks_of_def)
  from rep_unique [OF r(1) this, of u] r(2) b u show "c * 2 ^ l \<notin> span b" unfolding e by auto
qed

text \<open>Steps 7 and 8. Stopped after some words, the zone still is at the stage before.\<close>

lemma mid_unsplit: "zone_rep z f (mid_blocks l C p \<union> L) \<Longrightarrow> apart L l C \<Longrightarrow> zone_rep z f (mid_blocks l C 0 \<union> L)"
proof (induction p)
  case (Suc p)
  have "zone_rep z f (mid_blocks l C p \<union> L)"
  proof (cases "2 * p \<in> C \<and> 2 * p + 1 \<in> C")
    case True
    let ?u = "2 * p * 2 ^ l"
    note j = mid_blocks_joined(1-3) [OF conjunct1 [OF True] conjunct2 [OF True], of l]
    have "(Suc l, ?u) \<notin> L" using Suc.prems(2) True by (fastforce simp: apart_def)
    moreover have "(Suc l, ?u) \<notin> mid_blocks l C p" by (auto simp: mid_blocks_def joined_def)
    ultimately have e: "(mid_blocks l C (Suc p) \<union> L - {(Suc l, ?u)}) \<union> {(l, ?u), (l, ?u + 2 ^ l)} = mid_blocks l C p \<union> L"
      using j(2,3) unfolding j(1) by blast
    show ?thesis using split_held [OF Suc.prems(1), of l ?u] unfolding e by (simp add: j(1))
  next
    case False
    then have "mid_blocks l C (Suc p) = mid_blocks l C p"
      using mid_blocks_skip [of p C l] mid_blocks_single(1) [of "2 * p" C p l] mid_blocks_single(1) [of "2 * p + 1" C p l] by blast
    then show ?thesis using Suc.prems(1) by simp
  qed
  then show ?case using Suc by blast
qed simp

lemma words_stage:
  assumes "stage_bitmap L z k l f us" "n \<le> 2 ^ max_zone_level z div 8"
  shows "\<exists>z'. merge_words (z\<lparr>post_merge_level := (post_merge_level z)\<lparr>head := 0\<rparr>,
      post_merge_next_level := (post_merge_next_level z)\<lparr>head := 0\<rparr>\<rparr>) (2 ^ (l + k)) 0 n = Inr z' \<and>
    stage_bitmap L z' k l f us \<and> merge_kept z z'"
proof -
  let ?C = "(\<lambda>u. u div 2 ^ l) ` set us"
  define y where "y = z\<lparr>post_merge_level := (post_merge_level z)\<lparr>head := 0\<rparr>,
    post_merge_next_level := (post_merge_next_level z)\<lparr>head := 0\<rparr>\<rparr>"
  from assms(1) have h: "held_stage L z k l f us" and st: "merge_status z = MERGE_BITMAP_COMPLETED"
    and bits: "\<And>n. n < 2 ^ max_zone_level z \<Longrightarrow> bm_bit (merge_bitmap z) n \<longleftrightarrow> n \<in> ?C" by (simp_all add: stage_bitmap_def)
  from h have z: "zone_geom z k" "bitmap_fits z" "zone_rep z f ({l} \<times> set us \<union> L)" by (simp_all add: held_stage_def)
  have X: "mid_blocks l ?C 0 = {l} \<times> set us"
    using held_units(2) [OF h] by (force simp: mid_blocks_def joined_def single_def)
  have "zone_rep y f ({l} \<times> set us \<union> L)" "alloc_blocks y = alloc_blocks z"
    using zone_rep_frame [OF z(3), of y] by (simp_all add: y_def same_geom_def)
  moreover have gy: "zone_geom y k" "bitmap_fits y"
    using z by (simp_all add: y_def zone_geom_def bitmap_fits_def merge_area_def)
  ultimately have mid: "merge_mid L y k f l ?C (4 * 0)" and aly: "alloc_blocks y = alloc_blocks z"
    unfolding merge_mid_def using stage_apart [OF h] by (simp_all add: X joined_def single_def zes_holds_def y_def)
  have "\<exists>z' len'. merge_words y (2 ^ (l + k)) 0 n = Inr z' \<and> n \<le> len' \<and>
    merge_mid L z' k f l ?C (4 * len') \<and> merge_frame y z' \<and> alloc_blocks z' = alloc_blocks y"
    by (rule merge_words_spec [OF mid _ gy(2)]) (use bits assms(2) in \<open>simp_all add: y_def\<close>)
  then obtain x len where x: "merge_words y (2 ^ (l + k)) 0 n = Inr x" "merge_mid L x k f l ?C (4 * len)"
    "merge_frame y x" "alloc_blocks x = alloc_blocks y" by blast
  from x(3) obtain e a b where xe: "x = y\<lparr>zentries := e, post_merge_level := a, post_merge_next_level := b\<rparr>"
    by (auto simp: merge_frame_def)
  have "drain_frame z x"
    unfolding xe y_def by (rule drain_frameI [where e = e and f = "free_list z" and a = a and b = b]) simp
  then have kept: "merge_kept z x" by (rule merge_kept_drain) (simp add: x(4) aly)
  have r: "zone_rep x f ({l} \<times> set us \<union> L)"
    using mid_unsplit [of x f l ?C "4 * len" L] x(2) unfolding X merge_mid_def by blast
  have "held_stage L x k l f us"
    using h r merge_keptD [OF kept] by (simp add: held_stage_def) (simp add: xe y_def)
  then have "stage_bitmap L x k l f us"
    unfolding stage_bitmap_def using st bits merge_keptD(3) [OF kept] by (simp add: xe y_def)
  with x(1) kept show ?thesis unfolding y_def by blast
qed

lemma lists_stage:
  assumes "stage_bitmap L z k l f us"
  shows "\<exists>z' nx pm. do_merge z l = Inr z' \<and> stage_lists L z' k l f nx pm \<and> merge_kept z z' \<and>
    split_lists l (set us) nx pm"
proof -
  let ?C = "(\<lambda>u. u div 2 ^ l) ` set us"
  from assms have h: "held_stage L z k l f us" and st: "merge_status z = MERGE_BITMAP_COMPLETED"
    and bits: "\<And>n. n < 2 ^ max_zone_level z \<Longrightarrow> bm_bit (merge_bitmap z) n \<longleftrightarrow> n \<in> ?C" by (simp_all add: stage_bitmap_def)
  from h have z: "zone_geom z k" "bitmap_fits z" "zone_rep z f ({l} \<times> set us \<union> L)" "l < max_zone_level z"
    "current_merge_level z = int l" by (simp_all add: held_stage_def)
  from do_merge_spec [OF z(3) stage_apart [OF h] z(1,2,4) st refl bits] obtain z' p where
    z': "do_merge z l = Inr z'" "merge_mid L z' k f l ?C p" "\<And>c. c \<in> ?C \<Longrightarrow> c < 2 * p"
      "alloc_blocks z' = alloc_blocks z" "drain_frame z (z'\<lparr>merge_status := merge_status z\<rparr>)"
      "merge_status z' = MERGE_FREELIST_COMPLETED" by blast
  from z'(2) obtain nx pm where g: "zone_geom z' k" and ap: "apart L l ?C" and r: "zone_rep z' f (mid_blocks l ?C p \<union> L)"
    and nx: "zes_holds (zentries z') (post_merge_next_level z') nx" "set nx = (\<lambda>c. c * 2 ^ l) ` joined ?C p"
    and pm: "zes_holds (zentries z') (post_merge_level z') pm" "set pm = (\<lambda>c. c * 2 ^ l) ` single ?C p"
    unfolding merge_mid_def by blast
  have "{c \<in> ?C. 2 * p \<le> c} = {}" using z'(3) by force
  then have mb: "mid_blocks l ?C p = {l} \<times> set pm \<union> {Suc l} \<times> set nx"
    unfolding mid_blocks_def nx(2) pm(2) by (simp only: Un_empty_left) blast
  have disj: "set nx \<inter> set pm = {}"
    unfolding nx(2) pm(2) by (auto simp: joined_def single_def cbuddy_def)
  have "\<forall>c\<in>?C. (j, c * 2 ^ l) \<notin> L" for j using ap by (fastforce simp: apart_def)
  then have L: "L \<inter> ({l} \<times> set pm \<union> {Suc l} \<times> set nx) = {}"
    unfolding nx(2) pm(2) by (auto simp: joined_def single_def)
  have "drain_frame z (z'\<lparr>merge_status := merge_status z\<rparr>)" by fact
  then have f: "current_merge_level z' = current_merge_level z" "merge_kept z z'"
    using drain_frame_fields [OF z'(5)] z'(4)
    by (simp_all add: merge_kept_def same_geom_def merge_area_def growable_def)
  have "stage_lists L z' k l f nx pm"
    unfolding stage_lists_def using g r nx(1) pm(1) disj L z'(6) f(1) z(5) merge_keptD(2) [OF f(2)] z(2) by (simp add: mb)
  moreover have "split_lists l (set us) nx pm"
    by (rule side_lists [where C = ?C and p = p]) (use held_units(2) [OF h] z'(3) nx(2) pm(2) in blast)+
  ultimately show ?thesis using z'(1) f(2) by blast
qed

text \<open>Step 9 in two parts, and step 10.\<close>

lemma drain_stage:
  assumes "stage_lists L z k l f nx pm"
  shows "\<exists>z'. drain_next_level z l = Some (Inr z') \<and>
    stage_lists L z' k l (f(Suc l := rev nx @ f (Suc l))) [] pm \<and> merge_kept z z'"
proof -
  let ?X = "{l} \<times> set pm \<union> {Suc l} \<times> set nx \<union> L"
  from assms have z: "zone_geom z k" "bitmap_fits z" "L \<inter> ({l} \<times> set pm \<union> {Suc l} \<times> set nx) = {}"
    "zone_rep z f ?X" "set nx \<inter> set pm = {}" "zes_holds (zentries z) (post_merge_next_level z) nx"
    "zes_holds (zentries z) (post_merge_level z) pm" by (simp_all add: stage_lists_def)
  have "{Suc l} \<times> set nx \<subseteq> ?X" by blast
  from drain_next_spec [OF z(6,7,5,4,1) this] obtain z' where
    z': "drain_next_level z l = Some (Inr z')" "alloc_blocks z' = alloc_blocks z"
      "zone_rep z' (f(Suc l := rev nx @ f (Suc l))) (?X - {Suc l} \<times> set nx)"
      "zes_holds (zentries z') (post_merge_level z') pm" "zes_holds (zentries z') (post_merge_next_level z') []"
      "drain_frame z z'" by blast
  note kept = merge_kept_drain [OF z'(6,2)] and fr = drain_frame_fields [OF z'(6)]
  have X: "?X - {Suc l} \<times> set nx = {l} \<times> set pm \<union> L" using z(3) by auto
  have "stage_lists L z' k l (f(Suc l := rev nx @ f (Suc l))) [] pm"
    using assms z'(3,4,5) z(3) merge_keptD(1,2) [OF kept] fr unfolding X by (simp add: stage_lists_def) blast
  with z'(1) kept show ?thesis by blast
qed

lemma finish_stage:
  assumes "stage_lists L z k l f nx pm"
  shows "\<exists>z'. finish_merge z l = Some (Inr z') \<and> merge_kept z z' \<and> current_merge_level z' = -1 \<and>
    head (safe_copy z') = 0 \<and>
    stage_done L z' k (f(Suc l := rev nx @ f (Suc l), l := rev pm @ f l))"
proof -
  let ?f = "f(Suc l := rev nx @ f (Suc l))" and ?X = "{l} \<times> set pm \<union> L"
  from drain_stage [OF assms] obtain y where
    y: "drain_next_level z l = Some (Inr y)" "stage_lists L y k l ?f [] pm" "merge_kept z y" by blast
  from y(2) have s: "zone_geom y k" "bitmap_fits y" "L \<inter> {l} \<times> set pm = {}" "zone_rep y ?f ?X"
    "zes_holds (zentries y) (post_merge_level y) pm" "current_merge_level y = int l"
    "merge_status y = MERGE_FREELIST_COMPLETED" by (simp_all add: stage_lists_def)
  from drain_post_spec [OF s(5,4,1) Un_upper1] obtain x where
    x: "drain_post_level y l = Some (Inr x)" "alloc_blocks x = alloc_blocks y"
      "zone_rep x (?f(l := rev pm @ ?f l)) (?X - {l} \<times> set pm)" "drain_frame y x" by blast
  note kx = merge_kept_drain [OF x(4,2)] and fr = drain_frame_fields [OF x(4)]
  have X: "?X - {l} \<times> set pm = L" using s(3) by blast
  from clear_merge_bitmap_spec [of x k] merge_keptD(1,2) [OF kx] s(1,2) obtain bm where
    bm: "clear_merge_bitmap x = Inr (x\<lparr>merge_bitmap := bm\<rparr>)" by blast
  let ?z = "x\<lparr>merge_bitmap := bm, safe_copy := (safe_copy x)\<lparr>head := 0\<rparr>, current_merge_level := -1, merge_status := MERGE_DEFAULT\<rparr>"
  have "end_merge x l = Inr ?z"
    using bm fr s(6,7) by (simp add: end_merge_def)
  then have "finish_merge z l = Some (Inr ?z)" using y(1) x(1) by (simp add: finish_merge_def)
  moreover have kz: "merge_kept x ?z" "zone_rep x g B \<Longrightarrow> zone_rep ?z g B" for g B
    using merge_kept_fields [where z = x and z' = ?z and bm = bm and sc = "(safe_copy x)\<lparr>head := 0\<rparr>" and cl = "-1" and
      st = MERGE_DEFAULT] by simp_all
  moreover note K = merge_kept_trans [OF y(3) merge_kept_trans [OF kx kz(1)]]
  moreover have "stage_done L ?z k (?f(l := rev pm @ f l))"
    using x(3) kz(2) s(1,2) merge_keptD(1,2) [OF merge_kept_trans [OF kx kz(1)]] unfolding X by (simp add: stage_done_def)
  ultimately show ?thesis by (intro exI [of _ ?z]) simp
qed

text \<open>The header fields that tell a recovery how far a merge went.\<close>

definition no_merge_trace :: "zone \<Rightarrow> bool" where
  "no_merge_trace z \<longleftrightarrow> current_merge_level z = -1 \<and> head (safe_copy z) = 0"

text \<open>From any stage on to the end.\<close>

lemma from_bitmap:
  assumes "stage_bitmap L z k l f us"
  shows "\<exists>y z' nx pm. do_merge z l = Inr y \<and> finish_merge y l = Some (Inr z') \<and> merge_kept z z' \<and>
    no_merge_trace z' \<and> split_lists l (set us) nx pm \<and>
    merge_status y = MERGE_FREELIST_COMPLETED \<and> stage_done L z' k (f(Suc l := rev nx @ f (Suc l), l := rev pm @ f l))"
proof -
  from lists_stage [OF assms] obtain y nx pm where y: "do_merge z l = Inr y" "stage_lists L y k l f nx pm"
    "merge_kept z y" "split_lists l (set us) nx pm" by blast
  from finish_stage [OF y(2)] obtain z' where z': "finish_merge y l = Some (Inr z')" "merge_kept y z'"
    "current_merge_level z' = -1" "head (safe_copy z') = 0" "stage_done L z' k (f(Suc l := rev nx @ f (Suc l), l := rev pm @ f l))" by blast
  moreover have "merge_status y = MERGE_FREELIST_COMPLETED" using y(2) by (simp add: stage_lists_def)
  ultimately show ?thesis using y(1,4) merge_kept_trans [OF y(3) z'(2)] unfolding no_merge_trace_def by blast
qed

text \<open>All of \<open>merge (level)\<close>.\<close>

lemma merge_level_spec:
  assumes rep: "zone_rep z f L" and geom: "zone_geom z k" and fits: "bitmap_fits z"
    and l: "l < max_zone_level z" and idle: "merge_idle z"
  shows "\<exists>z' f'. merge_level z l = Some (Inr (True, z')) \<and> zone_rep z' f' L \<and>
    alloc_blocks z' = alloc_blocks z \<and> merged_lists l f f' \<and> merge_idle z' \<and> no_merge_trace z' \<and> same_geom z z' \<and>
    bitmap_fits z' \<and> grow_in_progress z' = grow_in_progress z \<and> growable z' = growable z \<and> shelf z' = shelf z"
proof -
  let ?z = "z\<lparr>merge_in_progress := 1\<rparr>" and ?f1 = "f(l := [])"
  have enter: "enter_merge z = (True, ?z)" and nip: "\<not> is_merge_in_progress z"
    using idle by (simp_all add: enter_merge_def merge_idle_def is_merge_in_progress_def)
  have "stage_done L ?z k f" "l < max_zone_level ?z"
    using rep geom fits idle l zone_rep_frame(1) [OF rep, of ?z]
    by (simp_all add: stage_done_def zone_geom_def bitmap_fits_def merge_area_def merge_idle_def same_geom_def)
  from swap_stage [OF this] obtain z1 where z1: "swap_freelist ?z l = Inr z1"
    "stage_swapped L z1 k l ?f1 (f l)" "merge_kept ?z z1" by blast
  from bitmap_stage [OF z1(2)] obtain z2 where z2: "create_merge_bitmap z1 l = Some (Inr z2)"
    "stage_bitmap L z2 k l ?f1 (f l)" "merge_kept z1 z2" by blast
  from from_bitmap [OF z2(2)] obtain z3 z4 nx pm where z4: "do_merge z2 l = Inr z3" "finish_merge z3 l = Some (Inr z4)"
    "merge_kept z2 z4" "no_merge_trace z4" "split_lists l (set (f l)) nx pm"
    "stage_done L z4 k (?f1(Suc l := rev nx @ ?f1 (Suc l), l := rev pm @ ?f1 l))" by blast
  let ?z' = "z4\<lparr>merge_in_progress := 0\<rparr>" and ?f' = "f(l := rev pm, Suc l := rev nx @ f (Suc l))"
  have f': "?f1(Suc l := rev nx @ ?f1 (Suc l), l := rev pm @ ?f1 l) = ?f'" by (rule ext) simp
  note K = merge_keptD [OF merge_kept_trans [OF z1(3) merge_kept_trans [OF z2(3) z4(3)]]]
  have s4: "zone_rep z4 ?f' L" "merge_status z4 = MERGE_DEFAULT" "bitmap_fits z4"
    using z4(6) unfolding f' by (simp_all add: stage_done_def)
  have mip: "merge_in_progress z4 = 1" using K(9) by simp
  have "merge_level z l = Some (Inr (True, ?z'))"
    using l nip enter z1(1) z2(1) z4(1,2) mip by (simp add: merge_level_def leave_merge_def)
  moreover have "zone_rep ?z' ?f' L" "alloc_blocks ?z' = alloc_blocks z"
    using zone_rep_frame [OF s4(1), of ?z'] K(5) by (simp_all add: same_geom_def alloc_blocks_def)
  moreover have "merged_lists l f ?f'" using z4(5) by (auto simp: merged_lists_def split_lists_def)
  moreover have "merge_idle ?z'" "no_merge_trace ?z'" "same_geom z ?z'" "bitmap_fits ?z'" "grow_in_progress ?z' = grow_in_progress z"
    "growable ?z' = growable z" "shelf ?z' = shelf z"
    using s4 K z4(4) by (simp_all add: merge_idle_def no_merge_trace_def same_geom_def bitmap_fits_def merge_area_def growable_def)
  ultimately show ?thesis by blast
qed

section \<open>Merging all levels\<close>

text \<open>The chunks on free list \<open>l\<close>, and a zone without a pair of free buddies.\<close>

definition free_units :: "zone \<Rightarrow> nat \<Rightarrow> nat set" where
  "free_units z l = {u. \<exists>us. zes_holds (zentries z) (free_list z l) us \<and> u \<in> set us}"

definition coalesced :: "zone \<Rightarrow> bool" where
  "coalesced z \<longleftrightarrow> (\<forall>l < current_zone_level z. \<forall>u \<in> free_units z l. unit_buddy l u \<notin> free_units z l)"

lemma free_units_eq:
  assumes "zone_rep z fls X" "l \<le> max_zone_level z"
  shows "free_units z l = set (fls l)"
  using zone_repD(1) [OF assms] chain_unique unfolding free_units_def zes_holds_def by blast

definition no_pairs :: "(nat \<Rightarrow> nat list) \<Rightarrow> nat \<Rightarrow> bool" where
  "no_pairs f l \<longleftrightarrow> (\<forall>u \<in> set (f l). unit_buddy l u \<notin> set (f l))"

lemma merged_lists_no_pairs:
  assumes "merged_lists l f f'"
  shows "no_pairs f' l" "j < l \<Longrightarrow> no_pairs f j \<Longrightarrow> no_pairs f' j"
  using assms by (auto simp: merged_lists_def no_pairs_def)

lemma merge_from_spec:
  assumes "zone_rep z fls L" "zone_geom z k" "bitmap_fits z" "merge_idle z" "c = current_zone_level z"
    "\<And>j. m \<le> j \<Longrightarrow> j < l \<Longrightarrow> no_pairs fls j"
  shows "\<exists>z' fls'. merge_from z l c = Some (Inr z') \<and> zone_rep z' fls' L \<and> alloc_blocks z' = alloc_blocks z \<and>
    (\<forall>j. m \<le> j \<and> j < c \<longrightarrow> no_pairs fls' j) \<and> merge_idle z' \<and> (no_merge_trace z \<or> l < c \<longrightarrow> no_merge_trace z') \<and> same_geom z z' \<and> bitmap_fits z' \<and>
    grow_in_progress z' = grow_in_progress z \<and> growable z' = growable z \<and> shelf z' = shelf z"
  using assms
proof (induction "c - l" arbitrary: z fls l rule: less_induct)
  case (less l z fls)
  show ?case
  proof (cases "l < c")
    case False
    then have "merge_from z l c = Some (Inr z)" by (simp add: merge_from.simps [of z])
    with less.prems False show ?thesis by (intro exI [of _ z] exI [of _ fls]) auto
  next
    case True
    have "l < max_zone_level z" using True less.prems(2,5) by (simp add: zone_geom_def)
    from merge_level_spec [OF less.prems(1-3) this less.prems(4)] obtain y f where
      y: "merge_level z l = Some (Inr (True, y))" "zone_rep y f L" "alloc_blocks y = alloc_blocks z"
      "merged_lists l fls f" "merge_idle y" "no_merge_trace y" "same_geom z y" "bitmap_fits y"
      "grow_in_progress y = grow_in_progress z" "growable y = growable z" "shelf y = shelf z" by blast
    have np: "no_pairs f j" if "m \<le> j" "j < Suc l" for j
      using merged_lists_no_pairs [OF y(4)] less.prems(6) that by (cases "j = l") simp_all
    have m: "c - Suc l < c - l" "c = current_zone_level y"
      using True less.prems(5) y(7) by (simp_all add: same_geom_def)
    from less.hyps [OF m(1) y(2) same_geom_geom [OF y(7) less.prems(2)] y(8,5) m(2) np] obtain z' fls' where
      z': "merge_from y (Suc l) c = Some (Inr z')" "zone_rep z' fls' L" "alloc_blocks z' = alloc_blocks y"
      "\<forall>j. m \<le> j \<and> j < c \<longrightarrow> no_pairs fls' j" "merge_idle z'" "no_merge_trace y \<or> Suc l < c \<longrightarrow> no_merge_trace z'" "same_geom y z'" "bitmap_fits z'"
      "grow_in_progress z' = grow_in_progress y" "growable z' = growable y" "shelf z' = shelf y" by blast
    have "merge_from z l c = Some (Inr z')"
      using True y(1) z'(1) by (simp add: merge_from.simps [of z])
    with z' y same_geom_trans [OF y(7) z'(7)] show ?thesis
      by (intro exI [of _ z'] exI [of _ fls']) simp
  qed
qed

text \<open>A zone on which \<open>merge\<close> may run.\<close>

definition merge_ready :: "zone \<Rightarrow> bool" where
  "merge_ready z \<longleftrightarrow> zone_ready z \<and> merge_idle z \<and> no_merge_trace z \<and> bitmap_fits z"

lemma zone_merge_spec:
  assumes "merge_ready z"
  shows "\<exists>z'. zone_merge z = Some (Inr z') \<and> merge_ready z' \<and> coalesced z' \<and>
    alloc_blocks z' = alloc_blocks z \<and> current_zone_level z' = current_zone_level z \<and>
    max_zone_level z' = max_zone_level z \<and> min_obj_size z' = min_obj_size z \<and> shelf z' = shelf z"
proof -
  from assms obtain k fls where z: "zone_geom z k" "zone_rep z fls {}"
    by (auto simp: merge_ready_def zone_ready_def zone_inv_def)
  from merge_from_spec [OF z(2,1) _ _ refl, of 0 0] assms obtain z' fls' where
    z': "merge_from z 0 (current_zone_level z) = Some (Inr z')" "zone_rep z' fls' {}" "alloc_blocks z' = alloc_blocks z"
    "\<And>j. j < current_zone_level z \<Longrightarrow> no_pairs fls' j" "merge_idle z'" "no_merge_trace z'" "same_geom z z'" "bitmap_fits z'"
    "grow_in_progress z' = grow_in_progress z" "growable z' = growable z" "shelf z' = shelf z"
    by (auto simp: merge_ready_def)
  have geom: "zone_geom z' k" by (rule same_geom_geom [OF z'(7) z(1)])
  have "coalesced z'"
    using z'(4,7) free_units_eq [OF z'(2)] geom
    by (auto simp: coalesced_def no_pairs_def same_geom_def zone_geom_def)
  moreover have "merge_ready z'"
    using assms z' geom by (auto simp: merge_ready_def zone_ready_def zone_inv_def same_geom_def)
  ultimately show ?thesis using z' by (auto simp: zone_merge_def same_geom_def)
qed

end
