(* ===== verification/Zone_Coalesce.thy ===== *)
theory Zone_Coalesce
  imports Zone_Merge_Level
begin

text \<open>
  What merging is for: in a coalesced zone every buddy-aligned region without allocated
  units lies inside a single free chunk, so a request that fits into such a region succeeds.
  A concrete zone, built by the constructor, is the input of the witnesses of the theorems
  about zones.
\<close>

section \<open>Aligned blocks\<close>

lemma span_aligned:
  assumes "2 ^ l dvd v"
  shows "w \<in> span (l, v) \<longleftrightarrow> w div 2 ^ l = v div 2 ^ l"
proof -
  from assms obtain c where v: "v = 2 ^ l * c" by blast
  have "w div 2 ^ l = c \<longleftrightarrow> 2 ^ l * c \<le> w \<and> w < 2 ^ l * c + 2 ^ l"
    using div_nat_eqI [of "2 ^ l" c w] div_times_less_eq_dividend [of w "2 ^ l"] dividend_less_div_times [of "2 ^ l" w]
    by (auto simp: ac_simps)
  then show ?thesis by (simp add: v)
qed

lemma div_level_mono:
  assumes "(w :: nat) div 2 ^ l = x div 2 ^ l" "l \<le> m"
  shows "w div 2 ^ m = x div 2 ^ m"
proof -
  have e: "(2 :: nat) ^ m = 2 ^ l * 2 ^ (m - l)" using assms(2) by (simp flip: power_add)
  show ?thesis unfolding e div_mult2_eq assms(1) ..
qed

lemma unit_buddy_props:
  assumes "2 ^ l dvd v"
  shows "unit_buddy l v div 2 ^ Suc l = v div 2 ^ Suc l" "unit_buddy l v \<noteq> v" "2 ^ l dvd unit_buddy l v"
proof -
  from assms obtain c where v: "v = c * 2 ^ l" by (metis dvd_def mult.commute)
  note b = unit_buddy_chunk [of l c]
  have "cbuddy c div 2 = c div 2" by (auto simp: cbuddy_def elim: evenE oddE)
  moreover have "x * 2 ^ l div 2 ^ Suc l = x div 2" for x :: nat
    using div_mult_mult1 [of "2 ^ l" x 2] by (simp add: mult.commute)
  ultimately show "unit_buddy l v div 2 ^ Suc l = v div 2 ^ Suc l" unfolding v b by (simp only:)
  show "unit_buddy l v \<noteq> v" "2 ^ l dvd unit_buddy l v"
    unfolding v b by (auto simp: cbuddy_def elim: oddE)
qed

section \<open>Free regions\<close>

lemma rep_block_of:
  assumes "zone_rep z fls X" "w < 2 ^ current_zone_level z"
  obtains l v where "(l, v) \<in> blocks_of z fls X" "w div 2 ^ l = v div 2 ^ l" "2 ^ l dvd v" "l \<le> current_zone_level z"
proof -
  from zone_repD(4) [OF assms(1)] assms(2) obtain b where b: "b \<in> blocks_of z fls X" "w \<in> span b"
    unfolding tiles_def by blast
  obtain l v where "b = (l, v)" by (cases b)
  with b that [of l v] zone_repD(5,6) [OF assms(1), of l v] span_aligned [of l v w] show thesis by simp
qed

lemma rep_same_block:
  assumes "zone_rep z fls X" "(l, v) \<in> blocks_of z fls X" "(m, u) \<in> blocks_of z fls X"
    "w div 2 ^ l = v div 2 ^ l" "w div 2 ^ m = u div 2 ^ m"
  shows "(l, v) = (m, u)"
  using rep_unique [OF assms(1-3), of w] zone_repD(6) [OF assms(1)] assms(2-5) span_aligned by blast

definition unit_allocated :: "zone \<Rightarrow> nat \<Rightarrow> bool" where
  "unit_allocated z w \<longleftrightarrow> (\<exists>b \<in> alloc_blocks z. w \<in> span b)"

lemma coalesced_region:
  assumes rep: "zone_rep z fls {}" and geom: "zone_geom z k" and co: "coalesced z"
    and j: "2 ^ j dvd u" "u + 2 ^ j \<le> 2 ^ current_zone_level z"
    and free: "\<And>w. w \<in> span (j, u) \<Longrightarrow> \<not> unit_allocated z w"
  shows "\<exists>l v. j \<le> l \<and> (l, v) \<in> free_blocks z fls \<and> span (j, u) \<subseteq> span (l, v)"
proof (rule ccontr)
  assume no: "\<not> ?thesis"
  let ?B = "blocks_of z fls {}"
  let ?hit = "\<lambda>l. \<exists>v w. (l, v) \<in> ?B \<and> w div 2 ^ j = u div 2 ^ j \<and> w div 2 ^ l = v div 2 ^ l"
  have in_zone: "w < 2 ^ current_zone_level z" if "w div 2 ^ j = u div 2 ^ j" for w
    using that j span_aligned [OF j(1), of w] by simp
  have fb: "(l, v) \<in> free_blocks z fls"
    if "(l, v) \<in> ?B" "w div 2 ^ j = u div 2 ^ j" "w div 2 ^ l = v div 2 ^ l" for l v w
  proof -
    have "2 ^ l dvd v" using zone_repD(6) [OF rep that(1)] .
    then have "w \<in> span (l, v)" "w \<in> span (j, u)" using that span_aligned j(1) by blast+
    with free have "(l, v) \<notin> alloc_blocks z" unfolding unit_allocated_def by blast
    with that(1) show ?thesis by (simp add: blocks_of_def)
  qed
  have small: "l < j" if "(l, v) \<in> ?B" "w div 2 ^ j = u div 2 ^ j" "w div 2 ^ l = v div 2 ^ l" for l v w
  proof (rule ccontr)
    note h = that
    assume "\<not> l < j"
    then have jl: "j \<le> l" by simp
    have dv: "2 ^ l dvd v" using zone_repD(6) [OF rep that(1)] .
    have "x \<in> span (l, v)" if x: "x \<in> span (j, u)" for x
    proof -
      have "x div 2 ^ j = w div 2 ^ j" using x span_aligned [OF j(1)] h(2) by simp
      from div_level_mono [OF this jl] \<open>w div 2 ^ l = v div 2 ^ l\<close> show ?thesis using span_aligned [OF dv] by simp
    qed
    with fb [OF that] jl no show False by blast
  qed
  have "u < 2 ^ current_zone_level z" using in_zone by simp
  then obtain l0 v0 where "(l0, v0) \<in> ?B" "u div 2 ^ l0 = v0 div 2 ^ l0" by (rule rep_block_of [OF rep])
  then have "?hit l0" by blast
  then have hit: "?hit (LEAST l. ?hit l)" by (rule LeastI)
  define l where "l = (LEAST l. ?hit l)"
  from hit obtain v w where vw: "(l, v) \<in> ?B" "w div 2 ^ j = u div 2 ^ j" "w div 2 ^ l = v div 2 ^ l"
    unfolding l_def by blast
  have lj: "l < j" by (rule small [OF vw])
  have dv: "2 ^ l dvd v" using zone_repD(6) [OF rep vw(1)] .
  note bd = unit_buddy_props [OF dv]
  let ?b = "unit_buddy l v"
  have vj: "v div 2 ^ j = u div 2 ^ j"
    using div_level_mono [OF vw(3), of j] lj vw(2) by simp
  have bj: "?b div 2 ^ j = u div 2 ^ j"
    using div_level_mono [OF bd(1), of j] lj vj by simp
  from in_zone [OF bj] obtain m x where mx: "(m, x) \<in> ?B" "?b div 2 ^ m = x div 2 ^ m" "2 ^ m dvd x"
    by (rule rep_block_of [OF rep])
  have "l \<le> m" unfolding l_def by (rule Least_le) (use mx bj in blast)
  have "m = l"
  proof (rule ccontr)
    assume "m \<noteq> l"
    with \<open>l \<le> m\<close> have "Suc l \<le> m" by simp
    from div_level_mono [OF bd(1) this] mx(2) have "v div 2 ^ m = x div 2 ^ m" by simp
    from rep_same_block [OF rep vw(1) mx(1) refl this] \<open>m \<noteq> l\<close> show False by simp
  qed
  have "x = ?b"
    using mx(2,3) bd(3) unfolding \<open>m = l\<close> by (metis dvd_div_mult_self)
  have "v \<in> set (fls l)" "?b \<in> set (fls l)" "l \<le> current_zone_level z"
    using fb [OF vw] fb [OF mx(1) bj mx(2)] \<open>x = ?b\<close> \<open>m = l\<close> by (auto simp: free_blocks_def)
  moreover have "l < current_zone_level z"
  proof -
    have "(2 :: nat) ^ l < 2 ^ j" using lj by simp
    with j(2) have "(2 :: nat) ^ l < 2 ^ current_zone_level z" by linarith
    then show ?thesis by simp
  qed
  moreover have "l \<le> max_zone_level z" using \<open>l \<le> current_zone_level z\<close> geom by (simp add: zone_geom_def)
  ultimately show False using co free_units_eq [OF rep] by (auto simp: coalesced_def)
qed

text \<open>After a merge, \<open>alloc\<close> of a chunk of level \<open>j\<close> succeeds wherever a free region of that
  level exists.\<close>

lemma coalesced_alloc:
  assumes "zone_ready z" "coalesced z" "2 ^ j dvd u" "u + 2 ^ j \<le> 2 ^ current_zone_level z"
    "\<And>w. w \<in> span (j, u) \<Longrightarrow> \<not> unit_allocated z w"
  shows "\<not> no_free_from z j"
proof
  assume nf: "no_free_from z j"
  from assms(1) obtain k fls where z: "zone_geom z k" "zone_rep z fls {}"
    by (auto simp: zone_ready_def zone_inv_def)
  from coalesced_region [OF z(2,1) assms(2-5)] obtain l v where
    l: "j \<le> l" "(l, v) \<in> free_blocks z fls" by blast
  then have "l \<le> current_zone_level z" "fls l \<noteq> []" by (auto simp: free_blocks_def)
  moreover from this have "l \<le> max_zone_level z" using z(1) by (simp add: zone_geom_def)
  ultimately show False using nf l(1) empty_list_head [OF z(2)] by (auto simp: no_free_from_def)
qed

section \<open>A concrete zone\<close>

definition zero_memory :: zone where
  "zero_memory = \<lparr>shelf_location_ptr = 0, zone_header_ptr = 0, header_ptr = 0, header_size = 0,
     merge_bitmap_start_addr = 0, max_zone_level = 0, max_zone_size = 0, multiple_factor = 0,
     min_obj_size = 0, current_zone_level = 0, grow_in_progress = 0, merge_in_progress = 0,
     merge_status = 0, current_merge_level = 0, safe_copy = empty_stack, post_merge_level = empty_stack,
     post_merge_next_level = empty_stack, free_list = (\<lambda>_. empty_stack), zentries = (\<lambda>_. 0),
     merge_bitmap = (\<lambda>_. 0), shelf = (\<lambda>_. 0)\<rparr>"

text \<open>A zone of 4096 bytes with chunks of at least 64, mapped at two made-up addresses.\<close>

definition example_zone :: zone where
  "example_zone = (case zone_create zero_memory 65536 4096 64 4096 1048576 of
     Some (Inr z) \<Rightarrow> z | _ \<Rightarrow> zero_memory)"

lemma create_merge_ready:
  assumes "create_args m addr i k n" "zone_create m addr (2 ^ i) (2 ^ k) (2 ^ n) helper = Some (Inr z)"
    "i = n \<or> helper = addr"
  shows "merge_ready z"
proof -
  from zone_create_spec [OF assms(1), of helper] assms(2) have z: "zone_inv z" "current_zone_level z = i - k"
    "max_zone_level z = n - k" "grow_in_progress z = 0" "merge_in_progress z = 0" "merge_status z = MERGE_DEFAULT"
    "current_merge_level z = -1" "head (safe_copy z) = 0"
    "shelf_location_ptr z = addr" "zone_header_ptr z = helper" "max_zone_size z = 2 ^ n"
    "header_ptr z - merge_bitmap_start_addr z = get_merge_bitmap_size (2 ^ n) (2 ^ k)" by auto
  have a: "6 \<le> k" "k + 6 \<le> n" "n \<le> 40" "unat addr + 2 ^ n < 2 ^ 64" "i \<le> n" "k < i"
    using assms(1) by (simp_all add: create_args_def accepted_args_def)
  have "growable z" if "helper = addr"
    using that z a unat_power_of_2 [of n] by (simp add: growable_def)
  moreover have "bitmap_fits z"
  proof -
    have "(2 :: nat) ^ (n - k) = 8 * 2 ^ (n - k - 3)"
      using a(1,2) power_add [of "2 :: nat" 3 "n - k - 3"] by simp
    then have "(2 :: nat) ^ (n - k) div 8 = 2 ^ (n - k - 3)" by simp
    moreover have "2 ^ (n - k - 3) \<le> unat (get_merge_bitmap_size (2 ^ n) (2 ^ k))"
      using header_sizes(4) [OF a(2,3,1)] a(3) by (simp add: word_le_nat_alt unat_power_of_2)
    ultimately show ?thesis by (simp add: bitmap_fits_def merge_area_def z)
  qed
  ultimately show ?thesis
    using z assms(3) by (auto simp: merge_ready_def zone_ready_def merge_idle_def no_merge_trace_def)
qed

lemma example_args: "create_args zero_memory 65536 12 6 12"
proof -
  have lv: "find_level_from_size (2 ^ 12) (2 ^ 6) = of_nat 6"
    using find_level_of_pow2 [of 6 12] by simp
  have "get_merge_bitmap_size (2 ^ 12) (2 ^ 6) = 64"
    unfolding get_merge_bitmap_size_def lv by (simp add: kCacheLineSize_def round_up_def)
  moreover have "\<not> is_allocated 0" by (simp add: is_allocated_bit)
  ultimately show ?thesis by (simp add: create_args_def accepted_args_def zero_memory_def)
qed

lemma example_zone_spec:
  "zone_create zero_memory 65536 4096 64 4096 1048576 = Some (Inr example_zone)"
  "merge_ready example_zone" "alloc_blocks example_zone = {(0, 0)}" "zone_geom example_zone 6"
  "current_zone_level example_zone = 6" "max_zone_level example_zone = 6"
proof -
  have p: "(2 :: u64) ^ 12 = 4096" "(2 :: u64) ^ 6 = 64" by simp_all
  from zone_create_spec [OF example_args, of 1048576, unfolded p] obtain z where
    z: "zone_create zero_memory 65536 4096 64 4096 1048576 = Some (Inr z)" "zone_geom z 6"
    "alloc_blocks z = {(0, 0)}" "current_zone_level z = 12 - 6" "max_zone_level z = 12 - 6" by blast
  have e: "example_zone = z" by (simp add: example_zone_def z(1))
  show c: "zone_create zero_memory 65536 4096 64 4096 1048576 = Some (Inr example_zone)"
    "alloc_blocks example_zone = {(0, 0)}" "zone_geom example_zone 6"
    "current_zone_level example_zone = 6" "max_zone_level example_zone = 6"
    using z e by simp_all
  show "merge_ready example_zone"
    using create_merge_ready [OF example_args, unfolded p, OF c(1)] by simp
qed

text \<open>The same zone after a merge: its upper half is one free region, so requests of up to
  2048 bytes succeed.\<close>

definition example_merged :: zone where
  "example_merged = (case zone_merge example_zone of Some (Inr z) \<Rightarrow> z | _ \<Rightarrow> zero_memory)"

lemma example_merged_spec:
  "zone_merge example_zone = Some (Inr example_merged)" "merge_ready example_merged" "zone_ready example_merged"
  "coalesced example_merged" "alloc_blocks example_merged = {(0, 0)}" "zone_inv example_merged"
  "current_zone_level example_merged = 6" "max_zone_level example_merged = 6" "min_obj_size example_merged = 64"
proof -
  from zone_merge_spec [OF example_zone_spec(2)] obtain z where
    z: "zone_merge example_zone = Some (Inr z)" "merge_ready z" "coalesced z" "alloc_blocks z = {(0, 0)}"
      "current_zone_level z = 6" "min_obj_size z = 64" "max_zone_level z = 6"
    using example_zone_spec(3,4,5,6) by (auto simp: zone_geom_def)
  have e: "example_merged = z" by (simp add: example_merged_def z(1))
  show m: "zone_merge example_zone = Some (Inr example_merged)" "merge_ready example_merged"
    "coalesced example_merged" "alloc_blocks example_merged = {(0, 0)}"
    "current_zone_level example_merged = 6" "min_obj_size example_merged = 64" "max_zone_level example_merged = 6"
    using z e by simp_all
  show r: "zone_ready example_merged" using m(2) by (simp add: merge_ready_def)
  then show "zone_inv example_merged" by (simp add: zone_ready_def)
qed

lemma example_free_region:
  assumes "w \<in> span (5, 32)"
  shows "\<not> unit_allocated example_merged w"
  using assms by (simp add: unit_allocated_def example_merged_spec(5))

lemma example_level: "level_of example_merged 100 = 1"
proof -
  have "next_power_of_two 100 = (128 :: u64)"
    by (simp add: next_power_of_two_def is_power_of_two_def)
  then have "level_of example_merged 100 = unat (find_level_from_size (2 ^ 7) (2 ^ 6))"
    by (simp add: level_of_def example_merged_spec(9))
  also have "\<dots> = 1" using find_level_of_pow2 [of 6 7] by simp
  finally show ?thesis .
qed

lemma example_alloc:
  "\<exists>z' u. zone_alloc example_merged 100 = Some (Inr (z', off example_merged u)) \<and> u \<noteq> 0 \<and>
    alloc_done example_merged (next_power_of_two (max 100 (min_obj_size example_merged))) 1 z' u"
proof -
  from zone_alloc_spec [OF example_merged_spec(3), of 100] obtain z' u where
    a: "zone_alloc example_merged 100 = Some (Inr (z', off example_merged u))"
      "alloc_done example_merged (next_power_of_two (max 100 (min_obj_size example_merged))) 1 z' u"
    by (auto simp: example_level)
  have "\<not> no_free_from example_merged 5"
    by (rule coalesced_alloc [OF example_merged_spec(3,4), of 5 32])
      (use example_merged_spec(7) example_free_region in simp_all)
  moreover have "no_free_from example_merged 1 \<Longrightarrow> no_free_from example_merged 5"
    by (simp add: no_free_from_def)
  ultimately have "\<not> no_free_from example_merged 1" by blast
  with a(2) have "u \<noteq> 0" by (auto simp: alloc_done_def example_merged_spec(7,8) split: if_splits)
  with a show ?thesis by blast
qed

end
