(* ===== verification/Zone_Props.thy ===== *)
theory Zone_Props
  imports Zone_Coalesce
begin

text \<open>
  The properties of the buddy allocator, over the public operations of \<open>class Zone\<close>
  (constructor, \<open>alloc\<close>, \<open>free\<close>, \<open>merge\<close>), each with a witness on a concrete zone.
\<close>

section \<open>Allocation and release\<close>

lemma alloc_done_block:
  assumes "alloc_done z cs l z' u" "u \<noteq> 0"
  shows "2 ^ l dvd u" "u + 2 ^ l \<le> 2 ^ current_zone_level z'" "off z u \<noteq> 0" "IsValidOffset z' (off z u)"
    "\<And>b. b \<in> alloc_blocks z \<Longrightarrow> span b \<inter> span (l, u) = {}"
proof -
  from assms have al: "alloc_blocks z' = insert (l, u) (alloc_blocks z)" "(l, u) \<notin> alloc_blocks z"
    "zone_ready z'" "min_obj_size z' = min_obj_size z" by (auto simp: alloc_done_def)
  then obtain k fls where z': "zone_geom z' k" "zone_rep z' fls {}" by (auto simp: zone_ready_def zone_inv_def)
  have B: "(l, u) \<in> blocks_of z' fls {}" using al by (simp add: blocks_of_def)
  note b = rep_bound [OF z'(2) B]
  show "2 ^ l dvd u" "u + 2 ^ l \<le> 2 ^ current_zone_level z'" using zone_repD(6) [OF z'(2) B] b by simp_all
  have o: "off z u = off z' u" using al(4) by (simp add: off_def)
  show nz: "off z u \<noteq> 0" unfolding o using off_eq_0_iff [OF z'(1) b(2)] assms(2) by simp
  have "u * 2 ^ k < 2 ^ max_zone_level z' * 2 ^ k" using geom_unit_lt(5) [OF z'(1) b(2)] by simp
  then have "unat (off z' u) < unat (max_zone_size z')"
    using unat_off [OF z'(1) b(2)] z'(1) unat_power_of_2 [of "max_zone_level z' + k"]
    by (simp add: zone_geom_def power_add)
  then show "IsValidOffset z' (off z u)" using nz unfolding o
    by (simp add: IsValidOffset_def word_less_nat_alt unat_gt_0)
  show "span c \<inter> span (l, u) = {}" if "c \<in> alloc_blocks z" for c
  proof -
    have "c \<in> blocks_of z' fls {}" "c \<noteq> (l, u)" using al that by (auto simp: blocks_of_def)
    then show ?thesis using rep_unique [OF z'(2) _ B] by blast
  qed
qed

text \<open>C1: on a zone that satisfies the invariant, \<open>alloc\<close> returns. Either it returns a valid,
  nonzero offset of a chunk of the least level that holds the request, aligned to its size,
  inside the zone and disjoint from every chunk allocated before, and exactly this chunk is
  newly allocated; or it returns 0, nothing changed hands, the zone is at its maximal size and
  no free list from that level up has a chunk. The invariant holds afterwards.\<close>

theorem zone_alloc_correct:
  assumes "zone_ready z" "0 < unat sz" "unat sz \<le> 2 ^ 63"
  shows "\<exists>z' p. zone_alloc z sz = Some (Inr (z', p)) \<and> zone_ready z' \<and>
    (if p \<noteq> 0
     then IsValidOffset z' p \<and>
       (\<exists>u. let l = level_of z sz in p = off z u \<and> 2 ^ l dvd u \<and> u + 2 ^ l \<le> 2 ^ current_zone_level z' \<and>
          alloc_blocks z' = insert (l, u) (alloc_blocks z) \<and>
          (\<forall>b \<in> alloc_blocks z. span b \<inter> span (l, u) = {}) \<and>
          unat sz \<le> 2 ^ l * unat (min_obj_size z) \<and>
          (l = 0 \<or> 2 ^ l * unat (min_obj_size z) < 2 * unat sz))
     else alloc_blocks z' = alloc_blocks z \<and> current_zone_level z' = max_zone_level z \<and>
       no_free_from z' (level_of z sz))"
proof -
  from zone_alloc_spec [OF assms(1), of sz] obtain z' u where
    a: "zone_alloc z sz = Some (Inr (z', off z u))"
      "alloc_done z (next_power_of_two (max sz (min_obj_size z))) (level_of z sz) z' u" by blast
  have inv: "zone_inv z" using assms(1) by (simp add: zone_ready_def)
  note lv = level_of_spec [OF inv assms(2,3)]
  show ?thesis
  proof (cases "u = 0")
    case True
    then have "off z u = 0" by (simp add: off_def)
    with a True show ?thesis by (auto simp: alloc_done_def)
  next
    case False
    note b = alloc_done_block [OF a(2) False]
    have "alloc_blocks z' = insert (level_of z sz, u) (alloc_blocks z)" "zone_ready z'"
      using a(2) False by (auto simp: alloc_done_def)
    with a(1) b lv(1,2) show ?thesis by (auto simp: Let_def intro!: exI [of _ u])
  qed
qed

theorem zone_alloc_correct_witness:
  "\<exists>z' p. zone_alloc example_merged 100 = Some (Inr (z', p)) \<and> zone_ready z' \<and> p \<noteq> 0 \<and> IsValidOffset z' p"
  using zone_alloc_correct [OF example_merged_spec(3), of 100] example_alloc
    alloc_done_block(3) [of example_merged] by (fastforce split: if_splits)

text \<open>C13: the chunk \<open>alloc\<close> returns is zeroed over its whole length, and no other byte of the
  data shelf changes.\<close>

theorem zone_alloc_zeroes:
  assumes "zone_ready z" "0 < unat sz" "unat sz \<le> 2 ^ 63" "zone_alloc z sz = Some (Inr (z', p))" "p \<noteq> 0"
  shows "\<forall>a. shelf z' a =
    (if unat p \<le> a \<and> a < unat p + 2 ^ level_of z sz * unat (min_obj_size z) then 0 else shelf z a)"
proof -
  from zone_alloc_spec [OF assms(1), of sz] assms(4) obtain u where
    a: "p = off z u" "alloc_done z (next_power_of_two (max sz (min_obj_size z))) (level_of z sz) z' u" by auto
  have inv: "zone_inv z" using assms(1) by (simp add: zone_ready_def)
  have "u \<noteq> 0" using a(1) assms(5) by (cases "u = 0") (auto simp: off_def)
  with a(2) have "shelf z' = shelf (zero_chunk z p (next_power_of_two (max sz (min_obj_size z))))"
    by (simp add: alloc_done_def a(1))
  then show ?thesis by (simp add: zero_chunk_def level_of_spec(3) [OF inv assms(2,3)])
qed

theorem zone_alloc_zeroes_witness:
  "\<exists>z' p. zone_alloc example_merged 100 = Some (Inr (z', p)) \<and> p \<noteq> 0 \<and>
    (\<forall>a. shelf z' a = (if unat p \<le> a \<and> a < unat p + 128 then 0 else shelf example_merged a))"
proof -
  from example_alloc obtain z' u where a: "zone_alloc example_merged 100 = Some (Inr (z', off example_merged u))"
    "off example_merged u \<noteq> 0" using alloc_done_block(3) by blast
  from zone_alloc_zeroes [OF example_merged_spec(3) _ _ a] a show ?thesis
    by (auto simp: example_level example_merged_spec(9))
qed

text \<open>C14: \<open>free\<close> of an allocated chunk meets no fault, makes exactly this chunk free, puts it on
  top of the free list of its level, leaves the data alone, and keeps the invariant.\<close>

theorem zone_free_correct:
  assumes "zone_ready z" "(l, u) \<in> alloc_blocks z" "u \<noteq> 0"
  shows "\<exists>z'. zone_free z (off z u) = Inr z' \<and> zone_ready z' \<and> alloc_blocks z' = alloc_blocks z - {(l, u)} \<and>
    u \<in> free_units z' l \<and> head (free_list z' l) = slot u \<and> shelf z' = shelf z"
proof -
  from zone_free_spec [OF assms] obtain z' where
    z': "zone_free z (off z u) = Inr z'" "zone_ready z'" "alloc_blocks z' = alloc_blocks z - {(l, u)}"
    "lists_only z z'" "head (free_list z' l) = slot u" by blast
  from z'(2) obtain k fls where r: "zone_geom z' k" "zone_rep z' fls {}" by (auto simp: zone_ready_def zone_inv_def)
  from assms(1) obtain k' fls' where r': "zone_geom z k'" "zone_rep z fls' {}"
    by (auto simp: zone_ready_def zone_inv_def)
  have B: "(l, u) \<in> blocks_of z fls' {}" using assms(2) by (simp add: blocks_of_def)
  have l: "l \<le> max_zone_level z'"
    using zone_repD(5) [OF r'(2) B] r'(1) lists_only_fields(14) [OF z'(4)] by (simp add: zone_geom_def)
  have u: "Suc u < 2 ^ 64" using geom_unit_lt(3) [OF r'(1) rep_bound(2) [OF r'(2) B]] .
  have c: "chain (zentries z') (slot u) (fls l)"
    using zone_repD(1) [OF r(2) l] z'(5) by (simp add: zes_holds_def)
  then obtain v vs where "fls l = v # vs" using slot_ne_0 [OF u] by (cases "fls l") auto
  then have "u \<in> set (fls l)" using c u slot_inj [of u v] by auto
  then have "u \<in> free_units z' l" using free_units_eq [OF r(2) l] by simp
  with z' lists_only_fields(3) [OF z'(4)] show ?thesis by auto
qed

theorem zone_free_correct_witness:
  "\<exists>z l u z'. (l, u) \<in> alloc_blocks z \<and> u \<noteq> 0 \<and> zone_free z (off z u) = Inr z' \<and> zone_ready z' \<and>
    alloc_blocks z' = {(0, 0)}"
proof -
  from example_alloc obtain z u where a: "u \<noteq> 0" "alloc_blocks z = insert (1, u) {(0, 0)}" "zone_ready z"
    by (auto simp: alloc_done_def example_merged_spec(5))
  then have in_al: "(1, u) \<in> alloc_blocks z" by simp
  from zone_free_correct [OF a(3) in_al a(1)] obtain z' where
    "zone_free z (off z u) = Inr z'" "zone_ready z'" "alloc_blocks z' = alloc_blocks z - {(1, u)}" by blast
  moreover have "alloc_blocks z - {(1, u)} = {(0, 0)}" using a by auto
  ultimately show ?thesis using in_al a(1) by metis
qed

text \<open>Freeing what \<open>alloc\<close> just returned gives back the set of allocated chunks from
  before.\<close>

theorem zone_alloc_free_roundtrip:
  assumes "zone_ready z" "zone_alloc z sz = Some (Inr (z', p))"
  shows "\<exists>z''. zone_free z' p = Inr z'' \<and> zone_ready z'' \<and> alloc_blocks z'' = alloc_blocks z"
proof -
  from zone_alloc_spec [OF assms(1), of sz] assms(2) obtain u where
    a: "p = off z u" "alloc_done z (next_power_of_two (max sz (min_obj_size z))) (level_of z sz) z' u" by auto
  show ?thesis
  proof (cases "u = 0")
    case True
    with a show ?thesis by (simp add: zone_free_def off_def alloc_done_def)
  next
    case False
    with a(2) have al: "alloc_blocks z' = insert (level_of z sz, u) (alloc_blocks z)"
      "(level_of z sz, u) \<notin> alloc_blocks z" "zone_ready z'" "off z' u = p"
      by (auto simp: alloc_done_def off_def a(1))
    then have "(level_of z sz, u) \<in> alloc_blocks z'" by simp
    from zone_free_spec [OF al(3) this False] al show ?thesis by auto
  qed
qed

theorem zone_alloc_free_roundtrip_witness:
  "\<exists>z' p z''. zone_alloc example_merged 100 = Some (Inr (z', p)) \<and> p \<noteq> 0 \<and> zone_free z' p = Inr z'' \<and>
    alloc_blocks z'' = {(0, 0)}"
proof -
  from example_alloc obtain z' u where a: "zone_alloc example_merged 100 = Some (Inr (z', off example_merged u))"
    "off example_merged u \<noteq> 0" using alloc_done_block(3) by blast
  from zone_alloc_free_roundtrip [OF example_merged_spec(3) a(1)] a show ?thesis
    by (auto simp: example_merged_spec(5))
qed

section \<open>The constructor\<close>

text \<open>C15: with sizes the constructor accepts and an initial size of at most the maximal one, it returns a zone that
  satisfies the invariant, in which only the reserved first chunk is allocated, no growth or merge is pending, and the
  merge bitmap fits its area. It does not compare the two sizes: of an initial size beyond the maximal one it never
  makes a well-formed zone, and for twice the maximal size it returns one that is larger than its maximum.\<close>

theorem zone_create_correct:
  assumes "accepted_args m addr i k n"
  shows "if i \<le> n
    then \<exists>z. zone_create m addr (2 ^ i) (2 ^ k) (2 ^ n) helper = Some (Inr z) \<and> zone_inv z \<and>
      alloc_blocks z = {(0, 0)} \<and> min_obj_size z = 2 ^ k \<and> current_zone_level z = i - k \<and>
      max_zone_level z = n - k \<and> (i = n \<or> helper = addr \<longrightarrow> merge_ready z)
    else (\<forall>z. zone_create m addr (2 ^ i) (2 ^ k) (2 ^ n) helper = Some (Inr z) \<longrightarrow>
        current_zone_level z = i - k \<and> max_zone_level z = n - k \<and> \<not> zone_inv z) \<and>
      (i = Suc n \<longrightarrow> (\<exists>z. zone_create m addr (2 ^ i) (2 ^ k) (2 ^ n) helper = Some (Inr z)))"
proof (cases "i \<le> n")
  case True
  then have args: "create_args m addr i k n" using assms by (simp add: create_args_def)
  from zone_create_spec [OF args, of helper] obtain z where
    z: "zone_create m addr (2 ^ i) (2 ^ k) (2 ^ n) helper = Some (Inr z)" "zone_inv z" "zone_geom z k"
      "alloc_blocks z = {(0, 0)}" "current_zone_level z = i - k" "max_zone_level z = n - k" by blast
  have "min_obj_size z = 2 ^ k" using z(3) by (simp add: zone_geom_def)
  with z create_merge_ready [OF args z(1)] True show ?thesis by auto
next
  case False
  with oversized_zone [OF assms, of helper] show ?thesis by simp
qed

theorem zone_create_correct_witness:
  "(\<exists>z. zone_create zero_memory 65536 (2 ^ 12) (2 ^ 6) (2 ^ 12) 1048576 = Some (Inr z) \<and> merge_ready z) \<and>
   (\<exists>z. zone_create zero_memory 65536 (2 ^ 13) (2 ^ 6) (2 ^ 12) 1048576 = Some (Inr z) \<and> \<not> zone_inv z)"
proof -
  have "accepted_args zero_memory 65536 12 6 12" using example_args by (simp add: create_args_def)
  moreover from this have "accepted_args zero_memory 65536 13 6 12"
    by (auto simp: accepted_args_def intro: less_trans [of _ "4096 :: u64" 8192])
  ultimately show ?thesis
    using zone_create_correct [of zero_memory 65536 12 6 12 1048576] zone_create_correct [of zero_memory 65536 13 6 12 1048576] by auto
qed

section \<open>Merging\<close>

text \<open>C5: \<open>merge\<close> returns without a fault, keeps the invariant, every allocated chunk and the
  data, and leaves no two buddies free at any level below the zone's.\<close>

theorem zone_merge_correct:
  assumes "merge_ready z"
  shows "\<exists>z'. zone_merge z = Some (Inr z') \<and> merge_ready z' \<and> coalesced z' \<and>
    alloc_blocks z' = alloc_blocks z \<and> current_zone_level z' = current_zone_level z \<and> shelf z' = shelf z"
  using zone_merge_spec [OF assms] by blast

theorem zone_merge_correct_witness:
  "\<exists>z'. zone_merge example_zone = Some (Inr z') \<and> coalesced z' \<and> alloc_blocks z' = {(0, 0)}"
  using zone_merge_correct [OF example_zone_spec(2)] example_zone_spec(3) by auto

text \<open>C16: after \<open>merge\<close>, a request succeeds whenever the zone has a buddy-aligned region of at
  least the chunk size without allocated units, however it was fragmented before.\<close>

theorem merge_then_alloc:
  assumes "merge_ready z" "0 < unat sz" "unat sz \<le> 2 ^ 63" "level_of z sz \<le> j"
    "2 ^ j dvd u" "u + 2 ^ j \<le> 2 ^ current_zone_level z" "\<forall>w \<in> span (j, u). \<not> unit_allocated z w"
  shows "\<exists>z1 z2 p. zone_merge z = Some (Inr z1) \<and> zone_alloc z1 sz = Some (Inr (z2, p)) \<and> p \<noteq> 0"
proof -
  from zone_merge_spec [OF assms(1)] obtain y where
    y: "zone_merge z = Some (Inr y)" "merge_ready y" "coalesced y" "alloc_blocks y = alloc_blocks z"
      "current_zone_level y = current_zone_level z" "min_obj_size y = min_obj_size z"
      "max_zone_level y = max_zone_level z" by blast
  have r: "zone_ready y" using y(2) by (simp add: merge_ready_def)
  have "\<not> no_free_from y j"
    by (rule coalesced_alloc [OF r y(3) assms(5)]) (use assms(6,7) y in \<open>simp_all add: unit_allocated_def\<close>)
  moreover have lv: "level_of y sz = level_of z sz" using y(6) by (simp add: level_of_def)
  moreover have "no_free_from y (level_of z sz) \<Longrightarrow> no_free_from y j"
    using assms(4) by (simp add: no_free_from_def)
  ultimately have some: "\<not> no_free_from y (level_of y sz)" by auto
  from zone_alloc_spec [OF r, of sz] obtain x v where
    a: "zone_alloc y sz = Some (Inr (x, off y v))"
      "alloc_done y (next_power_of_two (max sz (min_obj_size y))) (level_of y sz) x v" by blast
  have "v \<noteq> 0"
    using a(2) some by (auto simp: alloc_done_def split: if_splits)
  with alloc_done_block(3) [OF a(2)] y(1) a(1) show ?thesis by blast
qed

theorem merge_then_alloc_witness:
  "\<exists>z1 z2 p. zone_merge example_merged = Some (Inr z1) \<and> zone_alloc z1 100 = Some (Inr (z2, p)) \<and> p \<noteq> 0"
  by (rule merge_then_alloc [of _ _ 5 32])
    (use example_merged_spec example_free_region example_level in simp_all)

section \<open>Sizes beyond the word\<close>

text \<open>A request above \<open>2 ^ 63\<close> bytes overflows \<open>next_power_of_two\<close> to 0; \<open>alloc\<close> then looks
  from level 0 on and, if a chunk is free, returns one of \<open>min_obj_size\<close> bytes only, without
  clearing any of it.\<close>

theorem zone_alloc_overflow:
  assumes "zone_ready z" "2 ^ 63 < unat sz"
  shows "\<exists>z' u. zone_alloc z sz = Some (Inr (z', off z u)) \<and> (u = 0 \<longleftrightarrow> off z u = 0) \<and>
    (u \<noteq> 0 \<longrightarrow> alloc_blocks z' = insert (0, u) (alloc_blocks z) \<and> shelf z' = shelf z)"
proof -
  from zone_alloc_spec [OF assms(1), of sz] obtain z' u where
    a: "zone_alloc z sz = Some (Inr (z', off z u))"
      "alloc_done z (next_power_of_two (max sz (min_obj_size z))) (level_of z sz) z' u" by blast
  have "unat sz \<le> unat (max sz (min_obj_size z))" by (simp add: max_def word_le_nat_alt)
  then have n: "next_power_of_two (max sz (min_obj_size z)) = 0"
    using assms(2) by (intro next_power_of_two_overflow) linarith
  then have "level_of z sz = 0"
    by (simp add: level_of_def find_level_from_size_def power_of_two_def)
  moreover have "shelf (zero_chunk z p 0) = shelf z" for p by (rule ext) (auto simp: zero_chunk_def)
  ultimately show ?thesis
    using a n alloc_done_block(3) [OF a(2)]
    by (intro exI [of _ z'] exI [of _ u]) (auto simp: alloc_done_def off_def)
qed

theorem zone_alloc_overflow_witness:
  "\<exists>z' u. zone_alloc example_merged (2 ^ 63 + 1) = Some (Inr (z', off example_merged u))"
  using zone_alloc_overflow [OF example_merged_spec(3), of "2 ^ 63 + 1"] by auto

end
