(* ===== verification/Zone_Recover.thy ===== *)
theory Zone_Recover
  imports Zone_Merge
begin

text \<open>
  What a restarted process does with a zone (\<open>src/shelf_usage/zone.cc\<close>): \<open>grow_crash_recovery\<close>,
  \<open>merge_crash_recovery\<close> and \<open>garbage_collection\<close>, with \<open>online_recover\<close> and \<open>offline_recover\<close>
  that call them; and the states in which a merge can stop, one rule for each crash point that
  the code of \<open>merge\<close> names.
\<close>

section \<open>Growth\<close>

definition grow_crash_recovery :: "zone \<Rightarrow> zone result" where
  "grow_crash_recovery z =
     (if grow_in_progress z = 0 then Inr z
      else if max_zone_level z < current_zone_level z then Inl Out_Of_Bounds
      else let zone_size = find_size_from_level (of_nat (current_zone_level z)) (min_obj_size z)
           in if list_ex (\<lambda>level. zone_size \<le> head (free_list z level) * min_obj_size z)
                 (rev [0..<Suc (current_zone_level z)])
              then Inr z
              else Inr (z\<lparr>grow_in_progress := 0\<rparr>))"

section \<open>Merge\<close>

text \<open>
  Steps 4 and 5 of the recovery: building the bitmap again, and building the lists again. The
  level is the header's \<open>current_merge_level\<close>, read as an unsigned number; both steps shift by it.
\<close>

definition resume_bitmap :: "zone \<Rightarrow> nat \<Rightarrow> zone result option" where
  "resume_bitmap z level =
     (if merge_status z \<noteq> MERGE_SWAP_COMPLETED then Some (Inr z)
      else if 64 \<le> level then Some (Inl Out_Of_Bounds)
      else obind (Some (clear_merge_bitmap z)) (\<lambda>z. create_merge_bitmap z level))"

definition resume_lists :: "zone \<Rightarrow> nat \<Rightarrow> zone result option" where
  "resume_lists z level =
     (if merge_status z \<noteq> MERGE_BITMAP_COMPLETED then Some (Inr z)
      else if 64 \<le> level then Some (Inl Out_Of_Bounds)
      else Some (do_merge z level))"

definition resume_finish :: "zone \<Rightarrow> nat \<Rightarrow> zone result option" where
  "resume_finish z level =
     (if merge_status z \<noteq> MERGE_FREELIST_COMPLETED then Some (Inr z) else finish_merge z level)"

definition resume_leave :: "zone \<Rightarrow> zone result option" where
  "resume_leave z =
     (if merge_status z \<noteq> MERGE_DEFAULT then Some (Inr z)
      else Some (rbind (leave_merge z) (\<lambda>(_, z). Inr z)))"

text \<open>
  Step 3 takes the free list if \<open>safe_copy\<close> is empty; otherwise it only prints a warning. After
  the interrupted level the higher ones are merged, \<open>merge\<close> asserting that a level is below the
  zone's highest.
\<close>

definition merge_crash_recovery :: "zone \<Rightarrow> zone result option" where
  "merge_crash_recovery z =
     (if merge_in_progress z = 0 then Some (Inr z)
      else let current = current_merge_level z; level = unat (of_int current :: u64)
           in if merge_status z = MERGE_DEFAULT \<and> current = -1 then resume_leave z
              else obind (Some (if merge_status z = MERGE_DEFAULT \<and> head (safe_copy z) = 0
                                then swap_freelist z level else Inr z)) (\<lambda>z.
                   obind (resume_bitmap z level) (\<lambda>z.
                   obind (resume_lists z level) (\<lambda>z.
                   obind (resume_finish z level) (\<lambda>z.
                   obind (resume_leave z) (\<lambda>z.
                     if current + 1 < 0 then Some (Inl Assert_Failed)
                     else merge_from z (nat (current + 1)) (current_zone_level z)))))))"

definition online_recover :: "zone \<Rightarrow> zone result option" where
  "online_recover z = merge_crash_recovery z"

section \<open>Where a merge can stop\<close>

text \<open>
  \<open>merge_stops z level point z'\<close>: \<open>merge (level)\<close>, started on \<open>z\<close>, has reached the call
  \<open>CrashPoints::CrashHere (point)\<close> in state \<open>z'\<close>.
\<close>

inductive merge_stops :: "zone \<Rightarrow> nat \<Rightarrow> string \<Rightarrow> zone \<Rightarrow> bool" for z level where
  after_1: "enter_merge z = (True, z1) \<Longrightarrow> merge_stops z level ''merge after 1'' z1"
| after_2: "enter_merge z = (True, z1) \<Longrightarrow>
    merge_stops z level ''merge after 2'' (z1\<lparr>current_merge_level := int level\<rparr>)"
| after_3: "\<lbrakk>enter_merge z = (True, z1); swap_freelist z1 level = Inr z2\<rbrakk> \<Longrightarrow>
    merge_stops z level ''merge after 3'' (z2\<lparr>merge_status := MERGE_DEFAULT\<rparr>)"
| after_4: "\<lbrakk>enter_merge z = (True, z1); swap_freelist z1 level = Inr z2\<rbrakk> \<Longrightarrow>
    merge_stops z level ''merge after 4'' z2"
| after_5: "\<lbrakk>merge_stops z level ''merge after 4'' z2; create_merge_bitmap z2 level = Some (Inr z3)\<rbrakk> \<Longrightarrow>
    merge_stops z level ''merge after 5'' (z3\<lparr>merge_status := MERGE_SWAP_COMPLETED\<rparr>)"
| after_6: "\<lbrakk>merge_stops z level ''merge after 4'' z2; create_merge_bitmap z2 level = Some (Inr z3)\<rbrakk> \<Longrightarrow>
    merge_stops z level ''merge after 6'' z3"
| during_7: "\<lbrakk>merge_stops z level ''merge after 6'' z3;
    merge_words (z3\<lparr>post_merge_level := (post_merge_level z3)\<lparr>head := 0\<rparr>,
        post_merge_next_level := (post_merge_next_level z3)\<lparr>head := 0\<rparr>\<rparr>)
      (find_size_from_level (of_nat level) (min_obj_size z3)) 0 n = Inr z4;
    n \<le> (if level + 2 \<ge> max_zone_level z3 then 1 else 2 ^ (max_zone_level z3 - level) div 8)\<rbrakk> \<Longrightarrow>
    merge_stops z level ''merge during 7'' z4"
| after_8: "\<lbrakk>merge_stops z level ''merge after 6'' z3; do_merge z3 level = Inr z5\<rbrakk> \<Longrightarrow>
    merge_stops z level ''merge after 8'' z5"
| during_9: "\<lbrakk>merge_stops z level ''merge after 8'' z5; drain_next_level z5 level = Some (Inr z6)\<rbrakk> \<Longrightarrow>
    merge_stops z level ''merge during 9'' z6"
| after_10: "\<lbrakk>merge_stops z level ''merge after 8'' z5; finish_merge z5 level = Some (Inr z7)\<rbrakk> \<Longrightarrow>
    merge_stops z level ''merge after 10'' z7"
| after_11: "\<lbrakk>merge_stops z level ''merge after 10'' z7; leave_merge z7 = Inr (True, z8)\<rbrakk> \<Longrightarrow>
    merge_stops z level ''merge after 11'' z8"

end
