(* ===== verification/Zone_Recover_Correct.thy ===== *)
theory Zone_Recover_Correct
  imports Zone_Recover Zone_Coalesce
begin

text \<open>
  Recovery of a merge that stopped at any of its crash points: for each point the stage of
  theory \<open>Zone_Merge_Level\<close> the zone is in, and from each stage the recovery to the end.
\<close>

section \<open>Merging the remaining levels\<close>

definition recovered :: "zone \<Rightarrow> block set \<Rightarrow> zone \<Rightarrow> bool" where
  "recovered z L z' \<longleftrightarrow> (\<exists>k f. zone_geom z' k \<and> zone_rep z' f L) \<and> bitmap_fits z' \<and> merge_idle z' \<and> same_geom z z' \<and>
     alloc_blocks z' = alloc_blocks z \<and> grow_in_progress z' = grow_in_progress z \<and> growable z' = growable z \<and>
     shelf z' = shelf z"

lemma recovered_kept: "merge_kept z y \<Longrightarrow> recovered y L z' \<Longrightarrow> recovered z L z'"
  using same_geom_trans by (auto simp: recovered_def merge_kept_def)

lemma leave_stage:
  assumes "stage_done L y k f" "merge_in_progress y = 1"
  shows "resume_leave y = Some (Inr (y\<lparr>merge_in_progress := 0\<rparr>))" "merge_idle (y\<lparr>merge_in_progress := 0\<rparr>)"
    "zone_rep (y\<lparr>merge_in_progress := 0\<rparr>) f L" "zone_geom (y\<lparr>merge_in_progress := 0\<rparr>) k"
    "bitmap_fits (y\<lparr>merge_in_progress := 0\<rparr>)" "alloc_blocks (y\<lparr>merge_in_progress := 0\<rparr>) = alloc_blocks y"
    "same_geom y (y\<lparr>merge_in_progress := 0\<rparr>)" "growable (y\<lparr>merge_in_progress := 0\<rparr>) = growable y"
proof -
  let ?y = "y\<lparr>merge_in_progress := 0\<rparr>"
  from assms(1) have y: "zone_geom y k" "bitmap_fits y" "zone_rep y f L" "merge_status y = MERGE_DEFAULT"
    by (simp_all add: stage_done_def)
  show "resume_leave y = Some (Inr ?y)" using y assms(2) by (simp add: resume_leave_def leave_merge_def)
  show "merge_idle ?y" using y by (simp add: merge_idle_def)
  show "zone_rep ?y f L" "alloc_blocks ?y = alloc_blocks y"
    using zone_rep_frame [OF y(3), of ?y] by (simp_all add: same_geom_def)
  show "zone_geom ?y k" "bitmap_fits ?y" "same_geom y ?y" "growable ?y = growable y"
    using y by (simp_all add: zone_geom_def bitmap_fits_def merge_area_def same_geom_def growable_def)
qed

lemma recover_tail:
  assumes "stage_done L y k f" "merge_in_progress y = 1"
  shows "\<exists>z'. obind (resume_leave y) (\<lambda>z. if int l + 1 < 0 then Some (Inl Assert_Failed)
      else merge_from z (nat (int l + 1)) (current_zone_level z)) = Some (Inr z') \<and> recovered y L z' \<and>
    (no_merge_trace y \<longrightarrow> no_merge_trace z')"
proof -
  let ?y = "y\<lparr>merge_in_progress := 0\<rparr>"
  note lv = leave_stage [OF assms]
  have "nat (int l + 1) = Suc l" by simp
  moreover from merge_from_spec [OF lv(3,4,5,2) refl, of "Suc l" "Suc l"] obtain z' f' where
    z': "merge_from ?y (Suc l) (current_zone_level ?y) = Some (Inr z')" "zone_rep z' f' L" "alloc_blocks z' = alloc_blocks ?y"
    "merge_idle z'" "no_merge_trace ?y \<or> Suc l < current_zone_level ?y \<longrightarrow> no_merge_trace z'" "same_geom ?y z'" "bitmap_fits z'"
    "grow_in_progress z' = grow_in_progress ?y" "growable z' = growable ?y" "shelf z' = shelf ?y" by auto
  moreover have "recovered y L z'"
    using z' lv same_geom_trans [OF lv(7) z'(6)] same_geom_geom [OF z'(6) lv(4)] by (auto simp: recovered_def)
  moreover have "no_merge_trace y \<longrightarrow> no_merge_trace z'" using z'(5) by (simp add: no_merge_trace_def)
  ultimately show ?thesis using lv(1) by (intro exI [of _ z']) simp
qed

section \<open>Recovery from each stage\<close>

text \<open>The part of the recovery that starts at one of its steps.\<close>

definition resume_from_bitmap :: "zone \<Rightarrow> nat \<Rightarrow> zone result option" where
  "resume_from_bitmap z level = obind (resume_lists z level) (\<lambda>z. obind (resume_finish z level) (\<lambda>z.
     obind (resume_leave z) (\<lambda>z. if int level + 1 < 0 then Some (Inl Assert_Failed)
       else merge_from z (nat (int level + 1)) (current_zone_level z))))"

lemma resume_finished:
  assumes "stage_lists L z k l f nx pm" "merge_in_progress z = 1"
  shows "\<exists>z'. resume_from_bitmap z l = Some (Inr z') \<and> recovered z L z' \<and> no_merge_trace z'"
proof -
  from finish_stage [OF assms(1)] obtain y where y: "finish_merge z l = Some (Inr y)" "merge_kept z y"
    "no_merge_trace y" "stage_done L y k (f(Suc l := rev nx @ f (Suc l), l := rev pm @ f l))"
    unfolding no_merge_trace_def by blast
  have "merge_in_progress y = 1" using merge_keptD(9) [OF y(2)] assms(2) by simp
  from recover_tail [OF y(4) this, of l] obtain z' where z': "obind (resume_leave y) (\<lambda>z. if int l + 1 < 0
      then Some (Inl Assert_Failed) else merge_from z (nat (int l + 1)) (current_zone_level z)) = Some (Inr z')"
    "recovered y L z'" "no_merge_trace y \<longrightarrow> no_merge_trace z'" by blast
  have st: "merge_status z = MERGE_FREELIST_COMPLETED" using assms(1) by (simp add: stage_lists_def)
  have "resume_lists z l = Some (Inr z)" "resume_finish z l = Some (Inr y)"
    using st y(1) by (simp_all add: resume_lists_def resume_finish_def MERGE_FREELIST_COMPLETED_def MERGE_BITMAP_COMPLETED_def)
  then show ?thesis using z' y(3) recovered_kept [OF y(2) z'(2)] by (simp add: resume_from_bitmap_def)
qed

lemma held_level_lt: "held_stage L z k l f us \<Longrightarrow> l < 64"
  by (simp add: held_stage_def zone_geom_def)

lemma resume_built:
  assumes "stage_bitmap L z k l f us" "merge_in_progress z = 1"
  shows "\<exists>z'. resume_from_bitmap z l = Some (Inr z') \<and> recovered z L z' \<and> no_merge_trace z'"
proof -
  from lists_stage [OF assms(1)] obtain y nx pm where y: "do_merge z l = Inr y" "stage_lists L y k l f nx pm"
    "merge_kept z y" by blast
  have "merge_in_progress y = 1" using merge_keptD(9) [OF y(3)] assms(2) by simp
  from resume_finished [OF y(2) this] obtain z' where z': "resume_from_bitmap y l = Some (Inr z')" "recovered y L z'"
    "no_merge_trace z'" by blast
  have st: "merge_status z = MERGE_BITMAP_COMPLETED" "l < 64"
    using assms(1) held_level_lt [of L z k l f us] by (simp_all add: stage_bitmap_def)
  have sy: "merge_status y = MERGE_FREELIST_COMPLETED" using y(2) by (simp add: stage_lists_def)
  have "resume_lists z l = Some (Inr y)" "resume_lists y l = Some (Inr y)"
    using st sy y(1) by (simp_all add: resume_lists_def MERGE_FREELIST_COMPLETED_def MERGE_BITMAP_COMPLETED_def)
  then have "resume_from_bitmap z l = Some (Inr z')" using z'(1) by (simp add: resume_from_bitmap_def)
  with z' recovered_kept [OF y(3) z'(2)] show ?thesis by blast
qed

lemma resume_swapped:
  assumes "stage_swapped L z k l f us" "merge_in_progress z = 1"
  shows "\<exists>z'. obind (resume_bitmap z l) (\<lambda>z. resume_from_bitmap z l) = Some (Inr z') \<and> recovered z L z' \<and> no_merge_trace z'"
proof -
  from assms(1) have h: "held_stage L z k l f us" and st: "merge_status z = MERGE_SWAP_COMPLETED"
    by (simp_all add: stage_swapped_def)
  from h have z: "zone_geom z k" "bitmap_fits z" by (simp_all add: held_stage_def)
  from clear_merge_bitmap_spec [OF z(2,1)] obtain bm where bm: "clear_merge_bitmap z = Inr (z\<lparr>merge_bitmap := bm\<rparr>)" by blast
  let ?z = "z\<lparr>merge_bitmap := bm\<rparr>"
  have k0: "merge_kept z ?z" "zone_rep z f X \<Longrightarrow> zone_rep ?z f X" for X
    using merge_kept_fields [where z = z and z' = ?z and bm = bm and sc = "safe_copy z" and cl = "current_merge_level z" and
      st = "merge_status z"] by simp_all
  have "stage_swapped L ?z k l f us"
    using assms(1) k0(2) merge_keptD(1,2,3) [OF k0(1)] by (simp add: stage_swapped_def held_stage_def)
  from bitmap_stage [OF this] obtain y where y: "create_merge_bitmap ?z l = Some (Inr y)" "stage_bitmap L y k l f us"
    "merge_kept ?z y" by blast
  note ky = merge_kept_trans [OF k0(1) y(3)]
  have "merge_in_progress y = 1" using merge_keptD(9) [OF ky] assms(2) by simp
  from resume_built [OF y(2) this] obtain z' where z': "resume_from_bitmap y l = Some (Inr z')" "recovered y L z'"
    "no_merge_trace z'" by blast
  have "resume_bitmap z l = Some (Inr y)"
    using st bm y(1) held_level_lt [OF h] by (simp add: resume_bitmap_def)
  then show ?thesis using z' recovered_kept [OF ky z'(2)] by auto
qed

text \<open>The whole function, once the header names a level.\<close>

lemma recovery_at_level:
  assumes "merge_in_progress z = 1" "current_merge_level z = int l" "l < 64"
  shows "merge_crash_recovery z = obind (Some (if merge_status z = MERGE_DEFAULT \<and> head (safe_copy z) = 0
      then swap_freelist z l else Inr z)) (\<lambda>z. obind (resume_bitmap z l) (\<lambda>z. resume_from_bitmap z l))"
proof -
  have "unat (of_int (int l) :: u64) = l" using assms(3) unat_of_nat_64 [of l] by simp
  moreover have "int l \<noteq> -1" by simp
  ultimately show ?thesis
    using assms(1,2) by (simp only: merge_crash_recovery_def Let_def resume_from_bitmap_def) simp
qed

lemma status_neq: "MERGE_SWAP_COMPLETED \<noteq> MERGE_DEFAULT" "MERGE_BITMAP_COMPLETED \<noteq> MERGE_DEFAULT"
  "MERGE_FREELIST_COMPLETED \<noteq> MERGE_DEFAULT" "MERGE_BITMAP_COMPLETED \<noteq> MERGE_SWAP_COMPLETED"
  "MERGE_FREELIST_COMPLETED \<noteq> MERGE_SWAP_COMPLETED" "MERGE_DEFAULT \<noteq> MERGE_SWAP_COMPLETED"
  "MERGE_DEFAULT \<noteq> MERGE_BITMAP_COMPLETED" "MERGE_DEFAULT \<noteq> MERGE_FREELIST_COMPLETED"
  "MERGE_FREELIST_COMPLETED \<noteq> MERGE_BITMAP_COMPLETED"
  by (simp_all add: MERGE_SWAP_COMPLETED_def MERGE_DEFAULT_def MERGE_BITMAP_COMPLETED_def MERGE_FREELIST_COMPLETED_def)

lemma recover_swapped:
  assumes "stage_swapped L z k l f us" "merge_in_progress z = 1"
  shows "\<exists>z'. merge_crash_recovery z = Some (Inr z') \<and> recovered z L z' \<and> no_merge_trace z'"
proof -
  from assms(1) have h: "held_stage L z k l f us" and st: "merge_status z = MERGE_SWAP_COMPLETED"
    by (simp_all add: stage_swapped_def)
  from h have "current_merge_level z = int l" by (simp add: held_stage_def)
  from recovery_at_level [OF assms(2) this held_level_lt [OF h]] resume_swapped [OF assms] show ?thesis
    by (simp add: st status_neq)
qed

lemma recover_built:
  assumes "stage_bitmap L z k l f us" "merge_in_progress z = 1"
  shows "\<exists>z'. merge_crash_recovery z = Some (Inr z') \<and> recovered z L z' \<and> no_merge_trace z'"
proof -
  from assms(1) have h: "held_stage L z k l f us" and st: "merge_status z = MERGE_BITMAP_COMPLETED"
    by (simp_all add: stage_bitmap_def)
  from h have "current_merge_level z = int l" by (simp add: held_stage_def)
  from recovery_at_level [OF assms(2) this held_level_lt [OF h]] resume_built [OF assms] show ?thesis
    by (simp add: st status_neq resume_bitmap_def)
qed

lemma recover_lists:
  assumes "stage_lists L z k l f nx pm" "merge_in_progress z = 1" "l < 64"
  shows "\<exists>z'. merge_crash_recovery z = Some (Inr z') \<and> recovered z L z' \<and> no_merge_trace z'"
proof -
  from assms(1) have "current_merge_level z = int l" and st: "merge_status z = MERGE_FREELIST_COMPLETED"
    by (simp_all add: stage_lists_def)
  from recovery_at_level [OF assms(2) this(1) assms(3)] resume_finished [OF assms(1,2)] show ?thesis
    by (simp add: st status_neq resume_bitmap_def)
qed

text \<open>Stopped after step 2: the free list was not taken yet.\<close>

lemma recover_entered:
  assumes "stage_done L z k f" "merge_in_progress z = 1" "current_merge_level z = int l" "l < max_zone_level z"
    "head (safe_copy z) = 0"
  shows "\<exists>z'. merge_crash_recovery z = Some (Inr z') \<and> recovered z L z' \<and> no_merge_trace z'"
proof -
  from swap_stage [OF assms(1,4)] obtain y where y: "swap_freelist z l = Inr y" "stage_swapped L y k l (f(l := [])) (f l)"
    "merge_kept z y" by blast
  have m: "merge_in_progress y = 1" using merge_keptD(9) [OF y(3)] assms(2) by simp
  have st: "merge_status z = MERGE_DEFAULT" using assms(1) by (simp add: stage_done_def)
  have "l < 64" using assms(1,4) by (simp add: stage_done_def zone_geom_def)
  from recovery_at_level [OF assms(2,3) this] resume_swapped [OF y(2) m] recovered_kept [OF y(3)] show ?thesis
    by (auto simp: st y(1) assms(5))
qed

text \<open>Stopped after step 3 with chunks in \<open>safe_copy\<close>: they stay lost.\<close>

lemma recover_unsure:
  assumes "stage_done L z k f" "merge_in_progress z = 1" "current_merge_level z = int l" "l < 64"
    "head (safe_copy z) \<noteq> 0"
  shows "\<exists>z'. merge_crash_recovery z = Some (Inr z') \<and> recovered z L z'"
proof -
  have st: "merge_status z = MERGE_DEFAULT" using assms(1) by (simp add: stage_done_def)
  from recovery_at_level [OF assms(2,3,4)] recover_tail [OF assms(1,2), of l] show ?thesis
    by (auto simp: st assms(5) status_neq resume_bitmap_def resume_from_bitmap_def resume_lists_def resume_finish_def)
qed

text \<open>Stopped before step 2 or after step 10: only the lock is held.\<close>

lemma recover_idle:
  assumes "stage_done L z k f" "merge_in_progress z = 1" "no_merge_trace z"
  shows "\<exists>z'. merge_crash_recovery z = Some (Inr z') \<and> recovered z L z' \<and> no_merge_trace z'"
proof -
  note lv = leave_stage [OF assms(1,2)]
  have st: "merge_status z = MERGE_DEFAULT" using assms(1) by (simp add: stage_done_def)
  have "merge_crash_recovery z = Some (Inr (z\<lparr>merge_in_progress := 0\<rparr>))"
    using assms(2,3) st lv(1) by (simp add: merge_crash_recovery_def no_merge_trace_def)
  moreover have "recovered z L (z\<lparr>merge_in_progress := 0\<rparr>)" using lv by (auto simp: recovered_def)
  moreover have "no_merge_trace (z\<lparr>merge_in_progress := 0\<rparr>)" using assms(3) by (simp add: no_merge_trace_def)
  ultimately show ?thesis by blast
qed

section \<open>The stage of each crash point\<close>

definition merge_start :: "block set \<Rightarrow> zone \<Rightarrow> nat \<Rightarrow> nat \<Rightarrow> (nat \<Rightarrow> nat list) \<Rightarrow> bool" where
  "merge_start L z k l f \<longleftrightarrow> zone_rep z f L \<and> zone_geom z k \<and> bitmap_fits z \<and> merge_idle z \<and> no_merge_trace z \<and>
     l < max_zone_level z"

abbreviation locked :: "zone \<Rightarrow> zone" where
  "locked z \<equiv> z\<lparr>merge_in_progress := 1\<rparr>"

lemma start_enter:
  assumes "merge_start L z k l f"
  shows "enter_merge z = (True, locked z)" "stage_done L (locked z) k f"
  using assms zone_rep_frame(1) [of z f L "locked z"]
  by (auto simp: merge_start_def enter_merge_def stage_done_def zone_geom_def bitmap_fits_def merge_area_def merge_idle_def
      same_geom_def)

lemma start_swap:
  assumes "merge_start L z k l f" "swap_freelist (locked z) l = Inr z2"
  shows "stage_swapped L z2 k l (f(l := [])) (f l)" "merge_kept (locked z) z2"
  using swap_stage [OF start_enter(2) [OF assms(1)], of l] assms by (auto simp: merge_start_def)

text \<open>Each point by the rule that leads to it, and the stage there.\<close>

inductive_cases stops_4: "merge_stops z l ''merge after 4'' z2"
inductive_cases stops_6: "merge_stops z l ''merge after 6'' z3"
inductive_cases stops_8: "merge_stops z l ''merge after 8'' z5"
inductive_cases stops_10: "merge_stops z l ''merge after 10'' z7"

lemma at_4:
  assumes "merge_start L z k l f" "merge_stops z l ''merge after 4'' z2"
  shows "stage_swapped L z2 k l (f(l := [])) (f l)" "merge_kept (locked z) z2"
  using assms(2) start_swap [OF assms(1)] start_enter(1) [OF assms(1)] by (auto elim!: stops_4)

lemma at_6:
  assumes "merge_start L z k l f" "merge_stops z l ''merge after 6'' z3"
  shows "stage_bitmap L z3 k l (f(l := [])) (f l)" "merge_kept (locked z) z3"
proof -
  from assms(2) obtain z2 where z2: "merge_stops z l ''merge after 4'' z2" "create_merge_bitmap z2 l = Some (Inr z3)"
    by (rule stops_6)
  note a = at_4 [OF assms(1) z2(1)]
  from bitmap_stage [OF a(1)] z2(2) have "stage_bitmap L z3 k l (f(l := [])) (f l)" "merge_kept z2 z3" by auto
  then show "stage_bitmap L z3 k l (f(l := [])) (f l)" "merge_kept (locked z) z3" using merge_kept_trans [OF a(2)] by blast+
qed

lemma at_8:
  assumes "merge_start L z k l f" "merge_stops z l ''merge after 8'' z5"
  shows "\<exists>nx pm. stage_lists L z5 k l (f(l := [])) nx pm" "merge_kept (locked z) z5"
proof -
  from assms(2) obtain z3 where z3: "merge_stops z l ''merge after 6'' z3" "do_merge z3 l = Inr z5"
    by (rule stops_8)
  note a = at_6 [OF assms(1) z3(1)]
  from lists_stage [OF a(1)] z3(2) have "\<exists>nx pm. stage_lists L z5 k l (f(l := [])) nx pm" "merge_kept z3 z5" by auto
  then show "\<exists>nx pm. stage_lists L z5 k l (f(l := [])) nx pm" "merge_kept (locked z) z5"
    using merge_kept_trans [OF a(2)] by blast+
qed

lemma at_10:
  assumes "merge_start L z k l f" "merge_stops z l ''merge after 10'' z7"
  shows "\<exists>g. stage_done L z7 k g" "merge_kept (locked z) z7" "no_merge_trace z7"
proof -
  from assms(2) obtain z5 where z5: "merge_stops z l ''merge after 8'' z5" "finish_merge z5 l = Some (Inr z7)"
    by (rule stops_10)
  note a = at_8 [OF assms(1) z5(1)]
  from a(1) obtain nx pm where "stage_lists L z5 k l (f(l := [])) nx pm" by blast
  from finish_stage [OF this] z5(2) have "\<exists>g. stage_done L z7 k g" "merge_kept z5 z7" "no_merge_trace z7"
    unfolding no_merge_trace_def by auto
  then show "\<exists>g. stage_done L z7 k g" "merge_kept (locked z) z7" "no_merge_trace z7"
    using merge_kept_trans [OF a(2)] by blast+
qed

section \<open>Recovery\<close>

definition lost_at :: "string \<Rightarrow> nat \<Rightarrow> (nat \<Rightarrow> nat list) \<Rightarrow> block set" where
  "lost_at point l f = (if point = ''merge after 3'' then {l} \<times> set (f l) else {})"

lemma recovered_locked: "recovered (locked z) L z' \<Longrightarrow> recovered z L z'"
proof -
  have "same_geom (locked z) z' = same_geom z z'" "alloc_blocks (locked z) = alloc_blocks z"
    "growable (locked z) = growable z" by (simp_all add: same_geom_def alloc_blocks_def growable_def)
  then show "recovered (locked z) L z' \<Longrightarrow> recovered z L z'" by (simp add: recovered_def)
qed

text \<open>The one place where free chunks are lost: the level's list is off the zone, and nothing says where it is.\<close>

lemma recover_after_swap:
  assumes start: "merge_start L z k l f" and z2: "swap_freelist (locked z) l = Inr z2"
    and z': "z' = z2\<lparr>merge_status := MERGE_DEFAULT\<rparr>"
  shows "\<exists>z''. merge_crash_recovery z' = Some (Inr z'') \<and> recovered z ({l} \<times> set (f l) \<union> L) z'' \<and>
    (f l = [] \<longrightarrow> no_merge_trace z'')"
proof -
  have l64: "l < 64" using start by (simp add: merge_start_def zone_geom_def)
  note s = start_swap [OF start z2]
  have kz: "merge_kept z2 z'" "zone_rep z2 f' X \<Longrightarrow> zone_rep z' f' X" for f' X
    using merge_kept_fields [where z = z2 and z' = z' and bm = "merge_bitmap z2" and sc = "safe_copy z2" and
      cl = "current_merge_level z2" and st = MERGE_DEFAULT] by (simp_all add: z')
  note K = merge_kept_trans [OF s(2) kz(1)]
  from s(1) have h: "zone_geom z2 k" "bitmap_fits z2" "zone_rep z2 (f(l := [])) ({l} \<times> set (f l) \<union> L)"
    "current_merge_level z2 = int l" "chain (zentries z2) (head (safe_copy z2)) (f l)" "l < max_zone_level z2"
    by (simp_all add: stage_swapped_def held_stage_def)
  have d: "stage_done ({l} \<times> set (f l) \<union> L) z' k (f(l := []))"
    using h(1,2) kz(2) [OF h(3)] merge_keptD(1,2) [OF kz(1)] by (simp add: stage_done_def) (simp add: z')
  have m': "merge_in_progress z' = 1" "current_merge_level z' = int l" "l < max_zone_level z'"
    using merge_keptD(9) [OF K] h merge_keptD(3) [OF kz(1)] by (simp_all add: z')
  show ?thesis
  proof (cases "f l = []")
    case True
    then have "head (safe_copy z') = 0" using h(5) by (simp add: z')
    from recover_entered [OF d m' this] show ?thesis
      using recovered_locked [OF recovered_kept [OF K]] by blast
  next
    case False
    then have "head (safe_copy z') \<noteq> 0" using h(5) slot_ne_0 by (cases "f l") (auto simp: z')
    from recover_unsure [OF d m'(1,2) l64 this] False show ?thesis
      using recovered_locked [OF recovered_kept [OF K]] by auto
  qed
qed

lemma crash_recovery_spec:
  assumes start: "merge_start L z k l f" and stop: "merge_stops z l point z'"
  shows "\<exists>z''. merge_crash_recovery z' = Some (Inr z'') \<and> recovered z (lost_at point l f \<union> L) z'' \<and>
    (lost_at point l f = {} \<longrightarrow> no_merge_trace z'')"
proof -
  have l: "l < max_zone_level z" and l64: "l < 64" and tr: "no_merge_trace z" and g: "zone_geom z k"
    using start by (simp_all add: merge_start_def zone_geom_def)
  note e = start_enter [OF start]
  have fin: ?thesis if "merge_kept (locked z) z'" "point \<noteq> ''merge after 3''"
    "\<exists>z''. merge_crash_recovery z' = Some (Inr z'') \<and> recovered z' L z'' \<and> no_merge_trace z''"
    using that recovered_kept recovered_locked by (fastforce simp: lost_at_def)
  have m: "merge_in_progress y = 1" if "merge_kept (locked z) y" for y using merge_keptD(9) [OF that] by simp
  from stop show ?thesis
  proof cases
    case after_1
    then have z': "z' = locked z" by (simp add: e)
    show ?thesis
      by (rule fin) (use z' after_1 recover_idle [OF e(2)] tr in \<open>simp_all add: no_merge_trace_def\<close>)
  next
    case (after_2 z1)
    then have z': "z' = locked z\<lparr>current_merge_level := int l\<rparr>" by (simp add: e)
    have kz: "merge_kept (locked z) z'" "zone_rep (locked z) f' X \<Longrightarrow> zone_rep z' f' X" for f' X
      using merge_kept_fields [where z = "locked z" and z' = z' and bm = "merge_bitmap z" and sc = "safe_copy z" and
        cl = "int l" and st = "merge_status z"] by (simp_all add: z')
    have "stage_done L z' k f" using e(2) kz(2) merge_keptD(1,2) [OF kz(1)] by (simp add: stage_done_def) (simp add: z')
    from recover_entered [OF this, of l] l tr show ?thesis
      by (intro fin [OF kz(1)]) (use after_2 in \<open>simp_all add: z' no_merge_trace_def\<close>)
  next
    case (after_3 z1 z2)
    then have z2: "swap_freelist (locked z) l = Inr z2" and z': "z' = z2\<lparr>merge_status := MERGE_DEFAULT\<rparr>" by (simp_all add: e)
    from recover_after_swap [OF start z2 z'] show ?thesis using after_3 by (simp add: lost_at_def)
  next
    case (after_4 z1)
    then have "merge_stops z l ''merge after 4'' z'" using stop by simp
    note a = at_4 [OF start this]
    show ?thesis by (rule fin [OF a(2)]) (use after_4 recover_swapped [OF a(1) m [OF a(2)]] in simp_all)
  next
    case (after_5 z2 z3)
    note a = at_4 [OF start after_5(3)]
    from bitmap_stage [OF a(1)] after_5 have b: "stage_swapped L z' k l (f(l := [])) (f l)" "merge_kept z2 z3" by auto
    have "merge_kept z3 z'"
      using merge_kept_fields(1) [where z = z3 and z' = z' and bm = "merge_bitmap z3" and sc = "safe_copy z3" and
        cl = "current_merge_level z3" and st = MERGE_SWAP_COMPLETED] by (simp add: after_5)
    note K = merge_kept_trans [OF a(2) merge_kept_trans [OF b(2) this]]
    show ?thesis by (rule fin [OF K]) (use after_5 recover_swapped [OF b(1) m [OF K]] in simp_all)
  next
    case (after_6 z2)
    then have "merge_stops z l ''merge after 6'' z'" using stop by simp
    note a = at_6 [OF start this]
    show ?thesis by (rule fin [OF a(2)]) (use after_6 recover_built [OF a(1) m [OF a(2)]] in simp_all)
  next
    case (during_7 z3 n)
    note a = at_6 [OF start during_7(2)]
    from a(1) have h: "zone_geom z3 k" "l < max_zone_level z3" by (simp_all add: stage_bitmap_def held_stage_def)
    have size: "find_size_from_level (of_nat l) (min_obj_size z3) = 2 ^ (l + k)"
      using h by (simp add: zone_geom_def find_size_of_level)
    have "n \<le> 2 ^ max_zone_level z3 div 8"
      using during_7 len_in_bitmap [of "max_zone_level z3" l] h(1) by (simp add: zone_geom_def)
    from words_stage [OF a(1) this] during_7 have b: "stage_bitmap L z' k l (f(l := [])) (f l)" "merge_kept z3 z'"
      unfolding size by auto
    note K = merge_kept_trans [OF a(2) b(2)]
    show ?thesis by (rule fin [OF K]) (use during_7 recover_built [OF b(1) m [OF K]] in simp_all)
  next
    case (after_8 z3)
    then have "merge_stops z l ''merge after 8'' z'" using stop by simp
    note a = at_8 [OF start this]
    from a(1) recover_lists [OF _ m [OF a(2)] l64] after_8 show ?thesis by (intro fin [OF a(2)]) auto
  next
    case (during_9 z5)
    note a = at_8 [OF start during_9(2)]
    from a(1) obtain nx pm where "stage_lists L z5 k l (f(l := [])) nx pm" by blast
    from drain_stage [OF this] during_9 obtain f' where b: "stage_lists L z' k l f' [] pm" "merge_kept z5 z'" by auto
    note K = merge_kept_trans [OF a(2) b(2)]
    show ?thesis by (rule fin [OF K]) (use during_9 recover_lists [OF b(1) m [OF K] l64] in simp_all)
  next
    case (after_10 z5)
    then have "merge_stops z l ''merge after 10'' z'" using stop by simp
    note a = at_10 [OF start this]
    from a(1) recover_idle [OF _ m [OF a(2)] a(3)] after_10 show ?thesis by (intro fin [OF a(2)]) auto
  next
    case (after_11 z7)
    note a = at_10 [OF start after_11(2)]
    from a(1) obtain f' where d: "stage_done L z7 k f'" by blast
    note lv = leave_stage [OF d m [OF a(2)]]
    have z': "z' = z7\<lparr>merge_in_progress := 0\<rparr>" using after_11 m [OF a(2)] by (simp add: leave_merge_def)
    have "merge_crash_recovery z' = Some (Inr z')" by (simp add: merge_crash_recovery_def z')
    moreover have "recovered z7 L z'" using lv by (auto simp: recovered_def z')
    ultimately show ?thesis
      using recovered_locked [OF recovered_kept [OF a(2)]] a(3) after_11
      by (intro exI [of _ z']) (simp add: lost_at_def no_merge_trace_def z')
  qed
qed

end
