(* ===== verification/Zone_GC.thy ===== *)
theory Zone_GC
  imports Zone_Recover Zone_Coalesce
begin

text \<open>
  \<open>Zone::garbage_collection\<close> (\<open>src/shelf_usage/zone.cc\<close>): the chunks that are neither marked
  allocated nor on a free list are found with the merge bitmap, level by level, and pushed on
  the free lists. An access outside the merge bitmap is a fault of the model. The loop at the
  end of the function only prints a warning and is left out.
\<close>

section \<open>Runs of bits\<close>

text \<open>\<open>set_n_bits\<close> and \<open>check_n_bits\<close> work on bytes; their callers pass an offset below 8.\<close>

function set_n_bits :: "nat \<Rightarrow> (nat \<Rightarrow> u8) \<Rightarrow> nat \<Rightarrow> nat \<Rightarrow> nat \<Rightarrow> (nat \<Rightarrow> u8) result" where
  "set_n_bits area bm a offset n =
     (if n = 0 \<or> 8 \<le> offset then Inr bm
      else if area \<le> a then Inl Out_Of_Bounds
      else let to_fill = min (8 - offset) n;
               mark = ucast (push_bit offset (push_bit to_fill 1 - 1 :: u64)) :: u8
           in set_n_bits area (bm(a := bm a OR mark)) (Suc a) 0 (n - to_fill))"
  by pat_completeness auto
termination by (relation "measure (\<lambda>(area, bm, a, offset, n). n)") auto

function check_n_bits :: "nat \<Rightarrow> (nat \<Rightarrow> u8) \<Rightarrow> nat \<Rightarrow> nat \<Rightarrow> nat \<Rightarrow> bool result" where
  "check_n_bits area bm a offset n =
     (if n = 0 \<or> 8 \<le> offset then Inr True
      else if area \<le> a then Inl Out_Of_Bounds
      else let to_fill = min (8 - offset) n;
               mark = ucast (push_bit offset (push_bit to_fill 1 - 1 :: u64)) :: u8
           in if bm a AND mark \<noteq> mark then Inr False
              else check_n_bits area bm (Suc a) 0 (n - to_fill))"
  by pat_completeness auto
termination by (relation "measure (\<lambda>(area, bm, a, offset, n). n)") auto

declare set_n_bits.simps [simp del] check_n_bits.simps [simp del]

section \<open>The passes over one level\<close>

definition gc_set :: "zone \<Rightarrow> nat \<Rightarrow> nat \<Rightarrow> zone result" where
  "gc_set z i n = rbind (set_n_bits (merge_area z) (merge_bitmap z) (i div 8) (i mod 8) n)
     (\<lambda>bm. Inr (z\<lparr>merge_bitmap := bm\<rparr>))"

definition gc_check :: "zone \<Rightarrow> nat \<Rightarrow> nat \<Rightarrow> bool result" where
  "gc_check z i n = check_n_bits (merge_area z) (merge_bitmap z) (i div 8) (i mod 8) n"

text \<open>3.1: mark the allocated chunks of the level.\<close>

function gc_allocated :: "zone \<Rightarrow> nat \<Rightarrow> nat \<Rightarrow> nat \<Rightarrow> zone result" where
  "gc_allocated z level cnt i =
     (if i < cnt
      then let entry = zentries z (of_nat i + 1)
           in rbind (if is_allocated entry \<and> get_level entry = of_nat level then gc_set z i (2 ^ level) else Inr z)
                (\<lambda>z. gc_allocated z level cnt (i + 2 ^ level))
      else Inr z)"
  by pat_completeness auto
termination by (relation "measure (\<lambda>(z, level, cnt, i). cnt - i)") (auto intro!: diff_less_mono2)

text \<open>3.2: mark the chunks on the level's free list; \<open>None\<close> if the list is a cycle.\<close>

partial_function (option) gc_walk :: "zone \<Rightarrow> nat \<Rightarrow> u64 \<Rightarrow> zone result option" where
  "gc_walk z n idx =
     (if idx = 0 then Some (Inr z)
      else let next_idx = get_next (zentries z idx)
           in case gc_set z (unat (idx - 1)) n of
                Inl f \<Rightarrow> Some (Inl f)
              | Inr z \<Rightarrow> gc_walk z n next_idx)"

text \<open>3.3 and 3.4: a pair of chunks of which only one is marked shows that the other is lost.\<close>

definition gc_pair :: "zone \<Rightarrow> nat \<Rightarrow> nat \<Rightarrow> zone result" where
  "gc_pair z level i =
     (let n = 2 ^ level; chunk_size = find_size_from_level (of_nat level) (min_obj_size z)
      in rbind (gc_check z i n) (\<lambda>res1. rbind (gc_check z (i + n) n) (\<lambda>res2.
         rbind (if \<not> res1 \<and> res2
                then rbind (push_free z level (of_nat (i div n) * chunk_size div min_obj_size z)) (\<lambda>z. gc_set z i n)
                else Inr z) (\<lambda>z.
           if res1 \<and> \<not> res2
           then rbind (push_free z level (of_nat (i div n + 1) * chunk_size div min_obj_size z)) (\<lambda>z. gc_set z (i + n) n)
           else Inr z))))"

function gc_pairs :: "zone \<Rightarrow> nat \<Rightarrow> nat \<Rightarrow> nat \<Rightarrow> zone result" where
  "gc_pairs z level cnt i =
     (if i < cnt then rbind (gc_pair z level i) (\<lambda>z. gc_pairs z level cnt (i + 2 * 2 ^ level)) else Inr z)"
  by pat_completeness auto
termination by (relation "measure (\<lambda>(z, level, cnt, i). cnt - i)") (auto intro!: diff_less_mono2)

declare gc_allocated.simps [simp del] gc_pairs.simps [simp del]

definition gc_level :: "zone \<Rightarrow> nat \<Rightarrow> zone result option" where
  "gc_level z level =
     obind (Some (gc_allocated z level (2 ^ max_zone_level z) 0)) (\<lambda>z.
     obind (gc_walk z (2 ^ level) (head (free_list z level))) (\<lambda>z.
       Some (gc_pairs z level (2 ^ max_zone_level z) 0)))"

function gc_levels :: "zone \<Rightarrow> nat \<Rightarrow> nat \<Rightarrow> zone result option" where
  "gc_levels z level max_level =
     (if level \<le> max_level then obind (gc_level z level) (\<lambda>z. gc_levels z (Suc level) max_level) else Some (Inr z))"
  by pat_completeness auto
termination by (relation "measure (\<lambda>(z, level, max_level). Suc max_level - level)") auto

declare gc_levels.simps [simp del]

definition garbage_collection :: "zone \<Rightarrow> zone result option" where
  "garbage_collection z = obind (Some (clear_merge_bitmap z)) (\<lambda>z. gc_levels z 0 (max_zone_level z))"

definition offline_recover :: "zone \<Rightarrow> zone result option" where
  "offline_recover z = obind (Some (grow_crash_recovery z)) (\<lambda>z. obind (merge_crash_recovery z) garbage_collection)"

section \<open>What the runs of bits do\<close>

lemma bit_mark:
  assumes "offset + t \<le> 8"
  shows "bit (ucast (push_bit offset (push_bit t 1 - 1 :: u64)) :: u8) j \<longleftrightarrow> offset \<le> j \<and> j < offset + t"
proof -
  have "push_bit t 1 - 1 = (mask t :: u64)" by (simp add: push_bit_eq_mult mask_eq_exp_minus_1)
  then show ?thesis using assms by (auto simp: bit_ucast_iff bit_push_bit_iff bit_mask_iff)
qed

lemma byte_pos: "8 * a \<le> m \<and> m < 8 * a + 8 \<longleftrightarrow> m div 8 = (a :: nat)"
  by auto

lemma set_n_bits_spec:
  assumes "offset < 8" "8 * a + offset + n \<le> 8 * area"
  shows "\<exists>bm'. set_n_bits area bm a offset n = Inr bm' \<and>
    (\<forall>m. bm_bit bm' m \<longleftrightarrow> bm_bit bm m \<or> (8 * a + offset \<le> m \<and> m < 8 * a + offset + n))"
  using assms
proof (induction n arbitrary: bm a offset rule: less_induct)
  case (less n)
  show ?case
  proof (cases "n = 0")
    case True
    then show ?thesis by (intro exI [of _ bm]) (auto simp: set_n_bits.simps)
  next
    case False
    let ?t = "min (8 - offset) n"
    let ?b = "bm(a := bm a OR ucast (push_bit offset (push_bit ?t 1 - 1 :: u64)))"
    have t: "n - ?t < n" "offset + ?t \<le> 8" "?t \<le> n" using False less.prems(1) by auto
    have "\<exists>bm'. set_n_bits area ?b (Suc a) 0 (n - ?t) = Inr bm' \<and>
        (\<forall>m. bm_bit bm' m \<longleftrightarrow> bm_bit ?b m \<or> (8 * Suc a + 0 \<le> m \<and> m < 8 * Suc a + 0 + (n - ?t)))"
    proof (cases "n \<le> 8 - offset")
      case True
      then have "n - ?t = 0" by simp
      then show ?thesis by (simp only:) (intro exI [of _ ?b], auto simp: set_n_bits.simps)
    next
      case False
      then have "8 * Suc a + 0 + (n - ?t) \<le> 8 * area" using less.prems by auto
      from less.IH [OF t(1) _ this] show ?thesis by simp
    qed
    then obtain bm' where bm': "set_n_bits area ?b (Suc a) 0 (n - ?t) = Inr bm'"
      "\<And>m. bm_bit bm' m \<longleftrightarrow> bm_bit ?b m \<or> (8 * Suc a \<le> m \<and> m < 8 * Suc a + (n - ?t))" by auto
    have b: "bm_bit ?b m \<longleftrightarrow> bm_bit bm m \<or> (8 * a + offset \<le> m \<and> m < 8 * a + offset + ?t)" for m
    proof (cases "m div 8 = a")
      case True
      then have m: "m = 8 * a + m mod 8" by auto
      have "bm_bit ?b m \<longleftrightarrow> bm_bit bm m \<or> (offset \<le> m mod 8 \<and> m mod 8 < offset + ?t)"
        unfolding bm_bit_def True using bit_mark [OF t(2)] by (simp add: bit_or_iff)
      then show ?thesis by (subst (3 4) m) simp
    next
      case False
      then have "bm_bit ?b m \<longleftrightarrow> bm_bit bm m" by (simp add: bm_bit_def)
      moreover have "\<not> (8 * a + offset \<le> m \<and> m < 8 * a + offset + ?t)" using False t(2) byte_pos [of a m] by linarith
      ultimately show ?thesis by blast
    qed
    have "a < area" using False less.prems by linarith
    then have "set_n_bits area bm a offset n = Inr bm'"
      using False less.prems(1) bm'(1) by (subst set_n_bits.simps) (simp add: Let_def)
    moreover have "bm_bit bm' m \<longleftrightarrow> bm_bit bm m \<or> (8 * a + offset \<le> m \<and> m < 8 * a + offset + n)" for m
      unfolding bm'(2) b using less.prems(1) by (auto simp: min_def)
    ultimately show ?thesis by blast
  qed
qed

lemma byte_marked:
  assumes t: "offset + t \<le> 8"
  shows "bm a AND (ucast (push_bit offset (push_bit t 1 - 1 :: u64)) :: u8) = ucast (push_bit offset (push_bit t 1 - 1 :: u64)) \<longleftrightarrow>
    (\<forall>m. 8 * a + offset \<le> m \<and> m < 8 * a + offset + t \<longrightarrow> bm_bit bm m)"
    (is "_ AND ?mk = _ \<longleftrightarrow> _")
proof
  assume e: "bm a AND ?mk = ?mk"
  show "\<forall>m. 8 * a + offset \<le> m \<and> m < 8 * a + offset + t \<longrightarrow> bm_bit bm m"
  proof (intro allI impI)
    fix m
    assume m: "8 * a + offset \<le> m \<and> m < 8 * a + offset + t"
    then have d: "m div 8 = a" using byte_pos [of a m] t by linarith
    then have "m = 8 * a + m mod 8" by auto
    then have "bit ?mk (m mod 8)" using bit_mark [OF t, of "m mod 8"] m by linarith
    then have "bit (bm a AND ?mk) (m mod 8)" by (simp only: e)
    then show "bm_bit bm m" by (simp add: bm_bit_def d bit_and_iff)
  qed
next
  assume h: "\<forall>m. 8 * a + offset \<le> m \<and> m < 8 * a + offset + t \<longrightarrow> bm_bit bm m"
  show "bm a AND ?mk = ?mk"
  proof (rule bit_word_eqI)
    fix j
    show "bit (bm a AND ?mk) j \<longleftrightarrow> bit ?mk j"
    proof (cases "bit ?mk j")
      case True
      then have j: "offset \<le> j" "j < offset + t" using bit_mark [OF t] by blast+
      then have "bm_bit bm (8 * a + j)" using h by simp
      moreover have "(8 * a + j) div 8 = a" "(8 * a + j) mod 8 = j" using j t by auto
      ultimately show ?thesis by (simp add: bm_bit_def bit_and_iff)
    qed (simp add: bit_and_iff)
  qed
qed

lemma check_n_bits_spec:
  assumes "offset < 8" "8 * a + offset + n \<le> 8 * area"
  shows "check_n_bits area bm a offset n = Inr (\<forall>m. 8 * a + offset \<le> m \<and> m < 8 * a + offset + n \<longrightarrow> bm_bit bm m)"
  using assms
proof (induction n arbitrary: a offset rule: less_induct)
  case (less n)
  show ?case
  proof (cases "n = 0")
    case True
    then show ?thesis by (auto simp: check_n_bits.simps)
  next
    case False
    let ?t = "min (8 - offset) n"
    let ?mark = "ucast (push_bit offset (push_bit ?t 1 - 1 :: u64)) :: u8"
    have t: "n - ?t < n" "offset + ?t \<le> 8" "?t \<le> n" using False less.prems(1) by auto
    have rest: "check_n_bits area bm (Suc a) 0 (n - ?t) =
        Inr (\<forall>m. 8 * Suc a + 0 \<le> m \<and> m < 8 * Suc a + 0 + (n - ?t) \<longrightarrow> bm_bit bm m)"
    proof (cases "n \<le> 8 - offset")
      case True
      then have "n - ?t = 0" by simp
      then show ?thesis by (simp only:) (auto simp: check_n_bits.simps)
    next
      case False
      then have "8 * Suc a + 0 + (n - ?t) \<le> 8 * area" using less.prems by auto
      from less.IH [OF t(1) _ this] show ?thesis by simp
    qed
    note m = byte_marked [OF t(2), of bm a]
    have "a < area" using False less.prems by linarith
    then have "check_n_bits area bm a offset n = (if bm a AND ?mark \<noteq> ?mark then Inr False
        else check_n_bits area bm (Suc a) 0 (n - ?t))"
      using False less.prems(1) by (subst check_n_bits.simps) (simp add: Let_def)
    also have "\<dots> = Inr (\<forall>m. 8 * a + offset \<le> m \<and> m < 8 * a + offset + n \<longrightarrow> bm_bit bm m)"
    proof (cases "bm a AND ?mark = ?mark")
      case True
      have "(8 * a + offset \<le> x \<and> x < 8 * a + offset + n) \<longleftrightarrow> (8 * a + offset \<le> x \<and> x < 8 * a + offset + ?t) \<or>
          (8 * Suc a + 0 \<le> x \<and> x < 8 * Suc a + 0 + (n - ?t))" for x
        using less.prems(1) by (auto simp: min_def)
      then have e: "(\<forall>x. 8 * a + offset \<le> x \<and> x < 8 * a + offset + n \<longrightarrow> bm_bit bm x) \<longleftrightarrow>
          (\<forall>x. 8 * a + offset \<le> x \<and> x < 8 * a + offset + ?t \<longrightarrow> bm_bit bm x) \<and>
          (\<forall>x. 8 * Suc a + 0 \<le> x \<and> x < 8 * Suc a + 0 + (n - ?t) \<longrightarrow> bm_bit bm x)"
        by (simp only: imp_disjL all_conj_distrib)
      from m True have P: "\<forall>x. 8 * a + offset \<le> x \<and> x < 8 * a + offset + ?t \<longrightarrow> bm_bit bm x" by (rule iffD1)
      show ?thesis by (simp only: e eqTrueI [OF P] eqTrueI [OF True] rest not_True_eq_False if_False simp_thms)
    next
      case False
      then obtain x where "8 * a + offset \<le> x" "x < 8 * a + offset + ?t" "\<not> bm_bit bm x" using m by blast
      then have "\<not> (\<forall>m. 8 * a + offset \<le> m \<and> m < 8 * a + offset + n \<longrightarrow> bm_bit bm m)" using t(3) by (meson add_le_cancel_left less_le_trans)
      then show ?thesis using False by (simp only: if_True simp_thms if_False)
    qed
    finally show ?thesis .
  qed
qed

lemma bit_pos: "8 * (i div 8) + i mod 8 = (i :: nat)" "i mod 8 < (8 :: nat)"
  by simp_all

lemma area_bits:
  assumes "bitmap_fits z" "zone_geom z k" "i + n \<le> 2 ^ max_zone_level z"
  shows "8 * (i div 8) + i mod 8 + n \<le> 8 * merge_area z"
proof -
  have "6 \<le> max_zone_level z" using assms(2) by (simp add: zone_geom_def)
  then have "(2 :: nat) ^ max_zone_level z = 8 * 2 ^ (max_zone_level z - 3)"
    using power_add [of "2 :: nat" 3 "max_zone_level z - 3"] by simp
  then have "2 ^ max_zone_level z \<le> 8 * merge_area z" using assms(1) by (simp add: bitmap_fits_def)
  then show ?thesis using assms(3) bit_pos(1) [of i] by linarith
qed

lemma gc_set_spec:
  assumes "bitmap_fits z" "zone_geom z k" "u + 2 ^ l \<le> 2 ^ max_zone_level z"
  shows "\<exists>bm. gc_set z u (2 ^ l) = Inr (z\<lparr>merge_bitmap := bm\<rparr>) \<and>
    (\<forall>m. bm_bit bm m \<longleftrightarrow> bm_bit (merge_bitmap z) m \<or> m \<in> span (l, u))"
  using set_n_bits_spec [OF bit_pos(2) area_bits [OF assms], of "merge_bitmap z"] bit_pos(1) [of u]
  by (auto simp: gc_set_def)

lemma gc_check_spec:
  assumes "bitmap_fits z" "zone_geom z k" "u + 2 ^ l \<le> 2 ^ max_zone_level z"
  shows "gc_check z u (2 ^ l) = Inr (\<forall>m \<in> span (l, u). bm_bit (merge_bitmap z) m)"
  using check_n_bits_spec [OF bit_pos(2) area_bits [OF assms], of "merge_bitmap z"] bit_pos(1) [of u]
  by (simp add: gc_check_def Ball_def)

section \<open>Marking what is not lost\<close>

lemma with_bitmap:
  "bitmap_fits (z\<lparr>merge_bitmap := b\<rparr>) = bitmap_fits z" "zone_geom (z\<lparr>merge_bitmap := b\<rparr>) k = zone_geom z k"
  "alloc_blocks (z\<lparr>merge_bitmap := b\<rparr>) = alloc_blocks z" "zone_rep (z\<lparr>merge_bitmap := b\<rparr>) f X = zone_rep z f X"
  "free_blocks (z\<lparr>merge_bitmap := b\<rparr>) f = free_blocks z f"
proof -
  let ?z = "z\<lparr>merge_bitmap := b\<rparr>"
  show "bitmap_fits ?z = bitmap_fits z" "zone_geom ?z k = zone_geom z k" "alloc_blocks ?z = alloc_blocks z"
    "free_blocks ?z f = free_blocks z f"
    by (simp_all add: bitmap_fits_def merge_area_def zone_geom_def alloc_blocks_def free_blocks_def)
  show "zone_rep ?z f X = zone_rep z f X"
    using zone_rep_frame(1) [of z f X ?z] zone_rep_frame(1) [of ?z f X z] by (auto simp: same_geom_def)
qed

lemma aligned_fits:
  assumes "2 ^ l dvd i" "i < 2 ^ m" "l \<le> m"
  shows "i + 2 ^ l \<le> (2 :: nat) ^ m"
proof -
  from assms(1) obtain c where i: "i = 2 ^ l * c" by blast
  have m: "(2 :: nat) ^ m = 2 ^ l * 2 ^ (m - l)" using assms(3) by (simp flip: power_add)
  have "c < 2 ^ (m - l)" using assms(2) unfolding i m by simp
  then have "2 ^ l * (c + 1) \<le> 2 ^ l * 2 ^ (m - l)" by (intro mult_le_mono2) simp
  then show ?thesis unfolding i m by simp
qed

lemma next_aligned:
  assumes "2 ^ l dvd i" "2 ^ l dvd u"
  shows "i \<le> u \<longleftrightarrow> u = i \<or> i + 2 ^ l \<le> (u :: nat)"
proof -
  from assms obtain c d where e: "i = 2 ^ l * c" "u = 2 ^ l * d" by (auto elim!: dvdE)
  have "2 ^ l * c + 2 ^ l = 2 ^ l * (c + 1)" by (simp only: distrib_left mult_1_right)
  then have a: "2 ^ l * c + 2 ^ l \<le> 2 ^ l * d \<longleftrightarrow> c + 1 \<le> d" by (simp only: mult_le_cancel1) simp
  show ?thesis unfolding e a by auto
qed

lemma gc_allocated_spec:
  assumes rep: "zone_rep z f X" and geom: "zone_geom z k" and fits: "bitmap_fits z" and l: "l \<le> max_zone_level z"
    and i: "2 ^ l dvd i"
  shows "\<exists>bm. gc_allocated (z\<lparr>merge_bitmap := b\<rparr>) l (2 ^ max_zone_level z) i = Inr (z\<lparr>merge_bitmap := bm\<rparr>) \<and>
    (\<forall>m. bm_bit bm m \<longleftrightarrow> bm_bit b m \<or> (\<exists>u \<ge> i. (l, u) \<in> alloc_blocks z \<and> m \<in> span (l, u)))"
  using i
proof (induction "2 ^ max_zone_level z - i" arbitrary: b i rule: less_induct)
  case less
  let ?M = "2 ^ max_zone_level z :: nat" and ?z = "z\<lparr>merge_bitmap := b\<rparr>"
  have L: "l < 64" using geom l by (simp add: zone_geom_def)
  have lw: "get_level v = of_nat l \<longleftrightarrow> l = unat (get_level v)" for v
    using unat_of_nat_64 [of l] L by (auto simp: word_unat_eq_iff)
  have in_zone: "u < ?M" if "(l, u) \<in> alloc_blocks z" for u
    using geom_unit_lt(5) [OF geom] that by (auto simp: alloc_blocks_def)
  show ?case
  proof (cases "i < ?M")
    case False
    then have "gc_allocated ?z l ?M i = Inr ?z" by (subst gc_allocated.simps) simp
    moreover have "(l, u) \<notin> alloc_blocks z" if "u \<ge> i" for u using in_zone [of u] that False by linarith
    ultimately show ?thesis by blast
  next
    case True
    have here: "is_allocated (zentries z (of_nat i + 1)) \<and> get_level (zentries z (of_nat i + 1)) = of_nat l \<longleftrightarrow>
        (l, i) \<in> alloc_blocks z"
    proof (cases "i < 2 ^ current_zone_level z")
      case True
      then show ?thesis using lw by (auto simp: alloc_blocks_def slot_def)
    next
      case False
      then have "\<not> is_allocated (zentries z (slot i))"
        using zone_repD(9) [OF rep] \<open>i < ?M\<close> by (simp add: ungrown_clear_def)
      then show ?thesis using False by (auto simp: alloc_blocks_def slot_def)
    qed
    have step: "?M - (i + 2 ^ l) < ?M - i" using True by (intro diff_less_mono2) simp_all
    have dv: "2 ^ l dvd i + 2 ^ l" using less.prems by simp
    have later: "(\<exists>u \<ge> i. (l, u) \<in> alloc_blocks z \<and> m \<in> span (l, u)) \<longleftrightarrow>
        ((l, i) \<in> alloc_blocks z \<and> m \<in> span (l, i)) \<or> (\<exists>u \<ge> i + 2 ^ l. (l, u) \<in> alloc_blocks z \<and> m \<in> span (l, u))" for m
    proof -
      have "i \<le> u \<longleftrightarrow> u = i \<or> i + 2 ^ l \<le> u" if "(l, u) \<in> alloc_blocks z" for u
        using next_aligned [OF less.prems] zone_repD(6) [OF rep, of l u] that by (simp add: blocks_of_def)
      then show ?thesis by blast
    qed
    show ?thesis
    proof (cases "(l, i) \<in> alloc_blocks z")
      case False
      from less.hyps [OF step dv, of b] obtain bm where
        bm: "gc_allocated ?z l ?M (i + 2 ^ l) = Inr (z\<lparr>merge_bitmap := bm\<rparr>)"
        "\<And>m. bm_bit bm m \<longleftrightarrow> bm_bit b m \<or> (\<exists>u \<ge> i + 2 ^ l. (l, u) \<in> alloc_blocks z \<and> m \<in> span (l, u))" by blast
      have "gc_allocated ?z l ?M i = Inr (z\<lparr>merge_bitmap := bm\<rparr>)"
        using True False here bm(1) by (subst gc_allocated.simps) (auto simp: Let_def)
      then show ?thesis using bm(2) False unfolding later by blast
    next
      case al: True
      have "i + 2 ^ l \<le> 2 ^ max_zone_level ?z" using aligned_fits [OF less.prems True l] by simp
      from gc_set_spec [OF _ _ this, of k] fits geom obtain b' where
        b': "gc_set ?z i (2 ^ l) = Inr (z\<lparr>merge_bitmap := b'\<rparr>)" "\<And>m. bm_bit b' m \<longleftrightarrow> bm_bit b m \<or> m \<in> span (l, i)"
        by (auto simp: with_bitmap)
      from less.hyps [OF step dv, of b'] obtain bm where
        bm: "gc_allocated (z\<lparr>merge_bitmap := b'\<rparr>) l ?M (i + 2 ^ l) = Inr (z\<lparr>merge_bitmap := bm\<rparr>)"
        "\<And>m. bm_bit bm m \<longleftrightarrow> bm_bit b' m \<or> (\<exists>u \<ge> i + 2 ^ l. (l, u) \<in> alloc_blocks z \<and> m \<in> span (l, u))" by blast
      have "gc_allocated ?z l ?M i = Inr (z\<lparr>merge_bitmap := bm\<rparr>)"
        using True al here bm(1) b'(1) by (subst gc_allocated.simps) (simp add: Let_def)
      then show ?thesis using bm(2) b'(2) al unfolding later by blast
    qed
  qed
qed

lemma gc_walk_spec:
  assumes "chain (zentries z) idx us" "bitmap_fits z" "zone_geom z k" "\<And>u. u \<in> set us \<Longrightarrow> u + 2 ^ l \<le> 2 ^ max_zone_level z"
  shows "\<exists>bm. gc_walk (z\<lparr>merge_bitmap := b\<rparr>) (2 ^ l) idx = Some (Inr (z\<lparr>merge_bitmap := bm\<rparr>)) \<and>
    (\<forall>m. bm_bit bm m \<longleftrightarrow> bm_bit b m \<or> (\<exists>u \<in> set us. m \<in> span (l, u)))"
  using assms(1,4)
proof (induction us arbitrary: b idx)
  case Nil
  then have "gc_walk (z\<lparr>merge_bitmap := b\<rparr>) (2 ^ l) idx = Some (Inr (z\<lparr>merge_bitmap := b\<rparr>))"
    by (subst gc_walk.simps) simp
  then show ?case by (intro exI [of _ b]) simp
next
  case (Cons u us)
  let ?z = "z\<lparr>merge_bitmap := b\<rparr>"
  have idx: "idx = slot u" "idx \<noteq> 0" "chain (zentries z) (get_next (zentries z idx)) us" "Suc u < 2 ^ 56"
    using Cons.prems(1) slot_ne_0 [of u] by auto
  have un: "unat (idx - 1) = u" using idx(4) unat_of_nat_64 [of u] by (simp add: idx(1) slot_def)
  have "u + 2 ^ l \<le> 2 ^ max_zone_level ?z" using Cons.prems(2) by simp
  from gc_set_spec [OF _ _ this, of k] assms(2,3) obtain b' where
    b': "gc_set ?z u (2 ^ l) = Inr (z\<lparr>merge_bitmap := b'\<rparr>)" "\<And>m. bm_bit b' m \<longleftrightarrow> bm_bit b m \<or> m \<in> span (l, u)"
    by (auto simp: with_bitmap)
  from Cons.IH [OF idx(3), of b'] Cons.prems(2) obtain bm where
    bm: "gc_walk (z\<lparr>merge_bitmap := b'\<rparr>) (2 ^ l) (get_next (zentries z idx)) = Some (Inr (z\<lparr>merge_bitmap := bm\<rparr>))"
    "\<And>m. bm_bit bm m \<longleftrightarrow> bm_bit b' m \<or> (\<exists>u \<in> set us. m \<in> span (l, u))" by auto
  have "gc_walk ?z (2 ^ l) idx = Some (Inr (z\<lparr>merge_bitmap := bm\<rparr>))"
    using idx(2) un b'(1) bm(1) by (subst gc_walk.simps) (simp add: Let_def)
  then show ?case using bm(2) b'(2) by auto
qed

section \<open>Finding what is lost\<close>

text \<open>
  In the pass over the pairs of level \<open>l\<close>, at unit \<open>i\<close>: exactly the units of free and allocated
  chunks up to this level are marked, and the lost blocks \<open>X\<close> are of this level from \<open>i\<close> on, or
  of a higher one.
\<close>

definition marked :: "zone \<Rightarrow> (nat \<Rightarrow> nat list) \<Rightarrow> nat \<Rightarrow> nat \<Rightarrow> bool" where
  "marked z f l m \<longleftrightarrow> (\<exists>b \<in> free_blocks z f \<union> alloc_blocks z. fst b \<le> l \<and> m \<in> span b)"

definition gc_mid :: "zone \<Rightarrow> nat \<Rightarrow> (nat \<Rightarrow> nat list) \<Rightarrow> block set \<Rightarrow> nat \<Rightarrow> nat \<Rightarrow> bool" where
  "gc_mid z k f X l i \<longleftrightarrow> zone_geom z k \<and> bitmap_fits z \<and> zone_rep z f X \<and>
     (\<forall>(j, u) \<in> X. l \<le> j \<and> (j = l \<longrightarrow> i \<le> u)) \<and>
     (\<forall>m < 2 ^ max_zone_level z. bm_bit (merge_bitmap z) m \<longleftrightarrow> marked z f l m)"

text \<open>Half \<open>h\<close> of a pair is fully marked exactly if it is in a chunk that is not lost and not
  larger; \<open>(j, v)\<close> is the block that the unit \<open>h\<close> lies in.\<close>

lemma half_full:
  assumes mid: "gc_mid z k f X l i" and h: "2 ^ l dvd h" "h + 2 ^ l \<le> 2 ^ current_zone_level z"
    and b: "(j, v) \<in> blocks_of z f X" "h div 2 ^ j = v div 2 ^ j"
  shows "(\<forall>m \<in> span (l, h). bm_bit (merge_bitmap z) m) \<longleftrightarrow> (j, v) \<in> free_blocks z f \<union> alloc_blocks z \<and> j \<le> l"
proof -
  from mid have rep: "zone_rep z f X" and X: "\<And>j u. (j, u) \<in> X \<Longrightarrow> l \<le> j" and geom: "zone_geom z k"
    and bits: "\<And>m. m < 2 ^ max_zone_level z \<Longrightarrow> bm_bit (merge_bitmap z) m \<longleftrightarrow> marked z f l m"
    by (auto simp: gc_mid_def)
  have le: "(2 :: nat) ^ current_zone_level z \<le> 2 ^ max_zone_level z" using geom by (simp add: zone_geom_def)
  have B: "c \<in> blocks_of z f X" if "c \<in> free_blocks z f \<union> alloc_blocks z" for c using that by (simp add: blocks_of_def)
  have at: "c = (j, v)" if "c \<in> blocks_of z f X" "h \<in> span c" for c
  proof -
    obtain n w where c: "c = (n, w)" by (cases c)
    with that have n: "(n, w) \<in> blocks_of z f X" "h \<in> span (n, w)" by simp_all
    from span_aligned [OF zone_repD(6) [OF rep n(1)]] n(2) have "h div 2 ^ n = w div 2 ^ n" by blast
    from rep_same_block [OF rep b(1) n(1) b(2) this] show ?thesis by (simp add: c)
  qed
  have hs: "h \<in> span (l, h)" by simp
  have "(0 :: nat) < 2 ^ l" by simp
  then have hb: "h < 2 ^ max_zone_level z" using h(2) le by linarith
  show ?thesis
  proof
    assume all: "\<forall>m \<in> span (l, h). bm_bit (merge_bitmap z) m"
    then have "marked z f l h" using hs bits [OF hb] by blast
    then obtain c where c: "c \<in> free_blocks z f \<union> alloc_blocks z" "fst c \<le> l" "h \<in> span c" unfolding marked_def by blast
    from at [OF B [OF c(1)] c(3)] c(1,2) show "(j, v) \<in> free_blocks z f \<union> alloc_blocks z \<and> j \<le> l" by auto
  next
    assume jv: "(j, v) \<in> free_blocks z f \<union> alloc_blocks z \<and> j \<le> l"
    show "\<forall>m \<in> span (l, h). bm_bit (merge_bitmap z) m"
    proof
      fix m
      assume m: "m \<in> span (l, h)"
      have mz: "m < 2 ^ current_zone_level z" "m div 2 ^ l = h div 2 ^ l"
        using m h(2) span_aligned [OF h(1), of m] by (simp, blast)
      from mz(1) obtain n w where n: "(n, w) \<in> blocks_of z f X" "m div 2 ^ n = w div 2 ^ n" "2 ^ n dvd w"
        by (rule rep_block_of [OF rep])
      have big: "n = j \<and> w = v" if "l \<le> n"
      proof -
        have "h div 2 ^ n = w div 2 ^ n" using div_level_mono [OF mz(2) that] n(2) by simp
        from rep_same_block [OF rep b(1) n(1) b(2) this] show ?thesis by simp
      qed
      have "(n, w) \<in> free_blocks z f \<union> alloc_blocks z \<and> n \<le> l"
      proof (cases "l \<le> n")
        case True
        with big have e: "n = j" "w = v" by blast+
        show ?thesis unfolding e by (rule jv)
      next
        case False
        with X [of n w] n(1) show ?thesis by (auto simp: blocks_of_def)
      qed
      moreover have "m \<in> span (n, w)" using n span_aligned by blast
      ultimately have "marked z f l m" unfolding marked_def by (intro bexI [of _ "(n, w)"]) simp_all
      then show "bm_bit (merge_bitmap z) m" using bits [of m] mz(1) le by linarith
    qed
  qed
qed

definition gc_kept :: "zone \<Rightarrow> zone \<Rightarrow> bool" where
  "gc_kept z z' \<longleftrightarrow> (\<exists>e fl bm. z' = z\<lparr>zentries := e, free_list := fl, merge_bitmap := bm\<rparr>) \<and> alloc_blocks z' = alloc_blocks z"

lemma gc_kept_refl [simp]: "gc_kept z z"
  unfolding gc_kept_def by (intro conjI exI [of _ "zentries z"] exI [of _ "free_list z"] exI [of _ "merge_bitmap z"]) simp_all

lemma gc_kept_trans: "gc_kept x y \<Longrightarrow> gc_kept y z \<Longrightarrow> gc_kept x z"
  unfolding gc_kept_def by (elim exE conjE, simp) blast

lemma gc_kept_bitmap: "gc_kept z (z\<lparr>merge_bitmap := b\<rparr>)"
  unfolding gc_kept_def
  by (intro conjI exI [of _ "zentries z"] exI [of _ "free_list z"] exI [of _ b]) (simp_all add: with_bitmap)

lemma gc_kept_fields:
  assumes "gc_kept z z'"
  shows "same_geom z z'" "merge_area z' = merge_area z" "max_zone_level z' = max_zone_level z"
    "current_zone_level z' = current_zone_level z" "min_obj_size z' = min_obj_size z" "alloc_blocks z' = alloc_blocks z"
    "grow_in_progress z' = grow_in_progress z" "growable z' = growable z" "shelf z' = shelf z"
    "merge_idle z' = merge_idle z" "no_merge_trace z' = no_merge_trace z" "bitmap_fits z' = bitmap_fits z"
  using assms by (auto simp: gc_kept_def same_geom_def merge_area_def growable_def merge_idle_def no_merge_trace_def bitmap_fits_def)

text \<open>Giving back the lost chunk \<open>(l, h)\<close>.\<close>

lemma give_back:
  assumes mid: "gc_mid z k f X l i" and h: "(l, h) \<in> X"
  shows "\<exists>y z'. push_free z l (of_nat h) = Inr y \<and> gc_set y h (2 ^ l) = Inr z' \<and>
    zone_geom z' k \<and> bitmap_fits z' \<and> zone_rep z' (f(l := h # f l)) (X - {(l, h)}) \<and> gc_kept z z' \<and>
    (\<forall>m < 2 ^ max_zone_level z'. bm_bit (merge_bitmap z') m \<longleftrightarrow> marked z' (f(l := h # f l)) l m)"
proof -
  from mid have rep: "zone_rep z f X" and geom: "zone_geom z k" and fits: "bitmap_fits z"
    and bits: "\<And>m. m < 2 ^ max_zone_level z \<Longrightarrow> bm_bit (merge_bitmap z) m \<longleftrightarrow> marked z f l m"
    by (auto simp: gc_mid_def)
  from push_free_held [OF rep geom h] obtain y where
    y: "push_free z l (of_nat h) = Inr y" "zone_rep y (f(l := h # f l)) (X - {(l, h)})" "same_geom z y"
      "alloc_blocks y = alloc_blocks z" by blast
  from push_free_lists_only [OF y(1)] obtain e fl where ye: "y = z\<lparr>zentries := e, free_list := fl\<rparr>"
    by (auto simp: lists_only_def)
  have gy: "zone_geom y k" "bitmap_fits y" "merge_bitmap y = merge_bitmap z" "max_zone_level y = max_zone_level z"
    "current_zone_level y = current_zone_level z"
    using same_geom_geom [OF y(3) geom] fits by (simp_all add: ye bitmap_fits_def merge_area_def)
  have "(l, h) \<in> blocks_of z f X" using h by (simp add: blocks_of_def)
  from zone_repD(5) [OF rep this] rep_bound(1) [OF rep this] have l: "l \<le> current_zone_level z" and
    hb: "h + 2 ^ l \<le> 2 ^ current_zone_level z" by auto
  moreover have "(2 :: nat) ^ current_zone_level z \<le> 2 ^ max_zone_level z" using geom by (simp add: zone_geom_def)
  ultimately have "h + 2 ^ l \<le> 2 ^ max_zone_level y" unfolding gy(4) by linarith
  from gc_set_spec [OF gy(2,1) this] obtain bm where
    bm: "gc_set y h (2 ^ l) = Inr (y\<lparr>merge_bitmap := bm\<rparr>)" "\<And>m. bm_bit bm m \<longleftrightarrow> bm_bit (merge_bitmap y) m \<or> m \<in> span (l, h)"
    by blast
  let ?z = "y\<lparr>merge_bitmap := bm\<rparr>" and ?f = "f(l := h # f l)"
  have fb: "free_blocks ?z ?f = insert (l, h) (free_blocks z f)"
    using l by (auto simp: free_blocks_def gy(5) split: if_splits)
  have mk: "marked ?z ?f l m \<longleftrightarrow> marked z f l m \<or> m \<in> span (l, h)" for m
    unfolding marked_def fb using y(4) by (auto simp: with_bitmap simp del: span_pair)
  have "gc_kept z y" unfolding gc_kept_def using y(4) ye
    by (intro conjI exI [of _ e] exI [of _ fl] exI [of _ "merge_bitmap z"]) simp_all
  then have "gc_kept z ?z" using gc_kept_trans gc_kept_bitmap by blast
  moreover have "bm_bit (merge_bitmap ?z) m \<longleftrightarrow> marked ?z ?f l m" if "m < 2 ^ max_zone_level ?z" for m
    using that bm(2) bits [of m] unfolding mk by (simp add: gy(3,4))
  ultimately show ?thesis
    using y(1,2) bm(1) gy(1,2) by (intro exI [of _ y] exI [of _ ?z]) (simp add: with_bitmap)
qed

text \<open>A half that is not full is lost, or part of a larger block.\<close>

lemma half_not_full:
  assumes mid: "gc_mid z k f X l i" and h: "2 ^ l dvd h" "h + 2 ^ l \<le> 2 ^ current_zone_level z"
    and b: "(j, v) \<in> blocks_of z f X" "h div 2 ^ j = v div 2 ^ j" "j \<le> l"
    and nf: "\<not> (\<forall>m \<in> span (l, h). bm_bit (merge_bitmap z) m)"
  shows "(j, v) = (l, h)" "(l, h) \<in> X"
proof -
  from half_full [OF mid h b(1,2)] nf b(1,3) have x: "(j, v) \<in> X" by (auto simp: blocks_of_def)
  then have j: "j = l" using mid b(3) by (fastforce simp: gc_mid_def)
  from mid have rep: "zone_rep z f X" by (simp add: gc_mid_def)
  have "2 ^ l dvd v" using zone_repD(6) [OF rep b(1)] by (simp add: j)
  then have "v = h" using b(2) h(1) unfolding j by (metis dvd_div_mult_self)
  with x j show "(j, v) = (l, h)" "(l, h) \<in> X" by simp_all
qed

text \<open>After a pair, whatever part of its chunks is still lost is one chunk of the next level.\<close>

lemma gc_mid_next:
  assumes mid: "gc_mid z k f X l i" and da: "2 ^ l dvd i"
    and that: "zone_geom z' k" "bitmap_fits z'" "zone_rep z' g Y" "Y \<subseteq> insert (Suc l, i) X" "(l, i) \<notin> Y" "(l, i + 2 ^ l) \<notin> Y"
      "\<forall>m < 2 ^ max_zone_level z'. bm_bit (merge_bitmap z') m \<longleftrightarrow> marked z' g l m"
  shows "gc_mid z' k g Y l (i + 2 * 2 ^ l)"
proof -
  let ?a = i and ?b = "i + 2 ^ l"
  from mid have rep: "zone_rep z f X" and X: "\<And>j u. (j, u) \<in> X \<Longrightarrow> l \<le> j" "\<And>u. (l, u) \<in> X \<Longrightarrow> i \<le> u"
    by (auto simp: gc_mid_def)
  have db: "2 ^ l dvd ?b" using da by simp
  have after: "i + 2 * 2 ^ l \<le> u" if "(l, u) \<in> X" "u \<noteq> ?a" "u \<noteq> ?b" for u
  proof -
    have "2 ^ l dvd u" using zone_repD(6) [OF rep, of l u] that(1) by (simp add: blocks_of_def)
    with next_aligned [OF da this] next_aligned [OF db this] X(2) [OF that(1)] that(2,3) show ?thesis by simp
  qed
  show ?thesis
  unfolding gc_mid_def
  proof (intro conjI)
  show "\<forall>(j, u) \<in> Y. l \<le> j \<and> (j = l \<longrightarrow> i + 2 * 2 ^ l \<le> u)"
    using that(4,5,6) X(1) after by fastforce
  qed (use that in simp_all)
qed

lemma gc_unit_index:
  assumes geom: "zone_geom z k" and l: "l < current_zone_level z" and that: "h = c * 2 ^ l" "h < 2 ^ current_zone_level z"
  shows "of_nat c * find_size_from_level (of_nat l) (min_obj_size z) div min_obj_size z = of_nat h"
proof -
  have "find_size_from_level (of_nat l) (min_obj_size z) = 2 ^ (l + k)"
    using geom l by (simp add: zone_geom_def find_size_of_level)
  then show ?thesis using chunk_ptr [OF geom, of c l] off_div [OF geom that(2)] that(1) by simp
qed

lemma pair_blocks:
  assumes rep: "zone_rep z f X" and dv: "2 ^ Suc l dvd i" and i: "i < 2 ^ current_zone_level z" and ab: "i + 2 ^ l < 2 ^ current_zone_level z"
  obtains ja va jb vb where "(ja, va) \<in> blocks_of z f X" "i div 2 ^ ja = va div 2 ^ ja"
    "(jb, vb) \<in> blocks_of z f X" "(i + 2 ^ l) div 2 ^ jb = vb div 2 ^ jb" "l < ja \<or> l < jb \<Longrightarrow> (ja, va) = (jb, vb)"
proof -
  let ?a = i and ?b = "i + 2 ^ l"
  have "?b \<in> span (Suc l, i)" by simp
  then have up: "?a div 2 ^ n = ?b div 2 ^ n" if "l < n" for n
    using div_level_mono [of ?b "Suc l" ?a n] span_aligned [OF dv, of ?b] that by simp
  from rep_block_of [OF rep ab] obtain jb vb where B: "(jb, vb) \<in> blocks_of z f X" "?b div 2 ^ jb = vb div 2 ^ jb" by blast
  from rep_block_of [OF rep i] obtain ja va where A: "(ja, va) \<in> blocks_of z f X" "?a div 2 ^ ja = va div 2 ^ ja" by blast
  have joint: "(ja, va) = (jb, vb)" if "l < ja \<or> l < jb"
    using that
  proof
    assume "l < ja"
    then show ?thesis using rep_same_block [OF rep A(1) B(1) _ B(2)] up [of ja] A(2) by simp
  next
    assume "l < jb"
    then show ?thesis using rep_same_block [OF rep A(1) B(1) A(2)] up [of jb] B(2) by simp
  qed
  show ?thesis by (rule that [OF A B]) (rule joint)
qed

text \<open>A lost half whose other half is not lost goes back on the free list.\<close>

lemma gc_half_back:
  assumes mid: "gc_mid z k f X l i" and da: "2 ^ l dvd i" and h: "(l, h) \<in> X"
    and other: "(l, i) \<notin> X - {(l, h)}" "(l, i + 2 ^ l) \<notin> X - {(l, h)}"
  shows "\<exists>y z' f' X'. push_free z l (of_nat h) = Inr y \<and> gc_set y h (2 ^ l) = Inr z' \<and>
    gc_mid z' k f' X' l (i + 2 * 2 ^ l) \<and> gc_kept z z'"
proof -
  from give_back [OF mid h] obtain y z' where z': "push_free z l (of_nat h) = Inr y" "gc_set y h (2 ^ l) = Inr z'"
    "zone_geom z' k" "bitmap_fits z'" "zone_rep z' (f(l := h # f l)) (X - {(l, h)})" "gc_kept z z'"
    "\<forall>m < 2 ^ max_zone_level z'. bm_bit (merge_bitmap z') m \<longleftrightarrow> marked z' (f(l := h # f l)) l m" by blast
  from gc_mid_next [OF mid da z'(3-5) _ other z'(7)] z'(1,2,6) show ?thesis by blast
qed

lemma gc_pair_at:
  assumes mid: "gc_mid z k f X l i" and dv: "2 ^ Suc l dvd i" and i: "i < 2 ^ current_zone_level z" and l: "l < current_zone_level z"
  shows "\<exists>z' f' X'. gc_pair z l i = Inr z' \<and> gc_mid z' k f' X' l (i + 2 * 2 ^ l) \<and> gc_kept z z'"
proof -
  let ?a = i and ?b = "i + 2 ^ l"
  let ?full = "\<lambda>h. \<forall>m \<in> span (l, h). bm_bit (merge_bitmap z) m"
  from mid have rep: "zone_rep z f X" and geom: "zone_geom z k" and fits: "bitmap_fits z" and
    X: "\<And>j u. (j, u) \<in> X \<Longrightarrow> l \<le> j" "\<And>u. (l, u) \<in> X \<Longrightarrow> i \<le> u"
    and bits: "\<forall>m < 2 ^ max_zone_level z. bm_bit (merge_bitmap z) m \<longleftrightarrow> marked z f l m"
    by (auto simp: gc_mid_def)
  have pair: "i + 2 ^ Suc l \<le> 2 ^ current_zone_level z" using aligned_fits [OF dv i] l by simp
  have "2 ^ l dvd (2 :: nat) ^ Suc l" by simp
  then have da: "2 ^ l dvd ?a" using dv by (rule dvd_trans)
  then have db: "2 ^ l dvd ?b" by simp
  have ab: "?a + 2 ^ l \<le> 2 ^ current_zone_level z" "?b + 2 ^ l \<le> 2 ^ current_zone_level z" using pair by simp_all
  have le: "(2 :: nat) ^ current_zone_level z \<le> 2 ^ max_zone_level z" using geom by (simp add: zone_geom_def)
  have ck: "gc_check z ?a (2 ^ l) = Inr (?full ?a)" "gc_check z ?b (2 ^ l) = Inr (?full ?b)"
    by (rule gc_check_spec [OF fits geom]; use ab le in linarith)+
  have b: "?b < 2 ^ current_zone_level z" using ab(2) zero_less_power [of "2 :: nat" l] by linarith
  from pair_blocks [OF rep dv i b] obtain ja va jb vb where A: "(ja, va) \<in> blocks_of z f X" "?a div 2 ^ ja = va div 2 ^ ja"
    and B: "(jb, vb) \<in> blocks_of z f X" "?b div 2 ^ jb = vb div 2 ^ jb" and joint: "l < ja \<or> l < jb \<Longrightarrow> (ja, va) = (jb, vb)" by metis
  have inX: "?full h = False" if "(l, h) \<in> X" "2 ^ l dvd h" "h + 2 ^ l \<le> 2 ^ current_zone_level z" for h
    using half_full [OF mid that(2,3), of l h] zone_repD(7) [OF rep] that(1) by (auto simp: blocks_of_def)
  note midI = gc_mid_next [OF mid da]
  note idx = gc_unit_index [OF geom l]
  have ca: "?a = i div 2 ^ l * 2 ^ l" using da by simp
  then have cb: "?b = (i div 2 ^ l + 1) * 2 ^ l" by (simp only: distrib_right mult_1)
  note ia = idx [OF ca i] and ib = idx [OF cb b]
  note go = gc_pair_def Let_def rbind_simps simp_thms if_True if_False
  consider "?full ?a" "?full ?b" | "?full ?a" "\<not> ?full ?b" | "\<not> ?full ?a" "?full ?b" | "\<not> ?full ?a" "\<not> ?full ?b" by blast
  then show ?thesis
  proof cases
    case 1
    then have "(l, ?a) \<notin> X" "(l, ?b) \<notin> X" using inX da db ab by blast+
    from midI [OF geom fits rep _ this bits] have m: "gc_mid z k f X l (i + 2 * 2 ^ l)" by blast
    have c: "gc_check z ?a (2 ^ l) = Inr True" "gc_check z ?b (2 ^ l) = Inr True"
      unfolding ck Inr_inject using 1 by blast+
    then have "gc_pair z l i = Inr z" by (simp only: go)
    with m show ?thesis using gc_kept_refl by blast
  next
    case 2
    have ja: "ja \<le> l" using half_full [OF mid da ab(1) A] 2(1) by blast
    then have "jb \<le> l" using joint by fastforce
    from half_not_full [OF mid db ab(2) B this 2(2)] have b: "(l, ?b) \<in> X" by blast
    have "(l, ?a) \<notin> X" using inX [OF _ da ab(1)] 2(1) by blast
    with gc_half_back [OF mid da b] obtain y z' f' X' where z': "push_free z l (of_nat ?b) = Inr y" "gc_set y ?b (2 ^ l) = Inr z'"
      "gc_mid z' k f' X' l (i + 2 * 2 ^ l)" "gc_kept z z'" by blast
    have c: "gc_check z ?a (2 ^ l) = Inr True" "gc_check z ?b (2 ^ l) = Inr False"
      unfolding ck Inr_inject using 2 by blast+
    have "gc_pair z l i = Inr z'" by (simp only: go c ib z'(1,2))
    with z'(3,4) show ?thesis by blast
  next
    case 3
    have jb: "jb \<le> l" using half_full [OF mid db ab(2) B] 3(2) by blast
    then have "ja \<le> l" using joint by fastforce
    from half_not_full [OF mid da ab(1) A this 3(1)] have a: "(l, ?a) \<in> X" by blast
    have "(l, ?b) \<notin> X" using inX [OF _ db ab(2)] 3(2) by blast
    with gc_half_back [OF mid da a] obtain y z' f' X' where z': "push_free z l (of_nat ?a) = Inr y" "gc_set y ?a (2 ^ l) = Inr z'"
      "gc_mid z' k f' X' l (i + 2 * 2 ^ l)" "gc_kept z z'" by blast
    have c: "gc_check z ?a (2 ^ l) = Inr False" "gc_check z ?b (2 ^ l) = Inr True"
      unfolding ck Inr_inject using 3 by blast+
    have "gc_pair z l i = Inr z'" by (simp only: go c ia z'(1,2))
    with z'(3,4) show ?thesis by blast
  next
    case 4
    have c: "gc_check z ?a (2 ^ l) = Inr False" "gc_check z ?b (2 ^ l) = Inr False"
      unfolding ck Inr_inject using 4 by blast+
    then have pr: "gc_pair z l i = Inr z" by (simp only: go)
    have both: "(l, ?a) \<in> X \<and> (l, ?b) \<in> X" if "(l, ?a) \<in> X \<or> (l, ?b) \<in> X"
    proof -
      have "ja = l" if "(l, ?a) \<in> X"
        using rep_same_block [OF rep A(1), of l ?a ?a] A(2) that by (simp add: blocks_of_def)
      moreover have "jb = l" if "(l, ?b) \<in> X"
        using rep_same_block [OF rep B(1), of l ?b ?b] B(2) that by (simp add: blocks_of_def)
      ultimately have "ja \<le> l" "jb \<le> l" using that joint by fastforce+
      then show ?thesis
        using half_not_full(2) [OF mid da ab(1) A _ 4(1)] half_not_full(2) [OF mid db ab(2) B _ 4(2)] by blast
    qed
    show ?thesis
    proof (cases "(l, ?a) \<in> X")
      case True
      with both have b: "(l, ?b) \<in> X" by blast
      have rep': "zone_rep z f ((X - {(l, ?a), (l, ?b)}) \<union> {(Suc l, i)})"
        by (rule join_held [OF rep True b l dv])
      have "gc_mid z k f ((X - {(l, ?a), (l, ?b)}) \<union> {(Suc l, i)}) l (i + 2 * 2 ^ l)"
        by (rule midI [OF geom fits rep' _ _ _ bits]) auto
      with pr gc_kept_refl show ?thesis by blast
    next
      case False
      with both have "(l, ?b) \<notin> X" by blast
      from midI [OF geom fits rep _ False this bits] pr gc_kept_refl show ?thesis by blast
    qed
  qed
qed

text \<open>Beyond the part the zone has grown to, nothing is marked and nothing happens.\<close>

lemma gc_pair_beyond:
  assumes mid: "gc_mid z k f X l i" and i: "2 ^ current_zone_level z \<le> i" "i + 2 * 2 ^ l \<le> 2 ^ max_zone_level z"
  shows "gc_pair z l i = Inr z" "gc_mid z k f X l (i + 2 * 2 ^ l)"
proof -
  from mid have rep: "zone_rep z f X" and geom: "zone_geom z k" and fits: "bitmap_fits z" and
    bits: "\<And>m. m < 2 ^ max_zone_level z \<Longrightarrow> bm_bit (merge_bitmap z) m \<longleftrightarrow> marked z f l m"
    by (auto simp: gc_mid_def)
  have none: "\<not> marked z f l m" if "2 ^ current_zone_level z \<le> m" for m
  proof
    assume "marked z f l m"
    then obtain b where b: "b \<in> blocks_of z f X" "m \<in> span b" unfolding marked_def blocks_of_def by blast
    from zone_repD(4) [OF rep] b have "m < 2 ^ current_zone_level z" unfolding tiles_def by blast
    with that show False by simp
  qed
  have ck: "gc_check z h (2 ^ l) = Inr False" if h: "2 ^ current_zone_level z \<le> h" "h + 2 ^ l \<le> 2 ^ max_zone_level z" for h
  proof -
    have "0 < (2 :: nat) ^ l" by simp
    then have "h < 2 ^ max_zone_level z" using h(2) by linarith
    then have "\<not> bm_bit (merge_bitmap z) h" using bits none [OF h(1)] by blast
    moreover have "h \<in> span (l, h)" by simp
    ultimately have "(\<forall>m \<in> span (l, h). bm_bit (merge_bitmap z) m) = False" by blast
    then show ?thesis using gc_check_spec [OF fits geom h(2)] by (simp only:)
  qed
  have "gc_check z i (2 ^ l) = Inr False" "gc_check z (i + 2 ^ l) (2 ^ l) = Inr False" using i by (intro ck; linarith)+
  then show "gc_pair z l i = Inr z" by (simp only: gc_pair_def Let_def rbind_simps simp_thms if_False)
  have "u < i" if "(l, u) \<in> X" for u
    using rep_bound(2) [OF rep, of l u] that i(1) by (simp add: blocks_of_def)
  then show "gc_mid z k f X l (i + 2 * 2 ^ l)" using mid by (fastforce simp: gc_mid_def)
qed

lemma gc_pairs_spec:
  assumes "gc_mid z k f X l i" "2 ^ Suc l dvd i" "l < current_zone_level z"
  shows "\<exists>z' f' X'. gc_pairs z l (2 ^ max_zone_level z) i = Inr z' \<and> gc_mid z' k f' X' l (2 ^ max_zone_level z) \<and> gc_kept z z'"
  using assms
proof (induction "2 ^ max_zone_level z - i" arbitrary: z f X i rule: less_induct)
  case less
  let ?M = "2 ^ max_zone_level z :: nat" and ?j = "i + 2 * 2 ^ l"
  have lM: "l < max_zone_level z" using less.prems(1,3) by (simp add: gc_mid_def zone_geom_def)
  show ?case
  proof (cases "i < ?M")
    case False
    then have "gc_pairs z l ?M i = Inr z" by (subst gc_pairs.simps) simp
    moreover have "gc_mid z k f X l ?M" using less.prems(1) False by (fastforce simp: gc_mid_def)
    ultimately show ?thesis using gc_kept_refl by blast
  next
    case True
    have j: "?j \<le> ?M" using aligned_fits [OF less.prems(2) True] lM by simp
    have "\<exists>y g Y. gc_pair z l i = Inr y \<and> gc_mid y k g Y l ?j \<and> gc_kept z y"
    proof (cases "i < 2 ^ current_zone_level z")
      case True
      then show ?thesis by (rule gc_pair_at [OF less.prems(1,2) _ less.prems(3)])
    next
      case False
      then show ?thesis using gc_pair_beyond [OF less.prems(1) _ j] gc_kept_refl by fastforce
    qed
    then obtain y g Y where y: "gc_pair z l i = Inr y" "gc_mid y k g Y l ?j" "gc_kept z y" by blast
    note kf = gc_kept_fields [OF y(3)]
    have m: "2 ^ max_zone_level y - ?j < ?M - i" using True by (simp add: kf(3) diff_less_mono2)
    have dv: "2 ^ Suc l dvd ?j" using less.prems(2) by simp
    have "l < current_zone_level y" using less.prems(3) kf(4) by simp
    from less.hyps [OF m y(2) dv this] obtain z' f' X' where z': "gc_pairs y l ?M ?j = Inr z'" "gc_mid z' k f' X' l ?M" "gc_kept y z'"
      unfolding kf(3) by blast
    have "gc_pairs z l ?M i = Inr z'" using True y(1) z'(1) by (subst gc_pairs.simps) simp
    with z'(2) gc_kept_trans [OF y(3) z'(3)] show ?thesis by blast
  qed
qed

section \<open>All levels\<close>

text \<open>Before the pass over level \<open>l\<close>.\<close>

definition gc_at :: "zone \<Rightarrow> nat \<Rightarrow> (nat \<Rightarrow> nat list) \<Rightarrow> block set \<Rightarrow> nat \<Rightarrow> bool" where
  "gc_at z k f X l \<longleftrightarrow> zone_geom z k \<and> bitmap_fits z \<and> zone_rep z f X \<and> (\<forall>(j, u) \<in> X. l \<le> j) \<and>
     (\<forall>m < 2 ^ max_zone_level z. bm_bit (merge_bitmap z) m \<longleftrightarrow>
        (\<exists>b \<in> free_blocks z f \<union> alloc_blocks z. fst b < l \<and> m \<in> span b))"

lemma gc_marked:
  assumes "gc_at z k f X l" "l \<le> max_zone_level z"
  shows "\<exists>b1 b2. gc_allocated z l (2 ^ max_zone_level z) 0 = Inr (z\<lparr>merge_bitmap := b1\<rparr>) \<and>
    gc_walk (z\<lparr>merge_bitmap := b1\<rparr>) (2 ^ l) (head (free_list z l)) = Some (Inr (z\<lparr>merge_bitmap := b2\<rparr>)) \<and>
    (\<forall>m < 2 ^ max_zone_level z. bm_bit b2 m \<longleftrightarrow> marked z f l m)"
proof -
  from assms(1) have rep: "zone_rep z f X" and geom: "zone_geom z k" and fits: "bitmap_fits z" and
    bits: "\<And>m. m < 2 ^ max_zone_level z \<Longrightarrow> bm_bit (merge_bitmap z) m \<longleftrightarrow>
        (\<exists>b \<in> free_blocks z f \<union> alloc_blocks z. fst b < l \<and> m \<in> span b)"
    by (auto simp: gc_at_def)
  from gc_allocated_spec [OF rep geom fits assms(2), of 0 "merge_bitmap z"] obtain b1 where
    b1: "gc_allocated z l (2 ^ max_zone_level z) 0 = Inr (z\<lparr>merge_bitmap := b1\<rparr>)"
      "\<And>m. bm_bit b1 m \<longleftrightarrow> bm_bit (merge_bitmap z) m \<or> (\<exists>u. (l, u) \<in> alloc_blocks z \<and> m \<in> span (l, u))" by auto
  have ch: "chain (zentries z) (head (free_list z l)) (f l)"
    using zone_repD(1) [OF rep assms(2)] by (simp add: zes_holds_def)
  have fb: "(l, u) \<in> free_blocks z f \<longleftrightarrow> u \<in> set (f l)" for u
    using zone_repD(2) [OF rep, of l] by (cases "l \<le> current_zone_level z") (auto simp: free_blocks_def)
  have le: "(2 :: nat) ^ current_zone_level z \<le> 2 ^ max_zone_level z" using geom by (simp add: zone_geom_def)
  have "u + 2 ^ l \<le> 2 ^ max_zone_level z" if "u \<in> set (f l)" for u
  proof -
    have "(l, u) \<in> blocks_of z f X" using that fb by (simp add: blocks_of_def)
    from order_trans [OF rep_bound(1) [OF rep this] le] show ?thesis .
  qed
  from gc_walk_spec [OF ch fits geom this, of b1] obtain b2 where
    b2: "gc_walk (z\<lparr>merge_bitmap := b1\<rparr>) (2 ^ l) (head (free_list z l)) = Some (Inr (z\<lparr>merge_bitmap := b2\<rparr>))"
      "\<And>m. bm_bit b2 m \<longleftrightarrow> bm_bit b1 m \<or> (\<exists>u \<in> set (f l). m \<in> span (l, u))" by auto
  have "bm_bit b2 m \<longleftrightarrow> marked z f l m" if m: "m < 2 ^ max_zone_level z" for m
  proof -
    have "marked z f l m \<longleftrightarrow> (\<exists>b \<in> free_blocks z f \<union> alloc_blocks z. fst b < l \<and> m \<in> span b) \<or>
        (\<exists>u. (l, u) \<in> free_blocks z f \<union> alloc_blocks z \<and> m \<in> span (l, u))" (is "_ = ?R")
    proof
      assume "marked z f l m"
      then obtain j u where b: "(j, u) \<in> free_blocks z f \<union> alloc_blocks z" "j \<le> l" "m \<in> span (j, u)"
        unfolding marked_def by force
      show ?R
      proof (cases "j = l")
        case True
        with b show ?thesis by blast
      next
        case False
        with b have "fst (j, u) < l" by simp
        with b show ?thesis by blast
      qed
    next
      assume ?R
      then show "marked z f l m"
      proof
        assume "\<exists>u. (l, u) \<in> free_blocks z f \<union> alloc_blocks z \<and> m \<in> span (l, u)"
        then obtain u where u: "(l, u) \<in> free_blocks z f \<union> alloc_blocks z" "m \<in> span (l, u)" by blast
        moreover have "fst (l, u) \<le> l" by simp
        ultimately show ?thesis unfolding marked_def by blast
      qed (auto simp: marked_def intro: less_imp_le)
    qed
    then show ?thesis using b1(2) [of m] b2(2) [of m] bits [OF m] fb by blast
  qed
  with b1(1) b2(1) show ?thesis by blast
qed

lemma gc_level_spec:
  assumes "gc_at z k f X l" "l < current_zone_level z"
  shows "\<exists>z' f' X'. gc_level z l = Some (Inr z') \<and> gc_at z' k f' X' (Suc l) \<and> gc_kept z z'"
proof -
  have lM: "l \<le> max_zone_level z" using assms by (simp add: gc_at_def zone_geom_def)
  from gc_marked [OF assms(1) lM] obtain b1 b2 where
    b: "gc_allocated z l (2 ^ max_zone_level z) 0 = Inr (z\<lparr>merge_bitmap := b1\<rparr>)"
    "gc_walk (z\<lparr>merge_bitmap := b1\<rparr>) (2 ^ l) (head (free_list z l)) = Some (Inr (z\<lparr>merge_bitmap := b2\<rparr>))"
    "\<forall>m < 2 ^ max_zone_level z. bm_bit b2 m \<longleftrightarrow> marked z f l m" by blast
  let ?z = "z\<lparr>merge_bitmap := b2\<rparr>"
  have mk: "marked ?z f l m = marked z f l m" for m by (simp add: marked_def with_bitmap)
  have "gc_mid ?z k f X l 0"
    using assms(1) b(3) mk by (auto simp: gc_mid_def gc_at_def with_bitmap)
  from gc_pairs_spec [OF this] assms(2) obtain z' f' X' where
    z': "gc_pairs ?z l (2 ^ max_zone_level z) 0 = Inr z'" "gc_mid z' k f' X' l (2 ^ max_zone_level z)" "gc_kept ?z z'" by auto
  note K = gc_kept_trans [OF gc_kept_bitmap z'(3)] and kf = gc_kept_fields [OF gc_kept_trans [OF gc_kept_bitmap z'(3)]]
  have "gc_level z l = Some (Inr z')" using b(1,2) z'(1) by (simp add: gc_level_def)
  moreover have "gc_at z' k f' X' (Suc l)"
  proof -
    have m: "zone_geom z' k" "bitmap_fits z'" "zone_rep z' f' X'" "\<And>j u. (j, u) \<in> X' \<Longrightarrow> l \<le> j"
      "\<And>u. (l, u) \<in> X' \<Longrightarrow> 2 ^ max_zone_level z \<le> u"
      "\<forall>m < 2 ^ max_zone_level z'. bm_bit (merge_bitmap z') m \<longleftrightarrow> marked z' f' l m"
      using z'(2) by (auto simp: gc_mid_def)
    have "Suc l \<le> j" if "(j, u) \<in> X'" for j u
    proof -
      have "(j, u) \<in> blocks_of z' f' X'" using that by (simp add: blocks_of_def)
      from geom_unit_lt(5) [OF m(1) rep_bound(2) [OF m(3) this]] have "u < 2 ^ max_zone_level z" using kf(3) by simp
      then have "j \<noteq> l" using m(5) that by fastforce
      with m(4) [OF that] show ?thesis by simp
    qed
    then show ?thesis using m by (auto simp: gc_at_def marked_def less_Suc_eq_le)
  qed
  ultimately show ?thesis using K by blast
qed

lemma gc_levels_spec:
  assumes "gc_at z k f X l" "n < current_zone_level z" "l \<le> Suc n"
  shows "\<exists>z' f' X'. gc_levels z l n = Some (Inr z') \<and> gc_at z' k f' X' (Suc n) \<and> gc_kept z z'"
  using assms
proof (induction "Suc n - l" arbitrary: z f X l)
  case 0
  then have "l = Suc n" by simp
  then have "gc_levels z l n = Some (Inr z)" by (subst gc_levels.simps) simp
  then show ?case using 0 \<open>l = Suc n\<close> gc_kept_refl by blast
next
  case (Suc d)
  then have l: "l \<le> n" by simp
  from gc_level_spec [OF Suc.prems(1)] l Suc.prems(2) obtain y g Y where
    y: "gc_level z l = Some (Inr y)" "gc_at y k g Y (Suc l)" "gc_kept z y" by auto
  have d: "d = Suc n - Suc l" using Suc.hyps(2) by simp
  have "n < current_zone_level y" using Suc.prems(2) gc_kept_fields(4) [OF y(3)] by simp
  from Suc.hyps(1) [OF d y(2) this] l obtain z' f' X' where
    z': "gc_levels y (Suc l) n = Some (Inr z')" "gc_at z' k f' X' (Suc n)" "gc_kept y z'" by auto
  have "gc_levels z l n = Some (Inr z')" using l y(1) z'(1) by (subst gc_levels.simps) simp
  with z'(2) gc_kept_trans [OF y(3) z'(3)] show ?case by blast
qed

text \<open>When all levels below the zone's are done, nothing is lost.\<close>

lemma gc_at_top:
  assumes "gc_at z k f X (current_zone_level z)"
  shows "X = {}"
proof (rule ccontr)
  assume "X \<noteq> {}"
  then obtain j u where x: "(j, u) \<in> X" by auto
  from assms have rep: "zone_rep z f X" and "current_zone_level z \<le> j" using x by (auto simp: gc_at_def)
  have "(j, u) \<in> blocks_of z f X" using x by (simp add: blocks_of_def)
  from rep_bound(1) [OF rep this] have "u + 2 ^ j \<le> 2 ^ current_zone_level z" .
  moreover have "(2 :: nat) ^ current_zone_level z \<le> 2 ^ j" using \<open>current_zone_level z \<le> j\<close> by simp
  ultimately have "u = 0" by linarith
  with held_ne_0 [OF rep x] show False by simp
qed

lemma gc_below_spec:
  assumes "zone_geom z k" "zone_rep z f X" "bitmap_fits z" "0 < current_zone_level z"
  shows "\<exists>y z' f'. clear_merge_bitmap z = Inr y \<and> gc_levels y 0 (current_zone_level z - 1) = Some (Inr z') \<and>
    gc_at z' k f' {} (current_zone_level z) \<and> gc_kept z z'"
proof -
  from clear_merge_bitmap_spec [OF assms(3,1)] obtain bm where
    bm: "clear_merge_bitmap z = Inr (z\<lparr>merge_bitmap := bm\<rparr>)" "\<forall>n < 2 ^ max_zone_level z. \<not> bm_bit bm n" by blast
  let ?z = "z\<lparr>merge_bitmap := bm\<rparr>"
  have "gc_at ?z k f X 0" using assms bm(2) by (simp add: gc_at_def with_bitmap split_beta)
  moreover have n: "Suc (current_zone_level z - 1) = current_zone_level z" using assms(4) by simp
  ultimately obtain z' f' X' where z': "gc_levels ?z 0 (current_zone_level z - 1) = Some (Inr z')"
    "gc_at z' k f' X' (current_zone_level z)" "gc_kept ?z z'"
    using gc_levels_spec [of ?z k f X 0 "current_zone_level z - 1"] by auto
  note K = gc_kept_trans [OF gc_kept_bitmap z'(3)]
  have "X' = {}" using gc_at_top [of z' k f' X'] z'(2) gc_kept_fields(4) [OF K] by simp
  with bm(1) z' K show ?thesis by blast
qed

lemma gc_levels_split:
  "m \<le> n \<Longrightarrow> l \<le> Suc m \<Longrightarrow> gc_levels z l n = obind (gc_levels z l m) (\<lambda>z. gc_levels z (Suc m) n)"
proof (induction "Suc m - l" arbitrary: z l)
  case 0
  then have "l = Suc m" by simp
  then show ?case by (subst (2) gc_levels.simps) simp
next
  case (Suc d)
  then have l: "l \<le> m" and d: "d = Suc m - Suc l" by simp_all
  have IH: "gc_levels y (Suc l) n = obind (gc_levels y (Suc l) m) (\<lambda>z. gc_levels z (Suc m) n)" for y
    using Suc.hyps(1) [OF d] Suc.prems l by simp
  show ?case
    using l Suc.prems by (subst (1 2) gc_levels.simps) (auto simp: IH obind_def split: option.splits sum.splits)
qed

section \<open>The passes from the zone's own level on\<close>

text \<open>After the passes below it, every unit of the zone is marked.\<close>

lemma gc_top_marked:
  assumes at: "gc_at z k f {} (current_zone_level z)" and l: "current_zone_level z \<le> l" "l \<le> max_zone_level z" and
    m: "m < 2 ^ max_zone_level z"
  shows "marked z f l m \<longleftrightarrow> m < 2 ^ current_zone_level z"
proof
  from at have rep: "zone_rep z f {}" by (simp add: gc_at_def)
  assume "marked z f l m"
  then obtain b where "b \<in> blocks_of z f {}" "m \<in> span b" unfolding marked_def blocks_of_def by blast
  with zone_repD(4) [OF rep] show "m < 2 ^ current_zone_level z" unfolding tiles_def by blast
next
  from at have rep: "zone_rep z f {}" by (simp add: gc_at_def)
  assume "m < 2 ^ current_zone_level z"
  from rep_block_of [OF rep this] obtain j v where b: "(j, v) \<in> blocks_of z f {}" "m div 2 ^ j = v div 2 ^ j" "2 ^ j dvd v"
    "j \<le> current_zone_level z" by blast
  then have "m \<in> span (j, v)" "fst (j, v) \<le> l" using span_aligned l(1) by auto
  with b(1) show "marked z f l m" unfolding marked_def blocks_of_def by blast
qed

text \<open>On a fully grown zone the last pass compares the zone with the bits behind the bitmap.\<close>

lemma gc_overrun:
  assumes at: "gc_at z k f {} (current_zone_level z)" and full: "current_zone_level z = max_zone_level z"
    and exact: "merge_area z = 2 ^ max_zone_level z div 8"
  shows "gc_level z (max_zone_level z) = Some (Inl Out_Of_Bounds)"
proof -
  let ?M = "max_zone_level z"
  from at have geom: "zone_geom z k" and fits: "bitmap_fits z" by (simp_all add: gc_at_def)
  from gc_marked [OF at [unfolded full] order_refl] obtain b1 b2 where
    b: "gc_allocated z ?M (2 ^ ?M) 0 = Inr (z\<lparr>merge_bitmap := b1\<rparr>)"
    "gc_walk (z\<lparr>merge_bitmap := b1\<rparr>) (2 ^ ?M) (head (free_list z ?M)) = Some (Inr (z\<lparr>merge_bitmap := b2\<rparr>))"
    "\<forall>m < 2 ^ ?M. bm_bit b2 m \<longleftrightarrow> marked z f ?M m" by blast
  let ?z = "z\<lparr>merge_bitmap := b2\<rparr>"
  have "(\<forall>m \<in> span (?M, 0). bm_bit (merge_bitmap ?z) m) = True"
    using b(3) gc_top_marked [OF at, of ?M] full by simp
  with gc_check_spec [of ?z k 0 ?M] geom fits have c1: "gc_check ?z 0 (2 ^ ?M) = Inr True" by (simp add: with_bitmap)
  have M: "6 \<le> ?M" using geom by (simp add: zone_geom_def)
  have "(2 :: nat) ^ ?M mod 8 = 0"
    using M power_add [of "2 :: nat" 3 "?M - 3"] by simp
  then have c2: "gc_check ?z (2 ^ ?M) (2 ^ ?M) = Inl Out_Of_Bounds"
    unfolding gc_check_def by (subst check_n_bits.simps) (simp add: exact [unfolded merge_area_def] merge_area_def)
  have "gc_pair ?z ?M 0 = Inl Out_Of_Bounds"
    using c1 c2 by (simp add: gc_pair_def Let_def)
  then have "gc_pairs ?z ?M (2 ^ ?M) 0 = Inl Out_Of_Bounds" by (subst gc_pairs.simps) simp
  then show ?thesis using b(1,2) by (simp add: gc_level_def)
qed

lemma gc_pairs_empty:
  assumes "\<And>m. i \<le> m \<Longrightarrow> m < 2 ^ max_zone_level z \<Longrightarrow> \<not> bm_bit (merge_bitmap z) m" "2 ^ Suc l dvd i"
    "zone_geom z k" "bitmap_fits z" "l < max_zone_level z"
  shows "gc_pairs z l (2 ^ max_zone_level z) i = Inr z"
  using assms(1,2)
proof (induction "2 ^ max_zone_level z - i" arbitrary: i rule: less_induct)
  case less
  let ?M = "2 ^ max_zone_level z :: nat"
  show ?case
  proof (cases "i < ?M")
    case True
    have fit: "i + 2 ^ Suc l \<le> ?M" using aligned_fits [OF less.prems(2) True] assms(5) by simp
    have ck: "gc_check z h (2 ^ l) = Inr False" if h: "i \<le> h" "h + 2 ^ l \<le> ?M" for h
    proof -
      have "0 < (2 :: nat) ^ l" by simp
      then have "\<not> bm_bit (merge_bitmap z) h" using less.prems(1) [OF h(1)] h(2) by linarith
      moreover have "h \<in> span (l, h)" by simp
      ultimately have "(\<forall>m \<in> span (l, h). bm_bit (merge_bitmap z) m) = False" by blast
      then show ?thesis using gc_check_spec [OF assms(4,3) h(2)] by (simp only:)
    qed
    have "i + 2 * 2 ^ l \<le> ?M" using fit by simp
    then have "gc_check z i (2 ^ l) = Inr False" "gc_check z (i + 2 ^ l) (2 ^ l) = Inr False" by (intro ck; linarith)+
    then have p: "gc_pair z l i = Inr z" by (simp only: gc_pair_def Let_def rbind_simps simp_thms if_False)
    have "?M - (i + 2 * 2 ^ l) < ?M - i" using True by (intro diff_less_mono2) simp_all
    from less.hyps [OF this] less.prems have "gc_pairs z l ?M (i + 2 * 2 ^ l) = Inr z" by simp
    then show ?thesis using True p by (subst gc_pairs.simps) simp
  qed (subst gc_pairs.simps, simp)
qed

text \<open>On a zone that can still grow the pass over the zone's level takes the part that it has not
  grown into for a lost chunk.\<close>

lemma gc_ungrown:
  assumes at: "gc_at z k f {} (current_zone_level z)" and c: "current_zone_level z < max_zone_level z"
  shows "\<exists>z'. gc_level z (current_zone_level z) = Some (Inr z') \<and> zone_geom z' k \<and>
    head (free_list z' (current_zone_level z)) = slot (2 ^ current_zone_level z) \<and>
    current_zone_level z' = current_zone_level z \<and> max_zone_level z' = max_zone_level z \<and>
    grow_in_progress z' = grow_in_progress z \<and> growable z' = growable z"
proof -
  let ?c = "current_zone_level z" and ?M = "max_zone_level z"
  from at have geom: "zone_geom z k" and fits: "bitmap_fits z" and rep: "zone_rep z f {}" by (simp_all add: gc_at_def)
  from gc_marked [OF at less_imp_le [OF c]] obtain b1 b2 where
    b: "gc_allocated z ?c (2 ^ ?M) 0 = Inr (z\<lparr>merge_bitmap := b1\<rparr>)"
    "gc_walk (z\<lparr>merge_bitmap := b1\<rparr>) (2 ^ ?c) (head (free_list z ?c)) = Some (Inr (z\<lparr>merge_bitmap := b2\<rparr>))"
    "\<And>m. m < 2 ^ ?M \<Longrightarrow> bm_bit b2 m \<longleftrightarrow> marked z f ?c m" by blast
  have bits: "bm_bit b2 m \<longleftrightarrow> m < 2 ^ ?c" if "m < 2 ^ ?M" for m
    using b(3) [OF that] gc_top_marked [OF at order_refl less_imp_le [OF c] that] by blast
  let ?z = "z\<lparr>merge_bitmap := b2\<rparr>"
  have gz: "zone_geom ?z k" "bitmap_fits ?z" using geom fits by (simp_all add: with_bitmap)
  have le: "(2 :: nat) ^ Suc ?c \<le> 2 ^ ?M" using c by (intro power_increasing) simp_all
  have lt: "(2 :: nat) ^ ?c < 2 ^ ?M" using c by simp
  have "bm_bit b2 m" if "m \<in> span (?c, 0)" for m
  proof -
    have "m < 2 ^ ?c" using that by simp
    with bits [of m] lt show ?thesis by simp
  qed
  then have "(\<forall>m \<in> span (?c, 0). bm_bit (merge_bitmap ?z) m) = True" by (simp del: span_pair)
  moreover have "\<not> bm_bit b2 (2 ^ ?c)" "2 ^ ?c \<in> span (?c, 2 ^ ?c)" using bits [OF lt] by simp_all
  then have "(\<forall>m \<in> span (?c, 2 ^ ?c). bm_bit (merge_bitmap ?z) m) = False" by (simp del: span_pair) blast
  ultimately have ck: "gc_check ?z 0 (2 ^ ?c) = Inr True" "gc_check ?z (0 + 2 ^ ?c) (2 ^ ?c) = Inr False"
    using gc_check_spec [OF gz(2,1), of 0 ?c] gc_check_spec [OF gz(2,1), of "2 ^ ?c" ?c] le c by simp_all
  have k: "?c + k < 64" using geom c by (simp add: zone_geom_def)
  then have "find_size_from_level (of_nat ?c) (min_obj_size z) = 2 ^ (?c + k)"
    using geom by (simp add: zone_geom_def find_size_of_level)
  then have idx: "of_nat (0 div 2 ^ ?c + 1) * find_size_from_level (of_nat ?c) (min_obj_size z) div min_obj_size z = of_nat (2 ^ ?c)"
    using geom k pow2_div_pow2 [of k "?c + k"] by (simp add: zone_geom_def)
  have cl: "?c \<le> ?M" using c by simp
  have hd: "chain (zentries z) (head (free_list z ?c)) (f ?c)"
    using zone_repD(1) [OF rep cl] by (simp add: zes_holds_def)
  from zes_push_eq [OF hd, of "2 ^ ?c"] cl obtain e n where
    pf: "push_free ?z ?c (of_nat (2 ^ ?c)) =
      Inr (?z\<lparr>zentries := e, free_list := (free_list z)(?c := \<lparr>head = slot (2 ^ ?c), aba_counter = n\<rparr>)\<rparr>)"
    by (simp add: push_free_def)
  let ?y = "?z\<lparr>zentries := e, free_list := (free_list z)(?c := \<lparr>head = slot (2 ^ ?c), aba_counter = n\<rparr>)\<rparr>"
  have gy: "zone_geom ?y k" "bitmap_fits ?y" "(2 :: nat) ^ ?c + 2 ^ ?c \<le> 2 ^ max_zone_level ?y"
    using geom fits le by (simp_all add: zone_geom_def bitmap_fits_def merge_area_def)
  from gc_set_spec [OF gy(2,1,3)] obtain bm where
    bm: "gc_set ?y (0 + 2 ^ ?c) (2 ^ ?c) = Inr (?y\<lparr>merge_bitmap := bm\<rparr>)"
      "\<And>m. bm_bit bm m \<longleftrightarrow> bm_bit b2 m \<or> m \<in> span (?c, 2 ^ ?c)" by auto
  let ?x = "?y\<lparr>merge_bitmap := bm\<rparr>"
  have pair: "gc_pair ?z ?c 0 = Inr ?x"
  proof -
    have m: "min_obj_size ?z = min_obj_size z" by simp
    show ?thesis by (simp only: gc_pair_def Let_def ck rbind_simps simp_thms if_True if_False m idx pf bm(1))
  qed
  have gx: "zone_geom ?x k" "bitmap_fits ?x" "?c < max_zone_level ?x"
    by (simp_all only: with_bitmap gy(1,2)) (simp add: c)
  have dv: "2 ^ Suc ?c dvd (0 :: nat) + 2 * 2 ^ ?c" by simp
  have no: "\<not> bm_bit (merge_bitmap ?x) m" if "0 + 2 * 2 ^ ?c \<le> m" "m < 2 ^ max_zone_level ?x" for m
    using that bm(2) [of m] bits [of m] by simp
  have "gc_pairs ?x ?c (2 ^ max_zone_level ?x) (0 + 2 * 2 ^ ?c) = Inr ?x"
    by (rule gc_pairs_empty [OF no dv gx])
  then have "gc_pairs ?x ?c (2 ^ ?M) (0 + 2 * 2 ^ ?c) = Inr ?x" by simp
  with pair have "gc_pairs ?z ?c (2 ^ ?M) 0 = Inr ?x" by (subst gc_pairs.simps) simp
  then have "gc_level z ?c = Some (Inr ?x)" using b(1,2) by (simp add: gc_level_def)
  with gx(1) show ?thesis by (intro exI [of _ ?x]) (simp add: growable_def)
qed

text \<open>A later \<open>grow\<close> pushes the same chunk again: it becomes its own successor.\<close>

lemma grow_again:
  assumes "zone_geom z k" "current_zone_level z < max_zone_level z" "grow_in_progress z = 0" "growable z"
    "head (free_list z (current_zone_level z)) = slot (2 ^ current_zone_level z)"
  shows "\<exists>z'. grow z = Inr (True, z') \<and> head (free_list z' (current_zone_level z)) = slot (2 ^ current_zone_level z) \<and>
    get_next (zentries z' (slot (2 ^ current_zone_level z))) = slot (2 ^ current_zone_level z)"
proof -
  let ?c = "current_zone_level z"
  have "(2 :: nat) ^ ?c < 2 ^ 34" using assms(1,2) by (intro power_strict_increasing) (simp_all add: zone_geom_def)
  then have s: "Suc (2 ^ ?c) < (2 :: nat) ^ 56" by simp
  have "unat (slot (2 ^ ?c)) = Suc (2 ^ ?c)" using s by (intro unat_slot) simp
  then have sl: "slot (2 ^ ?c) < 2 ^ 56" using s by (simp add: word_less_nat_alt unat_power_of_2)
  have e: "2 ^ ?c + 1 = slot (2 ^ ?c)" by (simp add: slot_def)
  let ?p = "\<lambda>v. pack (is_allocated v) (get_level v) (slot (2 ^ ?c))"
  have n: "get_next (?p v) = slot (2 ^ ?c)" for v using get_pack(1) [OF get_level_lt sl] .
  show ?thesis
    using assms(2) sl n by (simp add: grow_eq [OF assms(1-4)] push_free_def zes_push_def link_next_pack assms(5) Let_def e)
qed

end
