(* ===== verification/Zone_Recover_Props.thy ===== *)
theory Zone_Recover_Props
  imports Zone_Recover_Correct Zone_GC
begin

text \<open>
  The properties of a zone's recovery: a merge that crashed, a growth that crashed, and the
  garbage collection of lost chunks.
\<close>

section \<open>Zones with lost blocks\<close>

text \<open>The invariant of a zone in which the blocks \<open>X\<close> are neither allocated nor on a free list.\<close>

definition zone_inv_but :: "block set \<Rightarrow> zone \<Rightarrow> bool" where
  "zone_inv_but X z \<longleftrightarrow> (\<exists>k f. zone_geom z k \<and> zone_rep z f X)"

lemma zone_inv_but_empty: "zone_inv_but {} z = zone_inv z"
  by (simp add: zone_inv_but_def zone_inv_def)

section \<open>A merge that crashed\<close>

text \<open>C6: a merge of level \<open>l\<close> that stops at any of its crash points is brought to an end by
  \<open>online_recover\<close>, which returns, keeps every allocated chunk, the data and the size of the
  zone, and leaves a zone that satisfies the invariant and on which no merge is pending. Only when the
  merge stopped between taking a non-empty free list and recording that it had, exactly the chunks of
  that list are lost.\<close>

theorem merge_crash_recovered:
  assumes "merge_ready z" "l < max_zone_level z" "merge_stops z l point z'"
  shows "\<exists>z''. online_recover z' = Some (Inr z'') \<and> alloc_blocks z'' = alloc_blocks z \<and> shelf z'' = shelf z \<and>
    current_zone_level z'' = current_zone_level z \<and>
    (if point = ''merge after 3'' \<and> free_units z l \<noteq> {}
     then zone_inv_but ({l} \<times> free_units z l) z'' \<and> merge_idle z'' else merge_ready z'')"
proof -
  from assms(1) have z: "zone_ready z" "merge_idle z" "no_merge_trace z" "bitmap_fits z" by (simp_all add: merge_ready_def)
  then obtain k f where kf: "zone_geom z k" "zone_rep z f {}" by (auto simp: zone_ready_def zone_inv_def)
  have "merge_start {} z k l f" using z kf assms(2) by (simp add: merge_start_def)
  from crash_recovery_spec [OF this assms(3)] obtain z'' where
    z'': "merge_crash_recovery z' = Some (Inr z'')" "recovered z (lost_at point l f \<union> {}) z''"
      "lost_at point l f = {} \<longrightarrow> no_merge_trace z''" by blast
  have fu: "free_units z l = set (f l)" using free_units_eq [OF kf(2)] assms(2) by simp
  then have lost: "lost_at point l f = (if point = ''merge after 3'' \<and> free_units z l \<noteq> {} then {l} \<times> free_units z l else {})"
    by (auto simp: lost_at_def)
  from z''(2) have r: "zone_inv_but (lost_at point l f) z''" "bitmap_fits z''" "merge_idle z''" "same_geom z z''"
    "alloc_blocks z'' = alloc_blocks z" "grow_in_progress z'' = grow_in_progress z" "growable z'' = growable z" "shelf z'' = shelf z"
    by (auto simp: recovered_def zone_inv_but_def)
  have sg: "current_zone_level z'' = current_zone_level z" "max_zone_level z'' = max_zone_level z"
    using r(4) by (simp_all add: same_geom_def)
  have "merge_ready z''" if "lost_at point l f = {}"
    using z r sg z''(3) that zone_inv_but_empty [of z''] by (simp add: merge_ready_def zone_ready_def)
  then show ?thesis using z''(1) r sg lost
    by (cases "point = ''merge after 3'' \<and> free_units z l \<noteq> {}") (simp_all add: online_recover_def)
qed

theorem merge_crash_recovered_witness:
  "\<exists>z' z''. merge_stops example_zone 0 ''merge after 2'' z' \<and> online_recover z' = Some (Inr z'') \<and>
    alloc_blocks z'' = {(0, 0)} \<and> merge_ready z''"
proof -
  note e = example_zone_spec
  have "enter_merge example_zone = (True, example_zone\<lparr>merge_in_progress := 1\<rparr>)"
    using e(2) by (simp add: merge_ready_def merge_idle_def enter_merge_def)
  then have s: "merge_stops example_zone 0 ''merge after 2'' (example_zone\<lparr>merge_in_progress := 1, current_merge_level := int 0\<rparr>)"
    by (rule merge_stops.after_2)
  from merge_crash_recovered [OF e(2) _ s] e(3,6) s show ?thesis by auto
qed

section \<open>A growth that crashed\<close>

lemma alloc_scan_empty:
  assumes "\<And>l. level \<le> l \<Longrightarrow> l \<le> c \<Longrightarrow> head (free_list z l) = 0" "c \<le> max_zone_level z"
  shows "alloc_scan z cs orig level c = Inr (z, 0)"
  using assms(1)
proof (induction "Suc c - level" arbitrary: level)
  case 0
  then show ?case by (simp add: alloc_scan.simps [of z cs orig level])
next
  case (Suc n)
  then have l: "level \<le> c" "head (free_list z level) = 0" by simp_all
  then have "pop_free z level = Inr (z, 0)" using assms(2) by (simp add: pop_free_def zes_pop_def)
  moreover have "alloc_scan z cs orig (Suc level) c = Inr (z, 0)"
    by (rule Suc.hyps(1)) (use Suc in auto)
  ultimately show ?case using l(1) by (simp add: alloc_scan.simps [of z cs orig level])
qed

lemma head_reaches_end:
  assumes geom: "zone_geom z k" and rep: "zone_rep z f X" and l: "l \<le> current_zone_level z"
  shows "find_size_from_level (of_nat (current_zone_level z)) (min_obj_size z) \<le> head (free_list z l) * min_obj_size z \<longleftrightarrow>
    l = 0 \<and> head (free_list z 0) = slot (2 ^ current_zone_level z - 1)"
proof -
  let ?c = "current_zone_level z" and ?h = "head (free_list z l)"
  have c: "?c + k \<le> 40" "?c \<le> max_zone_level z" "min_obj_size z = 2 ^ k" "k < 64" using geom by (simp_all add: zone_geom_def)
  then have size: "find_size_from_level (of_nat ?c) (min_obj_size z) = 2 ^ (?c + k)"
    by (simp add: find_size_of_level)
  have ch: "chain (zentries z) ?h (f l)" using zone_repD(1) [OF rep, of l] l c by (simp add: zes_holds_def)
  have pow: "(2 :: nat) ^ (?c + k) = 2 ^ ?c * 2 ^ k" by (simp add: power_add)
  have p40: "(2 :: nat) ^ (?c + k) \<le> 2 ^ 40" using c by (intro power_increasing) simp_all
  have lt: "Suc (2 ^ ?c - 1) < 2 ^ 64"
  proof -
    have "(2 :: nat) ^ ?c \<le> 2 ^ 40" using c by (intro power_increasing) simp_all
    then show ?thesis by simp
  qed
  show ?thesis
  proof (cases "f l")
    case Nil
    then have h: "?h = 0" using ch by simp
    have "\<not> (2 ^ (?c + k) :: u64) \<le> 0" using c unat_power_of_2 [of "?c + k"] by (simp add: word_le_nat_alt)
    moreover have "slot (2 ^ ?c - 1) \<noteq> 0" using slot_ne_0 [OF lt] .
    ultimately show ?thesis using h by (auto simp: size)
  next
    case (Cons u us)
    then have h: "?h = slot u" using ch by simp
    have "(l, u) \<in> blocks_of z f X" using Cons l by (simp add: blocks_of_def free_blocks_def)
    note b = rep_bound(1) [OF rep this]
    have "(1 :: nat) \<le> 2 ^ l" by simp
    then have su: "Suc u \<le> 2 ^ ?c" using b by linarith
    have u64: "Suc u < 2 ^ 64" using su lt by simp
    have "Suc u * 2 ^ k \<le> 2 ^ ?c * 2 ^ k" using su by (rule mult_le_mono1)
    then have m: "Suc u * 2 ^ k < 2 ^ 64" using p40 unfolding pow by simp
    have "unat (?h * min_obj_size z) = Suc u * 2 ^ k"
      using unat_slot [OF u64] c m unat_power_of_2 [of k] by (simp add: h unat_mult_small)
    then have "find_size_from_level (of_nat ?c) (min_obj_size z) \<le> ?h * min_obj_size z \<longleftrightarrow> 2 ^ ?c * 2 ^ k \<le> Suc u * 2 ^ k"
      unfolding size word_le_nat_alt using c unat_power_of_2 [of "?c + k"] pow by simp
    also have "\<dots> \<longleftrightarrow> 2 ^ ?c \<le> Suc u" by (simp only: mult_le_cancel2) simp
    also have "\<dots> \<longleftrightarrow> l = 0 \<and> u = 2 ^ ?c - 1"
    proof
      assume a: "2 ^ ?c \<le> Suc u"
      then have "2 ^ l = (1 :: nat)" using b \<open>1 \<le> 2 ^ l\<close> by linarith
      then show "l = 0 \<and> u = 2 ^ ?c - 1" using a su by auto
    qed auto
    also have "\<dots> \<longleftrightarrow> l = 0 \<and> head (free_list z 0) = slot (2 ^ ?c - 1)" using slot_inj [OF u64 lt] h by auto
    finally show ?thesis .
  qed
qed

text \<open>\<open>grow_crash_recovery\<close> looks for a chunk beyond the zone's size, which no free list can
  have since the size is read after it was raised: it releases the growth lock, except when the
  zone's very last unit is the first chunk of the lowest free list. Then the lock stays, and an
  allocation that finds its free lists empty waits for ever.\<close>

theorem grow_recovery_lock:
  assumes "zone_inv_but X z" "grow_in_progress z \<noteq> 0"
  shows "grow_crash_recovery z =
      Inr (if head (free_list z 0) = slot (2 ^ current_zone_level z - 1) then z else z\<lparr>grow_in_progress := 0\<rparr>) \<and>
    (\<forall>sz. no_free_from z (level_of z sz) \<longrightarrow> zone_alloc z sz = None)"
proof -
  from assms(1) obtain k f where geom: "zone_geom z k" and rep: "zone_rep z f X" by (auto simp: zone_inv_but_def)
  have c: "current_zone_level z \<le> max_zone_level z" using geom by (simp add: zone_geom_def)
  have "list_ex (\<lambda>level. find_size_from_level (of_nat (current_zone_level z)) (min_obj_size z) \<le> head (free_list z level) * min_obj_size z)
      (rev [0..<Suc (current_zone_level z)]) \<longleftrightarrow> head (free_list z 0) = slot (2 ^ current_zone_level z - 1)"
    using head_reaches_end [OF geom rep] by (auto simp: list_ex_iff less_Suc_eq_le simp del: upt_Suc)
  then have "grow_crash_recovery z =
      Inr (if head (free_list z 0) = slot (2 ^ current_zone_level z - 1) then z else z\<lparr>grow_in_progress := 0\<rparr>)"
    using assms(2) c by (simp add: grow_crash_recovery_def Let_def del: upt_Suc)
  moreover have "zone_alloc z sz = None"
    if "no_free_from z (level_of z sz)" for sz
    using alloc_scan_empty [OF _ c, of "level_of z sz"] that assms(2) unfolding no_free_from_def
    by (simp add: zone_alloc_def Let_def alloc_retry.simps [of z] is_grow_in_progress_def flip: level_of_def)
  ultimately show ?thesis by blast
qed

theorem grow_recovery_lock_witness:
  "grow_crash_recovery (example_zone\<lparr>grow_in_progress := 1\<rparr>) =
    Inr (if head (free_list example_zone 0) = slot 63 then example_zone\<lparr>grow_in_progress := 1\<rparr>
         else example_zone\<lparr>grow_in_progress := 0\<rparr>)"
proof -
  let ?z = "example_zone\<lparr>grow_in_progress := 1\<rparr>"
  note e = example_zone_spec
  from e(2) obtain k f where kf: "zone_geom example_zone k" "zone_rep example_zone f {}"
    by (auto simp: merge_ready_def zone_ready_def zone_inv_def)
  have "zone_geom ?z k" "zone_rep ?z f {}"
    using kf zone_rep_frame(1) [OF kf(2), of ?z] by (simp_all add: zone_geom_def same_geom_def)
  then have "zone_inv_but {} ?z" by (auto simp: zone_inv_but_def)
  then show ?thesis using grow_recovery_lock [of "{}" ?z] e(5) by simp
qed

section \<open>Garbage collection\<close>

text \<open>C29: whatever chunks a zone has lost, the passes of \<open>garbage_collection\<close> over the levels below
  the zone's put all of them back on the free lists: the invariant holds, the allocated chunks and
  the data are the same.\<close>

theorem gc_finds_lost_chunks:
  assumes "zone_inv_but X z" "bitmap_fits z" "0 < current_zone_level z"
  shows "\<exists>y z'. clear_merge_bitmap z = Inr y \<and> gc_levels y 0 (current_zone_level z - 1) = Some (Inr z') \<and>
    zone_inv z' \<and> alloc_blocks z' = alloc_blocks z \<and> current_zone_level z' = current_zone_level z \<and> shelf z' = shelf z"
proof -
  from assms(1) obtain k f where kf: "zone_geom z k" "zone_rep z f X" by (auto simp: zone_inv_but_def)
  from gc_below_spec [OF kf assms(2,3)] obtain y z' f' where
    z': "clear_merge_bitmap z = Inr y" "gc_levels y 0 (current_zone_level z - 1) = Some (Inr z')"
      "gc_at z' k f' {} (current_zone_level z)" "gc_kept z z'" by blast
  moreover have "zone_inv z'" using z'(3) by (auto simp: gc_at_def zone_inv_def)
  ultimately show ?thesis using gc_kept_fields [OF z'(4)] by blast
qed

theorem gc_finds_lost_chunks_witness:
  "\<exists>y z'. clear_merge_bitmap example_zone = Inr y \<and> gc_levels y 0 5 = Some (Inr z') \<and> zone_inv z' \<and> alloc_blocks z' = {(0, 0)}"
proof -
  note e = example_zone_spec
  have "zone_inv_but {} example_zone" "bitmap_fits example_zone"
    using e(2) by (simp_all add: zone_inv_but_empty merge_ready_def zone_ready_def)
  from gc_finds_lost_chunks [OF this] e(3,5) show ?thesis by auto
qed

text \<open>\<open>garbage_collection\<close> does not stop at the zone's level. If the zone can still grow, it
  puts the part the zone has not grown into on a free list, and a later \<open>grow\<close> pushes the same
  chunk once more, which makes the list a cycle. If the zone is fully grown and the merge bitmap
  has exactly one bit per unit, the last pass reads and writes behind the bitmap.\<close>

theorem gc_leaves_the_zone:
  assumes "zone_inv_but X z" "bitmap_fits z" "0 < current_zone_level z"
  shows "(current_zone_level z < max_zone_level z \<and> grow_in_progress z = 0 \<and> growable z \<longrightarrow>
      (\<exists>y z1 z2. clear_merge_bitmap z = Inr y \<and> gc_levels y 0 (current_zone_level z) = Some (Inr z1) \<and>
        head (free_list z1 (current_zone_level z1)) = slot (2 ^ current_zone_level z1) \<and> grow z1 = Inr (True, z2) \<and>
        head (free_list z2 (current_zone_level z1)) = slot (2 ^ current_zone_level z1) \<and>
        get_next (zentries z2 (slot (2 ^ current_zone_level z1))) = slot (2 ^ current_zone_level z1))) \<and>
    (current_zone_level z = max_zone_level z \<and> merge_area z = 2 ^ max_zone_level z div 8 \<longrightarrow>
      garbage_collection z = Some (Inl Out_Of_Bounds))"
proof -
  let ?c = "current_zone_level z"
  from assms(1) obtain k f where kf: "zone_geom z k" "zone_rep z f X" by (auto simp: zone_inv_but_def)
  from gc_below_spec [OF kf assms(2,3)] obtain y z' f' where
    z': "clear_merge_bitmap z = Inr y" "gc_levels y 0 (?c - 1) = Some (Inr z')" "gc_at z' k f' {} ?c" "gc_kept z z'" by blast
  note kf' = gc_kept_fields [OF z'(4)]
  have at: "gc_at z' k f' {} (current_zone_level z')" using z'(3) kf'(4) by simp
  have split: "gc_levels y 0 n = obind (gc_levels y 0 (?c - 1)) (\<lambda>z. gc_levels z ?c n)" if "?c \<le> n" for n
    using gc_levels_split [of "?c - 1" n 0 y] that assms(3) by simp
  show ?thesis
  proof (intro conjI impI)
    assume g: "?c < max_zone_level z \<and> grow_in_progress z = 0 \<and> growable z"
    from gc_ungrown [OF at] g kf' obtain z1 where
      z1: "gc_level z' ?c = Some (Inr z1)" "zone_geom z1 k" "head (free_list z1 ?c) = slot (2 ^ ?c)"
        "current_zone_level z1 = ?c" "max_zone_level z1 = max_zone_level z" "grow_in_progress z1 = 0" "growable z1" by auto
    have "gc_levels z' ?c ?c = Some (Inr z1)" using z1(1) by (subst gc_levels.simps) (simp add: gc_levels.simps [of z1])
    then have "gc_levels y 0 ?c = Some (Inr z1)" using split [OF order_refl] z'(2) by simp
    moreover from grow_again [OF z1(2)] z1 g obtain z2 where "grow z1 = Inr (True, z2)"
      "head (free_list z2 ?c) = slot (2 ^ ?c)" "get_next (zentries z2 (slot (2 ^ ?c))) = slot (2 ^ ?c)" by auto
    ultimately show "\<exists>y z1 z2. clear_merge_bitmap z = Inr y \<and> gc_levels y 0 ?c = Some (Inr z1) \<and>
        head (free_list z1 (current_zone_level z1)) = slot (2 ^ current_zone_level z1) \<and> grow z1 = Inr (True, z2) \<and>
        head (free_list z2 (current_zone_level z1)) = slot (2 ^ current_zone_level z1) \<and>
        get_next (zentries z2 (slot (2 ^ current_zone_level z1))) = slot (2 ^ current_zone_level z1)"
      using z'(1) z1(3,4) by auto
  next
    assume g: "?c = max_zone_level z \<and> merge_area z = 2 ^ max_zone_level z div 8"
    have "gc_level z' ?c = Some (Inl Out_Of_Bounds)" using gc_overrun [OF at] g kf' by simp
    then have "gc_levels z' ?c ?c = Some (Inl Out_Of_Bounds)" by (subst gc_levels.simps) simp
    moreover have "max_zone_level y = max_zone_level z" using z'(1) by (auto simp: clear_merge_bitmap_def split: if_splits)
    ultimately show "garbage_collection z = Some (Inl Out_Of_Bounds)"
      using split [OF order_refl] z'(1,2) g by (simp add: garbage_collection_def)
  qed
qed

text \<open>The zone has 512 units, so that its bitmap fills one cache line exactly.\<close>

theorem gc_leaves_the_zone_witness:
  "\<exists>z. zone_create zero_memory 65536 (2 ^ 15) (2 ^ 6) (2 ^ 15) 1048576 = Some (Inr z) \<and>
    garbage_collection z = Some (Inl Out_Of_Bounds)"
proof -
  have lv: "find_level_from_size (2 ^ 15) (2 ^ 6) = of_nat 9"
    using find_level_of_pow2 [of 6 15] by simp
  have mb: "get_merge_bitmap_size (2 ^ 15) (2 ^ 6) = 64"
    unfolding get_merge_bitmap_size_def lv by (simp add: kCacheLineSize_def round_up_def)
  moreover have "\<not> is_allocated 0" by (simp add: is_allocated_bit)
  ultimately have args: "create_args zero_memory 65536 15 6 15"
    by (simp add: create_args_def accepted_args_def zero_memory_def)
  from zone_create_spec [OF args, of 1048576] obtain z where
    z: "zone_create zero_memory 65536 (2 ^ 15) (2 ^ 6) (2 ^ 15) 1048576 = Some (Inr z)"
      "current_zone_level z = 9" "max_zone_level z = 9"
      "header_ptr z - merge_bitmap_start_addr z = get_merge_bitmap_size (2 ^ 15) (2 ^ 6)"
    by auto
  have "merge_ready z" using create_merge_ready [OF args z(1)] by simp
  then have "zone_inv_but {} z" "bitmap_fits z"
    by (simp_all add: zone_inv_but_empty merge_ready_def zone_ready_def)
  moreover have "merge_area z = 2 ^ max_zone_level z div 8"
    using z(3,4) mb by (simp add: merge_area_def)
  ultimately have "garbage_collection z = Some (Inl Out_Of_Bounds)"
    using gc_leaves_the_zone [of "{}" z] z(2,3) by simp
  with z(1) show ?thesis by blast
qed

end
