(* ===== verification/Gull_Ids.thy ===== *)
theory Gull_Ids
  imports Gull_Prelude
begin

text \<open>
  Names of shelves and of memory: \<open>ShelfIdClass\<close> (\<open>include/nvmm/shelf_id.h\<close>, a 16-bit pool id
  and an 8-bit shelf index in a 32-bit word), \<open>GlobalPtrClass\<close> (\<open>include/nvmm/global_ptr.h\<close>,
  a 24-bit shelf id and a 40-bit offset in a 64-bit word) and \<open>ShelfName\<close>
  (\<open>src/shelf_mgmt/shelf_name.h\<close>, the path of a shelf file). The lemmas are the round trips and
  the injectivity of paths.
\<close>

type_synonym PoolId = u16
type_synonym ShelfIndex = u8
type_synonym ShelfId = u32
type_synonym GlobalPtr = u64

section \<open>\<open>ShelfId\<close>\<close>

definition kInvalidShelfId :: ShelfId where "kInvalidShelfId = 0"
definition kMaxPoolCount :: PoolId where "kMaxPoolCount = push_bit 14 1"
definition kMaxShelfCount :: ShelfIndex where "kMaxShelfCount = push_bit 7 1"
definition kPoolIdShelfIdbits :: nat where "kPoolIdShelfIdbits = 24"

definition EncodeShelfId :: "PoolId \<Rightarrow> ShelfIndex \<Rightarrow> ShelfId" where
  "EncodeShelfId pool_id shelf_idx = push_bit 8 (ucast pool_id) + ucast shelf_idx"

definition DecodePoolId :: "ShelfId \<Rightarrow> PoolId" where
  "DecodePoolId shelf_id = ucast (drop_bit 8 shelf_id)"

definition DecodeShelfIndex :: "ShelfId \<Rightarrow> ShelfIndex" where
  "DecodeShelfIndex shelf_id = ucast ((push_bit 8 1 - 1) AND shelf_id)"

text \<open>The constructor from a pool id and a shelf index asserts both ranges.\<close>

definition shelf_id :: "PoolId \<Rightarrow> ShelfIndex \<Rightarrow> ShelfId result" where
  "shelf_id pool_id shelf_idx =
     (if pool_id < kMaxPoolCount \<and> shelf_idx < kMaxShelfCount
      then Inr (EncodeShelfId pool_id shelf_idx) else Inl Assert_Failed)"

definition shelf_id_IsValid :: "ShelfId \<Rightarrow> bool" where
  "shelf_id_IsValid s \<longleftrightarrow>
     DecodePoolId s < kMaxPoolCount \<and> DecodeShelfIndex s < kMaxShelfCount \<and> s \<noteq> kInvalidShelfId"

section \<open>\<open>GlobalPtr\<close>\<close>

definition kOffsetShift :: nat where
  "kOffsetShift = (8 - kPoolIdShelfIdbits div 8) * 8"

definition kMaxOffset :: u64 where
  "kMaxOffset = push_bit kOffsetShift 1 - 1"

definition EncodeGlobalPtr :: "ShelfId \<Rightarrow> u64 \<Rightarrow> GlobalPtr" where
  "EncodeGlobalPtr s offset = push_bit kOffsetShift (ucast s) + offset"

definition DecodeShelfId :: "GlobalPtr \<Rightarrow> ShelfId" where
  "DecodeShelfId g = ucast (drop_bit kOffsetShift g)"

definition DecodeOffset :: "GlobalPtr \<Rightarrow> u64" where
  "DecodeOffset g = (push_bit kOffsetShift 1 - 1) AND g"

definition global_ptr_IsValid :: "GlobalPtr \<Rightarrow> bool" where
  "global_ptr_IsValid g \<longleftrightarrow> g \<noteq> 0"

definition global_ptr_IsValidOffset :: "u64 \<Rightarrow> bool" where
  "global_ptr_IsValidOffset offset \<longleftrightarrow> offset \<le> kMaxOffset"

section \<open>Round trips\<close>

lemma disjoint_plus:
  assumes "\<And>i. bit a i \<Longrightarrow> bit b i \<Longrightarrow> False"
  shows "(a :: 'a :: len word) + b = a OR b"
  by (rule disjunctive_add) (use assms in blast)

lemma bit_EncodeShelfId:
  "bit (EncodeShelfId p i) n \<longleftrightarrow> n < 32 \<and> (if n < 8 then bit i n else bit p (n - 8))"
proof -
  have "EncodeShelfId p i = push_bit 8 (ucast p) OR ucast i"
    unfolding EncodeShelfId_def
    by (rule disjoint_plus) (auto simp: bit_push_bit_iff bit_ucast_iff dest: bit_imp_le_length)
  then show ?thesis
    by (auto simp: bit_or_iff bit_push_bit_iff bit_ucast_iff dest: bit_imp_le_length)
qed

lemma shelf_id_fields:
  "DecodePoolId (EncodeShelfId p i) = p" "DecodeShelfIndex (EncodeShelfId p i) = i"
proof -
  show "DecodePoolId (EncodeShelfId p i) = p"
    by (rule bit_word_eqI)
      (simp add: DecodePoolId_def bit_ucast_iff bit_drop_bit_eq bit_EncodeShelfId)
  have m: "(push_bit 8 1 - 1 :: u32) = mask 8" by (simp add: push_bit_eq_mult mask_eq_exp_minus_1)
  show "DecodeShelfIndex (EncodeShelfId p i) = i"
    unfolding DecodeShelfIndex_def m
    by (rule bit_word_eqI) (simp add: bit_ucast_iff bit_and_iff bit_mask_iff bit_EncodeShelfId)
qed

lemma EncodeShelfId_inject: "EncodeShelfId p i = EncodeShelfId q j \<longleftrightarrow> p = q \<and> i = j"
  using shelf_id_fields by metis

lemma EncodeShelfId_lt: "EncodeShelfId p i < 2 ^ 24"
proof -
  have "EncodeShelfId p i = take_bit 24 (EncodeShelfId p i)"
    by (rule bit_word_eqI) (auto simp: bit_take_bit_iff bit_EncodeShelfId dest: bit_imp_le_length)
  also have "\<dots> < 2 ^ 24" by (simp add: take_bit_eq_mod word_mod_less_divisor)
  finally show ?thesis .
qed

lemma kOffsetShift_value: "kOffsetShift = 40"
  by (simp add: kOffsetShift_def kPoolIdShelfIdbits_def)

lemma word_bit_bound:
  assumes "(w :: 'a :: len word) < 2 ^ t" "bit w n"
  shows "n < t"
proof -
  have "unat w < unat (2 ^ t :: 'a word)" using assms(1) by (simp add: word_less_nat_alt)
  also have "\<dots> \<le> 2 ^ t" by (metis of_nat_numeral of_nat_power unat_of_nat mod_less_eq_dividend take_bit_eq_mod)
  finally have "unat w < 2 ^ t" .
  moreover have "bit (unat w) n" using assms(2) by (simp add: bit_unsigned_iff bit_imp_le_length)
  ultimately show ?thesis by (rule nat_bit_lt_power)
qed

lemma global_ptr_fields:
  assumes "s < 2 ^ 24" "offset \<le> kMaxOffset"
  shows "DecodeShelfId (EncodeGlobalPtr s offset) = s" "DecodeOffset (EncodeGlobalPtr s offset) = offset"
proof -
  have mx: "(push_bit 40 1 - 1 :: u64) = mask 40" by (simp add: push_bit_eq_mult mask_eq_exp_minus_1)
  have "offset \<le> mask 40" using assms(2) by (simp only: kMaxOffset_def kOffsetShift_value mx)
  then have o: "bit offset n \<Longrightarrow> n < 40" for n
    using word_bit_bound [of offset 40 n] by (simp add: mask_eq_exp_minus_1 word_le_sub1 order_le_less_trans)
  have e: "EncodeGlobalPtr s offset = push_bit 40 (ucast s) OR offset"
    unfolding EncodeGlobalPtr_def kOffsetShift_value
    by (rule disjoint_plus) (auto simp: bit_push_bit_iff dest: o)
  note sb = word_bit_bound [OF assms(1)]
  show "DecodeShelfId (EncodeGlobalPtr s offset) = s"
    unfolding DecodeShelfId_def e kOffsetShift_value
    by (rule bit_word_eqI) (auto simp: bit_ucast_iff bit_drop_bit_eq bit_or_iff bit_push_bit_iff dest: o sb)
  show "DecodeOffset (EncodeGlobalPtr s offset) = offset"
    unfolding DecodeOffset_def e kOffsetShift_value mx
    by (rule bit_word_eqI) (auto simp: bit_and_iff bit_mask_iff bit_or_iff bit_push_bit_iff dest: o)
qed

section \<open>Decimal numbers\<close>

text \<open>\<open>std::to_string\<close> of an unsigned number, and \<open>std::stoul\<close>, which skips blanks,
  reads a sign and the digits that follow (a minus sign negates the unsigned result), and throws
  when there is no digit or the number has more than 64 bits.\<close>

definition digit :: "nat \<Rightarrow> char" where
  "digit n = char_of (48 + n)"

fun to_string :: "nat \<Rightarrow> string" where
  "to_string n = (if n < 10 then [digit n] else to_string (n div 10) @ [digit (n mod 10)])"

declare to_string.simps [simp del]

definition is_digit :: "char \<Rightarrow> bool" where
  "is_digit c \<longleftrightarrow> 48 \<le> (of_char c :: nat) \<and> (of_char c :: nat) \<le> 57"

definition read_digits :: "string \<Rightarrow> nat" where
  "read_digits s = foldl (\<lambda>n c. 10 * n + (of_char c - 48)) 0 s"

definition is_space :: "char \<Rightarrow> bool" where
  "is_space c \<longleftrightarrow> (of_char c :: nat) = 32 \<or> (9 \<le> (of_char c :: nat) \<and> (of_char c :: nat) \<le> 13)"

definition stoul :: "string \<Rightarrow> u64 result" where
  "stoul s =
     (let s = dropWhile is_space s;
          neg = (case s of c # _ \<Rightarrow> of_char c = (45 :: nat) | [] \<Rightarrow> False);
          pos = (case s of c # _ \<Rightarrow> of_char c = (43 :: nat) | [] \<Rightarrow> False);
          ds = takeWhile is_digit (if neg \<or> pos then tl s else s);
          n = read_digits ds
      in if ds = [] then Inl Runtime_Error
         else if 2 ^ 64 \<le> n then Inl Runtime_Error
         else Inr (if neg then - of_nat n else of_nat n))"

lemma of_char_digit: "n < 10 \<Longrightarrow> (of_char (digit n) :: nat) = 48 + n"
  by (simp add: digit_def)

lemma is_digit_digit: "n < 10 \<Longrightarrow> is_digit (digit n)"
  by (simp add: is_digit_def of_char_digit)

lemma to_string_digits: "c \<in> set (to_string n) \<Longrightarrow> is_digit c"
proof (induction n rule: to_string.induct)
  case (1 n)
  then show ?case
    by (cases "n < 10") (auto simp: to_string.simps [of n] is_digit_digit)
qed

lemma to_string_ne: "to_string n \<noteq> []"
  by (cases "n < 10") (simp_all add: to_string.simps [of n])

lemma read_to_string: "read_digits (to_string n) = n"
proof (induction n rule: to_string.induct)
  case (1 n)
  show ?case
  proof (cases "n < 10")
    case True
    then show ?thesis by (simp add: to_string.simps [of n] read_digits_def of_char_digit)
  next
    case False
    then have "read_digits (to_string n) = 10 * read_digits (to_string (n div 10)) + n mod 10"
      by (simp add: to_string.simps [of n] read_digits_def of_char_digit)
    with 1 False show ?thesis by simp
  qed
qed

lemma to_string_inject: "to_string m = to_string n \<longleftrightarrow> m = n"
  using read_to_string by metis

lemma digit_first:
  assumes "is_digit c"
  shows "\<not> is_space c" "(of_char c :: nat) \<noteq> 45" "(of_char c :: nat) \<noteq> 43"
  using assms by (auto simp: is_digit_def is_space_def)

lemma stoul_to_string:
  assumes "s = [] \<or> \<not> is_digit (hd s)" "n < 2 ^ 64"
  shows "stoul (to_string n @ s) = Inr (of_nat n)"
proof -
  obtain c t where ct: "to_string n = c # t" using to_string_ne by (cases "to_string n") auto
  then have c: "is_digit c" using to_string_digits [of c n] by simp
  have "takeWhile is_digit (to_string n @ s) = to_string n"
    using to_string_digits [of _ n] assms
    by (cases s) (auto simp: takeWhile_append2 takeWhile_tail)
  moreover have "dropWhile is_space (to_string n @ s) = to_string n @ s"
    using digit_first(1) [OF c] by (simp add: ct)
  moreover have "\<not> (case to_string n @ s of c # _ \<Rightarrow> of_char c = (45 :: nat) | [] \<Rightarrow> False)"
    "\<not> (case to_string n @ s of c # _ \<Rightarrow> of_char c = (43 :: nat) | [] \<Rightarrow> False)"
    using digit_first(2,3) [OF c] by (simp_all add: ct)
  ultimately show ?thesis using assms(2) by (simp add: stoul_def Let_def to_string_ne read_to_string)
qed

section \<open>Paths\<close>

definition underscore :: char where
  "underscore = CHR 0x5F"

definition shelf_path :: "string \<Rightarrow> ShelfId \<Rightarrow> string \<Rightarrow> string \<Rightarrow> string" where
  "shelf_path prefix s suffix1 suffix2 =
     (let pathname = prefix @ [underscore] @ to_string (unat (DecodePoolId s)) @ [underscore] @
            to_string (unat (DecodeShelfIndex s));
          pathname = (if suffix1 \<noteq> [] then pathname @ [underscore] @ suffix1 else pathname)
      in if suffix2 \<noteq> [] then pathname @ [underscore] @ suffix2 else pathname)"

definition shelf_path_str :: "string \<Rightarrow> string \<Rightarrow> string \<Rightarrow> string \<Rightarrow> string" where
  "shelf_path_str prefix shelf_id_str suffix1 suffix2 =
     (let pathname = prefix @ [underscore] @ shelf_id_str;
          pathname = (if suffix1 \<noteq> [] then pathname @ [underscore] @ suffix1 else pathname)
      in if suffix2 \<noteq> [] then pathname @ [underscore] @ suffix2 else pathname)"

lemma underscore_not_digit: "\<not> is_digit underscore"
  by (simp add: is_digit_def underscore_def)

lemma no_underscore: "underscore \<notin> set (to_string n)"
  using to_string_digits underscore_not_digit by blast

lemma split_underscore:
  assumes "a @ underscore # b = c @ underscore # d" "underscore \<notin> set a" "underscore \<notin> set c"
  shows "a = c \<and> b = d"
  using assms
proof (induction a arbitrary: c)
  case Nil
  then show ?case by (cases c) auto
next
  case (Cons x a)
  then show ?case by (cases c) auto
qed

text \<open>The names that the pool gives to versioned shelf files determine pool, index, version and
  suffix.\<close>

lemma shelf_path_inject:
  assumes eq: "shelf_path p (EncodeShelfId q i) (to_string v) x = shelf_path p (EncodeShelfId r j) (to_string w) y"
  shows "q = r \<and> i = j \<and> v = w \<and> x = y"
proof -
  define tail where "tail n z = (if z = [] then to_string n else to_string n @ underscore # z)" for n z
  have path: "shelf_path p (EncodeShelfId a b) (to_string n) z =
      p @ underscore # to_string (unat a) @ underscore # to_string (unat b) @ underscore # tail n z" for a b n z
    by (simp add: shelf_path_def shelf_id_fields to_string_ne tail_def)
  from eq [unfolded path] have
    "to_string (unat q) @ underscore # to_string (unat i) @ underscore # tail v x =
     to_string (unat r) @ underscore # to_string (unat j) @ underscore # tail w y" by simp
  from split_underscore [OF this no_underscore no_underscore] have
    q: "to_string (unat q) = to_string (unat r)" and
    "to_string (unat i) @ underscore # tail v x = to_string (unat j) @ underscore # tail w y" by simp_all
  from split_underscore [OF this(2) no_underscore no_underscore] have
    i: "to_string (unat i) = to_string (unat j)" and t: "tail v x = tail w y" by simp_all
  have "v = w \<and> x = y"
  proof (cases "x = []"; cases "y = []")
    assume "x = []" "y = []"
    with t show ?thesis by (simp add: tail_def to_string_inject)
  next
    assume "x = []" "y \<noteq> []"
    with t have "underscore \<in> set (to_string v)" by (simp add: tail_def)
    with no_underscore show ?thesis by blast
  next
    assume "x \<noteq> []" "y = []"
    with t have "underscore \<in> set (to_string w)" by (simp add: tail_def) (metis in_set_conv_decomp)
    with no_underscore show ?thesis by blast
  next
    assume "x \<noteq> []" "y \<noteq> []"
    with t have "to_string v @ underscore # x = to_string w @ underscore # y" by (simp add: tail_def)
    from split_underscore [OF this no_underscore no_underscore] show ?thesis by (simp add: to_string_inject)
  qed
  with q i show ?thesis by (simp add: to_string_inject word_unat_eq_iff)
qed

end
