(* ===== verification/Membership.thy ===== *)
theory Membership
  imports Gull_Ids
begin

text \<open>
  \<open>MembershipT<uint16_t, ShelfIndex>\<close> of \<open>src/shelf_mgmt/membership.h\<close>, the table of the shelves
  of a pool: one cache line per slot, of which the first 64 bits are accessed atomically. The
  top bit of a 16-bit item is the valid bit, the rest a version number. The memory (header
  and items) is one record, the object that is opened on it another.

  The operations are first translated as one process runs them, then their atomic steps are
  interleaved: every operation is at most one load followed by one compare-and-store.
\<close>

section \<open>Items\<close>

type_synonym item = u16

definition kMaskValidBit :: item where "kMaskValidBit = push_bit (2 * 8 - 1) 1"
definition kMaskVersionNum :: item where "kMaskVersionNum = push_bit (2 * 8 - 1) 1 - 1"

definition GetVersionNum :: "item \<Rightarrow> item" where
  "GetVersionNum value = value AND kMaskVersionNum"

definition TestValidBit :: "item \<Rightarrow> bool" where
  "TestValidBit value \<longleftrightarrow> value AND kMaskValidBit \<noteq> 0"

definition SetValidBit :: "item \<Rightarrow> item" where
  "SetValidBit value = value XOR kMaskValidBit"

definition ClearValidBit :: "item \<Rightarrow> item" where
  "ClearValidBit value = value AND NOT kMaskValidBit"

definition IncVersionNum :: "item \<Rightarrow> item" where
  "IncVersionNum value =
     (value AND kMaskValidBit) XOR (((value AND kMaskVersionNum) + 1) AND kMaskVersionNum)"

section \<open>The table\<close>

type_synonym items = "nat \<Rightarrow> u64"

record members =
  magic_num :: u64
  m_size :: u64
  m_item_count :: u64
  m_items :: items

record membership =
  ms_is_open :: bool
  ms_size :: u64
  ms_item_count :: u64

definition membership_kMagicNum :: u64 where "membership_kMagicNum = 686362377447"

definition sizeof_membership_header :: u64 where "sizeof_membership_header = 32"
definition sizeof_CacheLine :: u64 where "sizeof_CacheLine = 64"

definition membership_new :: "u64 \<Rightarrow> membership" where
  "membership_new avail_size = \<lparr>ms_is_open = False, ms_size = avail_size, ms_item_count = 0\<rparr>"

definition membership_Create ::
  "membership \<Rightarrow> members \<Rightarrow> ShelfIndex \<Rightarrow> (error_code \<times> membership \<times> members) result" where
  "membership_Create ms mem count =
     (if ms_is_open ms then Inl Assert_Failed
      else if count = 0 then Inl Assert_Failed
      else let cur_size = ms_size ms; header_size = round_up sizeof_membership_header kCacheLineSize
           in if cur_size < header_size then Inr (MEMBERSHIP_CREATE_FAILED, ms, mem)
              else let mem = mem\<lparr>magic_num := 0, m_size := 0, m_item_count := 0\<rparr>;
                       cur_size = cur_size - header_size;
                       items_size = round_up (ucast count * sizeof_CacheLine) kCacheLineSize
                   in if cur_size < items_size then Inr (MEMBERSHIP_CREATE_FAILED, ms, mem)
                      else let mem = mem\<lparr>m_items := (\<lambda>i. if i < unat items_size div 64 then 0 else m_items mem i)\<rparr>;
                               mem = mem\<lparr>m_item_count := ucast count, m_size := header_size + items_size\<rparr>;
                               mem = mem\<lparr>magic_num := membership_kMagicNum\<rparr>
                           in Inr (NO_ERROR, ms\<lparr>ms_size := m_size mem\<rparr>, mem))"

definition membership_Verify :: "members \<Rightarrow> bool" where
  "membership_Verify mem \<longleftrightarrow> magic_num mem = membership_kMagicNum"

definition membership_Destroy ::
  "membership \<Rightarrow> members \<Rightarrow> (error_code \<times> membership \<times> members) result" where
  "membership_Destroy ms mem =
     (if ms_is_open ms then Inl Assert_Failed
      else if membership_Verify mem
      then let sz = m_size mem
           in Inr (NO_ERROR, ms\<lparr>ms_size := sz\<rparr>,
                \<lparr>magic_num = 0, m_size = 0, m_item_count = 0,
                  m_items = (\<lambda>i. if 64 * (i + 1) < unat sz then 0 else m_items mem i)\<rparr>)
      else Inr (MEMBERSHIP_DESTROY_FAILED, ms, mem))"

text \<open>\<open>item_count_\<close> has type \<open>ShelfIndex\<close>, so \<open>Open\<close> keeps the low byte.\<close>

definition membership_Open :: "membership \<Rightarrow> members \<Rightarrow> (error_code \<times> membership) result" where
  "membership_Open ms mem =
     (if ms_is_open ms then Inl Assert_Failed
      else if \<not> membership_Verify mem then Inr (MEMBERSHIP_OPEN_FAILED, ms)
      else if m_size mem > ms_size ms then Inr (MEMBERSHIP_OPEN_FAILED, ms)
      else Inr (NO_ERROR, ms\<lparr>ms_size := m_size mem, ms_item_count := ucast (ucast (m_item_count mem) :: u8),
                            ms_is_open := True\<rparr>))"

definition membership_Close :: "membership \<Rightarrow> (error_code \<times> membership) result" where
  "membership_Close ms = (if ms_is_open ms then Inr (NO_ERROR, ms\<lparr>ms_is_open := False\<rparr>) else Inl Assert_Failed)"

section \<open>Slots\<close>

definition LoadFromFAM :: "items \<Rightarrow> nat \<Rightarrow> item" where
  "LoadFromFAM its index = ucast (its index)"

text \<open>The result: whether the store happened, the value of \<open>*expected\<close> afterwards, the items.\<close>

definition CASonFAM :: "items \<Rightarrow> nat \<Rightarrow> item \<Rightarrow> item \<Rightarrow> bool \<times> item \<times> items" where
  "CASonFAM its index expected desired =
     (let res = its index
      in if res \<noteq> ucast expected then (False, ucast res, its)
         else (True, expected, its(index := ucast desired)))"

definition TestValidBitWithIndex :: "items \<Rightarrow> nat \<Rightarrow> bool" where
  "TestValidBitWithIndex its index = TestValidBit (LoadFromFAM its index)"

definition GetItemWithIndex :: "items \<Rightarrow> nat \<Rightarrow> item" where
  "GetItemWithIndex its index = LoadFromFAM its index"

definition GetVersionNumWithIndex :: "items \<Rightarrow> nat \<Rightarrow> item" where
  "GetVersionNumWithIndex its index = GetVersionNum (LoadFromFAM its index)"

definition GetUsedSlot :: "items \<Rightarrow> nat \<Rightarrow> bool \<times> item" where
  "GetUsedSlot its index =
     (let value = LoadFromFAM its index in if TestValidBit value then (True, value) else (False, value))"

text \<open>\<open>MarkSlotFree\<close> and \<open>GetFreeSlot\<close> are split after their load; what follows is one
  compare-and-store with the loaded value.\<close>

definition MarkSlotFree_cas :: "items \<Rightarrow> nat \<Rightarrow> item \<Rightarrow> bool \<times> item \<times> items" where
  "MarkSlotFree_cas its index old_value =
     (let new_value = IncVersionNum old_value;
          new_value = ClearValidBit new_value
      in CASonFAM its index old_value new_value)"

definition MarkSlotFree :: "items \<Rightarrow> nat \<Rightarrow> bool \<times> item \<times> items" where
  "MarkSlotFree its index =
     (let old_value = LoadFromFAM its index
      in if TestValidBit old_value then MarkSlotFree_cas its index old_value
         else (False, old_value, its))"

definition GetFreeSlot_cas :: "items \<Rightarrow> nat \<Rightarrow> item \<Rightarrow> (bool \<times> item \<times> items) result" where
  "GetFreeSlot_cas its index old_value =
     (let new_value = IncVersionNum old_value;
          (ret, old_value, its) = CASonFAM its index old_value new_value
      in if ret
         then if TestValidBit new_value then Inl Assert_Failed else Inr (True, new_value, its)
         else Inr (False, old_value, its))"

definition GetFreeSlot :: "items \<Rightarrow> nat \<Rightarrow> (bool \<times> item \<times> items) result" where
  "GetFreeSlot its index =
     (let old_value = LoadFromFAM its index
      in if TestValidBit old_value then Inr (False, old_value, its)
         else GetFreeSlot_cas its index old_value)"

definition MarkSlotUsed :: "items \<Rightarrow> nat \<Rightarrow> item \<Rightarrow> (bool \<times> item \<times> items) result" where
  "MarkSlotUsed its index value =
     (if TestValidBit value then Inl Assert_Failed
      else let new_value = SetValidBit value;
               (ret, old_value, its) = CASonFAM its index value new_value
           in Inr (if ret then (True, new_value, its) else (False, old_value, its)))"

text \<open>The searches. Their loops run an 8-bit index up to at most \<open>ms_item_count\<close>, which is below
  256, so it does not wrap.\<close>

definition find_slot :: "items \<Rightarrow> bool \<Rightarrow> nat \<Rightarrow> nat \<Rightarrow> nat option" where
  "find_slot its used lo hi = List.find (\<lambda>i. TestValidBitWithIndex its i = used) [lo..<hi]"

definition FindFirstSlot :: "items \<Rightarrow> bool \<Rightarrow> nat \<Rightarrow> nat \<Rightarrow> nat \<Rightarrow> nat option" where
  "FindFirstSlot its used count start_index end_index =
     (let start_index = start_index mod count; end_index = end_index mod count
      in if end_index < start_index
         then case find_slot its used start_index count of
                Some i \<Rightarrow> Some i
              | None \<Rightarrow> find_slot its used 0 (end_index + 1)
         else find_slot its used start_index (end_index + 1))"

definition FindFirstFreeSlot :: "items \<Rightarrow> nat \<Rightarrow> nat \<Rightarrow> nat \<Rightarrow> nat option" where
  "FindFirstFreeSlot its = FindFirstSlot its False"

definition FindFirstUsedSlot :: "items \<Rightarrow> nat \<Rightarrow> nat \<Rightarrow> nat \<Rightarrow> nat option" where
  "FindFirstUsedSlot its = FindFirstSlot its True"

section \<open>An item is a version and a valid bit\<close>

definition mk_item :: "nat \<Rightarrow> bool \<Rightarrow> item" where
  "mk_item v b = (if b then kMaskValidBit else 0) OR (of_nat v AND kMaskVersionNum)"

lemma masks: "kMaskValidBit = 2 ^ 15" "kMaskVersionNum = mask 15"
  by (simp_all add: kMaskValidBit_def kMaskVersionNum_def push_bit_eq_mult mask_eq_exp_minus_1)

lemma mask_bits: "bit kMaskValidBit i \<longleftrightarrow> i = 15" "bit kMaskVersionNum i \<longleftrightarrow> i < 15"
proof -
  have "bit (2 ^ 15 :: item) i \<longleftrightarrow> i = 15" unfolding bit_exp_iff by auto
  then show "bit kMaskValidBit i \<longleftrightarrow> i = 15" by (simp only: masks)
  show "bit kMaskVersionNum i \<longleftrightarrow> i < 15" by (auto simp: masks bit_mask_iff)
qed

lemma bit_mk_item: "bit (mk_item v b) i \<longleftrightarrow> (i < 15 \<and> bit v i) \<or> (i = 15 \<and> b)"
  by (auto simp: mk_item_def mask_bits bit_or_iff bit_and_iff bit_of_nat_iff)

lemma valid_bit: "TestValidBit w \<longleftrightarrow> bit w 15"
  by (simp add: TestValidBit_def masks bit_iff_and_push_bit_not_eq_0 push_bit_eq_mult)

lemma valid_mk_item [simp]: "TestValidBit (mk_item v b) \<longleftrightarrow> b"
  by (simp add: valid_bit bit_mk_item)

lemma item_eq_mk: "\<exists>v < 2 ^ 15. w = mk_item v (TestValidBit w)"
proof -
  let ?v = "unat (w AND mask 15)"
  have "w AND mask 15 < 2 ^ 15" by (rule and_mask_less_size) (simp add: word_size)
  then have "?v < 2 ^ 15" by (simp add: word_less_nat_alt)
  moreover have "w = mk_item ?v (TestValidBit w)"
  proof (rule bit_word_eqI)
    fix i
    assume "i < LENGTH(16)"
    then have "i < 15 \<or> i = 15" by force
    then show "bit w i \<longleftrightarrow> bit (mk_item ?v (TestValidBit w)) i"
      by (auto simp: bit_mk_item valid_bit bit_unsigned_iff bit_and_iff bit_mask_iff)
  qed
  ultimately show ?thesis by blast
qed

lemma mk_item_mod: "mk_item (v mod 2 ^ 15) b = mk_item v b"
  unfolding take_bit_eq_mod [symmetric]
  by (rule bit_word_eqI) (auto simp: bit_mk_item bit_take_bit_iff)

lemma mk_item_inject:
  assumes "v < 2 ^ 15" "w < 2 ^ 15" "mk_item v b = mk_item w c"
  shows "v = w \<and> b = c"
proof
  show "b = c" using assms(3) valid_mk_item by metis
  show "v = w"
  proof (rule bit_eqI)
    fix i
    show "bit v i \<longleftrightarrow> bit w i"
    proof (cases "i < 15")
      case True
      then show ?thesis using arg_cong [OF assms(3), of "\<lambda>x. bit x i"] by (simp add: bit_mk_item)
    next
      case False
      then show ?thesis using assms(1,2) nat_bit_lt_power by blast
    qed
  qed
qed

lemma inc_mk_item: "IncVersionNum (mk_item v b) = mk_item (Suc v) b"
proof -
  have v: "mk_item v b AND kMaskVersionNum = of_nat v AND kMaskVersionNum"
    by (rule bit_word_eqI) (auto simp: mask_bits bit_and_iff bit_mk_item bit_of_nat_iff)
  have b: "mk_item v b AND kMaskValidBit = (if b then kMaskValidBit else 0)"
    by (rule bit_word_eqI) (auto simp: mask_bits bit_and_iff bit_mk_item)
  have "take_bit 15 (of_nat v :: item) + 1 = of_nat (take_bit 15 v + 1)"
    by (simp add: take_bit_of_nat)
  moreover have "take_bit 15 (take_bit 15 v + 1) = take_bit 15 (Suc v)"
    by (simp add: take_bit_eq_mod mod_simps)
  ultimately have "take_bit 15 (take_bit 15 (of_nat v :: item) + 1) = take_bit 15 (of_nat (Suc v))"
    by (simp only: take_bit_of_nat)
  then have "((of_nat v AND mask 15) + 1) AND mask 15 = (of_nat (Suc v) AND mask 15 :: item)"
    by (simp only: take_bit_eq_mask)
  then have n: "((of_nat v AND kMaskVersionNum) + 1) AND kMaskVersionNum = (of_nat (Suc v) AND kMaskVersionNum :: item)"
    by (simp add: masks)
  have "(if b then kMaskValidBit else 0) XOR (of_nat (Suc v) AND kMaskVersionNum) = mk_item (Suc v) b"
    by (rule bit_word_eqI) (auto simp: mk_item_def mask_bits bit_and_iff bit_or_iff bit_xor_iff)
  then show ?thesis unfolding IncVersionNum_def v b n .
qed

lemma set_valid_mk_item: "SetValidBit (mk_item v False) = mk_item v True"
  by (rule bit_word_eqI) (auto simp: SetValidBit_def mask_bits bit_xor_iff bit_mk_item)

lemma clear_valid_mk_item: "ClearValidBit (mk_item v b) = mk_item v False"
  by (rule bit_word_eqI) (auto simp: ClearValidBit_def mask_bits bit_and_iff bit_not_iff bit_mk_item)

lemma version_mk_item: "v < 2 ^ 15 \<Longrightarrow> unat (GetVersionNum (mk_item v b)) = v"
proof -
  assume v: "v < 2 ^ 15"
  have "GetVersionNum (mk_item v b) = of_nat v"
  proof (rule bit_word_eqI)
    fix i
    assume i: "i < LENGTH(16)"
    have "bit v i \<Longrightarrow> i < 15" using nat_bit_lt_power [OF v] .
    with i show "bit (GetVersionNum (mk_item v b)) i \<longleftrightarrow> bit (of_nat v :: item) i"
      by (auto simp: GetVersionNum_def mask_bits bit_and_iff bit_mk_item bit_of_nat_iff)
  qed
  then show ?thesis using v by (simp add: unat_of_nat take_bit_nat_eq_self)
qed

section \<open>What the operations do to a slot\<close>

text \<open>\<open>slot_holds its i v b\<close>: slot \<open>i\<close> has version \<open>v\<close> and valid bit \<open>b\<close>.\<close>

definition slot_holds :: "items \<Rightarrow> nat \<Rightarrow> nat \<Rightarrow> bool \<Rightarrow> bool" where
  "slot_holds its i v b \<longleftrightarrow> its i = ucast (mk_item v b)"

lemma ucast_item_back: "(ucast (ucast (a :: item) :: u64) :: item) = a"
  by (rule bit_word_eqI) (simp add: bit_ucast_iff)

lemma ucast_item_inject: "(ucast (a :: item) :: u64) = ucast b \<longleftrightarrow> a = b"
  using ucast_item_back by metis

lemma load_slot: "slot_holds its i v b \<Longrightarrow> LoadFromFAM its i = mk_item v b"
  by (simp add: slot_holds_def LoadFromFAM_def ucast_item_back)

lemma cas_slot:
  assumes "slot_holds its i v b"
  shows "CASonFAM its i x y =
    (if x = mk_item v b then (True, x, its(i := ucast y)) else (False, mk_item v b, its))"
  using assms by (auto simp: slot_holds_def CASonFAM_def ucast_item_inject ucast_item_back)

lemma slot_holds_upd [simp]:
  "slot_holds (its(i := ucast (mk_item v b))) i v b"
  "j \<noteq> i \<Longrightarrow> slot_holds (its(i := x)) j w c = slot_holds its j w c"
  by (simp_all add: slot_holds_def)

lemma slot_holds_unique:
  assumes "slot_holds its i v b" "slot_holds its i w c" "v < 2 ^ 15" "w < 2 ^ 15"
  shows "v = w \<and> b = c"
proof -
  from assms(1,2) have "mk_item v b = mk_item w c" by (simp add: slot_holds_def ucast_item_inject)
  with mk_item_inject assms(3,4) show ?thesis by blast
qed

section \<open>The interface of a table of versioned slots\<close>

text \<open>
  What a pool relies on: \<open>get_free\<close> on a free slot bumps its version and returns the new item,
  \<open>mark_used\<close> succeeds on the item it was given, \<open>mark_free\<close> frees a used slot and returns its
  last item; no operation touches another slot, and a refused operation changes nothing.
\<close>

locale versioned_slots =
  fixes get_free :: "'t \<Rightarrow> nat \<Rightarrow> (bool \<times> 'i \<times> 't) result"
    and mark_used :: "'t \<Rightarrow> nat \<Rightarrow> 'i \<Rightarrow> (bool \<times> 'i \<times> 't) result"
    and mark_free :: "'t \<Rightarrow> nat \<Rightarrow> bool \<times> 'i \<times> 't"
    and holds :: "'t \<Rightarrow> nat \<Rightarrow> nat \<Rightarrow> bool \<Rightarrow> bool"
    and item :: "nat \<Rightarrow> bool \<Rightarrow> 'i"
  assumes get_free_free: "holds t i v False \<Longrightarrow>
      \<exists>t'. get_free t i = Inr (True, item (Suc v) False, t') \<and> holds t' i (Suc v) False \<and>
        (\<forall>j w c. j \<noteq> i \<longrightarrow> holds t' j w c = holds t j w c)"
    and get_free_used: "holds t i v True \<Longrightarrow> get_free t i = Inr (False, item v True, t)"
    and mark_used_same: "holds t i v False \<Longrightarrow>
      \<exists>t'. mark_used t i (item v False) = Inr (True, item v True, t') \<and> holds t' i v True \<and>
        (\<forall>j w c. j \<noteq> i \<longrightarrow> holds t' j w c = holds t j w c)"
    and mark_free_used: "holds t i v True \<Longrightarrow>
      \<exists>t'. mark_free t i = (True, item v True, t') \<and> holds t' i (Suc v) False \<and>
        (\<forall>j w c. j \<noteq> i \<longrightarrow> holds t' j w c = holds t j w c)"
    and mark_free_free: "holds t i v False \<Longrightarrow> mark_free t i = (False, item v False, t)"
begin

text \<open>Reserving a free slot and then marking it used gives it the next version.\<close>

lemma reserve_and_use:
  assumes "holds t i v False"
  shows "\<exists>t1 t2. get_free t i = Inr (True, item (Suc v) False, t1) \<and> holds t1 i (Suc v) False \<and>
    mark_used t1 i (item (Suc v) False) = Inr (True, item (Suc v) True, t2) \<and> holds t2 i (Suc v) True \<and>
    (\<forall>j w c. j \<noteq> i \<longrightarrow> holds t2 j w c = holds t j w c)"
proof -
  from get_free_free [OF assms] obtain t1 where t1: "get_free t i = Inr (True, item (Suc v) False, t1)"
    "holds t1 i (Suc v) False" "\<forall>j w c. j \<noteq> i \<longrightarrow> holds t1 j w c = holds t j w c" by blast
  from mark_used_same [OF t1(2)] obtain t2 where
    "mark_used t1 i (item (Suc v) False) = Inr (True, item (Suc v) True, t2)" "holds t2 i (Suc v) True"
    "\<forall>j w c. j \<noteq> i \<longrightarrow> holds t2 j w c = holds t1 j w c" by blast
  with t1 show ?thesis by blast
qed

text \<open>Using a slot and freeing it again leaves it free, two versions on.\<close>

lemma use_and_free:
  assumes "holds t i v False"
  shows "\<exists>t1 t2 t3. get_free t i = Inr (True, item (Suc v) False, t1) \<and>
    mark_used t1 i (item (Suc v) False) = Inr (True, item (Suc v) True, t2) \<and>
    mark_free t2 i = (True, item (Suc v) True, t3) \<and> holds t3 i (Suc (Suc v)) False"
  using reserve_and_use [OF assms] mark_free_used by metis

end

interpretation ms: versioned_slots GetFreeSlot MarkSlotUsed MarkSlotFree slot_holds mk_item
proof
  fix t :: items and i v :: nat
  show "\<exists>t'. GetFreeSlot t i = Inr (True, mk_item (Suc v) False, t') \<and> slot_holds t' i (Suc v) False \<and>
      (\<forall>j w c. j \<noteq> i \<longrightarrow> slot_holds t' j w c = slot_holds t j w c)" if "slot_holds t i v False"
    using that by (simp add: GetFreeSlot_def GetFreeSlot_cas_def load_slot cas_slot inc_mk_item Let_def)
  show "GetFreeSlot t i = Inr (False, mk_item v True, t)" if "slot_holds t i v True"
    using that by (simp add: GetFreeSlot_def load_slot)
  show "\<exists>t'. MarkSlotUsed t i (mk_item v False) = Inr (True, mk_item v True, t') \<and> slot_holds t' i v True \<and>
      (\<forall>j w c. j \<noteq> i \<longrightarrow> slot_holds t' j w c = slot_holds t j w c)" if "slot_holds t i v False"
    using that by (simp add: MarkSlotUsed_def cas_slot set_valid_mk_item Let_def)
  show "\<exists>t'. MarkSlotFree t i = (True, mk_item v True, t') \<and> slot_holds t' i (Suc v) False \<and>
      (\<forall>j w c. j \<noteq> i \<longrightarrow> slot_holds t' j w c = slot_holds t j w c)" if "slot_holds t i v True"
    using that by (simp add: MarkSlotFree_def MarkSlotFree_cas_def load_slot cas_slot inc_mk_item clear_valid_mk_item Let_def)
  show "MarkSlotFree t i = (False, mk_item v False, t)" if "slot_holds t i v False"
    using that by (simp add: MarkSlotFree_def load_slot)
qed

section \<open>Searching\<close>

lemma find_slot_Some:
  assumes "find_slot its used lo hi = Some i"
  shows "lo \<le> i" "i < hi" "TestValidBitWithIndex its i = used"
    "\<And>j. \<lbrakk>lo \<le> j; j < i\<rbrakk> \<Longrightarrow> TestValidBitWithIndex its j \<noteq> used"
proof -
  from assms obtain k where k: "k < length [lo..<hi]" "TestValidBitWithIndex its ([lo..<hi] ! k) = used"
    "i = [lo..<hi] ! k" "\<forall>j<k. TestValidBitWithIndex its ([lo..<hi] ! j) \<noteq> used"
    unfolding find_slot_def find_Some_iff by blast
  then have i: "i = lo + k" by simp
  show "lo \<le> i" "i < hi" "TestValidBitWithIndex its i = used" using k i by auto
  show "TestValidBitWithIndex its j \<noteq> used" if "lo \<le> j" "j < i" for j
    using k(4) [rule_format, of "j - lo"] k(1) i that by simp
qed

lemma find_slot_None:
  "find_slot its used lo hi = None \<longleftrightarrow> (\<forall>i. lo \<le> i \<and> i < hi \<longrightarrow> TestValidBitWithIndex its i \<noteq> used)"
  by (auto simp: find_slot_def find_None_iff)

lemma FindFirstSlot_Some:
  assumes "FindFirstSlot its used count s e = Some i" "0 < count"
  shows "i < count" "TestValidBitWithIndex its i = used"
proof -
  have "s mod count < count" "e mod count < count" using assms(2) by simp_all
  then show "i < count" "TestValidBitWithIndex its i = used"
    using assms(1) find_slot_Some(2,3)
    by (fastforce simp: FindFirstSlot_def Let_def split: if_splits option.splits)+
qed

text \<open>A search over the whole table that fails has seen every slot.\<close>

lemma FindFirstSlot_None:
  assumes "FindFirstSlot its used count s e = None" "0 < count" "e mod count + 1 = s mod count \<or> (s mod count = 0 \<and> e mod count + 1 = count)"
    "i < count"
  shows "TestValidBitWithIndex its i \<noteq> used"
  using assms by (cases "s mod count \<le> i")
    (auto simp: FindFirstSlot_def Let_def find_slot_None split: if_splits option.splits)

text \<open>A search that starts anywhere and goes once around finds a slot if there is one, and the
  slot it starts at if that is one.\<close>

lemma FindFirstSlot_whole:
  assumes "start < count"
  shows "case FindFirstSlot its used count start (start + count - 1) of
      Some i \<Rightarrow> i < count \<and> TestValidBitWithIndex its i = used \<and>
        (TestValidBitWithIndex its start = used \<longrightarrow> i = start)
    | None \<Rightarrow> \<forall>i < count. TestValidBitWithIndex its i \<noteq> used"
proof -
  have around: "(start + count - 1) mod count + 1 = start mod count \<or>
      (start mod count = 0 \<and> (start + count - 1) mod count + 1 = count)"
  proof (cases start)
    case 0
    with assms show ?thesis by simp
  next
    case (Suc n)
    then have "(start + count - 1) mod count = n" using assms by simp
    with Suc assms show ?thesis by simp
  qed
  show ?thesis
  proof (cases "FindFirstSlot its used count start (start + count - 1)")
    case None
    with FindFirstSlot_None [OF None _ around] assms show ?thesis by simp
  next
    case (Some i)
    have "i = start" if t: "TestValidBitWithIndex its start = used"
    proof -
      have f: "find_slot its used start hi = Some start" if "start < hi" for hi
        using t that by (simp add: find_slot_def upt_conv_Cons)
      have "start < (start + count - 1) mod count + 1" if "\<not> (start + count - 1) mod count < start mod count"
        using that assms by simp
      with Some f assms show ?thesis
        by (auto simp: FindFirstSlot_def Let_def split: if_splits option.splits)
    qed
    with FindFirstSlot_Some [OF Some] assms Some show ?thesis by simp
  qed
qed

end
