(* ===== verification/Membership_Conc.thy ===== *)
theory Membership_Conc
  imports Membership
begin

text \<open>
  The slots of a pool's membership table used by many processes at once
  (\<open>src/shelf_mgmt/membership.h\<close>, "ATOMIC" operations). A step is one atomic access of one
  process: a load that starts \<open>GetFreeSlot\<close> or \<open>MarkSlotFree\<close>, their compare-and-store, or the
  compare-and-store of \<open>MarkSlotUsed\<close> with the item a process reserved before. A process may
  also stop (crash or give up) between two accesses.

  Ghost state: \<open>bumps\<close> counts the version increments of a slot, \<open>hist\<close> records which process
  reserved which version. The version field has 15 bits, so the results hold while no slot
  has been incremented \<open>2 ^ 15\<close> times.
\<close>

datatype mpc =
    Idle
  | Free_Loaded nat item nat
  | Reserved nat item nat
  | Rm_Loaded nat item nat

record mstate =
  mitems :: items
  pcs :: "nat \<Rightarrow> mpc"
  bumps :: "nat \<Rightarrow> nat"
  hist :: "(nat \<times> nat \<times> nat) set"

inductive mstep :: "mstate \<Rightarrow> mstate \<Rightarrow> bool" where
  load_free: "\<lbrakk>pcs s p = Idle; \<not> TestValidBit (LoadFromFAM (mitems s) i)\<rbrakk> \<Longrightarrow>
    mstep s (s\<lparr>pcs := (pcs s)(p := Free_Loaded i (LoadFromFAM (mitems s) i) (bumps s i))\<rparr>)"
| reserve: "\<lbrakk>pcs s p = Free_Loaded i old n; GetFreeSlot_cas (mitems s) i old = Inr (True, v, its)\<rbrakk> \<Longrightarrow>
    mstep s (s\<lparr>mitems := its, pcs := (pcs s)(p := Reserved i v (Suc n)),
      bumps := (bumps s)(i := Suc (bumps s i)), hist := insert (i, Suc n, p) (hist s)\<rparr>)"
| reserve_lost: "\<lbrakk>pcs s p = Free_Loaded i old n; GetFreeSlot_cas (mitems s) i old = Inr (False, v, its)\<rbrakk> \<Longrightarrow>
    mstep s (s\<lparr>mitems := its, pcs := (pcs s)(p := Idle)\<rparr>)"
| mark_used: "\<lbrakk>pcs s p = Reserved i old n; MarkSlotUsed (mitems s) i old = Inr (r, v, its)\<rbrakk> \<Longrightarrow>
    mstep s (s\<lparr>mitems := its, pcs := (pcs s)(p := Idle)\<rparr>)"
| load_used: "\<lbrakk>pcs s p = Idle; TestValidBit (LoadFromFAM (mitems s) i)\<rbrakk> \<Longrightarrow>
    mstep s (s\<lparr>pcs := (pcs s)(p := Rm_Loaded i (LoadFromFAM (mitems s) i) (bumps s i))\<rparr>)"
| release: "\<lbrakk>pcs s p = Rm_Loaded i old n; MarkSlotFree_cas (mitems s) i old = (True, v, its)\<rbrakk> \<Longrightarrow>
    mstep s (s\<lparr>mitems := its, pcs := (pcs s)(p := Idle), bumps := (bumps s)(i := Suc (bumps s i))\<rparr>)"
| release_lost: "\<lbrakk>pcs s p = Rm_Loaded i old n; MarkSlotFree_cas (mitems s) i old = (False, v, its)\<rbrakk> \<Longrightarrow>
    mstep s (s\<lparr>mitems := its, pcs := (pcs s)(p := Idle)\<rparr>)"
| stop: "mstep s (s\<lparr>pcs := (pcs s)(p := Idle)\<rparr>)"

inductive_cases mstepE: "mstep s s'"

definition minit :: mstate where
  "minit = \<lparr>mitems = (\<lambda>_. 0), pcs = (\<lambda>_. Idle), bumps = (\<lambda>_. 0), hist = {}\<rparr>"

inductive mreach :: "mstate \<Rightarrow> bool" where
  start: "mreach minit"
| more: "\<lbrakk>mreach s; mstep s s'\<rbrakk> \<Longrightarrow> mreach s'"

section \<open>The invariant\<close>

definition no_wrap :: "mstate \<Rightarrow> bool" where
  "no_wrap s \<longleftrightarrow> (\<forall>i. bumps s i < 2 ^ 15)"

fun pc_ok :: "mstate \<Rightarrow> nat \<Rightarrow> mpc \<Rightarrow> bool" where
  "pc_ok s p Idle \<longleftrightarrow> True"
| "pc_ok s p (Free_Loaded i old n) \<longleftrightarrow> old = mk_item n False \<and> n \<le> bumps s i"
| "pc_ok s p (Reserved i old n) \<longleftrightarrow> old = mk_item n False \<and> n \<le> bumps s i \<and> (i, n, p) \<in> hist s"
| "pc_ok s p (Rm_Loaded i old n) \<longleftrightarrow> old = mk_item n True \<and> n \<le> bumps s i"

definition minv :: "mstate \<Rightarrow> bool" where
  "minv s \<longleftrightarrow> (\<forall>i. \<exists>b. slot_holds (mitems s) i (bumps s i) b) \<and> (\<forall>p. pc_ok s p (pcs s p)) \<and>
     (\<forall>i n p. (i, n, p) \<in> hist s \<longrightarrow> n \<le> bumps s i) \<and>
     (\<forall>i n p q. (i, n, p) \<in> hist s \<and> (i, n, q) \<in> hist s \<longrightarrow> p = q)"

lemma pc_ok_mono:
  assumes "pc_ok s p c" "\<And>i. bumps s i \<le> bumps s' i" "hist s \<subseteq> hist s'"
  shows "pc_ok s' p c"
  using assms order_trans [OF _ assms(2)] by (cases c) auto

lemma mstep_bumps: "mstep s s' \<Longrightarrow> bumps s i \<le> bumps s' i"
  by (erule mstepE) auto

lemma no_wrap_before: "mstep s s' \<Longrightarrow> no_wrap s' \<Longrightarrow> no_wrap s"
  using mstep_bumps le_less_trans unfolding no_wrap_def by blast

text \<open>A compare-and-store with a loaded item succeeds only if the slot did not change since.\<close>

lemma cas_unchanged:
  assumes "minv s" "no_wrap s" "n \<le> bumps s i" "CASonFAM (mitems s) i (mk_item n b) y = (True, x, its)"
  shows "bumps s i = n" "slot_holds (mitems s) i n b" "its = (mitems s)(i := ucast y)"
proof -
  from assms(1) obtain c where c: "slot_holds (mitems s) i (bumps s i) c" unfolding minv_def by blast
  from assms(4) have eq: "mk_item n b = mk_item (bumps s i) c" and its: "its = (mitems s)(i := ucast y)"
    by (auto simp: cas_slot [OF c] split: if_splits)
  have "bumps s i < 2 ^ 15" using assms(2) by (simp add: no_wrap_def)
  with assms(3) mk_item_inject [OF _ _ eq] have "n = bumps s i \<and> b = c" by simp
  with c its show "bumps s i = n" "slot_holds (mitems s) i n b" "its = (mitems s)(i := ucast y)" by auto
qed

lemma cas_failed: "CASonFAM its i x y = (False, v, its') \<Longrightarrow> its' = its"
  by (auto simp: CASonFAM_def Let_def split: if_splits)

lemma minv_pcs:
  assumes "minv s" "pc_ok s p c"
  shows "minv (s\<lparr>pcs := (pcs s)(p := c)\<rparr>)"
proof -
  have "pc_ok (s\<lparr>pcs := f\<rparr>) q d = pc_ok s q d" for f q d by (cases d) auto
  then show ?thesis using assms by (simp add: minv_def)
qed

lemma minv_write:
  assumes inv: "minv s" and b: "bumps s i \<le> n" and ok: "pc_ok s' p c"
    and s': "s' = s\<lparr>mitems := (mitems s)(i := ucast (mk_item n d)), pcs := (pcs s)(p := c),
      bumps := (bumps s)(i := n), hist := H\<rparr>"
    and H: "H = hist s \<or> (H = insert (i, n, p) (hist s) \<and> bumps s i < n)"
  shows "minv s'"
proof -
  have mono: "bumps s j \<le> bumps s' j" "hist s \<subseteq> hist s'" for j using b H by (auto simp: s')
  have "pc_ok s' q (pcs s' q)" for q
  proof (cases "q = p")
    case True
    with ok show ?thesis by (simp add: s')
  next
    case False
    then have "pcs s' q = pcs s q" by (simp add: s')
    moreover have "pc_ok s q (pcs s q)" using inv by (simp add: minv_def)
    ultimately show ?thesis using pc_ok_mono [OF _ mono(1,2)] by simp
  qed
  moreover have "\<exists>e. slot_holds (mitems s') j (bumps s' j) e" for j
  proof (cases "j = i")
    case True
    then show ?thesis by (intro exI [of _ d]) (simp add: s')
  next
    case False
    with inv show ?thesis by (simp add: s' minv_def)
  qed
  moreover have "m \<le> bumps s' j" if "(j, m, q) \<in> hist s'" for j m q
  proof (cases "(j, m, q) \<in> hist s")
    case True
    with inv have "m \<le> bumps s j" unfolding minv_def by blast
    with mono(1) show ?thesis using order_trans by blast
  next
    case False
    with that H show ?thesis by (auto simp: s')
  qed
  moreover have "q = r" if "(j, m, q) \<in> hist s'" "(j, m, r) \<in> hist s'" for j m q r
  proof -
    have "m' \<le> bumps s j" if "(j, m', q) \<in> hist s" for j m' q using inv that unfolding minv_def by blast
    moreover have "q = r" if "(j, m, q) \<in> hist s" "(j, m, r) \<in> hist s" for j m q r
      using inv that unfolding minv_def by blast
    moreover have "hist s' = H" by (simp add: s')
    ultimately show ?thesis using that H by (metis insertE not_le prod.inject)
  qed
  ultimately show ?thesis unfolding minv_def by blast
qed

lemma minv_step:
  assumes "mstep s s'" "minv s" "no_wrap s"
  shows "minv s'"
  using assms(1)
proof cases
  case (load_free p i)
  from assms(2) obtain b where b: "slot_holds (mitems s) i (bumps s i) b" unfolding minv_def by blast
  with load_free have "LoadFromFAM (mitems s) i = mk_item (bumps s i) False" by (simp add: load_slot [OF b])
  with load_free assms(2) show ?thesis by (auto intro: minv_pcs)
next
  case (load_used p i)
  from assms(2) obtain b where b: "slot_holds (mitems s) i (bumps s i) b" unfolding minv_def by blast
  with load_used have "LoadFromFAM (mitems s) i = mk_item (bumps s i) True" by (simp add: load_slot [OF b])
  with load_used assms(2) show ?thesis by (auto intro: minv_pcs)
next
  case (reserve p i old n v its)
  have ok: "pc_ok s p (Free_Loaded i old n)" using assms(2) reserve(2) unfolding minv_def by metis
  then have old: "old = mk_item n False" "n \<le> bumps s i" by simp_all
  from reserve(3) have cas: "CASonFAM (mitems s) i (mk_item n False) (IncVersionNum old) = (True, old, its)"
    and v: "v = IncVersionNum old"
    by (auto simp: GetFreeSlot_cas_def CASonFAM_def Let_def old split: if_splits prod.splits)
  note u = cas_unchanged [OF assms(2,3) old(2) cas]
  show ?thesis
    by (rule minv_write [where n = "Suc n" and p = p and i = i and c = "Reserved i v (Suc n)" and d = False, OF assms(2)])
      (use u reserve(1) v old in \<open>auto simp: inc_mk_item\<close>)
next
  case (reserve_lost p i old n v its)
  then have "its = mitems s" by (auto simp: GetFreeSlot_cas_def CASonFAM_def Let_def split: if_splits prod.splits)
  with reserve_lost minv_pcs [OF assms(2), of p Idle] show ?thesis by simp
next
  case (mark_used p i old n r v its)
  have ok: "pc_ok s p (Reserved i old n)" using assms(2) mark_used(2) unfolding minv_def by metis
  then have old: "old = mk_item n False" "n \<le> bumps s i" by simp_all
  show ?thesis
  proof (cases r)
    case True
    with mark_used(3) have cas: "CASonFAM (mitems s) i (mk_item n False) (SetValidBit old) = (True, old, its)"
      by (auto simp: MarkSlotUsed_def CASonFAM_def Let_def old split: if_splits prod.splits)
    note u = cas_unchanged [OF assms(2,3) old(2) cas]
    show ?thesis
      by (rule minv_write [where n = n and p = p and i = i and c = Idle and d = True and H = "hist s", OF assms(2)])
        (use u mark_used(1) old in \<open>auto simp: set_valid_mk_item\<close>)
  next
    case False
    with mark_used(3) have "its = mitems s"
      by (auto simp: MarkSlotUsed_def CASonFAM_def Let_def split: if_splits prod.splits)
    with mark_used minv_pcs [OF assms(2), of p Idle] show ?thesis by simp
  qed
next
  case (release p i old n v its)
  have ok: "pc_ok s p (Rm_Loaded i old n)" using assms(2) release(2) unfolding minv_def by metis
  then have old: "old = mk_item n True" "n \<le> bumps s i" by simp_all
  from release(3) have cas: "CASonFAM (mitems s) i (mk_item n True) (mk_item (Suc n) False) = (True, v, its)"
    by (simp add: MarkSlotFree_cas_def old inc_mk_item clear_valid_mk_item)
  note u = cas_unchanged [OF assms(2,3) old(2) cas]
  show ?thesis
    by (rule minv_write [where n = "Suc n" and p = p and i = i and c = Idle and d = False and H = "hist s", OF assms(2)])
      (use u release(1) old in auto)
next
  case (release_lost p i old n v its)
  then have "its = mitems s" using cas_failed by (auto simp: MarkSlotFree_cas_def Let_def)
  with release_lost minv_pcs [OF assms(2), of p Idle] show ?thesis by simp
next
  case (stop p)
  with minv_pcs [OF assms(2), of p Idle] show ?thesis by simp
qed

lemma minv_init: "minv minit"
proof -
  have "mk_item 0 False = 0" by (rule bit_word_eqI) (simp add: bit_mk_item)
  then show ?thesis by (auto simp: minv_def minit_def slot_holds_def intro!: exI [of _ False])
qed

lemma mreach_minv: "mreach s \<Longrightarrow> no_wrap s \<Longrightarrow> minv s"
proof (induction rule: mreach.induct)
  case start
  show ?case by (rule minv_init)
next
  case (more s s')
  with no_wrap_before minv_step show ?case by blast
qed

end
