(* ===== verification/Membership_Props.thy ===== *)
theory Membership_Props
  imports Membership_Conc
begin

text \<open>
  The properties of the membership table: the life cycle of a slot, the searches, the wrap of
  the version number, and what processes that use a table at the same time can rely on.
\<close>

section \<open>One process\<close>

text \<open>A free slot with version \<open>v\<close> is reserved with version \<open>v + 1\<close>, marked used with the
  item of the reservation, and freed again with version \<open>v + 2\<close>; each operation reports
  success and returns the item it wrote (or, for \<open>MarkSlotFree\<close>, replaced); no other slot
  changes when the slot is taken.\<close>

theorem slot_life_cycle:
  assumes "slot_holds its i v False"
  shows "\<exists>its1 its2 its3.
    GetFreeSlot its i = Inr (True, mk_item (Suc v) False, its1) \<and>
    MarkSlotUsed its1 i (mk_item (Suc v) False) = Inr (True, mk_item (Suc v) True, its2) \<and>
    slot_holds its2 i (Suc v) True \<and> (\<forall>j. j \<noteq> i \<longrightarrow> its2 j = its j) \<and>
    MarkSlotFree its2 i = (True, mk_item (Suc v) True, its3) \<and>
    slot_holds its3 i (Suc (Suc v)) False"
proof -
  from ms.use_and_free [OF assms] obtain its1 its2 its3 where
    g: "GetFreeSlot its i = Inr (True, mk_item (Suc v) False, its1)" and
    u: "MarkSlotUsed its1 i (mk_item (Suc v) False) = Inr (True, mk_item (Suc v) True, its2)" and
    f: "MarkSlotFree its2 i = (True, mk_item (Suc v) True, its3)" "slot_holds its3 i (Suc (Suc v)) False" by blast
  from ms.reserve_and_use [OF assms] g u have "slot_holds its2 i (Suc v) True" by auto
  moreover have "\<forall>j. j \<noteq> i \<longrightarrow> its2 j = its j"
    using g u assms
    by (auto simp: GetFreeSlot_def GetFreeSlot_cas_def MarkSlotUsed_def CASonFAM_def Let_def split: if_splits prod.splits)
  ultimately show ?thesis using g u f by blast
qed

lemma zero_item: "mk_item 0 False = 0"
  by (rule bit_word_eqI) (simp add: bit_mk_item)

lemma fresh_slot: "slot_holds (\<lambda>_. 0) i 0 False"
  by (simp add: slot_holds_def zero_item)

lemma slot_life_cycle_witness:
  "\<exists>its1 its2 its3. GetFreeSlot (\<lambda>_. 0) 5 = Inr (True, mk_item 1 False, its1) \<and>
    MarkSlotUsed its1 5 (mk_item 1 False) = Inr (True, mk_item 1 True, its2) \<and>
    MarkSlotFree its2 5 = (True, mk_item 1 True, its3) \<and> slot_holds its3 5 2 False"
  using slot_life_cycle [OF fresh_slot [of 5]] by (auto simp: numeral_2_eq_2)

text \<open>\<open>FindFirstFreeSlot\<close> asked for the whole table, starting anywhere, returns a free slot
  of the table, the one it starts at when that is free; if it fails, every slot is used.\<close>

theorem FindFirstFreeSlot_correct:
  assumes "0 < count" "start < count"
  shows "case FindFirstFreeSlot its count start (start + count - 1) of
      Some i \<Rightarrow> i < count \<and> \<not> TestValidBitWithIndex its i \<and>
        (\<not> TestValidBitWithIndex its start \<longrightarrow> i = start)
    | None \<Rightarrow> \<forall>i < count. TestValidBitWithIndex its i"
  using FindFirstSlot_whole [OF assms(2), of its False]
  by (auto simp: FindFirstFreeSlot_def split: option.splits)

lemma FindFirstFreeSlot_correct_witness:
  "FindFirstFreeSlot ((\<lambda>_. 0)(2 := 0x8001)) 4 2 5 = Some 3 \<and>
   (case FindFirstFreeSlot ((\<lambda>_. 0)(2 := 0x8001)) 4 2 (2 + 4 - 1) of
      Some i \<Rightarrow> i < 4 \<and> \<not> TestValidBitWithIndex ((\<lambda>_. 0)(2 := 0x8001)) i \<and>
        (\<not> TestValidBitWithIndex ((\<lambda>_. 0)(2 := 0x8001)) 2 \<longrightarrow> i = 2)
    | None \<Rightarrow> \<forall>i < 4. TestValidBitWithIndex ((\<lambda>_. 0)(2 := 0x8001)) i)"
  by (rule conjI, code_simp, rule FindFirstFreeSlot_correct; simp)

text \<open>Version numbers wrap: \<open>2 ^ 15\<close> increments give back the item, and no smaller positive
  number of increments does. So two uses of a slot have the same file name exactly when their
  numbers of increments agree modulo \<open>2 ^ 15\<close>.\<close>

lemma inc_iterate: "(IncVersionNum ^^ n) (mk_item v b) = mk_item (v + n) b"
  by (induction n) (simp_all add: inc_mk_item)

theorem IncVersionNum_period:
  "(IncVersionNum ^^ n) value = value \<longleftrightarrow> n mod 2 ^ 15 = 0"
proof -
  obtain v where v: "v < 2 ^ 15" "value = mk_item v (TestValidBit value)" using item_eq_mk by blast
  let ?b = "TestValidBit value"
  have eq: "(IncVersionNum ^^ n) value = mk_item ((v + n) mod 2 ^ 15) ?b"
    by (subst v(2)) (simp only: inc_iterate mk_item_mod)
  show ?thesis
  proof
    assume "(IncVersionNum ^^ n) value = value"
    with eq v(2) have "mk_item ((v + n) mod 2 ^ 15) ?b = mk_item v ?b" by metis
    with mk_item_inject v(1) have "(v + n) mod 2 ^ 15 = v mod 2 ^ 15" by (metis mod_less mod_less_divisor zero_less_numeral zero_less_power)
    then have "(2 :: nat) ^ 15 dvd n" using mod_eq_dvd_iff_nat [of v "v + n" "2 ^ 15"] by simp
    then show "n mod 2 ^ 15 = 0" by (simp only: dvd_eq_mod_eq_0)
  next
    assume "n mod 2 ^ 15 = 0"
    then have "(v + n) mod 2 ^ 15 = v" using v(1) mod_add_right_eq [of v n "2 ^ 15"] by simp
    with eq v(2) show "(IncVersionNum ^^ n) value = value" by metis
  qed
qed

section \<open>Many processes\<close>

lemma reserved_facts:
  assumes "mreach s" "no_wrap s" "pcs s p = Reserved i x n"
  shows "x = mk_item n False" "n \<le> bumps s i" "(i, n, p) \<in> hist s" "n < 2 ^ 15"
proof -
  have "minv s" using mreach_minv assms(1,2) by blast
  then have "pc_ok s p (Reserved i x n)" using assms(3) unfolding minv_def by metis
  then show "x = mk_item n False" "n \<le> bumps s i" "(i, n, p) \<in> hist s" by simp_all
  moreover have "bumps s i < 2 ^ 15" using assms(2) by (simp add: no_wrap_def)
  ultimately show "n < 2 ^ 15" by simp
qed

text \<open>C17: as long as no version number has wrapped, two processes never hold reservations with
  the same file name: whatever pools, slots and versions are involved, the paths that
  \<open>AddShelf\<close> renames its temporary file to are different.\<close>

theorem reservations_have_distinct_paths:
  assumes "mreach s" "no_wrap s" "p \<noteq> q" "pcs s p = Reserved i x n" "pcs s q = Reserved j y m"
    "i < 128" "j < 128"
  shows "shelf_path prefix (EncodeShelfId pool (of_nat i)) (to_string (unat (GetVersionNum x))) [] \<noteq>
    shelf_path prefix (EncodeShelfId pool (of_nat j)) (to_string (unat (GetVersionNum y))) []"
proof
  assume eq: "shelf_path prefix (EncodeShelfId pool (of_nat i)) (to_string (unat (GetVersionNum x))) [] =
    shelf_path prefix (EncodeShelfId pool (of_nat j)) (to_string (unat (GetVersionNum y))) []"
  note P = reserved_facts [OF assms(1,2,4)] and Q = reserved_facts [OF assms(1,2,5)]
  from shelf_path_inject [OF eq] have "(of_nat i :: u8) = of_nat j"
    "unat (GetVersionNum x) = unat (GetVersionNum y)" by auto
  then have "i = j" "n = m"
    using assms(6,7) P(1,4) Q(1,4) by (auto simp: version_mk_item of_nat_inverse word_of_nat_eq_iff take_bit_nat_eq_self)
  with P(3) Q(3) have "(i, n, p) \<in> hist s" "(i, n, q) \<in> hist s" by auto
  moreover have "minv s" using mreach_minv assms(1,2) by blast
  ultimately have "p = q" unfolding minv_def by blast
  with assms(3) show False ..
qed

text \<open>A reservation that is still current wins, a stale one loses: \<open>MarkSlotUsed\<close> succeeds
  for a process exactly when the slot has not been touched by anyone since its \<open>GetFreeSlot\<close>
  (same number of increments, still free), and at most one of the processes that hold a
  reservation of a slot can succeed.\<close>

theorem mark_used_wins_once:
  assumes "mreach s" "no_wrap s" "pcs s p = Reserved i x n"
  shows "((\<exists>y its. MarkSlotUsed (mitems s) i x = Inr (True, y, its)) \<longleftrightarrow>
           bumps s i = n \<and> \<not> TestValidBitWithIndex (mitems s) i) \<and>
    (\<forall>q y m. q \<noteq> p \<and> pcs s q = Reserved i y m \<and> bumps s i = n \<longrightarrow>
           (\<exists>z. MarkSlotUsed (mitems s) i y = Inr (False, z, mitems s)))" (is "?A \<and> ?B")
proof -
  have inv: "minv s" using mreach_minv assms(1,2) by blast
  then obtain b where b: "slot_holds (mitems s) i (bumps s i) b" unfolding minv_def by blast
  have lt: "bumps s i < 2 ^ 15" using assms(2) by (simp add: no_wrap_def)
  have step: "MarkSlotUsed (mitems s) i (mk_item k False) =
    (if k = bumps s i \<and> \<not> b then Inr (True, mk_item k True, (mitems s)(i := ucast (mk_item k True)))
     else Inr (False, mk_item (bumps s i) b, mitems s))" if "k < 2 ^ 15" for k
    using mk_item_inject [OF that lt] by (auto simp: MarkSlotUsed_def cas_slot [OF b] set_valid_mk_item Let_def)
  note P = reserved_facts [OF assms]
  have t: "TestValidBitWithIndex (mitems s) i = b"
    by (simp add: TestValidBitWithIndex_def load_slot [OF b])
  have ?A unfolding P(1) step [OF P(4)] t by auto
  moreover have ?B
  proof (intro allI impI)
    fix q y m
    assume q: "q \<noteq> p \<and> pcs s q = Reserved i y m \<and> bumps s i = n"
    then have "pcs s q = Reserved i y m" by simp
    note Q = reserved_facts [OF assms(1,2) this]
    have "m \<noteq> bumps s i" using P(3) Q(3) q inv unfolding minv_def by metis
    with Q(4) step show "\<exists>z. MarkSlotUsed (mitems s) i y = Inr (False, z, mitems s)" unfolding Q(1) by simp
  qed
  ultimately show ?thesis ..
qed

text \<open>A run of two processes that reserve slot 0 one after the other: the first one's
  reservation goes stale.\<close>

definition two_reservations :: mstate where
  "two_reservations = \<lparr>mitems = (\<lambda>_. 0)(0 := 2),
     pcs = (\<lambda>_. Idle)(1 := Reserved 0 (mk_item 1 False) 1, 2 := Reserved 0 (mk_item 2 False) 2),
     bumps = (\<lambda>_. 0)(0 := 2), hist = {(0, 2, 2), (0, 1, 1)}\<rparr>"

lemma small_items: "mk_item 0 False = 0" "mk_item (Suc 0) False = 1" "mk_item 2 False = 2"
  by code_simp+

lemma reserve_step:
  assumes "mreach s" "pcs s p = Idle" "slot_holds (mitems s) i (bumps s i) False"
  shows "mreach (s\<lparr>mitems := (mitems s)(i := ucast (mk_item (Suc (bumps s i)) False)),
    pcs := (pcs s)(p := Reserved i (mk_item (Suc (bumps s i)) False) (Suc (bumps s i))),
    bumps := (bumps s)(i := Suc (bumps s i)), hist := insert (i, Suc (bumps s i), p) (hist s)\<rparr>)"
proof -
  let ?s1 = "s\<lparr>pcs := (pcs s)(p := Free_Loaded i (LoadFromFAM (mitems s) i) (bumps s i))\<rparr>"
  have "mstep s ?s1" by (rule load_free) (simp_all add: assms(2) load_slot [OF assms(3)])
  with assms(1) have r: "mreach ?s1" by (rule more)
  have "GetFreeSlot_cas (mitems ?s1) i (LoadFromFAM (mitems s) i) =
    Inr (True, mk_item (Suc (bumps s i)) False, (mitems s)(i := ucast (mk_item (Suc (bumps s i)) False)))"
    using assms(3) by (simp add: GetFreeSlot_cas_def cas_slot load_slot inc_mk_item Let_def)
  from more [OF r reserve [where p = p, OF _ this, of "bumps s i"]] show ?thesis by simp
qed

lemma two_reservations_reachable: "mreach two_reservations" "no_wrap two_reservations"
proof -
  have 1: "mreach (minit\<lparr>mitems := (\<lambda>_. 0)(0 := 1), pcs := (\<lambda>_. Idle)(1 := Reserved 0 (mk_item 1 False) 1),
    bumps := (\<lambda>_. 0)(0 := 1), hist := {(0, 1, 1)}\<rparr>)" (is "mreach ?s")
    using reserve_step [OF mreach.start, of 1 0] by (simp add: minit_def fresh_slot small_items)
  have "slot_holds (mitems ?s) 0 (bumps ?s 0) False" by (simp add: slot_holds_def small_items)
  from reserve_step [OF 1 _ this, of 2] show "mreach two_reservations"
    by (simp add: two_reservations_def minit_def small_items numeral_2_eq_2 [symmetric])
  show "no_wrap two_reservations" by (simp add: no_wrap_def two_reservations_def)
qed

lemma reservations_have_distinct_paths_witness:
  "shelf_path ''/s'' (EncodeShelfId 7 0) (to_string (unat (GetVersionNum (mk_item 1 False)))) [] \<noteq>
   shelf_path ''/s'' (EncodeShelfId 7 0) (to_string (unat (GetVersionNum (mk_item 2 False)))) []"
  using reservations_have_distinct_paths [OF two_reservations_reachable, of 1 2 0 _ _ 0 _ _ "''/s''" 7]
  by (simp add: two_reservations_def)

lemma mark_used_wins_once_witness:
  "(\<exists>y its. MarkSlotUsed (mitems two_reservations) 0 (mk_item 2 False) = Inr (True, y, its)) \<and>
   (\<exists>z. MarkSlotUsed (mitems two_reservations) 0 (mk_item 1 False) = Inr (False, z, mitems two_reservations))"
proof -
  have p: "pcs two_reservations 2 = Reserved 0 (mk_item 2 False) 2"
    "pcs two_reservations 1 = Reserved 0 (mk_item 1 False) 1" by (simp_all add: two_reservations_def)
  have "bumps two_reservations 0 = 2 \<and> \<not> TestValidBitWithIndex (mitems two_reservations) 0"
    by (simp add: two_reservations_def TestValidBitWithIndex_def LoadFromFAM_def TestValidBit_def kMaskValidBit_def)
  with mark_used_wins_once [OF two_reservations_reachable p(1)] p(2) show ?thesis
    by (metis numeral_eq_one_iff semiring_norm(85))
qed

end
