(* ===== verification/Fam_Atomic.thy ===== *)
theory Fam_Atomic
  imports Gull_Prelude
begin

text \<open>
  The native x86 atomics of \<open>src/common/fam_atomic_x86.c\<close>, on which every shared data structure
  of the library rests: fetch-and-add, swap and compare-and-store of 32, 64 and 128 bits, reads
  and writes, the bitwise read-modify-write loops. The memory is a map of 32-bit cells (the cell
  \<open>n\<close> holds the bytes \<open>4 * n .. 4 * n + 3\<close>); a signed integer is the word of its bits.

  Loops whose iterations other processors can interleave with are translated as one iteration
  and as a run in which a list of arbitrary changes of the memory takes place between the
  iterations.
\<close>

section \<open>Memory and instructions\<close>

type_synonym famem = "nat \<Rightarrow> u32"

definition load64 :: "famem \<Rightarrow> nat \<Rightarrow> u64" where
  "load64 m a = push_bit 32 (ucast (m (a + 1))) OR ucast (m a)"

definition store64 :: "famem \<Rightarrow> nat \<Rightarrow> u64 \<Rightarrow> famem" where
  "store64 m a x = m(a := ucast x, a + 1 := ucast (drop_bit 32 x))"

definition xadd32 :: "famem \<Rightarrow> nat \<Rightarrow> u32 \<Rightarrow> u32 \<times> famem" where
  "xadd32 m a inc = (m a, m(a := m a + inc))"

definition xadd64 :: "famem \<Rightarrow> nat \<Rightarrow> u64 \<Rightarrow> u64 \<times> famem" where
  "xadd64 m a inc = (load64 m a, store64 m a (load64 m a + inc))"

definition xchg32 :: "famem \<Rightarrow> nat \<Rightarrow> u32 \<Rightarrow> u32 \<times> famem" where
  "xchg32 m a v = (m a, m(a := v))"

definition xchg64 :: "famem \<Rightarrow> nat \<Rightarrow> u64 \<Rightarrow> u64 \<times> famem" where
  "xchg64 m a v = (load64 m a, store64 m a v)"

definition cmpxchg32 :: "famem \<Rightarrow> nat \<Rightarrow> u32 \<Rightarrow> u32 \<Rightarrow> u32 \<times> famem" where
  "cmpxchg32 m a old new = (m a, if m a = old then m(a := new) else m)"

definition cmpxchg64 :: "famem \<Rightarrow> nat \<Rightarrow> u64 \<Rightarrow> u64 \<Rightarrow> u64 \<times> famem" where
  "cmpxchg64 m a old new = (load64 m a, if load64 m a = old then store64 m a new else m)"

text \<open>\<open>cmpxchg16\<close> compares and stores two adjacent 64-bit words at once.\<close>

definition load128 :: "famem \<Rightarrow> nat \<Rightarrow> u64 \<times> u64" where
  "load128 m a = (load64 m a, load64 m (a + 2))"

definition store128 :: "famem \<Rightarrow> nat \<Rightarrow> u64 \<times> u64 \<Rightarrow> famem" where
  "store128 m a v = store64 (store64 m a (fst v)) (a + 2) (snd v)"

definition cmpxchg16 :: "famem \<Rightarrow> nat \<Rightarrow> u64 \<times> u64 \<Rightarrow> u64 \<times> u64 \<Rightarrow> bool \<times> famem" where
  "cmpxchg16 m a old new = (if load128 m a = old then (True, store128 m a new) else (False, m))"

section \<open>The simulated ioctl\<close>

datatype fam_opt =
    FAM_ATOMIC_32_FETCH_AND_ADD
  | FAM_ATOMIC_64_FETCH_AND_ADD
  | FAM_ATOMIC_32_SWAP
  | FAM_ATOMIC_64_SWAP
  | FAM_ATOMIC_128_SWAP
  | FAM_ATOMIC_32_COMPARE_AND_STORE
  | FAM_ATOMIC_64_COMPARE_AND_STORE
  | FAM_ATOMIC_128_COMPARE_AND_STORE
  | FAM_ATOMIC_128_READ

record fam_atomic_args_32 =
  offset32 :: nat
  p32_0 :: u32
  p32_1 :: u32

record fam_atomic_args_64 =
  offset64 :: nat
  p64_0 :: u64
  p64_1 :: u64

record fam_atomic_args_128 =
  offset128 :: nat
  p128_0 :: "u64 \<times> u64"
  p128_1 :: "u64 \<times> u64"

definition ioctl_4 :: "fam_atomic_args_32 \<Rightarrow> fam_opt \<Rightarrow> famem \<Rightarrow> fam_atomic_args_32 \<times> famem" where
  "ioctl_4 args opt m =
     (let atomic = offset32 args in
      case opt of
        FAM_ATOMIC_32_FETCH_AND_ADD \<Rightarrow>
          (let (prev, m) = xadd32 m atomic (p32_0 args) in (args\<lparr>p32_0 := prev\<rparr>, m))
      | FAM_ATOMIC_32_SWAP \<Rightarrow>
          (let (prev, m) = xchg32 m atomic (p32_0 args) in (args\<lparr>p32_0 := prev\<rparr>, m))
      | FAM_ATOMIC_32_COMPARE_AND_STORE \<Rightarrow>
          (let (prev, m) = cmpxchg32 m atomic (p32_0 args) (p32_1 args) in (args\<lparr>p32_0 := prev\<rparr>, m))
      | _ \<Rightarrow> (args, m))"

definition ioctl_8 :: "fam_atomic_args_64 \<Rightarrow> fam_opt \<Rightarrow> famem \<Rightarrow> fam_atomic_args_64 \<times> famem" where
  "ioctl_8 args opt m =
     (let atomic = offset64 args in
      case opt of
        FAM_ATOMIC_64_FETCH_AND_ADD \<Rightarrow>
          (let (prev, m) = xadd64 m atomic (p64_0 args) in (args\<lparr>p64_0 := prev\<rparr>, m))
      | FAM_ATOMIC_64_SWAP \<Rightarrow>
          (let (prev, m) = xchg64 m atomic (p64_0 args) in (args\<lparr>p64_0 := prev\<rparr>, m))
      | FAM_ATOMIC_64_COMPARE_AND_STORE \<Rightarrow>
          (let (prev, m) = cmpxchg64 m atomic (p64_0 args) (p64_1 args) in (args\<lparr>p64_0 := prev\<rparr>, m))
      | _ \<Rightarrow> (args, m))"

text \<open>
  The 128-bit operations are loops of several instructions. One instruction of a processor that
  executes \<open>ioctl_16\<close> is a step of \<open>step_16\<close>; its program counter holds the values it has read.
  \<open>Inr\<close> is the state in which it leaves the loop, with the result.
\<close>

datatype pc16 =
    Loop
  | Read1 u64
  | Read2 u64 u64

definition swap_step :: "fam_atomic_args_128 \<Rightarrow> pc16 \<Rightarrow> famem \<Rightarrow> (pc16 + u64 \<times> u64) \<times> famem" where
  "swap_step args pc m =
     (let a = offset128 args in
      case pc of
        Loop \<Rightarrow> (let (x, m) = xadd64 m a 0 in (Inl (Read1 x), m))
      | Read1 x \<Rightarrow> (let (y, m) = xadd64 m (a + 2) 0 in (Inl (Read2 x y), m))
      | Read2 x y \<Rightarrow>
          (let (ret, m) = cmpxchg16 m a (x, y) (p128_0 args)
           in if ret then (Inr (x, y), m) else (Inl Loop, m)))"

text \<open>For the compare-and-store, \<open>Read2 x _\<close> is the state after a failed \<open>cmpxchg16\<close> in which the
  first word has been sampled, \<open>Read1\<close> the one right after the failure.\<close>

definition compare_store_step :: "fam_atomic_args_128 \<Rightarrow> pc16 \<Rightarrow> famem \<Rightarrow> (pc16 + u64 \<times> u64) \<times> famem" where
  "compare_store_step args pc m =
     (let a = offset128 args in
      case pc of
        Loop \<Rightarrow>
          (let (ret, m) = cmpxchg16 m a (p128_0 args) (p128_1 args)
           in if ret then (Inr (p128_0 args), m) else (Inl (Read1 0), m))
      | Read1 _ \<Rightarrow> (let (x, m) = xadd64 m a 0 in (Inl (Read2 x 0), m))
      | Read2 x _ \<Rightarrow>
          (let (y, m) = xadd64 m (a + 2) 0
           in if x \<noteq> fst (p128_0 args) \<or> y \<noteq> snd (p128_0 args) then (Inr (x, y), m) else (Inl Loop, m)))"

definition read_step :: "fam_atomic_args_128 \<Rightarrow> pc16 \<Rightarrow> famem \<Rightarrow> (pc16 + u64 \<times> u64) \<times> famem" where
  "read_step args pc m =
     (let a = offset128 args in
      case pc of
        Read1 x \<Rightarrow> (Inr (x, load64 m (a + 2)), m)
      | _ \<Rightarrow> (Inl (Read1 (load64 m a)), m))"

definition step_16 :: "fam_opt \<Rightarrow> fam_atomic_args_128 \<Rightarrow> pc16 \<Rightarrow> famem \<Rightarrow> (pc16 + u64 \<times> u64) \<times> famem" where
  "step_16 opt =
     (case opt of
        FAM_ATOMIC_128_SWAP \<Rightarrow> swap_step
      | FAM_ATOMIC_128_COMPARE_AND_STORE \<Rightarrow> compare_store_step
      | _ \<Rightarrow> read_step)"

text \<open>A run: before each instruction the rest of the system changes the memory by the next
  function of the list. \<open>None\<close>: the list is used up and the loop still runs.\<close>

fun run_16 :: "fam_opt \<Rightarrow> fam_atomic_args_128 \<Rightarrow> pc16 \<Rightarrow> (famem \<Rightarrow> famem) list \<Rightarrow> famem \<Rightarrow>
    ((u64 \<times> u64) \<times> famem) option" where
  "run_16 opt args pc [] m = None"
| "run_16 opt args pc (e # env) m =
     (case step_16 opt args pc (e m) of
        (Inr r, m') \<Rightarrow> Some (r, m')
      | (Inl pc', m') \<Rightarrow> run_16 opt args pc' env m')"

definition ioctl_16 :: "(famem \<Rightarrow> famem) list \<Rightarrow> fam_atomic_args_128 \<Rightarrow> fam_opt \<Rightarrow> famem \<Rightarrow>
    (fam_atomic_args_128 \<times> famem) option" where
  "ioctl_16 env args opt m =
     map_option (\<lambda>(r, m). (args\<lparr>p128_0 := r\<rparr>, m)) (run_16 opt args Loop env m)"

datatype fam_args = Args32 fam_atomic_args_32 | Args64 fam_atomic_args_64 | Args128 fam_atomic_args_128

text \<open>\<open>args\<close> is a pointer to the structure that belongs to \<open>opt\<close>. \<open>None\<close> stands for the exit of
  the program (a structure of another type) or for a loop that has not ended.\<close>

definition simulated_ioctl :: "(famem \<Rightarrow> famem) list \<Rightarrow> fam_opt \<Rightarrow> fam_args \<Rightarrow> famem \<Rightarrow> (fam_args \<times> famem) option" where
  "simulated_ioctl env opt args m =
     (if opt = FAM_ATOMIC_32_FETCH_AND_ADD \<or> opt = FAM_ATOMIC_32_SWAP \<or> opt = FAM_ATOMIC_32_COMPARE_AND_STORE
      then (case args of Args32 x \<Rightarrow> (let (x, m) = ioctl_4 x opt m in Some (Args32 x, m)) | _ \<Rightarrow> None)
      else if opt = FAM_ATOMIC_64_FETCH_AND_ADD \<or> opt = FAM_ATOMIC_64_SWAP \<or> opt = FAM_ATOMIC_64_COMPARE_AND_STORE
      then (case args of Args64 x \<Rightarrow> (let (x, m) = ioctl_8 x opt m in Some (Args64 x, m)) | _ \<Rightarrow> None)
      else if opt = FAM_ATOMIC_128_SWAP \<or> opt = FAM_ATOMIC_128_COMPARE_AND_STORE \<or> opt = FAM_ATOMIC_128_READ
      then (case args of Args128 x \<Rightarrow> map_option (\<lambda>(x, m). (Args128 x, m)) (ioctl_16 env x opt m) | _ \<Rightarrow> None)
      else None)"

section \<open>The operations\<close>

text \<open>\<open>fam_atomic_get_fd_offset\<close> of this build always answers that no zbridge atomics are used,
  and gives the address back; \<open>__ioctl\<close>, the branch for zbridge, asserts false.\<close>

definition fam_atomic_get_fd_offset :: "nat \<Rightarrow> bool \<times> nat" where
  "fam_atomic_get_fd_offset address = (False, address)"

definition call_32 :: "fam_opt \<Rightarrow> nat \<Rightarrow> u32 \<Rightarrow> u32 \<Rightarrow> famem \<Rightarrow> (u32 \<times> famem) option" where
  "call_32 opt address p0 p1 m =
     (let (use_zbridge_atomics, offset) = fam_atomic_get_fd_offset address
      in if use_zbridge_atomics then None
         else case simulated_ioctl [] opt (Args32 \<lparr>offset32 = offset, p32_0 = p0, p32_1 = p1\<rparr>) m of
                Some (Args32 x, m) \<Rightarrow> Some (p32_0 x, m) | _ \<Rightarrow> None)"

definition call_64 :: "fam_opt \<Rightarrow> nat \<Rightarrow> u64 \<Rightarrow> u64 \<Rightarrow> famem \<Rightarrow> (u64 \<times> famem) option" where
  "call_64 opt address p0 p1 m =
     (let (use_zbridge_atomics, offset) = fam_atomic_get_fd_offset address
      in if use_zbridge_atomics then None
         else case simulated_ioctl [] opt (Args64 \<lparr>offset64 = offset, p64_0 = p0, p64_1 = p1\<rparr>) m of
                Some (Args64 x, m) \<Rightarrow> Some (p64_0 x, m) | _ \<Rightarrow> None)"

definition call_128 :: "(famem \<Rightarrow> famem) list \<Rightarrow> fam_opt \<Rightarrow> nat \<Rightarrow> u64 \<times> u64 \<Rightarrow> u64 \<times> u64 \<Rightarrow> famem \<Rightarrow>
    ((u64 \<times> u64) \<times> famem) option" where
  "call_128 env opt address p0 p1 m =
     (let (use_zbridge_atomics, offset) = fam_atomic_get_fd_offset address
      in if use_zbridge_atomics then None
         else case simulated_ioctl env opt (Args128 \<lparr>offset128 = offset, p128_0 = p0, p128_1 = p1\<rparr>) m of
                Some (Args128 x, m) \<Rightarrow> Some (p128_0 x, m) | _ \<Rightarrow> None)"

text \<open>An argument structure's fields that an operation does not set are not read either; they are
  0 here.\<close>

definition fam_atomic_32_fetch_add :: "nat \<Rightarrow> u32 \<Rightarrow> famem \<Rightarrow> (u32 \<times> famem) option" where
  "fam_atomic_32_fetch_add address increment = call_32 FAM_ATOMIC_32_FETCH_AND_ADD address increment 0"

definition fam_atomic_64_fetch_add :: "nat \<Rightarrow> u64 \<Rightarrow> famem \<Rightarrow> (u64 \<times> famem) option" where
  "fam_atomic_64_fetch_add address increment = call_64 FAM_ATOMIC_64_FETCH_AND_ADD address increment 0"

definition fam_atomic_32_swap :: "nat \<Rightarrow> u32 \<Rightarrow> famem \<Rightarrow> (u32 \<times> famem) option" where
  "fam_atomic_32_swap address v = call_32 FAM_ATOMIC_32_SWAP address v 0"

definition fam_atomic_64_swap :: "nat \<Rightarrow> u64 \<Rightarrow> famem \<Rightarrow> (u64 \<times> famem) option" where
  "fam_atomic_64_swap address v = call_64 FAM_ATOMIC_64_SWAP address v 0"

definition fam_atomic_128_swap :: "(famem \<Rightarrow> famem) list \<Rightarrow> nat \<Rightarrow> u64 \<times> u64 \<Rightarrow> famem \<Rightarrow> ((u64 \<times> u64) \<times> famem) option" where
  "fam_atomic_128_swap env address v = call_128 env FAM_ATOMIC_128_SWAP address v (0, 0)"

definition fam_atomic_32_compare_store :: "nat \<Rightarrow> u32 \<Rightarrow> u32 \<Rightarrow> famem \<Rightarrow> (u32 \<times> famem) option" where
  "fam_atomic_32_compare_store address compare store = call_32 FAM_ATOMIC_32_COMPARE_AND_STORE address compare store"

definition fam_atomic_64_compare_store :: "nat \<Rightarrow> u64 \<Rightarrow> u64 \<Rightarrow> famem \<Rightarrow> (u64 \<times> famem) option" where
  "fam_atomic_64_compare_store address compare store = call_64 FAM_ATOMIC_64_COMPARE_AND_STORE address compare store"

definition fam_atomic_128_compare_store :: "(famem \<Rightarrow> famem) list \<Rightarrow> nat \<Rightarrow> u64 \<times> u64 \<Rightarrow> u64 \<times> u64 \<Rightarrow> famem \<Rightarrow>
    ((u64 \<times> u64) \<times> famem) option" where
  "fam_atomic_128_compare_store env address compare store =
     call_128 env FAM_ATOMIC_128_COMPARE_AND_STORE address compare store"

definition fam_atomic_32_read :: "nat \<Rightarrow> famem \<Rightarrow> (u32 \<times> famem) option" where
  "fam_atomic_32_read address = fam_atomic_32_fetch_add address 0"

definition fam_atomic_64_read :: "nat \<Rightarrow> famem \<Rightarrow> (u64 \<times> famem) option" where
  "fam_atomic_64_read address = fam_atomic_64_fetch_add address 0"

definition fam_atomic_128_read :: "(famem \<Rightarrow> famem) list \<Rightarrow> nat \<Rightarrow> famem \<Rightarrow> ((u64 \<times> u64) \<times> famem) option" where
  "fam_atomic_128_read env address = call_128 env FAM_ATOMIC_128_READ address (0, 0) (0, 0)"

definition fam_atomic_32_write :: "nat \<Rightarrow> u32 \<Rightarrow> famem \<Rightarrow> famem option" where
  "fam_atomic_32_write address v m = map_option snd (fam_atomic_32_swap address v m)"

definition fam_atomic_64_write :: "nat \<Rightarrow> u64 \<Rightarrow> famem \<Rightarrow> famem option" where
  "fam_atomic_64_write address v m = map_option snd (fam_atomic_64_swap address v m)"

definition fam_atomic_128_write :: "(famem \<Rightarrow> famem) list \<Rightarrow> nat \<Rightarrow> u64 \<times> u64 \<Rightarrow> famem \<Rightarrow> famem option" where
  "fam_atomic_128_write env address v m = map_option snd (fam_atomic_128_swap env address v m)"

text \<open>The bitwise operations guess the value 0 first and then compare and store until the guess
  was right. \<open>op\<close> is \<open>AND\<close>, \<open>OR\<close> or \<open>XOR\<close> with the argument.\<close>

fun fetch_op32 :: "(u32 \<Rightarrow> u32) \<Rightarrow> nat \<Rightarrow> u32 \<Rightarrow> (famem \<Rightarrow> famem) list \<Rightarrow> famem \<Rightarrow> (u32 \<times> famem) option" where
  "fetch_op32 f address prev [] m = None"
| "fetch_op32 f address prev (e # env) m =
     (case fam_atomic_32_compare_store address prev (f prev) (e m) of
        None \<Rightarrow> None
      | Some (actual, m') \<Rightarrow> if actual = prev then Some (prev, m') else fetch_op32 f address actual env m')"

fun fetch_op64 :: "(u64 \<Rightarrow> u64) \<Rightarrow> nat \<Rightarrow> u64 \<Rightarrow> (famem \<Rightarrow> famem) list \<Rightarrow> famem \<Rightarrow> (u64 \<times> famem) option" where
  "fetch_op64 f address prev [] m = None"
| "fetch_op64 f address prev (e # env) m =
     (case fam_atomic_64_compare_store address prev (f prev) (e m) of
        None \<Rightarrow> None
      | Some (actual, m') \<Rightarrow> if actual = prev then Some (prev, m') else fetch_op64 f address actual env m')"

definition fam_atomic_32_fetch_and where
  "fam_atomic_32_fetch_and env address arg = fetch_op32 (\<lambda>prev. prev AND arg) address 0 env"

definition fam_atomic_64_fetch_and where
  "fam_atomic_64_fetch_and env address arg = fetch_op64 (\<lambda>prev. prev AND arg) address 0 env"

definition fam_atomic_32_fetch_or where
  "fam_atomic_32_fetch_or env address arg = fetch_op32 (\<lambda>prev. prev OR arg) address 0 env"

definition fam_atomic_64_fetch_or where
  "fam_atomic_64_fetch_or env address arg = fetch_op64 (\<lambda>prev. prev OR arg) address 0 env"

definition fam_atomic_32_fetch_xor where
  "fam_atomic_32_fetch_xor env address arg = fetch_op32 (\<lambda>prev. prev XOR arg) address 0 env"

definition fam_atomic_64_fetch_xor where
  "fam_atomic_64_fetch_xor env address arg = fetch_op64 (\<lambda>prev. prev XOR arg) address 0 env"

section \<open>What they do\<close>

named_theorems fam_defs \<open>the layers between an operation and its instruction\<close>

lemmas [fam_defs] = call_32_def call_64_def call_128_def fam_atomic_get_fd_offset_def simulated_ioctl_def
  ioctl_4_def ioctl_8_def ioctl_16_def

lemma load_store64 [simp]: "load64 (store64 m a x) a = x"
proof (rule bit_word_eqI)
  fix n
  assume n: "n < LENGTH(64)"
  show "bit (load64 (store64 m a x) a) n \<longleftrightarrow> bit x n"
    using n by (cases "n < 32")
      (auto simp: load64_def store64_def bit_or_iff bit_push_bit_iff bit_ucast_iff bit_drop_bit_eq dest: bit_imp_le_length)
qed

lemma load_store64_other [simp]:
  "b + 1 < a \<or> a + 1 < b \<Longrightarrow> load64 (store64 m a x) b = load64 m b"
  by (auto simp: load64_def store64_def)

lemma load64_cells: "ucast (load64 m a) = m a" "ucast (drop_bit 32 (load64 m a)) = m (a + 1)"
proof -
  show "ucast (load64 m a) = m a"
    by (rule bit_word_eqI) (auto simp: load64_def bit_or_iff bit_push_bit_iff bit_ucast_iff dest: bit_imp_le_length)
  show "ucast (drop_bit 32 (load64 m a)) = m (a + 1)"
    by (rule bit_word_eqI)
      (auto simp: load64_def bit_or_iff bit_push_bit_iff bit_ucast_iff bit_drop_bit_eq dest: bit_imp_le_length)
qed

lemma store_load64 [simp]: "store64 m a (load64 m a) = m"
  by (auto simp: store64_def load64_cells)

lemma load_store128 [simp]: "load128 (store128 m a v) a = v"
  by (simp add: load128_def store128_def)

lemma xadd64_0 [simp]: "xadd64 m a 0 = (load64 m a, m)"
  by (simp add: xadd64_def)

lemma fam_32_simps [simp]:
  "fam_atomic_32_fetch_add a inc m = Some (m a, m(a := m a + inc))"
  "fam_atomic_32_swap a v m = Some (m a, m(a := v))"
  "fam_atomic_32_compare_store a c s m = Some (m a, if m a = c then m(a := s) else m)"
  by (simp_all add: fam_atomic_32_fetch_add_def fam_atomic_32_swap_def fam_atomic_32_compare_store_def fam_defs
      xadd32_def xchg32_def cmpxchg32_def)

lemma fam_64_simps [simp]:
  "fam_atomic_64_fetch_add a i m = Some (load64 m a, store64 m a (load64 m a + i))"
  "fam_atomic_64_swap a v m = Some (load64 m a, store64 m a v)"
  "fam_atomic_64_compare_store a c s m = Some (load64 m a, if load64 m a = c then store64 m a s else m)"
  by (simp_all add: fam_atomic_64_fetch_add_def fam_atomic_64_swap_def fam_atomic_64_compare_store_def fam_defs
      xadd64_def xchg64_def cmpxchg64_def)

lemma fam_read_simps [simp]:
  "fam_atomic_32_read a m = Some (m a, m)"
  "fam_atomic_64_read a m = Some (load64 m a, m)"
  by (simp_all add: fam_atomic_32_read_def fam_atomic_64_read_def)

lemma fam_write_simps [simp]:
  "fam_atomic_32_write a v m = Some (m(a := v))"
  "fam_atomic_64_write a w m = Some (store64 m a w)"
  by (simp_all add: fam_atomic_32_write_def fam_atomic_64_write_def)

lemma call_128_run:
  "opt \<in> {FAM_ATOMIC_128_SWAP, FAM_ATOMIC_128_COMPARE_AND_STORE, FAM_ATOMIC_128_READ} \<Longrightarrow>
    call_128 env opt a p0 p1 m = run_16 opt \<lparr>offset128 = a, p128_0 = p0, p128_1 = p1\<rparr> Loop env m"
  by (auto simp: fam_defs split: option.splits)

section \<open>Atomicity under interference\<close>

text \<open>What the rest of the system did in the first \<open>k\<close> pauses.\<close>

definition after_env :: "(famem \<Rightarrow> famem) list \<Rightarrow> nat \<Rightarrow> famem \<Rightarrow> famem" where
  "after_env env k m = foldl (\<lambda>m e. e m) m (take k env)"

lemma after_env_Cons [simp]: "after_env (e # env) (Suc k) m = after_env env k (e m)"
  by (simp add: after_env_def)

lemma after_env_0 [simp]: "after_env env 0 m = m"
  by (simp add: after_env_def)

lemma swap_run:
  assumes "run_16 FAM_ATOMIC_128_SWAP args pc env m = Some (r, m')"
  shows "\<exists>k \<le> length env. load128 (after_env env k m) (offset128 args) = r \<and>
    m' = store128 (after_env env k m) (offset128 args) (p128_0 args)"
  using assms
proof (induction env arbitrary: pc m)
  case (Cons e env)
  show ?case
  proof (cases "\<exists>x y. pc = Read2 x y \<and> load128 (e m) (offset128 args) = (x, y)")
    case True
    then show ?thesis using Cons.prems
      by (intro exI [of _ 1]) (auto simp: step_16_def swap_step_def cmpxchg16_def Let_def after_env_def)
  next
    case False
    then obtain pc' where "run_16 FAM_ATOMIC_128_SWAP args pc' env (e m) = Some (r, m')"
      using Cons.prems
      by (auto simp: step_16_def swap_step_def cmpxchg16_def Let_def split: pc16.splits if_splits)
    from Cons.IH [OF this] obtain k where "k \<le> length env"
      "load128 (after_env env k (e m)) (offset128 args) = r \<and>
       m' = store128 (after_env env k (e m)) (offset128 args) (p128_0 args)" by blast
    then show ?thesis by (intro exI [of _ "Suc k"]) simp
  qed
qed simp

lemma compare_store_run:
  assumes "run_16 FAM_ATOMIC_128_COMPARE_AND_STORE args Loop env m = Some (r, m')"
  shows "\<exists>i j k. i \<le> j \<and> j \<le> k \<and> k \<le> length env \<and> (if r = p128_0 args
    then load128 (after_env env k m) (offset128 args) = r \<and>
      m' = store128 (after_env env k m) (offset128 args) (p128_1 args)
    else load128 (after_env env i m) (offset128 args) \<noteq> p128_0 args \<and> fst r = load64 (after_env env j m) (offset128 args) \<and>
      snd r = load64 (after_env env k m) (offset128 args + 2) \<and> m' = after_env env k m)"
  using assms
proof (induction env arbitrary: m rule: length_induct)
  case (1 env)
  let ?a = "offset128 args" and ?c = "p128_0 args"
  note steps = step_16_def compare_store_step_def cmpxchg16_def Let_def
  obtain e1 env1 where E1: "env = e1 # env1" using 1(2) by (cases env) auto
  show ?case
  proof (cases "load128 (e1 m) ?a = ?c")
    case True
    then show ?thesis using 1(2)
      by (intro exI [of _ 1]) (auto simp: E1 steps after_env_def)
  next
    case False
    then obtain e2 e3 env3 where E: "env = e1 # e2 # e3 # env3"
      using 1(2) by (cases env1; cases "tl env1") (auto simp: E1 steps)
    let ?x = "load64 (e2 (e1 m)) ?a" and ?y = "load64 (e3 (e2 (e1 m))) (?a + 2)"
    show ?thesis
    proof (cases "(?x, ?y) = ?c")
      case True
      then have "run_16 FAM_ATOMIC_128_COMPARE_AND_STORE args Loop env3 (e3 (e2 (e1 m))) = Some (r, m')"
        using 1(2) False by (cases ?c) (auto simp: E steps)
      from 1(1) [rule_format, OF _ this] obtain i j k where "i \<le> j" "j \<le> k" "k \<le> length env3" and
        r: "if r = ?c then load128 (after_env env3 k (e3 (e2 (e1 m)))) ?a = r \<and>
            m' = store128 (after_env env3 k (e3 (e2 (e1 m)))) ?a (p128_1 args)
          else load128 (after_env env3 i (e3 (e2 (e1 m)))) ?a \<noteq> ?c \<and> fst r = load64 (after_env env3 j (e3 (e2 (e1 m)))) ?a \<and>
            snd r = load64 (after_env env3 k (e3 (e2 (e1 m)))) (?a + 2) \<and> m' = after_env env3 k (e3 (e2 (e1 m)))"
        by (auto simp: E)
      then show ?thesis
        by (intro exI [of _ "Suc (Suc (Suc i))"] exI [of _ "Suc (Suc (Suc j))"] exI [of _ "Suc (Suc (Suc k))"])
          (simp add: E)
    next
      case no: False
      then have "r = (?x, ?y)" "m' = e3 (e2 (e1 m))"
        using 1(2) False by (cases ?c, auto simp: E steps split: if_splits)+
      moreover from this no have "r \<noteq> ?c" by simp
      ultimately show ?thesis using False
        by (intro exI [of _ 1] exI [of _ 2] exI [of _ 3]) (simp add: E after_env_def)
    qed
  qed
qed

lemma fetch_op64_run:
  assumes "fetch_op64 f a prev env m = Some (r, m')"
  shows "\<exists>k \<le> length env. load64 (after_env env k m) a = r \<and> m' = store64 (after_env env k m) a (f r)"
  using assms
proof (induction env arbitrary: prev m)
  case (Cons e env)
  show ?case
  proof (cases "load64 (e m) a = prev")
    case True
    then show ?thesis using Cons.prems by (intro exI [of _ 1]) (auto simp: after_env_def)
  next
    case False
    with Cons.prems have "fetch_op64 f a (load64 (e m) a) env (e m) = Some (r, m')" by simp
    from Cons.IH [OF this] obtain k where "k \<le> length env"
      "load64 (after_env env k (e m)) a = r \<and> m' = store64 (after_env env k (e m)) a (f r)" by blast
    then show ?thesis by (intro exI [of _ "Suc k"]) simp
  qed
qed simp

lemma fetch_op32_run:
  assumes "fetch_op32 f a prev env m = Some (r, m')"
  shows "\<exists>k \<le> length env. after_env env k m a = r \<and> m' = (after_env env k m)(a := f r)"
  using assms
proof (induction env arbitrary: prev m)
  case (Cons e env)
  show ?case
  proof (cases "e m a = prev")
    case True
    then show ?thesis using Cons.prems by (intro exI [of _ 1]) (auto simp: after_env_def)
  next
    case False
    with Cons.prems have "fetch_op32 f a (e m a) env (e m) = Some (r, m')" by simp
    from Cons.IH [OF this] obtain k where "k \<le> length env"
      "after_env env k (e m) a = r \<and> m' = (after_env env k (e m))(a := f r)" by blast
    then show ?thesis by (intro exI [of _ "Suc k"]) simp
  qed
qed simp

lemma id_chain: "k \<le> n \<Longrightarrow> after_env (replicate n id) k m = m"
proof (induction n arbitrary: k)
  case (Suc n)
  then show ?case by (cases k) simp_all
qed simp

text \<open>Without interference three instructions are enough for the 128-bit operations, two
  iterations for the bitwise ones.\<close>

lemma compare_store_quiet:
  "run_16 FAM_ATOMIC_128_COMPARE_AND_STORE args Loop [id, id, id] m =
    (if load128 m (offset128 args) = p128_0 args
     then Some (p128_0 args, store128 m (offset128 args) (p128_1 args))
     else Some (load128 m (offset128 args), m))"
  by (auto simp: step_16_def compare_store_step_def cmpxchg16_def load128_def Let_def prod_eq_iff)

lemma swap_quiet:
  "run_16 FAM_ATOMIC_128_SWAP args Loop [id, id, id] m =
    Some (load128 m (offset128 args), store128 m (offset128 args) (p128_0 args))"
  by (simp add: step_16_def swap_step_def cmpxchg16_def load128_def Let_def)

section \<open>Properties\<close>

text \<open>C18: a 128-bit compare-and-store, whatever other processors do between its instructions. If it
  returns the compared value, then at one moment the variable had that value and was overwritten. If it
  returns anything else, the variable had another value at one moment, nothing was written, and the result
  consists of the first word at that or a later moment and the second word at that or a later one again: it may
  be a pair that the variable never held, against its description. Left alone it returns, with the value of the variable.\<close>

theorem fam_atomic_128_compare_store_atomic:
  "(\<forall>env r m'. fam_atomic_128_compare_store env a c s m = Some (r, m') \<longrightarrow>
      (\<exists>i j k. i \<le> j \<and> j \<le> k \<and> k \<le> length env \<and>
        (let m0 = after_env env k m in
         if r = c then load128 m0 a = c \<and> m' = store128 m0 a s
         else load128 (after_env env i m) a \<noteq> c \<and> r = (load64 (after_env env j m) a, load64 m0 (a + 2)) \<and> m' = m0))) \<and>
   fam_atomic_128_compare_store [id, id, id] a c s m =
     (if load128 m a = c then Some (c, store128 m a s) else Some (load128 m a, m))"
proof (intro conjI allI impI)
  fix env r m'
  assume "fam_atomic_128_compare_store env a c s m = Some (r, m')"
  then have "run_16 FAM_ATOMIC_128_COMPARE_AND_STORE \<lparr>offset128 = a, p128_0 = c, p128_1 = s\<rparr> Loop env m = Some (r, m')"
    by (simp add: fam_atomic_128_compare_store_def call_128_run)
  from compare_store_run [OF this] show "\<exists>i j k. i \<le> j \<and> j \<le> k \<and> k \<le> length env \<and>
      (let m0 = after_env env k m in
       if r = c then load128 m0 a = c \<and> m' = store128 m0 a s
       else load128 (after_env env i m) a \<noteq> c \<and> r = (load64 (after_env env j m) a, load64 m0 (a + 2)) \<and> m' = m0)"
    by (simp add: Let_def prod_eq_iff cong: if_cong)
qed (simp add: fam_atomic_128_compare_store_def call_128_run compare_store_quiet del: run_16.simps)

lemma fam_atomic_128_compare_store_atomic_witness:
  "fam_atomic_128_compare_store [id, id, id] 0 (0, 0) (7, 1) (\<lambda>_. 0) = Some ((0, 0), store128 (\<lambda>_. 0) 0 (7, 1))"
  using fam_atomic_128_compare_store_atomic [of 0 "(0, 0)" "(7, 1)" "\<lambda>_. 0"]
  by (simp add: load128_def load64_def)

text \<open>A failing compare-and-store that returns a pair of two values of the variable.\<close>

lemma compare_store_torn:
  assumes "v \<noteq> c" "(fst v, snd w) \<noteq> c"
  shows "fam_atomic_128_compare_store [id, id, \<lambda>m. store128 m a w] a c s (store128 m a v) =
    Some ((fst v, snd w), store128 (store128 m a v) a w)"
proof -
  have l: "load64 (store128 m a v) a = fst v" "load64 (store128 m a v) (a + 2) = snd v" for m v
    using load_store128 [of m a v] by (simp_all add: load128_def prod_eq_iff)
  show ?thesis using assms
    by (cases c) (auto simp: fam_atomic_128_compare_store_def call_128_run step_16_def compare_store_step_def cmpxchg16_def Let_def l
        l [simplified] prod_eq_iff)
qed

text \<open>The bitwise operations of 64 bits are atomic under interference: they return the value
  of the variable at a moment at which they replaced it by its \<open>AND\<close>, \<open>OR\<close> or \<open>XOR\<close> with
  the argument; left alone they return within two iterations.\<close>

lemma fetch_op64_quiet: "fetch_op64 f a prev [id, id] m = Some (load64 m a, store64 m a (f (load64 m a)))"
  by (cases "load64 m a = prev") simp_all

theorem fam_atomic_64_bitwise_atomic:
  "\<forall>(op, f) \<in> {(fam_atomic_64_fetch_and, (AND)), (fam_atomic_64_fetch_or, (OR)), (fam_atomic_64_fetch_xor, (XOR))}.
     (\<forall>env r m'. op env a arg m = Some (r, m') \<longrightarrow>
        (\<exists>k \<le> length env. let m0 = after_env env k m in load64 m0 a = r \<and> m' = store64 m0 a (f r arg))) \<and>
     op [id, id] a arg m = Some (load64 m a, store64 m a (f (load64 m a) arg))"
  using fetch_op64_run [where a = a and m = m]
  by (fastforce simp: fam_atomic_64_fetch_and_def fam_atomic_64_fetch_or_def fam_atomic_64_fetch_xor_def
      fetch_op64_quiet Let_def simp del: fetch_op64.simps)

lemma fam_atomic_64_bitwise_atomic_witness:
  "fam_atomic_64_fetch_or [id, id] 0 6 ((\<lambda>_. 0)(0 := 3)) = Some (3, store64 ((\<lambda>_. 0)(0 := 3)) 0 7)"
  using fam_atomic_64_bitwise_atomic [of 0 6 "(\<lambda>_. 0)(0 := 3)"] by (simp add: load64_def)

text \<open>The 128-bit read is not atomic: when another processor replaces the variable between
  its two loads, it returns a pair of the old first and the new second word.\<close>

theorem fam_atomic_128_read_torn:
  "fam_atomic_128_read [id, \<lambda>m. store128 m a w] a (store128 m a v) = Some ((fst v, snd w), store128 (store128 m a v) a w)"
proof -
  have "load64 (store128 m a v) a = fst v" for m v
    using load_store128 [of m a v] by (simp add: load128_def prod_eq_iff)
  moreover have "load64 (store128 m a w) (a + 2) = snd w" for m
    using load_store128 [of m a w] by (simp add: load128_def prod_eq_iff)
  ultimately show ?thesis
    by (simp add: fam_atomic_128_read_def call_128_run step_16_def read_step_def Let_def)
qed

end
