(* ===== verification/Fam_Spinlock.thy ===== *)
theory Fam_Spinlock
  imports Fam_Atomic
begin

text \<open>
  The ticket lock of \<open>src/common/fam_atomic_x86.c\<close> (\<open>fam_spin_lock\<close>, \<open>fam_spin_trylock\<close>,
  \<open>fam_spin_unlock\<close>), used by many processes at once. A step is one atomic access of one process.
  The 32-bit head and tail of the lock wrap; ghost counters \<open>served\<close> and \<open>issued\<close> hold their
  unbounded values and \<open>tick\<close> the unbounded ticket of each process that waits for the lock or
  holds it. Signed overflow of \<open>old.tickets.tail + 1\<close> in \<open>fam_spin_trylock\<close> is taken to wrap,
  as the increments by \<open>xadd\<close> do.
\<close>

section \<open>The lock word\<close>

text \<open>\<open>struct __fam_tickets\<close>: the head in the low bytes, the tail in the high ones.\<close>

definition head_tail :: "u32 \<Rightarrow> u32 \<Rightarrow> u64" where
  "head_tail h t = push_bit 32 (ucast t) OR ucast h"

definition tickets_head :: "u64 \<Rightarrow> u32" where
  "tickets_head w = ucast w"

definition tickets_tail :: "u64 \<Rightarrow> u32" where
  "tickets_tail w = ucast (drop_bit 32 w)"

lemma load64_head_tail: "load64 m a = head_tail (m a) (m (a + 1))"
  by (simp add: load64_def head_tail_def)

lemma tickets_fields [simp]: "tickets_head (head_tail h t) = h" "tickets_tail (head_tail h t) = t"
proof -
  define m :: famem where "m = (\<lambda>n. if n = 0 then h else t)"
  have "head_tail h t = load64 m 0" by (simp add: load64_head_tail m_def)
  then show "tickets_head (head_tail h t) = h" "tickets_tail (head_tail h t) = t"
    using load64_cells [of m 0] by (simp_all add: tickets_head_def tickets_tail_def m_def)
qed

lemma head_tail_inject [simp]: "head_tail h t = head_tail h' t' \<longleftrightarrow> h = h' \<and> t = t'"
  using tickets_fields by metis

lemma head_tail_surj: "head_tail (tickets_head w) (tickets_tail w) = w"
  by (rule bit_word_eqI)
    (auto simp: head_tail_def tickets_head_def tickets_tail_def bit_or_iff bit_push_bit_iff bit_ucast_iff bit_drop_bit_eq)

lemma store64_head_tail: "store64 m a (head_tail h t) = m(a := h, a + 1 := t)"
proof -
  have "ucast (head_tail h t) = h" "ucast (drop_bit 32 (head_tail h t)) = t"
    using tickets_fields [of h t] by (simp_all add: tickets_head_def tickets_tail_def)
  then show ?thesis by (simp add: store64_def)
qed

text \<open>Adding 1 to the tail cannot overflow into the head.\<close>

lemma head_tail_sum: "head_tail h t = push_bit 32 (ucast t) + ucast h"
proof -
  have b: "bit h n \<Longrightarrow> n < 32" for n using bit_imp_le_length [of h n] by simp
  have "\<not> bit (push_bit 32 (ucast t) :: u64) n \<or> \<not> bit (ucast h :: u64) n" for n
    using b [of n] by (cases "n < 32") (auto simp: bit_push_bit_iff bit_ucast_iff)
  then show ?thesis unfolding head_tail_def by (rule disjunctive_add [symmetric])
qed

lemma ucast_succ: "push_bit 32 (ucast (t + 1 :: u32) :: u64) = push_bit 32 (ucast t) + push_bit 32 1"
proof (cases "t = -1")
  case True
  have "push_bit 32 (ucast (-1 :: u32) :: u64) + push_bit 32 1 = 0" by code_simp
  with True show ?thesis by simp
next
  case False
  then have "unat (t + 1) = unat t + 1"
    by (metis Suc_eq_plus1 add.commute unatSuc add_eq_0_iff)
  then have "(ucast (t + 1) :: u64) = ucast t + 1"
    by (metis of_nat_Suc Suc_eq_plus1 add.commute of_nat_unat)
  then show ?thesis by (simp add: push_bit_eq_mult algebra_simps)
qed

lemma bump_tail: "head_tail h t + head_tail 0 1 = head_tail h (t + 1)"
  by (simp add: head_tail_sum ucast_succ del: push_bit_of_1)

section \<open>The operations\<close>

datatype lpc =
    Out
  | Spin u32
  | In
  | Try u64

definition fam_spin_lock_init :: "nat \<Rightarrow> famem \<Rightarrow> famem option" where
  "fam_spin_lock_init l = fam_atomic_64_write l 0"

text \<open>\<open>fam_spin_lock\<close>: the fetch-and-add that draws a ticket, and one round of the waiting loop.\<close>

definition spin_lock_draw :: "nat \<Rightarrow> famem \<Rightarrow> (lpc \<times> famem) option" where
  "spin_lock_draw l m =
     (case fam_atomic_64_fetch_add l (head_tail 0 1) m of
        None \<Rightarrow> None
      | Some (inc, m) \<Rightarrow>
          if tickets_head inc \<noteq> tickets_tail inc then Some (Spin (tickets_tail inc), m) else Some (In, m))"

definition spin_lock_poll :: "nat \<Rightarrow> u32 \<Rightarrow> famem \<Rightarrow> (lpc \<times> famem) option" where
  "spin_lock_poll l tail m =
     (case fam_atomic_32_fetch_add l 0 m of
        None \<Rightarrow> None
      | Some (head, m) \<Rightarrow> if head = tail then Some (In, m) else Some (Spin tail, m))"

text \<open>\<open>fam_spin_trylock\<close>: the read, then the compare-and-store.\<close>

definition spin_trylock_read :: "nat \<Rightarrow> famem \<Rightarrow> (lpc \<times> famem) option" where
  "spin_trylock_read l m =
     (case fam_atomic_64_fetch_add l 0 m of
        None \<Rightarrow> None
      | Some (old, m) \<Rightarrow> if tickets_head old \<noteq> tickets_tail old then Some (Out, m) else Some (Try old, m))"

definition spin_trylock_cas :: "nat \<Rightarrow> u64 \<Rightarrow> famem \<Rightarrow> (lpc \<times> famem) option" where
  "spin_trylock_cas l old m =
     (let new = head_tail (tickets_head old) (tickets_tail old + 1)
      in case fam_atomic_64_compare_store l old new m of
           None \<Rightarrow> None
         | Some (prev, m) \<Rightarrow> if prev = old then Some (In, m) else Some (Out, m))"

definition fam_spin_unlock :: "nat \<Rightarrow> famem \<Rightarrow> famem option" where
  "fam_spin_unlock l m = map_option snd (fam_atomic_32_fetch_add l 1 m)"

section \<open>Processes\<close>

record lstate =
  lmem :: famem
  lpcs :: "nat \<Rightarrow> lpc"
  tick :: "nat \<Rightarrow> nat"
  served :: nat
  issued :: nat

text \<open>\<open>enter\<close> records that process \<open>p\<close> has drawn the next ticket.\<close>

definition enter :: "nat \<Rightarrow> lpc \<Rightarrow> famem \<Rightarrow> lstate \<Rightarrow> lstate" where
  "enter p c m s = s\<lparr>lmem := m, lpcs := (lpcs s)(p := c), tick := (tick s)(p := issued s), issued := Suc (issued s)\<rparr>"

definition move :: "nat \<Rightarrow> lpc \<Rightarrow> famem \<Rightarrow> lstate \<Rightarrow> lstate" where
  "move p c m s = s\<lparr>lmem := m, lpcs := (lpcs s)(p := c)\<rparr>"

inductive lstep :: "nat \<Rightarrow> nat \<Rightarrow> lstate \<Rightarrow> lstate \<Rightarrow> bool" for l N :: nat where
  draw: "\<lbrakk>p < N; lpcs s p = Out; spin_lock_draw l (lmem s) = Some (c, m)\<rbrakk> \<Longrightarrow> lstep l N s (enter p c m s)"
| poll: "\<lbrakk>p < N; lpcs s p = Spin t; spin_lock_poll l t (lmem s) = Some (c, m)\<rbrakk> \<Longrightarrow> lstep l N s (move p c m s)"
| try_read: "\<lbrakk>p < N; lpcs s p = Out; spin_trylock_read l (lmem s) = Some (c, m)\<rbrakk> \<Longrightarrow> lstep l N s (move p c m s)"
| try_won: "\<lbrakk>p < N; lpcs s p = Try old; spin_trylock_cas l old (lmem s) = Some (In, m)\<rbrakk> \<Longrightarrow>
    lstep l N s (enter p In m s)"
| try_lost: "\<lbrakk>p < N; lpcs s p = Try old; spin_trylock_cas l old (lmem s) = Some (Out, m)\<rbrakk> \<Longrightarrow>
    lstep l N s (move p Out m s)"
| unlock: "\<lbrakk>p < N; lpcs s p = In; fam_spin_unlock l (lmem s) = Some m\<rbrakk> \<Longrightarrow>
    lstep l N s (move p Out m (s\<lparr>served := Suc (served s)\<rparr>))"

inductive_cases lstepE: "lstep l N s s'"

definition linit :: "famem \<Rightarrow> lstate" where
  "linit m = \<lparr>lmem = m, lpcs = (\<lambda>_. Out), tick = (\<lambda>_. 0), served = 0, issued = 0\<rparr>"

inductive lreach :: "nat \<Rightarrow> nat \<Rightarrow> lstate \<Rightarrow> bool" for l N :: nat where
  init: "fam_spin_lock_init l m0 = Some m \<Longrightarrow> lreach l N (linit m)"
| more: "\<lbrakk>lreach l N s; lstep l N s s'\<rbrakk> \<Longrightarrow> lreach l N s'"

definition holders :: "lstate \<Rightarrow> nat set" where
  "holders s = {p. lpcs s p = In \<or> (\<exists>t. lpcs s p = Spin t)}"

section \<open>The invariant\<close>

definition linv :: "nat \<Rightarrow> nat \<Rightarrow> lstate \<Rightarrow> bool" where
  "linv l N s \<longleftrightarrow>
     load64 (lmem s) l = head_tail (of_nat (served s)) (of_nat (issued s)) \<and>
     bij_betw (tick s) (holders s) {served s..<issued s} \<and>
     served s \<le> issued s \<and> holders s \<subseteq> {..<N} \<and>
     (\<forall>p. lpcs s p = In \<longrightarrow> tick s p = served s) \<and>
     (\<forall>p t. lpcs s p = Spin t \<longrightarrow> t = of_nat (tick s p)) \<and>
     (\<forall>p w. lpcs s p = Try w \<longrightarrow> tickets_head w = tickets_tail w)"

lemma linvD:
  assumes "linv l N s"
  shows "load64 (lmem s) l = head_tail (of_nat (served s)) (of_nat (issued s))"
    "lmem s l = of_nat (served s)" "bij_betw (tick s) (holders s) {served s..<issued s}"
    "served s \<le> issued s" "holders s \<subseteq> {..<N}"
    "\<And>p. lpcs s p = In \<Longrightarrow> tick s p = served s"
    "\<And>p t. lpcs s p = Spin t \<Longrightarrow> t = of_nat (tick s p)"
    "\<And>p w. lpcs s p = Try w \<Longrightarrow> tickets_head w = tickets_tail w"
  using assms load64_head_tail [of "lmem s" l] by (auto simp: linv_def)

lemma holders_bound:
  assumes "linv l N s"
  shows "finite (holders s)" "issued s - served s = card (holders s)" "issued s - served s \<le> N"
proof -
  show f: "finite (holders s)" using linvD(5) [OF assms] finite_subset by blast
  show c: "issued s - served s = card (holders s)" using bij_betw_same_card [OF linvD(3) [OF assms]] by simp
  show "issued s - served s \<le> N" using card_mono [OF _ linvD(5) [OF assms]] c by simp
qed

text \<open>A process outside the lock leaves room for one more ticket.\<close>

lemma room:
  assumes "linv l N s" "p < N" "p \<notin> holders s"
  shows "issued s - served s < N"
proof -
  have "holders s \<subseteq> {..<N} - {p}" using linvD(5) [OF assms(1)] assms(3) by blast
  from card_mono [OF _ this] assms(2) holders_bound(2) [OF assms(1)] show ?thesis by simp
qed

lemma of_nat_u32_eq:
  assumes "a \<le> b" "b - a < 2 ^ 32"
  shows "(of_nat a :: u32) = of_nat b \<longleftrightarrow> a = b"
proof
  assume "(of_nat a :: u32) = of_nat b"
  then have "a mod 2 ^ 32 = b mod 2 ^ 32" by (simp add: word_of_nat_eq_iff take_bit_eq_mod)
  then have "2 ^ 32 dvd b - a" using assms(1) by (metis mod_eq_dvd_iff_nat)
  with assms show "a = b" by (metis dvd_imp_le diff_is_0_eq le_antisym not_less zero_less_diff)
qed simp

lemma holder_tick:
  assumes "linv l N s" "p \<in> holders s"
  shows "served s \<le> tick s p" "tick s p < issued s"
  using bij_betw_imp_surj_on [OF linvD(3) [OF assms(1)]] assms(2) by force+

text \<open>The head reaches exactly the lowest ticket.\<close>

lemma head_is_ticket:
  assumes "linv l N s" "N \<le> 2 ^ 32" "p \<in> holders s"
  shows "(of_nat (served s) :: u32) = of_nat (tick s p) \<longleftrightarrow> tick s p = served s"
proof -
  have "tick s p - served s < 2 ^ 32"
    using holder_tick [OF assms(1,3)] holders_bound(3) [OF assms(1)] assms(2) by linarith
  with of_nat_u32_eq holder_tick(1) [OF assms(1,3)] show ?thesis by metis
qed

lemma linv_enter:
  assumes inv: "linv l N s" and p: "p < N" "p \<notin> holders s" and N: "N \<le> 2 ^ 32"
    and m: "load64 m l = head_tail (of_nat (served s)) (of_nat (Suc (issued s)))"
    and c: "c = (if served s = issued s then In else Spin (of_nat (issued s)))"
  shows "linv l N (enter p c m s)"
proof -
  note D = linvD [OF inv]
  have h: "holders (enter p c m s) = insert p (holders s)" using c by (auto simp: holders_def enter_def)
  have t: "tick (enter p c m s) q = (if q = p then issued s else tick s q)" for q by (simp add: enter_def)
  have inj: "inj_on (tick s) (holders s)" and img: "tick s ` holders s = {served s..<issued s}"
    using D(3) by (simp_all add: bij_betw_def)
  have same: "\<forall>q \<in> holders s. tick (enter p c m s) q = tick s q" using p(2) by (auto simp: t)
  have "inj_on (tick (enter p c m s)) (holders s)" using inj same by (simp add: inj_on_def)
  moreover have img': "tick (enter p c m s) ` holders s = {served s..<issued s}"
    using same img by (metis image_cong)
  ultimately have "bij_betw (tick (enter p c m s)) (insert p (holders s)) (insert (issued s) {served s..<issued s})"
    using p(2) by (simp add: bij_betw_def t)
  moreover have "insert (issued s) {served s..<issued s} = {served s..<Suc (issued s)}" using D(4) by auto
  moreover have "lpcs s q = In \<Longrightarrow> served s < issued s" for q
    using holder_tick [OF inv, of q] by (force simp: holders_def)
  ultimately show ?thesis
    using D p(1) m c unfolding linv_def h by (auto simp: enter_def)
qed

lemma linv_move:
  assumes inv: "linv l N s" and m: "load64 m l = load64 (lmem s) l"
    and c: "p \<in> holders s \<Longrightarrow> c = lpcs s p \<or> (c = In \<and> tick s p = served s)"
    and o: "p \<notin> holders s \<Longrightarrow> c = Out \<or> (\<exists>w. c = Try w \<and> tickets_head w = tickets_tail w)"
  shows "linv l N (move p c m s)"
proof -
  note D = linvD [OF inv]
  have h: "holders (move p c m s) = holders s"
    using c o by (auto simp: holders_def move_def split: if_splits)
  have f: "tick (move p c m s) = tick s" "served (move p c m s) = served s" "issued (move p c m s) = issued s"
    "lmem (move p c m s) = m" "lpcs (move p c m s) = (lpcs s)(p := c)"
    by (simp_all add: move_def)
  have i: "c = In \<Longrightarrow> tick s p = served s" and sp: "\<And>t. c = Spin t \<Longrightarrow> t = of_nat (tick s p)"
    and tr: "\<And>w. c = Try w \<Longrightarrow> tickets_head w = tickets_tail w"
    using c o D(6,7,8) by (metis lpc.distinct lpc.inject)+
  show ?thesis unfolding linv_def h f
    using D m by (intro conjI allI impI) (simp_all add: i sp tr split: if_splits)
qed

lemma linv_unlock:
  assumes inv: "linv l N s" and p: "lpcs s p = In" and N: "N \<le> 2 ^ 32"
    and m: "load64 m l = head_tail (of_nat (Suc (served s))) (of_nat (issued s))"
  shows "linv l N (move p Out m (s\<lparr>served := Suc (served s)\<rparr>))"
proof -
  note D = linvD [OF inv]
  let ?s = "move p Out m (s\<lparr>served := Suc (served s)\<rparr>)"
  have ph: "p \<in> holders s" using p by (simp add: holders_def)
  have h: "holders ?s = holders s - {p}" by (auto simp: holders_def move_def)
  have f: "tick ?s = tick s" "served ?s = Suc (served s)" "issued ?s = issued s"
    "lmem ?s = m" "lpcs ?s = (lpcs s)(p := Out)" by (simp_all add: move_def)
  have tp: "tick s p = served s" using D(6) p .
  have lt: "served s < issued s" using holder_tick [OF inv ph] tp by simp
  have "bij_betw (tick s) (holders s - {p}) ({served s..<issued s} - {served s})"
    using bij_betw_DiffI [OF D(3), of "{p}" "{served s}"] ph tp lt by (simp add: bij_betw_def)
  moreover have "{served s..<issued s} - {served s} = {Suc (served s)..<issued s}" by auto
  moreover have "lpcs s q \<noteq> In" if "q \<noteq> p" for q
  proof
    assume "lpcs s q = In"
    then have "q \<in> holders s" "tick s q = tick s p" using D(6) tp by (simp_all add: holders_def)
    with D(3) ph that show False by (auto simp: bij_betw_def inj_on_def)
  qed
  ultimately show ?thesis
    using D lt m unfolding linv_def h f by (auto split: if_splits)
qed

lemma draw_mem:
  assumes "linv l N s"
  shows "fam_atomic_64_fetch_add l (head_tail 0 1) (lmem s) =
    Some (head_tail (of_nat (served s)) (of_nat (issued s)),
      store64 (lmem s) l (head_tail (of_nat (served s)) (of_nat (Suc (issued s)))))"
  by (simp only: fam_64_simps linvD(1) [OF assms] bump_tail) (simp add: add.commute)

lemma linv_step:
  assumes "lstep l N s s'" "linv l N s" "N \<le> 2 ^ 32"
  shows "linv l N s'"
  using assms(1)
proof cases
  case (draw p c m)
  have np: "p \<notin> holders s" using draw(3) by (simp add: holders_def)
  have "issued s - served s < 2 ^ 32" using room [OF assms(2) draw(2) np] assms(3) by simp
  then have e: "(of_nat (served s) :: u32) = of_nat (issued s) \<longleftrightarrow> served s = issued s"
    using of_nat_u32_eq linvD(4) [OF assms(2)] by metis
  show ?thesis unfolding draw(1)
    by (rule linv_enter [OF assms(2) draw(2) np assms(3)])
      (use draw(4) e in \<open>auto simp: spin_lock_draw_def draw_mem [OF assms(2)] simp del: fam_64_simps split: if_splits\<close>)
next
  case (poll p t c m)
  have ph: "p \<in> holders s" using poll(3) by (simp add: holders_def)
  have same: "(lmem s)(l := of_nat (served s)) = lmem s" using linvD(2) [OF assms(2)] by auto
  have "t = of_nat (tick s p)" using linvD(7) [OF assms(2) poll(3)] .
  with head_is_ticket [OF assms(2,3) ph] linvD(2) [OF assms(2)] poll(3,4) show ?thesis unfolding poll(1)
    by (intro linv_move [OF assms(2)]) (use ph in \<open>auto simp: spin_lock_poll_def same split: if_splits\<close>)
next
  case (try_read p c m)
  have "p \<notin> holders s" using try_read(3) by (simp add: holders_def)
  with try_read(4) show ?thesis unfolding try_read(1)
    by (intro linv_move [OF assms(2)]) (auto simp: spin_trylock_read_def split: if_splits)
next
  case (try_won p old m)
  have np: "p \<notin> holders s" using try_won(3) by (simp add: holders_def)
  have lt: "issued s - served s < 2 ^ 32" using room [OF assms(2) try_won(2) np] assms(3) by simp
  have old: "load64 (lmem s) l = old" and
    m: "m = store64 (lmem s) l (head_tail (tickets_head old) (tickets_tail old + 1))"
    using try_won(4) by (auto simp: spin_trylock_cas_def Let_def split: if_splits)
  have o: "old = head_tail (of_nat (served s)) (of_nat (issued s))" using old linvD(1) [OF assms(2)] by simp
  with linvD(8) [OF assms(2) try_won(3)] of_nat_u32_eq [OF linvD(4) [OF assms(2)] lt]
  have e: "served s = issued s" by simp
  show ?thesis unfolding try_won(1)
    by (rule linv_enter [OF assms(2) try_won(2) np assms(3)]) (simp_all add: m o e add.commute)
next
  case (try_lost p old m)
  have "p \<notin> holders s" using try_lost(3) by (simp add: holders_def)
  with try_lost(4) show ?thesis unfolding try_lost(1)
    by (intro linv_move [OF assms(2)]) (auto simp: spin_trylock_cas_def Let_def split: if_splits)
next
  case (unlock p m)
  have "m = (lmem s)(l := lmem s l + 1)" using unlock(4) by (simp add: fam_spin_unlock_def)
  moreover have "lmem s l = of_nat (served s)" "lmem s (l + 1) = of_nat (issued s)"
    using linvD(1) [OF assms(2)] by (simp_all add: load64_head_tail)
  ultimately have "load64 m l = head_tail (of_nat (Suc (served s))) (of_nat (issued s))"
    by (simp add: load64_head_tail add.commute)
  with linv_unlock [OF assms(2) unlock(3) assms(3)] show ?thesis unfolding unlock(1) by simp
qed

lemma lreach_linv:
  assumes "lreach l N s" "N \<le> 2 ^ 32"
  shows "linv l N s"
  using assms(1)
proof induction
  case (init m0 m)
  then have "m = store64 m0 l 0" by (simp add: fam_spin_lock_init_def)
  moreover have "head_tail 0 0 = 0" by (simp add: head_tail_def)
  ultimately show ?case by (simp add: linv_def linit_def holders_def bij_betw_def)
next
  case (more s s')
  with linv_step assms(2) show ?case by blast
qed

section \<open>Properties\<close>

text \<open>C19: mutual exclusion: however \<open>N \<le> 2 ^ 32\<close> processes interleave the atomic accesses of
  \<open>fam_spin_lock\<close>, \<open>fam_spin_trylock\<close> and \<open>fam_spin_unlock\<close>, and however often the counters of
  the lock wrap, at most one of them is inside the lock.\<close>

theorem spinlock_mutual_exclusion:
  assumes "lreach l N s" "N \<le> 2 ^ 32" "lpcs s p = In" "lpcs s q = In"
  shows "p = q"
proof -
  note inv = lreach_linv [OF assms(1,2)]
  have "p \<in> holders s" "q \<in> holders s" using assms(3,4) by (simp_all add: holders_def)
  moreover have "tick s p = tick s q" using linvD(6) [OF inv] assms(3,4) by metis
  ultimately show ?thesis using linvD(3) [OF inv] by (auto simp: bij_betw_def inj_on_def)
qed

text \<open>C20: the lock is fair and does not deadlock: a process is only inside when nobody that drew
  an earlier ticket is still waiting; and whenever some process waits or is inside, there is one
  that is inside or that enters with its next poll.\<close>

theorem spinlock_fair_and_live:
  assumes "lreach l N s" "N \<le> 2 ^ 32"
  shows "(\<forall>p q t. lpcs s p = In \<and> lpcs s q = Spin t \<longrightarrow> tick s p < tick s q) \<and>
    (holders s \<noteq> {} \<longrightarrow>
       (\<exists>p. lpcs s p = In \<or> (\<exists>t m. lpcs s p = Spin t \<and> spin_lock_poll l t (lmem s) = Some (In, m))))"
proof (intro conjI allI impI)
  note inv = lreach_linv [OF assms]
  fix p q t
  assume pq: "lpcs s p = In \<and> lpcs s q = Spin t"
  then have h: "p \<in> holders s" "q \<in> holders s" "p \<noteq> q" by (auto simp: holders_def)
  then have "tick s p \<noteq> tick s q" using linvD(3) [OF inv] by (auto simp: bij_betw_def inj_on_def)
  moreover have "tick s p = served s" using pq linvD(6) [OF inv] by blast
  ultimately show "tick s p < tick s q" using holder_tick(1) [OF inv h(2)] by simp
next
  note inv = lreach_linv [OF assms]
  assume "holders s \<noteq> {}"
  then obtain q where "q \<in> holders s" by blast
  then have "served s \<in> {served s..<issued s}" using holder_tick [OF inv, of q] by simp
  then have "served s \<in> tick s ` holders s" using linvD(3) [OF inv] by (simp add: bij_betw_def)
  then obtain p where p: "p \<in> holders s" "tick s p = served s" by auto
  show "\<exists>p. lpcs s p = In \<or> (\<exists>t m. lpcs s p = Spin t \<and> spin_lock_poll l t (lmem s) = Some (In, m))"
  proof (cases "lpcs s p = In")
    case False
    with p(1) obtain t where t: "lpcs s p = Spin t" by (auto simp: holders_def)
    then have "t = of_nat (served s)" using linvD(7) [OF inv t] p(2) by simp
    then have "\<exists>m. spin_lock_poll l t (lmem s) = Some (In, m)"
      using linvD(2) [OF inv] by (simp add: spin_lock_poll_def)
    with t show ?thesis by blast
  qed blast
qed

text \<open>A run for the witnesses: process 0 takes the lock at address 4, process 1 waits behind it.\<close>

lemma draw_cells:
  "spin_lock_draw l m =
    Some (if m l \<noteq> m (l + 1) then Spin (m (l + 1)) else In, m(l + 1 := m (l + 1) + 1))"
proof -
  have "m(l := m l) = m" by simp
  then show ?thesis
    by (simp add: spin_lock_draw_def load64_head_tail bump_tail store64_head_tail)
qed

definition contended :: lstate where
  "contended = enter 1 (Spin 1) ((\<lambda>_. 0)(5 := 2)) (enter 0 In ((\<lambda>_. 0)(5 := 1)) (linit (\<lambda>_. 0)))"

lemma contended_reach: "lreach 4 2 contended"
proof -
  have z: "store64 (\<lambda>_. 0) 4 0 = (\<lambda>_. 0)" by (auto simp: store64_def)
  have "lreach 4 2 (linit (\<lambda>_. 0))"
    by (rule lreach.init [of _ "\<lambda>_. 0"]) (simp add: fam_spin_lock_init_def z)
  moreover have "lstep 4 2 (linit (\<lambda>_. 0)) (enter 0 In ((\<lambda>_. 0)(5 := 1)) (linit (\<lambda>_. 0)))"
    by (rule draw) (simp_all add: linit_def draw_cells)
  ultimately have r: "lreach 4 2 (enter 0 In ((\<lambda>_. 0)(5 := 1)) (linit (\<lambda>_. 0)))" by (rule lreach.more)
  have "lstep 4 2 (enter 0 In ((\<lambda>_. 0)(5 := 1)) (linit (\<lambda>_. 0))) contended"
    unfolding contended_def by (rule draw) (simp_all add: linit_def enter_def draw_cells)
  with r show ?thesis by (rule lreach.more)
qed

lemma spinlock_mutual_exclusion_witness:
  "lreach 4 2 contended \<and> lpcs contended 0 = In \<and> lpcs contended 1 \<noteq> In"
proof -
  have i: "lpcs contended 0 = In" by (simp add: contended_def enter_def)
  then have "lpcs contended 1 \<noteq> In" using spinlock_mutual_exclusion [OF contended_reach, of 0 1] by auto
  with i contended_reach show ?thesis by blast
qed

lemma spinlock_fair_and_live_witness:
  "lpcs contended 0 = In \<and> lpcs contended 1 = Spin 1 \<and> tick contended 0 < tick contended 1"
proof -
  have "lpcs contended 0 = In \<and> lpcs contended 1 = Spin 1" by (simp add: contended_def enter_def)
  with spinlock_fair_and_live [OF contended_reach] show ?thesis by auto
qed

end
