(* ===== verification/Shelf_File.thy ===== *)
theory Shelf_File
  imports Membership Fam_Atomic "HOL-Library.AList"
begin

text \<open>
  Shelf files (\<open>src/shelf_mgmt/shelf_file.cc\<close>) and the operating system calls they are made of.

  The world is a directory (file names to inodes), the inodes, and an environment that decides
  what the code cannot: whether a system call fails and with which error number, where a mapping
  is placed, what the random device yields; the decisions are indexed by the number of calls made
  so far, so every statement about the model holds for every behaviour of the environment that
  its hypotheses allow. Of a file's contents the model keeps what this library part reads: the
  word at offset 0 and the membership table behind the first cache line. Bytes behind the end of
  a file read as 0.
\<close>

section \<open>Files and system calls\<close>

datatype errno = ENOENT | EEXIST | EOTHER

record area =
  size_word :: u64
  table :: members
  cells :: famem

record inode =
  i_mode :: u32
  i_size :: u64
  i_area :: area

record environment =
  fails :: "nat \<Rightarrow> errno option"
  place :: "nat \<Rightarrow> u64"
  rand_at :: "nat \<Rightarrow> u16"

record world =
  dir :: "(string \<times> nat) list"
  inodes :: "nat \<Rightarrow> inode"
  next_ino :: nat
  calls :: nat
  env :: environment

definition zero_members :: members where
  "zero_members = \<lparr>magic_num = 0, m_size = 0, m_item_count = 0, m_items = (\<lambda>_. 0)\<rparr>"

definition zero_area :: area where
  "zero_area = \<lparr>size_word = 0, table = zero_members, cells = (\<lambda>_. 0)\<rparr>"

text \<open>Truncating a file to \<open>len\<close> bytes keeps the bytes before \<open>len\<close>: the low bytes of the word at
  the cut.\<close>

definition cut_word :: "nat \<Rightarrow> nat \<Rightarrow> u64 \<Rightarrow> u64" where
  "cut_word len off x = take_bit (8 * (len - off)) x"

definition cut_area :: "nat \<Rightarrow> area \<Rightarrow> area" where
  "cut_area len a =
     \<lparr>size_word = cut_word len 0 (size_word a),
      table = \<lparr>magic_num = cut_word len 64 (magic_num (table a)), m_size = cut_word len 72 (m_size (table a)),
        m_item_count = cut_word len 80 (m_item_count (table a)),
        m_items = (\<lambda>i. cut_word len (128 + 64 * i) (m_items (table a) i))\<rparr>,
      cells = (\<lambda>i. take_bit (8 * (len - 4 * i)) (cells a i))\<rparr>"

definition sys_truncate_ino :: "nat \<Rightarrow> u64 \<Rightarrow> world \<Rightarrow> world" where
  "sys_truncate_ino n len w =
     w\<lparr>inodes := (inodes w)(n := (inodes w n)\<lparr>i_size := len, i_area := cut_area (unat len) (i_area (inodes w n))\<rparr>)\<rparr>"

definition lookup :: "world \<Rightarrow> string \<Rightarrow> nat option" where
  "lookup w path = map_of (dir w) path"

text \<open>Every system call consults the environment once.\<close>

definition sys_call :: "(world \<Rightarrow> (errno + 'a) \<times> world) \<Rightarrow> world \<Rightarrow> (errno + 'a) \<times> world" where
  "sys_call f w =
     (let w' = w\<lparr>calls := Suc (calls w)\<rparr>
      in case fails (env w) (calls w) of Some e \<Rightarrow> (Inl e, w') | None \<Rightarrow> f w')"

text \<open>\<open>creat\<close> is \<open>open\<close> with \<open>O_CREAT | O_WRONLY | O_TRUNC\<close>: an existing file is emptied.\<close>

definition sys_creat :: "string \<Rightarrow> u32 \<Rightarrow> world \<Rightarrow> (errno + nat) \<times> world" where
  "sys_creat path mode = sys_call (\<lambda>w.
     case lookup w path of
       Some n \<Rightarrow> (Inr n, sys_truncate_ino n 0 w)
     | None \<Rightarrow>
         (Inr (next_ino w), w\<lparr>dir := (path, next_ino w) # dir w, next_ino := Suc (next_ino w),
            inodes := (inodes w)(next_ino w := \<lparr>i_mode = mode, i_size = 0, i_area = zero_area\<rparr>)\<rparr>))"

definition sys_open :: "string \<Rightarrow> world \<Rightarrow> (errno + nat) \<times> world" where
  "sys_open path = sys_call (\<lambda>w. case lookup w path of Some n \<Rightarrow> (Inr n, w) | None \<Rightarrow> (Inl ENOENT, w))"

definition sys_close :: "world \<Rightarrow> (errno + unit) \<times> world" where
  "sys_close = sys_call (\<lambda>w. (Inr (), w))"

text \<open>A length is converted to the signed \<open>off_t\<close>; a negative one is refused.\<close>

definition sys_ftruncate :: "nat \<Rightarrow> u64 \<Rightarrow> world \<Rightarrow> (errno + unit) \<times> world" where
  "sys_ftruncate n len = sys_call (\<lambda>w.
     if bit len 63 then (Inl EOTHER, w) else (Inr (), sys_truncate_ino n len w))"

definition sys_truncate :: "string \<Rightarrow> u64 \<Rightarrow> world \<Rightarrow> (errno + unit) \<times> world" where
  "sys_truncate path len = sys_call (\<lambda>w.
     if bit len 63 then (Inl EOTHER, w)
     else case lookup w path of
            None \<Rightarrow> (Inl ENOENT, w)
          | Some n \<Rightarrow> (Inr (), sys_truncate_ino n len w))"

definition sys_rename :: "string \<Rightarrow> string \<Rightarrow> world \<Rightarrow> (errno + unit) \<times> world" where
  "sys_rename old new = sys_call (\<lambda>w.
     case lookup w old of
       None \<Rightarrow> (Inl ENOENT, w)
     | Some n \<Rightarrow> (Inr (), w\<lparr>dir := (if old = new then dir w else (new, n) # AList.delete new (AList.delete old (dir w)))\<rparr>))"

definition sys_unlink :: "string \<Rightarrow> world \<Rightarrow> (errno + unit) \<times> world" where
  "sys_unlink path = sys_call (\<lambda>w.
     case lookup w path of
       None \<Rightarrow> (Inl ENOENT, w)
     | Some n \<Rightarrow> (Inr (), w\<lparr>dir := AList.delete path (dir w)\<rparr>))"

definition sys_stat :: "string \<Rightarrow> world \<Rightarrow> (errno + inode) \<times> world" where
  "sys_stat path = sys_call (\<lambda>w. case lookup w path of Some n \<Rightarrow> (Inr (inodes w n), w) | None \<Rightarrow> (Inl ENOENT, w))"

definition sys_fstat :: "nat \<Rightarrow> world \<Rightarrow> (errno + inode) \<times> world" where
  "sys_fstat n = sys_call (\<lambda>w. (Inr (inodes w n), w))"

definition sys_chmod :: "string \<Rightarrow> u32 \<Rightarrow> world \<Rightarrow> (errno + unit) \<times> world" where
  "sys_chmod path mode = sys_call (\<lambda>w.
     case lookup w path of
       None \<Rightarrow> (Inl ENOENT, w)
     | Some n \<Rightarrow> (Inr (), w\<lparr>inodes := (inodes w)(n := (inodes w n)\<lparr>i_mode := mode\<rparr>)\<rparr>))"

definition sys_mmap :: "nat \<Rightarrow> u64 \<Rightarrow> world \<Rightarrow> (errno + u64) \<times> world" where
  "sys_mmap n len = sys_call (\<lambda>w. (Inr (place (env w) (calls w)), w))"

definition sys_munmap :: "u64 \<Rightarrow> u64 \<Rightarrow> world \<Rightarrow> (errno + unit) \<times> world" where
  "sys_munmap addr len = sys_call (\<lambda>w. (Inr (), w))"

text \<open>A world without files in which no call fails, for examples.\<close>

definition quiet_env :: environment where
  "quiet_env = \<lparr>fails = (\<lambda>_. None), place = (\<lambda>n. of_nat (n + 1) * 0x10000000), rand_at = (\<lambda>n. of_nat n)\<rparr>"

definition empty_world :: world where
  "empty_world = \<lparr>dir = [], inodes = (\<lambda>_. \<lparr>i_mode = 0, i_size = 0, i_area = zero_area\<rparr>), next_ino = 0, calls = 0, env = quiet_env\<rparr>"

section \<open>Shelf files\<close>

text \<open>\<open>sf_fd\<close> is \<open>None\<close> for the descriptor \<open>-1\<close>; an open descriptor is its inode.\<close>

record shelf_file =
  sf_fd :: "nat option"
  sf_path :: string
  sf_id :: ShelfId

definition ShelfFile :: "string \<Rightarrow> shelf_file" where
  "ShelfFile pathname = \<lparr>sf_fd = None, sf_path = pathname, sf_id = kInvalidShelfId\<rparr>"

definition ShelfFile_id :: "string \<Rightarrow> ShelfId \<Rightarrow> shelf_file" where
  "ShelfFile_id pathname sid = \<lparr>sf_fd = None, sf_path = pathname, sf_id = sid\<rparr>"

definition sf_IsOpen :: "shelf_file \<Rightarrow> bool" where
  "sf_IsOpen sf \<longleftrightarrow> sf_fd sf \<noteq> None"

definition sf_Exist :: "shelf_file \<Rightarrow> world \<Rightarrow> bool" where
  "sf_Exist sf w \<longleftrightarrow> lookup w (sf_path sf) \<noteq> None"

definition sf_Close :: "shelf_file \<Rightarrow> world \<Rightarrow> error_code \<times> shelf_file \<times> world" where
  "sf_Close sf w =
     (if \<not> sf_IsOpen sf then (SHELF_FILE_CLOSED, sf, w)
      else case sys_close w of
             (Inr _, w) \<Rightarrow> (NO_ERROR, sf\<lparr>sf_fd := None\<rparr>, w)
           | (Inl _, w) \<Rightarrow> (SHELF_FILE_CLOSE_FAILED, sf, w))"

definition sf_Truncate :: "shelf_file \<Rightarrow> u64 \<Rightarrow> world \<Rightarrow> error_code \<times> world" where
  "sf_Truncate sf len w =
     (case (case sf_fd sf of None \<Rightarrow> sys_truncate (sf_path sf) len w | Some n \<Rightarrow> sys_ftruncate n len w) of
        (Inr _, w) \<Rightarrow> (NO_ERROR, w)
      | (Inl e, w) \<Rightarrow> (if e = ENOENT then SHELF_FILE_NOT_FOUND else SHELF_FILE_TRUNCATE_FAILED, w))"

definition sf_Create :: "shelf_file \<Rightarrow> u32 \<Rightarrow> u64 \<Rightarrow> world \<Rightarrow> error_code \<times> shelf_file \<times> world" where
  "sf_Create sf mode len w =
     (if sf_Exist sf w then (SHELF_FILE_FOUND, sf, w)
      else if sf_IsOpen sf then (SHELF_FILE_OPENED, sf, w)
      else case sys_creat (sf_path sf) mode w of
             (Inr fd, w) \<Rightarrow>
               (let sf = sf\<lparr>sf_fd := Some fd\<rparr>;
                    (ret, w) = (if 0 < len then sf_Truncate sf len w else (NO_ERROR, w));
                    (_, sf, w) = sf_Close sf w
                in (ret, sf, w))
           | (Inl e, w) \<Rightarrow> (if e = EEXIST then SHELF_FILE_FOUND else SHELF_FILE_CREATE_FAILED, sf, w))"

text \<open>\<open>boost::filesystem::remove\<close> reports a missing file by its result, other failures by an
  exception, of which \<open>Destroy\<close> passes on all but \<open>ENOENT\<close>.\<close>

definition sf_Destroy :: "shelf_file \<Rightarrow> world \<Rightarrow> (error_code \<times> world) result" where
  "sf_Destroy sf w =
     (let ret = (if \<not> sf_Exist sf w then SHELF_FILE_NOT_FOUND else NO_ERROR)
      in if sf_IsOpen sf then Inr (SHELF_FILE_OPENED, w)
         else case sys_unlink (sf_path sf) w of
                (Inr _, w) \<Rightarrow> Inr (ret, w)
              | (Inl e, w) \<Rightarrow> if e = ENOENT then Inr (ret, w) else Inl Runtime_Error)"

definition sf_Rename :: "shelf_file \<Rightarrow> string \<Rightarrow> world \<Rightarrow> error_code \<times> shelf_file \<times> world" where
  "sf_Rename sf new_pathname w =
     (case sys_rename (sf_path sf) new_pathname w of
        (Inr _, w) \<Rightarrow> (NO_ERROR, sf\<lparr>sf_path := new_pathname\<rparr>, w)
      | (Inl _, w) \<Rightarrow> (SHELF_FILE_RENAME_FAILED, sf, w))"

text \<open>\<open>boost::filesystem::file_size\<close> throws where the file cannot be examined; \<open>fstat\<close> failing
  gives the size \<open>-1\<close>.\<close>

definition sf_Size :: "shelf_file \<Rightarrow> world \<Rightarrow> (u64 \<times> world) result" where
  "sf_Size sf w =
     (case sf_fd sf of
        None \<Rightarrow> (case sys_stat (sf_path sf) w of (Inr i, w) \<Rightarrow> Inr (i_size i, w) | (Inl _, _) \<Rightarrow> Inl Runtime_Error)
      | Some n \<Rightarrow> (case sys_fstat n w of (Inr i, w) \<Rightarrow> Inr (i_size i, w) | (Inl _, w) \<Rightarrow> Inr (- 1, w)))"

definition sf_Open :: "shelf_file \<Rightarrow> world \<Rightarrow> error_code \<times> shelf_file \<times> world" where
  "sf_Open sf w =
     (if sf_IsOpen sf then (SHELF_FILE_OPENED, sf, w)
      else if \<not> sf_Exist sf w then (SHELF_FILE_NOT_FOUND, sf, w)
      else case sys_open (sf_path sf) w of
             (Inr fd, w) \<Rightarrow> (NO_ERROR, sf\<lparr>sf_fd := Some fd\<rparr>, w)
           | (Inl e, w) \<Rightarrow> (if e = ENOENT then SHELF_FILE_NOT_FOUND else SHELF_FILE_OPEN_FAILED, sf, w))"

text \<open>\<open>fam_atomic_register_region\<close> and its inverse of \<open>fam_atomic_x86.c\<close> do nothing and report
  success.\<close>

definition fam_atomic_register_region :: "u64 \<Rightarrow> u64 \<Rightarrow> int" where
  "fam_atomic_register_region region_start region_length = 0"

definition sf_Map_range :: "shelf_file \<Rightarrow> u64 \<Rightarrow> bool \<Rightarrow> world \<Rightarrow> error_code \<times> u64 option \<times> world" where
  "sf_Map_range sf len register_fam_atomic w =
     (case sf_fd sf of
        None \<Rightarrow> (SHELF_FILE_CLOSED, None, w)
      | Some n \<Rightarrow>
          (case sys_mmap n len w of
             (Inr addr, w) \<Rightarrow>
               if register_fam_atomic \<and> fam_atomic_register_region addr len < 0
               then (SHELF_FILE_FAM_ATOMIC_REGISTER_REGION_FAILED, Some addr, w)
               else (NO_ERROR, Some addr, w)
           | (Inl _, w) \<Rightarrow> (SHELF_FILE_MAP_FAILED, None, w)))"

definition sf_Unmap_range :: "u64 \<Rightarrow> u64 \<Rightarrow> world \<Rightarrow> error_code \<times> world" where
  "sf_Unmap_range mapped_addr len w =
     (case sys_munmap mapped_addr len w of
        (Inr _, w) \<Rightarrow> (NO_ERROR, w)
      | (Inl _, w) \<Rightarrow> (SHELF_FILE_UNMAP_FAILED, w))"

definition PERM_MASK :: u32 where "PERM_MASK = 0x1FF"

definition sf_GetPermission :: "shelf_file \<Rightarrow> world \<Rightarrow> error_code \<times> u32 option \<times> world" where
  "sf_GetPermission sf w =
     (case sys_stat (sf_path sf) w of
        (Inl _, w) \<Rightarrow> (SHELF_FILE_GET_PERM_FAILED, None, w)
      | (Inr st, w) \<Rightarrow> (NO_ERROR, Some (i_mode st AND PERM_MASK), w))"

definition sf_SetPermission :: "shelf_file \<Rightarrow> u32 \<Rightarrow> world \<Rightarrow> error_code \<times> world" where
  "sf_SetPermission sf mode w =
     (case sys_chmod (sf_path sf) (mode AND PERM_MASK) w of
        (Inr _, w) \<Rightarrow> (NO_ERROR, w)
      | (Inl _, w) \<Rightarrow> (SHELF_FILE_SET_PERM_FAILED, w))"

end
