(* ===== verification/Shelf_Manager.thy ===== *)
theory Shelf_Manager
  imports Shelf_File
begin

text \<open>
  The process-wide table of mapped shelves (\<open>src/shelf_mgmt/shelf_manager.cc\<close>) and the two
  operations of \<open>ShelfFile\<close> that use it, mapping and unmapping of a whole shelf.

  \<open>map_\<close> and \<open>reverse_map_\<close> are association lists; the reverse one is kept sorted by its key, the
  order in which \<open>std::map\<close> is traversed. The mutex is a flag; waiting for it while the process
  holds it is the fault \<open>Deadlock\<close>. An exception leaves a function with the lock as it is then,
  so the functions that can throw while they hold it return the manager beside the fault.
\<close>

type_synonym entry = "u64 \<times> u64 \<times> bool"

record manager =
  map_ids :: "(ShelfId \<times> entry) list"
  reverse_map :: "(u64 \<times> ShelfId \<times> u64 \<times> bool) list"
  locked :: bool

definition NULL :: u64 where "NULL = 0"

definition sm_Lock :: "manager \<Rightarrow> manager result" where
  "sm_Lock sm = (if locked sm then Inl Deadlock else Inr (sm\<lparr>locked := True\<rparr>))"

definition sm_Unlock :: "manager \<Rightarrow> manager" where
  "sm_Unlock sm = sm\<lparr>locked := False\<rparr>"

text \<open>Insertion into the sorted reverse map; a key that is present is kept.\<close>

fun rmap_insert :: "u64 \<Rightarrow> 'a \<Rightarrow> (u64 \<times> 'a) list \<Rightarrow> (u64 \<times> 'a) list" where
  "rmap_insert k v [] = [(k, v)]"
| "rmap_insert k v ((k', v') # m) =
     (if k < k' then (k, v) # (k', v') # m
      else if k = k' then (k', v') # m
      else (k', v') # rmap_insert k v m)"

definition UnregisterShelf :: "ShelfId \<Rightarrow> manager \<Rightarrow> (u64 \<times> manager) result" where
  "UnregisterShelf sid sm =
     (case map_of (map_ids sm) sid of
        None \<Rightarrow> Inr (NULL, sm)
      | Some (base, len, valid) \<Rightarrow>
          (let sm = sm\<lparr>map_ids := AList.delete sid (map_ids sm)\<rparr>
           in if map_of (reverse_map sm) base = None then Inl Assert_Failed
              else Inr (base, sm\<lparr>reverse_map := AList.delete base (reverse_map sm)\<rparr>)))"

definition RegisterShelf :: "ShelfId \<Rightarrow> u64 \<Rightarrow> u64 \<Rightarrow> manager \<Rightarrow> (u64 \<times> manager) result" where
  "RegisterShelf sid base len sm =
     rbind (case map_of (map_ids sm) sid of
              Some (_, _, valid) \<Rightarrow>
                if \<not> valid then rbind (UnregisterShelf sid sm) (\<lambda>(_, sm). Inr sm) else Inr sm
            | None \<Rightarrow> Inr sm)
       (\<lambda>sm. case map_of (map_ids sm) sid of
           None \<Rightarrow>
             (let sm = sm\<lparr>map_ids := (sid, base, len, True) # map_ids sm\<rparr>
              in if map_of (reverse_map sm) base \<noteq> None then Inl Assert_Failed
                 else Inr (base, sm\<lparr>reverse_map := rmap_insert base (sid, len, True) (reverse_map sm)\<rparr>))
         | Some (base', len', _) \<Rightarrow> if len' = len then Inr (base', sm) else Inl Assert_Failed)"

definition LookupShelf :: "ShelfId \<Rightarrow> manager \<Rightarrow> u64" where
  "LookupShelf sid sm =
     (case map_of (map_ids sm) sid of
        None \<Rightarrow> NULL
      | Some (base, _, valid) \<Rightarrow> if \<not> valid then NULL else base)"

definition FindBase :: "ShelfId \<Rightarrow> manager \<Rightarrow> u64" where
  "FindBase sid sm = LookupShelf sid sm"

text \<open>\<open>FindShelf\<close> also returns the variable \<open>base\<close> its caller passed by reference: each round of
  the loop assigns it.\<close>

fun find_shelf_loop :: "(u64 \<times> ShelfId \<times> u64 \<times> bool) list \<Rightarrow> u64 \<Rightarrow> u64 \<Rightarrow> ShelfId \<times> u64" where
  "find_shelf_loop [] ptr base = (kInvalidShelfId, base)"
| "find_shelf_loop ((b, sid, len, valid) # m) ptr base =
     (if b \<le> ptr \<and> ptr < b + len then (if \<not> valid then kInvalidShelfId else sid, b)
      else find_shelf_loop m ptr b)"

definition FindShelf :: "u64 \<Rightarrow> u64 \<Rightarrow> manager \<Rightarrow> ShelfId \<times> u64" where
  "FindShelf ptr base sm = find_shelf_loop (reverse_map sm) ptr base"

definition MarkInvalid :: "ShelfId \<Rightarrow> manager \<Rightarrow> error_code \<times> manager" where
  "MarkInvalid sid sm =
     (case map_of (map_ids sm) sid of
        Some (base, len, True) \<Rightarrow>
          (let sm = sm\<lparr>map_ids := AList.update sid (base, len, False) (map_ids sm)\<rparr>
           in case map_of (reverse_map sm) base of
                Some (s, l, True) \<Rightarrow>
                  (NO_ERROR, sm\<lparr>reverse_map := AList.update base (s, l, False) (reverse_map sm)\<rparr>)
              | _ \<Rightarrow> (NO_ERROR, sm))
      | _ \<Rightarrow> (SHELF_ID_NOT_FOUND, sm))"

definition IsInvalid :: "ShelfId \<Rightarrow> manager \<Rightarrow> bool" where
  "IsInvalid sid sm = (case map_of (map_ids sm) sid of Some (_, _, valid) \<Rightarrow> \<not> valid | None \<Rightarrow> False)"

fun unmap_all :: "(ShelfId \<times> entry) list \<Rightarrow> world \<Rightarrow> world" where
  "unmap_all [] w = w"
| "unmap_all ((_, base, len, _) # m) w = unmap_all m (snd (sf_Unmap_range base len w))"

definition sm_Reset :: "manager \<Rightarrow> world \<Rightarrow> manager \<times> world" where
  "sm_Reset sm w = (sm\<lparr>map_ids := [], reverse_map := []\<rparr>, unmap_all (map_ids sm) w)"

section \<open>Mapping whole shelves\<close>

text \<open>\<open>FindBase(path, id)\<close> maps and registers the shelf when it is not mapped yet. The size is
  asked of a file that is not open, which throws when it does not exist; the lock is still held
  then.\<close>

definition FindBase_path :: "string \<Rightarrow> ShelfId \<Rightarrow> manager \<Rightarrow> world \<Rightarrow> u64 result \<times> manager \<times> world" where
  "FindBase_path path sid sm w =
     (case sm_Lock sm of
        Inl e \<Rightarrow> (Inl e, sm, w)
      | Inr sm \<Rightarrow>
          (case map_of (map_ids sm) sid of
             Some (base, _, valid) \<Rightarrow> (Inr (if valid then base else NULL), sm_Unlock sm, w)
           | None \<Rightarrow>
               (let shelf = ShelfFile path
                in case sf_Size shelf w of
                     Inl e \<Rightarrow> (Inl e, sm, w\<lparr>calls := Suc (calls w)\<rparr>)
                   | Inr (len, w) \<Rightarrow>
                       (case sf_Open shelf w of (ret, shelf, w) \<Rightarrow>
                          if ret \<noteq> NO_ERROR then (Inr NULL, sm_Unlock sm, w)
                          else case sf_Map_range shelf len True w of (ret, addr, w) \<Rightarrow>
                                 (case addr of
                                    Some addr \<Rightarrow>
                                      if ret = NO_ERROR
                                      then (case RegisterShelf sid addr len sm of
                                              Inl e \<Rightarrow> (Inl e, sm, w)
                                            | Inr (actual_addr, sm') \<Rightarrow>
                                                if actual_addr \<noteq> addr then (Inl Assert_Failed, sm', w)
                                                else (case sf_Close shelf w of (_, _, w) \<Rightarrow>
                                                        (Inr addr, sm_Unlock sm', w)))
                                      else (case sf_Close shelf w of (_, _, w) \<Rightarrow> (Inr NULL, sm_Unlock sm, w))
                                  | None \<Rightarrow> (case sf_Close shelf w of (_, _, w) \<Rightarrow> (Inr NULL, sm_Unlock sm, w)))))))"

text \<open>\<open>ShelfFile::Map(hint, addr)\<close> and \<open>ShelfFile::Unmap(addr, unregister)\<close>. The result of the
  first is the error code and the value stored through \<open>mapped_addr\<close>, if any.\<close>

definition sf_Map :: "shelf_file \<Rightarrow> manager \<Rightarrow> world \<Rightarrow> (error_code \<times> u64 option \<times> manager \<times> world) result" where
  "sf_Map sf sm w =
     (if \<not> sf_IsOpen sf then Inr (SHELF_FILE_CLOSED, None, sm, w)
      else if \<not> shelf_id_IsValid (sf_id sf) then Inl Assert_Failed
      else rbind (sm_Lock sm) (\<lambda>sm.
        let addr = LookupShelf (sf_id sf) sm
        in if addr \<noteq> NULL then Inr (NO_ERROR, Some addr, sm_Unlock sm, w)
           else rbind (sf_Size sf w) (\<lambda>(len, w).
             case sf_Map_range sf len True w of (ret, addr, w) \<Rightarrow>
               (case addr of
                  Some addr \<Rightarrow>
                    if ret = NO_ERROR
                    then rbind (RegisterShelf (sf_id sf) addr len sm) (\<lambda>(actual_addr, sm).
                           if actual_addr \<noteq> addr then Inl Assert_Failed
                           else Inr (NO_ERROR, Some actual_addr, sm_Unlock sm, w))
                    else Inr (SHELF_FILE_MAP_FAILED, None, sm_Unlock sm, w)
                | None \<Rightarrow> Inr (SHELF_FILE_MAP_FAILED, None, sm_Unlock sm, w)))))"

definition sf_Unmap :: "shelf_file \<Rightarrow> u64 \<Rightarrow> bool \<Rightarrow> manager \<Rightarrow> world \<Rightarrow> (error_code \<times> manager \<times> world) result" where
  "sf_Unmap sf mapped_addr unregister sm w =
     (if \<not> shelf_id_IsValid (sf_id sf) then Inl Assert_Failed
      else rbind (sm_Lock sm) (\<lambda>sm.
        if LookupShelf (sf_id sf) sm \<noteq> mapped_addr then Inl Assert_Failed
        else if unregister
        then rbind (UnregisterShelf (sf_id sf) sm) (\<lambda>(addr, sm).
               if addr \<noteq> mapped_addr then Inl Assert_Failed
               else let sm = sm_Unlock sm
                    in rbind (sf_Size sf w) (\<lambda>(len, w).
                         case sf_Unmap_range mapped_addr len w of (ret, w) \<Rightarrow> Inr (ret, sm, w)))
        else Inr (NO_ERROR, sm_Unlock sm, w)))"

definition sf_MarkInvalid :: "shelf_file \<Rightarrow> manager \<Rightarrow> error_code \<times> manager" where
  "sf_MarkInvalid sf sm = MarkInvalid (sf_id sf) sm"

definition sf_IsInvalid :: "shelf_file \<Rightarrow> manager \<Rightarrow> bool" where
  "sf_IsInvalid sf sm = IsInvalid (sf_id sf) sm"

end
