(* ===== verification/Shelf_Manager_Props.thy ===== *)
theory Shelf_Manager_Props
  imports Shelf_Manager
begin

text \<open>
  The invariant of the shelf manager (its two maps are inverse to each other, the mapped regions
  are disjoint), what each operation does to the abstract map from shelf ids to mappings, and
  that \<open>FindShelf\<close> inverts \<open>FindBase\<close>.
\<close>

section \<open>Association lists\<close>

definition region_before :: "u64 \<times> ShelfId \<times> u64 \<times> bool \<Rightarrow> u64 \<times> ShelfId \<times> u64 \<times> bool \<Rightarrow> bool" where
  "region_before x y \<longleftrightarrow> fst x < fst y \<and> unat (fst x) + unat (fst (snd (snd x))) \<le> unat (fst y)"

definition separated :: "(u64 \<times> ShelfId \<times> u64 \<times> bool) list \<Rightarrow> bool" where
  "separated rm \<longleftrightarrow> sorted_wrt region_before rm \<and>
     (\<forall>(b, _, len, _) \<in> set rm. b \<noteq> 0 \<and> unat b + unat len < 2 ^ 64)"

text \<open>A region that overlaps none of the mapped ones, as \<open>mmap\<close> returns it.\<close>

definition fresh_region :: "u64 \<Rightarrow> u64 \<Rightarrow> manager \<Rightarrow> bool" where
  "fresh_region b len sm \<longleftrightarrow> b \<noteq> 0 \<and> unat b + unat len < 2 ^ 64 \<and>
     (\<forall>(b', _, len', _) \<in> set (reverse_map sm). b \<noteq> b' \<and>
        (unat b + unat len \<le> unat b' \<or> unat b' + unat len' \<le> unat b))"

lemma separated_distinct: "separated rm \<Longrightarrow> distinct (map fst rm)"
  unfolding separated_def
  by (induction rm) (auto simp: region_before_def)

lemma set_rmap_insert: "k \<notin> fst ` set m \<Longrightarrow> set (rmap_insert k v m) = insert (k, v) (set m)"
  by (induction k v m rule: rmap_insert.induct) auto

lemma map_of_rmap_insert: "k \<notin> fst ` set m \<Longrightarrow> map_of (rmap_insert k v m) = (map_of m)(k \<mapsto> v)"
  by (induction k v m rule: rmap_insert.induct) auto

lemma separated_insert:
  assumes "separated rm" "b \<noteq> 0" "unat b + unat len < 2 ^ 64"
    "\<forall>(b', _, len', _) \<in> set rm. b \<noteq> b' \<and> (unat b + unat len \<le> unat b' \<or> unat b' + unat len' \<le> unat b)"
  shows "separated (rmap_insert b (sid, len, v) rm)"
proof -
  have nk: "b \<notin> fst ` set rm" using assms(4) by fastforce
  have "sorted_wrt region_before (rmap_insert b (sid, len, v) rm)"
    using assms(1,4) nk
  proof (induction b "(sid, len, v)" rm rule: rmap_insert.induct)
    case (2 b b' v' m)
    from 2(3) have b': "unat b + unat len \<le> unat b' \<or> unat b' + unat (fst (snd v')) \<le> unat b" "b \<noteq> b'"
      by (auto simp: case_prod_beta)
    have srt: "sorted_wrt region_before m" "\<forall>y \<in> set m. region_before (b', v') y" "separated m"
      using 2(2) by (auto simp: separated_def)
    show ?case
    proof (cases "b < b'")
      case True
      then have "unat b + unat len \<le> unat b'" using b' by (auto simp: word_less_nat_alt)
      with True srt show ?thesis
        using 2(2) by (fastforce simp: region_before_def separated_def word_less_nat_alt)
    next
      case False
      then have "region_before (b', v') (b, sid, len, v)"
        using b' by (auto simp: region_before_def word_less_nat_alt not_less word_le_nat_alt order_le_less word_unat_eq_iff)
      moreover have "b \<notin> fst ` set m" using 2(4) by simp
      moreover from this have "sorted_wrt region_before (rmap_insert b (sid, len, v) m)"
        using 2(1) [OF False _ srt(3)] 2(3,4) b'(2) by auto
      ultimately show ?thesis using False b'(2) srt(2) by (auto simp: set_rmap_insert)
    qed
  qed simp
  then show ?thesis using assms(1-3) by (simp add: separated_def set_rmap_insert [OF nk])
qed

lemma separated_delete: "separated rm \<Longrightarrow> separated (AList.delete k rm)"
  by (auto simp: separated_def AList.delete_eq intro: sorted_wrt_filter)

lemma separated_flag:
  assumes "separated rm" "map_of rm b = Some (s, l, v)"
  shows "separated (AList.update b (s, l, v') rm)"
proof -
  have "sorted_wrt region_before (AList.update b (s, l, v') rm) \<and>
    (\<forall>(b, _, len, _) \<in> set (AList.update b (s, l, v') rm). b \<noteq> 0 \<and> unat b + unat len < 2 ^ 64) \<and>
    (\<forall>y. (\<forall>x \<in> set rm. region_before y x) \<longrightarrow> (\<forall>x \<in> set (AList.update b (s, l, v') rm). region_before y x))"
    using assms
  proof (induction rm)
    case (Cons e rm)
    obtain b' e' where e: "e = (b', e')" by (cases e)
    show ?case
    proof (cases "b' = b")
      case True
      then have "region_before (b, s, l, v') = region_before e"
        using Cons.prems(2) e by (intro ext) (simp add: region_before_def)
      moreover from this have "region_before y (b, s, l, v') = region_before y e" for y
        using True Cons.prems(2) e by (simp add: region_before_def)
      ultimately show ?thesis using Cons.prems e True by (auto simp: separated_def)
    next
      case False
      with Cons.prems e have "map_of rm b = Some (s, l, v)" "separated rm"
        "\<forall>x \<in> set rm. region_before e x" by (auto simp: separated_def)
      with Cons.IH False e Cons.prems(1) show ?thesis by (auto simp: separated_def)
    qed
  qed simp
  then show ?thesis by (simp add: separated_def)
qed

section \<open>The invariant\<close>

definition mgr_inv :: "manager \<Rightarrow> bool" where
  "mgr_inv sm \<longleftrightarrow> distinct (map fst (map_ids sm)) \<and> separated (reverse_map sm) \<and>
     (\<forall>sid b len v. map_of (map_ids sm) sid = Some (b, len, v) \<longleftrightarrow> map_of (reverse_map sm) b = Some (sid, len, v))"

lemma mgr_invD:
  assumes "mgr_inv sm"
  shows "distinct (map fst (map_ids sm))" "separated (reverse_map sm)"
    "map_of (map_ids sm) sid = Some (b, len, v) \<longleftrightarrow> map_of (reverse_map sm) b = Some (sid, len, v)"
  using assms by (auto simp: mgr_inv_def)

lemma mapped_region:
  assumes "mgr_inv sm" "map_of (map_ids sm) sid = Some (b, len, v)"
  shows "b \<noteq> 0" "unat b + unat len < 2 ^ 64" "(b, sid, len, v) \<in> set (reverse_map sm)"
proof -
  have "map_of (reverse_map sm) b = Some (sid, len, v)" using mgr_invD(3) [OF assms(1)] assms(2) by blast
  then show m: "(b, sid, len, v) \<in> set (reverse_map sm)" by (rule map_of_SomeD)
  then show "b \<noteq> 0" "unat b + unat len < 2 ^ 64"
    using mgr_invD(2) [OF assms(1)] by (auto simp: separated_def)
qed

lemma unregister_spec:
  assumes "mgr_inv sm"
  shows "\<exists>sm'. UnregisterShelf sid sm =
      Inr (case map_of (map_ids sm) sid of None \<Rightarrow> NULL | Some (b, _, _) \<Rightarrow> b, sm') \<and>
    mgr_inv sm' \<and> map_of (map_ids sm') = (map_of (map_ids sm))(sid := None) \<and> locked sm' = locked sm \<and>
    set (reverse_map sm') \<subseteq> set (reverse_map sm)"
proof (cases "map_of (map_ids sm) sid")
  case None
  then have "(map_of (map_ids sm))(sid := None) = map_of (map_ids sm)" by auto
  with None assms show ?thesis by (simp add: UnregisterShelf_def)
next
  case (Some e)
  obtain b len v where e: "e = (b, len, v)" by (cases e)
  note I = mgr_invD [OF assms]
  have rb: "map_of (reverse_map sm) b = Some (sid, len, v)" using I(3) Some e by blast
  let ?sm = "sm\<lparr>map_ids := AList.delete sid (map_ids sm), reverse_map := AList.delete b (reverse_map sm)\<rparr>"
  have ids: "map_of (AList.delete sid (map_ids sm)) = (map_of (map_ids sm))(sid := None)"
    by (simp add: AList.delete_conv')
  have rev: "map_of (AList.delete b (reverse_map sm)) = (map_of (reverse_map sm))(b := None)"
    by (simp add: AList.delete_conv')
  have "((map_of (map_ids sm))(sid := None)) s = Some (b', l', v') \<longleftrightarrow>
      ((map_of (reverse_map sm))(b := None)) b' = Some (s, l', v')" for s b' l' v'
    using I(3) [of s b' l' v'] I(3) [of sid b' l' v'] rb Some e by (cases "s = sid"; cases "b' = b") auto
  then have "mgr_inv ?sm"
    using I(1,2) by (simp add: mgr_inv_def ids rev separated_delete AList.distinct_delete)
  moreover have "set (reverse_map ?sm) \<subseteq> set (reverse_map sm)" by (auto simp: AList.delete_eq)
  ultimately show ?thesis using Some e rb ids
    by (intro exI [of _ ?sm]) (simp add: UnregisterShelf_def Let_def)
qed

lemma insert_fresh:
  assumes "mgr_inv sm" "map_of (map_ids sm) sid = None" "fresh_region b len sm"
  shows "map_of (reverse_map sm) b = None"
    "mgr_inv (sm\<lparr>map_ids := (sid, b, len, True) # map_ids sm,
       reverse_map := rmap_insert b (sid, len, True) (reverse_map sm)\<rparr>)" (is "mgr_inv ?sm")
proof -
  note I = mgr_invD [OF assms(1)]
  have nk: "b \<notin> fst ` set (reverse_map sm)" using assms(3) by (fastforce simp: fresh_region_def)
  then show nb: "map_of (reverse_map sm) b = None" by (simp add: map_of_eq_None_iff)
  have "separated (reverse_map ?sm)"
    using separated_insert I(2) assms(3) by (simp add: fresh_region_def)
  moreover have "map_of (map_ids ?sm) s = Some (b', l', v') \<longleftrightarrow> map_of (reverse_map ?sm) b' = Some (s, l', v')" for s b' l' v'
    using I(3) [of s b' l' v'] assms(2) nb by (auto simp: map_of_rmap_insert [OF nk])
  moreover have "distinct (map fst (map_ids ?sm))"
    using I(1) assms(2) by (simp add: map_of_eq_None_iff)
  ultimately show "mgr_inv ?sm" unfolding mgr_inv_def by blast
qed

lemma fresh_region_mono:
  "fresh_region b len sm \<Longrightarrow> set (reverse_map sm') \<subseteq> set (reverse_map sm) \<Longrightarrow> fresh_region b len sm'"
  by (auto simp: fresh_region_def)

lemma register_spec:
  assumes "mgr_inv sm" "LookupShelf sid sm = NULL" "fresh_region b len sm"
  shows "\<exists>sm'. RegisterShelf sid b len sm = Inr (b, sm') \<and> mgr_inv sm' \<and> locked sm' = locked sm \<and>
    map_of (map_ids sm') = (map_of (map_ids sm))(sid \<mapsto> (b, len, True))"
proof (cases "map_of (map_ids sm) sid")
  case None
  with insert_fresh [OF assms(1) None assms(3)] show ?thesis
    by (simp add: RegisterShelf_def Let_def)
next
  case (Some e)
  obtain b0 l0 v0 where e: "e = (b0, l0, v0)" by (cases e)
  have v0: "\<not> v0" using assms(2) Some e mapped_region(1) [OF assms(1)] by (auto simp: LookupShelf_def NULL_def split: if_splits)
  from unregister_spec [OF assms(1), of sid] obtain sm1 where sm1:
    "UnregisterShelf sid sm = Inr (b0, sm1)" "mgr_inv sm1" "locked sm1 = locked sm"
    "map_of (map_ids sm1) = (map_of (map_ids sm))(sid := None)" "set (reverse_map sm1) \<subseteq> set (reverse_map sm)"
    using Some e by auto
  have n: "map_of (map_ids sm1) sid = None" by (simp add: sm1(4))
  from insert_fresh [OF sm1(2) n fresh_region_mono [OF assms(3) sm1(5)]] show ?thesis
    using Some e v0 sm1 n by (simp add: RegisterShelf_def Let_def)
qed

lemma invalidate_spec:
  assumes "mgr_inv sm" "map_of (map_ids sm) sid = Some (b, len, True)"
  shows "\<exists>sm'. MarkInvalid sid sm = (NO_ERROR, sm') \<and> mgr_inv sm' \<and> locked sm' = locked sm \<and>
    map_of (map_ids sm') = (map_of (map_ids sm))(sid \<mapsto> (b, len, False))"
proof -
  note I = mgr_invD [OF assms(1)]
  have rb: "map_of (reverse_map sm) b = Some (sid, len, True)" using I(3) assms(2) by blast
  let ?sm = "sm\<lparr>map_ids := AList.update sid (b, len, False) (map_ids sm),
    reverse_map := AList.update b (sid, len, False) (reverse_map sm)\<rparr>"
  have "map_of (map_ids ?sm) s = Some (b', l', v') \<longleftrightarrow> map_of (reverse_map ?sm) b' = Some (s, l', v')" for s b' l' v'
    using I(3) [of s b' l' v'] I(3) [of sid b' l' v'] I(3) [of s b l' v'] assms(2) rb
    by (auto simp: AList.update_conv')
  moreover have "separated (reverse_map ?sm)" using separated_flag [OF I(2) rb] by simp
  moreover have "distinct (map fst (map_ids ?sm))" using I(1) by (simp add: AList.distinct_update)
  ultimately have "mgr_inv ?sm" unfolding mgr_inv_def by blast
  then show ?thesis using assms(2) rb
    by (intro exI [of _ ?sm]) (simp add: MarkInvalid_def Let_def AList.update_conv')
qed

lemma find_loop_hit:
  assumes "separated rm" "(b, sid, len, v) \<in> set rm" "b \<le> ptr" "ptr < b + len"
  shows "find_shelf_loop rm ptr x = (if v then sid else kInvalidShelfId, b)"
  using assms
proof (induction rm arbitrary: x)
  case (Cons e rm)
  obtain b' sid' len' v' where e: "e = (b', sid', len', v')" by (cases e)
  have bound: "unat b + unat len < 2 ^ 64" "unat b' + unat len' < 2 ^ 64"
    using Cons.prems(1,2) e by (auto simp: separated_def)
  then have add: "unat (b + len) = unat b + unat len" "unat (b' + len') = unat b' + unat len'"
    by (simp_all add: unat_add_small)
  show ?case
  proof (cases "e = (b, sid, len, v)")
    case True
    with Cons.prems(3,4) show ?thesis by simp
  next
    case False
    with Cons.prems(2) have m: "(b, sid, len, v) \<in> set rm" by simp
    then have "region_before e (b, sid, len, v)" using Cons.prems(1) by (auto simp: separated_def)
    then have "\<not> (b' \<le> ptr \<and> ptr < b' + len')"
      using Cons.prems(3) add e by (auto simp: region_before_def word_less_nat_alt word_le_nat_alt)
    moreover have "separated rm" using Cons.prems(1) by (auto simp: separated_def)
    ultimately show ?thesis using Cons.IH [OF _ m Cons.prems(3,4)] by (simp only: e find_shelf_loop.simps if_False)
  qed
qed simp

lemma find_loop_result:
  assumes "find_shelf_loop rm ptr x = (sid, b)" "sid \<noteq> kInvalidShelfId"
  shows "\<exists>len. (b, sid, len, True) \<in> set rm \<and> b \<le> ptr \<and> ptr < b + len"
  using assms
proof (induction rm ptr x rule: find_shelf_loop.induct)
  case (2 b' s len v m ptr x)
  then show ?case by (cases "b' \<le> ptr \<and> ptr < b' + len") (auto split: if_splits)
qed simp

section \<open>Properties\<close>

text \<open>C12: the shelf manager implements a partial map from shelf ids to mappings, and keeps its
  two tables inverse to each other and its regions disjoint: registering a new mapping binds the
  id (also when an invalidated one has to be replaced), unregistering unbinds it, invalidating
  keeps the binding with the flag cleared; no assertion fails on the way.\<close>

theorem shelf_manager_refines_map:
  assumes "mgr_inv sm"
  shows "(\<forall>sid b len. LookupShelf sid sm = NULL \<and> fresh_region b len sm \<longrightarrow>
      (\<exists>sm'. RegisterShelf sid b len sm = Inr (b, sm') \<and> mgr_inv sm' \<and>
        map_of (map_ids sm') = (map_of (map_ids sm))(sid \<mapsto> (b, len, True)))) \<and>
    (\<forall>sid. \<exists>b sm'. UnregisterShelf sid sm = Inr (b, sm') \<and> mgr_inv sm' \<and>
        map_of (map_ids sm') = (map_of (map_ids sm))(sid := None)) \<and>
    (\<forall>sid b len. map_of (map_ids sm) sid = Some (b, len, True) \<longrightarrow>
      (\<exists>sm'. MarkInvalid sid sm = (NO_ERROR, sm') \<and> mgr_inv sm' \<and> IsInvalid sid sm' \<and>
        LookupShelf sid sm' = NULL \<and> map_of (map_ids sm') = (map_of (map_ids sm))(sid \<mapsto> (b, len, False))))"
proof (intro conjI allI impI)
  fix sid b len
  assume "LookupShelf sid sm = NULL \<and> fresh_region b len sm"
  with register_spec [OF assms] show "\<exists>sm'. RegisterShelf sid b len sm = Inr (b, sm') \<and> mgr_inv sm' \<and>
      map_of (map_ids sm') = (map_of (map_ids sm))(sid \<mapsto> (b, len, True))" by blast
next
  fix sid
  show "\<exists>b sm'. UnregisterShelf sid sm = Inr (b, sm') \<and> mgr_inv sm' \<and>
      map_of (map_ids sm') = (map_of (map_ids sm))(sid := None)"
    using unregister_spec [OF assms] by blast
next
  fix sid b len
  assume "map_of (map_ids sm) sid = Some (b, len, True)"
  from invalidate_spec [OF assms this] show "\<exists>sm'. MarkInvalid sid sm = (NO_ERROR, sm') \<and> mgr_inv sm' \<and>
      IsInvalid sid sm' \<and> LookupShelf sid sm' = NULL \<and>
      map_of (map_ids sm') = (map_of (map_ids sm))(sid \<mapsto> (b, len, False))"
    by (fastforce simp: IsInvalid_def LookupShelf_def)
qed

definition no_shelves :: manager where
  "no_shelves = \<lparr>map_ids = [], reverse_map = [], locked = False\<rparr>"

lemma no_shelves_inv: "mgr_inv no_shelves"
  by (simp add: mgr_inv_def separated_def no_shelves_def)

lemma shelf_manager_refines_map_witness:
  "\<exists>sm'. RegisterShelf 769 4096 8192 no_shelves = Inr (4096, sm') \<and> mgr_inv sm' \<and>
     map_of (map_ids sm') = [769 \<mapsto> (4096, 8192, True)]"
  using shelf_manager_refines_map [OF no_shelves_inv]
  by (simp add: no_shelves_def LookupShelf_def fresh_region_def)

text \<open>C25: \<open>FindShelf\<close> inverts \<open>FindBase\<close>: a pointer lies in a mapped, valid shelf exactly
  when \<open>FindShelf\<close> names that shelf, with the base that \<open>FindBase\<close> gives for it. So global
  pointers can be recovered from local ones.\<close>

theorem FindShelf_inverts_FindBase:
  assumes "mgr_inv sm" "sid \<noteq> kInvalidShelfId"
  shows "FindShelf ptr x sm = (sid, b) \<longleftrightarrow>
    (\<exists>len. map_of (map_ids sm) sid = Some (b, len, True) \<and> FindBase sid sm = b \<and> b \<le> ptr \<and> ptr < b + len)"
proof
  assume "FindShelf ptr x sm = (sid, b)"
  from find_loop_result [OF this [unfolded FindShelf_def] assms(2)] obtain len where
    m: "(b, sid, len, True) \<in> set (reverse_map sm)" and r: "b \<le> ptr" "ptr < b + len" by blast
  have "map_of (reverse_map sm) b = Some (sid, len, True)"
    using m separated_distinct [OF mgr_invD(2) [OF assms(1)]] by simp
  then have "map_of (map_ids sm) sid = Some (b, len, True)" using mgr_invD(3) [OF assms(1)] by blast
  with r show "\<exists>len. map_of (map_ids sm) sid = Some (b, len, True) \<and> FindBase sid sm = b \<and> b \<le> ptr \<and> ptr < b + len"
    by (auto simp: FindBase_def LookupShelf_def)
next
  assume "\<exists>len. map_of (map_ids sm) sid = Some (b, len, True) \<and> FindBase sid sm = b \<and> b \<le> ptr \<and> ptr < b + len"
  then obtain len where m: "map_of (map_ids sm) sid = Some (b, len, True)" and r: "b \<le> ptr" "ptr < b + len" by blast
  from find_loop_hit [OF mgr_invD(2) [OF assms(1)] mapped_region(3) [OF assms(1) m] r]
  show "FindShelf ptr x sm = (sid, b)" by (simp add: FindShelf_def)
qed

definition one_shelf :: manager where
  "one_shelf = \<lparr>map_ids = [(769, 4096, 8192, True)], reverse_map = [(4096, 769, 8192, True)], locked = False\<rparr>"

lemma one_shelf_inv: "mgr_inv one_shelf"
  by (auto simp: mgr_inv_def separated_def one_shelf_def)

lemma FindShelf_inverts_FindBase_witness:
  "FindShelf 5000 0 one_shelf = (769, 4096)"
  using FindShelf_inverts_FindBase [OF one_shelf_inv, of 769 5000 0 4096]
  by (simp add: one_shelf_def FindBase_def LookupShelf_def kInvalidShelfId_def)

text \<open>mapping a shelf and unmapping it again with \<open>unregister\<close> gives back the manager's map;
  in between a second \<open>Map\<close> of the same shelf returns the same address without a new mapping.
  Both release the lock.\<close>

theorem map_unmap_roundtrip:
  assumes inv: "mgr_inv sm" "\<not> locked sm" and id: "shelf_id_IsValid (sf_id sf)" "map_of (map_ids sm) (sf_id sf) = None"
    and fd: "sf_fd sf = Some n" and quiet: "\<forall>k. fails (env w) k = None"
    and fresh: "fresh_region (place (env w) (Suc (Suc (calls w)))) (i_size (inodes w n)) sm"
  shows "\<exists>addr sm1 w1 sm2 w2. sf_Map sf sm w = Inr (NO_ERROR, Some addr, sm1, w1) \<and> mgr_inv sm1 \<and>
    FindBase (sf_id sf) sm1 = addr \<and> sf_Map sf sm1 w1 = Inr (NO_ERROR, Some addr, sm1, w1) \<and>
    sf_Unmap sf addr True sm1 w1 = Inr (NO_ERROR, sm2, w2) \<and> mgr_inv sm2 \<and> \<not> locked sm2 \<and>
    map_of (map_ids sm2) = map_of (map_ids sm)"
proof -
  let ?b = "place (env w) (Suc (Suc (calls w)))" and ?len = "i_size (inodes w n)"
  let ?w = "w\<lparr>calls := Suc (Suc (calls w))\<rparr>"
  have L: "LookupShelf (sf_id sf) sm = NULL" using id(2) by (simp add: LookupShelf_def)
  have b0: "?b \<noteq> NULL" using fresh by (simp add: fresh_region_def NULL_def)
  have lk: "mgr_inv (sm\<lparr>locked := v\<rparr>) = mgr_inv sm" for sm v by (simp add: mgr_inv_def)
  have inv': "mgr_inv (sm\<lparr>locked := True\<rparr>)" "LookupShelf (sf_id sf) (sm\<lparr>locked := True\<rparr>) = NULL"
    "fresh_region ?b ?len (sm\<lparr>locked := True\<rparr>)"
    using inv(1) L fresh by (simp_all add: lk LookupShelf_def fresh_region_def)
  from register_spec [OF inv'] obtain sm1 where sm1:
    "RegisterShelf (sf_id sf) ?b ?len (sm\<lparr>locked := True\<rparr>) = Inr (?b, sm1)" "mgr_inv sm1" "locked sm1"
    "map_of (map_ids sm1) = (map_of (map_ids sm))(sf_id sf \<mapsto> (?b, ?len, True))" by auto
  have m: "sf_Map sf sm w = Inr (NO_ERROR, Some ?b, sm1\<lparr>locked := False\<rparr>, ?w)"
    using inv(2) id fd quiet inv'(2) sm1(1)
    by (simp add: sf_Map_def sf_IsOpen_def sm_Lock_def sm_Unlock_def sf_Size_def sf_Map_range_def sys_fstat_def
        sys_mmap_def sys_call_def fam_atomic_register_region_def Let_def)
  have L1: "LookupShelf (sf_id sf) (sm1\<lparr>locked := v\<rparr>) = ?b" for v using sm1(4) by (simp add: LookupShelf_def)
  have again: "sf_Map sf (sm1\<lparr>locked := False\<rparr>) ?w = Inr (NO_ERROR, Some ?b, sm1\<lparr>locked := False\<rparr>, ?w)"
    using id fd b0 by (simp add: sf_Map_def sf_IsOpen_def sm_Lock_def sm_Unlock_def L1 Let_def)
  have "mgr_inv (sm1\<lparr>locked := True\<rparr>)" using sm1(2) by (simp add: lk)
  from unregister_spec [OF this, of "sf_id sf"] obtain sm2 where sm2:
    "UnregisterShelf (sf_id sf) (sm1\<lparr>locked := True\<rparr>) = Inr (?b, sm2)" "mgr_inv sm2"
    "map_of (map_ids sm2) = map_of (map_ids sm)"
    using sm1(4) id(2) by (auto simp: fun_upd_idem)
  have u: "sf_Unmap sf ?b True (sm1\<lparr>locked := False\<rparr>) ?w =
      Inr (NO_ERROR, sm2\<lparr>locked := False\<rparr>, w\<lparr>calls := Suc (Suc (Suc (Suc (calls w))))\<rparr>)"
    using id fd quiet sm2(1)
    by (simp add: sf_Unmap_def sm_Lock_def sm_Unlock_def L1 sf_Size_def sf_Unmap_range_def sys_fstat_def sys_munmap_def
        sys_call_def Let_def)
  show ?thesis
    using m again u sm1(2) sm2(2,3) L1 by (auto simp: lk FindBase_def)
qed

text \<open>\<open>FindBase(path, id)\<close> of a shelf that is not mapped and has no file throws while it holds
  the manager's mutex; the next operation that takes the mutex never returns.\<close>

theorem FindBase_path_leaves_lock:
  assumes "\<not> locked sm" "map_of (map_ids sm) sid = None" "lookup w path = None"
  shows "\<exists>sm' w'. FindBase_path path sid sm w = (Inl Runtime_Error, sm', w') \<and> locked sm' \<and>
    (\<forall>p s w. FindBase_path p s sm' w = (Inl Deadlock, sm', w))"
  using assms
  by (auto simp: FindBase_path_def sm_Lock_def sf_Size_def ShelfFile_def sys_stat_def sys_call_def lookup_def
      Let_def split: option.splits)

lemma FindBase_path_leaves_lock_witness:
  "\<exists>sm' w'. FindBase_path ''/s_1_2_1'' 258 no_shelves empty_world = (Inl Runtime_Error, sm', w') \<and> locked sm'"
  using FindBase_path_leaves_lock [of no_shelves 258 empty_world "''/s_1_2_1''"]
  by (auto simp: no_shelves_def empty_world_def lookup_def)

lemma map_unmap_roundtrip_witness:
  "\<exists>addr sm1 w1 sm2 w2.
    sf_Map \<lparr>sf_fd = Some 3, sf_path = ''/s'', sf_id = 258\<rparr> no_shelves empty_world = Inr (NO_ERROR, Some addr, sm1, w1) \<and>
    sf_Unmap \<lparr>sf_fd = Some 3, sf_path = ''/s'', sf_id = 258\<rparr> addr True sm1 w1 = Inr (NO_ERROR, sm2, w2) \<and>
    map_of (map_ids sm2) = map_of (map_ids no_shelves)"
proof -
  let ?sf = "\<lparr>sf_fd = Some 3, sf_path = ''/s'', sf_id = 258\<rparr>"
  have "shelf_id_IsValid (sf_id ?sf)" by code_simp
  moreover have "map_of (map_ids no_shelves) (sf_id ?sf) = None" "\<not> locked no_shelves" by (simp_all add: no_shelves_def)
  moreover have "\<forall>k. fails (env empty_world) k = None" by (simp add: empty_world_def quiet_env_def)
  moreover have "fresh_region (place (env empty_world) (Suc (Suc (calls empty_world)))) (i_size (inodes empty_world 3)) no_shelves"
    by (simp add: fresh_region_def no_shelves_def empty_world_def quiet_env_def)
  ultimately show ?thesis
    using map_unmap_roundtrip [OF no_shelves_inv, of ?sf 3 empty_world] by auto
qed

end
