(* ===== verification/Pool.thy ===== *)
theory Pool
  imports Shelf_File
begin

text \<open>
  Pools of shelves (\<open>src/shelf_mgmt/pool.cc\<close>): the metadata file with the shelf size and the
  membership table, opening and closing, adding and removing shelf files under versioned names,
  and recovery. A \<open>pool\<close> is the object of one process; the table it works on is the contents
  of the metadata file's inode in the \<open>world\<close>.

  \<open>AddShelf\<close> retries random names and slots in loops that need not end when other processes
  interfere or the random device repeats itself; it is a \<open>partial_function\<close> whose value
  \<open>None\<close> is not returning.
\<close>

section \<open>State\<close>

type_synonym mode_t = u32

text \<open>\<open>p_addr\<close>: the address of the mapped metadata shelf and the inode behind it (\<open>None\<close> for
  \<open>NULL\<close>).\<close>

record pool =
  p_base :: string
  p_prefix :: string
  p_id :: PoolId
  p_is_open :: bool
  p_meta :: shelf_file
  p_addr :: "(u64 \<times> nat) option"
  p_size :: u64
  p_shelf_size :: u64
  p_ms :: "membership option"

definition kShelfSize :: u64 where "kShelfSize = 128 * 1024 * 1024"
definition kMetadataShelfSize :: u64 where "kMetadataShelfSize = 128 * 1024 * 1024"
definition kMetadataPoolId :: PoolId where "kMetadataPoolId = 0"

definition shelf_name_prefix :: "string \<Rightarrow> string \<Rightarrow> string \<Rightarrow> string" where
  "shelf_name_prefix base_dir shelf_user file_prefix = base_dir @ ''/'' @ shelf_user @ [underscore] @ file_prefix"

text \<open>The constructor, in the build with \<open>ZONE\<close>. \<open>base\<close> and \<open>user\<close> are \<open>config.ShelfBase\<close> and
  \<open>config.ShelfUser\<close>.\<close>

definition Pool_new :: "string \<Rightarrow> string \<Rightarrow> PoolId \<Rightarrow> pool result" where
  "Pool_new base user pid =
     (let prefix = shelf_name_prefix base user (''NVMM'' @ [underscore] @ ''Shelf'')
      in if pid < kMaxPoolCount
         then Inr \<lparr>p_base = base, p_prefix = prefix, p_id = pid, p_is_open = False,
                p_meta = ShelfFile (shelf_path_str prefix
                  (to_string (unat kMetadataPoolId) @ [underscore] @ to_string (unat pid)) [] []),
                p_addr = None, p_size = 0, p_shelf_size = 0, p_ms = None\<rparr>
         else Inl Assert_Failed)"

definition pool_Exist :: "pool \<Rightarrow> world \<Rightarrow> bool" where
  "pool_Exist p w = sf_Exist (p_meta p) w"

section \<open>The metadata shelf\<close>

definition OpenMapMetadataShelf :: "pool \<Rightarrow> world \<Rightarrow> (error_code \<times> pool \<times> world) result" where
  "OpenMapMetadataShelf p w =
     (case sf_Open (p_meta p) w of (ret, m, w) \<Rightarrow>
        let p = p\<lparr>p_meta := m\<rparr>
        in if ret \<noteq> NO_ERROR then Inr (ret, p, w)
           else rbind (sf_Size m w) (\<lambda>(sz, w).
             let p = p\<lparr>p_size := sz\<rparr>
             in case sf_Map_range m sz True w of (ret, addr, w) \<Rightarrow>
                  Inr (ret, (case addr of Some a \<Rightarrow> p\<lparr>p_addr := Some (a, the (sf_fd m))\<rparr> | None \<Rightarrow> p), w)))"

definition UnmapCloseMetadataShelf :: "pool \<Rightarrow> world \<Rightarrow> error_code \<times> pool \<times> world" where
  "UnmapCloseMetadataShelf p w =
     (case sf_Unmap_range (case p_addr p of Some (a, _) \<Rightarrow> a | None \<Rightarrow> 0) (p_size p) w of (ret, w) \<Rightarrow>
        if ret \<noteq> NO_ERROR then (ret, p, w)
        else let p = p\<lparr>p_addr := None, p_size := 0\<rparr>
             in case sf_Close (p_meta p) w of (ret, m, w) \<Rightarrow> (ret, p\<lparr>p_meta := m\<rparr>, w))"

text \<open>Access to the mapped memory. Through a null pointer there is none.\<close>

definition read_area :: "pool \<Rightarrow> world \<Rightarrow> area result" where
  "read_area p w = (case p_addr p of None \<Rightarrow> Inl Out_Of_Bounds | Some (_, n) \<Rightarrow> Inr (i_area (inodes w n)))"

definition write_area :: "pool \<Rightarrow> area \<Rightarrow> world \<Rightarrow> world" where
  "write_area p a w =
     (case p_addr p of None \<Rightarrow> w | Some (_, n) \<Rightarrow> w\<lparr>inodes := (inodes w)(n := (inodes w n)\<lparr>i_area := a\<rparr>)\<rparr>)"

definition read_items :: "pool \<Rightarrow> world \<Rightarrow> items result" where
  "read_items p w = rbind (read_area p w) (\<lambda>a. Inr (m_items (table a)))"

definition write_items :: "pool \<Rightarrow> items \<Rightarrow> world \<Rightarrow> world" where
  "write_items p its w =
     (case read_area p w of Inl _ \<Rightarrow> w | Inr a \<Rightarrow> write_area p (a\<lparr>table := (table a)\<lparr>m_items := its\<rparr>\<rparr>) w)"

section \<open>Create, Verify, Open, Close\<close>

definition pool_Create :: "pool \<Rightarrow> u64 \<Rightarrow> mode_t \<Rightarrow> world \<Rightarrow> (error_code \<times> pool \<times> world) result" where
  "pool_Create p shelf_size mode w =
     (if pool_Exist p w then Inr (POOL_FOUND, p, w)
      else if p_is_open p then Inr (POOL_OPENED, p, w)
      else case sf_Create (p_meta p) mode kMetadataShelfSize w of (ret, m, w) \<Rightarrow>
        let p = p\<lparr>p_meta := m\<rparr>
        in if ret \<noteq> NO_ERROR
           then Inr (if ret = SHELF_FILE_FOUND then POOL_FOUND else POOL_CREATE_FAILED, p, w)
           else rbind (OpenMapMetadataShelf p w) (\<lambda>(ret, p, w).
             if ret \<noteq> NO_ERROR then Inr (POOL_CREATE_FAILED, p, w)
             else rbind (read_area p w) (\<lambda>a.
               let a = a\<lparr>size_word := shelf_size\<rparr>;
                   w = write_area p a w
               in rbind (membership_Create (membership_new (p_size p - kCacheLineSize)) (table a) kMaxShelfCount)
                    (\<lambda>(ret, _, tb).
                      let w = write_area p (a\<lparr>table := tb\<rparr>) w
                      in if ret \<noteq> NO_ERROR then Inr (POOL_CREATE_FAILED, p, w)
                         else case UnmapCloseMetadataShelf p w of (ret, p, w) \<Rightarrow>
                                Inr (if ret \<noteq> NO_ERROR then POOL_CREATE_FAILED else ret, p, w)))))"

text \<open>\<open>Verify\<close> returns error codes through \<open>bool\<close>.\<close>

definition pool_Verify :: "pool \<Rightarrow> world \<Rightarrow> (bool \<times> pool \<times> world) result" where
  "pool_Verify p w =
     (if \<not> pool_Exist p w then Inr (bool_of_code POOL_NOT_FOUND, p, w)
      else if p_is_open p then Inr (bool_of_code POOL_OPENED, p, w)
      else rbind (OpenMapMetadataShelf p w) (\<lambda>(ret, p, w).
        rbind (if ret \<noteq> NO_ERROR then Inr (ret, False, p, w)
               else rbind (read_area p w) (\<lambda>a.
                 let status = membership_Verify (table a)
                 in case UnmapCloseMetadataShelf p w of (ret, p, w) \<Rightarrow>
                      Inr (ret, if ret \<noteq> NO_ERROR then False else status, p, w)))
          (\<lambda>(ret, status, p, w).
             if \<not> status
             then (if ret = SHELF_FILE_INVALID_FORMAT then Inr (bool_of_code POOL_INVALID_META_FILE, p, w)
                   else Inl Assert_Failed)
             else Inr (bool_of_code ret, p, w))))"

section \<open>Removing old files\<close>

text \<open>The entries of the directory \<open>base\<close>, as full path names.\<close>

definition dir_entries :: "string \<Rightarrow> world \<Rightarrow> string list" where
  "dir_entries base w =
     filter (\<lambda>path. take (length base + 1) path = base @ ''/'' \<and> CHR ''/'' \<notin> set (drop (length base + 1) path))
       (map fst (dir w))"

definition tmp_suffix :: string where "tmp_suffix = ''add''"

text \<open>\<open>std::equal\<close> compares as many characters as both strings have; \<open>substr\<close> throws when the
  path is shorter than the prefix. The version is the number's low 16 bits.\<close>

definition remove_old_entry :: "pool \<Rightarrow> ShelfIndex \<Rightarrow> item \<Rightarrow> string \<Rightarrow> world \<Rightarrow> (bool \<times> world) result" where
  "remove_old_entry p idx version pathname w =
     (let sid = EncodeShelfId (p_id p) idx;
          prefix = shelf_path (p_prefix p) sid [] [] @ [underscore];
          k = min (length pathname) (length prefix)
      in if take k prefix \<noteq> take k pathname then Inr (False, w)
         else if length pathname < length prefix then Inl Runtime_Error
         else let version_string = drop (length prefix) pathname
              in rbind (stoul version_string) (\<lambda>n.
                let old_version = (ucast n :: item)
                in if length version_string > length tmp_suffix \<and>
                      drop (length version_string - length tmp_suffix) version_string = tmp_suffix
                   then rbind (sf_Destroy (ShelfFile (shelf_path (p_prefix p) sid (to_string (unat old_version)) tmp_suffix)) w)
                          (\<lambda>(_, w). Inr (True, w))
                   else if old_version < version
                   then rbind (sf_Destroy (ShelfFile (shelf_path (p_prefix p) sid (to_string (unat old_version)) [])) w)
                          (\<lambda>(_, w). Inr (True, w))
                   else Inr (False, w)))"

fun remove_old_loop :: "pool \<Rightarrow> ShelfIndex \<Rightarrow> item \<Rightarrow> string list \<Rightarrow> bool \<Rightarrow> world \<Rightarrow> (bool \<times> world) result" where
  "remove_old_loop p idx version [] found w = Inr (found, w)"
| "remove_old_loop p idx version (path # paths) found w =
     rbind (remove_old_entry p idx version path w) (\<lambda>(r, w). remove_old_loop p idx version paths (found \<or> r) w)"

definition RemoveOldShelfFiles :: "pool \<Rightarrow> ShelfIndex \<Rightarrow> item \<Rightarrow> world \<Rightarrow> (bool \<times> world) result" where
  "RemoveOldShelfFiles p idx version w = remove_old_loop p idx version (dir_entries (p_base p) w) False w"

section \<open>Recovery\<close>

definition versioned_file :: "pool \<Rightarrow> ShelfIndex \<Rightarrow> item \<Rightarrow> shelf_file" where
  "versioned_file p idx version = ShelfFile (shelf_path (p_prefix p) (EncodeShelfId (p_id p) idx) (to_string (unat version)) [])"

definition recover_slot :: "pool \<Rightarrow> ShelfIndex \<Rightarrow> error_code \<Rightarrow> world \<Rightarrow> (error_code \<times> world) result" where
  "recover_slot p idx ret w =
     rbind (shelf_id (p_id p) idx) (\<lambda>_.
     rbind (read_items p w) (\<lambda>its.
       let value = LoadFromFAM its (unat idx);
           version = GetVersionNum value
       in if TestValidBit value
          then if version = 0 then Inl Assert_Failed
               else rbind (RemoveOldShelfFiles p idx version w) (\<lambda>(_, w).
                 Inr (if \<not> sf_Exist (versioned_file p idx version) w then POOL_INCONSISTENCY_FOUND else ret, w))
          else if version = 0 then Inr (ret, w)
               else rbind (RemoveOldShelfFiles p idx version w) (\<lambda>(_, w).
                 Inr (if sf_Exist (versioned_file p idx version) w then POOL_INCONSISTENCY_FOUND else ret, w))))"

fun recover_slots :: "pool \<Rightarrow> nat list \<Rightarrow> error_code \<Rightarrow> world \<Rightarrow> (error_code \<times> world) result" where
  "recover_slots p [] ret w = Inr (ret, w)"
| "recover_slots p (i # is) ret w = rbind (recover_slot p (of_nat i) ret w) (\<lambda>(ret, w). recover_slots p is ret w)"

definition pool_Recover :: "pool \<Rightarrow> world \<Rightarrow> (error_code \<times> world) result" where
  "pool_Recover p w =
     (if \<not> p_is_open p then Inr (POOL_CLOSED, w)
      else recover_slots p [0..<unat kMaxShelfCount] NO_ERROR w)"

definition pool_Open :: "bool \<Rightarrow> pool \<Rightarrow> world \<Rightarrow> (error_code \<times> pool \<times> world) result" where
  "pool_Open recover p w =
     (if p_is_open p then Inr (POOL_OPENED, p, w)
      else if \<not> pool_Exist p w then Inr (POOL_NOT_FOUND, p, w)
      else rbind (OpenMapMetadataShelf p w) (\<lambda>(ret, p, w).
        if ret \<noteq> NO_ERROR then Inr (POOL_OPEN_FAILED, p, w)
        else rbind (read_area p w) (\<lambda>a.
          let p = p\<lparr>p_shelf_size := size_word a\<rparr>
          in rbind (membership_Open (membership_new (p_size p - kCacheLineSize)) (table a)) (\<lambda>(ret, ms).
               let p = p\<lparr>p_ms := Some ms\<rparr>
               in if ret \<noteq> NO_ERROR then Inr (POOL_OPEN_FAILED, p, w)
                  else let p = p\<lparr>p_is_open := True\<rparr>
                       in if recover then rbind (pool_Recover p w) (\<lambda>(_, w). Inr (ret, p, w))
                          else Inr (ret, p, w)))))"

definition pool_Close :: "bool \<Rightarrow> pool \<Rightarrow> world \<Rightarrow> (error_code \<times> pool \<times> world) result" where
  "pool_Close recover p w =
     (if \<not> p_is_open p then Inr (POOL_CLOSED, p, w)
      else rbind (if recover then rbind (pool_Recover p w) (\<lambda>(_, w). Inr w) else Inr w) (\<lambda>w.
        case p_ms p of
          None \<Rightarrow> Inl Out_Of_Bounds
        | Some ms \<Rightarrow> rbind (membership_Close ms) (\<lambda>(ret, ms).
            if ret \<noteq> NO_ERROR then Inr (POOL_CLOSE_FAILED, p\<lparr>p_ms := Some ms\<rparr>, w)
            else let p = p\<lparr>p_ms := None\<rparr>
                 in case UnmapCloseMetadataShelf p w of (ret, p, w) \<Rightarrow>
                      if ret \<noteq> NO_ERROR then Inr (POOL_CLOSE_FAILED, p, w)
                      else Inr (ret, p\<lparr>p_is_open := False\<rparr>, w))))"

definition pool_SetPermission :: "pool \<Rightarrow> mode_t \<Rightarrow> world \<Rightarrow> error_code \<times> world" where
  "pool_SetPermission p mode w = (if \<not> p_is_open p then (POOL_CLOSED, w) else sf_SetPermission (p_meta p) mode w)"

section \<open>Adding shelves\<close>

type_synonym format_fn = "shelf_file \<Rightarrow> u64 \<Rightarrow> world \<Rightarrow> error_code \<times> shelf_file \<times> world"

definition TruncateShelfFile :: format_fn where
  "TruncateShelfFile shelf shelf_size w =
     (if \<not> sf_Exist shelf w then (SHELF_FILE_NOT_FOUND, shelf, w)
      else case sf_Open shelf w of (ret, shelf, w) \<Rightarrow>
        if ret \<noteq> NO_ERROR then (ret, shelf, w)
        else case sf_Truncate shelf shelf_size w of (ret, w) \<Rightarrow>
          if ret \<noteq> NO_ERROR then (ret, shelf, w)
          else case sf_Close shelf w of (ret, shelf, w) \<Rightarrow> (ret, shelf, w))"

definition DefaultFormatFn :: format_fn where
  "DefaultFormatFn shelf shelf_size w =
     (if sf_Exist shelf w then (NO_ERROR, shelf, w) else (SHELF_FILE_NOT_FOUND, shelf, w))"

definition RandForAddShelf :: "world \<Rightarrow> item \<times> world" where
  "RandForAddShelf w = (rand_at (env w) (calls w), w\<lparr>calls := Suc (calls w)\<rparr>)"

definition tmp_path :: "pool \<Rightarrow> ShelfIndex \<Rightarrow> item \<Rightarrow> string" where
  "tmp_path p idx version = shelf_path (p_prefix p) (EncodeShelfId (p_id p) idx) (to_string (unat version)) tmp_suffix"

partial_function (option) create_tmp ::
  "pool \<Rightarrow> ShelfIndex \<Rightarrow> mode_t \<Rightarrow> shelf_file \<Rightarrow> world \<Rightarrow> (error_code \<times> shelf_file \<times> world) option" where
  "create_tmp p idx mode shelf w =
     (case sf_Create shelf mode 0 w of (ret, shelf, w) \<Rightarrow>
        if ret = SHELF_FILE_FOUND
        then (case RandForAddShelf w of (tmp_version, w) \<Rightarrow>
                create_tmp p idx mode (ShelfFile (tmp_path p idx tmp_version)) w)
        else Some (ret, shelf, w))"

text \<open>The attempt to give slot \<open>idx\<close> to the shelf. The first component says whether \<open>AddShelf\<close>
  returns, with the code in the second.\<close>

definition try_assign :: "pool \<Rightarrow> ShelfIndex \<Rightarrow> shelf_file \<Rightarrow> world \<Rightarrow>
    (bool \<times> error_code \<times> shelf_file \<times> world) result" where
  "try_assign p idx shelf w =
     rbind (shelf_id (p_id p) idx) (\<lambda>actual_shelf_id.
     rbind (read_items p w) (\<lambda>its.
     rbind (GetFreeSlot its (unat idx)) (\<lambda>(got, expected_value, its).
       let w = write_items p its w
       in if \<not> got then Inr (False, NO_ERROR, shelf, w)
          else let expected_version = GetVersionNum expected_value;
                   actual_path = shelf_path (p_prefix p) actual_shelf_id (to_string (unat expected_version)) []
               in case sf_Rename shelf actual_path w of (ret, shelf, w) \<Rightarrow>
                    if ret \<noteq> NO_ERROR then Inr (True, POOL_ADD_SHELF_FAILED, shelf, w)
                    else rbind (read_items p w) (\<lambda>its.
                         rbind (MarkSlotUsed its (unat idx) expected_value) (\<lambda>(used, actual_value, its).
                           let w = write_items p its w
                           in if used
                              then (if TestValidBit actual_value then Inr (True, NO_ERROR, shelf, w) else Inl Assert_Failed)
                              else Inr (False, NO_ERROR, shelf, w))))))"

text \<open>The search for another free slot: 8-bit indices, the end one wraps in the addition.\<close>

partial_function (option) assign_loop ::
  "pool \<Rightarrow> ShelfIndex \<Rightarrow> ShelfIndex \<Rightarrow> ShelfIndex \<Rightarrow> shelf_file \<Rightarrow> world \<Rightarrow>
    (error_code \<times> ShelfIndex \<times> world) result option" where
  "assign_loop p shelf_idx start_idx end_idx shelf w =
     (if \<not> start_idx \<le> end_idx then Some (Inr (POOL_ADD_SHELF_FAILED, shelf_idx, w))
      else case p_ms p of
             None \<Rightarrow> Some (Inl Out_Of_Bounds)
           | Some ms \<Rightarrow>
               (case read_items p w of
                  Inl e \<Rightarrow> Some (Inl e)
                | Inr its \<Rightarrow>
                    (case FindFirstFreeSlot its (unat (ms_item_count ms)) (unat start_idx) (unat end_idx) of
                       None \<Rightarrow> Some (Inr (POOL_ADD_SHELF_FAILED, shelf_idx, w))
                     | Some i \<Rightarrow>
                         (case try_assign p (of_nat i) shelf w of
                            Inl e \<Rightarrow> Some (Inl e)
                          | Inr (returned, ret, shelf, w) \<Rightarrow>
                              if returned then Some (Inr (ret, of_nat i, w))
                              else assign_loop p (of_nat i) (of_nat i + 1) end_idx shelf w))))"

text \<open>\<open>AddShelf\<close>. The result also holds the final value of the reference parameter
  \<open>shelf_idx\<close>. A format function may throw, need not return, and may write to memory \<open>m\<close> of the
  caller that is not part of the world.\<close>

type_synonym 'm format_mem = "shelf_file \<Rightarrow> u64 \<Rightarrow> 'm \<Rightarrow> world \<Rightarrow> (error_code \<times> shelf_file \<times> 'm \<times> world) result option"

definition AddShelf_mem :: "pool \<Rightarrow> ShelfIndex \<Rightarrow> 'm format_mem \<Rightarrow> bool \<Rightarrow> mode_t \<Rightarrow> 'm \<Rightarrow> world \<Rightarrow>
    (error_code \<times> ShelfIndex \<times> 'm \<times> world) result option" where
  "AddShelf_mem p shelf_idx format_func assign_diff_shelf_idx mode m w =
     (if \<not> p_is_open p then Some (Inr (POOL_CLOSED, shelf_idx, m, w))
      else if kMaxShelfCount \<le> shelf_idx then Some (Inr (POOL_ADD_SHELF_FAILED, shelf_idx, m, w))
      else if kMaxPoolCount \<le> p_id p then Some (Inl Assert_Failed)
      else case RandForAddShelf w of (tmp_version, w) \<Rightarrow>
        (case create_tmp p shelf_idx mode (ShelfFile (tmp_path p shelf_idx tmp_version)) w of
           None \<Rightarrow> None
         | Some (ret, shelf, w) \<Rightarrow>
             if ret \<noteq> NO_ERROR then Some (Inr (POOL_ADD_SHELF_FAILED, shelf_idx, m, w))
             else obind (format_func shelf (p_shelf_size p) m w) (\<lambda>(ret, shelf, m, w).
               if ret \<noteq> NO_ERROR then Some (Inr (POOL_ADD_SHELF_FAILED, shelf_idx, m, w))
               else if \<not> assign_diff_shelf_idx
               then Some (rbind (try_assign p shelf_idx shelf w) (\<lambda>(returned, ret, _, w).
                      Inr (if returned then ret else POOL_ADD_SHELF_FAILED, shelf_idx, m, w)))
               else obind (assign_loop p shelf_idx shelf_idx (shelf_idx + kMaxShelfCount - 1) shelf w)
                      (\<lambda>(ret, i, w). Some (Inr (ret, i, m, w))))))"

definition AddShelf_fmt :: "pool \<Rightarrow> ShelfIndex \<Rightarrow> format_fn option \<Rightarrow> bool \<Rightarrow> mode_t \<Rightarrow> world \<Rightarrow>
    (error_code \<times> ShelfIndex \<times> world) result option" where
  "AddShelf_fmt p shelf_idx format_func assign_diff_shelf_idx mode w =
     obind (AddShelf_mem p shelf_idx
              (\<lambda>shelf len _ w. case (case format_func of None \<Rightarrow> DefaultFormatFn | Some f \<Rightarrow> f) shelf len w of
                 (ret, shelf, w) \<Rightarrow> Some (Inr (ret, shelf, (), w)))
              assign_diff_shelf_idx mode () w)
       (\<lambda>(ret, i, _, w). Some (Inr (ret, i, w)))"

definition kDefaultMode :: mode_t where "kDefaultMode = 0x1B0"

definition NewShelf_fmt :: "pool \<Rightarrow> format_fn option \<Rightarrow> world \<Rightarrow> (error_code \<times> ShelfIndex \<times> world) result option" where
  "NewShelf_fmt p format_func w = AddShelf_fmt p 0 format_func True kDefaultMode w"

definition AddShelf :: "pool \<Rightarrow> ShelfIndex \<Rightarrow> bool \<Rightarrow> world \<Rightarrow> (error_code \<times> ShelfIndex \<times> world) result option" where
  "AddShelf p shelf_idx assign_diff_shelf_idx w =
     (if \<not> p_is_open p then Some (Inr (POOL_CLOSED, shelf_idx, w))
      else AddShelf_fmt p shelf_idx (Some TruncateShelfFile) assign_diff_shelf_idx kDefaultMode w)"

definition NewShelf :: "pool \<Rightarrow> ShelfIndex \<Rightarrow> world \<Rightarrow> (error_code \<times> ShelfIndex \<times> world) result option" where
  "NewShelf p shelf_idx w =
     (if \<not> p_is_open p then Some (Inr (POOL_CLOSED, shelf_idx, w))
      else NewShelf_fmt p (Some TruncateShelfFile) w)"

section \<open>Removing shelves, queries\<close>

definition RemoveShelf :: "pool \<Rightarrow> ShelfIndex \<Rightarrow> world \<Rightarrow> (error_code \<times> world) result" where
  "RemoveShelf p shelf_idx w =
     (if \<not> p_is_open p then Inr (POOL_CLOSED, w)
      else if \<not> shelf_idx < kMaxShelfCount then Inl Assert_Failed
      else rbind (shelf_id (p_id p) shelf_idx) (\<lambda>sid.
        rbind (read_items p w) (\<lambda>its.
          case MarkSlotFree its (unat shelf_idx) of (freed, actual_value, its) \<Rightarrow>
            let w = write_items p its w;
                actual_version = GetVersionNum actual_value
            in if freed
               then if \<not> TestValidBit actual_value then Inl Assert_Failed
                    else rbind (sf_Destroy (ShelfFile (shelf_path (p_prefix p) sid (to_string (unat actual_version)) [])) w)
                      (\<lambda>(ret, w). if ret \<noteq> NO_ERROR \<and> ret \<noteq> SHELF_FILE_NOT_FOUND then Inl Assert_Failed
                                  else Inr (NO_ERROR, w))
               else Inr (if TestValidBit actual_value then POOL_REMOVE_SHELF_FAILED else POOL_SHELF_NOT_FOUND, w))))"

definition FindNextShelf :: "pool \<Rightarrow> ShelfIndex \<Rightarrow> ShelfIndex \<Rightarrow> ShelfIndex \<Rightarrow> world \<Rightarrow> (bool \<times> ShelfIndex) result" where
  "FindNextShelf p shelf_idx start_idx end_idx w =
     (if \<not> p_is_open p then Inr (bool_of_code POOL_CLOSED, shelf_idx)
      else case p_ms p of
             None \<Rightarrow> Inl Out_Of_Bounds
           | Some ms \<Rightarrow> rbind (read_items p w) (\<lambda>its.
               case FindFirstUsedSlot its (unat (ms_item_count ms)) (unat start_idx) (unat end_idx) of
                 Some i \<Rightarrow> Inr (True, of_nat i)
               | None \<Rightarrow> Inr (False, shelf_idx)))"

definition FindNextFreeShelf :: "pool \<Rightarrow> ShelfIndex \<Rightarrow> world \<Rightarrow> (error_code \<times> ShelfIndex) result" where
  "FindNextFreeShelf p shelf_idx w =
     (if \<not> p_is_open p then Inr (POOL_CLOSED, shelf_idx)
      else case p_ms p of
             None \<Rightarrow> Inl Out_Of_Bounds
           | Some ms \<Rightarrow> rbind (read_items p w) (\<lambda>its.
               case FindFirstFreeSlot its (unat (ms_item_count ms)) 0 (unat (kMaxShelfCount - 1)) of
                 Some i \<Rightarrow> Inr (NO_ERROR, of_nat i)
               | None \<Rightarrow> Inr (POOL_SHELF_NOT_FOUND, shelf_idx)))"

definition CheckShelf :: "pool \<Rightarrow> ShelfIndex \<Rightarrow> world \<Rightarrow> bool result" where
  "CheckShelf p shelf_idx w =
     (if \<not> p_is_open p then Inr (bool_of_code POOL_CLOSED)
      else rbind (read_items p w) (\<lambda>its. Inr (TestValidBitWithIndex its (unat shelf_idx))))"

definition GetShelfId :: "pool \<Rightarrow> ShelfIndex \<Rightarrow> world \<Rightarrow> (error_code \<times> ShelfId option) result" where
  "GetShelfId p shelf_idx w =
     (if \<not> p_is_open p then Inr (POOL_CLOSED, None)
      else rbind (read_items p w) (\<lambda>its.
        if TestValidBitWithIndex its (unat shelf_idx)
        then rbind (shelf_id (p_id p) shelf_idx) (\<lambda>sid. Inr (NO_ERROR, Some sid))
        else Inr (POOL_SHELF_NOT_FOUND, None)))"

definition GetShelfIdx :: "pool \<Rightarrow> ShelfId \<Rightarrow> world \<Rightarrow> (error_code \<times> ShelfIndex option) result" where
  "GetShelfIdx p sid w =
     (if \<not> p_is_open p then Inr (POOL_CLOSED, None)
      else if DecodePoolId sid \<noteq> p_id p then Inr (POOL_INVALID_POOL_ID, None)
      else rbind (read_items p w) (\<lambda>its.
        let idx = DecodeShelfIndex sid
        in if TestValidBitWithIndex its (unat idx) then Inr (NO_ERROR, Some idx)
           else Inr (POOL_SHELF_NOT_FOUND, None)))"

definition GetShelfPath :: "pool \<Rightarrow> ShelfIndex \<Rightarrow> world \<Rightarrow> (error_code \<times> string option) result" where
  "GetShelfPath p shelf_idx w =
     (if \<not> p_is_open p then Inr (POOL_CLOSED, None)
      else rbind (read_items p w) (\<lambda>its.
        let value = LoadFromFAM its (unat shelf_idx)
        in if TestValidBit value
           then rbind (shelf_id (p_id p) shelf_idx) (\<lambda>sid.
                  let version = GetVersionNum value
                  in Inr (NO_ERROR, Some (shelf_path (p_prefix p) sid (to_string (unat version)) [])))
           else Inr (POOL_SHELF_NOT_FOUND, None)))"

definition SharedAreaOffset :: "pool \<Rightarrow> u64 result" where
  "SharedAreaOffset p =
     (if p_is_open p then (case p_ms p of None \<Rightarrow> Inl Out_Of_Bounds | Some ms \<Rightarrow> Inr (ms_size ms + kCacheLineSize))
      else Inl Assert_Failed)"

definition SharedAreaSize :: "pool \<Rightarrow> world \<Rightarrow> u64 result" where
  "SharedAreaSize p w =
     (if p_is_open p
      then rbind (sf_Size (p_meta p) w) (\<lambda>(sz, _).
             case p_ms p of None \<Rightarrow> Inl Out_Of_Bounds | Some ms \<Rightarrow> Inr (sz - ms_size ms - kCacheLineSize))
      else Inl Assert_Failed)"

fun destroy_shelves :: "pool \<Rightarrow> nat list \<Rightarrow> world \<Rightarrow> (error_code \<times> world) result" where
  "destroy_shelves p [] w = Inr (NO_ERROR, w)"
| "destroy_shelves p (i # is) w =
     rbind (CheckShelf p (of_nat i) w) (\<lambda>present.
       if \<not> present then destroy_shelves p is w
       else rbind (RemoveShelf p (of_nat i) w) (\<lambda>(ret, w).
              if ret \<noteq> NO_ERROR then Inr (ret, w) else destroy_shelves p is w))"

definition pool_Destroy :: "pool \<Rightarrow> world \<Rightarrow> (error_code \<times> pool \<times> world) result" where
  "pool_Destroy p w =
     (if \<not> pool_Exist p w then Inr (POOL_NOT_FOUND, p, w)
      else if p_is_open p then Inr (POOL_OPENED, p, w)
      else rbind (pool_Open False p w) (\<lambda>(ret, p, w).
        if ret \<noteq> NO_ERROR then Inr (POOL_DESTROY_FAILED, p, w)
        else rbind (pool_Recover p w) (\<lambda>(_, w).
        rbind (destroy_shelves p [0..<unat kMaxShelfCount] w) (\<lambda>(ret, w).
          if ret \<noteq> NO_ERROR
          then rbind (pool_Close False p w) (\<lambda>(_, p, w). Inr (POOL_DESTROY_FAILED, p, w))
          else rbind (pool_Close False p w) (\<lambda>(ret, p, w).
            if ret \<noteq> NO_ERROR then Inr (POOL_DESTROY_FAILED, p, w)
            else rbind (OpenMapMetadataShelf p w) (\<lambda>(ret, p, w).
              if ret \<noteq> NO_ERROR then Inr (POOL_DESTROY_FAILED, p, w)
              else rbind (read_area p w) (\<lambda>a.
                let a = a\<lparr>size_word := 0\<rparr>; w = write_area p a w
                in rbind (membership_Destroy (membership_new (p_size p - kCacheLineSize)) (table a)) (\<lambda>(ret, _, tb).
                     let w = write_area p (a\<lparr>table := tb\<rparr>) w
                     in if ret \<noteq> NO_ERROR then Inr (POOL_DESTROY_FAILED, p, w)
                        else case UnmapCloseMetadataShelf p w of (ret, p, w) \<Rightarrow>
                               if ret \<noteq> NO_ERROR then Inr (POOL_DESTROY_FAILED, p, w)
                               else rbind (sf_Destroy (p_meta p) w) (\<lambda>(ret, w).
                                      Inr (if ret \<noteq> NO_ERROR then POOL_DESTROY_FAILED else ret, p, w))))))))))"

end
