(* ===== verification/Pool_Correct.thy ===== *)
theory Pool_Correct
  imports Pool
begin

text \<open>
  The invariant of an open pool: each of its slots has a version and a valid bit, a used slot has
  its file, and no file carries a version that is still to come. Each operation of the pool is
  described by what it does to the names of the directory and to one slot of the table.
\<close>

section \<open>Names\<close>

definition slot_path :: "pool \<Rightarrow> nat \<Rightarrow> nat \<Rightarrow> string" where
  "slot_path p i v = shelf_path (p_prefix p) (EncodeShelfId (p_id p) (of_nat i)) (to_string v) []"

definition add_path :: "pool \<Rightarrow> nat \<Rightarrow> nat \<Rightarrow> string" where
  "add_path p i v = shelf_path (p_prefix p) (EncodeShelfId (p_id p) (of_nat i)) (to_string v) tmp_suffix"

lemma u8_inject: "i < 128 \<Longrightarrow> j < 128 \<Longrightarrow> (of_nat i :: u8) = of_nat j \<longleftrightarrow> i = j"
  by (auto simp: word_of_nat_eq_iff take_bit_nat_eq_self)

lemma unat_u8: "i < 128 \<Longrightarrow> unat (of_nat i :: u8) = i"
  by (simp add: unat_of_nat take_bit_nat_eq_self)

lemma slot_path_inject:
  assumes "i < 128" "j < 128"
  shows "slot_path p i v = slot_path p j w \<longleftrightarrow> i = j \<and> v = w"
  using shelf_path_inject [of "p_prefix p" "p_id p" "of_nat i" v "[]"] u8_inject [OF assms]
  by (auto simp: slot_path_def)

lemma add_path_not_slot: "add_path p i v \<noteq> slot_path p j w"
  using shelf_path_inject [of "p_prefix p" "p_id p" "of_nat i" v tmp_suffix "p_id p" "of_nat j" w "[]"]
  by (auto simp: add_path_def slot_path_def tmp_suffix_def)

lemma slot_path_eq:
  "p_prefix q = p_prefix p \<Longrightarrow> p_id q = p_id p \<Longrightarrow> slot_path q = slot_path p"
  by (intro ext) (simp add: slot_path_def)

section \<open>Files\<close>

definition quiet :: "world \<Rightarrow> bool" where
  "quiet w \<longleftrightarrow> (\<forall>k. fails (env w) k = None)"

lemma quiet_call: "quiet w \<Longrightarrow> sys_call f w = f (w\<lparr>calls := Suc (calls w)\<rparr>)"
  by (simp add: sys_call_def quiet_def Let_def)

lemma quiet_calls [simp]: "quiet (w\<lparr>calls := n\<rparr>) = quiet w" "quiet (w\<lparr>dir := d\<rparr>) = quiet w"
  "quiet (w\<lparr>inodes := m\<rparr>) = quiet w" "quiet (w\<lparr>next_ino := n\<rparr>) = quiet w"
  by (simp_all add: quiet_def)

lemma lookup_simps [simp]:
  "lookup (w\<lparr>calls := n\<rparr>) = lookup w" "lookup (w\<lparr>inodes := m\<rparr>) = lookup w" "lookup (w\<lparr>next_ino := n\<rparr>) = lookup w"
  by (simp_all add: lookup_def fun_eq_iff)

lemma unlink_spec:
  assumes "quiet w" "sf_fd sf = None" "lookup w (sf_path sf) = Some n"
  shows "\<exists>w'. sf_Destroy sf w = Inr (NO_ERROR, w') \<and> quiet w' \<and> inodes w' = inodes w \<and> next_ino w' = next_ino w \<and>
    lookup w' = (lookup w)(sf_path sf := None) \<and> dir w' = AList.delete (sf_path sf) (dir w)"
  using assms
  by (simp add: sf_Destroy_def sf_Exist_def sf_IsOpen_def sys_unlink_def quiet_call Let_def)
    (simp add: lookup_def fun_eq_iff AList.delete_conv')

lemma unlink_missing:
  assumes "quiet w" "sf_fd sf = None" "lookup w (sf_path sf) = None"
  shows "\<exists>w'. sf_Destroy sf w = Inr (SHELF_FILE_NOT_FOUND, w') \<and> quiet w' \<and> inodes w' = inodes w \<and>
    next_ino w' = next_ino w \<and> dir w' = dir w"
  using assms
  by (simp add: sf_Destroy_def sf_Exist_def sf_IsOpen_def sys_unlink_def quiet_call Let_def)

lemma rename_spec:
  assumes "quiet w" "lookup w (sf_path sf) = Some n" "new \<noteq> sf_path sf"
  shows "\<exists>w'. sf_Rename sf new w = (NO_ERROR, sf\<lparr>sf_path := new\<rparr>, w') \<and> quiet w' \<and> inodes w' = inodes w \<and>
    next_ino w' = next_ino w \<and> lookup w' = (lookup w)(sf_path sf := None, new := Some n)"
  using assms
  by (simp add: sf_Rename_def sys_rename_def quiet_call Let_def)
    (auto simp: lookup_def fun_eq_iff AList.delete_conv')

lemma create_spec:
  assumes "quiet w" "sf_fd sf = None" "lookup w (sf_path sf) = None"
  shows "\<exists>w'. sf_Create sf mode 0 w = (NO_ERROR, sf, w') \<and> quiet w' \<and>
    inodes w' = (inodes w)(next_ino w := \<lparr>i_mode = mode, i_size = 0, i_area = zero_area\<rparr>) \<and>
    next_ino w' = Suc (next_ino w) \<and> lookup w' = (lookup w)(sf_path sf := Some (next_ino w))"
proof -
  have "sf\<lparr>sf_fd := None\<rparr> = sf" using assms(2) by simp
  with assms show ?thesis
    by (simp add: sf_Create_def sf_Exist_def sf_IsOpen_def sf_Close_def sys_creat_def sys_close_def quiet_call Let_def)
      (simp add: lookup_def fun_eq_iff)
qed

text \<open>The default format function of the pool sets the size of the file.\<close>

lemma truncate_spec:
  assumes "quiet w" "sf_fd sf = None" "lookup w (sf_path sf) = Some n" "\<not> bit len 63"
  shows "\<exists>w'. TruncateShelfFile sf len w = (NO_ERROR, sf, w') \<and> quiet w' \<and> lookup w' = lookup w \<and>
    inodes w' = (inodes w)(n := (inodes w n)\<lparr>i_size := len, i_area := cut_area (unat len) (i_area (inodes w n))\<rparr>) \<and>
    next_ino w' = next_ino w"
proof -
  have "sf\<lparr>sf_fd := None\<rparr> = sf" using assms(2) by simp
  with assms show ?thesis
    by (simp add: TruncateShelfFile_def sf_Exist_def sf_Open_def sf_IsOpen_def sf_Truncate_def sf_Close_def sys_open_def
        sys_ftruncate_def sys_truncate_ino_def sys_close_def quiet_call Let_def)
qed

section \<open>The invariant\<close>

text \<open>The table of an open pool, its slots as numbers, the shelves it holds.\<close>

definition pool_items :: "pool \<Rightarrow> world \<Rightarrow> items" where
  "pool_items p w = m_items (table (i_area (inodes w (snd (the (p_addr p))))))"

definition version_of :: "pool \<Rightarrow> world \<Rightarrow> nat \<Rightarrow> nat" where
  "version_of p w i = unat (GetVersionNum (LoadFromFAM (pool_items p w) i))"

definition used :: "pool \<Rightarrow> world \<Rightarrow> nat \<Rightarrow> bool" where
  "used p w i = TestValidBitWithIndex (pool_items p w) i"

definition shelves :: "pool \<Rightarrow> world \<Rightarrow> nat \<Rightarrow> nat option" where
  "shelves p w i = (if i < 128 \<and> used p w i then Some (version_of p w i) else None)"

definition pool_open :: "pool \<Rightarrow> world \<Rightarrow> bool" where
  "pool_open p w \<longleftrightarrow> p_is_open p \<and> p_id p < kMaxPoolCount \<and>
     (\<exists>a n. p_addr p = Some (a, n) \<and> n < next_ino w) \<and>
     (\<exists>ms. p_ms p = Some ms \<and> ms_item_count ms = 128) \<and>
     (\<forall>i < 128. \<exists>v b. slot_holds (pool_items p w) i v b \<and> v < 2 ^ 15)"

definition pool_ok :: "pool \<Rightarrow> world \<Rightarrow> bool" where
  "pool_ok p w \<longleftrightarrow> pool_open p w \<and>
     (\<forall>i < 128. used p w i \<longrightarrow> 0 < version_of p w i \<and> lookup w (slot_path p i (version_of p w i)) \<noteq> None) \<and>
     (\<forall>i < 128. \<forall>v < 2 ^ 15. version_of p w i < v \<or> (\<not> used p w i \<and> v = version_of p w i) \<longrightarrow>
        lookup w (slot_path p i v) = None)"

lemma pool_okD:
  assumes "pool_ok p w"
  shows "pool_open p w"
    "\<And>i. i < 128 \<Longrightarrow> used p w i \<Longrightarrow> 0 < version_of p w i"
    "\<And>i. i < 128 \<Longrightarrow> used p w i \<Longrightarrow> \<exists>n. lookup w (slot_path p i (version_of p w i)) = Some n"
    "\<And>i v. i < 128 \<Longrightarrow> v < 2 ^ 15 \<Longrightarrow> version_of p w i < v \<or> (\<not> used p w i \<and> v = version_of p w i) \<Longrightarrow>
      lookup w (slot_path p i v) = None"
  using assms unfolding pool_ok_def by fast+

lemma slot_facts:
  assumes "slot_holds (pool_items p w) i v b" "v < 2 ^ 15"
  shows "version_of p w i = v" "used p w i = b"
  using assms by (simp_all add: version_of_def used_def TestValidBitWithIndex_def load_slot version_mk_item)

lemma pool_slot:
  assumes "pool_open p w" "i < 128"
  shows "slot_holds (pool_items p w) i (version_of p w i) (used p w i)" "version_of p w i < 2 ^ 15"
proof -
  from assms obtain v b where "slot_holds (pool_items p w) i v b" "v < 2 ^ 15" unfolding pool_open_def by blast
  with slot_facts show "slot_holds (pool_items p w) i (version_of p w i) (used p w i)" "version_of p w i < 2 ^ 15" by auto
qed

lemma pool_openD:
  assumes "pool_open p w"
  obtains a n ms where "p_is_open p" "p_id p < kMaxPoolCount" "p_addr p = Some (a, n)" "n < next_ino w"
    "p_ms p = Some ms" "ms_item_count ms = 128"
  using assms unfolding pool_open_def by blast

lemma read_items_eq: "pool_open p w \<Longrightarrow> read_items p w = Inr (pool_items p w)"
  by (auto simp: read_items_def read_area_def pool_items_def elim: pool_openD)

lemma write_items_spec:
  assumes "p_addr p = Some (a, n)"
  shows "pool_items p (write_items p its w) = its" "lookup (write_items p its w) = lookup w"
    "next_ino (write_items p its w) = next_ino w" "quiet (write_items p its w) = quiet w"
    "inodes (write_items p its w) m = (if m = n then (inodes w n)\<lparr>i_area := (i_area (inodes w n))\<lparr>table :=
       (table (i_area (inodes w n)))\<lparr>m_items := its\<rparr>\<rparr>\<rparr> else inodes w m)"
    "dir (write_items p its w) = dir w" "calls (write_items p its w) = calls w" "env (write_items p its w) = env w"
  using assms by (simp_all add: write_items_def read_area_def write_area_def pool_items_def)

lemma pool_items_cong: "inodes w' (snd (the (p_addr p))) = inodes w (snd (the (p_addr p))) \<Longrightarrow> pool_items p w' = pool_items p w"
  by (simp add: pool_items_def)

text \<open>What a slot update does to the invariant.\<close>

lemma slot_update:
  assumes "pool_items p w' = (pool_items p w)(i := ucast (mk_item v b))" "v < 2 ^ 15"
  shows "version_of p w' j = (if j = i then v else version_of p w j)" "used p w' j = (if j = i then b else used p w j)"
  using assms
  by (simp_all add: version_of_def used_def TestValidBitWithIndex_def LoadFromFAM_def ucast_item_back version_mk_item)

lemma pool_open_update:
  assumes "pool_open p w" "pool_items p w' = (pool_items p w)(i := ucast (mk_item v b))" "v < 2 ^ 15"
    "next_ino w \<le> next_ino w'"
  shows "pool_open p w'"
proof -
  have "\<exists>u c. slot_holds (pool_items p w') j u c \<and> u < 2 ^ 15" if "j < 128" for j
  proof (cases "j = i")
    case True
    then show ?thesis using assms(2,3) slot_holds_upd(1) by metis
  next
    case False
    then show ?thesis using pool_slot [OF assms(1) that] assms(2) slot_holds_upd(2) by metis
  qed
  then show ?thesis using assms(1,4) unfolding pool_open_def by (meson order_less_le_trans)
qed

lemma pool_open_cong:
  assumes "pool_open p w" "pool_items p w' = pool_items p w" "next_ino w \<le> next_ino w'"
  shows "pool_open p w'" "version_of p w' = version_of p w" "used p w' = used p w"
proof -
  show "pool_open p w'"
    using assms(1,3) unfolding pool_open_def assms(2) by (meson order_less_le_trans)
  show "version_of p w' = version_of p w" "used p w' = used p w"
    by (intro ext, simp add: version_of_def used_def assms(2))+
qed

lemma pool_open_basic: "pool_open p w \<Longrightarrow> p_is_open p" "pool_open p w \<Longrightarrow> p_id p < kMaxPoolCount"
  by (simp_all add: pool_open_def)

lemma kMaxShelfCount_value: "kMaxShelfCount = 128"
  by code_simp

lemma shelf_id_ok:
  assumes "pool_open p w" "i < 128"
  shows "(of_nat i :: u8) < kMaxShelfCount" "shelf_id (p_id p) (of_nat i) = Inr (EncodeShelfId (p_id p) (of_nat i))"
proof -
  have "unat (of_nat i :: u8) < unat (128 :: u8)" using assms(2) by (simp only: unat_u8) simp
  then show l: "(of_nat i :: u8) < kMaxShelfCount" by (simp only: kMaxShelfCount_value word_less_nat_alt)
  show "shelf_id (p_id p) (of_nat i) = Inr (EncodeShelfId (p_id p) (of_nat i))"
    using pool_open_basic(2) [OF assms(1)] l by (simp add: shelf_id_def)
qed

section \<open>The queries\<close>

lemma query_specs:
  assumes "pool_open p w" "i < 128"
  shows "CheckShelf p (of_nat i) w = Inr (used p w i)"
    "GetShelfPath p (of_nat i) w = Inr (if used p w i then (NO_ERROR, Some (slot_path p i (version_of p w i)))
       else (POOL_SHELF_NOT_FOUND, None))"
    "GetShelfId p (of_nat i) w = Inr (if used p w i then (NO_ERROR, Some (EncodeShelfId (p_id p) (of_nat i)))
       else (POOL_SHELF_NOT_FOUND, None))"
    "GetShelfIdx p (EncodeShelfId (p_id p) (of_nat i)) w =
       Inr (if used p w i then (NO_ERROR, Some (of_nat i)) else (POOL_SHELF_NOT_FOUND, None))"
proof -
  note o = pool_open_basic [OF assms(1)] and s = shelf_id_ok [OF assms]
  note r = read_items_eq [OF assms(1)] unat_u8 [OF assms(2)]
  show "CheckShelf p (of_nat i) w = Inr (used p w i)" by (simp add: CheckShelf_def o r used_def)
  show "GetShelfPath p (of_nat i) w = Inr (if used p w i then (NO_ERROR, Some (slot_path p i (version_of p w i)))
       else (POOL_SHELF_NOT_FOUND, None))"
    by (simp add: GetShelfPath_def o r s used_def TestValidBitWithIndex_def version_of_def slot_path_def Let_def)
  show "GetShelfId p (of_nat i) w = Inr (if used p w i then (NO_ERROR, Some (EncodeShelfId (p_id p) (of_nat i)))
       else (POOL_SHELF_NOT_FOUND, None))"
    by (simp add: GetShelfId_def o r s used_def)
  show "GetShelfIdx p (EncodeShelfId (p_id p) (of_nat i)) w =
       Inr (if used p w i then (NO_ERROR, Some (of_nat i)) else (POOL_SHELF_NOT_FOUND, None))"
    by (simp add: GetShelfIdx_def o r used_def shelf_id_fields Let_def)
qed

section \<open>Removing a shelf\<close>

lemma remove_spec:
  assumes "pool_open p w" "quiet w" "i < 128" "used p w i" "Suc (version_of p w i) < 2 ^ 15"
    "lookup w (slot_path p i (version_of p w i)) = Some m"
  shows "\<exists>w'. RemoveShelf p (of_nat i) w = Inr (NO_ERROR, w') \<and> quiet w' \<and> next_ino w' = next_ino w \<and>
    pool_items p w' = (pool_items p w)(i := ucast (mk_item (Suc (version_of p w i)) False)) \<and>
    lookup w' = (lookup w)(slot_path p i (version_of p w i) := None) \<and> (\<forall>k. k \<noteq> snd (the (p_addr p)) \<longrightarrow> inodes w' k = inodes w k) \<and>
    (\<forall>k. i_size (inodes w' k) = i_size (inodes w k)) \<and>
    (\<forall>k. table (i_area (inodes w' k)) = (table (i_area (inodes w k)))\<lparr>m_items := m_items (table (i_area (inodes w' k)))\<rparr>)"
proof -
  let ?v = "version_of p w i"
  let ?its = "(pool_items p w)(i := ucast (mk_item (Suc ?v) False))"
  obtain a n where an: "p_is_open p" "p_addr p = Some (a, n)" using assms(1) by (auto elim: pool_openD)
  have h: "slot_holds (pool_items p w) i ?v True" "?v < 2 ^ 15" using pool_slot [OF assms(1,3)] assms(4) by simp_all
  then have f: "MarkSlotFree (pool_items p w) i = (True, mk_item ?v True, ?its)"
    by (simp add: MarkSlotFree_def MarkSlotFree_cas_def load_slot cas_slot inc_mk_item clear_valid_mk_item Let_def)
  let ?w = "write_items p ?its w"
  let ?sf = "ShelfFile (slot_path p i ?v)"
  note W = write_items_spec [OF an(2), of ?its w]
  have path: "shelf_path (p_prefix p) (EncodeShelfId (p_id p) (of_nat i)) (to_string (unat (GetVersionNum (mk_item ?v True)))) [] = slot_path p i ?v"
    using h(2) by (simp add: version_mk_item slot_path_def)
  have "quiet ?w" "sf_fd ?sf = None" "lookup ?w (sf_path ?sf) = Some m"
    using assms(2,6) by (simp_all add: W ShelfFile_def)
  from unlink_spec [OF this] obtain w' where w': "sf_Destroy ?sf ?w = Inr (NO_ERROR, w')" "quiet w'"
    "inodes w' = inodes ?w" "next_ino w' = next_ino ?w" "lookup w' = (lookup ?w)(sf_path ?sf := None)" by blast
  have "RemoveShelf p (of_nat i) w = Inr (NO_ERROR, w')"
    using an(1) shelf_id_ok [OF assms(1,3)] w'(1) path
    by (simp add: RemoveShelf_def read_items_eq [OF assms(1)] unat_u8 [OF assms(3)] f Let_def)
  moreover have "pool_items p w' = ?its" using w'(3) W(1) pool_items_cong by metis
  moreover have "inodes w' k = inodes w k" if "k \<noteq> snd (the (p_addr p))" for k
    using that by (simp add: w'(3) W an)
  moreover have "i_size (inodes w' k) = i_size (inodes w k)"
    "table (i_area (inodes w' k)) = (table (i_area (inodes w k)))\<lparr>m_items := m_items (table (i_area (inodes w' k)))\<rparr>" for k
    by (simp_all add: w'(3) W)
  ultimately show ?thesis using w' W by (simp add: ShelfFile_def)
qed

lemma remove_free:
  assumes "pool_open p w" "i < 128" "\<not> used p w i"
  shows "RemoveShelf p (of_nat i) w = Inr (POOL_SHELF_NOT_FOUND, write_items p (pool_items p w) w)"
proof -
  have h: "slot_holds (pool_items p w) i (version_of p w i) False" using pool_slot [OF assms(1,2)] assms(3) by simp
  then have f: "MarkSlotFree (pool_items p w) i = (False, mk_item (version_of p w i) False, pool_items p w)"
    by (simp add: MarkSlotFree_def load_slot)
  from pool_open_basic(1) [OF assms(1)] shelf_id_ok [OF assms(1,2)] show ?thesis
    by (simp add: RemoveShelf_def read_items_eq [OF assms(1)] unat_u8 [OF assms(2)] f Let_def)
qed

lemma pool_ok_remove:
  assumes "pool_ok p w" "i < 128" "used p w i" "Suc (version_of p w i) < 2 ^ 15" "next_ino w' = next_ino w"
    "pool_items p w' = (pool_items p w)(i := ucast (mk_item (Suc (version_of p w i)) False))"
    "lookup w' = (lookup w)(slot_path p i (version_of p w i) := None)"
  shows "pool_ok p w'"
proof -
  have o: "pool_open p w" using assms(1) by (simp add: pool_ok_def)
  note U = slot_update [OF assms(6,4)]
  have ne: "slot_path p j u \<noteq> slot_path p i (version_of p w i)" if "j \<noteq> i \<or> u \<noteq> version_of p w i" "j < 128" for j u
    using slot_path_inject [OF that(2) assms(2)] that(1) by blast
  show ?thesis
    unfolding pool_ok_def
  proof (intro conjI allI impI)
    show "pool_open p w'" by (rule pool_open_update [OF o assms(6,4)]) (simp add: assms(5))
  next
    fix j
    assume "j < 128" "used p w' j"
    then have j: "j < 128" "j \<noteq> i" "used p w j" by (simp_all add: U split: if_splits)
    with assms(1) show "0 < version_of p w' j" by (simp add: U pool_ok_def)
    from j assms(1) ne [of j] show "lookup w' (slot_path p j (version_of p w' j)) \<noteq> None"
      by (simp add: U assms(7) pool_ok_def)
  next
    fix j v
    assume j: "j < 128" "v < (2::nat) ^ 15" and c: "version_of p w' j < v \<or> \<not> used p w' j \<and> v = version_of p w' j"
    show "lookup w' (slot_path p j v) = None"
    proof (cases "j = i")
      case True
      with c have "version_of p w i < v" by (auto simp: U)
      with assms(1) j True show ?thesis by (auto simp: assms(7) pool_ok_def)
    next
      case False
      with c assms(1) j show ?thesis by (auto simp: U assms(7) pool_ok_def)
    qed
  qed
qed

end
