(* ===== verification/Pool_Add.thy ===== *)
theory Pool_Add
  imports Pool_Correct
begin

text \<open>
  \<open>AddShelf\<close> on a pool that satisfies the invariant: the loops return, the first free slot gets
  the next version, its file appears under the versioned name.
\<close>

lemma create_tmp_spec:
  assumes "quiet w" "sf_fd sf = None" "lookup w (sf_path sf) = None"
  shows "\<exists>w'. create_tmp p idx mode sf w = Some (NO_ERROR, sf, w') \<and> quiet w' \<and>
    inodes w' = (inodes w)(next_ino w := \<lparr>i_mode = mode, i_size = 0, i_area = zero_area\<rparr>) \<and>
    next_ino w' = Suc (next_ino w) \<and> lookup w' = (lookup w)(sf_path sf := Some (next_ino w))"
  using create_spec [OF assms, of mode] by (subst create_tmp.simps) auto

lemma try_assign_spec:
  assumes "pool_open p w" "quiet w" "i < 128" "\<not> used p w i" "Suc (version_of p w i) < 2 ^ 15"
    "lookup w (sf_path sf) = Some m" "slot_path p i (Suc (version_of p w i)) \<noteq> sf_path sf"
  shows "\<exists>sf' w'. try_assign p (of_nat i) sf w = Inr (True, NO_ERROR, sf', w') \<and> quiet w' \<and> next_ino w' = next_ino w \<and>
    pool_items p w' = (pool_items p w)(i := ucast (mk_item (Suc (version_of p w i)) True)) \<and>
    lookup w' = (lookup w)(sf_path sf := None, slot_path p i (Suc (version_of p w i)) := Some m) \<and>
    (\<forall>k. i_size (inodes w' k) = i_size (inodes w k)) \<and> (\<forall>k. k \<noteq> snd (the (p_addr p)) \<longrightarrow> inodes w' k = inodes w k) \<and>
    (\<forall>k. table (i_area (inodes w' k)) = (table (i_area (inodes w k)))\<lparr>m_items := m_items (table (i_area (inodes w' k)))\<rparr>)"
proof -
  let ?v = "Suc (version_of p w i)"
  let ?its = "(pool_items p w)(i := ucast (mk_item ?v False))"
  let ?its' = "(pool_items p w)(i := ucast (mk_item ?v True))"
  obtain a n where an: "p_addr p = Some (a, n)" using assms(1) by (auto elim: pool_openD)
  have h: "slot_holds (pool_items p w) i (version_of p w i) False" using pool_slot [OF assms(1,3)] assms(4) by simp
  then have g: "GetFreeSlot (pool_items p w) i = Inr (True, mk_item ?v False, ?its)"
    by (simp add: GetFreeSlot_def GetFreeSlot_cas_def load_slot cas_slot inc_mk_item Let_def)
  have m: "MarkSlotUsed ?its i (mk_item ?v False) = Inr (True, mk_item ?v True, ?its')"
    by (simp add: MarkSlotUsed_def cas_slot [OF slot_holds_upd(1)] set_valid_mk_item Let_def)
  let ?w = "write_items p ?its w"
  note W = write_items_spec [OF an, of ?its w]
  have path: "shelf_path (p_prefix p) (EncodeShelfId (p_id p) (of_nat i)) (to_string (unat (GetVersionNum (mk_item ?v False)))) [] = slot_path p i ?v"
    using assms(5) by (simp only: version_mk_item slot_path_def)
  have "quiet ?w" "lookup ?w (sf_path sf) = Some m" using assms(2,6) by (simp_all add: W)
  from rename_spec [OF this assms(7)] obtain w1 where w1:
    "sf_Rename sf (slot_path p i ?v) ?w = (NO_ERROR, sf\<lparr>sf_path := slot_path p i ?v\<rparr>, w1)" "quiet w1"
    "inodes w1 = inodes ?w" "next_ino w1 = next_ino ?w" "lookup w1 = (lookup ?w)(sf_path sf := None, slot_path p i ?v := Some m)"
    by blast
  have r1: "read_items p w1 = Inr ?its"
    using w1(3) W(1) an by (simp add: read_items_def read_area_def pool_items_def)
  note W' = write_items_spec [OF an, of ?its' w1]
  have "try_assign p (of_nat i) sf w =
      Inr (True, NO_ERROR, sf\<lparr>sf_path := slot_path p i ?v\<rparr>, write_items p ?its' w1)"
    using shelf_id_ok [OF assms(1,3)] w1(1) path
    by (simp add: try_assign_def read_items_eq [OF assms(1)] unat_u8 [OF assms(3)] g m r1 Let_def)
  moreover have "i_size (inodes (write_items p ?its' w1) k) = i_size (inodes w k)" for k
    by (simp add: W' w1(3) W)
  moreover have "inodes (write_items p ?its' w1) k = inodes w k" if "k \<noteq> snd (the (p_addr p))" for k
    using that by (simp add: W' w1(3) W an)
  moreover have "table (i_area (inodes (write_items p ?its' w1) k)) =
      (table (i_area (inodes w k)))\<lparr>m_items := m_items (table (i_area (inodes (write_items p ?its' w1) k)))\<rparr>" for k
    by (simp add: W' w1(3) W)
  ultimately show ?thesis using w1 W W' by simp
qed

lemma assign_loop_spec:
  assumes "pool_open p w" "quiet w" "idx < 128" "\<exists>i < 128. \<not> used p w i"
    "\<And>i. i < 128 \<Longrightarrow> \<not> used p w i \<Longrightarrow> Suc (version_of p w i) < 2 ^ 15"
    "lookup w (sf_path sf) = Some m" "\<And>i v. slot_path p i v \<noteq> sf_path sf"
  shows "\<exists>i w'. assign_loop p x (of_nat idx) (of_nat idx + kMaxShelfCount - 1) sf w = Some (Inr (NO_ERROR, of_nat i, w')) \<and>
    i < 128 \<and> \<not> used p w i \<and> (\<not> used p w idx \<longrightarrow> i = idx) \<and> quiet w' \<and> next_ino w' = next_ino w \<and>
    pool_items p w' = (pool_items p w)(i := ucast (mk_item (Suc (version_of p w i)) True)) \<and>
    lookup w' = (lookup w)(sf_path sf := None, slot_path p i (Suc (version_of p w i)) := Some m) \<and>
    (\<forall>k. i_size (inodes w' k) = i_size (inodes w k))"
proof -
  obtain ms where ms: "p_ms p = Some ms" "ms_item_count ms = 128" using assms(1) by (auto elim: pool_openD)
  have e: "(of_nat idx :: u8) + kMaxShelfCount - 1 = of_nat (idx + 127)" by (simp add: kMaxShelfCount_value)
  have ue: "unat (of_nat (idx + 127) :: u8) = idx + 127"
    using assms(3) by (simp only: unat_of_nat) (simp add: take_bit_nat_eq_self)
  have le: "(of_nat idx :: u8) \<le> of_nat (idx + 127)"
    using unat_u8 [OF assms(3)] ue by (simp only: word_le_nat_alt)
  have "idx + 128 - 1 = idx + 127" by simp
  from FindFirstSlot_whole [OF assms(3), of "pool_items p w" False, unfolded this] assms(4) obtain i where i:
    "FindFirstFreeSlot (pool_items p w) 128 idx (idx + 127) = Some i" "i < 128" "\<not> used p w i" "\<not> used p w idx \<longrightarrow> i = idx"
    by (auto simp: used_def FindFirstFreeSlot_def split: option.splits)
  from try_assign_spec [OF assms(1,2) i(2,3) assms(5) [OF i(2,3)] assms(6,7)] obtain sf' w' where w':
    "try_assign p (of_nat i) sf w = Inr (True, NO_ERROR, sf', w')" and rest: "quiet w'" "next_ino w' = next_ino w"
    "pool_items p w' = (pool_items p w)(i := ucast (mk_item (Suc (version_of p w i)) True))"
    "lookup w' = (lookup w)(sf_path sf := None, slot_path p i (Suc (version_of p w i)) := Some m)"
    "\<forall>k. i_size (inodes w' k) = i_size (inodes w k)" by blast
  have "assign_loop p x (of_nat idx) (of_nat (idx + 127)) sf w = Some (Inr (NO_ERROR, of_nat i, w'))"
    using le by (subst assign_loop.simps) (simp add: ms read_items_eq [OF assms(1)] unat_u8 [OF assms(3)] ue i(1) w'
      del: of_nat_add)
  with i rest e show ?thesis by metis
qed

lemma assign_loop_full:
  assumes "pool_open p w" "idx < 128" "\<forall>i < 128. used p w i"
  shows "assign_loop p x (of_nat idx) (of_nat idx + kMaxShelfCount - 1) sf w = Some (Inr (POOL_ADD_SHELF_FAILED, x, w))"
proof -
  obtain ms where ms: "p_ms p = Some ms" "ms_item_count ms = 128" using assms(1) by (auto elim: pool_openD)
  have e: "(of_nat idx :: u8) + kMaxShelfCount - 1 = of_nat (idx + 127)" by (simp add: kMaxShelfCount_value)
  have ue: "unat (of_nat (idx + 127) :: u8) = idx + 127"
    using assms(2) by (simp only: unat_of_nat) (simp add: take_bit_nat_eq_self)
  have "idx + 128 - 1 = idx + 127" by simp
  from FindFirstSlot_whole [OF assms(2), of "pool_items p w" False, unfolded this] assms(3)
  have "FindFirstFreeSlot (pool_items p w) 128 idx (idx + 127) = None"
    by (auto simp: used_def FindFirstFreeSlot_def split: option.splits)
  then show ?thesis unfolding e
    by (subst assign_loop.simps) (simp add: ms read_items_eq [OF assms(1)] unat_u8 [OF assms(2)] ue del: of_nat_add)
qed

text \<open>The first step, up to the formatted temporary file.\<close>

lemma add_prefix:
  assumes "pool_open p w" "quiet w" "idx < 128" "\<not> bit (p_shelf_size p) 63"
    "lookup w (tmp_path p (of_nat idx) (rand_at (env w) (calls w))) = None"
  shows "\<exists>sf w1. sf_path sf = tmp_path p (of_nat idx) (rand_at (env w) (calls w)) \<and>
    AddShelf p (of_nat idx) diff w =
      (if diff then assign_loop p (of_nat idx) (of_nat idx) (of_nat idx + kMaxShelfCount - 1) sf w1
       else Some (rbind (try_assign p (of_nat idx) sf w1) (\<lambda>(returned, ret, _, w).
         Inr (if returned then ret else POOL_ADD_SHELF_FAILED, of_nat idx, w)))) \<and>
    pool_open p w1 \<and> quiet w1 \<and> next_ino w1 = Suc (next_ino w) \<and> pool_items p w1 = pool_items p w \<and>
    lookup w1 = (lookup w)(sf_path sf := Some (next_ino w)) \<and> i_size (inodes w1 (next_ino w)) = p_shelf_size p"
proof -
  let ?t = "tmp_path p (of_nat idx) (rand_at (env w) (calls w))"
  let ?sf = "ShelfFile ?t"
  let ?w = "w\<lparr>calls := Suc (calls w)\<rparr>"
  obtain a n where an: "p_addr p = Some (a, n)" "n < next_ino w" using assms(1) by (auto elim: pool_openD)
  have "quiet ?w" "sf_fd ?sf = None" "lookup ?w (sf_path ?sf) = None" using assms(2,5) by (simp_all add: ShelfFile_def)
  from create_tmp_spec [OF this, of p "of_nat idx" kDefaultMode] obtain w0 where w0:
    "create_tmp p (of_nat idx) kDefaultMode ?sf ?w = Some (NO_ERROR, ?sf, w0)" "quiet w0"
    "inodes w0 = (inodes w)(next_ino w := \<lparr>i_mode = kDefaultMode, i_size = 0, i_area = zero_area\<rparr>)"
    "next_ino w0 = Suc (next_ino w)" "lookup w0 = (lookup w)(?t := Some (next_ino w))"
    by (auto simp: ShelfFile_def)
  have "lookup w0 (sf_path ?sf) = Some (next_ino w)" by (simp add: w0(5) ShelfFile_def)
  from truncate_spec [OF w0(2) _ this assms(4)] obtain w1 where w1:
    "TruncateShelfFile ?sf (p_shelf_size p) w0 = (NO_ERROR, ?sf, w1)" "quiet w1" "lookup w1 = lookup w0"
    "inodes w1 = (inodes w0)(next_ino w := (inodes w0 (next_ino w))\<lparr>i_size := p_shelf_size p,
       i_area := cut_area (unat (p_shelf_size p)) (i_area (inodes w0 (next_ino w)))\<rparr>)"
    "next_ino w1 = next_ino w0" by (auto simp: ShelfFile_def)
  have its: "pool_items p w1 = pool_items p w"
    using an w1(4) w0(3) by (intro pool_items_cong) simp
  have nle: "\<not> kMaxPoolCount \<le> p_id p" "\<not> kMaxShelfCount \<le> of_nat idx"
    using pool_open_basic(2) [OF assms(1)] shelf_id_ok(1) [OF assms(1,3)] by (simp_all only: not_le)
  have "AddShelf p (of_nat idx) diff w =
      (if diff then assign_loop p (of_nat idx) (of_nat idx) (of_nat idx + kMaxShelfCount - 1) ?sf w1
       else Some (rbind (try_assign p (of_nat idx) ?sf w1) (\<lambda>(returned, ret, _, w).
         Inr (if returned then ret else POOL_ADD_SHELF_FAILED, of_nat idx, w))))"
    using pool_open_basic(1) [OF assms(1)] nle w0(1) w1(1)
    by (simp add: AddShelf_def AddShelf_fmt_def AddShelf_mem_def RandForAddShelf_def obind_assoc obind_return
      obind_def rbind_def split: option.split sum.split)
  moreover have "pool_open p w1"
    using pool_open_cong(1) [OF assms(1) its] w1(5) w0(4) by simp
  moreover have "i_size (inodes w1 (next_ino w)) = p_shelf_size p" by (simp add: w1(4))
  ultimately show ?thesis using w0 w1 its by (intro exI [of _ ?sf] exI [of _ w1]) (simp add: ShelfFile_def)
qed

lemma tmp_path_not_slot: "slot_path p i v \<noteq> tmp_path p idx u"
  using shelf_path_inject [of "p_prefix p" "p_id p" "of_nat i" v "[]" "p_id p" idx "unat u" tmp_suffix]
  by (auto simp: tmp_path_def slot_path_def tmp_suffix_def)

lemma shelves_update:
  assumes "pool_items p w' = (pool_items p w)(i := ucast (mk_item v b))" "v < 2 ^ 15" "i < 128"
  shows "shelves p w' = (shelves p w)(i := if b then Some v else None)"
  using assms(3) by (auto simp: shelves_def fun_eq_iff slot_update [OF assms(1,2)])

lemma pool_ok_add:
  assumes "pool_ok p w" "i < 128" "\<not> used p w i" "Suc (version_of p w i) < 2 ^ 15" "next_ino w \<le> next_ino w'"
    "pool_items p w' = (pool_items p w)(i := ucast (mk_item (Suc (version_of p w i)) True))"
    "lookup w' = (lookup w)(slot_path p i (Suc (version_of p w i)) := Some m)"
  shows "pool_ok p w'"
proof -
  have o: "pool_open p w" using assms(1) by (simp add: pool_ok_def)
  note U = slot_update [OF assms(6,4)]
  have ne: "slot_path p j u \<noteq> slot_path p i (Suc (version_of p w i))" if "j \<noteq> i \<or> u \<noteq> Suc (version_of p w i)" "j < 128" for j u
    using slot_path_inject [OF that(2) assms(2)] that(1) by blast
  show ?thesis
    unfolding pool_ok_def
  proof (intro conjI allI impI)
    show "pool_open p w'" by (rule pool_open_update [OF o assms(6,4,5)])
  next
    fix j
    assume "j < 128" "used p w' j"
    then have j: "j < 128" "j = i \<or> used p w j" by (simp_all add: U split: if_splits)
    with assms(1) show "0 < version_of p w' j" by (auto simp: U pool_ok_def)
    from j assms(1) show "lookup w' (slot_path p j (version_of p w' j)) \<noteq> None"
      by (auto simp: U assms(7) pool_ok_def)
  next
    fix j v
    assume j: "j < 128" "v < (2::nat) ^ 15" and c: "version_of p w' j < v \<or> \<not> used p w' j \<and> v = version_of p w' j"
    then have "version_of p w j < v \<or> (\<not> used p w j \<and> v = version_of p w j)" "j \<noteq> i \<or> v \<noteq> Suc (version_of p w i)"
      by (auto simp: U split: if_splits)
    moreover have "lookup w (slot_path p j v) = None" using pool_okD(4) [OF assms(1) j] calculation(1) .
    ultimately show "lookup w' (slot_path p j v) = None" using ne [of j v] j by (simp add: assms(7))
  qed
qed

lemma add_shelf_spec:
  assumes "pool_ok p w" "quiet w" "idx < 128" "\<not> bit (p_shelf_size p) 63" "\<exists>i < 128. \<not> used p w i"
    "\<And>i. i < 128 \<Longrightarrow> \<not> used p w i \<Longrightarrow> Suc (version_of p w i) < 2 ^ 15"
    "lookup w (tmp_path p (of_nat idx) (rand_at (env w) (calls w))) = None"
  shows "\<exists>i w'. AddShelf p (of_nat idx) True w = Some (Inr (NO_ERROR, of_nat i, w')) \<and>
    i < 128 \<and> \<not> used p w i \<and> (\<not> used p w idx \<longrightarrow> i = idx) \<and> quiet w' \<and> pool_ok p w' \<and>
    shelves p w' = (shelves p w)(i \<mapsto> Suc (version_of p w i)) \<and>
    lookup w' = (lookup w)(slot_path p i (Suc (version_of p w i)) := Some (next_ino w)) \<and>
    i_size (inodes w' (next_ino w)) = p_shelf_size p"
proof -
  have o: "pool_open p w" using assms(1) by (simp add: pool_ok_def)
  from add_prefix [OF o assms(2,3,4,7), of True] obtain sf w1 where
    sf: "sf_path sf = tmp_path p (of_nat idx) (rand_at (env w) (calls w))" and
    add: "AddShelf p (of_nat idx) True w = assign_loop p (of_nat idx) (of_nat idx) (of_nat idx + kMaxShelfCount - 1) sf w1" and
    w1: "pool_open p w1" "quiet w1" "next_ino w1 = Suc (next_ino w)" "pool_items p w1 = pool_items p w"
      "lookup w1 = (lookup w)(sf_path sf := Some (next_ino w))" "i_size (inodes w1 (next_ino w)) = p_shelf_size p" by auto
  note C = pool_open_cong(2,3) [OF o w1(4)]
  have c: "version_of p w1 = version_of p w" "used p w1 = used p w" using C w1(3) by simp_all
  have "lookup w1 (sf_path sf) = Some (next_ino w)" by (simp add: w1(5))
  from assign_loop_spec [OF w1(1,2) assms(3) _ _ this, of "of_nat idx"] assms(5,6) tmp_path_not_slot
  obtain i w' where i: "assign_loop p (of_nat idx) (of_nat idx) (of_nat idx + kMaxShelfCount - 1) sf w1 = Some (Inr (NO_ERROR, of_nat i, w'))"
    "i < 128" "\<not> used p w i" "\<not> used p w idx \<longrightarrow> i = idx" "quiet w'" "next_ino w' = next_ino w1"
    "pool_items p w' = (pool_items p w)(i := ucast (mk_item (Suc (version_of p w i)) True))"
    "lookup w' = (lookup w1)(sf_path sf := None, slot_path p i (Suc (version_of p w i)) := Some (next_ino w))"
    "\<forall>k. i_size (inodes w' k) = i_size (inodes w1 k)"
    unfolding c w1(4) sf by blast
  have l: "lookup w' = (lookup w)(slot_path p i (Suc (version_of p w i)) := Some (next_ino w))"
    using assms(7) by (auto simp: i(8) w1(5) sf fun_eq_iff)
  have v: "Suc (version_of p w i) < 2 ^ 15" using assms(6) i(2,3) by blast
  have "pool_ok p w'" by (rule pool_ok_add [OF assms(1) i(2,3) v _ i(7) l]) (simp add: i(6) w1(3))
  moreover have "shelves p w' = (shelves p w)(i \<mapsto> Suc (version_of p w i))"
    using shelves_update [OF i(7) v i(2)] by simp
  ultimately show ?thesis using add i l w1(6) by (intro exI [of _ i] exI [of _ w']) simp
qed

end
