(* ===== verification/Pool_Recovery.thy ===== *)
theory Pool_Recovery
  imports Pool_Correct
begin

text \<open>
  \<open>Pool::Recover\<close>: which files of the directory belong to a slot, which of them it deletes, and
  when it reports an inconsistency. The directory may hold other files, as long as no name
  continues a slot's prefix in a way the library does not produce (the code would then throw or
  delete another file).
\<close>

section \<open>The files of a slot\<close>

definition slot_prefix :: "pool \<Rightarrow> nat \<Rightarrow> string" where
  "slot_prefix p i = shelf_path (p_prefix p) (EncodeShelfId (p_id p) (of_nat i)) [] [] @ [underscore]"

definition touches :: "pool \<Rightarrow> nat \<Rightarrow> string \<Rightarrow> bool" where
  "touches p i q \<longleftrightarrow> take (min (length q) (length (slot_prefix p i))) (slot_prefix p i) =
     take (min (length q) (length (slot_prefix p i))) q"

definition own_file :: "pool \<Rightarrow> nat \<Rightarrow> string \<Rightarrow> bool" where
  "own_file p i q \<longleftrightarrow> (\<exists>u < 2 ^ 16. q = slot_path p i u \<or> q = add_path p i u)"

definition obsolete :: "pool \<Rightarrow> nat \<Rightarrow> nat \<Rightarrow> string \<Rightarrow> bool" where
  "obsolete p i v q \<longleftrightarrow> (\<exists>u < 2 ^ 16. q = add_path p i u) \<or> (\<exists>u < v. q = slot_path p i u)"

definition in_dir :: "string \<Rightarrow> string \<Rightarrow> bool" where
  "in_dir base q \<longleftrightarrow> take (length base + 1) q = base @ ''/'' \<and> CHR ''/'' \<notin> set (drop (length base + 1) q)"

definition names_ok :: "pool \<Rightarrow> world \<Rightarrow> bool" where
  "names_ok p w \<longleftrightarrow> (\<exists>name. p_prefix p = p_base p @ ''/'' @ name \<and> CHR ''/'' \<notin> set name) \<and>
     (\<forall>q i. lookup w q \<noteq> None \<and> in_dir (p_base p) q \<and> i < 128 \<and> touches p i q \<longrightarrow> own_file p i q)"

lemma dir_entries_iff: "q \<in> set (dir_entries base w) \<longleftrightarrow> lookup w q \<noteq> None \<and> in_dir base q"
  unfolding dir_entries_def in_dir_def lookup_def by (auto simp: map_of_eq_None_iff simp del: append_take_drop_id)

text \<open>Paths of a slot are its prefix and what follows.\<close>

definition file_tail :: "nat \<Rightarrow> string \<Rightarrow> string" where
  "file_tail u x = to_string u @ (if x = [] then [] else underscore # x)"

lemma slot_prefix_eq:
  "slot_prefix p i = p_prefix p @ underscore # to_string (unat (p_id p)) @ underscore # to_string (unat (of_nat i :: u8)) @ [underscore]"
  by (simp add: slot_prefix_def shelf_path_def shelf_id_fields Let_def)

lemma path_parts:
  "slot_path p i u = slot_prefix p i @ file_tail u []"
  "add_path p i u = slot_prefix p i @ file_tail u tmp_suffix"
  by (simp_all add: slot_path_def add_path_def slot_prefix_eq shelf_path_def shelf_id_fields to_string_ne file_tail_def
      tmp_suffix_def Let_def)

lemma own_file_parts: "own_file p i q \<Longrightarrow> \<exists>t. q = slot_prefix p i @ t"
  by (auto simp: own_file_def path_parts)

lemma slash_not_in: "CHR ''/'' \<notin> set (to_string n)" "CHR ''/'' \<noteq> underscore"
proof -
  have "\<not> is_digit (CHR ''/'')" by code_simp
  then show "CHR ''/'' \<notin> set (to_string n)" using to_string_digits by blast
  show "CHR ''/'' \<noteq> underscore" by (simp add: underscore_def)
qed

lemma own_in_dir:
  assumes "names_ok p w" "own_file p i q"
  shows "in_dir (p_base p) q"
proof -
  from assms(1) obtain name where n: "p_prefix p = p_base p @ ''/'' @ name" "CHR ''/'' \<notin> set name"
    unfolding names_ok_def by blast
  obtain u x where q: "q = slot_prefix p i @ file_tail u x" "x = [] \<or> x = tmp_suffix"
    using assms(2) by (auto simp: own_file_def path_parts)
  have "CHR ''/'' \<notin> set (file_tail u x)" using q(2) slash_not_in by (auto simp: file_tail_def tmp_suffix_def)
  then show ?thesis
    using n slash_not_in by (auto simp: in_dir_def q(1) slot_prefix_eq)
qed

lemma take_min_eq:
  assumes "take (min (length q) (length r)) r = take (min (length q) (length r)) q"
  shows "\<exists>a b. r @ a = q @ b"
proof (cases "length r \<le> length q")
  case True
  then have "r = take (length r) q" using assms by (simp add: min_absorb2)
  then have "r @ drop (length r) q = q @ []" by (metis append_take_drop_id append_Nil2)
  then show ?thesis by blast
next
  case False
  then have "q = take (length q) r" using assms by (simp add: min_absorb1)
  then have "r @ [] = q @ drop (length q) r" by (metis append_take_drop_id append_Nil2)
  then show ?thesis by blast
qed

lemma touches_own:
  assumes "own_file p j q" "touches p i q" "i < 128" "j < 128"
  shows "i = j"
proof -
  obtain t where q: "q = slot_prefix p j @ t" using own_file_parts [OF assms(1)] by blast
  from take_min_eq [OF assms(2) [unfolded touches_def]] obtain a b where
    "slot_prefix p i @ a = slot_prefix p j @ t @ b" by (auto simp: q)
  then have "to_string (unat (of_nat i :: u8)) @ underscore # a = to_string (unat (of_nat j :: u8)) @ underscore # t @ b"
    by (simp add: slot_prefix_eq)
  from split_underscore [OF this no_underscore no_underscore] show ?thesis
    using assms(3,4) by (simp add: to_string_inject unat_u8)
qed

lemma own_touches: "own_file p i q \<Longrightarrow> touches p i q"
  by (auto dest!: own_file_parts simp: touches_def)

lemma obsolete_own: "obsolete p i v q \<Longrightarrow> v \<le> 2 ^ 16 \<Longrightarrow> own_file p i q"
  unfolding obsolete_def own_file_def by (elim disjE exE conjE) (blast, metis order_less_le_trans)

lemma current_not_obsolete:
  assumes "i < 128" "j < 128"
  shows "\<not> obsolete p i (f i) (slot_path p j (f j))"
  using slot_path_inject [OF assms(2,1)] add_path_not_slot [of p i] unfolding obsolete_def by (metis less_irrefl)

section \<open>Deleting\<close>

lemma unlink_any:
  assumes "quiet w" "sf_fd sf = None"
  shows "\<exists>r w'. sf_Destroy sf w = Inr (r, w') \<and> quiet w' \<and> inodes w' = inodes w \<and> next_ino w' = next_ino w \<and>
    lookup w' = (lookup w)(sf_path sf := None)"
proof (cases "lookup w (sf_path sf)")
  case None
  from unlink_missing [OF assms None] obtain w' where
    "sf_Destroy sf w = Inr (SHELF_FILE_NOT_FOUND, w')" "quiet w'" "inodes w' = inodes w" "next_ino w' = next_ino w" "dir w' = dir w" by blast
  moreover from this(5) None have "lookup w' = (lookup w)(sf_path sf := None)" by (auto simp: lookup_def fun_eq_iff)
  ultimately show ?thesis by blast
next
  case (Some n)
  from unlink_spec [OF assms Some] show ?thesis by blast
qed

lemma version_string_add:
  "length (file_tail u tmp_suffix) > length tmp_suffix \<and>
   drop (length (file_tail u tmp_suffix) - length tmp_suffix) (file_tail u tmp_suffix) = tmp_suffix"
  by (simp add: file_tail_def tmp_suffix_def)

lemma version_string_plain:
  "\<not> (length (file_tail u []) > length tmp_suffix \<and>
      drop (length (file_tail u []) - length tmp_suffix) (file_tail u []) = tmp_suffix)"
proof
  assume "length (file_tail u []) > length tmp_suffix \<and>
      drop (length (file_tail u []) - length tmp_suffix) (file_tail u []) = tmp_suffix"
  then have "CHR ''a'' \<in> set (drop (length (file_tail u []) - length tmp_suffix) (file_tail u []))"
    by (simp add: tmp_suffix_def)
  then have "CHR ''a'' \<in> set (to_string u)" by (auto simp: file_tail_def dest: in_set_dropD)
  moreover have "\<not> is_digit (CHR ''a'')" by code_simp
  ultimately show False using to_string_digits by blast
qed

lemma stoul_tail: "u < 2 ^ 16 \<Longrightarrow> stoul (file_tail u x) = Inr (of_nat u)"
  using stoul_to_string [of "if x = [] then [] else underscore # x" u] underscore_not_digit
  by (simp add: file_tail_def)

lemma u16_of_u64: "u < 2 ^ 16 \<Longrightarrow> unat (ucast (of_nat u :: u64) :: item) = u"
  by (simp add: unsigned_ucast_eq unat_of_nat take_bit_nat_eq_self)

lemma remove_entry_spec:
  assumes "quiet w" "i < 128" "v < 2 ^ 15" "touches p i q \<Longrightarrow> own_file p i q"
  shows "\<exists>r w'. remove_old_entry p (of_nat i) (of_nat v) q w = Inr (r, w') \<and> quiet w' \<and> inodes w' = inodes w \<and>
    next_ino w' = next_ino w \<and> lookup w' = (if obsolete p i v q then (lookup w)(q := None) else lookup w)"
proof (cases "touches p i q")
  case False
  have "v \<le> 2 ^ 16" using assms(3) by simp
  then have "\<not> obsolete p i v q" using False obsolete_own own_touches by blast
  moreover have "remove_old_entry p (of_nat i) (of_nat v) q w = Inr (False, w)"
    using False unfolding touches_def remove_old_entry_def slot_prefix_def [symmetric] Let_def by simp
  ultimately show ?thesis using assms(1) by auto
next
  case True
  then obtain u where u: "u < 2 ^ 16" "q = slot_path p i u \<or> q = add_path p i u"
    using assms(4) unfolding own_file_def by blast
  let ?sid = "EncodeShelfId (p_id p) (of_nat i)"
  obtain x where x: "q = slot_prefix p i @ file_tail u x" "x = [] \<or> x = tmp_suffix"
    "q = shelf_path (p_prefix p) ?sid (to_string u) x"
    using u(2) path_parts(1) [of p i u] path_parts(2) [of p i u] slot_path_def [of p i u] add_path_def [of p i u] by metis
  have lt: "ucast (of_nat u :: u64) < (of_nat v :: item) \<longleftrightarrow> u < v"
    using assms(3) u16_of_u64 [OF u(1)] by (simp add: word_less_nat_alt unat_of_nat take_bit_nat_eq_self)
  from True have t: "take (min (length q) (length (slot_prefix p i))) (slot_prefix p i) =
    take (min (length q) (length (slot_prefix p i))) q" by (simp add: touches_def)
  let ?del = "x = tmp_suffix \<or> u < v"
  have o: "obsolete p i v q \<longleftrightarrow> ?del"
  proof (cases "x = tmp_suffix")
    case True
    with u(1) x(3) show ?thesis by (auto simp: obsolete_def add_path_def)
  next
    case False
    then have "q = slot_path p i u" using x by (simp add: slot_path_def)
    with False show ?thesis
      using slot_path_inject [OF assms(2,2)] add_path_not_slot [symmetric, of p i u i] by (auto simp: obsolete_def)
  qed
  have r: "remove_old_entry p (of_nat i) (of_nat v) q w =
    (if ?del then rbind (sf_Destroy (ShelfFile q) w) (\<lambda>(_, w). Inr (True, w)) else Inr (False, w))"
  proof (cases "x = tmp_suffix")
    case True
    show ?thesis
      using t version_string_add [of u] stoul_tail [OF u(1)] u16_of_u64 [OF u(1)]
      unfolding remove_old_entry_def slot_prefix_def [symmetric] Let_def
      by (simp add: x(1) True) (simp add: x(3) [symmetric] True path_parts(2) [symmetric] add_path_def)
  next
    case False
    then have x0: "x = []" using x(2) by simp
    show ?thesis
      using t version_string_plain [of u] stoul_tail [OF u(1)] u16_of_u64 [OF u(1)] False
      unfolding remove_old_entry_def slot_prefix_def [symmetric] Let_def
      by (simp add: x(1) x0 lt) (auto simp: path_parts(1) [symmetric] slot_path_def)
  qed
  from unlink_any [OF assms(1), of "ShelfFile q"] obtain c w' where
    "sf_Destroy (ShelfFile q) w = Inr (c, w')" "quiet w'" "inodes w' = inodes w" "next_ino w' = next_ino w"
    "lookup w' = (lookup w)(q := None)" by (auto simp: ShelfFile_def)
  with r o assms(1) show ?thesis by auto
qed

lemma remove_loop_spec:
  assumes "quiet w" "i < 128" "v < 2 ^ 15" "\<And>q. q \<in> set qs \<Longrightarrow> touches p i q \<Longrightarrow> own_file p i q"
  shows "\<exists>r w'. remove_old_loop p (of_nat i) (of_nat v) qs f w = Inr (r, w') \<and> quiet w' \<and> inodes w' = inodes w \<and>
    next_ino w' = next_ino w \<and> lookup w' = (\<lambda>q. if q \<in> set qs \<and> obsolete p i v q then None else lookup w q)"
  using assms
proof (induction qs arbitrary: f w)
  case (Cons q qs)
  from remove_entry_spec [OF Cons.prems(1-3), of p q] Cons.prems(4) obtain r w1 where w1:
    "remove_old_entry p (of_nat i) (of_nat v) q w = Inr (r, w1)" "quiet w1" "inodes w1 = inodes w" "next_ino w1 = next_ino w"
    "lookup w1 = (if obsolete p i v q then (lookup w)(q := None) else lookup w)" by auto
  from Cons.IH [OF w1(2) Cons.prems(2,3), of "f \<or> r"] Cons.prems(4) obtain r' w' where w':
    "remove_old_loop p (of_nat i) (of_nat v) qs (f \<or> r) w1 = Inr (r', w')" "quiet w'" "inodes w' = inodes w1"
    "next_ino w' = next_ino w1" "lookup w' = (\<lambda>q. if q \<in> set qs \<and> obsolete p i v q then None else lookup w1 q)" by auto
  from w1 w' show ?case by (intro exI [of _ r'] exI [of _ w']) (auto simp: fun_eq_iff)
qed simp

lemma RemoveOld_spec:
  assumes "quiet w" "i < 128" "v < 2 ^ 15" "names_ok p w"
  shows "\<exists>r w'. RemoveOldShelfFiles p (of_nat i) (of_nat v) w = Inr (r, w') \<and> quiet w' \<and> inodes w' = inodes w \<and>
    next_ino w' = next_ino w \<and> lookup w' = (\<lambda>q. if obsolete p i v q then None else lookup w q)"
proof -
  have "own_file p i q" if "q \<in> set (dir_entries (p_base p) w)" "touches p i q" for q
    using assms(2,4) that unfolding names_ok_def dir_entries_iff by blast
  from remove_loop_spec [OF assms(1-3) this] obtain r w' where w':
    "RemoveOldShelfFiles p (of_nat i) (of_nat v) w = Inr (r, w')" "quiet w'" "inodes w' = inodes w" "next_ino w' = next_ino w"
    "lookup w' = (\<lambda>q. if q \<in> set (dir_entries (p_base p) w) \<and> obsolete p i v q then None else lookup w q)"
    unfolding RemoveOldShelfFiles_def by blast
  have "v \<le> 2 ^ 16" using assms(3) by simp
  then have "in_dir (p_base p) q" if "obsolete p i v q" for q
    using own_in_dir [OF assms(4) obsolete_own [OF that]] by simp
  then have "lookup w' = (\<lambda>q. if obsolete p i v q then None else lookup w q)"
    unfolding w'(5) fun_eq_iff by (auto simp: dir_entries_iff)
  with w' show ?thesis by blast
qed

lemma names_ok_fewer: "names_ok p w \<Longrightarrow> (\<And>q. lookup w' q \<noteq> None \<Longrightarrow> lookup w q \<noteq> None) \<Longrightarrow> names_ok p w'"
  unfolding names_ok_def by blast

section \<open>The pass over the slots\<close>

definition inconsistent :: "pool \<Rightarrow> world \<Rightarrow> nat \<Rightarrow> bool" where
  "inconsistent p w i \<longleftrightarrow> 0 < version_of p w i \<and> (used p w i \<longleftrightarrow> lookup w (slot_path p i (version_of p w i)) = None)"

definition outdated :: "pool \<Rightarrow> world \<Rightarrow> nat \<Rightarrow> string \<Rightarrow> bool" where
  "outdated p w i q \<longleftrightarrow> 0 < version_of p w i \<and> obsolete p i (version_of p w i) q"

lemma recover_slot_spec:
  assumes "pool_open p w" "quiet w" "names_ok p w" "i < 128" "used p w i \<Longrightarrow> 0 < version_of p w i"
  shows "\<exists>w'. recover_slot p (of_nat i) ret w = Inr (if inconsistent p w i then POOL_INCONSISTENCY_FOUND else ret, w') \<and>
    quiet w' \<and> inodes w' = inodes w \<and> next_ino w' = next_ino w \<and>
    lookup w' = (\<lambda>q. if outdated p w i q then None else lookup w q)"
proof -
  let ?v = "version_of p w i"
  have vlt: "?v < 2 ^ 15" using pool_slot(2) [OF assms(1,4)] .
  have ver: "GetVersionNum (LoadFromFAM (pool_items p w) i) = of_nat ?v"
    by (simp add: version_of_def)
  have vz: "GetVersionNum (LoadFromFAM (pool_items p w) i) = 0 \<longleftrightarrow> ?v = 0"
    by (simp add: version_of_def unat_eq_0)
  have val: "TestValidBit (LoadFromFAM (pool_items p w) i) = used p w i"
    by (simp add: used_def TestValidBitWithIndex_def)
  from RemoveOld_spec [OF assms(2,4) vlt assms(3)] obtain r w' where w':
    "RemoveOldShelfFiles p (of_nat i) (of_nat ?v) w = Inr (r, w')" "quiet w'" "inodes w' = inodes w" "next_ino w' = next_ino w"
    "lookup w' = (\<lambda>q. if obsolete p i ?v q then None else lookup w q)" by blast
  have vf: "sf_Exist (versioned_file p (of_nat i) (of_nat ?v)) w' \<longleftrightarrow> lookup w (slot_path p i ?v) \<noteq> None"
  proof -
    have "unat (of_nat ?v :: item) = ?v" using vlt by (simp add: unat_of_nat take_bit_nat_eq_self)
    then have "sf_path (versioned_file p (of_nat i) (of_nat ?v)) = slot_path p i ?v"
      by (simp add: versioned_file_def ShelfFile_def slot_path_def)
    with current_not_obsolete [OF assms(4,4), of p "version_of p w"] show ?thesis by (simp add: sf_Exist_def w'(5))
  qed
  show ?thesis
  proof (cases "?v = 0")
    case True
    then have "\<not> used p w i" using assms(5) by auto
    then have "recover_slot p (of_nat i) ret w = Inr (ret, w)"
      using shelf_id_ok(2) [OF assms(1,4)] True vz
      by (simp add: recover_slot_def read_items_eq [OF assms(1)] unat_u8 [OF assms(4)] val Let_def)
    with True assms(2) show ?thesis by (simp add: inconsistent_def outdated_def)
  next
    case False
    then have "recover_slot p (of_nat i) ret w = Inr (if inconsistent p w i then POOL_INCONSISTENCY_FOUND else ret, w')"
      using shelf_id_ok(2) [OF assms(1,4)] vz w'(1) vf
      by (simp add: recover_slot_def read_items_eq [OF assms(1)] unat_u8 [OF assms(4)] val ver inconsistent_def Let_def)
    with False w' show ?thesis by (simp add: outdated_def)
  qed
qed

lemma recover_slots_spec:
  assumes "pool_open p w" "quiet w" "names_ok p w" "\<forall>i \<in> set is. i < 128" "\<forall>i < 128. used p w i \<longrightarrow> 0 < version_of p w i"
  shows "\<exists>w'. recover_slots p is ret w =
      Inr (if \<exists>i \<in> set is. inconsistent p w i then POOL_INCONSISTENCY_FOUND else ret, w') \<and>
    quiet w' \<and> inodes w' = inodes w \<and> next_ino w' = next_ino w \<and>
    lookup w' = (\<lambda>q. if \<exists>i \<in> set is. outdated p w i q then None else lookup w q)"
  using assms
proof (induction "is" arbitrary: ret w)
  case (Cons i "is")
  have i: "i < 128" using Cons.prems(4) by simp
  from recover_slot_spec [OF Cons.prems(1-3) i, of ret] Cons.prems(5) i obtain w1 where w1:
    "recover_slot p (of_nat i) ret w = Inr (if inconsistent p w i then POOL_INCONSISTENCY_FOUND else ret, w1)"
    "quiet w1" "inodes w1 = inodes w" "next_ino w1 = next_ino w"
    "lookup w1 = (\<lambda>q. if outdated p w i q then None else lookup w q)" by blast
  have its: "pool_items p w1 = pool_items p w" using w1(3) pool_items_cong by metis
  have o1: "pool_open p w1" and C: "version_of p w1 = version_of p w" "used p w1 = used p w"
    using pool_open_cong [OF Cons.prems(1) its] w1(4) by simp_all
  have n1: "names_ok p w1" by (rule names_ok_fewer [OF Cons.prems(3)]) (auto simp: w1(5) split: if_splits)
  let ?ret = "if inconsistent p w i then POOL_INCONSISTENCY_FOUND else ret"
  have ih: "\<exists>w'. recover_slots p is ?ret w1 =
      Inr (if \<exists>i \<in> set is. inconsistent p w1 i then POOL_INCONSISTENCY_FOUND else ?ret, w') \<and>
    quiet w' \<and> inodes w' = inodes w1 \<and> next_ino w' = next_ino w1 \<and>
    lookup w' = (\<lambda>q. if \<exists>i \<in> set is. outdated p w1 i q then None else lookup w1 q)"
    by (rule Cons.IH [OF o1 w1(2) n1]) (use Cons.prems(4,5) C in simp_all)
  have inc: "inconsistent p w1 j = inconsistent p w j" if "j < 128" for j
    using current_not_obsolete [OF i that, of p "version_of p w"]
    by (simp add: inconsistent_def C w1(5) outdated_def)
  have "(\<exists>j \<in> set is. inconsistent p w1 j) = (\<exists>j \<in> set is. inconsistent p w j)"
    using inc Cons.prems(4) by auto
  moreover have "outdated p w1 = outdated p w" by (intro ext) (simp add: outdated_def C)
  ultimately show ?case using ih w1 by (auto simp: fun_eq_iff)
qed simp

lemma recover_spec:
  assumes "pool_open p w" "quiet w" "names_ok p w" "\<forall>i < 128. used p w i \<longrightarrow> 0 < version_of p w i"
  shows "\<exists>w'. pool_Recover p w =
      Inr (if \<exists>i < 128. inconsistent p w i then POOL_INCONSISTENCY_FOUND else NO_ERROR, w') \<and>
    quiet w' \<and> inodes w' = inodes w \<and> next_ino w' = next_ino w \<and>
    lookup w' = (\<lambda>q. if \<exists>i < 128. outdated p w i q then None else lookup w q)"
proof -
  have "unat kMaxShelfCount = 128" by (simp add: kMaxShelfCount_value)
  with recover_slots_spec [OF assms(1-3), of "[0..<128]" NO_ERROR] assms(4) pool_open_basic(1) [OF assms(1)] show ?thesis
    by (simp add: pool_Recover_def Bex_def)
qed

end
