(* ===== verification/Pool_Create.thy ===== *)
theory Pool_Create
  imports Pool_Correct
begin

text \<open>
  Creating a pool and opening it, when no system call fails: the metadata shelf is written,
  unmapped and closed, and opening it again gives a pool that satisfies the invariant and has no
  shelves.
\<close>

section \<open>The metadata shelf\<close>

lemma cut_zero: "cut_area n zero_area = zero_area"
  by (simp add: cut_area_def cut_word_def zero_area_def zero_members_def)

lemma create_sized:
  assumes "quiet w" "sf_fd sf = None" "lookup w (sf_path sf) = None" "0 < len" "\<not> bit len 63"
  shows "\<exists>w'. sf_Create sf mode len w = (NO_ERROR, sf, w') \<and> quiet w' \<and>
    inodes w' = (inodes w)(next_ino w := \<lparr>i_mode = mode, i_size = len, i_area = zero_area\<rparr>) \<and>
    next_ino w' = Suc (next_ino w) \<and> lookup w' = (lookup w)(sf_path sf := Some (next_ino w))"
proof -
  have "sf\<lparr>sf_fd := None\<rparr> = sf" using assms(2) by simp
  with assms show ?thesis
    by (simp add: sf_Create_def sf_Exist_def sf_IsOpen_def sf_Close_def sf_Truncate_def sys_creat_def sys_close_def
        sys_ftruncate_def sys_truncate_ino_def quiet_call cut_zero Let_def)
      (simp add: lookup_def fun_eq_iff)
qed

lemma open_map_spec:
  assumes "quiet w" "sf_fd (p_meta p) = None" "lookup w (sf_path (p_meta p)) = Some n"
  shows "\<exists>a w'. OpenMapMetadataShelf p w = Inr (NO_ERROR, p\<lparr>p_meta := (p_meta p)\<lparr>sf_fd := Some n\<rparr>,
      p_size := i_size (inodes w n), p_addr := Some (a, n)\<rparr>, w') \<and>
    quiet w' \<and> inodes w' = inodes w \<and> next_ino w' = next_ino w \<and> lookup w' = lookup w"
  using assms
  by (simp add: OpenMapMetadataShelf_def sf_Open_def sf_IsOpen_def sf_Exist_def sys_open_def sf_Size_def sys_fstat_def
      sf_Map_range_def sys_mmap_def fam_atomic_register_region_def quiet_call Let_def) blast

lemma unmap_close_spec:
  assumes "quiet w" "sf_fd (p_meta p) = Some n"
  shows "\<exists>w'. UnmapCloseMetadataShelf p w =
      (NO_ERROR, p\<lparr>p_addr := None, p_size := 0, p_meta := (p_meta p)\<lparr>sf_fd := None\<rparr>\<rparr>, w') \<and>
    quiet w' \<and> inodes w' = inodes w \<and> next_ino w' = next_ino w \<and> lookup w' = lookup w"
  using assms
  by (simp add: UnmapCloseMetadataShelf_def sf_Unmap_range_def sys_munmap_def sf_Close_def sf_IsOpen_def sys_close_def
      quiet_call Let_def)

definition fresh_table :: members where
  "fresh_table = \<lparr>magic_num = membership_kMagicNum, m_size = 8256, m_item_count = 128, m_items = (\<lambda>_. 0)\<rparr>"

lemma membership_Create_fresh:
  "membership_Create (membership_new (kMetadataShelfSize - kCacheLineSize)) zero_members kMaxShelfCount =
    Inr (NO_ERROR, \<lparr>ms_is_open = False, ms_size = 8256, ms_item_count = 0\<rparr>, fresh_table)"
  by (simp add: membership_Create_def membership_new_def kMetadataShelfSize_def kCacheLineSize_def kMaxShelfCount_value
      sizeof_membership_header_def sizeof_CacheLine_def round_up_def fresh_table_def zero_members_def fun_eq_iff Let_def)

lemma membership_Open_fresh:
  "membership_Open (membership_new (kMetadataShelfSize - kCacheLineSize)) fresh_table =
    Inr (NO_ERROR, \<lparr>ms_is_open = True, ms_size = 8256, ms_item_count = 128\<rparr>)"
  by (simp add: membership_Open_def membership_new_def kMetadataShelfSize_def kCacheLineSize_def membership_Verify_def
      fresh_table_def word_less_nat_alt)

section \<open>Create and open\<close>

definition meta_path :: "pool \<Rightarrow> string" where
  "meta_path p = sf_path (p_meta p)"

lemma Pool_new_fields:
  assumes "Pool_new base user pid = Inr p"
  shows "p_prefix p = shelf_name_prefix base user (''NVMM'' @ [underscore] @ ''Shelf'')" "p_base p = base" "p_id p = pid"
    "pid < kMaxPoolCount" "\<not> p_is_open p" "sf_fd (p_meta p) = None"
    "meta_path p = p_prefix p @ underscore # to_string 0 @ underscore # to_string (unat pid)"
  using assms
  by (auto simp: Pool_new_def ShelfFile_def meta_path_def shelf_path_str_def kMetadataPoolId_def Let_def split: if_splits)

lemma meta_not_slot:
  assumes "Pool_new base user pid = Inr p"
  shows "meta_path p \<noteq> slot_path p i v"
proof
  assume "meta_path p = slot_path p i v"
  then have "to_string 0 @ underscore # to_string (unat pid) =
      to_string (unat pid) @ underscore # to_string (unat (of_nat i :: u8)) @ underscore # to_string v"
    using Pool_new_fields(3,7) [OF assms]
    by (simp add: slot_path_def shelf_path_def shelf_id_fields to_string_ne Let_def)
  from split_underscore [OF this no_underscore no_underscore]
  have "to_string (unat pid) = to_string (unat (of_nat i :: u8)) @ underscore # to_string v" by simp
  then have "underscore \<in> set (to_string (unat pid))" by simp
  with no_underscore show False by blast
qed

lemma create_spec_pool:
  assumes "Pool_new base user pid = Inr p" "quiet w" "lookup w (meta_path p) = None"
  shows "\<exists>w'. pool_Create p sz mode w = Inr (NO_ERROR, p\<lparr>p_addr := None, p_size := 0\<rparr>, w') \<and> quiet w' \<and>
    lookup w' = (lookup w)(meta_path p := Some (next_ino w)) \<and> next_ino w' = Suc (next_ino w) \<and>
    inodes w' (next_ino w) = \<lparr>i_mode = mode, i_size = kMetadataShelfSize, i_area = \<lparr>size_word = sz, table = fresh_table, cells = (\<lambda>_. 0)\<rparr>\<rparr> \<and>
    (\<forall>k. k \<noteq> next_ino w \<longrightarrow> inodes w' k = inodes w k)"
proof -
  note P = Pool_new_fields [OF assms(1)]
  let ?m = "p_meta p" and ?n = "next_ino w"
  have len: "0 < kMetadataShelfSize" "\<not> bit kMetadataShelfSize 63" by code_simp+
  from create_sized [OF assms(2) P(6) _ len] assms(3) obtain w1 where w1:
    "sf_Create ?m mode kMetadataShelfSize w = (NO_ERROR, ?m, w1)" "quiet w1"
    "inodes w1 = (inodes w)(?n := \<lparr>i_mode = mode, i_size = kMetadataShelfSize, i_area = zero_area\<rparr>)"
    "next_ino w1 = Suc ?n" "lookup w1 = (lookup w)(meta_path p := Some ?n)"
    by (auto simp: meta_path_def)
  have "lookup w1 (sf_path (p_meta p)) = Some ?n" by (simp add: w1(5) meta_path_def)
  from open_map_spec [OF w1(2) P(6) this] obtain a w2 where w2:
    "OpenMapMetadataShelf p w1 = Inr (NO_ERROR, p\<lparr>p_meta := ?m\<lparr>sf_fd := Some ?n\<rparr>, p_size := kMetadataShelfSize,
       p_addr := Some (a, ?n)\<rparr>, w2)"
    "quiet w2" "inodes w2 = inodes w1" "next_ino w2 = next_ino w1" "lookup w2 = lookup w1"
    by (auto simp: w1(3))
  let ?p = "p\<lparr>p_meta := ?m\<lparr>sf_fd := Some ?n\<rparr>, p_size := kMetadataShelfSize, p_addr := Some (a, ?n)\<rparr>"
  let ?w3 = "write_area ?p \<lparr>size_word = sz, table = fresh_table, cells = (\<lambda>_. 0)\<rparr> (write_area ?p (zero_area\<lparr>size_word := sz\<rparr>) w2)"
  have w3: "quiet ?w3" "next_ino ?w3 = Suc ?n" "lookup ?w3 = lookup w1"
    "inodes ?w3 = (inodes w)(?n := \<lparr>i_mode = mode, i_size = kMetadataShelfSize, i_area = \<lparr>size_word = sz, table = fresh_table, cells = (\<lambda>_. 0)\<rparr>\<rparr>)"
    using w2 w1 by (simp_all add: write_area_def)
  from unmap_close_spec [OF w3(1), of ?p ?n] obtain w4 where w4:
    "UnmapCloseMetadataShelf ?p ?w3 = (NO_ERROR, p\<lparr>p_addr := None, p_size := 0\<rparr>, w4)" "quiet w4" "inodes w4 = inodes ?w3"
    "next_ino w4 = next_ino ?w3" "lookup w4 = lookup ?w3" using P(6) by auto
  have "\<not> pool_Exist p w" using assms(3) by (simp add: pool_Exist_def sf_Exist_def meta_path_def)
  moreover have "p\<lparr>p_meta := ?m\<rparr> = p" by simp
  moreover have "read_area ?p w2 = Inr zero_area" by (simp add: read_area_def w2(3) w1(3))
  ultimately have "pool_Create p sz mode w = Inr (NO_ERROR, p\<lparr>p_addr := None, p_size := 0\<rparr>, w4)"
    using P(5) w1(1) w2(1) w4(1) membership_Create_fresh
    by (simp add: pool_Create_def zero_area_def Let_def)
  with w4 w3 w1(5) show ?thesis by simp
qed

lemma open_spec_pool:
  assumes "Pool_new base user pid = Inr p" "quiet w" "lookup w (meta_path p) = Some n" "n < next_ino w"
    "i_size (inodes w n) = kMetadataShelfSize" "i_area (inodes w n) = \<lparr>size_word = sz, table = fresh_table, cells = (\<lambda>_. 0)\<rparr>"
    "\<And>i v. i < 128 \<Longrightarrow> lookup w (slot_path p i v) = None"
  shows "\<exists>q w'. pool_Open False (p\<lparr>p_addr := None, p_size := 0\<rparr>) w = Inr (NO_ERROR, q, w') \<and> quiet w' \<and>
    pool_ok q w' \<and> shelves q w' = Map.empty \<and> p_shelf_size q = sz \<and> slot_path q = slot_path p \<and> lookup w' = lookup w \<and>
    p_prefix q = p_prefix p \<and> p_base q = p_base p \<and> p_id q = p_id p \<and>
    (\<forall>i. used q w' i = False \<and> version_of q w' i = 0)"
proof -
  note P = Pool_new_fields [OF assms(1)]
  let ?p0 = "p\<lparr>p_addr := None, p_size := 0\<rparr>"
  have "sf_fd (p_meta ?p0) = None" "lookup w (sf_path (p_meta ?p0)) = Some n" using P(6) assms(3) by (simp_all add: meta_path_def)
  from open_map_spec [OF assms(2) this] obtain a w1 where w1:
    "OpenMapMetadataShelf ?p0 w = Inr (NO_ERROR, p\<lparr>p_meta := (p_meta p)\<lparr>sf_fd := Some n\<rparr>, p_size := kMetadataShelfSize,
       p_addr := Some (a, n)\<rparr>, w1)"
    "quiet w1" "inodes w1 = inodes w" "next_ino w1 = next_ino w" "lookup w1 = lookup w"
    by (auto simp: assms(5))
  let ?ms = "\<lparr>ms_is_open = True, ms_size = 8256, ms_item_count = 128\<rparr>"
  let ?q = "p\<lparr>p_meta := (p_meta p)\<lparr>sf_fd := Some n\<rparr>, p_size := kMetadataShelfSize, p_addr := Some (a, n),
    p_shelf_size := sz, p_ms := Some ?ms, p_is_open := True\<rparr>"
  have ex: "pool_Exist ?p0 w" using assms(3) by (simp add: pool_Exist_def sf_Exist_def meta_path_def)
  have op: "pool_Open False ?p0 w = Inr (NO_ERROR, ?q, w1)"
    using P(5) ex w1(1) membership_Open_fresh
    by (simp add: pool_Open_def read_area_def w1(3) assms(6) Let_def)
  have its: "pool_items ?q w1 = (\<lambda>_. 0)" by (simp add: pool_items_def w1(3) assms(6) fresh_table_def)
  have z: "mk_item 0 False = 0" by (rule bit_word_eqI) (simp add: bit_mk_item)
  have s: "slot_holds (pool_items ?q w1) i 0 False" for i by (simp add: its slot_holds_def z)
  then have f: "version_of ?q w1 i = 0" "used ?q w1 i = False" for i using slot_facts [OF s] by simp_all
  have sp: "slot_path ?q = slot_path p" by (rule slot_path_eq) simp_all
  have "pool_open ?q w1"
    using P(3,4) assms(4) s w1(4) unfolding pool_open_def by (intro conjI) (simp, simp, simp, simp, meson zero_less_power zero_less_numeral)
  then have "pool_ok ?q w1"
    unfolding pool_ok_def sp f using assms(7) w1(5) by simp
  moreover have "shelves ?q w1 = Map.empty" by (simp add: shelves_def f fun_eq_iff)
  ultimately show ?thesis using op sp w1 f by (intro exI [of _ ?q] exI [of _ w1]) simp
qed

lemma create_open_spec:
  assumes "Pool_new base user pid = Inr p" "quiet w" "lookup w (meta_path p) = None"
    "\<And>i v. i < 128 \<Longrightarrow> lookup w (slot_path p i v) = None"
  shows "\<exists>p1 w1 q w'. pool_Create p sz mode w = Inr (NO_ERROR, p1, w1) \<and>
    pool_Open False p1 w1 = Inr (NO_ERROR, q, w') \<and> quiet w' \<and>
    pool_ok q w' \<and> shelves q w' = Map.empty \<and> p_shelf_size q = sz \<and>
    lookup w' = (lookup w)(meta_path p := Some (next_ino w)) \<and>
    p_prefix q = p_prefix p \<and> p_base q = p_base p \<and> p_id q = p_id p \<and>
    (\<forall>i. used q w' i = False \<and> version_of q w' i = 0)"
proof -
  from create_spec_pool [OF assms(1-3)] obtain w1 where w1:
    "pool_Create p sz mode w = Inr (NO_ERROR, p\<lparr>p_addr := None, p_size := 0\<rparr>, w1)" "quiet w1"
    "lookup w1 = (lookup w)(meta_path p := Some (next_ino w))" "next_ino w1 = Suc (next_ino w)"
    "inodes w1 (next_ino w) = \<lparr>i_mode = mode, i_size = kMetadataShelfSize, i_area = \<lparr>size_word = sz, table = fresh_table, cells = (\<lambda>_. 0)\<rparr>\<rparr>"
    by blast
  have "lookup w1 (slot_path p i v) = None" if "i < 128" for i v
    using meta_not_slot [OF assms(1), of i v] assms(4) [OF that] by (simp add: w1(3))
  from open_spec_pool [OF assms(1) w1(2), of "next_ino w" sz, OF _ _ _ _ this] w1(3-5)
  obtain q w' where "pool_Open False (p\<lparr>p_addr := None, p_size := 0\<rparr>) w1 = Inr (NO_ERROR, q, w')" "quiet w'" "pool_ok q w'"
    "shelves q w' = Map.empty" "p_shelf_size q = sz" "lookup w' = lookup w1" "p_prefix q = p_prefix p" "p_base q = p_base p"
    "p_id q = p_id p" "\<forall>i. used q w' i = False \<and> version_of q w' i = 0"
    by auto
  with w1 show ?thesis by metis
qed

end
