(* ===== verification/Pool_Props.thy ===== *)
theory Pool_Props
  imports Pool_Add Pool_Recovery Pool_Create
begin

text \<open>
  The properties of pools: adding and removing shelves, the life of a pool, recovery after a
  crash, and what the queries of a closed pool answer.
\<close>

section \<open>An example pool\<close>

definition example_pool :: pool where
  "example_pool = (case Pool_new ''/dev/shm'' ''gull'' 5 of Inr p \<Rightarrow> p)"

lemma example_new: "Pool_new ''/dev/shm'' ''gull'' 5 = Inr example_pool"
proof -
  have "(5 :: PoolId) < kMaxPoolCount" by code_simp
  then show ?thesis by (simp add: example_pool_def Pool_new_def Let_def)
qed

lemma example_quiet: "quiet empty_world"
  by (simp add: quiet_def empty_world_def quiet_env_def)

lemma empty_lookup: "lookup empty_world q = None"
  by (simp add: lookup_def empty_world_def)

text \<open>The metadata file is no file of a slot.\<close>

lemma meta_untouched: "\<not> touches p i (meta_path example_pool)"
  if "p_prefix p = p_prefix example_pool" "p_id p = p_id example_pool" for p
proof
  assume "touches p i (meta_path example_pool)"
  then obtain a b where "slot_prefix p i @ a = meta_path example_pool @ b"
    unfolding touches_def using take_min_eq by blast
  then have "to_string (unat (p_id p)) @ underscore # to_string (unat (of_nat i :: u8)) @ underscore # a =
      to_string 0 @ underscore # to_string (unat (5 :: PoolId)) @ b"
    using Pool_new_fields(7) [OF example_new] that by (simp add: slot_prefix_eq)
  from split_underscore [OF this no_underscore no_underscore] have "unat (p_id p) = 0"
    by (simp add: to_string_inject)
  then show False using that(2) Pool_new_fields(3) [OF example_new] by simp
qed

lemma example_open:
  "\<exists>p1 w1 q w'. pool_Create example_pool 4096 mode empty_world = Inr (NO_ERROR, p1, w1) \<and>
    pool_Open False p1 w1 = Inr (NO_ERROR, q, w') \<and> quiet w' \<and>
    pool_ok q w' \<and> shelves q w' = Map.empty \<and> p_shelf_size q = 4096 \<and>
    lookup w' = [meta_path example_pool \<mapsto> 0] \<and>
    p_prefix q = p_prefix example_pool \<and> p_base q = p_base example_pool \<and> p_id q = p_id example_pool \<and>
    (\<forall>i. used q w' i = False \<and> version_of q w' i = 0)"
proof -
  have e: "lookup empty_world = Map.empty" by (rule ext) (rule empty_lookup)
  have z: "next_ino empty_world = 0" by (simp add: empty_world_def)
  show ?thesis
    using create_open_spec [OF example_new example_quiet empty_lookup empty_lookup, of 4096 mode]
    unfolding e z by simp
qed

definition open_example :: "pool \<times> world" where
  "open_example =
     (case pool_Create example_pool 4096 0x1B0 empty_world of
        Inr (_, p1, w1) \<Rightarrow> (case pool_Open False p1 w1 of Inr (_, q, w) \<Rightarrow> (q, w)))"

lemma open_example_facts:
  assumes "open_example = (q, w)"
  shows "quiet w" "pool_ok q w" "shelves q w = Map.empty" "p_shelf_size q = 4096" "lookup w = [meta_path example_pool \<mapsto> 0]"
    "p_prefix q = p_prefix example_pool" "p_base q = p_base example_pool" "p_id q = p_id example_pool"
    "\<And>i. \<not> used q w i" "\<And>i. version_of q w i = 0"
  using example_open [of "0x1B0"] assms by (auto simp: open_example_def)

lemma names_ok_only:
  assumes "p_prefix q = p_prefix example_pool" "p_base q = p_base example_pool" "p_id q = p_id example_pool"
    "\<And>f. lookup w f \<noteq> None \<Longrightarrow> f = meta_path example_pool \<or> (\<exists>j < 128. own_file q j f)"
  shows "names_ok q w"
  unfolding names_ok_def
proof (intro conjI allI impI)
  have "CHR ''/'' \<noteq> underscore" using slash_not_in by simp
  then show "\<exists>name. p_prefix q = p_base q @ ''/'' @ name \<and> CHR ''/'' \<notin> set name"
    using assms(1,2) Pool_new_fields(1,2) [OF example_new]
    by (intro exI [of _ "''gull'' @ [underscore] @ ''NVMM'' @ [underscore] @ ''Shelf''"]) (simp add: shelf_name_prefix_def)
  fix f i
  assume "lookup w f \<noteq> None \<and> in_dir (p_base q) f \<and> i < 128 \<and> touches q i f"
  then show "own_file q i f"
    using assms(4) meta_untouched [OF assms(1,3)] touches_own by blast
qed

lemma tmp_path_own: "tmp_path p (of_nat i) v = add_path p i (unat v)" "own_file p i (tmp_path p (of_nat i) v)"
proof -
  show "tmp_path p (of_nat i) v = add_path p i (unat v)" by (simp add: tmp_path_def add_path_def)
  moreover have "unat v < 2 ^ 16" using unsigned_less [of v] by simp
  ultimately show "own_file p i (tmp_path p (of_nat i) v)" unfolding own_file_def by blast
qed

section \<open>Adding and removing\<close>

text \<open>C11: \<open>AddShelf\<close> on a pool with a free slot returns success. The shelf gets the requested
  slot if it is free and some other free slot otherwise, with the slot's next version; its file
  has the pool's shelf size and the name that \<open>GetShelfPath\<close> answers from then on; no other file
  and no other slot changes, and the invariant of the pool is kept.\<close>

theorem pool_add_shelf:
  assumes "pool_ok p w" "quiet w" "idx < 128" "\<not> bit (p_shelf_size p) 63" "\<exists>i < 128. \<not> used p w i"
    "\<And>i. i < 128 \<Longrightarrow> \<not> used p w i \<Longrightarrow> Suc (version_of p w i) < 2 ^ 15"
    "lookup w (tmp_path p (of_nat idx) (rand_at (env w) (calls w))) = None"
  shows "\<exists>i w' n path. AddShelf p (of_nat idx) True w = Some (Inr (NO_ERROR, of_nat i, w')) \<and>
    i < 128 \<and> shelves p w i = None \<and> (shelves p w idx = None \<longrightarrow> i = idx) \<and>
    shelves p w' = (shelves p w)(i \<mapsto> Suc (version_of p w i)) \<and> pool_ok p w' \<and>
    GetShelfPath p (of_nat i) w' = Inr (NO_ERROR, Some path) \<and>
    lookup w' = (lookup w)(path \<mapsto> n) \<and> i_size (inodes w' n) = p_shelf_size p"
proof -
  from add_shelf_spec [OF assms] obtain i w' where a: "AddShelf p (of_nat idx) True w = Some (Inr (NO_ERROR, of_nat i, w'))"
    "i < 128" "\<not> used p w i" "\<not> used p w idx \<longrightarrow> i = idx" "quiet w'" "pool_ok p w'"
    "shelves p w' = (shelves p w)(i \<mapsto> Suc (version_of p w i))"
    "lookup w' = (lookup w)(slot_path p i (Suc (version_of p w i)) := Some (next_ino w))"
    "i_size (inodes w' (next_ino w)) = p_shelf_size p" by blast
  have "shelves p w' i = Some (Suc (version_of p w i))" by (simp add: a(7))
  then have "used p w' i" "version_of p w' i = Suc (version_of p w i)" by (simp_all add: shelves_def split: if_splits)
  then have "GetShelfPath p (of_nat i) w' = Inr (NO_ERROR, Some (slot_path p i (Suc (version_of p w i))))"
    using query_specs(2) [OF pool_okD(1) [OF a(6)] a(2)] by simp
  with a assms(3) show ?thesis
    by (intro exI [of _ i] exI [of _ w'] exI [of _ "next_ino w"] exI [of _ "slot_path p i (Suc (version_of p w i))"])
      (simp add: shelves_def)
qed

lemma example_add_args:
  assumes "open_example = (q, w)"
  shows "\<not> bit (p_shelf_size q) 63" "\<exists>i < 128. \<not> used q w i" "\<And>i. Suc (version_of q w i) < 2 ^ 15"
    "lookup w (tmp_path q (of_nat i) v) = None"
proof -
  note F = open_example_facts [OF assms]
  show "\<not> bit (p_shelf_size q) 63" unfolding F(4) by code_simp
  show "\<exists>i < 128. \<not> used q w i" using F(9) by (intro exI [of _ 0]) simp
  show "Suc (version_of q w i) < 2 ^ 15" for i by (simp add: F(10))
  have "tmp_path q (of_nat i) v \<noteq> meta_path example_pool"
    using own_touches [OF tmp_path_own(2), of q i v] meta_untouched [OF F(6,8), of i] by auto
  then show "lookup w (tmp_path q (of_nat i) v) = None" by (simp add: F(5))
qed

lemma pool_add_shelf_witness:
  "case open_example of (q, w) \<Rightarrow> \<exists>w' n path. AddShelf q 3 True w = Some (Inr (NO_ERROR, 3, w')) \<and>
     shelves q w' = [3 \<mapsto> 1] \<and> GetShelfPath q 3 w' = Inr (NO_ERROR, Some path) \<and> lookup w' path = Some n \<and>
     i_size (inodes w' n) = 4096"
proof (cases open_example)
  case (Pair q w)
  note F = open_example_facts [OF Pair] and A = example_add_args [OF Pair]
  have "(3 :: nat) < 128" by simp
  from pool_add_shelf [OF F(2,1) this A(1,2,3) A(4)] show ?thesis
    by (auto simp: Pair F(3,4,10))
qed

text \<open>C26: \<open>RemoveShelf\<close> of a shelf that is in the pool returns success, frees its slot and deletes
  exactly its file; the pool's invariant is kept. Removing it a second time changes nothing and
  reports that the shelf is not found.\<close>

theorem pool_remove_shelf:
  assumes "pool_ok p w" "quiet w" "i < 128" "shelves p w i = Some v" "Suc v < 2 ^ 15"
  shows "\<exists>path w'. GetShelfPath p (of_nat i) w = Inr (NO_ERROR, Some path) \<and>
    RemoveShelf p (of_nat i) w = Inr (NO_ERROR, w') \<and> shelves p w' = (shelves p w)(i := None) \<and> pool_ok p w' \<and>
    lookup w path \<noteq> None \<and> lookup w' = (lookup w)(path := None) \<and>
    (\<exists>w''. RemoveShelf p (of_nat i) w' = Inr (POOL_SHELF_NOT_FOUND, w'') \<and> shelves p w'' = shelves p w' \<and>
      lookup w'' = lookup w')"
proof -
  have o: "pool_open p w" using pool_okD(1) [OF assms(1)] .
  have u: "used p w i" "version_of p w i = v" using assms(4) by (simp_all add: shelves_def split: if_splits)
  obtain n where n: "lookup w (slot_path p i (version_of p w i)) = Some n" using pool_okD(3) [OF assms(1,3) u(1)] by blast
  have v: "Suc (version_of p w i) < 2 ^ 15" using assms(5) u(2) by simp
  from remove_spec [OF o assms(2,3) u(1) v n] obtain w' where w': "RemoveShelf p (of_nat i) w = Inr (NO_ERROR, w')"
    "next_ino w' = next_ino w" "pool_items p w' = (pool_items p w)(i := ucast (mk_item (Suc (version_of p w i)) False))"
    "lookup w' = (lookup w)(slot_path p i (version_of p w i) := None)" by blast
  have ok: "pool_ok p w'" by (rule pool_ok_remove [OF assms(1,3) u(1) v w'(2,3,4)])
  have s: "shelves p w' = (shelves p w)(i := None)"
    by (auto simp: shelves_def fun_eq_iff slot_update [OF w'(3) v])
  have nu: "\<not> used p w' i" by (simp add: slot_update(2) [OF w'(3) v])
  obtain a k where an: "p_addr p = Some (a, k)" using o by (auto elim: pool_openD)
  let ?w = "write_items p (pool_items p w') w'"
  have "RemoveShelf p (of_nat i) w' = Inr (POOL_SHELF_NOT_FOUND, ?w)"
    by (rule remove_free [OF pool_okD(1) [OF ok] assms(3) nu])
  moreover have "shelves p ?w = shelves p w'" "lookup ?w = lookup w'"
    unfolding shelves_def used_def version_of_def by (simp_all only: write_items_spec [OF an])
  moreover have "GetShelfPath p (of_nat i) w = Inr (NO_ERROR, Some (slot_path p i (version_of p w i)))"
    using query_specs(2) [OF o assms(3)] u(1) by simp
  ultimately show ?thesis using w' s ok n by (intro exI [of _ "slot_path p i (version_of p w i)"] exI [of _ w']) auto
qed

lemma example_with_shelf:
  "case open_example of (q, w) \<Rightarrow> \<exists>w'. AddShelf q 3 True w = Some (Inr (NO_ERROR, 3, w')) \<and> quiet w' \<and> pool_ok q w' \<and>
     shelves q w' = [3 \<mapsto> 1] \<and> names_ok q w' \<and> p_id q = 5"
proof (cases open_example)
  case (Pair q w)
  note F = open_example_facts [OF Pair] and A = example_add_args [OF Pair]
  have "(3 :: nat) < 128" by simp
  from add_shelf_spec [OF F(2,1) this A(1,2,3) A(4)] obtain w' where w':
    "AddShelf q 3 True w = Some (Inr (NO_ERROR, 3, w'))" "quiet w'" "pool_ok q w'" "shelves q w' = [3 \<mapsto> 1]"
    "lookup w' = (lookup w)(slot_path q 3 1 := Some (next_ino w))"
    by (auto simp: F(3,9,10))
  have "own_file q 3 (slot_path q 3 1)" unfolding own_file_def by (intro exI [of _ 1]) simp
  then have "names_ok q w'"
    by (intro names_ok_only [OF F(6,7,8)]) (auto simp: w'(5) F(5) split: if_splits)
  with w' Pool_new_fields(3) [OF example_new] F(8) show ?thesis by (simp add: Pair)
qed

lemma pool_remove_shelf_witness:
  "case open_example of (q, w) \<Rightarrow> \<exists>w' w''. AddShelf q 3 True w = Some (Inr (NO_ERROR, 3, w')) \<and>
     RemoveShelf q 3 w' = Inr (NO_ERROR, w'') \<and> shelves q w'' = Map.empty"
proof (cases open_example)
  case (Pair q w)
  obtain w' where w': "AddShelf q 3 True w = Some (Inr (NO_ERROR, 3, w'))" "quiet w'"
    "pool_ok q w'" "shelves q w' = [3 \<mapsto> 1]" using example_with_shelf unfolding Pair by auto
  from pool_remove_shelf [OF w'(3,2), of 3 1] w' show ?thesis by (auto simp: Pair)
qed

section \<open>The life of a pool\<close>

text \<open>\<open>Create\<close> of a pool that does not exist, followed by \<open>Open\<close>, succeeds and gives an open
  pool that satisfies the invariant, has the shelf size it was created with and no shelves; the
  only new file is the metadata shelf.\<close>

theorem pool_create_open:
  assumes "Pool_new base user pid = Inr p" "quiet w" "lookup w (meta_path p) = None"
    "\<And>i v. i < 128 \<Longrightarrow> lookup w (slot_path p i v) = None"
  shows "\<exists>p1 w1 q w'. pool_Create p sz mode w = Inr (NO_ERROR, p1, w1) \<and>
    pool_Open False p1 w1 = Inr (NO_ERROR, q, w') \<and> pool_ok q w' \<and> shelves q w' = Map.empty \<and>
    p_shelf_size q = sz \<and> (\<exists>n. lookup w' = (lookup w)(meta_path p \<mapsto> n))"
  using create_open_spec [OF assms, of sz mode] by blast

lemma pool_create_open_witness:
  "\<exists>p1 w1 q w'. pool_Create example_pool 4096 0x1B0 empty_world = Inr (NO_ERROR, p1, w1) \<and>
     pool_Open False p1 w1 = Inr (NO_ERROR, q, w') \<and> shelves q w' = Map.empty"
  using pool_create_open [OF example_new example_quiet, of 4096 "0x1B0"] by (auto simp: empty_lookup)

section \<open>Recovery\<close>

lemma pool_ok_file:
  assumes "pool_ok p w" "i < 128"
  shows "used p w i \<longleftrightarrow> lookup w (slot_path p i (version_of p w i)) \<noteq> None"
proof (cases "used p w i")
  case True
  then show ?thesis using pool_okD(3) [OF assms] by simp
next
  case False
  then show ?thesis
    using pool_okD(4) [OF assms pool_slot(2) [OF pool_okD(1) [OF assms(1)] assms(2)]] by simp
qed

text \<open>C27: \<open>Recover\<close> returns, for every table: it deletes the temporary files and the files of
  earlier versions of every slot that was ever used, and nothing else; it reports an
  inconsistency exactly when such a slot is used without its file or free with it. The table is
  not changed.\<close>

theorem pool_recover_correct:
  assumes "pool_open p w" "quiet w" "names_ok p w" "\<forall>i < 128. used p w i \<longrightarrow> 0 < version_of p w i"
  shows "\<exists>ret w'. pool_Recover p w = Inr (ret, w') \<and> shelves p w' = shelves p w \<and>
    (ret = NO_ERROR \<longleftrightarrow> (\<forall>i < 128. 0 < version_of p w i \<longrightarrow>
       (used p w i \<longleftrightarrow> lookup w (slot_path p i (version_of p w i)) \<noteq> None))) \<and>
    lookup w' = (\<lambda>q. if \<exists>i < 128. 0 < version_of p w i \<and>
        ((\<exists>u < 2 ^ 16. q = add_path p i u) \<or> (\<exists>u < version_of p w i. q = slot_path p i u))
      then None else lookup w q)"
proof -
  from recover_spec [OF assms] obtain w' where w':
    "pool_Recover p w = Inr (if \<exists>i < 128. inconsistent p w i then POOL_INCONSISTENCY_FOUND else NO_ERROR, w')"
    "inodes w' = inodes w" "next_ino w' = next_ino w"
    "lookup w' = (\<lambda>q. if \<exists>i < 128. outdated p w i q then None else lookup w q)" by blast
  have its: "pool_items p w' = pool_items p w" using w'(2) pool_items_cong by metis
  have s: "shelves p w' = shelves p w" unfolding shelves_def used_def version_of_def its ..
  have r: "(\<forall>i < 128. 0 < version_of p w i \<longrightarrow>
       (used p w i \<longleftrightarrow> lookup w (slot_path p i (version_of p w i)) \<noteq> None)) \<longleftrightarrow> \<not> (\<exists>i < 128. inconsistent p w i)"
    unfolding inconsistent_def by metis
  have l: "lookup w' = (\<lambda>q. if \<exists>i < 128. 0 < version_of p w i \<and>
      ((\<exists>u < 2 ^ 16. q = add_path p i u) \<or> (\<exists>u < version_of p w i. q = slot_path p i u)) then None else lookup w q)"
    unfolding w'(4) outdated_def obsolete_def ..
  show ?thesis
    unfolding r by (rule exI, rule exI [of _ w'], intro conjI, rule w'(1), rule s, simp, rule l)
qed

lemma pool_recover_correct_witness:
  "case open_example of (q, w) \<Rightarrow> \<exists>w' w''. AddShelf q 3 True w = Some (Inr (NO_ERROR, 3, w')) \<and>
     pool_Recover q w' = Inr (NO_ERROR, w'') \<and> shelves q w'' = [3 \<mapsto> 1]"
proof (cases open_example)
  case (Pair q w)
  obtain w' where w': "AddShelf q 3 True w = Some (Inr (NO_ERROR, 3, w'))" "quiet w'"
    "pool_ok q w'" "shelves q w' = [3 \<mapsto> 1]" "names_ok q w'" using example_with_shelf unfolding Pair by auto
  note c = pool_ok_file [OF w'(3)]
  have "\<forall>i < 128. used q w' i \<longrightarrow> 0 < version_of q w' i" using pool_okD(2) [OF w'(3)] by blast
  from pool_recover_correct [OF pool_okD(1) [OF w'(3)] w'(2,5) this] c w' show ?thesis by (auto simp: Pair)
qed

lemma recover_pool_ok:
  assumes "pool_ok p w" "quiet w" "names_ok p w"
  shows "\<exists>w'. pool_Recover p w = Inr (NO_ERROR, w') \<and> pool_ok p w' \<and> shelves p w' = shelves p w \<and>
    lookup w' = (\<lambda>q. if \<exists>i < 128. outdated p w i q then None else lookup w q)"
proof -
  have c: "\<not> inconsistent p w i" if "i < 128" for i
    using pool_ok_file [OF assms(1) that] unfolding inconsistent_def by simp
  have "\<forall>i < 128. used p w i \<longrightarrow> 0 < version_of p w i" using pool_okD(2) [OF assms(1)] by blast
  from recover_spec [OF pool_okD(1) [OF assms(1)] assms(2,3) this] c obtain w' where w':
    "pool_Recover p w = Inr (NO_ERROR, w')" "inodes w' = inodes w" "next_ino w' = next_ino w"
    "lookup w' = (\<lambda>q. if \<exists>i < 128. outdated p w i q then None else lookup w q)" by auto
  have its: "pool_items p w' = pool_items p w" using w'(2) pool_items_cong by metis
  note C = pool_open_cong [OF pool_okD(1) [OF assms(1)] its] 
  have C': "pool_open p w'" "version_of p w' = version_of p w" "used p w' = used p w" using C w'(3) by simp_all
  have n: "\<not> outdated p w i (slot_path p j (version_of p w j))" if "i < 128" "j < 128" for i j
    using current_not_obsolete [OF that, of p "version_of p w"] by (simp add: outdated_def)
  have "pool_ok p w'"
    unfolding pool_ok_def
  proof (intro conjI allI impI)
    show "pool_open p w'" by (rule C'(1))
    fix i
    assume "i < (128 :: nat)" "used p w' i"
    then have i: "i < 128" "used p w i" by (simp_all add: C')
    show "0 < version_of p w' i" using pool_okD(2) [OF assms(1) i] by (simp add: C')
    show "lookup w' (slot_path p i (version_of p w' i)) \<noteq> None"
      using pool_okD(3) [OF assms(1) i] n [OF _ i(1)] by (auto simp: C' w'(4))
  next
    fix i v
    assume "i < (128 :: nat)" "v < (2 :: nat) ^ 15" "version_of p w' i < v \<or> \<not> used p w' i \<and> v = version_of p w' i"
    with pool_okD(4) [OF assms(1)] show "lookup w' (slot_path p i v) = None" unfolding C' by (simp add: w'(4))
  qed
  moreover have "shelves p w' = shelves p w" by (simp add: shelves_def fun_eq_iff C')
  ultimately show ?thesis using w' by blast
qed

text \<open>A slot that is free while its file is still there is one of the states \<open>Recover\<close> deals with.\<close>

lemma freed_slot_ok:
  assumes "pool_ok p w" "p_addr p = Some (a, k)" "used p w i" "version_of p w i = v" "Suc v < 2 ^ 15"
  shows "pool_ok p (write_items p ((pool_items p w)(i := ucast (mk_item (Suc v) False))) w)"
proof -
  let ?its = "(pool_items p w)(i := ucast (mk_item (Suc v) False))"
  let ?w = "write_items p ?its w"
  note W = write_items_spec [OF assms(2), of ?its w] and U = slot_update [OF write_items_spec(1) [OF assms(2), of ?its w] assms(5)]
  show ?thesis
    unfolding pool_ok_def
  proof (intro conjI allI impI)
    show "pool_open p ?w" by (rule pool_open_update [OF pool_okD(1) [OF assms(1)] W(1) assms(5)]) (simp add: W)
    fix j
    assume "j < (128 :: nat)" "used p ?w j"
    then have j: "j < 128" "j \<noteq> i" "used p w j" by (simp_all add: U split: if_splits)
    show "0 < version_of p ?w j" using pool_okD(2) [OF assms(1) j(1,3)] by (simp add: U)
    show "lookup ?w (slot_path p j (version_of p ?w j)) \<noteq> None"
      using pool_okD(3) [OF assms(1) j(1,3)] j(2) by (simp add: U W)
  next
    fix j x
    assume j: "j < (128 :: nat)" "x < (2 :: nat) ^ 15" and c: "version_of p ?w j < x \<or> \<not> used p ?w j \<and> x = version_of p ?w j"
    then have "version_of p w j < x \<or> \<not> used p w j \<and> x = version_of p w j" using assms(4) by (auto simp: U split: if_splits)
    with pool_okD(4) [OF assms(1) j] show "lookup ?w (slot_path p j x) = None" by (simp add: W)
  qed
qed

lemma remove_crash_recovered:
  assumes "pool_ok p w" "quiet w" "names_ok p w" "i < 128"
    and v: "shelves p w i = Some v" "Suc v < 2 ^ 15"
  shows "\<exists>item its w'. MarkSlotFree (pool_items p w) i = (True, item, its) \<and>
    pool_Recover p (write_items p its w) = Inr (NO_ERROR, w') \<and> pool_ok p w' \<and>
    shelves p w' = (shelves p w)(i := None) \<and> lookup w' (slot_path p i v) = None"
proof -
  have o: "pool_open p w" using pool_okD(1) [OF assms(1)] .
  obtain a k where an: "p_addr p = Some (a, k)" using o by (auto elim: pool_openD)
  have u: "used p w i" "version_of p w i = v" using v(1) by (simp_all add: shelves_def split: if_splits)
  let ?its = "(pool_items p w)(i := ucast (mk_item (Suc v) False))"
  let ?w = "write_items p ?its w"
  have "slot_holds (pool_items p w) i v True" using pool_slot(1) [OF o assms(4)] u by simp
  then have f: "MarkSlotFree (pool_items p w) i = (True, mk_item v True, ?its)"
    by (simp add: MarkSlotFree_def MarkSlotFree_cas_def load_slot cas_slot inc_mk_item clear_valid_mk_item Let_def)
  note W = write_items_spec [OF an, of ?its w] and U = slot_update [OF write_items_spec(1) [OF an, of ?its w] v(2)]
  note ok = freed_slot_ok [OF assms(1) an u v(2)]
  have "quiet ?w" "names_ok p ?w" using assms(2,3) by (simp_all add: W names_ok_def)
  from recover_pool_ok [OF ok this] obtain w' where w': "pool_Recover p ?w = Inr (NO_ERROR, w')" "pool_ok p w'"
    "shelves p w' = shelves p ?w" "lookup w' = (\<lambda>q. if \<exists>i < 128. outdated p ?w i q then None else lookup ?w q)" by blast
  have "outdated p ?w i (slot_path p i v)" by (auto simp: outdated_def obsolete_def U)
  moreover have "shelves p ?w = (shelves p w)(i := None)" by (auto simp: shelves_def fun_eq_iff U)
  ultimately show ?thesis
    using f w' assms(4) by (intro exI [of _ "mk_item v True"] exI [of _ ?its] exI [of _ w']) auto
qed

lemma add_crash_recovered:
  assumes "pool_ok p w" "quiet w" "names_ok p w" "i < 128" and u: "u < (2 :: nat) ^ 16"
  shows "\<exists>w'. pool_Recover p (w\<lparr>dir := (add_path p i u, n) # dir w\<rparr>) = Inr (NO_ERROR, w') \<and> pool_ok p w' \<and>
    shelves p w' = shelves p w \<and> lookup w' (add_path p i u) = (if 0 < version_of p w i then None else Some n)"
proof -
  let ?w = "w\<lparr>dir := (add_path p i u, n) # dir w\<rparr>"
  have l: "lookup ?w = (lookup w)(add_path p i u \<mapsto> n)" by (auto simp: lookup_def fun_eq_iff)
  have its: "pool_items p ?w = pool_items p w" by (simp add: pool_items_def)
  have C: "pool_open p ?w" "version_of p ?w = version_of p w" "used p ?w = used p w"
    using pool_open_cong [OF pool_okD(1) [OF assms(1)] its] by simp_all
  have ok: "pool_ok p ?w"
    unfolding pool_ok_def C l
    using pool_okD(2-4) [OF assms(1)] C(1) add_path_not_slot [symmetric, of p _ _ i u] by auto
  have "own_file p i (add_path p i u)" using u unfolding own_file_def by blast
  then have nk: "names_ok p ?w"
    using assms(3,4) touches_own unfolding names_ok_def l by (metis fun_upd_apply)
  have slot: "j = i" if "outdated p ?w j (add_path p i u)" "j < 128" for j
  proof -
    have "version_of p w j \<le> 2 ^ 16" using pool_slot(2) [OF pool_okD(1) [OF assms(1)] that(2)] by simp
    moreover have "obsolete p j (version_of p w j) (add_path p i u)" using that(1) by (simp add: outdated_def C)
    ultimately have "own_file p j (add_path p i u)" by (rule obsolete_own [rotated])
    with own_touches touches_own [OF \<open>own_file p i (add_path p i u)\<close>] that(2) assms(4) show ?thesis by metis
  qed
  have "quiet ?w" using assms(2) by simp
  from recover_pool_ok [OF ok this nk] obtain w' where w': "pool_Recover p ?w = Inr (NO_ERROR, w')" "pool_ok p w'"
    "shelves p w' = shelves p ?w" "lookup w' = (\<lambda>q. if \<exists>i < 128. outdated p ?w i q then None else lookup ?w q)" by blast
  have "outdated p ?w i (add_path p i u) \<longleftrightarrow> 0 < version_of p w i" using u unfolding outdated_def obsolete_def C by blast
  then have "(\<exists>j < 128. outdated p ?w j (add_path p i u)) \<longleftrightarrow> 0 < version_of p w i" using slot assms(4) by blast
  moreover have "shelves p ?w = shelves p w" by (simp add: shelves_def fun_eq_iff C)
  moreover have "lookup ?w (add_path p i u) = Some n" by (simp add: l)
  ultimately show ?thesis
    using w' by (intro exI [of _ w']) simp
qed

text \<open>C28: what \<open>Recover\<close> repairs after a crash in the middle of an operation. If \<open>RemoveShelf\<close>
  stopped after it released the slot, \<open>Recover\<close> deletes the file and leaves what the complete
  operation would have left. If \<open>AddShelf\<close> stopped with its temporary file in the directory,
  \<open>Recover\<close> leaves the pool as it was and deletes that file when the slot was used before; it passes over a slot
  of version 0, so that the temporary file of the first \<open>AddShelf\<close> of a slot stays.\<close>

theorem pool_crash_recovery:
  assumes "pool_ok p w" "quiet w" "names_ok p w" "i < 128"
  shows "(\<forall>v. shelves p w i = Some v \<and> Suc v < 2 ^ 15 \<longrightarrow>
      (\<exists>item its w'. MarkSlotFree (pool_items p w) i = (True, item, its) \<and>
        pool_Recover p (write_items p its w) = Inr (NO_ERROR, w') \<and> pool_ok p w' \<and>
        shelves p w' = (shelves p w)(i := None) \<and> lookup w' (slot_path p i v) = None)) \<and>
    (\<forall>(u :: nat) n. u < 2 ^ 16 \<longrightarrow>
      (\<exists>w'. pool_Recover p (w\<lparr>dir := (add_path p i u, n) # dir w\<rparr>) = Inr (NO_ERROR, w') \<and> pool_ok p w' \<and>
        shelves p w' = shelves p w \<and> lookup w' (add_path p i u) = (if 0 < version_of p w i then None else Some n)))"
  using remove_crash_recovered [OF assms] add_crash_recovered [OF assms] by blast

lemma pool_crash_recovery_witness:
  "case open_example of (q, w) \<Rightarrow> \<exists>w' its w''. AddShelf q 3 True w = Some (Inr (NO_ERROR, 3, w')) \<and>
     pool_Recover q (write_items q its w') = Inr (NO_ERROR, w'') \<and> shelves q w'' = Map.empty"
proof (cases open_example)
  case (Pair q w)
  obtain w' where w': "AddShelf q 3 True w = Some (Inr (NO_ERROR, 3, w'))" "quiet w'"
    "pool_ok q w'" "shelves q w' = [3 \<mapsto> 1]" "names_ok q w'" using example_with_shelf unfolding Pair by auto
  have "(3 :: nat) < 128" by simp
  from pool_crash_recovery [OF w'(3,2,5) this] w' show ?thesis by (fastforce simp: Pair)
qed

section \<open>Closed pools\<close>

lemma verify_intact:
  assumes "\<not> p_is_open p" "quiet w" "sf_fd (p_meta p) = None" "lookup w (meta_path p) = Some n"
    "membership_Verify (table (i_area (inodes w n)))"
  shows "\<exists>p' w'. pool_Verify p w = Inr (False, p', w')"
proof -
  have e: "pool_Exist p w" using assms(4) by (simp add: pool_Exist_def sf_Exist_def meta_path_def)
  obtain a w1 where o: "OpenMapMetadataShelf p w = Inr (NO_ERROR, p\<lparr>p_meta := (p_meta p)\<lparr>sf_fd := Some n\<rparr>,
      p_size := i_size (inodes w n), p_addr := Some (a, n)\<rparr>, w1)" "quiet w1" "inodes w1 = inodes w"
    using open_map_spec [OF assms(2,3) assms(4) [unfolded meta_path_def]] by blast
  let ?p = "p\<lparr>p_meta := (p_meta p)\<lparr>sf_fd := Some n\<rparr>, p_size := i_size (inodes w n), p_addr := Some (a, n)\<rparr>"
  obtain p' w2 where u: "UnmapCloseMetadataShelf ?p w1 = (NO_ERROR, p', w2)"
    using unmap_close_spec [OF o(2), of ?p n] by auto
  show ?thesis using assms(1,5) e by (simp add: pool_Verify_def o u read_area_def bool_of_code_def Let_def)
qed

text \<open>The error codes that the queries of a pool return as \<open>bool\<close>. On a closed pool
  \<open>CheckShelf\<close> and \<open>FindNextShelf\<close> answer \<open>true\<close> for every index; \<open>Verify\<close> answers \<open>true\<close> for a pool
  that does not exist and \<open>false\<close> for one whose metadata is intact. The operations that return
  error codes report \<open>POOL_CLOSED\<close> and change nothing.\<close>

theorem closed_pool_answers:
  assumes "\<not> p_is_open p" "quiet w" "sf_fd (p_meta p) = None"
  shows "CheckShelf p idx w = Inr True \<and> FindNextShelf p idx s e w = Inr (True, idx) \<and>
    (lookup w (meta_path p) = None \<longrightarrow> pool_Verify p w = Inr (True, p, w)) \<and>
    (\<forall>n. lookup w (meta_path p) = Some n \<and> membership_Verify (table (i_area (inodes w n))) \<longrightarrow>
       (\<exists>p' w'. pool_Verify p w = Inr (False, p', w'))) \<and>
    RemoveShelf p idx w = Inr (POOL_CLOSED, w) \<and> AddShelf p idx d w = Some (Inr (POOL_CLOSED, idx, w)) \<and>
    pool_Recover p w = Inr (POOL_CLOSED, w) \<and> pool_Close r p w = Inr (POOL_CLOSED, p, w) \<and>
    GetShelfPath p idx w = Inr (POOL_CLOSED, None)"
proof -
  have "pool_Verify p w = Inr (True, p, w)" if "lookup w (meta_path p) = None"
    using that by (simp add: pool_Verify_def pool_Exist_def sf_Exist_def meta_path_def bool_of_code_def)
  with assms verify_intact [OF assms] show ?thesis
    by (simp add: CheckShelf_def FindNextShelf_def RemoveShelf_def AddShelf_def pool_Recover_def
        pool_Close_def GetShelfPath_def bool_of_code_def)
qed

lemma closed_pool_answers_witness:
  "CheckShelf example_pool 3 empty_world = Inr True \<and> pool_Verify example_pool empty_world = Inr (True, example_pool, empty_world)"
  using closed_pool_answers [OF Pool_new_fields(5) [OF example_new] example_quiet Pool_new_fields(6) [OF example_new]]
  by (simp add: empty_lookup)

end
