(* ===== verification/Epoch_Vector.thy ===== *)
theory Epoch_Vector
  imports Gull_Prelude
begin

text \<open>
  The epoch vector (\<open>src/shelf_usage/epoch_vector_internal.h\<close>, \<open>epoch_vector.h\<close>,
  \<open>epoch_vector.cc\<close>): the structure \<open>_EpochVector\<close> that all processes share, each process'
  cached view of it, and the participant that a process registers. An \<open>EpochCounter\<close> is an
  \<open>int64_t\<close> that only grows by one at a time; it is an \<open>int\<close> here.
\<close>

section \<open>Times\<close>

text \<open>\<open>src/shelf_usage/hrtime.h\<close>: the differences are computed modulo \<open>2 ^ 64\<close>.\<close>

record hrtime =
  tv_sec :: int
  tv_nsec :: int

definition diff_hrtime_ns :: "hrtime \<Rightarrow> hrtime \<Rightarrow> u64" where
  "diff_hrtime_ns start stop =
     of_int (tv_sec stop - tv_sec start) * 1000000000 + of_int (tv_nsec stop) - of_int (tv_nsec start)"

definition diff_hrtime_us :: "hrtime \<Rightarrow> hrtime \<Rightarrow> u64" where
  "diff_hrtime_us start stop = diff_hrtime_ns start stop div 1000"

section \<open>The shared vector\<close>

type_synonym epoch = int

abbreviation (input) PID_NO_PARTICIPANT :: int where "PID_NO_PARTICIPANT \<equiv> 0"
abbreviation (input) EPOCH_NO_PARTICIPANT :: epoch where "EPOCH_NO_PARTICIPANT \<equiv> 0"
abbreviation (input) EPOCH_NEW_PARTICIPANT :: epoch where "EPOCH_NEW_PARTICIPANT \<equiv> 1"
abbreviation (input) EPOCH_ACTIVE_PARTICIPANT :: epoch where "EPOCH_ACTIVE_PARTICIPANT \<equiv> 2"
abbreviation (input) EPOCH_MIN_ACTIVE :: epoch where "EPOCH_MIN_ACTIVE \<equiv> 2"
abbreviation (input) NR_PARTICIPANT :: nat where "NR_PARTICIPANT \<equiv> 128"

text \<open>A slot is accessed as one 128-bit value, or its second word alone.\<close>

record ev_slot =
  slot_pid :: int
  slot_reported :: epoch

record epoch_vec =
  frontier :: epoch
  slots :: "nat \<Rightarrow> ev_slot"

definition free_slot :: ev_slot where
  "free_slot = \<lparr>slot_pid = PID_NO_PARTICIPANT, slot_reported = EPOCH_NO_PARTICIPANT\<rparr>"

definition set_frontier :: "epoch_vec \<Rightarrow> epoch \<Rightarrow> epoch_vec" where
  "set_frontier ev e = ev\<lparr>frontier := e\<rparr>"

definition ev_cas_frontier :: "epoch_vec \<Rightarrow> epoch \<Rightarrow> epoch \<Rightarrow> epoch \<times> epoch_vec" where
  "ev_cas_frontier ev old new =
     (frontier ev, if frontier ev = old then ev\<lparr>frontier := new\<rparr> else ev)"

definition ev_set_reported :: "epoch_vec \<Rightarrow> nat \<Rightarrow> epoch \<Rightarrow> epoch_vec" where
  "ev_set_reported ev i e = ev\<lparr>slots := (slots ev)(i := (slots ev i)\<lparr>slot_reported := e\<rparr>)\<rparr>"

definition cas_slot :: "epoch_vec \<Rightarrow> nat \<Rightarrow> ev_slot \<Rightarrow> ev_slot \<Rightarrow> ev_slot \<times> epoch_vec" where
  "cas_slot ev i old new =
     (slots ev i, if slots ev i = old then ev\<lparr>slots := (slots ev)(i := new)\<rparr> else ev)"

text \<open>\<open>-1\<close> stands for a vector without a free slot.\<close>

function acquire_slot_from :: "epoch_vec \<Rightarrow> int \<Rightarrow> nat \<Rightarrow> int \<times> epoch_vec" where
  "acquire_slot_from ev pid i =
     (if i < NR_PARTICIPANT
      then let (res, ev') = cas_slot ev i free_slot \<lparr>slot_pid = pid, slot_reported = EPOCH_NEW_PARTICIPANT\<rparr>
           in if slot_pid res = PID_NO_PARTICIPANT \<and> slot_reported res = EPOCH_NO_PARTICIPANT
              then (int i, ev') else acquire_slot_from ev' pid (Suc i)
      else (-1, ev))"
  by pat_completeness auto
termination by (relation "measure (\<lambda>(ev, pid, i). NR_PARTICIPANT - i)") auto

declare acquire_slot_from.simps [simp del]

definition acquire_slot :: "epoch_vec \<Rightarrow> int \<Rightarrow> int \<times> epoch_vec" where
  "acquire_slot ev pid = acquire_slot_from ev pid 0"

definition release_slot :: "epoch_vec \<Rightarrow> nat \<Rightarrow> epoch_vec" where
  "release_slot ev i = ev\<lparr>slots := (slots ev)(i := free_slot)\<rparr>"

text \<open>
  \<open>reset\<close> passes the literal 0 where \<open>fam_atomic_128_write\<close> expects the address of the two
  words to write: the null pointer is read.
\<close>

definition ev_reset :: "epoch_vec \<Rightarrow> epoch_vec result" where
  "ev_reset ev = Inl Out_Of_Bounds"

section \<open>A process' view\<close>

record element =
  valid :: bool
  cached_pid :: int
  cached_reported :: epoch
  last_modified :: hrtime

text \<open>
  \<open>clk n\<close> is what the \<open>n\<close>-th call of \<open>get_hrtime\<close> of this process returns, \<open>ticks\<close> counts
  the calls. The elements of a new cache are not initialised.
\<close>

record ev_view =
  shared :: epoch_vec
  cache :: "nat \<Rightarrow> element"
  ticks :: nat

type_synonym clock = "nat \<Rightarrow> hrtime"

definition get_hrtime :: "clock \<Rightarrow> ev_view \<Rightarrow> hrtime \<times> ev_view" where
  "get_hrtime clk v = (clk (ticks v), v\<lparr>ticks := Suc (ticks v)\<rparr>)"

definition EpochVector_new :: "epoch_vec \<Rightarrow> bool \<Rightarrow> (nat \<Rightarrow> element) \<Rightarrow> ev_view" where
  "EpochVector_new ev may_create mem =
     \<lparr>shared = (if may_create then set_frontier ev EPOCH_MIN_ACTIVE else ev), cache = mem, ticks = 0\<rparr>"

text \<open>The result is the slot of the new participant, \<open>None\<close> stands for the return value \<open>-1\<close>.\<close>

definition register_participant :: "ev_view \<Rightarrow> int \<Rightarrow> nat option \<times> ev_view" where
  "register_participant v pid =
     (let (sl, ev) = acquire_slot (shared v) pid
      in if sl < 0 then (None, v\<lparr>shared := ev\<rparr>)
         else (Some (nat sl), v\<lparr>shared := ev, cache := (cache v)(nat sl := (cache v (nat sl))\<lparr>cached_pid := pid\<rparr>)\<rparr>))"

definition unregister_participant :: "ev_view \<Rightarrow> nat \<Rightarrow> ev_view" where
  "unregister_participant v i =
     v\<lparr>cache := (cache v)(i := (cache v i)\<lparr>valid := False\<rparr>), shared := release_slot (shared v) i\<rparr>"

definition view_reported :: "clock \<Rightarrow> ev_view \<Rightarrow> nat \<Rightarrow> epoch \<times> ev_view" where
  "view_reported clk v i =
     (if valid (cache v i) then (cached_reported (cache v i), v)
      else let pid = slot_pid (slots (shared v) i);
               rep = slot_reported (slots (shared v) i);
               c = (cache v i)\<lparr>cached_pid := pid\<rparr>
           in if cached_reported c \<noteq> rep
              then let (t, v) = get_hrtime clk v
                   in (rep, v\<lparr>cache := (cache v)(i := c\<lparr>cached_reported := rep, last_modified := t, valid := True\<rparr>)\<rparr>)
              else (rep, v\<lparr>cache := (cache v)(i := c\<lparr>valid := True\<rparr>)\<rparr>))"

definition view_set_reported :: "clock \<Rightarrow> ev_view \<Rightarrow> nat \<Rightarrow> epoch \<Rightarrow> ev_view" where
  "view_set_reported clk v i e =
     (let v = v\<lparr>shared := ev_set_reported (shared v) i e\<rparr>; (t, v) = get_hrtime clk v
      in v\<lparr>cache := (cache v)(i := (cache v i)\<lparr>valid := True, cached_reported := e, last_modified := t\<rparr>)\<rparr>)"

definition invalidate_cache :: "ev_view \<Rightarrow> ev_view" where
  "invalidate_cache v =
     v\<lparr>cache := (\<lambda>i. if i < NR_PARTICIPANT then (cache v i)\<lparr>valid := False\<rparr> else cache v i)\<rparr>"

definition refresh_modified_time :: "clock \<Rightarrow> ev_view \<Rightarrow> ev_view" where
  "refresh_modified_time clk v =
     (let (t, v) = get_hrtime clk v
      in v\<lparr>cache := (\<lambda>i. if i < NR_PARTICIPANT then (cache v i)\<lparr>last_modified := t\<rparr> else cache v i)\<rparr>)"

text \<open>\<open>EpochVector::Participant\<close>: a slot, with the operations that a process runs on its own.\<close>

definition activate :: "clock \<Rightarrow> ev_view \<Rightarrow> nat \<Rightarrow> ev_view" where
  "activate clk v i =
     (let v = view_set_reported clk v i EPOCH_ACTIVE_PARTICIPANT
      in view_set_reported clk v i (frontier (shared v)))"

section \<open>Acquiring a slot\<close>

lemma acquire_slot_from_spec:
  "acquire_slot_from ev pid i =
    (case List.find (\<lambda>j. slots ev j = free_slot) [i..<NR_PARTICIPANT] of
       None \<Rightarrow> (-1, ev)
     | Some j \<Rightarrow> (int j, ev\<lparr>slots := (slots ev)(j := \<lparr>slot_pid = pid, slot_reported = 1\<rparr>)\<rparr>))"
proof (induction ev pid i rule: acquire_slot_from.induct)
  case (1 ev pid i)
  have f: "slots ev i = free_slot \<longleftrightarrow> slot_pid (slots ev i) = 0 \<and> slot_reported (slots ev i) = 0"
    by (cases "slots ev i") (simp add: free_slot_def)
  show ?case
  proof (cases "i < NR_PARTICIPANT")
    case True
    then have u: "[i..<NR_PARTICIPANT] = i # [Suc i..<NR_PARTICIPANT]" by (simp add: upt_conv_Cons)
    show ?thesis
    proof (cases "slots ev i = free_slot")
      case True
      then show ?thesis unfolding u by (subst acquire_slot_from.simps) (use \<open>i < NR_PARTICIPANT\<close> f in \<open>simp add: cas_slot_def\<close>)
    next
      case False
      then have "cas_slot ev i free_slot \<lparr>slot_pid = pid, slot_reported = 1\<rparr> = (slots ev i, ev)"
        by (simp add: cas_slot_def)
      moreover from this have "acquire_slot_from ev pid (Suc i) =
        (case List.find (\<lambda>j. slots ev j = free_slot) [Suc i..<NR_PARTICIPANT] of
           None \<Rightarrow> (-1, ev)
         | Some j \<Rightarrow> (int j, ev\<lparr>slots := (slots ev)(j := \<lparr>slot_pid = pid, slot_reported = 1\<rparr>)\<rparr>))"
        using 1 [OF True] False f by simp
      ultimately show ?thesis unfolding u by (subst acquire_slot_from.simps) (use True False f in auto)
    qed
  qed (simp add: acquire_slot_from.simps)
qed

lemma acquire_slot_spec:
  "acquire_slot ev pid =
    (case List.find (\<lambda>j. slots ev j = free_slot) [0..<NR_PARTICIPANT] of
       None \<Rightarrow> (-1, ev)
     | Some j \<Rightarrow> (int j, ev\<lparr>slots := (slots ev)(j := \<lparr>slot_pid = pid, slot_reported = 1\<rparr>)\<rparr>))"
  by (simp add: acquire_slot_def acquire_slot_from_spec)

end
