(* ===== verification/Epoch_System.thy ===== *)
theory Epoch_System
  imports Epoch_Vector
begin

text \<open>
  The epoch protocol run by many processes (\<open>src/shelf_usage/epoch_manager_impl.cc\<close> over
  \<open>epoch_vector.cc\<close>). A step is one access of one process to the shared epoch vector, or a change
  of its own state that the process' lock and mutex make atomic: the monitor thread scans the
  slots one by one and then tries to advance the frontier, while the other threads enter and
  leave critical sections and the heartbeat reports. A process may stop at any point.
\<close>

section \<open>Processes\<close>

text \<open>
  \<open>Activating e\<close> and \<open>Report e\<close>: the frontier was read as \<open>e\<close> and is not yet reported, by
  \<open>Participant::activate\<close> or by \<open>report_frontier\<close> (called from \<open>enter_critical\<close> or the heartbeat).
\<close>

datatype phase = Outside | Registered | Announced | Activating epoch | Running | Report epoch

text \<open>\<open>Scanning f i ok\<close>: the frontier was read as \<open>f\<close>, slot \<open>i\<close> is next, \<open>ok\<close> is \<open>all_in_frontier\<close>.\<close>

datatype scan = No_Scan | Invalidated | Scanning epoch nat bool

text \<open>
  \<open>crit\<close> is \<open>active_epoch_count_\<close>; \<open>likely_dead\<close> lists the slots that timed out with the process found in
  them; \<open>releasing\<close> is the slot whose process was just terminated. The ghost \<open>sect\<close> counts the times that
  \<open>crit\<close> rose from 0, so that a pair of a process and a number names a critical section.
\<close>

record proc =
  alive :: bool
  place :: nat
  phase :: phase
  crit :: nat
  scan :: scan
  likely_dead :: "(nat \<times> int) list"
  releasing :: "nat option"
  sect :: nat

record esys =
  ev :: epoch_vec
  procs :: "int \<Rightarrow> proc"

definition upd :: "esys \<Rightarrow> int \<Rightarrow> (proc \<Rightarrow> proc) \<Rightarrow> esys" where
  "upd s p f = s\<lparr>procs := (procs s)(p := f (procs s p))\<rparr>"

definition report :: "esys \<Rightarrow> int \<Rightarrow> epoch \<Rightarrow> esys" where
  "report s p e = s\<lparr>ev := ev_set_reported (ev s) (place (procs s p)) e\<rparr>"

text \<open>The exclusive lock of the process can be held only while no critical section is open.\<close>

definition drained :: "proc \<Rightarrow> bool" where
  "drained P \<longleftrightarrow> crit P = 0 \<and> phase P = Running"

definition slot_owner :: "esys \<Rightarrow> nat \<Rightarrow> int" where
  "slot_owner s i = slot_pid (slots (ev s) i)"

section \<open>Steps\<close>

text \<open>
  With \<open>late\<close> set, a slot is released whoever owns it by then, as the code does (see its FIXME in
  \<open>release_slot\<close>); otherwise only while its owner is dead, which is what the safety of sections and of
  delayed frees assumes (\<open>late_release_unsafe\<close> shows that it is needed). A timeout is a matter of time,
  which is not part of the state: whether a slot that lags counts as dead is left open.
\<close>

inductive estep :: "bool \<Rightarrow> esys \<Rightarrow> esys \<Rightarrow> bool" for late where
  register: "\<lbrakk>alive (procs s p); phase (procs s p) = Outside; p \<noteq> 0; i < NR_PARTICIPANT;
      cas_slot (ev s) i free_slot \<lparr>slot_pid = p, slot_reported = EPOCH_NEW_PARTICIPANT\<rparr> = (free_slot, v)\<rbrakk> \<Longrightarrow>
    estep late s (upd (s\<lparr>ev := v\<rparr>) p (\<lambda>P. P\<lparr>place := i, phase := Registered\<rparr>))"
| announce: "\<lbrakk>alive (procs s p); phase (procs s p) = Registered\<rbrakk> \<Longrightarrow>
    estep late s (upd (report s p EPOCH_ACTIVE_PARTICIPANT) p (phase_update (\<lambda>_. Announced)))"
| read_frontier: "\<lbrakk>alive (procs s p); phase (procs s p) = Announced\<rbrakk> \<Longrightarrow>
    estep late s (upd s p (phase_update (\<lambda>_. Activating (frontier (ev s)))))"
| activate: "\<lbrakk>alive (procs s p); phase (procs s p) = Activating e\<rbrakk> \<Longrightarrow>
    estep late s (upd (report s p e) p (phase_update (\<lambda>_. Running)))"
| enter_first: "\<lbrakk>alive (procs s p); phase (procs s p) = Running; crit (procs s p) = 0\<rbrakk> \<Longrightarrow>
    estep late s (upd s p (\<lambda>P. P\<lparr>crit := 1, sect := Suc (sect P), phase := Report (frontier (ev s))\<rparr>))"
| enter_more: "\<lbrakk>alive (procs s p); phase (procs s p) = Running; 0 < crit (procs s p)\<rbrakk> \<Longrightarrow>
    estep late s (upd s p (\<lambda>P. P\<lparr>crit := Suc (crit P)\<rparr>))"
| heartbeat: "\<lbrakk>alive (procs s p); drained (procs s p)\<rbrakk> \<Longrightarrow>
    estep late s (upd s p (phase_update (\<lambda>_. Report (frontier (ev s)))))"
| report: "\<lbrakk>alive (procs s p); phase (procs s p) = Report e\<rbrakk> \<Longrightarrow>
    estep late s (upd (report s p e) p (phase_update (\<lambda>_. Running)))"
| leave: "\<lbrakk>alive (procs s p); phase (procs s p) = Running; 0 < crit (procs s p)\<rbrakk> \<Longrightarrow>
    estep late s (upd s p (\<lambda>P. P\<lparr>crit := crit P - 1\<rparr>))"
| scan_start: "\<lbrakk>alive (procs s p); drained (procs s p); scan (procs s p) = No_Scan;
      likely_dead (procs s p) = []; releasing (procs s p) = None\<rbrakk> \<Longrightarrow>
    estep late s (upd s p (scan_update (\<lambda>_. Invalidated)))"
| scan_frontier: "\<lbrakk>alive (procs s p); scan (procs s p) = Invalidated\<rbrakk> \<Longrightarrow>
    estep late s (upd s p (scan_update (\<lambda>_. Scanning (frontier (ev s)) 0 True)))"
| scan_slot: "\<lbrakk>alive (procs s p); scan (procs s p) = Scanning f i ok; i < NR_PARTICIPANT;
      place (procs s p) = i \<Longrightarrow> drained (procs s p); r = slot_reported (slots (ev s) i);
      dead = [] \<or> r \<noteq> EPOCH_NO_PARTICIPANT \<and> r \<noteq> f \<and> dead = [(i, slot_owner s i)]\<rbrakk> \<Longrightarrow>
    estep late s (upd s p (\<lambda>P. P\<lparr>scan := Scanning f (Suc i) (ok \<and> \<not> (EPOCH_MIN_ACTIVE \<le> r \<and> r \<noteq> f)),
      likely_dead := likely_dead P @ dead\<rparr>))"
| scan_end: "\<lbrakk>alive (procs s p); scan (procs s p) = Scanning f NR_PARTICIPANT ok\<rbrakk> \<Longrightarrow>
    estep late s (upd (if ok then s\<lparr>ev := snd (ev_cas_frontier (ev s) f (f + 1))\<rparr> else s) p (scan_update (\<lambda>_. No_Scan)))"
| terminate: "\<lbrakk>alive (procs s p); scan (procs s p) = No_Scan; releasing (procs s p) = None;
      likely_dead (procs s p) = (i, q) # ds\<rbrakk> \<Longrightarrow>
    estep late s (let s = upd s p (\<lambda>P. P\<lparr>likely_dead := ds, releasing := Some i\<rparr>)
                  in if q \<noteq> 0 then upd s q (alive_update (\<lambda>_. False)) else s)"
| release: "\<lbrakk>alive (procs s p); releasing (procs s p) = Some i;
      late \<or> slots (ev s) i = free_slot \<or> \<not> alive (procs s (slot_owner s i))\<rbrakk> \<Longrightarrow>
    estep late s (upd (s\<lparr>ev := release_slot (ev s) i\<rparr>) p (releasing_update (\<lambda>_. None)))"
| crash: "estep late s (upd s p (alive_update (\<lambda>_. False)))"
| unregister: "\<lbrakk>alive (procs s p); drained (procs s p); scan (procs s p) = No_Scan;
      likely_dead (procs s p) = []; releasing (procs s p) = None\<rbrakk> \<Longrightarrow>
    estep late s (upd (s\<lparr>ev := release_slot (ev s) (place (procs s p))\<rparr>) p (phase_update (\<lambda>_. Outside)))"

text \<open>The vector as \<open>may_create\<close> leaves it; no process is registered.\<close>

definition fresh_proc :: proc where
  "fresh_proc = \<lparr>alive = True, place = 0, phase = Outside, crit = 0, scan = No_Scan, likely_dead = [],
     releasing = None, sect = 0\<rparr>"

definition einit :: esys where
  "einit = \<lparr>ev = \<lparr>frontier = EPOCH_MIN_ACTIVE, slots = (\<lambda>_. free_slot)\<rparr>, procs = (\<lambda>_. fresh_proc)\<rparr>"

inductive ereach :: "bool \<Rightarrow> esys \<Rightarrow> bool" for late where
  init: "ereach late einit"
| step: "ereach late s \<Longrightarrow> estep late s s' \<Longrightarrow> ereach late s'"

section \<open>The invariant\<close>

text \<open>
  What a slot holds, given the frontier and its owner's phase; and when the owner cannot be behind
  the frontier, as a scan that found all participants at the frontier has to rely on.
\<close>

fun val_ok :: "epoch \<Rightarrow> epoch \<Rightarrow> phase \<Rightarrow> bool" where
  "val_ok F r Outside \<longleftrightarrow> False"
| "val_ok F r Registered \<longleftrightarrow> r = 1"
| "val_ok F r Announced \<longleftrightarrow> r = 2"
| "val_ok F r (Activating v) \<longleftrightarrow> r = 2 \<and> 2 \<le> v \<and> v \<le> F \<and> F \<le> v + 1"
| "val_ok F r Running \<longleftrightarrow> 2 \<le> r \<and> r \<le> F \<and> F \<le> r + 1"
| "val_ok F r (Report v) \<longleftrightarrow> 2 \<le> r \<and> r \<le> v \<and> v \<le> F \<and> F \<le> r + 1"

fun passed :: "epoch \<Rightarrow> epoch \<Rightarrow> phase \<Rightarrow> bool" where
  "passed F r (Activating v) \<longleftrightarrow> v = F"
| "passed F r Running \<longleftrightarrow> r = F"
| "passed F r (Report v) \<longleftrightarrow> r = F"
| "passed F r _ \<longleftrightarrow> True"

definition slot_ok :: "esys \<Rightarrow> nat \<Rightarrow> bool" where
  "slot_ok s i \<longleftrightarrow> slots (ev s) i = free_slot \<or>
     (slot_owner s i \<noteq> 0 \<and> place (procs s (slot_owner s i)) = i \<and>
      val_ok (frontier (ev s)) (slot_reported (slots (ev s) i)) (phase (procs s (slot_owner s i))))"

definition slot_passed :: "esys \<Rightarrow> nat \<Rightarrow> bool" where
  "slot_passed s i \<longleftrightarrow> slots (ev s) i = free_slot \<or>
     passed (frontier (ev s)) (slot_reported (slots (ev s) i)) (phase (procs s (slot_owner s i)))"

definition scan_ok :: "esys \<Rightarrow> scan \<Rightarrow> bool" where
  "scan_ok s sc = (case sc of
     Scanning f j ok \<Rightarrow> f \<le> frontier (ev s) \<and> j \<le> NR_PARTICIPANT \<and> (ok \<and> f = frontier (ev s) \<longrightarrow> (\<forall>i < j. slot_passed s i))
   | _ \<Rightarrow> True)"

definition einv :: "esys \<Rightarrow> bool" where
  "einv s \<longleftrightarrow> 2 \<le> frontier (ev s) \<and> (\<forall>i < NR_PARTICIPANT. slot_ok s i) \<and>
     (\<forall>p. alive (procs s p) \<and> phase (procs s p) \<noteq> Outside \<longrightarrow>
        place (procs s p) < NR_PARTICIPANT \<and> slot_owner s (place (procs s p)) = p \<and> p \<noteq> 0) \<and>
     (\<forall>p. scan_ok s (scan (procs s p)))"

lemma einvD:
  assumes "einv s"
  shows "2 \<le> frontier (ev s)" "i < NR_PARTICIPANT \<Longrightarrow> slot_ok s i" "scan_ok s (scan (procs s p))"
    "alive (procs s p) \<Longrightarrow> phase (procs s p) \<noteq> Outside \<Longrightarrow>
      place (procs s p) < NR_PARTICIPANT \<and> slot_owner s (place (procs s p)) = p \<and> p \<noteq> 0"
  using assms by (simp_all add: einv_def)

lemma einv_owner:
  assumes "einv s" "alive (procs s p)" "phase (procs s p) \<noteq> Outside"
  shows "slots (ev s) (place (procs s p)) \<noteq> free_slot" "slot_owner s (place (procs s p)) = p"
    "val_ok (frontier (ev s)) (slot_reported (slots (ev s) (place (procs s p)))) (phase (procs s p))"
proof -
  note o = einvD(4) [OF assms]
  then show f: "slots (ev s) (place (procs s p)) \<noteq> free_slot" "slot_owner s (place (procs s p)) = p"
    by (auto simp: slot_owner_def free_slot_def)
  from einvD(2) [OF assms(1), of "place (procs s p)"] o f
  show "val_ok (frontier (ev s)) (slot_reported (slots (ev s) (place (procs s p)))) (phase (procs s p))"
    by (simp add: slot_ok_def)
qed

lemma upd_simps [simp]:
  "ev (upd s p f) = ev s" "procs (upd s p f) p = f (procs s p)" "q \<noteq> p \<Longrightarrow> procs (upd s p f) q = procs s q"
  "slot_owner (upd s p f) i = slot_owner s i"
  by (simp_all add: upd_def slot_owner_def)

section \<open>Preservation\<close>

text \<open>Steps that change no slot and no phase.\<close>

lemma local_inv:
  assumes "einv s" "ev s' = ev s"
    "\<And>q. place (procs s' q) = place (procs s q)" "\<And>q. phase (procs s' q) = phase (procs s q)"
    "\<And>q. alive (procs s' q) \<Longrightarrow> alive (procs s q)" "\<And>q. scan_ok s (scan (procs s' q))"
  shows "einv s'"
proof -
  have o: "slot_owner s' = slot_owner s" using assms(2) by (simp add: fun_eq_iff slot_owner_def)
  then have "slot_ok s' = slot_ok s" "slot_passed s' = slot_passed s"
    using assms(2,3,4) by (simp_all add: fun_eq_iff slot_ok_def slot_passed_def)
  then have "scan_ok s' = scan_ok s" using assms(2) by (simp add: fun_eq_iff scan_ok_def split: scan.splits)
  then show ?thesis using assms o \<open>slot_ok s' = slot_ok s\<close> by (auto simp: einv_def)
qed

lemma local_upd:
  assumes "einv s" "\<And>P. place (f P) = place P" "\<And>P. phase (f P) = phase P" "alive (f (procs s p)) \<Longrightarrow> alive (procs s p)"
    "scan_ok s (scan (f (procs s p)))"
  shows "einv (upd s p f)"
proof (rule local_inv [OF assms(1)])
  fix q
  show "place (procs (upd s p f) q) = place (procs s q)" "phase (procs (upd s p f) q) = phase (procs s q)"
    "alive (procs (upd s p f) q) \<Longrightarrow> alive (procs s q)" "scan_ok s (scan (procs (upd s p f) q))"
    using assms einvD(3) [OF assms(1), of q] by (cases "q = p"; simp)+
qed simp

text \<open>Steps in which a process moves on to another phase, maybe with a new value in its slot.\<close>

lemma move_inv:
  assumes "einv s" "alive (procs s p)" "phase (procs s p) \<noteq> Outside"
    and s': "ev s' = ev_set_reported (ev s) (place (procs s p)) r'" "procs s' = (procs s)(p := P')"
    and P': "place P' = place (procs s p)" "scan P' = scan (procs s p)" "phase P' \<noteq> Outside"
    and ok: "val_ok (frontier (ev s)) r' (phase P')"
      "passed (frontier (ev s)) (slot_reported (slots (ev s) (place (procs s p)))) (phase (procs s p)) \<Longrightarrow>
        passed (frontier (ev s)) r' (phase P')"
  shows "einv s'"
proof -
  let ?i = "place (procs s p)"
  note o = einvD(4) [OF assms(1-3)] einv_owner(1) [OF assms(1-3)]
  have fr: "frontier (ev s') = frontier (ev s)" and sl: "slots (ev s') = (slots (ev s))(?i := (slots (ev s) ?i)\<lparr>slot_reported := r'\<rparr>)"
    by (simp_all add: s'(1) ev_set_reported_def)
  then have own: "slot_owner s' = slot_owner s" by (auto simp: fun_eq_iff slot_owner_def)
  have other: "slot_owner s i \<noteq> p" if "i < NR_PARTICIPANT" "i \<noteq> ?i" for i
  proof
    assume "slot_owner s i = p"
    then have "slots (ev s) i \<noteq> free_slot" using o by (auto simp: slot_owner_def free_slot_def)
    then show False using einvD(2) [OF assms(1) that(1)] that(2) \<open>slot_owner s i = p\<close> by (simp add: slot_ok_def)
  qed
  have "slot_pid (slots (ev s') ?i) \<noteq> 0" using o by (simp add: sl slot_owner_def)
  then have "slots (ev s') ?i \<noteq> free_slot" by (auto simp: free_slot_def)
  moreover have "slot_owner s' ?i = p" using o own by simp
  ultimately have pi: "slot_ok s' ?i" "slot_passed s' ?i \<longleftrightarrow> passed (frontier (ev s)) r' (phase P')"
    using o s'(2) P' ok(1) by (simp_all add: slot_ok_def slot_passed_def fr) (simp_all add: sl)
  have rest: "slot_ok s' i \<longleftrightarrow> slot_ok s i" "slot_passed s' i \<longleftrightarrow> slot_passed s i" if "i < NR_PARTICIPANT" "i \<noteq> ?i" for i
    using other [OF that] that(2) own s'(2) fr sl by (simp_all add: slot_ok_def slot_passed_def)
  have sp: "slot_passed s i \<Longrightarrow> slot_passed s' i" if "i < NR_PARTICIPANT" for i
    using rest [OF that] pi(2) ok(2) o by (cases "i = ?i") (auto simp: slot_passed_def)
  have "scan_ok s' sc" if "scan_ok s sc" for sc
    using that sp fr by (auto simp: scan_ok_def split: scan.splits)
  then show ?thesis
    using assms(1) pi(1) rest(1) own fr s'(2) P' o by (auto simp: einv_def)
qed

lemma set_same: "slot_reported (slots v i) = r \<Longrightarrow> ev_set_reported v i r = v"
  by (auto simp: ev_set_reported_def)

text \<open>Steps that give a slot to a process or take it away.\<close>

lemma assign_inv:
  assumes "einv s"
    and s': "ev s' = (ev s)\<lparr>slots := (slots (ev s))(i := w)\<rparr>" "\<And>q. q \<noteq> p \<Longrightarrow> procs s' q = procs s q"
      "scan (procs s' p) = scan (procs s p)"
    and own: "\<And>j. j < NR_PARTICIPANT \<Longrightarrow> j \<noteq> i \<Longrightarrow> slots (ev s) j \<noteq> free_slot \<Longrightarrow> slot_owner s j = p \<Longrightarrow>
        place (procs s' p) = place (procs s p) \<and> phase (procs s' p) = phase (procs s p)"
    and ok: "slot_ok s' i" "slot_passed s' i"
    and al: "\<And>q. alive (procs s' q) \<Longrightarrow> phase (procs s' q) \<noteq> Outside \<Longrightarrow>
        place (procs s' q) < NR_PARTICIPANT \<and> slot_owner s' (place (procs s' q)) = q \<and> q \<noteq> 0"
  shows "einv s'"
proof -
  have fr: "frontier (ev s') = frontier (ev s)" by (simp add: s'(1))
  have rest: "slot_ok s' j \<longleftrightarrow> slot_ok s j" "slot_passed s' j \<longleftrightarrow> slot_passed s j" if "j < NR_PARTICIPANT" "j \<noteq> i" for j
  proof -
    have e: "slots (ev s') j = slots (ev s) j" "slot_owner s' j = slot_owner s j" using that(2) by (simp_all add: s'(1) slot_owner_def)
    have "place (procs s' (slot_owner s j)) = place (procs s (slot_owner s j)) \<and> phase (procs s' (slot_owner s j)) = phase (procs s (slot_owner s j))"
      if "slots (ev s) j \<noteq> free_slot"
      using own [OF \<open>j < NR_PARTICIPANT\<close> \<open>j \<noteq> i\<close> that] s'(2) by (cases "slot_owner s j = p") auto
    then show "slot_ok s' j \<longleftrightarrow> slot_ok s j" "slot_passed s' j \<longleftrightarrow> slot_passed s j"
      using e fr by (cases "slots (ev s) j = free_slot"; simp add: slot_ok_def slot_passed_def)+
  qed
  have "scan_ok s' sc" if "scan_ok s sc" for sc
  proof -
    have "slot_passed s' j" if "slot_passed s j" "j < NR_PARTICIPANT" for j
      using rest(2) ok(2) that by (cases "j = i") auto
    then show ?thesis using that fr by (auto simp: scan_ok_def split: scan.splits)
  qed
  moreover have "scan (procs s' q) = scan (procs s q)" for q using s'(2,3) by (cases "q = p") auto
  ultimately have "\<forall>q. scan_ok s' (scan (procs s' q))" using einvD(3) [OF assms(1)] by simp
  moreover have "\<forall>j < NR_PARTICIPANT. slot_ok s' j" using rest(1) ok(1) einvD(2) [OF assms(1)] by metis
  ultimately show ?thesis using al fr einvD(1) [OF assms(1)] by (auto simp: einv_def)
qed

lemma scan_ok_simps [simp]:
  "scan_ok s No_Scan" "scan_ok s Invalidated" "2 \<le> frontier (ev s) \<Longrightarrow> scan_ok s (Scanning (frontier (ev s)) 0 True)"
  by (simp_all add: scan_ok_def)

lemma scan_slot_ok:
  assumes "einv s" "scan_ok s (Scanning f i ok)" "i < NR_PARTICIPANT"
  shows "scan_ok s (Scanning f (Suc i) (ok \<and> \<not> (2 \<le> slot_reported (slots (ev s) i) \<and> slot_reported (slots (ev s) i) \<noteq> f)))"
proof -
  let ?r = "slot_reported (slots (ev s) i)" and ?ph = "phase (procs s (slot_owner s i))"
  have "slot_passed s i" if "f = frontier (ev s)" "\<not> (2 \<le> ?r \<and> ?r \<noteq> f)"
    using einvD(2) [OF assms(1,3)] that by (cases ?ph) (auto simp: slot_ok_def slot_passed_def)
  then show ?thesis using assms(2,3) by (auto simp: scan_ok_def less_Suc_eq)
qed

lemma advance_inv:
  assumes "einv s" "\<forall>i < NR_PARTICIPANT. slot_passed s i" "frontier (ev s) = f"
    "ev s' = (ev s)\<lparr>frontier := f + 1\<rparr>" "procs s' = procs s"
  shows "einv s'"
proof -
  have own: "slot_owner s' = slot_owner s" by (simp add: fun_eq_iff slot_owner_def assms(4))
  have "slot_ok s' i" if i: "i < NR_PARTICIPANT" for i
  proof -
    have "slot_ok s i" "slot_passed s i" using einvD(2) [OF assms(1) i] assms(2) i by simp_all
    then show ?thesis using assms(3-5)
      by (cases "phase (procs s (slot_owner s i))") (auto simp: slot_ok_def slot_passed_def own)
  qed
  moreover have "scan_ok s' sc" if "scan_ok s sc" for sc
    using that assms(3,4) by (auto simp: scan_ok_def split: scan.splits)
  ultimately show ?thesis using assms(1,3-5) own by (auto simp: einv_def)
qed

lemma register_inv:
  assumes inv: "einv s" and register: "s' = upd (s\<lparr>ev := v\<rparr>) p (\<lambda>P. P\<lparr>place := i, phase := Registered\<rparr>)"
    "alive (procs s p)" "phase (procs s p) = Outside" "p \<noteq> 0" "i < NR_PARTICIPANT"
    "cas_slot (ev s) i free_slot \<lparr>slot_pid = p, slot_reported = EPOCH_NEW_PARTICIPANT\<rparr> = (free_slot, v)"
  shows "einv s'"
proof -
  have free: "slots (ev s) i = free_slot"
    and v: "v = (ev s)\<lparr>slots := (slots (ev s))(i := \<lparr>slot_pid = p, slot_reported = 1\<rparr>)\<rparr>"
    using register(6) by (auto simp: cas_slot_def)
  have ph: "phase (procs s' p) = Registered" "place (procs s' p) = i" "scan (procs s' p) = scan (procs s p)" using register(1) by simp_all
  have own: "slot_owner s' j = (if j = i then p else slot_owner s j)" for j using register(1) v by (simp add: slot_owner_def)
  have none: "slots (ev s) j = free_slot" if "j < NR_PARTICIPANT" "slot_owner s j = p" for j
    using einvD(2) [OF inv that(1)] that(2) register(3) by (auto simp: slot_ok_def)
  show ?thesis
  proof (rule assign_inv [OF inv, of s' i "\<lparr>slot_pid = p, slot_reported = 1\<rparr>" p])
    show "slot_ok s' i" "slot_passed s' i" using ph register(4) own [of i] register(1) v by (simp_all add: slot_ok_def slot_passed_def)
    fix q assume q: "alive (procs s' q)" "phase (procs s' q) \<noteq> Outside"
    show "place (procs s' q) < NR_PARTICIPANT \<and> slot_owner s' (place (procs s' q)) = q \<and> q \<noteq> 0"
    proof (cases "q = p")
      case True
      then show ?thesis using ph register(4,5) own by simp
    next
      case False
      then have "procs s' q = procs s q" using register(1) by simp
      moreover from this have "place (procs s q) \<noteq> i" using einv_owner(1) [OF inv, of q] q free by auto
      ultimately show ?thesis using einvD(4) [OF inv, of q] q own by simp
    qed
  qed (use register(1) v ph none in simp_all)
qed

lemma scan_end_inv:
  assumes inv: "einv s" and scan_end: "s' = upd (if ok then s\<lparr>ev := snd (ev_cas_frontier (ev s) f (f + 1))\<rparr> else s) p (scan_update (\<lambda>_. No_Scan))"
    "alive (procs s p)" "scan (procs s p) = Scanning f NR_PARTICIPANT ok"
  shows "einv s'"
proof -
  from scan_end have ok: "scan_ok s (Scanning f 128 ok)" using einvD(3) [OF inv, of p] by simp
  show ?thesis
  proof (cases "ok \<and> f = frontier (ev s)")
    case True
    let ?t = "s\<lparr>ev := (ev s)\<lparr>frontier := f + 1\<rparr>\<rparr>"
    have "einv ?t" by (rule advance_inv [OF inv, of f]) (use True ok in \<open>simp_all add: scan_ok_def\<close>)
    moreover have "s' = upd ?t p (scan_update (\<lambda>_. No_Scan))" using scan_end(1) True by (simp add: ev_cas_frontier_def)
    ultimately show ?thesis by (auto intro!: local_upd)
  next
    case False
    then have "s' = upd s p (scan_update (\<lambda>_. No_Scan))" using scan_end(1) by (auto simp: ev_cas_frontier_def)
    then show ?thesis using scan_end by (auto intro!: local_upd [OF inv])
  qed
qed

lemma release_inv:
  assumes inv: "einv s" and release: "s' = upd (s\<lparr>ev := release_slot (ev s) i\<rparr>) p (releasing_update (\<lambda>_. None))"
    "alive (procs s p)" "releasing (procs s p) = Some i" "slots (ev s) i = free_slot \<or> \<not> alive (procs s (slot_owner s i))"
  shows "einv s'"
proof -
  have own: "slot_owner s' j = (if j = i then 0 else slot_owner s j)" for j
    using release(1) by (simp add: slot_owner_def release_slot_def free_slot_def)
  have pr: "alive (procs s' q) = alive (procs s q)" "place (procs s' q) = place (procs s q)"
    "phase (procs s' q) = phase (procs s q)" "scan (procs s' q) = scan (procs s q)" for q
    using release(1) by (cases "q = p"; simp)+
  show ?thesis
  proof (rule assign_inv [OF inv, of s' i free_slot p])
    show "slot_ok s' i" "slot_passed s' i" using release(1) by (simp_all add: slot_ok_def slot_passed_def release_slot_def)
    fix q assume q: "alive (procs s' q)" "phase (procs s' q) \<noteq> Outside"
    then have "alive (procs s q)" "phase (procs s q) \<noteq> Outside" using pr by simp_all
    note einvD(4) [OF inv this] einv_owner(1,2) [OF inv this]
    then show "place (procs s' q) < NR_PARTICIPANT \<and> slot_owner s' (place (procs s' q)) = q \<and> q \<noteq> 0"
      using release(4) q(1) pr own by auto
  qed (use release(1) pr in \<open>simp_all add: release_slot_def\<close>)
qed

lemma unregister_inv:
  assumes inv: "einv s" and unregister: "s' = upd (s\<lparr>ev := release_slot (ev s) (place (procs s p))\<rparr>) p (phase_update (\<lambda>_. Outside))"
    "alive (procs s p)" "drained (procs s p)"
  shows "einv s'"
proof -
  let ?i = "place (procs s p)"
  have ph: "phase (procs s p) \<noteq> Outside" using unregister(3) by (simp add: drained_def)
  have own: "slot_owner s' j = (if j = ?i then 0 else slot_owner s j)" for j
    using unregister(1) by (simp add: slot_owner_def release_slot_def free_slot_def)
  show ?thesis
  proof (rule assign_inv [OF inv, of s' ?i free_slot p])
    show "slot_ok s' ?i" "slot_passed s' ?i" using unregister(1) by (simp_all add: slot_ok_def slot_passed_def release_slot_def)
    fix j assume "j < NR_PARTICIPANT" "j \<noteq> ?i" "slots (ev s) j \<noteq> free_slot" "slot_owner s j = p"
    then show "place (procs s' p) = place (procs s p) \<and> phase (procs s' p) = phase (procs s p)"
      using einvD(2) [OF inv, of j] by (auto simp: slot_ok_def)
  next
    fix q assume q: "alive (procs s' q)" "phase (procs s' q) \<noteq> Outside"
    then have "q \<noteq> p" using unregister(1) by auto
    then have pr: "procs s' q = procs s q" using unregister(1) by simp
    then have "alive (procs s q)" "phase (procs s q) \<noteq> Outside" using q by simp_all
    from einvD(4) [OF inv this] einvD(4) [OF inv unregister(2) ph] \<open>q \<noteq> p\<close>
    show "place (procs s' q) < NR_PARTICIPANT \<and> slot_owner s' (place (procs s' q)) = q \<and> q \<noteq> 0"
      using pr own by auto
  qed (use unregister(1) in \<open>simp_all add: release_slot_def\<close>)
qed

lemma einv_step:
  assumes "estep False s s'" "einv s"
  shows "einv s'"
  using assms(1)
proof cases
  case (register p i v)
  then show ?thesis by (rule register_inv [OF assms(2)])
next
  case (announce p)
  then show ?thesis
    by (intro move_inv [OF assms(2), of p s' 2 "(procs s p)\<lparr>phase := Announced\<rparr>"])
      (simp_all add: upd_def report_def)
next
  case (read_frontier p)
  have "val_ok (frontier (ev s)) (slot_reported (slots (ev s) (place (procs s p)))) Announced"
    using einv_owner(3) [OF assms(2), of p] read_frontier by simp
  then show ?thesis using read_frontier einvD(1) [OF assms(2)]
    by (intro move_inv [OF assms(2), of p s' "slot_reported (slots (ev s) (place (procs s p)))" "(procs s p)\<lparr>phase := Activating (frontier (ev s))\<rparr>"])
      (simp_all add: upd_def set_same)
next
  case (activate p e)
  have "val_ok (frontier (ev s)) (slot_reported (slots (ev s) (place (procs s p)))) (Activating e)"
    using einv_owner(3) [OF assms(2), of p] activate by simp
  then show ?thesis using activate
    by (intro move_inv [OF assms(2), of p s' e "(procs s p)\<lparr>phase := Running\<rparr>"]) (simp_all add: upd_def report_def)
next
  case (enter_first p)
  have "val_ok (frontier (ev s)) (slot_reported (slots (ev s) (place (procs s p)))) Running"
    using einv_owner(3) [OF assms(2), of p] enter_first by simp
  then show ?thesis using enter_first
    by (intro move_inv [OF assms(2), of p s' "slot_reported (slots (ev s) (place (procs s p)))"
        "(procs s p)\<lparr>crit := 1, sect := Suc (sect (procs s p)), phase := Report (frontier (ev s))\<rparr>"])
      (simp_all add: upd_def set_same)
next
  case (enter_more p)
  then show ?thesis using einvD(3) [OF assms(2)] by (auto intro!: local_upd [OF assms(2)])
next
  case (heartbeat p)
  have "val_ok (frontier (ev s)) (slot_reported (slots (ev s) (place (procs s p)))) Running"
    using einv_owner(3) [OF assms(2), of p] heartbeat by (simp add: drained_def)
  then show ?thesis using heartbeat
    by (intro move_inv [OF assms(2), of p s' "slot_reported (slots (ev s) (place (procs s p)))"
        "(procs s p)\<lparr>phase := Report (frontier (ev s))\<rparr>"])
      (simp_all add: upd_def set_same drained_def)
next
  case (report p e)
  have "val_ok (frontier (ev s)) (slot_reported (slots (ev s) (place (procs s p)))) (Report e)"
    using einv_owner(3) [OF assms(2), of p] report by simp
  then show ?thesis using report
    by (intro move_inv [OF assms(2), of p s' e "(procs s p)\<lparr>phase := Running\<rparr>"]) (simp_all add: upd_def report_def)
next
  case (leave p)
  then show ?thesis using einvD(3) [OF assms(2)] by (auto intro!: local_upd [OF assms(2)])
next
  case (scan_start p)
  then show ?thesis by (auto intro!: local_upd [OF assms(2)])
next
  case (scan_frontier p)
  then show ?thesis using einvD(1) [OF assms(2)] by (auto intro!: local_upd [OF assms(2)])
next
  case (scan_slot p f i ok r dead)
  then have "scan_ok s (Scanning f i ok)" using einvD(3) [OF assms(2), of p] by simp
  from scan_slot_ok [OF assms(2) this scan_slot(4)] show ?thesis using scan_slot
    by (auto intro!: local_upd [OF assms(2)])
next
  case (scan_end p f ok)
  then show ?thesis by (rule scan_end_inv [OF assms(2)])
next
  case (terminate p i q ds)
  have "einv (upd s p (\<lambda>P. P\<lparr>likely_dead := ds, releasing := Some i\<rparr>))"
    using einvD(3) [OF assms(2)] by (auto intro!: local_upd [OF assms(2)])
  moreover from this have "einv (upd (upd s p (\<lambda>P. P\<lparr>likely_dead := ds, releasing := Some i\<rparr>)) q (alive_update (\<lambda>_. False)))"
    by (rule local_upd) (use einvD(3) [OF calculation] in simp_all)
  ultimately show ?thesis using terminate(1) by (simp add: Let_def)
next
  case (release p i)
  from release(4) show ?thesis by (intro release_inv [OF assms(2) release(1-3)]) simp
next
  case (crash p)
  then show ?thesis using einvD(3) [OF assms(2)] by (auto intro!: local_upd [OF assms(2)])
next
  case (unregister p)
  from unregister(1-3) show ?thesis by (rule unregister_inv [OF assms(2)])
qed

lemma einv_init: "einv einit"
  by (simp add: einv_def einit_def fresh_proc_def slot_ok_def)

lemma ereach_inv: "ereach False s \<Longrightarrow> einv s"
proof (induction rule: ereach.induct)
  case init
  show ?case by (rule einv_init)
next
  case (step s s')
  then show ?case using einv_step by blast
qed

end
