(* ===== verification/Epoch_Sections.thy ===== *)
theory Epoch_Sections
  imports Epoch_System
begin

text \<open>
  Critical sections of the epoch protocol: what a process in a section has reported, what a step can
  do to a section, and runs of several steps (joining, a heartbeat, entering a section, a whole scan).
\<close>

section \<open>Open sections\<close>

definition in_section :: "esys \<Rightarrow> int \<Rightarrow> nat \<Rightarrow> bool" where
  "in_section s p n \<longleftrightarrow> alive (procs s p) \<and> 0 < crit (procs s p) \<and> sect (procs s p) = n"

definition reported_by :: "esys \<Rightarrow> int \<Rightarrow> epoch" where
  "reported_by s p = slot_reported (slots (ev s) (place (procs s p)))"

text \<open>The epoch a section runs in: what its process has read and is about to report, or has reported.\<close>

definition section_epoch :: "esys \<Rightarrow> int \<Rightarrow> epoch" where
  "section_epoch s p = (case phase (procs s p) of Report v \<Rightarrow> v | _ \<Rightarrow> reported_by s p)"

definition crit_ok :: "esys \<Rightarrow> bool" where
  "crit_ok s \<longleftrightarrow> (\<forall>p. 0 < crit (procs s p) \<longrightarrow> phase (procs s p) = Running \<or> (\<exists>v. phase (procs s p) = Report v))"

lemma crit_ok_step: "estep late s s' \<Longrightarrow> crit_ok s \<Longrightarrow> crit_ok s'"
  by (induction rule: estep.cases) (auto simp: crit_ok_def upd_def report_def drained_def Let_def)

lemma ereach_crit_ok: "ereach late s \<Longrightarrow> crit_ok s"
proof (induction rule: ereach.induct)
  case init
  show ?case by (simp add: crit_ok_def einit_def fresh_proc_def)
qed (rule crit_ok_step)

lemma section_bounds:
  assumes "einv s" "crit_ok s" "in_section s p n"
  shows "2 \<le> section_epoch s p" "section_epoch s p \<le> frontier (ev s)" "frontier (ev s) \<le> section_epoch s p + 1"
    "phase (procs s p) = Running \<Longrightarrow> section_epoch s p = reported_by s p"
proof -
  have a: "alive (procs s p)" "phase (procs s p) = Running \<or> (\<exists>v. phase (procs s p) = Report v)"
    using assms(2,3) by (auto simp: in_section_def crit_ok_def)
  then have "phase (procs s p) \<noteq> Outside" by auto
  note v = einv_owner(3) [OF assms(1) a(1) this]
  then show "2 \<le> section_epoch s p" "section_epoch s p \<le> frontier (ev s)" "frontier (ev s) \<le> section_epoch s p + 1"
    "phase (procs s p) = Running \<Longrightarrow> section_epoch s p = reported_by s p"
    using a(2) by (auto simp: section_epoch_def reported_by_def)
qed

section \<open>What a step does to a section\<close>

lemma frontier_mono: "estep late s s' \<Longrightarrow> frontier (ev s) \<le> frontier (ev s')"
  by (induction rule: estep.cases)
    (auto simp: report_def ev_set_reported_def cas_slot_def ev_cas_frontier_def release_slot_def Let_def split: if_splits)

lemma sect_mono: "estep late s s' \<Longrightarrow> sect (procs s p) \<le> sect (procs s' p)"
  by (induction rule: estep.cases) (auto simp: upd_def report_def Let_def)

text \<open>
  A section that is open after a step was open before, in the same epoch, or it is a new one.
\<close>

lemma places_differ:
  assumes "einv s" "alive (procs s p)" "phase (procs s p) \<noteq> Outside" "alive (procs s q)" "phase (procs s q) \<noteq> Outside" "p \<noteq> q"
  shows "place (procs s p) \<noteq> place (procs s q)"
  using einv_owner(2) [OF assms(1-3)] einv_owner(2) [OF assms(1,4,5)] assms(6) by auto

lemmas section_defs = in_section_def section_epoch_def reported_by_def upd_def

lemma section_step:
  assumes "estep False s s'" "einv s" "crit_ok s" "in_section s' p n"
  shows "in_section s p n \<and> section_epoch s' p = section_epoch s p \<or> n = Suc (sect (procs s p))"
proof -
  have ph: "phase (procs s p) \<noteq> Outside" if "0 < crit (procs s p)"
  proof -
    have "phase (procs s p) = Running \<or> (\<exists>v. phase (procs s p) = Report v)" using assms(3) that by (simp add: crit_ok_def)
    then show ?thesis by auto
  qed
  have crit0: "crit (procs s p) = 0" if "phase (procs s p) \<noteq> Running" "\<And>v. phase (procs s p) \<noteq> Report v"
    using assms(3) that unfolding crit_ok_def by blast
  note differ = places_differ [OF assms(2), of p]
  from assms(1) show ?thesis
  proof cases
    case (register q i v)
    then have "p \<noteq> q" using assms(4) ph by (auto simp: in_section_def)
    moreover from this have "in_section s p n" using assms(4) register(1) by (simp add: in_section_def)
    moreover from this have "place (procs s p) \<noteq> i"
      using einv_owner(1) [OF assms(2), of p] ph register(6) by (auto simp: cas_slot_def in_section_def)
    ultimately show ?thesis using register by (auto simp: section_defs cas_slot_def split: phase.splits if_splits)
  next
    case (announce q)
    then have pq: "p \<noteq> q" using crit0 assms(4) by (auto simp: in_section_def report_def)
    then have "in_section s p n" using assms(4) announce(1) by (simp add: in_section_def report_def)
    then show ?thesis using announce pq differ [of q] ph by (auto simp: section_defs report_def ev_set_reported_def split: phase.splits if_splits)
  next
    case (read_frontier q)
    then show ?thesis using assms(4) ph by (cases "p = q") (auto simp: section_defs split: phase.splits if_splits)
  next
    case (activate q e)
    then have pq: "p \<noteq> q" using crit0 assms(4) by (auto simp: in_section_def report_def)
    then have "in_section s p n" using assms(4) activate(1) by (simp add: in_section_def report_def)
    then show ?thesis using activate pq differ [of q] ph by (auto simp: section_defs report_def ev_set_reported_def split: phase.splits if_splits)
  next
    case (report q e)
    then have i: "in_section s p n" using assms(4) by (cases "p = q") (simp_all add: in_section_def report_def)
    show ?thesis
    proof (cases "p = q")
      case True
      then show ?thesis using i report by (simp add: section_defs report_def ev_set_reported_def split: phase.splits if_splits)
    next
      case False
      then show ?thesis using i report differ [of q] ph by (auto simp: section_defs report_def ev_set_reported_def split: phase.splits if_splits)
    qed
  next
    case (scan_end q f ok)
    then have "in_section s p n" using assms(4) by (cases "p = q") (auto simp: in_section_def split: if_splits)
    then show ?thesis using scan_end by (auto simp: section_defs ev_cas_frontier_def split: phase.splits if_splits)
  next
    case (terminate q i r ds)
    then show ?thesis using assms(4) by (cases "p = q"; cases "p = r") (auto simp: section_defs Let_def split: phase.splits if_splits)
  next
    case (release q i)
    then have i: "in_section s p n" using assms(4) by (cases "p = q") (simp_all add: in_section_def)
    then have "place (procs s p) \<noteq> i"
      using einv_owner(1,2) [OF assms(2), of p] ph release(4) by (auto simp: in_section_def)
    then show ?thesis using i release by (auto simp: section_defs release_slot_def split: phase.splits if_splits)
  next
    case (unregister q)
    then have pq: "p \<noteq> q" using assms(4) by (auto simp: in_section_def drained_def)
    then have "in_section s p n" using assms(4) unregister(1) by (simp add: in_section_def)
    then show ?thesis using unregister pq differ [of q] ph by (auto simp: section_defs release_slot_def drained_def split: phase.splits if_splits)
  qed (use assms(4) in \<open>auto simp: section_defs drained_def split: phase.splits if_splits\<close>)
qed

section \<open>Runs of several steps\<close>

definition set_slot :: "esys \<Rightarrow> nat \<Rightarrow> ev_slot \<Rightarrow> esys" where
  "set_slot s i w = s\<lparr>ev := (ev s)\<lparr>slots := (slots (ev s))(i := w)\<rparr>\<rparr>"

lemma run2: "R a b \<Longrightarrow> R b c \<Longrightarrow> R\<^sup>*\<^sup>* a c"
  by auto

lemma run4: "R a b \<Longrightarrow> R b c \<Longrightarrow> R c d \<Longrightarrow> R d e \<Longrightarrow> R\<^sup>*\<^sup>* a e"
  by (meson converse_rtranclp_into_rtranclp r_into_rtranclp)

lemma ereach_run: "(estep late)\<^sup>*\<^sup>* s t \<Longrightarrow> ereach late s \<Longrightarrow> ereach late t"
  by (induction rule: rtranclp_induct) (auto intro: ereach.step)

lemma join:
  assumes "alive (procs s p)" "phase (procs s p) = Outside" "p \<noteq> 0" "i < NR_PARTICIPANT" "slots (ev s) i = free_slot"
  shows "(estep late)\<^sup>*\<^sup>* s (upd (set_slot s i \<lparr>slot_pid = p, slot_reported = frontier (ev s)\<rparr>) p (\<lambda>P. P\<lparr>place := i, phase := Running\<rparr>))"
proof -
  let ?at = "\<lambda>r ph. upd (set_slot s i \<lparr>slot_pid = p, slot_reported = r\<rparr>) p (\<lambda>P. P\<lparr>place := i, phase := ph\<rparr>)"
  have 1: "estep late s (?at 1 Registered)"
    using estep.register [OF assms(1-4), of "ev (set_slot s i \<lparr>slot_pid = p, slot_reported = 1\<rparr>)" late] assms(5)
    by (simp add: cas_slot_def set_slot_def)
  have 2: "estep late (?at 1 Registered) (?at 2 Announced)"
    using estep.announce [of "?at 1 Registered" p late] assms(1) by (simp add: upd_def report_def ev_set_reported_def set_slot_def)
  have 3: "estep late (?at 2 Announced) (?at 2 (Activating (frontier (ev s))))"
    using estep.read_frontier [of "?at 2 Announced" p late] assms(1) by (simp add: upd_def set_slot_def)
  have 4: "estep late (?at 2 (Activating (frontier (ev s)))) (?at (frontier (ev s)) Running)"
    using estep.activate [of "?at 2 (Activating (frontier (ev s)))" p "frontier (ev s)" late] assms(1)
    by (simp add: upd_def report_def ev_set_reported_def set_slot_def)
  show ?thesis by (rule run4 [of "estep late", OF 1 2 3 4])
qed

lemma beat:
  assumes "alive (procs s p)" "drained (procs s p)"
  shows "(estep late)\<^sup>*\<^sup>* s (set_slot s (place (procs s p)) ((slots (ev s) (place (procs s p)))\<lparr>slot_reported := frontier (ev s)\<rparr>))"
proof -
  let ?t = "upd s p (phase_update (\<lambda>_. Report (frontier (ev s))))"
  have 1: "estep late s ?t" using assms by (intro estep.heartbeat)
  have 2: "estep late ?t (upd (report ?t p (frontier (ev s))) p (phase_update (\<lambda>_. Running)))"
    using assms by (intro estep.report) simp_all
  have "(procs s p)\<lparr>phase := Running\<rparr> = procs s p" using assms(2) by (simp add: drained_def)
  then have 3: "upd (report ?t p (frontier (ev s))) p (phase_update (\<lambda>_. Running)) =
      set_slot s (place (procs s p)) ((slots (ev s) (place (procs s p)))\<lparr>slot_reported := frontier (ev s)\<rparr>)"
    by (simp add: upd_def report_def ev_set_reported_def set_slot_def fun_upd_idem)
  show ?thesis using run2 [of "estep late", OF 1 2] unfolding 3 .
qed

lemma enter:
  assumes "alive (procs s p)" "drained (procs s p)"
  shows "(estep late)\<^sup>*\<^sup>* s (upd (set_slot s (place (procs s p)) ((slots (ev s) (place (procs s p)))\<lparr>slot_reported := frontier (ev s)\<rparr>))
    p (\<lambda>P. P\<lparr>crit := 1, sect := Suc (sect P)\<rparr>))"
proof -
  let ?t = "upd s p (\<lambda>P. P\<lparr>crit := 1, sect := Suc (sect P), phase := Report (frontier (ev s))\<rparr>)"
  have 1: "estep late s ?t" using assms by (intro estep.enter_first) (simp_all add: drained_def)
  have 2: "estep late ?t (upd (report ?t p (frontier (ev s))) p (phase_update (\<lambda>_. Running)))"
    using assms by (intro estep.report) simp_all
  have "(procs s p)\<lparr>phase := Running\<rparr> = procs s p" using assms(2) by (simp add: drained_def)
  then have "(procs s p)\<lparr>crit := 1, sect := Suc (sect (procs s p)), phase := Running\<rparr> = (procs s p)\<lparr>crit := 1, sect := Suc (sect (procs s p))\<rparr>"
    by (cases "procs s p") simp
  then have 3: "upd (report ?t p (frontier (ev s))) p (phase_update (\<lambda>_. Running)) =
      upd (set_slot s (place (procs s p)) ((slots (ev s) (place (procs s p)))\<lparr>slot_reported := frontier (ev s)\<rparr>))
        p (\<lambda>P. P\<lparr>crit := 1, sect := Suc (sect P)\<rparr>)"
    by (simp add: upd_def report_def ev_set_reported_def set_slot_def)
  show ?thesis using run2 [of "estep late", OF 1 2] unfolding 3 .
qed

text \<open>A whole scan that finds nobody behind advances the frontier; a scan may also collect slots that lag.\<close>

lemma scan_rest:
  assumes "alive (procs s p)" "drained (procs s p)" "scan (procs s p) = Scanning f i True" "i \<le> NR_PARTICIPANT"
    "\<forall>j < NR_PARTICIPANT. slot_reported (slots (ev s) j) < 2 \<or> slot_reported (slots (ev s) j) = f"
  shows "(estep late)\<^sup>*\<^sup>* s (upd s p (scan_update (\<lambda>_. Scanning f NR_PARTICIPANT True)))"
  using assms
proof (induction "NR_PARTICIPANT - i" arbitrary: s i)
  case 0
  then have "i = NR_PARTICIPANT" by simp
  then have "upd s p (scan_update (\<lambda>_. Scanning f NR_PARTICIPANT True)) = s" using 0 by (simp add: upd_def fun_upd_idem)
  then show ?case using 0 by simp
next
  case (Suc n)
  let ?t = "upd s p (\<lambda>P. P\<lparr>scan := Scanning f (Suc i) True, likely_dead := likely_dead P @ []\<rparr>)"
  have i: "i < NR_PARTICIPANT" "\<not> (2 \<le> slot_reported (slots (ev s) i) \<and> slot_reported (slots (ev s) i) \<noteq> f)"
    using Suc.hyps(2) Suc.prems(4,5) by (auto simp: not_le dest: spec [of _ i])
  have "estep late s (upd s p (\<lambda>P. P\<lparr>scan := Scanning f (Suc i) (True \<and> \<not> (2 \<le> slot_reported (slots (ev s) i) \<and> slot_reported (slots (ev s) i) \<noteq> f)),
      likely_dead := likely_dead P @ []\<rparr>))"
    by (rule estep.scan_slot) (use Suc.prems i(1) in auto)
  then have "estep late s ?t" using i(2) by simp
  have "n = NR_PARTICIPANT - Suc i" using Suc.hyps(2) by simp
  from Suc.hyps(1) [OF this, of ?t] Suc.prems i(1)
  have "(estep late)\<^sup>*\<^sup>* ?t (upd ?t p (scan_update (\<lambda>_. Scanning f NR_PARTICIPANT True)))" by (simp add: drained_def)
  with \<open>estep late s ?t\<close> show ?case by (simp add: upd_def converse_rtranclp_into_rtranclp)
qed

lemma advance:
  assumes "alive (procs s p)" "drained (procs s p)" "scan (procs s p) = No_Scan" "likely_dead (procs s p) = []" "releasing (procs s p) = None"
    "\<forall>j < NR_PARTICIPANT. slot_reported (slots (ev s) j) < 2 \<or> slot_reported (slots (ev s) j) = frontier (ev s)"
  shows "(estep late)\<^sup>*\<^sup>* s (s\<lparr>ev := (ev s)\<lparr>frontier := frontier (ev s) + 1\<rparr>\<rparr>)"
proof -
  let ?f = "frontier (ev s)"
  let ?s1 = "upd s p (scan_update (\<lambda>_. Invalidated))" and ?s2 = "upd s p (scan_update (\<lambda>_. Scanning ?f 0 True))"
    and ?s3 = "upd s p (scan_update (\<lambda>_. Scanning ?f NR_PARTICIPANT True))"
  have "estep late s ?s1" using assms by (intro estep.scan_start)
  moreover have "estep late ?s1 ?s2" using estep.scan_frontier [of ?s1 p late] assms by (simp add: upd_def)
  moreover have "(estep late)\<^sup>*\<^sup>* ?s2 ?s3" using scan_rest [of ?s2 p ?f 0 late] assms by (simp add: upd_def drained_def)
  moreover have "estep late ?s3 (s\<lparr>ev := (ev s)\<lparr>frontier := ?f + 1\<rparr>\<rparr>)"
  proof -
    have "(procs s p)\<lparr>scan := No_Scan\<rparr> = procs s p" using assms(3) by simp
    then show ?thesis using estep.scan_end [of ?s3 p ?f True late] assms(1) by (simp add: upd_def ev_cas_frontier_def fun_upd_idem)
  qed
  ultimately show ?thesis by (meson converse_rtranclp_into_rtranclp rtranclp.rtrancl_into_rtrancl)
qed

text \<open>A scan that takes the participant of slot 0 for dead: it was new and then lagged.\<close>

lemma advance_collect:
  assumes "alive (procs s p)" "drained (procs s p)" "scan (procs s p) = No_Scan" "likely_dead (procs s p) = []" "releasing (procs s p) = None"
    "place (procs s p) \<noteq> 0" "slots (ev s) 0 = \<lparr>slot_pid = q, slot_reported = 1\<rparr>" "2 \<le> frontier (ev s)"
    "\<forall>j < NR_PARTICIPANT. slot_reported (slots (ev s) j) < 2 \<or> slot_reported (slots (ev s) j) = frontier (ev s)"
  shows "(estep late)\<^sup>*\<^sup>* s (upd (s\<lparr>ev := (ev s)\<lparr>frontier := frontier (ev s) + 1\<rparr>\<rparr>) p (\<lambda>P. P\<lparr>likely_dead := [(0, q)]\<rparr>))"
proof -
  let ?f = "frontier (ev s)"
  let ?at = "\<lambda>sc. upd s p (\<lambda>P. P\<lparr>scan := sc, likely_dead := [(0, q)]\<rparr>)"
  let ?s1 = "upd s p (scan_update (\<lambda>_. Invalidated))" and ?s2 = "upd s p (scan_update (\<lambda>_. Scanning ?f 0 True))"
  have "estep late s ?s1" using assms by (intro estep.scan_start)
  moreover have "estep late ?s1 ?s2" using estep.scan_frontier [of ?s1 p late] assms by (simp add: upd_def)
  moreover have "estep late ?s2 (?at (Scanning ?f 1 True))"
    using estep.scan_slot [of ?s2 p ?f 0 True 1 "[(0, q)]" late] assms by (simp add: upd_def slot_owner_def)
  moreover have "(estep late)\<^sup>*\<^sup>* (?at (Scanning ?f 1 True)) (?at (Scanning ?f NR_PARTICIPANT True))"
  proof -
    have e: "upd (?at (Scanning ?f 1 True)) p (scan_update (\<lambda>_. Scanning ?f NR_PARTICIPANT True)) = ?at (Scanning ?f NR_PARTICIPANT True)"
      by (cases "procs s p") (simp add: upd_def)
    have "(estep late)\<^sup>*\<^sup>* (?at (Scanning ?f 1 True)) (upd (?at (Scanning ?f 1 True)) p (scan_update (\<lambda>_. Scanning ?f NR_PARTICIPANT True)))"
      by (rule scan_rest [where i = 1]) (use assms in \<open>simp_all add: upd_def drained_def\<close>)
    then show ?thesis unfolding e .
  qed
  moreover have "estep late (?at (Scanning ?f NR_PARTICIPANT True))
      (upd (s\<lparr>ev := (ev s)\<lparr>frontier := ?f + 1\<rparr>\<rparr>) p (\<lambda>P. P\<lparr>likely_dead := [(0, q)]\<rparr>))"
  proof -
    have "(procs s p)\<lparr>likely_dead := [(0, q)], scan := No_Scan\<rparr> = (procs s p)\<lparr>likely_dead := [(0, q)]\<rparr>"
      using assms(3) by (cases "procs s p") simp
    then show ?thesis using estep.scan_end [of "?at (Scanning ?f NR_PARTICIPANT True)" p ?f True late] assms(1)
      by (simp add: upd_def ev_cas_frontier_def)
  qed
  ultimately show ?thesis by (meson converse_rtranclp_into_rtranclp rtranclp.rtrancl_into_rtrancl)
qed

end
