(* ===== verification/Epoch_Manager.thy ===== *)
theory Epoch_Manager
  imports Epoch_Vector
begin

text \<open>
  \<open>EpochManagerImpl\<close> (\<open>src/shelf_usage/epoch_manager_impl.cc\<close>), as run by the threads of one process one
  after the other. Theory \<open>Epoch_System\<close> has the interleaved executions of many processes; the
  reader-writer lock that orders the threads of one process is theory \<open>Rw_Lock\<close>. The log
  \<open>terminated\<close> lists the processes that \<open>ParticipantManager::terminate\<close> was called for, and
  \<open>called_back\<close> those that the failure callback was called for.
\<close>

section \<open>State\<close>

record emgr =
  vec :: ev_view
  self_pid :: int
  my_slot :: nat
  active_epoch_count :: int
  last_scan_time :: hrtime
  last_frontier :: epoch
  has_callback :: bool
  terminated :: "int list"
  called_back :: "int list"

definition TIMEOUT_US :: u64 where
  "TIMEOUT_US = 1000000"

section \<open>Critical sections\<close>

definition report_frontier :: "clock \<Rightarrow> emgr \<Rightarrow> emgr" where
  "report_frontier clk m =
     m\<lparr>vec := view_set_reported clk (vec m) (my_slot m) (frontier (shared (vec m)))\<rparr>"

definition enter_critical :: "clock \<Rightarrow> emgr \<Rightarrow> emgr" where
  "enter_critical clk m =
     (let old = active_epoch_count m; m = m\<lparr>active_epoch_count := old + 1\<rparr>
      in if old = 0 then report_frontier clk m else m)"

definition exit_critical :: "emgr \<Rightarrow> emgr" where
  "exit_critical m = m\<lparr>active_epoch_count := active_epoch_count m - 1\<rparr>"

definition exists_active_critical :: "emgr \<Rightarrow> bool" where
  "exists_active_critical m \<longleftrightarrow> 0 < active_epoch_count m"

definition reported_epoch :: "clock \<Rightarrow> emgr \<Rightarrow> epoch \<times> emgr" where
  "reported_epoch clk m =
     (let (e, v) = view_reported clk (vec m) (my_slot m) in (e, m\<lparr>vec := v\<rparr>))"

definition frontier_epoch :: "emgr \<Rightarrow> epoch" where
  "frontier_epoch m = frontier (shared (vec m))"

text \<open>One round of the heartbeat thread, which holds the exclusive lock.\<close>

definition heartbeat :: "clock \<Rightarrow> emgr \<Rightarrow> emgr result" where
  "heartbeat clk m = (if active_epoch_count m \<noteq> 0 then Inl Assert_Failed else Inr (report_frontier clk m))"

section \<open>Advancing the frontier\<close>

definition scan_one :: "clock \<Rightarrow> epoch \<Rightarrow> nat \<Rightarrow> ev_view \<times> bool \<times> nat list \<Rightarrow> ev_view \<times> bool \<times> nat list" where
  "scan_one clk f i = (\<lambda>(v, all_in_frontier, likely_dead).
     let (reported, v) = view_reported clk v i;
         all_in_frontier = (all_in_frontier \<and> \<not> (EPOCH_MIN_ACTIVE \<le> reported \<and> reported \<noteq> f))
     in if reported \<noteq> EPOCH_NO_PARTICIPANT \<and> reported \<noteq> f
        then let (current_time, v) = get_hrtime clk v
             in (v, all_in_frontier,
                 if TIMEOUT_US < diff_hrtime_us (last_modified (cache v i)) current_time
                 then likely_dead @ [i] else likely_dead)
        else (v, all_in_frontier, likely_dead))"

definition scan_slots :: "clock \<Rightarrow> epoch \<Rightarrow> ev_view \<Rightarrow> ev_view \<times> bool \<times> nat list" where
  "scan_slots clk f v = fold (scan_one clk f) [0..<NR_PARTICIPANT] (v, True, [])"

definition kill_one :: "nat \<Rightarrow> emgr \<Rightarrow> emgr" where
  "kill_one i m =
     (let pid = cached_pid (cache (vec m) i);
          m = (if pid \<noteq> 0 then m\<lparr>terminated := terminated m @ [pid]\<rparr> else m);
          m = (if has_callback m then m\<lparr>called_back := called_back m @ [pid]\<rparr> else m)
      in m\<lparr>vec := unregister_participant (vec m) i\<rparr>)"

definition advance_frontier :: "clock \<Rightarrow> emgr \<Rightarrow> bool \<times> emgr" where
  "advance_frontier clk m =
     (let v = invalidate_cache (vec m);
          (current_time, v) = get_hrtime clk v;
          v = (if TIMEOUT_US < diff_hrtime_us (last_scan_time m) current_time then refresh_modified_time clk v else v);
          (scan_time, v) = get_hrtime clk v;
          f = frontier (shared v);
          v = (if f \<noteq> last_frontier m then refresh_modified_time clk v else v);
          (v, all_in_frontier, likely_dead) = scan_slots clk f v;
          (old_frontier, ev) = (if all_in_frontier then ev_cas_frontier (shared v) f (f + 1) else (f - 1, shared v));
          success = (all_in_frontier \<and> old_frontier = f)
      in (success, fold kill_one likely_dead
            (m\<lparr>vec := v\<lparr>shared := ev\<rparr>, last_scan_time := scan_time, last_frontier := f\<rparr>)))"

section \<open>Construction and destruction\<close>

text \<open>\<open>scan0\<close> stands for the member \<open>last_scan_time_\<close>, which the constructor does not initialise.\<close>

definition EpochManagerImpl_new ::
  "clock \<Rightarrow> epoch_vec \<Rightarrow> bool \<Rightarrow> (nat \<Rightarrow> element) \<Rightarrow> hrtime \<Rightarrow> int \<Rightarrow> emgr result" where
  "EpochManagerImpl_new clk ev may_create mem scan0 pid =
     (let (sl, v) = register_participant (EpochVector_new ev may_create mem) pid
      in case sl of
           None \<Rightarrow> Inl Runtime_Error
         | Some i \<Rightarrow>
             let m = \<lparr>vec = activate clk v i, self_pid = pid, my_slot = i, active_epoch_count = 0,
                      last_scan_time = scan0, last_frontier = 0, has_callback = False,
                      terminated = [], called_back = []\<rparr>
             in Inr (snd (advance_frontier clk m)))"

definition EpochManagerImpl_delete :: "emgr \<Rightarrow> epoch_vec" where
  "EpochManagerImpl_delete m = shared (unregister_participant (vec m) (my_slot m))"

definition register_failure_callback :: "emgr \<Rightarrow> bool \<Rightarrow> emgr" where
  "register_failure_callback m cb = m\<lparr>has_callback := cb\<rparr>"

definition reset_vector :: "emgr \<Rightarrow> emgr result" where
  "reset_vector m = rbind (ev_reset (shared (vec m))) (\<lambda>ev. Inr (m\<lparr>vec := (vec m)\<lparr>shared := ev\<rparr>\<rparr>))"

section \<open>What a scan sees\<close>

definition lags :: "epoch_vec \<Rightarrow> nat \<Rightarrow> bool" where
  "lags ev i \<longleftrightarrow> slot_reported (slots ev i) \<noteq> 0 \<and> slot_reported (slots ev i) \<noteq> frontier ev"

definition holds_back :: "epoch_vec \<Rightarrow> nat \<Rightarrow> bool" where
  "holds_back ev i \<longleftrightarrow> 2 \<le> slot_reported (slots ev i) \<and> slot_reported (slots ev i) \<noteq> frontier ev"

text \<open>Every modification time the cache holds is at most a timeout before the clock's later times.\<close>

definition fresh :: "clock \<Rightarrow> ev_view \<Rightarrow> bool" where
  "fresh clk v \<longleftrightarrow> (\<forall>i < NR_PARTICIPANT. \<forall>n \<ge> ticks v. diff_hrtime_us (last_modified (cache v i)) (clk n) \<le> TIMEOUT_US)"

definition steady :: "clock \<Rightarrow> bool" where
  "steady clk \<longleftrightarrow> (\<forall>a b. a \<le> b \<longrightarrow> diff_hrtime_us (clk a) (clk b) \<le> TIMEOUT_US)"

lemma view_reported_invalid:
  assumes "\<not> valid (cache v i)"
  obtains v' where "view_reported clk v i = (slot_reported (slots (shared v) i), v')" "shared v' = shared v"
    "\<And>j. j \<noteq> i \<Longrightarrow> cache v' j = cache v j" "steady clk \<and> fresh clk v \<longrightarrow> fresh clk v'"
proof -
  have "steady clk \<and> fresh clk v \<longrightarrow> fresh clk (snd (view_reported clk v i))"
    using assms by (auto simp: view_reported_def get_hrtime_def Let_def fresh_def steady_def)
  moreover have "fst (view_reported clk v i) = slot_reported (slots (shared v) i)"
      "shared (snd (view_reported clk v i)) = shared v" "\<And>j. j \<noteq> i \<Longrightarrow> cache (snd (view_reported clk v i)) j = cache v j"
    using assms by (auto simp: view_reported_def get_hrtime_def Let_def)
  ultimately show ?thesis using that by (metis prod.collapse)
qed

lemma scan_slots_from:
  assumes "\<And>i. j \<le> i \<Longrightarrow> i < NR_PARTICIPANT \<Longrightarrow> \<not> valid (cache v i)" "f = frontier (shared v)"
    "j \<le> NR_PARTICIPANT" "set d0 \<subseteq> {i. i < NR_PARTICIPANT \<and> lags (shared v) i}"
  shows "\<exists>v' d. fold (scan_one clk f) [j..<NR_PARTICIPANT] (v, ok, d0) =
      (v', ok \<and> (\<forall>i. j \<le> i \<and> i < NR_PARTICIPANT \<longrightarrow> \<not> holds_back (shared v) i), d) \<and>
    shared v' = shared v \<and> set d \<subseteq> {i. i < NR_PARTICIPANT \<and> lags (shared v) i} \<and>
    (steady clk \<and> fresh clk v \<longrightarrow> d = d0)"
  using assms
proof (induction "NR_PARTICIPANT - j" arbitrary: j v ok d0)
  case 0
  then show ?case by auto
next
  case (Suc n)
  then have j: "j < NR_PARTICIPANT" "[j..<NR_PARTICIPANT] = j # [Suc j..<NR_PARTICIPANT]"
    by (simp_all add: upt_conv_Cons)
  from view_reported_invalid [OF Suc.prems(1) [OF order_refl j(1)]] obtain w where
    w: "view_reported clk v j = (slot_reported (slots (shared v) j), w)" "shared w = shared v"
      "\<And>i. i \<noteq> j \<Longrightarrow> cache w i = cache v i" "steady clk \<and> fresh clk v \<longrightarrow> fresh clk w" by metis
  let ?lag = "lags (shared v) j"
  define u where "u = (if ?lag then w\<lparr>ticks := Suc (ticks w)\<rparr> else w)"
  define d1 where "d1 = (if ?lag \<and> TIMEOUT_US < diff_hrtime_us (last_modified (cache w j)) (clk (ticks w)) then d0 @ [j] else d0)"
  define ok1 where "ok1 = (ok \<and> \<not> holds_back (shared v) j)"
  have step: "scan_one clk f j (v, ok, d0) = (u, ok1, d1)"
    by (simp add: scan_one_def w(1) Let_def u_def d1_def ok1_def lags_def holds_back_def get_hrtime_def Suc.prems(2))
  have u: "shared u = shared v" "\<And>i. i \<noteq> j \<Longrightarrow> cache u i = cache v i" "steady clk \<and> fresh clk v \<longrightarrow> fresh clk u"
    using w(2,3,4) by (auto simp: u_def fresh_def)
  have d1: "set d1 \<subseteq> {i. i < NR_PARTICIPANT \<and> lags (shared v) i}" using Suc.prems(4) j(1) by (auto simp: d1_def)
  have keep: "d1 = d0" if "steady clk \<and> fresh clk v"
  proof -
    from that have "fresh clk w" using w(4) by blast
    then have "diff_hrtime_us (last_modified (cache w j)) (clk (ticks w)) \<le> TIMEOUT_US" using j(1) by (auto simp: fresh_def)
    then show ?thesis by (simp add: d1_def not_less)
  qed
  have "n = NR_PARTICIPANT - Suc j" using Suc.hyps(2) by simp
  from Suc.hyps(1) [OF this, of u d1 ok1] Suc.prems u d1 j(1) obtain v' d where
    r: "fold (scan_one clk f) [Suc j..<NR_PARTICIPANT] (u, ok1, d1) =
        (v', ok1 \<and> (\<forall>i. Suc j \<le> i \<and> i < NR_PARTICIPANT \<longrightarrow> \<not> holds_back (shared u) i), d)"
      "shared v' = shared u" "set d \<subseteq> {i. i < NR_PARTICIPANT \<and> lags (shared u) i}" "steady clk \<and> fresh clk u \<longrightarrow> d = d1"
    by auto
  have "ok1 \<and> (\<forall>i. Suc j \<le> i \<and> i < NR_PARTICIPANT \<longrightarrow> \<not> holds_back (shared u) i) \<longleftrightarrow>
      ok \<and> (\<forall>i. j \<le> i \<and> i < NR_PARTICIPANT \<longrightarrow> \<not> holds_back (shared v) i)"
    using j(1) unfolding ok1_def u(1) by (metis Suc_le_eq le_neq_implies_less order_refl less_imp_le)
  then show ?case using r step u keep unfolding j(2) by auto
qed

lemma kill_all:
  "shared (vec (fold kill_one d m)) = (shared (vec m))\<lparr>slots := (\<lambda>i. if i \<in> set d then free_slot else slots (shared (vec m)) i)\<rparr>"
proof (induction d arbitrary: m)
  case Nil
  then show ?case by simp
next
  case (Cons i d)
  have "shared (vec (kill_one i m)) = release_slot (shared (vec m)) i"
    by (simp add: kill_one_def unregister_participant_def Let_def)
  then show ?case using Cons [of "kill_one i m"] by (auto simp: release_slot_def fun_eq_iff)
qed

lemma fresh_refresh: "steady clk \<Longrightarrow> fresh clk (refresh_modified_time clk v)"
  by (auto simp: fresh_def steady_def refresh_modified_time_def get_hrtime_def)

text \<open>
  One pass of the monitor, run alone: the frontier moves by one exactly when no active slot holds
  it back, and only participants that lag behind the frontier are removed; nobody is if
  the frontier has moved since the last pass and the pass takes less than the timeout.
\<close>

lemma advance_frontier_spec:
  defines "all_in m \<equiv> \<forall>i < NR_PARTICIPANT. \<not> holds_back (shared (vec m)) i"
  shows "\<exists>dead m'. advance_frontier clk m = (all_in m, m') \<and>
    set dead \<subseteq> {i. i < NR_PARTICIPANT \<and> lags (shared (vec m)) i} \<and>
    frontier (shared (vec m')) = frontier (shared (vec m)) + of_bool (all_in m) \<and>
    slots (shared (vec m')) = (\<lambda>i. if i \<in> set dead then free_slot else slots (shared (vec m)) i) \<and>
    (steady clk \<and> frontier (shared (vec m)) \<noteq> last_frontier m \<longrightarrow> dead = [])"
proof -
  let ?ev = "shared (vec m)" and ?f = "frontier (shared (vec m))"
  define v1 where "v1 = snd (get_hrtime clk (invalidate_cache (vec m)))"
  define v2 where "v2 = (if TIMEOUT_US < diff_hrtime_us (last_scan_time m) (fst (get_hrtime clk (invalidate_cache (vec m))))
    then refresh_modified_time clk v1 else v1)"
  define v3 where "v3 = snd (get_hrtime clk v2)"
  define v4 where "v4 = (if ?f \<noteq> last_frontier m then refresh_modified_time clk v3 else v3)"
  note d = v1_def v2_def v3_def v4_def get_hrtime_def invalidate_cache_def refresh_modified_time_def
  have sh: "shared v4 = ?ev" by (simp add: d)
  have inv: "\<not> valid (cache v4 i)" if "i < NR_PARTICIPANT" for i using that by (simp add: d)
  have fr: "fresh clk v4" if "steady clk" "?f \<noteq> last_frontier m"
    using that fresh_refresh [of clk v3] by (simp add: v4_def)
  from scan_slots_from [of 0 v4 ?f "[]" clk True] inv sh obtain v5 dead where
    s: "scan_slots clk ?f v4 = (v5, \<forall>i < NR_PARTICIPANT. \<not> holds_back ?ev i, dead)" "shared v5 = ?ev"
      "set dead \<subseteq> {i. i < NR_PARTICIPANT \<and> lags ?ev i}" "steady clk \<and> fresh clk v4 \<longrightarrow> dead = []"
    unfolding scan_slots_def by (auto simp del: upt_rec_numeral)
  have shv: "shared v3 = ?ev" by (simp add: d)
  define m1 where "m1 = m\<lparr>vec := v5\<lparr>shared := snd (if all_in m then ev_cas_frontier ?ev ?f (?f + 1) else (?f - 1, ?ev))\<rparr>,
    last_scan_time := fst (get_hrtime clk v2), last_frontier := ?f\<rparr>"
  have adv: "advance_frontier clk m = (all_in m, fold kill_one dead m1)"
    unfolding advance_frontier_def Let_def case_prod_unfold v1_def [symmetric] v2_def [symmetric]
      v3_def [symmetric] shv v4_def [symmetric] s(1,2) prod.sel
    by (auto simp: m1_def all_in_def ev_cas_frontier_def)
  have m1: "frontier (shared (vec m1)) = ?f + of_bool (all_in m)" "slots (shared (vec m1)) = slots ?ev"
    by (simp_all add: m1_def ev_cas_frontier_def)
  show ?thesis
    by (intro exI [of _ dead] exI [of _ "fold kill_one dead m1"] conjI adv s(3))
      (use m1 fr s(4) in \<open>auto simp: kill_all fun_eq_iff\<close>)
qed

end
