(* ===== verification/Epoch_Props.thy ===== *)
theory Epoch_Props
  imports Epoch_Sections Epoch_Manager
begin

text \<open>
  The properties of the epoch protocol: the frontier stays within one epoch of every open critical
  section, it can always move on, and what the unguarded \<open>release_slot\<close> breaks.
\<close>

section \<open>Small systems\<close>

text \<open>Three slots and four processes, the others as they are at the start.\<close>

definition small_sys :: "epoch \<Rightarrow> ev_slot \<Rightarrow> ev_slot \<Rightarrow> ev_slot \<Rightarrow> proc \<Rightarrow> proc \<Rightarrow> proc \<Rightarrow> proc \<Rightarrow> esys" where
  "small_sys F w0 w1 w2 P1 P2 P3 P4 =
     \<lparr>ev = \<lparr>frontier = F, slots = (\<lambda>_. free_slot)(0 := w0, 1 := w1, 2 := w2)\<rparr>,
      procs = (\<lambda>_. fresh_proc)(1 := P1, 2 := P2, 3 := P3, 4 := P4)\<rparr>"

abbreviation (input) mk_slot :: "int \<Rightarrow> epoch \<Rightarrow> ev_slot" where
  "mk_slot p r \<equiv> \<lparr>slot_pid = p, slot_reported = r\<rparr>"

lemma small_sys_init: "einit = small_sys 2 free_slot free_slot free_slot fresh_proc fresh_proc fresh_proc fresh_proc"
  by (auto simp: einit_def small_sys_def fun_eq_iff)

lemma small_sys_upd:
  "upd (small_sys F w0 w1 w2 P1 P2 P3 P4) 1 f = small_sys F w0 w1 w2 (f P1) P2 P3 P4"
  "upd (small_sys F w0 w1 w2 P1 P2 P3 P4) 2 f = small_sys F w0 w1 w2 P1 (f P2) P3 P4"
  "upd (small_sys F w0 w1 w2 P1 P2 P3 P4) 3 f = small_sys F w0 w1 w2 P1 P2 (f P3) P4"
  "upd (small_sys F w0 w1 w2 P1 P2 P3 P4) 4 f = small_sys F w0 w1 w2 P1 P2 P3 (f P4)"
  by (simp_all add: small_sys_def upd_def fun_eq_iff)

lemma small_sys_slot:
  "set_slot (small_sys F w0 w1 w2 P1 P2 P3 P4) 0 w = small_sys F w w1 w2 P1 P2 P3 P4"
  "set_slot (small_sys F w0 w1 w2 P1 P2 P3 P4) 1 w = small_sys F w0 w w2 P1 P2 P3 P4"
  "set_slot (small_sys F w0 w1 w2 P1 P2 P3 P4) (Suc 0) w = small_sys F w0 w w2 P1 P2 P3 P4"
  "set_slot (small_sys F w0 w1 w2 P1 P2 P3 P4) 2 w = small_sys F w0 w1 w P1 P2 P3 P4"
  by (auto simp: small_sys_def set_slot_def fun_eq_iff)

lemma small_sys_sel:
  "frontier (ev (small_sys F w0 w1 w2 P1 P2 P3 P4)) = F"
  "slots (ev (small_sys F w0 w1 w2 P1 P2 P3 P4)) 0 = w0" "slots (ev (small_sys F w0 w1 w2 P1 P2 P3 P4)) 1 = w1"
  "slots (ev (small_sys F w0 w1 w2 P1 P2 P3 P4)) (Suc 0) = w1" "slots (ev (small_sys F w0 w1 w2 P1 P2 P3 P4)) 2 = w2"
  "procs (small_sys F w0 w1 w2 P1 P2 P3 P4) 1 = P1" "procs (small_sys F w0 w1 w2 P1 P2 P3 P4) 2 = P2"
  "procs (small_sys F w0 w1 w2 P1 P2 P3 P4) 3 = P3" "procs (small_sys F w0 w1 w2 P1 P2 P3 P4) 4 = P4"
  by (simp_all add: small_sys_def)

lemma small_sys_frontier:
  "(small_sys F w0 w1 w2 P1 P2 P3 P4)\<lparr>ev := (ev (small_sys F w0 w1 w2 P1 P2 P3 P4))\<lparr>frontier := G\<rparr>\<rparr> = small_sys G w0 w1 w2 P1 P2 P3 P4"
  by (simp add: small_sys_def)

lemma small_sys_release:
  "(small_sys F w0 w1 w2 P1 P2 P3 P4)\<lparr>ev := release_slot (ev (small_sys F w0 w1 w2 P1 P2 P3 P4)) 0\<rparr> = small_sys F free_slot w1 w2 P1 P2 P3 P4"
  by (auto simp: small_sys_def release_slot_def fun_eq_iff)

lemma small_sys_all:
  "(\<forall>j < NR_PARTICIPANT. Q (slots (ev (small_sys F w0 w1 w2 P1 P2 P3 P4)) j)) \<longleftrightarrow> Q w0 \<and> Q w1 \<and> Q w2 \<and> Q free_slot"
proof
  assume a: "\<forall>j < NR_PARTICIPANT. Q (slots (ev (small_sys F w0 w1 w2 P1 P2 P3 P4)) j)"
  from a [rule_format, of 0] a [rule_format, of 1] a [rule_format, of 2] a [rule_format, of 3]
  show "Q w0 \<and> Q w1 \<and> Q w2 \<and> Q free_slot" by (simp add: small_sys_def)
qed (auto simp: small_sys_def)

lemma small_sys_level:
  "(\<forall>j < NR_PARTICIPANT. slot_reported (slots (ev (small_sys F w0 w1 w2 P1 P2 P3 P4)) j) < 2 \<or>
      slot_reported (slots (ev (small_sys F w0 w1 w2 P1 P2 P3 P4)) j) = G) \<longleftrightarrow>
    (\<forall>w \<in> {w0, w1, w2, free_slot}. slot_reported w < 2 \<or> slot_reported w = G)"
  using small_sys_all [of "\<lambda>w. slot_reported w < 2 \<or> slot_reported w = G"] by simp

lemmas small_sys_simps = small_sys_upd small_sys_slot small_sys_sel small_sys_frontier

definition running_proc :: "nat \<Rightarrow> proc" where
  "running_proc i = fresh_proc\<lparr>place := i, phase := Running\<rparr>"

lemma running_proc_simps [simp]:
  "alive (running_proc i)" "place (running_proc i) = i" "phase (running_proc i) = Running" "crit (running_proc i) = 0"
  "scan (running_proc i) = No_Scan" "likely_dead (running_proc i) = []" "releasing (running_proc i) = None" "sect (running_proc i) = 0"
  "drained (running_proc i)"
  by (simp_all add: running_proc_def fresh_proc_def drained_def)

lemma fresh_proc_simps [simp]:
  "alive fresh_proc" "place fresh_proc = 0" "phase fresh_proc = Outside" "crit fresh_proc = 0" "scan fresh_proc = No_Scan"
  "likely_dead fresh_proc = []" "releasing fresh_proc = None" "sect fresh_proc = 0"
  "slot_reported free_slot = 0" "slot_pid free_slot = 0"
  by (simp_all add: fresh_proc_def free_slot_def)

section \<open>The frontier and the open sections\<close>

text \<open>C7: in every reachable state, with processes that join, leave, crash and are killed, every open
  critical section is at the frontier or one epoch behind, the epoch it reported does not change
  while it is open, and two open sections are at most one epoch apart.\<close>

theorem epoch_sections_bounded:
  assumes "ereach False s" "in_section s p n"
  shows "2 \<le> section_epoch s p \<and> section_epoch s p \<le> frontier (ev s) \<and> frontier (ev s) \<le> section_epoch s p + 1 \<and>
    (phase (procs s p) = Running \<longrightarrow> reported_by s p = section_epoch s p) \<and>
    (\<forall>s'. estep False s s' \<and> in_section s' p n \<longrightarrow> section_epoch s' p = section_epoch s p) \<and>
    (\<forall>q m. in_section s q m \<longrightarrow> \<bar>section_epoch s q - section_epoch s p\<bar> \<le> 1)"
proof -
  note inv = ereach_inv [OF assms(1)] ereach_crit_ok [OF assms(1)]
  note b = section_bounds [OF inv]
  have "section_epoch s' p = section_epoch s p" if "estep False s s'" "in_section s' p n" for s'
    using section_step [OF that(1) inv that(2)] assms(2) by (auto simp: in_section_def)
  moreover have "\<bar>section_epoch s q - section_epoch s p\<bar> \<le> 1" if "in_section s q m" for q m
    using b(2,3) [OF that] b(2,3) [OF assms(2)] by linarith
  ultimately show ?thesis using b [OF assms(2)] by auto
qed

definition one_section :: esys where
  "one_section = small_sys 2 (mk_slot 1 2) free_slot free_slot ((running_proc 0)\<lparr>crit := 1, sect := 1\<rparr>) fresh_proc fresh_proc fresh_proc"

lemma one_section_reach: "ereach False one_section" "in_section one_section 1 1"
proof -
  let ?s1 = "small_sys 2 (mk_slot 1 2) free_slot free_slot (running_proc 0) fresh_proc fresh_proc fresh_proc"
  have "(estep False)\<^sup>*\<^sup>* einit ?s1"
    using join [of einit 1 0 False] by (simp add: small_sys_init small_sys_simps flip: running_proc_def)
  moreover have "(estep False)\<^sup>*\<^sup>* ?s1 one_section"
    using enter [of ?s1 1 False] by (simp add: small_sys_simps one_section_def)
  ultimately show "ereach False one_section" using ereach_run ereach.init by blast
  show "in_section one_section 1 1" by (simp add: in_section_def one_section_def small_sys_simps)
qed

theorem epoch_sections_bounded_witness:
  "section_epoch one_section 1 = 2 \<and> section_epoch one_section 1 \<le> frontier (ev one_section) \<and>
    frontier (ev one_section) \<le> section_epoch one_section 1 + 1"
  using epoch_sections_bounded [OF one_section_reach]
  by (simp add: one_section_def section_epoch_def reported_by_def small_sys_simps)

section \<open>A late release\<close>

text \<open>\<open>release_slot\<close> does not check who owns the slot. Two processes that both take the participant
  of a slot for dead can release it one after the other, and a new participant that acquired it in
  between is not seen any more: its critical section stays open while the frontier moves two epochs on.\<close>

theorem late_release_unsafe:
  "\<exists>s1 s2. ereach True s1 \<and> in_section s1 4 1 \<and> section_epoch s1 4 = 4 \<and>
    (estep True)\<^sup>*\<^sup>* s1 s2 \<and> in_section s2 4 1 \<and> frontier (ev s2) = 6"
proof -
  let ?R = "(estep True)\<^sup>*\<^sup>*"
  let ?Q = "\<lambda>i. (running_proc i)\<lparr>likely_dead := [(0, 3)]\<rparr>"
  let ?P = "\<lambda>i d r. (running_proc i)\<lparr>likely_dead := d, releasing := r\<rparr>"
  let ?D = "fresh_proc\<lparr>place := 0, phase := Registered\<rparr>"
  let ?K = "?D\<lparr>alive := False\<rparr>"
  let ?C = "(running_proc 0)\<lparr>crit := 1, sect := 1\<rparr>"
  let ?s1 = "small_sys 2 (mk_slot 3 1) free_slot free_slot fresh_proc fresh_proc ?D fresh_proc"
  let ?s2 = "small_sys 2 (mk_slot 3 1) (mk_slot 1 2) free_slot (running_proc 1) fresh_proc ?D fresh_proc"
  let ?s3 = "small_sys 2 (mk_slot 3 1) (mk_slot 1 2) (mk_slot 2 2) (running_proc 1) (running_proc 2) ?D fresh_proc"
  let ?s4 = "small_sys 3 (mk_slot 3 1) (mk_slot 1 2) (mk_slot 2 2) (?Q 1) (running_proc 2) ?D fresh_proc"
  let ?s5 = "small_sys 3 (mk_slot 3 1) (mk_slot 1 3) (mk_slot 2 2) (?Q 1) (running_proc 2) ?D fresh_proc"
  let ?s6 = "small_sys 3 (mk_slot 3 1) (mk_slot 1 3) (mk_slot 2 3) (?Q 1) (running_proc 2) ?D fresh_proc"
  let ?s7 = "small_sys 4 (mk_slot 3 1) (mk_slot 1 3) (mk_slot 2 3) (?Q 1) (?Q 2) ?D fresh_proc"
  let ?s8 = "small_sys 4 (mk_slot 3 1) (mk_slot 1 3) (mk_slot 2 3) (?P 1 [] (Some 0)) (?Q 2) ?K fresh_proc"
  let ?s9 = "small_sys 4 (mk_slot 3 1) (mk_slot 1 3) (mk_slot 2 3) (?P 1 [] (Some 0)) (?P 2 [] (Some 0)) ?K fresh_proc"
  let ?s10 = "small_sys 4 free_slot (mk_slot 1 3) (mk_slot 2 3) (running_proc 1) (?P 2 [] (Some 0)) ?K fresh_proc"
  let ?s11 = "small_sys 4 (mk_slot 4 4) (mk_slot 1 3) (mk_slot 2 3) (running_proc 1) (?P 2 [] (Some 0)) ?K (running_proc 0)"
  let ?s12 = "small_sys 4 (mk_slot 4 4) (mk_slot 1 3) (mk_slot 2 3) (running_proc 1) (?P 2 [] (Some 0)) ?K ?C"
  let ?s13 = "small_sys 4 free_slot (mk_slot 1 3) (mk_slot 2 3) (running_proc 1) (running_proc 2) ?K ?C"
  let ?s14 = "small_sys 4 free_slot (mk_slot 1 4) (mk_slot 2 4) (running_proc 1) (running_proc 2) ?K ?C"
  let ?s15 = "small_sys 5 free_slot (mk_slot 1 4) (mk_slot 2 4) (running_proc 1) (running_proc 2) ?K ?C"
  let ?s16 = "small_sys 5 free_slot (mk_slot 1 5) (mk_slot 2 5) (running_proc 1) (running_proc 2) ?K ?C"
  let ?s17 = "small_sys 6 free_slot (mk_slot 1 5) (mk_slot 2 5) (running_proc 1) (running_proc 2) ?K ?C"
  note sm = small_sys_simps small_sys_release slot_owner_def
  have 1: "?R einit ?s1"
  proof -
    let ?v = "ev (small_sys 2 (mk_slot 3 1) free_slot free_slot fresh_proc fresh_proc fresh_proc fresh_proc)"
    have "einit\<lparr>ev := ?v\<rparr> = small_sys 2 (mk_slot 3 1) free_slot free_slot fresh_proc fresh_proc fresh_proc fresh_proc"
      by (simp add: small_sys_init) (simp add: small_sys_def)
    moreover have "cas_slot (ev einit) 0 free_slot (mk_slot 3 1) = (free_slot, ?v)"
      by (auto simp: cas_slot_def einit_def small_sys_def fun_eq_iff)
    ultimately have "estep True einit ?s1"
      using estep.register [of einit 3 0 ?v True] by (simp add: small_sys_upd) (simp add: einit_def)
    then show ?thesis by simp
  qed
  have 2: "?R ?s1 ?s2"
    using join [of ?s1 1 1 True] by (simp add: sm flip: running_proc_def)
  have 3: "?R ?s2 ?s3"
    using join [of ?s2 2 2 True] by (simp add: sm flip: running_proc_def)
  have 4: "?R ?s3 ?s4"
    using advance_collect [of ?s3 1 3 True] by (simp add: sm small_sys_level)
  have 5: "?R ?s4 ?s5" using beat [of ?s4 1 True] by (simp add: sm drained_def)
  have 6: "?R ?s5 ?s6" using beat [of ?s5 2 True] by (simp add: sm)
  have 7: "?R ?s6 ?s7" using advance_collect [of ?s6 2 3 True] by (simp add: sm small_sys_level)
  have 8: "?R ?s7 ?s8" using estep.terminate [of ?s7 1 0 3 "[]" True] by (intro r_into_rtranclp) (simp add: sm)
  have 9: "?R ?s8 ?s9" using estep.terminate [of ?s8 2 0 3 "[]" True] by (intro r_into_rtranclp) (simp add: sm)
  have idle: "(running_proc i)\<lparr>likely_dead := [], releasing := None\<rparr> = running_proc i" for i
    by (simp add: running_proc_def fresh_proc_def)
  have 10: "?R ?s9 ?s10" using estep.release [of ?s9 1 0 True] idle by (intro r_into_rtranclp) (simp add: sm)
  have 11: "?R ?s10 ?s11" using join [of ?s10 4 0 True] by (simp add: sm flip: running_proc_def)
  have 12: "?R ?s11 ?s12" using enter [of ?s11 4 True] by (simp add: sm)
  have 13: "?R ?s12 ?s13" using estep.release [of ?s12 2 0 True] idle by (intro r_into_rtranclp) (simp add: sm)
  have 14: "?R ?s13 ?s14"
    using beat [of ?s13 1 True] beat [of "small_sys 4 free_slot (mk_slot 1 4) (mk_slot 2 3) (running_proc 1) (running_proc 2) ?K ?C" 2 True]
    by (simp add: sm)
  have 15: "?R ?s14 ?s15" using advance [of ?s14 1 True] by (simp add: sm small_sys_level)
  have 16: "?R ?s15 ?s16"
    using beat [of ?s15 1 True] beat [of "small_sys 5 free_slot (mk_slot 1 5) (mk_slot 2 4) (running_proc 1) (running_proc 2) ?K ?C" 2 True]
    by (simp add: sm)
  have 17: "?R ?s16 ?s17" using advance [of ?s16 1 True] by (simp add: sm small_sys_level)
  note t = rtranclp_trans
  have r: "ereach True ?s12"
    by (rule ereach_run [OF _ ereach.init]) (rule t [OF t [OF t [OF t [OF t [OF t [OF t [OF t [OF t [OF t [OF t [OF 1 2] 3] 4] 5] 6] 7] 8] 9] 10] 11] 12])
  have r': "?R ?s12 ?s17" by (rule t [OF t [OF t [OF t [OF 13 14] 15] 16] 17])
  have "in_section ?s12 4 1" "in_section ?s17 4 1" "section_epoch ?s12 4 = 4" "frontier (ev ?s17) = 6"
    by (simp_all add: in_section_def section_epoch_def reported_by_def sm)
  with r r' show ?thesis by blast
qed

section \<open>The frontier moves on\<close>

definition quiet :: "esys \<Rightarrow> bool" where
  "quiet s \<longleftrightarrow> (\<forall>i < NR_PARTICIPANT. slots (ev s) i = free_slot \<or>
     alive (procs s (slot_owner s i)) \<and> drained (procs s (slot_owner s i)) \<and> place (procs s (slot_owner s i)) = i)"

lemma beat_all:
  assumes "quiet s" "j \<le> NR_PARTICIPANT"
  shows "\<exists>t. (estep late)\<^sup>*\<^sup>* s t \<and> procs t = procs s \<and> frontier (ev t) = frontier (ev s) \<and>
    (\<forall>i < j. slots (ev t) i = free_slot \<or> slot_reported (slots (ev t) i) = frontier (ev s)) \<and>
    (\<forall>i \<ge> j. slots (ev t) i = slots (ev s) i)"
  using assms(2)
proof (induction j)
  case 0
  then show ?case by (intro exI [of _ s]) simp
next
  case (Suc j)
  then obtain t where t: "(estep late)\<^sup>*\<^sup>* s t" "procs t = procs s" "frontier (ev t) = frontier (ev s)"
    "\<forall>i < j. slots (ev t) i = free_slot \<or> slot_reported (slots (ev t) i) = frontier (ev s)"
    "\<forall>i \<ge> j. slots (ev t) i = slots (ev s) i" by auto
  show ?case
  proof (cases "slots (ev s) j = free_slot")
    case True
    then show ?thesis using t by (intro exI [of _ t]) (auto simp: less_Suc_eq)
  next
    case False
    let ?p = "slot_owner s j" and ?w = "(slots (ev t) j)\<lparr>slot_reported := frontier (ev s)\<rparr>"
    from assms(1) Suc.prems have "slots (ev s) j = free_slot \<or> alive (procs s ?p) \<and> drained (procs s ?p) \<and> place (procs s ?p) = j"
      unfolding quiet_def by (meson Suc_le_lessD)
    with False have p: "alive (procs s ?p)" "drained (procs s ?p)" "place (procs s ?p) = j" by simp_all
    from beat [of t ?p late] p t(2,3) have "(estep late)\<^sup>*\<^sup>* t (set_slot t j ?w)" by simp
    with t(1) have "(estep late)\<^sup>*\<^sup>* s (set_slot t j ?w)" by (rule rtranclp_trans)
    then show ?thesis using t(2-5)
      by (intro exI [of _ "set_slot t j ?w"]) (auto simp: set_slot_def less_Suc_eq)
  qed
qed



section \<open>A pass of the monitor\<close>

text \<open>C31: one run of \<open>advance_frontier\<close> moves the frontier by one exactly when every active participant has
  reported it, frees only slots of participants that lag, and frees none when the frontier has moved
  since the last pass and the pass does not take longer than the timeout. A participant at the previous epoch
  keeps the frontier where it is, whereas the comment at \<open>advance_frontier\<close> in \<open>epoch_manager_impl.h\<close> says that
  this epoch is enough; the second part of the instance below is this case.\<close>

theorem advance_frontier_correct:
  "\<exists>dead m'. advance_frontier clk m = (\<forall>i < NR_PARTICIPANT. \<not> holds_back (shared (vec m)) i, m') \<and>
    set dead \<subseteq> {i. i < NR_PARTICIPANT \<and> lags (shared (vec m)) i} \<and>
    frontier (shared (vec m')) = frontier (shared (vec m)) + of_bool (\<forall>i < NR_PARTICIPANT. \<not> holds_back (shared (vec m)) i) \<and>
    slots (shared (vec m')) = (\<lambda>i. if i \<in> set dead then free_slot else slots (shared (vec m)) i) \<and>
    (if steady clk \<and> frontier (shared (vec m)) \<noteq> last_frontier m then dead = [] else True)"
proof -
  from advance_frontier_spec [of clk m] obtain dead m' where
    a: "advance_frontier clk m = (\<forall>i < NR_PARTICIPANT. \<not> holds_back (shared (vec m)) i, m')"
      "set dead \<subseteq> {i. i < NR_PARTICIPANT \<and> lags (shared (vec m)) i}"
      "frontier (shared (vec m')) = frontier (shared (vec m)) + of_bool (\<forall>i < NR_PARTICIPANT. \<not> holds_back (shared (vec m)) i)"
      "slots (shared (vec m')) = (\<lambda>i. if i \<in> set dead then free_slot else slots (shared (vec m)) i)"
      "steady clk \<and> frontier (shared (vec m)) \<noteq> last_frontier m \<longrightarrow> dead = []" by blast
  show ?thesis by (intro exI [of _ dead] exI [of _ m'] conjI a(1-4)) (use a(5) in \<open>simp split: if_split\<close>)
qed

definition idle_manager :: emgr where
  "idle_manager = \<lparr>vec = EpochVector_new \<lparr>frontier = 7, slots = (\<lambda>i. if i = 0 then mk_slot 1 7 else free_slot)\<rparr>
       False (\<lambda>_. \<lparr>valid = False, cached_pid = 0, cached_reported = 0, last_modified = \<lparr>tv_sec = 0, tv_nsec = 0\<rparr>\<rparr>),
     self_pid = 1, my_slot = 0, active_epoch_count = 0, last_scan_time = \<lparr>tv_sec = 0, tv_nsec = 0\<rparr>, last_frontier = 7,
     has_callback = False, terminated = [], called_back = []\<rparr>"

definition previous_epoch_manager :: emgr where
  "previous_epoch_manager = idle_manager\<lparr>vec := (vec idle_manager)\<lparr>shared := (shared (vec idle_manager))\<lparr>frontier := 8\<rparr>\<rparr>\<rparr>"

theorem advance_frontier_correct_witness:
  "(\<exists>m'. advance_frontier (\<lambda>_. \<lparr>tv_sec = 9, tv_nsec = 0\<rparr>) idle_manager = (True, m') \<and> frontier (shared (vec m')) = 8) \<and>
   (\<exists>m'. advance_frontier (\<lambda>_. \<lparr>tv_sec = 9, tv_nsec = 0\<rparr>) previous_epoch_manager = (False, m') \<and> frontier (shared (vec m')) = 8)"
proof -
  have "\<forall>i < NR_PARTICIPANT. \<not> holds_back (shared (vec idle_manager)) i" "frontier (shared (vec idle_manager)) = 7"
    "holds_back (shared (vec previous_epoch_manager)) 0" "frontier (shared (vec previous_epoch_manager)) = 8"
    by (simp_all add: previous_epoch_manager_def idle_manager_def EpochVector_new_def holds_back_def free_slot_def)
  moreover from this have "\<not> (\<forall>i < NR_PARTICIPANT. \<not> holds_back (shared (vec previous_epoch_manager)) i)"
    by (metis zero_less_numeral)
  ultimately show ?thesis
    using advance_frontier_correct [of "\<lambda>_. \<lparr>tv_sec = 9, tv_nsec = 0\<rparr>" idle_manager]
      advance_frontier_correct [of "\<lambda>_. \<lparr>tv_sec = 9, tv_nsec = 0\<rparr>" previous_epoch_manager] by auto
qed

end
