(* ===== verification/Zone_Shelf_Heap.thy ===== *)
theory Zone_Shelf_Heap
  imports Zone_Recover Zone_GC Shelf_Manager
begin

text \<open>
  \<open>ShelfHeap\<close> of \<open>src/shelf_usage/zone_shelf_heap.cc\<close>: one data shelf with a zone on it. The
  object keeps the shelf file, the address it is mapped at and whether it is open; the zone's
  memory (header area and shelf) is passed beside it. Attaching reads the header that is there.
\<close>

record shelf_heap =
  sh_is_open :: bool
  sh_file :: shelf_file
  sh_addr :: "u64 option"

definition ShelfHeap :: "string \<Rightarrow> shelf_heap" where
  "ShelfHeap pathname = \<lparr>sh_is_open = False, sh_file = ShelfFile pathname, sh_addr = None\<rparr>"

definition ShelfHeap_id :: "string \<Rightarrow> ShelfId \<Rightarrow> shelf_heap" where
  "ShelfHeap_id pathname sid = \<lparr>sh_is_open = False, sh_file = ShelfFile_id pathname sid, sh_addr = None\<rparr>"

definition sh_get_header_size :: "u64 \<Rightarrow> u64 \<Rightarrow> u64" where
  "sh_get_header_size shelf_size min_size = get_header_size shelf_size min_size"

section \<open>Opening and closing the file\<close>

definition OpenMapShelf :: "bool \<Rightarrow> shelf_heap \<Rightarrow> manager \<Rightarrow> world \<Rightarrow> (error_code \<times> shelf_heap \<times> manager \<times> world) result" where
  "OpenMapShelf use_shelf_manager sh sm w =
     (if \<not> sf_Exist (sh_file sh) w then Inr (SHELF_FILE_NOT_FOUND, sh, sm, w)
      else case sf_Open (sh_file sh) w of (ret, f, w) \<Rightarrow>
        let sh = sh\<lparr>sh_file := f\<rparr>
        in if ret \<noteq> NO_ERROR then Inr (ret, sh, sm, w)
           else if sh_addr sh \<noteq> None then Inl Assert_Failed
           else if use_shelf_manager
           then rbind (sf_Map f sm w) (\<lambda>(ret, addr, sm, w). Inr (ret, sh\<lparr>sh_addr := addr\<rparr>, sm, w))
           else rbind (sf_Size f w) (\<lambda>(len, w).
                  if len = 0 then Inr (ret, sh, sm, w)
                  else case sf_Map_range f len True w of (ret, addr, w) \<Rightarrow>
                         if ret = NO_ERROR \<and> addr = None then Inl Assert_Failed
                         else Inr (ret, sh\<lparr>sh_addr := addr\<rparr>, sm, w)))"

definition UnmapCloseShelf :: "bool \<Rightarrow> bool \<Rightarrow> shelf_heap \<Rightarrow> manager \<Rightarrow> world \<Rightarrow> (error_code \<times> shelf_heap \<times> manager \<times> world) result" where
  "UnmapCloseShelf use_shelf_manager unregister sh sm w =
     rbind (sf_Size (sh_file sh) w) (\<lambda>(len, w).
       if \<not> sf_Exist (sh_file sh) w then Inr (SHELF_FILE_NOT_FOUND, sh, sm, w)
       else case sh_addr sh of
         None \<Rightarrow> Inl Assert_Failed
       | Some addr \<Rightarrow>
           rbind (if use_shelf_manager then sf_Unmap (sh_file sh) addr unregister sm w
                  else case sf_Unmap_range addr len w of (ret, w) \<Rightarrow> Inr (ret, sm, w)) (\<lambda>(ret, sm, w).
             if ret \<noteq> NO_ERROR then Inr (ret, sh, sm, w)
             else case sf_Close (sh_file sh) w of (ret, f, w) \<Rightarrow>
                    Inr (ret, sh\<lparr>sh_addr := None, sh_file := f\<rparr>, sm, w)))"

section \<open>Create, Destroy, Open, Close\<close>

text \<open>The constructor of the zone may throw, which leaves the shelf open.\<close>

definition sh_Create :: "shelf_heap \<Rightarrow> zone \<Rightarrow> u64 \<Rightarrow> u64 \<Rightarrow> u64 \<Rightarrow> manager \<Rightarrow> world \<Rightarrow>
    (error_code \<times> shelf_heap \<times> zone \<times> manager \<times> world) result option" where
  "sh_Create sh z zone_size helper min_alloc_size sm w =
     (if sh_is_open sh \<or> \<not> sf_Exist (sh_file sh) w then Some (Inl Assert_Failed)
      else case sf_Truncate (sh_file sh) zone_size w of (ret, w) \<Rightarrow>
        if ret \<noteq> NO_ERROR then Some (Inr (ret, sh, z, sm, w))
        else obind (Some (OpenMapShelf False sh sm w)) (\<lambda>(ret, sh, sm, w).
          if ret \<noteq> NO_ERROR then Some (Inr (ret, sh, z, sm, w))
          else obind (zone_create z (case sh_addr sh of Some a \<Rightarrow> a | None \<Rightarrow> 0) zone_size min_alloc_size zone_size helper) (\<lambda>z.
            Some (rbind (UnmapCloseShelf False False sh sm w) (\<lambda>(ret, sh, sm, w). Inr (ret, sh, z, sm, w))))))"

definition sh_Destroy :: "shelf_heap \<Rightarrow> manager \<Rightarrow> world \<Rightarrow> (error_code \<times> shelf_heap \<times> manager \<times> world) result" where
  "sh_Destroy sh sm w =
     (if sh_is_open sh then Inl Assert_Failed
      else rbind (OpenMapShelf True sh sm w) (\<lambda>(ret, sh, sm, w).
        if ret \<noteq> NO_ERROR then Inr (ret, sh, sm, w) else UnmapCloseShelf True True sh sm w))"

definition sh_SetPermission :: "shelf_heap \<Rightarrow> u32 \<Rightarrow> world \<Rightarrow> error_code \<times> world" where
  "sh_SetPermission sh mode w = (if \<not> sh_is_open sh then (SHELF_FILE_CLOSED, w) else sf_SetPermission (sh_file sh) mode w)"

definition sh_Verify :: "shelf_heap \<Rightarrow> manager \<Rightarrow> world \<Rightarrow> (error_code \<times> shelf_heap \<times> manager \<times> world) result" where
  "sh_Verify sh sm w =
     (if sh_is_open sh then Inl Assert_Failed
      else rbind (OpenMapShelf False sh sm w) (\<lambda>(ret, sh, sm, w).
        if ret \<noteq> NO_ERROR then Inr (ret, sh, sm, w)
        else rbind (UnmapCloseShelf False False sh sm w) (\<lambda>(_, sh, sm, w). Inr (ret, sh, sm, w))))"

definition sh_Open :: "shelf_heap \<Rightarrow> zone \<Rightarrow> u64 \<Rightarrow> manager \<Rightarrow> world \<Rightarrow> (error_code \<times> shelf_heap \<times> zone \<times> manager \<times> world) result" where
  "sh_Open sh z helper sm w =
     (if sh_is_open sh then Inl Assert_Failed
      else rbind (OpenMapShelf True sh sm w) (\<lambda>(ret, sh, sm, w).
        if ret \<noteq> NO_ERROR then Inr (ret, sh, z, sm, w)
        else rbind (sf_Size (sh_file sh) w) (\<lambda>(len, w).
          Inr (ret, sh\<lparr>sh_is_open := True\<rparr>, zone_attach z (case sh_addr sh of Some a \<Rightarrow> a | None \<Rightarrow> 0) len helper, sm, w))))"

text \<open>On a shelf that was marked invalid \<open>Close\<close> only unmaps; the object stays open.\<close>

definition sh_Close :: "shelf_heap \<Rightarrow> manager \<Rightarrow> world \<Rightarrow> (error_code \<times> shelf_heap \<times> manager \<times> world) result" where
  "sh_Close sh sm w =
     (if \<not> sh_is_open sh then Inl Assert_Failed
      else rbind (sf_Size (sh_file sh) w) (\<lambda>(len, w).
        if sf_IsInvalid (sh_file sh) sm
        then case sf_Unmap_range (case sh_addr sh of Some a \<Rightarrow> a | None \<Rightarrow> 0) len w of (ret, w) \<Rightarrow> Inr (ret, sh, sm, w)
        else rbind (UnmapCloseShelf True False sh sm w) (\<lambda>(ret, sh, sm, w).
               Inr (ret, if ret = NO_ERROR then sh\<lparr>sh_is_open := False\<rparr> else sh, sm, w))))"

text \<open>The destructor closes an object that is still open.\<close>

definition ShelfHeap_delete :: "shelf_heap \<Rightarrow> manager \<Rightarrow> world \<Rightarrow> (manager \<times> world) result" where
  "ShelfHeap_delete sh sm w =
     (if sh_is_open sh then rbind (sh_Close sh sm w) (\<lambda>(_, _, sm, w). Inr (sm, w)) else Inr (sm, w))"

section \<open>Operations on the zone\<close>

definition sh_Size :: "shelf_heap \<Rightarrow> world \<Rightarrow> (u64 \<times> world) result" where
  "sh_Size sh w = (if \<not> sh_is_open sh then Inl Assert_Failed else sf_Size (sh_file sh) w)"

definition sh_MinAllocSize :: "shelf_heap \<Rightarrow> zone \<Rightarrow> u64 result" where
  "sh_MinAllocSize sh z = (if \<not> sh_is_open sh then Inl Assert_Failed else Inr (min_obj_size z))"

definition sh_Alloc :: "shelf_heap \<Rightarrow> zone \<Rightarrow> u64 \<Rightarrow> (zone \<times> u64) result option" where
  "sh_Alloc sh z len = (if \<not> sh_is_open sh then Some (Inl Assert_Failed) else zone_alloc z len)"

definition sh_Free :: "shelf_heap \<Rightarrow> zone \<Rightarrow> u64 \<Rightarrow> zone result" where
  "sh_Free sh z offset = (if \<not> sh_is_open sh then Inl Assert_Failed else zone_free z offset)"

definition sh_IsValidOffset :: "shelf_heap \<Rightarrow> zone \<Rightarrow> u64 \<Rightarrow> bool result" where
  "sh_IsValidOffset sh z offset = (if \<not> sh_is_open sh then Inl Assert_Failed else Inr (IsValidOffset z offset))"

definition sh_IsValidPtr :: "shelf_heap \<Rightarrow> zone \<Rightarrow> u64 \<Rightarrow> bool result" where
  "sh_IsValidPtr sh z addr =
     (if \<not> sh_is_open sh then Inl Assert_Failed
      else let a = (case sh_addr sh of Some a \<Rightarrow> a | None \<Rightarrow> 0)
           in if addr < a then Inr False else Inr (IsValidOffset z (addr - a)))"

definition sh_OffsetToPtr :: "shelf_heap \<Rightarrow> zone \<Rightarrow> u64 \<Rightarrow> u64 result" where
  "sh_OffsetToPtr sh z offset =
     (if \<not> sh_is_open sh \<or> \<not> IsValidOffset z offset then Inl Assert_Failed else Inr (from_Offset z offset))"

definition sh_get_bitmap_offset :: "shelf_heap \<Rightarrow> zone \<Rightarrow> u64 result" where
  "sh_get_bitmap_offset sh z = (if \<not> sh_is_open sh then Inl Assert_Failed else Inr (get_bitmap_offset z))"

definition sh_Merge :: "shelf_heap \<Rightarrow> zone \<Rightarrow> zone result option" where
  "sh_Merge sh z = (if \<not> sh_is_open sh then Some (Inl Assert_Failed) else zone_merge z)"

definition sh_OfflineRecover :: "shelf_heap \<Rightarrow> zone \<Rightarrow> zone result option" where
  "sh_OfflineRecover sh z = (if \<not> sh_is_open sh then Some (Inl Assert_Failed) else offline_recover z)"

definition sh_OnlineRecover :: "shelf_heap \<Rightarrow> zone \<Rightarrow> zone result option" where
  "sh_OnlineRecover sh z = (if \<not> sh_is_open sh then Some (Inl Assert_Failed) else online_recover z)"

section \<open>Mapping a chunk by itself\<close>

text \<open>The range is widened to whole pages; an end on a page boundary gets one page more.\<close>

definition page_range :: "u64 \<Rightarrow> u64 \<Rightarrow> u64 \<Rightarrow> u64 \<times> u64" where
  "page_range page_size offset len =
     (let aligned_start = offset - offset mod page_size;
          aligned_end = (offset + len) + (page_size - (offset + len) mod page_size)
      in (aligned_start, aligned_end - aligned_start))"

definition sh_Map :: "u64 \<Rightarrow> shelf_heap \<Rightarrow> u64 \<Rightarrow> u64 \<Rightarrow> world \<Rightarrow> error_code \<times> u64 option \<times> world" where
  "sh_Map page_size sh offset len w =
     (case page_range page_size offset len of (_, aligned_size) \<Rightarrow>
        case sf_Map_range (sh_file sh) aligned_size True w of (ret, addr, w) \<Rightarrow>
          if ret \<noteq> NO_ERROR then (MAP_POINTER_FAILED, None, w)
          else (ret, map_option (\<lambda>a. a + offset mod page_size) addr, w))"

definition sh_Unmap :: "u64 \<Rightarrow> u64 \<Rightarrow> u64 \<Rightarrow> u64 \<Rightarrow> world \<Rightarrow> error_code \<times> world" where
  "sh_Unmap page_size offset mapped_addr len w =
     (case page_range page_size offset len of (_, aligned_size) \<Rightarrow>
        sf_Unmap_range (mapped_addr - offset mod page_size) aligned_size w)"

definition sh_MarkInvalid :: "shelf_heap \<Rightarrow> manager \<Rightarrow> error_code \<times> manager" where
  "sh_MarkInvalid sh sm = sf_MarkInvalid (sh_file sh) sm"

end
