(* ===== verification/Shelf_Region.thy ===== *)
theory Shelf_Region
  imports Shelf_File
begin

text \<open>
  \<open>ShelfRegion\<close> (\<open>src/shelf_usage/shelf_region.cc\<close>): a shelf file used as plain memory, mapped
  in ranges.
\<close>

record shelf_region =
  sr_is_open :: bool
  sr_file :: shelf_file

definition ShelfRegion :: "string \<Rightarrow> shelf_region" where
  "ShelfRegion pathname = \<lparr>sr_is_open = False, sr_file = ShelfFile pathname\<rparr>"

definition sr_Create :: "shelf_region \<Rightarrow> u64 \<Rightarrow> world \<Rightarrow> (error_code \<times> world) result" where
  "sr_Create r len w =
     (if sr_is_open r \<or> \<not> sf_Exist (sr_file r) w then Inl Assert_Failed else Inr (sf_Truncate (sr_file r) len w))"

definition sr_Resize :: "shelf_region \<Rightarrow> u64 \<Rightarrow> world \<Rightarrow> (error_code \<times> world) result" where
  "sr_Resize r len w = (if \<not> sr_is_open r then Inl Assert_Failed else Inr (sf_Truncate (sr_file r) len w))"

definition sr_Destroy :: "shelf_region \<Rightarrow> error_code result" where
  "sr_Destroy r = (if sr_is_open r then Inl Assert_Failed else Inr NO_ERROR)"

definition sr_Verify :: "shelf_region \<Rightarrow> world \<Rightarrow> error_code result" where
  "sr_Verify r w =
     (if sr_is_open r then Inl Assert_Failed
      else Inr (if sf_Exist (sr_file r) w then NO_ERROR else SHELF_FILE_NOT_FOUND))"

definition sr_Open :: "shelf_region \<Rightarrow> world \<Rightarrow> (error_code \<times> shelf_region \<times> world) result" where
  "sr_Open r w =
     rbind (sr_Verify r w) (\<lambda>ret.
       if ret \<noteq> NO_ERROR then Inr (ret, r, w)
       else case sf_Open (sr_file r) w of (ret, f, w) \<Rightarrow>
         if ret \<noteq> NO_ERROR then Inr (ret, r\<lparr>sr_file := f\<rparr>, w)
         else Inr (NO_ERROR, r\<lparr>sr_file := f, sr_is_open := True\<rparr>, w))"

definition sr_GetPermission :: "shelf_region \<Rightarrow> world \<Rightarrow> error_code \<times> u32 option \<times> world" where
  "sr_GetPermission r w = (if \<not> sr_is_open r then (SHELF_FILE_CLOSED, None, w) else sf_GetPermission (sr_file r) w)"

definition sr_SetPermission :: "shelf_region \<Rightarrow> u32 \<Rightarrow> world \<Rightarrow> error_code \<times> world" where
  "sr_SetPermission r mode w = (if \<not> sr_is_open r then (SHELF_FILE_CLOSED, w) else sf_SetPermission (sr_file r) mode w)"

definition sr_Close :: "shelf_region \<Rightarrow> world \<Rightarrow> (error_code \<times> shelf_region \<times> world) result" where
  "sr_Close r w =
     (if \<not> sr_is_open r then Inl Assert_Failed
      else case sf_Close (sr_file r) w of (ret, f, w) \<Rightarrow>
        if ret \<noteq> NO_ERROR then Inr (ret, r\<lparr>sr_file := f\<rparr>, w)
        else Inr (NO_ERROR, r\<lparr>sr_file := f, sr_is_open := False\<rparr>, w))"

definition ShelfRegion_delete :: "shelf_region \<Rightarrow> world \<Rightarrow> world result" where
  "ShelfRegion_delete r w = (if sr_is_open r then rbind (sr_Close r w) (\<lambda>(_, _, w). Inr w) else Inr w)"

definition sr_Size :: "shelf_region \<Rightarrow> world \<Rightarrow> (u64 \<times> world) result" where
  "sr_Size r w = (if \<not> sr_is_open r then Inl Assert_Failed else sf_Size (sr_file r) w)"

definition sr_Map :: "shelf_region \<Rightarrow> u64 \<Rightarrow> world \<Rightarrow> (error_code \<times> u64 option \<times> world) result" where
  "sr_Map r len w = (if \<not> sr_is_open r then Inl Assert_Failed else Inr (sf_Map_range (sr_file r) len True w))"

definition sr_Unmap :: "shelf_region \<Rightarrow> u64 \<Rightarrow> u64 \<Rightarrow> world \<Rightarrow> (error_code \<times> world) result" where
  "sr_Unmap r mapped_addr len w =
     (if \<not> sr_is_open r then Inl Assert_Failed else Inr (sf_Unmap_range mapped_addr len w))"

end
