(* ===== verification/Epoch_Zone_Heap.thy ===== *)
theory Epoch_Zone_Heap
  imports Zone_Shelf_Heap Shelf_Region Pool
begin

text \<open>
  \<open>EpochZoneHeap\<close> of \<open>src/allocator/epoch_zone_heap.cc\<close>: a heap of data shelves with one zone each,
  a header shelf that holds the global header, and per data shelf five lists for delayed free.
  This theory has the object, the opening of data shelves, allocation, the three kinds of free and
  the background worker; creating, opening, resizing and destroying are in \<open>Epoch_Zone_Admin\<close>.
\<close>

section \<open>State\<close>

text \<open>
  One record holds the object of a process, the fabric-attached memory behind its pointers, and the
  rest of the process' world (the shelf manager and the files). Arrays have \<open>kMaxShelfCount\<close>
  elements. \<open>mapped_addr i\<close> is where the header of data shelf \<open>i\<close> is mapped; \<open>header_\<close>,
  \<open>global_list_\<close> and \<open>bitmap_start_\<close> point into that mapping, and what they point to is
  \<open>zones i\<close> and \<open>delayed i\<close>. A list is chained through the zone's entries. Deleted objects are
  \<open>None\<close>, and using a null or deleted pointer is \<open>Out_Of_Bounds\<close>.
\<close>

record shelf_sizes =
  headersize :: u64
  headeroffset :: u64
  shelfsize :: u64

record zheap =
  \<comment> \<open>the object\<close>
  pool_id :: PoolId
  zpool :: pool
  gh_ptr :: "u64 option"
  rmb :: "nat \<Rightarrow> shelf_heap option"
  rmb_size :: "nat \<Rightarrow> u64"
  region :: "shelf_region option"
  mapped_addr :: "nat \<Rightarrow> u64 option"
  total_mapped_shelfs :: int
  min_obj :: u64
  zh_is_open :: bool
  is_invalid :: bool
  no_bgthread :: bool
  cleaner_start :: bool
  cleaner_stop :: bool
  cleaner_running :: bool
  \<comment> \<open>GlobalHeader and the memory behind it\<close>
  op_in_progress :: u64
  destroy_in_progress :: u64
  total_shelfs :: u64
  sz :: "nat \<Rightarrow> shelf_sizes"
  zones :: "nat \<Rightarrow> zone"
  delayed :: "nat \<Rightarrow> nat \<Rightarrow> zone_stack"
  \<comment> \<open>the rest of the process\<close>
  mgr :: manager
  os :: world

definition kHeaderIdx :: ShelfIndex where "kHeaderIdx = 0"
definition kZoneIdx :: ShelfIndex where "kZoneIdx = 1"
definition kListCnt :: int where "kListCnt = 5"
definition kFreeCnt :: nat where "kFreeCnt = 1000"

text \<open>\<open>sizeof\<close> of the structures in the header shelf.\<close>

definition sizeof_GlobalHeader :: u64 where "sizeof_GlobalHeader = 32 + 24 * 128"

definition gh_size :: u64 where "gh_size = round_up sizeof_GlobalHeader kCacheLineSize"
definition lists_size :: u64 where "lists_size = round_up (5 * sizeof_ZoneEntryStack) kCacheLineSize"

section \<open>Objects behind pointers\<close>

definition rmb_at :: "zheap \<Rightarrow> int \<Rightarrow> shelf_heap result" where
  "rmb_at h i =
     (if i < 0 \<or> int (unat kMaxShelfCount) \<le> i then Inl Out_Of_Bounds
      else case rmb h (nat i) of None \<Rightarrow> Inl Out_Of_Bounds | Some sh \<Rightarrow> Inr sh)"

definition region_of :: "zheap \<Rightarrow> shelf_region result" where
  "region_of h = (case region h of None \<Rightarrow> Inl Out_Of_Bounds | Some r \<Rightarrow> Inr r)"

definition gh_check :: "zheap \<Rightarrow> unit result" where
  "gh_check h = check (gh_ptr h \<noteq> None) Out_Of_Bounds"

definition map_header :: "nat \<Rightarrow> u64 \<Rightarrow> zheap \<Rightarrow> (error_code \<times> zheap) result" where
  "map_header i len h =
     rbind (region_of h) (\<lambda>r.
     rbind (sr_Map r len (os h)) (\<lambda>(ret, addr, w).
       Inr (ret, (if ret = NO_ERROR then h\<lparr>mapped_addr := (mapped_addr h)(i := addr)\<rparr> else h)\<lparr>os := w\<rparr>)))"

definition unmap_header :: "nat \<Rightarrow> u64 \<Rightarrow> zheap \<Rightarrow> (error_code \<times> zheap) result" where
  "unmap_header i len h =
     rbind (region_of h) (\<lambda>r.
     rbind (sr_Unmap r (case mapped_addr h i of Some a \<Rightarrow> a | None \<Rightarrow> 0) len (os h)) (\<lambda>(ret, w). Inr (ret, h\<lparr>os := w\<rparr>)))"

section \<open>Sizes and numbers\<close>

text \<open>The number of data shelves is converted to \<open>int\<close>; before the header is mapped it is the first
  free slot of the pool less one.\<close>

definition get_total_data_shelfs :: "zheap \<Rightarrow> int result" where
  "get_total_data_shelfs h =
     (if gh_ptr h \<noteq> None then Inr (sint (ucast (total_shelfs h) :: u32))
      else rbind (FindNextFreeShelf (zpool h) kMaxShelfCount (os h)) (\<lambda>(ret, shelf_idx).
        if ret \<noteq> NO_ERROR
        then if ret = POOL_SHELF_NOT_FOUND then Inr (int (unat kMaxShelfCount) - 1) else Inr (- 1)
        else Inr (int (unat shelf_idx) - 1)))"

definition get_header_shelf_size :: "zheap \<Rightarrow> nat \<Rightarrow> u64" where
  "get_header_shelf_size h i = headersize (sz h i)"

definition get_header_size_from_size :: "u64 \<Rightarrow> u64 \<Rightarrow> u64 \<Rightarrow> ShelfIndex \<Rightarrow> u64" where
  "get_header_size_from_size page_size len min_alloc_size shelf_idx =
     round_up (sh_get_header_size len min_alloc_size + lists_size + (if shelf_idx = 0 then gh_size else 0)) page_size"

definition get_total_header_size :: "zheap \<Rightarrow> u64 result" where
  "get_total_header_size h =
     rbind (get_total_data_shelfs h) (\<lambda>n. Inr (\<Sum>i\<leftarrow>[0..<nat n]. headersize (sz h i)))"

definition get_total_size :: "zheap \<Rightarrow> u64 result" where
  "get_total_size h = rbind (get_total_data_shelfs h) (\<lambda>n. Inr (\<Sum>i\<leftarrow>[0..<nat n]. shelfsize (sz h i)))"

text \<open>Offsets of the heap carry the number of the data shelf above the offset.\<close>

definition get_offset_from_shelfIndexoffset :: "u64 \<Rightarrow> u64" where
  "get_offset_from_shelfIndexoffset offset = DecodeOffset offset"

definition get_shelfnum_from_shelfIndexoffset :: "u64 \<Rightarrow> int" where
  "get_shelfnum_from_shelfIndexoffset offset = int (unat (DecodeShelfIndex (DecodeShelfId offset)))"

section \<open>Opening and closing data shelves\<close>

definition OpenShelf :: "nat \<Rightarrow> zheap \<Rightarrow> (error_code \<times> zheap) result" where
  "OpenShelf i h =
     rbind (gh_check h) (\<lambda>_.
     rbind (check (i < unat kMaxShelfCount) Out_Of_Bounds) (\<lambda>_.
     let hsize = headersize (sz h i); ssize = shelfsize (sz h i) in
     rbind (map_header i hsize h) (\<lambda>(ret, h).
       if ret \<noteq> NO_ERROR then Inr (HEAP_OPEN_FAILED, h)
       else
         let reserved = lists_size + (if i = 0 then gh_size else 0);
             header = (case mapped_addr h i of Some a \<Rightarrow> a | None \<Rightarrow> 0) + round_up reserved kCacheLineSize
         in rbind (GetShelfPath (zpool h) (of_nat (i + 1)) (os h)) (\<lambda>(ret, path).
           if ret \<noteq> NO_ERROR then rbind (unmap_header i hsize h) (\<lambda>(_, h). Inr (HEAP_OPEN_FAILED, h))
           else rbind (shelf_id (pool_id h) (of_nat (i + 1))) (\<lambda>sid.
             rbind (sh_Open (ShelfHeap_id (the path) sid) (zones h i) header (mgr h) (os h)) (\<lambda>(ret, sh, z, sm, w).
               let h = h\<lparr>rmb := (rmb h)(i := Some sh), zones := (zones h)(i := z), mgr := sm, os := w\<rparr>
               in if ret \<noteq> NO_ERROR then rbind (unmap_header i hsize h) (\<lambda>(_, h). Inr (HEAP_OPEN_FAILED, h))
                  else rbind (sh_get_bitmap_offset sh z) (\<lambda>_.
                    rbind (sh_Size sh w) (\<lambda>(len, w).
                      let h = h\<lparr>os := w\<rparr>
                      in if len \<noteq> ssize
                         then rbind (unmap_header i hsize h) (\<lambda>(_, h).
                           rbind (sh_Close sh (mgr h) (os h)) (\<lambda>(_, sh, sm, w).
                             Inr (HEAP_OPEN_FAILED, h\<lparr>rmb := (rmb h)(i := Some sh), mgr := sm, os := w\<rparr>)))
                         else rbind (sh_Size sh w) (\<lambda>(len, w).
                           Inr (NO_ERROR, h\<lparr>rmb_size := (rmb_size h)(i := len), total_mapped_shelfs := int i + 1, os := w\<rparr>))))))))))"

definition CloseShelf :: "nat \<Rightarrow> zheap \<Rightarrow> (error_code \<times> zheap) result" where
  "CloseShelf i h =
     rbind (rmb_at h (int i)) (\<lambda>sh.
     rbind (sh_Close sh (mgr h) (os h)) (\<lambda>(ret, sh, sm, w).
       let h = h\<lparr>rmb := (rmb h)(i := Some sh), mgr := sm, os := w\<rparr>
       in if ret \<noteq> NO_ERROR then Inr (HEAP_CLOSE_FAILED, h)
          else rbind (ShelfHeap_delete sh sm w) (\<lambda>(sm, w).
            let h = h\<lparr>rmb := (rmb h)(i := None), mgr := sm, os := w\<rparr>
            in rbind (gh_check h) (\<lambda>_. rbind (unmap_header i (get_header_shelf_size h i) h) (\<lambda>(ret, h).
                 if ret \<noteq> NO_ERROR then Inr (HEAP_CLOSE_FAILED, h)
                 else Inr (NO_ERROR, h\<lparr>mapped_addr := (mapped_addr h)(i := None), rmb_size := (rmb_size h)(i := 0)\<rparr>))))))"

fun open_shelfs :: "nat list \<Rightarrow> zheap \<Rightarrow> (error_code \<times> zheap) result" where
  "open_shelfs [] h = Inr (NO_ERROR, h)"
| "open_shelfs (i # is) h =
     rbind (OpenShelf i h) (\<lambda>(ret, h). if ret \<noteq> NO_ERROR then Inr (HEAP_OPEN_FAILED, h) else open_shelfs is h)"

definition OpenNewShelfs :: "zheap \<Rightarrow> (error_code \<times> zheap) result" where
  "OpenNewShelfs h =
     rbind (get_total_data_shelfs h) (\<lambda>new_total_shelfs.
       if new_total_shelfs = total_mapped_shelfs h then Inr (NO_ERROR, h)
       else if total_mapped_shelfs h < 0 \<and> total_mapped_shelfs h < new_total_shelfs then Inl Out_Of_Bounds
       else open_shelfs [nat (total_mapped_shelfs h)..<nat new_total_shelfs] h)"

section \<open>Allocation\<close>

text \<open>The loop of \<open>Alloc\<close> after \<open>shelf_num\<close> was raised. A shelf whose opening failed is accessed
  all the same.\<close>

partial_function (option) alloc_shelfs :: "int \<Rightarrow> u64 \<Rightarrow> u64 \<Rightarrow> zheap \<Rightarrow> (int \<times> u64 \<times> zheap) result option" where
  "alloc_shelfs shelf_num offset len h =
     obind (Some (if shelf_num = total_mapped_shelfs h
                  then rbind (get_total_data_shelfs h) (\<lambda>total_shelf.
                    if total_shelf > total_mapped_shelfs h
                    then rbind (OpenNewShelfs h) (\<lambda>(_, h). Inr (False, h))
                    else Inr (True, h))
                  else Inr (False, h)))
       (\<lambda>(stop, h).
          if stop then Some (Inr (shelf_num, offset, h))
          else case rmb_at h shelf_num of
                 Inl e \<Rightarrow> Some (Inl e)
               | Inr sh \<Rightarrow>
                   obind (sh_Alloc sh (zones h (nat shelf_num)) len) (\<lambda>(z, offset).
                     let h = h\<lparr>zones := (zones h)(nat shelf_num := z)\<rparr>
                     in case sh_IsValidOffset sh z offset of
                          Inl e \<Rightarrow> Some (Inl e)
                        | Inr ok \<Rightarrow> if \<not> ok \<and> shelf_num < total_mapped_shelfs h
                                    then alloc_shelfs (shelf_num + 1) offset len h
                                    else Some (Inr (shelf_num, offset, h))))"

definition heap_Alloc :: "u64 \<Rightarrow> zheap \<Rightarrow> (zheap \<times> GlobalPtr) result option" where
  "heap_Alloc len h =
     (if \<not> zh_is_open h then Some (Inl Assert_Failed)
      else obind (alloc_shelfs 0 0 len h) (\<lambda>(shelf_num, offset, h).
        if offset = 0 then Some (Inr (h, 0))
        else case shelf_id (pool_id h) (word_of_int (shelf_num + 1)) of
               Inl e \<Rightarrow> Some (Inl e)
             | Inr sid \<Rightarrow> Some (Inr (h, EncodeGlobalPtr sid offset))))"

definition heap_AllocOffset :: "u64 \<Rightarrow> zheap \<Rightarrow> (zheap \<times> u64) result option" where
  "heap_AllocOffset len h =
     obind (heap_Alloc len h) (\<lambda>(h, ptr).
       let offset = DecodeOffset ptr; shelf_idx = DecodeShelfIndex (DecodeShelfId ptr)
       in if offset = 0 then Some (Inr (h, 0))
          else case shelf_id 0 (word_of_int (int (unat shelf_idx) - 1)) of
                 Inl e \<Rightarrow> Some (Inl e)
               | Inr sid \<Rightarrow> Some (Inr (h, EncodeGlobalPtr sid offset)))"

section \<open>Free\<close>

definition free_at :: "int \<Rightarrow> u64 \<Rightarrow> zheap \<Rightarrow> zheap result" where
  "free_at shelf_num offset h =
     rbind (rmb_at h shelf_num) (\<lambda>sh.
     rbind (sh_Free sh (zones h (nat shelf_num)) offset) (\<lambda>z.
       Inr (h\<lparr>zones := (zones h)(nat shelf_num := z)\<rparr>)))"

definition heap_Free :: "GlobalPtr \<Rightarrow> zheap \<Rightarrow> zheap result" where
  "heap_Free ptr h =
     (if \<not> zh_is_open h then Inl Assert_Failed
      else let offset = DecodeOffset ptr; shelf_idx = int (unat (DecodeShelfIndex (DecodeShelfId ptr)))
           in rbind (if shelf_idx > total_mapped_shelfs h then OpenNewShelfs h else Inr (NO_ERROR, h)) (\<lambda>(ret, h).
                if ret \<noteq> NO_ERROR then Inr h else free_at (shelf_idx - 1) offset h))"

definition heap_FreeOffset :: "u64 \<Rightarrow> zheap \<Rightarrow> zheap result" where
  "heap_FreeOffset offset h =
     (if \<not> zh_is_open h then Inl Assert_Failed
      else let shelf_num = get_shelfnum_from_shelfIndexoffset offset;
               offset = get_offset_from_shelfIndexoffset offset
           in rbind (if shelf_num \<ge> total_mapped_shelfs h then OpenNewShelfs h else Inr (NO_ERROR, h)) (\<lambda>(ret, h).
                if ret \<noteq> NO_ERROR then Inr h else free_at shelf_num offset h))"

text \<open>\<open>Alloc (op, size)\<close> is \<open>Alloc (size)\<close>; \<open>Free (op, ptr)\<close> puts the chunk on the list of the epoch
  three ahead. The remainder of a negative epoch is negative, outside the array.\<close>

definition heap_AllocOp :: "u64 \<Rightarrow> zheap \<Rightarrow> (zheap \<times> GlobalPtr) result option" where
  "heap_AllocOp len h = (if \<not> zh_is_open h then Some (Inl Assert_Failed) else heap_Alloc len h)"

definition list_of_epoch :: "int \<Rightarrow> nat result" where
  "list_of_epoch e = (if e < 0 \<and> e mod kListCnt \<noteq> 0 then Inl Out_Of_Bounds else Inr (nat (e mod kListCnt)))"

definition push_delayed :: "nat \<Rightarrow> nat \<Rightarrow> u64 \<Rightarrow> zheap \<Rightarrow> zheap result" where
  "push_delayed i k idx h =
     rbind (check (mapped_addr h i \<noteq> None) Out_Of_Bounds) (\<lambda>_.
     rbind (zes_push (zentries (zones h i)) (delayed h i k) idx) (\<lambda>(e, st).
       Inr (h\<lparr>zones := (zones h)(i := (zones h i)\<lparr>zentries := e\<rparr>),
              delayed := (delayed h)(i := (delayed h i)(k := st))\<rparr>)))"

definition pop_delayed :: "nat \<Rightarrow> nat \<Rightarrow> zheap \<Rightarrow> (u64 \<times> zheap) result" where
  "pop_delayed i k h =
     rbind (check (mapped_addr h i \<noteq> None) Out_Of_Bounds) (\<lambda>_.
       case zes_pop (zentries (zones h i)) (delayed h i k) of (st, idx) \<Rightarrow>
         Inr (idx, h\<lparr>delayed := (delayed h)(i := (delayed h i)(k := st))\<rparr>))"

definition heap_FreeOp :: "int \<Rightarrow> GlobalPtr \<Rightarrow> zheap \<Rightarrow> zheap result" where
  "heap_FreeOp e ptr h =
     (if \<not> zh_is_open h then Inl Assert_Failed
      else let offset = DecodeOffset ptr; shelf_idx = int (unat (DecodeShelfIndex (DecodeShelfId ptr)))
           in rbind (if shelf_idx > total_mapped_shelfs h then OpenNewShelfs h else Inr (NO_ERROR, h)) (\<lambda>(ret, h).
                if ret \<noteq> NO_ERROR then Inr h
                else rbind (rmb_at h (shelf_idx - 1)) (\<lambda>sh.
                  rbind (sh_IsValidOffset sh (zones h (nat (shelf_idx - 1))) offset) (\<lambda>ok.
                    if \<not> ok then Inr h
                    else rbind (list_of_epoch (e + 3)) (\<lambda>k.
                      push_delayed (nat (shelf_idx - 1)) k (offset div min_obj h) h)))))"

section \<open>The background worker\<close>

text \<open>Up to \<open>n\<close> chunks of list \<open>k\<close> of shelf \<open>i\<close> are freed; an empty list pops 0.\<close>

fun clean_list :: "nat \<Rightarrow> nat \<Rightarrow> nat \<Rightarrow> zheap \<Rightarrow> zheap result" where
  "clean_list 0 i k h = Inr h"
| "clean_list (Suc n) i k h =
     rbind (pop_delayed i k h) (\<lambda>(idx, h).
       let offset = idx * min_obj h
       in if offset = 0 then Inr h else rbind (free_at (int i) offset h) (clean_list n i k))"

fun invalidate_shelfs :: "nat list \<Rightarrow> zheap \<Rightarrow> zheap result" where
  "invalidate_shelfs [] h = Inr h"
| "invalidate_shelfs (i # is) h =
     rbind (rmb_at h (int i)) (\<lambda>sh. invalidate_shelfs is (h\<lparr>mgr := snd (sh_MarkInvalid sh (mgr h))\<rparr>))"

section \<open>Whole-heap operations\<close>

fun each_zone :: "(shelf_heap \<Rightarrow> zone \<Rightarrow> zone result option) \<Rightarrow> nat list \<Rightarrow> zheap \<Rightarrow> zheap result option" where
  "each_zone f [] h = Some (Inr h)"
| "each_zone f (i # is) h =
     (case rmb_at h (int i) of
        Inl e \<Rightarrow> Some (Inl e)
      | Inr sh \<Rightarrow> obind (f sh (zones h i)) (\<lambda>z. each_zone f is (h\<lparr>zones := (zones h)(i := z)\<rparr>)))"

definition heap_Merge :: "zheap \<Rightarrow> zheap result option" where
  "heap_Merge h =
     (if \<not> zh_is_open h then Some (Inl Assert_Failed)
      else obind (Some (OpenNewShelfs h)) (\<lambda>(_, h). each_zone sh_Merge [0..<nat (total_mapped_shelfs h)] h))"

definition heap_OfflineRecover :: "zheap \<Rightarrow> zheap result option" where
  "heap_OfflineRecover h =
     (if \<not> zh_is_open h then Some (Inl Assert_Failed)
      else obind (Some (OpenNewShelfs h)) (\<lambda>(_, h).
        each_zone sh_OfflineRecover [0..<nat (total_mapped_shelfs h)] (h\<lparr>op_in_progress := 0\<rparr>)))"

definition heap_OnlineRecover :: "zheap \<Rightarrow> zheap result option" where
  "heap_OnlineRecover h =
     (if \<not> zh_is_open h then Some (Inl Assert_Failed)
      else obind (Some (OpenNewShelfs h)) (\<lambda>(_, h). each_zone sh_OnlineRecover [0..<nat (total_mapped_shelfs h)] h))"

text \<open>\<open>OfflineFree\<close> empties the lists; on a list that is a cycle it does not return.\<close>

partial_function (option) drain_list :: "nat \<Rightarrow> nat \<Rightarrow> zheap \<Rightarrow> zheap result option" where
  "drain_list i k h =
     (case pop_delayed i k h of
        Inl e \<Rightarrow> Some (Inl e)
      | Inr (idx, h) \<Rightarrow>
          (let offset = idx * min_obj h
           in if offset = 0 then Some (Inr h)
              else case free_at (int i) offset h of
                     Inl e \<Rightarrow> Some (Inl e)
                   | Inr h \<Rightarrow> drain_list i k h))"

fun drain_lists :: "(nat \<times> nat) list \<Rightarrow> zheap \<Rightarrow> zheap result option" where
  "drain_lists [] h = Some (Inr h)"
| "drain_lists ((i, k) # ls) h = obind (drain_list i k h) (drain_lists ls)"

definition heap_OfflineFree :: "zheap \<Rightarrow> zheap result option" where
  "heap_OfflineFree h =
     (if \<not> zh_is_open h then Some (Inl Assert_Failed)
      else obind (Some (OpenNewShelfs h)) (\<lambda>(_, h).
        drain_lists (List.product [0..<nat (total_mapped_shelfs h)] [0..<nat kListCnt]) h))"

definition heap_MinAllocSize :: "zheap \<Rightarrow> u64 result" where
  "heap_MinAllocSize h = rbind (rmb_at h 0) (\<lambda>sh. sh_MinAllocSize sh (zones h 0))"

fun sum_sizes :: "nat list \<Rightarrow> zheap \<Rightarrow> u64 \<Rightarrow> (u64 \<times> zheap) result" where
  "sum_sizes [] h acc = Inr (acc, h)"
| "sum_sizes (i # is) h acc =
     rbind (rmb_at h (int i)) (\<lambda>sh.
     rbind (sh_Size sh (os h)) (\<lambda>(len, w). sum_sizes is (h\<lparr>os := w\<rparr>) (acc + len)))"

definition heap_Size :: "zheap \<Rightarrow> (u64 \<times> zheap) result" where
  "heap_Size h =
     (if \<not> zh_is_open h then Inl Assert_Failed
      else rbind (OpenNewShelfs h) (\<lambda>(_, h). sum_sizes [0..<nat (total_mapped_shelfs h)] h 0))"

section \<open>Local addresses\<close>

text \<open>Neither \<open>Map\<close> nor \<open>Unmap\<close> reports an offset that is not valid.\<close>

definition heap_Map :: "u64 \<Rightarrow> u64 \<Rightarrow> u64 \<Rightarrow> zheap \<Rightarrow> (error_code \<times> u64 option \<times> zheap) result" where
  "heap_Map page_size offset len h =
     (if \<not> zh_is_open h then Inr (HEAP_NOT_OPEN, None, h)
      else let shelf_num = get_shelfnum_from_shelfIndexoffset offset;
               offset = get_offset_from_shelfIndexoffset offset
           in rbind (rmb_at h shelf_num) (\<lambda>sh.
              rbind (sh_IsValidOffset sh (zones h (nat shelf_num)) offset) (\<lambda>ok.
                if ok then case sh_Map page_size sh offset len (os h) of (ret, addr, w) \<Rightarrow> Inr (ret, addr, h\<lparr>os := w\<rparr>)
                else Inr (NO_ERROR, None, h))))"

definition heap_Unmap :: "u64 \<Rightarrow> u64 \<Rightarrow> u64 \<Rightarrow> u64 \<Rightarrow> zheap \<Rightarrow> (error_code \<times> zheap) result" where
  "heap_Unmap page_size offset addr len h =
     (if \<not> zh_is_open h then Inr (HEAP_NOT_OPEN, h)
      else let shelf_num = get_shelfnum_from_shelfIndexoffset offset;
               offset = get_offset_from_shelfIndexoffset offset
           in rbind (rmb_at h shelf_num) (\<lambda>sh.
              rbind (sh_IsValidOffset sh (zones h (nat shelf_num)) offset) (\<lambda>ok.
                if ok then case sh_Unmap page_size offset addr len (os h) of (ret, w) \<Rightarrow> Inr (ret, h\<lparr>os := w\<rparr>)
                else Inr (NO_ERROR, h))))"

definition OffsetToLocal :: "u64 \<Rightarrow> zheap \<Rightarrow> u64 result" where
  "OffsetToLocal offset h =
     (if \<not> zh_is_open h then Inl Assert_Failed
      else let shelf_num = get_shelfnum_from_shelfIndexoffset offset
           in rbind (rmb_at h shelf_num) (\<lambda>sh.
                sh_OffsetToPtr sh (zones h (nat shelf_num)) (get_offset_from_shelfIndexoffset offset)))"

definition GlobalToLocal :: "GlobalPtr \<Rightarrow> zheap \<Rightarrow> u64 result" where
  "GlobalToLocal ptr h =
     (if \<not> zh_is_open h then Inl Assert_Failed
      else let shelf_num = int (unat (DecodeShelfIndex (DecodeShelfId ptr))) - 1
           in rbind (rmb_at h shelf_num) (\<lambda>sh. sh_OffsetToPtr sh (zones h (nat shelf_num)) (DecodeOffset ptr)))"

end
