(* ===== verification/Allocator.thy ===== *)
theory Allocator
  imports Zone_Alloc_Correct
begin

text \<open>
  What a client relies on when it allocates and frees chunks, as a locale, and what follows for a
  client that runs any sequence of requests. The zone is interpreted here, the heap of several
  zones in theory \<open>Epoch_Zone_Correct\<close>.
\<close>

section \<open>Clients\<close>

text \<open>A client keeps the pointers it got in a list; \<open>Delete k\<close> frees the \<open>k\<close>-th of them. It never
  frees what it does not hold.\<close>

datatype request = New u64 | Delete nat

fun serve :: "(u64 \<Rightarrow> 's \<Rightarrow> ('s \<times> 'p) result option) \<Rightarrow> ('p \<Rightarrow> 's \<Rightarrow> 's result) \<Rightarrow> 'p \<Rightarrow> request list \<Rightarrow> 'p list \<times> 's \<Rightarrow>
    ('p list \<times> 's) result option" where
  "serve new del null [] (ps, s) = Some (Inr (ps, s))"
| "serve new del null (New n # rs) (ps, s) =
     obind (new n s) (\<lambda>(s, p). serve new del null rs (if p = null then ps else ps @ [p], s))"
| "serve new del null (Delete k # rs) (ps, s) =
     (if k < length ps
      then obind (Some (del (ps ! k) s)) (\<lambda>s. serve new del null rs (take k ps @ drop (Suc k) ps, s))
      else serve new del null rs (ps, s))"

section \<open>The interface\<close>

locale allocator =
  fixes new :: "u64 \<Rightarrow> 's \<Rightarrow> ('s \<times> 'p) result option"
    and del :: "'p \<Rightarrow> 's \<Rightarrow> 's result"
    and null :: 'p
    and inv :: "'s \<Rightarrow> bool"
    and owned :: "'s \<Rightarrow> 'b set"
    and names :: "'s \<Rightarrow> 'p \<Rightarrow> 'b \<Rightarrow> bool"
    and apart :: "'b \<Rightarrow> 'b \<Rightarrow> bool"
  assumes new_law: "inv s \<Longrightarrow> \<exists>s' p. new n s = Some (Inr (s', p)) \<and> inv s' \<and>
      (\<forall>q c. names s' q c = names s q c) \<and>
      (if p = null then owned s' = owned s
       else \<exists>b. names s p b \<and> b \<notin> owned s \<and> owned s' = insert b (owned s) \<and> (\<forall>c \<in> owned s. apart b c))"
    and del_law: "\<lbrakk>inv s; names s p b; b \<in> owned s\<rbrakk> \<Longrightarrow> \<exists>s'. del p s = Inr s' \<and> inv s' \<and>
      (\<forall>q c. names s' q c = names s q c) \<and> owned s' = owned s - {b}"
    and apart_sym: "apart b c \<Longrightarrow> apart c b"
begin

text \<open>\<open>B\<close> are the chunks of others.\<close>

definition holds :: "'b set \<Rightarrow> 'p list \<Rightarrow> 'b list \<Rightarrow> 's \<Rightarrow> bool" where
  "holds B ps bs s \<longleftrightarrow> inv s \<and> list_all2 (names s) ps bs \<and> distinct bs \<and> set bs \<inter> B = {} \<and>
     owned s = B \<union> set bs \<and> (\<forall>b \<in> set bs. \<forall>c \<in> owned s. b \<noteq> c \<longrightarrow> apart b c)"

lemma holds_new:
  assumes "holds B ps bs s"
  shows "\<exists>s' p bs'. new n s = Some (Inr (s', p)) \<and> holds B (if p = null then ps else ps @ [p]) bs' s'"
proof -
  from assms have inv: "inv s" and own: "owned s = B \<union> set bs" by (simp_all add: holds_def)
  from new_law [OF inv, of n] obtain s' p where s': "new n s = Some (Inr (s', p))" "inv s'"
    "names s' = names s" "if p = null then owned s' = owned s
       else \<exists>b. names s p b \<and> b \<notin> owned s \<and> owned s' = insert b (owned s) \<and> (\<forall>c \<in> owned s. apart b c)" by blast
  show ?thesis
  proof (cases "p = null")
    case True
    with assms s' have "holds B ps bs s'" by (simp add: holds_def)
    with True s'(1) show ?thesis by auto
  next
    case False
    with s'(4) obtain b where b: "names s p b" "b \<notin> owned s" "owned s' = insert b (owned s)" "\<forall>c \<in> owned s. apart b c"
      by auto
    have "holds B (ps @ [p]) (bs @ [b]) s'"
      using assms s'(2,3) b own apart_sym by (auto simp: holds_def intro!: list_all2_appendI)
    with False s'(1) show ?thesis by auto
  qed
qed

lemma holds_del:
  assumes "holds B ps bs s" "k < length ps"
  shows "\<exists>s'. del (ps ! k) s = Inr s' \<and> holds B (take k ps @ drop (Suc k) ps) (take k bs @ drop (Suc k) bs) s'"
proof -
  from assms have h: "inv s" "list_all2 (names s) ps bs" "distinct bs" "owned s = B \<union> set bs" "set bs \<inter> B = {}"
    by (simp_all add: holds_def)
  then have k: "k < length bs" using assms(2) by (simp add: list_all2_lengthD)
  then have "names s (ps ! k) (bs ! k)" "bs ! k \<in> owned s"
    using h assms(2) by (auto simp: list_all2_nthD)
  from del_law [OF h(1) this] obtain s' where s': "del (ps ! k) s = Inr s'" "inv s'" "names s' = names s"
    "owned s' = owned s - {bs ! k}" by blast
  let ?bs = "take k bs @ drop (Suc k) bs"
  have bs: "bs = take k bs @ bs ! k # drop (Suc k) bs" using k by (rule id_take_nth_drop)
  then have d: "distinct (take k bs @ bs ! k # drop (Suc k) bs)" using h(3) by metis
  have "set bs = insert (bs ! k) (set ?bs)" by (subst bs) auto
  moreover from d have "bs ! k \<notin> set ?bs" "distinct ?bs" by auto
  moreover have "list_all2 (names s) (take k ps @ drop (Suc k) ps) ?bs"
    using h(2) by (intro list_all2_appendI) (simp_all add: list_all2_takeI list_all2_dropI)
  ultimately show ?thesis using assms(1) s' by (intro exI [of _ s']) (auto simp: holds_def)
qed

text \<open>Whatever a client asks for, no request faults or hangs, and its pointers name chunks of its own
  that are apart from each other and from the chunks of others.\<close>

lemma serve_holds:
  assumes "holds B ps bs s"
  shows "\<exists>ps' bs' s'. serve new del null rs (ps, s) = Some (Inr (ps', s')) \<and> holds B ps' bs' s'"
  using assms
proof (induction rs arbitrary: ps bs s)
  case Nil
  then show ?case by auto
next
  case (Cons r rs)
  show ?case
  proof (cases r)
    case (New n)
    from holds_new [OF Cons.prems, of n] Cons.IH New show ?thesis by fastforce
  next
    case (Delete k)
    from holds_del [OF Cons.prems, of k] Cons.IH Cons.prems Delete show ?thesis
      by (cases "k < length ps") fastforce+
  qed
qed

text \<open>A client that ends without pointers leaves the chunks of the others as they were.\<close>

lemma serve_nothing_left:
  assumes "inv s" "serve new del null rs ([], s) = Some (Inr ([], s'))"
  shows "owned s' = owned s"
proof -
  have "holds (owned s) [] [] s" using assms(1) by (simp add: holds_def)
  from serve_holds [OF this, of rs] assms(2) show ?thesis by (auto simp: holds_def)
qed

end

section \<open>The zone\<close>

definition zone_new :: "u64 \<Rightarrow> zone \<Rightarrow> (zone \<times> u64) result option" where
  "zone_new n z = zone_alloc z n"

definition zone_del :: "u64 \<Rightarrow> zone \<Rightarrow> zone result" where
  "zone_del p z = zone_free z p"

definition zone_names :: "zone \<Rightarrow> u64 \<Rightarrow> block \<Rightarrow> bool" where
  "zone_names z p b \<longleftrightarrow> snd b \<noteq> 0 \<and> p = off z (snd b)"

definition blocks_apart :: "block \<Rightarrow> block \<Rightarrow> bool" where
  "blocks_apart b c \<longleftrightarrow> span b \<inter> span c = {}"

lemma new_block_apart:
  assumes "alloc_done z cs l z' u" "u \<noteq> 0"
  shows "(l, u) \<notin> alloc_blocks z" "off z u \<noteq> 0" "\<And>b. b \<in> alloc_blocks z \<Longrightarrow> span (l, u) \<inter> span b = {}"
proof -
  from assms have al: "alloc_blocks z' = insert (l, u) (alloc_blocks z)" "(l, u) \<notin> alloc_blocks z"
    "zone_ready z'" "off z u = off z' u" by (auto simp: alloc_done_def off_def)
  then obtain k fls where z': "zone_geom z' k" "zone_rep z' fls {}" by (auto simp: zone_ready_def zone_inv_def)
  have B: "(l, u) \<in> blocks_of z' fls {}" using al by (simp add: blocks_of_def)
  show "(l, u) \<notin> alloc_blocks z" by (fact al)
  show "off z u \<noteq> 0"
    unfolding al(4) using off_eq_0_iff [OF z'(1) rep_bound(2) [OF z'(2) B]] assms(2) by simp
  show "span (l, u) \<inter> span c = {}" if "c \<in> alloc_blocks z" for c
  proof -
    have "c \<in> blocks_of z' fls {}" "c \<noteq> (l, u)" using al that by (auto simp: blocks_of_def)
    then show ?thesis using rep_unique [OF z'(2) B] by blast
  qed
qed

interpretation zone_client: allocator zone_new zone_del 0 zone_ready alloc_blocks zone_names blocks_apart
proof
  fix s n
  assume r: "zone_ready s"
  from zone_alloc_spec [OF r, of n] obtain z' u where
    a: "zone_alloc s n = Some (Inr (z', off s u))" "alloc_done s (next_power_of_two (max n (min_obj_size s))) (level_of s n) z' u"
    by blast
  have n: "zone_names z' q c = zone_names s q c" for q c
    using a(2) by (simp add: zone_names_def alloc_done_def off_def)
  have "if off s u = 0 then alloc_blocks z' = alloc_blocks s
    else \<exists>b. zone_names s (off s u) b \<and> b \<notin> alloc_blocks s \<and> alloc_blocks z' = insert b (alloc_blocks s) \<and>
      (\<forall>c \<in> alloc_blocks s. blocks_apart b c)"
  proof (cases "u = 0")
    case True
    then show ?thesis using a(2) by (simp add: off_def alloc_done_def)
  next
    case False
    note b = new_block_apart [OF a(2) False]
    have "zone_names s (off s u) (level_of s n, u)" using False by (simp add: zone_names_def)
    moreover have "alloc_blocks z' = insert (level_of s n, u) (alloc_blocks s)"
      using a(2) False by (simp add: alloc_done_def)
    moreover have "\<forall>c \<in> alloc_blocks s. blocks_apart (level_of s n, u) c" using b(3) by (simp add: blocks_apart_def)
    ultimately show ?thesis using b(1,2) by auto
  qed
  then show "\<exists>s' p. zone_new n s = Some (Inr (s', p)) \<and> zone_ready s' \<and>
      (\<forall>q c. zone_names s' q c = zone_names s q c) \<and>
      (if p = 0 then alloc_blocks s' = alloc_blocks s
       else \<exists>b. zone_names s p b \<and> b \<notin> alloc_blocks s \<and> alloc_blocks s' = insert b (alloc_blocks s) \<and>
         (\<forall>c \<in> alloc_blocks s. blocks_apart b c))"
    using a n by (intro exI [of _ z'] exI [of _ "off s u"]) (simp add: zone_new_def alloc_done_def)
next
  fix s p and b :: block
  assume z: "zone_ready s" "zone_names s p b" "b \<in> alloc_blocks s"
  obtain l u where b: "b = (l, u)" by (cases b)
  with z(2,3) have lu: "(l, u) \<in> alloc_blocks s" "u \<noteq> 0" "p = off s u" by (simp_all add: zone_names_def)
  from zone_free_spec [OF z(1) lu(1,2)] obtain z' where
    z': "zone_free s p = Inr z'" "zone_ready z'" "alloc_blocks z' = alloc_blocks s - {b}" "lists_only s z'"
    unfolding b lu(3) by blast
  from z'(4) have "min_obj_size z' = min_obj_size s" by (auto simp: lists_only_def)
  then have "zone_names z' q c = zone_names s q c" for q c by (simp add: zone_names_def off_def)
  with z'(1-3) show "\<exists>s'. zone_del p s = Inr s' \<and> zone_ready s' \<and> (\<forall>q c. zone_names s' q c = zone_names s q c) \<and>
      alloc_blocks s' = alloc_blocks s - {b}"
    by (auto simp: zone_del_def)
next
  show "blocks_apart b c \<Longrightarrow> blocks_apart c b" for b c by (simp add: blocks_apart_def Int_commute)
qed

end
