(* ===== verification/Zone_Delayed.thy ===== *)
theory Zone_Delayed
  imports Allocator
begin

text \<open>
  Lists of allocated chunks. The heap's lists for delayed free are chained through the entries of the
  zone, whose allocation bit and level stay as they are; the zone's own operations never write the
  entry of an allocated chunk, so the lists survive them.
\<close>

lemma relink_allocated:
  assumes rep: "zone_rep z fls X" and geom: "zone_geom z k" and lu: "(l, u) \<in> alloc_blocks z"
    and w: "is_allocated w" "get_level w = get_level (zentries z (slot u))"
    and z': "z' = z\<lparr>zentries := (zentries z)(slot u := w)\<rparr>"
  shows "zone_rep z' fls X" "alloc_blocks z' = alloc_blocks z" "same_geom z z'"
proof -
  have B: "(l, u) \<in> blocks_of z fls X" using lu by (auto simp: blocks_of_def)
  have u64: "Suc u < 2 ^ 64" by (rule geom_unit_lt(3) [OF geom rep_bound(2) [OF rep B]])
  have alloc: "is_allocated (zentries z (slot u))" using lu by (simp add: alloc_blocks_def)
  have same: "is_allocated (zentries z' i) = is_allocated (zentries z i)" "get_level (zentries z' i) = get_level (zentries z i)" for i
    using w alloc by (simp_all add: z')
  show al: "alloc_blocks z' = alloc_blocks z" by (rule alloc_blocks_cong) (simp add: z', simp_all only: same)
  show "same_geom z z'" by (simp add: z' same_geom_def)
  have nin: "u \<notin> set (fls l')" for l' using block_not_listed [OF rep] lu by blast
  have lists: "zes_holds (zentries z') (free_list z' l') (fls l')" if "l' \<le> max_zone_level z'" for l'
    using zone_repD(1) [OF rep, of l'] chain_update [OF _ nin u64] that by (simp add: z' zes_holds_def)
  have fr: "free_blocks z' fls = free_blocks z fls" by (simp add: free_blocks_def z')
  have cz: "current_zone_level z' = current_zone_level z" by (simp add: z')
  have bl: "blocks_of z' fls X = blocks_of z fls X" by (simp add: blocks_of_def al fr)
  show "zone_rep z' fls X"
  proof (rule zone_repI)
    show "ungrown_clear z'" using zone_repD(9) [OF rep] unfolding ungrown_clear_def same(1) by (simp add: z')
  qed (use lists zone_repD [OF rep] in \<open>simp_all only: bl al fr cz same, simp_all add: same\<close>)
qed

section \<open>Lists\<close>

definition delayed_ok :: "zone \<Rightarrow> zone_stack \<Rightarrow> nat list \<Rightarrow> bool" where
  "delayed_ok z st us \<longleftrightarrow> chain (zentries z) (head st) us \<and> (\<forall>u \<in> set us. u \<noteq> 0 \<and> (\<exists>l. (l, u) \<in> alloc_blocks z))"

lemma delayed_empty: "head st = 0 \<Longrightarrow> delayed_ok z st []"
  by (simp add: delayed_ok_def)

lemma delayed_cong:
  assumes "delayed_ok z st us" "\<And>u. u \<in> set us \<Longrightarrow> get_next (zentries z' (slot u)) = get_next (zentries z (slot u))"
    "\<And>u l. u \<in> set us \<Longrightarrow> (l, u) \<in> alloc_blocks z \<Longrightarrow> (l, u) \<in> alloc_blocks z'"
  shows "delayed_ok z' st us"
  using assms chain_cong [of "zentries z" "head st" us "zentries z'"] unfolding delayed_ok_def by blast

lemma delayed_kept:
  assumes "delayed_ok z st us" "alloc_kept z z'" "alloc_blocks z \<subseteq> alloc_blocks z'"
  shows "delayed_ok z' st us"
proof (rule delayed_cong [OF assms(1)])
  show "get_next (zentries z' (slot u)) = get_next (zentries z (slot u))" if "u \<in> set us" for u
    using assms(1,2) that unfolding delayed_ok_def alloc_kept_def by metis
qed (use assms(3) in blast)

lemma delayed_push:
  assumes "zone_ready z" "(l, u) \<in> alloc_blocks z" "u \<noteq> 0" "delayed_ok z st us" "u \<notin> set us"
  shows "\<exists>e st'. zes_push (zentries z) st (of_nat u) = Inr (e, st') \<and> zone_ready (z\<lparr>zentries := e\<rparr>) \<and>
    alloc_blocks (z\<lparr>zentries := e\<rparr>) = alloc_blocks z \<and> delayed_ok (z\<lparr>zentries := e\<rparr>) st' (u # us) \<and>
    (\<forall>t vs. delayed_ok z t vs \<and> u \<notin> set vs \<longrightarrow> delayed_ok (z\<lparr>zentries := e\<rparr>) t vs)"
proof -
  from assms(1) obtain k fls where geom: "zone_geom z k" and rep: "zone_rep z fls {}"
    by (auto simp: zone_ready_def zone_inv_def)
  have B: "(l, u) \<in> blocks_of z fls {}" using assms(2) by (simp add: blocks_of_def)
  note lt = geom_unit_lt [OF geom rep_bound(2) [OF rep B]]
  have al: "is_allocated (zentries z (slot u))" using assms(2) by (simp add: alloc_blocks_def)
  have ch: "chain (zentries z) (head st) us" using assms(4) by (simp add: delayed_ok_def)
  define w where "w = pack True (get_level (zentries z (slot u))) (head st)"
  define e where "e = (zentries z)(slot u := w)"
  let ?z = "z\<lparr>zentries := e\<rparr>"
  have w: "is_allocated w" "get_level w = get_level (zentries z (slot u))" "get_next w = head st"
    using chain_head_lt [OF ch] by (simp_all add: w_def get_pack)
  have "zes_push (zentries z) st (of_nat u) = Inr (e, \<lparr>head = slot u, aba_counter = aba_counter st + 1\<rparr>)"
    using zes_push_eq [OF ch] al by (simp add: e_def w_def)
  moreover have r: "zone_rep ?z fls {}" "alloc_blocks ?z = alloc_blocks z" "same_geom z ?z"
    using relink_allocated [OF rep geom assms(2) w(1,2), of ?z] by (simp_all add: e_def)
  moreover have "zone_ready ?z"
    using assms(1) r(1) same_geom_geom [OF r(3) geom] by (auto simp: zone_ready_def zone_inv_def growable_def)
  moreover have other: "delayed_ok ?z t vs" if "delayed_ok z t vs" "u \<notin> set vs" for t vs
    using that r(2) chain_update [OF _ that(2) lt(3), of "zentries z" "head t" w] by (simp add: delayed_ok_def e_def)
  moreover have "delayed_ok ?z \<lparr>head = slot u, aba_counter = aba_counter st + 1\<rparr> (u # us)"
    using other [OF assms(4,5)] assms(2,3) lt(2) w(3) r(2) unfolding delayed_ok_def by (auto simp: e_def)
  ultimately show ?thesis by blast
qed

lemma delayed_pop:
  assumes "delayed_ok z st (u # us)"
  shows "\<exists>st'. zes_pop (zentries z) st = (st', of_nat u) \<and> delayed_ok z st' us"
  using assms zes_pop_Cons [of "zentries z" st u us] by (auto simp: delayed_ok_def)

lemma delayed_pop_empty: "delayed_ok z st [] \<Longrightarrow> zes_pop (zentries z) st = (st, 0)"
  using zes_pop_Nil by (simp add: delayed_ok_def)

lemma delayed_free:
  assumes "zone_ready z" "(l, u) \<in> alloc_blocks z" "u \<noteq> 0"
  shows "\<exists>z'. zone_free z (off z u) = Inr z' \<and> zone_ready z' \<and> alloc_blocks z' = alloc_blocks z - {(l, u)} \<and>
    lists_only z z' \<and> (\<forall>t vs. delayed_ok z t vs \<and> u \<notin> set vs \<longrightarrow> delayed_ok z' t vs)"
proof -
  from zone_free_spec [OF assms] obtain z' where z': "zone_free z (off z u) = Inr z'" "zone_ready z'"
    "alloc_blocks z' = alloc_blocks z - {(l, u)}" "lists_only z z'"
    "\<forall>m w. (m, w) \<in> alloc_blocks z \<and> w \<noteq> u \<longrightarrow> zentries z' (slot w) = zentries z (slot w)" by blast
  have "delayed_ok z' t vs" if d: "delayed_ok z t vs" "u \<notin> set vs" for t vs
  proof (rule delayed_cong [OF d(1)])
    fix v
    assume v: "v \<in> set vs"
    then show "get_next (zentries z' (slot v)) = get_next (zentries z (slot v))"
      using d z'(5) unfolding delayed_ok_def by metis
    show "(m, v) \<in> alloc_blocks z \<Longrightarrow> (m, v) \<in> alloc_blocks z'" for m using v d(2) z'(3) by auto
  qed
  with z' show ?thesis by blast
qed

text \<open>Chunks that start at the same unit are the same.\<close>

lemma alloc_block_unique: "zone_ready z \<Longrightarrow> (l, u) \<in> alloc_blocks z \<Longrightarrow> (m, u) \<in> alloc_blocks z \<Longrightarrow> l = m"
  by (simp add: alloc_blocks_def)

end
