(* ===== verification/Epoch_Zone_Correct.thy ===== *)
theory Epoch_Zone_Correct
  imports Epoch_Zone_Heap Zone_Delayed
begin

text \<open>
  Correctness of allocation and the three kinds of free of an open heap whose shelves are all
  mapped: the invariant (every zone's own invariant, and five disjoint lists of allocated chunks per
  shelf), the chunks in use, and the interpretation of the locale \<open>allocator\<close>.
\<close>

section \<open>Open heaps\<close>

definition opened :: "zheap \<Rightarrow> nat \<Rightarrow> bool" where
  "opened h N \<longleftrightarrow> zh_is_open h \<and> gh_ptr h \<noteq> None \<and> pool_id h < kMaxPoolCount \<and> 1 \<le> N \<and> N < 128 \<and>
     total_shelfs h = of_nat N \<and> total_mapped_shelfs h = int N \<and>
     (\<forall>i < N. (\<exists>sh. rmb h i = Some sh \<and> sh_is_open sh) \<and> mapped_addr h i \<noteq> None)"

definition shelf_rep :: "zheap \<Rightarrow> nat \<Rightarrow> (nat \<Rightarrow> nat list) \<Rightarrow> bool" where
  "shelf_rep h i us \<longleftrightarrow> zone_ready (zones h i) \<and> min_obj_size (zones h i) = min_obj h \<and>
     (\<forall>k < 5. delayed_ok (zones h i) (delayed h i k) (us k)) \<and>
     (\<forall>k < 5. \<forall>j < 5. k \<noteq> j \<longrightarrow> set (us k) \<inter> set (us j) = {})"

definition heap_rep :: "zheap \<Rightarrow> nat \<Rightarrow> (nat \<Rightarrow> nat \<Rightarrow> nat list) \<Rightarrow> bool" where
  "heap_rep h N D \<longleftrightarrow> opened h N \<and> (\<forall>i < N. shelf_rep h i (D i))"

text \<open>The chunks that are allocated and not waiting on a list: shelf, level, first unit.\<close>

definition in_use :: "nat \<Rightarrow> (nat \<Rightarrow> nat \<Rightarrow> nat list) \<Rightarrow> zheap \<Rightarrow> (nat \<times> block) set" where
  "in_use N D h = {(i, l, u). i < N \<and> (l, u) \<in> alloc_blocks (zones h i) \<and> (\<forall>k < 5. u \<notin> set (D i k))}"

definition heap_ptr :: "zheap \<Rightarrow> nat \<Rightarrow> nat \<Rightarrow> GlobalPtr" where
  "heap_ptr h i u = EncodeGlobalPtr (EncodeShelfId (pool_id h) (of_nat (i + 1))) (of_nat u * min_obj h)"

definition heap_names :: "zheap \<Rightarrow> GlobalPtr \<Rightarrow> nat \<times> block \<Rightarrow> bool" where
  "heap_names h ptr b \<longleftrightarrow> snd (snd b) \<noteq> 0 \<and> ptr = heap_ptr h (fst b) (snd (snd b))"

definition heap_apart :: "nat \<times> block \<Rightarrow> nat \<times> block \<Rightarrow> bool" where
  "heap_apart b c \<longleftrightarrow> fst b = fst c \<longrightarrow> blocks_apart (snd b) (snd c)"

definition heap_level :: "zheap \<Rightarrow> u64 \<Rightarrow> nat" where
  "heap_level h n = unat (find_level_from_size (next_power_of_two (max n (min_obj h))) (min_obj h))"

lemma kMaxShelfCount_nat: "unat kMaxShelfCount = 128"
  by (simp add: kMaxShelfCount_def)

lemma openedD:
  assumes "opened h N"
  shows "zh_is_open h" "gh_ptr h \<noteq> None" "N < 128" "total_mapped_shelfs h = int N" "pool_id h < kMaxPoolCount"
    "i < N \<Longrightarrow> \<exists>sh. rmb_at h (int i) = Inr sh \<and> sh_is_open sh"
    "i < N \<Longrightarrow> mapped_addr h i \<noteq> None"
  using assms unfolding opened_def by (auto simp: rmb_at_def kMaxShelfCount_nat)

lemma opened_all_mapped:
  assumes "opened h N"
  shows "get_total_data_shelfs h = Inr (int N)" "OpenNewShelfs h = Inr (NO_ERROR, h)"
proof -
  have n: "N < 128" "total_shelfs h = of_nat N" "gh_ptr h \<noteq> None" "total_mapped_shelfs h = int N"
    using assms by (auto simp: opened_def)
  have "ucast (of_nat N :: u64) = (of_nat N :: u32)"
    using n(1) by (simp add: unsigned_of_nat take_bit_nat_eq_self)
  moreover have "sint (of_nat N :: u32) = int N"
    using n(1) by (simp add: signed_of_nat signed_take_bit_int_eq_self)
  ultimately show t: "get_total_data_shelfs h = Inr (int N)" using n by (simp add: get_total_data_shelfs_def)
  show "OpenNewShelfs h = Inr (NO_ERROR, h)" using t n by (simp add: OpenNewShelfs_def)
qed

text \<open>What changes only in the zones.\<close>

definition only_zones :: "zheap \<Rightarrow> zheap \<Rightarrow> bool" where
  "only_zones h h' \<longleftrightarrow> (\<exists>f. h' = h\<lparr>zones := f\<rparr>)"

lemma only_zones_upd [simp]: "only_zones h (h\<lparr>zones := f\<rparr>)"
  by (auto simp: only_zones_def)

lemma only_zones_refl [simp]: "only_zones h h"
  using only_zones_upd [of h "zones h"] by simp

lemma only_zones_trans: "only_zones (h\<lparr>zones := f\<rparr>) h' \<Longrightarrow> only_zones h h'"
  by (auto simp: only_zones_def)

lemma only_zones_fields:
  assumes "only_zones h h'"
  shows "pool_id h' = pool_id h" "min_obj h' = min_obj h" "delayed h' = delayed h" "total_mapped_shelfs h' = total_mapped_shelfs h"
    "os h' = os h" "mgr h' = mgr h" "heap_level h' = heap_level h" "heap_ptr h' = heap_ptr h" "heap_names h' = heap_names h"
  using assms by (auto simp: only_zones_def heap_level_def heap_ptr_def heap_names_def fun_eq_iff)

text \<open>Putting another zone in the place of shelf \<open>i\<close>.\<close>

abbreviation set_zone :: "zheap \<Rightarrow> nat \<Rightarrow> zone \<Rightarrow> zheap" where
  "set_zone h i z \<equiv> h\<lparr>zones := (zones h)(i := z)\<rparr>"

lemma opened_set_zone: "opened (set_zone h i z) N = opened h N"
  by (simp add: opened_def)

lemma heap_rep_set_zone:
  assumes "heap_rep h N D" "i < N \<Longrightarrow> zone_ready z" "min_obj_size z = min_obj h"
    "\<And>t us. delayed_ok (zones h i) t us \<Longrightarrow> \<exists>k < 5. t = delayed h i k \<and> us = D i k \<Longrightarrow> delayed_ok z t us"
  shows "heap_rep (set_zone h i z) N D"
proof -
  have "shelf_rep (set_zone h i z) j (D j)" if "j < N" for j
  proof (cases "j = i")
    case True
    with assms that show ?thesis by (auto simp: heap_rep_def shelf_rep_def)
  next
    case False
    with assms(1) that show ?thesis by (simp add: heap_rep_def shelf_rep_def)
  qed
  with assms(1) show ?thesis by (simp add: heap_rep_def opened_set_zone)
qed

section \<open>Pointers\<close>

lemma kMaxOffset_value: "unat kMaxOffset = 2 ^ 40 - 1"
  by (simp add: kMaxOffset_def kOffsetShift_value push_bit_eq_mult)

lemma heap_ptr_fields:
  assumes "heap_rep h N D" "i < N" "(l, u) \<in> alloc_blocks (zones h i)"
  shows "DecodeOffset (heap_ptr h i u) = off (zones h i) u"
    "unat (DecodeShelfIndex (DecodeShelfId (heap_ptr h i u))) = i + 1"
    "DecodePoolId (DecodeShelfId (heap_ptr h i u)) = pool_id h" "heap_ptr h i u = 0 \<Longrightarrow> u = 0"
proof -
  from assms have z: "zone_ready (zones h i)" "min_obj_size (zones h i) = min_obj h" "i < 127"
    by (auto simp: heap_rep_def shelf_rep_def opened_def)
  then obtain k fls where geom: "zone_geom (zones h i) k" and rep: "zone_rep (zones h i) fls {}"
    by (auto simp: zone_ready_def zone_inv_def)
  have B: "(l, u) \<in> blocks_of (zones h i) fls {}" using assms(3) by (simp add: blocks_of_def)
  have o: "off (zones h i) u = of_nat u * min_obj h" by (simp add: off_def z(2))
  have ul: "u < 2 ^ current_zone_level (zones h i)" by (rule rep_bound(2) [OF rep B])
  have "unat (off (zones h i) u) < 2 ^ 40" using unat_off [OF geom ul] geom_unit_lt(4) [OF geom ul] by simp
  then have "off (zones h i) u \<le> kMaxOffset" by (simp add: word_le_nat_alt kMaxOffset_value)
  moreover have "unat (of_nat (i + 1) :: u8) = i + 1" using z(3) by (subst unsigned_of_nat) (simp add: take_bit_nat_eq_self)
  ultimately show f: "DecodeOffset (heap_ptr h i u) = off (zones h i) u"
    "DecodePoolId (DecodeShelfId (heap_ptr h i u)) = pool_id h"
    "unat (DecodeShelfIndex (DecodeShelfId (heap_ptr h i u))) = i + 1"
    using global_ptr_fields [OF EncodeShelfId_lt] by (simp_all only: heap_ptr_def o shelf_id_fields)
  have "DecodeShelfIndex (DecodeShelfId 0) = 0" by (simp add: DecodeShelfId_def DecodeShelfIndex_def)
  with f(3) show "heap_ptr h i u = 0 \<Longrightarrow> u = 0" by auto
qed

section \<open>Allocation\<close>

lemma valid_offset_iff:
  assumes "alloc_done z cs l z' u"
  shows "IsValidOffset z' (off z u) \<longleftrightarrow> off z u \<noteq> 0" "off z u = 0 \<longleftrightarrow> u = 0"
proof -
  show e: "off z u = 0 \<longleftrightarrow> u = 0"
    using new_block_apart(2) [OF assms] by (cases "u = 0") (auto simp: off_def)
  show "IsValidOffset z' (off z u) \<longleftrightarrow> off z u \<noteq> 0"
  proof (cases "u = 0")
    case True
    then show ?thesis by (simp add: IsValidOffset_def off_def)
  next
    case False
    with assms have al: "(l, u) \<in> alloc_blocks z'" "zone_ready z'" "off z u = off z' u" by (auto simp: alloc_done_def off_def)
    then obtain k fls where r: "zone_geom z' k" "zone_rep z' fls {}" by (auto simp: zone_ready_def zone_inv_def)
    have B: "(l, u) \<in> blocks_of z' fls {}" using al(1) by (simp add: blocks_of_def)
    note ul = rep_bound(2) [OF r(2) B]
    have "u * 2 ^ k < 2 ^ max_zone_level z' * 2 ^ k" using geom_unit_lt(5) [OF r(1) ul] by simp
    then have "off z' u < max_zone_size z'"
      using unat_off [OF r(1) ul] r(1) unat_power_of_2 [of "max_zone_level z' + k"]
      by (simp add: zone_geom_def power_add word_less_nat_alt)
    then show ?thesis using e False by (simp add: IsValidOffset_def al(3) word_greater_zero_iff)
  qed
qed

text \<open>What the search of the shelves from \<open>i\<close> on comes to: a chunk of the first shelf \<open>j\<close> that has
  one, or none.\<close>

definition found_chunk :: "zheap \<Rightarrow> nat \<Rightarrow> u64 \<Rightarrow> zheap \<Rightarrow> nat \<Rightarrow> nat \<Rightarrow> bool" where
  "found_chunk h i n h' j u \<longleftrightarrow> u \<noteq> 0 \<and>
     alloc_done (zones h j) (next_power_of_two (max n (min_obj h))) (heap_level h n) (zones h' j) u \<and>
     (\<forall>m. m \<noteq> j \<longrightarrow> alloc_blocks (zones h' m) = alloc_blocks (zones h m) \<and> shelf (zones h' m) = shelf (zones h m)) \<and>
     (\<forall>m. i \<le> m \<and> m < j \<longrightarrow> no_free_from (zones h' m) (heap_level h n))"

definition no_chunk :: "zheap \<Rightarrow> nat \<Rightarrow> nat \<Rightarrow> u64 \<Rightarrow> zheap \<Rightarrow> bool" where
  "no_chunk h i N n h' \<longleftrightarrow>
     (\<forall>m. alloc_blocks (zones h' m) = alloc_blocks (zones h m) \<and> shelf (zones h' m) = shelf (zones h m)) \<and>
     (\<forall>m. i \<le> m \<and> m < N \<longrightarrow> no_free_from (zones h m) (heap_level h n) \<and> no_free_from (zones h' m) (heap_level h n))"

lemma alloc_shelf:
  assumes "heap_rep h N D" "i < N"
  shows "\<exists>sh z u. rmb_at h (int i) = Inr sh \<and> sh_is_open sh \<and>
    sh_Alloc sh (zones h i) n = Some (Inr (z, off (zones h i) u)) \<and>
    alloc_done (zones h i) (next_power_of_two (max n (min_obj h))) (heap_level h n) z u \<and>
    heap_rep (set_zone h i z) N D"
proof -
  from assms have r: "shelf_rep h i (D i)" "opened h N" by (auto simp: heap_rep_def)
  then have z: "zone_ready (zones h i)" "min_obj_size (zones h i) = min_obj h" by (simp_all add: shelf_rep_def)
  from openedD(6) [OF r(2) assms(2)] obtain sh where sh: "rmb_at h (int i) = Inr sh" "sh_is_open sh" by blast
  from zone_alloc_spec [OF z(1), of n] obtain z' u where a: "zone_alloc (zones h i) n = Some (Inr (z', off (zones h i) u))"
    "alloc_done (zones h i) (next_power_of_two (max n (min_obj h))) (heap_level h n) z' u"
    by (auto simp: z(2) heap_level_def level_of_def)
  have "heap_rep (set_zone h i z') N D"
  proof (rule heap_rep_set_zone [OF assms(1)])
    show "zone_ready z'" "min_obj_size z' = min_obj h" using a(2) z(2) by (simp_all add: alloc_done_def)
    show "delayed_ok (zones h i) t us \<Longrightarrow> delayed_ok z' t us" for t us
      using delayed_kept [of "zones h i" t us z'] a(2) by (cases "u = 0") (auto simp: alloc_done_def)
  qed
  with sh a show ?thesis by (auto simp: sh_Alloc_def)
qed

lemma alloc_shelfs_spec:
  assumes "heap_rep h N D" "i \<le> N"
  shows "\<exists>j p h'. alloc_shelfs (int i) 0 n h = Some (Inr (int j, p, h')) \<and> heap_rep h' N D \<and>
    only_zones h h' \<and> (\<forall>m < i. zones h' m = zones h m) \<and>
    (if p = 0 then no_chunk h i N n h'
     else \<exists>u. i \<le> j \<and> j < N \<and> p = off (zones h j) u \<and> found_chunk h i n h' j u)"
  using assms
proof (induction "N - i" arbitrary: i h)
  case 0
  then have i: "i = N" by simp
  have o: "opened h N" using 0 by (simp add: heap_rep_def)
  have "alloc_shelfs (int i) 0 n h = Some (Inr (int N, 0, h))"
    using openedD(4) [OF o] opened_all_mapped(1) [OF o] by (subst alloc_shelfs.simps) (simp add: i)
  then show ?case using 0 i by (auto simp: no_chunk_def)
next
  case (Suc d)
  then have i: "i < N" by simp
  have tot: "total_mapped_shelfs h = int N" using Suc.prems openedD(4) by (auto simp: heap_rep_def)
  from alloc_shelf [OF Suc.prems(1) i, of n] obtain sh z u where a: "rmb_at h (int i) = Inr sh" "sh_is_open sh"
    "sh_Alloc sh (zones h i) n = Some (Inr (z, off (zones h i) u))"
    "alloc_done (zones h i) (next_power_of_two (max n (min_obj h))) (heap_level h n) z u"
    "heap_rep (set_zone h i z) N D" by blast
  note v = valid_offset_iff [OF a(4)]
  have step: "alloc_shelfs (int i) 0 n h =
    (if u = 0 then alloc_shelfs (int (Suc i)) 0 n (set_zone h i z) else Some (Inr (int i, off (zones h i) u, set_zone h i z)))"
    using i tot a(1-3) v by (subst alloc_shelfs.simps) (auto simp: sh_IsValidOffset_def add.commute)
  show ?case
  proof (cases "u = 0")
    case False
    with a(4) have "found_chunk h i n (set_zone h i z) i u" by (auto simp: found_chunk_def)
    with False step a(5) i v show ?thesis by auto
  next
    case True
    have "d = N - Suc i" "Suc i \<le> N" using Suc.hyps(2) i by simp_all
    from Suc.hyps(1) [OF this(1) a(5) this(2)] obtain j p h' where
      h': "alloc_shelfs (int (Suc i)) 0 n (set_zone h i z) = Some (Inr (int j, p, h'))" "heap_rep h' N D"
        "only_zones (set_zone h i z) h'" "\<forall>m < Suc i. zones h' m = zones (set_zone h i z) m"
        "if p = 0 then no_chunk (set_zone h i z) (Suc i) N n h'
         else \<exists>u. Suc i \<le> j \<and> j < N \<and> p = off (zones (set_zone h i z) j) u \<and> found_chunk (set_zone h i z) (Suc i) n h' j u"
      by blast
    have zi: "zones h' i = z" using h'(4) by simp
    have none: "alloc_blocks z = alloc_blocks (zones h i)" "shelf z = shelf (zones h i)" "no_free_from z (heap_level h n)"
      "no_free_from (zones h i) (heap_level h n)"
      using a(4) True by (simp_all add: alloc_done_def)
    have lv: "heap_level (set_zone h i z) n = heap_level h n" by (simp add: heap_level_def)
    have "only_zones h h'" using h'(3) by (rule only_zones_trans)
    moreover have "if p = 0 then no_chunk h i N n h'
      else \<exists>u. i \<le> j \<and> j < N \<and> p = off (zones h j) u \<and> found_chunk h i n h' j u"
    proof (cases "p = 0")
      case True
      then have c: "no_chunk (set_zone h i z) (Suc i) N n h'" using h'(5) by simp
      have "no_free_from (zones h m) (heap_level h n) \<and> no_free_from (zones h' m) (heap_level h n)" if "i \<le> m" "m < N" for m
        using c that zi none(3,4) by (cases "m = i") (auto simp: no_chunk_def lv)
      moreover have "alloc_blocks (zones h' m) = alloc_blocks (zones h m) \<and> shelf (zones h' m) = shelf (zones h m)" for m
        using c none(1,2) by (cases "m = i") (auto simp: no_chunk_def)
      ultimately show ?thesis using True by (simp add: no_chunk_def)
    next
      case False
      then obtain w where w: "Suc i \<le> j" "j < N" "p = off (zones h j) w" "found_chunk (set_zone h i z) (Suc i) n h' j w"
        using h'(5) by auto
      have ji: "j \<noteq> i" using w(1) by simp
      have "no_free_from (zones h' m) (heap_level h n)" if "i \<le> m" "m < j" for m
        using w(4) that zi none(3) by (cases "m = i") (auto simp: found_chunk_def lv)
      moreover have "alloc_blocks (zones h' m) = alloc_blocks (zones h m) \<and> shelf (zones h' m) = shelf (zones h m)"
        if "m \<noteq> j" for m
        using w(4) that zi none(1,2) by (cases "m = i") (auto simp: found_chunk_def)
      ultimately have "found_chunk h i n h' j w" using w(4) ji by (simp add: found_chunk_def lv)
      with False w show ?thesis by auto
    qed
    moreover have "\<forall>m < i. zones h' m = zones h m" using h'(4) by simp
    ultimately show ?thesis using step h'(1,2) unfolding if_P [OF True] by (intro exI [of _ j] exI [of _ p] exI [of _ h'] conjI) simp_all
  qed
qed

definition heap_alloc_done :: "zheap \<Rightarrow> nat \<Rightarrow> u64 \<Rightarrow> zheap \<Rightarrow> GlobalPtr \<Rightarrow> bool" where
  "heap_alloc_done h N n h' ptr \<longleftrightarrow>
     (if ptr = 0 then no_chunk h 0 N n h' else \<exists>j u. j < N \<and> ptr = heap_ptr h j u \<and> found_chunk h 0 n h' j u)"

lemma heap_Alloc_spec:
  assumes "heap_rep h N D"
  shows "\<exists>h' ptr. heap_Alloc n h = Some (Inr (h', ptr)) \<and> heap_rep h' N D \<and> only_zones h h' \<and>
    heap_alloc_done h N n h' ptr"
proof -
  have o: "opened h N" using assms by (simp add: heap_rep_def)
  from alloc_shelfs_spec [OF assms le0, of n, unfolded semiring_1_class.of_nat_0] obtain j p h' where
    h': "alloc_shelfs 0 0 n h = Some (Inr (int j, p, h'))" "heap_rep h' N D" "only_zones h h'"
      "if p = 0 then no_chunk h 0 N n h' else \<exists>u. 0 \<le> j \<and> j < N \<and> p = off (zones h j) u \<and> found_chunk h 0 n h' j u"
    by blast
  show ?thesis
  proof (cases "p = 0")
    case True
    with h' openedD(1) [OF o] show ?thesis by (auto simp: heap_Alloc_def heap_alloc_done_def)
  next
    case False
    with h'(4) obtain u where u: "j < N" "p = off (zones h j) u" "found_chunk h 0 n h' j u" by auto
    have j: "j + 1 < 128" using u(1) openedD(3) [OF o] by simp
    note pid = only_zones_fields [OF h'(3)]
    have "(of_nat (j + 1) :: u8) < kMaxShelfCount"
      using j by (simp add: word_less_nat_alt unsigned_of_nat take_bit_nat_eq_self kMaxShelfCount_nat del: of_nat_add of_nat_Suc)
    then have sid: "shelf_id (pool_id h') (word_of_int (int j + 1)) = Inr (EncodeShelfId (pool_id h) (of_nat (j + 1)))"
      using openedD(5) [OF o] by (simp add: shelf_id_def pid add.commute)
    have mo: "min_obj_size (zones h j) = min_obj h" using assms u(1) by (simp add: heap_rep_def shelf_rep_def)
    have "heap_Alloc n h = Some (Inr (h', heap_ptr h j u))"
      using h'(1) False sid openedD(1) [OF o] by (simp add: heap_Alloc_def heap_ptr_def u(2) off_def mo)
    moreover have "heap_ptr h j u \<noteq> 0"
    proof
      assume "heap_ptr h j u = 0"
      moreover have "(heap_level h n, u) \<in> alloc_blocks (zones h' j)"
        using u(3) by (auto simp: found_chunk_def alloc_done_def)
      ultimately show False using heap_ptr_fields(4) [OF h'(2) u(1)] u(3) by (auto simp: found_chunk_def pid)
    qed
    ultimately show ?thesis using h'(2,3) u by (auto simp: heap_alloc_done_def)
  qed
qed

section \<open>Free\<close>

lemma free_at_spec:
  assumes "heap_rep h N D" "i < N" "(l, u) \<in> alloc_blocks (zones h i)" "u \<noteq> 0" "\<forall>k < 5. u \<notin> set (D i k)"
  shows "\<exists>z. free_at (int i) (off (zones h i) u) h = Inr (set_zone h i z) \<and> heap_rep (set_zone h i z) N D \<and>
    alloc_blocks z = alloc_blocks (zones h i) - {(l, u)} \<and> shelf z = shelf (zones h i)"
proof -
  from assms(1,2) have o: "opened h N" and r: "shelf_rep h i (D i)" by (simp_all add: heap_rep_def)
  from openedD(6) [OF o assms(2)] obtain sh where sh: "rmb_at h (int i) = Inr sh" "sh_is_open sh" by blast
  from r have z: "zone_ready (zones h i)" "min_obj_size (zones h i) = min_obj h" by (simp_all add: shelf_rep_def)
  from delayed_free [OF z(1) assms(3,4)] obtain z' where z': "zone_free (zones h i) (off (zones h i) u) = Inr z'" "zone_ready z'"
    "alloc_blocks z' = alloc_blocks (zones h i) - {(l, u)}" "lists_only (zones h i) z'"
    "\<forall>t vs. delayed_ok (zones h i) t vs \<and> u \<notin> set vs \<longrightarrow> delayed_ok z' t vs" by blast
  have f: "min_obj_size z' = min_obj h" "shelf z' = shelf (zones h i)"
    using z'(4) z(2) by (auto simp: lists_only_def)
  have "heap_rep (set_zone h i z') N D"
  proof (rule heap_rep_set_zone [OF assms(1)])
    show "delayed_ok z' t us" if "delayed_ok (zones h i) t us" "\<exists>k < 5. t = delayed h i k \<and> us = D i k" for t us
      using that z'(5) assms(5) by blast
  qed (use z'(2) f(1) in simp_all)
  then show ?thesis using sh z' f by (auto simp: free_at_def sh_Free_def)
qed

lemma heap_Free_spec:
  assumes "heap_rep h N D" "(i, l, u) \<in> in_use N D h" "u \<noteq> 0"
  shows "\<exists>z. heap_Free (heap_ptr h i u) h = Inr (set_zone h i z) \<and> heap_rep (set_zone h i z) N D \<and>
    alloc_blocks z = alloc_blocks (zones h i) - {(l, u)} \<and> shelf z = shelf (zones h i)"
proof -
  from assms(2) have iu: "i < N" "(l, u) \<in> alloc_blocks (zones h i)" "\<forall>k < 5. u \<notin> set (D i k)" by (auto simp: in_use_def)
  note f = heap_ptr_fields [OF assms(1) iu(1,2)]
  have o: "opened h N" using assms(1) by (simp add: heap_rep_def)
  have "heap_Free (heap_ptr h i u) h = free_at (int i) (off (zones h i) u) h"
    using openedD(1,4) [OF o] iu(1) f by (simp add: heap_Free_def)
  with free_at_spec [OF assms(1) iu(1,2) assms(3) iu(3)] show ?thesis by simp
qed

section \<open>The heap as an allocator\<close>

lemma found_in_use:
  assumes "heap_rep h N D" "j < N" "found_chunk h i n h' j u"
  shows "(j, heap_level h n, u) \<notin> in_use N D h" "in_use N D h' = insert (j, heap_level h n, u) (in_use N D h)"
    "c \<in> in_use N D h \<Longrightarrow> heap_apart (j, heap_level h n, u) c"
proof -
  let ?l = "heap_level h n"
  from assms(3) have u: "u \<noteq> 0" "alloc_done (zones h j) (next_power_of_two (max n (min_obj h))) ?l (zones h' j) u"
    "\<And>m. m \<noteq> j \<Longrightarrow> alloc_blocks (zones h' m) = alloc_blocks (zones h m)" by (auto simp: found_chunk_def)
  note new = new_block_apart [OF u(2,1)]
  have al: "alloc_blocks (zones h' j) = insert (?l, u) (alloc_blocks (zones h j))" using u(1,2) by (simp add: alloc_done_def)
  have nd: "u \<notin> set (D j k)" if "k < 5" for k
  proof
    assume "u \<in> set (D j k)"
    moreover have "delayed_ok (zones h j) (delayed h j k) (D j k)"
      using assms(1,2) that by (simp add: heap_rep_def shelf_rep_def)
    ultimately obtain l where "(l, u) \<in> alloc_blocks (zones h j)" by (auto simp: delayed_ok_def)
    moreover have "u \<in> span (?l, u) \<inter> span (l, u)" by simp
    ultimately show False using new(3) by blast
  qed
  show "(j, ?l, u) \<notin> in_use N D h" using new(1) by (simp add: in_use_def)
  have "(m, b) \<in> in_use N D h' \<longleftrightarrow> (m, b) = (j, ?l, u) \<or> (m, b) \<in> in_use N D h" for m b
    using al u(3) [of m] nd assms(2) by (cases "m = j"; cases b) (auto simp: in_use_def)
  then show "in_use N D h' = insert (j, ?l, u) (in_use N D h)" by force
  show "c \<in> in_use N D h \<Longrightarrow> heap_apart (j, ?l, u) c"
    using new(3) by (cases c) (simp add: heap_apart_def blocks_apart_def in_use_def)
qed

lemma in_use_free:
  assumes "zone_ready (zones h i)" "alloc_blocks z = alloc_blocks (zones h i) - {(l, u)}"
  shows "in_use N D (set_zone h i z) = in_use N D h - {(i, l, u)}"
  using assms by (auto simp: in_use_def split: if_splits)

interpretation heap_client: allocator heap_Alloc heap_Free 0 "\<lambda>h. heap_rep h N D" "in_use N D" heap_names heap_apart for N D
proof
  fix h n
  assume h: "heap_rep h N D"
  from heap_Alloc_spec [OF h, of n] obtain h' ptr where h': "heap_Alloc n h = Some (Inr (h', ptr))" "heap_rep h' N D"
    "only_zones h h'" "heap_alloc_done h N n h' ptr" by blast
  have "if ptr = 0 then in_use N D h' = in_use N D h
    else \<exists>b. heap_names h ptr b \<and> b \<notin> in_use N D h \<and> in_use N D h' = insert b (in_use N D h) \<and>
      (\<forall>c \<in> in_use N D h. heap_apart b c)"
  proof (cases "ptr = 0")
    case True
    then show ?thesis using h'(4) by (simp add: heap_alloc_done_def no_chunk_def in_use_def)
  next
    case False
    then obtain j u where u: "j < N" "ptr = heap_ptr h j u" "found_chunk h 0 n h' j u"
      using h'(4) by (auto simp: heap_alloc_done_def)
    have "heap_names h ptr (j, heap_level h n, u)" using u by (simp add: heap_names_def found_chunk_def)
    with found_in_use [OF h u(1,3)] False show ?thesis
      by (simp only: if_False, intro exI [of _ "(j, heap_level h n, u)"] conjI ballI, simp_all)
  qed
  with h' only_zones_fields(9) [OF h'(3)] show "\<exists>s' p. heap_Alloc n h = Some (Inr (s', p)) \<and> heap_rep s' N D \<and>
      (\<forall>q c. heap_names s' q c = heap_names h q c) \<and>
      (if p = 0 then in_use N D s' = in_use N D h
       else \<exists>b. heap_names h p b \<and> b \<notin> in_use N D h \<and> in_use N D s' = insert b (in_use N D h) \<and>
         (\<forall>c \<in> in_use N D h. heap_apart b c))"
    by (intro exI [of _ h'] exI [of _ ptr]) simp
next
  fix h p and b :: "nat \<times> block"
  assume h: "heap_rep h N D" "heap_names h p b" "b \<in> in_use N D h"
  obtain i l u where b: "b = (i, l, u)" by (cases b) auto
  with h have u: "u \<noteq> 0" "p = heap_ptr h i u" "(i, l, u) \<in> in_use N D h" by (simp_all add: heap_names_def)
  from heap_Free_spec [OF h(1) u(3,1)] obtain z where z: "heap_Free p h = Inr (set_zone h i z)" "heap_rep (set_zone h i z) N D"
    "alloc_blocks z = alloc_blocks (zones h i) - {(l, u)}" unfolding u(2) by blast
  have "zone_ready (zones h i)" using h(1) u(3) by (auto simp: heap_rep_def shelf_rep_def in_use_def)
  from in_use_free [OF this z(3)] z(1,2) only_zones_fields(9) [OF only_zones_upd [of h "(zones h)(i := z)"]]
  show "\<exists>s'. heap_Free p h = Inr s' \<and> heap_rep s' N D \<and> (\<forall>q c. heap_names s' q c = heap_names h q c) \<and>
      in_use N D s' = in_use N D h - {b}"
    unfolding b by (intro exI [of _ "set_zone h i z"]) simp
next
  show "heap_apart b c \<Longrightarrow> heap_apart c b" for b c by (auto simp: heap_apart_def blocks_apart_def Int_commute)
qed

section \<open>Delayed free\<close>

definition set_list :: "(nat \<Rightarrow> nat \<Rightarrow> nat list) \<Rightarrow> nat \<Rightarrow> nat \<Rightarrow> nat list \<Rightarrow> nat \<Rightarrow> nat \<Rightarrow> nat list" where
  "set_list D i k us = D(i := (D i)(k := us))"

lemma set_list_apply: "set_list D i k us j m = (if j = i \<and> m = k then us else D j m)"
  by (simp add: set_list_def)

lemma set_list_at [simp]: "set_list D i k us i k = us"
  by (simp add: set_list_def)

lemma set_list_same: "D i k = us \<Longrightarrow> set_list D i k us = D"
  by (auto simp: set_list_def)

lemma set_list_twice [simp]: "set_list (set_list D i k us) i k vs = set_list D i k vs"
  by (simp add: set_list_def)

text \<open>Another zone and another list on shelf \<open>i\<close>.\<close>

lemma heap_rep_set_list:
  assumes "heap_rep h N D" "zone_ready z" "min_obj_size z = min_obj h"
    "delayed_ok z st us" "\<And>j. j < 5 \<Longrightarrow> j \<noteq> k \<Longrightarrow> delayed_ok z (delayed h i j) (D i j) \<and> set us \<inter> set (D i j) = {}"
  shows "heap_rep (h\<lparr>zones := (zones h)(i := z), delayed := (delayed h)(i := (delayed h i)(k := st))\<rparr>) N (set_list D i k us)"
proof -
  let ?h = "h\<lparr>zones := (zones h)(i := z), delayed := (delayed h)(i := (delayed h i)(k := st))\<rparr>"
  have "shelf_rep ?h m (set_list D i k us m)" if m: "m < N" for m
  proof (cases "m = i")
    case False
    then have "set_list D i k us m = D m" by (simp add: set_list_def)
    then show ?thesis using assms(1) m False by (simp add: heap_rep_def shelf_rep_def)
  next
    case True
    have "shelf_rep h i (D i)" using assms(1) m True by (simp add: heap_rep_def)
    then have "\<forall>j < 5. \<forall>j' < 5. j \<noteq> j' \<longrightarrow> set (set_list D i k us i j) \<inter> set (set_list D i k us i j') = {}"
      using assms(5) unfolding shelf_rep_def set_list_apply by (metis Int_commute)
    then show ?thesis using assms(2-5) True unfolding shelf_rep_def by (simp add: set_list_apply)
  qed
  moreover have "opened ?h N" using assms(1) by (simp add: heap_rep_def opened_def)
  ultimately show ?thesis by (simp add: heap_rep_def)
qed

lemma push_delayed_spec:
  assumes "heap_rep h N D" "(i, l, u) \<in> in_use N D h" "u \<noteq> 0" "k < 5"
  shows "\<exists>e st. push_delayed i k (of_nat u) h =
      Inr (h\<lparr>zones := (zones h)(i := (zones h i)\<lparr>zentries := e\<rparr>), delayed := (delayed h)(i := (delayed h i)(k := st))\<rparr>) \<and>
    alloc_blocks ((zones h i)\<lparr>zentries := e\<rparr>) = alloc_blocks (zones h i) \<and>
    heap_rep (h\<lparr>zones := (zones h)(i := (zones h i)\<lparr>zentries := e\<rparr>), delayed := (delayed h)(i := (delayed h i)(k := st))\<rparr>)
      N (set_list D i k (u # D i k))"
proof -
  from assms(2) have i: "i < N" "(l, u) \<in> alloc_blocks (zones h i)" "\<forall>k < 5. u \<notin> set (D i k)" by (auto simp: in_use_def)
  then have r: "shelf_rep h i (D i)" "opened h N" using assms(1) by (simp_all add: heap_rep_def)
  then have z: "zone_ready (zones h i)" "min_obj_size (zones h i) = min_obj h" "delayed_ok (zones h i) (delayed h i k) (D i k)"
    using assms(4) by (simp_all add: shelf_rep_def)
  from delayed_push [OF z(1) i(2) assms(3) z(3)] i(3) assms(4) obtain e st where
    e: "zes_push (zentries (zones h i)) (delayed h i k) (of_nat u) = Inr (e, st)" "zone_ready ((zones h i)\<lparr>zentries := e\<rparr>)"
      "alloc_blocks ((zones h i)\<lparr>zentries := e\<rparr>) = alloc_blocks (zones h i)"
      "delayed_ok ((zones h i)\<lparr>zentries := e\<rparr>) st (u # D i k)"
      "\<forall>t vs. delayed_ok (zones h i) t vs \<and> u \<notin> set vs \<longrightarrow> delayed_ok ((zones h i)\<lparr>zentries := e\<rparr>) t vs" by blast
  have "heap_rep (h\<lparr>zones := (zones h)(i := (zones h i)\<lparr>zentries := e\<rparr>), delayed := (delayed h)(i := (delayed h i)(k := st))\<rparr>)
      N (set_list D i k (u # D i k))"
  proof (rule heap_rep_set_list [OF assms(1) e(2) _ e(4)])
    fix j
    assume j: "j < 5" "j \<noteq> k"
    then have "delayed_ok (zones h i) (delayed h i j) (D i j)" "set (D i k) \<inter> set (D i j) = {}"
      using r(1) assms(4) by (simp_all add: shelf_rep_def)
    then show "delayed_ok ((zones h i)\<lparr>zentries := e\<rparr>) (delayed h i j) (D i j) \<and> set (u # D i k) \<inter> set (D i j) = {}"
      using e(5) i(3) j(1) by auto
  qed (simp add: z(2))
  then show ?thesis using e(1,3) openedD(7) [OF r(2) i(1)] by (auto simp: push_delayed_def)
qed

text \<open>One round of the loops that empty a list.\<close>

lemma pop_delayed_spec:
  assumes "heap_rep h N D" "i < N" "k < 5"
  shows "D i k = [] \<Longrightarrow> pop_delayed i k h = Inr (0, h)"
    "D i k = u # us \<Longrightarrow> \<exists>st l. pop_delayed i k h = Inr (of_nat u, h\<lparr>delayed := (delayed h)(i := (delayed h i)(k := st))\<rparr>) \<and>
      of_nat u * min_obj h \<noteq> 0 \<and> (i, l, u) \<in> in_use N (set_list D i k us) (h\<lparr>delayed := (delayed h)(i := (delayed h i)(k := st))\<rparr>) \<and>
      heap_rep (h\<lparr>delayed := (delayed h)(i := (delayed h i)(k := st))\<rparr>) N (set_list D i k us)"
proof -
  from assms have r: "shelf_rep h i (D i)" "opened h N" by (simp_all add: heap_rep_def)
  then have z: "zone_ready (zones h i)" "min_obj_size (zones h i) = min_obj h" "delayed_ok (zones h i) (delayed h i k) (D i k)"
    "\<And>j. j < 5 \<Longrightarrow> j \<noteq> k \<Longrightarrow> delayed_ok (zones h i) (delayed h i j) (D i j) \<and> set (D i k) \<inter> set (D i j) = {}"
    using assms(3) by (simp_all add: shelf_rep_def)
  have m: "mapped_addr h i \<noteq> None" using openedD(7) [OF r(2) assms(2)] .
  have upd: "h\<lparr>delayed := (delayed h)(i := (delayed h i)(k := delayed h i k))\<rparr> = h" by simp
  show "pop_delayed i k h = Inr (0, h)" if "D i k = []"
    using delayed_pop_empty [of "zones h i" "delayed h i k"] z(3) m that by (simp add: pop_delayed_def)
  assume D: "D i k = u # us"
  from delayed_pop [OF z(3) [unfolded D]] obtain st where st: "zes_pop (zentries (zones h i)) (delayed h i k) = (st, of_nat u)"
    "delayed_ok (zones h i) st us" by blast
  let ?h = "h\<lparr>delayed := (delayed h)(i := (delayed h i)(k := st))\<rparr>"
  from z(3) D obtain l where u: "u \<noteq> 0" "(l, u) \<in> alloc_blocks (zones h i)" by (auto simp: delayed_ok_def)
  obtain g fls where geom: "zone_geom (zones h i) g" "zone_rep (zones h i) fls {}" using z(1) by (auto simp: zone_ready_def zone_inv_def)
  have ul: "u < 2 ^ current_zone_level (zones h i)" using u(2) by (simp add: alloc_blocks_def)
  have "off (zones h i) u \<noteq> 0" using off_eq_0_iff [OF geom(1) ul] u(1) by simp
  then have nz: "of_nat u * min_obj h \<noteq> 0" by (simp add: off_def z(2))
  have "distinct (D i k)" using z(3) chain_distinct by (auto simp: delayed_ok_def)
  then have nu: "u \<notin> set us" using D by simp
  have "heap_rep (h\<lparr>zones := (zones h)(i := zones h i), delayed := (delayed h)(i := (delayed h i)(k := st))\<rparr>) N (set_list D i k us)"
    using z(4) D by (intro heap_rep_set_list [OF assms(1) z(1,2) st(2)]) auto
  then have hr: "heap_rep ?h N (set_list D i k us)" by simp
  moreover have "\<forall>j < 5. u \<notin> set (set_list D i k us i j)" using z(4) D nu by (auto simp: set_list_apply)
  then have "(i, l, u) \<in> in_use N (set_list D i k us) ?h" using u(2) assms(2) by (simp add: in_use_def)
  ultimately show "\<exists>st l. pop_delayed i k h = Inr (of_nat u, h\<lparr>delayed := (delayed h)(i := (delayed h i)(k := st))\<rparr>) \<and>
      of_nat u * min_obj h \<noteq> 0 \<and> (i, l, u) \<in> in_use N (set_list D i k us) (h\<lparr>delayed := (delayed h)(i := (delayed h i)(k := st))\<rparr>) \<and>
      heap_rep (h\<lparr>delayed := (delayed h)(i := (delayed h i)(k := st))\<rparr>) N (set_list D i k us)"
    using st(1) m nz by (auto simp: pop_delayed_def)
qed

lemma recycle_one:
  assumes "heap_rep h N D" "i < N" "k < 5" "D i k = u # us"
  shows "\<exists>h1 h2. pop_delayed i k h = Inr (of_nat u, h1) \<and> min_obj h1 = min_obj h \<and> of_nat u * min_obj h \<noteq> 0 \<and>
    free_at (int i) (of_nat u * min_obj h) h1 = Inr h2 \<and> heap_rep h2 N (set_list D i k us) \<and>
    in_use N (set_list D i k us) h2 = in_use N D h \<and>
    alloc_blocks (zones h2 i) = alloc_blocks (zones h i) - {b. snd b = u} \<and>
    shelf (zones h2 i) = shelf (zones h i) \<and> (\<forall>m. m \<noteq> i \<longrightarrow> zones h2 m = zones h m) \<and>
    total_mapped_shelfs h2 = total_mapped_shelfs h"
proof -
  let ?D = "set_list D i k us"
  from pop_delayed_spec(2) [OF assms] obtain st l where
    p: "pop_delayed i k h = Inr (of_nat u, h\<lparr>delayed := (delayed h)(i := (delayed h i)(k := st))\<rparr>)"
      "of_nat u * min_obj h \<noteq> 0"
      "(i, l, u) \<in> in_use N ?D (h\<lparr>delayed := (delayed h)(i := (delayed h i)(k := st))\<rparr>)"
      "heap_rep (h\<lparr>delayed := (delayed h)(i := (delayed h i)(k := st))\<rparr>) N ?D" by blast
  define h1 where "h1 = h\<lparr>delayed := (delayed h)(i := (delayed h i)(k := st))\<rparr>"
  note p = p [folded h1_def]
  from p(3) have u: "(l, u) \<in> alloc_blocks (zones h1 i)" "\<forall>j < 5. u \<notin> set (?D i j)" by (auto simp: in_use_def)
  have u0: "u \<noteq> 0" using p(2) by (cases "u = 0") simp_all
  have "shelf_rep h1 i (?D i)" using p(4) assms(2) unfolding heap_rep_def by blast
  then have mo: "min_obj_size (zones h1 i) = min_obj h" "zone_ready (zones h1 i)" by (simp_all add: h1_def shelf_rep_def)
  from free_at_spec [OF p(4) assms(2) u(1) u0 u(2)] obtain z where
    z: "free_at (int i) (off (zones h1 i) u) h1 = Inr (set_zone h1 i z)" "heap_rep (set_zone h1 i z) N ?D"
      "alloc_blocks z = alloc_blocks (zones h1 i) - {(l, u)}" "shelf z = shelf (zones h1 i)" by blast
  have D: "in_use N D h = in_use N ?D h1 - {(i, l, u)}"
  proof -
    have same: "v = u \<Longrightarrow> (m, v) \<in> alloc_blocks (zones h i) \<Longrightarrow> m = l" for m v
      using alloc_block_unique [OF mo(2) u(1)] by (simp add: h1_def)
    have "b \<in> in_use N D h \<longleftrightarrow> b \<in> in_use N ?D h1 - {(i, l, u)}" for b
    proof (cases b)
      case (fields m l' v)
      have "v \<in> set (D i j) \<longleftrightarrow> v \<in> set (?D i j) \<or> j = k \<and> v = u" for j
        using assms(4) by (cases "j = k") (auto simp: set_list_apply)
      then have "(\<forall>j < 5. v \<notin> set (D i j)) \<longleftrightarrow> (\<forall>j < 5. v \<notin> set (?D i j)) \<and> v \<noteq> u"
        using assms(3) by blast
      then have "(\<forall>j < 5. v \<notin> set (D m j)) \<longleftrightarrow> (\<forall>j < 5. v \<notin> set (?D m j)) \<and> \<not> (m = i \<and> l' = l \<and> v = u)"
        if "m = i" "(l', v) \<in> alloc_blocks (zones h i)"
      proof -
        have "(m = i \<and> l' = l \<and> v = u) \<longleftrightarrow> v = u" using same [of v l'] that by blast
        with \<open>(\<forall>j < 5. v \<notin> set (D i j)) \<longleftrightarrow> _\<close> that(1) show ?thesis by simp
      qed
      moreover have "m \<noteq> i \<Longrightarrow> (\<forall>j < 5. v \<notin> set (D m j)) \<longleftrightarrow> (\<forall>j < 5. v \<notin> set (?D m j)) \<and> \<not> (m = i \<and> l' = l \<and> v = u)"
        by (simp add: set_list_apply)
      moreover have "alloc_blocks (zones h1 m) = alloc_blocks (zones h m)" by (simp add: h1_def)
      ultimately show ?thesis unfolding fields in_use_def mem_Collect_eq prod.case Diff_iff insert_iff empty_iff prod.inject
        by blast
    qed
    then show ?thesis by blast
  qed
  have al: "alloc_blocks z = alloc_blocks (zones h i) - {b. snd b = u}"
  proof -
    have "snd b = u \<longleftrightarrow> b = (l, u)" if "b \<in> alloc_blocks (zones h1 i)" for b
    proof (cases b)
      case (Pair m v)
      with alloc_block_unique [OF mo(2) u(1), of m] that show ?thesis by (cases "v = u") simp_all
    qed
    then show ?thesis unfolding z(3) by (auto simp: h1_def)
  qed
  have "pop_delayed i k h = Inr (of_nat u, h1)" "min_obj h1 = min_obj h" using p(1) by (simp_all add: h1_def)
  moreover have "free_at (int i) (of_nat u * min_obj h) h1 = Inr (set_zone h1 i z)" using z(1) by (simp add: off_def mo(1))
  moreover have "in_use N ?D (set_zone h1 i z) = in_use N D h" unfolding D by (rule in_use_free [OF mo(2) z(3)])
  moreover have "alloc_blocks (zones (set_zone h1 i z) i) = alloc_blocks (zones h i) - {b. snd b = u}" using al by simp
  moreover have "shelf (zones (set_zone h1 i z) i) = shelf (zones h i)" using z(4) by (simp add: h1_def)
  moreover have "\<forall>m. m \<noteq> i \<longrightarrow> zones (set_zone h1 i z) m = zones h m" by (simp add: h1_def)
  moreover have "total_mapped_shelfs (set_zone h1 i z) = total_mapped_shelfs h" by (simp add: h1_def)
  ultimately show ?thesis using p(2) z(2) by blast
qed

text \<open>What emptying \<open>us\<close> of list \<open>k\<close> of shelf \<open>i\<close> comes to.\<close>

definition recycled :: "zheap \<Rightarrow> nat \<Rightarrow> nat list \<Rightarrow> zheap \<Rightarrow> bool" where
  "recycled h i us h' \<longleftrightarrow> alloc_blocks (zones h' i) = alloc_blocks (zones h i) - {b. snd b \<in> set us} \<and>
     shelf (zones h' i) = shelf (zones h i) \<and> (\<forall>m. m \<noteq> i \<longrightarrow> zones h' m = zones h m) \<and>
     total_mapped_shelfs h' = total_mapped_shelfs h"

lemma recycled_none [simp]: "recycled h i [] h"
  by (simp add: recycled_def)

lemma recycled_Cons:
  assumes "alloc_blocks (zones h2 i) = alloc_blocks (zones h i) - {b. snd b = u}" "shelf (zones h2 i) = shelf (zones h i)"
    "\<forall>m. m \<noteq> i \<longrightarrow> zones h2 m = zones h m" "total_mapped_shelfs h2 = total_mapped_shelfs h" "recycled h2 i us h'"
  shows "recycled h i (u # us) h'"
  using assms by (auto simp: recycled_def)

lemma clean_list_spec:
  assumes "heap_rep h N D" "i < N" "k < 5"
  shows "\<exists>h'. clean_list n i k h = Inr h' \<and> heap_rep h' N (set_list D i k (drop n (D i k))) \<and>
    in_use N (set_list D i k (drop n (D i k))) h' = in_use N D h \<and> recycled h i (take n (D i k)) h'"
  using assms
proof (induction n arbitrary: h D)
  case 0
  then show ?case using set_list_same [of D i k] by simp
next
  case (Suc n)
  show ?case
  proof (cases "D i k")
    case Nil
    then show ?thesis using pop_delayed_spec(1) [OF Suc.prems Nil] Suc.prems(1) set_list_same [of D i k "[]"] Nil
      by simp
  next
    case (Cons u us)
    from recycle_one [OF Suc.prems Cons] obtain h1 h2 where
      r: "pop_delayed i k h = Inr (of_nat u, h1)" "min_obj h1 = min_obj h" "of_nat u * min_obj h \<noteq> 0"
        "free_at (int i) (of_nat u * min_obj h) h1 = Inr h2" "heap_rep h2 N (set_list D i k us)"
        "in_use N (set_list D i k us) h2 = in_use N D h"
        "alloc_blocks (zones h2 i) = alloc_blocks (zones h i) - {b. snd b = u}" "shelf (zones h2 i) = shelf (zones h i)"
        "\<forall>m. m \<noteq> i \<longrightarrow> zones h2 m = zones h m" "total_mapped_shelfs h2 = total_mapped_shelfs h" by blast
    from Suc.IH [OF r(5) Suc.prems(2,3)] obtain h' where
      h': "clean_list n i k h2 = Inr h'" "heap_rep h' N (set_list D i k (drop n us))"
        "in_use N (set_list D i k (drop n us)) h' = in_use N D h" "recycled h2 i (take n us) h'"
      unfolding r(6) set_list_twice set_list_at by auto
    from recycled_Cons [OF r(7-10) h'(4)] h'(1-3) r(1-4) show ?thesis by (simp add: Cons)
  qed
qed

lemma drain_list_spec:
  assumes "heap_rep h N D" "i < N" "k < 5"
  shows "\<exists>h'. drain_list i k h = Some (Inr h') \<and> heap_rep h' N (set_list D i k []) \<and>
    in_use N (set_list D i k []) h' = in_use N D h \<and> recycled h i (D i k) h'"
  using assms
proof (induction "D i k" arbitrary: h D)
  case Nil
  then show ?case
    using pop_delayed_spec(1) [OF Nil.prems] set_list_same [of D i k "[]"] by (subst drain_list.simps) simp
next
  case (Cons u us)
  note Du = Cons.hyps(2) [symmetric]
  from recycle_one [OF Cons.prems Du] obtain h1 h2 where
    r: "pop_delayed i k h = Inr (of_nat u, h1)" "min_obj h1 = min_obj h" "of_nat u * min_obj h \<noteq> 0"
      "free_at (int i) (of_nat u * min_obj h) h1 = Inr h2" "heap_rep h2 N (set_list D i k us)"
      "in_use N (set_list D i k us) h2 = in_use N D h"
      "alloc_blocks (zones h2 i) = alloc_blocks (zones h i) - {b. snd b = u}" "shelf (zones h2 i) = shelf (zones h i)"
      "\<forall>m. m \<noteq> i \<longrightarrow> zones h2 m = zones h m" "total_mapped_shelfs h2 = total_mapped_shelfs h" by blast
  have "us = set_list D i k us i k" by simp
  from Cons.hyps(1) [OF this r(5) Cons.prems(2,3)] obtain h' where
    h': "drain_list i k h2 = Some (Inr h')" "heap_rep h' N (set_list D i k [])"
      "in_use N (set_list D i k []) h' = in_use N D h" "recycled h2 i us h'"
    unfolding r(6) set_list_twice set_list_at by auto
  have "drain_list i k h = drain_list i k h2" using r(1-4) by (subst drain_list.simps) (simp add: Let_def)
  with recycled_Cons [OF r(7-10) h'(4)] h'(1-3) show ?case by (simp add: Du)
qed

text \<open>\<open>Free (op, ptr)\<close> in a critical section of epoch \<open>e\<close>.\<close>

lemma heap_FreeOp_eq:
  assumes "heap_rep h N D" "(i, l, u) \<in> in_use N D h" "u \<noteq> 0" "0 \<le> e"
  shows "heap_FreeOp e (heap_ptr h i u) h = push_delayed i (nat ((e + 3) mod 5)) (of_nat u) h"
proof -
  from assms(2) have iu: "i < N" "(l, u) \<in> alloc_blocks (zones h i)" by (auto simp: in_use_def)
  note f = heap_ptr_fields [OF assms(1) iu]
  have o: "opened h N" and r: "shelf_rep h i (D i)" using assms(1) iu(1) by (simp_all add: heap_rep_def)
  from r have z: "zone_ready (zones h i)" "min_obj_size (zones h i) = min_obj h" by (simp_all add: shelf_rep_def)
  then obtain k fls where geom: "zone_geom (zones h i) k" "zone_rep (zones h i) fls {}" by (auto simp: zone_ready_def zone_inv_def)
  have ul: "u < 2 ^ current_zone_level (zones h i)" using iu(2) by (simp add: alloc_blocks_def)
  have "u * 2 ^ k < 2 ^ max_zone_level (zones h i) * 2 ^ k" using geom_unit_lt(5) [OF geom(1) ul] by simp
  then have "off (zones h i) u < max_zone_size (zones h i)"
    using unat_off [OF geom(1) ul] geom(1) unat_power_of_2 [of "max_zone_level (zones h i) + k"]
    by (simp add: zone_geom_def power_add word_less_nat_alt)
  moreover have "off (zones h i) u \<noteq> 0" using off_eq_0_iff [OF geom(1) ul] assms(3) by simp
  ultimately have v: "IsValidOffset (zones h i) (off (zones h i) u)" by (simp add: IsValidOffset_def word_greater_zero_iff)
  have d: "off (zones h i) u div min_obj h = of_nat u" using off_div [OF geom(1) ul] z(2) by simp
  from openedD(6) [OF o iu(1)] obtain sh where sh: "rmb_at h (int i) = Inr sh" "sh_is_open sh" by blast
  show ?thesis
    using openedD(1,4) [OF o] iu(1) f sh v d assms(4)
    by (simp add: heap_FreeOp_def sh_IsValidOffset_def list_of_epoch_def kListCnt_def)
qed

end
