(* ===== verification/Epoch_Zone_Props.thy ===== *)
theory Epoch_Zone_Props
  imports Epoch_Zone_Correct Zone_Coalesce
begin

text \<open>
  The properties of an open \<open>EpochZoneHeap\<close>: allocation over its shelves, clients that allocate and
  free in any order, and the emptying of the delayed lists.
\<close>

section \<open>A heap with one shelf\<close>

definition example_heap :: zheap where
  "example_heap =
     \<lparr>pool_id = 1,
      zpool = \<lparr>p_base = ''/dev/shm'', p_prefix = [], p_id = 1, p_is_open = True, p_meta = ShelfFile ''m'', p_addr = None,
        p_size = 0, p_shelf_size = 4096, p_ms = None\<rparr>,
      gh_ptr = Some 0x100000, rmb = (\<lambda>_. None)(0 := Some \<lparr>sh_is_open = True, sh_file = ShelfFile ''d'', sh_addr = Some 65536\<rparr>),
      rmb_size = (\<lambda>_. 4096), region = None, mapped_addr = (\<lambda>_. None)(0 := Some 0x200000), total_mapped_shelfs = 1,
      min_obj = 64, zh_is_open = True, is_invalid = False, no_bgthread = True, cleaner_start = False,
      cleaner_stop = False, cleaner_running = False, op_in_progress = 0, destroy_in_progress = 0, total_shelfs = 1,
      sz = (\<lambda>_. \<lparr>headersize = 8192, headeroffset = 0, shelfsize = 4096\<rparr>), zones = (\<lambda>_. example_merged),
      delayed = (\<lambda>_ _. empty_stack), mgr = \<lparr>map_ids = [], reverse_map = [], locked = False\<rparr>, os = empty_world\<rparr>"

abbreviation no_lists :: "nat \<Rightarrow> nat \<Rightarrow> nat list" where
  "no_lists \<equiv> \<lambda>_ _. []"

lemma example_heap_rep: "heap_rep example_heap 1 no_lists"
proof -
  have "delayed_ok example_merged empty_stack []" by (simp add: delayed_empty empty_stack_def)
  then show ?thesis
    using example_merged_spec(3,9)
    by (auto simp: heap_rep_def opened_def shelf_rep_def example_heap_def kMaxPoolCount_def push_bit_eq_mult)
qed

lemma example_heap_in_use: "in_use 1 no_lists example_heap = {(0, 0, 0)}"
  by (auto simp: in_use_def example_heap_def example_merged_spec(5))

section \<open>Allocation\<close>

text \<open>What the pointer to a chunk found on shelf \<open>i\<close> says, and what has changed.\<close>

lemma found_pointer:
  assumes "heap_rep h N D" "0 < unat n" "unat n \<le> 2 ^ 63" "heap_rep h' N D" "only_zones h h'"
    and u: "i < N" "found_chunk h 0 n h' i u" "ptr = heap_ptr h i u"
  shows "i < N \<and> u \<noteq> 0 \<and>
    DecodePoolId (DecodeShelfId ptr) = pool_id h \<and> unat (DecodeShelfIndex (DecodeShelfId ptr)) = i + 1 \<and>
    unat (DecodeOffset ptr) = u * unat (min_obj h) \<and> unat n \<le> 2 ^ heap_level h n * unat (min_obj h) \<and>
    in_use N D h' = insert (i, heap_level h n, u) (in_use N D h) \<and>
    (\<forall>b \<in> alloc_blocks (zones h i). span (heap_level h n, u) \<inter> span b = {}) \<and>
    (\<forall>a. shelf (zones h' i) a = (if unat (DecodeOffset ptr) \<le> a \<and>
       a < unat (DecodeOffset ptr) + 2 ^ heap_level h n * unat (min_obj h) then 0 else shelf (zones h i) a)) \<and>
    (\<forall>j. j \<noteq> i \<longrightarrow> shelf (zones h' j) = shelf (zones h j)) \<and> (\<forall>j < i. no_free_from (zones h' j) (heap_level h n))"
proof -
  let ?l = "heap_level h n"
  from u(2) have f: "u \<noteq> 0" "alloc_done (zones h i) (next_power_of_two (max n (min_obj h))) ?l (zones h' i) u"
    "\<And>m. m \<noteq> i \<Longrightarrow> shelf (zones h' m) = shelf (zones h m)" "\<And>m. m < i \<Longrightarrow> no_free_from (zones h' m) ?l"
    by (auto simp: found_chunk_def)
  have "(?l, u) \<in> alloc_blocks (zones h' i)" using f(1,2) by (simp add: alloc_done_def)
  note p = heap_ptr_fields [OF assms(4) u(1) this, unfolded only_zones_fields(8) [OF assms(5)], folded u(3)]
  have z: "zone_inv (zones h i)" "min_obj_size (zones h i) = min_obj h" "min_obj_size (zones h' i) = min_obj h"
    using assms(1) u(1) f(2) by (auto simp: heap_rep_def shelf_rep_def zone_ready_def alloc_done_def)
  have lv: "?l = level_of (zones h i) n" by (simp add: heap_level_def level_of_def z(2))
  note size = level_of_spec [OF z(1) assms(2,3), folded lv, unfolded z(2)]
  from z(1) f(2) obtain k fls where geom: "zone_geom (zones h' i) k" "zone_rep (zones h' i) fls {}"
    by (auto simp: alloc_done_def zone_ready_def zone_inv_def)
  have ul: "u < 2 ^ current_zone_level (zones h' i)" using f(1,2) by (simp add: alloc_done_def)
  have off: "off (zones h i) u = off (zones h' i) u" "unat (off (zones h' i) u) = u * unat (min_obj h)"
    using z unat_off [OF geom(1) ul] unat_min_obj_size [OF geom(1)] by (simp_all add: off_def)
  have "shelf (zones h' i) a = (if unat (DecodeOffset ptr) \<le> a \<and>
      a < unat (DecodeOffset ptr) + 2 ^ ?l * unat (min_obj h) then 0 else shelf (zones h i) a)" for a
    using f(1,2) size(3) by (simp add: alloc_done_def zero_chunk_def p(1) off(1))
  moreover have "DecodePoolId (DecodeShelfId ptr) = pool_id h" using p(3) only_zones_fields(1) [OF assms(5)] by simp
  moreover have "unat (DecodeOffset ptr) = u * unat (min_obj h)" using p(1) off(2) by simp
  moreover have "unat n \<le> 2 ^ ?l * unat (min_obj h)" using size(1) by simp
  moreover have "\<forall>j. j \<noteq> i \<longrightarrow> shelf (zones h' j) = shelf (zones h j)" "\<forall>j < i. no_free_from (zones h' j) ?l"
    using f(3,4) by simp_all
  moreover have "\<forall>b \<in> alloc_blocks (zones h i). span (?l, u) \<inter> span b = {}"
    using new_block_apart(3) [OF f(2,1)] by simp
  moreover note u(1) f(1) p(2) found_in_use(2) [OF assms(1) u(1,2)]
  ultimately show ?thesis
    by - ((rule conjI, assumption)+, (assumption | rule allI | rule conjI)+)
qed

text \<open>C10: on an open heap \<open>Alloc\<close> returns. A nonzero result is a pointer to a fresh chunk: it decodes to
  the heap's pool, the shelf and the chunk's offset; the chunk holds the request, is disjoint from all
  chunks in use and from those waiting on delayed lists, is zeroed, no other byte of any shelf changes, and no
  shelf before it had a chunk of the size. The result 0 means that no shelf has one, and nothing changed hands.\<close>

theorem heap_alloc_correct:
  assumes "heap_rep h N D" "0 < unat n" "unat n \<le> 2 ^ 63"
  shows "\<exists>h' ptr. heap_Alloc n h = Some (Inr (h', ptr)) \<and> heap_rep h' N D \<and>
    (if ptr = 0
     then in_use N D h' = in_use N D h \<and> (\<forall>i. shelf (zones h' i) = shelf (zones h i)) \<and>
       (\<forall>i < N. no_free_from (zones h i) (heap_level h n) \<and> no_free_from (zones h' i) (heap_level h n))
     else \<exists>i u. let l = heap_level h n in i < N \<and> u \<noteq> 0 \<and>
       DecodePoolId (DecodeShelfId ptr) = pool_id h \<and> unat (DecodeShelfIndex (DecodeShelfId ptr)) = i + 1 \<and>
       unat (DecodeOffset ptr) = u * unat (min_obj h) \<and> unat n \<le> 2 ^ l * unat (min_obj h) \<and>
       in_use N D h' = insert (i, l, u) (in_use N D h) \<and>
       (\<forall>b \<in> alloc_blocks (zones h i). span (l, u) \<inter> span b = {}) \<and>
       (\<forall>a. shelf (zones h' i) a = (if unat (DecodeOffset ptr) \<le> a \<and>
          a < unat (DecodeOffset ptr) + 2 ^ l * unat (min_obj h) then 0 else shelf (zones h i) a)) \<and>
       (\<forall>j. j \<noteq> i \<longrightarrow> shelf (zones h' j) = shelf (zones h j)) \<and> (\<forall>j < i. no_free_from (zones h' j) l))"
proof -
  from heap_Alloc_spec [OF assms(1), of n] obtain h' ptr where h': "heap_Alloc n h = Some (Inr (h', ptr))" "heap_rep h' N D"
    "only_zones h h'" "heap_alloc_done h N n h' ptr" by blast
  show ?thesis
  proof (cases "ptr = 0")
    case True
    then have "no_chunk h 0 N n h'" using h'(4) by (simp add: heap_alloc_done_def)
    then show ?thesis using True h'(1,2) by (auto simp: no_chunk_def in_use_def)
  next
    case False
    then obtain i u where u: "i < N" "found_chunk h 0 n h' i u" "ptr = heap_ptr h i u"
      using h'(4) by (auto simp: heap_alloc_done_def)
    from h'(1,2) False show ?thesis
      by - (rule exI [of _ h'], rule exI [of _ ptr], simp only: if_False Let_def simp_thms,
        rule exI [of _ i], rule exI [of _ u], rule found_pointer [OF assms h'(2,3) u])
  qed
qed

lemma example_heap_alloc:
  "\<exists>h' u. heap_Alloc 100 example_heap = Some (Inr (h', heap_ptr h' 0 u)) \<and> u \<noteq> 0 \<and> heap_ptr h' 0 u \<noteq> 0 \<and>
    heap_rep h' 1 no_lists \<and> in_use 1 no_lists h' = {(0, 1, u), (0, 0, 0)} \<and> alloc_blocks (zones h' 0) = {(1, u), (0, 0)}"
proof -
  have lv: "heap_level example_heap 100 = 1"
    using example_level by (simp add: heap_level_def level_of_def example_heap_def example_merged_spec(9))
  have z: "zones example_heap 0 = example_merged" by (simp add: example_heap_def)
  from heap_Alloc_spec [OF example_heap_rep, of 100] obtain h' ptr where
    h': "heap_Alloc 100 example_heap = Some (Inr (h', ptr))" "heap_rep h' 1 no_lists" "only_zones example_heap h'"
      "heap_alloc_done example_heap 1 100 h' ptr" by blast
  have "\<not> no_free_from example_merged 1"
  proof -
    have "\<not> no_free_from example_merged 5"
      by (rule coalesced_alloc [OF example_merged_spec(3,4), of 5 32])
        (use example_merged_spec(7) example_free_region in simp_all)
    then show ?thesis unfolding no_free_from_def by (meson order_trans one_le_numeral)
  qed
  then have p: "ptr \<noteq> 0"
    using h'(4) by (auto simp: heap_alloc_done_def no_chunk_def lv z)
  then obtain u where u: "ptr = heap_ptr example_heap 0 u" "found_chunk example_heap 0 100 h' 0 u"
    using h'(4) by (auto simp: heap_alloc_done_def)
  have "alloc_blocks (zones h' 0) = {(1, u), (0, 0)}" "u \<noteq> 0"
    using u(2) by (simp_all add: found_chunk_def alloc_done_def lv z example_merged_spec(5))
  moreover have "in_use 1 no_lists h' = {(0, 1, u), (0, 0, 0)}"
    using found_in_use(2) [OF example_heap_rep _ u(2)] unfolding lv example_heap_in_use by simp
  ultimately show ?thesis
    using h'(1,2) p u(1) only_zones_fields(8) [OF h'(3)] by auto
qed

theorem heap_alloc_correct_witness:
  "\<exists>h' ptr. heap_Alloc 100 example_heap = Some (Inr (h', ptr)) \<and> heap_rep h' 1 no_lists \<and> ptr \<noteq> 0 \<and>
    DecodePoolId (DecodeShelfId ptr) = 1 \<and> DecodeShelfIndex (DecodeShelfId ptr) = 1"
proof -
  from heap_alloc_correct [OF example_heap_rep, of 100] obtain h' ptr where
    h': "heap_Alloc 100 example_heap = Some (Inr (h', ptr))" "heap_rep h' 1 no_lists"
      "ptr \<noteq> 0 \<Longrightarrow> \<exists>i. i < 1 \<and> DecodePoolId (DecodeShelfId ptr) = pool_id example_heap \<and>
        unat (DecodeShelfIndex (DecodeShelfId ptr)) = i + 1"
    by (auto simp: Let_def split: if_splits)
  moreover have "ptr \<noteq> 0" using example_heap_alloc h'(1) by auto
  moreover have "pool_id example_heap = 1" by (simp add: example_heap_def)
  ultimately show ?thesis by (auto simp: word_unat_eq_iff)
qed

section \<open>Clients of the heap\<close>

text \<open>C3: a client that allocates and frees in any order, freeing only what it holds, never faults and is always
  answered; the heap stays well formed, and the client's pointers name distinct chunks that overlap neither each
  other nor any chunk that others have in use or that waits on a delayed list.\<close>

theorem heap_programs_safe:
  assumes "heap_rep h N D"
  shows "\<exists>ps bs h'. serve heap_Alloc heap_Free 0 rs ([], h) = Some (Inr (ps, h')) \<and> heap_rep h' N D \<and>
    list_all2 (heap_names h') ps bs \<and> distinct bs \<and> set bs \<inter> in_use N D h = {} \<and>
    in_use N D h' = in_use N D h \<union> set bs \<and>
    (\<forall>b \<in> set bs. \<forall>c \<in> in_use N D h'. b \<noteq> c \<longrightarrow> heap_apart b c)"
proof -
  have "heap_client.holds N D (in_use N D h) [] [] h" using assms by (simp add: heap_client.holds_def)
  from heap_client.serve_holds [OF this, of rs] show ?thesis
    unfolding heap_client.holds_def by blast
qed

theorem heap_programs_safe_witness:
  "\<exists>ps bs h'. serve heap_Alloc heap_Free 0 [New 100, New 4000, New 64, Delete 0, Delete 5, New 0] ([], example_heap) = Some (Inr (ps, h')) \<and>
    heap_rep h' 1 no_lists \<and> list_all2 (heap_names h') ps bs \<and> distinct bs \<and> in_use 1 no_lists h' = insert (0, 0, 0) (set bs)"
proof -
  from heap_programs_safe [OF example_heap_rep, of "[New 100, New 4000, New 64, Delete 0, Delete 5, New 0]"]
  obtain ps bs h' where "serve heap_Alloc heap_Free 0 [New 100, New 4000, New 64, Delete 0, Delete 5, New 0] ([], example_heap) = Some (Inr (ps, h'))"
    "heap_rep h' 1 no_lists" "list_all2 (heap_names h') ps bs" "distinct bs"
    "in_use 1 no_lists h' = in_use 1 no_lists example_heap \<union> set bs" by blast
  then show ?thesis unfolding example_heap_in_use by auto
qed

section \<open>Emptying the delayed lists\<close>

lemma heap_rep_cong:
  assumes "heap_rep h N D" "\<And>i k. i < N \<Longrightarrow> k < 5 \<Longrightarrow> D i k = D' i k"
  shows "heap_rep h N D'" "in_use N D' h = in_use N D h"
  using assms by (auto simp: heap_rep_def shelf_rep_def in_use_def)

text \<open>The zones after the lists \<open>ls\<close> of the ghost state \<open>D\<close> were emptied.\<close>

definition emptied :: "(nat \<times> nat) list \<Rightarrow> (nat \<Rightarrow> nat \<Rightarrow> nat list) \<Rightarrow> nat \<Rightarrow> nat \<Rightarrow> nat list" where
  "emptied ls D i k = (if (i, k) \<in> set ls then [] else D i k)"

definition waiting :: "(nat \<times> nat) list \<Rightarrow> (nat \<Rightarrow> nat \<Rightarrow> nat list) \<Rightarrow> nat \<Rightarrow> nat set" where
  "waiting ls D i = (\<Union>k \<in> {k. (i, k) \<in> set ls}. set (D i k))"

lemma drain_lists_spec:
  assumes "heap_rep h N D" "\<forall>(i, k) \<in> set ls. i < N \<and> k < 5"
  shows "\<exists>h'. drain_lists ls h = Some (Inr h') \<and> heap_rep h' N (emptied ls D) \<and>
    in_use N (emptied ls D) h' = in_use N D h \<and>
    (\<forall>i. alloc_blocks (zones h' i) = alloc_blocks (zones h i) - {b. snd b \<in> waiting ls D i} \<and>
      shelf (zones h' i) = shelf (zones h i))"
  using assms
proof (induction ls arbitrary: h D)
  case Nil
  have "emptied [] D = D" by (simp add: emptied_def fun_eq_iff)
  with Nil show ?case by (simp add: waiting_def)
next
  case (Cons x ls)
  obtain i k where x: "x = (i, k)" by (cases x)
  with Cons.prems have ik: "i < N" "k < 5" by simp_all
  from drain_list_spec [OF Cons.prems(1) ik] obtain h1 where
    h1: "drain_list i k h = Some (Inr h1)" "heap_rep h1 N (set_list D i k [])" "in_use N (set_list D i k []) h1 = in_use N D h"
      "recycled h i (D i k) h1" by blast
  from Cons.IH [OF h1(2)] Cons.prems(2) obtain h' where
    h': "drain_lists ls h1 = Some (Inr h')" "heap_rep h' N (emptied ls (set_list D i k []))"
      "in_use N (emptied ls (set_list D i k [])) h' = in_use N D h"
      "\<forall>m. alloc_blocks (zones h' m) = alloc_blocks (zones h1 m) - {b. snd b \<in> waiting ls (set_list D i k []) m} \<and>
        shelf (zones h' m) = shelf (zones h1 m)" unfolding h1(3) by auto
  have e: "emptied ls (set_list D i k []) = emptied (x # ls) D"
    by (auto simp: emptied_def fun_eq_iff set_list_apply x)
  have w: "waiting (x # ls) D m = waiting ls (set_list D i k []) m \<union> (if m = i then set (D i k) else {})" for m
    by (auto simp: waiting_def set_list_apply x split: if_splits)
  have "alloc_blocks (zones h' m) = alloc_blocks (zones h m) - {b. snd b \<in> waiting (x # ls) D m} \<and>
      shelf (zones h' m) = shelf (zones h m)" for m
    using h'(4) h1(4) w [of m] by (cases "m = i") (auto simp: recycled_def)
  with h1(1) h'(1-3) show ?case unfolding e x by simp
qed

text \<open>C32: \<open>OfflineFree\<close> returns whatever the lists hold: all delayed lists are empty after it, the chunks that
  waited on them (and no others) are free again, and no byte of a shelf changes.\<close>

theorem heap_offline_free:
  assumes "heap_rep h N D"
  shows "\<exists>h'. heap_OfflineFree h = Some (Inr h') \<and> heap_rep h' N no_lists \<and> in_use N no_lists h' = in_use N D h \<and>
    (\<forall>i < N. alloc_blocks (zones h' i) = alloc_blocks (zones h i) - {b. \<exists>k < 5. snd b \<in> set (D i k)} \<and>
      shelf (zones h' i) = shelf (zones h i))"
proof -
  have o: "opened h N" using assms by (simp add: heap_rep_def)
  let ?ls = "List.product [0..<N] [0..<5]"
  from drain_lists_spec [OF assms, of ?ls] obtain h' where
    h': "drain_lists ?ls h = Some (Inr h')" "heap_rep h' N (emptied ?ls D)" "in_use N (emptied ?ls D) h' = in_use N D h"
      "\<forall>i. alloc_blocks (zones h' i) = alloc_blocks (zones h i) - {b. snd b \<in> waiting ?ls D i} \<and> shelf (zones h' i) = shelf (zones h i)"
    by auto
  have "nat (int N) = N" "nat kListCnt = 5" by (simp_all add: kListCnt_def)
  then have "heap_OfflineFree h = Some (Inr h')"
    using openedD(1,4) [OF o] opened_all_mapped(2) [OF o] h'(1) by (simp add: heap_OfflineFree_def)
  moreover have "waiting ?ls D i = {u. \<exists>k < 5. u \<in> set (D i k)}" if "i < N" for i
    using that by (auto simp: waiting_def)
  moreover have "emptied ?ls D i k = no_lists i k" if "i < N" "k < 5" for i k using that by (simp add: emptied_def)
  note heap_rep_cong [OF h'(2) this]
  ultimately show ?thesis using h'(3,4) by auto
qed

theorem heap_offline_free_witness:
  "\<exists>h1 ptr h2 h3. heap_Alloc 100 example_heap = Some (Inr (h1, ptr)) \<and> card (alloc_blocks (zones h1 0)) = 2 \<and>
    heap_FreeOp 2 ptr h1 = Inr h2 \<and> card (alloc_blocks (zones h2 0)) = 2 \<and>
    heap_OfflineFree h2 = Some (Inr h3) \<and> alloc_blocks (zones h3 0) = {(0, 0)}"
proof -
  from example_heap_alloc obtain h1 u where h1: "heap_Alloc 100 example_heap = Some (Inr (h1, heap_ptr h1 0 u))" "u \<noteq> 0"
    "heap_rep h1 1 no_lists" "in_use 1 no_lists h1 = {(0, 1, u), (0, 0, 0)}" "alloc_blocks (zones h1 0) = {(1, u), (0, 0)}" by (elim exE conjE)
  have iu: "(0, 1, u) \<in> in_use 1 no_lists h1" using h1(4) by simp
  have f: "heap_FreeOp 2 (heap_ptr h1 0 u) h1 = push_delayed 0 0 (of_nat u) h1"
    using heap_FreeOp_eq [OF h1(3) iu h1(2), of 2] by simp
  from push_delayed_spec [OF h1(3) iu h1(2), of 0] obtain e st where
    p: "push_delayed 0 0 (of_nat u) h1 = Inr (h1\<lparr>zones := (zones h1)(0 := (zones h1 0)\<lparr>zentries := e\<rparr>),
        delayed := (delayed h1)(0 := (delayed h1 0)(0 := st))\<rparr>)"
      "alloc_blocks ((zones h1 0)\<lparr>zentries := e\<rparr>) = alloc_blocks (zones h1 0)"
      "heap_rep (h1\<lparr>zones := (zones h1)(0 := (zones h1 0)\<lparr>zentries := e\<rparr>),
        delayed := (delayed h1)(0 := (delayed h1 0)(0 := st))\<rparr>) 1 (set_list no_lists 0 0 [u])" by fastforce
  define h2 where "h2 = h1\<lparr>zones := (zones h1)(0 := (zones h1 0)\<lparr>zentries := e\<rparr>),
    delayed := (delayed h1)(0 := (delayed h1 0)(0 := st))\<rparr>"
  have h2: "push_delayed 0 0 (of_nat u) h1 = Inr h2" "alloc_blocks (zones h2 0) = alloc_blocks (zones h1 0)"
    "heap_rep h2 1 (set_list no_lists 0 0 [u])" using p by (simp_all add: h2_def)
  from heap_offline_free [OF h2(3)] obtain h3 where h3: "heap_OfflineFree h2 = Some (Inr h3)"
    "alloc_blocks (zones h3 0) = alloc_blocks (zones h2 0) - {b. \<exists>k < 5. snd b \<in> set (set_list no_lists 0 0 [u] 0 k)}" by auto
  have "alloc_blocks (zones h3 0) = {(0, 0)}"
    unfolding h3(2) h2(2) h1(5) using h1(2) by (auto simp: set_list_apply split: if_splits)
  then show ?thesis using h1(1,5) f h2(1,2) h3(1) h1(2) by (intro exI conjI) auto
qed

end
