(* ===== verification/Delayed_Free.thy ===== *)
theory Delayed_Free
  imports Epoch_Zone_Props Epoch_Props
begin

text \<open>
  Delayed free: the heap (\<open>src/allocator/epoch_zone_heap.cc\<close>) and the epoch protocol
  (\<open>src/shelf_usage/epoch_manager_impl.cc\<close>) together. Processes allocate, free at once, or free in a
  critical section; the background workers recycle what waits on the list of the epoch they run in.
\<close>

section \<open>Processes and the heap\<close>

text \<open>
  All processes have the same shelves mapped. The ghost \<open>queued\<close> are the contents of the delayed lists,
  and \<open>put_log\<close> records each delayed free: shelf, chunk, epoch, and the sections open at that time.
  \<open>recycle\<close> is any part of a worker's loop over one list, so that other steps come between two parts.
  The parameter \<open>late\<close> is the one of \<open>estep\<close>: the code releases the slot of a participant that timed out
  without a look at who owns the slot by then, which is \<open>late = True\<close>; with \<open>late = False\<close> a slot is
  released only while its owner is dead. All that is shown of the system below is about \<open>dreach False\<close>; with
  late releases the frontier can run away from an open section (\<open>late_release_unsafe\<close>), and a chunk is recycled
  three epochs after its free whatever section is still open.
\<close>

record dsys =
  es :: esys
  hp :: zheap
  queued :: "nat \<Rightarrow> nat \<Rightarrow> nat list"
  put_log :: "(nat \<times> nat \<times> epoch \<times> (int \<times> nat) set) set"

definition open_sections :: "esys \<Rightarrow> (int \<times> nat) set" where
  "open_sections s = {(q, m). in_section s q m}"

definition in_op :: "esys \<Rightarrow> int \<Rightarrow> bool" where
  "in_op s p \<longleftrightarrow> (\<exists>m. in_section s p m) \<and> phase (procs s p) = Running"

definition epoch_list :: "epoch \<Rightarrow> nat" where
  "epoch_list e = nat (e mod kListCnt)"

inductive dstep :: "bool \<Rightarrow> nat \<Rightarrow> dsys \<Rightarrow> dsys \<Rightarrow> bool" for late N where
  protocol: "estep late (es s) t \<Longrightarrow> dstep late N s (s\<lparr>es := t\<rparr>)"
| alloc: "heap_Alloc n (hp s) = Some (Inr (h, ptr)) \<Longrightarrow> dstep late N s (s\<lparr>hp := h\<rparr>)"
| free_now: "\<lbrakk>(i, l, u) \<in> in_use N (queued s) (hp s); u \<noteq> 0; heap_Free (heap_ptr (hp s) i u) (hp s) = Inr h\<rbrakk> \<Longrightarrow>
    dstep late N s (s\<lparr>hp := h\<rparr>)"
| free_later: "\<lbrakk>in_op (es s) p; e = reported_by (es s) p; (i, l, u) \<in> in_use N (queued s) (hp s); u \<noteq> 0;
      heap_FreeOp e (heap_ptr (hp s) i u) (hp s) = Inr h; k = epoch_list (e + 3)\<rbrakk> \<Longrightarrow>
    dstep late N s (s\<lparr>hp := h, queued := set_list (queued s) i k (u # queued s i k),
      put_log := insert (i, u, e, open_sections (es s)) (put_log s)\<rparr>)"
| recycle: "\<lbrakk>in_op (es s) p; e = reported_by (es s) p; i < N; n \<le> kFreeCnt; list_of_epoch e = Inr k;
      clean_list n i k (hp s) = Inr h\<rbrakk> \<Longrightarrow>
    dstep late N s (s\<lparr>hp := h, queued := set_list (queued s) i k (drop n (queued s i k))\<rparr>)"

inductive dreach :: "bool \<Rightarrow> nat \<Rightarrow> dsys \<Rightarrow> bool" for late N where
  init: "heap_rep h N no_lists \<Longrightarrow> dreach late N \<lparr>es = einit, hp = h, queued = no_lists, put_log = {}\<rparr>"
| step: "\<lbrakk>dreach late N s; dstep late N s s'\<rbrakk> \<Longrightarrow> dreach late N s'"

section \<open>The invariant\<close>

definition guarded :: "dsys \<Rightarrow> nat \<times> nat \<times> epoch \<times> (int \<times> nat) set \<Rightarrow> bool" where
  "guarded s x = (case x of (i, u, e, S) \<Rightarrow> e \<le> frontier (ev (es s)) \<and>
     (\<forall>(q, m) \<in> S. m \<le> sect (procs (es s) q) \<and> (in_section (es s) q m \<longrightarrow>
        section_epoch (es s) q \<le> e + 1 \<and> u \<in> set (queued s i (epoch_list (e + 3))))))"

definition dinv :: "nat \<Rightarrow> dsys \<Rightarrow> bool" where
  "dinv N s \<longleftrightarrow> einv (es s) \<and> crit_ok (es s) \<and> heap_rep (hp s) N (queued s) \<and> (\<forall>x \<in> put_log s. fst x < N \<and> guarded s x)"

lemma epoch_list_lt: "epoch_list e < 5"
  by (simp add: epoch_list_def kListCnt_def nat_less_iff)

lemma epoch_list_of: "list_of_epoch e = Inr k \<Longrightarrow> k = epoch_list e"
  by (auto simp: list_of_epoch_def epoch_list_def split: if_splits)

lemma in_opD:
  assumes "einv s" "crit_ok s" "in_op s p"
  shows "2 \<le> reported_by s p" "reported_by s p \<le> frontier (ev s)" "frontier (ev s) \<le> reported_by s p + 1"
proof -
  from assms(3) obtain m where m: "in_section s p m" "phase (procs s p) = Running" by (auto simp: in_op_def)
  note b = section_bounds [OF assms(1,2) m(1)]
  then show "2 \<le> reported_by s p" "reported_by s p \<le> frontier (ev s)" "frontier (ev s) \<le> reported_by s p + 1"
    using b(4) [OF m(2)] by simp_all
qed

text \<open>The worker's list is never the list of a chunk that a section still guards.\<close>

lemma lists_differ:
  assumes "e \<le> F" "F \<le> e' + 1" "e' \<le> F" "v \<le> e + 1" "F \<le> v + 1"
  shows "epoch_list e' \<noteq> epoch_list (e + 3)"
proof -
  have "\<exists>d. e + 3 = e' + d \<and> 1 \<le> d \<and> d \<le> 4" using assms by (intro exI [of _ "e + 3 - e'"]) simp
  then obtain d where d: "e + 3 = e' + d" "1 \<le> d" "d \<le> 4" by blast
  then have "\<not> 5 dvd d" using zdvd_not_zless [of d 5] by simp
  then have "(e' + d) mod 5 \<noteq> e' mod 5" by (simp add: mod_eq_dvd_iff)
  then show ?thesis unfolding d(1) epoch_list_def kListCnt_def by (simp add: nat_eq_iff)
qed

lemma guarded_lists:
  assumes "guarded s x" "es s' = es s"
    "\<And>q m. \<lbrakk>(q, m) \<in> snd (snd (snd x)); in_section (es s) q m;
       fst (snd x) \<in> set (queued s (fst x) (epoch_list (fst (snd (snd x)) + 3)))\<rbrakk> \<Longrightarrow>
       fst (snd x) \<in> set (queued s' (fst x) (epoch_list (fst (snd (snd x)) + 3)))"
  shows "guarded s' x"
  using assms by (fastforce simp: guarded_def split: prod.splits)

lemma guarded_protocol:
  assumes "estep False (es s) t" "einv (es s)" "crit_ok (es s)" "guarded s x"
  shows "guarded (s\<lparr>es := t\<rparr>) x"
proof (cases x)
  case (fields i u e S)
  have "m \<le> sect (procs t q) \<and> (in_section t q m \<longrightarrow> section_epoch t q \<le> e + 1 \<and> u \<in> set (queued s i (epoch_list (e + 3))))"
    if "(q, m) \<in> S" for q m
  proof -
    have old: "m \<le> sect (procs (es s) q)" "in_section (es s) q m \<Longrightarrow>
        section_epoch (es s) q \<le> e + 1 \<and> u \<in> set (queued s i (epoch_list (e + 3)))"
      using assms(4) that by (auto simp: guarded_def fields)
    have "in_section (es s) q m \<and> section_epoch t q = section_epoch (es s) q" if "in_section t q m"
      using section_step [OF assms(1-3) that] old(1) by auto
    with old sect_mono [OF assms(1), of q] show ?thesis by (auto intro: order_trans)
  qed
  moreover have "e \<le> frontier (ev t)" using assms(4) frontier_mono [OF assms(1)] by (simp add: guarded_def fields)
  ultimately show ?thesis by (auto simp: guarded_def fields)
qed

lemma dinv_step:
  assumes "dstep False N s s'" "dinv N s"
  shows "dinv N s'"
proof -
  from assms(2) have I: "einv (es s)" "crit_ok (es s)" "heap_rep (hp s) N (queued s)"
    "\<And>x. x \<in> put_log s \<Longrightarrow> fst x < N \<and> guarded s x" by (auto simp: dinv_def)
  from assms(1) show ?thesis
  proof cases
    case (protocol t)
    then show ?thesis
      using I einv_step [OF protocol(2) I(1)] crit_ok_step [OF protocol(2) I(2)] guarded_protocol [OF protocol(2) I(1,2)]
      by (simp add: dinv_def)
  next
    case (alloc n h ptr)
    have "heap_rep h N (queued s)" using heap_Alloc_spec [OF I(3), of n] alloc(2) by auto
    then show ?thesis using I guarded_lists [of s _ s'] alloc(1) by (auto simp: dinv_def)
  next
    case (free_now i l u h)
    have "heap_rep h N (queued s)" using heap_Free_spec [OF I(3) free_now(2,3)] free_now(4) by auto
    then show ?thesis using I guarded_lists [of s _ s'] free_now(1) by (auto simp: dinv_def)
  next
    case (free_later p e i l u h k)
    note e = in_opD [OF I(1,2) free_later(2), folded free_later(3)]
    have k: "k = nat ((e + 3) mod 5)" "k < 5" using free_later(7) epoch_list_lt by (simp_all add: epoch_list_def kListCnt_def)
    have "heap_FreeOp e (heap_ptr (hp s) i u) (hp s) = push_delayed i k (of_nat u) (hp s)"
      unfolding k(1) using heap_FreeOp_eq [OF I(3) free_later(4,5)] e(1) by simp
    then have h: "heap_rep h N (set_list (queued s) i k (u # queued s i k))"
      using push_delayed_spec [OF I(3) free_later(4,5) k(2)] free_later(6) by auto
    have new: "m \<le> sect (procs (es s) q) \<and> section_epoch (es s) q \<le> e + 1" if "in_section (es s) q m" for q m
      using section_bounds(2) [OF I(1,2) that] e(3) that by (auto simp: in_section_def)
    have "guarded s' x" if "x \<in> put_log s" for x
      by (rule guarded_lists [of s]) (use I(4) [OF that] free_later(1) in \<open>auto simp: set_list_apply\<close>)
    moreover have "guarded s' (i, u, e, open_sections (es s))"
      using new e(2) free_later(1,7) by (auto simp: guarded_def open_sections_def set_list_apply)
    moreover have "i < N" using free_later(4) by (simp add: in_use_def)
    ultimately show ?thesis using I h free_later(1) by (auto simp: dinv_def)
  next
    case (recycle p e i n k h)
    note e = in_opD [OF I(1,2) recycle(2), folded recycle(3)]
    have k: "k = epoch_list e" using epoch_list_of [OF recycle(6)] .
    have h: "heap_rep h N (set_list (queued s) i k (drop n (queued s i k)))"
      using clean_list_spec [OF I(3) recycle(4), of k n] recycle(7) epoch_list_lt k by auto
    have "guarded s' x" if x: "x \<in> put_log s" for x
    proof (cases x)
      case (fields j u e' S)
      have g: "e' \<le> frontier (ev (es s))" "\<And>q m. (q, m) \<in> S \<Longrightarrow> in_section (es s) q m \<Longrightarrow> section_epoch (es s) q \<le> e' + 1"
        using I(4) [OF x] by (auto simp: guarded_def fields)
      have differ: "epoch_list e \<noteq> epoch_list (e' + 3)" if "(q, m) \<in> S" "in_section (es s) q m" for q m
        using lists_differ [OF g(1) e(3,2) g(2) [OF that] section_bounds(3) [OF I(1,2) that(2)]] .
      have keep: "u \<in> set (queued s' j (epoch_list (e' + 3)))"
        if "(q, m) \<in> S" "in_section (es s) q m" "u \<in> set (queued s j (epoch_list (e' + 3)))" for q m
        using that(3) differ [OF that(1,2)] k by (auto simp: recycle(1) set_list_apply)
      have "guarded s x" "es s' = es s" using I(4) [OF x] by (simp_all add: recycle(1))
      then show ?thesis by (rule guarded_lists) (use keep in \<open>simp add: fields\<close>)
    qed
    then show ?thesis using I h recycle(1) by (auto simp: dinv_def)
  qed
qed

lemma dreach_dinv: "dreach False N s \<Longrightarrow> dinv N s"
proof (induction rule: dreach.induct)
  case (init h)
  then show ?case using einv_init ereach_crit_ok [OF ereach.init [of False]] by (simp add: dinv_def)
qed (rule dinv_step)

section \<open>Safety\<close>

lemma queued_allocated:
  assumes "heap_rep h N D" "i < N" "k < 5" "u \<in> set (D i k)"
  shows "\<exists>l. (l, u) \<in> alloc_blocks (zones h i) \<and> (i, l, u) \<notin> in_use N D h"
proof -
  have "delayed_ok (zones h i) (delayed h i k) (D i k)" using assms(1-3) by (simp add: heap_rep_def shelf_rep_def)
  then obtain l where "(l, u) \<in> alloc_blocks (zones h i)" using assms(4) by (auto simp: delayed_ok_def)
  then show ?thesis using assms(3,4) by (auto simp: in_use_def)
qed

lemma alloc_apart:
  assumes "heap_rep h N D" "heap_Alloc n h = Some (Inr (h', ptr))" "ptr \<noteq> 0" "(l, u) \<in> alloc_blocks (zones h i)"
  shows "\<exists>j v. ptr = heap_ptr h' j v \<and> heap_apart (j, heap_level h n, v) (i, l, u)"
proof -
  from heap_Alloc_spec [OF assms(1), of n] assms(2) have h': "only_zones h h'" "heap_alloc_done h N n h' ptr" by auto
  then obtain j v where v: "ptr = heap_ptr h j v" "found_chunk h 0 n h' j v"
    using assms(3) by (auto simp: heap_alloc_done_def)
  then have "v \<noteq> 0" "alloc_done (zones h j) (next_power_of_two (max n (min_obj h))) (heap_level h n) (zones h' j) v"
    by (simp_all add: found_chunk_def)
  from new_block_apart(3) [OF this(2,1)] assms(4)
  have "heap_apart (j, heap_level h n, v) (i, l, u)" by (simp add: heap_apart_def blocks_apart_def)
  then show ?thesis using v(1) only_zones_fields(8) [OF h'(1)] by (intro exI [of _ j] exI [of _ v]) simp
qed

text \<open>C2: a chunk freed in a critical section stays out of circulation as long as any critical section is open that
  was open when it was freed: it is still allocated and not in use by anyone, so that no \<open>Alloc\<close>, of any process,
  gives out a byte of it. The heap stays well formed. This holds in the interleavings of the protocol, allocations, frees and
  workers in which a slot is released only while its owner is dead (\<open>dreach False\<close>), as for the bound on open sections it
  rests on; \<open>release_slot\<close> in the code does not check that.\<close>

theorem delayed_free_safe:
  assumes "dreach False N s"
  shows "heap_rep (hp s) N (queued s) \<and>
    (\<forall>i u e S q m. (i, u, e, S) \<in> put_log s \<and> (q, m) \<in> S \<and> in_section (es s) q m \<longrightarrow>
      (\<exists>l. (l, u) \<in> alloc_blocks (zones (hp s) i) \<and> (i, l, u) \<notin> in_use N (queued s) (hp s) \<and>
        (\<forall>n h' ptr. heap_Alloc n (hp s) = Some (Inr (h', ptr)) \<and> ptr \<noteq> 0 \<longrightarrow>
          (\<exists>j v. ptr = heap_ptr h' j v \<and> heap_apart (j, heap_level (hp s) n, v) (i, l, u)))))"
proof -
  from dreach_dinv [OF assms] have rep: "heap_rep (hp s) N (queued s)"
    and log: "\<And>x. x \<in> put_log s \<Longrightarrow> fst x < N \<and> guarded s x" by (auto simp: dinv_def)
  have "\<exists>l. (l, u) \<in> alloc_blocks (zones (hp s) i) \<and> (i, l, u) \<notin> in_use N (queued s) (hp s) \<and>
        (\<forall>n h' ptr. heap_Alloc n (hp s) = Some (Inr (h', ptr)) \<and> ptr \<noteq> 0 \<longrightarrow>
          (\<exists>j v. ptr = heap_ptr h' j v \<and> heap_apart (j, heap_level (hp s) n, v) (i, l, u)))"
    if "(i, u, e, S) \<in> put_log s" "(q, m) \<in> S" "in_section (es s) q m" for i u e S q m
  proof -
    have "i < N" "u \<in> set (queued s i (epoch_list (e + 3)))"
      using log [OF that(1)] that(2,3) by (auto simp: guarded_def)
    from queued_allocated [where D = "queued s", OF rep this(1) epoch_list_lt this(2)]
    show ?thesis using alloc_apart [OF rep] by blast
  qed
  with rep show ?thesis by blast
qed

lemma dreach_protocol: "ereach False t \<Longrightarrow> heap_rep h N no_lists \<Longrightarrow>
  dreach False N \<lparr>es = t, hp = h, queued = no_lists, put_log = {}\<rparr>"
proof (induction rule: ereach.induct)
  case init
  then show ?case by (rule dreach.init)
next
  case (step s s')
  from dreach.step [OF step.IH [OF step.prems] dstep.protocol, of s'] step.hyps(2) show ?case by simp
qed

theorem delayed_free_safe_witness:
  "\<exists>s u. dreach False 1 s \<and> (0, u, 2, {(1, 1)}) \<in> put_log s \<and> in_section (es s) 1 1 \<and> u \<noteq> 0 \<and>
    (\<exists>l. (l, u) \<in> alloc_blocks (zones (hp s) 0) \<and> (0, l, u) \<notin> in_use 1 (queued s) (hp s))"
proof -
  from example_heap_alloc obtain h u where h: "heap_Alloc 100 example_heap = Some (Inr (h, heap_ptr h 0 u))" "u \<noteq> 0"
    "heap_rep h 1 no_lists" "in_use 1 no_lists h = {(0, 1, u), (0, 0, 0)}" by (elim exE conjE)
  let ?s = "\<lparr>es = one_section, hp = h, queued = no_lists, put_log = {}\<rparr>"
  have 1: "dreach False 1 ?s"
    using dreach.step [OF dreach_protocol [OF one_section_reach(1) example_heap_rep] dstep.alloc, of 100 h] h(1) by simp
  have r: "reported_by one_section 1 = 2" "in_op one_section 1" "open_sections one_section = {(1, 1)}"
    using one_section_reach(2)
    by (auto simp: reported_by_def in_op_def open_sections_def in_section_def one_section_def small_sys_def split: if_splits)
  have iu: "(0, 1, u) \<in> in_use 1 no_lists h" using h(4) by simp
  from push_delayed_spec [OF h(3) iu h(2), of 0] heap_FreeOp_eq [OF h(3) iu h(2), of 2] obtain h2 where
    h2: "heap_FreeOp 2 (heap_ptr h 0 u) h = Inr h2" by auto
  have "dstep False 1 ?s \<lparr>es = one_section, hp = h2, queued = set_list no_lists 0 0 [u], put_log = {(0, u, 2, {(1, 1)})}\<rparr>"
    using dstep.free_later [of ?s 1 2 0 1 u 1 h2 0] r iu h(2) h2 by (simp add: epoch_list_def kListCnt_def)
  from dreach.step [OF 1 this] have "dreach False 1 \<lparr>es = one_section, hp = h2, queued = set_list no_lists 0 0 [u], put_log = {(0, u, 2, {(1, 1)})}\<rparr>" .
  from delayed_free_safe [OF this] this one_section_reach(2) h(2) show ?thesis
    by (intro exI [of _ "\<lparr>es = one_section, hp = h2, queued = set_list no_lists 0 0 [u], put_log = {(0, u, 2, {(1, 1)})}\<rparr>"] exI [of _ u])
      fastforce
qed

end
