(* ===== verification/Boot_Shelf.thy ===== *)
theory Boot_Shelf
  imports Shelf_Manager Fam_Spinlock Epoch_Manager
begin

text \<open>
  The two shelves the library starts from, \<open>RootShelf\<close> (\<open>src/common/root_shelf.cc\<close>) of the memory
  manager and \<open>EpochShelf\<close> (\<open>src/common/epoch_shelf.cc\<close>) of the epoch manager, and the
  configuration that names them (\<open>src/common/config.cc\<close>, \<open>config.h\<close>). The two classes are the same
  code but for the magic number and what \<open>Create\<close> writes behind it, so that each operation is
  translated once.

  The contents of both files are cells of 32 bits: byte \<open>4 * n\<close> of the file is the start of cell
  \<open>n\<close>. The epoch vector behind the first cache line of the epoch shelf is the record of theory
  \<open>Epoch_Vector\<close> and is passed beside the world.
\<close>

section \<open>Files\<close>

definition kBootShelfSize :: u64 where "kBootShelfSize = 128 * 1024 * 1024"

definition root_kMagicNum :: u64 where "root_kMagicNum = 766874353"
definition epoch_kMagicNum :: u64 where "epoch_kMagicNum = 3762474353"

text \<open>\<open>open\<close> with \<open>O_CREAT | O_EXCL\<close>.\<close>

definition sys_open_excl :: "string \<Rightarrow> u32 \<Rightarrow> world \<Rightarrow> (errno + nat) \<times> world" where
  "sys_open_excl path mode = sys_call (\<lambda>w.
     case lookup w path of
       Some n \<Rightarrow> (Inl EEXIST, w)
     | None \<Rightarrow>
         (Inr (next_ino w), w\<lparr>dir := (path, next_ino w) # dir w, next_ino := Suc (next_ino w),
            inodes := (inodes w)(next_ino w := \<lparr>i_mode = mode, i_size = 0, i_area = zero_area\<rparr>)\<rparr>))"

definition sys_mkdir :: "string \<Rightarrow> world \<Rightarrow> (errno + unit) \<times> world" where
  "sys_mkdir path w = (case sys_open_excl path 0x1FF w of (Inr _, w) \<Rightarrow> (Inr (), w) | (Inl e, w) \<Rightarrow> (Inl e, w))"

definition file_cells :: "nat \<Rightarrow> world \<Rightarrow> famem" where
  "file_cells n w = cells (i_area (inodes w n))"

definition set_file_cells :: "nat \<Rightarrow> famem \<Rightarrow> world \<Rightarrow> world" where
  "set_file_cells n m w =
     w\<lparr>inodes := (inodes w)(n := (inodes w n)\<lparr>i_area := (i_area (inodes w n))\<lparr>cells := m\<rparr>\<rparr>)\<rparr>"

text \<open>Access to a mapping behind the pages of its file ends the process.\<close>

definition touch_file :: "nat \<Rightarrow> nat \<Rightarrow> world \<Rightarrow> unit result" where
  "touch_file n byte w = check (byte < unat (i_size (inodes w n))) Out_Of_Bounds"

section \<open>Boot shelves\<close>

text \<open>\<open>bs_fd\<close> is \<open>None\<close> for \<open>-1\<close>, \<open>bs_addr\<close> is \<open>None\<close> for \<open>nullptr\<close> and \<open>MAP_FAILED\<close>.\<close>

record boot_shelf =
  bs_path :: string
  bs_fd :: "nat option"
  bs_addr :: "u64 option"

definition BootShelf :: "string \<Rightarrow> boot_shelf" where
  "BootShelf pathname = \<lparr>bs_path = pathname, bs_fd = None, bs_addr = None\<rparr>"

definition bs_Exist :: "boot_shelf \<Rightarrow> world \<Rightarrow> bool" where
  "bs_Exist b w \<longleftrightarrow> lookup w (bs_path b) \<noteq> None"

definition bs_IsOpen :: "boot_shelf \<Rightarrow> bool" where
  "bs_IsOpen b \<longleftrightarrow> bs_fd b \<noteq> None"

definition bs_Addr :: "boot_shelf \<Rightarrow> u64" where
  "bs_Addr b = (case bs_addr b of Some a \<Rightarrow> a | None \<Rightarrow> 0) + kCacheLineSize"

definition kBootMode :: u32 where "kBootMode = 0x1B0"

text \<open>\<open>init\<close> writes what comes between clearing the shelf and setting the magic number.\<close>

definition bs_Create :: "u64 \<Rightarrow> (famem \<Rightarrow> (famem \<times> 'm) result) \<Rightarrow> 'm \<Rightarrow> boot_shelf \<Rightarrow> world \<Rightarrow> (error_code \<times> 'm \<times> world) result" where
  "bs_Create magic init m b w =
     (if bs_Exist b w then Inr (SHELF_FILE_FOUND, m, w)
      else if bs_IsOpen b then Inr (SHELF_FILE_OPENED, m, w)
      else case sys_open_excl (bs_path b) kBootMode w of
             (Inl _, w) \<Rightarrow> Inr (SHELF_FILE_CREATE_FAILED, m, w)
           | (Inr fd, w) \<Rightarrow>
         (case sys_ftruncate fd kBootShelfSize w of
             (Inl _, w) \<Rightarrow> Inr (SHELF_FILE_CREATE_FAILED, m, w)
           | (Inr _, w) \<Rightarrow>
         (case sys_mmap fd kBootShelfSize w of
             (Inl _, w) \<Rightarrow> Inr (SHELF_FILE_CREATE_FAILED, m, w)
           | (Inr addr, w) \<Rightarrow>
               if fam_atomic_register_region addr kBootShelfSize = - 1 then Inr (SHELF_FILE_CREATE_FAILED, m, w)
               else rbind (init (\<lambda>_. 0)) (\<lambda>(c, m).
                 case fam_atomic_64_write 0 magic c of
                   None \<Rightarrow> Inl Exited
                 | Some c \<Rightarrow>
                     let w = set_file_cells fd c w
                     in case sys_munmap addr kBootShelfSize w of
                          (Inl _, w) \<Rightarrow> Inr (SHELF_FILE_CREATE_FAILED, m, w)
                        | (Inr _, w) \<Rightarrow>
                            (case sys_close w of
                               (Inl _, w) \<Rightarrow> Inr (SHELF_FILE_CREATE_FAILED, m, w)
                             | (Inr _, w) \<Rightarrow> Inr (NO_ERROR, m, w))))))"

definition bs_Destroy :: "boot_shelf \<Rightarrow> world \<Rightarrow> (error_code \<times> world) result" where
  "bs_Destroy b w =
     (let ret = (if \<not> bs_Exist b w then SHELF_FILE_NOT_FOUND else NO_ERROR)
      in if bs_IsOpen b then Inr (SHELF_FILE_OPENED, w)
         else case sys_unlink (bs_path b) w of
                (Inr _, w) \<Rightarrow> Inr (ret, w)
              | (Inl e, w) \<Rightarrow> if e = ENOENT then Inr (ret, w) else Inl Runtime_Error)"

definition bs_Close :: "boot_shelf \<Rightarrow> world \<Rightarrow> error_code \<times> boot_shelf \<times> world" where
  "bs_Close b w =
     (if \<not> bs_IsOpen b then (SHELF_FILE_CLOSED, b, w)
      else case sys_munmap (case bs_addr b of Some a \<Rightarrow> a | None \<Rightarrow> - 1) kBootShelfSize w of
             (Inl _, w) \<Rightarrow> (SHELF_FILE_CLOSE_FAILED, b, w)
           | (Inr _, w) \<Rightarrow>
               (case sys_close w of
                  (Inl _, w) \<Rightarrow> (SHELF_FILE_CLOSE_FAILED, b, w)
                | (Inr _, w) \<Rightarrow> (NO_ERROR, b\<lparr>bs_fd := None\<rparr>, w)))"

definition bs_Open :: "u64 \<Rightarrow> boot_shelf \<Rightarrow> world \<Rightarrow> (error_code \<times> boot_shelf \<times> world) result" where
  "bs_Open magic b w =
     (if bs_IsOpen b then Inr (SHELF_FILE_OPENED, b, w)
      else case sys_open (bs_path b) w of
             (Inl _, w) \<Rightarrow> Inr (SHELF_FILE_OPEN_FAILED, b, w)
           | (Inr fd, w) \<Rightarrow>
               let b = b\<lparr>bs_fd := Some fd\<rparr>
               in case sys_mmap fd kBootShelfSize w of
                    (Inl _, w) \<Rightarrow> Inr (SHELF_FILE_OPEN_FAILED, b\<lparr>bs_addr := None\<rparr>, w)
                  | (Inr addr, w) \<Rightarrow>
                      let b = b\<lparr>bs_addr := Some addr\<rparr>
                      in if fam_atomic_register_region addr kBootShelfSize = - 1 then Inr (SHELF_FILE_OPEN_FAILED, b, w)
                         else rbind (touch_file fd 0 w) (\<lambda>_.
                           case fam_atomic_64_read 0 (file_cells fd w) of
                             None \<Rightarrow> Inl Exited
                           | Some (found, c) \<Rightarrow>
                               let w = set_file_cells fd c w
                               in if found = magic then Inr (NO_ERROR, b, w)
                                  else case bs_Close b w of (_, b, w) \<Rightarrow> Inr (SHELF_FILE_OPEN_FAILED, b, w)))"

definition BootShelf_delete :: "boot_shelf \<Rightarrow> world \<Rightarrow> world" where
  "BootShelf_delete b w = (if bs_IsOpen b then snd (snd (bs_Close b w)) else w)"

section \<open>The root shelf\<close>

text \<open>Byte offsets in the file: one lock per pool, each on a cache line, then one entry per pool.\<close>

definition kMaxPools :: nat where "kMaxPools = unat kMaxPoolCount"

definition zero_range :: "nat \<Rightarrow> nat \<Rightarrow> famem \<Rightarrow> famem" where
  "zero_range byte len c = (\<lambda>n. if byte div 4 \<le> n \<and> n < (byte + len) div 4 then 0 else c n)"

definition root_init :: "famem \<Rightarrow> (famem \<times> unit) result" where
  "root_init c =
     (let c = (\<lambda>n. if 16 \<le> n \<and> n < 16 + 16 * kMaxPools \<and> (n mod 16 = 0 \<or> n mod 16 = 1) then 0 else c n)
      in Inr (zero_range (64 + 64 * kMaxPools) (64 * kMaxPools) c, ()))"

definition RootShelf_Create :: "boot_shelf \<Rightarrow> world \<Rightarrow> (error_code \<times> world) result" where
  "RootShelf_Create b w = rbind (bs_Create root_kMagicNum root_init () b w) (\<lambda>(ret, _, w). Inr (ret, w))"

definition RootShelf_Open :: "boot_shelf \<Rightarrow> world \<Rightarrow> (error_code \<times> boot_shelf \<times> world) result" where
  "RootShelf_Open = bs_Open root_kMagicNum"

section \<open>The epoch shelf\<close>

text \<open>What the constructor of the epoch manager needs besides the vector: the clock, the memory of the
  cache, the member it does not initialise, and the process id.\<close>

record epoch_env =
  ee_clock :: clock
  ee_cache :: "nat \<Rightarrow> element"
  ee_scan0 :: hrtime
  ee_pid :: int

definition zero_vec :: epoch_vec where
  "zero_vec = \<lparr>frontier = 0, slots = (\<lambda>_. free_slot)\<rparr>"

definition epoch_init :: "epoch_env \<Rightarrow> famem \<Rightarrow> (famem \<times> epoch_vec) result" where
  "epoch_init x c =
     rbind (EpochManagerImpl_new (ee_clock x) zero_vec True (ee_cache x) (ee_scan0 x) (ee_pid x)) (\<lambda>em.
       Inr (c, EpochManagerImpl_delete em))"

definition EpochShelf_Create :: "epoch_env \<Rightarrow> epoch_vec \<Rightarrow> boot_shelf \<Rightarrow> world \<Rightarrow> (error_code \<times> epoch_vec \<times> world) result" where
  "EpochShelf_Create x = bs_Create epoch_kMagicNum (epoch_init x)"

definition EpochShelf_Open :: "boot_shelf \<Rightarrow> world \<Rightarrow> (error_code \<times> boot_shelf \<times> world) result" where
  "EpochShelf_Open = bs_Open epoch_kMagicNum"

section \<open>Configuration\<close>

text \<open>\<open>base0\<close> and \<open>user0\<close> are the macros \<open>SHELF_BASE_DIR\<close> and \<open>SHELF_USER\<close>.\<close>

record config =
  ShelfBase :: string
  ShelfUser :: string
  RootShelfPath :: string
  EpochShelfPath :: string

definition Config_Setup :: "config \<Rightarrow> manager \<Rightarrow> world \<Rightarrow> config \<times> manager \<times> world" where
  "Config_Setup c sm w =
     (let prefix = ShelfBase c @ ''/'' @ ShelfUser c @ [underscore] @ ''NVMM'' @ [underscore]
      in case sm_Reset sm w of (sm, w) \<Rightarrow>
           (c\<lparr>RootShelfPath := prefix @ ''ROOT'', EpochShelfPath := prefix @ ''EPOCH''\<rparr>, sm, w))"

definition Config_new :: "string \<Rightarrow> string \<Rightarrow> string \<Rightarrow> string \<Rightarrow> manager \<Rightarrow> world \<Rightarrow> config \<times> manager \<times> world" where
  "Config_new base0 user0 base user sm w =
     Config_Setup \<lparr>ShelfBase = (if base = [] then base0 else base), ShelfUser = (if user = [] then user0 else user),
       RootShelfPath = [], EpochShelfPath = []\<rparr> sm w"

section \<open>The epoch manager's object\<close>

text \<open>
  \<open>EpochManager::Impl_\<close> (\<open>src/epoch_manager.cc\<close>): the manager of theory \<open>Epoch_Manager\<close> on the
  vector of the epoch shelf. The other functions of the class pass their arguments on to it.
\<close>

record epoch_service =
  em_impl :: "emgr option"
  em_shelf :: boot_shelf

definition em_Init :: "epoch_env \<Rightarrow> config \<Rightarrow> epoch_vec \<Rightarrow> epoch_service \<Rightarrow> world \<Rightarrow> (epoch_service \<times> world) result" where
  "em_Init x c ev e w =
     (if lookup w (ShelfBase c) = None then Inl Exited
      else if \<not> bs_Exist (em_shelf e) w then Inl Exited
      else rbind (EpochShelf_Open (em_shelf e) w) (\<lambda>(ret, b, w).
        if ret \<noteq> NO_ERROR then Inl Exited
        else rbind (EpochManagerImpl_new (ee_clock x) ev False (ee_cache x) (ee_scan0 x) (ee_pid x)) (\<lambda>m.
          Inr (e\<lparr>em_shelf := b, em_impl := Some m\<rparr>, w))))"

text \<open>\<open>ev\<close> is the vector if there is no manager, otherwise it is what the manager leaves behind.\<close>

definition em_Final :: "epoch_vec \<Rightarrow> epoch_service \<Rightarrow> world \<Rightarrow> (epoch_vec \<times> epoch_service \<times> world) result" where
  "em_Final ev e w =
     (let ev = (case em_impl e of None \<Rightarrow> ev | Some m \<Rightarrow> EpochManagerImpl_delete m)
      in case bs_Close (em_shelf e) w of (ret, b, w) \<Rightarrow>
           if ret \<noteq> NO_ERROR then Inl Exited else Inr (ev, e\<lparr>em_shelf := b\<rparr>, w))"

definition em_Start :: "epoch_env \<Rightarrow> config \<Rightarrow> epoch_vec \<Rightarrow> world \<Rightarrow> (epoch_service \<times> world) result" where
  "em_Start x c ev w = em_Init x c ev \<lparr>em_impl = None, em_shelf = BootShelf (EpochShelfPath c)\<rparr> w"

definition em_Stop :: "epoch_vec \<Rightarrow> epoch_service \<Rightarrow> world \<Rightarrow> (epoch_vec \<times> world) result" where
  "em_Stop ev e w = rbind (em_Final ev e w) (\<lambda>(ev, e, w). Inr (ev, BootShelf_delete (em_shelf e) w))"

section \<open>Starting and resetting the library\<close>

definition StartNVMM :: "string \<Rightarrow> string \<Rightarrow> epoch_env \<Rightarrow> string \<Rightarrow> string \<Rightarrow> config \<Rightarrow> manager \<Rightarrow> epoch_vec \<Rightarrow> world \<Rightarrow>
    (config \<times> manager \<times> epoch_vec \<times> world) result" where
  "StartNVMM base0 user0 x base user cfg sm ev w =
     (let (cfg, sm, w) = (if base \<noteq> [] \<or> user \<noteq> [] then Config_new base0 user0 base user sm w else (cfg, sm, w))
      in rbind (if lookup w (ShelfBase cfg) = None
                then (case sys_mkdir (ShelfBase cfg) w of (Inr _, w) \<Rightarrow> Inr w | (Inl _, w) \<Rightarrow> Inl Runtime_Error)
                else Inr w) (\<lambda>w.
         if lookup w (ShelfBase cfg) = None then Inl Exited
         else let root_shelf = BootShelf (RootShelfPath cfg)
              in rbind (if \<not> bs_Exist root_shelf w then RootShelf_Create root_shelf w else Inr (NO_ERROR, w)) (\<lambda>(ret, w).
                if ret \<noteq> NO_ERROR \<and> ret \<noteq> SHELF_FILE_FOUND then Inl Exited
                else let epoch_shelf = BootShelf (EpochShelfPath cfg)
                     in rbind (if \<not> bs_Exist epoch_shelf w then EpochShelf_Create x ev epoch_shelf w else Inr (NO_ERROR, ev, w))
                          (\<lambda>(ret, ev, w).
                            if ret \<noteq> NO_ERROR \<and> ret \<noteq> SHELF_FILE_FOUND then Inl Exited else Inr (cfg, sm, ev, w)))))"

text \<open>The three \<open>rm -f\<close> commands of \<open>ResetNVMM\<close>, for names without characters that the shell treats
  specially; \<open>rm\<close> ignores what it cannot delete, here nothing.\<close>

definition rm_files :: "(string \<Rightarrow> bool) \<Rightarrow> world \<Rightarrow> world" where
  "rm_files P w = w\<lparr>dir := filter (\<lambda>(path, _). \<not> P path) (dir w)\<rparr>"

definition shelf_files :: "config \<Rightarrow> string \<Rightarrow> bool" where
  "shelf_files cfg path \<longleftrightarrow>
     (let prefix = ShelfBase cfg @ ''/'' @ ShelfUser cfg @ [underscore] @ ''NVMM'' @ [underscore] @ ''Shelf''
      in take (length prefix) path = prefix \<and> CHR ''/'' \<notin> set (drop (length prefix) path))"

definition ResetNVMM :: "string \<Rightarrow> string \<Rightarrow> string \<Rightarrow> string \<Rightarrow> config \<Rightarrow> manager \<Rightarrow> world \<Rightarrow> config \<times> manager \<times> world" where
  "ResetNVMM base0 user0 base user cfg sm w =
     (let (cfg, sm, w) = (if base \<noteq> [] \<or> user \<noteq> [] then Config_new base0 user0 base user sm w else (cfg, sm, w));
          w = rm_files (\<lambda>p. p = RootShelfPath cfg) w;
          w = rm_files (\<lambda>p. p = EpochShelfPath cfg) w
      in (cfg, sm, rm_files (shelf_files cfg) w))"

end
