(* ===== verification/Pool_Region.thy ===== *)
theory Pool_Region
  imports Pool Shelf_Region
begin

text \<open>
  \<open>PoolRegion\<close> (\<open>src/allocator/pool_region.cc\<close>): a region is a pool with a single shelf, number
  0, used as plain memory.
\<close>

record pool_region =
  pr_pool :: pool
  pr_size :: u64
  pr_file :: "shelf_region option"
  pr_is_open :: bool

definition kShelfIdx :: ShelfIndex where "kShelfIdx = 0"

definition PoolRegion_new :: "string \<Rightarrow> string \<Rightarrow> PoolId \<Rightarrow> pool_region result" where
  "PoolRegion_new base user pid =
     rbind (Pool_new base user pid) (\<lambda>p. Inr \<lparr>pr_pool = p, pr_size = 0, pr_file = None, pr_is_open = False\<rparr>)"

text \<open>The destructor of a pool has an empty body; that of its metadata shelf closes the file.\<close>

definition Pool_delete :: "pool \<Rightarrow> world \<Rightarrow> world" where
  "Pool_delete p w = (if sf_IsOpen (p_meta p) then snd (snd (sf_Close (p_meta p) w)) else w)"

text \<open>The format function of the shelf.\<close>

definition region_format :: "unit format_mem" where
  "region_format shelf len m w =
     Some (rbind (sr_Create (ShelfRegion (sf_path shelf)) len w) (\<lambda>(ret, w). Inr (ret, shelf, m, w)))"

definition pr_Create :: "u64 \<Rightarrow> pool_region \<Rightarrow> world \<Rightarrow> (error_code \<times> pool_region \<times> world) result option" where
  "pr_Create len r w =
     (if pr_is_open r then Some (Inl Assert_Failed)
      else if len = 0 then Some (Inr (INVALID_ARGUMENTS, r, w))
      else if pool_Exist (pr_pool r) w then Some (Inr (POOL_FOUND, r, w))
      else obind (Some (pool_Create (pr_pool r) len kDefaultMode w)) (\<lambda>(ret, p, w).
        if ret \<noteq> NO_ERROR
        then Some (Inr (if ret = POOL_FOUND then POOL_FOUND else REGION_CREATE_FAILED, r\<lparr>pr_pool := p\<rparr>, w))
        else obind (Some (pool_Open False p w)) (\<lambda>(ret, p, w).
          if ret \<noteq> NO_ERROR then Some (Inr (REGION_CREATE_FAILED, r\<lparr>pr_pool := p\<rparr>, w))
          else obind (AddShelf_mem p kShelfIdx region_format False kDefaultMode () w) (\<lambda>(ret, shelf_idx, _, w).
            if ret \<noteq> NO_ERROR
            then obind (Some (pool_Close False p w)) (\<lambda>(_, p, w). Some (Inr (REGION_CREATE_FAILED, r\<lparr>pr_pool := p\<rparr>, w)))
            else if shelf_idx \<noteq> kShelfIdx then Some (Inl Assert_Failed)
            else obind (Some (pool_Close False p w)) (\<lambda>(ret, p, w).
              Some (Inr (if ret \<noteq> NO_ERROR then REGION_CREATE_FAILED else ret, r\<lparr>pr_pool := p\<rparr>, w)))))))"

definition pr_Destroy :: "pool_region \<Rightarrow> world \<Rightarrow> (error_code \<times> pool_region \<times> world) result" where
  "pr_Destroy r w =
     (if pr_is_open r then Inl Assert_Failed
      else if \<not> pool_Exist (pr_pool r) w then Inr (POOL_NOT_FOUND, r, w)
      else rbind (pool_Open False (pr_pool r) w) (\<lambda>(ret, p, w).
        if ret \<noteq> NO_ERROR then Inr (REGION_DESTROY_FAILED, r\<lparr>pr_pool := p\<rparr>, w)
        else rbind (destroy_shelves p [0..<unat kMaxShelfCount] w) (\<lambda>(ret, w).
          if ret \<noteq> NO_ERROR
          then rbind (pool_Close False p w) (\<lambda>(_, p, w). Inr (REGION_DESTROY_FAILED, r\<lparr>pr_pool := p\<rparr>, w))
          else rbind (pool_Close False p w) (\<lambda>(ret, p, w).
            if ret \<noteq> NO_ERROR then Inr (REGION_DESTROY_FAILED, r\<lparr>pr_pool := p\<rparr>, w)
            else rbind (pool_Destroy p w) (\<lambda>(ret, p, w).
              Inr (if ret \<noteq> NO_ERROR then REGION_DESTROY_FAILED else ret, r\<lparr>pr_pool := p\<rparr>, w))))))"

definition pr_Exist :: "pool_region \<Rightarrow> world \<Rightarrow> bool" where
  "pr_Exist r w = pool_Exist (pr_pool r) w"

definition pr_Open :: "pool_region \<Rightarrow> world \<Rightarrow> (error_code \<times> pool_region \<times> world) result" where
  "pr_Open r w =
     (if pr_is_open r then Inl Assert_Failed
      else rbind (pool_Open False (pr_pool r) w) (\<lambda>(ret, p, w).
        let r = r\<lparr>pr_pool := p\<rparr>
        in if ret \<noteq> NO_ERROR then Inr (REGION_OPEN_FAILED, r, w)
           else rbind (GetShelfPath p kShelfIdx w) (\<lambda>(ret, path).
             if ret \<noteq> NO_ERROR then Inr (REGION_OPEN_FAILED, r, w)
             else rbind (sr_Open (ShelfRegion (the path)) w) (\<lambda>(ret, f, w).
               let r = r\<lparr>pr_file := Some f\<rparr>
               in if ret \<noteq> NO_ERROR then Inr (REGION_OPEN_FAILED, r, w)
                  else rbind (sr_Size f w) (\<lambda>(len, w).
                    Inr (NO_ERROR, r\<lparr>pr_size := len, pr_is_open := True\<rparr>, w))))))"

definition pr_Close :: "pool_region \<Rightarrow> world \<Rightarrow> (error_code \<times> pool_region \<times> world) result" where
  "pr_Close r w =
     (if \<not> pr_is_open r then Inl Assert_Failed
      else case pr_file r of
             None \<Rightarrow> Inl Out_Of_Bounds
           | Some f \<Rightarrow> rbind (sr_Close f w) (\<lambda>(ret, f, w).
               if ret \<noteq> NO_ERROR then Inr (REGION_CLOSE_FAILED, r\<lparr>pr_file := Some f\<rparr>, w)
               else rbind (ShelfRegion_delete f w) (\<lambda>w.
                 rbind (pool_Close False (pr_pool r) w) (\<lambda>(ret, p, w).
                   let r = r\<lparr>pr_file := None, pr_pool := p\<rparr>
                   in if ret \<noteq> NO_ERROR then Inr (REGION_CLOSE_FAILED, r, w)
                      else Inr (NO_ERROR, r\<lparr>pr_size := 0, pr_is_open := False\<rparr>, w)))))"

definition PoolRegion_delete :: "pool_region \<Rightarrow> world \<Rightarrow> world result" where
  "PoolRegion_delete r w =
     rbind (if pr_is_open r then rbind (pr_Close r w) (\<lambda>(_, r, w). Inr (r, w)) else Inr (r, w)) (\<lambda>(r, w).
       Inr (Pool_delete (pr_pool r) w))"

definition pr_Map :: "pool_region \<Rightarrow> u64 \<Rightarrow> world \<Rightarrow> (error_code \<times> u64 option \<times> world) result" where
  "pr_Map r len w =
     (if \<not> pr_is_open r then Inl Assert_Failed
      else case pr_file r of
             None \<Rightarrow> Inl Out_Of_Bounds
           | Some f \<Rightarrow> rbind (sr_Map f len w) (\<lambda>(ret, addr, w).
               Inr (if ret \<noteq> NO_ERROR then REGION_MAP_FAILED else ret, addr, w)))"

definition pr_Unmap :: "pool_region \<Rightarrow> u64 \<Rightarrow> u64 \<Rightarrow> world \<Rightarrow> (error_code \<times> world) result" where
  "pr_Unmap r mapped_addr len w =
     (if \<not> pr_is_open r then Inl Assert_Failed
      else case pr_file r of
             None \<Rightarrow> Inl Out_Of_Bounds
           | Some f \<Rightarrow> rbind (sr_Unmap f mapped_addr len w) (\<lambda>(ret, w).
               Inr (if ret \<noteq> NO_ERROR then REGION_UNMAP_FAILED else ret, w)))"

end
