(* ===== verification/Epoch_Zone_Admin.thy ===== *)
theory Epoch_Zone_Admin
  imports Epoch_Zone_Heap
begin

text \<open>
  \<open>src/allocator/epoch_zone_heap.cc\<close>, second part: construction, creating, opening, closing,
  resizing and destroying a heap, permissions, and the rounds of the background worker.

  The worker runs beside its process: \<open>StartWorker\<close> and the wait in \<open>Open\<close> leave it running,
  \<open>StopWorker\<close> returns when it has stopped, and \<open>worker_round\<close> is what it does between two
  sleeps. Memory of the header shelf that was not written before reads as the value \<open>zones\<close> and
  \<open>delayed\<close> have there; the bytes of a new data shelf are 0.
\<close>

section \<open>Construction\<close>

text \<open>\<open>junk\<close> stands for what the constructor leaves uninitialised (\<open>total_mapped_shelfs_\<close>,
  \<open>min_obj_size_\<close>) and for the memory and the world.\<close>

definition EpochZoneHeap_new :: "string \<Rightarrow> string \<Rightarrow> PoolId \<Rightarrow> zheap \<Rightarrow> zheap result" where
  "EpochZoneHeap_new base user pid junk =
     rbind (Pool_new base user pid) (\<lambda>p.
       Inr (junk\<lparr>pool_id := pid, zpool := p, gh_ptr := None, rmb := (\<lambda>_. None),
         rmb_size := (\<lambda>_. 0), region := None, mapped_addr := (\<lambda>_. None),
         zh_is_open := False, is_invalid := False, no_bgthread := False, cleaner_start := False,
         cleaner_stop := False, cleaner_running := False\<rparr>))"

definition heap_Exist :: "zheap \<Rightarrow> bool" where
  "heap_Exist h = pool_Exist (zpool h) (os h)"

section \<open>The pool of the heap\<close>

definition close_pool :: "zheap \<Rightarrow> (error_code \<times> zheap) result" where
  "close_pool h = rbind (pool_Close False (zpool h) (os h)) (\<lambda>(ret, p, w). Inr (ret, h\<lparr>zpool := p, os := w\<rparr>))"

definition open_pool :: "zheap \<Rightarrow> (error_code \<times> zheap) result" where
  "open_pool h = rbind (pool_Open False (zpool h) (os h)) (\<lambda>(ret, p, w). Inr (ret, h\<lparr>zpool := p, os := w\<rparr>))"

definition open_region :: "string \<Rightarrow> zheap \<Rightarrow> (error_code \<times> zheap) result" where
  "open_region path h =
     rbind (sr_Open (ShelfRegion path) (os h)) (\<lambda>(ret, r, w). Inr (ret, h\<lparr>region := Some r, os := w\<rparr>))"

definition close_region :: "zheap \<Rightarrow> (error_code \<times> zheap) result" where
  "close_region h =
     rbind (region_of h) (\<lambda>r. rbind (sr_Close r (os h)) (\<lambda>(ret, r, w). Inr (ret, h\<lparr>region := Some r, os := w\<rparr>)))"

definition delete_region :: "zheap \<Rightarrow> zheap result" where
  "delete_region h =
     rbind (region_of h) (\<lambda>r. rbind (ShelfRegion_delete r (os h)) (\<lambda>w. Inr (h\<lparr>region := None, os := w\<rparr>)))"

definition map_gh :: "zheap \<Rightarrow> (error_code \<times> zheap) result" where
  "map_gh h =
     rbind (region_of h) (\<lambda>r. rbind (sr_Map r gh_size (os h)) (\<lambda>(ret, addr, w).
       Inr (ret, (if ret = NO_ERROR then h\<lparr>gh_ptr := addr\<rparr> else h)\<lparr>os := w\<rparr>)))"

definition unmap_gh :: "zheap \<Rightarrow> (error_code \<times> zheap) result" where
  "unmap_gh h =
     rbind (region_of h) (\<lambda>r.
     rbind (sr_Unmap r (case gh_ptr h of Some a \<Rightarrow> a | None \<Rightarrow> 0) gh_size (os h)) (\<lambda>(ret, w). Inr (ret, h\<lparr>os := w\<rparr>)))"

text \<open>The format functions that \<open>Create\<close> and \<open>Resize\<close> pass to \<open>AddShelf\<close>.\<close>

definition format_header :: "u64 \<Rightarrow> unit format_mem" where
  "format_header len f n u w =
     Some (rbind (sr_Create (ShelfRegion (sf_path f)) len w) (\<lambda>(ret, w). Inr (ret, f, u, w)))"

definition format_zone :: "u64 option \<Rightarrow> u64 \<Rightarrow> u64 \<Rightarrow> (zone \<times> manager) format_mem" where
  "format_zone zone_size header min_alloc_size f shelf_size m w =
     (case m of (z, sm) \<Rightarrow>
        obind (sh_Create (ShelfHeap (sf_path f)) z (case zone_size of Some n \<Rightarrow> n | None \<Rightarrow> shelf_size)
                 header min_alloc_size sm w)
          (\<lambda>(ret, _, z, sm, w). Some (Inr (ret, f, (z, sm), w))))"

definition add_data_shelf :: "nat \<Rightarrow> u64 option \<Rightarrow> u64 \<Rightarrow> u64 \<Rightarrow> mode_t \<Rightarrow> zheap \<Rightarrow> (error_code \<times> zheap) result option" where
  "add_data_shelf i zone_size header min_alloc_size mode h =
     obind (AddShelf_mem (zpool h) (of_nat (i + 1)) (format_zone zone_size header min_alloc_size) False mode
              ((zones h i)\<lparr>zone.shelf := (\<lambda>_. 0)\<rparr>, mgr h) (os h))
       (\<lambda>(ret, _, (z, sm), w). Some (Inr (ret, h\<lparr>zones := (zones h)(i := z), mgr := sm, os := w\<rparr>)))"

section \<open>Create\<close>

text \<open>The zone shelf was refused: everything is taken down again.\<close>

definition create_undo :: "u64 \<Rightarrow> zheap \<Rightarrow> (error_code \<times> zheap) result" where
  "create_undo len h =
     rbind (unmap_header 0 len h) (\<lambda>(ret, h).
       if ret \<noteq> NO_ERROR then Inr (HEAP_CREATE_FAILED, h)
       else rbind (close_region h) (\<lambda>(ret, h).
         if ret \<noteq> NO_ERROR then Inr (HEAP_CREATE_FAILED, h)
         else rbind (rbind (delete_region h) close_pool) (\<lambda>(_, h). Inr (HEAP_CREATE_FAILED, h))))"

definition create_finish :: "u64 \<Rightarrow> u64 \<Rightarrow> zheap \<Rightarrow> (error_code \<times> zheap) result" where
  "create_finish len shelf_size h =
     (let h = h\<lparr>sz := (sz h)(0 := \<lparr>headersize = len, headeroffset = 0, shelfsize = shelf_size\<rparr>), total_shelfs := 1\<rparr>
      in rbind (unmap_header 0 len h) (\<lambda>(ret, h).
        if ret \<noteq> NO_ERROR then Inr (HEAP_CREATE_FAILED, h)
        else rbind (close_region h) (\<lambda>(ret, h).
          if ret \<noteq> NO_ERROR then Inr (HEAP_CREATE_FAILED, h)
          else rbind (rbind (delete_region h) close_pool) (\<lambda>(ret, h).
            Inr (if ret \<noteq> NO_ERROR then HEAP_CREATE_FAILED else ret, h)))))"

text \<open>With the header shelf mapped: clear the reserved part, make the zone, write the global header.\<close>

definition create_zone :: "u64 \<Rightarrow> u64 \<Rightarrow> u64 \<Rightarrow> mode_t \<Rightarrow> zheap \<Rightarrow> (error_code \<times> zheap) result option" where
  "create_zone len shelf_size min_alloc_size mode h =
     (let reserved = lists_size + gh_size;
          header = (case mapped_addr h 0 of Some a \<Rightarrow> a | None \<Rightarrow> 0) + reserved;
          h = h\<lparr>gh_ptr := mapped_addr h 0, op_in_progress := 0, destroy_in_progress := 0, total_shelfs := 0,
                sz := (\<lambda>_. \<lparr>headersize = 0, headeroffset = 0, shelfsize = 0\<rparr>),
                delayed := (delayed h)(0 := (\<lambda>_. empty_stack)), min_obj := min_alloc_size\<rparr>
      in obind (add_data_shelf 0 None header min_alloc_size mode h) (\<lambda>(ret, h).
           Some (if ret \<noteq> NO_ERROR then create_undo len h else create_finish len shelf_size h)))"

definition heap_Create :: "u64 \<Rightarrow> u64 \<Rightarrow> u64 \<Rightarrow> mode_t \<Rightarrow> zheap \<Rightarrow> (error_code \<times> zheap) result option" where
  "heap_Create page_size shelf_size min_alloc_size mode h =
     (if zh_is_open h then Some (Inr (HEAP_IS_OPEN, h))
      else if pool_Exist (zpool h) (os h) then Some (Inr (POOL_FOUND, h))
      else
        let shelf_size = next_power_of_two shelf_size;
            len = get_header_size_from_size page_size shelf_size min_alloc_size kHeaderIdx
        in obind (Some (pool_Create (zpool h) shelf_size mode (os h))) (\<lambda>(ret, p, w).
          let h = h\<lparr>zpool := p, os := w\<rparr>
          in if ret \<noteq> NO_ERROR then Some (Inr (HEAP_CREATE_FAILED, h))
             else obind (Some (open_pool h)) (\<lambda>(ret, h).
               if ret \<noteq> NO_ERROR then Some (Inr (HEAP_CREATE_FAILED, h))
               else obind (AddShelf_mem (zpool h) kHeaderIdx (format_header len) False mode () (os h)) (\<lambda>(ret, _, _, w).
                 let h = h\<lparr>os := w\<rparr>
                 in if ret \<noteq> NO_ERROR
                    then Some (rbind (close_pool h) (\<lambda>(_, h). Inr (HEAP_CREATE_FAILED, h)))
                    else obind (Some (GetShelfPath (zpool h) kHeaderIdx (os h))) (\<lambda>(ret, path).
                      if ret \<noteq> NO_ERROR then Some (Inr (HEAP_CREATE_FAILED, h))
                      else obind (Some (open_region (the path) h)) (\<lambda>(ret, h).
                        if ret \<noteq> NO_ERROR then Some (Inr (HEAP_CREATE_FAILED, h))
                        else obind (Some (map_header 0 len h)) (\<lambda>(ret, h).
                          if ret \<noteq> NO_ERROR then Some (Inr (HEAP_CREATE_FAILED, h))
                          else create_zone len shelf_size min_alloc_size mode h)))))))"

section \<open>Open and Close\<close>

definition StartWorker :: "zheap \<Rightarrow> zheap" where
  "StartWorker h = (if cleaner_start h then h else h\<lparr>cleaner_start := True, cleaner_stop := False, cleaner_running := False\<rparr>)"

definition StopWorker :: "zheap \<Rightarrow> zheap" where
  "StopWorker h =
     (if \<not> cleaner_running h \<or> \<not> cleaner_start h then h
      else h\<lparr>cleaner_start := False, cleaner_stop := False, cleaner_running := False\<rparr>)"

fun close_shelfs :: "nat list \<Rightarrow> zheap \<Rightarrow> (error_code \<times> zheap) result" where
  "close_shelfs [] h = Inr (NO_ERROR, h)"
| "close_shelfs (i # is) h =
     rbind (CloseShelf i h) (\<lambda>(ret, h). if ret \<noteq> NO_ERROR then Inr (HEAP_CLOSE_FAILED, h) else close_shelfs is h)"

definition heap_Close :: "zheap \<Rightarrow> (error_code \<times> zheap) result" where
  "heap_Close h =
     (if \<not> zh_is_open h then Inr (HEAP_NOT_OPEN, h)
      else
        let h = (if \<not> is_invalid h \<and> \<not> no_bgthread h then StopWorker h else h)
        in rbind (close_shelfs (rev [0..<nat (total_mapped_shelfs h)]) h) (\<lambda>(ret, h).
          if ret \<noteq> NO_ERROR then Inr (HEAP_CLOSE_FAILED, h)
          else rbind (unmap_gh h) (\<lambda>(ret, h).
            if ret \<noteq> NO_ERROR then Inr (HEAP_CLOSE_FAILED, h)
            else rbind (close_region (h\<lparr>gh_ptr := None\<rparr>)) (\<lambda>(ret, h).
              if ret \<noteq> NO_ERROR then Inr (HEAP_CLOSE_FAILED, h)
              else rbind (rbind (delete_region h) close_pool) (\<lambda>(ret, h).
                if ret \<noteq> NO_ERROR then Inr (HEAP_CLOSE_FAILED, h)
                else Inr (ret, h\<lparr>zh_is_open := False\<rparr>))))))"

text \<open>After shelf \<open>i\<close> failed to open: the shelves below it are closed, errors are passed over.\<close>

fun open_undo :: "nat list \<Rightarrow> zheap \<Rightarrow> (error_code \<times> zheap) result" where
  "open_undo [] h =
     rbind (unmap_gh h) (\<lambda>(_, h).
     rbind (close_region h) (\<lambda>(_, h).
     rbind (rbind (delete_region h) close_pool) (\<lambda>(_, h). Inr (HEAP_OPEN_FAILED, h))))"
| "open_undo (i # is) h = rbind (CloseShelf i h) (\<lambda>(_, h). open_undo is h)"

fun open_all :: "nat list \<Rightarrow> zheap \<Rightarrow> (error_code \<times> zheap) result" where
  "open_all [] h = Inr (NO_ERROR, h)"
| "open_all (i # is) h =
     rbind (OpenShelf i h) (\<lambda>(ret, h). if ret \<noteq> NO_ERROR then open_undo (rev [0..<i]) h else open_all is h)"

definition NVMM_NO_BG_THREAD :: nat where "NVMM_NO_BG_THREAD = 1"

definition heap_Open :: "nat \<Rightarrow> zheap \<Rightarrow> (error_code \<times> zheap) result" where
  "heap_Open flags h =
     (if zh_is_open h then Inr (HEAP_IS_OPEN, h)
      else rbind (open_pool h) (\<lambda>(ret, h).
        if ret \<noteq> NO_ERROR then Inr (HEAP_OPEN_FAILED, h)
        else rbind (GetShelfPath (zpool h) kHeaderIdx (os h)) (\<lambda>(ret, path).
          if ret \<noteq> NO_ERROR then rbind (close_pool h) (\<lambda>(_, h). Inr (HEAP_OPEN_FAILED, h))
          else rbind (open_region (the path) h) (\<lambda>(ret, h).
            if ret \<noteq> NO_ERROR then rbind (close_pool h) (\<lambda>(_, h). Inr (HEAP_OPEN_FAILED, h))
            else rbind (map_gh h) (\<lambda>(ret, h).
              if ret \<noteq> NO_ERROR
              then rbind (close_region h) (\<lambda>(ret, h).
                     if ret \<noteq> NO_ERROR then Inr (HEAP_OPEN_FAILED, h)
                     else rbind (rbind (delete_region h) close_pool) (\<lambda>(_, h). Inr (HEAP_OPEN_FAILED, h)))
              else rbind (get_total_data_shelfs h) (\<lambda>total_data_shelfs.
                rbind (open_all [0..<max 1 (nat total_data_shelfs)] h) (\<lambda>(ret, h).
                  if ret \<noteq> NO_ERROR then Inr (ret, h)
                  else rbind (heap_MinAllocSize h) (\<lambda>min_alloc.
                    let h = h\<lparr>min_obj := min_alloc, zh_is_open := True\<rparr>
                    in Inr (NO_ERROR, if flags AND NVMM_NO_BG_THREAD \<noteq> 0 then h\<lparr>no_bgthread := True\<rparr>
                              else (StartWorker h)\<lparr>cleaner_running := True, no_bgthread := False\<rparr>)))))))))"

text \<open>The destructor.\<close>

definition EpochZoneHeap_delete :: "zheap \<Rightarrow> zheap result" where
  "EpochZoneHeap_delete h = (if zh_is_open h then rbind (heap_Close h) (\<lambda>(_, h). Inr h) else Inr h)"

section \<open>The rounds of the worker\<close>

text \<open>\<open>epochs i\<close> is the epoch the critical section for shelf \<open>i\<close> reports. The first component says
  whether the worker ends.\<close>

definition worker_destroyed :: "zheap \<Rightarrow> (bool \<times> zheap) result" where
  "worker_destroyed h =
     rbind (invalidate_shelfs [0..<nat (total_mapped_shelfs h)] (h\<lparr>is_invalid := True\<rparr>)) (\<lambda>h.
     rbind (heap_Close h) (\<lambda>(_, h). Inr (True, h)))"

fun worker_shelfs :: "(nat \<Rightarrow> int) \<Rightarrow> nat list \<Rightarrow> zheap \<Rightarrow> (bool \<times> zheap) result" where
  "worker_shelfs epochs [] h = Inr (False, h)"
| "worker_shelfs epochs (i # is) h =
     rbind (gh_check h) (\<lambda>_.
       if destroy_in_progress h \<noteq> 0 then worker_destroyed h
       else rbind (list_of_epoch (epochs i)) (\<lambda>k.
         rbind (clean_list kFreeCnt i k h) (\<lambda>h.
           if destroy_in_progress h \<noteq> 0 then worker_destroyed h else worker_shelfs epochs is h)))"

definition worker_round :: "(nat \<Rightarrow> int) \<Rightarrow> zheap \<Rightarrow> (bool \<times> zheap) result" where
  "worker_round epochs h =
     (let h = h\<lparr>cleaner_running := True\<rparr>
      in if cleaner_stop h then Inr (True, h) else worker_shelfs epochs [0..<nat (total_mapped_shelfs h)] h)"

section \<open>Permissions\<close>

definition OP_RESIZE :: u64 where "OP_RESIZE = 1"
definition OP_CHANGE_PERM :: u64 where "OP_CHANGE_PERM = 2"

definition begin_op :: "u64 \<Rightarrow> zheap \<Rightarrow> u64 \<times> zheap" where
  "begin_op op h = (op_in_progress h, if op_in_progress h = 0 then h\<lparr>op_in_progress := op\<rparr> else h)"

fun set_perm_shelfs :: "mode_t \<Rightarrow> nat list \<Rightarrow> zheap \<Rightarrow> (error_code \<times> zheap) result" where
  "set_perm_shelfs mode [] h = Inr (NO_ERROR, h)"
| "set_perm_shelfs mode (i # is) h =
     rbind (rmb_at h (int i)) (\<lambda>sh. case sh_SetPermission sh mode (os h) of (ret, w) \<Rightarrow>
       if ret \<noteq> NO_ERROR then Inr (ret, h\<lparr>os := w\<rparr>) else set_perm_shelfs mode is (h\<lparr>os := w\<rparr>))"

definition heap_SetPermission :: "mode_t \<Rightarrow> zheap \<Rightarrow> (error_code \<times> zheap) result" where
  "heap_SetPermission mode h =
     (if \<not> zh_is_open h then Inr (HEAP_NOT_OPEN, h)
      else case begin_op OP_CHANGE_PERM h of (old_value, h) \<Rightarrow>
        if old_value \<noteq> 0 then Inr (HEAP_BUSY, h)
        else rbind (region_of h) (\<lambda>r. case sr_GetPermission r (os h) of (ret, perm, w) \<Rightarrow>
          let h = h\<lparr>os := w\<rparr>
          in if ret \<noteq> NO_ERROR then Inr (HEAP_SET_PERMISSION_FAILED, h\<lparr>op_in_progress := 0\<rparr>)
             else if perm = Some (mode AND PERM_MASK) then Inr (NO_ERROR, h\<lparr>op_in_progress := 0\<rparr>)
             else case pool_SetPermission (zpool h) mode (os h) of (ret, w) \<Rightarrow>
               let h = h\<lparr>os := w\<rparr>
               in if ret \<noteq> NO_ERROR then Inr (HEAP_SET_PERMISSION_FAILED, h\<lparr>op_in_progress := 0\<rparr>)
                  else rbind (OpenNewShelfs h) (\<lambda>(_, h).
                    rbind (get_total_data_shelfs h) (\<lambda>n.
                    rbind (set_perm_shelfs mode [0..<nat n] h) (\<lambda>(ret, h).
                      if ret \<noteq> NO_ERROR then Inr (HEAP_SET_PERMISSION_FAILED, h\<lparr>op_in_progress := 0\<rparr>)
                      else case sr_SetPermission r mode (os h) of (ret, w) \<Rightarrow>
                        let h = h\<lparr>os := w, op_in_progress := 0\<rparr>
                        in Inr (if ret \<noteq> NO_ERROR then HEAP_SET_PERMISSION_FAILED else NO_ERROR, h))))))"

definition heap_GetPermission :: "zheap \<Rightarrow> (error_code \<times> u32 option \<times> zheap) result" where
  "heap_GetPermission h =
     (if \<not> zh_is_open h then Inr (HEAP_GET_PERMISSION_FAILED, None, h)
      else rbind (region_of h) (\<lambda>r. case sr_GetPermission r (os h) of (ret, perm, w) \<Rightarrow>
        Inr (if ret \<noteq> NO_ERROR then HEAP_GET_PERMISSION_FAILED else NO_ERROR, perm, h\<lparr>os := w\<rparr>)))"

section \<open>Resize\<close>

definition resize_fail :: "nat \<Rightarrow> u64 \<Rightarrow> error_code \<Rightarrow> zheap \<Rightarrow> (error_code \<times> zheap) result" where
  "resize_fail i len ret h = rbind (unmap_header i len (h\<lparr>op_in_progress := 0\<rparr>)) (\<lambda>(_, h). Inr (ret, h))"

text \<open>With the header of the new shelf \<open>i\<close> mapped: a shelf an unfinished resize left is removed, the
  new shelf is added and published.\<close>

definition resize_shelf :: "nat \<Rightarrow> u64 \<Rightarrow> u64 \<Rightarrow> u64 \<Rightarrow> mode_t \<Rightarrow> zheap \<Rightarrow> (error_code \<times> zheap) result option" where
  "resize_shelf i current_header new_header shelf_size perm h =
     (let h = h\<lparr>delayed := (delayed h)(i := (\<lambda>_. empty_stack))\<rparr>;
          header = (case mapped_addr h i of Some a \<Rightarrow> a | None \<Rightarrow> 0) + lists_size
      in obind (Some (rbind (CheckShelf (zpool h) (of_nat (i + 1)) (os h)) (\<lambda>found.
                  if found then RemoveShelf (zpool h) (of_nat (i + 1)) (os h) else Inr (NO_ERROR, os h)))) (\<lambda>(ret, w).
        let h = h\<lparr>os := w\<rparr>
        in if ret \<noteq> NO_ERROR then Some (resize_fail i new_header HEAP_RESIZE_FAILED h)
           else obind (add_data_shelf i (Some shelf_size) header (min_obj h) perm h) (\<lambda>(ret, h).
             if ret \<noteq> NO_ERROR then Some (resize_fail i new_header ret h)
             else Some (OpenNewShelfs
               (h\<lparr>sz := (sz h)(i := \<lparr>headersize = new_header, headeroffset = current_header, shelfsize = shelf_size\<rparr>),
                  total_shelfs := total_shelfs h + 1, op_in_progress := 0\<rparr>)))))"

definition heap_Resize :: "u64 \<Rightarrow> u64 \<Rightarrow> zheap \<Rightarrow> (error_code \<times> zheap) result option" where
  "heap_Resize page_size len h =
     (if \<not> zh_is_open h then Some (Inr (HEAP_NOT_OPEN, h))
      else case begin_op OP_RESIZE h of (old_value, h) \<Rightarrow>
        if old_value \<noteq> 0 then Some (Inr (HEAP_BUSY, h))
        else obind (Some (region_of h)) (\<lambda>r. case sr_GetPermission r (os h) of (ret, perm, w) \<Rightarrow>
          let h = h\<lparr>os := w\<rparr>
          in if ret \<noteq> NO_ERROR then Some (Inr (HEAP_RESIZE_FAILED, h\<lparr>op_in_progress := 0\<rparr>))
             else obind (Some (get_total_data_shelfs h)) (\<lambda>shelf_num.
               if shelf_num \<ge> int (unat kMaxShelfCount) - 1 then Some (Inr (HEAP_RESIZE_FAILED, h\<lparr>op_in_progress := 0\<rparr>))
               else obind (Some (get_total_header_size h)) (\<lambda>current_header.
               obind (Some (get_total_size h)) (\<lambda>current_total.
                 if len \<le> current_total then Some (Inr (NO_ERROR, h\<lparr>op_in_progress := 0\<rparr>))
                 else
                   let shelf_size = next_power_of_two (len - current_total);
                       new_header = get_header_size_from_size page_size shelf_size (min_obj h) (word_of_int shelf_num);
                       total_header = new_header + current_header
                   in obind (Some (sr_Size r (os h))) (\<lambda>(cur, w).
                     obind (Some (if cur \<ge> total_header then Inr (NO_ERROR, w) else sr_Resize r total_header w)) (\<lambda>(ret, w).
                       let h = h\<lparr>os := w\<rparr>
                       in if ret \<noteq> NO_ERROR then Some (Inr (ret, h\<lparr>op_in_progress := 0\<rparr>))
                          else obind (Some (map_header (nat shelf_num) new_header h)) (\<lambda>(ret, h).
                            if ret \<noteq> NO_ERROR then Some (Inr (HEAP_RESIZE_FAILED, h\<lparr>op_in_progress := 0\<rparr>))
                            else resize_shelf (nat shelf_num) current_header new_header shelf_size (the perm) h))))))))"

section \<open>Destroy\<close>

text \<open>The data shelves are unmapped from the shelf manager and removed from the pool. The memory behind
  a removed file stays as it is for those who have it mapped.\<close>

fun destroy_shelfs :: "nat list \<Rightarrow> zheap \<Rightarrow> (error_code \<times> zheap) result" where
  "destroy_shelfs [] h = Inr (NO_ERROR, h)"
| "destroy_shelfs (i # is) h =
     rbind (GetShelfPath (zpool h) (of_nat (i + 1)) (os h)) (\<lambda>(ret, path).
       if ret \<noteq> NO_ERROR then Inl Assert_Failed
       else rbind (shelf_id (pool_id h) (of_nat (i + 1))) (\<lambda>sid.
         rbind (sh_Destroy (ShelfHeap_id (the path) sid) (mgr h) (os h)) (\<lambda>(_, _, sm, w).
           rbind (RemoveShelf (zpool h) (of_nat (i + 1)) w) (\<lambda>(ret, w).
             let h = h\<lparr>mgr := sm, os := w\<rparr>
             in if ret \<noteq> NO_ERROR then rbind (close_pool h) (\<lambda>(_, h). Inr (HEAP_DESTROY_FAILED, h))
                else destroy_shelfs is h))))"

definition destroy_finish :: "zheap \<Rightarrow> (error_code \<times> zheap) result" where
  "destroy_finish h =
     rbind (GetShelfPath (zpool h) kHeaderIdx (os h)) (\<lambda>(ret, path).
       if ret \<noteq> NO_ERROR then Inl Assert_Failed
       else rbind (sr_Destroy (ShelfRegion (the path))) (\<lambda>_.
         rbind (RemoveShelf (zpool h) kHeaderIdx (os h)) (\<lambda>(ret, w).
           let h = h\<lparr>os := w\<rparr>
           in if ret \<noteq> NO_ERROR then rbind (close_pool h) (\<lambda>(_, h). Inr (HEAP_DESTROY_FAILED, h))
              else rbind (close_pool h) (\<lambda>(ret, h).
                if ret \<noteq> NO_ERROR then Inr (HEAP_DESTROY_FAILED, h)
                else rbind (pool_Destroy (zpool h) (os h)) (\<lambda>(ret, p, w).
                  Inr (if ret \<noteq> NO_ERROR then HEAP_DESTROY_FAILED else ret, h\<lparr>zpool := p, os := w\<rparr>))))))"

definition heap_Destroy :: "zheap \<Rightarrow> (error_code \<times> zheap) result" where
  "heap_Destroy h =
     (if zh_is_open h then Inr (HEAP_IS_OPEN, h)
      else if \<not> pool_Exist (zpool h) (os h) then Inr (POOL_NOT_FOUND, h)
      else rbind (open_pool h) (\<lambda>(ret, h).
        if ret \<noteq> NO_ERROR then Inr (HEAP_DESTROY_FAILED, h)
        else rbind (GetShelfPath (zpool h) kHeaderIdx (os h)) (\<lambda>(ret, path).
          if ret \<noteq> NO_ERROR then rbind (close_pool h) (\<lambda>(_, h). Inr (HEAP_DESTROY_FAILED, h))
          else rbind (open_region (the path) h) (\<lambda>(ret, h).
            if ret \<noteq> NO_ERROR then rbind (close_pool h) (\<lambda>(_, h). Inr (HEAP_DESTROY_FAILED, h))
            else rbind (map_gh h) (\<lambda>(ret, h).
              if ret \<noteq> NO_ERROR
              then rbind (close_region h) (\<lambda>(ret, h).
                     if ret \<noteq> NO_ERROR then Inr (HEAP_DESTROY_FAILED, h)
                     else rbind (rbind (delete_region h) close_pool) (\<lambda>(_, h). Inr (HEAP_DESTROY_FAILED, h)))
              else let h = h\<lparr>destroy_in_progress := 1\<rparr>
                   in rbind (pool_Recover (zpool h) (os h)) (\<lambda>(_, w).
                     let h = h\<lparr>os := w\<rparr>
                     in rbind (get_total_data_shelfs h) (\<lambda>total_data_shelfs.
                       if total_data_shelfs = - 1 then Inr (HEAP_DESTROY_FAILED, h)
                       else rbind (unmap_gh h) (\<lambda>(_, h).
                         rbind (close_region h) (\<lambda>(ret, h).
                           if ret \<noteq> NO_ERROR then Inr (HEAP_DESTROY_FAILED, h)
                           else rbind (rbind (delete_region h) (destroy_shelfs [0..<nat total_data_shelfs])) (\<lambda>(ret, h).
                             if ret \<noteq> NO_ERROR then Inr (ret, h) else destroy_finish h))))))))))"

end
