(* ===== verification/Memory_Manager.thy ===== *)
theory Memory_Manager
  imports Boot_Shelf Pool_Region Epoch_Zone_Admin
begin

text \<open>
  The memory manager (\<open>src/memory_manager.cc\<close>), the interface of the library: it creates, finds and
  destroys the heaps and regions of a node, one per pool id, and maps global pointers. Types and
  locks of the pools are in the root shelf that all processes map. The functions of the class
  \<open>MemoryManager\<close> only pass their arguments on to those of \<open>Impl_\<close>, which are translated.
\<close>

section \<open>State\<close>

text \<open>
  \<open>mm_impl\<close> is the object; its pointers are addresses in the mapping of the root shelf. A zone heap
  keeps its shared memory in its record, so that the last record of a pool's heap is kept in
  \<open>heap_mem\<close>: a new heap object of the pool finds that memory.
\<close>

record mm_impl =
  is_ready :: bool
  root_shelf :: boot_shelf
  locks_at :: u64
  types_at :: u64
  bmap_at :: u64
  metadata_regionid_root :: u64
  metadata_regionname_root :: u64
  atl_regiondata_root :: u64

record mm_state =
  mm :: mm_impl
  mm_cfg :: config
  mm_mgr :: manager
  mm_os :: world
  heap_mem :: "PoolId \<Rightarrow> zheap"

datatype pool_type = NONE | REGION | HEAP

text \<open>Enumerators and their numbers. \<open>GetType\<close> converts a 64-bit number to the enumeration, whose
  underlying type has 32 bits.\<close>

fun type_word :: "pool_type \<Rightarrow> u64" where
  "type_word NONE = 0"
| "type_word REGION = 1"
| "type_word HEAP = 2"

definition Impl_new :: "config \<Rightarrow> mm_impl \<Rightarrow> mm_impl" where
  "Impl_new c junk = junk\<lparr>is_ready := False, root_shelf := BootShelf (RootShelfPath c), locks_at := 0, types_at := 0\<rparr>"

section \<open>The root shelf in memory\<close>

text \<open>The file behind an address and the byte in it.\<close>

definition root_byte :: "u64 \<Rightarrow> mm_state \<Rightarrow> (nat \<times> nat) result" where
  "root_byte ptr s =
     (case (bs_fd (root_shelf (mm s)), bs_addr (root_shelf (mm s))) of
        (Some n, Some a) \<Rightarrow>
          (let byte = unat (ptr - a)
           in rbind (check (ptr \<ge> a \<and> ptr - a < kBootShelfSize) Out_Of_Bounds) (\<lambda>_.
              rbind (touch_file n byte (mm_os s)) (\<lambda>_. Inr (n, byte))))
      | _ \<Rightarrow> Inl Out_Of_Bounds)"

definition root_run :: "u64 \<Rightarrow> (nat \<Rightarrow> famem \<Rightarrow> ('a \<times> famem) option) \<Rightarrow> mm_state \<Rightarrow> ('a \<times> mm_state) result" where
  "root_run ptr f s =
     rbind (root_byte ptr s) (\<lambda>(n, byte).
       case f (byte div 4) (file_cells n (mm_os s)) of
         None \<Rightarrow> Inl Exited
       | Some (x, c) \<Rightarrow> Inr (x, s\<lparr>mm_os := set_file_cells n c (mm_os s)\<rparr>))"

definition no_result :: "(nat \<Rightarrow> famem \<Rightarrow> famem option) \<Rightarrow> nat \<Rightarrow> famem \<Rightarrow> (unit \<times> famem) option" where
  "no_result f l c = map_option (Pair ()) (f l c)"

text \<open>
  \<open>fam_spin_lock\<close>: a process that does not get the lock at once waits for steps of others. Calls
  run one after the other here, so then it does not return (\<open>None\<close>); theory \<open>Fam_Spinlock\<close> has the
  interleaved executions.
\<close>

definition mm_Lock :: "PoolId \<Rightarrow> mm_state \<Rightarrow> mm_state result option" where
  "mm_Lock pid s =
     obind (Some (root_run (locks_at (mm s) + 64 * ucast pid) spin_lock_draw s)) (\<lambda>(c, s).
       case c of
         Spin t \<Rightarrow>
           obind (Some (root_run (locks_at (mm s) + 64 * ucast pid) (\<lambda>l. spin_lock_poll l t) s)) (\<lambda>(c, s).
             if c = In then Some (Inr s) else None)
       | _ \<Rightarrow> Some (Inr s))"

definition mm_Unlock :: "PoolId \<Rightarrow> mm_state \<Rightarrow> mm_state result" where
  "mm_Unlock pid s =
     rbind (root_run (locks_at (mm s) + 64 * ucast pid) (no_result fam_spin_unlock) s) (\<lambda>(_, s). Inr s)"

definition SetType :: "PoolId \<Rightarrow> pool_type \<Rightarrow> mm_state \<Rightarrow> mm_state result" where
  "SetType pid t s =
     rbind (root_run (types_at (mm s) + 64 * ucast pid) (no_result (\<lambda>l. fam_atomic_64_write l (type_word t))) s)
       (\<lambda>(_, s). Inr s)"

definition GetType :: "PoolId \<Rightarrow> mm_state \<Rightarrow> (u32 \<times> mm_state) result" where
  "GetType pid s =
     rbind (root_run (types_at (mm s) + 64 * ucast pid) fam_atomic_64_read s) (\<lambda>(x, s). Inr (ucast x, s))"

definition type_num :: "pool_type \<Rightarrow> u32" where
  "type_num t = ucast (type_word t)"

section \<open>Start and stop\<close>

definition mm_Init :: "mm_state \<Rightarrow> mm_state result" where
  "mm_Init s =
     (let w = mm_os s; root = root_shelf (mm s)
      in if lookup w (ShelfBase (mm_cfg s)) = None then Inl Exited
         else if \<not> bs_Exist root w then Inl Exited
         else rbind (RootShelf_Open root w) (\<lambda>(ret, root, w).
           if ret \<noteq> NO_ERROR then Inl Exited
           else let locks = bs_Addr root;
                    types = bs_Addr root + ucast kMaxPoolCount * 64;
                    bmap = types + (ucast kMaxPoolCount * 64) * 64;
                    next = bmap + ucast kMaxPoolCount div 8;
                    addr = (next + 7) AND NOT 7
                in Inr (s\<lparr>mm_os := w, mm := (mm s)\<lparr>root_shelf := root, locks_at := locks, types_at := types, bmap_at := bmap,
                     metadata_regionid_root := addr + 8, metadata_regionname_root := addr + 16,
                     atl_regiondata_root := addr + 24, is_ready := True\<rparr>\<rparr>)))"

definition mm_Final :: "mm_state \<Rightarrow> mm_state result" where
  "mm_Final s =
     (case bs_Close (root_shelf (mm s)) (mm_os s) of (ret, root, w) \<Rightarrow>
        if ret \<noteq> NO_ERROR then Inl Exited
        else Inr (s\<lparr>mm_os := w, mm := (mm s)\<lparr>root_shelf := root, is_ready := False\<rparr>\<rparr>))"

definition mm_Start :: "mm_state \<Rightarrow> mm_state result" where
  "mm_Start s = mm_Init (s\<lparr>mm := Impl_new (mm_cfg s) (mm s)\<rparr>)"

definition mm_Stop :: "mm_state \<Rightarrow> mm_state result" where
  "mm_Stop s = rbind (mm_Final s) (\<lambda>s. Inr (s\<lparr>mm_os := BootShelf_delete (root_shelf (mm s)) (mm_os s)\<rparr>))"

section \<open>Regions\<close>

text \<open>Every operation on a pool asserts that the manager is ready and the id is not 0.\<close>

definition mm_ready :: "PoolId \<Rightarrow> mm_state \<Rightarrow> unit result" where
  "mm_ready pid s = check (is_ready (mm s) \<and> 0 < pid) Assert_Failed"

definition new_region :: "PoolId \<Rightarrow> mm_state \<Rightarrow> pool_region result" where
  "new_region pid s = PoolRegion_new (ShelfBase (mm_cfg s)) (ShelfUser (mm_cfg s)) pid"

definition delete_pool_region :: "pool_region \<Rightarrow> mm_state \<Rightarrow> mm_state result" where
  "delete_pool_region r s = rbind (PoolRegion_delete r (mm_os s)) (\<lambda>w. Inr (s\<lparr>mm_os := w\<rparr>))"

text \<open>The end of \<open>Create\<close> and \<open>Destroy\<close>: the new type is set when the code is \<open>NO_ERROR\<close>.\<close>

definition finish_type :: "PoolId \<Rightarrow> error_code \<Rightarrow> pool_type \<Rightarrow> error_code \<Rightarrow> mm_state \<Rightarrow> (error_code \<times> mm_state) result" where
  "finish_type pid ret t failed s =
     (if ret = NO_ERROR
      then rbind (SetType pid t s) (\<lambda>s. rbind (mm_Unlock pid s) (\<lambda>s. Inr (ret, s)))
      else rbind (mm_Unlock pid s) (\<lambda>s. Inr (failed, s)))"

definition CreateRegion :: "PoolId \<Rightarrow> u64 \<Rightarrow> mm_state \<Rightarrow> (error_code \<times> mm_state) result option" where
  "CreateRegion pid len s =
     obind (Some (mm_ready pid s)) (\<lambda>_.
     obind (mm_Lock pid s) (\<lambda>s.
     obind (Some (GetType pid s)) (\<lambda>(t, s).
       if t \<noteq> type_num NONE then Some (rbind (mm_Unlock pid s) (\<lambda>s. Inr (ID_FOUND, s)))
       else obind (Some (new_region pid s)) (\<lambda>r.
         obind (pr_Create len r (mm_os s)) (\<lambda>(ret, r, w).
         obind (Some (finish_type pid ret REGION ID_FOUND (s\<lparr>mm_os := w\<rparr>))) (\<lambda>(ret, s).
         obind (Some (delete_pool_region r s)) (\<lambda>s. Some (Inr (ret, s)))))))))"

definition DestroyRegion :: "PoolId \<Rightarrow> mm_state \<Rightarrow> (error_code \<times> mm_state) result option" where
  "DestroyRegion pid s =
     obind (Some (mm_ready pid s)) (\<lambda>_.
     obind (mm_Lock pid s) (\<lambda>s.
     obind (Some (GetType pid s)) (\<lambda>(t, s).
       if t \<noteq> type_num REGION then Some (rbind (mm_Unlock pid s) (\<lambda>s. Inr (ID_NOT_FOUND, s)))
       else Some (rbind (new_region pid s) (\<lambda>r.
         rbind (pr_Destroy r (mm_os s)) (\<lambda>(ret, r, w).
         rbind (finish_type pid ret NONE ID_NOT_FOUND (s\<lparr>mm_os := w\<rparr>)) (\<lambda>(ret, s).
         rbind (delete_pool_region r s) (\<lambda>s. Inr (ret, s)))))))))"

text \<open>The result is the new object.\<close>

definition FindRegion :: "PoolId \<Rightarrow> mm_state \<Rightarrow> (error_code \<times> pool_region option \<times> mm_state) result option" where
  "FindRegion pid s =
     obind (Some (mm_ready pid s)) (\<lambda>_.
     obind (mm_Lock pid s) (\<lambda>s.
     obind (Some (GetType pid s)) (\<lambda>(t, s).
       if t \<noteq> type_num REGION then Some (rbind (mm_Unlock pid s) (\<lambda>s. Inr (ID_NOT_FOUND, None, s)))
       else Some (rbind (new_region pid s) (\<lambda>r.
         rbind (mm_Unlock pid s) (\<lambda>s.
           if pr_Exist r (mm_os s) then Inr (NO_ERROR, Some r, s)
           else rbind (delete_pool_region r s) (\<lambda>s. Inr (ID_NOT_FOUND, None, s))))))))"

section \<open>Heaps\<close>

definition new_heap :: "PoolId \<Rightarrow> mm_state \<Rightarrow> zheap result" where
  "new_heap pid s =
     EpochZoneHeap_new (ShelfBase (mm_cfg s)) (ShelfUser (mm_cfg s)) pid ((heap_mem s pid)\<lparr>os := mm_os s, mgr := mm_mgr s\<rparr>)"

definition put_heap :: "PoolId \<Rightarrow> zheap \<Rightarrow> mm_state \<Rightarrow> mm_state" where
  "put_heap pid h s = s\<lparr>heap_mem := (heap_mem s)(pid := h), mm_os := os h, mm_mgr := mgr h\<rparr>"

text \<open>The destructor of a local heap object and of its pool.\<close>

definition delete_heap :: "PoolId \<Rightarrow> mm_state \<Rightarrow> mm_state result" where
  "delete_heap pid s =
     rbind (EpochZoneHeap_delete ((heap_mem s pid)\<lparr>os := mm_os s, mgr := mm_mgr s\<rparr>)) (\<lambda>h.
       Inr (put_heap pid (h\<lparr>os := Pool_delete (zpool h) (os h)\<rparr>) s))"

definition CreateHeap :: "u64 \<Rightarrow> PoolId \<Rightarrow> u64 \<Rightarrow> u64 \<Rightarrow> mode_t \<Rightarrow> mm_state \<Rightarrow> (error_code \<times> mm_state) result option" where
  "CreateHeap page_size pid len min_alloc_size mode s =
     obind (Some (mm_ready pid s)) (\<lambda>_.
     obind (mm_Lock pid s) (\<lambda>s.
     obind (Some (GetType pid s)) (\<lambda>(t, s).
       if t \<noteq> type_num NONE then Some (rbind (mm_Unlock pid s) (\<lambda>s. Inr (ID_FOUND, s)))
       else obind (Some (new_heap pid s)) (\<lambda>h.
         obind (heap_Create page_size len min_alloc_size mode h) (\<lambda>(ret, h).
         obind (Some (finish_type pid ret HEAP ID_FOUND (put_heap pid h s))) (\<lambda>(ret, s).
         obind (Some (delete_heap pid s)) (\<lambda>s. Some (Inr (ret, s)))))))))"

definition DestroyHeap :: "PoolId \<Rightarrow> mm_state \<Rightarrow> (error_code \<times> mm_state) result option" where
  "DestroyHeap pid s =
     obind (Some (mm_ready pid s)) (\<lambda>_.
     obind (mm_Lock pid s) (\<lambda>s.
     obind (Some (GetType pid s)) (\<lambda>(t, s).
       if t \<noteq> type_num HEAP then Some (rbind (mm_Unlock pid s) (\<lambda>s. Inr (ID_NOT_FOUND, s)))
       else Some (rbind (new_heap pid s) (\<lambda>h.
         rbind (heap_Destroy h) (\<lambda>(ret, h).
         rbind (finish_type pid ret NONE ID_NOT_FOUND (put_heap pid h s)) (\<lambda>(ret, s).
         rbind (delete_heap pid s) (\<lambda>s. Inr (ret, s)))))))))"

text \<open>An object whose pool does not exist is not deleted.\<close>

definition FindHeap :: "PoolId \<Rightarrow> mm_state \<Rightarrow> (error_code \<times> zheap option \<times> mm_state) result option" where
  "FindHeap pid s =
     obind (Some (mm_ready pid s)) (\<lambda>_.
     obind (mm_Lock pid s) (\<lambda>s.
     obind (Some (GetType pid s)) (\<lambda>(t, s).
       if t \<noteq> type_num HEAP then Some (rbind (mm_Unlock pid s) (\<lambda>s. Inr (ID_NOT_FOUND, None, s)))
       else Some (rbind (new_heap pid s) (\<lambda>h.
         rbind (mm_Unlock pid s) (\<lambda>s.
           if heap_Exist (h\<lparr>os := mm_os s\<rparr>) then Inr (NO_ERROR, Some h, s) else Inr (ID_NOT_FOUND, None, s)))))))"

section \<open>Pointers\<close>

text \<open>The aligned range around \<open>len\<close> bytes at \<open>offset\<close>: its start and its size. \<open>off_t\<close> is signed.\<close>

definition aligned_range :: "u64 \<Rightarrow> u64 \<Rightarrow> u64 \<Rightarrow> (u64 \<times> u64) result" where
  "aligned_range page_size offset len =
     (let aligned_start = offset - offset mod page_size;
          aligned_end = (offset + len) + (page_size - (offset + len) mod page_size);
          aligned_size = aligned_end - aligned_start
      in if uint page_size dvd sint aligned_start \<and> uint page_size dvd sint aligned_end \<and> aligned_size mod page_size = 0
         then Inr (aligned_start, aligned_size) else Inl Assert_Failed)"

definition MapPointer :: "u64 \<Rightarrow> GlobalPtr \<Rightarrow> u64 \<Rightarrow> mm_state \<Rightarrow> (error_code \<times> u64 option \<times> mm_state) result" where
  "MapPointer page_size ptr len s =
     rbind (check (is_ready (mm s)) Assert_Failed) (\<lambda>_.
       let sid = DecodeShelfId ptr; pid = DecodePoolId sid; offset = DecodeOffset ptr
       in if \<not> global_ptr_IsValid ptr then Inr (INVALID_PTR, None, s)
          else if pid = 0 then Inr (INVALID_PTR, None, s)
          else rbind (aligned_range page_size offset len) (\<lambda>(_, aligned_size).
            rbind (Pool_new (ShelfBase (mm_cfg s)) (ShelfUser (mm_cfg s)) pid) (\<lambda>p.
            rbind (pool_Open False p (mm_os s)) (\<lambda>(ret, p, w).
              if ret \<noteq> NO_ERROR then Inr (MAP_POINTER_FAILED, None, s\<lparr>mm_os := Pool_delete p w\<rparr>)
              else rbind (GetShelfPath p (DecodeShelfIndex sid) w) (\<lambda>(ret, path).
                if ret \<noteq> NO_ERROR then Inr (MAP_POINTER_FAILED, None, s\<lparr>mm_os := Pool_delete p w\<rparr>)
                else case sf_Open (ShelfFile (the path)) w of (ret, f, w) \<Rightarrow>
                  if ret \<noteq> NO_ERROR then Inr (MAP_POINTER_FAILED, None, s\<lparr>mm_os := Pool_delete p w\<rparr>)
                  else case sf_Map_range f aligned_size False w of (ret, aligned_addr, w) \<Rightarrow>
                    if ret \<noteq> NO_ERROR
                    then Inr (MAP_POINTER_FAILED, None, s\<lparr>mm_os := Pool_delete p (snd (snd (sf_Close f w)))\<rparr>)
                    else case sf_Close f w of (ret, f, w) \<Rightarrow>
                      if ret \<noteq> NO_ERROR
                      then Inr (MAP_POINTER_FAILED, None, s\<lparr>mm_os := Pool_delete p (snd (snd (sf_Close f w)))\<rparr>)
                      else rbind (pool_Close False p w) (\<lambda>(ret, p, w).
                        let s = s\<lparr>mm_os := Pool_delete p w\<rparr>
                        in if ret \<noteq> NO_ERROR then Inr (MAP_POINTER_FAILED, None, s)
                           else Inr (NO_ERROR, map_option (\<lambda>a. a + offset mod page_size) aligned_addr, s)))))))"

definition UnmapPointer :: "u64 \<Rightarrow> GlobalPtr \<Rightarrow> u64 \<Rightarrow> u64 \<Rightarrow> mm_state \<Rightarrow> (error_code \<times> mm_state) result" where
  "UnmapPointer page_size ptr local_addr len s =
     rbind (check (is_ready (mm s)) Assert_Failed) (\<lambda>_.
       let offset = DecodeOffset ptr
       in rbind (aligned_range page_size offset len) (\<lambda>(_, aligned_size).
            case sf_Unmap_range (local_addr - offset mod page_size) aligned_size (mm_os s) of (ret, w) \<Rightarrow>
              Inr (ret, s\<lparr>mm_os := w\<rparr>)))"

text \<open>The result of \<open>GlobalToLocal\<close> is \<open>NULL\<close> where there is no address.\<close>

definition mm_GlobalToLocal :: "GlobalPtr \<Rightarrow> mm_state \<Rightarrow> (u64 \<times> mm_state) result" where
  "mm_GlobalToLocal ptr s =
     rbind (check (is_ready (mm s)) Assert_Failed) (\<lambda>_.
       if \<not> global_ptr_IsValid ptr then Inr (NULL, s)
       else let sid = DecodeShelfId ptr; offset = DecodeOffset ptr; addr = FindBase sid (mm_mgr s); pid = DecodePoolId sid
            in if addr \<noteq> NULL then Inr (addr + offset, s)
               else if pid = 0 then Inr (NULL, s)
               else rbind (Pool_new (ShelfBase (mm_cfg s)) (ShelfUser (mm_cfg s)) pid) (\<lambda>p.
                 rbind (pool_Open False p (mm_os s)) (\<lambda>(ret, p, w).
                   if ret \<noteq> NO_ERROR then Inr (NULL, s\<lparr>mm_os := Pool_delete p w\<rparr>)
                   else rbind (GetShelfPath p (DecodeShelfIndex sid) w) (\<lambda>(ret, path).
                     if ret \<noteq> NO_ERROR then Inr (NULL, s\<lparr>mm_os := Pool_delete p w\<rparr>)
                     else case FindBase_path (the path) sid (mm_mgr s) w of (addr, sm, w) \<Rightarrow>
                       rbind addr (\<lambda>addr.
                       rbind (pool_Close False p w) (\<lambda>(_, p, w).
                         Inr (if addr \<noteq> NULL then addr + offset else NULL, s\<lparr>mm_mgr := sm, mm_os := Pool_delete p w\<rparr>)))))))"

definition LocalToGlobal :: "u64 \<Rightarrow> mm_state \<Rightarrow> GlobalPtr" where
  "LocalToGlobal addr s =
     (case FindShelf addr NULL (mm_mgr s) of (sid, base) \<Rightarrow>
        if \<not> shelf_id_IsValid sid then 0 else EncodeGlobalPtr sid (addr - base))"

section \<open>Root pointers\<close>

definition METADATA_REGION_ID :: int where "METADATA_REGION_ID = 1"
definition METADATA_REGION_NAME :: int where "METADATA_REGION_NAME = 2"
definition ATL_REGION_DATA :: int where "ATL_REGION_DATA = 3"

definition GetRegionIdBitmapAddr :: "mm_state \<Rightarrow> u64" where
  "GetRegionIdBitmapAddr s = bmap_at (mm s)"

definition get_root :: "u64 \<Rightarrow> mm_state \<Rightarrow> (GlobalPtr \<times> mm_state) result" where
  "get_root ptr s = root_run ptr fam_atomic_64_read s"

text \<open>A root pointer is set once; later calls return the value that is there.\<close>

definition set_root :: "u64 \<Rightarrow> GlobalPtr \<Rightarrow> mm_state \<Rightarrow> (GlobalPtr \<times> mm_state) result" where
  "set_root ptr regptr s =
     rbind (root_run ptr (\<lambda>l. fam_atomic_64_compare_store l 0 regptr) s) (\<lambda>(resultptr, s).
       Inr (if resultptr = 0 then regptr else resultptr, s))"

definition GetMetadataRegionRootPtr :: "int \<Rightarrow> mm_state \<Rightarrow> (GlobalPtr \<times> mm_state) result" where
  "GetMetadataRegionRootPtr t s =
     (if t = METADATA_REGION_ID then get_root (metadata_regionid_root (mm s)) s
      else if t = METADATA_REGION_NAME then get_root (metadata_regionname_root (mm s)) s
      else Inr (0, s))"

definition SetMetadataRegionRootPtr :: "int \<Rightarrow> GlobalPtr \<Rightarrow> mm_state \<Rightarrow> (GlobalPtr \<times> mm_state) result" where
  "SetMetadataRegionRootPtr t regionPtr s =
     (if t = METADATA_REGION_ID then set_root (metadata_regionid_root (mm s)) regionPtr s
      else if t = METADATA_REGION_NAME then set_root (metadata_regionname_root (mm s)) regionPtr s
      else Inr (0, s))"

definition GetATLRegionRootPtr :: "int \<Rightarrow> mm_state \<Rightarrow> (GlobalPtr \<times> mm_state) result" where
  "GetATLRegionRootPtr t s = (if t = ATL_REGION_DATA then get_root (atl_regiondata_root (mm s)) s else Inr (0, s))"

definition SetATLRegionRootPtr :: "int \<Rightarrow> GlobalPtr \<Rightarrow> mm_state \<Rightarrow> (GlobalPtr \<times> mm_state) result" where
  "SetATLRegionRootPtr t regionPtr s =
     (if t = ATL_REGION_DATA then set_root (atl_regiondata_root (mm s)) regionPtr s else Inr (0, s))"

section \<open>Restart\<close>

text \<open>The managers are singletons that were started before.\<close>

definition RestartNVMM :: "string \<Rightarrow> string \<Rightarrow> epoch_env \<Rightarrow> string \<Rightarrow> string \<Rightarrow> epoch_vec \<Rightarrow> epoch_service \<Rightarrow> mm_state \<Rightarrow>
    (epoch_service \<times> mm_state) result" where
  "RestartNVMM base0 user0 x base user ev e s =
     rbind (em_Stop ev e (mm_os s)) (\<lambda>(ev, w).
     rbind (mm_Stop (s\<lparr>mm_os := w\<rparr>)) (\<lambda>s.
     rbind (StartNVMM base0 user0 x base user (mm_cfg s) (mm_mgr s) ev (mm_os s)) (\<lambda>(c, sm, ev, w).
     rbind (mm_Start (s\<lparr>mm_cfg := c, mm_mgr := sm, mm_os := w\<rparr>)) (\<lambda>s.
     rbind (em_Start x (mm_cfg s) ev (mm_os s)) (\<lambda>(e, w). Inr (e, s\<lparr>mm_os := w\<rparr>))))))"

end
