(* ===== verification/Pool_Lifecycle.thy ===== *)
theory Pool_Lifecycle
  imports Pool_Add Pool_Create Pool_Recovery
begin

text \<open>
  Opening, closing and destroying a pool that exists, when no system call fails: what each does
  to the directory and to the metadata file.
\<close>

section \<open>Closed pools\<close>

definition closed_pool :: "pool \<Rightarrow> bool" where
  "closed_pool p \<longleftrightarrow> \<not> p_is_open p \<and> sf_fd (p_meta p) = None \<and> p_id p < kMaxPoolCount"

text \<open>The metadata file of a pool is inode \<open>n\<close> with the items \<open>its\<close>.\<close>

definition pool_stored :: "pool \<Rightarrow> nat \<Rightarrow> items \<Rightarrow> world \<Rightarrow> bool" where
  "pool_stored p n its w \<longleftrightarrow> lookup w (meta_path p) = Some n \<and> n < next_ino w \<and>
     i_size (inodes w n) = kMetadataShelfSize \<and> table (i_area (inodes w n)) = fresh_table\<lparr>m_items := its\<rparr> \<and>
     (\<forall>i < 128. \<exists>v b. slot_holds its i v b \<and> v < 2 ^ 15)"

definition table_ms :: membership where
  "table_ms = \<lparr>ms_is_open = True, ms_size = 8256, ms_item_count = 128\<rparr>"

definition opened_pool :: "pool \<Rightarrow> nat \<Rightarrow> u64 \<Rightarrow> u64 \<Rightarrow> pool" where
  "opened_pool p n a sz = p\<lparr>p_meta := (p_meta p)\<lparr>sf_fd := Some n\<rparr>, p_size := kMetadataShelfSize, p_addr := Some (a, n),
     p_shelf_size := sz, p_ms := Some table_ms, p_is_open := True\<rparr>"

definition pool_closed_after :: "pool \<Rightarrow> u64 \<Rightarrow> pool" where
  "pool_closed_after p sz = p\<lparr>p_size := 0, p_addr := None, p_shelf_size := sz, p_ms := None\<rparr>"

lemma opened_pool_fields [simp]:
  "p_base (opened_pool p n a sz) = p_base p" "p_prefix (opened_pool p n a sz) = p_prefix p" "p_id (opened_pool p n a sz) = p_id p"
  "p_addr (opened_pool p n a sz) = Some (a, n)" "p_is_open (opened_pool p n a sz)"
  "p_ms (opened_pool p n a sz) = Some table_ms" "p_meta (opened_pool p n a sz) = (p_meta p)\<lparr>sf_fd := Some n\<rparr>"
  "p_shelf_size (opened_pool p n a sz) = sz" "p_size (opened_pool p n a sz) = kMetadataShelfSize"
  by (simp_all add: opened_pool_def)

lemma pool_closed_after_fields [simp]:
  "p_base (pool_closed_after p sz) = p_base p" "p_prefix (pool_closed_after p sz) = p_prefix p" "p_id (pool_closed_after p sz) = p_id p"
  "p_meta (pool_closed_after p sz) = p_meta p" "p_is_open (pool_closed_after p sz) = p_is_open p"
  "meta_path (pool_closed_after p sz) = meta_path p"
  by (simp_all add: pool_closed_after_def meta_path_def)

lemma slot_path_pool [simp]:
  "slot_path (opened_pool p n a sz) = slot_path p" "slot_path (pool_closed_after p sz) = slot_path p"
  by (rule slot_path_eq; simp)+

lemma pool_items_opened [simp]: "pool_items (opened_pool p n a sz) w = m_items (table (i_area (inodes w n)))"
  by (simp add: pool_items_def)

lemma membership_Open_table:
  "membership_Open (membership_new (kMetadataShelfSize - kCacheLineSize)) (fresh_table\<lparr>m_items := its\<rparr>) =
    Inr (NO_ERROR, table_ms)"
  by (simp add: membership_Open_def membership_new_def kMetadataShelfSize_def kCacheLineSize_def membership_Verify_def
      fresh_table_def word_less_nat_alt table_ms_def)

lemma open_stored:
  assumes "closed_pool p" "quiet w" "pool_stored p n its w"
  shows "\<exists>a w'. pool_Open False p w = Inr (NO_ERROR, opened_pool p n a (size_word (i_area (inodes w n))), w') \<and>
    quiet w' \<and> inodes w' = inodes w \<and> next_ino w' = next_ino w \<and> lookup w' = lookup w \<and>
    pool_open (opened_pool p n a (size_word (i_area (inodes w n)))) w'"
proof -
  have c: "\<not> p_is_open p" "sf_fd (p_meta p) = None" "p_id p < kMaxPoolCount" using assms(1) by (simp_all add: closed_pool_def)
  have s: "lookup w (meta_path p) = Some n" "n < next_ino w" "i_size (inodes w n) = kMetadataShelfSize"
    "table (i_area (inodes w n)) = fresh_table\<lparr>m_items := its\<rparr>" "\<forall>i < 128. \<exists>v b. slot_holds its i v b \<and> v < 2 ^ 15"
    using assms(3) by (simp_all add: pool_stored_def)
  from open_map_spec [OF assms(2) c(2) s(1) [unfolded meta_path_def]] obtain a w' where w':
    "OpenMapMetadataShelf p w = Inr (NO_ERROR, p\<lparr>p_meta := (p_meta p)\<lparr>sf_fd := Some n\<rparr>, p_size := kMetadataShelfSize,
       p_addr := Some (a, n)\<rparr>, w')"
    "quiet w'" "inodes w' = inodes w" "next_ino w' = next_ino w" "lookup w' = lookup w" by (auto simp: s(3))
  have "pool_Exist p w" using s(1) by (simp add: pool_Exist_def sf_Exist_def meta_path_def)
  then have "pool_Open False p w = Inr (NO_ERROR, opened_pool p n a (size_word (i_area (inodes w n))), w')"
    using c(1) w'(1,3) s(4) membership_Open_table by (simp add: pool_Open_def read_area_def opened_pool_def Let_def)
  moreover have "pool_open (opened_pool p n a (size_word (i_area (inodes w n)))) w'"
    using c(3) s(2,5) w'(3,4) by (simp add: pool_open_def s(4) table_ms_def)
  ultimately show ?thesis using w' by blast
qed

lemma close_opened:
  assumes "closed_pool p" "quiet w"
  shows "\<exists>w'. pool_Close False (opened_pool p n a sz) w = Inr (NO_ERROR, pool_closed_after p sz, w') \<and> quiet w' \<and>
    inodes w' = inodes w \<and> next_ino w' = next_ino w \<and> lookup w' = lookup w"
proof -
  let ?q = "(opened_pool p n a sz)\<lparr>p_ms := None\<rparr>"
  have "sf_fd (p_meta ?q) = Some n" by simp
  from unmap_close_spec [OF assms(2) this] obtain w' where w':
    "UnmapCloseMetadataShelf ?q w = (NO_ERROR, ?q\<lparr>p_addr := None, p_size := 0, p_meta := (p_meta ?q)\<lparr>sf_fd := None\<rparr>\<rparr>, w')"
    "quiet w'" "inodes w' = inodes w" "next_ino w' = next_ino w" "lookup w' = lookup w" by blast
  have e: "?q\<lparr>p_addr := None, p_size := 0, p_meta := (p_meta ?q)\<lparr>sf_fd := None\<rparr>, p_is_open := False\<rparr> = pool_closed_after p sz"
    using assms(1) by (simp add: opened_pool_def pool_closed_after_def closed_pool_def)
  have "membership_Close table_ms = Inr (NO_ERROR, table_ms\<lparr>ms_is_open := False\<rparr>)" by (simp add: membership_Close_def table_ms_def)
  then have "pool_Close False (opened_pool p n a sz) w = Inr (NO_ERROR, pool_closed_after p sz, w')"
    using w'(1) by (simp add: pool_Close_def Let_def e [simplified])
  with w' show ?thesis by blast
qed

lemma closed_after [simp]: "closed_pool (pool_closed_after p sz) = closed_pool p"
  by (simp add: closed_pool_def)

lemma pool_stored_cong:
  assumes "inodes w' = inodes w" "next_ino w' = next_ino w" "lookup w' (meta_path p) = lookup w (meta_path p)"
  shows "pool_stored p n its w' = pool_stored p n its w"
  using assms by (simp add: pool_stored_def)

section \<open>Destroying a pool without shelves\<close>

lemma destroy_none:
  assumes "pool_open p w" "\<forall>i \<in> set is. i < 128 \<and> \<not> used p w i"
  shows "destroy_shelves p is w = Inr (NO_ERROR, w)"
  using assms(2) by (induction "is") (simp_all add: query_specs(1) [OF assms(1)])

lemma stored_slots:
  assumes "pool_stored p n its w" "i < 128" "inodes w' = inodes w"
  shows "version_of (opened_pool p n a sz) w' i = unat (GetVersionNum (LoadFromFAM its i))"
    "used (opened_pool p n a sz) w' i = TestValidBitWithIndex its i"
  using assms by (simp_all add: version_of_def used_def pool_stored_def)

text \<open>\<open>clean_names\<close>: no file of the directory \<open>l\<close> has a name that recovery could take for a file of a slot.\<close>

definition clean_names :: "pool \<Rightarrow> (string \<Rightarrow> nat option) \<Rightarrow> bool" where
  "clean_names p l \<longleftrightarrow> (\<exists>name. p_prefix p = p_base p @ ''/'' @ name \<and> CHR ''/'' \<notin> set name) \<and>
     (\<forall>q i. l q \<noteq> None \<and> in_dir (p_base p) q \<and> i < 128 \<longrightarrow> \<not> touches p i q) \<and>
     (\<forall>q i. i < 128 \<and> own_file p i q \<longrightarrow> l q = None)"

lemma clean_namesD: "clean_names p l \<Longrightarrow> i < 128 \<Longrightarrow> own_file p i q \<Longrightarrow> l q = None"
  unfolding clean_names_def by blast

lemma touches_pool [simp]: "touches (opened_pool p n a sz) = touches p" "own_file (opened_pool p n a sz) = own_file p"
  "touches (pool_closed_after p sz) = touches p" "own_file (pool_closed_after p sz) = own_file p"
proof -
  have "add_path (opened_pool p n a sz) = add_path p" "add_path (pool_closed_after p sz) = add_path p"
    by (intro ext, simp add: add_path_def)+
  then show "own_file (opened_pool p n a sz) = own_file p" "own_file (pool_closed_after p sz) = own_file p"
    by (intro ext, simp add: own_file_def)+
  show "touches (opened_pool p n a sz) = touches p" "touches (pool_closed_after p sz) = touches p"
    by (intro ext, simp add: touches_def slot_prefix_def)+
qed

lemma destroy_spec:
  assumes "closed_pool p" "quiet w" "pool_stored p n its w" "\<forall>i < 128. \<not> TestValidBitWithIndex its i"
    "clean_names p (lookup w)"
  shows "\<exists>p' w'. pool_Destroy p w = Inr (NO_ERROR, p', w') \<and> quiet w' \<and> next_ino w' = next_ino w \<and>
    lookup w' = (lookup w)(meta_path p := None) \<and> (\<forall>k. k \<noteq> n \<longrightarrow> inodes w' k = inodes w k) \<and>
    sf_fd (p_meta p') = None \<and> \<not> p_is_open p'"
proof -
  let ?sz = "size_word (i_area (inodes w n))"
  have s: "lookup w (meta_path p) = Some n" "table (i_area (inodes w n)) = fresh_table\<lparr>m_items := its\<rparr>"
    "i_size (inodes w n) = kMetadataShelfSize" using assms(3) by (simp_all add: pool_stored_def)
  have ex: "pool_Exist p w" using s(1) by (simp add: pool_Exist_def sf_Exist_def meta_path_def)
  have cl: "\<not> p_is_open p" using assms(1) by (simp add: closed_pool_def)
  from open_stored [OF assms(1-3)] obtain a w1 where w1: "pool_Open False p w = Inr (NO_ERROR, opened_pool p n a ?sz, w1)"
    "quiet w1" "inodes w1 = inodes w" "next_ino w1 = next_ino w" "lookup w1 = lookup w" "pool_open (opened_pool p n a ?sz) w1" by blast
  let ?q = "opened_pool p n a ?sz"
  have unused: "\<not> used ?q w1 i" if "i < 128" for i using stored_slots(2) [OF assms(3) that w1(3)] assms(4) that by simp
  have nm: "names_ok ?q w1" using assms(5) w1(5) by (auto simp: names_ok_def clean_names_def)
  have "\<forall>i < 128. used ?q w1 i \<longrightarrow> 0 < version_of ?q w1 i" using unused by simp
  from recover_spec [OF w1(6,2) nm this] obtain ret w2 where w2: "pool_Recover ?q w1 = Inr (ret, w2)" "quiet w2"
    "inodes w2 = inodes w1" "next_ino w2 = next_ino w1"
    "lookup w2 = (\<lambda>q. if \<exists>i < 128. outdated ?q w1 i q then None else lookup w1 q)" by blast
  have l2: "lookup w2 = lookup w"
  proof
    fix q
    have "lookup w q = None" if "i < 128" "outdated ?q w1 i q" for i
    proof -
      have "version_of ?q w1 i \<le> 2 ^ 16" using pool_slot(2) [OF w1(6) that(1)] by simp
      moreover have "obsolete ?q i (version_of ?q w1 i) q" using that(2) by (simp add: outdated_def)
      ultimately have "own_file ?q i q" using obsolete_own by blast
      then show ?thesis using clean_namesD [OF assms(5) that(1)] by simp
    qed
    then show "lookup w2 q = lookup w q" by (auto simp: w2(5) w1(5))
  qed
  have o2: "pool_open ?q w2" "used ?q w2 = used ?q w1"
    using pool_open_cong [OF w1(6), of w2] w2(3,4) by (simp_all add: pool_items_cong)
  have d: "destroy_shelves ?q [0..<unat kMaxShelfCount] w2 = Inr (NO_ERROR, w2)"
    by (rule destroy_none [OF o2(1)]) (simp add: kMaxShelfCount_value o2(2) unused)
  from close_opened [OF assms(1) w2(2)] obtain w3 where w3: "pool_Close False ?q w2 = Inr (NO_ERROR, pool_closed_after p ?sz, w3)"
    "quiet w3" "inodes w3 = inodes w2" "next_ino w3 = next_ino w2" "lookup w3 = lookup w2" by blast
  let ?p3 = "pool_closed_after p ?sz"
  have "sf_fd (p_meta ?p3) = None" "lookup w3 (sf_path (p_meta ?p3)) = Some n"
    using assms(1) s(1) w3(5) l2 by (simp_all add: closed_pool_def meta_path_def)
  from open_map_spec [OF w3(2) this] obtain b w4 where w4:
    "OpenMapMetadataShelf ?p3 w3 = Inr (NO_ERROR, ?p3\<lparr>p_meta := (p_meta p)\<lparr>sf_fd := Some n\<rparr>, p_size := kMetadataShelfSize,
       p_addr := Some (b, n)\<rparr>, w4)"
    "quiet w4" "inodes w4 = inodes w3" "next_ino w4 = next_ino w3" "lookup w4 = lookup w3"
    by (auto simp: w3(3) w2(3) w1(3) s(3))
  define q where "q = ?p3\<lparr>p_meta := (p_meta p)\<lparr>sf_fd := Some n\<rparr>, p_size := kMetadataShelfSize, p_addr := Some (b, n)\<rparr>"
  have qf: "p_addr q = Some (b, n)" "p_size q = kMetadataShelfSize" "p_meta q = (p_meta p)\<lparr>sf_fd := Some n\<rparr>" "\<not> p_is_open q"
    using cl by (simp_all add: q_def)
  have ra: "read_area q w4 = Inr (i_area (inodes w n))" by (simp add: read_area_def qf(1) w4(3) w3(3) w2(3) w1(3))
  obtain ms tb where md: "membership_Destroy (membership_new (kMetadataShelfSize - kCacheLineSize)) (fresh_table\<lparr>m_items := its\<rparr>) = Inr (NO_ERROR, ms, tb)"
    by (simp add: membership_Destroy_def membership_new_def membership_Verify_def fresh_table_def Let_def)
  let ?a = "(i_area (inodes w n))\<lparr>size_word := 0\<rparr>"
  define w5 where "w5 = write_area q (?a\<lparr>table := tb\<rparr>) (write_area q ?a w4)"
  have w5: "quiet w5" "next_ino w5 = next_ino w" "lookup w5 = lookup w" "\<And>k. k \<noteq> n \<Longrightarrow> inodes w5 k = inodes w k"
    using w4 w3 w2 w1 l2 by (simp_all add: w5_def write_area_def qf(1))
  have "sf_fd (p_meta q) = Some n" by (simp add: qf)
  from unmap_close_spec [OF w5(1) this] obtain w6 where w6:
    "UnmapCloseMetadataShelf q w5 = (NO_ERROR, q\<lparr>p_addr := None, p_size := 0, p_meta := (p_meta q)\<lparr>sf_fd := None\<rparr>\<rparr>, w6)"
    "quiet w6" "inodes w6 = inodes w5" "next_ino w6 = next_ino w5" "lookup w6 = lookup w5" by blast
  have mp: "sf_path ((p_meta q)\<lparr>sf_fd := None\<rparr>) = meta_path p" "sf_fd ((p_meta q)\<lparr>sf_fd := None\<rparr>) = None"
    by (simp_all add: qf meta_path_def)
  have "lookup w6 (sf_path ((p_meta q)\<lparr>sf_fd := None\<rparr>)) = Some n" unfolding mp using s(1) w6(5) w5(3) by simp
  from unlink_spec [OF w6(2) mp(2) this] obtain w7 where w7: "sf_Destroy ((p_meta q)\<lparr>sf_fd := None\<rparr>) w6 = Inr (NO_ERROR, w7)"
    "quiet w7" "inodes w7 = inodes w6" "next_ino w7 = next_ino w6" "lookup w7 = (lookup w6)(meta_path p := None)"
    unfolding mp(1) by blast
  have "pool_Destroy p w = Inr (NO_ERROR, q\<lparr>p_addr := None, p_size := 0, p_meta := (p_meta q)\<lparr>sf_fd := None\<rparr>\<rparr>, w7)"
    using ex cl w1(1) w2(1) d w3(1) w4(1) [folded q_def] ra md w6(1) w7(1)
    by (simp add: pool_Destroy_def Let_def s(2) qf(2) flip: w5_def)
  with w7 w6 w5 qf(4) show ?thesis by simp
qed

section \<open>The metadata file's name\<close>

lemma meta_not_touched:
  assumes "Pool_new base user pid = Inr p" "0 < pid"
  shows "\<not> touches p i (meta_path p)"
proof
  assume "touches p i (meta_path p)"
  then obtain a b where "slot_prefix p i @ a = meta_path p @ b"
    unfolding touches_def using take_min_eq by blast
  then have "to_string (unat pid) @ underscore # to_string (unat (of_nat i :: u8)) @ underscore # a =
      to_string 0 @ underscore # to_string (unat pid) @ b"
    using Pool_new_fields(3,7) [OF assms(1)] by (simp add: slot_prefix_eq)
  from split_underscore [OF this no_underscore no_underscore] have "unat pid = 0" by (simp add: to_string_inject)
  then show False using assms(2) by (simp add: word_less_nat_alt)
qed

lemma meta_not_own: "Pool_new base user pid = Inr p \<Longrightarrow> 0 < pid \<Longrightarrow> own_file p i q \<Longrightarrow> q \<noteq> meta_path p"
  using meta_not_touched own_touches by blast

lemma slot_path_own: "v < 2 ^ 16 \<Longrightarrow> own_file p i (slot_path p i v)"
  by (auto simp: own_file_def)

lemma new_closed: "Pool_new base user pid = Inr p \<Longrightarrow> closed_pool (p\<lparr>p_addr := None, p_size := 0\<rparr>)"
  using Pool_new_fields by (simp add: closed_pool_def)

end
