(* ===== verification/Pool_Region_Correct.thy ===== *)
theory Pool_Region_Correct
  imports Pool_Region Pool_Lifecycle
begin

text \<open>
  What the operations of a region do to the directory, when no system call fails: \<open>Create\<close> adds
  the metadata file and the file of one shelf of the requested size, \<open>Open\<close> finds them, \<open>Destroy\<close>
  removes both.
\<close>

section \<open>Creating\<close>

lemma region_format_spec:
  assumes "quiet w" "lookup w (sf_path sf) = Some m" "\<not> bit len 63"
  shows "\<exists>w'. region_format sf len () w = Some (Inr (NO_ERROR, sf, (), w')) \<and> quiet w' \<and> lookup w' = lookup w \<and>
    next_ino w' = next_ino w \<and> i_size (inodes w' m) = len \<and> (\<forall>k. k \<noteq> m \<longrightarrow> inodes w' k = inodes w k)"
  using assms
  by (simp add: region_format_def sr_Create_def ShelfRegion_def ShelfFile_def sf_Exist_def sf_Truncate_def sys_truncate_def
      sys_truncate_ino_def quiet_call)

text \<open>The state of a region's files: the metadata is inode \<open>n\<close>, the shelf inode \<open>m\<close>.\<close>

definition region_stored :: "pool \<Rightarrow> nat \<Rightarrow> nat \<Rightarrow> u64 \<Rightarrow> world \<Rightarrow> bool" where
  "region_stored p n m len w \<longleftrightarrow> (\<exists>its. pool_stored p n its w \<and> slot_holds its 0 1 True \<and>
       (\<forall>i < 128. 0 < i \<longrightarrow> \<not> TestValidBitWithIndex its i)) \<and>
     lookup w (slot_path p 0 1) = Some m \<and> m \<noteq> n \<and> m < next_ino w \<and> i_size (inodes w m) = len"

lemma zero_items: "slot_holds (\<lambda>_. 0) i 0 False"
proof -
  have "mk_item 0 False = 0" by (rule bit_word_eqI) (simp add: bit_mk_item)
  then show ?thesis by (simp add: slot_holds_def)
qed

lemma valid_slot: "slot_holds its i v b \<Longrightarrow> TestValidBitWithIndex its i = b"
  by (simp add: TestValidBitWithIndex_def load_slot)

lemma add_region_shelf:
  assumes "closed_pool p" "quiet w" "pool_stored p n (\<lambda>_. 0) w" "\<not> bit sz 63" "pool_open (opened_pool p n a sz) w"
    "\<And>q. own_file p 0 q \<Longrightarrow> lookup w q = None"
  shows "\<exists>w'. AddShelf_mem (opened_pool p n a sz) kShelfIdx region_format False kDefaultMode () w =
      Some (Inr (NO_ERROR, kShelfIdx, (), w')) \<and> quiet w' \<and> next_ino w' = Suc (next_ino w) \<and>
    lookup w' = (lookup w)(slot_path p 0 1 := Some (next_ino w)) \<and> region_stored p n (next_ino w) sz w' \<and>
    (\<forall>k. k \<noteq> n \<and> k \<noteq> next_ino w \<longrightarrow> inodes w' k = inodes w k)"
proof -
  let ?q = "opened_pool p n a sz" and ?m = "next_ino w"
  let ?t = "tmp_path ?q 0 (rand_at (env w) (calls w))"
  let ?sf = "ShelfFile ?t" and ?w = "w\<lparr>calls := Suc (calls w)\<rparr>"
  have n: "n < ?m" "lookup w (meta_path p) = Some n" "table (i_area (inodes w n)) = fresh_table\<lparr>m_items := (\<lambda>_. 0)\<rparr>"
    "i_size (inodes w n) = kMetadataShelfSize" using assms(3) by (simp_all add: pool_stored_def)
  have t: "?t = add_path p 0 (unat (rand_at (env w) (calls w)))" by (simp add: tmp_path_def add_path_def)
  have "unat (rand_at (env w) (calls w)) < 2 ^ 16" using unsigned_less [of "rand_at (env w) (calls w)"] by simp
  then have own: "own_file p 0 ?t" unfolding t own_file_def by blast
  have "quiet ?w" "sf_fd ?sf = None" "lookup ?w (sf_path ?sf) = None"
    using assms(2) assms(6) [OF own] by (simp_all add: ShelfFile_def)
  from create_tmp_spec [OF this, of ?q 0 kDefaultMode] obtain w0 where w0:
    "create_tmp ?q 0 kDefaultMode ?sf ?w = Some (NO_ERROR, ?sf, w0)" "quiet w0"
    "inodes w0 = (inodes w)(?m := \<lparr>i_mode = kDefaultMode, i_size = 0, i_area = zero_area\<rparr>)"
    "next_ino w0 = Suc ?m" "lookup w0 = (lookup w)(?t := Some ?m)"
    by (auto simp: ShelfFile_def)
  have "lookup w0 (sf_path ?sf) = Some ?m" by (simp add: w0(5) ShelfFile_def)
  from region_format_spec [OF w0(2) this assms(4)] obtain w1 where w1:
    "region_format ?sf sz () w0 = Some (Inr (NO_ERROR, ?sf, (), w1))" "quiet w1" "lookup w1 = lookup w0"
    "next_ino w1 = next_ino w0" "i_size (inodes w1 ?m) = sz" "\<forall>k. k \<noteq> ?m \<longrightarrow> inodes w1 k = inodes w0 k" by blast
  have i1: "inodes w1 k = inodes w k" if "k \<noteq> ?m" for k using w1(6) w0(3) that by simp
  have its1: "pool_items ?q w1 = pool_items ?q w" using i1 [of n] n(1) by simp
  note C = pool_open_cong [OF assms(5) its1]
  have o1: "pool_open ?q w1" using C(1) w1(4) w0(4) by simp
  have v: "version_of ?q w1 0 = 0" "\<not> used ?q w1 0"
    using slot_facts [of ?q w1 0 0 False] zero_items [of 0] its1 n(3) by simp_all
  have sp: "slot_path ?q 0 1 \<noteq> sf_path ?sf" using add_path_not_slot [of p 0 _ 0 1] by (metis ShelfFile_def slot_path_pool(1) shelf_file.select_convs(2) t)
  have "lookup w1 (sf_path ?sf) = Some ?m" by (simp add: w1(3) w0(5) ShelfFile_def)
  from try_assign_spec [OF o1 w1(2) _ v(2) _ this] v(1) sp obtain sf' w2 where w2:
    "try_assign ?q 0 ?sf w1 = Inr (True, NO_ERROR, sf', w2)" "quiet w2" "next_ino w2 = next_ino w1"
    "pool_items ?q w2 = (pool_items ?q w1)(0 := ucast (mk_item 1 True))"
    "lookup w2 = (lookup w1)(sf_path ?sf := None, slot_path ?q 0 1 := Some ?m)"
    "\<forall>k. i_size (inodes w2 k) = i_size (inodes w1 k)" "\<forall>k. k \<noteq> snd (the (p_addr ?q)) \<longrightarrow> inodes w2 k = inodes w1 k"
    "\<forall>k. table (i_area (inodes w2 k)) = (table (i_area (inodes w1 k)))\<lparr>m_items := m_items (table (i_area (inodes w2 k)))\<rparr>"
    by auto
  have nle: "\<not> kMaxPoolCount \<le> p_id p" "\<not> kMaxShelfCount \<le> 0"
    using assms(1) by (simp_all add: closed_pool_def not_le kMaxShelfCount_value)
  have add: "AddShelf_mem ?q kShelfIdx region_format False kDefaultMode () w = Some (Inr (NO_ERROR, kShelfIdx, (), w2))"
    using nle w0(1) w1(1) w2(1) by (simp add: AddShelf_mem_def RandForAddShelf_def kShelfIdx_def)
  have l2: "lookup w2 = (lookup w)(slot_path p 0 1 := Some ?m)"
    using assms(6) [OF own] by (auto simp: w2(5) w1(3) w0(5) ShelfFile_def fun_eq_iff)
  have tb: "table (i_area (inodes w2 n)) = fresh_table\<lparr>m_items := (\<lambda>_. 0)(0 := ucast (mk_item 1 True))\<rparr>"
    using spec [OF w2(8), of n] w2(4) i1 [of n] n(1,3) by simp
  have "own_file p 0 (slot_path p 0 1)" by (rule slot_path_own) simp
  then have "lookup w (slot_path p 0 1) = None" by (rule assms(6))
  then have ml: "lookup w2 (meta_path p) = Some n" using n(2) by (auto simp: l2)
  have h: "slot_holds ((\<lambda>_. 0)(0 := ucast (mk_item 1 True))) 0 1 True" by (simp add: slot_holds_upd)
  have z: "slot_holds ((\<lambda>_. 0)(0 := ucast (mk_item 1 True))) i 0 False" if "i \<noteq> 0" for i
    using zero_items [of i] that by (simp add: slot_holds_upd)
  have "\<exists>v b. slot_holds ((\<lambda>_. 0)(0 := ucast (mk_item 1 True))) i v b \<and> v < 2 ^ 15" for i
    by (intro exI [of _ "if i = 0 then 1 else 0"] exI [of _ "i = 0"]) (use h z [of i] in simp)
  then have "pool_stored p n ((\<lambda>_. 0)(0 := ucast (mk_item 1 True))) w2"
    using ml tb n(1,4) w2(3,6) w1(4) w0(4) i1 [of n] by (simp add: pool_stored_def)
  moreover have "\<not> TestValidBitWithIndex ((\<lambda>_. 0)(0 := ucast (mk_item 1 True))) i" if "0 < i" for i
    using valid_slot [OF z [of i]] that by simp
  ultimately have "region_stored p n ?m sz w2"
    using h l2 n(1) w2(3,6) w1(4,5) w0(4) unfolding region_stored_def by (auto intro!: exI)
  moreover have "inodes w2 k = inodes w k" if "k \<noteq> n" "k \<noteq> ?m" for k using w2(7) i1 that by simp
  ultimately show ?thesis using add l2 w2(2,3) w1(4) w0(4) by simp
qed

text \<open>\<open>closed_region\<close>: a region object that is not open.\<close>

definition closed_region :: "pool_region \<Rightarrow> bool" where
  "closed_region r \<longleftrightarrow> \<not> pr_is_open r \<and> closed_pool (pr_pool r)"

lemma new_region_fields:
  assumes "PoolRegion_new base user pid = Inr r"
  shows "Pool_new base user pid = Inr (pr_pool r)" "\<not> pr_is_open r" "closed_region r"
proof -
  from assms obtain p where p: "Pool_new base user pid = Inr p" "r = \<lparr>pr_pool = p, pr_size = 0, pr_file = None, pr_is_open = False\<rparr>"
    by (auto simp: PoolRegion_new_def)
  then show "Pool_new base user pid = Inr (pr_pool r)" "\<not> pr_is_open r" "closed_region r"
    using Pool_new_fields [OF p(1)] by (simp_all add: closed_region_def closed_pool_def)
qed

lemma region_stored_cong:
  assumes "inodes w' = inodes w" "next_ino w' = next_ino w" "lookup w' = lookup w"
  shows "region_stored p n m len w' = region_stored p n m len w"
  by (simp only: region_stored_def pool_stored_def assms)

lemma region_stored_pool [simp]: "region_stored (p\<lparr>p_addr := x, p_size := y\<rparr>) n m len w = region_stored p n m len w"
  "region_stored (pool_closed_after p sz) n m len w = region_stored p n m len w"
proof -
  have "slot_path (p\<lparr>p_addr := x, p_size := y\<rparr>) = slot_path p" by (rule slot_path_eq) simp_all
  then show "region_stored (p\<lparr>p_addr := x, p_size := y\<rparr>) n m len w = region_stored p n m len w"
    by (simp add: region_stored_def pool_stored_def meta_path_def)
  show "region_stored (pool_closed_after p sz) n m len w = region_stored p n m len w"
    by (simp add: region_stored_def pool_stored_def)
qed

lemma pr_create_spec:
  assumes "PoolRegion_new base user pid = Inr r" "0 < pid" "quiet w" "lookup w (meta_path (pr_pool r)) = None"
    "clean_names (pr_pool r) (lookup w)" "len \<noteq> 0" "\<not> bit len 63"
  shows "\<exists>r' w'. pr_Create len r w = Some (Inr (NO_ERROR, r', w')) \<and> closed_region r' \<and> quiet w' \<and>
    lookup w' = (lookup w)(meta_path (pr_pool r) := Some (next_ino w), slot_path (pr_pool r) 0 1 := Some (Suc (next_ino w))) \<and>
    next_ino w' = next_ino w + 2 \<and> region_stored (pr_pool r) (next_ino w) (Suc (next_ino w)) len w' \<and>
    (\<forall>k < next_ino w. inodes w' k = inodes w k)"
proof -
  let ?p = "pr_pool r" and ?n = "next_ino w"
  note N = new_region_fields [OF assms(1)]
  note F = Pool_new_fields [OF N(1)]
  from create_spec_pool [OF N(1) assms(3,4), of len kDefaultMode] obtain w1 where w1:
    "pool_Create ?p len kDefaultMode w = Inr (NO_ERROR, ?p\<lparr>p_addr := None, p_size := 0\<rparr>, w1)" "quiet w1"
    "lookup w1 = (lookup w)(meta_path ?p := Some ?n)" "next_ino w1 = Suc ?n"
    "inodes w1 ?n = \<lparr>i_mode = kDefaultMode, i_size = kMetadataShelfSize,
       i_area = \<lparr>size_word = len, table = fresh_table, cells = (\<lambda>_. 0)\<rparr>\<rparr>"
    "\<forall>k. k \<noteq> ?n \<longrightarrow> inodes w1 k = inodes w k" by blast
  define p1 where "p1 = ?p\<lparr>p_addr := None, p_size := 0\<rparr>"
  have p1: "closed_pool p1" "meta_path p1 = meta_path ?p" using new_closed [OF N(1)] by (simp_all add: p1_def meta_path_def)
  have sp1: "slot_path p1 = slot_path ?p" by (rule slot_path_eq) (simp_all add: p1_def)
  have "add_path p1 = add_path ?p" by (intro ext) (simp add: add_path_def p1_def)
  then have own1: "own_file p1 = own_file ?p" by (intro ext) (simp add: own_file_def sp1)
  have "fresh_table = fresh_table\<lparr>m_items := (\<lambda>_. 0)\<rparr>" by (simp add: fresh_table_def)
  moreover have "\<exists>v b. slot_holds (\<lambda>_. 0) i v b \<and> v < 2 ^ 15" for i
    by (intro exI [of _ 0] exI [of _ False]) (simp add: zero_items)
  ultimately have st: "pool_stored p1 ?n (\<lambda>_. 0) w1"
    using w1(3-5) p1(2) by (simp add: pool_stored_def)
  have sw: "size_word (i_area (inodes w1 ?n)) = len" by (simp add: w1(5))
  from open_stored [OF p1(1) w1(2) st, unfolded sw] obtain a w2 where w2:
    "pool_Open False p1 w1 = Inr (NO_ERROR, opened_pool p1 ?n a len, w2)" "quiet w2" "inodes w2 = inodes w1"
    "next_ino w2 = next_ino w1" "lookup w2 = lookup w1" "pool_open (opened_pool p1 ?n a len) w2" by blast
  have st2: "pool_stored p1 ?n (\<lambda>_. 0) w2" using st w2(3-5) by (simp add: pool_stored_def)
  have free: "lookup w2 q = None" if "own_file p1 0 q" for q
    using clean_namesD [OF assms(5), of 0 q] meta_not_own [OF N(1) assms(2)] that by (simp add: own1 w2(5) w1(3))
  from add_region_shelf [OF p1(1) w2(2) st2 assms(7) w2(6) free] obtain w3 where w3:
    "AddShelf_mem (opened_pool p1 ?n a len) kShelfIdx region_format False kDefaultMode () w2 = Some (Inr (NO_ERROR, kShelfIdx, (), w3))"
    "quiet w3" "next_ino w3 = Suc (next_ino w2)" "lookup w3 = (lookup w2)(slot_path p1 0 1 := Some (next_ino w2))"
    "region_stored p1 ?n (next_ino w2) len w3" "\<forall>k. k \<noteq> ?n \<and> k \<noteq> next_ino w2 \<longrightarrow> inodes w3 k = inodes w2 k" by auto
  from close_opened [OF p1(1) w3(2), of ?n a len] obtain w4 where w4:
    "pool_Close False (opened_pool p1 ?n a len) w3 = Inr (NO_ERROR, pool_closed_after p1 len, w4)" "quiet w4"
    "inodes w4 = inodes w3" "next_ino w4 = next_ino w3" "lookup w4 = lookup w3" by blast
  have "\<not> pool_Exist ?p w" using assms(4) by (simp add: pool_Exist_def sf_Exist_def meta_path_def)
  then have "pr_Create len r w = Some (Inr (NO_ERROR, r\<lparr>pr_pool := pool_closed_after p1 len\<rparr>, w4))"
    using N(2) assms(6) w1(1) w2(1) w3(1) w4(1) by (simp add: pr_Create_def flip: p1_def)
  moreover have "closed_region (r\<lparr>pr_pool := pool_closed_after p1 len\<rparr>)" using N(2) p1(1) by (simp add: closed_region_def)
  moreover have "region_stored ?p ?n (Suc ?n) len w4"
    using w3(5) region_stored_cong [OF w4(3-5)] w2(4) w1(4) by (simp add: p1_def)
  moreover have "inodes w4 k = inodes w k" if "k < ?n" for k using that w4(3) w3(6) w2(3,4) w1(4,6) by simp
  ultimately show ?thesis
    using w4 w3(3,4) w2(4,5) w1(3,4) sp1 by (intro exI [of _ "r\<lparr>pr_pool := pool_closed_after p1 len\<rparr>"] exI [of _ w4]) simp
qed

section \<open>Opening and closing\<close>

lemma open_region_pool:
  assumes "closed_region r" "quiet w" "region_stored (pr_pool r) n m len w"
  shows "\<exists>a sz w'. pool_Open False (pr_pool r) w = Inr (NO_ERROR, opened_pool (pr_pool r) n a sz, w') \<and> quiet w' \<and>
    inodes w' = inodes w \<and> next_ino w' = next_ino w \<and> lookup w' = lookup w \<and> pool_open (opened_pool (pr_pool r) n a sz) w' \<and>
    used (opened_pool (pr_pool r) n a sz) w' 0 \<and> version_of (opened_pool (pr_pool r) n a sz) w' 0 = 1 \<and>
    (\<forall>i < 128. 0 < i \<longrightarrow> \<not> used (opened_pool (pr_pool r) n a sz) w' i)"
proof -
  from assms(3) obtain its where its: "pool_stored (pr_pool r) n its w" "slot_holds its 0 1 True"
    "\<forall>i < 128. 0 < i \<longrightarrow> \<not> TestValidBitWithIndex its i" by (auto simp: region_stored_def)
  have c: "closed_pool (pr_pool r)" using assms(1) by (simp add: closed_region_def)
  from open_stored [OF c assms(2) its(1)] obtain a w' where w': "pool_Open False (pr_pool r) w =
      Inr (NO_ERROR, opened_pool (pr_pool r) n a (size_word (i_area (inodes w n))), w')" "quiet w'" "inodes w' = inodes w"
    "next_ino w' = next_ino w" "lookup w' = lookup w" "pool_open (opened_pool (pr_pool r) n a (size_word (i_area (inodes w n)))) w'"
    by blast
  let ?q = "opened_pool (pr_pool r) n a (size_word (i_area (inodes w n)))"
  have "pool_items ?q w' = its" using its(1) w'(3) by (simp add: pool_stored_def)
  then have "slot_holds (pool_items ?q w') 0 1 True" using its(2) by simp
  from slot_facts [OF this] have "used ?q w' 0" "version_of ?q w' 0 = 1" by simp_all
  moreover have "\<not> used ?q w' i" if "i < 128" "0 < i" for i using stored_slots(2) [OF its(1) that(1) w'(3)] its(3) that by simp
  ultimately show ?thesis using w' by blast
qed

lemma pr_open_spec:
  assumes "closed_region r" "quiet w" "region_stored (pr_pool r) n m len w"
  shows "\<exists>r' w'. pr_Open r w = Inr (NO_ERROR, r', w') \<and> pr_is_open r' \<and> pr_size r' = len \<and> quiet w' \<and>
    inodes w' = inodes w \<and> next_ino w' = next_ino w \<and> lookup w' = lookup w \<and>
    (\<exists>r'' w''. pr_Close r' w' = Inr (NO_ERROR, r'', w'') \<and> closed_region r'' \<and> quiet w'' \<and>
      inodes w'' = inodes w \<and> next_ino w'' = next_ino w \<and> lookup w'' = lookup w)"
proof -
  from open_region_pool [OF assms] obtain a sz w1 where w1: "pool_Open False (pr_pool r) w = Inr (NO_ERROR, opened_pool (pr_pool r) n a sz, w1)"
    "quiet w1" "inodes w1 = inodes w" "next_ino w1 = next_ino w" "lookup w1 = lookup w" "pool_open (opened_pool (pr_pool r) n a sz) w1"
    "used (opened_pool (pr_pool r) n a sz) w1 0" "version_of (opened_pool (pr_pool r) n a sz) w1 0 = 1" by blast
  let ?q = "opened_pool (pr_pool r) n a sz" and ?f = "slot_path (pr_pool r) 0 1"
  have path: "GetShelfPath ?q kShelfIdx w1 = Inr (NO_ERROR, Some ?f)"
    using query_specs(2) [OF w1(6), of 0] w1(7,8) by (simp add: kShelfIdx_def)
  have m: "lookup w1 ?f = Some m" "i_size (inodes w m) = len" using assms(3) w1(5) by (simp_all add: region_stored_def)
  define f where "f = \<lparr>sr_is_open = True, sr_file = (ShelfFile ?f)\<lparr>sf_fd := Some m\<rparr>\<rparr>"
  have op: "sr_Open (ShelfRegion ?f) w1 = Inr (NO_ERROR, f, w1\<lparr>calls := Suc (calls w1)\<rparr>)"
    using m(1) w1(2) by (simp add: sr_Open_def sr_Verify_def ShelfRegion_def ShelfFile_def sf_Exist_def sf_Open_def sf_IsOpen_def
      sys_open_def quiet_call f_def)
  have sz: "sr_Size f (w1\<lparr>calls := Suc (calls w1)\<rparr>) = Inr (len, w1\<lparr>calls := Suc (Suc (calls w1))\<rparr>)"
    using w1(2,3) m(2) by (simp add: sr_Size_def f_def sf_Size_def sys_fstat_def quiet_call)
  define w2 where "w2 = w1\<lparr>calls := Suc (Suc (calls w1))\<rparr>"
  define r' where "r' = r\<lparr>pr_pool := ?q, pr_file := Some f, pr_size := len, pr_is_open := True\<rparr>"
  have o: "pr_Open r w = Inr (NO_ERROR, r', w2)"
    using assms(1) w1(1) path op sz by (simp add: pr_Open_def closed_region_def r'_def w2_def Let_def)
  have w2: "quiet w2" "inodes w2 = inodes w" "next_ino w2 = next_ino w" "lookup w2 = lookup w" using w1 by (simp_all add: w2_def)
  define f' where "f' = \<lparr>sr_is_open = False, sr_file = ShelfFile ?f\<rparr>"
  define w3 where "w3 = w2\<lparr>calls := Suc (calls w2)\<rparr>"
  have cl: "sr_Close f w2 = Inr (NO_ERROR, f', w3)"
    using w2(1) by (simp add: sr_Close_def f_def f'_def sf_Close_def sf_IsOpen_def sys_close_def quiet_call w3_def ShelfFile_def)
  have "closed_pool (pr_pool r)" using assms(1) by (simp add: closed_region_def)
  moreover have "quiet w3" using w2(1) by (simp add: w3_def)
  ultimately obtain w4 where w4: "pool_Close False ?q w3 = Inr (NO_ERROR, pool_closed_after (pr_pool r) sz, w4)"
    "quiet w4" "inodes w4 = inodes w3" "next_ino w4 = next_ino w3" "lookup w4 = lookup w3" using close_opened by blast
  define r'' where "r'' = r'\<lparr>pr_file := None, pr_pool := pool_closed_after (pr_pool r) sz, pr_size := 0, pr_is_open := False\<rparr>"
  have "pr_Close r' w2 = Inr (NO_ERROR, r'', w4)"
    using cl w4(1) by (simp add: pr_Close_def r'_def r''_def ShelfRegion_delete_def f'_def Let_def)
  moreover have "closed_region r''" using assms(1) by (simp add: r''_def closed_region_def)
  moreover have "inodes w4 = inodes w" "next_ino w4 = next_ino w" "lookup w4 = lookup w"
    using w4(3-5) w2 by (simp_all add: w3_def)
  ultimately show ?thesis using o w2 w4(2) by (intro exI [of _ r'] exI [of _ w2]) (auto simp: r'_def)
qed

section \<open>Destroying\<close>

lemma pr_destroy_spec:
  assumes "closed_region r" "quiet w" "region_stored (pr_pool r) n m len w"
    "clean_names (pr_pool r) ((lookup w)(slot_path (pr_pool r) 0 1 := None))" "slot_path (pr_pool r) 0 1 \<noteq> meta_path (pr_pool r)"
  shows "\<exists>r' w'. pr_Destroy r w = Inr (NO_ERROR, r', w') \<and> \<not> pr_is_open r' \<and> sf_fd (p_meta (pr_pool r')) = None \<and> quiet w' \<and>
    next_ino w' = next_ino w \<and> lookup w' = (lookup w)(slot_path (pr_pool r) 0 1 := None, meta_path (pr_pool r) := None) \<and>
    (\<forall>k. k \<noteq> n \<longrightarrow> inodes w' k = inodes w k)"
proof -
  let ?p = "pr_pool r"
  have c: "closed_pool ?p" "\<not> pr_is_open r" using assms(1) by (simp_all add: closed_region_def)
  from assms(3) obtain its where its: "pool_stored ?p n its w" "slot_holds its 0 1 True"
    "\<forall>i < 128. 0 < i \<longrightarrow> \<not> TestValidBitWithIndex its i" by (auto simp: region_stored_def)
  have lm: "lookup w (slot_path ?p 0 1) = Some m" "lookup w (meta_path ?p) = Some n" "n < next_ino w"
    "table (i_area (inodes w n)) = fresh_table\<lparr>m_items := its\<rparr>" "i_size (inodes w n) = kMetadataShelfSize" "m \<noteq> n"
    using assms(3) its(1) by (simp_all add: region_stored_def pool_stored_def)
  from open_region_pool [OF assms(1-3)] obtain a sz w1 where w1: "pool_Open False ?p w = Inr (NO_ERROR, opened_pool ?p n a sz, w1)"
    "quiet w1" "inodes w1 = inodes w" "next_ino w1 = next_ino w" "lookup w1 = lookup w" "pool_open (opened_pool ?p n a sz) w1"
    "used (opened_pool ?p n a sz) w1 0" "version_of (opened_pool ?p n a sz) w1 0 = 1"
    "\<forall>i < 128. 0 < i \<longrightarrow> \<not> used (opened_pool ?p n a sz) w1 i" by blast
  let ?q = "opened_pool ?p n a sz"
  have "lookup w1 (slot_path ?q 0 (version_of ?q w1 0)) = Some m" using lm(1) w1(5,8) by simp
  moreover have v: "Suc (version_of ?q w1 0) < 2 ^ 15" by (simp add: w1(8))
  ultimately obtain w2 where w2:
    "RemoveShelf ?q 0 w1 = Inr (NO_ERROR, w2)" "quiet w2" "next_ino w2 = next_ino w1"
    "pool_items ?q w2 = (pool_items ?q w1)(0 := ucast (mk_item 2 False))" "lookup w2 = (lookup w1)(slot_path ?p 0 1 := None)"
    "\<forall>k. k \<noteq> n \<longrightarrow> inodes w2 k = inodes w1 k" "\<forall>k. i_size (inodes w2 k) = i_size (inodes w1 k)"
    "\<forall>k. table (i_area (inodes w2 k)) = (table (i_area (inodes w1 k)))\<lparr>m_items := m_items (table (i_area (inodes w2 k)))\<rparr>"
    using remove_spec [OF w1(6,2) _ w1(7) v, of m] w1(8) by (auto simp: numeral_2_eq_2)
  have o2: "pool_open ?q w2" by (rule pool_open_update [OF w1(6) w2(4)]) (simp_all add: w2(3))
  have u2: "\<not> used ?q w2 i" if "i < 128" for i
    using slot_update(2) [OF w2(4), of i] w1(9) that by simp
  have "CheckShelf ?q 0 w1 = Inr True" using query_specs(1) [OF w1(6), of 0] w1(7) by simp
  moreover have "destroy_shelves ?q [1..<128] w2 = Inr (NO_ERROR, w2)" by (rule destroy_none [OF o2]) (simp add: u2)
  moreover have "[0..<128] = 0 # [1..<128 :: nat]" by (simp add: upt_conv_Cons)
  ultimately have d: "destroy_shelves ?q [0..<unat kMaxShelfCount] w1 = Inr (NO_ERROR, w2)"
    using w2(1) by (simp only: kMaxShelfCount_value) (simp del: upt_conv_Cons upt_rec_numeral)
  from close_opened [OF c(1) w2(2), of n a sz] obtain w3 where w3: "pool_Close False ?q w2 = Inr (NO_ERROR, pool_closed_after ?p sz, w3)"
    "quiet w3" "inodes w3 = inodes w2" "next_ino w3 = next_ino w2" "lookup w3 = lookup w2" by blast
  let ?its = "its(0 := ucast (mk_item 2 False))"
  have tb: "table (i_area (inodes w2 n)) = fresh_table\<lparr>m_items := ?its\<rparr>"
    using spec [OF w2(8), of n] w2(4) w1(3) lm(4) by simp
  have "\<exists>v b. slot_holds ?its i v b \<and> v < 2 ^ 15" if "i < 128" for i
    using pool_slot [OF o2 that] tb by (metis pool_items_opened members.select_convs(4) members.surjective members.update_convs(4))
  then have st: "pool_stored (pool_closed_after ?p sz) n ?its w3"
    using tb lm(2,3,5) w3(3-5) w2(3,5,7) w1(3,4,5) assms(5) by (auto simp: pool_stored_def)
  have inv: "\<forall>i < 128. \<not> TestValidBitWithIndex ?its i"
    using u2 stored_slots(2) [OF st, of _ w3 a sz] w3(3) tb by (simp add: used_def)
  have cn: "clean_names (pool_closed_after ?p sz) (lookup w3)"
    using assms(4) w3(5) w2(5) w1(5) by (simp add: clean_names_def)
  from destroy_spec [OF _ w3(2) st inv cn] c(1) obtain p' w4 where w4: "pool_Destroy (pool_closed_after ?p sz) w3 = Inr (NO_ERROR, p', w4)"
    "quiet w4" "next_ino w4 = next_ino w3" "lookup w4 = (lookup w3)(meta_path ?p := None)" "\<forall>k. k \<noteq> n \<longrightarrow> inodes w4 k = inodes w3 k"
    "sf_fd (p_meta p') = None" by auto
  have "pool_Exist ?p w" using lm(2) by (simp add: pool_Exist_def sf_Exist_def meta_path_def)
  then have "pr_Destroy r w = Inr (NO_ERROR, r\<lparr>pr_pool := p'\<rparr>, w4)"
    using c(2) w1(1) d w3(1) w4(1) by (simp add: pr_Destroy_def)
  then show ?thesis using c(2) w4 w3 w2 w1 by (intro exI [of _ "r\<lparr>pr_pool := p'\<rparr>"] exI [of _ w4]) simp
qed

end
