(* ===== verification/Memory_Manager_Root.thy ===== *)
theory Memory_Manager_Root
  imports Memory_Manager Pool_Region_Correct
begin

text \<open>
  The locks and types that the memory manager keeps in the root shelf: what \<open>Lock\<close>, \<open>Unlock\<close>,
  \<open>GetType\<close> and \<open>SetType\<close> do to the cells of the file, and what they leave alone.
\<close>

section \<open>Cells of the file\<close>

text \<open>\<open>on_root n c s\<close>: the state with the cells \<open>c\<close> in the file of the root shelf.\<close>

definition on_root :: "nat \<Rightarrow> famem \<Rightarrow> mm_state \<Rightarrow> mm_state" where
  "on_root n c s = s\<lparr>mm_os := set_file_cells n c (mm_os s)\<rparr>"

definition root_cells :: "nat \<Rightarrow> mm_state \<Rightarrow> famem" where
  "root_cells n s = file_cells n (mm_os s)"

lemma set_file_cells_simps [simp]:
  "lookup (set_file_cells n c w) = lookup w" "next_ino (set_file_cells n c w) = next_ino w"
  "calls (set_file_cells n c w) = calls w" "env (set_file_cells n c w) = env w"
  "quiet (set_file_cells n c w) = quiet w" "i_size (inodes (set_file_cells n c w) k) = i_size (inodes w k)"
  "k \<noteq> n \<Longrightarrow> inodes (set_file_cells n c w) k = inodes w k" "file_cells n (set_file_cells n c w) = c"
  "set_file_cells n c (set_file_cells n d w) = set_file_cells n c w" "set_file_cells n (file_cells n w) w = w"
  by (simp_all add: set_file_cells_def file_cells_def quiet_def lookup_def fun_eq_iff)

lemma on_root_simps [simp]:
  "mm (on_root n c s) = mm s" "mm_cfg (on_root n c s) = mm_cfg s" "mm_mgr (on_root n c s) = mm_mgr s"
  "heap_mem (on_root n c s) = heap_mem s" "mm_os (on_root n c s) = set_file_cells n c (mm_os s)"
  "root_cells n (on_root n c s) = c" "on_root n c (on_root n d s) = on_root n c s" "on_root n (root_cells n s) s = s"
  by (simp_all add: on_root_def root_cells_def)

text \<open>\<open>root_ok\<close>: the manager is ready, the root shelf is mapped at \<open>a\<close>, its file is inode \<open>n\<close>, and the
  pointers are those that \<open>Init\<close> computes.\<close>

definition root_ok :: "nat \<Rightarrow> u64 \<Rightarrow> mm_state \<Rightarrow> bool" where
  "root_ok n a s \<longleftrightarrow> is_ready (mm s) \<and> bs_fd (root_shelf (mm s)) = Some n \<and> bs_addr (root_shelf (mm s)) = Some a \<and>
     locks_at (mm s) = a + 64 \<and> types_at (mm s) = a + 0x100040 \<and> bmap_at (mm s) = a + 0x4100040 \<and>
     metadata_regionid_root (mm s) = ((a + 0x4100847) AND NOT 7) + 8 \<and>
     metadata_regionname_root (mm s) = ((a + 0x4100847) AND NOT 7) + 16 \<and>
     atl_regiondata_root (mm s) = ((a + 0x4100847) AND NOT 7) + 24 \<and>
     unat a + 0x8000000 < 2 ^ 64 \<and> a AND 0xFFF = 0 \<and> i_size (inodes (mm_os s) n) = kBootShelfSize"

lemma root_byte_at:
  assumes "root_ok n a s" "k < 0x8000000"
  shows "root_byte (a + of_nat k) s = Inr (n, k)"
proof -
  have a: "unat a + 0x8000000 < 2 ^ 64" "i_size (inodes (mm_os s) n) = kBootShelfSize" using assms(1) by (simp_all add: root_ok_def)
  have k: "unat (of_nat k :: u64) = k" using assms(2) by (subst unsigned_of_nat) (simp add: take_bit_nat_eq_self)
  have "unat (a + of_nat k) = unat a + k" using a(1) k assms(2) by (simp add: unat_word_ariths)
  then have "a \<le> a + of_nat k" by (simp add: word_le_nat_alt)
  moreover have "of_nat k < kBootShelfSize" using k assms(2) by (simp add: word_less_nat_alt kBootShelfSize_def)
  ultimately show ?thesis
    using assms(1) a(2) k assms(2) by (simp add: root_byte_def root_ok_def touch_file_def kBootShelfSize_def)
qed

definition lock_cell :: "PoolId \<Rightarrow> nat" where "lock_cell pid = 16 + 16 * unat pid"
definition type_cell :: "PoolId \<Rightarrow> nat" where "type_cell pid = 0x40010 + 16 * unat pid"

lemma cell_at:
  assumes "root_ok n a s"
  shows "root_byte (locks_at (mm s) + 64 * ucast pid) s = Inr (n, 4 * lock_cell pid)"
    "root_byte (types_at (mm s) + 64 * ucast pid) s = Inr (n, 4 * type_cell pid)"
proof -
  have b: "unat pid < 65536" using unsigned_less [of pid] by simp
  have u: "(ucast pid :: u64) = of_nat (unat pid)" by simp
  have l: "a + 64 + 64 * ucast pid = a + of_nat (4 * lock_cell pid)" "a + 0x100040 + 64 * ucast pid = a + of_nat (4 * type_cell pid)"
    unfolding u lock_cell_def type_cell_def by simp_all
  have "locks_at (mm s) = a + 64" "types_at (mm s) = a + 0x100040" using assms by (simp_all add: root_ok_def)
  then show "root_byte (locks_at (mm s) + 64 * ucast pid) s = Inr (n, 4 * lock_cell pid)"
    "root_byte (types_at (mm s) + 64 * ucast pid) s = Inr (n, 4 * type_cell pid)"
    using root_byte_at [OF assms, of "4 * lock_cell pid"] root_byte_at [OF assms, of "4 * type_cell pid"] b
    by (simp_all only: l) (simp_all only: lock_cell_def type_cell_def, simp_all)
qed

lemma root_run_at:
  assumes "root_byte ptr s = Inr (n, 4 * l)" "f l (root_cells n s) = Some (x, c)"
  shows "root_run ptr f s = Inr (x, on_root n c s)"
  using assms by (simp add: root_run_def root_cells_def on_root_def)

lemma root_ok_frame:
  assumes "root_ok n a s" "i_size (inodes (mm_os s') n) = i_size (inodes (mm_os s) n)" "mm s' = mm s"
  shows "root_ok n a s'"
  using assms by (simp add: root_ok_def)

lemma root_ok_on_root [simp]: "root_ok n a (on_root n c s) = root_ok n a s"
  by (simp add: root_ok_def)

section \<open>Locks and types\<close>

text \<open>\<open>lock_free\<close>: nobody holds or waits for the lock.\<close>

definition lock_free :: "famem \<Rightarrow> PoolId \<Rightarrow> bool" where
  "lock_free c pid \<longleftrightarrow> c (lock_cell pid) = c (lock_cell pid + 1)"

definition locked :: "famem \<Rightarrow> PoolId \<Rightarrow> famem" where
  "locked c pid = c(lock_cell pid + 1 := c (lock_cell pid + 1) + 1)"

definition unlocked :: "famem \<Rightarrow> PoolId \<Rightarrow> famem" where
  "unlocked c pid = c(lock_cell pid := c (lock_cell pid) + 1)"

lemma mm_Lock_free:
  assumes "root_ok n a s" "lock_free (root_cells n s) pid"
  shows "mm_Lock pid s = Some (Inr (on_root n (locked (root_cells n s) pid) s))"
proof -
  let ?c = "root_cells n s" and ?l = "lock_cell pid"
  have "spin_lock_draw ?l ?c = Some (In, locked ?c pid)"
    using assms(2) by (simp add: spin_lock_draw_def load64_head_tail bump_tail store64_head_tail lock_free_def locked_def fun_eq_iff)
  from root_run_at [where f = spin_lock_draw, OF cell_at(1) [OF assms(1)] this] show ?thesis by (simp add: mm_Lock_def)
qed

lemma mm_Lock_taken:
  assumes "root_ok n a s" "\<not> lock_free (root_cells n s) pid"
  shows "mm_Lock pid s = None"
proof -
  let ?c = "root_cells n s" and ?l = "lock_cell pid"
  have d: "spin_lock_draw ?l ?c = Some (Spin (?c (?l + 1)), locked ?c pid)"
    using assms(2) by (simp add: spin_lock_draw_def load64_head_tail bump_tail store64_head_tail lock_free_def locked_def)
  from root_run_at [where f = spin_lock_draw, OF cell_at(1) [OF assms(1)] d] have r:
    "root_run (locks_at (mm s) + 64 * ucast pid) spin_lock_draw s = Inr (Spin (?c (?l + 1)), on_root n (locked ?c pid) s)" .
  let ?s = "on_root n (locked ?c pid) s"
  have u: "?c(Suc ?l := x, ?l := ?c ?l) = ?c(Suc ?l := x)" for x by (simp add: fun_eq_iff)
  have "root_ok n a ?s" using assms(1) by simp
  from root_run_at [where f = "\<lambda>l. spin_lock_poll l (?c (?l + 1))", OF cell_at(1) [OF this]]
  have "root_run (locks_at (mm s) + 64 * ucast pid) (\<lambda>l. spin_lock_poll l (?c (?l + 1))) ?s =
      Inr (Spin (?c (?l + 1)), ?s)"
    using assms(2) u by (simp add: spin_lock_poll_def lock_free_def locked_def)
  then show ?thesis by (simp add: mm_Lock_def r)
qed

lemma mm_Unlock_at:
  assumes "root_ok n a s"
  shows "mm_Unlock pid s = Inr (on_root n (unlocked (root_cells n s) pid) s)"
proof -
  have "no_result fam_spin_unlock (lock_cell pid) (root_cells n s) = Some ((), unlocked (root_cells n s) pid)"
    by (simp add: no_result_def fam_spin_unlock_def unlocked_def)
  from root_run_at [where f = "no_result fam_spin_unlock", OF cell_at(1) [OF assms] this]
  show ?thesis by (simp add: mm_Unlock_def)
qed

lemma GetType_at:
  assumes "root_ok n a s"
  shows "GetType pid s = Inr (ucast (load64 (root_cells n s) (type_cell pid)), s)"
  using root_run_at [where f = fam_atomic_64_read, OF cell_at(2) [OF assms]] by (simp add: GetType_def)

lemma SetType_at:
  assumes "root_ok n a s"
  shows "SetType pid t s = Inr (on_root n (store64 (root_cells n s) (type_cell pid) (type_word t)) s)"
proof -
  have "no_result (\<lambda>l. fam_atomic_64_write l (type_word t)) (type_cell pid) (root_cells n s) =
      Some ((), store64 (root_cells n s) (type_cell pid) (type_word t))"
    by (simp add: no_result_def)
  from root_run_at [where f = "no_result (\<lambda>l. fam_atomic_64_write l (type_word t))", OF cell_at(2) [OF assms] this]
  show ?thesis by (simp add: SetType_def)
qed

text \<open>The words of different pools, and locks and types, do not overlap.\<close>

lemma unat_pid: "pid < kMaxPoolCount \<Longrightarrow> unat pid < 16384"
  by (simp add: word_less_nat_alt kMaxPoolCount_def)

lemma lock_type_apart:
  assumes "pid < kMaxPoolCount"
  shows "lock_cell pid + 1 < type_cell q"
  using unat_pid [OF assms] by (simp add: lock_cell_def type_cell_def)

lemma cells_inject [simp]:
  "lock_cell p = lock_cell q \<longleftrightarrow> p = q" "type_cell p = type_cell q \<longleftrightarrow> p = q"
  "lock_cell p \<noteq> Suc (lock_cell q)" "type_cell p \<noteq> Suc (type_cell q)" "Suc (lock_cell p) \<noteq> lock_cell q" "Suc (type_cell p) \<noteq> type_cell q"
  by (simp_all add: lock_cell_def type_cell_def word_unat_eq_iff, presburger+)

text \<open>\<open>types_in T c\<close>: the magic number is set, no lock is taken, and the types are \<open>T\<close>.\<close>

definition types_in :: "(PoolId \<Rightarrow> pool_type) \<Rightarrow> famem \<Rightarrow> bool" where
  "types_in T c \<longleftrightarrow> load64 c 0 = root_kMagicNum \<and> (\<forall>pid < kMaxPoolCount. lock_free c pid \<and> load64 c (type_cell pid) = type_word (T pid))"

lemma type_num_inject [simp]: "type_num t = type_num t' \<longleftrightarrow> t = t'" "type_num t = ucast (type_word t') \<longleftrightarrow> t = t'"
  "ucast (type_word t') = type_num t \<longleftrightarrow> t = t'"
  by (cases t; cases t'; simp add: type_num_def)+

lemma locked_types:
  assumes "pid < kMaxPoolCount" "q < kMaxPoolCount"
  shows "load64 (locked c pid) (type_cell q) = load64 c (type_cell q)"
    "load64 (unlocked c pid) (type_cell q) = load64 c (type_cell q)"
  using lock_type_apart [OF assms(1), of q] by (auto simp: locked_def unlocked_def load64_def)

lemma types_locked:
  assumes "types_in T c" "pid < kMaxPoolCount"
  shows "types_in T (unlocked (locked c pid) pid)"
    "types_in (T(pid := t)) (unlocked (store64 (locked c pid) (type_cell pid) (type_word t)) pid)"
proof -
  have m: "load64 (unlocked (locked c pid) pid) 0 = load64 c 0" "load64 c 0 = root_kMagicNum"
    "load64 (unlocked (store64 (locked c pid) (type_cell pid) (type_word t)) pid) 0 = load64 c 0"
    using assms(1) by (simp_all add: load64_def locked_def unlocked_def store64_def lock_cell_def type_cell_def types_in_def)
  have f: "lock_free c q \<and> load64 c (type_cell q) = type_word (T q)" if "q < kMaxPoolCount" for q
    using assms(1) that by (simp add: types_in_def)
  have "lock_free (unlocked (locked c pid) pid) q" if "q < kMaxPoolCount" for q
    using f [OF that] by (auto simp: lock_free_def unlocked_def locked_def)
  then show "types_in T (unlocked (locked c pid) pid)"
    using f assms(2) m by (auto simp: types_in_def locked_types)
  have "lock_free (unlocked (store64 (locked c pid) (type_cell pid) (type_word t)) pid) q" if "q < kMaxPoolCount" for q
    using f [OF that] f [OF assms(2)] lock_type_apart [OF that, of pid] lock_type_apart [OF assms(2), of pid]
    by (auto simp: lock_free_def unlocked_def locked_def store64_def)
  moreover have "load64 (store64 (locked c pid) (type_cell pid) (type_word t)) (type_cell q) = type_word ((T(pid := t)) q)"
    if "q < kMaxPoolCount" for q
  proof (cases "q = pid")
    case False
    then have "load64 (store64 (locked c pid) (type_cell pid) (type_word t)) (type_cell q) = load64 (locked c pid) (type_cell q)"
      by (simp add: store64_def load64_def)
    with False show ?thesis using f [OF that] locked_types(1) [OF assms(2) that] by simp
  qed simp
  ultimately show "types_in (T(pid := t)) (unlocked (store64 (locked c pid) (type_cell pid) (type_word t)) pid)"
    using assms(2) m by (auto simp: types_in_def locked_types)
qed

end
