(* ===== verification/Memory_Manager_Store.thy ===== *)
theory Memory_Manager_Store
  imports Memory_Manager_Root
begin

text \<open>
  The memory manager as a table of objects: the abstract state is a map from pool ids to regions with
  their sizes and heaps; \<open>store\<close> relates it to the types in the root shelf and the files of the
  directory. Heaps appear in the table, but what their files hold is not said here.
\<close>

section \<open>The pools of a configuration\<close>

datatype pool_object = A_Region u64 | A_Heap

fun type_of :: "pool_object option \<Rightarrow> pool_type" where
  "type_of None = NONE"
| "type_of (Some (A_Region len)) = REGION"
| "type_of (Some A_Heap) = HEAP"

definition pool_at :: "config \<Rightarrow> PoolId \<Rightarrow> pool" where
  "pool_at c pid = projr (Pool_new (ShelfBase c) (ShelfUser c) pid)"

definition region_at :: "config \<Rightarrow> PoolId \<Rightarrow> pool_region" where
  "region_at c pid = \<lparr>pr_pool = pool_at c pid, pr_size = 0, pr_file = None, pr_is_open = False\<rparr>"

text \<open>The names that \<open>Config_Setup\<close> chooses; the user's name is no path.\<close>

definition config_ok :: "config \<Rightarrow> bool" where
  "config_ok c \<longleftrightarrow> CHR ''/'' \<notin> set (ShelfUser c) \<and>
     RootShelfPath c = ShelfBase c @ ''/'' @ ShelfUser c @ [underscore] @ ''NVMM'' @ [underscore] @ ''ROOT'' \<and>
     EpochShelfPath c = ShelfBase c @ ''/'' @ ShelfUser c @ [underscore] @ ''NVMM'' @ [underscore] @ ''EPOCH''"

definition valid_pid :: "PoolId \<Rightarrow> bool" where
  "valid_pid pid \<longleftrightarrow> 0 < pid \<and> pid < kMaxPoolCount"

lemma pool_at_new: "pid < kMaxPoolCount \<Longrightarrow> Pool_new (ShelfBase c) (ShelfUser c) pid = Inr (pool_at c pid)"
  by (simp add: pool_at_def Pool_new_def Let_def)

lemma region_at_new: "pid < kMaxPoolCount \<Longrightarrow> PoolRegion_new (ShelfBase c) (ShelfUser c) pid = Inr (region_at c pid)"
  by (simp add: PoolRegion_new_def pool_at_new region_at_def)

lemma region_at_pool [simp]: "pr_pool (region_at c pid) = pool_at c pid"
  by (simp add: region_at_def)

text \<open>The files that belong to a pool: its metadata file and every name of the directory that a scan for
  one of its slots looks at.\<close>

definition files_of :: "config \<Rightarrow> PoolId \<Rightarrow> string \<Rightarrow> bool" where
  "files_of c pid q \<longleftrightarrow> q = meta_path (pool_at c pid) \<or>
     (in_dir (ShelfBase c) q \<and> (\<exists>i < 128. touches (pool_at c pid) i q))"

lemma slot_prefix_at:
  assumes "pid < kMaxPoolCount"
  shows "slot_prefix (pool_at c pid) i = p_prefix (pool_at c pid) @ underscore # to_string (unat pid) @ underscore #
      to_string (unat (of_nat i :: u8)) @ [underscore]"
  using Pool_new_fields(3) [OF pool_at_new [OF assms, of c]] by (simp add: slot_prefix_eq)

lemma prefix_at: "pid < kMaxPoolCount \<Longrightarrow> p_prefix (pool_at c pid) =
    ShelfBase c @ ''/'' @ ShelfUser c @ [underscore] @ ''NVMM'' @ [underscore] @ ''Shelf''"
  using Pool_new_fields(1) [OF pool_at_new [of pid c]] by (simp add: shelf_name_prefix_def)

lemma touches_pid:
  assumes "pid < kMaxPoolCount" "touches (pool_at c pid) i q"
    "q @ r = p_prefix (pool_at c pid) @ underscore # to_string u @ underscore # t"
    "length (p_prefix (pool_at c pid) @ underscore # to_string u @ [underscore]) \<le> length q"
  shows "u = unat pid"
proof -
  let ?P = "p_prefix (pool_at c pid)"
  from assms(2) obtain a b where ab: "slot_prefix (pool_at c pid) i @ a = q @ b"
    unfolding touches_def using take_min_eq by blast
  let ?h = "?P @ underscore # to_string u @ [underscore]"
  have "take (length ?h) (q @ r) = ?h" unfolding assms(3) by simp
  then have "take (length ?h) q = ?h" using assms(4) by simp
  then obtain q' where "q = ?h @ q'" by (metis append_take_drop_id)
  with ab have "to_string (unat pid) @ underscore # to_string (unat (of_nat i :: u8)) @ underscore # a = to_string u @ underscore # q' @ b"
    by (simp add: slot_prefix_at [OF assms(1)])
  from split_underscore [OF this no_underscore no_underscore] show ?thesis by (simp add: to_string_inject)
qed

lemma meta_files:
  assumes "valid_pid pid" "valid_pid pid'" "files_of c pid (meta_path (pool_at c pid'))"
  shows "pid = pid'"
proof -
  have v: "pid < kMaxPoolCount" "pid' < kMaxPoolCount" "0 < pid" using assms by (simp_all add: valid_pid_def)
  have e: "meta_path (pool_at c q) = p_prefix (pool_at c pid) @ underscore # to_string 0 @ underscore # to_string (unat q)"
    if "q < kMaxPoolCount" for q
    using Pool_new_fields(7) [OF pool_at_new [OF that, of c]] prefix_at that v by simp
  have nt: False if "touches (pool_at c pid) i (meta_path (pool_at c pid'))" for i
  proof -
    have "meta_path (pool_at c pid') @ [] = p_prefix (pool_at c pid) @ underscore # to_string 0 @ underscore # to_string (unat pid')"
      using e [OF v(2)] by simp
    from touches_pid [OF v(1) that this] e [OF v(2)] have "unat pid = 0" by simp
    then show False using v(3) by (simp add: word_less_nat_alt)
  qed
  have "meta_path (pool_at c pid') = meta_path (pool_at c pid)" using assms(3) nt by (auto simp: files_of_def)
  then show ?thesis by (simp add: e [OF v(1)] e [OF v(2)] to_string_inject word_unat_eq_iff)
qed

lemma slot_files:
  assumes "valid_pid pid" "valid_pid pid'" "files_of c pid (slot_path (pool_at c pid') i v)"
  shows "pid = pid'"
proof -
  have b: "pid < kMaxPoolCount" "pid' < kMaxPoolCount" using assms by (simp_all add: valid_pid_def)
  let ?q = "slot_path (pool_at c pid') i v"
  have e: "?q = p_prefix (pool_at c pid) @ underscore # to_string (unat pid') @ underscore #
      to_string (unat (of_nat i :: u8)) @ underscore # to_string v"
    using prefix_at [OF b(1), of c] prefix_at [OF b(2), of c] by (simp add: path_parts slot_prefix_at [OF b(2)] file_tail_def)
  show ?thesis
  proof (cases "?q = meta_path (pool_at c pid)")
    case True
    have "meta_path (pool_at c pid) = p_prefix (pool_at c pid) @ underscore # to_string 0 @ underscore # to_string (unat pid)"
      using Pool_new_fields(7) [OF pool_at_new [OF b(1), of c]] .
    with True e have "to_string (unat pid') @ underscore # to_string (unat (of_nat i :: u8)) @ underscore # to_string v =
        to_string 0 @ underscore # to_string (unat pid)" by simp
    from split_underscore [OF this no_underscore no_underscore] have "unat pid' = 0" by (simp add: to_string_inject)
    then show ?thesis using assms(2) by (simp add: valid_pid_def word_less_nat_alt)
  next
    case False
    with assms(3) obtain j where j: "touches (pool_at c pid) j ?q" by (auto simp: files_of_def)
    have "?q @ [] = p_prefix (pool_at c pid) @ underscore # to_string (unat pid') @ underscore #
        to_string (unat (of_nat i :: u8)) @ underscore # to_string v" using e by simp
    from touches_pid [OF b(1) j this] e show ?thesis by (simp add: word_unat_eq_iff)
  qed
qed

lemma own_files:
  assumes "config_ok c" "pid < kMaxPoolCount" "own_file (pool_at c pid) i q" "i < 128"
  shows "files_of c pid q"
proof -
  have "names_ok (pool_at c pid) empty_world"
    using prefix_at [OF assms(2), of c] assms(1) Pool_new_fields(2) [OF pool_at_new [OF assms(2), of c]] slash_not_in(2)
    by (auto simp: names_ok_def lookup_def empty_world_def config_ok_def)
  from own_in_dir [OF this assms(3)] have "in_dir (ShelfBase c) q" using Pool_new_fields(2) [OF pool_at_new [OF assms(2), of c]] by simp
  then show ?thesis using own_touches [OF assms(3)] assms(4) by (auto simp: files_of_def)
qed

lemma slot_file_of: "config_ok c \<Longrightarrow> pid < kMaxPoolCount \<Longrightarrow> files_of c pid (slot_path (pool_at c pid) 0 1)"
  by (rule own_files [of c pid 0]) (simp_all add: slot_path_own)

lemma meta_file_of [simp]: "files_of c pid (meta_path (pool_at c pid))"
  by (simp add: files_of_def)

lemma clean_if_unused:
  assumes "config_ok c" "pid < kMaxPoolCount" "\<And>q. files_of c pid q \<Longrightarrow> q \<noteq> meta_path (pool_at c pid) \<Longrightarrow> l q = None"
    "0 < pid"
  shows "clean_names (pool_at c pid) l"
proof -
  note new = pool_at_new [OF assms(2), of c]
  have b: "p_base (pool_at c pid) = ShelfBase c" using Pool_new_fields(2) [OF new] .
  have m: "\<not> touches (pool_at c pid) i (meta_path (pool_at c pid))" for i using meta_not_touched [OF new assms(4)] .
  have "\<exists>name. p_prefix (pool_at c pid) = p_base (pool_at c pid) @ ''/'' @ name \<and> CHR ''/'' \<notin> set name"
    using prefix_at [OF assms(2), of c] assms(1) b slash_not_in(2) by (auto simp: config_ok_def)
  moreover have "\<not> touches (pool_at c pid) i q" if "l q \<noteq> None" "in_dir (ShelfBase c) q" "i < 128" for q i
    using assms(3) [of q] m that by (auto simp: files_of_def)
  moreover have "l q = None" if "own_file (pool_at c pid) i q" "i < 128" for q i
    using assms(3) [OF own_files [OF assms(1,2) that]] m own_touches [OF that(1)] by blast
  ultimately show ?thesis unfolding clean_names_def b by blast
qed

lemma name_not_of_pool:
  assumes "config_ok c" "pid < kMaxPoolCount"
    "q = ShelfBase c @ ''/'' @ ShelfUser c @ [underscore] @ ''NVMM'' @ [underscore] @ x # r" "x \<noteq> CHR ''S''"
  shows "\<not> files_of c pid q"
proof
  let ?h = "ShelfBase c @ ''/'' @ ShelfUser c @ [underscore] @ ''NVMM'' @ [underscore]"
  assume "files_of c pid q"
  then consider "q = meta_path (pool_at c pid)" | i where "touches (pool_at c pid) i q"
    by (auto simp: files_of_def)
  then have "\<exists>a b. ?h @ ''Shelf'' @ a = (?h @ x # r) @ b"
  proof cases
    case 1
    then show ?thesis
      using assms(3) Pool_new_fields(7) [OF pool_at_new [OF assms(2), of c]] prefix_at [OF assms(2), of c] by auto
  next
    case 2
    then obtain a b where "slot_prefix (pool_at c pid) i @ a = q @ b"
      unfolding touches_def using take_min_eq by blast
    then show ?thesis using assms(2,3) prefix_at [OF assms(2), of c] by (auto simp: slot_prefix_at)
  qed
  then show False using assms(4) by simp
qed

lemma root_not_of_pool:
  assumes "config_ok c" "pid < kMaxPoolCount"
  shows "\<not> files_of c pid (RootShelfPath c)" "\<not> files_of c pid (EpochShelfPath c)"
  using name_not_of_pool [OF assms, of _ "CHR ''R''" "''OOT''"] name_not_of_pool [OF assms, of _ "CHR ''E''" "''POCH''"] assms(1)
  by (simp_all add: config_ok_def)

lemma base_not_of_pool:
  assumes "pid < kMaxPoolCount"
  shows "\<not> files_of c pid (ShelfBase c)"
  using Pool_new_fields(7) [OF pool_at_new [OF assms, of c]] prefix_at [OF assms, of c] by (auto simp: files_of_def in_dir_def)

lemma boot_paths:
  assumes "config_ok c"
  shows "RootShelfPath c \<noteq> EpochShelfPath c" "ShelfBase c \<noteq> RootShelfPath c" "ShelfBase c \<noteq> EpochShelfPath c"
  using assms by (auto simp: config_ok_def)

section \<open>The table\<close>

text \<open>No two names are one file, and no file is yet to come.\<close>

definition fs_ok :: "world \<Rightarrow> bool" where
  "fs_ok w \<longleftrightarrow> (\<forall>q k. lookup w q = Some k \<longrightarrow> k < next_ino w) \<and>
     (\<forall>q q' k. lookup w q = Some k \<and> lookup w q' = Some k \<longrightarrow> q = q')"

lemma fs_okD: "fs_ok w \<Longrightarrow> lookup w q = Some k \<Longrightarrow> k < next_ino w"
  "fs_ok w \<Longrightarrow> lookup w q = Some k \<Longrightarrow> lookup w q' = Some k \<Longrightarrow> q = q'"
  by (simp_all add: fs_ok_def)

fun holds :: "config \<Rightarrow> world \<Rightarrow> PoolId \<Rightarrow> pool_object option \<Rightarrow> bool" where
  "holds c w pid None \<longleftrightarrow> (\<forall>q. files_of c pid q \<longrightarrow> lookup w q = None)"
| "holds c w pid (Some (A_Region len)) \<longleftrightarrow> (\<exists>n m. region_stored (pool_at c pid) n m len w) \<and>
     (\<forall>q. files_of c pid q \<and> q \<noteq> meta_path (pool_at c pid) \<and> q \<noteq> slot_path (pool_at c pid) 0 1 \<longrightarrow> lookup w q = None)"
| "holds c w pid (Some A_Heap) \<longleftrightarrow> True"

definition store :: "config \<Rightarrow> nat \<Rightarrow> u64 \<Rightarrow> (PoolId \<Rightarrow> pool_object option) \<Rightarrow> mm_state \<Rightarrow> bool" where
  "store c n a R s \<longleftrightarrow> mm_cfg s = c \<and> config_ok c \<and> root_ok n a s \<and> types_in (\<lambda>pid. type_of (R pid)) (root_cells n s) \<and>
     quiet (mm_os s) \<and> fs_ok (mm_os s) \<and> lookup (mm_os s) (RootShelfPath c) = Some n \<and>
     lookup (mm_os s) (ShelfBase c) \<noteq> None \<and> (\<forall>pid. valid_pid pid \<longrightarrow> holds c (mm_os s) pid (R pid))"

lemma holds_frame:
  assumes "config_ok c" "pid < kMaxPoolCount" "holds c w pid x" "\<And>q. files_of c pid q \<Longrightarrow> lookup w' q = lookup w q"
    "\<And>q k. files_of c pid q \<Longrightarrow> lookup w q = Some k \<Longrightarrow> inodes w' k = inodes w k" "next_ino w \<le> next_ino w'"
  shows "holds c w' pid x"
proof (cases x)
  case None
  then show ?thesis using assms(3,4) by simp
next
  case (Some y)
  show ?thesis
  proof (cases y)
    case (A_Region len)
    let ?p = "pool_at c pid"
    from assms(3) obtain n m where r: "region_stored ?p n m len w" using Some A_Region by auto
    then obtain its where its: "pool_stored ?p n its w" "slot_holds its 0 1 True" "\<forall>i < 128. 0 < i \<longrightarrow> \<not> TestValidBitWithIndex its i"
      "lookup w (slot_path ?p 0 1) = Some m" "m \<noteq> n" "m < next_ino w" "i_size (inodes w m) = len" by (auto simp: region_stored_def)
    have f: "files_of c pid (slot_path ?p 0 1)" by (rule slot_file_of [OF assms(1,2)])
    have "lookup w (meta_path ?p) = Some n" using its(1) by (simp add: pool_stored_def)
    then have i: "inodes w' n = inodes w n" "inodes w' m = inodes w m" using assms(5) [OF meta_file_of] assms(5) [OF f] its(4) by auto
    have "pool_stored ?p n its w'" using its(1) i(1) assms(4,6) by (simp add: pool_stored_def)
    then have "region_stored ?p n m len w'" using its assms(4) [OF f] i(2) assms(6) by (auto simp: region_stored_def)
    then show ?thesis using assms(3,4) Some A_Region by auto
  qed (simp add: Some)
qed

text \<open>The steps around the change of an object: the lock is taken, and the lock is left with the type
  set or not.\<close>

lemma store_enter:
  assumes "store c n a R s" "valid_pid pid"
  shows "mm_ready pid s = Inr ()" "mm_Lock pid s = Some (Inr (on_root n (locked (root_cells n s) pid) s))"
    "GetType pid (on_root n (locked (root_cells n s) pid) s) = Inr (type_num (type_of (R pid)), on_root n (locked (root_cells n s) pid) s)"
proof -
  have s: "root_ok n a s" "types_in (\<lambda>pid. type_of (R pid)) (root_cells n s)" "pid < kMaxPoolCount" "0 < pid"
    using assms by (simp_all add: store_def valid_pid_def)
  then show "mm_ready pid s = Inr ()" by (simp add: mm_ready_def root_ok_def)
  show "mm_Lock pid s = Some (Inr (on_root n (locked (root_cells n s) pid) s))"
    using mm_Lock_free [OF s(1)] s(2,3) by (simp add: types_in_def)
  have "root_ok n a (on_root n (locked (root_cells n s) pid) s)" using s(1) by simp
  from GetType_at [OF this] show "GetType pid (on_root n (locked (root_cells n s) pid) s) =
      Inr (type_num (type_of (R pid)), on_root n (locked (root_cells n s) pid) s)"
    using s(2,3) by (simp add: locked_types types_in_def type_num_def)
qed

lemma store_leave:
  assumes "store c n a R s" "valid_pid pid"
  shows "\<exists>s'. mm_Unlock pid (on_root n (locked (root_cells n s) pid) s) = Inr s' \<and> store c n a R s' \<and>
    lookup (mm_os s') = lookup (mm_os s) \<and> heap_mem s' = heap_mem s \<and> mm_mgr s' = mm_mgr s"
proof -
  let ?s = "on_root n (locked (root_cells n s) pid) s"
  let ?s' = "on_root n (unlocked (locked (root_cells n s) pid) pid) s"
  have s: "root_ok n a s" "types_in (\<lambda>pid. type_of (R pid)) (root_cells n s)" "pid < kMaxPoolCount" "config_ok c"
    "fs_ok (mm_os s)" "lookup (mm_os s) (RootShelfPath c) = Some n"
    using assms by (simp_all add: store_def valid_pid_def)
  have "root_ok n a ?s" using s(1) by simp
  from mm_Unlock_at [OF this] have u: "mm_Unlock pid ?s = Inr ?s'" by simp
  have "holds c (mm_os ?s') q (R q)" if "valid_pid q" for q
  proof (rule holds_frame [OF s(4)])
    show q: "q < kMaxPoolCount" using that by (simp add: valid_pid_def)
    show "holds c (mm_os s) q (R q)" using assms(1) that by (simp add: store_def)
    show "inodes (mm_os ?s') k = inodes (mm_os s) k" if "files_of c q r" "lookup (mm_os s) r = Some k" for r k
      using fs_okD(2) [OF s(5) that(2)] s(6) that(1) root_not_of_pool(1) [OF s(4) q] by (cases "k = n") auto
  qed simp_all
  then have "store c n a R ?s'" using assms(1) types_locked(1) [OF s(2,3)] by (auto simp: store_def fs_ok_def)
  with u show ?thesis by (intro exI [of _ ?s']) simp
qed

text \<open>A file operation on pool \<open>pid\<close> under the lock, and the new type.\<close>

lemma store_change:
  assumes "store c n a R s" "valid_pid pid" "holds c w pid x" "quiet w" "fs_ok w" "next_ino (mm_os s) \<le> next_ino w"
    "inodes w n = inodes (set_file_cells n (locked (root_cells n s) pid) (mm_os s)) n"
    "\<And>q. q \<noteq> meta_path (pool_at c pid) \<Longrightarrow> q \<noteq> slot_path (pool_at c pid) 0 1 \<Longrightarrow> lookup w q = lookup (mm_os s) q"
    "\<And>q k. q \<noteq> meta_path (pool_at c pid) \<Longrightarrow> q \<noteq> slot_path (pool_at c pid) 0 1 \<Longrightarrow> lookup (mm_os s) q = Some k \<Longrightarrow> k \<noteq> n \<Longrightarrow>
        inodes w k = inodes (mm_os s) k"
  shows "\<exists>s'. finish_type pid NO_ERROR (type_of x) e ((on_root n (locked (root_cells n s) pid) s)\<lparr>mm_os := w\<rparr>) = Inr (NO_ERROR, s') \<and>
    store c n a (R(pid := x)) s' \<and> lookup (mm_os s') = lookup w \<and> heap_mem s' = heap_mem s \<and> mm_mgr s' = mm_mgr s"
proof -
  let ?s = "(on_root n (locked (root_cells n s) pid) s)\<lparr>mm_os := w\<rparr>"
  let ?c = "store64 (locked (root_cells n s) pid) (type_cell pid) (type_word (type_of x))"
  have s: "root_ok n a s" "types_in (\<lambda>pid. type_of (R pid)) (root_cells n s)" "pid < kMaxPoolCount" "config_ok c"
    "fs_ok (mm_os s)" "lookup (mm_os s) (RootShelfPath c) = Some n" "mm_cfg s = c"
    using assms(1,2) by (simp_all add: store_def valid_pid_def)
  have rc: "root_cells n ?s = locked (root_cells n s) pid"
    using assms(7) by (simp add: root_cells_def file_cells_def set_file_cells_def)
  have r1: "root_ok n a ?s" using s(1) assms(7) by (intro root_ok_frame [OF s(1)]) (simp_all)
  from SetType_at [OF r1, of pid] rc have t: "SetType pid (type_of x) ?s = Inr (on_root n ?c ?s)" by simp
  have r2: "root_ok n a (on_root n ?c ?s)" using r1 by simp
  let ?s' = "on_root n (unlocked ?c pid) ?s"
  from mm_Unlock_at [OF r2] have u: "mm_Unlock pid (on_root n ?c ?s) = Inr ?s'" by simp
  have own: "files_of c pid (meta_path (pool_at c pid))" "files_of c pid (slot_path (pool_at c pid) 0 1)"
    using slot_file_of [OF s(4,3)] by simp_all
  have "RootShelfPath c \<noteq> meta_path (pool_at c pid)" "RootShelfPath c \<noteq> slot_path (pool_at c pid) 0 1"
    using own root_not_of_pool(1) [OF s(4,3)] by metis+
  then have rp: "lookup w (RootShelfPath c) = Some n" using assms(8) s(6) by simp
  have root: "k \<noteq> n" if "lookup w q = Some k" "files_of c q' q" "valid_pid q'" for q q' k
    using fs_okD(2) [OF assms(5) that(1)] rp root_not_of_pool(1) [OF s(4), of q'] that(2,3) by (auto simp: valid_pid_def)
  have "holds c (mm_os ?s') q ((R(pid := x)) q)" if q: "valid_pid q" for q
  proof (cases "q = pid")
    case True
    have "holds c (mm_os ?s') pid x"
      by (rule holds_frame [OF s(4,3) assms(3)]) (use root assms(2) in auto)
    then show ?thesis using True by simp
  next
    case False
    have r: "r \<noteq> meta_path (pool_at c pid)" "r \<noteq> slot_path (pool_at c pid) 0 1" if "files_of c q r" for r
      using meta_files [OF q assms(2)] slot_files [OF q assms(2)] that False by blast+
    have "holds c (mm_os ?s') q (R q)"
    proof (rule holds_frame [OF s(4)])
      show "q < kMaxPoolCount" using q by (simp add: valid_pid_def)
      show "holds c (mm_os s) q (R q)" using assms(1) q by (simp add: store_def)
      show "inodes (mm_os ?s') k = inodes (mm_os s) k" if "files_of c q f" "lookup (mm_os s) f = Some k" for f k
      proof -
        have "lookup w f = Some k" using assms(8) [OF r [OF that(1)]] that(2) by simp
        with root that(1) q have "k \<noteq> n" by blast
        then show ?thesis using assms(9) [OF r [OF that(1)] that(2)] by simp
      qed
    qed (use assms(6,8) r in auto)
    then show ?thesis using False by simp
  qed
  moreover have "types_in (\<lambda>q. type_of ((R(pid := x)) q)) (unlocked ?c pid)"
  proof -
    have "(\<lambda>q. type_of ((R(pid := x)) q)) = (\<lambda>q. type_of (R q))(pid := type_of x)" by auto
    then show ?thesis using types_locked(2) [OF s(2,3)] by simp
  qed
  moreover have "fs_ok (mm_os ?s')" using assms(5) by (simp add: fs_ok_def)
  moreover have "lookup w (ShelfBase c) \<noteq> None"
    using assms(1) assms(8) [of "ShelfBase c"] own base_not_of_pool [OF s(3), of c] unfolding store_def by metis
  ultimately have "store c n a (R(pid := x)) ?s'" using s(4,7) r1 assms(4) rp by (simp add: store_def)
  with t u show ?thesis by (intro exI [of _ ?s']) (simp add: finish_type_def)
qed

end
