(* ===== verification/Memory_Manager_Regions.thy ===== *)
theory Memory_Manager_Regions
  imports Memory_Manager_Store
begin

text \<open>
  What the memory manager's operations on regions and heaps do to the table of objects of theory
  \<open>Memory_Manager_Store\<close>.
\<close>

section \<open>Creating and destroying regions\<close>

lemma delete_closed:
  assumes "\<not> pr_is_open r" "sf_fd (p_meta (pr_pool r)) = None"
  shows "delete_pool_region r s = Inr s"
  using assms by (simp add: delete_pool_region_def PoolRegion_delete_def Pool_delete_def sf_IsOpen_def)

lemma closed_region_meta: "closed_region r \<Longrightarrow> \<not> pr_is_open r \<and> sf_fd (p_meta (pr_pool r)) = None"
  by (simp add: closed_region_def closed_pool_def)

lemma store_facts:
  assumes "store c n a R s" "valid_pid pid"
  shows "mm_cfg s = c" "config_ok c" "quiet (mm_os s)" "fs_ok (mm_os s)" "lookup (mm_os s) (RootShelfPath c) = Some n"
    "holds c (mm_os s) pid (R pid)" "pid < kMaxPoolCount" "0 < pid" "n < next_ino (mm_os s)"
  using assms fs_okD(1) [of "mm_os s" "RootShelfPath c" n] by (simp_all add: store_def valid_pid_def)

lemma create_region_new:
  assumes "store c n a R s" "valid_pid pid" "R pid = None" "len \<noteq> 0" "\<not> bit len 63"
  shows "\<exists>s'. CreateRegion pid len s = Some (Inr (NO_ERROR, s')) \<and> store c n a (R(pid := Some (A_Region len))) s'"
proof -
  note F = store_facts [OF assms(1,2)] and E = store_enter [OF assms(1,2)]
  let ?s = "on_root n (locked (root_cells n s) pid) s" and ?r = "region_at c pid" and ?p = "pool_at c pid"
  have free: "lookup (mm_os s) q = None" if "files_of c pid q" for q using F(6) assms(3) that by simp
  have new: "new_region pid ?s = Inr ?r" using F(1) region_at_new [OF F(7)] by (simp add: new_region_def)
  have lk: "lookup (mm_os ?s) (meta_path (pr_pool ?r)) = None" using free by simp
  have cn: "clean_names (pr_pool ?r) (lookup (mm_os ?s))" using clean_if_unused [OF F(2,7) _ F(8)] free by simp
  have q: "quiet (mm_os ?s)" using F(3) by simp
  from pr_create_spec [OF region_at_new [OF F(7)] F(8) q lk cn assms(4,5)] obtain r' w where r': "pr_Create len ?r (mm_os ?s) = Some (Inr (NO_ERROR, r', w))" "closed_region r'" "quiet w"
    "lookup w = (lookup (mm_os s))(meta_path ?p := Some (next_ino (mm_os s)), slot_path ?p 0 1 := Some (Suc (next_ino (mm_os s))))"
    "next_ino w = next_ino (mm_os s) + 2" "region_stored ?p (next_ino (mm_os s)) (Suc (next_ino (mm_os s))) len w"
    "\<forall>k < next_ino (mm_os s). inodes w k = inodes (mm_os ?s) k"
    by auto
  have "holds c w pid (Some (A_Region len))" using r'(4,6) free by auto
  moreover have "fs_ok w"
  proof -
    have lt: "k < next_ino (mm_os s)" if "lookup (mm_os s) q = Some k" for q k using fs_okD(1) [OF F(4) that] .
    have "k < next_ino w" if "lookup w q = Some k" for q k using that lt by (fastforce simp: r'(4,5) split: if_splits)
    moreover have "q = q'" if "lookup w q = Some k" "lookup w q' = Some k" for q q' k
      using that lt [of q k] lt [of q' k] fs_okD(2) [OF F(4), of q k q'] by (auto simp: r'(4) split: if_splits)
    ultimately show ?thesis unfolding fs_ok_def by blast
  qed
  moreover have "inodes w k = inodes (mm_os s) k" if "lookup (mm_os s) q = Some k" "k \<noteq> n" for q k
    using r'(7) fs_okD(1) [OF F(4) that(1)] that(2) by simp
  ultimately obtain s' where s': "finish_type pid NO_ERROR REGION ID_FOUND (?s\<lparr>mm_os := w\<rparr>) = Inr (NO_ERROR, s')"
    "store c n a (R(pid := Some (A_Region len))) s'"
    using store_change [OF assms(1,2), of w "Some (A_Region len)" ID_FOUND] r'(3,4,5,7) F(9) by auto
  have "CreateRegion pid len s = Some (Inr (NO_ERROR, s'))"
    using E assms(3) new r'(1) s'(1) delete_closed closed_region_meta [OF r'(2)] by (simp add: CreateRegion_def)
  with s'(2) show ?thesis by blast
qed

lemma create_region_taken:
  assumes "store c n a R s" "valid_pid pid" "R pid \<noteq> None"
  shows "\<exists>s'. CreateRegion pid len s = Some (Inr (ID_FOUND, s')) \<and> store c n a R s' \<and> lookup (mm_os s') = lookup (mm_os s)"
proof -
  from store_leave [OF assms(1,2)] obtain s' where s': "mm_Unlock pid (on_root n (locked (root_cells n s) pid) s) = Inr s'"
    "store c n a R s'" "lookup (mm_os s') = lookup (mm_os s)" by blast
  have "type_of (R pid) \<noteq> NONE" using assms(3) by (auto elim: type_of.elims)
  then show ?thesis using s' store_enter [OF assms(1,2)] by (auto simp: CreateRegion_def)
qed

text \<open>A region of size 0 is refused with the code for an id that is taken.\<close>

lemma create_region_empty:
  assumes "store c n a R s" "valid_pid pid" "R pid = None"
  shows "\<exists>s'. CreateRegion pid 0 s = Some (Inr (ID_FOUND, s')) \<and> store c n a R s' \<and> lookup (mm_os s') = lookup (mm_os s)"
proof -
  note F = store_facts [OF assms(1,2)]
  let ?s = "on_root n (locked (root_cells n s) pid) s" and ?r = "region_at c pid"
  from store_leave [OF assms(1,2)] obtain s' where s': "mm_Unlock pid ?s = Inr s'"
    "store c n a R s'" "lookup (mm_os s') = lookup (mm_os s)" by blast
  have new: "new_region pid ?s = Inr ?r" using F(1) region_at_new [OF F(7)] by (simp add: new_region_def)
  have cr: "pr_Create 0 ?r (mm_os ?s) = Some (Inr (INVALID_ARGUMENTS, ?r, mm_os ?s))"
    by (simp add: pr_Create_def region_at_def)
  have "delete_pool_region ?r s' = Inr s'"
    using delete_closed closed_region_meta [OF new_region_fields(3) [OF region_at_new [OF F(7)]]] by blast
  moreover have "?s\<lparr>mm_os := mm_os ?s\<rparr> = ?s" by simp
  ultimately have "CreateRegion pid 0 s = Some (Inr (ID_FOUND, s'))"
    using store_enter [OF assms(1,2)] assms(3) new cr s'(1)
    by (simp add: CreateRegion_def finish_type_def del: on_root_simps)
  with s' show ?thesis by blast
qed

lemma destroy_region:
  assumes "store c n a R s" "valid_pid pid" "R pid = Some (A_Region len)"
  shows "\<exists>s'. DestroyRegion pid s = Some (Inr (NO_ERROR, s')) \<and> store c n a (R(pid := None)) s'"
proof -
  note F = store_facts [OF assms(1,2)] and E = store_enter [OF assms(1,2)]
  let ?s = "on_root n (locked (root_cells n s) pid) s" and ?r = "region_at c pid" and ?p = "pool_at c pid"
  have free: "lookup (mm_os s) q = None" if "files_of c pid q" "q \<noteq> meta_path ?p" "q \<noteq> slot_path ?p 0 1" for q
    using F(6) assms(3) that by simp
  from F(6) assms(3) obtain k m where km: "region_stored ?p k m len (mm_os s)" by auto
  have k: "lookup (mm_os s) (meta_path ?p) = Some k" "lookup (mm_os s) (slot_path ?p 0 1) = Some m"
    using km by (auto simp: region_stored_def pool_stored_def)
  have own: "files_of c pid (slot_path ?p 0 1)" by (rule slot_file_of [OF F(2,7)])
  have "k \<noteq> n" using fs_okD(2) [OF F(4) k(1), of "RootShelfPath c"] F(5) root_not_of_pool(1) [OF F(2,7)] meta_file_of by metis
  have "m \<noteq> n" using fs_okD(2) [OF F(4) k(2), of "RootShelfPath c"] F(5) root_not_of_pool(1) [OF F(2,7)] own by metis
  have new: "new_region pid ?s = Inr ?r" using F(1) region_at_new [OF F(7)] by (simp add: new_region_def)
  have rs: "region_stored (pr_pool ?r) k m len (mm_os ?s)"
    using km \<open>k \<noteq> n\<close> by (simp add: region_stored_def pool_stored_def)
  have cn: "clean_names (pr_pool ?r) ((lookup (mm_os ?s))(slot_path (pr_pool ?r) 0 1 := None))"
    using clean_if_unused [OF F(2,7) _ F(8)] free by simp
  have q: "quiet (mm_os ?s)" using F(3) by simp
  have "slot_path (pr_pool ?r) 0 1 \<noteq> meta_path (pr_pool ?r)"
    using meta_not_slot [OF pool_at_new [OF F(7)], of c 0 1] by (metis region_at_pool)
  from pr_destroy_spec [OF new_region_fields(3) [OF region_at_new [OF F(7)]] q rs cn this] obtain r' w where r':
    "pr_Destroy ?r (mm_os ?s) = Inr (NO_ERROR, r', w)" "\<not> pr_is_open r'" "sf_fd (p_meta (pr_pool r')) = None" "quiet w"
    "next_ino w = next_ino (mm_os s)" "lookup w = (lookup (mm_os s))(slot_path ?p 0 1 := None, meta_path ?p := None)"
    "\<forall>j. j \<noteq> k \<longrightarrow> inodes w j = inodes (mm_os ?s) j" by auto
  have "holds c w pid None" using free by (auto simp: r'(6))
  moreover have "fs_ok w" using F(4) by (auto simp: fs_ok_def r'(5,6) split: if_splits)
  moreover have "inodes w j = inodes (mm_os s) j" if "q \<noteq> meta_path ?p" "lookup (mm_os s) q = Some j" "j \<noteq> n" for q j
  proof -
    have "j \<noteq> k" using fs_okD(2) [OF F(4) that(2), of "meta_path ?p"] k(1) that(1) by blast
    then show ?thesis using r'(7) that(3) by simp
  qed
  ultimately obtain s' where s': "finish_type pid NO_ERROR NONE ID_NOT_FOUND (?s\<lparr>mm_os := w\<rparr>) = Inr (NO_ERROR, s')"
    "store c n a (R(pid := None)) s'"
    using store_change [OF assms(1,2), of w None ID_NOT_FOUND] r'(4-7) \<open>k \<noteq> n\<close> by auto
  have "DestroyRegion pid s = Some (Inr (NO_ERROR, s'))"
    using E assms(3) new r'(1) s'(1) delete_closed [OF r'(2,3)] by (simp add: DestroyRegion_def)
  with s'(2) show ?thesis by blast
qed

lemma destroy_region_absent:
  assumes "store c n a R s" "valid_pid pid" "\<nexists>len. R pid = Some (A_Region len)"
  shows "\<exists>s'. DestroyRegion pid s = Some (Inr (ID_NOT_FOUND, s')) \<and> store c n a R s' \<and> lookup (mm_os s') = lookup (mm_os s)"
proof -
  from store_leave [OF assms(1,2)] obtain s' where s': "mm_Unlock pid (on_root n (locked (root_cells n s) pid) s) = Inr s'"
    "store c n a R s'" "lookup (mm_os s') = lookup (mm_os s)" by blast
  have "type_of (R pid) \<noteq> REGION" using assms(3) by (auto elim: type_of.elims)
  then show ?thesis using s' store_enter [OF assms(1,2)] by (auto simp: DestroyRegion_def)
qed

section \<open>Finding regions\<close>

lemma find_region:
  assumes "store c n a R s" "valid_pid pid" "R pid = Some (A_Region len)"
  shows "\<exists>s'. FindRegion pid s = Some (Inr (NO_ERROR, Some (region_at c pid), s')) \<and> store c n a R s'"
proof -
  note F = store_facts [OF assms(1,2)]
  let ?s = "on_root n (locked (root_cells n s) pid) s"
  from store_leave [OF assms(1,2)] obtain s' where s': "mm_Unlock pid ?s = Inr s'"
    "store c n a R s'" "lookup (mm_os s') = lookup (mm_os s)" by blast
  have new: "new_region pid ?s = Inr (region_at c pid)" using F(1) region_at_new [OF F(7)] by (simp add: new_region_def)
  from F(6) assms(3) have "lookup (mm_os s) (meta_path (pool_at c pid)) \<noteq> None" by (auto simp: region_stored_def pool_stored_def)
  then have "pr_Exist (region_at c pid) (mm_os s')"
    by (simp add: pr_Exist_def pool_Exist_def sf_Exist_def s'(3) flip: meta_path_def)
  then show ?thesis using s' store_enter [OF assms(1,2)] assms(3) new by (auto simp: FindRegion_def)
qed

lemma find_region_absent:
  assumes "store c n a R s" "valid_pid pid" "\<nexists>len. R pid = Some (A_Region len)"
  shows "\<exists>s'. FindRegion pid s = Some (Inr (ID_NOT_FOUND, None, s')) \<and> store c n a R s'"
proof -
  from store_leave [OF assms(1,2)] obtain s' where s': "mm_Unlock pid (on_root n (locked (root_cells n s) pid) s) = Inr s'"
    "store c n a R s'" "lookup (mm_os s') = lookup (mm_os s)" by blast
  have "type_of (R pid) \<noteq> REGION" using assms(3) by (auto elim: type_of.elims)
  then show ?thesis using s' store_enter [OF assms(1,2)] by (auto simp: FindRegion_def)
qed

end
