(* ===== verification/Memory_Manager_Start.thy ===== *)
theory Memory_Manager_Start
  imports Memory_Manager_Regions
begin

text \<open>
  Starting the library on a new directory, when no system call fails: \<open>StartNVMM\<close> creates the root shelf
  and the epoch shelf, and the memory manager then starts with an empty table of objects. Stopping and
  starting again keeps the table.
\<close>

section \<open>Boot shelves\<close>

lemma file_cells_calls [simp]: "file_cells n (w\<lparr>calls := k\<rparr>) = file_cells n w"
  by (simp add: file_cells_def)

lemma bs_create_spec:
  assumes "quiet w" "bs_fd b = None" "lookup w (bs_path b) = None" "init (\<lambda>_. 0) = Inr (c, m')"
  shows "\<exists>w'. bs_Create magic init m b w = Inr (NO_ERROR, m', w') \<and> quiet w' \<and> env w' = env w \<and>
    lookup w' = (lookup w)(bs_path b := Some (next_ino w)) \<and> next_ino w' = Suc (next_ino w) \<and>
    i_size (inodes w' (next_ino w)) = kBootShelfSize \<and> file_cells (next_ino w) w' = store64 c 0 magic \<and>
    (\<forall>k. k \<noteq> next_ino w \<longrightarrow> inodes w' k = inodes w k)"
  using assms
  by (simp add: bs_Create_def bs_Exist_def bs_IsOpen_def sys_open_excl_def sys_ftruncate_def sys_truncate_ino_def sys_mmap_def
      sys_munmap_def sys_close_def quiet_call fam_atomic_register_region_def kBootShelfSize_def Let_def)
    (simp add: lookup_def fun_eq_iff)

text \<open>\<open>good_maps\<close>: \<open>mmap\<close> returns page-aligned mappings inside the address space.\<close>

definition good_maps :: "world \<Rightarrow> bool" where
  "good_maps w \<longleftrightarrow> (\<forall>k. place (env w) k AND 0xFFF = 0 \<and> unat (place (env w) k) + 0x8000000 < 2 ^ 64)"

lemma bs_open_spec:
  assumes "quiet w" "bs_fd b = None" "lookup w (bs_path b) = Some n" "i_size (inodes w n) = kBootShelfSize"
    "load64 (file_cells n w) 0 = magic"
  shows "\<exists>a w'. bs_Open magic b w = Inr (NO_ERROR, b\<lparr>bs_fd := Some n, bs_addr := Some a\<rparr>, w') \<and> quiet w' \<and> env w' = env w \<and>
    (\<exists>k. a = place (env w) k) \<and> inodes w' = inodes w \<and> next_ino w' = next_ino w \<and> lookup w' = lookup w"
  using assms
  by (auto simp: bs_Open_def bs_IsOpen_def sys_open_def sys_mmap_def quiet_call fam_atomic_register_region_def touch_file_def
      kBootShelfSize_def Let_def file_cells_def set_file_cells_def)

lemma bs_close_spec:
  assumes "quiet w" "bs_fd b = Some n"
  shows "\<exists>w'. bs_Close b w = (NO_ERROR, b\<lparr>bs_fd := None\<rparr>, w') \<and> quiet w' \<and> env w' = env w \<and>
    inodes w' = inodes w \<and> next_ino w' = next_ino w \<and> lookup w' = lookup w"
  using assms by (simp add: bs_Close_def bs_IsOpen_def sys_munmap_def sys_close_def quiet_call)

section \<open>The first start\<close>

text \<open>\<open>new_directory\<close>: the directory, if it exists, has neither boot shelf and no file of a pool.\<close>

definition new_directory :: "config \<Rightarrow> world \<Rightarrow> bool" where
  "new_directory c w \<longleftrightarrow> config_ok c \<and> quiet w \<and> fs_ok w \<and> good_maps w \<and> lookup w (RootShelfPath c) = None \<and>
     lookup w (EpochShelfPath c) = None \<and> (\<forall>pid q. valid_pid pid \<and> files_of c pid q \<longrightarrow> lookup w q = None)"

lemma epoch_init_spec: "\<exists>ev. epoch_init x m = Inr (m, ev)"
proof -
  have "[0..<NR_PARTICIPANT] = 0 # [1..<NR_PARTICIPANT]" by (simp add: upt_conv_Cons del: upt_rec_numeral)
  then have "acquire_slot (set_frontier zero_vec EPOCH_MIN_ACTIVE) (ee_pid x) =
      (0, (set_frontier zero_vec EPOCH_MIN_ACTIVE)\<lparr>slots := (slots (set_frontier zero_vec EPOCH_MIN_ACTIVE))
          (0 := \<lparr>slot_pid = ee_pid x, slot_reported = 1\<rparr>)\<rparr>)"
    by (simp add: acquire_slot_spec zero_vec_def set_frontier_def)
  then show ?thesis by (auto simp: epoch_init_def EpochManagerImpl_new_def register_participant_def EpochVector_new_def Let_def)
qed

lemma start_library:
  assumes "new_directory c w"
  shows "\<exists>n ev' w'. StartNVMM base0 user0 x [] [] c sm ev w = Inr (c, sm, ev', w') \<and> quiet w' \<and> fs_ok w' \<and> good_maps w' \<and>
    lookup w' (RootShelfPath c) = Some n \<and> lookup w' (EpochShelfPath c) \<noteq> None \<and> lookup w' (ShelfBase c) \<noteq> None \<and>
    i_size (inodes w' n) = kBootShelfSize \<and> file_cells n w' = store64 (\<lambda>_. 0) 0 root_kMagicNum \<and>
    (\<forall>pid q. valid_pid pid \<and> files_of c pid q \<longrightarrow> lookup w' q = None)"
proof -
  note D = assms [unfolded new_directory_def]
  have c: "config_ok c" using D by blast
  note P = boot_paths [OF c]
  obtain w1 where w1: "(if lookup w (ShelfBase c) = None
      then (case sys_mkdir (ShelfBase c) w of (Inr _, w) \<Rightarrow> Inr w | (Inl _, w) \<Rightarrow> Inl Runtime_Error) else Inr w) = Inr w1"
    "quiet w1" "fs_ok w1" "env w1 = env w" "lookup w1 (ShelfBase c) \<noteq> None" "\<forall>q. q \<noteq> ShelfBase c \<longrightarrow> lookup w1 q = lookup w q"
  proof (cases "lookup w (ShelfBase c) = None")
    case True
    let ?w = "(snd (sys_mkdir (ShelfBase c) w))"
    have l: "lookup ?w = (lookup w)(ShelfBase c := Some (next_ino w))" "next_ino ?w = Suc (next_ino w)"
      "env ?w = env w" "quiet ?w" "fst (sys_mkdir (ShelfBase c) w) = Inr ()"
      using True D by (simp_all add: sys_mkdir_def sys_open_excl_def quiet_call) (simp_all add: lookup_def fun_eq_iff)
    have "fs_ok ?w" using D unfolding fs_ok_def l(1,2) by (auto split: if_splits dest: less_SucI)
    then show ?thesis using that [of ?w] True l by (simp add: split_beta)
  qed (use that D in auto)
  let ?r = "BootShelf (RootShelfPath c)" and ?e = "BootShelf (EpochShelfPath c)"
  have none: "lookup w1 (RootShelfPath c) = None" "lookup w1 (EpochShelfPath c) = None" using w1(6) D P by auto
  have "root_init (\<lambda>_. 0) = Inr (\<lambda>_. 0, ())" by (auto simp: root_init_def zero_range_def)
  from bs_create_spec [where init = root_init, OF w1(2) _ _ this, of ?r root_kMagicNum "()"] none(1) obtain w2 where w2:
    "RootShelf_Create ?r w1 = Inr (NO_ERROR, w2)" "quiet w2" "env w2 = env w1" "next_ino w2 = Suc (next_ino w1)"
    "lookup w2 = (lookup w1)(RootShelfPath c := Some (next_ino w1))" "i_size (inodes w2 (next_ino w1)) = kBootShelfSize"
    "file_cells (next_ino w1) w2 = store64 (\<lambda>_. 0) 0 root_kMagicNum"
    by (auto simp: BootShelf_def RootShelf_Create_def)
  obtain ev' where "epoch_init x (\<lambda>_. 0) = Inr (\<lambda>_. 0, ev')" using epoch_init_spec by blast
  from bs_create_spec [where init = "epoch_init x", OF w2(2) _ _ this, of ?e epoch_kMagicNum ev] none(2) P(1) obtain w3 where w3:
    "EpochShelf_Create x ev ?e w2 = Inr (NO_ERROR, ev', w3)" "quiet w3" "env w3 = env w2" "next_ino w3 = Suc (next_ino w2)"
    "lookup w3 = (lookup w2)(EpochShelfPath c := Some (next_ino w2))" "\<forall>k. k \<noteq> next_ino w2 \<longrightarrow> inodes w3 k = inodes w2 k"
    by (auto simp: BootShelf_def EpochShelf_Create_def w2(5))
  have "StartNVMM base0 user0 x [] [] c sm ev w = Inr (c, sm, ev', w3)"
    using w1(1,5) w2(1,5) w3(1) none P by (simp add: StartNVMM_def bs_Exist_def BootShelf_def)
  moreover have "fs_ok w3"
    using w1(3) unfolding fs_ok_def w3(4,5) w2(4,5) by (fastforce split: if_splits)
  moreover have "\<forall>pid q. valid_pid pid \<and> files_of c pid q \<longrightarrow> lookup w3 q = None"
  proof (intro allI impI, elim conjE)
    fix pid q assume that: "valid_pid pid" "files_of c pid q"
    have "q \<noteq> RootShelfPath c" "q \<noteq> EpochShelfPath c" "q \<noteq> ShelfBase c"
      using root_not_of_pool [OF c, of pid] base_not_of_pool [of pid c] that by (auto simp: valid_pid_def)
    then show "lookup w3 q = None" using w1(6) that D by (simp add: w3(5) w2(5))
  qed
  moreover have "good_maps w3" using D w1(4) w2(3) w3(3) by (simp add: good_maps_def)
  moreover have "file_cells (next_ino w1) w3 = file_cells (next_ino w1) w2" "i_size (inodes w3 (next_ino w1)) = kBootShelfSize"
    using w3(6) w2(4,6) by (simp_all add: file_cells_def)
  moreover have "lookup w3 (RootShelfPath c) = Some (next_ino w1)" "lookup w3 (EpochShelfPath c) \<noteq> None" "lookup w3 (ShelfBase c) \<noteq> None"
    using w1(5) P by (simp_all add: w3(5) w2(5))
  moreover note w3(2)
  ultimately show ?thesis unfolding w2(7)
    by (intro exI [of _ "next_ino w1"] exI [of _ ev'] exI [of _ w3] conjI) assumption+
qed

text \<open>\<open>Start\<close> on a root shelf whose types are \<open>R\<close>.\<close>

lemma start_manager:
  assumes "mm_cfg s = c" "config_ok c" "quiet (mm_os s)" "fs_ok (mm_os s)" "good_maps (mm_os s)"
    "lookup (mm_os s) (ShelfBase c) \<noteq> None" "lookup (mm_os s) (RootShelfPath c) = Some n"
    "i_size (inodes (mm_os s) n) = kBootShelfSize"
    "types_in (\<lambda>pid. type_of (R pid)) (root_cells n s)" "\<And>pid. valid_pid pid \<Longrightarrow> holds c (mm_os s) pid (R pid)"
  shows "\<exists>a s'. mm_Start s = Inr s' \<and> store c n a R s' \<and> root_cells n s' = root_cells n s \<and> a AND 0xFFF = 0 \<and>
    env (mm_os s') = env (mm_os s) \<and> lookup (mm_os s') = lookup (mm_os s)"
proof -
  let ?b = "BootShelf (RootShelfPath c)"
  have "bs_fd ?b = None" "lookup (mm_os s) (bs_path ?b) = Some n" using assms(7) by (simp_all add: BootShelf_def)
  from bs_open_spec [OF assms(3) this assms(8), of root_kMagicNum] assms(9) obtain a w k where w:
    "RootShelf_Open ?b (mm_os s) = Inr (NO_ERROR, ?b\<lparr>bs_fd := Some n, bs_addr := Some a\<rparr>, w)" "quiet w" "env w = env (mm_os s)"
    "a = place (env (mm_os s)) k" "inodes w = inodes (mm_os s)" "next_ino w = next_ino (mm_os s)" "lookup w = lookup (mm_os s)"
    unfolding RootShelf_Open_def root_cells_def types_in_def by blast
  have a: "a AND 0xFFF = 0" "unat a + 0x8000000 < 2 ^ 64" using assms(5) by (simp_all add: good_maps_def w(4))
  have ac: "68159559 + a = a + 68159559" by simp
  obtain s' where s': "mm_Start s = Inr s'" "mm_os s' = w" "mm_cfg s' = c" "root_ok n a s'"
    using w(1,5) assms(1,6-8) a
    by (simp add: mm_Start_def mm_Init_def Impl_new_def bs_Exist_def Let_def BootShelf_def bs_Addr_def root_ok_def
        kCacheLineSize_def kMaxPoolCount_def ac)
  have rc: "root_cells n s' = root_cells n s" by (simp add: root_cells_def file_cells_def s'(2) w(5))
  have "holds c w pid (R pid)" if "valid_pid pid" for pid
    by (rule holds_frame [OF assms(2) _ assms(10) [OF that]]) (use that in \<open>simp_all add: w(5-7) valid_pid_def\<close>)
  moreover have "fs_ok w" using assms(4) unfolding fs_ok_def w(6,7) .
  ultimately have "store c n a R s'" unfolding store_def s'(2) rc using s'(3,4) assms(2,6,7,9) w(2,7) by simp
  then show ?thesis using s'(1,2) rc a(1) w(3,7) by auto
qed

lemma stop_manager:
  assumes "store c n a R s"
  shows "\<exists>s'. mm_Stop s = Inr s' \<and> mm_cfg s' = c \<and> env (mm_os s') = env (mm_os s) \<and> quiet (mm_os s') \<and>
    inodes (mm_os s') = inodes (mm_os s) \<and> next_ino (mm_os s') = next_ino (mm_os s) \<and> lookup (mm_os s') = lookup (mm_os s) \<and>
    heap_mem s' = heap_mem s \<and> mm_mgr s' = mm_mgr s"
proof -
  have q: "quiet (mm_os s)" and fd: "bs_fd (root_shelf (mm s)) = Some n" and c: "mm_cfg s = c"
    using assms by (simp_all add: store_def root_ok_def)
  from bs_close_spec [OF q fd] obtain w where "bs_Close (root_shelf (mm s)) (mm_os s) = (NO_ERROR, (root_shelf (mm s))\<lparr>bs_fd := None\<rparr>, w)"
    "quiet w" "env w = env (mm_os s)" "inodes w = inodes (mm_os s)" "next_ino w = next_ino (mm_os s)" "lookup w = lookup (mm_os s)"
    by blast
  then show ?thesis using c by (simp add: mm_Stop_def mm_Final_def BootShelf_delete_def bs_IsOpen_def)
qed

lemma first_start:
  assumes "new_directory c w" "mm_cfg s = c"
  shows "\<exists>ev' w' s' n a. StartNVMM base0 user0 x [] [] c sm ev w = Inr (c, sm, ev', w') \<and>
    mm_Start (s\<lparr>mm_os := w'\<rparr>) = Inr s' \<and> store c n a (\<lambda>_. None) s' \<and> good_maps (mm_os s') \<and>
    root_cells n s' = store64 (\<lambda>_. 0) 0 root_kMagicNum"
proof -
  from start_library [OF assms(1), of base0 user0 x sm ev] obtain n ev' w' where w':
    "StartNVMM base0 user0 x [] [] c sm ev w = Inr (c, sm, ev', w')" "quiet w'" "fs_ok w'" "good_maps w'"
    "lookup w' (RootShelfPath c) = Some n" "lookup w' (ShelfBase c) \<noteq> None"
    "i_size (inodes w' n) = kBootShelfSize" "file_cells n w' = store64 (\<lambda>_. 0) 0 root_kMagicNum"
    "\<forall>pid q. valid_pid pid \<and> files_of c pid q \<longrightarrow> lookup w' q = None" by blast
  let ?s = "s\<lparr>mm_os := w'\<rparr>"
  have rc: "root_cells n ?s = store64 (\<lambda>_. 0) 0 root_kMagicNum" by (simp add: root_cells_def w'(8))
  have "types_in (\<lambda>pid. type_of None) (store64 (\<lambda>_. 0) 0 root_kMagicNum)"
  proof -
    have "load64 (store64 (\<lambda>_. 0) 0 root_kMagicNum) (type_cell pid) = 0" "lock_free (store64 (\<lambda>_. 0) 0 root_kMagicNum) pid" for pid
      by (simp_all add: lock_free_def load64_def store64_def lock_cell_def type_cell_def)
    then show ?thesis by (simp add: types_in_def)
  qed
  with rc have "types_in (\<lambda>pid. type_of None) (root_cells n ?s)" by simp
  from start_manager [OF _ _ _ _ _ _ _ _ this, of c] assms w' obtain a s' where
    s': "mm_Start ?s = Inr s'" "store c n a (\<lambda>_. None) s'" "env (mm_os s') = env w'" "root_cells n s' = root_cells n ?s"
    by (simp add: new_directory_def) blast
  have "good_maps (mm_os s')" using w'(4) unfolding good_maps_def s'(3) .
  with w'(1) s'(1,2,4) rc show ?thesis by auto
qed

end
