(* ===== verification/Memory_Manager_Props.thy ===== *)
theory Memory_Manager_Props
  imports Memory_Manager_Start Shelf_Manager_Props
begin

text \<open>
  The properties of the memory manager: as a table of regions, at start and restart, for wrong types and
  for ids beyond the limit, and for the root pointers.
\<close>

section \<open>Clients\<close>

text \<open>A client asks for the size of a region by finding, opening, closing and deleting it. The table
  answers the same questions abstractly.\<close>

definition region_size :: "PoolId \<Rightarrow> mm_state \<Rightarrow> ((error_code \<times> u64 option) \<times> mm_state) result option" where
  "region_size pid s =
     obind (FindRegion pid s) (\<lambda>(ret, found, s).
       case found of
         None \<Rightarrow> Some (Inr ((ret, None), s))
       | Some r \<Rightarrow>
           obind (Some (pr_Open r (mm_os s))) (\<lambda>(ret, r, w).
           obind (Some (pr_Close r w)) (\<lambda>(_, r', w).
           obind (Some (PoolRegion_delete r' w)) (\<lambda>w.
             Some (Inr ((ret, Some (pr_size r)), s\<lparr>mm_os := w\<rparr>))))))"

datatype region_call = Create_Region PoolId u64 | Destroy_Region PoolId | Region_Size PoolId

fun mm_call :: "region_call \<Rightarrow> mm_state \<Rightarrow> ((error_code \<times> u64 option) \<times> mm_state) result option" where
  "mm_call (Create_Region pid len) s = obind (CreateRegion pid len s) (\<lambda>(ret, s). Some (Inr ((ret, None), s)))"
| "mm_call (Destroy_Region pid) s = obind (DestroyRegion pid s) (\<lambda>(ret, s). Some (Inr ((ret, None), s)))"
| "mm_call (Region_Size pid) s = region_size pid s"

fun mm_calls :: "region_call list \<Rightarrow> mm_state \<Rightarrow> ((error_code \<times> u64 option) list \<times> mm_state) result option" where
  "mm_calls [] s = Some (Inr ([], s))"
| "mm_calls (x # xs) s = obind (mm_call x s) (\<lambda>(r, s). obind (mm_calls xs s) (\<lambda>(rs, s). Some (Inr (r # rs, s))))"

type_synonym objects = "PoolId \<Rightarrow> pool_object option"

fun table_call :: "region_call \<Rightarrow> objects \<Rightarrow> (error_code \<times> u64 option) \<times> objects" where
  "table_call (Create_Region pid len) R =
     (if R pid \<noteq> None \<or> len = 0 then ((ID_FOUND, None), R) else ((NO_ERROR, None), R(pid := Some (A_Region len))))"
| "table_call (Destroy_Region pid) R =
     (case R pid of Some (A_Region _) \<Rightarrow> ((NO_ERROR, None), R(pid := None)) | _ \<Rightarrow> ((ID_NOT_FOUND, None), R))"
| "table_call (Region_Size pid) R =
     (case R pid of Some (A_Region len) \<Rightarrow> ((NO_ERROR, Some len), R) | _ \<Rightarrow> ((ID_NOT_FOUND, None), R))"

fun table_calls :: "region_call list \<Rightarrow> objects \<Rightarrow> (error_code \<times> u64 option) list \<times> objects" where
  "table_calls [] R = ([], R)"
| "table_calls (x # xs) R = (let (r, R) = table_call x R; (rs, R) = table_calls xs R in (r # rs, R))"

fun call_ok :: "region_call \<Rightarrow> bool" where
  "call_ok (Create_Region pid len) \<longleftrightarrow> valid_pid pid \<and> \<not> bit len 63"
| "call_ok (Destroy_Region pid) \<longleftrightarrow> valid_pid pid"
| "call_ok (Region_Size pid) \<longleftrightarrow> valid_pid pid"

lemma store_world:
  assumes "store c n a R s" "inodes w = inodes (mm_os s)" "next_ino w = next_ino (mm_os s)" "lookup w = lookup (mm_os s)" "quiet w"
  shows "store c n a R (s\<lparr>mm_os := w\<rparr>)"
proof -
  let ?s = "s\<lparr>mm_os := w\<rparr>"
  from assms(1) have S: "mm_cfg s = c" "config_ok c" "root_ok n a s" "types_in (\<lambda>pid. type_of (R pid)) (root_cells n s)"
    "fs_ok (mm_os s)" "lookup (mm_os s) (RootShelfPath c) = Some n" "lookup (mm_os s) (ShelfBase c) \<noteq> None" "\<forall>pid. valid_pid pid \<longrightarrow> holds c (mm_os s) pid (R pid)"
    unfolding store_def by blast+
  have rc: "root_cells n ?s = root_cells n s" using assms(2) by (simp add: root_cells_def file_cells_def)
  have rt: "root_ok n a ?s" by (rule root_ok_frame [OF S(3)]) (simp_all add: assms(2))
  have fs: "fs_ok w" using S(5) unfolding fs_ok_def assms(3,4) .
  have "holds c w pid (R pid)" if "valid_pid pid" for pid
    by (rule holds_frame [of c pid "mm_os s"]) (use S(2,8) that in \<open>simp_all add: assms(2-4) valid_pid_def\<close>)
  then show ?thesis unfolding store_def using S(1,2,4,6,7) assms(4,5) rt fs rc by simp
qed

lemma region_size_spec:
  assumes "store c n a R s" "valid_pid pid"
  shows "\<exists>s'. region_size pid s = Some (Inr (fst (table_call (Region_Size pid) R), s')) \<and> store c n a R s'"
proof (cases "\<exists>len. R pid = Some (A_Region len)")
  case True
  then obtain len where R: "R pid = Some (A_Region len)" by blast
  from find_region [OF assms R] obtain s1 where s1: "FindRegion pid s = Some (Inr (NO_ERROR, Some (region_at c pid), s1))"
    "store c n a R s1" by blast
  note F = store_facts [OF s1(2) assms(2)]
  from F(6) R obtain k m where km: "region_stored (pr_pool (region_at c pid)) k m len (mm_os s1)" by auto
  from pr_open_spec [OF new_region_fields(3) [OF region_at_new [OF F(7)]] F(3) km] obtain r w r' w' where
    r: "pr_Open (region_at c pid) (mm_os s1) = Inr (NO_ERROR, r, w)" "pr_size r = len" "pr_Close r w = Inr (NO_ERROR, r', w')"
      "closed_region r'" "quiet w'" "inodes w' = inodes (mm_os s1)" "next_ino w' = next_ino (mm_os s1)" "lookup w' = lookup (mm_os s1)"
    by (elim exE conjE)
  have "PoolRegion_delete r' w' = Inr w'"
    using closed_region_meta [OF r(4)] by (simp add: PoolRegion_delete_def Pool_delete_def sf_IsOpen_def)
  then have "region_size pid s = Some (Inr ((NO_ERROR, Some len), s1\<lparr>mm_os := w'\<rparr>))"
    using s1(1) r(1-3) by (simp add: region_size_def)
  then show ?thesis using R store_world [OF s1(2) r(6-8,5)] by auto
next
  case False
  from find_region_absent [OF assms False] obtain s' where
    "FindRegion pid s = Some (Inr (ID_NOT_FOUND, None, s'))" "store c n a R s'" by blast
  then show ?thesis using False by (auto simp: region_size_def split: option.split pool_object.split)
qed

lemma mm_call_spec:
  assumes "store c n a R s" "call_ok x"
  shows "\<exists>s'. mm_call x s = Some (Inr (fst (table_call x R), s')) \<and> store c n a (snd (table_call x R)) s'"
proof (cases x)
  case (Create_Region pid len)
  then have v: "valid_pid pid" "\<not> bit len 63" using assms(2) by simp_all
  consider "R pid \<noteq> None" | "R pid = None" "len = 0" | "R pid = None" "len \<noteq> 0" by blast
  then show ?thesis
  proof cases
    case 1
    with create_region_taken [OF assms(1) v(1) 1, of len] Create_Region show ?thesis by auto
  next
    case 2
    with create_region_empty [OF assms(1) v(1) 2(1)] Create_Region show ?thesis by auto
  next
    case 3
    with create_region_new [OF assms(1) v(1) 3 v(2)] Create_Region show ?thesis by auto
  qed
next
  case (Destroy_Region pid)
  then have v: "valid_pid pid" using assms(2) by simp
  show ?thesis
  proof (cases "\<exists>len. R pid = Some (A_Region len)")
    case True
    then obtain len where R: "R pid = Some (A_Region len)" by blast
    with destroy_region [OF assms(1) v R] Destroy_Region show ?thesis by auto
  next
    case False
    with destroy_region_absent [OF assms(1) v False] Destroy_Region show ?thesis
      by (auto split: option.split pool_object.split)
  qed
next
  case (Region_Size pid)
  then have "valid_pid pid" using assms(2) by simp
  from region_size_spec [OF assms(1) this] Region_Size show ?thesis by (auto split: option.split pool_object.split)
qed

section \<open>Regions\<close>

text \<open>C4: The memory manager implements a table of regions: whatever sequence of \<open>CreateRegion\<close>,
  \<open>DestroyRegion\<close> and \<open>FindRegion\<close> (with \<open>Open\<close> and \<open>Size\<close> of what it finds) a client calls, every call
  returns with the answer that a map from ids to sizes gives, and the files and the root shelf
  represent that map afterwards. No call fails for another reason, no file is left behind (an id that
  is not in the table has no file), and the objects of other ids keep their files.\<close>

theorem regions_refine_table:
  assumes "store c n a R s" "\<forall>x \<in> set xs. call_ok x"
  shows "\<exists>s'. mm_calls xs s = Some (Inr (fst (table_calls xs R), s')) \<and> store c n a (snd (table_calls xs R)) s'"
  using assms
proof (induction xs arbitrary: R s)
  case Nil
  then show ?case by auto
next
  case (Cons x xs)
  from mm_call_spec [OF Cons.prems(1), of x] Cons.prems(2) obtain s1 where
    s1: "mm_call x s = Some (Inr (fst (table_call x R), s1))" "store c n a (snd (table_call x R)) s1" by auto
  from Cons.IH [OF s1(2)] Cons.prems(2) obtain s2 where
    "mm_calls xs s1 = Some (Inr (fst (table_calls xs (snd (table_call x R))), s2))"
    "store c n a (snd (table_calls xs (snd (table_call x R)))) s2" by auto
  with s1(1) show ?case by (auto simp: split_beta Let_def)
qed

section \<open>Start and restart\<close>

definition example_config :: config where
  "example_config = \<lparr>ShelfBase = ''/dev/shm/nvmm'', ShelfUser = ''alice'',
     RootShelfPath = ''/dev/shm/nvmm'' @ ''/'' @ ''alice'' @ [underscore] @ ''NVMM'' @ [underscore] @ ''ROOT'',
     EpochShelfPath = ''/dev/shm/nvmm'' @ ''/'' @ ''alice'' @ [underscore] @ ''NVMM'' @ [underscore] @ ''EPOCH''\<rparr>"

text \<open>\<open>StartNVMM\<close> on a directory without files of the library, followed by the start of the memory
  manager, gives a memory manager with an empty table: both boot shelves exist, all locks are free and
  no id has a type.\<close>

theorem first_start_empty:
  assumes "new_directory c w" "mm_cfg s = c"
  shows "\<exists>ev' w' s' n a. StartNVMM base0 user0 x [] [] c sm ev w = Inr (c, sm, ev', w') \<and>
    mm_Start (s\<lparr>mm_os := w'\<rparr>) = Inr s' \<and> store c n a (\<lambda>_. None) s'"
  using first_start [OF assms] by blast

lemma example_directory: "new_directory example_config empty_world"
proof -
  have "place (env empty_world) k AND 0xFFF = 0 \<and> unat (place (env empty_world) k) + 0x8000000 < 2 ^ 64" for k
  proof -
    have p: "place (env empty_world) k = push_bit 28 (of_nat (k + 1))"
      by (simp add: empty_world_def quiet_env_def push_bit_eq_mult algebra_simps)
    have "push_bit 28 x AND 0xFFF = 0" for x :: u64
    proof (rule bit_word_eqI)
      fix i assume "i < LENGTH(64)"
      have "bit (0xFFF :: u64) i \<longrightarrow> i < 12" using bit_mask_iff [of 12 i, where 'a = u64] by (simp add: mask_eq_exp_minus_1)
      then show "bit (push_bit 28 x AND 0xFFF) i = bit (0 :: u64) i" by (auto simp: bit_simps)
    qed
    moreover have "unat (push_bit 28 x :: u64) + 0x8000000 < 2 ^ 64" for x :: u64
    proof -
      have "unat (push_bit 28 x) = (unat x * 2 ^ 28) mod 2 ^ 64"
        by (simp add: push_bit_eq_mult unat_word_ariths)
      also have "\<dots> = 2 ^ 28 * (unat x mod 2 ^ 36)" using mult_mod_right [of "2 ^ 28" "unat x" "2 ^ 36"] by (simp add: mult.commute)
      finally show ?thesis using mod_less_divisor [of "2 ^ 36" "unat x"] by simp
    qed
    ultimately show ?thesis by (simp only: p)
  qed
  then show ?thesis
    by (simp add: new_directory_def good_maps_def config_ok_def example_config_def quiet_def fs_ok_def lookup_def)
      (simp add: empty_world_def quiet_env_def)
qed

lemma example_store: "\<exists>n a s. store example_config n a (\<lambda>_. None) s \<and> good_maps (mm_os s) \<and>
    root_cells n s = store64 (\<lambda>_. 0) 0 root_kMagicNum"
  using first_start [OF example_directory, of "undefined\<lparr>mm_cfg := example_config\<rparr>"] by (simp, blast)

lemma first_start_empty_witness:
  "\<forall>x sm ev. \<exists>ev' w' s' n a. StartNVMM ''/dev/shm'' ''bob'' x [] [] example_config sm ev empty_world = Inr (example_config, sm, ev', w') \<and>
    mm_Start ((undefined\<lparr>mm_cfg := example_config\<rparr>)\<lparr>mm_os := w'\<rparr>) = Inr s' \<and> store example_config n a (\<lambda>_. None) s'"
  using first_start_empty [OF example_directory] by simp

text \<open>C33: Stopping the memory manager and starting it again, in the same process or another, keeps the table:
  it is in the files.\<close>

theorem restart_keeps_table:
  assumes "store c n a R s" "good_maps (mm_os s)"
  shows "\<exists>s1 s2 a'. mm_Stop s = Inr s1 \<and> mm_Start s1 = Inr s2 \<and> store c n a' R s2 \<and> lookup (mm_os s2) = lookup (mm_os s)"
proof -
  from stop_manager [OF assms(1)] obtain s1 where s1: "mm_Stop s = Inr s1" "mm_cfg s1 = c" "env (mm_os s1) = env (mm_os s)"
    "quiet (mm_os s1)" "inodes (mm_os s1) = inodes (mm_os s)" "next_ino (mm_os s1) = next_ino (mm_os s)"
    "lookup (mm_os s1) = lookup (mm_os s)" by blast
  from assms(1) have S: "config_ok c" "root_ok n a s" "types_in (\<lambda>pid. type_of (R pid)) (root_cells n s)"
    "fs_ok (mm_os s)" "lookup (mm_os s) (RootShelfPath c) = Some n" "lookup (mm_os s) (ShelfBase c) \<noteq> None"
    "\<forall>pid. valid_pid pid \<longrightarrow> holds c (mm_os s) pid (R pid)" unfolding store_def by blast+
  have "fs_ok (mm_os s1)" using S(4) unfolding fs_ok_def s1(6,7) .
  moreover have "good_maps (mm_os s1)" using assms(2) unfolding good_maps_def s1(3) .
  moreover have "holds c (mm_os s1) pid (R pid)" if "valid_pid pid" for pid
    by (rule holds_frame [of c pid "mm_os s"]) (use S(1,7) that s1(5-7) in \<open>simp_all add: valid_pid_def\<close>)
  moreover have "root_cells n s1 = root_cells n s" by (simp add: root_cells_def file_cells_def s1(5))
  moreover have "i_size (inodes (mm_os s1) n) = kBootShelfSize" using S(2) by (simp add: s1(5) root_ok_def)
  ultimately have "\<exists>a' s2. mm_Start s1 = Inr s2 \<and> store c n a' R s2 \<and> lookup (mm_os s2) = lookup (mm_os s)"
    using start_manager [OF s1(2) S(1) s1(4), of n R] S(3,5,6) s1(7) by auto
  with s1(1) show ?thesis by blast
qed

lemma restart_keeps_table_witness:
  "\<exists>n a a' s s1 s2. mm_Stop s = Inr s1 \<and> mm_Start s1 = Inr s2 \<and> store example_config n a (\<lambda>_. None) s \<and>
    store example_config n a' (\<lambda>_. None) s2"
  using example_store restart_keeps_table [of example_config _ _ "\<lambda>_. None"] by blast

lemma regions_refine_table_witness:
  "\<exists>s s'. mm_calls [Create_Region 5 4096, Create_Region 5 8192, Region_Size 5, Create_Region 6 1, Destroy_Region 5, Region_Size 5,
      Create_Region 5 8192, Region_Size 5] s =
    Some (Inr ([(NO_ERROR, None), (ID_FOUND, None), (NO_ERROR, Some 4096), (NO_ERROR, None), (NO_ERROR, None), (ID_NOT_FOUND, None),
      (NO_ERROR, None), (NO_ERROR, Some 8192)], s'))"
proof -
  obtain n a s where "store example_config n a (\<lambda>_. None) s" using example_store by blast
  from regions_refine_table [OF this, of "[Create_Region 5 4096, Create_Region 5 8192, Region_Size 5, Create_Region 6 1,
      Destroy_Region 5, Region_Size 5, Create_Region 5 8192, Region_Size 5]"]
  show ?thesis by (auto simp: valid_pid_def kMaxPoolCount_def)
qed

section \<open>Wrong types and wrong ids\<close>

text \<open>\<open>refused s s'\<close>: between the two states no file came or went, and no heap object was touched.\<close>

definition refused :: "mm_state \<Rightarrow> mm_state \<Rightarrow> bool" where
  "refused s s' \<longleftrightarrow> lookup (mm_os s') = lookup (mm_os s) \<and> heap_mem s' = heap_mem s \<and> mm_mgr s' = mm_mgr s"

text \<open>C34: An object of one type cannot be used as the other. A heap is only created for an id without
  object; finding or destroying a heap answers that the id was not found unless the id is a heap, finding or
  destroying a region unless it is a region. None of these answers changes a file or the table.\<close>

theorem types_are_kept_apart:
  assumes "store c n a R s" "valid_pid pid"
  shows "(R pid \<noteq> None \<longrightarrow>
      (\<exists>s'. CreateHeap page_size pid len min_alloc_size mode s = Some (Inr (ID_FOUND, s')) \<and> refused s s' \<and> store c n a R s') \<and>
      (\<exists>s'. CreateRegion pid len s = Some (Inr (ID_FOUND, s')) \<and> refused s s' \<and> store c n a R s')) \<and>
    (R pid \<noteq> Some A_Heap \<longrightarrow>
      (\<exists>s'. FindHeap pid s = Some (Inr (ID_NOT_FOUND, None, s')) \<and> refused s s' \<and> store c n a R s') \<and>
      (\<exists>s'. DestroyHeap pid s = Some (Inr (ID_NOT_FOUND, s')) \<and> refused s s' \<and> store c n a R s')) \<and>
    ((\<nexists>k. R pid = Some (A_Region k)) \<longrightarrow>
      (\<exists>s'. FindRegion pid s = Some (Inr (ID_NOT_FOUND, None, s')) \<and> refused s s' \<and> store c n a R s') \<and>
      (\<exists>s'. DestroyRegion pid s = Some (Inr (ID_NOT_FOUND, s')) \<and> refused s s' \<and> store c n a R s'))"
proof -
  from store_leave [OF assms] obtain s' where s': "mm_Unlock pid (on_root n (locked (root_cells n s) pid) s) = Inr s'"
    "store c n a R s'" "refused s s'" by (auto simp: refused_def)
  have t: "R pid \<noteq> None \<Longrightarrow> type_of (R pid) \<noteq> NONE" "R pid \<noteq> Some A_Heap \<Longrightarrow> type_of (R pid) \<noteq> HEAP"
    "\<nexists>k. R pid = Some (A_Region k) \<Longrightarrow> type_of (R pid) \<noteq> REGION"
    by (auto elim: type_of.elims)
  note E = store_enter [OF assms]
  have "CreateHeap page_size pid len min_alloc_size mode s = Some (Inr (ID_FOUND, s'))"
    "CreateRegion pid len s = Some (Inr (ID_FOUND, s'))" if "R pid \<noteq> None"
    using s'(1) E t(1) [OF that] by (simp_all add: CreateHeap_def CreateRegion_def)
  moreover have "FindHeap pid s = Some (Inr (ID_NOT_FOUND, None, s'))" "DestroyHeap pid s = Some (Inr (ID_NOT_FOUND, s'))"
    if "R pid \<noteq> Some A_Heap"
    using s'(1) E t(2) [OF that] by (simp_all add: FindHeap_def DestroyHeap_def)
  moreover have "FindRegion pid s = Some (Inr (ID_NOT_FOUND, None, s'))" "DestroyRegion pid s = Some (Inr (ID_NOT_FOUND, s'))"
    if "\<nexists>k. R pid = Some (A_Region k)"
    using s'(1) E t(3) [OF that] by (simp_all add: FindRegion_def DestroyRegion_def)
  ultimately show ?thesis using s'(2,3) by blast
qed

lemma types_are_kept_apart_witness:
  "\<exists>n a s s'. FindHeap 7 s = Some (Inr (ID_NOT_FOUND, None, s')) \<and> store example_config n a (\<lambda>_. None) s'"
proof -
  obtain n a s where "store example_config n a (\<lambda>_. None) s" using example_store by blast
  from types_are_kept_apart [OF this, of 7] show ?thesis by (auto simp: valid_pid_def kMaxPoolCount_def)
qed

text \<open>C39: Ids are not compared with \<open>kMaxPoolCount\<close> before the lock of the id is used, and the lock of an
  id from the limit on is the type word of the id below the limit. \<open>FindRegion\<close> of such an id answers
  that there is none, and turns the lower id, if it had no object, into a region that exists for
  \<open>CreateRegion\<close> and does not for \<open>FindRegion\<close>.\<close>

theorem id_beyond_limit:
  assumes "store c n a R s" "kMaxPoolCount < pid" "pid < 2 * kMaxPoolCount" "R (pid - kMaxPoolCount) = None"
    "load64 (root_cells n s) (type_cell pid) = 0"
  shows "\<exists>s'. FindRegion pid s = Some (Inr (ID_NOT_FOUND, None, s')) \<and>
    (\<exists>s''. CreateRegion (pid - kMaxPoolCount) len s' = Some (Inr (ID_FOUND, s''))) \<and>
    (\<exists>s''. FindRegion (pid - kMaxPoolCount) s' = Some (Inr (ID_NOT_FOUND, None, s'')))"
proof -
  let ?q = "pid - kMaxPoolCount" and ?c = "root_cells n s"
  have u: "unat ?q = unat pid - 16384" "16384 < unat pid" "unat pid < 32768"
    using assms(2,3) by (simp_all add: kMaxPoolCount_def word_less_nat_alt unat_sub_if')
  have v: "valid_pid ?q" using u by (simp add: valid_pid_def word_less_nat_alt kMaxPoolCount_def)
  note F = store_facts [OF assms(1) v]
  have lc: "lock_cell pid = type_cell ?q" using u by (simp add: lock_cell_def type_cell_def)
  have ok: "root_ok n a s" "types_in (\<lambda>pid. type_of (R pid)) ?c" using assms(1) by (simp_all add: store_def)
  have z: "load64 ?c (type_cell ?q) = 0" "lock_free ?c ?q" using ok(2) F(7) assms(4) by (simp_all add: types_in_def)
  have z2: "?c (type_cell ?q) = 0" "?c (Suc (type_cell ?q)) = 0"
    using z(1) load64_cells [of ?c "type_cell ?q"] by simp_all
  let ?c' = "unlocked (locked ?c pid) pid"
  let ?s = "on_root n (locked ?c pid) s" and ?s' = "on_root n ?c' s"
  have ready: "mm_ready pid s = Inr ()" "mm_ready ?q ?s' = Inr ()"
    using ok(1) F(8) u by (auto simp: mm_ready_def root_ok_def word_less_nat_alt)
  have lock: "mm_Lock pid s = Some (Inr ?s)" using mm_Lock_free [OF ok(1)] z2 by (simp add: lock_free_def lc)
  have r1: "root_ok n a ?s" "root_ok n a ?s'" using ok(1) by simp_all
  have "load64 (locked ?c pid) (type_cell pid) = load64 ?c (type_cell pid)"
    using u by (simp add: load64_def locked_def lc type_cell_def)
  then have ty: "GetType pid ?s = Inr (0, ?s)" using GetType_at [OF r1(1)] assms(5) by simp
  have un: "mm_Unlock pid ?s = Inr ?s'" using mm_Unlock_at [OF r1(1)] by simp
  have find: "FindRegion pid s = Some (Inr (ID_NOT_FOUND, None, ?s'))"
    by (simp add: FindRegion_def ready lock ty un type_num_def)
  have "load64 ?c' (type_cell ?q) = head_tail 1 1" using z2 by (simp add: load64_head_tail unlocked_def locked_def lc)
  moreover have "(ucast (head_tail 1 1) :: u32) = 1" using tickets_fields(1) [of 1 1] by (simp add: tickets_head_def)
  moreover have free: "lock_free ?c' ?q"
    using z(2) lock_type_apart [OF F(7), of ?q] by (simp add: lock_free_def unlocked_def locked_def lc)
  let ?t = "on_root n (locked ?c' ?q) s" and ?t' = "on_root n (unlocked (locked ?c' ?q) ?q) s"
  have lock': "mm_Lock ?q ?s' = Some (Inr ?t)" using mm_Lock_free [OF r1(2)] free by simp
  have r2: "root_ok n a ?t" using ok(1) by simp
  ultimately have ty': "GetType ?q ?t = Inr (1, ?t)"
    using GetType_at [OF r2, of ?q] locked_types(1) [OF F(7,7), of ?c'] by simp
  have un': "mm_Unlock ?q ?t = Inr ?t'" using mm_Unlock_at [OF r2] by simp
  have "CreateRegion ?q len ?s' = Some (Inr (ID_FOUND, ?t'))"
    by (simp add: CreateRegion_def ready lock' ty' un' type_num_def)
  moreover have "new_region ?q ?t = Inr (region_at c ?q)" using F(1) region_at_new [OF F(7)] by (simp add: new_region_def)
  moreover have "\<not> pr_Exist (region_at c ?q) (mm_os ?t')"
    using F(6) assms(4) by (simp add: pr_Exist_def pool_Exist_def sf_Exist_def flip: meta_path_def)
  moreover have "delete_pool_region (region_at c ?q) ?t' = Inr ?t'"
    using delete_closed closed_region_meta [OF new_region_fields(3) [OF region_at_new [OF F(7)]]] by blast
  ultimately have "FindRegion ?q ?s' = Some (Inr (ID_NOT_FOUND, None, ?t'))"
    by (simp add: FindRegion_def ready lock' ty' un' type_num_def del: on_root_simps)
  with \<open>CreateRegion ?q len ?s' = _\<close> find show ?thesis by blast
qed

lemma id_beyond_limit_witness:
  "\<exists>s s'. FindRegion 20000 s = Some (Inr (ID_NOT_FOUND, None, s')) \<and>
    (\<exists>s''. CreateRegion 3616 4096 s' = Some (Inr (ID_FOUND, s''))) \<and> (\<exists>s''. FindRegion 3616 s' = Some (Inr (ID_NOT_FOUND, None, s'')))"
proof -
  obtain n a s where s: "store example_config n a (\<lambda>_. None) s" "root_cells n s = store64 (\<lambda>_. 0) 0 root_kMagicNum"
    using example_store by blast
  have "load64 (root_cells n s) (type_cell 20000) = 0" by (simp add: s(2) load64_def store64_def type_cell_def)
  from id_beyond_limit [OF s(1) _ _ _ this, of 4096] show ?thesis by (auto simp: kMaxPoolCount_def)
qed

section \<open>Root pointers\<close>

lemma root_pointer_at:
  assumes "root_ok n a s"
  shows "root_byte (metadata_regionid_root (mm s)) s = Inr (n, 4 * 0x1040212)"
    "root_byte (metadata_regionname_root (mm s)) s = Inr (n, 4 * 0x1040214)"
    "root_byte (atl_regiondata_root (mm s)) s = Inr (n, 4 * 0x1040216)"
proof -
  have and_mask2: "x AND 7 = x mod 8" for x :: nat using take_bit_eq_mask [of 3 x] by (simp add: take_bit_eq_mod mask_eq_exp_minus_1)
  have al: "(a + 0x4100847) AND NOT 7 = a + 0x4100840" if "a AND 0xFFF = 0"
  proof -
    have m: "unat (x AND 7) = unat x mod 8" for x :: u64
      using unsigned_take_bit_eq [of 3 x, where ?'a = nat] and_mask2 by (simp add: take_bit_eq_mask mask_eq_exp_minus_1)
    have "a AND 7 = (a AND 0xFFF) AND 7" by (simp add: and.assoc)
    then have t: "unat a mod 8 = 0" using that m [of a] by simp
    have n: "(x AND NOT 7) + (x AND 7) = x" for x :: u64
    proof -
      have "(x AND NOT 7) + (x AND 7) = (x AND NOT 7) OR (x AND 7)"
        by (rule disjunctive_add) (auto simp: bit_simps)
      also have "\<dots> = x" by (rule bit_word_eqI) (auto simp: bit_simps)
      finally show ?thesis .
    qed
    have "(unat a + 0x4100847) mod 2 ^ 64 mod 8 = (unat a mod 8 + 7) mod 8" by (simp add: mod_mod_cancel) presburger
    then have "unat ((a + 0x4100847) AND 7) = unat (7 :: u64)" unfolding m using t by (simp add: unat_word_ariths)
    then have "(a + 0x4100847) AND 7 = 7" by (simp add: word_unat_eq_iff)
    with n [of "a + 0x4100847"] have "((a + 0x4100847) AND NOT 7) + 7 = (a + 0x4100840) + 7" by simp
    then show ?thesis by (simp only: add_right_cancel)
  qed
  have "root_byte (a + of_nat (4 * 0x1040212)) s = Inr (n, 4 * 0x1040212)" "root_byte (a + of_nat (4 * 0x1040214)) s = Inr (n, 4 * 0x1040214)"
    "root_byte (a + of_nat (4 * 0x1040216)) s = Inr (n, 4 * 0x1040216)" by (rule root_byte_at [OF assms]; simp)+
  then show "root_byte (metadata_regionid_root (mm s)) s = Inr (n, 4 * 0x1040212)"
    "root_byte (metadata_regionname_root (mm s)) s = Inr (n, 4 * 0x1040214)"
    "root_byte (atl_regiondata_root (mm s)) s = Inr (n, 4 * 0x1040216)"
    using assms al by (simp_all add: root_ok_def add.commute)
qed

lemma root_pointer_ops:
  assumes "store c n a R s" "root_byte ptr s = Inr (n, 4 * k)" "0x200000 < k"
  shows "get_root ptr s = Inr (load64 (root_cells n s) k, s)"
    "\<exists>s'. set_root ptr p s = Inr (if load64 (root_cells n s) k = 0 then p else load64 (root_cells n s) k, s') \<and> store c n a R s' \<and>
      mm s' = mm s \<and> root_cells n s' = (if load64 (root_cells n s) k = 0 then store64 (root_cells n s) k p else root_cells n s)"
proof -
  let ?c = "root_cells n s"
  show "get_root ptr s = Inr (load64 ?c k, s)"
    using root_run_at [where f = fam_atomic_64_read, OF assms(2)] by (simp add: get_root_def)
  let ?c' = "if load64 ?c k = 0 then store64 ?c k p else ?c"
  have "fam_atomic_64_compare_store k 0 p ?c = Some (load64 ?c k, ?c')" by simp
  from root_run_at [where f = "\<lambda>l. fam_atomic_64_compare_store l 0 p", OF assms(2) this]
  have set: "set_root ptr p s = Inr (if load64 ?c k = 0 then p else load64 ?c k, on_root n ?c' s)"
    by (simp add: set_root_def)
  have S: "config_ok c" "root_ok n a s" "types_in (\<lambda>pid. type_of (R pid)) ?c" "fs_ok (mm_os s)" "lookup (mm_os s) (RootShelfPath c) = Some n"
    "\<forall>pid. valid_pid pid \<longrightarrow> holds c (mm_os s) pid (R pid)" "quiet (mm_os s)" "mm_cfg s = c" "lookup (mm_os s) (ShelfBase c) \<noteq> None"
    using assms(1) unfolding store_def by blast+
  have lt: "type_cell pid + 1 < k" "lock_cell pid + 1 < k" "0 < lock_cell pid" for pid
    using assms(3) unsigned_less [of pid, where ?'a = nat] by (simp_all add: lock_cell_def type_cell_def)
  have low: "?c' i = ?c i" "load64 ?c' i = load64 ?c i" if "i + 1 < k" for i
    using that by (simp_all add: load64_def store64_def)
  have "?c' (lock_cell pid) = ?c (lock_cell pid)" "?c' (lock_cell pid + 1) = ?c (lock_cell pid + 1)"
    "load64 ?c' (type_cell pid) = load64 ?c (type_cell pid)" "load64 ?c' 0 = load64 ?c 0" for pid
    using lt [of pid] low assms(3) by (simp_all add: store64_def)
  then have "types_in (\<lambda>pid. type_of (R pid)) ?c'" using S(3) unfolding types_in_def lock_free_def by simp
  moreover have "holds c (mm_os (on_root n ?c' s)) pid (R pid)" if "valid_pid pid" for pid
  proof (rule holds_frame [OF S(1)])
    show q: "pid < kMaxPoolCount" using that by (simp add: valid_pid_def)
    show "holds c (mm_os s) pid (R pid)" using S(6) that by simp
    show "inodes (mm_os (on_root n ?c' s)) i = inodes (mm_os s) i" if "files_of c pid r" "lookup (mm_os s) r = Some i" for r i
      using fs_okD(2) [OF S(4) that(2)] S(5) that(1) root_not_of_pool(1) [OF S(1) q] by (cases "i = n") auto
  qed simp_all
  ultimately have "store c n a R (on_root n ?c' s)" unfolding store_def using S by (simp add: fs_ok_def)
  with set show "\<exists>s'. set_root ptr p s = Inr (if load64 ?c k = 0 then p else load64 ?c k, s') \<and> store c n a R s' \<and>
      mm s' = mm s \<and> root_cells n s' = ?c'"
    by (intro exI [of _ "on_root n ?c' s"]) simp
qed

text \<open>The root pointers are set once: the first value other than 0 stays, every later \<open>Set\<close> returns
  it, and \<open>Get\<close> returns what the last \<open>Set\<close> returned. Setting one pointer leaves the other two, the
  types and the locks alone.\<close>

theorem root_pointers_set_once:
  assumes "store c n a R s" "GetMetadataRegionRootPtr METADATA_REGION_ID s = Inr (x, s)"
    "GetMetadataRegionRootPtr METADATA_REGION_NAME s = Inr (y, s)" "GetATLRegionRootPtr ATL_REGION_DATA s = Inr (z, s)" "p \<noteq> 0"
  shows "\<exists>s1. SetMetadataRegionRootPtr METADATA_REGION_ID p s = Inr (if x = 0 then p else x, s1) \<and> store c n a R s1 \<and>
    GetMetadataRegionRootPtr METADATA_REGION_ID s1 = Inr (if x = 0 then p else x, s1) \<and>
    (\<forall>q. \<exists>s2. SetMetadataRegionRootPtr METADATA_REGION_ID q s1 = Inr (if x = 0 then p else x, s2)) \<and>
    GetMetadataRegionRootPtr METADATA_REGION_NAME s1 = Inr (y, s1) \<and> GetATLRegionRootPtr ATL_REGION_DATA s1 = Inr (z, s1)"
proof -
  have r: "root_ok n a s" using assms(1) by (simp add: store_def)
  note P = root_pointer_at [OF r]
  have big: "0x200000 < (0x1040212 :: nat)" "0x200000 < (0x1040214 :: nat)" "0x200000 < (0x1040216 :: nat)"
    by simp_all
  let ?c = "root_cells n s"
  have v: "x = load64 ?c 0x1040212" "y = load64 ?c 0x1040214" "z = load64 ?c 0x1040216"
    using assms(2-4) root_pointer_ops(1) [OF assms(1) P(1) big(1)] root_pointer_ops(1) [OF assms(1) P(2) big(2)]
      root_pointer_ops(1) [OF assms(1) P(3) big(3)]
    by (simp_all add: GetMetadataRegionRootPtr_def GetATLRegionRootPtr_def METADATA_REGION_ID_def METADATA_REGION_NAME_def ATL_REGION_DATA_def)
  from root_pointer_ops(2) [OF assms(1) P(1) big(1), of p] obtain s1 where s1:
    "set_root (metadata_regionid_root (mm s)) p s = Inr (if x = 0 then p else x, s1)" "store c n a R s1" "mm s1 = mm s"
    "root_cells n s1 = (if x = 0 then store64 ?c 0x1040212 p else ?c)" unfolding v by blast
  have r1: "root_ok n a s1" using s1(2) by (simp add: store_def)
  note P1 = root_pointer_at [OF r1]
  have l: "load64 (root_cells n s1) 0x1040212 = (if x = 0 then p else x)" "load64 (root_cells n s1) 0x1040214 = y"
    "load64 (root_cells n s1) 0x1040216 = z" by (simp_all add: s1(4) v)
  have "GetMetadataRegionRootPtr METADATA_REGION_ID s1 = Inr (if x = 0 then p else x, s1)"
    "GetMetadataRegionRootPtr METADATA_REGION_NAME s1 = Inr (y, s1)" "GetATLRegionRootPtr ATL_REGION_DATA s1 = Inr (z, s1)"
    using root_pointer_ops(1) [OF s1(2) P1(1) big(1)] root_pointer_ops(1) [OF s1(2) P1(2) big(2)] root_pointer_ops(1) [OF s1(2) P1(3) big(3)] l
    by (simp_all add: GetMetadataRegionRootPtr_def GetATLRegionRootPtr_def METADATA_REGION_ID_def METADATA_REGION_NAME_def ATL_REGION_DATA_def)
  moreover have "\<exists>s2. SetMetadataRegionRootPtr METADATA_REGION_ID q s1 = Inr (if x = 0 then p else x, s2)" for q
    using root_pointer_ops(2) [OF s1(2) P1(1) big(1), of q] assms(5) l(1)
    by (auto simp: SetMetadataRegionRootPtr_def METADATA_REGION_ID_def split: if_splits)
  ultimately show ?thesis using s1(1,2) by (intro exI [of _ s1]) (simp add: SetMetadataRegionRootPtr_def METADATA_REGION_ID_def)
qed

lemma root_pointers_set_once_witness:
  "\<exists>s s1. SetMetadataRegionRootPtr METADATA_REGION_ID 4096 s = Inr (4096, s1) \<and>
    GetMetadataRegionRootPtr METADATA_REGION_ID s1 = Inr (4096, s1) \<and> GetMetadataRegionRootPtr METADATA_REGION_NAME s1 = Inr (0, s1)"
proof -
  obtain n a s where s: "store example_config n a (\<lambda>_. None) s" "root_cells n s = store64 (\<lambda>_. 0) 0 root_kMagicNum"
    using example_store by blast
  have r: "root_ok n a s" using s(1) by (simp add: store_def)
  have z: "load64 (root_cells n s) k = 0" if "2 \<le> k" for k using that by (simp add: s(2) load64_def store64_def)
  have "GetMetadataRegionRootPtr METADATA_REGION_ID s = Inr (0, s)" "GetMetadataRegionRootPtr METADATA_REGION_NAME s = Inr (0, s)"
    "GetATLRegionRootPtr ATL_REGION_DATA s = Inr (0, s)"
    using root_pointer_ops(1) [OF s(1) root_pointer_at(1) [OF r]] root_pointer_ops(1) [OF s(1) root_pointer_at(2) [OF r]]
      root_pointer_ops(1) [OF s(1) root_pointer_at(3) [OF r]]
    by (simp_all add: GetMetadataRegionRootPtr_def GetATLRegionRootPtr_def METADATA_REGION_ID_def METADATA_REGION_NAME_def
        ATL_REGION_DATA_def z)
  from root_pointers_set_once [OF s(1) this, of 4096] show ?thesis by auto
qed

section \<open>Mapping\<close>

text \<open>The range that \<open>MapPointer\<close> maps for \<open>len\<close> bytes at \<open>offset\<close> consists of whole pages, contains
  the bytes, and is less than two pages longer; an end on a page boundary gets one page more than is
  needed. \<open>UnmapPointer\<close> computes the same range.\<close>

theorem aligned_range_covers:
  assumes "0 < page" "unat offset + unat len + unat page < 2 ^ 63"
  shows "\<exists>start size. aligned_range page offset len = Inr (start, size) \<and> unat start mod unat page = 0 \<and>
    unat size mod unat page = 0 \<and> unat start \<le> unat offset \<and> unat offset + unat len < unat start + unat size \<and>
    unat size \<le> unat len + 2 * unat page \<and>
    ((unat offset + unat len) mod unat page = 0 \<longrightarrow> unat start + unat size = unat offset + unat len + unat page)"
proof -
  let ?o = "unat offset" and ?l = "unat len" and ?p = "unat page"
  have p: "0 < ?p" using assms(1) by (simp add: word_less_nat_alt)
  define s where "s = offset - offset mod page"
  define e where "e = (offset + len) + (page - (offset + len) mod page)"
  have sub: "unat (x - y) = unat x - unat y" if "unat y \<le> unat x" for x y :: u64 using that by (simp add: unat_sub word_le_nat_alt)
  have ol: "unat (offset + len) = ?o + ?l" using assms(2) by (simp add: unat_word_ariths)
  have m: "(?o + ?l) mod ?p < ?p" "?o mod ?p \<le> ?o" "?o mod ?p < ?p" "(?o + ?l) mod ?p \<le> ?o + ?l" using p by simp_all
  have us: "unat s = ?o - ?o mod ?p" unfolding s_def using m by (subst sub) (simp_all add: unat_mod)
  have "unat (page - (offset + len) mod page) = ?p - (?o + ?l) mod ?p" using m ol by (subst sub) (simp_all add: unat_mod)
  then have ue: "unat e = ?o + ?l + (?p - (?o + ?l) mod ?p)" unfolding e_def using ol assms(2) by (simp add: unat_word_ariths)
  have b: "unat s \<le> unat e" "unat s < 2 ^ 63" "unat e < 2 ^ 63" using us ue m assms(2) by linarith+
  have d: "?p dvd unat s" "?p dvd unat e"
  proof -
    show "?p dvd unat s" unfolding us by (simp add: dvd_minus_mod)
    have "unat e = (?o + ?l - (?o + ?l) mod ?p) + ?p" using ue m by linarith
    then show "?p dvd unat e" by (simp only:) (intro dvd_add dvd_minus_mod dvd_refl)
  qed
  have sz: "unat (e - s) = unat e - unat s" by (rule sub [OF b(1)])
  then have ds: "?p dvd unat (e - s)" using d by (simp add: dvd_diff_nat)
  have sint: "sint x = int (unat x)" if "unat x < 2 ^ 63" for x :: u64
  proof -
    have u: "uint x = int (unat x)" by (rule uint_nat)
    moreover have "int (unat x) < int (2 ^ 63)" using that by (simp only: of_nat_less_iff)
    ultimately have "uint x < 2 ^ 63" by (simp only: of_nat_power of_nat_numeral)
    moreover have "- (2 ^ 63) \<le> uint x" by (rule order.trans [of _ 0]) simp_all
    ultimately have "sint x = uint x" unfolding sint_uint by (simp add: signed_take_bit_int_eq_self_iff)
    with u show ?thesis by simp
  qed
  have "uint page = int ?p" by simp
  then have "uint page dvd sint s" "uint page dvd sint e"
    unfolding sint [OF b(2)] sint [OF b(3)] using d by (simp_all only: int_dvd_int_iff)
  moreover have "(e - s) mod page = 0" using ds by (simp only: word_unat_eq_iff unat_mod mod_eq_0_iff_dvd unsigned_0)
  ultimately have "aligned_range page offset len = Inr (s, e - s)"
    unfolding aligned_range_def Let_def s_def [symmetric] e_def [symmetric] by (simp only: simp_thms if_True)
  moreover have "unat s mod ?p = 0" "unat (e - s) mod ?p = 0" using d(1) ds by simp_all
  moreover have "unat s \<le> ?o" "?o + ?l < unat s + unat (e - s)" "unat (e - s) \<le> ?l + 2 * ?p"
    "(?o + ?l) mod ?p = 0 \<longrightarrow> unat s + unat (e - s) = ?o + ?l + ?p"
    using us ue sz b(1) m by linarith+
  ultimately show ?thesis by (intro exI conjI)
qed

lemma aligned_range_covers_witness:
  "\<exists>start size. aligned_range 4096 5000 3192 = Inr (start, size) \<and> unat start mod 4096 = 0 \<and> unat start + unat size = 12288"
proof -
  have "(0 :: u64) < 4096" "unat (5000 :: u64) + unat (3192 :: u64) + unat (4096 :: u64) < 2 ^ 63" by simp_all
  from aligned_range_covers [OF this] show ?thesis by auto
qed

text \<open>C40: Global and local pointers into a mapped shelf translate into each other: \<open>GlobalToLocal\<close> of a
  pointer into the mapping is its byte, without a file operation, and \<open>LocalToGlobal\<close> of that address is
  the pointer again.\<close>

theorem pointers_roundtrip:
  assumes "is_ready (mm s)" "mgr_inv (mm_mgr s)" "map_of (map_ids (mm_mgr s)) sid = Some (b, len, True)"
    "shelf_id_IsValid sid" "sid < 2 ^ 24" "offset < len" "offset \<le> kMaxOffset" "EncodeGlobalPtr sid offset \<noteq> 0"
  shows "mm_GlobalToLocal (EncodeGlobalPtr sid offset) s = Inr (b + offset, s) \<and>
    LocalToGlobal (b + offset) s = EncodeGlobalPtr sid offset"
proof -
  note G = global_ptr_fields [OF assms(5,7)] and M = mapped_region [OF assms(2,3)]
  have base: "FindBase sid (mm_mgr s) = b" using assms(3) by (simp add: FindBase_def LookupShelf_def)
  have "mm_GlobalToLocal (EncodeGlobalPtr sid offset) s = Inr (b + offset, s)"
    using assms(1,8) M(1) by (simp add: mm_GlobalToLocal_def global_ptr_IsValid_def G base Let_def NULL_def)
  moreover have "b \<le> b + offset" "b + offset < b + len"
    using M(2) assms(6) by (simp_all add: word_le_nat_alt word_less_nat_alt unat_word_ariths)
  then have "FindShelf (b + offset) NULL (mm_mgr s) = (sid, b)"
    using find_loop_hit [OF mgr_invD(2) [OF assms(2)] M(3)] by (simp add: FindShelf_def)
  then have "LocalToGlobal (b + offset) s = EncodeGlobalPtr sid offset"
    using assms(4) by (simp add: LocalToGlobal_def)
  ultimately show ?thesis by blast
qed

lemma pointers_roundtrip_witness:
  "\<exists>s. mm_mgr s = one_shelf \<and> mm_GlobalToLocal (EncodeGlobalPtr 769 904) s = Inr (5000, s) \<and>
    LocalToGlobal 5000 s = EncodeGlobalPtr 769 904"
proof -
  define s where "s = (undefined :: mm_state)\<lparr>mm := (mm undefined)\<lparr>is_ready := True\<rparr>, mm_mgr := one_shelf\<rparr>"
  have "shelf_id_IsValid 769" "(904 :: u64) \<le> kMaxOffset" "EncodeGlobalPtr 769 904 \<noteq> 0" by code_simp+
  with pointers_roundtrip [of s 769 4096 8192 904] one_shelf_inv show ?thesis
    by (intro exI [of _ s]) (simp add: one_shelf_def s_def)
qed

end
