(* ===== verification/Fixed_Blocks.thy ===== *)
theory Fixed_Blocks
  imports Zone_Stack Fam_Atomic
begin

text \<open>
  The fixed block allocator (\<open>src/shelf_usage/fixed_block_allocator.cc\<close>) on a \<open>SmartShelf\<close>
  (\<open>src/shelf_usage/smart_shelf.{h,cc}\<close>) and the lock-free \<open>Stack\<close> of its free blocks
  (\<open>src/shelf_usage/stack.{h,cc}\<close>). Memory is what the code accesses of the shelf: the two metadata
  words of the shelf, the metadata of the allocator and the first word of every block, by its offset.

  The loops of the stack and of \<open>alloc\<close> are translated as program counters with one atomic access per
  step, as any number of processes runs them at once; the compare-and-store and the read of two
  words are those of theory \<open>Fam_Atomic\<close>: the read loads one word after the other, and a failed
  compare-and-store samples both.
\<close>

section \<open>The shelf\<close>

record fba_mem =
  fixed_section_size :: u64
  max_shelf_size :: u64
  fba_block_size :: u64
  fba_first_block :: u64
  never_allocated :: u64
  free_head :: u64
  free_aba :: u64
  word_at :: "u64 \<Rightarrow> u64"

text \<open>\<open>sizeof (_FBA_metadata)\<close>: three words, padding to 16 bytes, and the stack.\<close>

definition FBA_METADATA_SIZE :: u64 where "FBA_METADATA_SIZE = 48"

definition kVirtualPageSize :: u64 where "kVirtualPageSize = 65536"

record smart_shelf =
  ss_start :: u64
  mapped_size :: u64

definition cas_word :: "u64 \<Rightarrow> u64 \<Rightarrow> u64 \<Rightarrow> u64 \<times> u64" where
  "cas_word w old new = (w, if w = old then new else w)"

text \<open>The constructor. Exceptions of both kinds are \<open>Runtime_Error\<close>.\<close>

definition SmartShelf_new :: "u64 \<Rightarrow> u64 \<Rightarrow> fba_mem \<Rightarrow> (smart_shelf \<times> fba_mem) result" where
  "SmartShelf_new fixed maxsz m =
     (let maxsz = round_up maxsz kVirtualPageSize;
          start = round_up (kCacheLineSize + fixed) kCacheLineSize
      in if start > maxsz then Inl Runtime_Error
         else let (old, v) = cas_word (fixed_section_size m) 0 fixed; m = m\<lparr>fixed_section_size := v\<rparr>
              in if old \<noteq> 0 \<and> old \<noteq> fixed then Inl Runtime_Error
                 else let (old, v) = cas_word (max_shelf_size m) 0 maxsz; m = m\<lparr>max_shelf_size := v\<rparr>
                      in if old \<noteq> 0 \<and> old \<noteq> maxsz then Inl Runtime_Error
                         else Inr (\<lparr>ss_start = start, mapped_size = maxsz\<rparr>, m))"

definition ss_from_Offset :: "u64 \<Rightarrow> u64 \<Rightarrow> u64" where
  "ss_from_Offset shelf_location p = (if p = 0 then 0 else shelf_location + p)"

definition ss_to_Offset :: "u64 \<Rightarrow> u64 \<Rightarrow> u64" where
  "ss_to_Offset shelf_location p = (if p = 0 then 0 else p - shelf_location)"

definition FixedBlockAllocator_new :: "u64 \<Rightarrow> u64 \<Rightarrow> u64 \<Rightarrow> fba_mem \<Rightarrow> (smart_shelf \<times> fba_mem) result" where
  "FixedBlockAllocator_new block_size user_metadata_size max_pool_size m =
     rbind (SmartShelf_new FBA_METADATA_SIZE max_pool_size m) (\<lambda>(sh, m).
       let block_size = round_up (if block_size = 0 then 1 else block_size) kCacheLineSize;
           user_metadata_size = round_up user_metadata_size kCacheLineSize;
           first_block = round_up (ss_start sh + user_metadata_size) block_size
       in if first_block > max_pool_size then Inl Runtime_Error
          else let (old, v) = cas_word (fba_block_size m) 0 block_size; m = m\<lparr>fba_block_size := v\<rparr>
               in if old \<noteq> 0 \<and> old \<noteq> block_size then Inl Runtime_Error
                  else let (old, v) = cas_word (fba_first_block m) 0 first_block; m = m\<lparr>fba_first_block := v\<rparr>
                       in if old \<noteq> 0 \<and> old \<noteq> first_block then Inl Runtime_Error else Inr (sh, m))"

definition fba_size :: "smart_shelf \<Rightarrow> u64" where
  "fba_size sh = mapped_size sh"

definition fba_max_blocks :: "smart_shelf \<Rightarrow> fba_mem \<Rightarrow> u64" where
  "fba_max_blocks sh m = (mapped_size sh - fba_first_block m) div fba_block_size m"

definition fba_user_metadata_size :: "smart_shelf \<Rightarrow> fba_mem \<Rightarrow> u64" where
  "fba_user_metadata_size sh m = fba_first_block m - ss_start sh"

section \<open>The steps of the operations\<close>

text \<open>
  The local variables of a process are in its program counter: \<open>Push_\<close>\<open>\<dots>\<close> has the block, then \<open>old[0]\<close>
  and \<open>old[1]\<close>; \<open>Pop_\<close>\<open>\<dots>\<close> has \<open>old[0]\<close>, \<open>old[1]\<close> and \<open>next\<close>. \<open>Got\<close> is the return of \<open>alloc\<close>, \<open>Rest\<close>
  that of \<open>push\<close> and the process outside.
\<close>

datatype fpc =
    Rest
  | Push_Read u64
  | Push_Read2 u64 u64
  | Push_Write u64 u64 u64
  | Push_Cas u64 u64 u64
  | Push_Fail u64 u64 u64
  | Push_Fail2 u64 u64 u64 u64
  | Pop_Read
  | Pop_Read2 u64
  | Pop_Next u64 u64
  | Pop_Cas u64 u64 u64
  | Pop_Fail u64 u64 u64
  | Pop_Fail2 u64 u64 u64 u64
  | New_Read
  | New_Cas u64
  | Got u64

text \<open>The head of the loop of \<open>pop\<close>; \<open>alloc\<close> goes on when it returns 0.\<close>

definition pop_loop :: "u64 \<Rightarrow> u64 \<Rightarrow> fpc" where
  "pop_loop x y = (if x = 0 then New_Read else Pop_Next x y)"

fun push_step :: "fpc \<Rightarrow> fba_mem \<Rightarrow> fpc \<times> fba_mem" where
  "push_step (Push_Read b) m = (Push_Read2 b (free_head m), m)"
| "push_step (Push_Read2 b x) m = (Push_Write b x (free_aba m), m)"
| "push_step (Push_Write b x y) m = (Push_Cas b x y, m\<lparr>word_at := (word_at m)(b := x)\<rparr>)"
| "push_step (Push_Cas b x y) m =
     (if free_head m = x \<and> free_aba m = y then (Rest, m\<lparr>free_head := b, free_aba := y + 1\<rparr>) else (Push_Fail b x y, m))"
| "push_step (Push_Fail b x y) m = (Push_Fail2 b x y (free_head m), m)"
| "push_step (Push_Fail2 b x y x') m =
     (if x' = x \<and> free_aba m = y then Push_Cas b x y else Push_Write b x' (free_aba m), m)"
| "push_step pc m = (pc, m)"

fun pop_step :: "fpc \<Rightarrow> fba_mem \<Rightarrow> fpc \<times> fba_mem" where
  "pop_step Pop_Read m = (Pop_Read2 (free_head m), m)"
| "pop_step (Pop_Read2 x) m = (pop_loop x (free_aba m), m)"
| "pop_step (Pop_Next x y) m = (Pop_Cas x y (word_at m x), m)"
| "pop_step (Pop_Cas x y n) m =
     (if free_head m = x \<and> free_aba m = y then (Got x, m\<lparr>free_head := n, free_aba := y + 1\<rparr>) else (Pop_Fail x y n, m))"
| "pop_step (Pop_Fail x y n) m = (Pop_Fail2 x y n (free_head m), m)"
| "pop_step (Pop_Fail2 x y n x') m = (if x' = x \<and> free_aba m = y then Pop_Cas x y n else pop_loop x' (free_aba m), m)"
| "pop_step pc m = (pc, m)"

text \<open>The second part of \<open>alloc\<close>: a block that was never allocated.\<close>

fun never_step :: "smart_shelf \<Rightarrow> fpc \<Rightarrow> fba_mem \<Rightarrow> fpc \<times> fba_mem" where
  "never_step sh New_Read m = (New_Cas (never_allocated m), m)"
| "never_step sh (New_Cas old) m =
     (let block = (if old = 0 then fba_first_block m else old);
          new = block + fba_block_size m
      in if new > fba_size sh then (Got 0, m)
         else if never_allocated m = old then (Got block, m\<lparr>never_allocated := new\<rparr>)
         else (New_Cas (never_allocated m), m))"
| "never_step sh pc m = (pc, m)"

definition fba_step :: "smart_shelf \<Rightarrow> fpc \<Rightarrow> fba_mem \<Rightarrow> fpc \<times> fba_mem" where
  "fba_step sh pc m =
     (case pc of
        New_Read \<Rightarrow> never_step sh pc m
      | New_Cas _ \<Rightarrow> never_step sh pc m
      | Pop_Read \<Rightarrow> pop_step pc m
      | Pop_Read2 _ \<Rightarrow> pop_step pc m
      | Pop_Next _ _ \<Rightarrow> pop_step pc m
      | Pop_Cas _ _ _ \<Rightarrow> pop_step pc m
      | Pop_Fail _ _ _ \<Rightarrow> pop_step pc m
      | Pop_Fail2 _ _ _ _ \<Rightarrow> pop_step pc m
      | _ \<Rightarrow> push_step pc m)"

text \<open>The first steps: \<open>alloc\<close> starts with \<open>pop\<close>, \<open>free\<close> of a block other than 0 pushes it.\<close>

definition fba_alloc :: fpc where "fba_alloc = Pop_Read"

definition fba_free :: "u64 \<Rightarrow> fpc" where
  "fba_free block = (if block = 0 then Rest else Push_Read block)"

section \<open>Processes\<close>

text \<open>
  \<open>fheld s p\<close> are the blocks that process \<open>p\<close> got from \<open>alloc\<close> and has not freed; it may write them.
  \<open>fops\<close> counts the successful writes of the stack's head.
\<close>

record fsys =
  fmem :: fba_mem
  fpcs :: "nat \<Rightarrow> fpc"
  fheld :: "nat \<Rightarrow> u64 set"
  fops :: nat

definition head_written :: "fba_mem \<Rightarrow> fba_mem \<Rightarrow> nat" where
  "head_written m m' = (if free_aba m' = free_aba m then 0 else 1)"

inductive fstep :: "smart_shelf \<Rightarrow> fsys \<Rightarrow> fsys \<Rightarrow> bool" for sh :: smart_shelf where
  start_alloc: "fpcs s p = Rest \<Longrightarrow> fstep sh s (s\<lparr>fpcs := (fpcs s)(p := fba_alloc)\<rparr>)"
| start_free: "\<lbrakk>fpcs s p = Rest; b \<in> fheld s p\<rbrakk> \<Longrightarrow>
    fstep sh s (s\<lparr>fpcs := (fpcs s)(p := fba_free b), fheld := (fheld s)(p := fheld s p - {b})\<rparr>)"
| run: "\<lbrakk>fpcs s p = pc; fba_step sh pc (fmem s) = (pc', m')\<rbrakk> \<Longrightarrow>
    fstep sh s (s\<lparr>fpcs := (fpcs s)(p := pc'), fmem := m', fops := fops s + head_written (fmem s) m'\<rparr>)"
| returned: "fpcs s p = Got b \<Longrightarrow>
    fstep sh s (s\<lparr>fpcs := (fpcs s)(p := Rest), fheld := (fheld s)(p := fheld s p \<union> ({b} - {0}))\<rparr>)"
| user_write: "b \<in> fheld s p \<Longrightarrow>
    fstep sh s (s\<lparr>fmem := (fmem s)\<lparr>word_at := (word_at (fmem s))(b := v)\<rparr>\<rparr>)"

definition fstart :: "fba_mem \<Rightarrow> fsys" where
  "fstart m = \<lparr>fmem = m, fpcs = (\<lambda>_. Rest), fheld = (\<lambda>_. {}), fops = 0\<rparr>"

text \<open>A new allocator on a shelf of zeros.\<close>

definition zero_fba :: fba_mem where
  "zero_fba = \<lparr>fixed_section_size = 0, max_shelf_size = 0, fba_block_size = 0, fba_first_block = 0, never_allocated = 0,
     free_head = 0, free_aba = 0, word_at = (\<lambda>_. 0)\<rparr>"

inductive freach :: "smart_shelf \<Rightarrow> fba_mem \<Rightarrow> fsys \<Rightarrow> bool" for sh :: smart_shelf and m :: fba_mem where
  new: "FixedBlockAllocator_new bs us maxsz zero_fba = Inr (sh, m) \<Longrightarrow> unat maxsz < 2 ^ 62 \<Longrightarrow>
     unat us + unat bs + 65536 < 2 ^ 64 \<Longrightarrow> freach sh m (fstart m)"
| step: "freach sh m s \<Longrightarrow> fstep sh s s' \<Longrightarrow> freach sh m s'"

end
