(* ===== verification/Block_Allocator.thy ===== *)
theory Block_Allocator
  imports Fixed_Blocks
begin

text \<open>
  The invariant of the fixed block allocator under any interleaving of \<open>alloc\<close> and \<open>free\<close> calls of any
  number of processes: the free blocks form a list without repetition from the head of the stack, and
  every block that was ever allocated is either in it or belongs to exactly one process. The counter of
  the stack must not have gone round: fewer than \<open>2 ^ 64\<close> writes of the head.
\<close>

section \<open>The free list and the blocks\<close>

fun fchain :: "(u64 \<Rightarrow> u64) \<Rightarrow> u64 \<Rightarrow> u64 list \<Rightarrow> bool" where
  "fchain w h [] \<longleftrightarrow> h = 0"
| "fchain w h (b # bs) \<longleftrightarrow> h = b \<and> b \<noteq> 0 \<and> fchain w (w b) bs"

lemma fchain_write: "fchain w h S \<Longrightarrow> b \<notin> set S \<Longrightarrow> fchain (w(b := v)) h S"
  by (induction S arbitrary: h) auto

lemma fchain_head: "fchain w h S \<Longrightarrow> h \<noteq> 0 \<Longrightarrow> \<exists>S'. S = h # S'"
  by (cases S) auto

definition never_ok :: "smart_shelf \<Rightarrow> fba_mem \<Rightarrow> bool" where
  "never_ok sh m \<longleftrightarrow> never_allocated m = 0 \<or>
     (\<exists>k > 0. unat (never_allocated m) = unat (fba_first_block m) + k * unat (fba_block_size m)) \<and>
      unat (never_allocated m) \<le> unat (mapped_size sh)"

definition fblocks :: "fba_mem \<Rightarrow> u64 set" where
  "fblocks m = {b. (\<exists>k. unat b = unat (fba_first_block m) + k * unat (fba_block_size m)) \<and>
     unat b + unat (fba_block_size m) \<le> unat (never_allocated m)}"

fun pc_block :: "fpc \<Rightarrow> u64 set" where
  "pc_block (Push_Read b) = {b}"
| "pc_block (Push_Read2 b x) = {b}"
| "pc_block (Push_Write b x y) = {b}"
| "pc_block (Push_Cas b x y) = {b}"
| "pc_block (Push_Fail b x y) = {b}"
| "pc_block (Push_Fail2 b x y x') = {b}"
| "pc_block (Got b) = {b} - {0}"
| "pc_block pc = {}"

text \<open>What a process knows: a pusher's block points to \<open>old[0]\<close>; a popper's \<open>next\<close> is what its block points
  to, if the head is still what it read.\<close>

fun pc_inv :: "fba_mem \<Rightarrow> nat \<Rightarrow> fpc \<Rightarrow> bool" where
  "pc_inv m n (Push_Cas b x y) \<longleftrightarrow> word_at m b = x"
| "pc_inv m n (Push_Fail b x y) \<longleftrightarrow> word_at m b = x"
| "pc_inv m n (Push_Fail2 b x y x') \<longleftrightarrow> word_at m b = x"
| "pc_inv m n (Pop_Read2 x) \<longleftrightarrow> x = 0 \<or> x \<in> fblocks m"
| "pc_inv m n (Pop_Next x y) \<longleftrightarrow> x \<in> fblocks m \<and> x \<noteq> 0 \<and> unat y \<le> n"
| "pc_inv m n (Pop_Cas x y k) \<longleftrightarrow> x \<noteq> 0 \<and> unat y \<le> n \<and> (free_head m = x \<and> free_aba m = y \<longrightarrow> k = word_at m x)"
| "pc_inv m n (Pop_Fail x y k) \<longleftrightarrow> x \<noteq> 0 \<and> unat y \<le> n \<and> (free_head m = x \<and> free_aba m = y \<longrightarrow> k = word_at m x)"
| "pc_inv m n (Pop_Fail2 x y k x') \<longleftrightarrow> x \<noteq> 0 \<and> unat y \<le> n \<and> (free_head m = x \<and> free_aba m = y \<longrightarrow> k = word_at m x) \<and>
     (x' = 0 \<or> x' \<in> fblocks m)"
| "pc_inv m n pc \<longleftrightarrow> True"

definition own :: "fsys \<Rightarrow> nat \<Rightarrow> u64 set" where
  "own s p = fheld s p \<union> pc_block (fpcs s p)"

definition owners_ok :: "fsys \<Rightarrow> u64 list \<Rightarrow> bool" where
  "owners_ok s S \<longleftrightarrow> (\<forall>p q. p \<noteq> q \<longrightarrow> own s p \<inter> own s q = {}) \<and> (\<forall>p. own s p \<inter> set S = {}) \<and>
     (\<forall>p. fheld s p \<inter> pc_block (fpcs s p) = {}) \<and> fblocks (fmem s) = set S \<union> (\<Union>p. own s p)"

definition mem_ok :: "smart_shelf \<Rightarrow> fsys \<Rightarrow> u64 list \<Rightarrow> bool" where
  "mem_ok sh s S \<longleftrightarrow> fchain (word_at (fmem s)) (free_head (fmem s)) S \<and> distinct S \<and>
     free_aba (fmem s) = of_nat (fops s) \<and> never_ok sh (fmem s)"

definition params_ok :: "smart_shelf \<Rightarrow> fba_mem \<Rightarrow> fba_mem \<Rightarrow> bool" where
  "params_ok sh m0 m \<longleftrightarrow> fba_first_block m = fba_first_block m0 \<and> fba_block_size m = fba_block_size m0 \<and>
     0 < fba_block_size m0 \<and> 0 < fba_first_block m0 \<and> unat (fba_first_block m0) < 2 ^ 62 \<and> unat (fba_block_size m0) < 2 ^ 62 \<and>
     unat (fba_first_block m0) mod unat (fba_block_size m0) = 0 \<and>
     unat (fba_first_block m0) \<le> unat (mapped_size sh) \<and> unat (mapped_size sh) < 2 ^ 63"

definition finv :: "smart_shelf \<Rightarrow> fba_mem \<Rightarrow> u64 list \<Rightarrow> fsys \<Rightarrow> bool" where
  "finv sh m0 S s \<longleftrightarrow> params_ok sh m0 (fmem s) \<and> mem_ok sh s S \<and> owners_ok s S \<and> (\<forall>p. pc_inv (fmem s) (fops s) (fpcs s p))"

lemmas finv_defs = finv_def mem_ok_def owners_ok_def

lemma fblocks_simps [simp]: "fblocks (m\<lparr>free_head := h, free_aba := a\<rparr>) = fblocks m" "fblocks (m\<lparr>word_at := w\<rparr>) = fblocks m"
  by (simp_all add: fblocks_def)

section \<open>Steps that keep the memory\<close>

lemma finv_move:
  assumes "finv sh m0 S s" "h \<union> pc_block pc' = own s p" "h \<inter> pc_block pc' = {}" "pc_inv (fmem s) (fops s) pc'"
  shows "finv sh m0 S (s\<lparr>fpcs := (fpcs s)(p := pc'), fheld := (fheld s)(p := h)\<rparr>)"
proof -
  let ?s = "s\<lparr>fpcs := (fpcs s)(p := pc'), fheld := (fheld s)(p := h)\<rparr>"
  have o: "own ?s = own s" using assms(2) by (auto simp: own_def fun_eq_iff)
  have "owners_ok ?s S" using assms(1,3) unfolding finv_def owners_ok_def o by simp
  then show ?thesis using assms(1,4) by (simp add: finv_def mem_ok_def)
qed

lemma finv_pc:
  assumes "finv sh m0 S s" "pc_block pc' = pc_block (fpcs s p)" "pc_inv (fmem s) (fops s) pc'"
  shows "finv sh m0 S (s\<lparr>fpcs := (fpcs s)(p := pc')\<rparr>)"
proof -
  have "fheld s p \<inter> pc_block (fpcs s p) = {}" using assms(1) by (simp add: finv_def owners_ok_def)
  moreover have "fheld s p \<union> pc_block pc' = own s p" using assms(2) by (simp add: own_def)
  ultimately have "finv sh m0 S (s\<lparr>fpcs := (fpcs s)(p := pc'), fheld := (fheld s)(p := fheld s p)\<rparr>)"
    using finv_move [OF assms(1) _ _ assms(3), of "fheld s p" p] assms(2) by (simp only:)
  moreover have "s\<lparr>fpcs := (fpcs s)(p := pc'), fheld := (fheld s)(p := fheld s p)\<rparr> = s\<lparr>fpcs := (fpcs s)(p := pc')\<rparr>"
    by (cases s) simp
  ultimately show ?thesis by (simp only:)
qed

text \<open>A write to a block that is not free and whose owner has no claim on its word.\<close>

lemma finv_write:
  assumes "finv sh m0 S s" "b \<notin> set S" "\<And>q. b \<in> pc_block (fpcs s q) \<Longrightarrow> \<exists>x y. fpcs s q = Push_Write b x y"
  shows "finv sh m0 S (s\<lparr>fmem := (fmem s)\<lparr>word_at := (word_at (fmem s))(b := v)\<rparr>\<rparr>)"
proof -
  let ?m = "(fmem s)\<lparr>word_at := (word_at (fmem s))(b := v)\<rparr>"
  let ?s = "s\<lparr>fmem := ?m\<rparr>"
  have o: "own ?s = own s" "fblocks ?m = fblocks (fmem s)" by (auto simp: own_def fun_eq_iff fblocks_def)
  have "pc_inv ?m (fops s) (fpcs s q)" for q
  proof -
    have i: "pc_inv (fmem s) (fops s) (fpcs s q)" using assms(1) by (simp add: finv_def)
    have h: "free_head (fmem s) \<noteq> 0 \<Longrightarrow> free_head (fmem s) \<noteq> b"
      using fchain_head assms(1,2) by (fastforce simp: finv_def mem_ok_def)
    show ?thesis using i h assms(3) [of q] o(2) by (cases "fpcs s q") auto
  qed
  moreover have "mem_ok sh ?s S" using assms(1,2) by (simp add: finv_def mem_ok_def never_ok_def fchain_write)
  moreover have "owners_ok ?s S" using assms(1) unfolding finv_def owners_ok_def o by (simp add: o)
  ultimately show ?thesis using assms(1) by (simp add: finv_def params_ok_def)
qed

lemma own_not_free: "finv sh m0 S s \<Longrightarrow> b \<in> own s p \<Longrightarrow> b \<notin> set S"
  by (auto simp: finv_def owners_ok_def)

lemma held_facts:
  assumes "finv sh m0 S s" "b \<in> fheld s p"
  shows "b \<notin> set S" "b \<notin> pc_block (fpcs s q)"
proof -
  show "b \<notin> set S" using own_not_free [OF assms(1), of b p] assms(2) by (simp add: own_def)
  show "b \<notin> pc_block (fpcs s q)" using assms by (cases "p = q") (auto simp: finv_def owners_ok_def own_def)
qed

lemma finv_blocks: "finv sh m0 S s \<Longrightarrow> b \<in> set S \<Longrightarrow> b \<in> fblocks (fmem s)"
  "finv sh m0 S s \<Longrightarrow> b \<in> own s p \<Longrightarrow> b \<in> fblocks (fmem s)"
  by (auto simp: finv_def owners_ok_def)

lemma finv_head: "finv sh m0 S s \<Longrightarrow> free_head (fmem s) = 0 \<or> free_head (fmem s) \<in> fblocks (fmem s)"
  using fchain_head finv_blocks(1) by (fastforce simp: finv_def mem_ok_def)

section \<open>Steps that change the stack\<close>

text \<open>After a write of the head nobody's \<open>old[1]\<close> is the counter.\<close>

lemma stale:
  assumes "unat y \<le> n" "Suc n < 2 ^ 64"
  shows "(of_nat (Suc n) :: u64) \<noteq> y"
proof
  assume "of_nat (Suc n) = y"
  moreover have "unat (of_nat (Suc n) :: u64) = Suc n" using assms(2) by (rule unat_of_nat_64)
  ultimately have "unat y = Suc n" by (simp only:)
  with assms(1) show False by simp
qed

lemma pc_inv_head:
  assumes "pc_inv m n pc" "Suc n < 2 ^ 64" "fblocks m \<subseteq> fblocks m'" "word_at m' = word_at m" "free_aba m' = of_nat (Suc n)"
  shows "pc_inv m' (Suc n) pc"
  using assms stale [OF _ assms(2)] by (cases pc) (auto simp del: of_nat_Suc)

lemma union_swap: "A \<union> B = C \<union> D \<Longrightarrow> A \<union> (H \<union> B \<union> R) = C \<union> (H \<union> D \<union> R)"
  by blast

lemma finv_head_write:
  assumes "finv sh m0 S s" "Suc (fops s) < 2 ^ 64" "fchain (word_at (fmem s)) h S'" "distinct S'"
    "pc_block (fpcs s p) \<inter> set S = {}" "pc_block pc' \<inter> set S' = {}" "fheld s p \<inter> pc_block pc' = {}"
    "set S' \<union> pc_block pc' = set S \<union> pc_block (fpcs s p)" "pc' = Rest \<or> (\<exists>b. pc' = Got b)"
  shows "finv sh m0 S' (s\<lparr>fpcs := (fpcs s)(p := pc'), fmem := (fmem s)\<lparr>free_head := h, free_aba := free_aba (fmem s) + 1\<rparr>,
      fops := Suc (fops s)\<rparr>)"
proof -
  let ?m = "(fmem s)\<lparr>free_head := h, free_aba := free_aba (fmem s) + 1\<rparr>"
  let ?s = "s\<lparr>fpcs := (fpcs s)(p := pc'), fmem := ?m, fops := Suc (fops s)\<rparr>"
  have O: "\<And>p q. p \<noteq> q \<Longrightarrow> own s p \<inter> own s q = {}" "\<And>p. own s p \<inter> set S = {}" "\<And>p. fheld s p \<inter> pc_block (fpcs s p) = {}"
    "fblocks (fmem s) = set S \<union> (\<Union>p. own s p)" using assms(1) by (simp_all add: finv_def owners_ok_def)
  have aba: "free_aba (fmem s) = of_nat (fops s)" using assms(1) by (simp add: finv_def mem_ok_def)
  have o: "own ?s q = (if q = p then fheld s p \<union> pc_block pc' else own s q)" for q by (simp add: own_def)
  have sub: "pc_block pc' \<subseteq> set S \<union> pc_block (fpcs s p)" "set S' \<subseteq> set S \<union> pc_block (fpcs s p)" using assms(8) by auto
  have "own ?s q \<inter> own ?s r = {}" if "q \<noteq> r" for q r
    using that O(1) [of p] O(1) [OF that] O(2) sub(1) unfolding o by (auto simp: own_def) blast+
  moreover have "own ?s q \<inter> set S' = {}" for q
    using O(1) [of q p] O(2) [of q] O(2) [of p] O(3) [of p] sub(2) assms(6) unfolding o by (auto simp: own_def) blast+
  moreover have "fheld ?s q \<inter> pc_block (fpcs ?s q) = {}" for q using O(3) [of q] assms(7) by simp
  moreover have "set S' \<union> (\<Union>q. own ?s q) = set S \<union> (\<Union>q. own s q)"
  proof -
    have split: "(\<Union>q. f q) = f p \<union> (\<Union>q \<in> - {p}. f q)" for f :: "nat \<Rightarrow> u64 set" by blast
    have "(\<Union>q \<in> - {p}. own ?s q) = (\<Union>q \<in> - {p}. own s q)" by (simp add: o)
    then have "(\<Union>q. own ?s q) = (fheld s p \<union> pc_block pc') \<union> (\<Union>q \<in> - {p}. own s q)"
      unfolding split [of "own ?s"] by (simp add: o)
    moreover have "(\<Union>q. own s q) = (fheld s p \<union> pc_block (fpcs s p)) \<union> (\<Union>q \<in> - {p}. own s q)"
      unfolding split [of "own s"] by (simp add: own_def)
    ultimately show ?thesis by (simp only: union_swap [OF assms(8)])
  qed
  ultimately have "owners_ok ?s S'" unfolding owners_ok_def using O(4) by simp
  moreover have "pc_inv ?m (Suc (fops s)) (fpcs ?s q)" for q
  proof (cases "q = p")
    case True
    then show ?thesis using assms(9) by auto
  next
    case False
    have "pc_inv (fmem s) (fops s) (fpcs s q)" using assms(1) by (simp add: finv_def)
    then have "pc_inv ?m (Suc (fops s)) (fpcs s q)" by (rule pc_inv_head [OF _ assms(2)]) (simp_all add: aba)
    then show ?thesis using False by simp
  qed
  moreover have "mem_ok sh ?s S'" using assms(1,3,4) aba by (simp add: finv_def mem_ok_def never_ok_def)
  ultimately show ?thesis using assms(1) by (simp add: finv_def params_ok_def)
qed

lemma push_cas:
  assumes "finv sh m0 S s" "Suc (fops s) < 2 ^ 64" "fpcs s p = Push_Cas b x y" "free_head (fmem s) = x" "b \<noteq> 0"
  shows "finv sh m0 (b # S) (s\<lparr>fpcs := (fpcs s)(p := Rest), fmem := (fmem s)\<lparr>free_head := b, free_aba := free_aba (fmem s) + 1\<rparr>,
      fops := Suc (fops s)\<rparr>)"
proof (rule finv_head_write [OF assms(1,2)])
  have w: "word_at (fmem s) b = x" "fchain (word_at (fmem s)) (free_head (fmem s)) S" "distinct S"
    using assms(1) spec [of "\<lambda>p. pc_inv (fmem s) (fops s) (fpcs s p)" p] assms(3) by (simp_all add: finv_def mem_ok_def)
  have nb: "b \<notin> set S" by (rule own_not_free [OF assms(1), of b p]) (simp add: own_def assms(3))
  show "fchain (word_at (fmem s)) b (b # S)" using w assms(4,5) by simp
  show "distinct (b # S)" "pc_block (fpcs s p) \<inter> set S = {}" using w(3) nb assms(3) by simp_all
qed (simp_all add: assms(3))

lemma pop_cas:
  assumes "finv sh m0 S s" "Suc (fops s) < 2 ^ 64" "fpcs s p = Pop_Cas x y n" "free_head (fmem s) = x" "free_aba (fmem s) = y"
  shows "\<exists>S'. S = x # S' \<and>
    finv sh m0 S' (s\<lparr>fpcs := (fpcs s)(p := Got x), fmem := (fmem s)\<lparr>free_head := n, free_aba := free_aba (fmem s) + 1\<rparr>,
      fops := Suc (fops s)\<rparr>)"
proof -
  have w: "x \<noteq> 0" "n = word_at (fmem s) x" "fchain (word_at (fmem s)) (free_head (fmem s)) S" "distinct S"
    using assms(1) spec [of "\<lambda>p. pc_inv (fmem s) (fops s) (fpcs s p)" p] assms(3-5) by (simp_all add: finv_def mem_ok_def)
  then obtain S' where S': "S = x # S'" using fchain_head assms(4) by blast
  have h: "x \<notin> fheld s p" using held_facts(1) [OF assms(1)] S' by fastforce
  have "finv sh m0 S' (s\<lparr>fpcs := (fpcs s)(p := Got x), fmem := (fmem s)\<lparr>free_head := n, free_aba := free_aba (fmem s) + 1\<rparr>,
      fops := Suc (fops s)\<rparr>)"
    by (rule finv_head_write [OF assms(1,2)]) (use w S' h assms(3) in auto)
  with S' show ?thesis by blast
qed

section \<open>New blocks\<close>

lemma block_nonzero: "params_ok sh m0 m \<Longrightarrow> b \<in> fblocks m \<Longrightarrow> b \<noteq> 0"
  by (auto simp: params_ok_def fblocks_def word_less_nat_alt)

lemma next_block:
  fixes m :: fba_mem
  defines "block \<equiv> (if never_allocated m = 0 then fba_first_block m else never_allocated m)"
  defines "m' \<equiv> m\<lparr>never_allocated := block + fba_block_size m\<rparr>"
  assumes "params_ok sh m0 m" "never_ok sh m" "block + fba_block_size m \<le> mapped_size sh"
  shows "fblocks m' = insert block (fblocks m)" "block \<notin> fblocks m" "never_ok sh m'" "block \<noteq> 0"
proof -
  let ?f = "unat (fba_first_block m)" and ?z = "unat (fba_block_size m)" and ?N = "unat (never_allocated m)"
  have P: "0 < ?f" "0 < ?z" "?f < 2 ^ 62" "?z < 2 ^ 62" "unat (mapped_size sh) < 2 ^ 63"
    using assms(3) by (simp_all add: params_ok_def word_less_nat_alt)
  obtain K where K: "unat block = ?f + K * ?z" "?N = 0 \<and> K = 0 \<or> ?N = unat block"
  proof (cases "never_allocated m = 0")
    case True
    then show ?thesis using that [of 0] by (simp add: block_def)
  next
    case False
    then obtain k where "?N = ?f + k * ?z" using assms(4) by (auto simp: never_ok_def)
    then show ?thesis using that [of k] False by (simp add: block_def)
  qed
  have B: "unat block < 2 ^ 63" using assms(4) P by (auto simp: never_ok_def block_def)
  have new: "unat (block + fba_block_size m) = unat block + ?z" using B P(4) by (simp add: unat_word_ariths)
  then have fit: "unat block + ?z \<le> unat (mapped_size sh)" using assms(5) by (simp add: word_le_nat_alt)
  have zero: "?N = 0 \<longleftrightarrow> never_allocated m = 0" by (simp add: unat_eq_0)
  show nz: "block \<noteq> 0" using K(1) P(1) by auto
  show "block \<notin> fblocks m" using K P by (auto simp: fblocks_def)
  show "never_ok sh m'"
    using new fit K(1) P by (simp add: m'_def never_ok_def) (intro disjI2 exI [of _ "Suc K"], simp)
  show "fblocks m' = insert block (fblocks m)"
  proof (intro set_eqI iffI)
    fix b assume "b \<in> fblocks m'"
    then obtain k where k: "unat b = ?f + k * ?z" "unat b + ?z \<le> unat block + ?z"
      using new by (auto simp: fblocks_def m'_def)
    show "b \<in> insert block (fblocks m)"
    proof (cases "k = K")
      case True
      then show ?thesis using k(1) K(1) by (simp add: word_unat_eq_iff)
    next
      case False
      have "k * ?z \<le> K * ?z" using k K(1) by simp
      then have "k < K" using False P(2) by simp
      then have "Suc k * ?z \<le> K * ?z" by (intro mult_le_mono1) simp
      then have "unat b + ?z \<le> unat block" using k(1) K(1) by simp
      moreover have "?N = unat block" using K(2) \<open>k < K\<close> by auto
      ultimately show ?thesis using k(1) by (auto simp: fblocks_def)
    qed
  next
    fix b assume b: "b \<in> insert block (fblocks m)"
    have "unat b + ?z \<le> unat block + ?z" if "b \<in> fblocks m" using that K(2) P(2) by (auto simp: fblocks_def)
    then show "b \<in> fblocks m'" using b new K(1) by (auto simp: fblocks_def m'_def)
  qed
qed

lemma pc_inv_never:
  assumes "pc_inv m n pc" "fblocks m \<subseteq> fblocks (m\<lparr>never_allocated := v\<rparr>)"
  shows "pc_inv (m\<lparr>never_allocated := v\<rparr>) n pc"
  using assms by (cases pc) auto

lemma new_cas:
  assumes "finv sh m0 S s" "fpcs s p = New_Cas (never_allocated (fmem s))"
    "block = (if never_allocated (fmem s) = 0 then fba_first_block (fmem s) else never_allocated (fmem s))"
    "block + fba_block_size (fmem s) \<le> mapped_size sh"
  shows "finv sh m0 S (s\<lparr>fpcs := (fpcs s)(p := Got block), fmem := (fmem s)\<lparr>never_allocated := block + fba_block_size (fmem s)\<rparr>\<rparr>)"
proof -
  let ?m = "(fmem s)\<lparr>never_allocated := block + fba_block_size (fmem s)\<rparr>"
  let ?s = "s\<lparr>fpcs := (fpcs s)(p := Got block), fmem := ?m\<rparr>"
  have P: "params_ok sh m0 (fmem s)" "never_ok sh (fmem s)" using assms(1) by (simp_all add: finv_def mem_ok_def)
  note N = next_block [OF P, folded assms(3), OF assms(4)]
  have O: "\<And>p q. p \<noteq> q \<Longrightarrow> own s p \<inter> own s q = {}" "\<And>p. own s p \<inter> set S = {}" "\<And>p. fheld s p \<inter> pc_block (fpcs s p) = {}"
    "fblocks (fmem s) = set S \<union> (\<Union>p. own s p)" using assms(1) by (simp_all add: finv_def owners_ok_def)
  have fresh: "block \<notin> set S" "block \<notin> own s q" for q using N(2) O(4) by blast+
  have o: "own ?s q = (if q = p then insert block (own s p) else own s q)" for q using N(4) by (auto simp: own_def assms(2))
  have "own ?s q \<inter> own ?s r = {}" if "q \<noteq> r" for q r using O(1) [OF that] fresh(2) that unfolding o by auto
  moreover have "own ?s q \<inter> set S = {}" for q using O(2) [of q] fresh(1) unfolding o by auto
  moreover have "fheld ?s q \<inter> pc_block (fpcs ?s q) = {}" for q using O(3) [of q] fresh(2) [of p] by (auto simp: own_def)
  moreover have "fblocks ?m = set S \<union> (\<Union>q. own ?s q)"
  proof -
    have "(\<Union>q. own ?s q) = insert block (\<Union>q. own s q)" by (auto simp: o split: if_splits)
    then show ?thesis using N(1) O(4) by simp
  qed
  ultimately have "owners_ok ?s S" by (simp add: owners_ok_def)
  moreover have "pc_inv ?m (fops s) (fpcs ?s q)" for q
    using assms(1) N(1) pc_inv_never [of "fmem s" "fops s" "fpcs s q"] by (auto simp: finv_def)
  moreover have "mem_ok sh ?s S" using assms(1) N(3) by (simp add: finv_def mem_ok_def)
  ultimately show ?thesis using assms(1) by (simp add: finv_def params_ok_def)
qed

section \<open>All steps\<close>

lemma same_mem [simp]: "s\<lparr>fpcs := f, fmem := fmem s, fops := fops s\<rparr> = s\<lparr>fpcs := f\<rparr>"
  "s\<lparr>fpcs := f, fmem := m, fops := fops s\<rparr> = s\<lparr>fpcs := f, fmem := m\<rparr>"
  "s\<lparr>fmem := m, fpcs := f\<rparr> = s\<lparr>fpcs := f, fmem := m\<rparr>"
  by (cases s; simp)+

lemma head_written_simps [simp]: "head_written m m = 0" "head_written m (m\<lparr>word_at := w\<rparr>) = 0"
  "head_written m (m\<lparr>never_allocated := v\<rparr>) = 0" "head_written m (m\<lparr>free_head := h, free_aba := free_aba m + 1\<rparr>) = 1"
  by (simp_all add: head_written_def)

lemma finv_run:
  assumes "finv sh m0 S s" "fba_step sh (fpcs s p) (fmem s) = (pc', m')" "fops s + head_written (fmem s) m' < 2 ^ 64"
  shows "\<exists>S'. finv sh m0 S' (s\<lparr>fpcs := (fpcs s)(p := pc'), fmem := m', fops := fops s + head_written (fmem s) m'\<rparr>)"
proof -
  have i: "pc_inv (fmem s) (fops s) (fpcs s p)" and P: "params_ok sh m0 (fmem s)" and aba: "free_aba (fmem s) = of_nat (fops s)"
    using assms(1) by (simp_all add: finv_def mem_ok_def)
  have lt: "fops s < 2 ^ 64" using assms(3) by simp
  have y: "unat (free_aba (fmem s)) \<le> fops s" using lt by (simp only: aba unat_of_nat_64)
  note H = finv_head [OF assms(1)]
  have nz: "b \<noteq> 0" if "b \<in> pc_block (fpcs s p)" for b
    using block_nonzero [OF P finv_blocks(2) [OF assms(1), of b p]] that by (simp add: own_def)
  have quiet: ?thesis if "m' = fmem s" "pc_block pc' = pc_block (fpcs s p)" "pc_inv (fmem s) (fops s) pc'"
    using finv_pc [OF assms(1) that(2,3)] that(1) by auto
  show ?thesis
  proof (cases "fpcs s p")
    case (Push_Write b x y)
    have "finv sh m0 S (s\<lparr>fmem := (fmem s)\<lparr>word_at := (word_at (fmem s))(b := x)\<rparr>\<rparr>)"
    proof (rule finv_write [OF assms(1)])
      show "b \<notin> set S" by (rule own_not_free [OF assms(1), of b p]) (simp add: own_def Push_Write)
      show "\<exists>x y. fpcs s q = Push_Write b x y" if "b \<in> pc_block (fpcs s q)" for q
      proof (cases "q = p")
        case False
        then have "own s q \<inter> own s p = {}" using assms(1) by (simp add: finv_def owners_ok_def)
        then show ?thesis using that by (auto simp: own_def Push_Write)
      qed (simp add: Push_Write)
    qed
    from finv_pc [OF this, of "Push_Cas b x y" p] show ?thesis using assms(2) Push_Write by (auto simp: fba_step_def)
  next
    case (Push_Cas b x y)
    show ?thesis
    proof (cases "free_head (fmem s) = x \<and> free_aba (fmem s) = y")
      case True
      then have e: "pc' = Rest" "m' = (fmem s)\<lparr>free_head := b, free_aba := free_aba (fmem s) + 1\<rparr>"
        using assms(2) Push_Cas by (auto simp: fba_step_def)
      then have "Suc (fops s) < 2 ^ 64" using assms(3) by simp
      from push_cas [OF assms(1) this Push_Cas] True nz [of b] e show ?thesis by (auto simp: Push_Cas)
    next
      case False
      then show ?thesis using assms(2) i Push_Cas by (intro quiet) (auto simp: fba_step_def)
    qed
  next
    case (Pop_Cas x y n)
    show ?thesis
    proof (cases "free_head (fmem s) = x \<and> free_aba (fmem s) = y")
      case True
      then have e: "pc' = Got x" "m' = (fmem s)\<lparr>free_head := n, free_aba := free_aba (fmem s) + 1\<rparr>"
        using assms(2) Pop_Cas by (auto simp: fba_step_def)
      then have "Suc (fops s) < 2 ^ 64" using assms(3) by simp
      from pop_cas [OF assms(1) this Pop_Cas] True e show ?thesis by auto
    next
      case False
      then show ?thesis using assms(2) i Pop_Cas by (intro quiet) (auto simp: fba_step_def)
    qed
  next
    case (New_Cas old)
    let ?b = "if old = 0 then fba_first_block (fmem s) else old"
    consider "mapped_size sh < ?b + fba_block_size (fmem s)"
      | "\<not> mapped_size sh < ?b + fba_block_size (fmem s)" "never_allocated (fmem s) = old"
      | "\<not> mapped_size sh < ?b + fba_block_size (fmem s)" "never_allocated (fmem s) \<noteq> old" by blast
    then show ?thesis
    proof cases
      case 2
      then have e: "pc' = Got ?b" "m' = (fmem s)\<lparr>never_allocated := ?b + fba_block_size (fmem s)\<rparr>"
        using assms(2) New_Cas by (auto simp: fba_step_def fba_size_def Let_def)
      have "fpcs s p = New_Cas (never_allocated (fmem s))" using New_Cas 2(2) by simp
      from new_cas [OF assms(1) this refl] 2 e show ?thesis by (auto simp: not_less)
    qed (use assms(2) New_Cas in \<open>intro quiet; auto simp: fba_step_def fba_size_def Let_def\<close>)+
  qed (use assms(2) i y H in \<open>intro quiet; auto simp: fba_step_def pop_loop_def split: if_splits\<close>)+
qed

lemma finv_step:
  assumes "fstep sh s s'" "finv sh m0 S s" "fops s' < 2 ^ 64"
  shows "\<exists>S'. finv sh m0 S' s'"
  using assms(1)
proof cases
  case (start_alloc p)
  then show ?thesis using finv_pc [OF assms(2), of Pop_Read p] by (auto simp: fba_alloc_def)
next
  case (start_free p b)
  have "b \<in> own s p" using start_free(3) by (simp add: own_def)
  from finv_blocks(2) [OF assms(2) this] have nz: "b \<noteq> 0" using block_nonzero assms(2) unfolding finv_def by blast
  have "own s p = fheld s p" using start_free(2) by (simp add: own_def)
  then have "finv sh m0 S (s\<lparr>fpcs := (fpcs s)(p := Push_Read b), fheld := (fheld s)(p := fheld s p - {b})\<rparr>)"
    using start_free(3) by (intro finv_move [OF assms(2)]) auto
  then show ?thesis using start_free(1) nz by (auto simp: fba_free_def)
next
  case (run p pc pc' m')
  then show ?thesis using finv_run [OF assms(2), of p pc' m'] assms(3) by simp
next
  case (returned p b)
  have "fheld s p \<inter> pc_block (fpcs s p) = {}" using assms(2) by (simp add: finv_def owners_ok_def)
  then have "finv sh m0 S (s\<lparr>fpcs := (fpcs s)(p := Rest), fheld := (fheld s)(p := fheld s p \<union> ({b} - {0}))\<rparr>)"
    by (intro finv_move [OF assms(2)]) (auto simp: own_def returned(2))
  then show ?thesis using returned(1) by auto
next
  case (user_write b p v)
  then have "finv sh m0 S s'" unfolding user_write(1) using held_facts [OF assms(2) user_write(2)] by (intro finv_write [OF assms(2)]) auto
  then show ?thesis by blast
qed

lemma fops_mono: "fstep sh s s' \<Longrightarrow> fops s \<le> fops s'"
  by (auto elim: fstep.cases)

lemma round_up_facts:
  assumes "0 < unat m" "unat x + unat m \<le> 2 ^ 64"
  shows "unat x \<le> unat (round_up x m)" "unat (round_up x m) < unat x + unat m" "unat m dvd unat (round_up x m)"
proof -
  let ?q = "(unat x + unat m - 1) div unat m"
  have u: "unat (round_up x m) = ?q * unat m" by (rule unat_round_up [OF assms])
  have d: "?q * unat m + (unat x + unat m - 1) mod unat m = unat x + unat m - 1" by (rule div_mult_mod_eq)
  have r: "(unat x + unat m - 1) mod unat m < unat m" using assms(1) by simp
  show "unat x \<le> unat (round_up x m)" "unat (round_up x m) < unat x + unat m" using d r assms(1) unfolding u by linarith+
  show "unat m dvd unat (round_up x m)" unfolding u by simp
qed

lemma FixedBlockAllocator_fields:
  assumes "FixedBlockAllocator_new bs us maxsz zero_fba = Inr (sh, m)"
  defines "z \<equiv> round_up (if bs = 0 then 1 else bs) kCacheLineSize"
  defines "f \<equiv> round_up (128 + round_up us kCacheLineSize) z"
  shows "sh = \<lparr>ss_start = 128, mapped_size = round_up maxsz kVirtualPageSize\<rparr>" "fba_block_size m = z"
    "fba_first_block m = f" "f \<le> maxsz" "never_allocated m = 0" "free_head m = 0" "free_aba m = 0" "word_at m = (\<lambda>_. 0)"
proof -
  have st: "round_up (kCacheLineSize + FBA_METADATA_SIZE) kCacheLineSize = 128"
    by (simp add: round_up_def kCacheLineSize_def FBA_METADATA_SIZE_def)
  show "sh = \<lparr>ss_start = 128, mapped_size = round_up maxsz kVirtualPageSize\<rparr>" "fba_block_size m = z"
    "fba_first_block m = f" "f \<le> maxsz" "never_allocated m = 0" "free_head m = 0" "free_aba m = 0" "word_at m = (\<lambda>_. 0)"
    using assms(1) by (auto simp: FixedBlockAllocator_new_def SmartShelf_new_def Let_def cas_word_def zero_fba_def st not_less z_def f_def
        split: if_splits)
qed

lemma FixedBlockAllocator_params:
  assumes "FixedBlockAllocator_new bs us maxsz zero_fba = Inr (sh, m)" "unat maxsz < 2 ^ 62" "unat us + unat bs + 65536 < 2 ^ 64"
  shows "params_ok sh m m" "never_allocated m = 0" "free_head m = 0" "free_aba m = 0"
proof -
  let ?z = "round_up (if bs = 0 then 1 else bs) kCacheLineSize" and ?u = "round_up us kCacheLineSize"
  let ?f = "round_up (128 + ?u) ?z"
  have r: "sh = \<lparr>ss_start = 128, mapped_size = round_up maxsz kVirtualPageSize\<rparr>" "fba_block_size m = ?z"
    "fba_first_block m = ?f" "?f \<le> maxsz" "never_allocated m = 0" "free_head m = 0" "free_aba m = 0"
    using FixedBlockAllocator_fields [OF assms(1)] by simp_all
  then show "never_allocated m = 0" "free_head m = 0" "free_aba m = 0" by simp_all
  have c: "unat kCacheLineSize = 64" "unat kVirtualPageSize = 65536" by (simp_all add: kCacheLineSize_def kVirtualPageSize_def)
  have b1: "unat (if bs = 0 then 1 else bs) \<le> unat bs + 1" "0 < unat (if bs = 0 then 1 else bs)" by (simp_all add: unat_gt_0)
  have z: "unat (if bs = 0 then 1 else bs) \<le> unat ?z" "unat ?z < unat (if bs = 0 then 1 else bs) + 64"
    using round_up_facts(1,2) [of kCacheLineSize "if bs = 0 then 1 else bs"] b1 c assms(3) by simp_all
  have u: "unat ?u < unat us + 64" using round_up_facts(2) [of kCacheLineSize us] c assms(3) by simp
  have u2: "unat (128 + ?u) = 128 + unat ?u" using u assms(3) by (simp add: unat_word_ariths)
  have f: "128 \<le> unat ?f" "unat ?z dvd unat ?f"
    using round_up_facts(1,3) [of ?z "128 + ?u"] z b1 u u2 assms(3) by linarith+
  have fm: "unat ?f \<le> unat maxsz" using r(4) by (simp add: word_le_nat_alt)
  have p: "unat maxsz \<le> unat (mapped_size sh)" "unat (mapped_size sh) < unat maxsz + 65536"
    using round_up_facts(1,2) [of kVirtualPageSize maxsz] c assms(2) by (simp_all add: r(1))
  have "unat ?z \<le> unat ?f" using f by (intro dvd_imp_le) simp_all
  then show "params_ok sh m m"
    using f fm p z b1 assms(2) by (simp add: params_ok_def r(2,3) word_less_nat_alt mod_eq_0_iff_dvd)
qed

lemma finv_start:
  assumes "params_ok sh m m" "never_allocated m = 0" "free_head m = 0" "free_aba m = 0"
  shows "finv sh m [] (fstart m)"
proof -
  have "0 < unat (fba_block_size m)" using assms(1) by (simp add: params_ok_def word_less_nat_alt)
  then have "fblocks m = {}" using assms(2) by (simp add: fblocks_def)
  then show ?thesis using assms by (simp add: finv_defs fstart_def never_ok_def own_def)
qed

lemma freach_finv: "freach sh m s \<Longrightarrow> fops s < 2 ^ 64 \<Longrightarrow> \<exists>S. finv sh m S s"
proof (induction rule: freach.induct)
  case (new bs us maxsz)
  from finv_start [OF FixedBlockAllocator_params [OF new.hyps]] show ?case by blast
next
  case (step s s')
  from fops_mono [OF step.hyps(2)] step.prems have "fops s < 2 ^ 64" by simp
  from step.IH [OF this] finv_step [OF step.hyps(2) _ step.prems] show ?case by blast
qed

section \<open>Without interference\<close>

text \<open>\<open>Stack\<close> as a client sees it that runs alone (\<open>push (void *, Offset)\<close> and \<open>pop (void *)\<close>); it is a
  stack of blocks in the sense of theory \<open>Zone_Stack\<close>.\<close>

definition stack_push :: "(u64 \<Rightarrow> u64) \<Rightarrow> zone_stack \<Rightarrow> u64 \<Rightarrow> ((u64 \<Rightarrow> u64) \<times> zone_stack) result" where
  "stack_push w st block =
     (if block = 0 then Inl Assert_Failed
      else Inr (w(block := head st), \<lparr>head = block, aba_counter = aba_counter st + 1\<rparr>))"

definition stack_pop :: "(u64 \<Rightarrow> u64) \<Rightarrow> zone_stack \<Rightarrow> zone_stack \<times> u64" where
  "stack_pop w st =
     (if head st = 0 then (st, 0) else (\<lparr>head = w (head st), aba_counter = aba_counter st + 1\<rparr>, head st))"

definition fba_holds :: "(u64 \<Rightarrow> u64) \<Rightarrow> zone_stack \<Rightarrow> nat list \<Rightarrow> bool" where
  "fba_holds w st bs \<longleftrightarrow> fchain w (head st) (map of_nat bs) \<and> (\<forall>b \<in> set bs. b < 2 ^ 64)"

definition fba_block :: "nat \<Rightarrow> bool" where
  "fba_block b \<longleftrightarrow> 0 < b \<and> b < 2 ^ 64"

lemma fba_block_word: "fba_block b \<Longrightarrow> (of_nat b :: u64) \<noteq> 0"
  using unat_of_nat_64 [of b] by (auto simp: fba_block_def)

lemma fba_fresh: "fba_block b \<Longrightarrow> b \<notin> set bs \<Longrightarrow> \<forall>c \<in> set bs. c < 2 ^ 64 \<Longrightarrow> (of_nat b :: u64) \<notin> set (map of_nat bs)"
  using unat_of_nat_64 by (auto simp: fba_block_def) metis

interpretation fba: block_stack stack_push stack_pop fba_holds fba_block
proof
  fix w w' :: "u64 \<Rightarrow> u64" and s s' t :: zone_stack and bs cs :: "nat list" and b :: nat
  show "\<exists>m' s'. stack_push w s (of_nat b) = Inr (m', s') \<and> fba_holds m' s' (b # bs)"
    if "fba_holds w s bs" "fba_block b" "b \<notin> set bs"
    using that fba_block_word [OF that(2)] fchain_write [of w "head s" "map of_nat bs" "of_nat b"] fba_fresh [OF that(2,3)]
    by (simp add: stack_push_def fba_holds_def fba_block_def)
  show "fba_holds w' t cs" if "stack_push w s (of_nat b) = Inr (w', s')" "fba_block b" "fba_holds w t cs" "b \<notin> set cs"
    using that fba_block_word [OF that(2)] fchain_write [of w "head t" "map of_nat cs" "of_nat b"] fba_fresh [OF that(2,4)]
    by (auto simp: stack_push_def fba_holds_def)
  show "stack_pop w s = (s, 0)" if "fba_holds w s []" using that by (simp add: stack_pop_def fba_holds_def)
  show "\<exists>s'. stack_pop w s = (s', of_nat b) \<and> fba_holds w s' bs" if "fba_holds w s (b # bs)"
    using that by (auto simp: stack_pop_def fba_holds_def)
qed

definition solo :: "smart_shelf \<Rightarrow> nat \<Rightarrow> fpc \<times> fba_mem \<Rightarrow> fpc \<times> fba_mem" where
  "solo sh n = (\<lambda>(pc, m). fba_step sh pc m) ^^ n"

definition stack_of :: "fba_mem \<Rightarrow> zone_stack" where
  "stack_of m = \<lparr>head = free_head m, aba_counter = free_aba m\<rparr>"

lemma solo_4: "solo sh 4 (pc, m) = (case fba_step sh pc m of (pc, m) \<Rightarrow> case fba_step sh pc m of (pc, m) \<Rightarrow>
    case fba_step sh pc m of (pc, m) \<Rightarrow> fba_step sh pc m)"
  by (simp add: solo_def eval_nat_numeral split_beta)

text \<open>The steps of a process that runs alone are those of the sequential operations.\<close>

lemma solo_free:
  assumes "b \<noteq> 0"
  shows "solo sh 4 (fba_free b, m) = (Rest, m\<lparr>word_at := (word_at m)(b := free_head m), free_head := b, free_aba := free_aba m + 1\<rparr>)"
  using assms by (simp add: solo_4 fba_free_def fba_step_def)

lemma solo_alloc:
  "free_head m \<noteq> 0 \<Longrightarrow> solo sh 4 (fba_alloc, m) =
     (Got (free_head m), m\<lparr>free_head := word_at m (free_head m), free_aba := free_aba m + 1\<rparr>)"
  "free_head m = 0 \<Longrightarrow> solo sh 4 (fba_alloc, m) = never_step sh (New_Cas (never_allocated m)) m"
  by (simp_all add: solo_4 fba_alloc_def fba_step_def pop_loop_def)

end
