(* ===== verification/Block_Allocator_Props.thy ===== *)
theory Block_Allocator_Props
  imports Block_Allocator
begin

text \<open>The properties of the fixed block allocator.\<close>

section \<open>Exclusive blocks\<close>

text \<open>\<open>shelf_block\<close>: a whole block of the shelf behind the metadata.\<close>

definition shelf_block :: "smart_shelf \<Rightarrow> fba_mem \<Rightarrow> u64 \<Rightarrow> bool" where
  "shelf_block sh m b \<longleftrightarrow> unat (fba_first_block m) \<le> unat b \<and> unat b mod unat (fba_block_size m) = 0 \<and>
     unat b + unat (fba_block_size m) \<le> unat (mapped_size sh)"

lemma fblocks_shelf:
  assumes "params_ok sh m0 m" "never_ok sh m" "b \<in> fblocks m"
  shows "shelf_block sh m0 b"
proof -
  let ?f = "unat (fba_first_block m0)" and ?z = "unat (fba_block_size m0)"
  have P: "?f mod ?z = 0" "fba_first_block m = fba_first_block m0" "fba_block_size m = fba_block_size m0" "0 < ?z"
    using assms(1) by (simp_all add: params_ok_def word_less_nat_alt)
  from assms(3) obtain k where k: "unat b = ?f + k * ?z" "unat b + ?z \<le> unat (never_allocated m)" by (auto simp: fblocks_def P)
  have "unat (never_allocated m) \<le> unat (mapped_size sh)" using assms(2) by (auto simp: never_ok_def)
  then show ?thesis using k P(1) by (simp add: shelf_block_def)
qed

lemma shelf_block_index:
  assumes "params_ok sh m0 m" "shelf_block sh m0 b"
  shows "\<exists>k. unat b = unat (fba_first_block m) + k * unat (fba_block_size m)"
proof -
  let ?f = "unat (fba_first_block m0)" and ?z = "unat (fba_block_size m0)"
  have "?z dvd unat b - ?f" using assms by (simp add: params_ok_def shelf_block_def mod_eq_0_iff_dvd dvd_diff_nat)
  then obtain k where "unat b - ?f = ?z * k" by (elim dvdE)
  moreover have "?f \<le> unat b" "?f = unat (fba_first_block m)" "?z = unat (fba_block_size m)"
    using assms by (simp_all add: params_ok_def shelf_block_def)
  ultimately have "unat b = unat (fba_first_block m) + k * unat (fba_block_size m)" by (simp add: mult.commute)
  then show ?thesis by blast
qed

lemma apart:
  assumes "params_ok sh m0 m" "shelf_block sh m0 b" "shelf_block sh m0 c" "b \<noteq> c"
  shows "unat b + unat (fba_block_size m0) \<le> unat c \<or> unat c + unat (fba_block_size m0) \<le> unat b"
proof -
  let ?z = "unat (fba_block_size m0)"
  have "?z dvd unat b" "?z dvd unat c" using assms(2,3) by (simp_all add: shelf_block_def mod_eq_0_iff_dvd)
  then obtain i j where ij: "unat b = ?z * i" "unat c = ?z * j" by (elim dvdE)
  have "i \<noteq> j" using assms(4) ij by (auto simp: word_unat_eq_iff)
  then have "i < j \<or> j < i" by linarith
  then have "Suc i \<le> j \<or> Suc j \<le> i" by linarith
  then have "?z * Suc i \<le> ?z * j \<or> ?z * Suc j \<le> ?z * i" by (meson mult_le_mono2)
  then show ?thesis using ij by (simp add: add.commute)
qed

text \<open>C8: In every interleaving of \<open>alloc\<close> and \<open>free\<close> calls of any number of processes, which may write
  the blocks they hold, two different blocks that processes hold are disjoint ranges of bytes of the shelf
  behind the metadata, no block is held twice, and none that is held is on the free list or about to be
  returned by another \<open>alloc\<close>. The separate loads of the two words of the stack's head do no harm, as long as
  the counter does not go round. A process that stops anywhere only keeps what it had.\<close>

theorem block_allocator_exclusive:
  assumes "freach sh m s" "fops s < 2 ^ 64" "b \<in> fheld s p"
  shows "shelf_block sh m b \<and> (\<forall>q. q \<noteq> p \<longrightarrow> b \<notin> fheld s q) \<and> (\<forall>q. fpcs s q \<noteq> Got b) \<and> free_head (fmem s) \<noteq> b \<and>
    (\<forall>q c. c \<in> fheld s q \<and> c \<noteq> b \<longrightarrow>
       unat b + unat (fba_block_size m) \<le> unat c \<or> unat c + unat (fba_block_size m) \<le> unat b)"
proof -
  from freach_finv [OF assms(1,2)] obtain S where I: "finv sh m S s" by blast
  have P: "params_ok sh m (fmem s)" "never_ok sh (fmem s)" using I by (simp_all add: finv_def mem_ok_def)
  have sb: "shelf_block sh m c" if "c \<in> fheld s q" for c q
    using fblocks_shelf [OF P finv_blocks(2) [OF I, of c q]] that by (simp add: own_def)
  have nz: "b \<noteq> 0" using block_nonzero [OF P(1) finv_blocks(2) [OF I, of b p]] assms(3) by (simp add: own_def)
  have "b \<notin> fheld s q" if "q \<noteq> p" for q using I that assms(3) by (auto simp: finv_def owners_ok_def own_def)
  moreover have "fpcs s q \<noteq> Got b" for q using held_facts(2) [OF I assms(3), of q] nz by auto
  moreover have "free_head (fmem s) \<noteq> b"
    using held_facts(1) [OF I assms(3)] nz fchain_head I by (fastforce simp: finv_def mem_ok_def)
  ultimately show ?thesis using sb assms(3) apart [OF P(1)] by metis
qed

text \<open>An allocator of blocks of 100 bytes, and a process that got a block.\<close>

definition small_shelf :: smart_shelf where "small_shelf = \<lparr>ss_start = 128, mapped_size = 65536\<rparr>"

definition small_mem :: fba_mem where
  "small_mem = zero_fba\<lparr>fixed_section_size := 48, max_shelf_size := 65536, fba_block_size := 128, fba_first_block := 128\<rparr>"

lemma small_new: "freach small_shelf small_mem (fstart small_mem)"
proof (rule freach.new)
  have "round_up 65536 65536 = 65536" "round_up 112 64 = 128" "round_up 100 64 = 128" "round_up 0 64 = 0" "round_up 128 128 = 128"
    by (simp_all add: round_up_def)
  then show "FixedBlockAllocator_new 100 0 65536 zero_fba = Inr (small_shelf, small_mem)"
    by (simp add: FixedBlockAllocator_new_def SmartShelf_new_def cas_word_def zero_fba_def small_shelf_def small_mem_def Let_def
        kVirtualPageSize_def kCacheLineSize_def FBA_METADATA_SIZE_def)
qed simp_all

definition one_block :: fsys where
  "one_block = \<lparr>fmem = small_mem\<lparr>never_allocated := 256\<rparr>, fpcs = (\<lambda>_. Rest), fheld = (\<lambda>_. {})(0 := {128}), fops = 0\<rparr>"

lemma freach_run:
  assumes "freach sh m \<lparr>fmem = k, fpcs = f, fheld = h, fops = n\<rparr>" "fba_step sh (f p) k = (pc', k')" "head_written k k' = 0"
  shows "freach sh m \<lparr>fmem = k', fpcs = f(p := pc'), fheld = h, fops = n\<rparr>"
  using freach.step [OF assms(1) fstep.run [OF refl, where p = p and pc' = pc' and m' = k']] assms(2,3) by simp

lemma one_block_reach: "freach small_shelf small_mem one_block"
proof -
  let ?st = "\<lambda>pc k. \<lparr>fmem = k, fpcs = (\<lambda>_. Rest)(0 := pc), fheld = (\<lambda>_. {}), fops = 0\<rparr>"
  let ?k = "small_mem\<lparr>never_allocated := 256\<rparr>"
  have v: "free_head small_mem = 0" "free_aba small_mem = 0" "never_allocated small_mem = 0" "fba_first_block small_mem = 128"
    "fba_block_size small_mem = 128" "fba_size small_shelf = 65536"
    by (simp_all add: small_mem_def zero_fba_def small_shelf_def fba_size_def)
  have "freach small_shelf small_mem (?st Pop_Read small_mem)"
    using freach.step [OF small_new fstep.start_alloc [of _ 0]] by (simp add: fstart_def fba_alloc_def)
  from freach_run [OF this, of 0 "Pop_Read2 0" small_mem] have "freach small_shelf small_mem (?st (Pop_Read2 0) small_mem)"
    by (simp add: fba_step_def v)
  from freach_run [OF this, of 0 New_Read small_mem] have "freach small_shelf small_mem (?st New_Read small_mem)"
    by (simp add: fba_step_def v pop_loop_def)
  from freach_run [OF this, of 0 "New_Cas 0" small_mem] have "freach small_shelf small_mem (?st (New_Cas 0) small_mem)"
    by (simp add: fba_step_def v)
  from freach_run [OF this, of 0 "Got 128" ?k] have "freach small_shelf small_mem (?st (Got 128) ?k)"
    by (simp add: fba_step_def v Let_def)
  from freach.step [OF this fstep.returned [of _ 0 128]] show ?thesis by (simp add: one_block_def fun_upd_idem)
qed

lemma block_allocator_exclusive_witness:
  "128 \<in> fheld one_block 0 \<and> shelf_block small_shelf small_mem 128 \<and> 128 \<notin> fheld one_block 1"
  using block_allocator_exclusive [OF one_block_reach, of 128 0] by (simp add: one_block_def)

text \<open>\<open>alloc\<close> returns after four accesses when nobody interferes, from every state that the processes can
  reach together. It returns 0 only if every block of the shelf belongs to some process; otherwise it
  returns a block of the shelf that belonged to nobody.\<close>

theorem block_alloc_returns:
  assumes "freach sh m s" "fops s < 2 ^ 64"
  shows "\<exists>b m'. solo sh 4 (fba_alloc, fmem s) = (Got b, m') \<and>
    (b = 0 \<longrightarrow> (\<forall>c. shelf_block sh m c \<longrightarrow> (\<exists>q. c \<in> own s q))) \<and>
    (b \<noteq> 0 \<longrightarrow> shelf_block sh m b \<and> (\<forall>q. b \<notin> own s q))"
proof -
  from freach_finv [OF assms] obtain S where I: "finv sh m S s" by blast
  let ?m = "fmem s"
  have P: "params_ok sh m ?m" "never_ok sh ?m" and ch: "fchain (word_at ?m) (free_head ?m) S" using I by (simp_all add: finv_def mem_ok_def)
  have eq: "fba_first_block ?m = fba_first_block m" "fba_block_size ?m = fba_block_size m" using P(1) by (simp_all add: params_ok_def)
  show ?thesis
  proof (cases "free_head ?m = 0")
    case False
    then have "free_head ?m \<in> set S" using fchain_head [OF ch] by auto
    then have "shelf_block sh m (free_head ?m)" "free_head ?m \<notin> own s q" for q
      using fblocks_shelf [OF P finv_blocks(1) [OF I]] own_not_free [OF I] by blast+
    then show ?thesis using solo_alloc(1) [OF False, of sh] False by (intro exI conjI) auto
  next
    case True
    then have S: "S = []" using ch by (cases S) auto
    have all: "fblocks ?m = (\<Union>q. own s q)" using I S by (simp add: finv_def owners_ok_def)
    define B where "B = (if never_allocated ?m = 0 then fba_first_block ?m else never_allocated ?m)"
    have r: "solo sh 4 (fba_alloc, ?m) = (if B + fba_block_size ?m > mapped_size sh then (Got 0, ?m)
        else (Got B, ?m\<lparr>never_allocated := B + fba_block_size ?m\<rparr>))"
      unfolding solo_alloc(2) [OF True] B_def by (simp add: fba_size_def Let_def)
    show ?thesis
    proof (cases "B + fba_block_size ?m > mapped_size sh")
      case True
      have bb: "unat B < 2 ^ 63" "unat (fba_block_size ?m) < 2 ^ 62" "0 < unat (fba_block_size ?m)"
        using P by (auto simp: B_def never_ok_def params_ok_def word_less_nat_alt)
      then have full: "unat (mapped_size sh) < unat B + unat (fba_block_size ?m)"
        using True by (simp add: word_less_nat_alt unat_word_ariths)
      have "c \<in> fblocks ?m" if c: "shelf_block sh m c" for c
      proof -
        obtain i where i: "unat c = unat (fba_first_block ?m) + i * unat (fba_block_size ?m)" using shelf_block_index [OF P(1) c] by blast
        obtain k where k: "unat B = unat (fba_first_block ?m) + k * unat (fba_block_size ?m)" "never_allocated ?m = 0 \<longrightarrow> k = 0"
          using P(2) that by (cases "never_allocated ?m = 0") (auto simp: B_def never_ok_def)
        have "unat c < unat B" using c full eq by (simp add: shelf_block_def)
        then have ik: "i < k" using i k by (simp add: mult_less_cancel2)
        then have "Suc i * unat (fba_block_size ?m) \<le> k * unat (fba_block_size ?m)" by (intro mult_le_mono1) simp
        then have "unat c + unat (fba_block_size ?m) \<le> unat B" using i k by simp
        moreover have "B = never_allocated ?m" using ik k(2) by (auto simp: B_def)
        ultimately show ?thesis using i by (auto simp: fblocks_def)
      qed
      then show ?thesis using r True all by auto
    next
      case False
      then have le: "B + fba_block_size ?m \<le> mapped_size sh" by simp
      note N = next_block [OF P, folded B_def, OF le]
      have "params_ok sh m (?m\<lparr>never_allocated := B + fba_block_size ?m\<rparr>)" using P(1) by (simp add: params_ok_def)
      from fblocks_shelf [OF this N(3)] have "shelf_block sh m B" using N(1) by simp
      moreover have "B \<notin> own s q" for q using N(2) all by blast
      ultimately show ?thesis using r False N(4) by (intro exI conjI) auto
    qed
  qed
qed

lemma block_alloc_returns_witness:
  "\<exists>b m'. solo small_shelf 4 (fba_alloc, fmem one_block) = (Got b, m') \<and> (b \<noteq> 0 \<longrightarrow> b \<noteq> 128)"
proof -
  have "fops one_block < 2 ^ 64" "128 \<in> own one_block 0" by (simp_all add: one_block_def own_def)
  with block_alloc_returns [OF one_block_reach] show ?thesis by metis
qed

text \<open>Undisturbed, \<open>free\<close> of a block that a process holds takes four accesses, and the next \<open>alloc\<close>
  returns that block again and leaves the stack as it was before.\<close>

theorem block_free_alloc:
  assumes "freach sh m s" "fops s < 2 ^ 64" "b \<in> fheld s p"
  shows "\<exists>m1 m2. solo sh 4 (fba_free b, fmem s) = (Rest, m1) \<and> solo sh 4 (fba_alloc, m1) = (Got b, m2) \<and>
    free_head m2 = free_head (fmem s) \<and> never_allocated m2 = never_allocated (fmem s) \<and>
    (\<forall>c. c \<noteq> b \<longrightarrow> word_at m2 c = word_at (fmem s) c)"
proof -
  from freach_finv [OF assms(1,2)] obtain S where I: "finv sh m S s" by blast
  have "params_ok sh m (fmem s)" using I by (simp add: finv_def)
  from block_nonzero [OF this finv_blocks(2) [OF I, of b p]] have nz: "b \<noteq> 0" using assms(3) by (simp add: own_def)
  let ?m = "(fmem s)\<lparr>word_at := (word_at (fmem s))(b := free_head (fmem s)), free_head := b, free_aba := free_aba (fmem s) + 1\<rparr>"
  have "solo sh 4 (fba_free b, fmem s) = (Rest, ?m)" by (rule solo_free [OF nz])
  moreover have "free_head ?m \<noteq> 0" using nz by simp
  from solo_alloc(1) [OF this] have "solo sh 4 (fba_alloc, ?m) =
      (Got b, ?m\<lparr>free_head := free_head (fmem s), free_aba := free_aba ?m + 1\<rparr>)" by simp
  ultimately show ?thesis by simp
qed

lemma block_free_alloc_witness:
  "\<exists>m1 m2. solo small_shelf 4 (fba_free 128, fmem one_block) = (Rest, m1) \<and> solo small_shelf 4 (fba_alloc, m1) = (Got 128, m2)"
  using block_free_alloc [OF one_block_reach, of 128 0] by (auto simp: one_block_def)

end
