(* ===== verification/Free_Lists.thy ===== *)
theory Free_Lists
  imports Block_Allocator
begin

text \<open>
  The lists of pointers to free that the processes leave for the owner of a shelf,
  \<open>src/shelf_usage/freelists.{h,cc}\<close>: a header, one \<open>Stack\<close> per shelf, and behind them a fixed block
  allocator for the blocks of the stacks. A block holds the link of the stack (\<open>internal_ptr\<close>, the word that
  the allocator uses as well) and the pointer (\<open>free_ptr\<close>). The operations are those of one process at a
  time; the steps of the allocator and of its stacks are proved equal to the sequential functions here.
\<close>

section \<open>The block allocator, undisturbed\<close>

definition FBA_alloc :: "smart_shelf \<Rightarrow> fba_mem \<Rightarrow> u64 \<times> fba_mem" where
  "FBA_alloc sh m =
     (let (st, b) = stack_pop (word_at m) (stack_of m)
      in if b \<noteq> 0 then (b, m\<lparr>free_head := head st, free_aba := aba_counter st\<rparr>)
         else let old = never_allocated m;
                  block = (if old = 0 then fba_first_block m else old);
                  new = block + fba_block_size m
              in if new > fba_size sh then (0, m) else (block, m\<lparr>never_allocated := new\<rparr>))"

definition FBA_free :: "u64 \<Rightarrow> fba_mem \<Rightarrow> fba_mem result" where
  "FBA_free b m =
     (if b = 0 then Inr m
      else rbind (stack_push (word_at m) (stack_of m) b) (\<lambda>(w, st).
             Inr (m\<lparr>word_at := w, free_head := head st, free_aba := aba_counter st\<rparr>)))"

lemma FBA_alloc_solo: "solo sh 4 (fba_alloc, m) = (Got (fst (FBA_alloc sh m)), snd (FBA_alloc sh m))"
proof (cases "free_head m = 0")
  case True
  then show ?thesis by (simp add: solo_alloc FBA_alloc_def stack_pop_def stack_of_def Let_def)
next
  case False
  then show ?thesis by (simp add: solo_alloc FBA_alloc_def stack_pop_def stack_of_def)
qed

lemma FBA_free_solo: "\<exists>m'. FBA_free b m = Inr m' \<and> solo sh 4 (fba_free b, m) = (Rest, m')"
proof (cases "b = 0")
  case True
  then show ?thesis by (simp add: FBA_free_def solo_4 fba_free_def fba_step_def)
next
  case False
  then show ?thesis by (simp add: FBA_free_def solo_free stack_push_def stack_of_def)
qed

section \<open>The object and its memory\<close>

text \<open>
  \<open>flm_fba\<close> is the memory behind the stacks as the allocator sees it; where it begins depends on the number of
  lists, so the record is the view for one number. \<open>flm_ptr\<close> is the word \<open>free_ptr\<close> of the block at an
  offset of it. \<open>word_at\<close> and \<open>flm_ptr\<close> are functions of every offset, so that an access behind the memory the lists were given
  is a plain access here; that the code does make such accesses is the theorem \<open>freelists_overrun\<close>.
\<close>

record fl_mem =
  flm_magic :: u64
  flm_size :: u64
  flm_list_count :: u64
  flm_stacks :: "nat \<Rightarrow> zone_stack"
  flm_fba :: fba_mem
  flm_ptr :: "u64 \<Rightarrow> u64"

record free_lists =
  fl_is_open :: bool
  fl_size :: u64
  fl_list_count :: u64
  fl_fba :: "smart_shelf option"

definition fl_kMagicNum :: u64 where "fl_kMagicNum = 373354787"

definition sizeof_freelists_header :: u64 where "sizeof_freelists_header = 24"

definition sizeof_Stack :: u64 where "sizeof_Stack = 16"

definition sizeof_fba_block :: u64 where "sizeof_fba_block = 16"

definition FreeLists_new :: "u64 \<Rightarrow> free_lists" where
  "FreeLists_new avail_size = \<lparr>fl_is_open = False, fl_size = avail_size, fl_list_count = 0, fl_fba = None\<rparr>"

definition no_stack :: zone_stack where "no_stack = \<lparr>head = 0, aba_counter = 0\<rparr>"

definition clear_stacks :: "nat \<Rightarrow> (nat \<Rightarrow> zone_stack) \<Rightarrow> nat \<Rightarrow> zone_stack" where
  "clear_stacks n st = (\<lambda>i. if i < n then no_stack else st i)"

definition fl_Create :: "u64 \<Rightarrow> free_lists \<Rightarrow> fl_mem \<Rightarrow> (error_code \<times> free_lists \<times> fl_mem) result" where
  "fl_Create list_count fl m =
     (if fl_is_open fl \<or> list_count = 0 then Inl Assert_Failed
      else let cur_size = fl_size fl; header_size = round_up sizeof_freelists_header kCacheLineSize
      in if cur_size < header_size then Inr (FREELISTS_CREATE_FAILED, fl, m)
      else let m = m\<lparr>flm_magic := 0, flm_size := 0, flm_list_count := 0\<rparr>;
               cur_size = cur_size - header_size;
               freelists_size = round_up (list_count * sizeof_Stack) kCacheLineSize
      in if cur_size < freelists_size then Inr (FREELISTS_CREATE_FAILED, fl, m)
      else let m = m\<lparr>flm_stacks := clear_stacks (unat (freelists_size div sizeof_Stack)) (flm_stacks m)\<rparr>;
               cur_size = cur_size - freelists_size
      in if cur_size = 0 then Inr (FREELISTS_CREATE_FAILED, fl, m)
      else rbind (FixedBlockAllocator_new sizeof_fba_block 0 cur_size (flm_fba m)) (\<lambda>(_, fba).
             let m = m\<lparr>flm_fba := fba, flm_list_count := list_count, flm_size := header_size + freelists_size + cur_size,
                       flm_magic := fl_kMagicNum\<rparr>
             in Inr (NO_ERROR, fl\<lparr>fl_size := flm_size m\<rparr>, m)))"

definition fl_Verify :: "fl_mem \<Rightarrow> bool" where
  "fl_Verify m \<longleftrightarrow> flm_magic m = fl_kMagicNum"

text \<open>\<open>Destroy\<close> clears \<open>size\<close> bytes from the address on.\<close>

definition clear_fba :: "nat \<Rightarrow> fba_mem \<Rightarrow> fba_mem" where
  "clear_fba n m = zero_fba\<lparr>word_at := (\<lambda>p. if unat p < n then 0 else word_at m p)\<rparr>"

definition fl_Destroy :: "free_lists \<Rightarrow> fl_mem \<Rightarrow> (error_code \<times> free_lists \<times> fl_mem) result" where
  "fl_Destroy fl m =
     (if fl_is_open fl then Inl Assert_Failed
      else if fl_Verify m then
        let size = flm_size m;
            lists_size = round_up (flm_list_count m * sizeof_Stack) kCacheLineSize;
            n = unat size - 64 - unat lists_size
        in Inr (NO_ERROR, fl\<lparr>fl_size := size\<rparr>,
             m\<lparr>flm_magic := 0, flm_size := 0, flm_list_count := 0,
               flm_stacks := clear_stacks (unat (lists_size div sizeof_Stack)) (flm_stacks m),
               flm_fba := clear_fba n (flm_fba m), flm_ptr := (\<lambda>p. if unat p + 8 < n then 0 else flm_ptr m p)\<rparr>)
      else Inr (FREELISTS_DESTROY_FAILED, fl, m))"

definition fl_Open :: "free_lists \<Rightarrow> fl_mem \<Rightarrow> (error_code \<times> free_lists \<times> fl_mem) result" where
  "fl_Open fl m =
     (if fl_is_open fl then Inl Assert_Failed
      else if \<not> fl_Verify m then Inr (FREELISTS_OPEN_FAILED, fl, m)
      else if flm_size m > fl_size fl then Inr (FREELISTS_OPEN_FAILED, fl, m)
      else let fl = fl\<lparr>fl_size := flm_size m, fl_list_count := flm_list_count m\<rparr>;
               header_size = round_up sizeof_freelists_header kCacheLineSize;
               freelists_size = round_up (fl_list_count fl * sizeof_Stack) kCacheLineSize;
               total_header_size = header_size + freelists_size
           in rbind (FixedBlockAllocator_new sizeof_fba_block 0 (fl_size fl - total_header_size) (flm_fba m)) (\<lambda>(sh, fba).
                Inr (NO_ERROR, fl\<lparr>fl_fba := Some sh, fl_is_open := True\<rparr>, m\<lparr>flm_fba := fba\<rparr>)))"

definition fl_Close :: "free_lists \<Rightarrow> (error_code \<times> free_lists) result" where
  "fl_Close fl = (if \<not> fl_is_open fl then Inl Assert_Failed else Inr (NO_ERROR, fl\<lparr>fl_is_open := False\<rparr>))"

definition FreeLists_delete :: "free_lists \<Rightarrow> free_lists result" where
  "FreeLists_delete fl = (if fl_is_open fl then rbind (fl_Close fl) (\<lambda>(_, fl). Inr fl) else Inr fl)"

section \<open>The pointers\<close>

text \<open>An index from the number of lists on accesses memory behind the stacks.\<close>

definition PutPointer :: "nat \<Rightarrow> u64 \<Rightarrow> free_lists \<Rightarrow> fl_mem \<Rightarrow> (error_code \<times> fl_mem) result" where
  "PutPointer shelf_idx ptr fl m =
     (case fl_fba fl of
        None \<Rightarrow> Inl Assert_Failed
      | Some sh \<Rightarrow>
          if \<not> fl_is_open fl then Inl Assert_Failed
          else let (blk, fba) = FBA_alloc sh (flm_fba m); m = m\<lparr>flm_fba := fba\<rparr>
               in if blk = 0 then Inr (NO_ERROR, m)
                  else if unat (fl_list_count fl) \<le> shelf_idx then Inl Out_Of_Bounds
                  else let m = m\<lparr>flm_ptr := (flm_ptr m)(blk := ptr)\<rparr>
                       in rbind (stack_push (word_at (flm_fba m)) (flm_stacks m shelf_idx) blk) (\<lambda>(w, st).
                            Inr (NO_ERROR, m\<lparr>flm_fba := (flm_fba m)\<lparr>word_at := w\<rparr>, flm_stacks := (flm_stacks m)(shelf_idx := st)\<rparr>)))"

definition GetPointer :: "nat \<Rightarrow> free_lists \<Rightarrow> fl_mem \<Rightarrow> (error_code \<times> u64 option \<times> fl_mem) result" where
  "GetPointer shelf_idx fl m =
     (case fl_fba fl of
        None \<Rightarrow> Inl Assert_Failed
      | Some sh \<Rightarrow>
          if \<not> fl_is_open fl then Inl Assert_Failed
          else if unat (fl_list_count fl) \<le> shelf_idx then Inl Out_Of_Bounds
          else let (st, blk) = stack_pop (word_at (flm_fba m)) (flm_stacks m shelf_idx);
                   m = m\<lparr>flm_stacks := (flm_stacks m)(shelf_idx := st)\<rparr>
               in if blk \<noteq> 0
                  then let ptr = flm_ptr m blk
                       in rbind (FBA_free blk (flm_fba m)) (\<lambda>fba. Inr (NO_ERROR, Some ptr, m\<lparr>flm_fba := fba\<rparr>))
                  else Inr (FREELISTS_EMPTY, None, m))"

end
