(* ===== verification/Free_Lists_Props.thy ===== *)
theory Free_Lists_Props
  imports Free_Lists "HOL-Library.Multiset"
begin

text \<open>The free lists are lists of pointers with a common capacity, and the memory they need.\<close>

section \<open>The blocks\<close>

definition fblk :: "fba_mem \<Rightarrow> nat \<Rightarrow> nat" where
  "fblk m k = unat (fba_first_block m) + k * unat (fba_block_size m)"

definition fcap :: "smart_shelf \<Rightarrow> fba_mem \<Rightarrow> nat" where
  "fcap sh m = (unat (mapped_size sh) - unat (fba_first_block m)) div unat (fba_block_size m)"

text \<open>The lists \<open>B\<close> of the stacks, the list \<open>F\<close> of the allocator and \<open>n\<close>, the number of blocks ever allocated.\<close>

definition fl_shape :: "nat \<Rightarrow> smart_shelf \<Rightarrow> fba_mem \<Rightarrow> (nat \<Rightarrow> nat list) \<Rightarrow> nat list \<Rightarrow> nat \<Rightarrow> fl_mem \<Rightarrow> bool" where
  "fl_shape c sh m0 B F n m \<longleftrightarrow>
     params_ok sh m0 (flm_fba m) \<and>
     (\<forall>i < c. fba_holds (word_at (flm_fba m)) (flm_stacks m i) (B i)) \<and>
     fba_holds (word_at (flm_fba m)) (stack_of (flm_fba m)) F \<and>
     mset F + (\<Sum>i<c. mset (B i)) = mset_set (fblk m0 ` {..<n}) \<and>
     never_allocated (flm_fba m) = (if n = 0 then 0 else of_nat (fblk m0 n)) \<and> n \<le> fcap sh m0"

definition fl_inv :: "nat \<Rightarrow> smart_shelf \<Rightarrow> fba_mem \<Rightarrow> (nat \<Rightarrow> u64 list) \<Rightarrow> fl_mem \<Rightarrow> bool" where
  "fl_inv c sh m0 L m \<longleftrightarrow>
     (\<exists>B F n. fl_shape c sh m0 B F n m \<and> (\<forall>i < c. map (\<lambda>b. flm_ptr m (of_nat b)) (B i) = L i))"

lemma fblk_inj: "params_ok sh m0 m \<Longrightarrow> inj (fblk m0)"
  by (auto simp: inj_def fblk_def params_ok_def word_less_nat_alt)

lemma fblk_block:
  assumes "params_ok sh m0 m" "k \<le> fcap sh m0"
  shows "0 < fblk m0 k" "fblk m0 k \<le> unat (mapped_size sh)" "fblk m0 k < 2 ^ 63" "fba_block (fblk m0 k)"
proof -
  let ?f = "unat (fba_first_block m0)" and ?z = "unat (fba_block_size m0)" and ?s = "unat (mapped_size sh)"
  have P: "0 < ?f" "0 < ?z" "?f \<le> ?s" "?s < 2 ^ 63" using assms(1) by (simp_all add: params_ok_def word_less_nat_alt)
  have "k * ?z \<le> (?s - ?f) div ?z * ?z" using assms(2) by (simp add: fcap_def)
  also have "\<dots> \<le> ?s - ?f" by (simp add: div_times_less_eq_dividend)
  finally have "?f + k * ?z \<le> ?s" using P by linarith
  then show "0 < fblk m0 k" "fblk m0 k \<le> ?s" "fblk m0 k < 2 ^ 63" "fba_block (fblk m0 k)"
    using P by (simp_all add: fblk_def fba_block_def)
qed

lemma fblk_beyond:
  assumes "params_ok sh m0 m"
  shows "unat (mapped_size sh) < fblk m0 (Suc (fcap sh m0))" "fblk m0 (Suc (fcap sh m0)) < 2 ^ 64"
proof -
  let ?f = "unat (fba_first_block m0)" and ?z = "unat (fba_block_size m0)" and ?s = "unat (mapped_size sh)"
  have P: "0 < ?z" "?f \<le> ?s" "?s < 2 ^ 63" "?z < 2 ^ 62" using assms(1) by (simp_all add: params_ok_def word_less_nat_alt)
  have "?s - ?f < Suc ((?s - ?f) div ?z) * ?z" using dividend_less_times_div [OF P(1), of "?s - ?f"] by (simp add: mult.commute)
  then have "?s < ?f + Suc (fcap sh m0) * ?z" using P(2) unfolding fcap_def by linarith
  then show "?s < fblk m0 (Suc (fcap sh m0))" by (simp add: fblk_def)
  have "fcap sh m0 * ?z \<le> ?s - ?f" by (simp add: fcap_def div_times_less_eq_dividend)
  then have "fblk m0 (Suc (fcap sh m0)) \<le> ?s + ?z" using P(2) unfolding fblk_def by simp
  then show "fblk m0 (Suc (fcap sh m0)) < 2 ^ 64" using P by simp
qed

lemma fba_block_unat: "fba_block b \<Longrightarrow> unat (of_nat b :: u64) = b"
  using unat_of_nat_64 [of b] by (simp add: fba_block_def)

section \<open>Where the blocks are\<close>

text \<open>Taking a block from a list and putting one in front, in the sum of the lists.\<close>

lemma sum_mset_upd:
  "i < (c::nat) \<Longrightarrow> (\<Sum>j<c. mset ((B(i := bs)) j)) + mset (B i) = (\<Sum>j<c. mset (B j)) + mset bs"
proof -
  assume i: "i < c"
  have "(\<Sum>j<c. mset ((B(i := bs)) j)) = mset bs + (\<Sum>j \<in> {..<c} - {i}. mset (B j))"
    using i sum.remove [of "{..<c}" i "\<lambda>j. mset ((B(i := bs)) j)"] by simp
  moreover have "(\<Sum>j<c. mset (B j)) = mset (B i) + (\<Sum>j \<in> {..<c} - {i}. mset (B j))"
    using i sum.remove [of "{..<c}" i "\<lambda>j. mset (B j)"] by simp
  ultimately show ?thesis by simp
qed

lemma fl_shape_parts:
  assumes "fl_shape c sh m0 B F n m"
  shows "params_ok sh m0 (flm_fba m)" "\<And>i. i < c \<Longrightarrow> fba_holds (word_at (flm_fba m)) (flm_stacks m i) (B i)"
    "fba_holds (word_at (flm_fba m)) (stack_of (flm_fba m)) F"
    "mset F + (\<Sum>i<c. mset (B i)) = mset_set (fblk m0 ` {..<n})"
    "never_allocated (flm_fba m) = (if n = 0 then 0 else of_nat (fblk m0 n))" "n \<le> fcap sh m0"
  using assms by (simp_all add: fl_shape_def)

lemma in_sum: "i < (c::nat) \<Longrightarrow> b \<in> set (B i) \<Longrightarrow> b \<in># (\<Sum>j<c. mset (B j))"
  by (metis finite_lessThan lessThan_iff mset_subset_eqD set_mset_mset sum.remove mset_subset_eq_add_left)

text \<open>Every block in a list is a block, and no other list has it.\<close>

lemma shape_block:
  assumes "fl_shape c sh m0 B F n m" "b \<in> set F \<or> (\<exists>i < c. b \<in> set (B i))"
  shows "\<exists>k < n. b = fblk m0 k" "fba_block b"
proof -
  have "b \<in># mset F + (\<Sum>i<c. mset (B i))" using assms(2) in_sum by fastforce
  then show "\<exists>k < n. b = fblk m0 k" using fl_shape_parts(4) [OF assms(1)] by auto
  then show "fba_block b" using fblk_block(4) [OF fl_shape_parts(1) [OF assms(1)]] fl_shape_parts(6) [OF assms(1)] by fastforce
qed

lemma mset_once: "count (mset F + (\<Sum>i<c. mset (B i))) b \<le> 1" if "mset F + (\<Sum>i<c. mset (B i)) = mset_set X"
  using that by (simp add: count_mset_set')

lemma shape_apart:
  assumes S: "fl_shape c sh m0 B F n m"
  shows "b \<in> set F \<Longrightarrow> i < c \<Longrightarrow> b \<notin> set (B i)" "F = b # F' \<Longrightarrow> b \<notin> set F'"
    "B i = b # bs \<Longrightarrow> i < c \<Longrightarrow> b \<notin> set bs" "i < c \<Longrightarrow> j < c \<Longrightarrow> i \<noteq> j \<Longrightarrow> b \<in> set (B i) \<Longrightarrow> b \<notin> set (B j)"
proof -
  have one: "count (mset F) b + count (\<Sum>i<c. mset (B i)) b \<le> 1" for b
    using mset_once [OF fl_shape_parts(4) [OF S], of b] by simp
  have pos: "x \<in> set xs \<Longrightarrow> 1 \<le> count (mset xs) x" for x :: nat and xs by (simp add: Suc_leI)
  have sum: "count (mset (B i)) b \<le> count (\<Sum>j<c. mset (B j)) b" if "i < c" for i b
    using that sum.remove [of "{..<c}" i "\<lambda>j. mset (B j)"] by simp
  have sum2: "count (mset (B i)) b + count (mset (B j)) b \<le> count (\<Sum>j<c. mset (B j)) b" if "i < c" "j < c" "i \<noteq> j" for i j b
    using that sum.remove [of "{..<c}" i "\<lambda>j. mset (B j)"] sum.remove [of "{..<c} - {i}" j "\<lambda>j. mset (B j)"] by simp
  show "b \<notin> set (B i)" if "b \<in> set F" "i < c"
  proof
    assume "b \<in> set (B i)"
    from pos [OF this] show False using one [of b] sum [OF that(2), of b] pos [OF that(1)] by linarith
  qed
  show "b \<notin> set F'" if "F = b # F'" using one [of b] pos [of b F'] that by auto
  show "b \<notin> set bs" if "B i = b # bs" "i < c"
  proof
    assume "b \<in> set bs"
    from pos [OF this] have "2 \<le> count (mset (B i)) b" using that(1) by simp
    then show False using one [of b] sum [OF that(2), of b] by linarith
  qed
  show "b \<notin> set (B j)" if "i < c" "j < c" "i \<noteq> j" "b \<in> set (B i)"
  proof
    assume "b \<in> set (B j)"
    from pos [OF this] show False using one [of b] sum2 [OF that(1-3), of b] pos [OF that(4)] by linarith
  qed
qed

section \<open>The operations\<close>

text \<open>The lists as their users see them: \<open>cap\<close> pointers fit; one more is dropped, and \<open>PutPointer\<close> does not say so.\<close>

definition put_list :: "nat \<Rightarrow> nat \<Rightarrow> nat \<Rightarrow> u64 \<Rightarrow> (nat \<Rightarrow> u64 list) \<Rightarrow> nat \<Rightarrow> u64 list" where
  "put_list c cap i p L = (if (\<Sum>j<c. length (L j)) < cap then L(i := p # L i) else L)"

definition get_list :: "nat \<Rightarrow> (nat \<Rightarrow> u64 list) \<Rightarrow> error_code \<times> u64 option \<times> (nat \<Rightarrow> u64 list)" where
  "get_list i L = (case L i of [] \<Rightarrow> (FREELISTS_EMPTY, None, L) | p # ps \<Rightarrow> (NO_ERROR, Some p, L(i := ps)))"

definition fl_open :: "nat \<Rightarrow> smart_shelf \<Rightarrow> free_lists \<Rightarrow> bool" where
  "fl_open c sh fl \<longleftrightarrow> fl_is_open fl \<and> fl_fba fl = Some sh \<and> unat (fl_list_count fl) = c"

lemma shape_size:
  assumes S: "fl_shape c sh m0 B F n m" and L: "\<forall>i < c. map (\<lambda>b. flm_ptr m (of_nat b)) (B i) = L i"
  shows "length F + (\<Sum>i<c. length (L i)) = n"
proof -
  have "size (mset F + (\<Sum>i<c. mset (B i))) = card (fblk m0 ` {..<n})" using fl_shape_parts(4) [OF S] by simp
  moreover have "card (fblk m0 ` {..<n}) = n"
    using card_image [OF inj_on_subset [OF fblk_inj [OF fl_shape_parts(1) [OF S]]], of "{..<n}"] by simp
  moreover have "size (\<Sum>i<c. mset (B i)) = (\<Sum>i<c. length (L i))"
  proof -
    have "size (\<Sum>i<c. mset (B i)) = (\<Sum>i<c. size (mset (B i)))" by (induction c) simp_all
    also have "\<dots> = (\<Sum>i<c. length (L i))" using L by (intro sum.cong) (auto simp flip: L [rule_format])
    finally show ?thesis .
  qed
  ultimately show ?thesis by simp
qed

text \<open>A block that no list has goes to the front of list \<open>i\<close>.\<close>

lemma push_shape:
  assumes P: "params_ok sh m0 (flm_fba m)"
    and H: "\<And>j. j < c \<Longrightarrow> fba_holds (word_at (flm_fba m)) (flm_stacks m j) (B j)" "fba_holds (word_at (flm_fba m)) (stack_of (flm_fba m)) F"
    and b: "fba_block b" "b \<notin> set F" "\<And>j. j < c \<Longrightarrow> b \<notin> set (B j)" "i < c"
    and M: "add_mset b (mset F) + (\<Sum>i<c. mset (B i)) = mset_set (fblk m0 ` {..<n})"
    and nv: "never_allocated (flm_fba m) = (if n = 0 then 0 else of_nat (fblk m0 n))" "n \<le> fcap sh m0"
    and L: "\<forall>i < c. map (\<lambda>b. flm_ptr m (of_nat b)) (B i) = L i"
  shows "\<exists>w st. stack_push (word_at (flm_fba m)) (flm_stacks m i) (of_nat b) = Inr (w, st) \<and>
    fl_inv c sh m0 (L(i := p # L i)) (m\<lparr>flm_ptr := (flm_ptr m)(of_nat b := p), flm_fba := (flm_fba m)\<lparr>word_at := w\<rparr>,
      flm_stacks := (flm_stacks m)(i := st)\<rparr>)"
proof -
  obtain w st where w: "stack_push (word_at (flm_fba m)) (flm_stacks m i) (of_nat b) = Inr (w, st)" "fba_holds w st (b # B i)"
    using fba.push_holds [OF H(1) [OF b(4)] b(1) b(3) [OF b(4)]] by blast
  let ?m = "m\<lparr>flm_ptr := (flm_ptr m)(of_nat b := p), flm_fba := (flm_fba m)\<lparr>word_at := w\<rparr>, flm_stacks := (flm_stacks m)(i := st)\<rparr>"
  let ?B = "B(i := b # B i)"
  have "fba_holds w (flm_stacks ?m j) (?B j)" if "j < c" for j
    using that w(2) fba.push_frame [OF w(1) b(1) H(1) [OF that] b(3) [OF that]] by simp
  moreover have "fba_holds w (stack_of (flm_fba ?m)) F" using fba.push_frame [OF w(1) b(1) H(2) b(2)] by (simp add: stack_of_def)
  moreover have "mset F + (\<Sum>j<c. mset (?B j)) = mset_set (fblk m0 ` {..<n})"
    using sum_mset_upd [OF b(4), of B "b # B i"] M by simp
  moreover have "params_ok sh m0 (flm_fba ?m)" using P by (simp add: params_ok_def)
  ultimately have "fl_shape c sh m0 ?B F n ?m" using nv by (simp add: fl_shape_def)
  moreover have "map (\<lambda>b. flm_ptr ?m (of_nat b)) (?B j) = (L(i := p # L i)) j" if "j < c" for j
  proof -
    have "(of_nat b :: u64) \<notin> of_nat ` set (B j)"
      using b(3) [OF that] H(1) [OF that] fba_fresh [OF b(1) b(3) [OF that]] by (auto simp: fba_holds_def)
    then have "map (\<lambda>x. ((flm_ptr m)(of_nat b := p)) (of_nat x)) (B j) = map (\<lambda>x. flm_ptr m (of_nat x)) (B j)"
      by (intro map_cong refl) (metis fun_upd_other imageI)
    then show ?thesis using L that by (cases "j = i") simp_all
  qed
  ultimately show ?thesis using w(1) unfolding fl_inv_def by blast
qed

text \<open>\<open>PutPointer\<close>: the block comes from the allocator's list, or it is new, or there is none.\<close>

lemma put_in_block:
  assumes o: "fl_open c sh fl" and S: "fl_shape c sh m0 B F n m" and L: "\<forall>i < c. map (\<lambda>b. flm_ptr m (of_nat b)) (B i) = L i"
    and i: "i < c" and al: "FBA_alloc sh (flm_fba m) = (of_nat b, fba)" and pf: "params_ok sh m0 fba" and w: "word_at fba = word_at (flm_fba m)"
    and hf: "fba_holds (word_at (flm_fba m)) (stack_of fba) F'" and b: "fba_block b" "b \<notin> set F'" "\<And>j. j < c \<Longrightarrow> b \<notin> set (B j)"
    and M: "add_mset b (mset F') + (\<Sum>i<c. mset (B i)) = mset_set (fblk m0 ` {..<n'})"
    and nv: "never_allocated fba = (if n' = 0 then 0 else of_nat (fblk m0 n'))" "n' \<le> fcap sh m0"
    and fits: "(\<Sum>j<c. length (L j)) < fcap sh m0"
  shows "\<exists>m'. PutPointer i p fl m = Inr (NO_ERROR, m') \<and> fl_inv c sh m0 (put_list c (fcap sh m0) i p L) m'"
proof -
  note P = fl_shape_parts [OF S]
  have F: "fl_fba fl = Some sh" "fl_is_open fl" "unat (fl_list_count fl) = c" using o by (simp_all add: fl_open_def)
  let ?m = "m\<lparr>flm_fba := fba\<rparr>"
  have "\<exists>w st. stack_push (word_at (flm_fba ?m)) (flm_stacks ?m i) (of_nat b) = Inr (w, st) \<and>
    fl_inv c sh m0 (L(i := p # L i)) (?m\<lparr>flm_ptr := (flm_ptr ?m)(of_nat b := p), flm_fba := (flm_fba ?m)\<lparr>word_at := w\<rparr>,
      flm_stacks := (flm_stacks ?m)(i := st)\<rparr>)"
    by (rule push_shape [where F = F' and B = B and n = n']) (use pf w hf b M nv L i P(2) in simp_all)
  then show ?thesis using al F i b(1) fba_block_word [OF b(1)] fits by (auto simp: PutPointer_def put_list_def Let_def)
qed

text \<open>With no block on the free list the allocator takes the next one never used, while there is one.\<close>

lemma fresh_block:
  assumes P: "params_ok sh m0 fba" "n \<le> fcap sh m0" "never_allocated fba = (if n = 0 then 0 else of_nat (fblk m0 n))"
    and pop: "stack_pop (word_at fba) (stack_of fba) = (stack_of fba, 0)"
  shows "n = fcap sh m0 \<Longrightarrow> FBA_alloc sh fba = (0, fba)"
    "n < fcap sh m0 \<Longrightarrow> FBA_alloc sh fba = (of_nat (fblk m0 n), fba\<lparr>never_allocated := of_nat (fblk m0 (Suc n))\<rparr>)"
proof -
  let ?old = "never_allocated fba"
  let ?b = "if ?old = 0 then fba_first_block fba else ?old"
  have bz: "fba_first_block fba = fba_first_block m0" "fba_block_size fba = fba_block_size m0"
    using P(1) by (simp_all add: params_ok_def)
  note blk = fblk_block [OF P(1,2)]
  have b: "?b = of_nat (fblk m0 n)" using P(3) bz fba_block_word [OF blk(4)] by (simp add: fblk_def)
  then have ub: "unat ?b = fblk m0 n" using fba_block_unat [OF blk(4)] by simp
  have sum: "unat ?b + unat (fba_block_size m0) = fblk m0 (Suc n)" unfolding ub by (simp add: fblk_def)
  have z: "unat (fba_block_size m0) < 2 ^ 62" using P(1) by (simp add: params_ok_def)
  then have "unat (?b + fba_block_size fba) = fblk m0 (Suc n)" using sum ub blk(3) bz(2) by (simp add: unat_word_ariths)
  then have new: "?b + fba_block_size fba > fba_size sh \<longleftrightarrow> unat (mapped_size sh) < fblk m0 (Suc n)"
    by (simp add: word_less_nat_alt fba_size_def)
  show "FBA_alloc sh fba = (0, fba)" if "n = fcap sh m0"
    using that pop new fblk_beyond(1) [OF P(1)] by (simp add: FBA_alloc_def Let_def)
  assume "n < fcap sh m0"
  then have "\<not> ?b + fba_block_size fba > fba_size sh" using new fblk_block(2) [OF P(1), of "Suc n"] by simp
  moreover have "?b + fba_block_size fba = of_nat (fblk m0 (Suc n))" using b bz(2) by (simp add: fblk_def algebra_simps)
  ultimately show "FBA_alloc sh fba = (of_nat (fblk m0 n), fba\<lparr>never_allocated := of_nat (fblk m0 (Suc n))\<rparr>)"
    using pop b by (simp add: FBA_alloc_def Let_def)
qed

lemma put_spec:
  assumes o: "fl_open c sh fl" and I: "fl_inv c sh m0 L m" and i: "i < c"
  shows "\<exists>m'. PutPointer i p fl m = Inr (NO_ERROR, m') \<and> fl_inv c sh m0 (put_list c (fcap sh m0) i p L) m'"
proof -
  from I obtain B F n where S: "fl_shape c sh m0 B F n m" and L: "\<forall>i < c. map (\<lambda>b. flm_ptr m (of_nat b)) (B i) = L i"
    unfolding fl_inv_def by blast
  note P = fl_shape_parts [OF S]
  note sz = shape_size [OF S L]
  have F: "fl_fba fl = Some sh" "fl_is_open fl" "unat (fl_list_count fl) = c" using o by (simp_all add: fl_open_def)
  note put = put_in_block [OF o S L i]
  show ?thesis
  proof (cases F)
    case (Cons b F')
    from P(3) Cons obtain st where st: "stack_pop (word_at (flm_fba m)) (stack_of (flm_fba m)) = (st, of_nat b)"
      "fba_holds (word_at (flm_fba m)) st F'" using fba.pop_holds by blast
    let ?fba = "(flm_fba m)\<lparr>free_head := head st, free_aba := aba_counter st\<rparr>"
    have b: "fba_block b" using shape_block(2) [OF S, of b] Cons by simp
    have "FBA_alloc sh (flm_fba m) = (of_nat b, ?fba)" using st(1) fba_block_word [OF b] by (simp add: FBA_alloc_def)
    moreover have "stack_of ?fba = st" by (simp add: stack_of_def)
    moreover have "n \<le> fcap sh m0" "length F = Suc (length F')" using P(6) Cons by simp_all
    ultimately show ?thesis using put [of b ?fba F' n] P(1,4,5,6) st(2) b shape_apart(1,2) [OF S, of b] Cons sz
      by (simp add: params_ok_def)
  next
    case Nil
    then have pop: "stack_pop (word_at (flm_fba m)) (stack_of (flm_fba m)) = (stack_of (flm_fba m), 0)" using P(3) fba.pop_empty by blast
    note fresh = fresh_block [OF P(1,6,5) pop] and blk = fblk_block [OF P(1) P(6)]
    show ?thesis
    proof (cases "n = fcap sh m0")
      case True
      from fresh(1) [OF True] show ?thesis using F I sz Nil True by (simp add: PutPointer_def put_list_def)
    next
      case False
      then have n: "Suc n \<le> fcap sh m0" using P(6) by simp
      let ?fba = "(flm_fba m)\<lparr>never_allocated := of_nat (fblk m0 (Suc n))\<rparr>"
      have "FBA_alloc sh (flm_fba m) = (of_nat (fblk m0 n), ?fba)" using fresh(2) n by simp
      moreover have nb: "fblk m0 n \<notin> set (B j)" if "j < c" for j
      proof
        assume "fblk m0 n \<in> set (B j)"
        with that have "\<exists>i < c. fblk m0 n \<in> set (B i)" by blast
        from shape_block(1) [OF S disjI2 [OF this]] obtain k where "k < n" "fblk m0 n = fblk m0 k" by blast
        then show False using injD [OF fblk_inj [OF P(1)], of n k] by simp
      qed
      moreover have "add_mset (fblk m0 n) {#} + (\<Sum>i<c. mset (B i)) = mset_set (fblk m0 ` {..<Suc n})"
        using P(4) Nil inj_image_mem_iff [OF fblk_inj [OF P(1)], of n "{..<n}"] by (simp add: lessThan_Suc)
      moreover have "params_ok sh m0 ?fba" using P(1) by (simp add: params_ok_def)
      ultimately show ?thesis using put [of "fblk m0 n" ?fba "[]" "Suc n"] P(3) Nil blk(4) n sz by (simp add: stack_of_def)
    qed
  qed
qed

lemma get_spec:
  assumes o: "fl_open c sh fl" and I: "fl_inv c sh m0 L m" and i: "i < c"
  shows "\<exists>m'. GetPointer i fl m = Inr (fst (get_list i L), fst (snd (get_list i L)), m') \<and> fl_inv c sh m0 (snd (snd (get_list i L))) m'"
proof -
  from I obtain B F n where S: "fl_shape c sh m0 B F n m" and L: "\<forall>i < c. map (\<lambda>b. flm_ptr m (of_nat b)) (B i) = L i"
    unfolding fl_inv_def by blast
  note P = fl_shape_parts [OF S]
  have F: "fl_fba fl = Some sh" "fl_is_open fl" "unat (fl_list_count fl) = c" using o by (simp_all add: fl_open_def)
  show ?thesis
  proof (cases "B i")
    case Nil
    then have "stack_pop (word_at (flm_fba m)) (flm_stacks m i) = (flm_stacks m i, 0)" using P(2) [OF i] fba.pop_empty by simp
    moreover have "L i = []" using L i Nil by force
    ultimately show ?thesis using F i I by (simp add: GetPointer_def get_list_def)
  next
    case (Cons b bs)
    have b: "fba_block b" using shape_block(2) [OF S, of b] Cons i by fastforce
    have "b \<notin> set bs" "b \<notin> set F" using shape_apart(3) [where i = i, OF S Cons i] shape_apart(1) [OF S, of b i] Cons i by auto
    from fba.move_top [OF _ P(3) b this] P(2) [OF i] Cons obtain st w st' where
      m: "stack_pop (word_at (flm_fba m)) (flm_stacks m i) = (st, of_nat b)"
      "stack_push (word_at (flm_fba m)) (stack_of (flm_fba m)) (of_nat b) = Inr (w, st')"
      "fba_holds w st bs" "fba_holds w st' (b # F)" by metis
    let ?fba = "(flm_fba m)\<lparr>word_at := w, free_head := head st', free_aba := aba_counter st'\<rparr>"
    let ?m = "m\<lparr>flm_stacks := (flm_stacks m)(i := st), flm_fba := ?fba\<rparr>"
    have L': "L i = flm_ptr m (of_nat b) # map (\<lambda>b. flm_ptr m (of_nat b)) bs" using L i Cons by force
    have "GetPointer i fl m = Inr (NO_ERROR, Some (flm_ptr m (of_nat b)), ?m)"
      using F i m(1,2) fba_block_word [OF b] by (simp add: GetPointer_def FBA_free_def)
    moreover have "fl_shape c sh m0 (B(i := bs)) (b # F) n ?m"
    proof -
      have "fba_holds w (((flm_stacks m)(i := st)) j) ((B(i := bs)) j)" if "j < c" for j
      proof (cases "j = i")
        case False
        then have "b \<notin> set (B j)" using shape_apart(4) [OF S i that, of b] Cons by simp
        then show ?thesis using False fba.push_frame [OF m(2) b P(2) [OF that]] by simp
      qed (use m(3) in simp)
      moreover have "mset (b # F) + (\<Sum>j<c. mset ((B(i := bs)) j)) = mset_set (fblk m0 ` {..<n})"
      proof -
        have e: "add_mset b (\<Sum>j<c. mset ((B(i := bs)) j)) = (\<Sum>j<c. mset (B j))" using sum_mset_upd [OF i, of B bs] Cons by simp
        have "mset (b # F) + (\<Sum>j<c. mset ((B(i := bs)) j)) = mset F + add_mset b (\<Sum>j<c. mset ((B(i := bs)) j))" by simp
        then show ?thesis by (simp only: e P(4))
      qed
      moreover have "stack_of ?fba = st'" by (simp add: stack_of_def)
      ultimately show ?thesis using P m(4) by (simp add: fl_shape_def params_ok_def)
    qed
    moreover have "map (\<lambda>b. flm_ptr ?m (of_nat b)) ((B(i := bs)) j) = (L(i := tl (L i))) j" if "j < c" for j
      using L that L' by simp
    ultimately show ?thesis using L' unfolding fl_inv_def by (fastforce simp: get_list_def)
  qed
qed

section \<open>Sequences of calls\<close>

datatype fl_call = Put nat u64 | Get nat

fun fl_calls :: "fl_call list \<Rightarrow> free_lists \<Rightarrow> fl_mem \<Rightarrow> ((error_code \<times> u64 option) list \<times> fl_mem) result" where
  "fl_calls [] fl m = Inr ([], m)"
| "fl_calls (Put i p # cs) fl m =
     rbind (PutPointer i p fl m) (\<lambda>(ret, m). rbind (fl_calls cs fl m) (\<lambda>(rs, m). Inr ((ret, None) # rs, m)))"
| "fl_calls (Get i # cs) fl m =
     rbind (GetPointer i fl m) (\<lambda>(ret, p, m). rbind (fl_calls cs fl m) (\<lambda>(rs, m). Inr ((ret, p) # rs, m)))"

fun list_calls :: "nat \<Rightarrow> nat \<Rightarrow> fl_call list \<Rightarrow> (nat \<Rightarrow> u64 list) \<Rightarrow> (error_code \<times> u64 option) list \<times> (nat \<Rightarrow> u64 list)" where
  "list_calls c cap [] L = ([], L)"
| "list_calls c cap (Put i p # cs) L = (let (rs, L) = list_calls c cap cs (put_list c cap i p L) in ((NO_ERROR, None) # rs, L))"
| "list_calls c cap (Get i # cs) L =
     (let (ret, p, L) = get_list i L; (rs, L) = list_calls c cap cs L in ((ret, p) # rs, L))"

fun call_index :: "fl_call \<Rightarrow> nat" where
  "call_index (Put i p) = i"
| "call_index (Get i) = i"

lemma calls_spec:
  assumes "fl_open c sh fl" "fl_inv c sh m0 L m" "\<forall>call \<in> set cs. call_index call < c"
  shows "\<exists>m'. fl_calls cs fl m = Inr (fst (list_calls c (fcap sh m0) cs L), m') \<and> fl_inv c sh m0 (snd (list_calls c (fcap sh m0) cs L)) m'"
  using assms(2,3)
proof (induction cs arbitrary: L m)
  case (Cons call cs)
  show ?case
  proof (cases call)
    case (Put i p)
    obtain m1 where m1: "PutPointer i p fl m = Inr (NO_ERROR, m1)" "fl_inv c sh m0 (put_list c (fcap sh m0) i p L) m1"
      using put_spec [OF assms(1) Cons.prems(1), of i p] Cons.prems(2) Put by auto
    from Cons.IH [OF m1(2)] Cons.prems(2) obtain m2 where
      "fl_calls cs fl m1 = Inr (fst (list_calls c (fcap sh m0) cs (put_list c (fcap sh m0) i p L)), m2)"
      "fl_inv c sh m0 (snd (list_calls c (fcap sh m0) cs (put_list c (fcap sh m0) i p L))) m2" by auto
    then show ?thesis using Put m1(1) by (simp add: split_beta Let_def)
  next
    case (Get i)
    obtain m1 where m1: "GetPointer i fl m = Inr (fst (get_list i L), fst (snd (get_list i L)), m1)"
      "fl_inv c sh m0 (snd (snd (get_list i L))) m1"
      using get_spec [OF assms(1) Cons.prems(1), of i] Cons.prems(2) Get by auto
    from Cons.IH [OF m1(2)] Cons.prems(2) obtain m2 where
      "fl_calls cs fl m1 = Inr (fst (list_calls c (fcap sh m0) cs (snd (snd (get_list i L)))), m2)"
      "fl_inv c sh m0 (snd (list_calls c (fcap sh m0) cs (snd (snd (get_list i L))))) m2" by auto
    then show ?thesis using Get m1(1) by (simp add: split_beta Let_def)
  qed
qed simp

section \<open>New lists\<close>

text \<open>The memory \<open>Create\<close> leaves for the blocks, and the blocks the allocator takes from it.\<close>

definition fba_space :: "u64 \<Rightarrow> u64 \<Rightarrow> u64" where
  "fba_space avail_size list_count = avail_size - 64 - round_up (list_count * 16) 64"

definition list_capacity :: "u64 \<Rightarrow> u64 \<Rightarrow> nat" where
  "list_capacity avail_size list_count = (unat (round_up (fba_space avail_size list_count) 65536) - 128) div 64"

lemma SmartShelf_again:
  assumes "SmartShelf_new fixed mx m = Inr (sh, m')"
  shows "m' = m\<lparr>fixed_section_size := fixed, max_shelf_size := round_up mx kVirtualPageSize\<rparr>"
    "SmartShelf_new fixed mx (m\<lparr>fixed_section_size := fixed, max_shelf_size := round_up mx kVirtualPageSize, fba_block_size := z,
       fba_first_block := f\<rparr>) =
     Inr (sh, m\<lparr>fixed_section_size := fixed, max_shelf_size := round_up mx kVirtualPageSize, fba_block_size := z, fba_first_block := f\<rparr>)"
proof -
  define M where "M = round_up mx kVirtualPageSize"
  show "m' = m\<lparr>fixed_section_size := fixed, max_shelf_size := round_up mx kVirtualPageSize\<rparr>"
    using assms unfolding SmartShelf_new_def Let_def cas_word_def M_def [symmetric] by (auto split: if_splits)
  show "SmartShelf_new fixed mx (m\<lparr>fixed_section_size := fixed, max_shelf_size := round_up mx kVirtualPageSize, fba_block_size := z,
      fba_first_block := f\<rparr>) =
    Inr (sh, m\<lparr>fixed_section_size := fixed, max_shelf_size := round_up mx kVirtualPageSize, fba_block_size := z, fba_first_block := f\<rparr>)"
    using assms unfolding SmartShelf_new_def Let_def cas_word_def M_def [symmetric] by (auto split: if_splits)
qed

lemma FixedBlockAllocator_again:
  assumes "FixedBlockAllocator_new bs us mx m = Inr (sh, m')"
  shows "FixedBlockAllocator_new bs us mx m' = Inr (sh, m')"
proof -
  from assms obtain m1 where m1: "SmartShelf_new FBA_METADATA_SIZE mx m = Inr (sh, m1)"
    by (auto simp: FixedBlockAllocator_new_def Let_def cas_word_def split: if_splits)
  define z where "z = round_up (if bs = 0 then 1 else bs) kCacheLineSize"
  define f where "f = round_up (ss_start sh + round_up us kCacheLineSize) z"
  note A = SmartShelf_again [OF m1]
  have "m' = m1\<lparr>fba_block_size := z, fba_first_block := f\<rparr>" "\<not> f > mx"
    using assms unfolding FixedBlockAllocator_new_def m1 rbind_simps Let_def prod.case z_def [symmetric] f_def [symmetric] cas_word_def
    by (auto split: if_splits)
  then show ?thesis
    unfolding FixedBlockAllocator_new_def Let_def prod.case z_def [symmetric] A(1) using A(2) [where z = z and f = f]
    by (simp add: cas_word_def f_def [symmetric])
qed

lemma fba_16:
  assumes "FixedBlockAllocator_new 16 0 mx zero_fba = Inr (sh, m)"
  shows "mapped_size sh = round_up mx 65536" "fba_first_block m = 128" "fba_block_size m = 64" "128 \<le> mx"
proof -
  have "round_up 16 64 = 64" "round_up 0 64 = 0" "round_up 128 64 = 128" by (simp_all add: round_up_def)
  then show "mapped_size sh = round_up mx 65536" "fba_first_block m = 128" "fba_block_size m = 64" "128 \<le> mx"
    using FixedBlockAllocator_fields [OF assms] by (simp_all add: kCacheLineSize_def kVirtualPageSize_def)
qed

lemma created:
  assumes c: "fl_Create n (FreeLists_new sz) m0 = Inr (NO_ERROR, fl1, m1)" and z: "flm_fba m0 = zero_fba" "unat sz < 2 ^ 62" "unat n < 2 ^ 32"
    and o: "fl_Open fl1 m1 = Inr (NO_ERROR, fl, m)"
  shows "\<exists>sh. fl_open (unat n) sh fl \<and> fl_inv (unat n) sh (flm_fba m) (\<lambda>_. []) m \<and> fcap sh (flm_fba m) = list_capacity sz n \<and>
    params_ok sh (flm_fba m) (flm_fba m) \<and> mapped_size sh = round_up (fba_space sz n) 65536 \<and> unat (fba_space sz n) < 2 ^ 62 \<and>
    fba_first_block (flm_fba m) = 128 \<and> fba_block_size (flm_fba m) = 64 \<and> 128 \<le> fba_space sz n"
proof -
  let ?h = "round_up 24 64 :: u64" and ?l = "round_up (n * 16) 64"
  have h: "?h = 64" by (simp add: round_up_def)
  have fs: "sz - 64 - ?l = fba_space sz n" by (simp add: fba_space_def)
  have total: "64 + ?l + fba_space sz n = sz" by (simp add: fba_space_def)
  from c z(1) obtain sh fba where new: "FixedBlockAllocator_new 16 0 (fba_space sz n) zero_fba = Inr (sh, fba)"
    and m1: "m1 = m0\<lparr>flm_stacks := clear_stacks (unat (?l div 16)) (flm_stacks m0), flm_fba := fba, flm_list_count := n,
      flm_size := sz, flm_magic := fl_kMagicNum\<rparr>"
    and fl1: "fl1 = FreeLists_new sz" and le: "64 \<le> sz" "?l \<le> sz - 64"
    by (auto simp: fl_Create_def FreeLists_new_def Let_def sizeof_freelists_header_def sizeof_Stack_def sizeof_fba_block_def
        kCacheLineSize_def fs h total not_less split: if_splits elim!: rbindE)
  have "sz - (64 + ?l) = fba_space sz n" by (simp add: fba_space_def)
  with o h m1 fl1 FixedBlockAllocator_again [OF new]
  have fl: "fl = fl1\<lparr>fl_list_count := n, fl_fba := Some sh, fl_is_open := True\<rparr>" and m: "m = m1"
    by (auto simp: fl_Open_def fl_Verify_def Let_def sizeof_freelists_header_def sizeof_Stack_def sizeof_fba_block_def
        kCacheLineSize_def FreeLists_new_def split: if_splits)
  have fba: "flm_fba m = fba" using m m1 by simp
  have sp: "unat (fba_space sz n) < 2 ^ 62"
  proof -
    have "fba_space sz n \<le> sz - 64" using le(2) by (simp add: fba_space_def word_sub_le)
    also have "\<dots> \<le> sz" using le(1) by (simp add: word_sub_le)
    finally show ?thesis using z(2) by (simp add: word_le_nat_alt)
  qed
  note P = FixedBlockAllocator_params [OF new sp]
  have l: "n \<le> ?l div 16"
  proof -
    have "unat (n * 16) = unat n * 16" using z(3) by (simp add: unat_word_ariths)
    moreover have "unat (n * 16) \<le> unat ?l" using z(3) calculation by (intro round_up_facts(1)) simp_all
    ultimately have "unat n \<le> unat ?l div 16" by simp
    then show ?thesis by (simp add: word_le_nat_alt unat_div)
  qed
  have "fl_shape (unat n) sh fba (\<lambda>_. []) [] 0 m"
    using P m m1 l by (auto simp: fl_shape_def fba_holds_def stack_of_def clear_stacks_def no_stack_def word_le_nat_alt)
  then have "fl_inv (unat n) sh fba (\<lambda>_. []) m" by (auto simp: fl_inv_def)
  moreover have "fl_open (unat n) sh fl" using fl by (simp add: fl_open_def)
  moreover have "fcap sh fba = list_capacity sz n" using fba_16 [OF new] by (simp add: fcap_def list_capacity_def)
  ultimately show ?thesis using P(1) fba_16 [OF new] sp fba by auto
qed

section \<open>The properties\<close>

text \<open>C22: Lists that were created on zeros and opened answer every sequence of \<open>PutPointer\<close> and \<open>GetPointer\<close>
  calls as a table of stacks of pointers does: each list returns its pointers, the last one put first, and
  \<open>FREELISTS_EMPTY\<close> when it has none. The lists share \<open>list_capacity\<close> blocks; a pointer put when all are in use
  is dropped, and \<open>PutPointer\<close> answers \<open>NO_ERROR\<close> all the same.\<close>

theorem freelists_refine:
  assumes "fl_Create n (FreeLists_new sz) m0 = Inr (NO_ERROR, fl1, m1)" "flm_fba m0 = zero_fba" "unat sz < 2 ^ 62" "unat n < 2 ^ 32"
    and "fl_Open fl1 m1 = Inr (NO_ERROR, fl, m)" "\<forall>call \<in> set cs. call_index call < unat n"
  shows "\<exists>m'. fl_calls cs fl m = Inr (fst (list_calls (unat n) (list_capacity sz n) cs (\<lambda>_. [])), m')"
proof -
  obtain sh where o: "fl_open (unat n) sh fl" "fl_inv (unat n) sh (flm_fba m) (\<lambda>_. []) m" and c: "fcap sh (flm_fba m) = list_capacity sz n"
    using created [OF assms(1-5)] by blast
  from calls_spec [OF o assms(6)] show ?thesis unfolding c by blast
qed

text \<open>Two lists in 1024 bytes. The allocator takes its memory to be 64 KB.\<close>

definition two_lists :: "free_lists \<times> fl_mem" where
  "two_lists =
     (let m = \<lparr>flm_magic = 5, flm_size = 6, flm_list_count = 7, flm_stacks = (\<lambda>_. \<lparr>head = 8, aba_counter = 9\<rparr>), flm_fba = zero_fba, flm_ptr = (\<lambda>_. 0)\<rparr>
      in case fl_Create 2 (FreeLists_new 1024) m of
           Inr (_, fl1, m1) \<Rightarrow> (case fl_Open fl1 m1 of Inr (_, fl, m2) \<Rightarrow> (fl, m2)))"

lemma two_lists_open:
  "\<exists>m0 fl1 m1. fl_Create 2 (FreeLists_new 1024) m0 = Inr (NO_ERROR, fl1, m1) \<and> flm_fba m0 = zero_fba \<and>
     fl_Open fl1 m1 = Inr (NO_ERROR, fst two_lists, snd two_lists)"
proof -
  let ?m = "\<lparr>flm_magic = 5, flm_size = 6, flm_list_count = 7, flm_stacks = (\<lambda>_. \<lparr>head = 8, aba_counter = 9\<rparr>), flm_fba = zero_fba, flm_ptr = (\<lambda>_. 0)\<rparr>"
  have r: "round_up 24 64 = (64 :: u64)" "round_up 32 64 = (64 :: u64)" "round_up 896 65536 = (65536 :: u64)" "round_up 112 64 = (128 :: u64)"
    "round_up 16 64 = (64 :: u64)" "round_up 0 64 = (0 :: u64)" "round_up 128 64 = (128 :: u64)"
    by (simp_all add: round_up_def)
  obtain sh fba where new: "FixedBlockAllocator_new 16 0 896 zero_fba = Inr (sh, fba)"
    by (simp add: FixedBlockAllocator_new_def SmartShelf_new_def cas_word_def zero_fba_def Let_def kVirtualPageSize_def kCacheLineSize_def
        FBA_METADATA_SIZE_def r)
  then obtain fl1 m1 where c: "fl_Create 2 (FreeLists_new 1024) ?m = Inr (NO_ERROR, fl1, m1)"
    by (simp add: fl_Create_def FreeLists_new_def Let_def sizeof_freelists_header_def sizeof_Stack_def sizeof_fba_block_def
        kCacheLineSize_def r)
  moreover from c new FixedBlockAllocator_again [OF new] obtain fl m where o: "fl_Open fl1 m1 = Inr (NO_ERROR, fl, m)"
    by (auto simp: fl_Create_def fl_Open_def fl_Verify_def FreeLists_new_def Let_def sizeof_freelists_header_def sizeof_Stack_def
        sizeof_fba_block_def kCacheLineSize_def r)
  moreover have "two_lists = (fl, m)" using c o by (simp add: two_lists_def Let_def)
  ultimately show ?thesis by (intro exI [of _ ?m]) auto
qed

lemma sum_2: "(\<Sum>j<2. f j) = f 0 + (f (Suc 0) :: nat)"
  by (simp add: numeral_2_eq_2 lessThan_Suc)

lemma two_lists_capacity: "list_capacity 1024 2 = 1022"
proof -
  have "round_up 32 64 = (64 :: u64)" "round_up 896 65536 = (65536 :: u64)" by (simp_all add: round_up_def)
  then show ?thesis by (simp add: list_capacity_def fba_space_def)
qed

lemma freelists_refine_witness:
  "\<exists>m'. fl_calls [Put 0 10, Put 1 20, Put 0 30, Get 0, Get 0, Get 0, Get 1] (fst two_lists) (snd two_lists) =
     Inr ([(NO_ERROR, None), (NO_ERROR, None), (NO_ERROR, None), (NO_ERROR, Some 30), (NO_ERROR, Some 10), (FREELISTS_EMPTY, None),
       (NO_ERROR, Some 20)], m')"
proof -
  from two_lists_open obtain m0 fl1 m1 where
    h: "fl_Create 2 (FreeLists_new 1024) m0 = Inr (NO_ERROR, fl1, m1)" "flm_fba m0 = zero_fba"
    "fl_Open fl1 m1 = Inr (NO_ERROR, fst two_lists, snd two_lists)" by blast
  show ?thesis
    using freelists_refine [OF h(1,2) _ _ h(3), of "[Put 0 10, Put 1 20, Put 0 30, Get 0, Get 0, Get 0, Get 1]"]
    by (simp add: two_lists_capacity put_list_def get_list_def sum_2)
qed

text \<open>Putting pointers on one list as long as there are blocks.\<close>

lemma sum_first: "0 < (n::nat) \<Longrightarrow> (\<Sum>j<n. length ((L(0 := xs)) j)) + length (L 0) = (\<Sum>j<n. length (L j)) + length xs"
  using sum.remove [of "{..<n}" 0 "\<lambda>j. length ((L(0 := xs)) j)"] sum.remove [of "{..<n}" 0 "\<lambda>j. length (L j)"] by simp

lemma puts_list:
  "0 < c \<Longrightarrow> (\<Sum>j<c. length (L j)) + k \<le> cap \<Longrightarrow>
     list_calls c cap (replicate k (Put 0 p)) L = (replicate k (NO_ERROR, None), L(0 := replicate k p @ L 0))"
proof (induction k arbitrary: L)
  case (Suc k)
  let ?L = "L(0 := p # L 0)"
  have "(\<Sum>j<c. length (?L j)) + k \<le> cap" using sum_first [OF Suc.prems(1), of L "p # L 0"] Suc.prems(2) by simp
  from Suc.IH [OF Suc.prems(1) this]
  have "list_calls c cap (replicate k (Put 0 p)) ?L = (replicate k (NO_ERROR, None), L(0 := replicate k p @ p # L 0))"
    by (simp only: fun_upd_upd fun_upd_same)
  moreover have "put_list c cap 0 p L = ?L" using Suc.prems(2) by (simp add: put_list_def)
  ultimately show ?case by (simp add: replicate_app_Cons_same del: fun_upd_apply)
qed simp

lemma rounded_beyond:
  assumes "unat (c :: u64) < 2 ^ 62" "unat c mod 65536 \<noteq> 0"
  shows "unat c < 128 + (unat (round_up c 65536) - 128) div 64 * 64"
proof -
  let ?s = "unat (round_up c 65536)"
  have r: "unat c \<le> ?s" "65536 dvd ?s" using round_up_facts [of 65536 c] assms(1) by simp_all
  then have lt: "unat c < ?s" using assms(2) by (metis dvd_eq_mod_eq_0 le_neq_implies_less)
  then have "65536 \<le> ?s" using r(2) by (intro dvd_imp_le) simp_all
  moreover have "64 dvd ?s - 128" using r(2) by (intro dvd_diff_nat) (auto intro: dvd_trans [of 64 65536])
  ultimately show ?thesis using lt by simp
qed

text \<open>C37: Unless the memory left for the blocks is a multiple of 64 KB, the lists use memory behind their own: the
  allocator rounds the size it is given up, so that putting as many pointers as it has blocks, none of which is
  refused, makes it hand out blocks that end behind the \<open>sz\<close> bytes the lists were created in.\<close>

theorem freelists_overrun:
  assumes "fl_Create n (FreeLists_new sz) m0 = Inr (NO_ERROR, fl1, m1)" "flm_fba m0 = zero_fba" "unat sz < 2 ^ 62" "unat n < 2 ^ 32"
    and "fl_Open fl1 m1 = Inr (NO_ERROR, fl, m)" "unat (fba_space sz n) mod 65536 \<noteq> 0"
  shows "\<exists>m'. fl_calls (replicate (list_capacity sz n) (Put 0 p)) fl m = Inr (replicate (list_capacity sz n) (NO_ERROR, None), m') \<and>
    unat (fba_space sz n) < unat (never_allocated (flm_fba m'))"
proof -
  let ?c = "list_capacity sz n"
  obtain sh where o: "fl_open (unat n) sh fl" "fl_inv (unat n) sh (flm_fba m) (\<lambda>_. []) m" and c: "fcap sh (flm_fba m) = ?c"
    and P: "params_ok sh (flm_fba m) (flm_fba m)" and ms: "mapped_size sh = round_up (fba_space sz n) 65536" "unat (fba_space sz n) < 2 ^ 62"
    and fb: "fba_first_block (flm_fba m) = 128" "fba_block_size (flm_fba m) = 64" "128 \<le> fba_space sz n"
    using created [OF assms(1-5)] by blast
  have n0: "0 < unat n" using assms(1) by (auto simp: fl_Create_def unat_gt_0)
  from calls_spec [OF o, of "replicate ?c (Put 0 p)"] n0 puts_list [OF n0, of "\<lambda>_. []" ?c ?c p] c
  obtain m' where m': "fl_calls (replicate ?c (Put 0 p)) fl m = Inr (replicate ?c (NO_ERROR, None), m')"
    "fl_inv (unat n) sh (flm_fba m) ((\<lambda>_. [])(0 := replicate ?c p)) m'" by auto
  from m'(2) obtain B F k where S: "fl_shape (unat n) sh (flm_fba m) B F k m'"
    and L: "\<forall>i < unat n. map (\<lambda>b. flm_ptr m' (of_nat b)) (B i) = ((\<lambda>_. [])(0 := replicate ?c p)) i"
    unfolding fl_inv_def by blast
  have "?c \<le> k" using shape_size [OF S L] sum_first [OF n0, of "\<lambda>_. []" "replicate ?c p"] by simp
  then have k: "k = ?c" using fl_shape_parts(6) [OF S] c by simp
  have beyond: "unat (fba_space sz n) < fblk (flm_fba m) k"
    using rounded_beyond [OF ms(2) assms(6)] by (simp add: fblk_def fb k list_capacity_def)
  moreover have "0 < k" using beyond fb(3) by (cases k) (simp_all add: fblk_def fb word_le_nat_alt)
  moreover have "unat (of_nat (fblk (flm_fba m) k) :: u64) = fblk (flm_fba m) k"
    using fba_block_unat [OF fblk_block(4) [OF P, of k]] k c by simp
  ultimately show ?thesis using m'(1) fl_shape_parts(5) [OF S] by auto
qed

lemma freelists_overrun_witness:
  "\<exists>m'. fl_calls (replicate 1022 (Put 0 7)) (fst two_lists) (snd two_lists) = Inr (replicate 1022 (NO_ERROR, None), m') \<and>
     896 < unat (never_allocated (flm_fba m'))"
proof -
  from two_lists_open obtain m0 fl1 m1 where
    h: "fl_Create 2 (FreeLists_new 1024) m0 = Inr (NO_ERROR, fl1, m1)" "flm_fba m0 = zero_fba"
    "fl_Open fl1 m1 = Inr (NO_ERROR, fst two_lists, snd two_lists)" by blast
  have "round_up 32 64 = (64 :: u64)" by (simp add: round_up_def)
  then have "unat (fba_space 1024 2) = 896" by (simp add: fba_space_def)
  then show ?thesis using freelists_overrun [OF h(1,2) _ _ h(3), of 7] unfolding two_lists_capacity by simp
qed

end
