(* ===== verification/Nv_Heap.thy ===== *)
theory Nv_Heap
  imports Gull_Prelude
begin

text \<open>
  \<open>NvHeapLayout\<close> of \<open>src/shelf_usage/shelf_heap.h\<close>, the single-shelf heap of the build without zones: a bump
  allocator that never frees. Its \<open>Alloc\<close> is a read of \<open>next_free\<close> and a compare-and-store, translated as steps
  that any number of processes interleave.
\<close>

section \<open>The layout\<close>

record nv_layout =
  nv_magic_num :: u64
  nv_heap_size :: u64
  nv_next_free :: u64
  nv_data :: "u64 \<Rightarrow> u8"

definition nv_kMagicNum :: u64 where "nv_kMagicNum = 684327"

definition nv_kMetadataSize :: u64 where "nv_kMetadataSize = kCacheLineSize * 3"

text \<open>\<open>nv_data\<close> is the array \<open>data\<close>, by the offset from its start.\<close>

definition clear_data :: "u64 \<Rightarrow> (u64 \<Rightarrow> u8) \<Rightarrow> u64 \<Rightarrow> u8" where
  "clear_data n d = (\<lambda>i. if i < n then 0 else d i)"

definition nv_Create :: "u64 \<Rightarrow> nv_layout \<Rightarrow> nv_layout result" where
  "nv_Create heap_size l =
     (if heap_size = 0 then Inl Assert_Failed
      else Inr (l\<lparr>nv_next_free := nv_kMetadataSize, nv_heap_size := heap_size,
             nv_data := clear_data heap_size (nv_data l), nv_magic_num := nv_kMagicNum\<rparr>))"

definition nv_Destroy :: "nv_layout \<Rightarrow> nv_layout result" where
  "nv_Destroy l =
     (if nv_magic_num l \<noteq> nv_kMagicNum then Inl Assert_Failed
      else Inr (l\<lparr>nv_next_free := 0, nv_heap_size := 0,
             nv_data := clear_data (nv_heap_size l) (nv_data l), nv_magic_num := 0\<rparr>))"

definition nv_Verify :: "nv_layout \<Rightarrow> bool" where
  "nv_Verify l \<longleftrightarrow> nv_magic_num l = nv_kMagicNum"

definition nv_Size :: "nv_layout \<Rightarrow> u64" where
  "nv_Size l = nv_heap_size l"

definition nv_Free :: "u64 \<Rightarrow> nv_layout \<Rightarrow> nv_layout" where
  "nv_Free offset l = l"

definition nv_IsValid :: "nv_layout \<Rightarrow> u64 \<Rightarrow> bool" where
  "nv_IsValid l offset =
     (if offset < nv_kMetadataSize then False
      else let relative_offset = offset - nv_kMetadataSize in relative_offset < nv_heap_size l)"

section \<open>\<open>Alloc\<close>\<close>

text \<open>\<open>Nv_Try\<close> is the label \<open>retry\<close>; \<open>Nv_Cas\<close> holds the expected and the desired value.\<close>

datatype npc = Nv_Idle | Nv_Try u64 | Nv_Cas u64 u64 u64 | Nv_Ret u64 u64

fun nv_Alloc_step :: "npc \<Rightarrow> nv_layout \<Rightarrow> npc \<times> nv_layout" where
  "nv_Alloc_step (Nv_Try sz) l =
     (let expected_next_free = nv_next_free l; desired_next_free = expected_next_free + round_up sz kCacheLineSize
      in (if desired_next_free - nv_kMetadataSize > nv_heap_size l then Nv_Ret sz 0
          else Nv_Cas sz expected_next_free desired_next_free, l))"
| "nv_Alloc_step (Nv_Cas sz expected desired) l =
     (if nv_next_free l \<noteq> expected then (Nv_Try sz, l) else (Nv_Ret sz expected, l\<lparr>nv_next_free := desired\<rparr>))"
| "nv_Alloc_step pc l = (pc, l)"

text \<open>\<open>nallocs\<close> are the offsets and sizes of the successful calls, in the order of their compare-and-stores.\<close>

record nsys =
  nlayout :: nv_layout
  npcs :: "nat \<Rightarrow> npc"
  nallocs :: "(u64 \<times> u64) list"

definition nv_got :: "npc \<Rightarrow> npc \<Rightarrow> (u64 \<times> u64) list" where
  "nv_got pc pc' = (case (pc, pc') of (Nv_Cas _ _ _, Nv_Ret sz off) \<Rightarrow> [(off, sz)] | _ \<Rightarrow> [])"

inductive nstep :: "nsys \<Rightarrow> nsys \<Rightarrow> bool" where
  call: "npcs s p = Nv_Idle \<Longrightarrow> unat sz \<le> 2 ^ 63 \<Longrightarrow> nstep s (s\<lparr>npcs := (npcs s)(p := Nv_Try sz)\<rparr>)"
| run: "nv_Alloc_step (npcs s p) (nlayout s) = (pc', l') \<Longrightarrow>
    nstep s (s\<lparr>npcs := (npcs s)(p := pc'), nlayout := l', nallocs := nallocs s @ nv_got (npcs s p) pc'\<rparr>)"
| returned: "npcs s p = Nv_Ret sz off \<Longrightarrow> nstep s (s\<lparr>npcs := (npcs s)(p := Nv_Idle)\<rparr>)"

inductive nreach :: "u64 \<Rightarrow> nsys \<Rightarrow> bool" for heap_size :: u64 where
  new: "nv_Create heap_size l = Inr l' \<Longrightarrow> unat heap_size < 2 ^ 62 \<Longrightarrow>
    nreach heap_size \<lparr>nlayout = l', npcs = (\<lambda>_. Nv_Idle), nallocs = []\<rparr>"
| step: "nreach heap_size s \<Longrightarrow> nstep s s' \<Longrightarrow> nreach heap_size s'"

section \<open>The invariant\<close>

definition nrange :: "nat \<Rightarrow> u64 \<times> u64 \<Rightarrow> bool" where
  "nrange u a \<longleftrightarrow> 192 \<le> unat (fst a) \<and> unat (fst a) mod 64 = 0 \<and> unat (fst a) + unat (snd a) \<le> u"

fun npc_ok :: "u64 \<Rightarrow> npc \<Rightarrow> bool" where
  "npc_ok hs (Nv_Try sz) \<longleftrightarrow> unat sz \<le> 2 ^ 63"
| "npc_ok hs (Nv_Cas sz e d) \<longleftrightarrow> unat sz \<le> 2 ^ 63 \<and> unat d = unat e + unat (round_up sz 64) \<and> unat sz \<le> unat (round_up sz 64) \<and>
     unat d mod 64 = 0 \<and> unat d \<le> 192 + unat hs"
| "npc_ok hs pc \<longleftrightarrow> True"

definition ninv :: "u64 \<Rightarrow> nsys \<Rightarrow> bool" where
  "ninv hs s \<longleftrightarrow> nv_heap_size (nlayout s) = hs \<and> unat hs < 2 ^ 62 \<and>
     192 \<le> unat (nv_next_free (nlayout s)) \<and> unat (nv_next_free (nlayout s)) mod 64 = 0 \<and>
     unat (nv_next_free (nlayout s)) \<le> 192 + unat hs \<and>
     (\<forall>a \<in> set (nallocs s). nrange (unat (nv_next_free (nlayout s))) a) \<and>
     sorted_wrt (\<lambda>a b. unat (fst a) + unat (snd a) \<le> unat (fst b)) (nallocs s) \<and>
     (\<forall>p. npc_ok hs (npcs s p))"

lemma round_64:
  assumes "unat (sz :: u64) \<le> 2 ^ 63"
  shows "unat sz \<le> unat (round_up sz 64)" "unat (round_up sz 64) < unat sz + 64" "unat (round_up sz 64) mod 64 = 0"
proof -
  let ?q = "(unat sz + unat (64 :: u64) - 1) div unat (64 :: u64)"
  have u: "unat (round_up sz 64) = ?q * unat (64 :: u64)" using assms by (intro unat_round_up) simp_all
  have d: "?q * 64 + (63 + unat sz) mod 64 = 63 + unat sz" using div_mult_mod_eq [of "63 + unat sz" 64] by simp
  have "(63 + unat sz) mod 64 < 64" by simp
  then show "unat sz \<le> unat (round_up sz 64)" "unat (round_up sz 64) < unat sz + 64" using d unfolding u by simp_all
  show "unat (round_up sz 64) mod 64 = 0" unfolding u by simp
qed

lemmas nv_consts = nv_kMetadataSize_def kCacheLineSize_def

lemma try_inv:
  assumes I: "ninv hs s" and p: "npcs s p = Nv_Try sz" and st: "nv_Alloc_step (npcs s p) (nlayout s) = (pc', l')"
  shows "l' = nlayout s" "npc_ok hs pc'" "nv_got (npcs s p) pc' = []"
proof -
  let ?e = "nv_next_free (nlayout s)" and ?r = "round_up sz 64"
  have sz: "unat sz \<le> 2 ^ 63" using I p by (auto simp: ninv_def dest: spec [of _ p])
  have e: "192 \<le> unat ?e" "unat ?e mod 64 = 0" "unat ?e \<le> 192 + unat hs" "unat hs < 2 ^ 62" "nv_heap_size (nlayout s) = hs"
    using I by (simp_all add: ninv_def)
  have d: "unat (?e + ?r) = unat ?e + unat ?r" using e round_64(2) [OF sz] sz by (simp add: unat_word_ariths)
  have "192 \<le> ?e + ?r" using d e(1) by (simp add: word_le_nat_alt)
  then have "unat (?e + ?r - 192) = unat ?e + unat ?r - 192" using d by (simp add: unat_sub)
  then have "npc_ok hs (Nv_Cas sz ?e (?e + ?r))" if "\<not> ?e + ?r - 192 > hs"
    using that d e sz round_64 [OF sz] by (simp add: word_less_nat_alt mod_add_eq [symmetric, of "unat ?e"])
  then show "l' = nlayout s" "npc_ok hs pc'" "nv_got (npcs s p) pc' = []" using st p e(5)
    by (auto simp: nv_consts Let_def nv_got_def split: if_splits)
qed

lemma ninv_step: "nstep s s' \<Longrightarrow> ninv hs s \<Longrightarrow> ninv hs s'"
proof (induction rule: nstep.induct)
  case (run s p pc' l')
  show ?case
  proof (cases "npcs s p")
    case (Nv_Try sz)
    from try_inv [OF run.prems this run.hyps] show ?thesis using run.prems by (simp add: ninv_def)
  next
    case (Nv_Cas sz e d)
    show ?thesis
    proof (cases "nv_next_free (nlayout s) = e")
      case True
      have ok: "npc_ok hs (Nv_Cas sz e d)" using run.prems Nv_Cas by (metis ninv_def)
      have s': "pc' = Nv_Ret sz e" "l' = (nlayout s)\<lparr>nv_next_free := d\<rparr>" using run.hyps Nv_Cas True by simp_all
      have le: "unat e \<le> unat d" "unat e + unat sz \<le> unat d" using ok by simp_all
      have "nrange (unat d) a" if "a \<in> set (nallocs s)" for a
        using run.prems that le(1) True by (fastforce simp: ninv_def nrange_def)
      moreover have "nrange (unat d) (e, sz)" using run.prems True le(2) by (auto simp: ninv_def nrange_def)
      moreover have "sorted_wrt (\<lambda>a b. unat (fst a) + unat (snd a) \<le> unat (fst b)) (nallocs s @ [(e, sz)])"
        using run.prems True by (auto simp: ninv_def nrange_def sorted_wrt_append)
      ultimately show ?thesis using run.prems s' ok Nv_Cas True by (auto simp: ninv_def nv_got_def)
    next
      case False
      have "npc_ok hs (Nv_Cas sz e d)" using run.prems Nv_Cas by (metis ninv_def)
      then show ?thesis using run False Nv_Cas by (auto simp: ninv_def nv_got_def)
    qed
  next
    case Nv_Idle
    then have "pc' = Nv_Idle" "l' = nlayout s" using run.hyps by simp_all
    then show ?thesis using run.prems Nv_Idle by (simp add: ninv_def nv_got_def)
  next
    case (Nv_Ret sz off)
    then have "pc' = Nv_Ret sz off" "l' = nlayout s" using run.hyps by simp_all
    then show ?thesis using run.prems Nv_Ret by (simp add: ninv_def nv_got_def)
  qed
qed (auto simp: ninv_def)

lemma nreach_ninv: "nreach hs s \<Longrightarrow> ninv hs s"
proof (induction rule: nreach.induct)
  case (new l l')
  then show ?case by (auto simp: ninv_def nv_Create_def nv_consts split: if_splits)
qed (blast intro: ninv_step)

section \<open>The properties\<close>

text \<open>C38: In every interleaving of \<open>Alloc\<close> calls of at most \<open>2 ^ 63\<close> bytes the ranges handed out are disjoint, each
  begins where or behind where the ones before it end, all lie in the heap behind the metadata, and they are
  aligned to cache lines; their offsets are valid unless they are empty ranges at the end.\<close>

theorem bump_alloc_disjoint:
  assumes "nreach hs s"
  shows "(\<forall>i j. i < j \<and> j < length (nallocs s) \<longrightarrow>
      unat (fst (nallocs s ! i)) + unat (snd (nallocs s ! i)) \<le> unat (fst (nallocs s ! j))) \<and>
    (\<forall>(off, sz) \<in> set (nallocs s). 192 \<le> unat off \<and> unat off mod 64 = 0 \<and> unat off + unat sz \<le> 192 + unat hs \<and>
      (0 < sz \<longrightarrow> nv_IsValid (nlayout s) off))"
proof -
  have I: "ninv hs s" by (rule nreach_ninv [OF assms])
  have "nv_IsValid (nlayout s) off" if "(off, sz) \<in> set (nallocs s)" "0 < sz" for off sz
  proof -
    have o: "192 \<le> unat off" "unat off + unat sz \<le> 192 + unat hs" using I that(1) by (force simp: ninv_def nrange_def)+
    then have "unat (off - 192) = unat off - 192" by (simp add: unat_sub word_le_nat_alt)
    then show ?thesis using o that(2) I by (simp add: nv_IsValid_def nv_consts Let_def word_less_nat_alt ninv_def)
  qed
  moreover have "192 \<le> unat off \<and> unat off mod 64 = 0 \<and> unat off + unat sz \<le> 192 + unat hs" if "(off, sz) \<in> set (nallocs s)" for off sz
    using I that by (force simp: ninv_def nrange_def)
  moreover have "unat (fst (nallocs s ! i)) + unat (snd (nallocs s ! i)) \<le> unat (fst (nallocs s ! j))"
    if "i < j" "j < length (nallocs s)" for i j
    using I that by (simp add: ninv_def sorted_wrt_iff_nth_less)
  ultimately show ?thesis by blast
qed

text \<open>A process allocates 100 bytes, then 1.\<close>

definition nv_state :: "u64 \<Rightarrow> npc \<Rightarrow> (u64 \<times> u64) list \<Rightarrow> nsys" where
  "nv_state nf pc as =
     \<lparr>nlayout = \<lparr>nv_magic_num = 684327, nv_heap_size = 1024, nv_next_free = nf, nv_data = (\<lambda>_. 0)\<rparr>, npcs = (\<lambda>_. Nv_Idle)(0 := pc), nallocs = as\<rparr>"

lemma nv_state_run:
  assumes "nreach 1024 (nv_state nf pc as)" "nv_Alloc_step pc (nlayout (nv_state nf pc as)) = (pc', nlayout (nv_state nf' pc' as))"
  shows "nreach 1024 (nv_state nf' pc' (as @ nv_got pc pc'))"
  using nreach.step [OF assms(1) nstep.run [of _ 0 pc' "nlayout (nv_state nf' pc' as)"]] assms(2) by (simp add: nv_state_def)

lemma nv_state_alloc:
  assumes "nreach 1024 (nv_state nf Nv_Idle as)" "unat sz \<le> 2 ^ 63" "\<not> nf + round_up sz 64 - 192 > 1024"
  shows "nreach 1024 (nv_state (nf + round_up sz 64) Nv_Idle (as @ [(nf, sz)]))"
proof -
  have "nreach 1024 (nv_state nf (Nv_Try sz) as)"
    using nreach.step [OF assms(1) nstep.call [of _ 0 sz]] assms(2) by (simp add: nv_state_def)
  from nv_state_run [OF this, of "Nv_Cas sz nf (nf + round_up sz 64)" nf] assms(3)
  have "nreach 1024 (nv_state nf (Nv_Cas sz nf (nf + round_up sz 64)) as)"
    by (simp add: nv_state_def nv_consts Let_def nv_got_def)
  from nv_state_run [OF this, of "Nv_Ret sz nf" "nf + round_up sz 64"]
  have "nreach 1024 (nv_state (nf + round_up sz 64) (Nv_Ret sz nf) (as @ [(nf, sz)]))"
    by (simp add: nv_state_def nv_got_def)
  from nreach.step [OF this nstep.returned [of _ 0]] show ?thesis by (simp add: nv_state_def)
qed

lemma bump_alloc_disjoint_witness:
  "nallocs (nv_state 384 Nv_Idle [(192, 100), (320, 1)]) = [(192, 100), (320, 1)] \<and>
   unat (192 :: u64) + unat (100 :: u64) \<le> unat (320 :: u64) \<and> nv_IsValid (nlayout (nv_state 384 Nv_Idle [(192, 100), (320, 1)])) 320"
proof -
  have "nreach 1024 (nv_state 192 Nv_Idle [])"
    using nreach.new [of 1024 "\<lparr>nv_magic_num = 0, nv_heap_size = 0, nv_next_free = 0, nv_data = (\<lambda>_. 0)\<rparr>"]
    by (simp add: nv_Create_def nv_state_def nv_consts nv_kMagicNum_def fun_upd_idem clear_data_def)
  from nv_state_alloc [OF this, of 100] have "nreach 1024 (nv_state 320 Nv_Idle [(192, 100)])" by (simp add: round_up_def)
  from nv_state_alloc [OF this, of 1] have "nreach 1024 (nv_state 384 Nv_Idle [(192, 100), (320, 1)])" by (simp add: round_up_def)
  from bump_alloc_disjoint [OF this] show ?thesis by (auto simp: nv_state_def)
qed

text \<open>A larger request wraps: \<open>Alloc\<close> of \<open>2 ^ 64 - 64\<close> bytes rounds to \<open>-64\<close>, moves \<open>next_free\<close> back by a cache
  line and answers with a valid offset, and the next \<open>Alloc\<close> gets the last cache line handed out before it again.\<close>

definition nv_alone :: "u64 \<Rightarrow> nv_layout \<Rightarrow> npc \<times> nv_layout" where
  "nv_alone sz l = (let (pc, l) = nv_Alloc_step (Nv_Try sz) l in nv_Alloc_step pc l)"

theorem bump_alloc_wraps:
  assumes "nv_heap_size l = hs" "256 \<le> unat (nv_next_free l)" "unat (nv_next_free l) + 64 \<le> 192 + unat hs" "unat hs < 2 ^ 62"
    and "unat (nv_next_free l) mod 64 = 0"
  shows "\<exists>l' l''. nv_alone (2 ^ 64 - 64) l = (Nv_Ret (2 ^ 64 - 64) (nv_next_free l), l') \<and> nv_IsValid l (nv_next_free l) \<and>
    nv_alone 64 l' = (Nv_Ret 64 (nv_next_free l - 64), l'')"
proof -
  let ?e = "nv_next_free l"
  have r: "round_up (2 ^ 64 - 64) 64 = (- 64 :: u64)" "round_up 64 64 = (64 :: u64)" by (simp_all add: round_up_def)
  have e: "unat (?e - 256) = unat ?e - 256" "unat (?e - 192) = unat ?e - 192" using assms(2) by (simp_all add: unat_sub word_le_nat_alt)
  then have "\<not> ?e - 256 > hs" "\<not> ?e - 192 > hs" "?e - 192 < hs" "\<not> ?e < 192" using assms by (simp_all add: word_less_nat_alt)
  moreover have "?e + - 64 - 192 = ?e - 256" "?e - 64 + 64 - 192 = ?e - 192" by simp_all
  ultimately show ?thesis using assms(1) r by (simp add: nv_alone_def nv_IsValid_def nv_consts Let_def)
qed

lemma bump_alloc_wraps_witness:
  "\<exists>l' l''. nv_alone (2 ^ 64 - 64) \<lparr>nv_magic_num = 684327, nv_heap_size = 1024, nv_next_free = 512, nv_data = (\<lambda>_. 0)\<rparr> =
      (Nv_Ret (2 ^ 64 - 64) 512, l') \<and> nv_alone 64 l' = (Nv_Ret 64 448, l'')"
  using bump_alloc_wraps [of "\<lparr>nv_magic_num = 684327, nv_heap_size = 1024, nv_next_free = 512, nv_data = (\<lambda>_. 0)\<rparr>" 1024] by auto

end
