(* ===== verification/Nv_Shelf_Heap.thy ===== *)
theory Nv_Shelf_Heap
  imports Nv_Heap Shelf_Manager
begin

text \<open>
  \<open>ShelfHeap\<close> of \<open>src/shelf_usage/shelf_heap.{h,cc}\<close>, the heap on one shelf in the build without zones. The object
  keeps the shelf file, the address it is mapped at, whether it is open and the size of the heap; \<open>layout_\<close> is the
  mapped address while it is open. The \<open>NvHeapLayout\<close> at the start of the file is passed beside it, and \<open>Alloc\<close> is
  the run of its steps without interference. (The member \<open>Map\<close> is read with the error type spelled \<open>ErrorCode\<close> and
  without the second declaration of \<open>addr_hint\<close>, which no compiler accepts.)
\<close>

record nv_shelf =
  ns_is_open :: bool
  ns_file :: shelf_file
  ns_addr :: "u64 option"
  ns_size :: u64

definition NvShelf :: "string \<Rightarrow> nv_shelf" where
  "NvShelf pathname = \<lparr>ns_is_open = False, ns_file = ShelfFile pathname, ns_addr = None, ns_size = 0\<rparr>"

definition NvShelf_id :: "string \<Rightarrow> ShelfId \<Rightarrow> nv_shelf" where
  "NvShelf_id pathname sid = \<lparr>ns_is_open = False, ns_file = ShelfFile_id pathname sid, ns_addr = None, ns_size = 0\<rparr>"

text \<open>\<open>sizeof (NvHeapLayout)\<close>: three cache lines.\<close>

definition sizeof_NvHeapLayout :: u64 where "sizeof_NvHeapLayout = 192"

section \<open>Opening and closing the file\<close>

definition ns_OpenMapShelf :: "bool \<Rightarrow> nv_shelf \<Rightarrow> manager \<Rightarrow> world \<Rightarrow> (error_code \<times> nv_shelf \<times> manager \<times> world) result" where
  "ns_OpenMapShelf use_shelf_manager sh sm w =
     (if \<not> sf_Exist (ns_file sh) w then Inr (SHELF_FILE_NOT_FOUND, sh, sm, w)
      else case sf_Open (ns_file sh) w of (ret, f, w) \<Rightarrow>
        let sh = sh\<lparr>ns_file := f\<rparr>
        in if ret \<noteq> NO_ERROR then Inr (ret, sh, sm, w)
           else if ns_addr sh \<noteq> None then Inl Assert_Failed
           else if use_shelf_manager
           then rbind (sf_Map f sm w) (\<lambda>(ret, addr, sm, w). Inr (ret, sh\<lparr>ns_addr := addr\<rparr>, sm, w))
           else rbind (sf_Size f w) (\<lambda>(len, w).
                  if len = 0 then Inr (ret, sh, sm, w)
                  else case sf_Map_range f len True w of (ret, addr, w) \<Rightarrow>
                         if ret = NO_ERROR \<and> addr = None then Inl Assert_Failed
                         else Inr (ret, sh\<lparr>ns_addr := addr\<rparr>, sm, w)))"

definition ns_UnmapCloseShelf :: "bool \<Rightarrow> bool \<Rightarrow> nv_shelf \<Rightarrow> manager \<Rightarrow> world \<Rightarrow> (error_code \<times> nv_shelf \<times> manager \<times> world) result" where
  "ns_UnmapCloseShelf use_shelf_manager unregister sh sm w =
     (if \<not> sf_Exist (ns_file sh) w then Inr (SHELF_FILE_NOT_FOUND, sh, sm, w)
      else case ns_addr sh of
        None \<Rightarrow> Inl Assert_Failed
      | Some addr \<Rightarrow>
          rbind (sf_Size (ns_file sh) w) (\<lambda>(len, w).
          rbind (if use_shelf_manager then sf_Unmap (ns_file sh) addr unregister sm w
                 else case sf_Unmap_range addr len w of (ret, w) \<Rightarrow> Inr (ret, sm, w)) (\<lambda>(ret, sm, w).
            if ret \<noteq> NO_ERROR then Inr (ret, sh, sm, w)
            else case sf_Close (ns_file sh) w of (ret, f, w) \<Rightarrow>
                   Inr (ret, sh\<lparr>ns_addr := None, ns_file := f\<rparr>, sm, w))))"

section \<open>Create, Destroy, Open, Close\<close>

text \<open>Memory that is not mapped cannot be written: \<open>Create\<close> of a shelf of size 0 asserts an address.\<close>

definition ns_Create :: "u64 \<Rightarrow> nv_shelf \<Rightarrow> nv_layout \<Rightarrow> manager \<Rightarrow> world \<Rightarrow>
    (error_code \<times> nv_shelf \<times> nv_layout \<times> manager \<times> world) result" where
  "ns_Create heap_size sh l sm w =
     (if ns_is_open sh \<or> \<not> sf_Exist (ns_file sh) w then Inl Assert_Failed
      else let actual_size = heap_size + nv_kMetadataSize
      in case sf_Truncate (ns_file sh) actual_size w of (ret, w) \<Rightarrow>
        if ret \<noteq> NO_ERROR then Inr (ret, sh, l, sm, w)
        else rbind (ns_OpenMapShelf False sh sm w) (\<lambda>(ret, sh, sm, w).
          if ret \<noteq> NO_ERROR then Inr (ret, sh, l, sm, w)
          else if ns_addr sh = None then Inl Assert_Failed
          else rbind (nv_Create heap_size l) (\<lambda>l.
            rbind (ns_UnmapCloseShelf False False sh sm w) (\<lambda>(ret, sh, sm, w). Inr (ret, sh, l, sm, w)))))"

definition ns_Destroy :: "nv_shelf \<Rightarrow> manager \<Rightarrow> world \<Rightarrow> (error_code \<times> nv_shelf \<times> manager \<times> world) result" where
  "ns_Destroy sh sm w =
     (if ns_is_open sh then Inl Assert_Failed
      else rbind (ns_OpenMapShelf True sh sm w) (\<lambda>(ret, sh, sm, w).
        if ret \<noteq> NO_ERROR then Inr (ret, sh, sm, w) else ns_UnmapCloseShelf True True sh sm w))"

definition ns_Verify :: "nv_shelf \<Rightarrow> nv_layout \<Rightarrow> manager \<Rightarrow> world \<Rightarrow> (error_code \<times> nv_shelf \<times> manager \<times> world) result" where
  "ns_Verify sh l sm w =
     (if ns_is_open sh then Inl Assert_Failed
      else rbind (ns_OpenMapShelf False sh sm w) (\<lambda>(ret, sh, sm, w).
        if ret \<noteq> NO_ERROR then Inr (ret, sh, sm, w)
        else rbind (sf_Size (ns_file sh) w) (\<lambda>(len, w).
          let ret = (if len < sizeof_NvHeapLayout then SHELF_FILE_INVALID_FORMAT
                     else if \<not> nv_Verify l then SHELF_FILE_INVALID_FORMAT else ret)
          in rbind (ns_UnmapCloseShelf False False sh sm w) (\<lambda>(_, sh, sm, w). Inr (ret, sh, sm, w)))))"

definition ns_Recover :: "nv_shelf \<Rightarrow> error_code" where
  "ns_Recover sh = NO_ERROR"

definition ns_Open :: "nv_shelf \<Rightarrow> nv_layout \<Rightarrow> manager \<Rightarrow> world \<Rightarrow> (error_code \<times> nv_shelf \<times> manager \<times> world) result" where
  "ns_Open sh l sm w =
     (if ns_is_open sh then Inl Assert_Failed
      else rbind (ns_OpenMapShelf True sh sm w) (\<lambda>(ret, sh, sm, w).
        if ret \<noteq> NO_ERROR then Inr (ret, sh, sm, w)
        else rbind (sf_Size (ns_file sh) w) (\<lambda>(len, w).
          if len < sizeof_NvHeapLayout \<or> \<not> nv_Verify l
          then rbind (ns_UnmapCloseShelf True True sh sm w) (\<lambda>(_, sh, sm, w). Inr (SHELF_FILE_INVALID_FORMAT, sh, sm, w))
          else if nv_Size l = 0 then Inl Assert_Failed
          else Inr (ret, sh\<lparr>ns_size := nv_Size l, ns_is_open := True\<rparr>, sm, w))))"

text \<open>If \<open>Close\<close> fails the object stays open, but without its layout; \<open>ns_size\<close> 0 marks that.\<close>

definition ns_Close :: "nv_shelf \<Rightarrow> manager \<Rightarrow> world \<Rightarrow> (error_code \<times> nv_shelf \<times> manager \<times> world) result" where
  "ns_Close sh sm w =
     (if \<not> ns_is_open sh then Inl Assert_Failed
      else let sh = sh\<lparr>ns_size := 0\<rparr>
           in rbind (ns_UnmapCloseShelf True False sh sm w) (\<lambda>(ret, sh, sm, w).
                Inr (ret, if ret = NO_ERROR then sh\<lparr>ns_is_open := False\<rparr> else sh, sm, w)))"

definition NvShelf_delete :: "nv_shelf \<Rightarrow> manager \<Rightarrow> world \<Rightarrow> (manager \<times> world) result" where
  "NvShelf_delete sh sm w =
     (if ns_is_open sh then rbind (ns_Close sh sm w) (\<lambda>(_, _, sm, w). Inr (sm, w)) else Inr (sm, w))"

section \<open>The heap\<close>

text \<open>A call through \<open>layout_\<close> is one on an open object that has its layout.\<close>

definition with_layout :: "nv_shelf \<Rightarrow> 'a result \<Rightarrow> 'a result" where
  "with_layout sh r = (if \<not> ns_is_open sh then Inl Assert_Failed else if ns_size sh = 0 then Inl Out_Of_Bounds else r)"

definition ns_Size :: "nv_shelf \<Rightarrow> nv_layout \<Rightarrow> u64 result" where
  "ns_Size sh l = with_layout sh (Inr (nv_Size l))"

definition ns_Alloc :: "nv_shelf \<Rightarrow> u64 \<Rightarrow> nv_layout \<Rightarrow> (u64 \<times> nv_layout) result" where
  "ns_Alloc sh sz l =
     with_layout sh (case nv_alone sz l of (pc, l) \<Rightarrow> Inr (case pc of Nv_Ret _ offset \<Rightarrow> offset | _ \<Rightarrow> 0, l))"

definition ns_Free :: "nv_shelf \<Rightarrow> u64 \<Rightarrow> nv_layout \<Rightarrow> nv_layout result" where
  "ns_Free sh offset l = with_layout sh (Inr (nv_Free offset l))"

definition ns_IsValidOffset :: "nv_shelf \<Rightarrow> u64 \<Rightarrow> nv_layout \<Rightarrow> bool result" where
  "ns_IsValidOffset sh offset l = with_layout sh (Inr (nv_IsValid l offset))"

definition ns_IsValidPtr :: "nv_shelf \<Rightarrow> u64 \<Rightarrow> nv_layout \<Rightarrow> bool result" where
  "ns_IsValidPtr sh addr l =
     with_layout sh (case ns_addr sh of
       None \<Rightarrow> Inl Out_Of_Bounds
     | Some layout \<Rightarrow> if addr < layout then Inr False else ns_IsValidOffset sh (addr - layout) l)"

definition ns_OffsetToPtr :: "nv_shelf \<Rightarrow> u64 \<Rightarrow> nv_layout \<Rightarrow> u64 result" where
  "ns_OffsetToPtr sh offset l =
     with_layout sh (case ns_addr sh of
       None \<Rightarrow> Inl Out_Of_Bounds
     | Some layout \<Rightarrow> if nv_IsValid l offset then Inr (layout + offset) else Inl Assert_Failed)"

definition ns_PtrToOffset :: "nv_shelf \<Rightarrow> u64 \<Rightarrow> nv_layout \<Rightarrow> u64 result" where
  "ns_PtrToOffset sh addr l =
     with_layout sh (case ns_addr sh of
       None \<Rightarrow> Inl Out_Of_Bounds
     | Some layout \<Rightarrow>
         if \<not> layout < addr then Inl Assert_Failed
         else let offset = addr - layout in if nv_IsValid l offset then Inr offset else Inl Assert_Failed)"

section \<open>Mapping a range by itself\<close>

definition ns_page_range :: "u64 \<Rightarrow> u64 \<Rightarrow> u64 \<Rightarrow> u64 \<times> u64" where
  "ns_page_range page_size offset len =
     (let aligned_start = offset - offset mod page_size;
          aligned_end = (offset + len) + (page_size - (offset + len) mod page_size)
      in (aligned_start, aligned_end - aligned_start))"

definition ns_Map :: "u64 \<Rightarrow> nv_shelf \<Rightarrow> u64 \<Rightarrow> u64 \<Rightarrow> world \<Rightarrow> error_code \<times> u64 option \<times> world" where
  "ns_Map page_size sh offset len w =
     (case ns_page_range page_size offset len of (_, aligned_size) \<Rightarrow>
        case sf_Map_range (ns_file sh) aligned_size True w of (ret, addr, w) \<Rightarrow>
          if ret \<noteq> NO_ERROR then (MAP_POINTER_FAILED, None, w)
          else (ret, map_option (\<lambda>a. a + offset mod page_size) addr, w))"

definition ns_Unmap :: "u64 \<Rightarrow> u64 \<Rightarrow> u64 \<Rightarrow> u64 \<Rightarrow> world \<Rightarrow> error_code \<times> world" where
  "ns_Unmap page_size offset mapped_addr len w =
     (case ns_page_range page_size offset len of (_, aligned_size) \<Rightarrow>
        sf_Unmap_range (mapped_addr - offset mod page_size) aligned_size w)"

end
