(* ===== verification/Process_Id.thy ===== *)
theory Process_Id
  imports Gull_Ids
begin

text \<open>
  The identity of a process, \<open>src/common/process_id.{h,cc}\<close>: its pid with its starting time, which
  \<open>GetBtime\<close> takes from the 22nd blank-separated item of \<open>/proc/<pid>/stat\<close>. What the operating system
  answers is the record \<open>os_view\<close>: the result of signal 0 to a pid and the text of the file.
\<close>

section \<open>The operations\<close>

record process_id =
  p_pid :: u64
  p_btime :: u64

datatype kill_result = Kill_Ok | Kill_ESRCH | Kill_Error

record os_view =
  kill0 :: "u32 \<Rightarrow> kill_result"
  stat_file :: "u64 \<Rightarrow> string option"

definition no_process :: process_id where "no_process = \<lparr>p_pid = 0, p_btime = 0\<rparr>"

definition IsValid :: "process_id \<Rightarrow> bool" where
  "IsValid v \<longleftrightarrow> p_pid v \<noteq> 0 \<and> p_btime v \<noteq> 0"

text \<open>What the successive calls \<open>getline (file, item, ' ')\<close> read: an item ends at the next blank or at the
  end of the file, and there is none behind a blank that ends the file.\<close>

function getline_items :: "string \<Rightarrow> string list" where
  "getline_items s =
     (if s = [] then []
      else takeWhile (\<lambda>c. c \<noteq> CHR '' '') s # getline_items (drop 1 (dropWhile (\<lambda>c. c \<noteq> CHR '' '') s)))"
  by pat_completeness auto

lemma dropWhile_shorter: "s \<noteq> [] \<Longrightarrow> length (dropWhile P s) - Suc 0 < length s"
  using length_dropWhile_le [of P s] by (cases s) auto

termination getline_items by (relation "measure length") (simp_all add: dropWhile_shorter)

declare getline_items.simps [simp del]

text \<open>\<open>std::stol\<close>: white space, a sign, decimal digits, and anything behind them. Without a digit, and for a
  number outside \<open>long\<close>, it throws.\<close>

definition stol :: "string \<Rightarrow> int result" where
  "stol item =
     (let s = dropWhile is_space item;
          (neg, s) = (if s \<noteq> [] \<and> hd s = CHR ''-'' then (True, tl s) else if s \<noteq> [] \<and> hd s = CHR ''+'' then (False, tl s) else (False, s));
          ds = takeWhile is_digit s;
          n = (if neg then - int (read_digits ds) else int (read_digits ds))
      in if ds = [] then Inl Runtime_Error
         else if n < - (2 ^ 63) \<or> 2 ^ 63 \<le> n then Inl Runtime_Error
         else Inr n)"

lemma stol_to_string:
  assumes "n < 2 ^ 63" "s = [] \<or> \<not> is_digit (hd s)"
  shows "stol (to_string n @ s) = Inr (int n)"
proof -
  obtain c t where ct: "to_string n = c # t" using to_string_ne by (cases "to_string n") auto
  then have c: "is_digit c" using to_string_digits [of c n] by simp
  have "takeWhile is_digit (to_string n @ s) = to_string n"
    using to_string_digits [of _ n] assms(2) by (cases s) (auto simp: takeWhile_append2 takeWhile_tail)
  moreover have "dropWhile is_space (to_string n @ s) = to_string n @ s" using digit_first(1) [OF c] by (simp add: ct)
  moreover have "hd (to_string n @ s) \<noteq> CHR ''-''" "hd (to_string n @ s) \<noteq> CHR ''+''"
    using digit_first(2,3) [OF c] by (auto simp: ct)
  moreover have "to_string n @ s \<noteq> []" by (simp add: ct)
  ultimately show ?thesis using assms(1) by (simp add: stol_def Let_def to_string_ne read_to_string)
qed

definition GetBtime :: "os_view \<Rightarrow> u64 \<Rightarrow> u64 result" where
  "GetBtime os pid =
     (case stat_file os pid of
        None \<Rightarrow> Inr 0
      | Some file \<Rightarrow>
          (let its = getline_items file
           in if length its < 22 then Inr 0 else map_sum id of_int (stol (its ! 21))))"

definition SetPid :: "os_view \<Rightarrow> u64 \<Rightarrow> process_id result" where
  "SetPid os pid = rbind (GetBtime os pid) (\<lambda>b. Inr \<lparr>p_pid = (if b \<noteq> 0 then pid else 0), p_btime = b\<rparr>)"

text \<open>The two halves of \<open>IsAlive\<close>: the signal, and the comparison of the starting time.\<close>

definition same_btime :: "os_view \<Rightarrow> process_id \<Rightarrow> bool result" where
  "same_btime os v = rbind (GetBtime os (p_pid v)) (\<lambda>b. Inr (b = p_btime v))"

definition IsAlive :: "os_view \<Rightarrow> process_id \<Rightarrow> bool result" where
  "IsAlive os v =
     (if \<not> IsValid v then Inl Assert_Failed
      else case kill0 os (ucast (p_pid v)) of
             Kill_Ok \<Rightarrow> same_btime os v
           | Kill_ESRCH \<Rightarrow> Inr False
           | Kill_Error \<Rightarrow> same_btime os v)"

section \<open>The file of the kernel\<close>

text \<open>A line of \<open>/proc/<pid>/stat\<close> (proc (5)): the pid, the name of the command in parentheses, and the other
  items; the starting time is number 22, the number of threads 20, and number 21 is always 0.\<close>

definition stat_line :: "string \<Rightarrow> string \<Rightarrow> string list \<Rightarrow> string" where
  "stat_line pid comm its = pid @ '' ('' @ comm @ '')'' @ concat (map (\<lambda>i. CHR '' '' # i) its)"

definition blankless :: "string \<Rightarrow> bool" where
  "blankless s \<longleftrightarrow> s \<noteq> [] \<and> CHR '' '' \<notin> set s"

lemma getline_item: "CHR '' '' \<notin> set a \<Longrightarrow> getline_items (a @ CHR '' '' # s) = a # getline_items s"
  by (subst getline_items.simps) (auto simp: takeWhile_append dropWhile_append)

lemma getline_last: "blankless a \<Longrightarrow> getline_items a = [a]"
proof -
  assume a: "blankless a"
  then have "takeWhile (\<lambda>c. c \<noteq> CHR '' '') a = a" "dropWhile (\<lambda>c. c \<noteq> CHR '' '') a = []"
    by (auto simp: blankless_def takeWhile_eq_all_conv dropWhile_eq_Nil_conv)
  then show ?thesis using a by (subst getline_items.simps) (simp add: blankless_def getline_items.simps del: dropWhile_eq_Nil_conv)
qed

lemma getline_concat:
  "blankless a \<Longrightarrow> \<forall>i \<in> set its. blankless i \<Longrightarrow> getline_items (a @ concat (map (\<lambda>i. CHR '' '' # i) its)) = a # its"
proof (induction its arbitrary: a)
  case (Cons i its)
  then show ?case using getline_item [of a "i @ concat (map (\<lambda>i. CHR '' '' # i) its)"] by (simp add: blankless_def)
qed (simp add: getline_last)

text \<open>A name without blanks is one item, a name with one blank makes two.\<close>

lemma stat_items:
  assumes "blankless pid" "CHR '' '' \<notin> set comm" "\<forall>i \<in> set its. blankless i"
  shows "getline_items (stat_line pid comm its) = pid # (''('' @ comm @ '')'') # its"
proof -
  have "getline_items (''('' @ comm @ '')'' @ concat (map (\<lambda>i. CHR '' '' # i) its)) = (''('' @ comm @ '')'') # its"
    using getline_concat [of "''('' @ comm @ '')''" its] assms by (simp add: blankless_def)
  then show ?thesis using getline_item [of pid "''('' @ comm @ '')'' @ concat (map (\<lambda>i. CHR '' '' # i) its)"] assms(1)
    by (simp add: stat_line_def blankless_def)
qed

lemma stat_items_blank:
  assumes "blankless pid" "CHR '' '' \<notin> set c1" "CHR '' '' \<notin> set c2" "\<forall>i \<in> set its. blankless i"
  shows "getline_items (stat_line pid (c1 @ CHR '' '' # c2) its) = pid # (''('' @ c1) # (c2 @ '')'') # its"
proof -
  let ?r = "concat (map (\<lambda>i. CHR '' '' # i) its)"
  have "getline_items ((c2 @ '')'') @ ?r) = (c2 @ '')'') # its"
    using getline_concat [of "c2 @ '')''" its] assms by (simp add: blankless_def)
  then have "getline_items (c2 @ CHR '')'' # ?r) = (c2 @ '')'') # its" by simp
  then have "getline_items (CHR ''('' # c1 @ CHR '' '' # c2 @ CHR '')'' # ?r) = (''('' @ c1) # (c2 @ '')'') # its"
    using getline_item [of "''('' @ c1" "c2 @ CHR '')'' # ?r"] assms(2) by simp
  then show ?thesis using getline_item [of pid "CHR ''('' # c1 @ CHR '' '' # c2 @ CHR '')'' # ?r"] assms(1)
    by (simp add: stat_line_def blankless_def)
qed

text \<open>So \<open>GetBtime\<close> is the starting time if the name has no blank, and 0, the item in front of it, if it has one.\<close>

lemma GetBtime_plain:
  assumes "stat_file os p = Some (stat_line pid comm its)" "blankless pid" "CHR '' '' \<notin> set comm" "\<forall>i \<in> set its. blankless i"
    "20 \<le> length its"
  shows "GetBtime os p = map_sum id of_int (stol (its ! 19))"
  using assms by (simp add: GetBtime_def stat_items Let_def numeral_eq_Suc)

text \<open>What the kernel tells of a process whose name is in \<open>names\<close>: a line with its starting time as item 22.\<close>

definition stat_of :: "string set \<Rightarrow> process_id \<Rightarrow> string option \<Rightarrow> bool" where
  "stat_of names v f \<longleftrightarrow> (\<exists>pid comm its. f = Some (stat_line pid comm its) \<and> comm \<in> names \<and> blankless pid \<and>
     (\<forall>i \<in> set its. blankless i) \<and> 20 \<le> length its \<and> its ! 19 = to_string (unat (p_btime v)) \<and> unat (p_btime v) < 2 ^ 63)"

lemma GetBtime_stat_of:
  assumes "stat_of names v (stat_file os (p_pid v))" "\<forall>c \<in> names. CHR '' '' \<notin> set c"
  shows "GetBtime os (p_pid v) = Inr (p_btime v)"
proof -
  from assms obtain pid comm its where f: "stat_file os (p_pid v) = Some (stat_line pid comm its)" "blankless pid" "CHR '' '' \<notin> set comm"
    "\<forall>i \<in> set its. blankless i" "20 \<le> length its" "its ! 19 = to_string (unat (p_btime v))" "unat (p_btime v) < 2 ^ 63"
    unfolding stat_of_def by blast
  show ?thesis using GetBtime_plain [OF f(1-5)] stol_to_string [OF f(7), of "[]"] f(6) by simp
qed

lemma GetBtime_blank:
  assumes "stat_file os p = Some (stat_line pid (c1 @ CHR '' '' # c2) its)" "blankless pid" "CHR '' '' \<notin> set c1" "CHR '' '' \<notin> set c2"
    "\<forall>i \<in> set its. blankless i" "20 \<le> length its" "its ! 18 = ''0''"
  shows "GetBtime os p = Inr 0"
proof -
  have "stol ''0'' = Inr 0" by (simp add: stol_def is_digit_def is_space_def read_digits_def Let_def)
  moreover have "getline_items (stat_line pid (c1 @ CHR '' '' # c2) its) ! 21 = its ! 18"
    using assms by (simp add: stat_items_blank numeral_eq_Suc)
  moreover have "\<not> length (getline_items (stat_line pid (c1 @ CHR '' '' # c2) its)) < 22" using assms by (simp add: stat_items_blank)
  ultimately show ?thesis using assms(1,7) by (simp add: GetBtime_def Let_def)
qed

end
