(* ===== verification/Ownership.thy ===== *)
theory Ownership
  imports Process_Id
begin

text \<open>
  The table of the owners of a heap's shelves, \<open>src/shelf_usage/ownership.{h,cc}\<close>: a header and an array of
  process ids, 0 for an item without owner. \<open>Create\<close>, \<open>Destroy\<close>, \<open>Open\<close> and \<open>Close\<close> are functions of
  the object and of the memory at its address; the operations on items are steps of one atomic access
  each, as the processes interleave. The 128-bit accesses are those of theory \<open>Fam_Atomic\<close>: a read loads
  the two words one after the other, a compare-and-store that failed samples both words and tries again
  if it finds the compared value, a write swaps.
\<close>

section \<open>The object and its memory\<close>

record own_mem =
  om_magic :: u64
  om_size :: u64
  om_item_count :: u64
  om_items :: "nat \<Rightarrow> process_id"

record ownership =
  ow_is_open :: bool
  ow_size :: u64
  ow_pid :: process_id
  ow_item_count :: u64

definition own_kMagicNum :: u64 where "own_kMagicNum = 696377447"

text \<open>\<open>sizeof (ownership_header)\<close> and \<open>sizeof (ProcessID)\<close>.\<close>

definition sizeof_ownership_header :: u64 where "sizeof_ownership_header = 32"

definition sizeof_ProcessID :: u64 where "sizeof_ProcessID = 16"

definition Ownership_new :: "u64 \<Rightarrow> ownership" where
  "Ownership_new avail_size = \<lparr>ow_is_open = False, ow_size = avail_size, ow_pid = no_process, ow_item_count = 0\<rparr>"

definition ow_Create :: "u64 \<Rightarrow> ownership \<Rightarrow> own_mem \<Rightarrow> (error_code \<times> ownership \<times> own_mem) result" where
  "ow_Create item_count ow m =
     (if ow_is_open ow \<or> item_count = 0 then Inl Assert_Failed
      else let cur_size = ow_size ow; header_size = round_up sizeof_ownership_header kCacheLineSize
           in if cur_size < header_size then Inr (OWNERSHIP_CREATE_FAILED, ow, m)
              else let m = m\<lparr>om_magic := 0, om_size := 0, om_item_count := 0\<rparr>; cur_size = cur_size - header_size;
                       items_size = round_up (item_count * sizeof_ProcessID) kCacheLineSize
                   in if cur_size < items_size then Inr (OWNERSHIP_CREATE_FAILED, ow, m)
                      else let m = m\<lparr>om_items := (\<lambda>i. if i < unat (items_size div sizeof_ProcessID) then no_process else om_items m i)\<rparr>;
                               m = m\<lparr>om_item_count := item_count, om_size := header_size + items_size, om_magic := own_kMagicNum\<rparr>
                           in Inr (NO_ERROR, ow\<lparr>ow_size := om_size m\<rparr>, m))"

definition ow_Verify :: "own_mem \<Rightarrow> bool" where
  "ow_Verify m \<longleftrightarrow> om_magic m = own_kMagicNum"

definition ow_Destroy :: "ownership \<Rightarrow> own_mem \<Rightarrow> (error_code \<times> ownership \<times> own_mem) result" where
  "ow_Destroy ow m =
     (if ow_is_open ow then Inl Assert_Failed
      else if ow_Verify m then
        let size = om_size m
        in Inr (NO_ERROR, ow\<lparr>ow_size := size\<rparr>,
             m\<lparr>om_magic := 0, om_size := 0, om_item_count := 0,
               om_items := (\<lambda>i. if i < (unat size - 64) div 16 then no_process else om_items m i)\<rparr>)
      else Inr (OWNERSHIP_DESTROY_FAILED, ow, m))"

definition ow_Open :: "os_view \<Rightarrow> u64 \<Rightarrow> ownership \<Rightarrow> own_mem \<Rightarrow> (error_code \<times> ownership) result" where
  "ow_Open os getpid ow m =
     (if ow_is_open ow then Inl Assert_Failed
      else if \<not> ow_Verify m then Inr (OWNERSHIP_OPEN_FAILED, ow)
      else if om_size m > ow_size ow then Inr (OWNERSHIP_OPEN_FAILED, ow)
      else let ow = ow\<lparr>ow_size := om_size m, ow_item_count := om_item_count m\<rparr>
           in rbind (SetPid os getpid) (\<lambda>v. Inr (NO_ERROR, ow\<lparr>ow_pid := v, ow_is_open := True\<rparr>)))"

definition ow_Close :: "ownership \<Rightarrow> (error_code \<times> ownership) result" where
  "ow_Close ow = (if \<not> ow_is_open ow then Inl Assert_Failed else Inr (NO_ERROR, ow\<lparr>ow_is_open := False\<rparr>))"

definition Ownership_delete :: "ownership \<Rightarrow> ownership result" where
  "Ownership_delete ow = (if ow_is_open ow then rbind (ow_Close ow) (\<lambda>(_, ow). Inr ow) else Inr ow)"

section \<open>The operations on items\<close>

text \<open>
  A program counter. \<open>Cas\<close> is a compare-and-store in the operation \<open>use\<close>; its phases are the instruction
  itself and the two samples after a failure. \<open>Write\<close> is \<open>fam_atomic_u128_write\<close> at the end of a
  recovery, with its two reads and the compare-and-store. \<open>Acquired\<close>, \<open>Released\<close>, \<open>Checked\<close> and \<open>Done\<close>
  are the returns.
\<close>

datatype cas_use = For_Acquire | For_Release | For_Revoke | For_Recover

datatype phase = Try | Sample | Sample2 u64

datatype opc =
    Out
  | Acquire nat
  | Cas cas_use nat process_id process_id phase
  | Check nat
  | Check2 nat u64
  | Revoke nat bool
  | Revoke2 nat bool u64
  | Signal nat bool process_id
  | Stat nat bool process_id
  | Set_Pid nat process_id
  | Recover nat process_id
  | Write nat process_id
  | Write2 nat process_id u64
  | Write_Cas nat process_id process_id
  | Acquired nat bool
  | Released nat bool
  | Checked nat bool
  | Done

text \<open>\<open>AcquireItem\<close>, \<open>ReleaseItem\<close>, \<open>CheckItem\<close> and the two \<open>CheckAndRevokeItem\<close> (\<open>rec\<close>: the one with a recovery).\<close>

definition AcquireItem :: "nat \<Rightarrow> opc" where "AcquireItem i = Acquire i"

definition ReleaseItem :: "process_id \<Rightarrow> nat \<Rightarrow> opc" where "ReleaseItem pid i = Cas For_Release i pid no_process Try"

definition CheckItem :: "nat \<Rightarrow> opc" where "CheckItem i = Check i"

definition CheckAndRevokeItem :: "nat \<Rightarrow> bool \<Rightarrow> opc" where "CheckAndRevokeItem i rec = Revoke i rec"

text \<open>What follows a compare-and-store that returned \<open>result\<close>.\<close>

fun cas_done :: "cas_use \<Rightarrow> nat \<Rightarrow> process_id \<Rightarrow> process_id \<Rightarrow> opc" where
  "cas_done For_Acquire i old result = Acquired i (result = old)"
| "cas_done For_Release i old result = Released i (result = old)"
| "cas_done For_Revoke i old result = Done"
| "cas_done For_Recover i old result = (if result = old then Recover i old else Done)"

text \<open>\<open>if (oldval.IsValid () && ! oldval.IsAlive ()) \<dots>\<close> behind the read of \<open>oldval\<close>, and the work on an item
  whose owner is not alive.\<close>

definition look_at :: "nat \<Rightarrow> bool \<Rightarrow> process_id \<Rightarrow> opc" where
  "look_at i rec v = (if IsValid v then Signal i rec v else Done)"

definition not_alive :: "nat \<Rightarrow> bool \<Rightarrow> process_id \<Rightarrow> opc" where
  "not_alive i rec v = (if rec then Set_Pid i v else Cas For_Revoke i v no_process Try)"

text \<open>One step of a process with the pid \<open>getpid\<close>, the view \<open>os\<close> of the system, the member \<open>pid_\<close> and the items.
  In \<open>Recover\<close> the recovery function runs; \<open>ret\<close> is what it returns.\<close>

fun own_step :: "os_view \<Rightarrow> u64 \<Rightarrow> error_code \<Rightarrow> opc \<Rightarrow> process_id \<Rightarrow> (nat \<Rightarrow> process_id) \<Rightarrow>
    (opc \<times> process_id \<times> (nat \<Rightarrow> process_id)) result" where
  "own_step os getpid ret (Acquire i) pid m =
     rbind (SetPid os getpid) (\<lambda>pid. Inr (Cas For_Acquire i no_process pid Try, pid, m))"
| "own_step os getpid ret (Cas use i old new Try) pid m =
     (if m i = old then Inr (cas_done use i old old, pid, m(i := new)) else Inr (Cas use i old new Sample, pid, m))"
| "own_step os getpid ret (Cas use i old new Sample) pid m = Inr (Cas use i old new (Sample2 (p_pid (m i))), pid, m)"
| "own_step os getpid ret (Cas use i old new (Sample2 x)) pid m =
     (let result = \<lparr>p_pid = x, p_btime = p_btime (m i)\<rparr>
      in Inr (if result = old then Cas use i old new Try else cas_done use i old result, pid, m))"
| "own_step os getpid ret (Check i) pid m = Inr (Check2 i (p_pid (m i)), pid, m)"
| "own_step os getpid ret (Check2 i x) pid m = Inr (Checked i (IsValid \<lparr>p_pid = x, p_btime = p_btime (m i)\<rparr>), pid, m)"
| "own_step os getpid ret (Revoke i rec) pid m = Inr (Revoke2 i rec (p_pid (m i)), pid, m)"
| "own_step os getpid ret (Revoke2 i rec x) pid m = Inr (look_at i rec \<lparr>p_pid = x, p_btime = p_btime (m i)\<rparr>, pid, m)"
| "own_step os getpid ret (Signal i rec v) pid m =
     Inr (case kill0 os (ucast (p_pid v)) of
            Kill_Ok \<Rightarrow> Stat i rec v | Kill_ESRCH \<Rightarrow> not_alive i rec v | Kill_Error \<Rightarrow> Stat i rec v, pid, m)"
| "own_step os getpid ret (Stat i rec v) pid m =
     rbind (same_btime os v) (\<lambda>b. Inr (if b then Done else not_alive i rec v, pid, m))"
| "own_step os getpid ret (Set_Pid i v) pid m =
     rbind (SetPid os getpid) (\<lambda>pid. Inr (Cas For_Recover i v pid Try, pid, m))"
| "own_step os getpid ret (Recover i v) pid m =
     Inr (Write i (if ret \<noteq> NO_ERROR then v else no_process), pid, m)"
| "own_step os getpid ret (Write i w) pid m = Inr (Write2 i w (p_pid (m i)), pid, m)"
| "own_step os getpid ret (Write2 i w x) pid m = Inr (Write_Cas i w \<lparr>p_pid = x, p_btime = p_btime (m i)\<rparr>, pid, m)"
| "own_step os getpid ret (Write_Cas i w old) pid m =
     (if m i = old then Inr (Done, pid, m(i := w)) else Inr (Write i w, pid, m))"
| "own_step os getpid ret pc pid m = Inr (pc, pid, m)"

section \<open>Processes\<close>

text \<open>
  Thread \<open>t\<close> belongs to the process \<open>proc_of t\<close>; the threads of a process share the \<open>Ownership\<close> object and its
  \<open>pid_\<close>. \<open>ident p\<close> is the pid and the starting time of process \<open>p\<close>. \<open>uses s t\<close> are the items that thread \<open>t\<close>
  got from \<open>AcquireItem\<close> and has not begun to release. A process may die at any moment, and it never comes
  back; a new one has a pid and a starting time of its own.
\<close>

record osys =
  oitems :: "nat \<Rightarrow> process_id"
  opcs :: "nat \<Rightarrow> opc"
  opid :: "nat \<Rightarrow> process_id"
  oview :: os_view
  uses :: "nat \<Rightarrow> nat set"
  alive :: "nat set"
  started :: "nat set"

text \<open>What the system says of the living processes: that they exist, and in \<open>/proc/<pid>/stat\<close> their starting times,
  behind the names of their commands, which are in \<open>names\<close>. It may say anything of a pid that no living process has.\<close>

definition os_ok :: "string set \<Rightarrow> (nat \<Rightarrow> process_id) \<Rightarrow> nat set \<Rightarrow> os_view \<Rightarrow> bool" where
  "os_ok names ident ps os \<longleftrightarrow> (\<forall>p \<in> ps. IsValid (ident p) \<and> kill0 os (ucast (p_pid (ident p))) \<noteq> Kill_ESRCH \<and>
     stat_of names (ident p) (stat_file os (p_pid (ident p))))"

text \<open>A new process does not have the pid of an earlier one together with the starting time (in clock
  ticks) of an earlier one: pids are given out in a circle.\<close>

definition fresh_process :: "(nat \<Rightarrow> process_id) \<Rightarrow> nat set \<Rightarrow> nat \<Rightarrow> bool" where
  "fresh_process ident ps p \<longleftrightarrow> p \<notin> ps \<and>
     (\<forall>q \<in> ps. \<forall>r \<in> ps. p_pid (ident q) = p_pid (ident p) \<longrightarrow> p_btime (ident r) \<noteq> p_btime (ident p))"

definition own_return :: "opc \<Rightarrow> nat set \<Rightarrow> nat set option" where
  "own_return pc us =
     (case pc of
        Acquired i b \<Rightarrow> Some (if b then insert i us else us)
      | Released i b \<Rightarrow> Some us
      | Checked i b \<Rightarrow> Some us
      | Done \<Rightarrow> Some us
      | _ \<Rightarrow> None)"

inductive ostep :: "string set \<Rightarrow> (nat \<Rightarrow> nat) \<Rightarrow> (nat \<Rightarrow> process_id) \<Rightarrow> osys \<Rightarrow> osys \<Rightarrow> bool"
  for names :: "string set" and proc_of :: "nat \<Rightarrow> nat" and ident :: "nat \<Rightarrow> process_id" where
  call: "\<lbrakk>proc_of t \<in> alive s; opcs s t = Out; pc \<in> {AcquireItem i, CheckItem i, CheckAndRevokeItem i rec}\<rbrakk> \<Longrightarrow>
    ostep names proc_of ident s (s\<lparr>opcs := (opcs s)(t := pc)\<rparr>)"
| call_release: "\<lbrakk>proc_of t \<in> alive s; opcs s t = Out; i \<in> uses s t\<rbrakk> \<Longrightarrow>
    ostep names proc_of ident s (s\<lparr>opcs := (opcs s)(t := ReleaseItem (opid s (proc_of t)) i), uses := (uses s)(t := uses s t - {i})\<rparr>)"
| run: "\<lbrakk>proc_of t \<in> alive s; own_step (oview s) (p_pid (ident (proc_of t))) ret (opcs s t) (opid s (proc_of t)) (oitems s) = Inr (pc', pid', m')\<rbrakk> \<Longrightarrow>
    ostep names proc_of ident s (s\<lparr>opcs := (opcs s)(t := pc'), opid := (opid s)(proc_of t := pid'), oitems := m'\<rparr>)"
| returned: "\<lbrakk>proc_of t \<in> alive s; own_return (opcs s t) (uses s t) = Some us\<rbrakk> \<Longrightarrow>
    ostep names proc_of ident s (s\<lparr>opcs := (opcs s)(t := Out), uses := (uses s)(t := us)\<rparr>)"
| system: "os_ok names ident (alive s) os \<Longrightarrow> ostep names proc_of ident s (s\<lparr>oview := os\<rparr>)"
| start: "\<lbrakk>fresh_process ident (started s) p; os_ok names ident (insert p (alive s)) os; SetPid os (p_pid (ident p)) = Inr v\<rbrakk> \<Longrightarrow>
    ostep names proc_of ident s (s\<lparr>oview := os, opid := (opid s)(p := v), alive := insert p (alive s), started := insert p (started s)\<rparr>)"
| die: "ostep names proc_of ident s (s\<lparr>alive := alive s - {p}\<rparr>)"

text \<open>At first no process has started and the items are those of a new table.\<close>

definition ostart :: "os_view \<Rightarrow> osys" where
  "ostart os = \<lparr>oitems = (\<lambda>_. no_process), opcs = (\<lambda>_. Out), opid = (\<lambda>_. no_process), oview = os, uses = (\<lambda>_. {}),
     alive = {}, started = {}\<rparr>"

inductive oreach :: "string set \<Rightarrow> (nat \<Rightarrow> nat) \<Rightarrow> (nat \<Rightarrow> process_id) \<Rightarrow> osys \<Rightarrow> bool"
  for names :: "string set" and proc_of :: "nat \<Rightarrow> nat" and ident :: "nat \<Rightarrow> process_id" where
  init: "oreach names proc_of ident (ostart os)"
| step: "oreach names proc_of ident s \<Longrightarrow> ostep names proc_of ident s s' \<Longrightarrow> oreach names proc_of ident s'"

end
