(* ===== verification/Ownership_Conc.thy ===== *)
theory Ownership_Conc
  imports Ownership
begin

text \<open>The invariant of the interleaved operations on the table of owners.\<close>

section \<open>Claims\<close>

text \<open>The item a program counter claims: acquired, about to be released, or in recovery.\<close>

fun pc_claim :: "opc \<Rightarrow> nat set" where
  "pc_claim (Acquired i b) = (if b then {i} else {})"
| "pc_claim (Cas For_Release i old new ph) = {i}"
| "pc_claim (Recover i v) = {i}"
| "pc_claim (Write i w) = {i}"
| "pc_claim (Write2 i w x) = {i}"
| "pc_claim (Write_Cas i w old) = {i}"
| "pc_claim pc = {}"

definition claim :: "osys \<Rightarrow> nat \<Rightarrow> nat set" where
  "claim s t = uses s t \<union> pc_claim (opcs s t)"

text \<open>Words that stand in the table come from processes that have started, possibly from two of them when
  they were read apart.\<close>

definition mixed :: "(nat \<Rightarrow> process_id) \<Rightarrow> nat set \<Rightarrow> process_id \<Rightarrow> bool" where
  "mixed ident ps v \<longleftrightarrow> p_pid v \<in> insert 0 ((\<lambda>p. p_pid (ident p)) ` ps) \<and> p_btime v \<in> insert 0 ((\<lambda>p. p_btime (ident p)) ` ps)"

definition dead :: "(nat \<Rightarrow> process_id) \<Rightarrow> osys \<Rightarrow> process_id \<Rightarrow> bool" where
  "dead ident s v \<longleftrightarrow> IsValid v \<and> mixed ident (started s) v \<and> (\<forall>p \<in> alive s. ident p \<noteq> v)"

fun pc_ok :: "(nat \<Rightarrow> process_id) \<Rightarrow> osys \<Rightarrow> process_id \<Rightarrow> opc \<Rightarrow> bool" where
  "pc_ok ident s me (Cas For_Acquire i old new ph) = (old = no_process \<and> new = me)"
| "pc_ok ident s me (Cas For_Release i old new ph) = (old = me \<and> new = no_process)"
| "pc_ok ident s me (Cas For_Revoke i old new ph) = (dead ident s old \<and> new = no_process)"
| "pc_ok ident s me (Cas For_Recover i old new ph) = (dead ident s old \<and> new = me)"
| "pc_ok ident s me (Revoke2 i rec x) = mixed ident (started s) \<lparr>p_pid = x, p_btime = 0\<rparr>"
| "pc_ok ident s me (Signal i rec v) = (IsValid v \<and> mixed ident (started s) v)"
| "pc_ok ident s me (Stat i rec v) = (IsValid v \<and> mixed ident (started s) v)"
| "pc_ok ident s me (Set_Pid i v) = dead ident s v"
| "pc_ok ident s me (Recover i v) = mixed ident (started s) v"
| "pc_ok ident s me (Write i w) = mixed ident (started s) w"
| "pc_ok ident s me (Write2 i w x) = mixed ident (started s) w"
| "pc_ok ident s me (Write_Cas i w old) = mixed ident (started s) w"
| "pc_ok ident s me pc = True"

text \<open>What \<open>kill\<close> and \<open>GetBtime\<close> answer of the living processes, if no command has a blank in its name.\<close>

definition btimes_ok :: "(nat \<Rightarrow> process_id) \<Rightarrow> nat set \<Rightarrow> os_view \<Rightarrow> bool" where
  "btimes_ok ident ps os \<longleftrightarrow> (\<forall>p \<in> ps. IsValid (ident p) \<and> kill0 os (ucast (p_pid (ident p))) \<noteq> Kill_ESRCH \<and>
     GetBtime os (p_pid (ident p)) = Inr (p_btime (ident p)))"

lemma btimes_okI: "os_ok names ident ps os \<Longrightarrow> \<forall>c \<in> names. CHR '' '' \<notin> set c \<Longrightarrow> btimes_ok ident ps os"
  using GetBtime_stat_of by (fastforce simp: os_ok_def btimes_ok_def)

definition procs_ok :: "(nat \<Rightarrow> process_id) \<Rightarrow> osys \<Rightarrow> bool" where
  "procs_ok ident s \<longleftrightarrow> alive s \<subseteq> started s \<and> btimes_ok ident (alive s) (oview s) \<and> (\<forall>p \<in> alive s. opid s p = ident p) \<and>
     inj_on ident (started s)"

definition claims_ok :: "(nat \<Rightarrow> nat) \<Rightarrow> (nat \<Rightarrow> process_id) \<Rightarrow> osys \<Rightarrow> bool" where
  "claims_ok proc_of ident s \<longleftrightarrow>
     (\<forall>t i. proc_of t \<in> alive s \<and> i \<in> claim s t \<longrightarrow> oitems s i = ident (proc_of t)) \<and>
     (\<forall>t t' i. proc_of t \<in> alive s \<and> proc_of t' \<in> alive s \<and> i \<in> claim s t \<and> i \<in> claim s t' \<longrightarrow> t = t') \<and>
     (\<forall>t. proc_of t \<in> alive s \<longrightarrow> uses s t \<inter> pc_claim (opcs s t) = {})"

definition oinv :: "(nat \<Rightarrow> nat) \<Rightarrow> (nat \<Rightarrow> process_id) \<Rightarrow> osys \<Rightarrow> bool" where
  "oinv proc_of ident s \<longleftrightarrow> procs_ok ident s \<and> claims_ok proc_of ident s \<and>
     (\<forall>i. mixed ident (started s) (oitems s i)) \<and>
     (\<forall>t. proc_of t \<in> alive s \<longrightarrow> pc_ok ident s (ident (proc_of t)) (opcs s t)) \<and>
     (\<forall>t. proc_of t \<notin> started s \<longrightarrow> opcs s t = Out \<and> uses s t = {})"

lemma claims_okD:
  assumes "claims_ok proc_of ident s" "proc_of t \<in> alive s"
  shows "i \<in> claim s t \<Longrightarrow> oitems s i = ident (proc_of t)"
    "proc_of t' \<in> alive s \<Longrightarrow> i \<in> claim s t \<Longrightarrow> i \<in> claim s t' \<Longrightarrow> t' = t"
    "uses s t \<inter> pc_claim (opcs s t) = {}"
  using assms unfolding claims_ok_def by blast+

section \<open>Facts about processes\<close>

lemma mixed_none [simp]: "mixed ident ps no_process"
  by (simp add: mixed_def no_process_def)

lemma mixed_ident: "p \<in> ps \<Longrightarrow> mixed ident ps (ident p)"
  by (simp add: mixed_def)

lemma mixed_mono: "mixed ident ps v \<Longrightarrow> ps \<subseteq> qs \<Longrightarrow> mixed ident qs v"
  by (auto simp: mixed_def)

lemma mixed_apart: "mixed ident ps \<lparr>p_pid = x, p_btime = 0\<rparr> \<Longrightarrow> mixed ident ps v \<Longrightarrow> mixed ident ps \<lparr>p_pid = x, p_btime = p_btime v\<rparr>"
  by (simp add: mixed_def)

lemma mixed_pid: "mixed ident ps v \<Longrightarrow> mixed ident ps \<lparr>p_pid = p_pid v, p_btime = 0\<rparr>"
  by (simp add: mixed_def)

lemma fresh_not_mixed:
  assumes "fresh_process ident ps p" "IsValid (ident p)" "mixed ident ps v"
  shows "ident p \<noteq> v"
  using assms by (fastforce simp: fresh_process_def IsValid_def mixed_def)

lemma SetPid_ident:
  assumes "btimes_ok ident ps os" "p \<in> ps"
  shows "SetPid os (p_pid (ident p)) = Inr (ident p)"
  using assms by (auto simp: btimes_ok_def SetPid_def IsValid_def)

lemma no_process_invalid: "btimes_ok ident ps os \<Longrightarrow> p \<in> ps \<Longrightarrow> ident p \<noteq> no_process"
  by (auto simp: btimes_ok_def IsValid_def no_process_def)

text \<open>A process that is not alive by \<open>IsAlive\<close>.\<close>

lemma signal_dead:
  assumes "procs_ok ident s" "IsValid v" "mixed ident (started s) v" "kill0 (oview s) (ucast (p_pid v)) = Kill_ESRCH"
  shows "dead ident s v"
  using assms by (auto simp: procs_ok_def btimes_ok_def dead_def)

lemma stat_dead:
  assumes "procs_ok ident s" "IsValid v" "mixed ident (started s) v" "same_btime (oview s) v = Inr False"
  shows "dead ident s v"
  using assms by (fastforce simp: procs_ok_def btimes_ok_def dead_def same_btime_def)

section \<open>Steps that change an item\<close>

text \<open>A successful compare-and-store of an item that no living thread claims, or that the thread itself claims.\<close>

lemma oinv_parts:
  assumes "oinv proc_of ident s"
  shows "procs_ok ident s" "claims_ok proc_of ident s" "\<And>i. mixed ident (started s) (oitems s i)"
    "\<And>t. proc_of t \<in> alive s \<Longrightarrow> pc_ok ident s (ident (proc_of t)) (opcs s t)"
    "\<And>t. proc_of t \<notin> started s \<Longrightarrow> opcs s t = Out \<and> uses s t = {}"
  using assms by (auto simp: oinv_def)

lemma pc_ok_cong:
  assumes "pc_ok ident s me pc" "alive s' \<subseteq> alive s" "started s' = started s"
  shows "pc_ok ident s' me pc"
proof -
  have "dead ident s' v" if "dead ident s v" for v using that assms(2,3) by (auto simp: dead_def)
  then show ?thesis using assms(1,3) by (cases "(ident, s, me, pc)" rule: pc_ok.cases) auto
qed

text \<open>The shape of every \<open>run\<close> step: one program counter and at most one item change.\<close>

definition moved :: "(nat \<Rightarrow> nat) \<Rightarrow> osys \<Rightarrow> nat \<Rightarrow> opc \<Rightarrow> nat \<Rightarrow> process_id \<Rightarrow> osys" where
  "moved proc_of s t pc i w = s\<lparr>opcs := (opcs s)(t := pc), oitems := (oitems s)(i := w)\<rparr>"

text \<open>The change is allowed if nobody else claims the item, and the new claim has the right value.\<close>

lemma moved_inv:
  assumes I: "oinv proc_of ident s" and a: "proc_of t \<in> alive s"
    and w: "mixed ident (started s) w" "pc_ok ident s (ident (proc_of t)) pc"
    and free: "w = oitems s i \<or> (\<forall>t'. proc_of t' \<in> alive s \<and> i \<in> claim s t' \<longrightarrow> t' = t)"
    and mine: "w = oitems s i \<or> i \<notin> uses s t"
    and c: "pc_claim pc \<subseteq> pc_claim (opcs s t) \<or> (pc_claim pc \<subseteq> {i} \<and> w = ident (proc_of t) \<and> (\<forall>t'. proc_of t' \<in> alive s \<longrightarrow> i \<notin> claim s t'))"
    and left: "w = oitems s i \<or> pc_claim pc = {} \<or> w = ident (proc_of t)"
    and one: "w = oitems s i \<or> pc_claim pc \<subseteq> {i}"
  shows "oinv proc_of ident (moved proc_of s t pc i w)"
proof -
  let ?s = "moved proc_of s t pc i w"
  have f: "alive ?s = alive s" "started ?s = started s" "opid ?s = opid s" "oview ?s = oview s" "uses ?s = uses s"
    "opcs ?s = (opcs s)(t := pc)" "oitems ?s = (oitems s)(i := w)" by (simp_all add: moved_def)
  have cl: "claim ?s t' = (if t' = t then uses s t \<union> pc_claim pc else claim s t')" for t' by (simp add: claim_def f)
  have C: "\<And>t i. proc_of t \<in> alive s \<Longrightarrow> i \<in> claim s t \<Longrightarrow> oitems s i = ident (proc_of t)"
    "\<And>t t' i. proc_of t \<in> alive s \<Longrightarrow> proc_of t' \<in> alive s \<Longrightarrow> i \<in> claim s t \<Longrightarrow> i \<in> claim s t' \<Longrightarrow> t = t'"
    "\<And>t. proc_of t \<in> alive s \<Longrightarrow> uses s t \<inter> pc_claim (opcs s t) = {}"
    using claims_okD [OF oinv_parts(2) [OF I]] by blast+
  have sub: "j \<in> claim s t" if "j \<in> uses s t \<union> pc_claim (opcs s t)" for j using that by (simp add: claim_def)
  have "procs_ok ident ?s" using oinv_parts(1) [OF I] by (simp add: procs_ok_def f)
  moreover have "claims_ok proc_of ident ?s"
    unfolding claims_ok_def f cl
  proof (intro conjI allI impI)
    fix t' j assume h: "proc_of t' \<in> alive s \<and> j \<in> (if t' = t then uses s t \<union> pc_claim pc else claim s t')"
    show "((oitems s)(i := w)) j = ident (proc_of t')"
    proof (cases "t' = t")
      case True
      then have "j \<in> uses s t \<or> j \<in> pc_claim pc" using h by auto
      then show ?thesis using True C(1) [OF a, of j] sub [of j] mine c left one by (auto simp: claim_def)
    next
      case False then show ?thesis using h C(1) [of t' j] free by auto
    qed
  next
    fix t1 t2 j
    assume h: "proc_of t1 \<in> alive s \<and> proc_of t2 \<in> alive s \<and> j \<in> (if t1 = t then uses s t \<union> pc_claim pc else claim s t1) \<and>
      j \<in> (if t2 = t then uses s t \<union> pc_claim pc else claim s t2)"
    have m: "j \<in> claim s t \<or> (j = i \<and> (\<forall>t'. proc_of t' \<in> alive s \<longrightarrow> i \<notin> claim s t'))" if "j \<in> uses s t \<union> pc_claim pc"
      using that c by (auto simp: claim_def)
    show "t1 = t2" using h m C(2) [of t1 t2 j] by (auto split: if_splits)
  next
    fix t' :: nat and j :: nat assume h: "proc_of t' \<in> alive s"
    show "uses s t' \<inter> pc_claim (((opcs s)(t := pc)) t') = {}"
      using C(3) [OF h] c h by (auto simp: claim_def)
  qed
  moreover have "mixed ident (started s) (((oitems s)(i := w)) j)" for j using oinv_parts(3) [OF I] w(1) by simp
  moreover have "pc_ok ident ?s (ident (proc_of t')) (((opcs s)(t := pc)) t')" if "proc_of t' \<in> alive s" for t'
    using pc_ok_cong [of ident s _ _ ?s] oinv_parts(4) [OF I that] w(2) by (simp add: f)
  moreover have "((opcs s)(t := pc)) t' = Out \<and> uses s t' = {}" if "proc_of t' \<notin> started s" for t'
    using oinv_parts(5) [OF I that] that a oinv_parts(1) [OF I] by (auto simp: procs_ok_def)
  ultimately show ?thesis by (simp add: oinv_def f)
qed

text \<open>The two uses of it: a step that changes no item, and one that replaces the compared value.\<close>

lemma moved_same:
  assumes "oinv proc_of ident s" "proc_of t \<in> alive s" "pc_ok ident s (ident (proc_of t)) pc" "pc_claim pc \<subseteq> pc_claim (opcs s t)"
  shows "oinv proc_of ident (s\<lparr>opcs := (opcs s)(t := pc)\<rparr>)"
  using moved_inv [OF assms(1,2) oinv_parts(3) [OF assms(1), of 0] assms(3), where i = 0] assms(4) by (simp add: moved_def)

lemma moved_free:
  assumes "oinv proc_of ident s" "proc_of t \<in> alive s" "\<forall>p \<in> alive s. oitems s i \<noteq> ident p"
    "mixed ident (started s) w" "pc_ok ident s (ident (proc_of t)) pc" "pc_claim pc = {} \<or> (pc_claim pc = {i} \<and> w = ident (proc_of t))"
  shows "oinv proc_of ident (moved proc_of s t pc i w)"
proof -
  have "i \<notin> claim s t'" if "proc_of t' \<in> alive s" for t'
    using oinv_parts(2) [OF assms(1)] assms(3) that by (auto simp: claims_ok_def)
  moreover from this [OF assms(2)] have "i \<notin> uses s t" by (simp add: claim_def)
  ultimately show ?thesis using moved_inv [OF assms(1,2,4,5), of i] assms(6) by fastforce
qed

lemma moved_own:
  assumes "oinv proc_of ident s" "proc_of t \<in> alive s" "i \<in> pc_claim (opcs s t)"
    "mixed ident (started s) w" "pc_ok ident s (ident (proc_of t)) pc" "pc_claim pc = {}"
  shows "oinv proc_of ident (moved proc_of s t pc i w)"
proof -
  have "i \<in> claim s t" using assms(3) by (simp add: claim_def)
  then have "t' = t" if "proc_of t' \<in> alive s \<and> i \<in> claim s t'" for t'
    using claims_okD(2) [OF oinv_parts(2) [OF assms(1)] assms(2)] that by blast
  moreover have "i \<notin> uses s t" using claims_okD(3) [OF oinv_parts(2) [OF assms(1)] assms(2)] assms(3) by blast
  ultimately show ?thesis using moved_inv [OF assms(1,2,4,5), of i] assms(6) by fastforce
qed

text \<open>Nobody alive owns an item that is 0, or that has a dead owner.\<close>

lemma free_item:
  assumes "oinv proc_of ident s" "v = no_process \<or> dead ident s v"
  shows "\<forall>p \<in> alive s. v \<noteq> ident p"
  using assms(2) oinv_parts(1) [OF assms(1)] no_process_invalid [of ident "alive s" "oview s"]
  by (auto simp: procs_ok_def dead_def)

lemma ident_mixed: "oinv proc_of ident s \<Longrightarrow> p \<in> alive s \<Longrightarrow> mixed ident (started s) (ident p)"
  using oinv_parts(1) [of proc_of ident s] mixed_ident [of p "started s" ident] by (auto simp: procs_ok_def)

section \<open>The steps\<close>

text \<open>Compare-and-store, by use.\<close>

lemma cas_inv:
  assumes I: "oinv proc_of ident s" and a: "proc_of t \<in> alive s" and pc: "opcs s t = Cas use i old new Try" and hit: "oitems s i = old"
  shows "oinv proc_of ident (moved proc_of s t (cas_done use i old old) i new)"
proof -
  have ok: "pc_ok ident s (ident (proc_of t)) (Cas use i old new Try)" using oinv_parts(4) [OF I a] pc by simp
  show ?thesis
  proof (cases use)
    case For_Acquire
    then show ?thesis using ok hit moved_free [OF I a, of i "ident (proc_of t)" "Acquired i True"] free_item [OF I] ident_mixed [OF I a] by simp
  next
    case For_Release
    then show ?thesis using ok moved_own [OF I a, of i no_process "Released i True"] pc by simp
  next
    case For_Revoke
    then show ?thesis using ok hit moved_free [OF I a, of i no_process Done] free_item [OF I] by simp
  next
    case For_Recover
    then have "mixed ident (started s) old" using ok by (simp add: dead_def)
    then show ?thesis using For_Recover ok hit moved_free [OF I a, of i "ident (proc_of t)" "Recover i old"] free_item [OF I, of old]
        ident_mixed [OF I a] by simp
  qed
qed

lemma cas_lost:
  assumes I: "oinv proc_of ident s" and a: "proc_of t \<in> alive s" and pc: "opcs s t = Cas use i old new ph" and miss: "result \<noteq> old"
  shows "oinv proc_of ident (s\<lparr>opcs := (opcs s)(t := cas_done use i old result)\<rparr>)"
  using moved_same [OF I a, of "cas_done use i old result"] miss pc by (cases use) auto

lemma cas_again:
  assumes I: "oinv proc_of ident s" and a: "proc_of t \<in> alive s" and pc: "opcs s t = Cas use i old new ph"
  shows "oinv proc_of ident (s\<lparr>opcs := (opcs s)(t := Cas use i old new ph')\<rparr>)"
  using moved_same [OF I a, of "Cas use i old new ph'"] oinv_parts(4) [OF I a] pc by (cases use) auto

lemma not_alive_inv:
  assumes I: "oinv proc_of ident s" and a: "proc_of t \<in> alive s" and d: "dead ident s v"
  shows "oinv proc_of ident (s\<lparr>opcs := (opcs s)(t := not_alive i rec v)\<rparr>)"
  using moved_same [OF I a, of "not_alive i rec v"] d by (simp add: not_alive_def)

lemma run_inv:
  assumes I: "oinv proc_of ident s" and a: "proc_of t \<in> alive s"
    and st: "own_step (oview s) (p_pid (ident (proc_of t))) ret (opcs s t) (opid s (proc_of t)) (oitems s) = Inr (pc', pid', m')"
  shows "oinv proc_of ident (s\<lparr>opcs := (opcs s)(t := pc'), opid := (opid s)(proc_of t := pid'), oitems := m'\<rparr>)"
proof -
  have P: "procs_ok ident s" and ok: "pc_ok ident s (ident (proc_of t)) (opcs s t)" and M: "\<And>i. mixed ident (started s) (oitems s i)"
    using oinv_parts [OF I] a by blast+
  have me: "opid s (proc_of t) = ident (proc_of t)" and sp: "SetPid (oview s) (p_pid (ident (proc_of t))) = Inr (ident (proc_of t))"
    using P a SetPid_ident by (auto simp: procs_ok_def)
  have pid: "pid' = ident (proc_of t)" using st me sp
    by (cases "(oview s, p_pid (ident (proc_of t)), ret, opcs s t, opid s (proc_of t), oitems s)" rule: own_step.cases)
      (auto simp: Let_def split: if_splits kill_result.splits)
  have same: "oinv proc_of ident (s\<lparr>opcs := (opcs s)(t := pc'), opid := (opid s)(proc_of t := pid'), oitems := m'\<rparr>)"
    if "oinv proc_of ident (s\<lparr>opcs := (opcs s)(t := pc')\<rparr>)" "m' = oitems s"
    using that pid me by (simp add: fun_upd_idem)
  have new: "oinv proc_of ident (s\<lparr>opcs := (opcs s)(t := pc'), opid := (opid s)(proc_of t := pid'), oitems := m'\<rparr>)"
    if "oinv proc_of ident (moved proc_of s t pc' i w)" "m' = (oitems s)(i := w)" for i w
    using that pid me by (simp add: fun_upd_idem moved_def)
  note stay = same [OF moved_same [OF I a]]
  show ?thesis
  proof (cases "opcs s t")
    case (Cas use i old new ph)
    show ?thesis
    proof (cases ph)
      case Try
      show ?thesis
      proof (cases "oitems s i = old")
        case True
        then show ?thesis using st Cas Try cas_inv [OF I a] by (intro new [of i new]) auto
      next
        case False
        then show ?thesis using st Cas Try cas_again [OF I a Cas, of Sample] same by simp
      qed
    next
      case Sample
      then show ?thesis using st Cas cas_again [OF I a Cas] same by auto
    next
      case (Sample2 x)
      then show ?thesis using st Cas cas_again [OF I a Cas, of Try] cas_lost [OF I a Cas] same by (auto simp: Let_def split: if_splits)
    qed
  next
    case (Revoke2 i rec x)
    then have "mixed ident (started s) \<lparr>p_pid = x, p_btime = p_btime (oitems s i)\<rparr>" using ok M mixed_apart by simp
    then show ?thesis using st Revoke2 by (intro stay) (auto simp: look_at_def split: if_splits)
  next
    case (Revoke i rec) then show ?thesis using st mixed_pid [OF M [of i]] by (intro stay) auto
  next
    case (Signal i rec v)
    then have v: "IsValid v" "mixed ident (started s) v" using ok by simp_all
    show ?thesis
    proof (cases "kill0 (oview s) (ucast (p_pid v))")
      case Kill_ESRCH
      then show ?thesis using st Signal not_alive_inv [OF I a signal_dead [OF P v Kill_ESRCH], of i rec] by (intro same) auto
    next
      case Kill_Ok then show ?thesis using st Signal v by (intro stay) auto
    next
      case Kill_Error then show ?thesis using st Signal v by (intro stay) auto
    qed
  next
    case (Stat i rec v)
    then have v: "IsValid v" "mixed ident (started s) v" using ok by simp_all
    from st Stat obtain b where b: "same_btime (oview s) v = Inr b" by auto
    show ?thesis
    proof (cases b)
      case False
      then have "same_btime (oview s) v = Inr False" using b by simp
      then show ?thesis using st Stat not_alive_inv [OF I a stat_dead [OF P v], of i rec] by (intro same) auto
    next
      case True then show ?thesis using st Stat b by (intro stay) auto
    qed
  next
    case (Write_Cas i w old)
    show ?thesis
    proof (cases "oitems s i = old")
      case True
      then show ?thesis using st Write_Cas ok moved_own [OF I a, of i w Done] by (intro new [of i w]) auto
    next
      case False then show ?thesis using st Write_Cas ok by (intro stay) auto
    qed
  next
    case (Acquire i) then show ?thesis using st sp by (intro stay) auto
  next
    case (Set_Pid i v) then show ?thesis using st sp ok by (intro stay) auto
  next
    case (Recover i v) then show ?thesis using st ok by (intro stay) (auto split: if_splits)
  qed (use st ok in \<open>(intro stay; auto)+\<close>)
qed

text \<open>Calls and returns move a claim between the program counter and \<open>uses\<close>.\<close>

lemma same_claims:
  assumes I: "oinv proc_of ident s" and a: "proc_of t \<in> alive s" and ok: "pc_ok ident s (ident (proc_of t)) pc"
    and c: "us \<union> pc_claim pc \<subseteq> claim s t" "us \<inter> pc_claim pc = {}"
  shows "oinv proc_of ident (s\<lparr>opcs := (opcs s)(t := pc), uses := (uses s)(t := us)\<rparr>)"
proof -
  let ?s = "s\<lparr>opcs := (opcs s)(t := pc), uses := (uses s)(t := us)\<rparr>"
  have cl: "claim ?s t' \<subseteq> claim s t'" for t' using c(1) by (auto simp: claim_def)
  note C = claims_okD [OF oinv_parts(2) [OF I]]
  have "claims_ok proc_of ident ?s" unfolding claims_ok_def
  proof (intro conjI allI impI)
    fix t' j assume "proc_of t' \<in> alive ?s \<and> j \<in> claim ?s t'"
    then show "oitems ?s j = ident (proc_of t')" using cl [of t'] C(1) [of t' j] by auto
  next
    fix t1 t2 j assume "proc_of t1 \<in> alive ?s \<and> proc_of t2 \<in> alive ?s \<and> j \<in> claim ?s t1 \<and> j \<in> claim ?s t2"
    then show "t1 = t2" using cl [of t1] cl [of t2] C(2) [of t2 t1 j] by auto
  next
    fix t' assume "proc_of t' \<in> alive ?s"
    then show "uses ?s t' \<inter> pc_claim (opcs ?s t') = {}" using C(3) [of t'] c(2) by simp
  qed
  moreover have "pc_ok ident ?s (ident (proc_of t')) (opcs ?s t')" if "proc_of t' \<in> alive s" for t'
    using pc_ok_cong [of ident s _ _ ?s] oinv_parts(4) [OF I that] ok by simp
  moreover have "t' \<noteq> t" if "proc_of t' \<notin> started s" for t' using that a oinv_parts(1) [OF I] by (auto simp: procs_ok_def)
  ultimately show ?thesis using I by (simp add: oinv_def procs_ok_def)
qed

lemma start_inv:
  assumes I: "oinv proc_of ident s" and f: "fresh_process ident (started s) p" and os: "btimes_ok ident (insert p (alive s)) os"
    and v: "SetPid os (p_pid (ident p)) = Inr v"
  shows "oinv proc_of ident (s\<lparr>oview := os, opid := (opid s)(p := v), alive := insert p (alive s), started := insert p (started s)\<rparr>)"
    (is "oinv proc_of ident ?s")
proof -
  have vp: "v = ident p" using SetPid_ident [OF os, of p] v by simp
  have valid: "IsValid (ident p)" using os by (simp add: btimes_ok_def)
  have new: "p \<notin> started s" using f by (simp add: fresh_process_def)
  have P: "procs_ok ident s" by (rule oinv_parts(1) [OF I])
  have "ident p \<noteq> ident q" if "q \<in> started s" for q using fresh_not_mixed [OF f valid mixed_ident [of q "started s" ident]] that by simp
  then have "ident p \<notin> ident ` started s" by auto
  then have "procs_ok ident ?s" using P os vp new by (auto simp: procs_ok_def)
  moreover have idle: "opcs s t = Out \<and> uses s t = {}" if "proc_of t = p" for t using oinv_parts(5) [OF I] new that by simp
  have al: "proc_of t \<in> alive s" if "proc_of t \<in> alive ?s" "j \<in> claim s t" for t j
    using that idle [of t] by (auto simp: claim_def)
  have "claims_ok proc_of ident ?s" unfolding claims_ok_def
  proof (intro conjI allI impI)
    fix t' j assume h: "proc_of t' \<in> alive ?s \<and> j \<in> claim ?s t'"
    then have "j \<in> claim s t'" by (simp add: claim_def)
    then show "oitems ?s j = ident (proc_of t')" using h al claims_okD(1) [OF oinv_parts(2) [OF I]] by auto
  next
    fix t1 t2 j assume h: "proc_of t1 \<in> alive ?s \<and> proc_of t2 \<in> alive ?s \<and> j \<in> claim ?s t1 \<and> j \<in> claim ?s t2"
    then have "j \<in> claim s t1" "j \<in> claim s t2" by (simp_all add: claim_def)
    then show "t1 = t2" using h al claims_okD(2) [OF oinv_parts(2) [OF I], of t2 t1 j] by blast
  next
    fix t' assume "proc_of t' \<in> alive ?s"
    then show "uses ?s t' \<inter> pc_claim (opcs ?s t') = {}" using claims_okD(3) [OF oinv_parts(2) [OF I], of t'] idle [of t'] by auto
  qed
  moreover have mx: "mixed ident (insert p (started s)) w" if "mixed ident (started s) w" for w using mixed_mono [OF that] by blast
  moreover have "pc_ok ident ?s (ident (proc_of t)) (opcs ?s t)" if "proc_of t \<in> alive ?s" for t
  proof (cases "proc_of t = p")
    case False
    have "dead ident ?s w" if "dead ident s w" for w
      using that mx fresh_not_mixed [OF f valid, of w] by (auto simp: dead_def)
    moreover have "pc_ok ident s (ident (proc_of t)) (opcs s t)" using oinv_parts(4) [OF I] that False by simp
    ultimately show ?thesis using mx
      by (cases "(ident, s, ident (proc_of t), opcs s t)" rule: pc_ok.cases) auto
  qed (use idle in simp)
  ultimately show ?thesis using I mx by (simp add: oinv_def)
qed

lemma die_inv:
  assumes I: "oinv proc_of ident s"
  shows "oinv proc_of ident (s\<lparr>alive := alive s - {p}\<rparr>)" (is "oinv proc_of ident ?s")
proof -
  have "procs_ok ident ?s" using oinv_parts(1) [OF I] by (auto simp: procs_ok_def btimes_ok_def)
  moreover have "claims_ok proc_of ident ?s" using oinv_parts(2) [OF I] by (auto simp: claims_ok_def claim_def)
  moreover have "pc_ok ident ?s (ident (proc_of t)) (opcs ?s t)" if "proc_of t \<in> alive ?s" for t
    using that oinv_parts(4) [OF I, of t] pc_ok_cong [of ident s "ident (proc_of t)" "opcs s t" ?s] by auto
  ultimately show ?thesis using I by (simp add: oinv_def)
qed

lemma oinv_start: "oinv proc_of ident (ostart os)"
  by (simp add: oinv_def ostart_def procs_ok_def claims_ok_def claim_def btimes_ok_def)

lemma oinv_step:
  assumes "ostep names proc_of ident s s'" "\<forall>c \<in> names. CHR '' '' \<notin> set c"
  shows "oinv proc_of ident s \<Longrightarrow> oinv proc_of ident s'"
  using assms(1)
proof (induction rule: ostep.induct)
  case (call t s pc i rec)
  then show ?case using moved_same [OF call.prems call.hyps(1), of pc]
    by (auto simp: AcquireItem_def CheckItem_def CheckAndRevokeItem_def)
next
  case (call_release t s i)
  have "opid s (proc_of t) = ident (proc_of t)" using oinv_parts(1) [OF call_release.prems] call_release.hyps(1) by (auto simp: procs_ok_def)
  then show ?case using same_claims [OF call_release.prems call_release.hyps(1), of "ReleaseItem (opid s (proc_of t)) i" "uses s t - {i}"]
      call_release.hyps(3) by (auto simp: ReleaseItem_def claim_def)
next
  case (run t s ret pc' pid' m')
  then show ?case using run_inv by blast
next
  case (returned t s us)
  have "us \<subseteq> claim s t" using returned.hyps(2) by (auto simp: own_return_def claim_def split: opc.splits if_splits)
  then show ?case using same_claims [OF returned.prems returned.hyps(1), of Out us] by simp
next
  case (system s os)
  then show ?case using btimes_okI [OF system.hyps assms(2)] pc_ok_cong [of ident s _ _ "s\<lparr>oview := os\<rparr>"]
    by (auto simp: oinv_def procs_ok_def claims_ok_def claim_def)
next
  case (start s p os v)
  then show ?case using start_inv btimes_okI [OF start.hyps(2) assms(2)] by blast
next
  case (die s p)
  then show ?case using die_inv by blast
qed

lemma oreach_oinv: "oreach names proc_of ident s \<Longrightarrow> \<forall>c \<in> names. CHR '' '' \<notin> set c \<Longrightarrow> oinv proc_of ident s"
  by (induction rule: oreach.induct) (blast intro: oinv_start oinv_step)+

end
