(* ===== verification/Ownership_Props.thy ===== *)
theory Ownership_Props
  imports Ownership_Conc
begin

text \<open>The properties of the table of owners.\<close>

section \<open>One owner at a time\<close>

text \<open>An item a thread works on: it acquired the item and has not begun to release it, or it runs the recovery.\<close>

definition works_on :: "osys \<Rightarrow> nat \<Rightarrow> nat \<Rightarrow> bool" where
  "works_on s t i \<longleftrightarrow> i \<in> uses s t \<or> opcs s t = Acquired i True \<or> (\<exists>v. opcs s t = Recover i v)"

lemma works_on_claim: "works_on s t i \<Longrightarrow> i \<in> claim s t"
  by (auto simp: works_on_def claim_def)

text \<open>C9: Whatever the threads of any number of processes call in any interleaving, whoever dies at any moment and
  whichever processes start anew with used pids: no two threads of living processes work on the same item, and
  the item of a working thread names its process. In particular the recovery of an item never runs while its owner
  or another recovery of it is alive, although the checks read the owner in two loads. No command may have a blank in
  its name (C36 shows why), and no process starts with the pid and in the clock tick of earlier ones.\<close>

theorem ownership_exclusive:
  assumes "oreach names proc_of ident s" "\<forall>c \<in> names. CHR '' '' \<notin> set c" "proc_of t \<in> alive s" "works_on s t i"
  shows "oitems s i = ident (proc_of t) \<and> (\<forall>t'. proc_of t' \<in> alive s \<and> works_on s t' i \<longrightarrow> t' = t)"
  using claims_okD [OF oinv_parts(2) [OF oreach_oinv [OF assms(1,2)]] assms(3)] works_on_claim assms(4) by blast

text \<open>A process 0 with pid 7 that has started and acquired item 3 by its thread 0.\<close>

definition plain_os :: os_view where
  "plain_os = \<lparr>kill0 = (\<lambda>_. Kill_Ok),
     stat_file = (\<lambda>_. Some (stat_line ''7'' ''gull'' (replicate 19 ''0'' @ [''5''])))\<rparr>"

definition ident_7 :: "nat \<Rightarrow> process_id" where "ident_7 p = \<lparr>p_pid = 7, p_btime = 5\<rparr>"

lemma plain_btime: "GetBtime plain_os p = Inr 5"
proof -
  have "GetBtime plain_os p = map_sum id of_int (stol ''5'')"
    using GetBtime_plain [of plain_os p "''7''" "''gull''" "replicate 19 ''0'' @ [''5'']"] by (simp add: plain_os_def blankless_def nth_append)
  also have "\<dots> = Inr 5" by (simp add: stol_def is_digit_def is_space_def read_digits_def Let_def)
  finally show ?thesis .
qed

lemma digit_5: "digit 5 = CHR ''5''"
  by code_simp

lemma plain_stat: "p_btime v = 5 \<Longrightarrow> stat_of {''gull''} v (stat_file plain_os p)"
  unfolding stat_of_def
  by (rule exI [of _ "''7''"], rule exI [of _ "''gull''"], rule exI [of _ "replicate 19 ''0'' @ [''5'']"])
    (simp add: plain_os_def blankless_def nth_append to_string.simps digit_5)

definition one_owner :: osys where
  "one_owner = \<lparr>oitems = (\<lambda>_. no_process)(3 := ident_7 0), opcs = (\<lambda>_. Out), opid = (\<lambda>_. no_process)(0 := ident_7 0), oview = plain_os,
     uses = (\<lambda>_. {})(0 := {3}), alive = {0}, started = {0}\<rparr>"

lemma one_owner_reach:
  assumes "ident 0 = ident_7 0"
  shows "oreach {''gull''} id ident one_owner"
proof -
  let ?st = "\<lambda>m pc us. \<lparr>oitems = m, opcs = (\<lambda>_. Out)(0 := pc), opid = (\<lambda>_. no_process)(0 := ident_7 0), oview = plain_os,
     uses = (\<lambda>_. {})(0 := us), alive = {0}, started = {0}\<rparr>"
  let ?m = "(\<lambda>_. no_process)(3 := ident_7 0)"
  have v: "ident 0 = \<lparr>p_pid = 7, p_btime = 5\<rparr>" using assms by (simp add: ident_7_def)
  have os: "os_ok {''gull''} ident {0} plain_os"
    by (simp add: os_ok_def v IsValid_def plain_stat) (simp add: plain_os_def)
  have sp: "SetPid plain_os 7 = Inr (ident_7 0)" by (simp add: SetPid_def plain_btime ident_7_def)
  have "oreach {''gull''} id ident (?st (\<lambda>_. no_process) Out {})"
    using oreach.step [OF oreach.init [of _ _ _ plain_os] ostep.start [of ident _ 0 _ plain_os "ident_7 0"]] os sp
    by (simp add: ostart_def fresh_process_def v fun_upd_idem)
  from oreach.step [OF this ostep.call [of id 0 _ "AcquireItem 3" 3 True]]
  have "oreach {''gull''} id ident (?st (\<lambda>_. no_process) (Acquire 3) {})" by (simp add: AcquireItem_def)
  from oreach.step [OF this ostep.run [of id 0 _ ident NO_ERROR "Cas For_Acquire 3 no_process (ident_7 0) Try" "ident_7 0" "\<lambda>_. no_process"]]
  have "oreach {''gull''} id ident (?st (\<lambda>_. no_process) (Cas For_Acquire 3 no_process (ident_7 0) Try) {})"
    using sp by (simp add: v)
  from oreach.step [OF this ostep.run [of id 0 _ ident NO_ERROR "Acquired 3 True" "ident_7 0" ?m]]
  have "oreach {''gull''} id ident (?st ?m (Acquired 3 True) {})" by simp
  from oreach.step [OF this ostep.returned [of id 0 _ "{3}"]] show ?thesis
    by (simp add: own_return_def one_owner_def fun_upd_idem)
qed

lemma ownership_exclusive_witness:
  "oitems one_owner 3 = ident_7 0 \<and> {t. id t \<in> alive one_owner \<and> works_on one_owner t 3} = {0}"
proof -
  have "works_on one_owner 0 3" "0 \<in> alive one_owner" by (simp_all add: one_owner_def works_on_def)
  then show ?thesis using ownership_exclusive [OF one_owner_reach [of ident_7, OF refl], of 0 3] by auto
qed

section \<open>Dead owners\<close>

lemma process_id_eta [simp]: "\<lparr>p_pid = p_pid v, p_btime = p_btime v\<rparr> = v"
  by simp

text \<open>A thread that runs alone; the recovery returns \<open>ret\<close>.\<close>

fun own_run :: "os_view \<Rightarrow> u64 \<Rightarrow> error_code \<Rightarrow> nat \<Rightarrow> opc \<times> process_id \<times> (nat \<Rightarrow> process_id) \<Rightarrow>
    (opc \<times> process_id \<times> (nat \<Rightarrow> process_id)) result" where
  "own_run os getpid ret 0 st = Inr st"
| "own_run os getpid ret (Suc n) (pc, pid, m) = rbind (own_step os getpid ret pc pid m) (own_run os getpid ret n)"

text \<open>What the system says of a process that is gone: no such process, or another starting time.\<close>

definition gone :: "os_view \<Rightarrow> process_id \<Rightarrow> bool" where
  "gone os v \<longleftrightarrow> kill0 os (ucast (p_pid v)) = Kill_ESRCH \<or> (\<exists>b. GetBtime os (p_pid v) = Inr b \<and> b \<noteq> p_btime v)"

lemma own_run_done: "own_run os getpid ret n (Done, pid, m) = Inr (Done, pid, m)"
  by (induction n) simp_all

lemma own_run_add: "own_run os getpid ret (k + n) st = rbind (own_run os getpid ret k st) (own_run os getpid ret n)"
proof (induction k arbitrary: st)
  case (Suc k)
  obtain pc pid m where "st = (pc, pid, m)" by (cases st)
  then show ?case using Suc by (simp add: rbind_def split: sum.split)
qed simp

text \<open>The check of an owner that is gone ends after one or two steps, at \<open>not_alive\<close>.\<close>

lemma signal_gone:
  assumes "gone os v" "same_btime os v = Inr b"
    "\<And>k. k \<le> 1 \<Longrightarrow> own_run os getpid ret (n + k) (not_alive i rec v, pid, m) = Inr r"
  shows "own_run os getpid ret (Suc (Suc n)) (Signal i rec v, pid, m) = Inr r"
proof (cases "kill0 os (ucast (p_pid v))")
  case Kill_ESRCH
  then show ?thesis using assms(3) [of 1] by simp
next
  case Kill_Ok
  then have "same_btime os v = Inr False" using assms(1,2) by (auto simp: gone_def same_btime_def)
  then show ?thesis using Kill_Ok assms(3) [of 0] by simp
next
  case Kill_Error
  then have "same_btime os v = Inr False" using assms(1,2) by (auto simp: gone_def same_btime_def)
  then show ?thesis using Kill_Error assms(3) [of 0] by simp
qed

lemma revoke_starts:
  "IsValid (m i) \<Longrightarrow> own_run os getpid ret (Suc (Suc n)) (CheckAndRevokeItem i rec, pid, m) = own_run os getpid ret n (Signal i rec (m i), pid, m)"
  by (simp add: CheckAndRevokeItem_def look_at_def)

lemma revoke_gone:
  assumes v: "IsValid v" "gone os v" "same_btime os v = Inr b" and m: "m i = v"
  shows "own_run os getpid ret 5 (CheckAndRevokeItem i False, pid, m) = Inr (Done, pid, m(i := no_process))"
proof -
  have "own_run os getpid ret (1 + k) (not_alive i False v, pid, m) = Inr (Done, pid, m(i := no_process))" for k
    using m by (simp add: not_alive_def own_run_done)
  then have "own_run os getpid ret (Suc (Suc 1)) (Signal i False v, pid, m) = Inr (Done, pid, m(i := no_process))"
    by (intro signal_gone [OF v(2,3)]) simp
  then show ?thesis using revoke_starts [of m i os getpid ret "Suc (Suc 1)" False pid] v(1) m by (simp add: eval_nat_numeral del: own_run.simps)
qed

lemma recover_gone:
  assumes v: "IsValid v" "gone os v" "same_btime os v = Inr b" and m: "m i = v" and me: "SetPid os getpid = Inr me"
  shows "own_run os getpid ret 10 (CheckAndRevokeItem i True, pid, m) =
    Inr (Done, me, m(i := (if ret = NO_ERROR then no_process else v)))"
proof -
  have "own_run os getpid ret (6 + k) (not_alive i True v, pid, m) =
      Inr (Done, me, m(i := (if ret = NO_ERROR then no_process else v)))" for k
    using m me by (simp add: not_alive_def own_run_done eval_nat_numeral)
  then have "own_run os getpid ret (Suc (Suc 6)) (Signal i True v, pid, m) =
      Inr (Done, me, m(i := (if ret = NO_ERROR then no_process else v)))"
    by (intro signal_gone [OF v(2,3)]) simp
  then show ?thesis using revoke_starts [of m i os getpid ret "Suc (Suc 6)" True pid] v(1) m by (simp add: eval_nat_numeral del: own_run.simps)
qed

text \<open>C35: An item whose owner is gone does not stay lost. In every reachable state of processes whose commands have no
  blank in their names, a living process that runs \<open>CheckAndRevokeItem\<close> undisturbed frees it; with a recovery it owns
  the item meanwhile, frees it if the recovery succeeds, and leaves the dead owner's id in it, for the next try, if the
  recovery answers any error. A free item is acquired by the next \<open>AcquireItem\<close>, which stores the caller's id.\<close>

theorem dead_owner_revoked:
  assumes "oreach names proc_of ident s" "\<forall>c \<in> names. CHR '' '' \<notin> set c" "p \<in> alive s" "IsValid (oitems s i)"
    "gone (oview s) (oitems s i)" "same_btime (oview s) (oitems s i) = Inr b"
  defines "run \<equiv> own_run (oview s) (p_pid (ident p))"
  shows "(\<forall>q \<in> alive s. ident q \<noteq> oitems s i) \<and>
    (\<forall>ret. run ret 5 (CheckAndRevokeItem i False, opid s p, oitems s) = Inr (Done, ident p, (oitems s)(i := no_process))) \<and>
    run NO_ERROR 10 (CheckAndRevokeItem i True, opid s p, oitems s) = Inr (Done, ident p, (oitems s)(i := no_process)) \<and>
    (\<forall>e. e \<noteq> NO_ERROR \<longrightarrow> run e 10 (CheckAndRevokeItem i True, opid s p, oitems s) = Inr (Done, ident p, oitems s)) \<and>
    (\<forall>ret. run ret 2 (AcquireItem i, opid s p, (oitems s)(i := no_process)) = Inr (Acquired i True, ident p, (oitems s)(i := ident p)))"
proof -
  have P: "procs_ok ident s" by (rule oinv_parts(1) [OF oreach_oinv [OF assms(1,2)]])
  then have os: "btimes_ok ident (alive s) (oview s)" and me: "opid s p = ident p" using assms(3) by (simp_all add: procs_ok_def)
  have "ident q \<noteq> oitems s i" if "q \<in> alive s" for q using os assms(5) that by (auto simp: btimes_ok_def gone_def)
  moreover have "run ret 2 (AcquireItem i, opid s p, (oitems s)(i := no_process)) = Inr (Acquired i True, ident p, (oitems s)(i := ident p))" for ret
    using SetPid_ident [OF os assms(3)] by (simp add: run_def AcquireItem_def eval_nat_numeral)
  moreover have "run ret' 10 (CheckAndRevokeItem i True, opid s p, oitems s) =
      Inr (Done, ident p, (oitems s)(i := (if ret' = NO_ERROR then no_process else oitems s i)))" for ret'
    unfolding run_def by (rule recover_gone [where m = "oitems s" and i = i, OF assms(4,5,6) refl SetPid_ident [OF os assms(3)]])
  moreover have "run ret 5 (CheckAndRevokeItem i False, opid s p, oitems s) = Inr (Done, ident p, (oitems s)(i := no_process))" for ret
    unfolding run_def using me revoke_gone [where m = "oitems s" and i = i, OF assms(4,5,6) refl] by simp
  ultimately show ?thesis by simp
qed

text \<open>The process of the witness above dies, and a second one with the pid 8 starts.\<close>

definition next_os :: os_view where
  "next_os = plain_os\<lparr>kill0 := (\<lambda>p. if p = 8 then Kill_Ok else Kill_ESRCH)\<rparr>"

definition two_idents :: "nat \<Rightarrow> process_id" where "two_idents p = (if p = 0 then \<lparr>p_pid = 7, p_btime = 5\<rparr> else \<lparr>p_pid = 8, p_btime = 5\<rparr>)"

definition dead_owner :: osys where
  "dead_owner = one_owner\<lparr>alive := {1}, started := {1, 0}, oview := next_os, opid := (opid one_owner)(1 := two_idents 1)\<rparr>"

lemma dead_owner_reach: "oreach {''gull''} id two_idents dead_owner"
proof -
  have b: "GetBtime next_os p = Inr 5" for p using plain_btime [of p] by (simp add: GetBtime_def next_os_def)
  have v: "two_idents 0 = \<lparr>p_pid = 7, p_btime = 5\<rparr>" "two_idents (Suc 0) = \<lparr>p_pid = 8, p_btime = 5\<rparr>" by (simp_all add: two_idents_def)
  have os: "os_ok {''gull''} two_idents {1} next_os"
    by (simp add: os_ok_def v IsValid_def) (simp add: next_os_def plain_stat)
  have "oreach {''gull''} id two_idents one_owner" by (rule one_owner_reach) (simp add: v ident_7_def)
  from oreach.step [OF this ostep.die [of _ _ _ _ 0]] have "oreach {''gull''} id two_idents (one_owner\<lparr>alive := {}\<rparr>)" by (simp add: one_owner_def)
  from oreach.step [OF this ostep.start [of two_idents _ 1 _ next_os "two_idents 1"]] os show ?thesis
    by (simp add: dead_owner_def one_owner_def fresh_process_def v SetPid_def b)
qed

lemma dead_owner_revoked_witness:
  "oitems dead_owner 3 = ident_7 0 \<and> own_run next_os 8 NO_ERROR 2 (AcquireItem 3, two_idents 1, (oitems dead_owner)(3 := no_process)) =
     Inr (Acquired 3 True, two_idents 1, (oitems dead_owner)(3 := two_idents 1))"
proof -
  have b: "GetBtime next_os p = Inr 5" for p using plain_btime [of p] by (simp add: GetBtime_def next_os_def)
  have f: "oitems dead_owner 3 = ident_7 0" "oview dead_owner = next_os" "alive dead_owner = {1}" "opid dead_owner 1 = two_idents 1"
    "p_pid (two_idents 1) = 8" by (simp_all add: dead_owner_def one_owner_def two_idents_def)
  have "IsValid (ident_7 0)" "gone next_os (ident_7 0)" "same_btime next_os (ident_7 0) = Inr True"
    by (simp_all add: IsValid_def ident_7_def gone_def same_btime_def b) (simp add: next_os_def)
  then show ?thesis using dead_owner_revoked [OF dead_owner_reach, of 1 3 True] f by simp
qed

section \<open>Names with a blank\<close>

text \<open>C36: A process whose command name has a blank never owns anything: \<open>GetBtime\<close> counts blanks, takes the constant
  0 in front of the starting time, and \<open>SetPid\<close> makes the id of no process of it. \<open>AcquireItem\<close> then compares the
  item with 0 and stores 0: it answers true and leaves the item free, for every such process at once.\<close>

theorem blank_name_acquires_nothing:
  assumes "stat_file os getpid = Some (stat_line pid (c1 @ CHR '' '' # c2) its)" "blankless pid" "CHR '' '' \<notin> set c1" "CHR '' '' \<notin> set c2"
    "\<forall>i \<in> set its. blankless i" "20 \<le> length its" "its ! 18 = ''0''" "m i = no_process"
  shows "own_run os getpid ret 2 (AcquireItem i, me, m) = Inr (Acquired i True, no_process, m)"
proof -
  have "SetPid os getpid = Inr no_process" using GetBtime_blank [OF assms(1-7)] by (simp add: SetPid_def no_process_def)
  then show ?thesis using assms(8) by (simp add: AcquireItem_def eval_nat_numeral fun_upd_idem)
qed

lemma blank_name_acquires_nothing_witness:
  "own_run \<lparr>kill0 = (\<lambda>_. Kill_Ok), stat_file = (\<lambda>_. Some (stat_line ''7'' ''my heap'' (replicate 19 ''0'' @ [''5''])))\<rparr> 7 NO_ERROR 2
     (AcquireItem 3, no_process, \<lambda>_. no_process) = Inr (Acquired 3 True, no_process, \<lambda>_. no_process)"
  using blank_name_acquires_nothing [of _ 7 "''7''" "''my''" "''heap''" "replicate 19 ''0'' @ [''5'']" "\<lambda>_. no_process" 3]
  by (simp add: blankless_def nth_append)

end
