(* ===== verification/Dist_Heap.thy ===== *)
theory Dist_Heap
  imports Nv_Shelf_Heap Pool Ownership_Props Free_Lists
begin

text \<open>
  \<open>DistHeap\<close> of \<open>src/allocator/dist_heap.{h,cc}\<close>, the heap of the build without zones: every shelf of a pool is a heap
  of its own (\<open>Nv_Shelf_Heap\<close>) that one process owns at a time (\<open>Ownership\<close>); what others free is left for the owner
  in \<open>Free_Lists\<close>. One record holds the object, the process and the memory all processes share: the table of owners,
  the free lists, the layouts of the shelves, the files. The operations are those of one process, run one after the
  other, between which the shared part may be anything; the background worker is a sequence of rounds. The
  reader-writer lock orders the threads of the process and is left out.
\<close>

section \<open>State\<close>

record dheap =
  \<comment> \<open>the object\<close>
  dh_pool_id :: PoolId
  dh_pool :: pool
  dh_is_open :: bool
  dh_ownership :: "ownership option"
  dh_freelists :: "free_lists option"
  dh_map :: "(ShelfIndex \<times> nv_shelf) list"
  dh_cleaner_running :: bool
  dh_cleaner_stop :: bool
  \<comment> \<open>the process\<close>
  dh_sm :: manager
  dh_view :: os_view
  dh_getpid :: u64
  \<comment> \<open>shared\<close>
  dh_own :: own_mem
  dh_fl :: fl_mem
  dh_nv :: "ShelfIndex \<Rightarrow> nv_layout"
  dh_os :: world

definition kMaxOwnedHeap :: nat where "kMaxOwnedHeap = 1"

text \<open>The constructor sets the object's part of \<open>h\<close>.\<close>

definition DistHeap_new :: "string \<Rightarrow> string \<Rightarrow> PoolId \<Rightarrow> dheap \<Rightarrow> dheap result" where
  "DistHeap_new base user pid h =
     rbind (Pool_new base user pid) (\<lambda>p.
       Inr (h\<lparr>dh_pool_id := pid, dh_pool := p, dh_is_open := False, dh_ownership := None, dh_freelists := None,
              dh_map := [], dh_cleaner_running := False, dh_cleaner_stop := False\<rparr>))"

section \<open>The parts of the object\<close>

text \<open>An operation on an item, run alone: ten accesses are enough for each of them.\<close>

definition own_do :: "opc \<Rightarrow> dheap \<Rightarrow> (opc \<times> dheap) result" where
  "own_do op h =
     (case dh_ownership h of
        None \<Rightarrow> Inl Out_Of_Bounds
      | Some ow \<Rightarrow>
          if \<not> ow_is_open ow then Inl Assert_Failed
          else rbind (own_run (dh_view h) (dh_getpid h) NO_ERROR 10 (op, ow_pid ow, om_items (dh_own h))) (\<lambda>(pc, pid, its).
                 Inr (pc, h\<lparr>dh_ownership := Some (ow\<lparr>ow_pid := pid\<rparr>), dh_own := (dh_own h)\<lparr>om_items := its\<rparr>\<rparr>)))"

definition own_check :: "nat \<Rightarrow> dheap \<Rightarrow> (bool \<times> dheap) result" where
  "own_check i h = rbind (own_do (CheckItem i) h) (\<lambda>(pc, h). Inr (pc = Checked i True, h))"

definition own_acquire :: "nat \<Rightarrow> dheap \<Rightarrow> (bool \<times> dheap) result" where
  "own_acquire i h = rbind (own_do (AcquireItem i) h) (\<lambda>(pc, h). Inr (pc = Acquired i True, h))"

definition own_release :: "nat \<Rightarrow> dheap \<Rightarrow> (bool \<times> dheap) result" where
  "own_release i h =
     (case dh_ownership h of
        None \<Rightarrow> Inl Out_Of_Bounds
      | Some ow \<Rightarrow> rbind (own_do (ReleaseItem (ow_pid ow) i) h) (\<lambda>(pc, h). Inr (pc = Released i True, h)))"

definition own_count :: "dheap \<Rightarrow> nat result" where
  "own_count h = (case dh_ownership h of None \<Rightarrow> Inl Out_Of_Bounds | Some ow \<Rightarrow> Inr (unat (ow_item_count ow)))"

text \<open>The bound of the loops over a \<open>ShelfIndex\<close>, which is cut to its 8 bits.\<close>

definition shelf_count :: "dheap \<Rightarrow> nat result" where
  "shelf_count h = (case dh_ownership h of None \<Rightarrow> Inl Out_Of_Bounds | Some ow \<Rightarrow> Inr (unat (ucast (ow_item_count ow) :: ShelfIndex)))"

definition close_dpool :: "dheap \<Rightarrow> (error_code \<times> dheap) result" where
  "close_dpool h = rbind (pool_Close False (dh_pool h) (dh_os h)) (\<lambda>(ret, p, w). Inr (ret, h\<lparr>dh_pool := p, dh_os := w\<rparr>))"

definition open_dpool :: "dheap \<Rightarrow> (error_code \<times> dheap) result" where
  "open_dpool h = rbind (pool_Open False (dh_pool h) (dh_os h)) (\<lambda>(ret, p, w). Inr (ret, h\<lparr>dh_pool := p, dh_os := w\<rparr>))"

section \<open>Shelf heaps in \<open>map_\<close>\<close>

text \<open>\<open>std::map\<close> is kept sorted; insertion keeps an entry that is there.\<close>

definition LookupShelfHeap :: "ShelfIndex \<Rightarrow> dheap \<Rightarrow> nv_shelf option" where
  "LookupShelfHeap idx h = map_of (dh_map h) idx"

fun idx_insert :: "ShelfIndex \<Rightarrow> 'a \<Rightarrow> (ShelfIndex \<times> 'a) list \<Rightarrow> (ShelfIndex \<times> 'a) list" where
  "idx_insert k v [] = [(k, v)]"
| "idx_insert k v ((k', v') # m) =
     (if k < k' then (k, v) # (k', v') # m else if k = k' then (k', v') # m else (k', v') # idx_insert k v m)"

definition RegisterShelfHeap :: "ShelfIndex \<Rightarrow> nv_shelf \<Rightarrow> dheap \<Rightarrow> bool \<times> dheap" where
  "RegisterShelfHeap idx sh h =
     (if map_of (dh_map h) idx = None then (True, h\<lparr>dh_map := idx_insert idx sh (dh_map h)\<rparr>) else (False, h))"

definition UnregisterShelfHeap :: "ShelfIndex \<Rightarrow> dheap \<Rightarrow> bool \<times> dheap" where
  "UnregisterShelfHeap idx h =
     (if map_of (dh_map h) idx = None then (False, h) else (True, h\<lparr>dh_map := AList.delete idx (dh_map h)\<rparr>))"

definition OpenShelfHeap :: "ShelfIndex \<Rightarrow> dheap \<Rightarrow> (error_code \<times> dheap) result" where
  "OpenShelfHeap idx h =
     (if \<not> idx < kMaxShelfCount then Inl Assert_Failed
      else rbind (GetShelfPath (dh_pool h) idx (dh_os h)) (\<lambda>(ret, path).
        if ret \<noteq> NO_ERROR then Inl Assert_Failed
        else rbind (shelf_id (dh_pool_id h) idx) (\<lambda>sid.
        rbind (ns_Open (NvShelf_id (the path) sid) (dh_nv h idx) (dh_sm h) (dh_os h)) (\<lambda>(ret, sh, sm, w).
          let h = h\<lparr>dh_sm := sm, dh_os := w\<rparr>
          in if ret = NO_ERROR
             then (case RegisterShelfHeap idx sh h of (ok, h) \<Rightarrow> Inr (if ok then ret else BUG, h))
             else Inr (ret, h)))))"

definition CloseShelfHeap :: "ShelfIndex \<Rightarrow> dheap \<Rightarrow> (error_code \<times> dheap) result" where
  "CloseShelfHeap idx h =
     (if \<not> idx < kMaxShelfCount then Inl Assert_Failed
      else case LookupShelfHeap idx h of
        None \<Rightarrow> Inr (BUG, h)
      | Some sh \<Rightarrow>
          rbind (ns_Close sh (dh_sm h) (dh_os h)) (\<lambda>(ret, sh, sm, w).
            let h = h\<lparr>dh_sm := sm, dh_os := w\<rparr>
            in if ret = NO_ERROR
               then (case UnregisterShelfHeap idx h of (ok, h) \<Rightarrow>
                       if \<not> ok then Inr (BUG, h)
                       else rbind (NvShelf_delete sh (dh_sm h) (dh_os h)) (\<lambda>(sm, w). Inr (ret, h\<lparr>dh_sm := sm, dh_os := w\<rparr>)))
               else Inr (ret, h\<lparr>dh_map := AList.update idx sh (dh_map h)\<rparr>)))"

definition RecoverShelfHeap :: "ShelfIndex \<Rightarrow> dheap \<Rightarrow> error_code result" where
  "RecoverShelfHeap idx h =
     (if \<not> idx < kMaxShelfCount then Inl Assert_Failed
      else rbind (GetShelfPath (dh_pool h) idx (dh_os h)) (\<lambda>(ret, path).
        if ret \<noteq> NO_ERROR then Inl Assert_Failed
        else rbind (shelf_id (dh_pool_id h) idx) (\<lambda>sid. Inr (ns_Recover (NvShelf_id (the path) sid)))))"

section \<open>Owning a shelf heap\<close>

text \<open>The first loop, over the shelves that exist and nobody owns.\<close>

fun acquire_existing :: "nat list \<Rightarrow> dheap \<Rightarrow> (nat option \<times> dheap) result" where
  "acquire_existing [] h = Inr (None, h)"
| "acquire_existing (i # is) h =
     rbind (own_check i h) (\<lambda>(taken, h).
       if taken then acquire_existing is h
       else rbind (CheckShelf (dh_pool h) (of_nat i) (dh_os h)) (\<lambda>present.
         if \<not> present then acquire_existing is h
         else rbind (own_acquire i h) (\<lambda>(ok, h). if ok then Inr (Some i, h) else acquire_existing is h)))"

text \<open>The format function: the shelf is one of the file's path, and \<open>Create\<close> makes its layout.\<close>

definition format_nv :: "(nv_layout \<times> manager) format_mem" where
  "format_nv f sz m w =
     (case m of (l, sm) \<Rightarrow>
        Some (rbind (ns_Create sz (NvShelf (sf_path f)) l sm w) (\<lambda>(ret, _, l, sm, w). Inr (ret, f, (l, sm), w))))"

text \<open>A new file reads as 0, so the layout the format function starts from is empty.\<close>

definition no_layout :: nv_layout where
  "no_layout = \<lparr>nv_magic_num = 0, nv_heap_size = 0, nv_next_free = 0, nv_data = (\<lambda>_. 0)\<rparr>"

text \<open>The second loop takes a shelf that exists as well, and makes one where there is none.\<close>

fun acquire_or_add :: "nat list \<Rightarrow> dheap \<Rightarrow> (nat option \<times> dheap) result option" where
  "acquire_or_add [] h = Some (Inr (None, h))"
| "acquire_or_add (i # is) h =
     obind (Some (own_check i h)) (\<lambda>(taken, h).
       if taken then acquire_or_add is h
       else obind (Some (CheckShelf (dh_pool h) (of_nat i) (dh_os h))) (\<lambda>present.
         obind (Some (own_acquire i h)) (\<lambda>(ok, h).
           if \<not> ok then acquire_or_add is h
           else if present then Some (Inr (Some i, h))
           else obind (AddShelf_mem (dh_pool h) (of_nat i) format_nv False kDefaultMode (no_layout, dh_sm h) (dh_os h))
                  (\<lambda>(ret, _, (l, sm), w).
                    let h = h\<lparr>dh_sm := sm, dh_os := w\<rparr>
                    in if ret = NO_ERROR then Some (Inr (Some i, h\<lparr>dh_nv := (dh_nv h)(of_nat i := l)\<rparr>))
                       else obind (Some (own_release i h)) (\<lambda>(ok, h).
                              if \<not> ok then Some (Inr (None, h)) else acquire_or_add is h)))))"

definition AcquireShelfHeap :: "bool \<Rightarrow> dheap \<Rightarrow> (nat option \<times> dheap) result option" where
  "AcquireShelfHeap newonly h =
     obind (Some (shelf_count h)) (\<lambda>n.
     obind (Some (if newonly then Inr (None, h) else acquire_existing [0..<n] h)) (\<lambda>(got, h).
       case got of Some i \<Rightarrow> Some (Inr (Some i, h)) | None \<Rightarrow> acquire_or_add [0..<n] h))"

definition ReleaseShelfHeap :: "nat \<Rightarrow> dheap \<Rightarrow> (bool \<times> dheap) result" where
  "ReleaseShelfHeap i h =
     rbind (own_check i h) (\<lambda>(taken, h).
       if \<not> taken then Inl Assert_Failed
       else rbind (CheckShelf (dh_pool h) (of_nat i) (dh_os h)) (\<lambda>present.
         if \<not> present then Inl Assert_Failed else own_release i h))"

section \<open>Alloc and Free\<close>

definition dh_ptr :: "ShelfIndex \<Rightarrow> u64 \<Rightarrow> dheap \<Rightarrow> GlobalPtr result" where
  "dh_ptr idx offset h = rbind (shelf_id (dh_pool_id h) idx) (\<lambda>sid. Inr (EncodeGlobalPtr sid offset))"

definition try_Alloc :: "u64 \<Rightarrow> ShelfIndex \<Rightarrow> nv_shelf \<Rightarrow> dheap \<Rightarrow> (GlobalPtr option \<times> dheap) result" where
  "try_Alloc sz idx sh h =
     rbind (ns_Alloc sh sz (dh_nv h idx)) (\<lambda>(offset, l).
       let h = h\<lparr>dh_nv := (dh_nv h)(idx := l)\<rparr>
       in rbind (ns_IsValidOffset sh offset (dh_nv h idx)) (\<lambda>valid.
            if valid then rbind (dh_ptr idx offset h) (\<lambda>ptr. Inr (Some ptr, h)) else Inr (None, h)))"

fun alloc_owned :: "u64 \<Rightarrow> (ShelfIndex \<times> nv_shelf) list \<Rightarrow> dheap \<Rightarrow> (GlobalPtr option \<times> dheap) result" where
  "alloc_owned sz [] h = Inr (None, h)"
| "alloc_owned sz ((idx, sh) # m) h =
     rbind (try_Alloc sz idx sh h) (\<lambda>(got, h). case got of Some ptr \<Rightarrow> Inr (Some ptr, h) | None \<Rightarrow> alloc_owned sz m h)"

text \<open>Closing and releasing a heap; the code says whether \<open>Alloc\<close> goes on.\<close>

definition give_up :: "ShelfIndex \<Rightarrow> dheap \<Rightarrow> (bool \<times> dheap) result" where
  "give_up idx h =
     rbind (CloseShelfHeap idx h) (\<lambda>(ret, h).
       if ret \<noteq> NO_ERROR then Inr (False, h) else ReleaseShelfHeap (unat idx) h)"

definition make_room :: "dheap \<Rightarrow> (bool \<times> dheap) result" where
  "make_room h = (if length (dh_map h) = kMaxOwnedHeap then give_up (fst (hd (dh_map h))) h else Inr (True, h))"

text \<open>The attempt with one more heap: acquire, open, allocate. The result is whether \<open>Alloc\<close> returns, what, and the
  heap in which the allocation failed.\<close>

definition alloc_in_new :: "bool \<Rightarrow> u64 \<Rightarrow> dheap \<Rightarrow> (bool \<times> GlobalPtr \<times> nat option \<times> dheap) result option" where
  "alloc_in_new newonly sz h =
     obind (AcquireShelfHeap newonly h) (\<lambda>(got, h).
       case got of
         None \<Rightarrow> Some (Inr (False, 0, None, h))
       | Some i \<Rightarrow>
           obind (Some (OpenShelfHeap (of_nat i) h)) (\<lambda>(ret, h).
             if ret \<noteq> NO_ERROR then Some (Inr (True, 0, None, h))
             else case LookupShelfHeap (of_nat i) h of
                    None \<Rightarrow> Some (Inl Out_Of_Bounds)
                  | Some sh \<Rightarrow> obind (Some (try_Alloc sz (of_nat i) sh h)) (\<lambda>(ptr, h).
                      Some (Inr (case ptr of Some p \<Rightarrow> (True, p, None, h) | None \<Rightarrow> (False, 0, Some i, h))))))"

definition dist_Alloc :: "u64 \<Rightarrow> dheap \<Rightarrow> (GlobalPtr \<times> dheap) result option" where
  "dist_Alloc sz h =
     (if \<not> dh_is_open h then Some (Inl Assert_Failed)
      else obind (Some (alloc_owned sz (dh_map h) h)) (\<lambda>(got, h).
        case got of
          Some ptr \<Rightarrow> Some (Inr (ptr, h))
        | None \<Rightarrow>
            obind (Some (make_room h)) (\<lambda>(ok, h).
              if \<not> ok then Some (Inr (0, h))
              else obind (alloc_in_new False sz h) (\<lambda>(returned, ptr, failed, h).
                if returned then Some (Inr (ptr, h))
                else obind (Some (case failed of None \<Rightarrow> Inr (True, h) | Some i \<Rightarrow> give_up (of_nat i) h)) (\<lambda>(ok, h).
                  if \<not> ok then Some (Inr (0, h))
                  else obind (alloc_in_new True sz h) (\<lambda>(_, ptr, _, h). Some (Inr (ptr, h))))))))"

text \<open>\<open>Free\<close> of memory of a shelf this process does not own leaves the pointer to the owner.\<close>

definition dist_Free :: "GlobalPtr \<Rightarrow> dheap \<Rightarrow> dheap result" where
  "dist_Free ptr h =
     (if \<not> dh_is_open h then Inl Assert_Failed
      else let sid = DecodeShelfId ptr; offset = DecodeOffset ptr; idx = DecodeShelfIndex sid
      in if DecodePoolId sid \<noteq> dh_pool_id h then Inl Assert_Failed
         else case LookupShelfHeap idx h of
                Some sh \<Rightarrow> rbind (ns_Free sh offset (dh_nv h idx)) (\<lambda>l. Inr (h\<lparr>dh_nv := (dh_nv h)(idx := l)\<rparr>))
              | None \<Rightarrow>
                  rbind (CheckShelf (dh_pool h) idx (dh_os h)) (\<lambda>present.
                    if \<not> present then Inl Assert_Failed
                    else case dh_freelists h of
                           None \<Rightarrow> Inl Out_Of_Bounds
                         | Some fl \<Rightarrow> rbind (PutPointer (unat idx) ptr fl (dh_fl h)) (\<lambda>(ret, m).
                             if ret \<noteq> NO_ERROR then Inl Exited else Inr (h\<lparr>dh_fl := m\<rparr>))))"

definition dist_GlobalToLocal :: "GlobalPtr \<Rightarrow> dheap \<Rightarrow> u64 result" where
  "dist_GlobalToLocal ptr h =
     (if \<not> dh_is_open h then Inl Assert_Failed
      else let sid = DecodeShelfId ptr; offset = DecodeOffset ptr; idx = DecodeShelfIndex sid
      in if DecodePoolId sid \<noteq> dh_pool_id h then Inl Assert_Failed
         else case LookupShelfHeap idx h of
                None \<Rightarrow> Inr 0
              | Some sh \<Rightarrow> rbind (ns_IsValidOffset sh offset (dh_nv h idx)) (\<lambda>valid.
                  if valid then ns_OffsetToPtr sh offset (dh_nv h idx) else Inl Assert_Failed))"

section \<open>The worker\<close>

text \<open>A check that stops where the recovery is to run.\<close>

fun until_recovery :: "os_view \<Rightarrow> u64 \<Rightarrow> nat \<Rightarrow> opc \<times> process_id \<times> (nat \<Rightarrow> process_id) \<Rightarrow>
    (opc \<times> process_id \<times> (nat \<Rightarrow> process_id)) result" where
  "until_recovery os getpid 0 st = Inr st"
| "until_recovery os getpid (Suc n) (Recover i v, pid, m) = Inr (Recover i v, pid, m)"
| "until_recovery os getpid (Suc n) (pc, pid, m) = rbind (own_step os getpid NO_ERROR pc pid m) (until_recovery os getpid n)"

definition check_and_recover :: "nat \<Rightarrow> dheap \<Rightarrow> dheap result" where
  "check_and_recover i h =
     (case dh_ownership h of
        None \<Rightarrow> Inl Out_Of_Bounds
      | Some ow \<Rightarrow>
          if \<not> ow_is_open ow then Inl Assert_Failed
          else rbind (until_recovery (dh_view h) (dh_getpid h) 10 (CheckAndRevokeItem i True, ow_pid ow, om_items (dh_own h))) (\<lambda>st.
               rbind (case st of (Recover _ _, _) \<Rightarrow> RecoverShelfHeap (of_nat i) h | _ \<Rightarrow> Inr NO_ERROR) (\<lambda>ret.
               rbind (own_run (dh_view h) (dh_getpid h) ret 10 st) (\<lambda>(_, pid, its).
                 Inr (h\<lparr>dh_ownership := Some (ow\<lparr>ow_pid := pid\<rparr>), dh_own := (dh_own h)\<lparr>om_items := its\<rparr>\<rparr>)))))"

fun check_owners :: "nat list \<Rightarrow> dheap \<Rightarrow> dheap result" where
  "check_owners [] h = Inr h"
| "check_owners (i # is) h = rbind (check_and_recover i h) (check_owners is)"

fun clean_lists :: "ShelfIndex list \<Rightarrow> dheap \<Rightarrow> dheap result" where
  "clean_lists [] h = Inr h"
| "clean_lists (idx # is) h =
     (case dh_freelists h of
        None \<Rightarrow> Inl Out_Of_Bounds
      | Some fl \<Rightarrow> rbind (GetPointer (unat idx) fl (dh_fl h)) (\<lambda>(ret, ptr, m).
          let h = h\<lparr>dh_fl := m\<rparr>
          in if ret = NO_ERROR then rbind (dist_Free (the ptr) h) (clean_lists is) else clean_lists is h))"

definition dist_worker_round :: "dheap \<Rightarrow> dheap result" where
  "dist_worker_round h =
     (if \<not> dh_is_open h then Inl Assert_Failed
      else if dh_cleaner_stop h then Inr h
      else rbind (own_count h) (\<lambda>n. rbind (check_owners [0..<n] h) (\<lambda>h. clean_lists (map fst (dh_map h)) h)))"

definition dist_StartWorker :: "dheap \<Rightarrow> dheap" where
  "dist_StartWorker h = (if dh_cleaner_running h then h else h\<lparr>dh_cleaner_stop := False, dh_cleaner_running := True\<rparr>)"

text \<open>\<open>StopWorker\<close> returns when the worker has ended.\<close>

definition dist_StopWorker :: "dheap \<Rightarrow> dheap" where
  "dist_StopWorker h = (if \<not> dh_cleaner_running h then h else h\<lparr>dh_cleaner_stop := False, dh_cleaner_running := False\<rparr>)"

section \<open>Create, Destroy, Open, Close\<close>

definition dist_Create :: "u64 \<Rightarrow> dheap \<Rightarrow> (error_code \<times> dheap) result" where
  "dist_Create shelf_size h =
     (if dh_is_open h then Inl Assert_Failed
      else if pool_Exist (dh_pool h) (dh_os h) then Inr (POOL_FOUND, h)
      else rbind (pool_Create (dh_pool h) shelf_size kDefaultMode (dh_os h)) (\<lambda>(ret, p, w).
        let h = h\<lparr>dh_pool := p, dh_os := w\<rparr>
        in if ret \<noteq> NO_ERROR then Inr (if ret = POOL_FOUND then POOL_FOUND else HEAP_CREATE_FAILED, h)
           else rbind (open_dpool h) (\<lambda>(ret, h).
             if ret \<noteq> NO_ERROR then Inr (HEAP_CREATE_FAILED, h)
             else rbind (SharedAreaOffset (dh_pool h)) (\<lambda>_.
             rbind (SharedAreaSize (dh_pool h) (dh_os h)) (\<lambda>shared_size.
             rbind (ow_Create (ucast kMaxShelfCount) (Ownership_new shared_size) (dh_own h)) (\<lambda>(ret, ow, om).
               let h = h\<lparr>dh_own := om\<rparr>
               in if ret \<noteq> NO_ERROR then Inr (HEAP_CREATE_FAILED, h)
                  else let shared_size = shared_size - ow_size ow
                  in rbind (fl_Create (ucast kMaxShelfCount) (FreeLists_new shared_size) (dh_fl h)) (\<lambda>(ret, fl, fm).
                       let h = h\<lparr>dh_fl := fm\<rparr>
                       in if ret \<noteq> NO_ERROR then Inr (HEAP_CREATE_FAILED, h)
                          else if shared_size \<noteq> fl_size fl then Inl Assert_Failed
                          else rbind (close_dpool h) (\<lambda>(ret, h).
                                 Inr (if ret \<noteq> NO_ERROR then HEAP_CREATE_FAILED else ret, h)))))))))"

fun destroy_shelf_heaps :: "nat list \<Rightarrow> dheap \<Rightarrow> (error_code \<times> dheap) result" where
  "destroy_shelf_heaps [] h = Inr (NO_ERROR, h)"
| "destroy_shelf_heaps (i # is) h =
     rbind (CheckShelf (dh_pool h) (of_nat i) (dh_os h)) (\<lambda>present.
       if \<not> present then destroy_shelf_heaps is h
       else rbind (GetShelfPath (dh_pool h) (of_nat i) (dh_os h)) (\<lambda>(ret, path).
         if ret \<noteq> NO_ERROR then Inl Assert_Failed
         else rbind (shelf_id (dh_pool_id h) (of_nat i)) (\<lambda>sid.
         rbind (ns_Destroy (NvShelf_id (the path) sid) (dh_sm h) (dh_os h)) (\<lambda>(_, _, sm, w).
         rbind (RemoveShelf (dh_pool h) (of_nat i) w) (\<lambda>(ret, w).
           let h = h\<lparr>dh_sm := sm, dh_os := w\<rparr>
           in if ret \<noteq> NO_ERROR then rbind (close_dpool h) (\<lambda>(_, h). Inr (HEAP_DESTROY_FAILED, h))
              else destroy_shelf_heaps is h)))))"

definition dist_Destroy :: "dheap \<Rightarrow> (error_code \<times> dheap) result" where
  "dist_Destroy h =
     (if dh_is_open h then Inl Assert_Failed
      else if \<not> pool_Exist (dh_pool h) (dh_os h) then Inr (POOL_NOT_FOUND, h)
      else rbind (open_dpool h) (\<lambda>(ret, h).
        if ret \<noteq> NO_ERROR then Inr (HEAP_DESTROY_FAILED, h)
        else rbind (pool_Recover (dh_pool h) (dh_os h)) (\<lambda>(_, w).
        rbind (destroy_shelf_heaps [0..<unat kMaxShelfCount] (h\<lparr>dh_os := w\<rparr>)) (\<lambda>(ret, h).
          if ret \<noteq> NO_ERROR then Inr (ret, h)
          else rbind (close_dpool h) (\<lambda>(ret, h).
            if ret \<noteq> NO_ERROR then Inr (HEAP_DESTROY_FAILED, h)
            else rbind (pool_Destroy (dh_pool h) (dh_os h)) (\<lambda>(ret, p, w).
              Inr (if ret \<noteq> NO_ERROR then HEAP_DESTROY_FAILED else ret, h\<lparr>dh_pool := p, dh_os := w\<rparr>)))))))"

definition dist_Exist :: "dheap \<Rightarrow> bool" where
  "dist_Exist h = pool_Exist (dh_pool h) (dh_os h)"

definition own_first :: "dheap \<Rightarrow> (error_code \<times> dheap) result option" where
  "own_first h =
     obind (AcquireShelfHeap False h) (\<lambda>(got, h).
       case got of None \<Rightarrow> Some (Inr (NO_ERROR, h)) | Some i \<Rightarrow> Some (OpenShelfHeap (of_nat i) h))"

definition dist_Open :: "dheap \<Rightarrow> (error_code \<times> dheap) result option" where
  "dist_Open h =
     (if dh_is_open h then Some (Inl Assert_Failed)
      else obind (Some (open_dpool h)) (\<lambda>(ret, h).
        if ret \<noteq> NO_ERROR then Some (Inr (HEAP_OPEN_FAILED, h))
        else obind (Some (SharedAreaOffset (dh_pool h))) (\<lambda>_.
        obind (Some (SharedAreaSize (dh_pool h) (dh_os h))) (\<lambda>shared_size.
        obind (Some (ow_Open (dh_view h) (dh_getpid h) (Ownership_new shared_size) (dh_own h))) (\<lambda>(ret, ow).
          let h = h\<lparr>dh_ownership := Some ow\<rparr>
          in if ret \<noteq> NO_ERROR then Some (Inr (HEAP_OPEN_FAILED, h))
             else let shared_size = shared_size - ow_size ow
             in obind (Some (fl_Open (FreeLists_new shared_size) (dh_fl h))) (\<lambda>(ret, fl, fm).
                  let h = h\<lparr>dh_freelists := Some fl, dh_fl := fm\<rparr>
                  in if ret \<noteq> NO_ERROR then Some (Inr (HEAP_OPEN_FAILED, h))
                     else if fl_size fl \<noteq> shared_size then Some (Inl Assert_Failed)
                     else obind (own_first h) (\<lambda>(ret, h).
                       if ret \<noteq> NO_ERROR then Some (Inr (HEAP_OPEN_FAILED, h))
                       else Some (Inr (ret, dist_StartWorker (h\<lparr>dh_is_open := True\<rparr>))))))))))"

fun close_shelf_heaps :: "ShelfIndex list \<Rightarrow> dheap \<Rightarrow> (bool \<times> dheap) result" where
  "close_shelf_heaps [] h = Inr (True, h)"
| "close_shelf_heaps (idx # is) h =
     rbind (give_up idx h) (\<lambda>(ok, h). if ok then close_shelf_heaps is h else Inr (False, h))"

text \<open>\<open>Close\<close> keeps the object of the free lists, closed.\<close>

definition dist_Close :: "dheap \<Rightarrow> (error_code \<times> dheap) result" where
  "dist_Close h =
     (if \<not> dh_is_open h then Inl Assert_Failed
      else let h = dist_StopWorker h
      in rbind (close_shelf_heaps (map fst (dh_map h)) h) (\<lambda>(ok, h).
        if \<not> ok then Inr (HEAP_CLOSE_FAILED, h)
        else case (dh_ownership h, dh_freelists h) of
          (Some ow, Some fl) \<Rightarrow>
            rbind (ow_Close ow) (\<lambda>(ret, ow).
              if ret \<noteq> NO_ERROR then Inr (HEAP_CLOSE_FAILED, h\<lparr>dh_ownership := Some ow\<rparr>)
              else rbind (Ownership_delete ow) (\<lambda>_.
              rbind (fl_Close fl) (\<lambda>(ret, fl).
                let h = h\<lparr>dh_ownership := None, dh_freelists := Some fl\<rparr>
                in if ret \<noteq> NO_ERROR then Inr (HEAP_CLOSE_FAILED, h)
                   else rbind (close_dpool h) (\<lambda>(ret, h).
                     if ret \<noteq> NO_ERROR then Inr (HEAP_CLOSE_FAILED, h) else Inr (ret, h\<lparr>dh_is_open := False\<rparr>)))))
        | _ \<Rightarrow> Inl Out_Of_Bounds))"

definition DistHeap_delete :: "dheap \<Rightarrow> dheap result" where
  "DistHeap_delete h = (if dh_is_open h then rbind (dist_Close h) (\<lambda>(_, h). Inr h) else Inr h)"

end
