(* ===== verification/Dist_Heap_Props.thy ===== *)
theory Dist_Heap_Props
  imports Dist_Heap Free_Lists_Props Pool_Props
begin

text \<open>The properties of the heap of the build without zones: allocation from a shelf the process owns, frees that
  reach the owner of a shelf, and what the heap does when its shelf is full.\<close>

section \<open>Opening and closing a shelf that is mapped\<close>

definition shelf_obj :: "string \<Rightarrow> ShelfId \<Rightarrow> nat \<Rightarrow> u64 \<Rightarrow> nv_layout \<Rightarrow> nv_shelf" where
  "shelf_obj path sid n a l =
     \<lparr>ns_is_open = True, ns_file = \<lparr>sf_fd = Some n, sf_path = path, sf_id = sid\<rparr>, ns_addr = Some a, ns_size = nv_Size l\<rparr>"

lemma lock_unlock [simp]: "\<not> locked sm \<Longrightarrow> sm\<lparr>locked := False\<rparr> = sm"
  by simp

lemma ns_Open_mapped:
  assumes "quiet w" "lookup w path = Some n" "shelf_id_IsValid sid" "\<not> locked sm" "LookupShelf sid sm = a" "a \<noteq> NULL"
    and "192 \<le> unat (i_size (inodes w n))" "nv_Verify l" "nv_Size l \<noteq> 0"
  shows "\<exists>c. ns_Open (NvShelf_id path sid) l sm w = Inr (NO_ERROR, shelf_obj path sid n a l, sm, w\<lparr>calls := c\<rparr>)"
proof -
  have lk: "LookupShelf sid (sm\<lparr>locked := True\<rparr>) = a" using assms(5) by (simp add: LookupShelf_def)
  show ?thesis using assms lk
    by (simp add: ns_Open_def NvShelf_id_def ns_OpenMapShelf_def ShelfFile_id_def sf_Exist_def sf_Open_def sf_IsOpen_def sys_open_def
        quiet_call Let_def sf_Map_def sm_Lock_def sm_Unlock_def sf_Size_def sys_fstat_def shelf_obj_def sizeof_NvHeapLayout_def
        word_less_nat_alt)
      (rule exI, rule refl)
qed

lemma ns_Close_mapped:
  assumes "quiet w" "lookup w path = Some n" "shelf_id_IsValid sid" "\<not> locked sm" "LookupShelf sid sm = a"
  shows "\<exists>c sh. ns_Close (shelf_obj path sid n a l) sm w = Inr (NO_ERROR, sh, sm, w\<lparr>calls := c\<rparr>) \<and> \<not> ns_is_open sh"
proof -
  have lk: "LookupShelf sid (sm\<lparr>locked := True\<rparr>) = a" using assms(5) by (simp add: LookupShelf_def)
  show ?thesis using assms lk
    by (simp add: ns_Close_def shelf_obj_def ns_UnmapCloseShelf_def sf_Exist_def sf_Size_def sys_fstat_def quiet_call Let_def
        sf_Unmap_def sm_Lock_def sm_Unlock_def sf_Close_def sf_IsOpen_def sys_close_def)
      (rule exI, rule refl)
qed

section \<open>Items\<close>

text \<open>The table is open, and \<open>me\<close> is the id of the process.\<close>

definition own_ready :: "process_id \<Rightarrow> dheap \<Rightarrow> bool" where
  "own_ready me h \<longleftrightarrow> IsValid me \<and> SetPid (dh_view h) (dh_getpid h) = Inr me \<and>
     (\<exists>ow. dh_ownership h = Some ow \<and> ow_is_open ow \<and> ow_pid ow = me \<and> ow_item_count ow = 128)"

abbreviation owner :: "dheap \<Rightarrow> nat \<Rightarrow> process_id" where "owner h \<equiv> om_items (dh_own h)"

definition set_owner :: "nat \<Rightarrow> process_id \<Rightarrow> dheap \<Rightarrow> dheap" where
  "set_owner i v h = h\<lparr>dh_own := (dh_own h)\<lparr>om_items := (owner h)(i := v)\<rparr>\<rparr>"

lemma own_readyE:
  assumes "own_ready me h"
  obtains ow where "dh_ownership h = Some ow" "ow_is_open ow" "ow_pid ow = me" "ow_item_count ow = 128"
    "h\<lparr>dh_ownership := Some ow\<rparr> = h" "IsValid me" "SetPid (dh_view h) (dh_getpid h) = Inr me"
  using assms unfolding own_ready_def by (cases h) auto

lemma own_check_spec: "own_ready me h \<Longrightarrow> own_check i h = Inr (IsValid (owner h i), h)"
  by (erule own_readyE) (simp add: own_check_def own_do_def CheckItem_def eval_nat_numeral)

lemma own_acquire_spec:
  assumes "own_ready me h" "owner h i = no_process"
  shows "own_acquire i h = Inr (True, set_owner i me h)"
proof -
  from assms(1) obtain ow where ow: "dh_ownership h = Some ow" "ow_is_open ow" "ow_pid ow = me" "h\<lparr>dh_ownership := Some ow\<rparr> = h"
    "SetPid (dh_view h) (dh_getpid h) = Inr me" by (auto elim: own_readyE)
  have "ow\<lparr>ow_pid := me\<rparr> = ow" using ow(3) by simp
  then have "h\<lparr>dh_ownership := Some (ow\<lparr>ow_pid := me\<rparr>), dh_own := x\<rparr> = h\<lparr>dh_own := x\<rparr>" for x using ow(4) by (metis)
  then show ?thesis using ow assms(2)
    by (simp add: own_acquire_def own_do_def AcquireItem_def eval_nat_numeral set_owner_def)
qed

lemma own_release_spec:
  assumes "own_ready me h" "owner h i = me"
  shows "own_release i h = Inr (True, set_owner i no_process h)"
proof -
  from assms(1) obtain ow where ow: "dh_ownership h = Some ow" "ow_is_open ow" "ow_pid ow = me" "h\<lparr>dh_ownership := Some ow\<rparr> = h"
    by (auto elim: own_readyE)
  have "ow\<lparr>ow_pid := me\<rparr> = ow" using ow(3) by simp
  then have "h\<lparr>dh_ownership := Some (ow\<lparr>ow_pid := me\<rparr>), dh_own := x\<rparr> = h\<lparr>dh_own := x\<rparr>" for x using ow(4) by (metis)
  then show ?thesis using ow assms(2)
    by (simp add: own_release_def own_do_def ReleaseItem_def eval_nat_numeral set_owner_def)
qed

section \<open>A process with one shelf\<close>

text \<open>Shelf \<open>k\<close> of the pool exists, its file \<open>n\<close> is mapped at \<open>a\<close>, and nothing fails.\<close>

abbreviation heap_path :: "nat \<Rightarrow> dheap \<Rightarrow> string" where
  "heap_path k h \<equiv> slot_path (dh_pool h) k (version_of (dh_pool h) (dh_os h) k)"

abbreviation heap_id :: "nat \<Rightarrow> dheap \<Rightarrow> ShelfId" where "heap_id k h \<equiv> EncodeShelfId (dh_pool_id h) (of_nat k)"

definition shelf_ready :: "process_id \<Rightarrow> nat \<Rightarrow> nat \<Rightarrow> u64 \<Rightarrow> dheap \<Rightarrow> bool" where
  "shelf_ready me k n a h \<longleftrightarrow>
     dh_is_open h \<and> own_ready me h \<and> pool_open (dh_pool h) (dh_os h) \<and> p_id (dh_pool h) = dh_pool_id h \<and> k < 128 \<and>
     used (dh_pool h) (dh_os h) k \<and> quiet (dh_os h) \<and> lookup (dh_os h) (heap_path k h) = Some n \<and>
     192 \<le> unat (i_size (inodes (dh_os h) n)) \<and> shelf_id_IsValid (heap_id k h) \<and> \<not> locked (dh_sm h) \<and>
     LookupShelf (heap_id k h) (dh_sm h) = a \<and> a \<noteq> NULL \<and> nv_Verify (dh_nv h (of_nat k)) \<and> nv_Size (dh_nv h (of_nat k)) \<noteq> 0"

definition heap_obj :: "nat \<Rightarrow> nat \<Rightarrow> u64 \<Rightarrow> dheap \<Rightarrow> nv_shelf" where
  "heap_obj k n a h = shelf_obj (heap_path k h) (heap_id k h) n a (dh_nv h (of_nat k))"

text \<open>The process owns the shelf and has it open; or nobody owns it and it is closed.\<close>

definition owns_shelf :: "process_id \<Rightarrow> nat \<Rightarrow> nat \<Rightarrow> u64 \<Rightarrow> dheap \<Rightarrow> bool" where
  "owns_shelf me k n a h \<longleftrightarrow> shelf_ready me k n a h \<and> owner h k = me \<and> dh_map h = [(of_nat k, heap_obj k n a h)]"

definition may_own_shelf :: "process_id \<Rightarrow> nat \<Rightarrow> nat \<Rightarrow> u64 \<Rightarrow> dheap \<Rightarrow> bool" where
  "may_own_shelf me k n a h \<longleftrightarrow> shelf_ready me k n a h \<and> owner h k = no_process \<and> dh_map h = []"

definition called :: "nat \<Rightarrow> dheap \<Rightarrow> dheap" where
  "called c h = h\<lparr>dh_os := (dh_os h)\<lparr>calls := c\<rparr>\<rparr>"

lemma called_pool [simp]:
  "pool_items p (w\<lparr>calls := c\<rparr>) = pool_items p w" "pool_open p (w\<lparr>calls := c\<rparr>) = pool_open p w"
  "used p (w\<lparr>calls := c\<rparr>) = used p w" "version_of p (w\<lparr>calls := c\<rparr>) = version_of p w"
  "CheckShelf p i (w\<lparr>calls := c\<rparr>) = CheckShelf p i w"
  by (simp_all add: pool_items_def pool_open_def used_def version_of_def CheckShelf_def read_items_def read_area_def fun_eq_iff
      split: option.split)

text \<open>The fields an acquisition or a release does not concern.\<close>

lemma ready_cong [simp]:
  "own_ready me (set_owner i v h) = own_ready me h" "own_ready me (called c h) = own_ready me h"
  "own_ready me (h\<lparr>dh_map := m\<rparr>) = own_ready me h"
  "shelf_ready me k n a (set_owner i v h) = shelf_ready me k n a h" "shelf_ready me k n a (called c h) = shelf_ready me k n a h"
  "shelf_ready me k n a (h\<lparr>dh_map := m\<rparr>) = shelf_ready me k n a h"
  by (simp_all add: own_ready_def shelf_ready_def set_owner_def called_def)

lemma obj_cong [simp]:
  "heap_obj k n a (set_owner i v h) = heap_obj k n a h" "heap_obj k n a (called c h) = heap_obj k n a h"
  "heap_obj k n a (h\<lparr>dh_map := m\<rparr>) = heap_obj k n a h"
  by (simp_all add: heap_obj_def set_owner_def called_def)

lemma field_simps [simp]:
  "owner (called c h) = owner h" "dh_map (called c h) = dh_map h" "owner (set_owner i v h) = (owner h)(i := v)"
  "dh_map (set_owner i v h) = dh_map h" "dh_nv (called c h) = dh_nv h" "dh_nv (set_owner i v h) = dh_nv h"
  "dh_pool (called c h) = dh_pool h" "dh_pool (set_owner i v h) = dh_pool h" "called c (called d h) = called c h"
  "dh_os (set_owner i v h) = dh_os h" "dh_os (called c h) = (dh_os h)\<lparr>calls := c\<rparr>"
  by (simp_all add: called_def set_owner_def)

lemma shelf_readyD:
  assumes "shelf_ready me k n a h"
  shows "dh_is_open h" "own_ready me h" "pool_open (dh_pool h) (dh_os h)" "k < 128" "used (dh_pool h) (dh_os h) k"
    "quiet (dh_os h)" "lookup (dh_os h) (heap_path k h) = Some n" "192 \<le> unat (i_size (inodes (dh_os h) n))"
    "shelf_id_IsValid (heap_id k h)" "\<not> locked (dh_sm h)" "LookupShelf (heap_id k h) (dh_sm h) = a" "a \<noteq> NULL"
    "nv_Verify (dh_nv h (of_nat k))" "nv_Size (dh_nv h (of_nat k)) \<noteq> 0" "p_id (dh_pool h) = dh_pool_id h"
  using assms unfolding shelf_ready_def by blast+

lemma idx_bound: "k < 128 \<Longrightarrow> (of_nat k :: ShelfIndex) < kMaxShelfCount"
  by (simp add: kMaxShelfCount_def word_less_nat_alt unat_u8)

lemma heap_id_ok: "shelf_ready me k n a h \<Longrightarrow> shelf_id (dh_pool_id h) (of_nat k) = Inr (heap_id k h)"
  using shelf_id_ok [of "dh_pool h" "dh_os h" k] shelf_readyD(3,4,15) by simp

lemma OpenShelfHeap_spec:
  assumes "shelf_ready me k n a h" "dh_map h = []"
  shows "\<exists>c. OpenShelfHeap (of_nat k) h = Inr (NO_ERROR, called c (h\<lparr>dh_map := [(of_nat k, heap_obj k n a h)]\<rparr>))"
proof -
  note R = shelf_readyD [OF assms(1)]
  obtain c where "ns_Open (NvShelf_id (heap_path k h) (heap_id k h)) (dh_nv h (of_nat k)) (dh_sm h) (dh_os h) =
      Inr (NO_ERROR, heap_obj k n a h, dh_sm h, (dh_os h)\<lparr>calls := c\<rparr>)"
    using ns_Open_mapped [OF R(6,7,9,10,11,12,8,13,14)] by (auto simp: heap_obj_def)
  then show ?thesis using query_specs(2) [OF R(3,4)] R(5) heap_id_ok [OF assms(1)] idx_bound [OF R(4)] assms(2)
    by (intro exI [of _ c]) (simp add: OpenShelfHeap_def RegisterShelfHeap_def called_def Let_def)
qed

lemma give_up_spec:
  assumes "owns_shelf me k n a h"
  shows "\<exists>c. give_up (of_nat k) h = Inr (True, called c (set_owner k no_process (h\<lparr>dh_map := []\<rparr>)))"
proof -
  have r: "shelf_ready me k n a h" "owner h k = me" "dh_map h = [(of_nat k, heap_obj k n a h)]" using assms by (simp_all add: owns_shelf_def)
  note R = shelf_readyD [OF r(1)]
  obtain c sh where c: "ns_Close (heap_obj k n a h) (dh_sm h) (dh_os h) = Inr (NO_ERROR, sh, dh_sm h, (dh_os h)\<lparr>calls := c\<rparr>)"
    "\<not> ns_is_open sh" using ns_Close_mapped [where l = "dh_nv h (of_nat k)", OF R(6,7,9,10,11)] by (auto simp: heap_obj_def)
  let ?h = "called c (h\<lparr>dh_map := []\<rparr>)"
  have "CloseShelfHeap (of_nat k) h = Inr (NO_ERROR, ?h)" using c r(3) idx_bound [OF R(4)]
    by (simp add: CloseShelfHeap_def LookupShelfHeap_def UnregisterShelfHeap_def NvShelf_delete_def called_def Let_def)
  moreover have o: "own_ready me ?h" "owner ?h k = me" using R(2) r(2) by simp_all
  have "IsValid me" using R(2) by (auto elim: own_readyE)
  then have "ReleaseShelfHeap k ?h = Inr (True, set_owner k no_process ?h)"
    using own_check_spec [OF o(1)] own_release_spec [OF o] o(2) query_specs(1) [OF R(3,4)] R(5)
    by (simp add: ReleaseShelfHeap_def called_def)
  moreover have "set_owner k no_process ?h = called c (set_owner k no_process (h\<lparr>dh_map := []\<rparr>))"
    by (simp add: set_owner_def called_def)
  ultimately show ?thesis using unat_u8 [OF R(4)] by (auto simp: give_up_def)
qed

section \<open>Acquiring the shelf\<close>

lemma skip_taken:
  assumes "own_ready me h" "\<forall>j \<in> set js. IsValid (owner h j)"
  shows "acquire_existing (js @ is) h = acquire_existing is h" "acquire_or_add (js @ is) h = acquire_or_add is h"
  using assms(2) by (induction js) (simp_all add: own_check_spec [OF assms(1)])

lemma upt_128: "k < 128 \<Longrightarrow> [0..<128] = [0..<k] @ k # [Suc k..<128]"
  using upt_add_eq_append [of 0 k "128 - k"] upt_conv_Cons [of k 128] by simp

text \<open>Shelves below \<open>k\<close> are owned, by whomever: both kinds of search find shelf \<open>k\<close>.\<close>

lemma AcquireShelfHeap_spec:
  assumes "may_own_shelf me k n a h" "\<forall>j < k. IsValid (owner h j)"
  shows "AcquireShelfHeap newonly h = Some (Inr (Some k, set_owner k me h))"
proof -
  have r: "shelf_ready me k n a h" "owner h k = no_process" using assms(1) by (simp_all add: may_own_shelf_def)
  note R = shelf_readyD [OF r(1)]
  have "shelf_count h = Inr 128" using R(2) by (auto simp: shelf_count_def elim: own_readyE)
  moreover have "\<not> IsValid no_process" by (simp add: IsValid_def no_process_def)
  ultimately show ?thesis
    using skip_taken [OF R(2), of "[0..<k]"] assms(2) upt_128 [OF R(4)] own_check_spec [OF R(2)] own_acquire_spec [OF R(2) r(2)]
      query_specs(1) [OF R(3,4)] R(5) r(2)
    by (simp add: AcquireShelfHeap_def)
qed

section \<open>A full shelf\<close>

definition is_full :: "u64 \<Rightarrow> nv_layout \<Rightarrow> bool" where
  "is_full sz l \<longleftrightarrow> nv_next_free l + round_up sz kCacheLineSize - nv_kMetadataSize > nv_heap_size l"

lemma try_full:
  assumes "shelf_ready me k n a h" "is_full sz (dh_nv h (of_nat k))"
  shows "try_Alloc sz (of_nat k) (heap_obj k n a h) h = Inr (None, h)"
proof -
  let ?l = "dh_nv h (of_nat k)"
  have "nv_alone sz ?l = (Nv_Ret sz 0, ?l)" using assms(2) by (simp add: nv_alone_def is_full_def Let_def)
  moreover have "\<not> nv_IsValid ?l 0" by (simp add: nv_IsValid_def nv_consts)
  moreover have "ns_is_open (heap_obj k n a h)" "ns_size (heap_obj k n a h) \<noteq> 0"
    using shelf_readyD(14) [OF assms(1)] by (simp_all add: heap_obj_def shelf_obj_def)
  ultimately show ?thesis by (simp add: try_Alloc_def ns_Alloc_def ns_IsValidOffset_def with_layout_def)
qed

lemma alloc_in_new_full:
  assumes "may_own_shelf me k n a h" "\<forall>j < k. IsValid (owner h j)" "is_full sz (dh_nv h (of_nat k))"
  shows "\<exists>c. alloc_in_new newonly sz h =
    Some (Inr (False, 0, Some k, called c (set_owner k me (h\<lparr>dh_map := [(of_nat k, heap_obj k n a h)]\<rparr>))))"
proof -
  have r: "shelf_ready me k n a h" "dh_map h = []" using assms(1) by (simp_all add: may_own_shelf_def)
  let ?h = "set_owner k me h"
  have r': "shelf_ready me k n a ?h" "dh_map ?h = []" using r by simp_all
  obtain c where c: "OpenShelfHeap (of_nat k) ?h = Inr (NO_ERROR, called c (?h\<lparr>dh_map := [(of_nat k, heap_obj k n a h)]\<rparr>))"
    using OpenShelfHeap_spec [OF r'] by auto
  let ?g = "called c (?h\<lparr>dh_map := [(of_nat k, heap_obj k n a h)]\<rparr>)"
  have g: "shelf_ready me k n a ?g" "is_full sz (dh_nv ?g (of_nat k))" "heap_obj k n a ?g = heap_obj k n a h"
    using r' assms(3) by simp_all
  have "?g = called c (set_owner k me (h\<lparr>dh_map := [(of_nat k, heap_obj k n a h)]\<rparr>))" by (simp add: set_owner_def called_def)
  moreover have "LookupShelfHeap (of_nat k) ?g = Some (heap_obj k n a h)" by (simp add: LookupShelfHeap_def called_def)
  ultimately show ?thesis using AcquireShelfHeap_spec [OF assms(1,2), of newonly] c try_full [OF g(1,2)] g(3)
    by (intro exI [of _ c]) (simp add: alloc_in_new_def)
qed

text \<open>Closing and opening again changes nothing but the number of calls to the system.\<close>

lemma reopened:
  fixes c :: nat and h :: dheap
  assumes "owns_shelf me k n a h"
  defines "g \<equiv> called c (set_owner k no_process (h\<lparr>dh_map := []\<rparr>))"
  shows "may_own_shelf me k n a g" "called d (set_owner k me (g\<lparr>dh_map := [(of_nat k, heap_obj k n a g)]\<rparr>)) = called d h"
    "owns_shelf me k n a (called d h)" "dh_nv g = dh_nv h" "owner g = (owner h)(k := no_process)"
proof -
  have r: "shelf_ready me k n a h" "owner h k = me" "dh_map h = [(of_nat k, heap_obj k n a h)]" using assms(1) by (simp_all add: owns_shelf_def)
  show "may_own_shelf me k n a g" using r by (simp add: may_own_shelf_def g_def)
  have "(owner h)(k := me) = owner h" using r(2) by auto
  then show "called d (set_owner k me (g\<lparr>dh_map := [(of_nat k, heap_obj k n a g)]\<rparr>)) = called d h"
    using r(3) by (cases h) (simp add: g_def called_def set_owner_def heap_obj_def)
  show "owns_shelf me k n a (called d h)" using r by (simp add: owns_shelf_def)
  show "dh_nv g = dh_nv h" "owner g = (owner h)(k := no_process)" by (simp_all add: g_def)
qed

lemma alloc_full:
  assumes "owns_shelf me k n a h" "\<forall>j < k. IsValid (owner h j)" "is_full sz (dh_nv h (of_nat k))"
  shows "\<exists>c. dist_Alloc sz h = Some (Inr (0, called c h))"
proof -
  have r: "shelf_ready me k n a h" "dh_map h = [(of_nat k, heap_obj k n a h)]" using assms(1) by (simp_all add: owns_shelf_def)
  note R = shelf_readyD [OF r(1)]
  have own: "alloc_owned sz (dh_map h) h = Inr (None, h)" using try_full [OF r(1) assms(3)] r(2) by simp
  obtain c1 where c1: "give_up (of_nat k) h = Inr (True, called c1 (set_owner k no_process (h\<lparr>dh_map := []\<rparr>)))"
    using give_up_spec [OF assms(1)] by blast
  let ?g = "\<lambda>c. called c (set_owner k no_process (h\<lparr>dh_map := []\<rparr>))"
  have taken: "\<forall>j < k. IsValid (owner (?g c) j)" "is_full sz (dh_nv (?g c) (of_nat k))" for c
    using assms(2,3) reopened(4,5) [OF assms(1)] by simp_all
  have again: "\<exists>d. alloc_in_new newonly sz (?g c) = Some (Inr (False, 0, Some k, called d h))" for newonly c
    using alloc_in_new_full [where newonly = newonly, OF reopened(1) [OF assms(1), of c] taken] reopened(2) [OF assms(1), of _ c] by metis
  obtain c2 where c2: "alloc_in_new False sz (?g c1) = Some (Inr (False, 0, Some k, called c2 h))" using again by blast
  obtain c3 where c3: "give_up (of_nat k) (called c2 h) = Inr (True, ?g c3)"
    using give_up_spec [OF reopened(3) [OF assms(1)], of c2] by (auto simp: called_def set_owner_def)
  obtain c4 where "alloc_in_new True sz (?g c3) = Some (Inr (False, 0, Some k, called c4 h))" using again by blast
  then show ?thesis using R(1) own c1 c2 c3 r(2)
    by (intro exI [of _ c4]) (simp add: dist_Alloc_def make_room_def kMaxOwnedHeap_def)
qed

section \<open>Allocation\<close>

fun dist_Allocs :: "u64 list \<Rightarrow> dheap \<Rightarrow> (GlobalPtr list \<times> dheap) result option" where
  "dist_Allocs [] h = Some (Inr ([], h))"
| "dist_Allocs (sz # szs) h =
     obind (dist_Alloc sz h) (\<lambda>(p, h). obind (dist_Allocs szs h) (\<lambda>(ps, h). Some (Inr (p # ps, h))))"

text \<open>The reference: chunks of whole cache lines one behind the other, from \<open>off\<close> to the end of the heap.\<close>

fun bump_spec :: "nat \<Rightarrow> nat \<Rightarrow> nat list \<Rightarrow> nat option list" where
  "bump_spec heap_end off [] = []"
| "bump_spec heap_end off (sz # szs) =
     (let next_off = off + (sz + 63) div 64 * 64
      in if next_off \<le> heap_end then Some off # bump_spec heap_end next_off szs else None # bump_spec heap_end off szs)"

definition heap_end :: "nv_layout \<Rightarrow> nat" where "heap_end l = 192 + unat (nv_heap_size l)"

definition layout_ok :: "nv_layout \<Rightarrow> bool" where
  "layout_ok l \<longleftrightarrow> 192 \<le> unat (nv_next_free l) \<and> unat (nv_next_free l) \<le> heap_end l \<and> unat (nv_heap_size l) < 2 ^ 39"

lemma next_offset:
  assumes "layout_ok l" "unat sz \<le> 2 ^ 63"
  shows "unat (nv_next_free l + round_up sz kCacheLineSize) = unat (nv_next_free l) + (unat sz + 63) div 64 * 64"
    "is_full sz l \<longleftrightarrow> \<not> unat (nv_next_free l) + (unat sz + 63) div 64 * 64 \<le> heap_end l"
proof -
  let ?e = "nv_next_free l" and ?r = "round_up sz 64"
  have l: "192 \<le> unat ?e" "unat ?e \<le> 192 + unat (nv_heap_size l)" "unat (nv_heap_size l) < 2 ^ 39"
    using assms(1) by (simp_all add: layout_ok_def heap_end_def)
  have r: "unat ?r = (unat sz + unat (64 :: u64) - 1) div unat (64 :: u64) * unat (64 :: u64)" using assms(2) by (intro unat_round_up) simp_all
  have rr: "unat ?r = (unat sz + 63) div 64 * 64" unfolding r by simp
  have "unat ?r < unat sz + 64" by (rule round_64(2) [OF assms(2)])
  then have s: "unat (?e + ?r) = unat ?e + unat ?r" using l assms(2) by (simp add: unat_word_ariths)
  then show "unat (?e + round_up sz kCacheLineSize) = unat ?e + (unat sz + 63) div 64 * 64" by (simp add: kCacheLineSize_def rr)
  have "192 \<le> ?e + ?r" using s l(1) by (simp add: word_le_nat_alt)
  then have "unat (?e + ?r - 192) = unat ?e + unat ?r - 192" using s by (simp add: unat_sub)
  then show "is_full sz l \<longleftrightarrow> \<not> unat ?e + (unat sz + 63) div 64 * 64 \<le> heap_end l" using l(1) rr
    by (auto simp: is_full_def nv_consts word_less_nat_alt heap_end_def)
qed

text \<open>One \<open>Alloc\<close> that fits.\<close>

lemma alloc_fits:
  assumes "owns_shelf me k n a h" "layout_ok (dh_nv h (of_nat k))" "unat sz \<le> 2 ^ 63" "0 < sz" "\<not> is_full sz (dh_nv h (of_nat k))"
  defines "l \<equiv> dh_nv h (of_nat k)"
  defines "l' \<equiv> l\<lparr>nv_next_free := nv_next_free l + round_up sz kCacheLineSize\<rparr>"
  shows "dist_Alloc sz h = Some (Inr (EncodeGlobalPtr (heap_id k h) (nv_next_free l), h\<lparr>dh_nv := (dh_nv h)(of_nat k := l')\<rparr>))"
    "layout_ok l'" "owns_shelf me k n a (h\<lparr>dh_nv := (dh_nv h)(of_nat k := l')\<rparr>)"
proof -
  have r: "shelf_ready me k n a h" "dh_map h = [(of_nat k, heap_obj k n a h)]" "owner h k = me" using assms(1) by (simp_all add: owns_shelf_def)
  note N = next_offset [OF assms(2,3), folded l_def]
  have fit: "unat (nv_next_free l) + (unat sz + 63) div 64 * 64 \<le> heap_end l" using assms(5) N(2) by (simp add: l_def)
  have ok: "192 \<le> unat (nv_next_free l)" "unat (nv_heap_size l) < 2 ^ 39" using assms(2) by (simp_all add: layout_ok_def l_def)
  have al: "nv_alone sz l = (Nv_Ret sz (nv_next_free l), l')" using assms(5) by (simp add: nv_alone_def is_full_def Let_def l_def l'_def)
  have "0 < unat sz" using assms(4) by (simp add: unat_gt_0 word_gt_0)
  then have "1 \<le> (unat sz + 63) div 64" by simp
  then have "unat (nv_next_free l) - 192 < unat (nv_heap_size l)" using fit ok(1) by (simp add: heap_end_def)
  moreover have "unat (nv_next_free l - 192) = unat (nv_next_free l) - 192" using ok(1) by (simp add: unat_sub word_le_nat_alt)
  ultimately have valid: "nv_IsValid l' (nv_next_free l)"
    using ok(1) by (simp add: nv_IsValid_def nv_consts Let_def word_less_nat_alt l'_def)
  have obj: "ns_is_open (heap_obj k n a h)" "ns_size (heap_obj k n a h) \<noteq> 0"
    using shelf_readyD(14) [OF r(1)] by (simp_all add: heap_obj_def shelf_obj_def)
  show "dist_Alloc sz h = Some (Inr (EncodeGlobalPtr (heap_id k h) (nv_next_free l), h\<lparr>dh_nv := (dh_nv h)(of_nat k := l')\<rparr>))"
    using shelf_readyD(1) [OF r(1)] r(2) al valid obj heap_id_ok [OF r(1)]
    by (simp add: dist_Alloc_def try_Alloc_def ns_Alloc_def ns_IsValidOffset_def with_layout_def dh_ptr_def l_def Let_def)
  show "layout_ok l'" using ok fit N(1) by (simp add: layout_ok_def l'_def heap_end_def)
  show "owns_shelf me k n a (h\<lparr>dh_nv := (dh_nv h)(of_nat k := l')\<rparr>)" using r
    by (simp add: owns_shelf_def shelf_ready_def own_ready_def heap_obj_def shelf_obj_def nv_Verify_def nv_Size_def l'_def l_def)
qed

definition ptr_of :: "ShelfId \<Rightarrow> nat option \<Rightarrow> GlobalPtr" where
  "ptr_of sid off = (case off of None \<Rightarrow> 0 | Some o' \<Rightarrow> EncodeGlobalPtr sid (of_nat o'))"

text \<open>C23: A process that owns a shelf, the first of those that are not owned by others, answers every sequence of
  \<open>Alloc\<close> as the bump allocator of that one shelf does: a request that fits gets the next cache lines, one that does
  not fit gets 0, however many slots of the pool are free. When its shelf is full the process closes and releases it,
  acquires it again, finds it full, and the search that is to make a new shelf (\<open>newonly\<close>) finds the same shelf once
  more; in the end only the number of calls to the system has changed. The pool never gets a second shelf.\<close>

theorem dist_heap_one_shelf:
  assumes "owns_shelf me k n a h" "\<forall>j < k. IsValid (owner h j)" "layout_ok (dh_nv h (of_nat k))"
    "\<forall>sz \<in> set szs. 0 < sz \<and> unat sz \<le> 2 ^ 63"
  shows "\<exists>h'. dist_Allocs szs h = Some (Inr (map (ptr_of (heap_id k h))
      (bump_spec (heap_end (dh_nv h (of_nat k))) (unat (nv_next_free (dh_nv h (of_nat k)))) (map unat szs)), h')) \<and>
    owns_shelf me k n a h' \<and> dh_pool h' = dh_pool h \<and> owner h' = owner h \<and>
    shelves (dh_pool h') (dh_os h') = shelves (dh_pool h) (dh_os h) \<and> lookup (dh_os h') = lookup (dh_os h)"
  using assms
proof (induction szs arbitrary: h)
  case (Cons sz szs)
  let ?l = "dh_nv h (of_nat k)"
  have sz: "0 < sz" "unat sz \<le> 2 ^ 63" using Cons.prems(4) by simp_all
  note N = next_offset [OF Cons.prems(3) sz(2)]
  show ?case
  proof (cases "is_full sz ?l")
    case True
    obtain c where c: "dist_Alloc sz h = Some (Inr (0, called c h))" using alloc_full [OF Cons.prems(1,2) True] by blast
    have p: "owns_shelf me k n a (called c h)" by (rule reopened(3) [OF Cons.prems(1)])
    have "dh_pool_id (called c h) = dh_pool_id h" "shelves (dh_pool h) ((dh_os h)\<lparr>calls := c\<rparr>) = shelves (dh_pool h) (dh_os h)"
      by (simp_all add: called_def shelves_def fun_eq_iff)
    moreover have "\<forall>j < k. IsValid (owner (called c h) j)" "layout_ok (dh_nv (called c h) (of_nat k))" using Cons.prems(2,3) by simp_all
    ultimately show ?thesis using Cons.IH [OF p] Cons.prems(4) c N(2) True
      by (auto simp: Let_def ptr_of_def)
  next
    case False
    note A = alloc_fits [OF Cons.prems(1,3) sz(2,1) False]
    let ?l' = "?l\<lparr>nv_next_free := nv_next_free ?l + round_up sz kCacheLineSize\<rparr>"
    let ?h = "h\<lparr>dh_nv := (dh_nv h)(of_nat k := ?l')\<rparr>"
    have h: "\<forall>j < k. IsValid (owner ?h j)" "layout_ok (dh_nv ?h (of_nat k))" "heap_end ?l' = heap_end ?l"
      using Cons.prems(2) A(2) by (simp_all add: heap_end_def)
    show ?thesis using Cons.IH [OF A(3) h(1,2)] Cons.prems(4) A(1) N False h(3) by (auto simp: Let_def ptr_of_def)
  qed
qed simp

text \<open>A pool with shelf 3, which process 7 has open; the slots below are owned by process 9, of the others none has a
  shelf. The heap has 256 bytes.\<close>

definition example_dheap :: "pool \<Rightarrow> world \<Rightarrow> nat \<Rightarrow> dheap" where
  "example_dheap q w n =
     (let sid = EncodeShelfId 5 3;
          l = \<lparr>nv_magic_num = nv_kMagicNum, nv_heap_size = 256, nv_next_free = 192, nv_data = (\<lambda>_. 0)\<rparr>
      in \<lparr>dh_pool_id = 5, dh_pool = q, dh_is_open = True,
          dh_ownership = Some \<lparr>ow_is_open = True, ow_size = 2112, ow_pid = ident_7 0, ow_item_count = 128\<rparr>,
          dh_freelists = None, dh_map = [(3, shelf_obj (slot_path q 3 1) sid n 4096 l)], dh_cleaner_running = True,
          dh_cleaner_stop = False,
          dh_sm = \<lparr>map_ids = [(sid, 4096, 4096, True)], reverse_map = [(4096, sid, 4096, True)], locked = False\<rparr>,
          dh_view = plain_os, dh_getpid = 7,
          dh_own = \<lparr>om_magic = own_kMagicNum, om_size = 2112, om_item_count = 128,
            om_items = (\<lambda>i. if i = 3 then ident_7 0 else if i < 3 then \<lparr>p_pid = 9, p_btime = 9\<rparr> else no_process)\<rparr>,
          dh_fl = snd two_lists, dh_nv = (\<lambda>_. l), dh_os = w\<rparr>)"

lemma example_shelf_file:
  "\<exists>q w n. pool_open q w \<and> quiet w \<and> used q w 3 \<and> version_of q w 3 = 1 \<and> lookup w (slot_path q 3 1) = Some n \<and>
     i_size (inodes w n) = 4096 \<and> p_id q = 5 \<and> shelves q w = [3 \<mapsto> 1]"
proof (cases open_example)
  case (Pair q w)
  note F = open_example_facts [OF Pair] and A = example_add_args [OF Pair]
  have "(3 :: nat) < 128" by simp
  from add_shelf_spec [OF F(2,1) this A(1,2,3) A(4)] obtain w' where w': "quiet w'" "pool_ok q w'" "shelves q w' = [3 \<mapsto> 1]"
    "lookup w' = (lookup w)(slot_path q 3 1 := Some (next_ino w))" "i_size (inodes w' (next_ino w)) = 4096"
    by (auto simp: F(3,4,9,10))
  have "shelves q w' 3 = Some 1" using w'(3) by simp
  then have "used q w' 3" "version_of q w' 3 = 1" by (simp_all add: shelves_def split: if_splits)
  moreover have "p_id q = 5" using Pool_new_fields(3) [OF example_new] F(8) by simp
  ultimately show ?thesis using w' pool_okD(1) [OF w'(2)]
    by (intro exI [of _ q] exI [of _ w'] exI [of _ "next_ino w"]) simp
qed

lemma example_owns:
  assumes "pool_open q w" "quiet w" "used q w 3" "version_of q w 3 = 1" "lookup w (slot_path q 3 1) = Some n"
    "i_size (inodes w n) = 4096" "p_id q = 5"
  shows "owns_shelf (ident_7 0) 3 n 4096 (example_dheap q w n)"
proof -
  have "SetPid plain_os 7 = Inr (ident_7 0)" by (simp add: SetPid_def plain_btime ident_7_def)
  moreover have "shelf_id_IsValid (EncodeShelfId 5 3)" by code_simp
  ultimately show ?thesis using assms
    by (simp add: owns_shelf_def shelf_ready_def own_ready_def example_dheap_def Let_def heap_obj_def LookupShelf_def NULL_def
        nv_Verify_def nv_Size_def ident_7_def IsValid_def)
qed

lemma dist_heap_one_shelf_witness:
  "\<exists>q w n h'. shelves q w = [3 \<mapsto> 1] \<and>
     dist_Allocs [100, 64, 200, 64, 1] (example_dheap q w n) =
       Some (Inr ([EncodeGlobalPtr (EncodeShelfId 5 3) 192, EncodeGlobalPtr (EncodeShelfId 5 3) 320, 0,
         EncodeGlobalPtr (EncodeShelfId 5 3) 384, 0], h')) \<and>
     shelves (dh_pool h') (dh_os h') = [3 \<mapsto> 1]"
proof -
  from example_shelf_file obtain q w n where e: "pool_open q w" "quiet w" "used q w 3" "version_of q w 3 = 1"
    "lookup w (slot_path q 3 1) = Some n" "i_size (inodes w n) = 4096" "p_id q = 5" "shelves q w = [3 \<mapsto> 1]" by blast
  let ?h = "example_dheap q w n"
  have f: "dh_pool ?h = q" "dh_os ?h = w" "dh_pool_id ?h = 5" "\<forall>j < 3. IsValid (owner ?h j)" "layout_ok (dh_nv ?h (of_nat 3))"
    "heap_end (dh_nv ?h (of_nat 3)) = 448" "unat (nv_next_free (dh_nv ?h (of_nat 3))) = 192"
    by (simp_all add: example_dheap_def Let_def IsValid_def layout_ok_def heap_end_def)
  have "\<forall>sz \<in> set [100, 64, 200, 64, 1 :: u64]. 0 < sz \<and> unat sz \<le> 2 ^ 63" by simp
  from dist_heap_one_shelf [OF example_owns [OF e(1-7)] f(4,5) this] obtain h' where
    "dist_Allocs [100, 64, 200, 64, 1] ?h = Some (Inr ([EncodeGlobalPtr (EncodeShelfId 5 3) 192,
       EncodeGlobalPtr (EncodeShelfId 5 3) 320, 0, EncodeGlobalPtr (EncodeShelfId 5 3) 384, 0], h'))"
    "shelves (dh_pool h') (dh_os h') = [3 \<mapsto> 1]"
    unfolding f(1,2,3,6,7) e(8) by (auto simp: Let_def ptr_of_def simp del: dist_Allocs.simps)
  then show ?thesis using e(8) by blast
qed

section \<open>Frees that reach the owner\<close>

text \<open>What the list of shelf \<open>k\<close> hands to \<open>GetPointer\<close>, when the shelf's own process frees it.\<close>

lemma put_one:
  assumes "k < (c::nat)" "(\<Sum>j<c. length (L j)) < cap"
  shows "put_list c cap k p L = L(k := p # L k)" "get_list k (L(k := p # L k)) = (NO_ERROR, Some p, L)"
  using assms by (simp_all add: put_list_def get_list_def)

text \<open>C24: As long as the free lists have room, a pointer that one process frees into a shelf it does not own is put in
  front of the list of that shelf, and nothing else of that process changes. The next pass of the owner's worker takes it
  from there, with which the lists are what they were, and then does what \<open>Free\<close> of this pointer does in the owner: in a heap of the
  same pool it succeeds (the \<open>Free\<close> of an \<open>NvHeapLayout\<close> does nothing), in one of another pool it stops at the assertion on the
  pool id. When the free lists are full \<open>PutPointer\<close> drops the pointer, and it never gets to the owner.\<close>

theorem dist_free_reaches_owner:
  assumes g: "dh_is_open g" "pool_open (dh_pool g) (dh_os g)" "used (dh_pool g) (dh_os g) k" "LookupShelfHeap (of_nat k) g = None"
    and ptr: "DecodePoolId (DecodeShelfId ptr) = dh_pool_id g" "DecodeShelfIndex (DecodeShelfId ptr) = of_nat k"
    and lists: "dh_freelists g = Some flg" "fl_open 128 sh flg" "fl_inv 128 sh m0 L (dh_fl g)" "(\<Sum>j<128. length (L j)) < fcap sh m0"
    and h: "owns_shelf me k n a h" "dh_freelists h = Some flh" "fl_open 128 sh flh"
  shows "\<exists>m m'. dist_Free ptr g = Inr (g\<lparr>dh_fl := m\<rparr>) \<and> fl_inv 128 sh m0 (L(k := ptr # L k)) m \<and> fl_inv 128 sh m0 L m' \<and>
    clean_lists (map fst (dh_map h)) (h\<lparr>dh_fl := m\<rparr>) = dist_Free ptr (h\<lparr>dh_fl := m'\<rparr>) \<and>
    dist_Free ptr (h\<lparr>dh_fl := m'\<rparr>) = (if dh_pool_id h = dh_pool_id g then Inr (h\<lparr>dh_fl := m'\<rparr>) else Inl Assert_Failed)"
proof -
  have r: "shelf_ready me k n a h" "dh_map h = [(of_nat k, heap_obj k n a h)]" using h(1) by (simp_all add: owns_shelf_def)
  have k: "k < 128" by (rule shelf_readyD(4) [OF r(1)])
  note U = unat_u8 [OF k] and pl = put_one [where c = 128, OF k lists(4)]
  obtain m where m: "PutPointer k ptr flg (dh_fl g) = Inr (NO_ERROR, m)" "fl_inv 128 sh m0 (L(k := ptr # L k)) m"
    using put_spec [OF lists(2,3) k, of ptr] unfolding pl(1) by blast
  have put: "dist_Free ptr g = Inr (g\<lparr>dh_fl := m\<rparr>)"
    using g ptr lists(1) m(1) query_specs(1) [OF g(2) k] U by (simp add: dist_Free_def Let_def)
  obtain m' where m': "GetPointer k flh m = Inr (NO_ERROR, Some ptr, m')" "fl_inv 128 sh m0 L m'"
    using get_spec [OF h(3) m(2) k] unfolding pl(2) by auto
  have obj: "ns_is_open (heap_obj k n a h)" "ns_size (heap_obj k n a h) \<noteq> 0"
    using shelf_readyD(14) [OF r(1)] by (simp_all add: heap_obj_def shelf_obj_def)
  have free: "dist_Free ptr (h\<lparr>dh_fl := m'\<rparr>) = (if dh_pool_id h = dh_pool_id g then Inr (h\<lparr>dh_fl := m'\<rparr>) else Inl Assert_Failed)"
    using shelf_readyD(1) [OF r(1)] ptr r(2) obj
    by (simp add: dist_Free_def Let_def LookupShelfHeap_def ns_Free_def with_layout_def nv_Free_def)
  have "clean_lists (map fst (dh_map h)) (h\<lparr>dh_fl := m\<rparr>) = dist_Free ptr (h\<lparr>dh_fl := m'\<rparr>)"
    using r(2) h(2) m'(1) U free by (simp add: Let_def)
  with put m(2) m'(2) free show ?thesis by blast
qed

text \<open>Process 8, which owns no shelf, frees the chunk at 192 of shelf 3 of the example; process 7 owns the shelf.\<close>

definition many_lists :: "free_lists \<times> fl_mem" where
  "many_lists =
     (case fl_Create 128 (FreeLists_new 4096) ((snd two_lists)\<lparr>flm_fba := zero_fba\<rparr>) of
        Inr (_, fl1, m1) \<Rightarrow> (case fl_Open fl1 m1 of Inr (_, fl, m2) \<Rightarrow> (fl, m2)))"

lemma many_lists_open:
  "\<exists>sh. fl_open 128 sh (fst many_lists) \<and> fl_inv 128 sh (flm_fba (snd many_lists)) (\<lambda>_. []) (snd many_lists) \<and>
     fcap sh (flm_fba (snd many_lists)) = 1022"
proof -
  let ?m = "(snd two_lists)\<lparr>flm_fba := zero_fba\<rparr>"
  have r: "round_up 24 64 = (64 :: u64)" "round_up 2048 64 = (2048 :: u64)" "round_up 1984 65536 = (65536 :: u64)" "round_up 112 64 = (128 :: u64)"
    "round_up 16 64 = (64 :: u64)" "round_up 0 64 = (0 :: u64)" "round_up 128 64 = (128 :: u64)"
    by (simp_all add: round_up_def)
  obtain sh fba where new: "FixedBlockAllocator_new 16 0 1984 zero_fba = Inr (sh, fba)"
    by (simp add: FixedBlockAllocator_new_def SmartShelf_new_def cas_word_def zero_fba_def Let_def kVirtualPageSize_def kCacheLineSize_def
        FBA_METADATA_SIZE_def r)
  then obtain fl1 m1 where c: "fl_Create 128 (FreeLists_new 4096) ?m = Inr (NO_ERROR, fl1, m1)"
    by (simp add: fl_Create_def FreeLists_new_def Let_def sizeof_freelists_header_def sizeof_Stack_def sizeof_fba_block_def
        kCacheLineSize_def r)
  from c new FixedBlockAllocator_again [OF new] obtain fl m where o: "fl_Open fl1 m1 = Inr (NO_ERROR, fl, m)"
    by (auto simp: fl_Create_def fl_Open_def fl_Verify_def FreeLists_new_def Let_def sizeof_freelists_header_def sizeof_Stack_def
        sizeof_fba_block_def kCacheLineSize_def r)
  have ml: "many_lists = (fl, m)" using c o by (simp add: many_lists_def)
  have "list_capacity 4096 128 = 1022" by (simp add: list_capacity_def fba_space_def r)
  with created [OF c _ _ _ o] obtain sh where "fl_open 128 sh fl" "fl_inv 128 sh (flm_fba m) (\<lambda>_. []) m" "fcap sh (flm_fba m) = 1022" by auto
  then show ?thesis by (intro exI [of _ sh]) (simp add: ml)
qed

lemma dist_free_reaches_owner_witness:
  "\<exists>q w n g h m m'. dist_Free (EncodeGlobalPtr (EncodeShelfId 5 3) 192) g = Inr (g\<lparr>dh_fl := m\<rparr>) \<and>
     h = (example_dheap q w n)\<lparr>dh_freelists := Some (fst many_lists)\<rparr> \<and>
     clean_lists (map fst (dh_map h)) (h\<lparr>dh_fl := m\<rparr>) = Inr (h\<lparr>dh_fl := m'\<rparr>)"
proof -
  from example_shelf_file obtain q w n where e: "pool_open q w" "quiet w" "used q w 3" "version_of q w 3 = 1"
    "lookup w (slot_path q 3 1) = Some n" "i_size (inodes w n) = 4096" "p_id q = 5" "shelves q w = [3 \<mapsto> 1]" by blast
  from many_lists_open obtain sh where s: "fl_open 128 sh (fst many_lists)"
    "fl_inv 128 sh (flm_fba (snd many_lists)) (\<lambda>_. []) (snd many_lists)" "fcap sh (flm_fba (snd many_lists)) = 1022" by blast
  let ?h = "(example_dheap q w n)\<lparr>dh_freelists := Some (fst many_lists)\<rparr>"
  let ?g = "?h\<lparr>dh_getpid := 8, dh_map := [], dh_fl := snd many_lists\<rparr>"
  have own: "owns_shelf (ident_7 0) 3 n 4096 ?h" using example_owns [OF e(1-7)]
    by (simp add: owns_shelf_def shelf_ready_def own_ready_def heap_obj_def)
  have d: "DecodeShelfId (EncodeGlobalPtr (EncodeShelfId 5 3) 192) = EncodeShelfId 5 3"
    "DecodePoolId (EncodeShelfId 5 3) = 5" "DecodeShelfIndex (EncodeShelfId 5 3) = 3" by code_simp+
  have g: "dh_is_open ?g" "dh_pool ?g = q" "dh_os ?g = w" "dh_pool_id ?g = 5" "dh_map ?g = []" "dh_fl ?g = snd many_lists"
    "dh_freelists ?g = Some (fst many_lists)" "dh_freelists ?h = Some (fst many_lists)" "dh_pool_id ?h = 5"
    by (simp_all add: example_dheap_def Let_def)
  have p: "pool_open (dh_pool ?g) (dh_os ?g)" "used (dh_pool ?g) (dh_os ?g) 3" "LookupShelfHeap (of_nat 3) ?g = None"
    "DecodePoolId (DecodeShelfId (EncodeGlobalPtr (EncodeShelfId 5 3) 192)) = dh_pool_id ?g"
    "DecodeShelfIndex (DecodeShelfId (EncodeGlobalPtr (EncodeShelfId 5 3) 192)) = of_nat 3"
    "fl_inv 128 sh (flm_fba (snd many_lists)) (\<lambda>_. []) (dh_fl ?g)"
    "(\<Sum>j<128. length ((\<lambda>_. [] :: u64 list) j)) < fcap sh (flm_fba (snd many_lists))" "dh_pool_id ?h = dh_pool_id ?g"
    using e s(2,3) d unfolding g by (simp_all add: LookupShelfHeap_def)
  from dist_free_reaches_owner [OF g(1) p(1-5) g(7) s(1) p(6,7) own g(8) s(1)] p(8) obtain m m' where
    "dist_Free (EncodeGlobalPtr (EncodeShelfId 5 3) 192) ?g = Inr (?g\<lparr>dh_fl := m\<rparr>)"
    "clean_lists (map fst (dh_map ?h)) (?h\<lparr>dh_fl := m\<rparr>) = Inr (?h\<lparr>dh_fl := m'\<rparr>)" by auto
  then show ?thesis by blast
qed

end
