(* ===== verification/Rw_Lock.thy ===== *)
theory Rw_Lock
  imports Gull_Prelude
begin

text \<open>
  The reader-writer lock with distributed counters of \<open>src/shelf_usage/dclcrwlock.{h,cc}\<close>, as steps of one
  atomic access each of threads that interleave (the accesses are sequentially consistent, but for the check in
  \<open>exclusiveUnlock\<close>, which reads a value the thread itself wrote).
\<close>

section \<open>The lock\<close>

definition DCLC_COUNTERS_RATIO :: nat where "DCLC_COUNTERS_RATIO = 3 * 64 div 4"

text \<open>\<open>numCores\<close> counters, one at every \<open>DCLC_COUNTERS_RATIO\<close>th place of the array; \<open>int\<close> is 32 bits.\<close>

record rwlock =
  countersLength :: nat
  readersCounters :: "nat \<Rightarrow> u32"
  writersMutex :: u32

definition DCLC_RWL_UNLOCKED :: u32 where "DCLC_RWL_UNLOCKED = 0"

definition DCLC_RWL_LOCKED :: u32 where "DCLC_RWL_LOCKED = 1"

definition DCLCRWLock_new :: "nat \<Rightarrow> rwlock" where
  "DCLCRWLock_new num_cores =
     \<lparr>countersLength = num_cores * DCLC_COUNTERS_RATIO, readersCounters = (\<lambda>_. 0), writersMutex = DCLC_RWL_UNLOCKED\<rparr>"

text \<open>\<open>tid\<close> is the hash of the thread.\<close>

definition thread2idx :: "nat \<Rightarrow> nat \<Rightarrow> nat" where
  "thread2idx num_cores tid = (tid mod num_cores) * DCLC_COUNTERS_RATIO"

text \<open>
  \<open>S_\<close>\<open>\<dots>\<close> belongs to \<open>sharedLock\<close> and, with the flag, to \<open>trySharedLock\<close>, \<open>X_\<close>\<open>\<dots>\<close> to \<open>exclusiveLock\<close>; \<open>S_In\<close>
  and \<open>X_In\<close> are the places where the thread has the lock. \<open>Ret\<close> is the return of the operations that answer.
\<close>

datatype rwpc =
    Idle
  | S_Add bool
  | S_Check bool
  | S_Undo bool
  | S_Wait
  | S_In
  | S_Unlock
  | X_Cas
  | X_Scan nat
  | X_In
  | X_Unlock
  | X_Store
  | Ret bool

definition bump :: "nat \<Rightarrow> u32 \<Rightarrow> rwlock \<Rightarrow> rwlock" where
  "bump i x l = l\<lparr>readersCounters := (readersCounters l)(i := readersCounters l i + x)\<rparr>"

fun shared_step :: "nat \<Rightarrow> rwpc \<Rightarrow> rwlock \<Rightarrow> rwpc \<times> rwlock" where
  "shared_step idx (S_Add only) l = (S_Check only, bump idx 1 l)"
| "shared_step idx (S_Check only) l = (if writersMutex l = DCLC_RWL_UNLOCKED then S_In else S_Undo only, l)"
| "shared_step idx (S_Undo only) l = (if only then Ret False else S_Wait, bump idx (-1) l)"
| "shared_step idx S_Wait l = (if writersMutex l = DCLC_RWL_LOCKED then S_Wait else S_Add False, l)"
| "shared_step idx S_Unlock l = (Ret (\<not> sint (readersCounters l idx) \<le> 0), bump idx (-1) l)"
| "shared_step idx pc l = (pc, l)"

fun exclusive_step :: "rwpc \<Rightarrow> rwlock \<Rightarrow> rwpc \<times> rwlock" where
  "exclusive_step X_Cas l =
     (if writersMutex l = DCLC_RWL_UNLOCKED then (X_Scan 0, l\<lparr>writersMutex := DCLC_RWL_LOCKED\<rparr>) else (X_Cas, l))"
| "exclusive_step (X_Scan i) l =
     (if i < countersLength l
      then if sint (readersCounters l i) > 0 then X_Scan i else X_Scan (i + DCLC_COUNTERS_RATIO)
      else X_In, l)"
| "exclusive_step X_Unlock l = (if writersMutex l \<noteq> DCLC_RWL_LOCKED then Ret False else X_Store, l)"
| "exclusive_step X_Store l = (Ret True, l\<lparr>writersMutex := DCLC_RWL_UNLOCKED\<rparr>)"
| "exclusive_step pc l = (pc, l)"

definition rw_run :: "nat \<Rightarrow> rwpc \<Rightarrow> rwlock \<Rightarrow> rwpc \<times> rwlock" where
  "rw_run idx pc l =
     (case pc of
        X_Cas \<Rightarrow> exclusive_step pc l
      | X_Scan _ \<Rightarrow> exclusive_step pc l
      | X_Unlock \<Rightarrow> exclusive_step pc l
      | X_Store \<Rightarrow> exclusive_step pc l
      | _ \<Rightarrow> shared_step idx pc l)"

section \<open>Threads\<close>

text \<open>The threads are the numbers below \<open>n\<close>, \<open>tid\<close> their hashes. A thread unlocks what it has locked.\<close>

record rwsys =
  rlock :: rwlock
  rpcs :: "nat \<Rightarrow> rwpc"

inductive rwstep :: "nat \<Rightarrow> (nat \<Rightarrow> nat) \<Rightarrow> nat \<Rightarrow> rwsys \<Rightarrow> rwsys \<Rightarrow> bool"
  for cores :: nat and tid :: "nat \<Rightarrow> nat" and n :: nat where
  call: "t < n \<Longrightarrow> rpcs s t = Idle \<Longrightarrow> pc \<in> {S_Add False, S_Add True, X_Cas} \<Longrightarrow> rwstep cores tid n s (s\<lparr>rpcs := (rpcs s)(t := pc)\<rparr>)"
| leave_shared: "t < n \<Longrightarrow> rpcs s t = S_In \<Longrightarrow> rwstep cores tid n s (s\<lparr>rpcs := (rpcs s)(t := S_Unlock)\<rparr>)"
| leave_exclusive: "t < n \<Longrightarrow> rpcs s t = X_In \<Longrightarrow> rwstep cores tid n s (s\<lparr>rpcs := (rpcs s)(t := X_Unlock)\<rparr>)"
| run: "t < n \<Longrightarrow> rw_run (thread2idx cores (tid t)) (rpcs s t) (rlock s) = (pc, l) \<Longrightarrow>
    rwstep cores tid n s (s\<lparr>rpcs := (rpcs s)(t := pc), rlock := l\<rparr>)"
| returned: "t < n \<Longrightarrow> rpcs s t = Ret b \<Longrightarrow> rwstep cores tid n s (s\<lparr>rpcs := (rpcs s)(t := Idle)\<rparr>)"

inductive rwreach :: "nat \<Rightarrow> (nat \<Rightarrow> nat) \<Rightarrow> nat \<Rightarrow> rwsys \<Rightarrow> bool"
  for cores :: nat and tid :: "nat \<Rightarrow> nat" and n :: nat where
  new: "0 < cores \<Longrightarrow> n < 2 ^ 31 \<Longrightarrow> rwreach cores tid n \<lparr>rlock = DCLCRWLock_new cores, rpcs = (\<lambda>_. Idle)\<rparr>"
| step: "rwreach cores tid n s \<Longrightarrow> rwstep cores tid n s s' \<Longrightarrow> rwreach cores tid n s'"

section \<open>The invariant\<close>

text \<open>The phases in which a reader is counted, those in which it has passed the check, and the writer's.\<close>

fun counted :: "rwpc \<Rightarrow> bool" where
  "counted (S_Check only) = True"
| "counted (S_Undo only) = True"
| "counted S_In = True"
| "counted S_Unlock = True"
| "counted pc = False"

definition reading :: "rwpc \<Rightarrow> bool" where
  "reading pc \<longleftrightarrow> pc = S_In \<or> pc = S_Unlock"

fun writing :: "rwpc \<Rightarrow> bool" where
  "writing (X_Scan i) = True"
| "writing X_In = True"
| "writing X_Unlock = True"
| "writing X_Store = True"
| "writing pc = False"

text \<open>The counters a writer has seen at 0 have no reader that passed the check.\<close>

fun seen :: "nat \<Rightarrow> rwpc \<Rightarrow> nat \<Rightarrow> bool" where
  "seen len (X_Scan j) i = (i < j)"
| "seen len pc i = (writing pc \<and> i < len)"

definition readers_at :: "nat \<Rightarrow> (nat \<Rightarrow> nat) \<Rightarrow> nat \<Rightarrow> (nat \<Rightarrow> rwpc) \<Rightarrow> nat \<Rightarrow> nat set" where
  "readers_at cores tid n pcs i = {t. t < n \<and> counted (pcs t) \<and> thread2idx cores (tid t) = i}"

definition rwinv :: "nat \<Rightarrow> (nat \<Rightarrow> nat) \<Rightarrow> nat \<Rightarrow> rwsys \<Rightarrow> bool" where
  "rwinv cores tid n s \<longleftrightarrow>
     0 < cores \<and> n < 2 ^ 31 \<and> countersLength (rlock s) = cores * DCLC_COUNTERS_RATIO \<and>
     (\<forall>i. readersCounters (rlock s) i = of_nat (card (readers_at cores tid n (rpcs s) i))) \<and>
     (writersMutex (rlock s) = (if \<exists>t < n. writing (rpcs s t) then DCLC_RWL_LOCKED else DCLC_RWL_UNLOCKED)) \<and>
     (\<forall>t < n. \<forall>u < n. writing (rpcs s t) \<and> writing (rpcs s u) \<longrightarrow> t = u) \<and>
     (\<forall>t < n. \<forall>u < n. reading (rpcs s u) \<longrightarrow> \<not> seen (countersLength (rlock s)) (rpcs s t) (thread2idx cores (tid u))) \<and>
     (\<forall>t < n. \<forall>j. rpcs s t = X_Scan j \<longrightarrow> DCLC_COUNTERS_RATIO dvd j)"

lemma idx_facts:
  assumes "0 < cores"
  shows "thread2idx cores h < cores * DCLC_COUNTERS_RATIO" "DCLC_COUNTERS_RATIO dvd thread2idx cores h"
  using assms by (simp_all add: thread2idx_def DCLC_COUNTERS_RATIO_def)

lemma readers_finite: "finite (readers_at cores tid n pcs i)"
  by (simp add: readers_at_def)

lemma readers_bound: "card (readers_at cores tid n pcs i) \<le> n"
proof -
  have "card (readers_at cores tid n pcs i) \<le> card {..<n}" by (intro card_mono) (auto simp: readers_at_def)
  then show ?thesis by simp
qed

lemma counter_sint:
  assumes "k < 2 ^ 31"
  shows "sint (of_nat k :: u32) = int k"
proof -
  have "unat (of_nat k :: u32) = k" using assms by (simp add: unat_of_nat)
  then have "uint (of_nat k :: u32) = int k" by (simp add: uint_nat)
  then show ?thesis using assms by (simp add: sint_uint signed_take_bit_eq_if_positive bit_iff_odd take_bit_int_eq_self_iff)
qed

text \<open>A thread that enters or leaves the counted phases.\<close>

lemma readers_upd:
  assumes "t < n"
  shows "counted pc = counted (pcs t) \<Longrightarrow> readers_at cores tid n (pcs(t := pc)) i = readers_at cores tid n pcs i"
    "counted pc \<Longrightarrow> readers_at cores tid n (pcs(t := pc)) i =
       (if thread2idx cores (tid t) = i then insert t (readers_at cores tid n pcs i) else readers_at cores tid n pcs i)"
    "\<not> counted pc \<Longrightarrow> readers_at cores tid n (pcs(t := pc)) i = readers_at cores tid n pcs i - {t}"
  using assms by (auto simp: readers_at_def)

lemma card_in: "\<not> counted (pcs t) \<Longrightarrow> card (insert t (readers_at cores tid n pcs i)) = Suc (card (readers_at cores tid n pcs i))"
  by (simp add: readers_finite card_insert_if) (simp add: readers_at_def)

lemma card_out:
  assumes "t < n" "counted (pcs t)"
  shows "card (readers_at cores tid n pcs i - {t}) =
    (if thread2idx cores (tid t) = i then card (readers_at cores tid n pcs i) - 1 else card (readers_at cores tid n pcs i))"
    "thread2idx cores (tid t) = i \<Longrightarrow> 0 < card (readers_at cores tid n pcs i)"
proof -
  have m: "t \<in> readers_at cores tid n pcs i \<longleftrightarrow> thread2idx cores (tid t) = i" using assms by (simp add: readers_at_def)
  then show "card (readers_at cores tid n pcs i - {t}) =
    (if thread2idx cores (tid t) = i then card (readers_at cores tid n pcs i) - 1 else card (readers_at cores tid n pcs i))"
    by (simp add: readers_finite)
  show "thread2idx cores (tid t) = i \<Longrightarrow> 0 < card (readers_at cores tid n pcs i)" using m by (auto simp: card_gt_0_iff readers_finite)
qed

lemma rwinv_parts:
  assumes "rwinv cores tid n s"
  shows "0 < cores" "n < 2 ^ 31" "countersLength (rlock s) = cores * DCLC_COUNTERS_RATIO"
    "\<And>i. readersCounters (rlock s) i = of_nat (card (readers_at cores tid n (rpcs s) i))"
    "writersMutex (rlock s) = (if \<exists>t < n. writing (rpcs s t) then DCLC_RWL_LOCKED else DCLC_RWL_UNLOCKED)"
    "\<And>t u. t < n \<Longrightarrow> u < n \<Longrightarrow> writing (rpcs s t) \<Longrightarrow> writing (rpcs s u) \<Longrightarrow> t = u"
    "\<And>t u. t < n \<Longrightarrow> u < n \<Longrightarrow> reading (rpcs s u) \<Longrightarrow> \<not> seen (countersLength (rlock s)) (rpcs s t) (thread2idx cores (tid u))"
    "\<And>t j. t < n \<Longrightarrow> rpcs s t = X_Scan j \<Longrightarrow> DCLC_COUNTERS_RATIO dvd j"
  using assms unfolding rwinv_def by blast+

lemma seen_writing: "seen len pc i \<Longrightarrow> writing pc"
  by (cases pc) auto

text \<open>One thread moves from its program counter to \<open>pc\<close>; \<open>l\<close> is the lock behind the step.\<close>

lemma rw_move:
  assumes I: "rwinv cores tid n s" and t: "t < n"
    and len: "countersLength l = countersLength (rlock s)"
    and cnt: "\<And>i. readersCounters l i = of_nat (card (readers_at cores tid n ((rpcs s)(t := pc)) i))"
    and mtx: "writersMutex l = (if writing pc \<or> (\<exists>u < n. u \<noteq> t \<and> writing (rpcs s u)) then DCLC_RWL_LOCKED else DCLC_RWL_UNLOCKED)"
    and one: "writing pc \<Longrightarrow> \<forall>u < n. u \<noteq> t \<longrightarrow> \<not> writing (rpcs s u)"
    and ent: "reading pc \<Longrightarrow> \<forall>u < n. \<not> seen (countersLength (rlock s)) (((rpcs s)(t := pc)) u) (thread2idx cores (tid t))"
    and see: "\<And>u. u < n \<Longrightarrow> u \<noteq> t \<Longrightarrow> reading (rpcs s u) \<Longrightarrow> \<not> seen (countersLength (rlock s)) pc (thread2idx cores (tid u))"
    and dv: "\<And>j. pc = X_Scan j \<Longrightarrow> DCLC_COUNTERS_RATIO dvd j"
  shows "rwinv cores tid n (s\<lparr>rpcs := (rpcs s)(t := pc), rlock := l\<rparr>)"
proof -
  note P = rwinv_parts [OF I]
  have "(\<exists>u < n. writing (((rpcs s)(t := pc)) u)) \<longleftrightarrow> writing pc \<or> (\<exists>u < n. u \<noteq> t \<and> writing (rpcs s u))" using t by auto
  moreover have "u = v" if "u < n" "v < n" "writing (((rpcs s)(t := pc)) u)" "writing (((rpcs s)(t := pc)) v)" for u v
    using that one P(6) [of u v] by (auto split: if_splits)
  moreover have "\<not> seen (countersLength l) (((rpcs s)(t := pc)) v) (thread2idx cores (tid u))"
    if "v < n" "u < n" "reading (((rpcs s)(t := pc)) u)" for u v
    using that ent see [of u] P(7) [of v u] len by (auto split: if_splits)
  moreover have "DCLC_COUNTERS_RATIO dvd j" if "u < n" "((rpcs s)(t := pc)) u = X_Scan j" for u j
    using that dv P(8) [of u j] by (auto split: if_splits)
  ultimately show ?thesis using P(1-3) cnt mtx len by (simp add: rwinv_def)
qed

text \<open>Moves that keep the lock.\<close>

lemma rw_stay:
  assumes I: "rwinv cores tid n s" and t: "t < n" and c: "counted pc = counted (rpcs s t)" and w: "writing pc = writing (rpcs s t)"
    and r: "reading pc \<Longrightarrow> reading (rpcs s t) \<or> writersMutex (rlock s) = DCLC_RWL_UNLOCKED"
    and see: "\<And>u. u < n \<Longrightarrow> u \<noteq> t \<Longrightarrow> reading (rpcs s u) \<Longrightarrow> \<not> seen (countersLength (rlock s)) pc (thread2idx cores (tid u))"
    and dv: "\<And>j. pc = X_Scan j \<Longrightarrow> DCLC_COUNTERS_RATIO dvd j"
  shows "rwinv cores tid n (s\<lparr>rpcs := (rpcs s)(t := pc)\<rparr>)"
proof -
  note P = rwinv_parts [OF I]
  have "\<forall>u < n. \<not> seen (countersLength (rlock s)) (((rpcs s)(t := pc)) u) (thread2idx cores (tid t))" if "reading pc"
  proof (intro allI impI)
    fix u assume u: "u < n"
    have np: "\<not> writing pc" using that by (auto simp: reading_def)
    show "\<not> seen (countersLength (rlock s)) (((rpcs s)(t := pc)) u) (thread2idx cores (tid t))"
    proof (cases "u = t")
      case True then show ?thesis using np seen_writing by auto
    next
      case False
      from r [OF that] show ?thesis
      proof
        assume "reading (rpcs s t)" then show ?thesis using P(7) [OF u t] False by simp
      next
        assume "writersMutex (rlock s) = DCLC_RWL_UNLOCKED"
        then have "\<not> writing (rpcs s u)" using P(5) u by (auto simp: DCLC_RWL_LOCKED_def DCLC_RWL_UNLOCKED_def split: if_splits)
        then show ?thesis using seen_writing False by auto
      qed
    qed
  qed
  moreover have "(\<exists>u < n. writing (rpcs s u)) \<longleftrightarrow> writing pc \<or> (\<exists>u < n. u \<noteq> t \<and> writing (rpcs s u))" using t w by auto
  moreover have "writing pc \<Longrightarrow> \<forall>u < n. u \<noteq> t \<longrightarrow> \<not> writing (rpcs s u)" using w P(6) t by blast
  ultimately have "rwinv cores tid n (s\<lparr>rpcs := (rpcs s)(t := pc), rlock := rlock s\<rparr>)"
    using P(4,5) readers_upd(1) [where pcs = "rpcs s", OF t c] see dv by (intro rw_move [OF I t]) simp_all
  then show ?thesis by simp
qed

text \<open>Counting in and out.\<close>

lemma rw_count_in:
  assumes I: "rwinv cores tid n s" and t: "t < n" and pc: "\<not> counted (rpcs s t)" "\<not> writing (rpcs s t)"
  shows "rwinv cores tid n (s\<lparr>rpcs := (rpcs s)(t := S_Check only), rlock := bump (thread2idx cores (tid t)) 1 (rlock s)\<rparr>)"
proof (rule rw_move [OF I t])
  note P = rwinv_parts [OF I]
  show "readersCounters (bump (thread2idx cores (tid t)) 1 (rlock s)) i =
      of_nat (card (readers_at cores tid n ((rpcs s)(t := S_Check only)) i))" for i
    using readers_upd(2) [OF t, of "S_Check only"] card_in [of "rpcs s" t] P(4) pc(1) by (simp add: bump_def add.commute)
  show "writersMutex (bump (thread2idx cores (tid t)) 1 (rlock s)) =
      (if writing (S_Check only) \<or> (\<exists>u < n. u \<noteq> t \<and> writing (rpcs s u)) then DCLC_RWL_LOCKED else DCLC_RWL_UNLOCKED)"
    using P(5) pc(2) by (auto simp: bump_def)
qed (simp_all add: bump_def reading_def)

lemma rw_count_out:
  assumes I: "rwinv cores tid n s" and t: "t < n" and c: "counted (rpcs s t)" and pc: "\<not> counted pc" "\<not> writing pc"
  shows "rwinv cores tid n (s\<lparr>rpcs := (rpcs s)(t := pc), rlock := bump (thread2idx cores (tid t)) (-1) (rlock s)\<rparr>)"
proof (rule rw_move [OF I t])
  note P = rwinv_parts [OF I]
  have nw: "\<not> writing (rpcs s t)" using c by (cases "rpcs s t") auto
  show "readersCounters (bump (thread2idx cores (tid t)) (-1) (rlock s)) i =
      of_nat (card (readers_at cores tid n ((rpcs s)(t := pc)) i))" for i
    using readers_upd(3) [OF t pc(1)] card_out [OF t, of "rpcs s" cores tid i] c P(4) by (auto simp: bump_def of_nat_diff)
  show "writersMutex (bump (thread2idx cores (tid t)) (-1) (rlock s)) =
      (if writing pc \<or> (\<exists>u < n. u \<noteq> t \<and> writing (rpcs s u)) then DCLC_RWL_LOCKED else DCLC_RWL_UNLOCKED)"
    using P(5) pc(2) nw by (auto simp: bump_def)
  show "\<not> seen (countersLength (rlock s)) pc (thread2idx cores (tid u))" for u using pc(2) seen_writing by blast
qed (use pc in \<open>auto simp: bump_def reading_def\<close>)

section \<open>The steps\<close>

lemma locked_ne [simp]: "DCLC_RWL_LOCKED \<noteq> DCLC_RWL_UNLOCKED" "DCLC_RWL_UNLOCKED \<noteq> DCLC_RWL_LOCKED"
  by (simp_all add: DCLC_RWL_LOCKED_def DCLC_RWL_UNLOCKED_def)

lemma scan_inv:
  assumes I: "rwinv cores tid n s" and t: "t < n" and pc: "rpcs s t = X_Scan j"
  shows "rwinv cores tid n (s\<lparr>rpcs := (rpcs s)(t := fst (exclusive_step (X_Scan j) (rlock s)))\<rparr>)"
proof -
  note P = rwinv_parts [OF I]
  let ?len = "countersLength (rlock s)" and ?idx = "\<lambda>u. thread2idx cores (tid u)"
  have dv: "DCLC_COUNTERS_RATIO dvd j" using P(8) [OF t pc] .
  have old: "j \<le> ?idx u" if "u < n" "reading (rpcs s u)" for u using P(7) [OF t that] pc by simp
  show ?thesis
  proof (cases "j < ?len")
    case False
    have "\<not> seen ?len X_In (?idx u)" if "u < n" "reading (rpcs s u)" for u
      using idx_facts(1) [OF P(1), of "tid u"] P(3) old [OF that] False by simp
    then have "rwinv cores tid n (s\<lparr>rpcs := (rpcs s)(t := X_In)\<rparr>)"
      using pc by (intro rw_stay [OF I t]) (simp_all add: reading_def)
    then show ?thesis using False by simp
  next
    case len: True
    show ?thesis
    proof (cases "sint (readersCounters (rlock s) j) > 0")
      case True
      then show ?thesis using len pc I by (simp add: fun_upd_idem)
    next
      case False
      have "card (readers_at cores tid n (rpcs s) j) < 2 ^ 31" using readers_bound [of cores tid n "rpcs s" j] P(2) by linarith
      then have "card (readers_at cores tid n (rpcs s) j) = 0" using False P(4) [of j] counter_sint by simp
      then have e: "readers_at cores tid n (rpcs s) j = {}" using readers_finite by simp
      have "\<not> seen ?len (X_Scan (j + DCLC_COUNTERS_RATIO)) (?idx u)" if u: "u < n" "reading (rpcs s u)" for u
      proof -
        have "counted (rpcs s u)" using u(2) by (auto simp: reading_def)
        then have "?idx u \<noteq> j" using e u(1) by (auto simp: readers_at_def)
        then have "j < ?idx u" using old [OF u] by simp
        moreover have "DCLC_COUNTERS_RATIO dvd ?idx u - j" using idx_facts(2) [OF P(1)] dv by (simp add: dvd_diff_nat)
        ultimately have "DCLC_COUNTERS_RATIO \<le> ?idx u - j" by (intro dvd_imp_le) simp_all
        then show ?thesis using \<open>j < ?idx u\<close> by simp
      qed
      then have "rwinv cores tid n (s\<lparr>rpcs := (rpcs s)(t := X_Scan (j + DCLC_COUNTERS_RATIO))\<rparr>)"
        using pc dv by (intro rw_stay [OF I t]) (auto simp: reading_def)
      then show ?thesis using len False by simp
    qed
  qed
qed

lemma rw_run_inv:
  assumes I: "rwinv cores tid n s" and t: "t < n" and st: "rw_run (thread2idx cores (tid t)) (rpcs s t) (rlock s) = (pc, l)"
  shows "rwinv cores tid n (s\<lparr>rpcs := (rpcs s)(t := pc), rlock := l\<rparr>)"
proof -
  note P = rwinv_parts [OF I]
  have same: "rwinv cores tid n (s\<lparr>rpcs := (rpcs s)(t := pc), rlock := l\<rparr>)"
    if "rwinv cores tid n (s\<lparr>rpcs := (rpcs s)(t := pc)\<rparr>)" "l = rlock s" using that by simp
  note stay = same [OF rw_stay [OF I t]]
  have none: "\<forall>u < n. \<not> writing (rpcs s u)" if "writersMutex (rlock s) = DCLC_RWL_UNLOCKED"
    using that P(5) by (auto split: if_splits)
  show ?thesis
  proof (cases "rpcs s t")
    case (S_Add only)
    then show ?thesis using st rw_count_in [OF I t, of only] by (simp add: rw_run_def)
  next
    case (S_Check only)
    then show ?thesis using st by (intro stay) (auto simp: rw_run_def reading_def split: if_splits)
  next
    case (S_Undo only)
    then show ?thesis using st rw_count_out [OF I t, of pc] by (auto simp: rw_run_def)
  next
    case S_Wait
    then show ?thesis using st by (intro stay) (auto simp: rw_run_def reading_def split: if_splits)
  next
    case S_Unlock
    then show ?thesis using st rw_count_out [OF I t, of pc] by (auto simp: rw_run_def)
  next
    case X_Cas
    show ?thesis
    proof (cases "writersMutex (rlock s) = DCLC_RWL_UNLOCKED")
      case True
      have "rwinv cores tid n (s\<lparr>rpcs := (rpcs s)(t := X_Scan 0), rlock := (rlock s)\<lparr>writersMutex := DCLC_RWL_LOCKED\<rparr>\<rparr>)"
        using P(4) readers_upd(1) [where pcs = "rpcs s" and pc = "X_Scan 0", OF t] X_Cas none [OF True]
        by (intro rw_move [OF I t]) (auto simp: reading_def)
      then show ?thesis using st X_Cas True by (simp add: rw_run_def)
    next
      case False
      then show ?thesis using st X_Cas I by (auto simp: rw_run_def fun_upd_idem)
    qed
  next
    case (X_Scan j)
    then have "pc = fst (exclusive_step (X_Scan j) (rlock s))" "l = rlock s" using st by (auto simp: rw_run_def split: if_splits)
    then show ?thesis using scan_inv [OF I t X_Scan] by simp
  next
    case X_Unlock
    then have "pc = X_Store" "l = rlock s" using st P(5) t by (auto simp: rw_run_def split: if_splits)
    moreover have "\<not> seen (countersLength (rlock s)) X_Store (thread2idx cores (tid u))" if "u < n" "reading (rpcs s u)" for u
      using P(7) [OF t that] X_Unlock by simp
    ultimately show ?thesis using X_Unlock by (intro stay) (auto simp: reading_def)
  next
    case X_Store
    have "\<forall>u < n. u \<noteq> t \<longrightarrow> \<not> writing (rpcs s u)" using P(6) [OF t] X_Store by auto
    then have "rwinv cores tid n (s\<lparr>rpcs := (rpcs s)(t := Ret True), rlock := (rlock s)\<lparr>writersMutex := DCLC_RWL_UNLOCKED\<rparr>\<rparr>)"
      using P(4) readers_upd(1) [where pcs = "rpcs s" and pc = "Ret True", OF t] X_Store
      by (intro rw_move [OF I t]) (auto simp: reading_def)
    then show ?thesis using st X_Store by (simp add: rw_run_def)
  qed (use st I in \<open>auto simp: rw_run_def fun_upd_idem\<close>)
qed

lemma rwinv_step: "rwstep cores tid n s s' \<Longrightarrow> rwinv cores tid n s \<Longrightarrow> rwinv cores tid n s'"
proof (induction rule: rwstep.induct)
  case (leave_shared t s)
  then show ?case by (intro rw_stay) (auto simp: reading_def)
next
  case (leave_exclusive t s)
  have "\<not> seen (countersLength (rlock s)) X_Unlock (thread2idx cores (tid u))" if "u < n" "reading (rpcs s u)" for u
    using rwinv_parts(7) [OF leave_exclusive.prems leave_exclusive.hyps(1) that] leave_exclusive.hyps(2) by simp
  then show ?case using leave_exclusive by (intro rw_stay) (auto simp: reading_def)
next
  case (run t s pc l)
  then show ?case using rw_run_inv by blast
next
  case (call t s pc)
  then show ?case by (intro rw_stay) (auto simp: reading_def)
next
  case (returned t s b)
  then show ?case by (intro rw_stay) (auto simp: reading_def)
qed

lemma rwreach_inv: "rwreach cores tid n s \<Longrightarrow> rwinv cores tid n s"
proof (induction rule: rwreach.induct)
  case new
  then show ?case by (simp add: rwinv_def DCLCRWLock_new_def readers_at_def reading_def)
qed (blast intro: rwinv_step)

section \<open>The property\<close>

text \<open>C21: In every interleaving of \<open>sharedLock\<close>, \<open>trySharedLock\<close>, \<open>exclusiveLock\<close> and the unlocks of fewer than
  \<open>2 ^ 31\<close> threads, whatever their hashes, a thread that has the lock exclusively is alone: no other thread has it
  exclusively or shared. The unlocks find the state they expect: \<open>sharedUnlock\<close> a positive counter and
  \<open>exclusiveUnlock\<close> the writers' mutex locked, so they never report an error.\<close>

theorem rw_lock_exclusion:
  assumes "rwreach cores tid n s" "t < n" "u < n"
  shows "(rpcs s t = X_In \<and> u \<noteq> t \<longrightarrow> rpcs s u \<noteq> X_In \<and> rpcs s u \<noteq> S_In) \<and>
    (rpcs s t = S_Unlock \<longrightarrow> fst (rw_run (thread2idx cores (tid t)) S_Unlock (rlock s)) = Ret True) \<and>
    (rpcs s t = X_Unlock \<longrightarrow> fst (rw_run (thread2idx cores (tid t)) X_Unlock (rlock s)) = X_Store)"
proof -
  have I: "rwinv cores tid n s" by (rule rwreach_inv [OF assms(1)])
  note P = rwinv_parts [OF I]
  have "rpcs s u \<noteq> X_In" if "rpcs s t = X_In" "u \<noteq> t" using P(6) [OF assms(2,3)] that by auto
  moreover have "rpcs s u \<noteq> S_In" if "rpcs s t = X_In"
    using P(7) [OF assms(2,3)] that idx_facts(1) [OF P(1), of "tid u"] P(3) by (auto simp: reading_def)
  moreover have "fst (rw_run (thread2idx cores (tid t)) S_Unlock (rlock s)) = Ret True" if "rpcs s t = S_Unlock"
  proof -
    let ?c = "card (readers_at cores tid n (rpcs s) (thread2idx cores (tid t)))"
    have "0 < ?c" using card_out(2) [OF assms(2), of "rpcs s" cores tid] that by simp
    moreover have "?c < 2 ^ 31" using readers_bound [of cores tid n "rpcs s"] P(2) le_less_trans by blast
    ultimately show ?thesis using P(4) counter_sint [of ?c] by (simp add: rw_run_def)
  qed
  moreover have "fst (rw_run (thread2idx cores (tid t)) X_Unlock (rlock s)) = X_Store" if "rpcs s t = X_Unlock"
  proof -
    have "writing (rpcs s t)" using that by simp
    then have "writersMutex (rlock s) = DCLC_RWL_LOCKED" using P(5) assms(2) by auto
    then show ?thesis by (simp add: rw_run_def)
  qed
  ultimately show ?thesis by blast
qed

text \<open>Two cores and two threads; thread 0 has the lock exclusively, thread 1 has been counted and waits.\<close>

lemma rw_run_reach:
  assumes "rwreach cores tid n \<lparr>rlock = l, rpcs = f\<rparr>" "t < n" "rw_run (thread2idx cores (tid t)) (f t) l = (pc, l')"
  shows "rwreach cores tid n \<lparr>rlock = l', rpcs = f(t := pc)\<rparr>"
  using rwreach.step [OF assms(1) rwstep.run [where t = t and pc = pc and l = l']] assms(2,3) by simp

lemma exclusive_reach: "\<exists>l. rwreach 2 id 2 \<lparr>rlock = l, rpcs = (\<lambda>_. Idle)(0 := X_In)\<rparr>"
proof -
  let ?l = "(DCLCRWLock_new 2)\<lparr>writersMutex := DCLC_RWL_LOCKED\<rparr>" and ?f = "\<lambda>pc. (\<lambda>_. Idle)(0 := pc)"
  have "rwreach 2 id 2 \<lparr>rlock = DCLCRWLock_new 2, rpcs = (\<lambda>_. Idle)\<rparr>" by (rule rwreach.new) simp_all
  from rwreach.step [OF this rwstep.call [where t = 0 and pc = X_Cas]]
  have "rwreach 2 id 2 \<lparr>rlock = DCLCRWLock_new 2, rpcs = ?f X_Cas\<rparr>" by simp
  from rw_run_reach [OF this, of 0 "X_Scan 0" ?l] have "rwreach 2 id 2 \<lparr>rlock = ?l, rpcs = ?f (X_Scan 0)\<rparr>"
    by (simp add: rw_run_def DCLCRWLock_new_def)
  from rw_run_reach [OF this, of 0 "X_Scan 48" ?l] have "rwreach 2 id 2 \<lparr>rlock = ?l, rpcs = ?f (X_Scan 48)\<rparr>"
    by (simp add: rw_run_def DCLCRWLock_new_def DCLC_COUNTERS_RATIO_def)
  from rw_run_reach [OF this, of 0 "X_Scan 96" ?l] have "rwreach 2 id 2 \<lparr>rlock = ?l, rpcs = ?f (X_Scan 96)\<rparr>"
    by (simp add: rw_run_def DCLCRWLock_new_def DCLC_COUNTERS_RATIO_def)
  from rw_run_reach [OF this, of 0 X_In ?l] have "rwreach 2 id 2 \<lparr>rlock = ?l, rpcs = ?f X_In\<rparr>"
    by (simp add: rw_run_def DCLCRWLock_new_def DCLC_COUNTERS_RATIO_def)
  then show ?thesis by blast
qed

lemma rw_lock_exclusion_witness:
  "\<exists>s. rwreach 2 id 2 s \<and> rpcs s 0 = X_In \<and> rpcs s 1 = S_Check False \<and> rpcs s 1 \<noteq> S_In"
proof -
  from exclusive_reach obtain l where "rwreach 2 id 2 \<lparr>rlock = l, rpcs = (\<lambda>_. Idle)(0 := X_In)\<rparr>" by blast
  from rwreach.step [OF this rwstep.call [where t = 1 and pc = "S_Add False"]]
  have "rwreach 2 id 2 \<lparr>rlock = l, rpcs = (\<lambda>_. Idle)(0 := X_In, 1 := S_Add False)\<rparr>" by simp
  from rw_run_reach [OF this, of 1 "S_Check False" "bump (thread2idx 2 (id 1)) 1 l"]
  have R: "rwreach 2 id 2 \<lparr>rlock = bump (thread2idx 2 (id 1)) 1 l, rpcs = (\<lambda>_. Idle)(0 := X_In, 1 := S_Check False)\<rparr>"
    (is "rwreach _ _ _ ?s") by (simp add: rw_run_def)
  from rw_lock_exclusion [OF R, of 0 1] have "rpcs ?s 1 \<noteq> S_In" by simp
  with R show ?thesis by (intro exI [of _ ?s]) simp
qed

end
