(* ===== verification/Fam_Wrappers.thy ===== *)
theory Fam_Wrappers
  imports Fam_Atomic
begin

text \<open>
  The inline functions around the atomics: the \<open>_unpadded\<close> names of \<open>include/nvmm/fam_atomic_x86.h\<close> and the
  unsigned ones of \<open>include/nvmm/nvmm_fam_atomic.h\<close>. A conversion between a signed integer and the unsigned one of
  the same width keeps the bits, so it is the identity on the words of the model.
\<close>

section \<open>The unpadded names\<close>

definition fam_atomic_32_fetch_and_add_unpadded where
  "fam_atomic_32_fetch_and_add_unpadded address increment = fam_atomic_32_fetch_add address increment"

definition fam_atomic_64_fetch_and_add_unpadded where
  "fam_atomic_64_fetch_and_add_unpadded address increment = fam_atomic_64_fetch_add address increment"

definition fam_atomic_32_swap_unpadded where
  "fam_atomic_32_swap_unpadded address v = fam_atomic_32_swap address v"

definition fam_atomic_64_swap_unpadded where
  "fam_atomic_64_swap_unpadded address v = fam_atomic_64_swap address v"

definition fam_atomic_128_swap_unpadded where
  "fam_atomic_128_swap_unpadded env address v = fam_atomic_128_swap env address v"

definition fam_atomic_32_compare_and_store_unpadded where
  "fam_atomic_32_compare_and_store_unpadded address compare store = fam_atomic_32_compare_store address compare store"

definition fam_atomic_64_compare_and_store_unpadded where
  "fam_atomic_64_compare_and_store_unpadded address compare store = fam_atomic_64_compare_store address compare store"

definition fam_atomic_128_compare_and_store_unpadded where
  "fam_atomic_128_compare_and_store_unpadded env address compare store = fam_atomic_128_compare_store env address compare store"

definition fam_atomic_32_read_unpadded where
  "fam_atomic_32_read_unpadded address = fam_atomic_32_read address"

definition fam_atomic_64_read_unpadded where
  "fam_atomic_64_read_unpadded address = fam_atomic_64_read address"

definition fam_atomic_128_read_unpadded where
  "fam_atomic_128_read_unpadded env address = fam_atomic_128_read env address"

definition fam_atomic_32_write_unpadded where
  "fam_atomic_32_write_unpadded address v = fam_atomic_32_write address v"

definition fam_atomic_64_write_unpadded where
  "fam_atomic_64_write_unpadded address v = fam_atomic_64_write address v"

definition fam_atomic_128_write_unpadded where
  "fam_atomic_128_write_unpadded env address v = fam_atomic_128_write env address v"

definition fam_atomic_32_fetch_and_unpadded where
  "fam_atomic_32_fetch_and_unpadded env address arg = fam_atomic_32_fetch_and env address arg"

definition fam_atomic_64_fetch_and_unpadded where
  "fam_atomic_64_fetch_and_unpadded env address arg = fam_atomic_64_fetch_and env address arg"

definition fam_atomic_32_fetch_or_unpadded where
  "fam_atomic_32_fetch_or_unpadded env address arg = fam_atomic_32_fetch_or env address arg"

definition fam_atomic_64_fetch_or_unpadded where
  "fam_atomic_64_fetch_or_unpadded env address arg = fam_atomic_64_fetch_or env address arg"

definition fam_atomic_32_fetch_xor_unpadded where
  "fam_atomic_32_fetch_xor_unpadded env address arg = fam_atomic_32_fetch_xor env address arg"

definition fam_atomic_64_fetch_xor_unpadded where
  "fam_atomic_64_fetch_xor_unpadded env address arg = fam_atomic_64_fetch_xor env address arg"

section \<open>The unsigned names\<close>

definition fam_atomic_u32_read where "fam_atomic_u32_read addr = fam_atomic_32_read addr"

definition fam_atomic_u64_read where "fam_atomic_u64_read addr = fam_atomic_64_read addr"

definition fam_atomic_u128_read where "fam_atomic_u128_read env address = fam_atomic_128_read env address"

definition fam_atomic_u32_write where "fam_atomic_u32_write addr v = fam_atomic_32_write addr v"

definition fam_atomic_u64_write where "fam_atomic_u64_write addr v = fam_atomic_64_write addr v"

definition fam_atomic_u128_write where "fam_atomic_u128_write env addr v = fam_atomic_128_write env addr v"

definition fam_atomic_u32_fetch_and_add where
  "fam_atomic_u32_fetch_and_add addr increment = fam_atomic_32_fetch_add addr increment"

definition fam_atomic_u64_fetch_and_add where
  "fam_atomic_u64_fetch_and_add addr increment = fam_atomic_64_fetch_add addr increment"

definition fam_atomic_u32_compare_and_store where
  "fam_atomic_u32_compare_and_store addr oldval newval = fam_atomic_32_compare_store addr oldval newval"

definition fam_atomic_u64_compare_and_store where
  "fam_atomic_u64_compare_and_store addr oldval newval = fam_atomic_64_compare_store addr oldval newval"

definition fam_atomic_u128_compare_and_store where
  "fam_atomic_u128_compare_and_store env addr oldval newval = fam_atomic_128_compare_store env addr oldval newval"

definition fam_atomic_32_fetch_and_add where
  "fam_atomic_32_fetch_and_add addr increment = fam_atomic_32_fetch_add addr increment"

definition fam_atomic_64_fetch_and_add where
  "fam_atomic_64_fetch_and_add addr increment = fam_atomic_64_fetch_add addr increment"

definition fam_atomic_32_compare_and_store where
  "fam_atomic_32_compare_and_store addr oldval newval = fam_atomic_32_compare_store addr oldval newval"

definition fam_atomic_64_compare_and_store where
  "fam_atomic_64_compare_and_store addr oldval newval = fam_atomic_64_compare_store addr oldval newval"

definition fam_atomic_128_compare_and_store where
  "fam_atomic_128_compare_and_store env addr oldval newval = fam_atomic_128_compare_store env addr oldval newval"

text \<open>\<open>nvmm_read\<close> is an atomic read if the memory is not cache coherent, and a plain load otherwise.\<close>

definition nvmm_read :: "bool \<Rightarrow> nat \<Rightarrow> famem \<Rightarrow> (u64 \<times> famem) option" where
  "nvmm_read NON_CACHE_COHERENT addr m =
     (if NON_CACHE_COHERENT then fam_atomic_u64_read addr m else Some (load64 m addr, m))"

section \<open>What a client relies on\<close>

lemma nvmm_read_load: "nvmm_read ncc addr m = Some (load64 m addr, m)"
  by (simp add: nvmm_read_def fam_atomic_u64_read_def)

text \<open>The loop with which a counter is advanced by compare-and-store, as the allocators do it: the store takes
  place exactly when the value that was read is still there.\<close>

lemma u64_cas_after_read:
  assumes "fam_atomic_u64_read a m = Some (old, m0)"
  shows "\<exists>seen m2. fam_atomic_u64_compare_and_store a old new (e m0) = Some (seen, m2) \<and>
    (seen = old \<longrightarrow> m2 = store64 (e m0) a new) \<and> (seen \<noteq> old \<longrightarrow> m2 = e m0)"
  using assms by (auto simp: fam_atomic_u64_read_def fam_atomic_u64_compare_and_store_def)

end
