(* ===== verification/Epoch_Op.thy ===== *)
theory Epoch_Op
  imports Epoch_Manager Process_Id
begin

text \<open>
  The critical section as an object, \<open>src/shelf_usage/epoch_op.cc\<close>, whose constructor enters and whose destructor
  leaves it, and the processes that take part, \<open>src/shelf_usage/participant_manager.{h,cc}\<close>; what \<open>kill (2)\<close>
  answers is a parameter.
\<close>

section \<open>EpochOp\<close>

definition EpochOp_new :: "clock \<Rightarrow> emgr \<Rightarrow> emgr" where
  "EpochOp_new clk em = enter_critical clk em"

definition EpochOp_delete :: "emgr \<Rightarrow> emgr" where
  "EpochOp_delete em = exit_critical em"

definition op_reported_epoch :: "clock \<Rightarrow> emgr \<Rightarrow> epoch \<times> emgr" where
  "op_reported_epoch clk em = reported_epoch clk em"

section \<open>ParticipantManager\<close>

definition get_self_id :: "u32 \<Rightarrow> u32" where
  "get_self_id getpid = getpid"

definition is_alive :: "(u32 \<Rightarrow> kill_result) \<Rightarrow> u32 \<Rightarrow> bool result" where
  "is_alive kill_0 pid =
     (case kill_0 pid of Kill_Ok \<Rightarrow> Inr True | Kill_ESRCH \<Rightarrow> Inr False | Kill_Error \<Rightarrow> Inl Runtime_Error)"

definition terminate :: "(u32 \<Rightarrow> kill_result) \<Rightarrow> u32 \<Rightarrow> unit result" where
  "terminate kill_SIGKILL pid =
     (case kill_SIGKILL pid of Kill_Ok \<Rightarrow> Inr () | Kill_ESRCH \<Rightarrow> Inr () | Kill_Error \<Rightarrow> Inl Runtime_Error)"

section \<open>Nested objects\<close>

text \<open>While an object is alive a section is open, whatever objects are made and deleted inside in matching
  order, and the section ends with the outermost. \<open>ops\<close> is the sequence of constructors (\<open>True\<close>) and destructors.\<close>

definition run_op :: "clock \<Rightarrow> bool \<Rightarrow> emgr \<Rightarrow> emgr" where
  "run_op clk b em = (if b then EpochOp_new clk em else EpochOp_delete em)"

fun depth :: "bool list \<Rightarrow> int" where
  "depth [] = 0"
| "depth (b # bs) = (if b then 1 else -1) + depth bs"

lemma run_op_count: "active_epoch_count (run_op clk b em) = active_epoch_count em + (if b then 1 else -1)"
  by (simp add: run_op_def EpochOp_new_def EpochOp_delete_def enter_critical_def exit_critical_def report_frontier_def Let_def)

lemma ops_count: "active_epoch_count (fold (run_op clk) ops em) = active_epoch_count em + depth ops"
  by (induction ops arbitrary: em) (simp_all add: run_op_count)

lemma section_lasts:
  assumes "active_epoch_count em = 0" "0 \<le> depth ops"
  shows "exists_active_critical (fold (run_op clk) ops (EpochOp_new clk em))"
    "depth ops = 0 \<Longrightarrow> \<not> exists_active_critical (EpochOp_delete (fold (run_op clk) ops (EpochOp_new clk em)))"
  using assms run_op_count [of clk True em] run_op_count [of clk False "fold (run_op clk) ops (EpochOp_new clk em)"]
  by (simp_all add: exists_active_critical_def ops_count run_op_def)

text \<open>Inside, an object neither reports nor changes the vector: only the outermost constructor does.\<close>

lemma inner_op_quiet: "active_epoch_count em \<noteq> 0 \<Longrightarrow> vec (EpochOp_new clk em) = vec em"
  by (simp add: EpochOp_new_def enter_critical_def Let_def)

lemma terminate_idempotent: "kill p = Kill_ESRCH \<Longrightarrow> terminate kill p = Inr ()"
  by (simp add: terminate_def)

end
