(* ===== verification/Spec2Isabelle.thy ===== *)
theory Spec2Isabelle
  imports Zone_Props Zone_Recover_Props Membership_Props Fam_Spinlock Shelf_Manager_Props Pool_Props
    Epoch_Props Delayed_Free Memory_Manager_Props Block_Allocator_Props
    Free_Lists_Props Dist_Heap_Props Rw_Lock Fam_Wrappers Epoch_Op
begin

text \<open>
  Gull (\<open>src/\<close>, \<open>include/nvmm/\<close>) manages fabric-attached memory that many processes map at once. Memory comes in
  shelves (files); pools group shelves; on pools stand regions (plain memory) and heaps (buddy allocators), which the
  memory manager names by pool ids. Processes share everything through memory: locks, lock-free stacks, version
  tables and an epoch protocol that delays the reuse of freed memory until no critical section can hold it.

  The theories follow the program from the bottom to the top. In each group the first theories hold the definitions,
  with the names of the code, the \<open>_Correct\<close>, \<open>_Conc\<close> and \<open>_Inv\<close> theories the invariants, the \<open>_Props\<close> theories
  the properties with their concrete instances. Methods of a class are functions of its record (\<open>zone\<close>, \<open>pool\<close>,
  \<open>emgr\<close>, \<open>zheap\<close>, \<open>mm_impl\<close>, \<dots>) and of the memory or world they change, which they return updated.

  \<^bold>\<open>Vocabulary.\<close> \<open>Gull_Prelude\<close>: machine words, \<open>error_code\<close>, the rounding helpers of \<open>common.h\<close>, and the type
  \<open>'a result\<close>, whose left values are the ways the code stops: a failed \<open>assert\<close> (live, as the build does not define
  \<open>NDEBUG\<close>), an exception, an access outside an object, a division by zero, a deadlock. \<open>Gull_Ids\<close>: \<open>shelf_id.h\<close>, \<open>global_ptr.h\<close>,
  \<open>shelf_name.h\<close>; round trips of ids, pointers and paths.

  \<^bold>\<open>Shared memory.\<close> \<open>Fam_Atomic\<close> and \<open>Fam_Wrappers\<close> (\<open>fam_atomic_x86.{c,h}\<close>, \<open>nvmm_fam_atomic.h\<close>): the atomic
  operations, whose loops run against an arbitrary list of changes by others. \<open>Fam_Spinlock\<close>: the ticket lock as
  steps of interleaved processes; exclusion, order and progress, across the wrap of the tickets. \<open>Rw_Lock\<close>
  (\<open>dclcrwlock\<close>): the reader-writer lock of the epoch manager, likewise.

  \<^bold>\<open>Shelves and pools.\<close> \<open>Shelf_File\<close>, \<open>Shelf_Manager\<close>, \<open>Shelf_Region\<close>: files, mappings and the process-wide table of
  mapped shelves, over a model of the directory and of the system calls, each of which an environment may let fail.
  \<open>Membership\<close> (sequential) and \<open>Membership_Conc\<close> (interleaved): the version table of a pool; its laws are the locale
  \<open>versioned_slots\<close>. \<open>Pool\<close> with \<open>Pool_Correct\<close>, \<open>Pool_Add\<close>, \<open>Pool_Create\<close>, \<open>Pool_Recovery\<close>, \<open>Pool_Lifecycle\<close>: adding,
  removing and recovering shelves. \<open>AddShelf\<close> may run for ever when others interfere and is a partial function;
  its properties include that it returns in a quiet world. \<open>Pool_Region\<close>: regions.

  \<^bold>\<open>Zones.\<close> \<open>Zone_Entry\<close>, \<open>Zone_Stack\<close>, \<open>Zone_Arith\<close>, \<open>Zone_Alloc\<close>, \<open>Zone_Merge\<close>, \<open>Zone_Recover\<close>, \<open>Zone_GC\<close>
  (\<open>zone.cc\<close>, \<open>zone_entry.h\<close>, \<open>zone_entry_stack.cc\<close>): the buddy allocator on 64-bit words. \<open>Zone_Inv\<close> says that the
  free and the allocated chunks tile the zone; \<open>Zone_Alloc_Correct\<close>, \<open>Zone_Create\<close>, \<open>Zone_Merge_Correct\<close>,
  \<open>Zone_Merge_Level\<close>, \<open>Zone_Coalesce\<close> and \<open>Zone_Recover_Correct\<close> that the operations keep it and what they do.
  Loops over lists and bitmaps are recursions with a fuel of at least the number of units of the zone, and the
  theorems show that it is enough: they prove a result, never \<open>None\<close>. A merge may stop at each of the crash points
  the code names. \<open>Allocator\<close>: the locale \<open>allocator\<close> of what a client of a zone or a heap relies on.

  \<^bold>\<open>Heaps.\<close> \<open>Zone_Shelf_Heap\<close>, \<open>Epoch_Zone_Heap\<close>, \<open>Epoch_Zone_Admin\<close> (\<open>zone_shelf_heap.cc\<close>, \<open>epoch_zone_heap.cc\<close>): a heap
  of several zones with lists for delayed free. \<open>Zone_Delayed\<close>, \<open>Epoch_Zone_Correct\<close>: its invariant, and the second
  interpretation of \<open>allocator\<close>.

  \<^bold>\<open>Epochs.\<close> \<open>Epoch_Vector\<close>, \<open>Epoch_Manager\<close>, \<open>Epoch_Op\<close> (\<open>epoch_vector.cc\<close>, \<open>epoch_manager_impl.cc\<close>, \<open>epoch_op.cc\<close>,
  \<open>participant_manager.cc\<close>): the operations of one process. \<open>Epoch_System\<close>, \<open>Epoch_Sections\<close>: all processes, one shared
  access at a time, with crashes and kills. \<open>Delayed_Free\<close> puts heap and epochs together: no memory freed in a
  section is handed out again while a section that may hold it is open, as long as slots are released only while their owners are dead.

  \<^bold>\<open>Blocks, lists and owners.\<close> \<open>Fixed_Blocks\<close>, \<open>Block_Allocator\<close> (\<open>smart_shelf\<close>, \<open>fixed_block_allocator.cc\<close>,
  \<open>stack.cc\<close>): a lock-free allocator, interleaved; its sequential stack and \<open>ZoneEntryStack\<close> are the two
  interpretations of the locale \<open>block_stack\<close>. \<open>Free_Lists\<close> (\<open>freelists.cc\<close>): lists of pointers for the owners of
  shelves, as a refinement of lists. \<open>Process_Id\<close>, \<open>Ownership\<close>, \<open>Ownership_Conc\<close> (\<open>process_id.cc\<close>, \<open>ownership.cc\<close>):
  the table of owners, whose items a process takes over when their owner is dead. \<open>Nv_Heap\<close>,
  \<open>Nv_Shelf_Heap\<close> (\<open>shelf_heap.{h,cc}\<close>): the bump allocator of the build without zones, interleaved, and the shelf it
  lives on. \<open>Dist_Heap\<close> (\<open>dist_heap.cc\<close>): the heap of that build, which puts ownership, free lists and pool together;
  \<open>Dist_Heap_Props\<close> shows that it serves one process as one bump allocator and that remote frees reach the owner while the lists have room.

  \<^bold>\<open>Memory manager.\<close> \<open>Boot_Shelf\<close> (\<open>root_shelf.cc\<close>, \<open>epoch_shelf.cc\<close>, \<open>config.cc\<close>, \<open>epoch_manager.cc\<close>), \<open>Memory_Manager\<close>
  and its parts (\<open>memory_manager.cc\<close>): start, restart, creation, lookup and destruction of regions and heaps,
  pointers. \<open>Memory_Manager_Store\<close> is the abstract table of objects that the operations refine.

  \<^bold>\<open>Assumptions.\<close> Memory accesses are sequentially consistent and stores persistent at once. Theorems about the effect
  of file operations assume that no system call fails and that no other process changes the directory meanwhile
  (the definitions cover the failures). Interleaved models count up to the widths of the code: fewer than \<open>2 ^ 64\<close>
  writes of a stack's head, \<open>2 ^ 15\<close> versions of a slot, \<open>2 ^ 31\<close> readers. A process that is sent \<open>SIGKILL\<close> does
  not run again; timeouts may strike at any time. The code releases the slot of a participant that timed out without looking
  whose slot it is by then; the safety of sections and of delayed frees is that of the executions in which
  a slot is released only while its owner is dead (\<open>late_release_unsafe\<close> is an execution of the other kind). The safety of
  ownership is for commands without blanks in their names, whose starting time \<open>GetBtime\<close> reads correctly, and for processes
  that differ in pid or clock tick of the start from all earlier ones. Zones have an initial size of at most the maximal one, and grow
  only where header and data start at one address. Operations on heaps (those of
  \<open>DistHeap\<close> included), free lists and the memory manager are those of one process after the other; the locks under
  them are modelled on their own.

  \<^bold>\<open>Not modelled.\<close> Output and statistics (\<open>Stats\<close>, \<open>print_bitmap\<close>, \<open>to_string\<close>, \<open>log.cc\<close>), the crash points of the tests
  (\<open>crash_points.cc\<close>), cache flushes (\<open>fam.c\<close>), the parsing of the configuration file (yaml-cpp), functions that only
  pass their arguments on (the classes \<open>MemoryManager\<close> and \<open>EpochManager\<close> around their \<open>Impl_\<close>), and the demo and
  examples.
\<close>

end
